(* ===== verification/Prelude.thy ===== *)
theory Prelude
  imports Main "HOL-Library.List_Lexorder" "HOL-Library.Char_ord" "HOL-Library.AList"
    "HOL-Library.Multiset"
begin

text \<open>
  Shared vocabulary of the development: thrown errors and results, the JavaScript values the
  code inspects at its untyped boundaries, ASCII strings with their lexicographic order,
  decimal and hexadecimal text, bigint division, insertion-ordered maps, and the polling of
  an abort callback.
\<close>

named_theorems js_simps \<open>characteristic equations of the JavaScript primitives\<close>

section \<open>Thrown errors and results\<close>

datatype js_error = TypeError string | RangeError string | SyntaxError string | PlainError string

type_synonym 'a result = "js_error + 'a"

definition bindR :: "'e + 'a \<Rightarrow> ('a \<Rightarrow> 'e + 'b) \<Rightarrow> 'e + 'b" where
  "bindR r f = (case r of Inl e \<Rightarrow> Inl e | Inr x \<Rightarrow> f x)"

lemma bindR_simps [simp]: "bindR (Inl e) f = Inl e" "bindR (Inr x) f = f x"
  by (simp_all add: bindR_def)

lemma bindR_cong [fundef_cong]:
  "r = r' \<Longrightarrow> (\<And>x. r' = Inr x \<Longrightarrow> f x = f' x) \<Longrightarrow> bindR r f = bindR r' f'"
  by (cases r') auto

lemma bindR_eq_Inr: "bindR r f = Inr y \<longleftrightarrow> (\<exists>x. r = Inr x \<and> f x = Inr y)"
  by (cases r) auto

lemma bindR_eq_Inl: "bindR r f = Inl e \<longleftrightarrow> r = Inl e \<or> (\<exists>x. r = Inr x \<and> f x = Inl e)"
  by (cases r) auto

text \<open>A for-loop whose body may throw.\<close>

fun foldR :: "('s \<Rightarrow> 'a \<Rightarrow> 'e + 's) \<Rightarrow> 's \<Rightarrow> 'a list \<Rightarrow> 'e + 's" where
  "foldR f s [] = Inr s"
| "foldR f s (x # xs) = bindR (f s x) (\<lambda>s'. foldR f s' xs)"

lemma foldR_append: "foldR f s (xs @ ys) = bindR (foldR f s xs) (\<lambda>s'. foldR f s' ys)"
  by (induction xs arbitrary: s) (auto simp: bindR_def split: sum.splits)

text \<open>\<open>xs.map(f)\<close> where \<open>f\<close> may throw.\<close>

fun mapR :: "('a \<Rightarrow> 'e + 'b) \<Rightarrow> 'a list \<Rightarrow> 'e + 'b list" where
  "mapR f [] = Inr []"
| "mapR f (x # xs) = bindR (f x) (\<lambda>y. bindR (mapR f xs) (\<lambda>ys. Inr (y # ys)))"

lemma mapR_Inr_iff:
  "mapR f xs = Inr ys \<longleftrightarrow> list_all2 (\<lambda>x y. f x = Inr y) xs ys"
  by (induction xs arbitrary: ys) (auto simp: bindR_eq_Inr list_all2_Cons1)

lemma mapR_total: "(\<And>x. x \<in> set xs \<Longrightarrow> f x = Inr (g x)) \<Longrightarrow> mapR f xs = Inr (map g xs)"
  by (induction xs) auto

section \<open>JavaScript values at untyped boundaries\<close>

text \<open>
  A number is either an integral double or one of the others (fractions, infinities, NaN),
  which the code only ever tells apart by \<open>Number.isInteger\<close> and \<open>Number.isSafeInteger\<close>.
\<close>

datatype js_number = Integral int | NonIntegral

datatype json =
  JUndefined
| JNull
| JBool bool
| JNum js_number
| JStr string
| JArr "json list"
| JObj "(string \<times> json) list"

definition js_get :: "json \<Rightarrow> string \<Rightarrow> json" where
  "js_get v k = (case v of JObj fs \<Rightarrow> (case map_of fs k of Some x \<Rightarrow> x | None \<Rightarrow> JUndefined)
                 | _ \<Rightarrow> JUndefined)"

lemma js_get_simps [simp]:
  "js_get (JObj fs) k = (case map_of fs k of Some x \<Rightarrow> x | None \<Rightarrow> JUndefined)"
  "js_get (JArr xs) k = JUndefined"
  by (simp_all add: js_get_def)

text \<open>\<open>Number.MAX_SAFE_INTEGER\<close> and \<open>Number.isSafeInteger\<close> on integral values.\<close>

definition max_safe_integer :: int where
  "max_safe_integer = 2 ^ 53 - 1"

definition is_safe_integer :: "int \<Rightarrow> bool" where
  "is_safe_integer n \<longleftrightarrow> - max_safe_integer \<le> n \<and> n \<le> max_safe_integer"

section \<open>Strings\<close>

text \<open>
  Strings are ASCII character lists; the library's lexicographic order on them is the
  code-unit order of JavaScript's \<open><\<close> and default \<open>sort\<close>.
\<close>

abbreviation code_of :: "char \<Rightarrow> nat" where
  "code_of c \<equiv> of_char c"

definition is_digit :: "char \<Rightarrow> bool" where
  "is_digit c \<longleftrightarrow> 48 \<le> code_of c \<and> code_of c \<le> 57"

definition is_lower_hex_digit :: "char \<Rightarrow> bool" where
  "is_lower_hex_digit c \<longleftrightarrow> is_digit c \<or> (97 \<le> code_of c \<and> code_of c \<le> 102)"

definition is_hex_digit :: "char \<Rightarrow> bool" where
  "is_hex_digit c \<longleftrightarrow> is_lower_hex_digit c \<or> (65 \<le> code_of c \<and> code_of c \<le> 70)"

definition lower_char :: "char \<Rightarrow> char" where
  "lower_char c = (if 65 \<le> code_of c \<and> code_of c \<le> 90 then char_of (code_of c + 32) else c)"

definition toLowerCase :: "string \<Rightarrow> string" where
  "toLowerCase s = map lower_char s"

definition isHex64 :: "string \<Rightarrow> bool" where
  "isHex64 s \<longleftrightarrow> length s = 64 \<and> list_all is_hex_digit s"

definition isLowerHex64 :: "string \<Rightarrow> bool" where
  "isLowerHex64 s \<longleftrightarrow> length s = 64 \<and> list_all is_lower_hex_digit s"

lemma code_of_lower_char:
  "code_of (lower_char c) = (if 65 \<le> code_of c \<and> code_of c \<le> 90 then code_of c + 32 else code_of c)"
  by (simp add: lower_char_def of_char_of)

lemma lower_char_hex: "is_hex_digit c \<Longrightarrow> is_lower_hex_digit (lower_char c)"
  by (auto simp: is_hex_digit_def is_lower_hex_digit_def is_digit_def code_of_lower_char)

lemma lower_hex_is_hex: "is_lower_hex_digit c \<Longrightarrow> is_hex_digit c"
  by (simp add: is_hex_digit_def)

lemma lower_char_lower_hex: "is_lower_hex_digit c \<Longrightarrow> lower_char c = c"
  by (auto simp: is_lower_hex_digit_def is_digit_def lower_char_def)

lemma isHex64_toLowerCase: "isHex64 s \<Longrightarrow> isLowerHex64 (toLowerCase s)"
  by (auto simp: isHex64_def isLowerHex64_def toLowerCase_def list_all_iff lower_char_hex)

lemma isLowerHex64_isHex64: "isLowerHex64 s \<Longrightarrow> isHex64 s"
  by (auto simp: isHex64_def isLowerHex64_def list_all_iff lower_hex_is_hex)

lemma toLowerCase_lower: "isLowerHex64 s \<Longrightarrow> toLowerCase s = s"
  unfolding isLowerHex64_def toLowerCase_def list_all_iff
  by (simp add: lower_char_lower_hex map_idI)

lemma toLowerCase_idem_hex: "isHex64 s \<Longrightarrow> toLowerCase (toLowerCase s) = toLowerCase s"
  by (simp add: isHex64_toLowerCase toLowerCase_lower)

text \<open>A 64-character identifier made of one repeated digit, for concrete inputs.\<close>

definition ident :: "char \<Rightarrow> string" where
  "ident c = replicate 64 c"

lemma ident_eq [simp]: "ident c = ident d \<longleftrightarrow> c = d"
  by (simp add: ident_def)

lemma replicate_less: "replicate (Suc n) c < replicate (Suc n) d \<longleftrightarrow> c < (d :: char)"
proof (induction n)
  case (Suc n)
  then show ?case by (cases "c = d") (simp_all del: replicate_Suc add: replicate_Suc [of "Suc n"])
qed simp

lemma ident_less [simp]: "ident c < ident d \<longleftrightarrow> c < d"
  using replicate_less [of 63 c d] by (simp add: ident_def del: replicate_Suc)

lemma ident_less_eq [simp]: "ident c \<le> ident d \<longleftrightarrow> c \<le> d"
  by (auto simp: le_less)

lemma ident_hex [simp]: "isHex64 (ident c) \<longleftrightarrow> is_hex_digit c"
  by (simp add: ident_def isHex64_def list_all_iff)

lemma ident_lower_hex [simp]: "isLowerHex64 (ident c) \<longleftrightarrow> is_lower_hex_digit c"
  by (simp add: ident_def isLowerHex64_def list_all_iff)

lemma ident_lower [simp]: "toLowerCase (ident c) = ident (lower_char c)"
  by (simp add: ident_def toLowerCase_def)

text \<open>The digits the concrete inputs use.\<close>

lemma sample_digits [simp]:
  "lower_char CHR ''a'' = CHR ''a''" "lower_char CHR ''b'' = CHR ''b''" "lower_char CHR ''c'' = CHR ''c''"
  "lower_char CHR ''d'' = CHR ''d''" "lower_char CHR ''A'' = CHR ''a''"
  "lower_char CHR ''1'' = CHR ''1''" "lower_char CHR ''2'' = CHR ''2''" "lower_char CHR ''3'' = CHR ''3''"
  "is_lower_hex_digit CHR ''a''" "is_lower_hex_digit CHR ''b''" "is_lower_hex_digit CHR ''c''"
  "is_lower_hex_digit CHR ''d''" "is_hex_digit CHR ''A''"
  "is_lower_hex_digit CHR ''1''" "is_lower_hex_digit CHR ''2''" "is_lower_hex_digit CHR ''3''"
  by code_simp+

section \<open>Bigint text and division\<close>

text \<open>Decimal spelling of a bigint (\<open>toString\<close>) and the decimal value of a digit string.\<close>

definition digit_char :: "nat \<Rightarrow> char" where
  "digit_char d = char_of (48 + d)"

definition digit_val :: "char \<Rightarrow> nat" where
  "digit_val c = code_of c - 48"

fun nat_to_string :: "nat \<Rightarrow> string" where
  "nat_to_string n = (if n < 10 then [digit_char n]
     else nat_to_string (n div 10) @ [digit_char (n mod 10)])"

declare nat_to_string.simps [simp del]

definition bigint_to_string :: "int \<Rightarrow> string" where
  "bigint_to_string i = (if i < 0 then CHR ''-'' # nat_to_string (nat (- i)) else nat_to_string (nat i))"

definition nat_of_digits :: "string \<Rightarrow> nat" where
  "nat_of_digits s = foldl (\<lambda>a c. a * 10 + digit_val c) 0 s"

lemma digit_char_props [simp]:
  "d < 10 \<Longrightarrow> is_digit (digit_char d)" "d < 10 \<Longrightarrow> digit_val (digit_char d) = d"
  by (simp_all add: is_digit_def digit_char_def digit_val_def of_char_of)

lemma nat_to_string_digits: "list_all is_digit (nat_to_string n)"
proof (induction n rule: nat_to_string.induct)
  case (1 n)
  then show ?case by (subst nat_to_string.simps) auto
qed

lemma nat_to_string_nonempty [simp]: "nat_to_string n \<noteq> []"
  by (subst nat_to_string.simps) simp

lemma nat_of_digits_snoc: "nat_of_digits (s @ [c]) = nat_of_digits s * 10 + digit_val c"
  by (simp add: nat_of_digits_def)

lemma nat_of_digits_to_string [simp]: "nat_of_digits (nat_to_string n) = n"
proof (induction n rule: nat_to_string.induct)
  case (1 n)
  then show ?case
    by (subst nat_to_string.simps)
      (auto simp: nat_of_digits_snoc, simp add: nat_of_digits_def)
qed

lemma nat_to_string_inj [simp]: "nat_to_string m = nat_to_string n \<longleftrightarrow> m = n"
  by (metis nat_of_digits_to_string)

lemma digit_char_zero: "digit_char 0 = CHR ''0''"
  by code_simp

lemma hd_nat_to_string_zero: "hd (nat_to_string n) = CHR ''0'' \<longleftrightarrow> n = 0"
proof (induction n rule: nat_to_string.induct)
  case (1 n)
  have z: "digit_char d = CHR ''0'' \<longleftrightarrow> d = 0" if "d < 10" for d
    using digit_char_props(2) [OF that] digit_char_zero
    by (metis digit_char_props(2) zero_less_numeral)
  show ?case
  proof (cases "n < 10")
    case True
    then show ?thesis by (subst nat_to_string.simps) (simp add: z)
  next
    case False
    with 1 show ?thesis by (subst nat_to_string.simps) simp
  qed
qed

text \<open>
  \<open>BigInt(text)\<close>: surrounding white space is dropped, the empty text is zero, an optional sign
  precedes decimal digits, the prefixes \<open>0x\<close>, \<open>0o\<close>, \<open>0b\<close> select another radix; anything else is a
  syntax error.
\<close>

definition radix_digit :: "char \<Rightarrow> nat" where
  "radix_digit c = (if is_digit c then code_of c - 48
     else if 97 \<le> code_of c \<and> code_of c \<le> 122 then code_of c - 87
     else if 65 \<le> code_of c \<and> code_of c \<le> 90 then code_of c - 55 else 36)"

definition nat_of_radix :: "nat \<Rightarrow> string \<Rightarrow> nat" where
  "nat_of_radix b s = foldl (\<lambda>a c. a * b + radix_digit c) 0 s"

definition radix_of :: "char \<Rightarrow> nat" where
  "radix_of c = (if c = CHR ''x'' \<or> c = CHR ''X'' then 16
     else if c = CHR ''o'' \<or> c = CHR ''O'' then 8
     else if c = CHR ''b'' \<or> c = CHR ''B'' then 2 else 0)"

definition parse_radix :: "string \<Rightarrow> int option" where
  "parse_radix t = (case t of
     z # p # (d # ds) \<Rightarrow>
       if z = CHR ''0'' \<and> list_all (\<lambda>c. radix_digit c < radix_of p) (d # ds)
       then Some (int (nat_of_radix (radix_of p) (d # ds))) else None
   | _ \<Rightarrow> None)"

definition is_space :: "char \<Rightarrow> bool" where
  "is_space c \<longleftrightarrow> code_of c = 32 \<or> (9 \<le> code_of c \<and> code_of c \<le> 13)"

definition trim :: "string \<Rightarrow> string" where
  "trim s = rev (dropWhile is_space (rev (dropWhile is_space s)))"

definition BigInt :: "string \<Rightarrow> int result" where
  "BigInt s =
     (let t = trim s in
      if t = [] then Inr 0
      else if list_all is_digit t then Inr (int (nat_of_digits t))
      else if hd t = CHR ''-'' \<and> tl t \<noteq> [] \<and> list_all is_digit (tl t)
        then Inr (- int (nat_of_digits (tl t)))
      else if hd t = CHR ''+'' \<and> tl t \<noteq> [] \<and> list_all is_digit (tl t)
        then Inr (int (nat_of_digits (tl t)))
      else case parse_radix t of
        Some n \<Rightarrow> Inr n
      | None \<Rightarrow> Inl (SyntaxError ''Cannot convert to a BigInt''))"

lemma digit_not_space: "is_digit c \<Longrightarrow> \<not> is_space c"
  by (auto simp: is_digit_def is_space_def)

lemma trim_id: "list_all (\<lambda>c. \<not> is_space c) s \<Longrightarrow> trim s = s"
proof -
  have d: "dropWhile is_space t = t" if "list_all (\<lambda>c. \<not> is_space c) t" for t
    using that by (cases t) auto
  assume "list_all (\<lambda>c. \<not> is_space c) s"
  then show ?thesis by (simp add: trim_def d)
qed

lemma trim_digits: "list_all is_digit s \<Longrightarrow> trim s = s"
  by (rule trim_id) (auto simp: list_all_iff digit_not_space)

lemma BigInt_digits: "list_all is_digit s \<Longrightarrow> BigInt s = Inr (int (nat_of_digits s))"
  by (auto simp: BigInt_def trim_digits nat_of_digits_def)

lemma BigInt_to_string [simp]: "BigInt (bigint_to_string i) = Inr i"
proof (cases "i < 0")
  case False
  then show ?thesis
    by (simp add: bigint_to_string_def BigInt_digits nat_to_string_digits)
next
  case True
  let ?d = "nat_to_string (nat (- i))"
  have "list_all is_digit ?d" by (rule nat_to_string_digits)
  moreover have "trim (CHR ''-'' # ?d) = CHR ''-'' # ?d"
    using nat_to_string_digits [of "nat (- i)"] digit_not_space
    by (intro trim_id) (auto simp: list_all_iff is_space_def)
  ultimately show ?thesis
    using True by (simp add: bigint_to_string_def BigInt_def is_digit_def)
qed

lemma bigint_to_string_inj [simp]: "bigint_to_string i = bigint_to_string j \<longleftrightarrow> i = j"
  by (metis BigInt_to_string sum.inject(2))

lemma bigint_to_string_digits: "0 \<le> i \<Longrightarrow> list_all is_digit (bigint_to_string i)"
  by (simp add: bigint_to_string_def nat_to_string_digits)

text \<open>Bigint division truncates towards zero.\<close>

definition bigint_div :: "int \<Rightarrow> int \<Rightarrow> int" where
  "bigint_div a b = sgn a * sgn b * (\<bar>a\<bar> div \<bar>b\<bar>)"

lemma bigint_div_nonneg: "0 \<le> a \<Longrightarrow> 0 < b \<Longrightarrow> bigint_div a b = a div b"
  by (cases "a = 0") (auto simp: bigint_div_def)

section \<open>Insertion-ordered maps and sets\<close>

text \<open>
  A JavaScript \<open>Map\<close> is an association list with distinct keys: \<open>get\<close> is \<open>map_of\<close>, \<open>set\<close>
  is \<open>AList.update\<close> (in place, or at the end), \<open>delete\<close> is \<open>AList.delete\<close>. A \<open>Set\<close> whose order
  is observed is a distinct list extended at its end.
\<close>

definition set_add :: "'a \<Rightarrow> 'a list \<Rightarrow> 'a list" where
  "set_add x xs = (if x \<in> set xs then xs else xs @ [x])"

lemma set_set_add [simp]: "set (set_add x xs) = insert x (set xs)"
  by (auto simp: set_add_def)

lemma distinct_set_add [simp]: "distinct (set_add x xs) \<longleftrightarrow> distinct xs"
  by (auto simp: set_add_def)

text \<open>\<open>[...new Set(xs)]\<close> keeps the first occurrence of each value.\<close>

definition js_uniq :: "'a list \<Rightarrow> 'a list" where
  "js_uniq xs = fold set_add xs []"

lemma js_uniq_aux: "set (fold set_add xs ys) = set ys \<union> set xs"
  "distinct ys \<Longrightarrow> distinct (fold set_add xs ys)"
  by (induction xs arbitrary: ys) auto

lemma set_js_uniq [simp]: "set (js_uniq xs) = set xs"
  by (simp add: js_uniq_def js_uniq_aux)

lemma distinct_js_uniq [simp]: "distinct (js_uniq xs)"
  by (simp add: js_uniq_def js_uniq_aux)

lemma js_uniq_length_eq: "length (js_uniq xs) = length xs \<longleftrightarrow> distinct xs"
  by (metis card_distinct distinct_card distinct_js_uniq set_js_uniq)

text \<open>Sorting keeps distinctness and sorts by the key's leading component.\<close>

lemma distinct_map_sort_key [simp]: "distinct (map f (sort_key g xs)) \<longleftrightarrow> distinct (map f xs)"
proof (rule mset_eq_imp_distinct_iff)
  show "mset (map f (sort_key g xs)) = mset (map f xs)" by (simp only: mset_map mset_sort)
qed

text \<open>Sorting the distinct keys of a map.\<close>

lemma sort_key_fst_map_of:
  fixes al :: "('k :: linorder \<times> 'v) list"
  assumes "distinct (map fst al)"
  shows "sort_key fst al = map (\<lambda>k. (k, the (map_of al k))) (sorted_list_of_set (fst ` set al))"
proof -
  let ?s = "sort_key fst al"
  have d: "distinct (map fst ?s)"
    using assms by (metis mset_map mset_sort mset_eq_imp_distinct_iff)
  have "map fst ?s = sorted_list_of_set (fst ` set al)"
    using d sorted_distinct_set_unique [of "map fst ?s" "sorted_list_of_set (fst ` set al)"]
    by simp
  moreover have "map_of ?s = map_of al"
    using assms d by (intro map_of_inject_set [THEN iffD2]) auto
  moreover have "?s = map (\<lambda>k. (k, the (map_of ?s k))) (map fst ?s)"
  proof (rule nth_equalityI)
    fix i assume i: "i < length ?s"
    have "?s ! i \<in> set ?s" using i by (rule nth_mem)
    then have "map_of ?s (fst (?s ! i)) = Some (snd (?s ! i))"
      using d by (intro map_of_is_SomeI) auto
    with i show "?s ! i = map (\<lambda>k. (k, the (map_of ?s k))) (map fst ?s) ! i"
      by simp
  qed simp
  ultimately show ?thesis by metis
qed

section \<open>Abort callbacks\<close>

text \<open>
  The code polls an optional callback that may answer, or throw. What it answers at its
  \<open>k\<close>-th poll is external: a function of the poll's number, which the state counts.
\<close>

datatype poll_answer = Continue | Abort | Throws

type_synonym abort_callback = "(nat \<Rightarrow> poll_answer) option"

end
