(* ===== verification/Collections.thy ===== *)
theory Collections
  imports Prelude
begin

text \<open>
  Collections the solver's state is made of, beyond the prelude's maps and sets: maps from a key
  to a set of values (an index), stores keyed by an identifier, and joined texts used as keys.
\<close>

section \<open>Joined texts\<close>

text \<open>\<open>xs.join(sep)\<close> for a one-character separator.\<close>

fun join_with :: "char \<Rightarrow> string list \<Rightarrow> string" where
  "join_with sep [] = []"
| "join_with sep [x] = x"
| "join_with sep (x # y # zs) = x @ sep # join_with sep (y # zs)"

lemma split_at_unique:
  "sep \<notin> set a \<Longrightarrow> sep \<notin> set b \<Longrightarrow> a @ sep # x = b @ sep # y \<longleftrightarrow> a = b \<and> x = y"
proof (induction a arbitrary: b)
  case Nil
  then show ?case by (cases b) auto
next
  case (Cons c a)
  then show ?case by (cases b) auto
qed

definition separable :: "char \<Rightarrow> string list \<Rightarrow> bool" where
  "separable sep xs \<longleftrightarrow> (\<forall>x \<in> set xs. x \<noteq> [] \<and> sep \<notin> set x)"

lemma separable_simps [simp]:
  "separable sep []" "separable sep (x # xs) \<longleftrightarrow> x \<noteq> [] \<and> sep \<notin> set x \<and> separable sep xs"
  by (auto simp: separable_def)

lemma join_with_Nil_iff: "separable sep xs \<Longrightarrow> join_with sep xs = [] \<longleftrightarrow> xs = []"
  by (cases "(sep, xs)" rule: join_with.cases) auto

text \<open>Joined non-empty texts without the separator determine the texts.\<close>

lemma join_with_inject:
  "separable sep xs \<Longrightarrow> separable sep ys \<Longrightarrow> join_with sep xs = join_with sep ys \<longleftrightarrow> xs = ys"
proof (induction sep xs arbitrary: ys rule: join_with.induct)
  case (1 sep)
  then show ?case using join_with_Nil_iff [of sep ys] by auto
next
  case (2 sep x)
  have "join_with sep ys = x \<longleftrightarrow> ys = [x]"
  proof (cases "(sep, ys)" rule: join_with.cases)
    case (3 _ y z zs)
    then have "sep \<in> set (join_with sep ys)" by simp
    with 2 3 show ?thesis by auto
  qed (use 2 in auto)
  then show ?case by auto
next
  case (3 sep x y zs)
  show ?case
  proof (cases "(sep, ys)" rule: join_with.cases)
    case (2 _ u)
    with 3(3) have "sep \<notin> set (join_with sep ys)" by auto
    moreover have "sep \<in> set (join_with sep (x # y # zs))" by simp
    ultimately have "join_with sep (x # y # zs) \<noteq> join_with sep ys" by metis
    with 2 show ?thesis by auto
  next
    case ys: (3 _ u v ws)
    have "x @ sep # join_with sep (y # zs) = u @ sep # join_with sep (v # ws)
        \<longleftrightarrow> x = u \<and> join_with sep (y # zs) = join_with sep (v # ws)"
      by (rule split_at_unique) (use 3(2,3) ys in auto)
    moreover have "join_with sep (y # zs) = join_with sep (v # ws) \<longleftrightarrow> y # zs = v # ws"
      by (rule 3(1)) (use 3(2,3) ys in auto)
    ultimately show ?thesis using ys by auto
  qed auto
qed

lemma set_join_with: "set (join_with sep xs) \<subseteq> insert sep (\<Union> (set ` set xs))"
  by (induction sep xs rule: join_with.induct) auto

section \<open>Indexes\<close>

text \<open>A \<open>Map<string, Set<string>>\<close> whose empty sets are removed.\<close>

type_synonym key_index = "(string \<times> string list) list"

definition bucket :: "key_index \<Rightarrow> string \<Rightarrow> string list" where
  "bucket idx k = (case map_of idx k of None \<Rightarrow> [] | Some b \<Rightarrow> b)"

definition index_add :: "string \<Rightarrow> string \<Rightarrow> key_index \<Rightarrow> key_index" where
  "index_add h k idx = AList.update k (set_add h (bucket idx k)) idx"

definition index_remove :: "string \<Rightarrow> string \<Rightarrow> key_index \<Rightarrow> key_index" where
  "index_remove h k idx = (case map_of idx k of
     None \<Rightarrow> idx
   | Some b \<Rightarrow>
       let b' = filter (\<lambda>x. x \<noteq> h) b
       in if b' = [] then AList.delete k idx else AList.update k b' idx)"

definition index_ok :: "key_index \<Rightarrow> bool" where
  "index_ok idx \<longleftrightarrow> distinct (map fst idx) \<and> (\<forall>k b. map_of idx k = Some b \<longrightarrow> b \<noteq> [] \<and> distinct b)"

lemma index_ok_Nil [simp]: "index_ok []"
  by (simp add: index_ok_def)

lemma index_okI: "distinct (map fst idx) \<Longrightarrow> (\<And>k b. map_of idx k = Some b \<Longrightarrow> b \<noteq> [] \<and> distinct b) \<Longrightarrow> index_ok idx"
  unfolding index_ok_def by blast

lemma index_okD:
  "index_ok idx \<Longrightarrow> distinct (map fst idx)"
  "index_ok idx \<Longrightarrow> map_of idx k = Some b \<Longrightarrow> b \<noteq> [] \<and> distinct b"
  unfolding index_ok_def by blast+

lemma bucket_distinct: "index_ok idx \<Longrightarrow> distinct (bucket idx k)"
  using index_okD(2) [of idx k] by (cases "map_of idx k") (simp_all add: bucket_def)

lemma index_ok_key:
  assumes "index_ok idx"
  shows "k \<in> fst ` set idx \<longleftrightarrow> bucket idx k \<noteq> []"
proof -
  have "k \<in> fst ` set idx \<longleftrightarrow> map_of idx k \<noteq> None" by (simp add: map_of_eq_None_iff)
  with index_okD(2) [OF assms, of k] show ?thesis by (cases "map_of idx k") (simp_all add: bucket_def)
qed

lemma index_add_ok:
  assumes "index_ok idx"
  shows "index_ok (index_add h k idx)"
proof (rule index_okI)
  show "distinct (map fst (index_add h k idx))"
    using index_okD(1) [OF assms] by (simp add: index_add_def distinct_update)
  fix k' x
  assume x: "map_of (index_add h k idx) k' = Some x"
  show "x \<noteq> [] \<and> distinct x"
  proof (cases "k' = k")
    case True
    with x have "x = set_add h (bucket idx k)" by (simp add: index_add_def update_conv')
    with bucket_distinct [OF assms, of k] show ?thesis by (auto simp: set_add_def)
  next
    case False
    with x have "map_of idx k' = Some x" by (simp add: index_add_def update_conv')
    then show ?thesis by (rule index_okD(2) [OF assms])
  qed
qed

lemma index_remove_ok:
  assumes "index_ok idx"
  shows "index_ok (index_remove h k idx)"
proof (rule index_okI)
  show "distinct (map fst (index_remove h k idx))"
    using index_okD(1) [OF assms]
    by (simp add: index_remove_def Let_def distinct_update distinct_delete split: option.split)
  fix k' x
  assume x: "map_of (index_remove h k idx) k' = Some x"
  show "x \<noteq> [] \<and> distinct x"
  proof (cases "map_of idx k")
    case None
    with x have "map_of idx k' = Some x" by (simp add: index_remove_def)
    then show ?thesis by (rule index_okD(2) [OF assms])
  next
    case (Some b)
    let ?b = "filter (\<lambda>y. y \<noteq> h) b"
    from x Some consider "map_of idx k' = Some x" | "x = ?b" "?b \<noteq> []"
      by (cases "?b = []"; cases "k' = k") (simp_all add: index_remove_def update_conv' delete_conv')
    then show ?thesis
    proof cases
      case 1
      then show ?thesis by (rule index_okD(2) [OF assms])
    next
      case 2
      with index_okD(2) [OF assms Some] show ?thesis by simp
    qed
  qed
qed

lemma bucket_add: "set (bucket (index_add h k idx) k') = (if k' = k then insert h (set (bucket idx k)) else set (bucket idx k'))"
  by (cases "map_of idx k") (auto simp: index_add_def bucket_def update_conv')

lemma bucket_remove: "set (bucket (index_remove h k idx) k') =
  (if k' = k then set (bucket idx k) - {h} else set (bucket idx k'))"
  by (auto simp: index_remove_def bucket_def Let_def update_conv' delete_conv' filter_empty_conv split: option.split)

lemma index_add_all:
  "index_ok idx \<Longrightarrow> index_ok (fold (index_add h) ks idx)"
  "set (bucket (fold (index_add h) ks idx) k) = (if k \<in> set ks then insert h (set (bucket idx k)) else set (bucket idx k))"
  by (induction ks arbitrary: idx) (auto simp: index_add_ok bucket_add)

lemma index_remove_all:
  "index_ok idx \<Longrightarrow> index_ok (fold (index_remove h) ks idx)"
  "set (bucket (fold (index_remove h) ks idx) k) = (if k \<in> set ks then set (bucket idx k) - {h} else set (bucket idx k))"
  by (induction ks arbitrary: idx) (auto simp: index_remove_ok bucket_remove)

section \<open>Keyed stores\<close>

text \<open>
  The contract of a store keyed by a canonical identifier: a \<open>put\<close> is found again, normalised,
  under its key, a \<open>del\<close> removes its key, other keys are untouched, and \<open>listed\<close> enumerates them.
\<close>

locale keyed_store =
  fixes ok :: "'s \<Rightarrow> bool" and lookup :: "'s \<Rightarrow> string \<Rightarrow> 'o option" and listed :: "'s \<Rightarrow> string list"
    and put :: "'o \<Rightarrow> 's \<Rightarrow> 's" and del :: "string \<Rightarrow> 's \<Rightarrow> 's"
    and canonical :: "string \<Rightarrow> string" and key_of :: "'o \<Rightarrow> string" and normal :: "'o \<Rightarrow> 'o"
  assumes put_ok: "ok s \<Longrightarrow> ok (put v s)"
    and del_ok: "ok s \<Longrightarrow> ok (del h s)"
    and lookup_put: "ok s \<Longrightarrow> lookup (put v s) k = (if k = key_of v then Some (normal v) else lookup s k)"
    and lookup_del: "ok s \<Longrightarrow> lookup (del h s) k = (if k = canonical h then None else lookup s k)"
    and listed_lookup: "ok s \<Longrightarrow> set (listed s) = dom (lookup s)"
    and listed_canonical: "ok s \<Longrightarrow> k \<in> dom (lookup s) \<Longrightarrow> canonical k = k"
begin

lemma del_all_ok: "ok s \<Longrightarrow> ok (fold del hs s)"
  by (induction hs arbitrary: s) (simp_all add: del_ok)

lemma del_all: "ok s \<Longrightarrow> lookup (fold del hs s) k = (if k \<in> canonical ` set hs then None else lookup s k)"
  by (induction hs arbitrary: s) (auto simp: del_ok lookup_del)

text \<open>Dropping the listed keys that satisfy a predicate.\<close>

lemma drop_listed:
  assumes "ok s"
  shows "lookup (fold del (filter P (listed s)) s) k = (if P k then None else lookup s k)"
proof -
  have "canonical ` set (filter P (listed s)) = {k \<in> dom (lookup s). P k}"
    using listed_canonical [OF assms] listed_lookup [OF assms] by (auto simp: image_iff)
  then show ?thesis using del_all [OF assms] by auto
qed

text \<open>Putting every entry of a map, each carried over from what its key held before.\<close>

lemma put_all:
  assumes "\<And>e v. key_of (carry e v) = key_of v"
  shows "ok s \<Longrightarrow> distinct (map fst entries) \<Longrightarrow> \<forall>(k, v) \<in> set entries. key_of v = k \<Longrightarrow>
    ok (fold (\<lambda>(k, v) s. put (carry (lookup s k) v) s) entries s)
    \<and> lookup (fold (\<lambda>(k, v) s. put (carry (lookup s k) v) s) entries s) k' =
        (case map_of entries k' of None \<Rightarrow> lookup s k' | Some v \<Rightarrow> Some (normal (carry (lookup s k') v)))"
proof (induction entries arbitrary: s)
  case (Cons e entries)
  obtain k v where e: "e = (k, v)" by fastforce
  let ?s = "put (carry (lookup s k) v) s"
  have kv: "key_of v = k" using Cons.prems(3) e by simp
  have ok: "ok ?s" by (rule put_ok [OF Cons.prems(1)])
  have l: "lookup ?s k' = (if k' = k then Some (normal (carry (lookup s k) v)) else lookup s k')"
    using lookup_put [OF Cons.prems(1), of "carry (lookup s k) v" k'] assms kv by simp
  have "k' = k \<Longrightarrow> map_of entries k' = None" using Cons.prems(2) e by (auto simp: map_of_eq_None_iff)
  with Cons.IH [OF ok] Cons.prems e l show ?case by (cases "k' = k") (simp_all split: option.split)
qed simp

end

end
