(* ===== verification/Ladder_Schema.thy ===== *)
theory Ladder_Schema
  imports Prelude
begin

text \<open>
  Model of \<^verbatim>\<open>packages/solver-core/ladder-schema.ts\<close>: the price-ladder wire schema shared by
  the solver that publishes ladders and the node that quotes from them, and the conservative
  quote by interpolation between the bracketing rungs.
\<close>

section \<open>Wire data\<close>

record price_level =
  pl_input :: string
  pl_output :: string

record price_levels =
  pv_tokenIn :: string
  pv_tokenOut :: string
  pv_levels :: "price_level list"

definition MAX_PAIRS_PER_PUSH :: int where
  "MAX_PAIRS_PER_PUSH = 64"

definition MAX_RUNGS_PER_PAIR :: int where
  "MAX_RUNGS_PER_PAIR = 64"

definition pairKey :: "string \<Rightarrow> string \<Rightarrow> string" where
  "pairKey tokenIn tokenOut = toLowerCase tokenIn @ ''|'' @ toLowerCase tokenOut"

definition MAX_U256 :: int where
  "MAX_U256 = 2 ^ 256 - 1"

text \<open>
  \<open>BigInt\<close> where the code has already matched a digit pattern, so that it cannot throw
  (\<open>BigInt_digits\<close>).
\<close>

definition digits_value :: "string \<Rightarrow> int" where
  "digits_value s = (case BigInt s of Inr n \<Rightarrow> n | Inl _ \<Rightarrow> 0)"

definition canonical_decimal :: "string \<Rightarrow> bool" where
  "canonical_decimal s \<longleftrightarrow> s = ''0''
     \<or> (s \<noteq> [] \<and> hd s \<noteq> CHR ''0'' \<and> list_all is_digit s \<and> length s \<le> 78)"

definition isAmountString :: "json \<Rightarrow> bool" where
  "isAmountString v = (case v of
     JStr s \<Rightarrow> canonical_decimal s \<and> digits_value s \<le> MAX_U256
   | _ \<Rightarrow> False)"

definition isTokenColor :: "json \<Rightarrow> bool" where
  "isTokenColor v = (case v of JStr s \<Rightarrow> isHex64 s | _ \<Rightarrow> False)"

datatype ladder_rejection =
  Empty_ladder
| Too_many_rungs
| Malformed_rung
| Non_positive
| Input_not_ascending
| Output_decreasing
| Bad_tokens

definition string_value :: "json \<Rightarrow> string" where
  "string_value v = (case v of JStr s \<Rightarrow> s | _ \<Rightarrow> [])"

definition field_value :: "json \<Rightarrow> string \<Rightarrow> int" where
  "field_value r k = digits_value (string_value (js_get r k))"

section \<open>Validation\<close>

definition is_object :: "json \<Rightarrow> bool" where
  "is_object v = (case v of JArr _ \<Rightarrow> True | JObj _ \<Rightarrow> True | _ \<Rightarrow> False)"

text \<open>One pass of the loop; \<open>prev\<close> is the rung before, absent at index 0.\<close>

definition reject_rung :: "json option \<Rightarrow> json \<Rightarrow> ladder_rejection option" where
  "reject_rung prev r =
     (if \<not> is_object r then Some Malformed_rung
      else if \<not> isAmountString (js_get r ''input'') \<or> \<not> isAmountString (js_get r ''output'')
      then Some Malformed_rung
      else if field_value r ''input'' \<le> 0 \<or> field_value r ''output'' \<le> 0 then Some Non_positive
      else case prev of
        None \<Rightarrow> None
      | Some p \<Rightarrow>
          if field_value p ''input'' \<ge> field_value r ''input'' then Some Input_not_ascending
          else if field_value p ''output'' > field_value r ''output'' then Some Output_decreasing
          else None)"

fun reject_rungs :: "json option \<Rightarrow> json list \<Rightarrow> ladder_rejection option" where
  "reject_rungs prev [] = None"
| "reject_rungs prev (r # rs) =
     (case reject_rung prev r of Some e \<Rightarrow> Some e | None \<Rightarrow> reject_rungs (Some r) rs)"

definition rejectLevels :: "json \<Rightarrow> ladder_rejection option" where
  "rejectLevels value = (case value of
     JArr rungs \<Rightarrow>
       if rungs = [] then Some Empty_ladder
       else if int (length rungs) > MAX_RUNGS_PER_PAIR then Some Too_many_rungs
       else reject_rungs None rungs
   | _ \<Rightarrow> Some Empty_ladder)"

definition isPriceLevelArray :: "json \<Rightarrow> bool" where
  "isPriceLevelArray value \<longleftrightarrow> rejectLevels value = None"

definition rejectPair :: "json \<Rightarrow> ladder_rejection option" where
  "rejectPair value =
     (if \<not> is_object value then Some Bad_tokens
      else if \<not> isTokenColor (js_get value ''tokenIn'') \<or> \<not> isTokenColor (js_get value ''tokenOut'')
      then Some Bad_tokens
      else if toLowerCase (string_value (js_get value ''tokenIn''))
            = toLowerCase (string_value (js_get value ''tokenOut'')) then Some Bad_tokens
      else rejectLevels (js_get value ''levels''))"

definition isPriceLevels :: "json \<Rightarrow> bool" where
  "isPriceLevels value \<longleftrightarrow> rejectPair value = None"

section \<open>Quoting\<close>

fun quote_from :: "price_level list \<Rightarrow> int \<Rightarrow> int result" where
  "quote_from [] amountIn = Inl (TypeError ''undefined rung'')"
| "quote_from [l] amountIn = BigInt (pl_output l)"
| "quote_from (l # h # rest) amountIn =
     bindR (BigInt (pl_input l)) (\<lambda>inLo.
     bindR (BigInt (pl_input h)) (\<lambda>inHi.
       if amountIn > inHi then quote_from (h # rest) amountIn
       else if inHi \<le> inLo then BigInt (pl_output l)
       else bindR (BigInt (pl_output l)) (\<lambda>outLo.
            bindR (BigInt (pl_output h)) (\<lambda>outHi.
              Inr (outLo + bigint_div ((outHi - outLo) * (amountIn - inLo)) (inHi - inLo))))))"

definition interpolateQuote :: "price_level list \<Rightarrow> int \<Rightarrow> int option result" where
  "interpolateQuote levels amountIn =
     (if levels = [] then Inr None
      else bindR (BigInt (pl_input (hd levels))) (\<lambda>first.
        if amountIn < first then Inr None
        else bindR (BigInt (pl_input (last levels))) (\<lambda>lst.
          if amountIn > lst then Inr None
          else bindR (quote_from levels amountIn) (\<lambda>q. Inr (Some q)))))"

section \<open>Decimal fields\<close>

lemma digits_value_of: "list_all is_digit s \<Longrightarrow> BigInt s = Inr (digits_value s)"
  by (simp add: digits_value_def BigInt_digits)

lemma digits_value_to_string [simp]: "digits_value (bigint_to_string i) = i"
  by (simp add: digits_value_def)

lemma canonical_decimal_digits: "canonical_decimal s \<Longrightarrow> list_all is_digit s"
  by (auto simp: canonical_decimal_def is_digit_def)

lemma nat_of_digits_bound: "list_all is_digit s \<Longrightarrow> nat_of_digits s < 10 ^ length s"
proof (induction s rule: rev_induct)
  case (snoc c s)
  then have "digit_val c < 10" "nat_of_digits s < 10 ^ length s"
    by (auto simp: is_digit_def digit_val_def)
  then show ?case by (simp add: nat_of_digits_snoc)
qed (simp add: nat_of_digits_def)

lemma nat_of_digits_Cons: "nat_of_digits (c # s) = digit_val c * 10 ^ length s + nat_of_digits s"
proof -
  have "foldl (\<lambda>a c. a * 10 + digit_val c) a s = a * 10 ^ length s + foldl (\<lambda>a c. a * 10 + digit_val c) 0 s" for a
  proof (induction s rule: rev_induct)
    case (snoc c s)
    then show ?case by (simp add: algebra_simps)
  qed simp
  from this [of "digit_val c"] show ?thesis by (simp add: nat_of_digits_def)
qed

lemma length_nat_to_string: "n < 10 ^ k \<Longrightarrow> 0 < k \<Longrightarrow> length (nat_to_string n) \<le> k"
proof (induction n arbitrary: k rule: nat_to_string.induct)
  case (1 n)
  show ?case
  proof (cases "n < 10")
    case True
    with 1 show ?thesis by (subst nat_to_string.simps) simp
  next
    case False
    with "1.prems" obtain j where k: "k = Suc j" and "0 < j" by (cases k; cases "k - 1") auto
    with "1.prems" have "n div 10 < 10 ^ j" by (simp add: div_less_iff_less_mult mult.commute)
    with "1.IH" [OF False, of j] \<open>0 < j\<close> False show ?thesis by (subst nat_to_string.simps) (simp add: k)
  qed
qed

text \<open>Every amount up to the cap has a canonical spelling the schema accepts.\<close>

lemma isAmountString_bigint_to_string:
  assumes "0 \<le> i" "i \<le> MAX_U256"
  shows "isAmountString (JStr (bigint_to_string i))"
proof -
  have "nat i < 10 ^ 78" using assms by (simp add: MAX_U256_def nat_less_iff)
  then have "length (nat_to_string (nat i)) \<le> 78" by (rule length_nat_to_string) simp
  moreover have "nat i = 0 \<Longrightarrow> nat_to_string (nat i) = ''0''"
    by (subst nat_to_string.simps) (simp add: digit_char_zero)
  moreover have "digits_value (nat_to_string (nat i)) = i"
    using digits_value_to_string [of i] assms(1) by (simp add: bigint_to_string_def)
  ultimately show ?thesis
    using assms nat_to_string_digits [of "nat i"] hd_nat_to_string_zero [of "nat i"]
    by (cases "nat i = 0")
      (auto simp: isAmountString_def canonical_decimal_def bigint_to_string_def)
qed

section \<open>Specification: staircases and interpolation\<close>

text \<open>
  A ladder is a list of points (cumulative input, cumulative output). \<open>staircase\<close> is the shape the
  schema admits, \<open>interp\<close> the floored linear interpolation it is quoted by.
\<close>

type_synonym rung = "int \<times> int"

definition climbs :: "rung \<Rightarrow> rung \<Rightarrow> bool" where
  "climbs a b \<longleftrightarrow> fst a < fst b \<and> snd a \<le> snd b"

definition staircase :: "rung list \<Rightarrow> bool" where
  "staircase rs \<longleftrightarrow> rs \<noteq> [] \<and> (\<forall>r \<in> set rs. 0 < fst r \<and> 0 < snd r) \<and> successively climbs rs"

definition chord :: "rung \<Rightarrow> rung \<Rightarrow> int \<Rightarrow> int" where
  "chord lo hi x = snd lo + ((snd hi - snd lo) * (x - fst lo)) div (fst hi - fst lo)"

fun interp :: "rung list \<Rightarrow> int \<Rightarrow> int option" where
  "interp [] x = None"
| "interp [r] x = (if x = fst r then Some (snd r) else None)"
| "interp (lo # hi # rs) x =
     (if x < fst lo then None else if x \<le> fst hi then Some (chord lo hi x) else interp (hi # rs) x)"

lemma transp_climbs: "transp climbs"
  by (auto simp: transp_def climbs_def)

lemma staircase_simps:
  "\<not> staircase []"
  "staircase [r] \<longleftrightarrow> 0 < fst r \<and> 0 < snd r"
  "staircase (lo # hi # rs) \<longleftrightarrow> 0 < fst lo \<and> 0 < snd lo \<and> climbs lo hi \<and> staircase (hi # rs)"
  by (auto simp: staircase_def)

lemma staircase_later:
  "staircase (lo # rs) \<Longrightarrow> r \<in> set rs \<Longrightarrow> climbs lo r"
  unfolding staircase_def
  using successively_conv_sorted_wrt [OF transp_climbs, of "lo # rs"] by auto

lemma staircase_last: "staircase rs \<Longrightarrow> r \<in> set rs \<Longrightarrow> fst r \<le> fst (last rs) \<and> snd r \<le> snd (last rs)"
proof -
  assume s: "staircase rs" and r: "r \<in> set rs"
  then obtain ys y where rs: "rs = ys @ [y]" by (cases rs rule: rev_cases) (auto simp: staircase_def)
  have "sorted_wrt climbs rs"
    using s successively_conv_sorted_wrt [OF transp_climbs] by (simp add: staircase_def)
  with r show ?thesis by (auto simp: rs sorted_wrt_append climbs_def)
qed

lemma chord_ends: "climbs lo hi \<Longrightarrow> chord lo hi (fst lo) = snd lo" "climbs lo hi \<Longrightarrow> chord lo hi (fst hi) = snd hi"
  by (auto simp: chord_def climbs_def)

lemma chord_mono: "climbs lo hi \<Longrightarrow> x \<le> y \<Longrightarrow> chord lo hi x \<le> chord lo hi y"
  by (auto simp: chord_def climbs_def intro!: zdiv_mono1 mult_left_mono)

text \<open>Between adjacent input units nothing is interpolated: a jump is encoded exactly.\<close>

lemma chord_unit: "fst hi = fst lo + 1 \<Longrightarrow> chord lo hi x = snd lo + (snd hi - snd lo) * (x - fst lo)"
  by (simp add: chord_def)

lemma chord_flat: "snd hi = snd lo \<Longrightarrow> chord lo hi x = snd lo"
  by (simp add: chord_def)

lemma interp_below: "rs \<noteq> [] \<Longrightarrow> x < fst (hd rs) \<Longrightarrow> interp rs x = None"
  by (induction rs x rule: interp.induct) auto

lemma interp_defined:
  assumes "staircase rs"
  shows "interp rs x \<noteq> None \<longleftrightarrow> fst (hd rs) \<le> x \<and> x \<le> fst (last rs)"
  using assms
proof (induction rs x rule: interp.induct)
  case (3 lo hi rs x)
  then have "climbs lo hi" "staircase (hi # rs)" "fst hi \<le> fst (last (hi # rs))"
    by (auto simp: staircase_simps dest: staircase_last [of "hi # rs" hi])
  with 3 show ?case by (auto simp: climbs_def)
qed (auto simp: staircase_simps)

lemma interp_rung:
  assumes "staircase rs" "r \<in> set rs"
  shows "interp rs (fst r) = Some (snd r)"
  using assms
proof (induction rs)
  case (Cons lo rs)
  show ?case
  proof (cases rs)
    case Nil
    with Cons.prems show ?thesis by simp
  next
    case (Cons hi rs')
    with Cons.prems have c: "climbs lo hi" "staircase (hi # rs')" by (auto simp: staircase_simps)
    show ?thesis
    proof (cases "r = lo \<or> r = hi")
      case True
      with c Cons show ?thesis by (auto simp: chord_ends) (auto simp: climbs_def)
    next
      case False
      with Cons.prems Cons have "r \<in> set rs'" by auto
      moreover from this have "fst hi < fst r"
        using staircase_later [OF c(2)] by (simp add: climbs_def)
      ultimately show ?thesis using Cons.IH Cons c by (auto simp: climbs_def)
    qed
  qed
qed simp

lemma interp_lower: "staircase rs \<Longrightarrow> interp rs x = Some q \<Longrightarrow> snd (hd rs) \<le> q"
proof (induction rs x rule: interp.induct)
  case (3 lo hi rs x)
  then have c: "climbs lo hi" "staircase (hi # rs)" by (auto simp: staircase_simps)
  show ?case
  proof (cases "x \<le> fst hi")
    case True
    with 3 chord_mono [OF c(1), of "fst lo" x] chord_ends(1) [OF c(1)] show ?thesis
      by (auto split: if_splits)
  next
    case False
    with 3 c show ?thesis by (auto simp: climbs_def split: if_splits)
  qed
qed (auto split: if_splits)

lemma interp_mono:
  "staircase rs \<Longrightarrow> interp rs x = Some p \<Longrightarrow> interp rs y = Some q \<Longrightarrow> x \<le> y \<Longrightarrow> p \<le> q"
proof (induction rs x arbitrary: y rule: interp.induct)
  case (3 lo hi rs x)
  then have c: "climbs lo hi" "staircase (hi # rs)" by (auto simp: staircase_simps)
  show ?case
  proof (cases "y \<le> fst hi")
    case True
    with 3 chord_mono [OF c(1), of x y] show ?thesis by (auto split: if_splits)
  next
    case y: False
    show ?thesis
    proof (cases "x \<le> fst hi")
      case True
      have "chord lo hi x \<le> snd hi"
        using chord_mono [OF c(1) True] chord_ends(2) [OF c(1)] by simp
      moreover have "snd hi \<le> q"
        using interp_lower [OF c(2), of y q] "3.prems" y by (auto split: if_splits)
      ultimately show ?thesis using "3.prems" True by (auto split: if_splits)
    next
      case False
      with 3 c y show ?thesis by (auto split: if_splits)
    qed
  qed
qed (auto split: if_splits)

section \<open>The code against the specification\<close>

definition rung_of :: "price_level \<Rightarrow> rung" where
  "rung_of l = (digits_value (pl_input l), digits_value (pl_output l))"

definition good_level :: "price_level \<Rightarrow> bool" where
  "good_level l \<longleftrightarrow> isAmountString (JStr (pl_input l)) \<and> isAmountString (JStr (pl_output l))"

text \<open>A JSON rung and the typed level it is read as.\<close>

definition level_view :: "json \<Rightarrow> price_level \<Rightarrow> bool" where
  "level_view r l \<longleftrightarrow> js_get r ''input'' = JStr (pl_input l) \<and> js_get r ''output'' = JStr (pl_output l)"

definition published :: "price_level list \<Rightarrow> bool" where
  "published ls \<longleftrightarrow> list_all good_level ls \<and> length ls \<le> 64 \<and> staircase (map rung_of ls)"

lemma level_view_object: "level_view r l \<Longrightarrow> is_object r"
  by (cases r) (auto simp: level_view_def js_get_def is_object_def)

lemma level_view_values: "level_view r l \<Longrightarrow> field_value r ''input'' = fst (rung_of l) \<and> field_value r ''output'' = snd (rung_of l)"
  by (simp add: level_view_def field_value_def string_value_def rung_of_def)

lemma reject_rung_None:
  assumes "level_view r l" "\<And>p. prev = Some p \<Longrightarrow> level_view p (lp p)"
  shows "reject_rung prev r = None \<longleftrightarrow> good_level l \<and> 0 < fst (rung_of l) \<and> 0 < snd (rung_of l)
     \<and> (case prev of None \<Rightarrow> True | Some p \<Rightarrow> climbs (rung_of (lp p)) (rung_of l))"
  using assms level_view_object [OF assms(1)] level_view_values [OF assms(1)]
  by (auto simp: reject_rung_def good_level_def level_view_def climbs_def level_view_values
      split: option.splits)

lemma reject_rung_view: "reject_rung prev r = None \<Longrightarrow> \<exists>l. level_view r l"
proof -
  assume "reject_rung prev r = None"
  then have "isAmountString (js_get r ''input'')" "isAmountString (js_get r ''output'')"
    by (auto simp: reject_rung_def split: if_splits)
  then obtain a b where "js_get r ''input'' = JStr a" "js_get r ''output'' = JStr b"
    by (auto simp: isAmountString_def split: json.splits)
  then show ?thesis by (intro exI [of _ "\<lparr>pl_input = a, pl_output = b\<rparr>"]) (simp add: level_view_def)
qed

lemma reject_rungs_view: "reject_rungs prev rs = None \<Longrightarrow> \<exists>ls. list_all2 level_view rs ls"
proof (induction rs arbitrary: prev)
  case (Cons r rs)
  then obtain ls where "list_all2 level_view rs ls" by (auto split: option.splits)
  moreover obtain l where "level_view r l"
    using Cons.prems reject_rung_view by (auto split: option.splits)
  ultimately show ?case by (intro exI [of _ "l # ls"]) simp
qed (simp add: exI [of _ "[]"])

lemma reject_rungs_None:
  assumes "list_all2 level_view rs ls" "\<And>p. prev = Some p \<Longrightarrow> level_view p lp"
  shows "reject_rungs prev rs = None \<longleftrightarrow> list_all good_level ls
     \<and> (\<forall>l \<in> set ls. 0 < fst (rung_of l) \<and> 0 < snd (rung_of l))
     \<and> successively climbs ((case prev of None \<Rightarrow> [] | Some p \<Rightarrow> [rung_of lp]) @ map rung_of ls)"
  using assms
proof (induction rs ls arbitrary: prev lp rule: list_all2_induct)
  case Nil
  show ?case by (simp split: option.split)
next
  case (Cons r rs l ls)
  have step: "reject_rungs (Some r) rs = None \<longleftrightarrow> list_all good_level ls
     \<and> (\<forall>l \<in> set ls. 0 < fst (rung_of l) \<and> 0 < snd (rung_of l))
     \<and> successively climbs (rung_of l # map rung_of ls)"
    using Cons.IH [of "Some r" l] Cons.hyps(1) by simp
  show ?case
    using reject_rung_None [OF Cons.hyps(1), of prev "\<lambda>_. lp"] Cons.prems step
    by (cases prev) (auto split: option.splits)
qed

lemma rejectLevels_None_iff:
  "rejectLevels value = None \<longleftrightarrow>
   (\<exists>rungs ls. value = JArr rungs \<and> list_all2 level_view rungs ls \<and> published ls)"
proof
  assume n: "rejectLevels value = None"
  then obtain rungs where v: "value = JArr rungs" "rungs \<noteq> []" "length rungs \<le> 64"
    "reject_rungs None rungs = None"
    by (auto simp: rejectLevels_def MAX_RUNGS_PER_PAIR_def split: json.splits if_splits)
  from reject_rungs_view [OF v(4)] obtain ls where ls: "list_all2 level_view rungs ls" by blast
  with v reject_rungs_None [OF ls, of None] list_all2_lengthD [OF ls] have "published ls"
    by (auto simp: published_def staircase_def)
  with v ls show "\<exists>rungs ls. value = JArr rungs \<and> list_all2 level_view rungs ls \<and> published ls"
    by blast
next
  assume "\<exists>rungs ls. value = JArr rungs \<and> list_all2 level_view rungs ls \<and> published ls"
  then obtain rungs ls where v: "value = JArr rungs" "list_all2 level_view rungs ls" "published ls"
    by blast
  with reject_rungs_None [OF v(2), of None] list_all2_lengthD [OF v(2)]
  show "rejectLevels value = None"
    by (auto simp: rejectLevels_def published_def staircase_def MAX_RUNGS_PER_PAIR_def)
qed

lemma good_level_BigInt:
  assumes "good_level l"
  shows "BigInt (pl_input l) = Inr (fst (rung_of l))" "BigInt (pl_output l) = Inr (snd (rung_of l))"
  using assms canonical_decimal_digits
  by (auto simp: good_level_def isAmountString_def rung_of_def digits_value_of)

lemma quote_from_interp:
  assumes "list_all good_level ls" "staircase (map rung_of ls)"
    "fst (rung_of (hd ls)) \<le> x" "x \<le> fst (rung_of (last ls))"
  shows "\<exists>q. quote_from ls x = Inr q \<and> interp (map rung_of ls) x = Some q"
  using assms
proof (induction ls x rule: quote_from.induct)
  case (3 l h rest x)
  then have c: "climbs (rung_of l) (rung_of h)" and g: "good_level l" "good_level h"
    by (auto simp: staircase_simps)
  show ?case
  proof (cases "x > fst (rung_of h)")
    case True
    with 3 c g show ?thesis
      by (auto simp: staircase_simps good_level_BigInt climbs_def)
  next
    case False
    with 3 c g show ?thesis
      by (auto simp: good_level_BigInt climbs_def chord_def bigint_div_nonneg)
  qed
qed (auto simp: good_level_BigInt staircase_simps)

lemma interpolateQuote_interp:
  assumes "published ls"
  shows "interpolateQuote ls x = Inr (interp (map rung_of ls) x)"
proof -
  from assms have g: "list_all good_level ls" and s: "staircase (map rung_of ls)"
    by (auto simp: published_def)
  then have ne: "ls \<noteq> []" by (auto simp: staircase_simps)
  then have gl: "good_level (hd ls)" "good_level (last ls)" using g by (auto simp: list_all_iff)
  have d: "interp (map rung_of ls) x \<noteq> None \<longleftrightarrow> fst (rung_of (hd ls)) \<le> x \<and> x \<le> fst (rung_of (last ls))"
    using interp_defined [OF s, of x] ne by (simp add: hd_map last_map)
  show ?thesis
  proof (cases "fst (rung_of (hd ls)) \<le> x \<and> x \<le> fst (rung_of (last ls))")
    case True
    with quote_from_interp [OF g s] obtain q where "quote_from ls x = Inr q" "interp (map rung_of ls) x = Some q"
      by blast
    with True ne gl show ?thesis by (simp add: interpolateQuote_def good_level_BigInt)
  next
    case False
    with d have "interp (map rung_of ls) x = None" by blast
    with False ne gl show ?thesis by (auto simp: interpolateQuote_def good_level_BigInt)
  qed
qed

section \<open>The quoting contract\<close>

text \<open>
  What a publisher of ladders relies on: the quoter evaluates a published ladder by floored
  linear interpolation. Both quoters of the repository provide it, the node's here and the
  relay's in the relay contract.
\<close>

locale ladder_quoter =
  fixes quote :: "price_level list \<Rightarrow> int \<Rightarrow> int option result"
  assumes quote_interp: "published ls \<Longrightarrow> quote ls x = Inr (interp (map rung_of ls) x)"
begin

lemma quote_range:
  assumes "published ls"
  shows "(\<exists>q. quote ls x = Inr (Some q)) \<longleftrightarrow> fst (rung_of (hd ls)) \<le> x \<and> x \<le> fst (rung_of (last ls))"
proof -
  have s: "staircase (map rung_of ls)" and ne: "ls \<noteq> []"
    using assms by (auto simp: published_def staircase_simps)
  show ?thesis
    using interp_defined [OF s, of x] ne by (auto simp: quote_interp [OF assms] hd_map last_map)
qed

lemma quote_rung:
  "published ls \<Longrightarrow> l \<in> set ls \<Longrightarrow> quote ls (fst (rung_of l)) = Inr (Some (snd (rung_of l)))"
  using interp_rung [of "map rung_of ls" "rung_of l"] by (simp add: quote_interp published_def)

lemma quote_mono:
  "published ls \<Longrightarrow> quote ls x = Inr (Some p) \<Longrightarrow> quote ls y = Inr (Some q) \<Longrightarrow> x \<le> y \<Longrightarrow> p \<le> q"
  using interp_mono [of "map rung_of ls" x p y q] by (simp add: quote_interp published_def)

lemma quote_total: "published ls \<Longrightarrow> \<exists>r. quote ls x = Inr r"
  by (simp add: quote_interp)

end

interpretation node_quoter: ladder_quoter interpolateQuote
  by unfold_locales (rule interpolateQuote_interp)

text \<open>How a publisher spells a rung; the spelling is accepted and read back.\<close>

definition encode_rung :: "rung \<Rightarrow> price_level" where
  "encode_rung r = \<lparr>pl_input = bigint_to_string (fst r), pl_output = bigint_to_string (snd r)\<rparr>"

lemma rung_of_encode [simp]: "rung_of (encode_rung r) = r"
  by (simp add: rung_of_def encode_rung_def)

lemma published_encode:
  assumes "staircase rs" "length rs \<le> 64" "\<forall>r \<in> set rs. fst r \<le> MAX_U256 \<and> snd r \<le> MAX_U256"
  shows "published (map encode_rung rs)"
proof -
  have "\<forall>r \<in> set rs. good_level (encode_rung r)"
    using assms(1,3) by (auto simp: good_level_def encode_rung_def staircase_def
        intro!: isAmountString_bigint_to_string)
  with assms show ?thesis by (auto simp: published_def list_all_iff comp_def)
qed

definition level_json :: "price_level \<Rightarrow> json" where
  "level_json l = JObj [(''input'', JStr (pl_input l)), (''output'', JStr (pl_output l))]"

lemma level_view_json [simp]: "level_view (level_json l) l"
  by (simp add: level_view_def level_json_def)

lemma level_view_unique: "level_view r l \<Longrightarrow> level_view r l' \<Longrightarrow> l = l'"
  by (auto simp: level_view_def)

lemma levels_view_unique: "list_all2 level_view rs ls \<Longrightarrow> list_all2 level_view rs ls' \<Longrightarrow> ls = ls'"
  by (simp add: list_all2_conv_all_nth list_eq_iff_nth_eq) (metis level_view_unique)

section \<open>Properties\<close>

text \<open>
  The schema accepts a value exactly when it is an array of one to 64 rungs whose
  amounts are canonical decimals, positive and at most 2^256-1, with strictly ascending inputs
  and nondecreasing outputs.
\<close>

theorem rejectLevels_accepts:
  "rejectLevels value = None \<longleftrightarrow>
   (\<exists>rungs ls. value = JArr rungs \<and> list_all2 level_view rungs ls \<and> published ls)"
  by (rule rejectLevels_None_iff)

text \<open>
  Quoting an accepted ladder never throws; it answers exactly for the inputs between
  the first and the last rung, hits every rung exactly, and a larger input never quotes less.
\<close>

theorem interpolateQuote_accepted:
  assumes "rejectLevels (JArr rungs) = None" "list_all2 level_view rungs ls"
  shows "(\<exists>r. interpolateQuote ls x = Inr r)
     \<and> ((\<exists>q. interpolateQuote ls x = Inr (Some q)) \<longleftrightarrow> fst (rung_of (hd ls)) \<le> x \<and> x \<le> fst (rung_of (last ls)))
     \<and> list_all (\<lambda>l. interpolateQuote ls (fst (rung_of l)) = Inr (Some (snd (rung_of l)))) ls
     \<and> (interpolateQuote ls x = Inr (Some p) \<and> interpolateQuote ls y = Inr (Some q) \<and> x \<le> y \<longrightarrow> p \<le> q)"
proof -
  from assms have p: "published ls"
    using rejectLevels_None_iff [of "JArr rungs"] levels_view_unique by blast
  show ?thesis
    using node_quoter.quote_total [OF p, of x] node_quoter.quote_range [OF p, of x]
      node_quoter.quote_rung [OF p] node_quoter.quote_mono [OF p, of x p y q]
    by (auto simp: list_all_iff)
qed

subsection \<open>Concrete inputs\<close>

definition sample_ladder :: "price_level list" where
  "sample_ladder = map encode_rung [(10, 7), (20, 12)]"

lemma sample_ladder_published: "published sample_ladder"
  unfolding sample_ladder_def
  by (rule published_encode) (simp_all add: staircase_simps climbs_def MAX_U256_def)

lemma sample_ladder_view: "list_all2 level_view (map level_json sample_ladder) sample_ladder"
  by (simp add: list_all2_conv_all_nth)

theorem interpolateQuote_accepted_witness:
  "interpolateQuote sample_ladder 15 = Inr (Some 9) \<and> interpolateQuote sample_ladder 20 = Inr (Some 12)"
proof -
  have a: "rejectLevels (JArr (map level_json sample_ladder)) = None"
    using rejectLevels_None_iff sample_ladder_published sample_ladder_view by blast
  have "interpolateQuote sample_ladder 15 = Inr (Some 9)"
    using interpolateQuote_interp [OF sample_ladder_published, of 15]
    by (simp add: sample_ladder_def comp_def chord_def)
  with interpolateQuote_accepted [OF a sample_ladder_view, of 15 9 15 9] show ?thesis
    by (simp add: sample_ladder_def)
qed

end
