(* ===== verification/Relay_Contract.thy ===== *)
theory Relay_Contract
  imports Ladder_Schema
begin

text \<open>
  Model of \<^verbatim>\<open>packages/solver-core/relay-ws-contract.ts\<close>: the acceptance predicates of the
  relay's websocket frames, the parsers the solver and the relay apply to them, and the
  relay's own quoting function, which defines what a published ladder is held to.
\<close>

section \<open>Messages\<close>

record solver_capabilities =
  sc_tokenIds :: "string list"
  sc_maxParallelSwaps :: "int option"

record swap_tx =
  st_jobId :: string
  st_txBytes :: string

record job_error =
  je_jobId :: string
  je_reason :: string

record swap_message =
  sw_jobId :: string
  sw_tokenIn :: string
  sw_tokenOut :: string
  sw_amountIn :: string
  sw_amountOut :: string

record tx_submitted =
  ts_jobId :: string
  ts_txId :: string

record submit_failed =
  sf_jobId :: string
  sf_reason :: string

section \<open>Predicates\<close>

definition relay_isAmountString :: "json \<Rightarrow> bool" where
  "relay_isAmountString value = (case value of JStr s \<Rightarrow> s \<noteq> [] \<and> list_all is_digit s | _ \<Rightarrow> False)"

definition isHexBytes :: "json \<Rightarrow> bool" where
  "isHexBytes value = (case value of JStr s \<Rightarrow> even (length s) \<and> list_all is_hex_digit s | _ \<Rightarrow> False)"

definition isCapabilityTokenId :: "json \<Rightarrow> bool" where
  "isCapabilityTokenId value = (case value of JStr s \<Rightarrow> isHex64 s | _ \<Rightarrow> False)"

definition is_string :: "json \<Rightarrow> bool" where
  "is_string value = (case value of JStr s \<Rightarrow> True | _ \<Rightarrow> False)"

definition nonempty_string :: "json \<Rightarrow> bool" where
  "nonempty_string value = (case value of JStr s \<Rightarrow> s \<noteq> [] | _ \<Rightarrow> False)"

lemma nonempty_string_value: "nonempty_string v \<Longrightarrow> string_value v \<noteq> []"
  by (cases v) (simp_all add: nonempty_string_def string_value_def)

text \<open>\<open>asRecord\<close> answers the value itself when it is a plain object.\<close>

definition asRecord :: "json \<Rightarrow> json option" where
  "asRecord value = (case value of JObj _ \<Rightarrow> Some value | _ \<Rightarrow> None)"

definition relay_rung_ok :: "json option \<Rightarrow> json \<Rightarrow> bool" where
  "relay_rung_ok previous rung =
     (case asRecord rung of
        None \<Rightarrow> False
      | Some level \<Rightarrow>
          relay_isAmountString (js_get level ''input'') \<and> relay_isAmountString (js_get level ''output'')
          \<and> (case previous of None \<Rightarrow> True
             | Some p \<Rightarrow> \<not> field_value p ''input'' \<ge> field_value level ''input''))"

fun relay_rungs_ok :: "json option \<Rightarrow> json list \<Rightarrow> bool" where
  "relay_rungs_ok previous [] = True"
| "relay_rungs_ok previous (r # rs) = (relay_rung_ok previous r \<and> relay_rungs_ok (Some r) rs)"

definition isPriceLevelsPair :: "json \<Rightarrow> bool" where
  "isPriceLevelsPair value =
     (case asRecord value of
        None \<Rightarrow> False
      | Some pair \<Rightarrow>
          is_string (js_get pair ''tokenIn'') \<and> is_string (js_get pair ''tokenOut'')
          \<and> (case js_get pair ''levels'' of JArr rungs \<Rightarrow> relay_rungs_ok None rungs | _ \<Rightarrow> False))"

section \<open>Parsers\<close>

text \<open>The record of a frame of the expected type.\<close>

definition frame_of_type :: "string \<Rightarrow> json \<Rightarrow> json option" where
  "frame_of_type kind value =
     (case asRecord value of
        None \<Rightarrow> None
      | Some m \<Rightarrow> if js_get m ''type'' = JStr kind then Some m else None)"

definition parseSolverCapabilities :: "json \<Rightarrow> solver_capabilities option" where
  "parseSolverCapabilities value =
     (case frame_of_type ''solver-capabilities'' value of
        None \<Rightarrow> None
      | Some m \<Rightarrow>
         (case js_get m ''tokenIds'' of
            JArr tokenIds \<Rightarrow>
              if list_all isCapabilityTokenId tokenIds
              then Some \<lparr>sc_tokenIds = map (\<lambda>t. toLowerCase (string_value t)) tokenIds,
                     sc_maxParallelSwaps =
                       (case js_get m ''maxParallelSwaps'' of
                          JNum (Integral n) \<Rightarrow> if n > 0 then Some n else None
                        | _ \<Rightarrow> None)\<rparr>
              else None
          | _ \<Rightarrow> None))"

definition parsePriceLevels :: "json \<Rightarrow> json list option" where
  "parsePriceLevels value =
     (case frame_of_type ''price-levels'' value of
        None \<Rightarrow> None
      | Some m \<Rightarrow>
         (case js_get m ''levels'' of
            JArr levels \<Rightarrow> if list_all isPriceLevelsPair levels then Some levels else None
          | _ \<Rightarrow> None))"

definition parseSwapTx :: "json \<Rightarrow> swap_tx option" where
  "parseSwapTx value =
     (case frame_of_type ''swap-tx'' value of
        None \<Rightarrow> None
      | Some m \<Rightarrow>
          if \<not> is_string (js_get m ''jobId'') \<or> \<not> isHexBytes (js_get m ''txBytes'') then None
          else Some \<lparr>st_jobId = string_value (js_get m ''jobId''),
                     st_txBytes = string_value (js_get m ''txBytes'')\<rparr>)"

definition parseJobError :: "json \<Rightarrow> job_error option" where
  "parseJobError value =
     (case frame_of_type ''job-error'' value of
        None \<Rightarrow> None
      | Some m \<Rightarrow>
          if \<not> is_string (js_get m ''jobId'') \<or> \<not> is_string (js_get m ''reason'') then None
          else Some \<lparr>je_jobId = string_value (js_get m ''jobId''),
                     je_reason = string_value (js_get m ''reason'')\<rparr>)"

definition parseSwap :: "json \<Rightarrow> swap_message option" where
  "parseSwap value =
     (case frame_of_type ''swap'' value of
        None \<Rightarrow> None
      | Some m \<Rightarrow>
          if \<not> nonempty_string (js_get m ''jobId'') then None
          else if \<not> nonempty_string (js_get m ''tokenIn'') then None
          else if \<not> nonempty_string (js_get m ''tokenOut'') then None
          else if \<not> relay_isAmountString (js_get m ''amountIn'')
                \<or> \<not> relay_isAmountString (js_get m ''amountOut'') then None
          else if field_value m ''amountIn'' \<le> 0 \<or> field_value m ''amountOut'' \<le> 0 then None
          else Some \<lparr>sw_jobId = string_value (js_get m ''jobId''),
                     sw_tokenIn = string_value (js_get m ''tokenIn''),
                     sw_tokenOut = string_value (js_get m ''tokenOut''),
                     sw_amountIn = string_value (js_get m ''amountIn''),
                     sw_amountOut = string_value (js_get m ''amountOut'')\<rparr>)"

definition parseTxSubmitted :: "json \<Rightarrow> tx_submitted option" where
  "parseTxSubmitted value =
     (case frame_of_type ''tx-submitted'' value of
        None \<Rightarrow> None
      | Some m \<Rightarrow>
          if \<not> nonempty_string (js_get m ''jobId'') then None
          else if \<not> is_string (js_get m ''txId'') then None
          else Some \<lparr>ts_jobId = string_value (js_get m ''jobId''),
                     ts_txId = string_value (js_get m ''txId'')\<rparr>)"

definition parseSubmitFailed :: "json \<Rightarrow> submit_failed option" where
  "parseSubmitFailed value =
     (case frame_of_type ''submit-failed'' value of
        None \<Rightarrow> None
      | Some m \<Rightarrow>
          if \<not> nonempty_string (js_get m ''jobId'') then None
          else if \<not> is_string (js_get m ''reason'') then None
          else Some \<lparr>sf_jobId = string_value (js_get m ''jobId''),
                     sf_reason = string_value (js_get m ''reason'')\<rparr>)"

section \<open>The relay's quote\<close>

function relay_quote_from :: "price_level list \<Rightarrow> nat \<Rightarrow> int \<Rightarrow> int result" where
  "relay_quote_from levels index amountIn =
     (if Suc index < length levels then
        bindR (BigInt (pl_input (levels ! index))) (\<lambda>inputLow.
        bindR (BigInt (pl_input (levels ! Suc index))) (\<lambda>inputHigh.
          if amountIn > inputHigh then relay_quote_from levels (Suc index) amountIn
          else if inputHigh \<le> inputLow then BigInt (pl_output (levels ! index))
          else
            bindR (BigInt (pl_output (levels ! index))) (\<lambda>outputLow.
            bindR (BigInt (pl_output (levels ! Suc index))) (\<lambda>outputHigh.
              Inr (outputLow + bigint_div ((outputHigh - outputLow) * (amountIn - inputLow))
                                          (inputHigh - inputLow))))))
      else BigInt (pl_output (levels ! (length levels - 1))))"
  by pat_completeness auto

termination
  by (relation "measure (\<lambda>(levels, index, _). length levels - index)") auto

declare relay_quote_from.simps [simp del]

definition relay_interpolateQuote :: "price_level list \<Rightarrow> int \<Rightarrow> int option result" where
  "relay_interpolateQuote levels amountIn =
     (if levels = [] then Inr None
      else bindR (BigInt (pl_input (levels ! 0))) (\<lambda>first.
        if amountIn < first then Inr None
        else bindR (BigInt (pl_input (levels ! (length levels - 1)))) (\<lambda>lst.
          if amountIn > lst then Inr None
          else bindR (relay_quote_from levels 0 amountIn) (\<lambda>q. Inr (Some q)))))"

section \<open>The two quoters agree\<close>

lemma relay_quote_from_drop:
  "index < length levels \<Longrightarrow> relay_quote_from levels index x = quote_from (drop index levels) x"
proof (induction levels index x rule: relay_quote_from.induct)
  case (1 levels index x)
  have d: "drop index levels = levels ! index # drop (Suc index) levels"
    using 1(2) by (simp add: Cons_nth_drop_Suc)
  show ?case
  proof (cases "Suc index < length levels")
    case True
    then have d2: "drop (Suc index) levels = levels ! Suc index # drop (Suc (Suc index)) levels"
      by (simp add: Cons_nth_drop_Suc)
    show ?thesis
      unfolding d d2 using 1(1) True d2
      by (subst relay_quote_from.simps) (auto intro!: bindR_cong)
  next
    case False
    with 1(2) have e: "index = length levels - 1" and n: "drop (Suc index) levels = []" by auto
    show ?thesis
      unfolding d n using False by (subst relay_quote_from.simps) (simp add: e)
  qed
qed

lemma relay_interpolateQuote_eq: "relay_interpolateQuote ls x = interpolateQuote ls x"
  by (cases "ls = []")
    (simp_all add: relay_interpolateQuote_def interpolateQuote_def relay_quote_from_drop hd_conv_nth last_conv_nth
      cong: if_cong)

interpretation relay_quoter: ladder_quoter relay_interpolateQuote
  by unfold_locales (simp add: relay_interpolateQuote_eq interpolateQuote_interp)

section \<open>What the schema accepts, the relay accepts\<close>

lemma schema_amount_relay: "isAmountString v \<Longrightarrow> relay_isAmountString v"
  by (auto simp: isAmountString_def relay_isAmountString_def canonical_decimal_digits
      canonical_decimal_def split: json.splits) (simp_all add: is_digit_def)

lemma reject_rungs_relay:
  "reject_rungs prev rs = None \<Longrightarrow> list_all (\<lambda>r. asRecord r \<noteq> None) rs \<Longrightarrow> relay_rungs_ok prev rs"
proof (induction rs arbitrary: prev)
  case (Cons r rs)
  then have n: "reject_rung prev r = None" by (auto split: option.splits)
  then have "relay_rung_ok prev r"
    using Cons.prems(2) schema_amount_relay
    by (auto simp: reject_rung_def relay_rung_ok_def asRecord_def split: if_splits option.splits json.splits)
  with Cons n show ?case by auto
qed simp

section \<open>Properties\<close>

text \<open>
  A pair the canonical schema accepts is accepted by the relay's laxer predicate
  (so no push the solver validates with the schema is silently dropped), and on its ladder the
  relay's quote and the node's quote are the same at every amount.
\<close>

theorem schema_pair_relayed:
  assumes "rejectPair value = None" "value = JObj fs"
    and "js_get value ''levels'' = JArr rungs" "list_all (\<lambda>r. asRecord r \<noteq> None) rungs"
    and "list_all2 level_view rungs ls"
  shows "isPriceLevelsPair value \<and> relay_interpolateQuote ls x = interpolateQuote ls x
     \<and> (\<exists>r. relay_interpolateQuote ls x = Inr r)"
proof -
  from assms(1,3) have r: "rejectLevels (JArr rungs) = None"
    and t: "isTokenColor (js_get value ''tokenIn'')" "isTokenColor (js_get value ''tokenOut'')"
    by (auto simp: rejectPair_def split: if_splits)
  from t have s: "is_string (js_get value ''tokenIn'')" "is_string (js_get value ''tokenOut'')"
    by (auto simp: isTokenColor_def is_string_def split: json.splits)
  from r have "reject_rungs None rungs = None" by (auto simp: rejectLevels_def split: if_splits)
  from reject_rungs_relay [OF this assms(4)] s assms(2,3) have "isPriceLevelsPair value"
    by (simp add: isPriceLevelsPair_def asRecord_def)
  moreover from r assms(5) have "published ls"
    using rejectLevels_None_iff [of "JArr rungs"] levels_view_unique by blast
  ultimately show ?thesis
    using relay_quoter.quote_total [of ls x] by (simp add: relay_interpolateQuote_eq)
qed

text \<open>
  An admitted swap job always carries amounts that are positive integers, readable
  without an exception, and non-empty job and token identifiers.
\<close>

theorem parseSwap_amounts:
  assumes "parseSwap value = Some m"
  shows "(\<exists>a. BigInt (sw_amountIn m) = Inr a \<and> 0 < a) \<and> (\<exists>b. BigInt (sw_amountOut m) = Inr b \<and> 0 < b)
     \<and> sw_jobId m \<noteq> [] \<and> sw_tokenIn m \<noteq> [] \<and> sw_tokenOut m \<noteq> []"
proof -
  have amount: "\<exists>a. BigInt (string_value v) = Inr a \<and> 0 < a"
    if "relay_isAmountString v" "\<not> digits_value (string_value v) \<le> 0" for v
    using that by (cases v) (auto simp: relay_isAmountString_def string_value_def digits_value_of)
  from assms obtain o' where
    "\<not> field_value o' ''amountIn'' \<le> 0" "\<not> field_value o' ''amountOut'' \<le> 0"
    "relay_isAmountString (js_get o' ''amountIn'')" "relay_isAmountString (js_get o' ''amountOut'')"
    "nonempty_string (js_get o' ''jobId'')" "nonempty_string (js_get o' ''tokenIn'')"
    "nonempty_string (js_get o' ''tokenOut'')"
    and m: "m = \<lparr>sw_jobId = string_value (js_get o' ''jobId''),
                     sw_tokenIn = string_value (js_get o' ''tokenIn''),
                     sw_tokenOut = string_value (js_get o' ''tokenOut''),
                     sw_amountIn = string_value (js_get o' ''amountIn''),
                     sw_amountOut = string_value (js_get o' ''amountOut'')\<rparr>"
    by (auto simp: parseSwap_def split: option.splits if_splits)
  then show ?thesis
    using amount [of "js_get o' ''amountIn''"] amount [of "js_get o' ''amountOut''"]
    by (simp add: field_value_def nonempty_string_value)
qed

subsection \<open>Concrete inputs\<close>

definition sample_pair :: json where
  "sample_pair = JObj [(''tokenIn'', JStr (ident CHR ''a'')), (''tokenOut'', JStr (ident CHR ''b'')),
     (''levels'', JArr (map level_json sample_ladder))]"

theorem schema_pair_relayed_witness:
  "rejectPair sample_pair = None \<and> isPriceLevelsPair sample_pair"
proof -
  have l: "js_get sample_pair ''levels'' = JArr (map level_json sample_ladder)"
    by (simp add: sample_pair_def)
  have "rejectLevels (JArr (map level_json sample_ladder)) = None"
    using rejectLevels_None_iff sample_ladder_published sample_ladder_view by blast
  then have r: "rejectPair sample_pair = None"
    by (simp add: rejectPair_def sample_pair_def is_object_def isTokenColor_def string_value_def lower_hex_is_hex)
  have o: "list_all (\<lambda>r. asRecord r \<noteq> None) (map level_json sample_ladder)"
    by (simp add: list_all_iff asRecord_def level_json_def)
  from schema_pair_relayed [OF r sample_pair_def l o sample_ladder_view] r show ?thesis by simp
qed

definition sample_swap :: json where
  "sample_swap = JObj [(''type'', JStr ''swap''), (''jobId'', JStr ''j''), (''tokenIn'', JStr ''t''),
     (''tokenOut'', JStr ''u''), (''amountIn'', JStr ''5''), (''amountOut'', JStr ''3'')]"

theorem parseSwap_amounts_witness:
  "\<exists>m a. parseSwap sample_swap = Some m \<and> BigInt (sw_amountIn m) = Inr a \<and> 0 < a"
proof -
  have "parseSwap sample_swap = Some \<lparr>sw_jobId = ''j'', sw_tokenIn = ''t'', sw_tokenOut = ''u'',
     sw_amountIn = ''5'', sw_amountOut = ''3''\<rparr>"
    by code_simp
  with parseSwap_amounts [OF this] show ?thesis by auto
qed

end
