(* ===== verification/Whole_Offer.thy ===== *)
theory Whole_Offer
  imports Prelude
begin

text \<open>
  Model of \<^verbatim>\<open>packages/solver-core/whole-offer-balance.ts\<close>: exact token accounting for sets of
  indivisible maker offers, the evaluation of one external pair against it, the receipts of
  an admitted trade, and the bounded search for a merge order whose every prefix the ledger's
  signed deltas can represent.
\<close>

section \<open>Limits and data\<close>

definition MAX_COIN_AMOUNT :: int where
  "MAX_COIN_AMOUNT = 2 ^ 128 - 1"

definition MAX_SETTLEMENT_AMOUNT :: int where
  "MAX_SETTLEMENT_AMOUNT = 2 ^ 127 - 1"

definition MAX_PHYSICAL_MAKERS_PER_MERGE :: int where
  "MAX_PHYSICAL_MAKERS_PER_MERGE = 8"

definition MAX_SAFE_MERGE_ORDER_WORK :: int where
  "MAX_SAFE_MERGE_ORDER_WORK =
     MAX_PHYSICAL_MAKERS_PER_MERGE * 2 ^ nat (MAX_PHYSICAL_MAKERS_PER_MERGE - 1)"

lemma max_settlement_pos [simp]: "0 < MAX_SETTLEMENT_AMOUNT"
  by (simp add: MAX_SETTLEMENT_AMOUNT_def)

lemma max_safe_merge_order_work_1024: "MAX_SAFE_MERGE_ORDER_WORK = 1024"
  by (simp add: MAX_SAFE_MERGE_ORDER_WORK_def MAX_PHYSICAL_MAKERS_PER_MERGE_def)

record balance_leg =
  leg_token :: string
  leg_amount :: int

record balance_source =
  src_gives :: "balance_leg list"
  src_wants :: "balance_leg list"

record merge_source = balance_source +
  src_hash :: string

record token_balance =
  tb_token :: string
  tb_gives :: int
  tb_wants :: int
  tb_net :: int

record serialized_balance =
  sb_token :: string
  sb_gives :: string
  sb_wants :: string
  sb_net :: string

record pair_balance =
  pb_tokenIn :: string
  pb_tokenOut :: string
  pb_input :: int
  pb_output :: int
  pb_rows :: "token_balance list"

datatype whole_offer_failure =
  Same_token
| Input_not_negative
| Output_not_positive
| Additional_deficit
| Settlement_amount_cap
| Non_positive_input
| Non_positive_output
| Insufficient_input
| Excess_output

text \<open>A failed evaluation carries its reason and, in most cases, the token at fault.\<close>

type_synonym failure = "whole_offer_failure \<times> string option"

record whole_offer_trade =
  tr_tokenIn :: string
  tr_tokenOut :: string
  tr_input :: int
  tr_output :: int

record whole_offer_receipt =
  rc_token :: string
  rc_amount :: int

record receipt_result =
  rr_requiredInput :: int
  rr_availableOutput :: int
  rr_receipts :: "whole_offer_receipt list"

section \<open>Accounting\<close>

definition canonicalToken :: "string \<Rightarrow> string result" where
  "canonicalToken token =
     (if isHex64 token then Inr (toLowerCase token) else Inl (TypeError (''invalid token id: '' @ token)))"

type_synonym totals = "(string \<times> int \<times> int) list"

text \<open>\<open>totals.get(token) ?? { gives: 0n, wants: 0n }\<close> plus the new amounts, stored back.\<close>

definition bump :: "string \<Rightarrow> int \<Rightarrow> int \<Rightarrow> totals \<Rightarrow> totals" where
  "bump token g w totals =
     (let (g0, w0) = (case map_of totals token of Some c \<Rightarrow> c | None \<Rightarrow> (0, 0))
      in AList.update token (g0 + g, w0 + w) totals)"

definition balance_row :: "string \<Rightarrow> int \<Rightarrow> int \<Rightarrow> token_balance" where
  "balance_row token g w = \<lparr>tb_token = token, tb_gives = g, tb_wants = w, tb_net = g - w\<rparr>"

definition balance_rows :: "totals \<Rightarrow> token_balance list" where
  "balance_rows totals = map (\<lambda>(token, g, w). balance_row token g w) (sort_key fst totals)"

definition add_balance :: "totals \<Rightarrow> token_balance \<Rightarrow> totals result" where
  "add_balance totals b =
     bindR (canonicalToken (tb_token b)) (\<lambda>token.
       if tb_gives b < 0 \<or> tb_wants b < 0 \<or> tb_net b \<noteq> tb_gives b - tb_wants b
       then Inl (TypeError (''invalid token balance for '' @ token))
       else Inr (bump token (tb_gives b) (tb_wants b) totals))"

definition canonicalBalances :: "token_balance list \<Rightarrow> token_balance list result" where
  "canonicalBalances balances =
     bindR (foldR add_balance [] balances) (\<lambda>totals. Inr (balance_rows totals))"

datatype side = Gives | Wants

definition side_name :: "side \<Rightarrow> string" where
  "side_name side = (case side of Gives \<Rightarrow> ''gives'' | Wants \<Rightarrow> ''wants'')"

definition add_leg :: "side \<Rightarrow> totals \<Rightarrow> balance_leg \<Rightarrow> totals result" where
  "add_leg side totals leg =
     bindR (canonicalToken (leg_token leg)) (\<lambda>token.
       if leg_amount leg \<le> 0 then Inl (TypeError (''invalid '' @ side_name side @ '' amount for '' @ token))
       else Inr (case side of
           Gives \<Rightarrow> bump token (leg_amount leg) 0 totals
         | Wants \<Rightarrow> bump token 0 (leg_amount leg) totals))"

definition add_source :: "totals \<Rightarrow> 'a balance_source_scheme \<Rightarrow> totals result" where
  "add_source totals s =
     bindR (foldR (add_leg Gives) totals (src_gives s)) (\<lambda>t. foldR (add_leg Wants) t (src_wants s))"

definition accountWholeOfferBalances :: "'a balance_source_scheme list \<Rightarrow> token_balance list result" where
  "accountWholeOfferBalances sources =
     bindR (foldR add_source [] sources) (\<lambda>totals. Inr (balance_rows totals))"

definition serializeWholeOfferTokenBalances :: "token_balance list \<Rightarrow> serialized_balance list result" where
  "serializeWholeOfferTokenBalances balances =
     bindR (canonicalBalances balances) (\<lambda>rows. Inr (map (\<lambda>b.
       \<lparr>sb_token = tb_token b, sb_gives = bigint_to_string (tb_gives b),
        sb_wants = bigint_to_string (tb_wants b), sb_net = bigint_to_string (tb_net b)\<rparr>) rows))"

section \<open>One external pair against a maker net vector\<close>

definition evaluateWholeOfferPair ::
    "token_balance list \<Rightarrow> string \<Rightarrow> string \<Rightarrow> (failure + pair_balance) result" where
  "evaluateWholeOfferPair balances tokenIn tokenOut =
     bindR (canonicalToken tokenIn) (\<lambda>inputToken.
     bindR (canonicalToken tokenOut) (\<lambda>outputToken.
       if inputToken = outputToken then Inr (Inl (Same_token, None))
       else bindR (canonicalBalances balances) (\<lambda>rows. Inr (
         case List.find (\<lambda>b. tb_token b = inputToken) rows of
           None \<Rightarrow> Inl (Input_not_negative, Some inputToken)
         | Some i \<Rightarrow> if 0 \<le> tb_net i then Inl (Input_not_negative, Some inputToken)
         else (case List.find (\<lambda>b. tb_token b = outputToken) rows of
           None \<Rightarrow> Inl (Output_not_positive, Some outputToken)
         | Some out \<Rightarrow> if tb_net out \<le> 0 then Inl (Output_not_positive, Some outputToken)
         else (case List.find (\<lambda>b. tb_token b \<noteq> inputToken \<and> tb_net b < 0) rows of
           Some d \<Rightarrow> Inl (Additional_deficit, Some (tb_token d))
         | None \<Rightarrow> (case List.find (\<lambda>b. tb_net b > MAX_SETTLEMENT_AMOUNT
                              \<or> tb_net b < - MAX_SETTLEMENT_AMOUNT) rows of
           Some x \<Rightarrow> Inl (Settlement_amount_cap, Some (tb_token x))
         | None \<Rightarrow> Inr \<lparr>pb_tokenIn = inputToken, pb_tokenOut = outputToken,
                      pb_input = - tb_net i, pb_output = tb_net out, pb_rows = rows\<rparr>)))))))"

definition receipt_rows :: "pair_balance \<Rightarrow> whole_offer_trade \<Rightarrow> whole_offer_receipt list" where
  "receipt_rows p trade =
     filter (\<lambda>r. rc_amount r > 0) (map (\<lambda>b. \<lparr>rc_token = tb_token b,
       rc_amount = tb_net b + (if tb_token b = pb_tokenIn p then tr_input trade else 0)
                            - (if tb_token b = pb_tokenOut p then tr_output trade else 0)\<rparr>)
       (pb_rows p))"

definition buildWholeOfferReceipts ::
    "token_balance list \<Rightarrow> whole_offer_trade \<Rightarrow> (failure + receipt_result) result" where
  "buildWholeOfferReceipts balances trade =
     (if tr_input trade \<le> 0 then Inr (Inl (Non_positive_input, None))
      else if tr_output trade \<le> 0 then Inr (Inl (Non_positive_output, None))
      else if tr_input trade > MAX_SETTLEMENT_AMOUNT
        then bindR (canonicalToken (tr_tokenIn trade)) (\<lambda>t. Inr (Inl (Settlement_amount_cap, Some t)))
      else if tr_output trade > MAX_SETTLEMENT_AMOUNT
        then bindR (canonicalToken (tr_tokenOut trade)) (\<lambda>t. Inr (Inl (Settlement_amount_cap, Some t)))
      else bindR (evaluateWholeOfferPair balances (tr_tokenIn trade) (tr_tokenOut trade)) (\<lambda>ev. Inr (
        case ev of Inl f \<Rightarrow> Inl f
        | Inr p \<Rightarrow>
          if tr_input trade < pb_input p then Inl (Insufficient_input, Some (pb_tokenIn p))
          else if tr_output trade > pb_output p then Inl (Excess_output, Some (pb_tokenOut p))
          else (let receipts = receipt_rows p trade in
            case List.find (\<lambda>r. rc_amount r > MAX_SETTLEMENT_AMOUNT) receipts of
              Some r \<Rightarrow> Inl (Settlement_amount_cap, Some (rc_token r))
            | None \<Rightarrow> Inr \<lparr>rr_requiredInput = pb_input p, rr_availableOutput = pb_output p,
                         rr_receipts = receipts\<rparr>))))"

section \<open>What accounting computes\<close>

text \<open>
  Both accounting loops add contributions \<open>(token, gives, wants)\<close> into a map. The shared
  facts are about that fold; the two loops are instances.
\<close>

type_synonym contribution = "string \<times> int \<times> int"

definition tally :: "contribution list \<Rightarrow> totals \<Rightarrow> totals" where
  "tally cs totals = fold (\<lambda>(k, g, w). bump k g w) cs totals"

definition given :: "contribution list \<Rightarrow> string \<Rightarrow> int" where
  "given cs k = (\<Sum>(k', g, w)\<leftarrow>cs. if k' = k then g else 0)"

definition wanted :: "contribution list \<Rightarrow> string \<Rightarrow> int" where
  "wanted cs k = (\<Sum>(k', g, w)\<leftarrow>cs. if k' = k then w else 0)"

definition contribution_rows :: "contribution list \<Rightarrow> token_balance list" where
  "contribution_rows cs =
     map (\<lambda>k. balance_row k (given cs k) (wanted cs k)) (sorted_list_of_set (fst ` set cs))"

lemma map_of_bump:
  "map_of (bump k g w t) =
     (map_of t)(k \<mapsto> (let (g0, w0) = (case map_of t k of Some c \<Rightarrow> c | None \<Rightarrow> (0, 0)) in (g0 + g, w0 + w)))"
  by (simp add: bump_def Let_def update_conv' split: prod.splits)

lemma distinct_bump: "distinct (map fst t) \<Longrightarrow> distinct (map fst (bump k g w t))"
  by (simp add: bump_def Let_def distinct_update split: prod.splits)

lemma dom_tally: "dom (map_of (tally cs t)) = fst ` set cs \<union> dom (map_of t)"
proof (induction cs arbitrary: t)
  case (Cons c cs)
  obtain k g w where c: "c = (k, g, w)" by (cases c)
  have "tally (c # cs) t = tally cs (bump k g w t)"
    by (simp add: tally_def c)
  with Cons show ?case by (auto simp: map_of_bump c)
qed (simp add: tally_def)

lemma distinct_tally: "distinct (map fst t) \<Longrightarrow> distinct (map fst (tally cs t))"
  unfolding tally_def by (induction cs arbitrary: t) (auto simp: distinct_bump split: prod.splits)

lemma tally_get:
  "(case map_of (tally cs t) k of Some c \<Rightarrow> c | None \<Rightarrow> (0, 0)) =
   (let (g0, w0) = (case map_of t k of Some c \<Rightarrow> c | None \<Rightarrow> (0, 0)) in (g0 + given cs k, w0 + wanted cs k))"
proof (induction cs arbitrary: t)
  case (Cons c cs)
  obtain k' g w where c: "c = (k', g, w)" by (cases c)
  have "tally (c # cs) t = tally cs (bump k' g w t)"
    by (simp add: tally_def c)
  with Cons [of "bump k' g w t"] show ?case
    by (auto simp: map_of_bump given_def wanted_def c Let_def split: prod.splits option.splits)
qed (simp add: tally_def given_def wanted_def)

lemma balance_rows_tally: "balance_rows (tally cs []) = contribution_rows cs"
proof -
  let ?t = "tally cs []"
  have d: "distinct (map fst ?t)" by (rule distinct_tally) simp
  have keys: "fst ` set ?t = fst ` set cs"
    using dom_tally [of cs "[]"] by (simp add: dom_map_of_conv_image_fst)
  have get: "the (map_of ?t k) = (given cs k, wanted cs k)" if "k \<in> fst ` set cs" for k
  proof -
    from that have "k \<in> dom (map_of ?t)" by (simp add: dom_tally)
    then obtain v where "map_of ?t k = Some v" by blast
    with tally_get [of cs "[]" k] show ?thesis by simp
  qed
  show ?thesis
    unfolding balance_rows_def contribution_rows_def sort_key_fst_map_of [OF d] keys map_map
    by (rule map_cong [OF refl]) (simp add: get)
qed

lemma given_append [simp]: "given (xs @ ys) k = given xs k + given ys k"
  and wanted_append [simp]: "wanted (xs @ ys) k = wanted xs k + wanted ys k"
  by (simp_all add: given_def wanted_def)

lemma given_Nil [simp]: "given [] k = 0" and wanted_Nil [simp]: "wanted [] k = 0"
  by (simp_all add: given_def wanted_def)

lemma given_nonneg: "\<forall>(k, g, w) \<in> set cs. 0 \<le> g \<Longrightarrow> 0 \<le> given cs k"
  unfolding given_def by (rule sum_list_nonneg) auto

lemma wanted_nonneg: "\<forall>(k, g, w) \<in> set cs. 0 \<le> w \<Longrightarrow> 0 \<le> wanted cs k"
  unfolding wanted_def by (rule sum_list_nonneg) auto

lemma tally_append: "tally (xs @ ys) t = tally ys (tally xs t)"
  by (simp add: tally_def)

text \<open>A fold of steps that each either throw or add contributions.\<close>

lemma foldR_tally:
  assumes "\<And>t x. x \<in> set xs \<Longrightarrow> ok x \<Longrightarrow> f t x = Inr (tally (cs x) t)"
    and "\<And>t x. x \<in> set xs \<Longrightarrow> \<not> ok x \<Longrightarrow> \<exists>m. f t x = Inl (TypeError m)"
  shows "list_all ok xs \<Longrightarrow> foldR f t xs = Inr (tally (concat (map cs xs)) t)"
    and "\<not> list_all ok xs \<Longrightarrow> \<exists>m. foldR f t xs = Inl (TypeError m)"
  using assms
proof (induction xs arbitrary: t)
  case (Cons x xs)
  {
    case 1
    then show ?case using Cons.IH(1) by (simp add: tally_append)
  next
    case 2
    show ?case
    proof (cases "ok x")
      case True
      with 2 have "\<not> list_all ok xs" by simp
      with True 2 Cons.IH(2) show ?thesis by simp
    next
      case False
      with 2(3) [of x t] show ?thesis by auto
    qed
  }
qed (simp_all add: tally_def)

subsection \<open>Maker terms\<close>

definition valid_leg :: "'a balance_leg_scheme \<Rightarrow> bool" where
  "valid_leg l \<longleftrightarrow> isHex64 (leg_token l) \<and> 0 < leg_amount l"

definition valid_source :: "'a balance_source_scheme \<Rightarrow> bool" where
  "valid_source s \<longleftrightarrow> list_all valid_leg (src_gives s) \<and> list_all valid_leg (src_wants s)"

definition leg_contribution :: "side \<Rightarrow> balance_leg \<Rightarrow> contribution" where
  "leg_contribution sd l = (case sd of
     Gives \<Rightarrow> (toLowerCase (leg_token l), leg_amount l, 0)
   | Wants \<Rightarrow> (toLowerCase (leg_token l), 0, leg_amount l))"

definition source_contributions :: "'a balance_source_scheme \<Rightarrow> contribution list" where
  "source_contributions s =
     map (leg_contribution Gives) (src_gives s) @ map (leg_contribution Wants) (src_wants s)"

definition contributions :: "'a balance_source_scheme list \<Rightarrow> contribution list" where
  "contributions sources = concat (map source_contributions sources)"

lemma add_leg_tally:
  "valid_leg l \<Longrightarrow> add_leg sd t l = Inr (tally [leg_contribution sd l] t)"
  "\<not> valid_leg l \<Longrightarrow> \<exists>m. add_leg sd t l = Inl (TypeError m)"
  by (cases sd; auto simp: valid_leg_def add_leg_def canonicalToken_def tally_def leg_contribution_def)+

lemma add_legs_tally:
  "list_all valid_leg ls \<Longrightarrow> foldR (add_leg sd) t ls = Inr (tally (map (leg_contribution sd) ls) t)"
  "\<not> list_all valid_leg ls \<Longrightarrow> \<exists>m. foldR (add_leg sd) t ls = Inl (TypeError m)"
  using foldR_tally [of ls valid_leg "add_leg sd" "\<lambda>l. [leg_contribution sd l]" t]
  by (simp_all add: add_leg_tally)

lemma add_source_tally:
  "valid_source s \<Longrightarrow> add_source t s = Inr (tally (source_contributions s) t)"
  "\<not> valid_source s \<Longrightarrow> \<exists>m. add_source t s = Inl (TypeError m)"
proof -
  show "valid_source s \<Longrightarrow> add_source t s = Inr (tally (source_contributions s) t)"
    by (simp add: valid_source_def add_source_def source_contributions_def add_legs_tally tally_append)
  assume n: "\<not> valid_source s"
  show "\<exists>m. add_source t s = Inl (TypeError m)"
  proof (cases "list_all valid_leg (src_gives s)")
    case True
    with n show ?thesis
      by (simp add: valid_source_def add_source_def add_legs_tally)
  next
    case False
    with add_legs_tally(2) [of "src_gives s" Gives t] show ?thesis
      by (auto simp: add_source_def)
  qed
qed

lemma accountWholeOfferBalances_valid:
  "list_all valid_source sources \<Longrightarrow>
   accountWholeOfferBalances sources = Inr (contribution_rows (contributions sources))"
  using foldR_tally(1) [of sources valid_source add_source source_contributions "[]"]
  by (simp add: add_source_tally accountWholeOfferBalances_def contributions_def balance_rows_tally)

lemma accountWholeOfferBalances_invalid:
  assumes "\<not> list_all valid_source sources"
  shows "\<exists>m. accountWholeOfferBalances sources = Inl (TypeError m)"
proof -
  from foldR_tally(2) [of sources valid_source add_source source_contributions "[]"] assms
  obtain m where "foldR add_source [] sources = Inl (TypeError m)"
    by (auto simp: add_source_tally)
  then show ?thesis by (simp add: accountWholeOfferBalances_def)
qed

lemma accountWholeOfferBalances_Inr:
  "accountWholeOfferBalances sources = Inr rows \<longleftrightarrow>
   list_all valid_source sources \<and> rows = contribution_rows (contributions sources)"
  using accountWholeOfferBalances_valid [of sources] accountWholeOfferBalances_invalid [of sources]
  by (cases "list_all valid_source sources") auto

subsection \<open>Canonical rows\<close>

definition valid_row :: "token_balance \<Rightarrow> bool" where
  "valid_row r \<longleftrightarrow> isLowerHex64 (tb_token r) \<and> 0 \<le> tb_gives r \<and> 0 \<le> tb_wants r
     \<and> tb_net r = tb_gives r - tb_wants r"

definition canonical_rows :: "token_balance list \<Rightarrow> bool" where
  "canonical_rows rows \<longleftrightarrow> sorted (map tb_token rows) \<and> distinct (map tb_token rows)
     \<and> list_all valid_row rows"

text \<open>The net amount of a token over a list of rows.\<close>

definition net_of :: "token_balance list \<Rightarrow> string \<Rightarrow> int" where
  "net_of rows t = (\<Sum>r\<leftarrow>rows. if tb_token r = t then tb_net r else 0)"

lemma net_of_simps [simp]:
  "net_of [] t = 0"
  "net_of (r # rows) t = (if tb_token r = t then tb_net r else 0) + net_of rows t"
  "net_of (xs @ ys) t = net_of xs t + net_of ys t"
  by (simp_all add: net_of_def)

lemma net_of_absent: "t \<notin> tb_token ` set rows \<Longrightarrow> net_of rows t = 0"
  by (induction rows) auto

lemma net_of_member:
  "distinct (map tb_token rows) \<Longrightarrow> r \<in> set rows \<Longrightarrow> net_of rows (tb_token r) = tb_net r"
  by (induction rows) (auto simp: net_of_absent image_iff)

lemma net_of_find:
  assumes "distinct (map tb_token rows)"
  shows "(case List.find (\<lambda>b. tb_token b = t) rows of None \<Rightarrow> 0 | Some b \<Rightarrow> tb_net b) = net_of rows t"
  using assms by (induction rows) (auto simp: net_of_absent image_iff)

lemma contribution_absent: "t \<notin> fst ` set cs \<Longrightarrow> given cs t = 0 \<and> wanted cs t = 0"
  by (induction cs) (auto simp: given_def wanted_def)

lemma net_of_contribution_rows:
  "net_of (contribution_rows cs) t = given cs t - wanted cs t"
proof (cases "t \<in> fst ` set cs")
  case True
  have d: "distinct (map tb_token (contribution_rows cs))"
    by (simp add: contribution_rows_def balance_row_def comp_def)
  have "balance_row t (given cs t) (wanted cs t) \<in> set (contribution_rows cs)"
    using True by (auto simp: contribution_rows_def)
  from net_of_member [OF d this] show ?thesis by (simp add: balance_row_def)
next
  case False
  then have "t \<notin> tb_token ` set (contribution_rows cs)"
    by (simp add: contribution_rows_def balance_row_def image_image)
  moreover from False have "given cs t = 0" "wanted cs t = 0"
    by (simp_all add: contribution_absent)
  ultimately show ?thesis by (simp add: net_of_absent)
qed

lemma canonical_contribution_rows:
  assumes "\<forall>(k, g, w) \<in> set cs. isLowerHex64 k \<and> 0 \<le> g \<and> 0 \<le> w"
  shows "canonical_rows (contribution_rows cs)"
  using assms
  by (auto simp: canonical_rows_def contribution_rows_def balance_row_def comp_def valid_row_def
      list_all_iff intro!: given_nonneg wanted_nonneg)

lemma canonical_account:
  "accountWholeOfferBalances sources = Inr rows \<Longrightarrow> canonical_rows rows"
  by (auto simp: accountWholeOfferBalances_Inr contributions_def source_contributions_def
      leg_contribution_def valid_source_def valid_leg_def list_all_iff isHex64_toLowerCase
      intro!: canonical_contribution_rows; force)

definition row_contribution :: "token_balance \<Rightarrow> contribution" where
  "row_contribution r = (toLowerCase (tb_token r), tb_gives r, tb_wants r)"

definition acceptable_row :: "token_balance \<Rightarrow> bool" where
  "acceptable_row r \<longleftrightarrow> isHex64 (tb_token r) \<and> 0 \<le> tb_gives r \<and> 0 \<le> tb_wants r
     \<and> tb_net r = tb_gives r - tb_wants r"

lemma add_balance_tally:
  "acceptable_row r \<Longrightarrow> add_balance t r = Inr (tally [row_contribution r] t)"
  "\<not> acceptable_row r \<Longrightarrow> \<exists>m. add_balance t r = Inl (TypeError m)"
  by (auto simp: acceptable_row_def add_balance_def canonicalToken_def tally_def row_contribution_def)

lemma canonicalBalances_Inr:
  "canonicalBalances rows = Inr rows' \<longleftrightarrow>
   list_all acceptable_row rows \<and> rows' = contribution_rows (map row_contribution rows)"
proof (cases "list_all acceptable_row rows")
  case True
  with foldR_tally(1) [of rows acceptable_row add_balance "\<lambda>r. [row_contribution r]" "[]"]
  show ?thesis by (auto simp: add_balance_tally canonicalBalances_def balance_rows_tally)
next
  case False
  with foldR_tally(2) [of rows acceptable_row add_balance "\<lambda>r. [row_contribution r]" "[]"]
  obtain m where "foldR add_balance [] rows = Inl (TypeError m)"
    by (auto simp: add_balance_tally)
  with False show ?thesis by (simp add: canonicalBalances_def)
qed

lemma canonical_rows_fixpoint: "canonical_rows rows \<Longrightarrow> canonicalBalances rows = Inr rows"
proof -
  assume c: "canonical_rows rows"
  let ?cs = "map row_contribution rows"
  from c have d: "distinct (map tb_token rows)" and s: "sorted (map tb_token rows)"
    and v: "\<And>r. r \<in> set rows \<Longrightarrow> valid_row r"
    by (auto simp: canonical_rows_def list_all_iff)
  have low: "\<And>r. r \<in> set rows \<Longrightarrow> row_contribution r = (tb_token r, tb_gives r, tb_wants r)"
    using v by (auto simp: row_contribution_def valid_row_def toLowerCase_lower)
  have sums: "given ?cs (tb_token r) = tb_gives r \<and> wanted ?cs (tb_token r) = tb_wants r"
    if "r \<in> set rows" for r
    using that d low
  proof (induction rows)
    case (Cons q qs)
    have z: "given (map row_contribution qs) t = 0 \<and> wanted (map row_contribution qs) t = 0"
      if "t \<notin> tb_token ` set qs" for t
      using that Cons.prems(3) by (induction qs) (auto simp: given_def wanted_def)
    show ?case
    proof (cases "r = q")
      case True
      with Cons.prems z [of "tb_token q"] show ?thesis
        by (auto simp: given_def wanted_def)
    next
      case False
      with Cons show ?thesis by (auto simp: given_def wanted_def)
    qed
  qed simp
  have "fst ` set ?cs = set (map tb_token rows)" using low by force
  then have k: "sorted_list_of_set (fst ` set ?cs) = map tb_token rows"
    using s d by (simp only: sorted_list_of_set_sort_remdups distinct_remdups_id sorted_sort_id)
  have "contribution_rows ?cs = rows"
    unfolding contribution_rows_def k map_map
    by (rule map_idI) (use sums v in \<open>auto simp: balance_row_def valid_row_def\<close>)
  moreover have "list_all acceptable_row rows"
    using v by (auto simp: list_all_iff acceptable_row_def valid_row_def isLowerHex64_isHex64)
  ultimately show ?thesis by (simp add: canonicalBalances_Inr)
qed

lemma canonical_canonicalBalances: "canonicalBalances rows = Inr rows' \<Longrightarrow> canonical_rows rows'"
  by (auto simp: canonicalBalances_Inr row_contribution_def acceptable_row_def list_all_iff
      isHex64_toLowerCase intro!: canonical_contribution_rows; force)

lemma canonical_rows_distinct: "canonical_rows rows \<Longrightarrow> distinct (map tb_token rows)"
  by (simp add: canonical_rows_def)

subsection \<open>Signed maker supply\<close>

text \<open>
  The specification the accounting is measured against: what the makers of a set give of a
  token, less what they want of it, read straight off their terms.
\<close>

definition leg_sum :: "balance_leg list \<Rightarrow> string \<Rightarrow> int" where
  "leg_sum ls t = (\<Sum>l\<leftarrow>ls. if toLowerCase (leg_token l) = t then leg_amount l else 0)"

definition maker_net :: "'a balance_source_scheme list \<Rightarrow> string \<Rightarrow> int" where
  "maker_net sources t = (\<Sum>s\<leftarrow>sources. leg_sum (src_gives s) t - leg_sum (src_wants s) t)"

lemma contributions_net:
  "given (contributions sources) t - wanted (contributions sources) t = maker_net sources t"
proof -
  have g: "given (map (leg_contribution Gives) ls) t = leg_sum ls t"
    "wanted (map (leg_contribution Gives) ls) t = 0"
    "wanted (map (leg_contribution Wants) ls) t = leg_sum ls t"
    "given (map (leg_contribution Wants) ls) t = 0" for ls
    by (induction ls) (auto simp: given_def wanted_def leg_sum_def leg_contribution_def)
  show ?thesis
    by (induction sources)
      (auto simp: contributions_def source_contributions_def maker_net_def g)
qed

lemma net_of_account:
  "accountWholeOfferBalances sources = Inr rows \<Longrightarrow> net_of rows t = maker_net sources t"
  by (auto simp: accountWholeOfferBalances_Inr net_of_contribution_rows contributions_net)

lemma maker_net_append [simp]: "maker_net (xs @ ys) t = maker_net xs t + maker_net ys t"
  by (simp add: maker_net_def)

lemma maker_net_mset: "mset xs = mset ys \<Longrightarrow> maker_net xs t = maker_net ys t"
  unfolding maker_net_def sum_mset_sum_list [symmetric] by simp

section \<open>Correctness of the pair evaluation\<close>

lemma canonical_row_ball:
  assumes "canonical_rows rows" and "\<And>t. P t 0"
  shows "(\<forall>b \<in> set rows. P (tb_token b) (tb_net b)) \<longleftrightarrow> (\<forall>t. P t (net_of rows t))"
proof -
  have "(\<forall>b \<in> set rows. P (tb_token b) (tb_net b)) \<longleftrightarrow>
      (\<forall>b \<in> set rows. P (tb_token b) (net_of rows (tb_token b)))"
    by (rule ball_cong [OF refl]) (simp add: net_of_member [OF canonical_rows_distinct [OF assms(1)]])
  also have "\<dots> \<longleftrightarrow> (\<forall>t \<in> tb_token ` set rows. P t (net_of rows t))" by simp
  also have "\<dots> \<longleftrightarrow> (\<forall>t. P t (net_of rows t))"
  proof
    assume l: "\<forall>t \<in> tb_token ` set rows. P t (net_of rows t)"
    show "\<forall>t. P t (net_of rows t)"
    proof
      fix t show "P t (net_of rows t)"
        using l assms(2) [of t] net_of_absent [of t rows] by (cases "t \<in> tb_token ` set rows") auto
    qed
  qed simp
  finally show ?thesis .
qed

text \<open>When a pair can be filled from a net vector.\<close>

definition fillable :: "(string \<Rightarrow> int) \<Rightarrow> string \<Rightarrow> string \<Rightarrow> bool" where
  "fillable net tin tout \<longleftrightarrow> tin \<noteq> tout \<and> net tin < 0 \<and> 0 < net tout
     \<and> (\<forall>t. t \<noteq> tin \<longrightarrow> 0 \<le> net t) \<and> (\<forall>t. \<bar>net t\<bar> \<le> MAX_SETTLEMENT_AMOUNT)"

lemma no_deficit_iff:
  assumes "canonical_rows rows"
  shows "List.find (\<lambda>b. tb_token b \<noteq> t0 \<and> tb_net b < 0) rows = None \<longleftrightarrow>
     (\<forall>t. t \<noteq> t0 \<longrightarrow> 0 \<le> net_of rows t)"
proof -
  have "(\<forall>b \<in> set rows. tb_token b \<noteq> t0 \<longrightarrow> 0 \<le> tb_net b) \<longleftrightarrow> (\<forall>t. t \<noteq> t0 \<longrightarrow> 0 \<le> net_of rows t)"
    by (rule canonical_row_ball [OF assms]) simp
  then show ?thesis by (auto simp: find_None_iff not_less)
qed

lemma within_cap_iff:
  assumes "canonical_rows rows"
  shows "List.find (\<lambda>b. tb_net b > MAX_SETTLEMENT_AMOUNT \<or> tb_net b < - MAX_SETTLEMENT_AMOUNT) rows = None
     \<longleftrightarrow> (\<forall>t. \<bar>net_of rows t\<bar> \<le> MAX_SETTLEMENT_AMOUNT)"
proof -
  have "(\<forall>b \<in> set rows. \<bar>tb_net b\<bar> \<le> MAX_SETTLEMENT_AMOUNT) \<longleftrightarrow> (\<forall>t. \<bar>net_of rows t\<bar> \<le> MAX_SETTLEMENT_AMOUNT)"
    by (rule canonical_row_ball [OF assms]) (simp add: MAX_SETTLEMENT_AMOUNT_def)
  then show ?thesis by (auto simp: find_None_iff abs_le_iff)
qed

lemma evaluate_ok_iff:
  assumes "canonical_rows rows" "isHex64 tokenIn" "isHex64 tokenOut"
  shows "evaluateWholeOfferPair rows tokenIn tokenOut = Inr (Inr p) \<longleftrightarrow>
     fillable (net_of rows) (toLowerCase tokenIn) (toLowerCase tokenOut) \<and>
     p = \<lparr>pb_tokenIn = toLowerCase tokenIn, pb_tokenOut = toLowerCase tokenOut,
          pb_input = - net_of rows (toLowerCase tokenIn),
          pb_output = net_of rows (toLowerCase tokenOut), pb_rows = rows\<rparr>"
    (is "?lhs \<longleftrightarrow> ?rhs")
proof -
  let ?i = "toLowerCase tokenIn" and ?o = "toLowerCase tokenOut"
  have look: "(case List.find (\<lambda>b. tb_token b = t) rows of None \<Rightarrow> 0 | Some b \<Rightarrow> tb_net b) = net_of rows t" for t
    by (rule net_of_find [OF canonical_rows_distinct [OF assms(1)]])
  have c: "canonicalToken tokenIn = Inr ?i" "canonicalToken tokenOut = Inr ?o"
    using assms by (simp_all add: canonicalToken_def)
  show ?thesis
    unfolding evaluateWholeOfferPair_def c canonical_rows_fixpoint [OF assms(1)] bindR_simps fillable_def
    using look [of ?i] look [of ?o] no_deficit_iff [OF assms(1), of ?i] within_cap_iff [OF assms(1)]
    by (auto split: option.splits)
qed

section \<open>Correctness of the receipts\<close>

definition received :: "whole_offer_receipt list \<Rightarrow> string \<Rightarrow> int" where
  "received rs t = (\<Sum>r\<leftarrow>rs. if rc_token r = t then rc_amount r else 0)"

lemma received_filter_map:
  assumes "distinct (map tb_token rows)" and "\<And>b. b \<in> set rows \<Longrightarrow> 0 \<le> f b"
  shows "received (filter (\<lambda>r. rc_amount r > 0) (map (\<lambda>b. \<lparr>rc_token = tb_token b, rc_amount = f b\<rparr>) rows)) t
    = (case List.find (\<lambda>b. tb_token b = t) rows of None \<Rightarrow> 0 | Some b \<Rightarrow> f b)"
  using assms
proof (induction rows)
  case (Cons q qs)
  have z: "received (filter (\<lambda>r. rc_amount r > 0) (map (\<lambda>b. \<lparr>rc_token = tb_token b, rc_amount = f b\<rparr>) qs)) t = 0"
    if "t \<notin> tb_token ` set qs"
    using that by (induction qs) (auto simp: received_def)
  have step: "received (r # rs) t = (if rc_token r = t then rc_amount r else 0) + received rs t" for r rs
    by (simp add: received_def)
  show ?case
  proof (cases "tb_token q = t")
    case True
    with Cons.prems have "t \<notin> tb_token ` set qs" by auto
    moreover have "f q = 0" if "\<not> 0 < f q" using that Cons.prems(2) [of q] by simp
    ultimately show ?thesis using z True by (auto simp: step)
  next
    case False
    with Cons show ?thesis by (auto simp: step)
  qed
qed (simp add: received_def)

lemma received_receipt_rows:
  assumes "canonical_rows rows" "fillable (net_of rows) i out"
    and p: "p = \<lparr>pb_tokenIn = i, pb_tokenOut = out, pb_input = - net_of rows i,
              pb_output = net_of rows out, pb_rows = rows\<rparr>"
    and "pb_input p \<le> tr_input trade" "tr_output trade \<le> pb_output p"
  shows "received (receipt_rows p trade) t = net_of rows t
     + (if t = i then tr_input trade else 0) - (if t = out then tr_output trade else 0)"
proof -
  let ?f = "\<lambda>b. tb_net b + (if tb_token b = i then tr_input trade else 0)
                            - (if tb_token b = out then tr_output trade else 0)"
  have d: "distinct (map tb_token rows)" by (rule canonical_rows_distinct [OF assms(1)])
  have nonneg: "0 \<le> ?f b" if "b \<in> set rows" for b
    using assms(2,4,5) net_of_member [OF d that] by (auto simp: p fillable_def)
  have "received (receipt_rows p trade) t
      = (case List.find (\<lambda>b. tb_token b = t) rows of None \<Rightarrow> 0 | Some b \<Rightarrow> ?f b)"
    using received_filter_map [OF d nonneg] by (simp add: receipt_rows_def p)
  note rec = this
  show ?thesis
  proof (cases "List.find (\<lambda>b. tb_token b = t) rows")
    case None
    with net_of_find [OF d, of t] have "net_of rows t = 0" by simp
    moreover from this have "t \<noteq> i" "t \<noteq> out" using assms(2) by (auto simp: fillable_def)
    ultimately show ?thesis using rec None by simp
  next
    case (Some b)
    then have "tb_token b = t" by (auto simp: find_Some_iff)
    with Some rec net_of_find [OF d, of t] show ?thesis by simp
  qed
qed

lemma receipt_rows_positive: "r \<in> set (receipt_rows p trade) \<Longrightarrow> 0 < rc_amount r"
  by (simp add: receipt_rows_def)

lemma receipts_ok:
  assumes "canonical_rows rows" "isHex64 (tr_tokenIn trade)" "isHex64 (tr_tokenOut trade)"
    and "buildWholeOfferReceipts rows trade = Inr (Inr r)"
  shows "\<exists>p. evaluateWholeOfferPair rows (tr_tokenIn trade) (tr_tokenOut trade) = Inr (Inr p)
    \<and> 0 < tr_input trade \<and> tr_input trade \<le> MAX_SETTLEMENT_AMOUNT
    \<and> 0 < tr_output trade \<and> tr_output trade \<le> MAX_SETTLEMENT_AMOUNT
    \<and> pb_input p \<le> tr_input trade \<and> tr_output trade \<le> pb_output p
    \<and> r = \<lparr>rr_requiredInput = pb_input p, rr_availableOutput = pb_output p,
           rr_receipts = receipt_rows p trade\<rparr>
    \<and> (\<forall>x \<in> set (receipt_rows p trade). rc_amount x \<le> MAX_SETTLEMENT_AMOUNT)"
proof (cases "evaluateWholeOfferPair rows (tr_tokenIn trade) (tr_tokenOut trade)")
  case (Inl e)
  with assms show ?thesis
    by (auto simp: buildWholeOfferReceipts_def canonicalToken_def split: if_splits)
next
  case (Inr ev)
  with assms show ?thesis
    by (cases ev)
      (auto simp: buildWholeOfferReceipts_def canonicalToken_def Let_def find_None_iff not_less
        split: if_splits option.splits)
qed

lemma evaluate_hex:
  "evaluateWholeOfferPair rows tokenIn tokenOut = Inr (Inr p) \<Longrightarrow> isHex64 tokenIn \<and> isHex64 tokenOut"
  by (auto simp: evaluateWholeOfferPair_def canonicalToken_def split: if_splits)

lemma receipts_hex:
  "buildWholeOfferReceipts rows trade = Inr (Inr r) \<Longrightarrow>
   isHex64 (tr_tokenIn trade) \<and> isHex64 (tr_tokenOut trade)"
  using evaluate_hex [of rows "tr_tokenIn trade" "tr_tokenOut trade"]
  by (cases "evaluateWholeOfferPair rows (tr_tokenIn trade) (tr_tokenOut trade)")
    (auto simp: buildWholeOfferReceipts_def canonicalToken_def split: if_splits sum.splits)

lemma receipts_conserve:
  assumes "accountWholeOfferBalances sources = Inr rows"
    and "buildWholeOfferReceipts rows trade = Inr (Inr r)"
  shows "received (rr_receipts r) t = maker_net sources t
       + (if t = toLowerCase (tr_tokenIn trade) then tr_input trade else 0)
       - (if t = toLowerCase (tr_tokenOut trade) then tr_output trade else 0)
     \<and> (\<forall>x \<in> set (rr_receipts r). 0 < rc_amount x \<and> rc_amount x \<le> MAX_SETTLEMENT_AMOUNT)
     \<and> rr_requiredInput r \<le> tr_input trade \<and> tr_output trade \<le> rr_availableOutput r"
proof -
  note c = canonical_account [OF assms(1)]
  note h = receipts_hex [OF assms(2)]
  from receipts_ok [OF c _ _ assms(2)] h obtain p where
    ev: "evaluateWholeOfferPair rows (tr_tokenIn trade) (tr_tokenOut trade) = Inr (Inr p)" and
    le: "pb_input p \<le> tr_input trade" "tr_output trade \<le> pb_output p" and
    r: "r = \<lparr>rr_requiredInput = pb_input p, rr_availableOutput = pb_output p,
           rr_receipts = receipt_rows p trade\<rparr>"
       "\<forall>x \<in> set (receipt_rows p trade). rc_amount x \<le> MAX_SETTLEMENT_AMOUNT" by blast
  from evaluate_ok_iff [OF c] h ev have f: "fillable (net_of rows) (toLowerCase (tr_tokenIn trade)) (toLowerCase (tr_tokenOut trade))"
    "p = \<lparr>pb_tokenIn = toLowerCase (tr_tokenIn trade), pb_tokenOut = toLowerCase (tr_tokenOut trade),
       pb_input = - net_of rows (toLowerCase (tr_tokenIn trade)),
       pb_output = net_of rows (toLowerCase (tr_tokenOut trade)), pb_rows = rows\<rparr>" by auto
  from received_receipt_rows [OF c f le, of t] net_of_account [OF assms(1)] r le show ?thesis
    by (auto simp: receipt_rows_positive)
qed

section \<open>Properties\<close>

text \<open>
  Accounting never loses or invents value. On valid maker terms it returns the rows of
  exactly the signed maker supply, sorted by token, one row per token, gross amounts
  non-negative; on any other input it throws a type error.
\<close>

theorem accountWholeOfferBalances_correct:
  "case accountWholeOfferBalances sources of
     Inr rows \<Rightarrow> list_all valid_source sources \<and> canonical_rows rows
       \<and> (\<forall>t. net_of rows t = maker_net sources t)
   | Inl e \<Rightarrow> \<not> list_all valid_source sources \<and> e \<in> range TypeError"
proof (cases "accountWholeOfferBalances sources")
  case (Inl e)
  with accountWholeOfferBalances_valid [of sources] accountWholeOfferBalances_invalid [of sources] show ?thesis
    by (cases "list_all valid_source sources") auto
next
  case (Inr rows)
  moreover from this have "list_all valid_source sources" by (simp add: accountWholeOfferBalances_Inr)
  ultimately show ?thesis using canonical_account [OF Inr] net_of_account [OF Inr] by simp
qed

text \<open>
  a pair evaluates successfully against the accounted rows of a maker set exactly when the
  makers' net supply needs only the input token, supplies the output token, and fits the
  ledger's signed delta for every token; the input and output it then reports are the
  makers' exact deficit and surplus.
\<close>

theorem evaluateWholeOfferPair_correct:
  assumes "accountWholeOfferBalances sources = Inr rows" "isHex64 tokenIn" "isHex64 tokenOut"
  shows "evaluateWholeOfferPair rows tokenIn tokenOut = Inr (Inr p) \<longleftrightarrow>
     fillable (maker_net sources) (toLowerCase tokenIn) (toLowerCase tokenOut) \<and>
     p = \<lparr>pb_tokenIn = toLowerCase tokenIn, pb_tokenOut = toLowerCase tokenOut,
          pb_input = - maker_net sources (toLowerCase tokenIn),
          pb_output = maker_net sources (toLowerCase tokenOut), pb_rows = rows\<rparr>"
proof -
  have "net_of rows = maker_net sources" using net_of_account [OF assms(1)] by blast
  with evaluate_ok_iff [OF canonical_account [OF assms(1)] assms(2,3)] show ?thesis by simp
qed

text \<open>
  C38: an accepted trade's receipts conserve value: the solver receives, of every token,
  the makers' net supply plus the taker's input minus the output handed to the taker; every
  receipt is positive and representable.
\<close>

theorem buildWholeOfferReceipts_conserve:
  assumes "accountWholeOfferBalances sources = Inr rows"
    and "buildWholeOfferReceipts rows trade = Inr (Inr r)"
  shows "received (rr_receipts r) t = maker_net sources t
       + (if t = toLowerCase (tr_tokenIn trade) then tr_input trade else 0)
       - (if t = toLowerCase (tr_tokenOut trade) then tr_output trade else 0)
     \<and> (\<forall>x \<in> set (rr_receipts r). 0 < rc_amount x \<and> rc_amount x \<le> MAX_SETTLEMENT_AMOUNT)
     \<and> rr_requiredInput r \<le> tr_input trade \<and> tr_output trade \<le> rr_availableOutput r"
  by (rule receipts_conserve [OF assms])

subsection \<open>Concrete inputs\<close>

definition sample_makers :: "balance_source list" where
  "sample_makers =
    [\<lparr>src_gives = [\<lparr>leg_token = ident CHR ''b'', leg_amount = 7\<rparr>],
      src_wants = [\<lparr>leg_token = ident CHR ''A'', leg_amount = 3\<rparr>]\<rparr>,
     \<lparr>src_gives = [\<lparr>leg_token = ident CHR ''a'', leg_amount = 1\<rparr>, \<lparr>leg_token = ident CHR ''c'', leg_amount = 2\<rparr>],
      src_wants = [\<lparr>leg_token = ident CHR ''b'', leg_amount = 2\<rparr>]\<rparr>]"

definition sample_rows :: "token_balance list" where
  "sample_rows = [balance_row (ident CHR ''a'') 1 3, balance_row (ident CHR ''b'') 7 2,
     balance_row (ident CHR ''c'') 2 0]"

lemmas eval_accounting = accountWholeOfferBalances_def add_source_def add_leg_def canonicalToken_def
  canonicalBalances_def add_balance_def bump_def balance_rows_def balance_row_def lower_hex_is_hex

lemma sample_accounted: "accountWholeOfferBalances sample_makers = Inr sample_rows"
  by (simp add: sample_makers_def sample_rows_def eval_accounting)

theorem evaluateWholeOfferPair_correct_witness:
  "evaluateWholeOfferPair sample_rows (ident CHR ''A'') (ident CHR ''b'') = Inr (Inr
     \<lparr>pb_tokenIn = ident CHR ''a'', pb_tokenOut = ident CHR ''b'', pb_input = 2, pb_output = 5,
      pb_rows = sample_rows\<rparr>)
   \<and> fillable (maker_net sample_makers) (ident CHR ''a'') (ident CHR ''b'')"
proof -
  have e: "evaluateWholeOfferPair sample_rows (ident CHR ''A'') (ident CHR ''b'') = Inr (Inr
     \<lparr>pb_tokenIn = ident CHR ''a'', pb_tokenOut = ident CHR ''b'', pb_input = 2, pb_output = 5,
      pb_rows = sample_rows\<rparr>)"
    by (simp add: evaluateWholeOfferPair_def sample_rows_def eval_accounting MAX_SETTLEMENT_AMOUNT_def)
  have h: "isHex64 (ident CHR ''A'')" "isHex64 (ident CHR ''b'')"
    by (simp_all add: lower_hex_is_hex)
  from evaluateWholeOfferPair_correct [OF sample_accounted h, THEN iffD1, OF e] e show ?thesis
    by simp
qed

theorem buildWholeOfferReceipts_conserve_witness:
  "\<exists>r. buildWholeOfferReceipts sample_rows
      \<lparr>tr_tokenIn = ident CHR ''a'', tr_tokenOut = ident CHR ''b'', tr_input = 4, tr_output = 5\<rparr> = Inr (Inr r)
    \<and> received (rr_receipts r) (ident CHR ''a'') = maker_net sample_makers (ident CHR ''a'') + 4"
proof -
  have b: "buildWholeOfferReceipts sample_rows
      \<lparr>tr_tokenIn = ident CHR ''a'', tr_tokenOut = ident CHR ''b'', tr_input = 4, tr_output = 5\<rparr> = Inr (Inr
      \<lparr>rr_requiredInput = 2, rr_availableOutput = 5,
       rr_receipts = [\<lparr>rc_token = ident CHR ''a'', rc_amount = 2\<rparr>, \<lparr>rc_token = ident CHR ''c'', rc_amount = 2\<rparr>]\<rparr>)"
    by (simp add: buildWholeOfferReceipts_def evaluateWholeOfferPair_def receipt_rows_def sample_rows_def
        eval_accounting MAX_SETTLEMENT_AMOUNT_def)
  from buildWholeOfferReceipts_conserve [OF sample_accounted b, of "ident CHR ''a''"] b show ?thesis
    by simp
qed

end
