(* ===== verification/Ladder_Limits.thy ===== *)
theory Ladder_Limits
  imports Relay_Contract Whole_Offer
begin

text \<open>
  The data model of \<^verbatim>\<open>packages/solver-core/ladder-derivation.ts\<close> that its phases share: the
  resource limits and their lower-only controls, the source offers and the reduction of an
  offer to a crossable (or the reason it is excluded), the diagnostics, the discovery budget
  charged unit by unit, and the admission policy of \<^verbatim>\<open>packages/solver-core/admission-policy.ts\<close>.
\<close>

section \<open>Resource limits\<close>

record resource_limits =
  rl_maxSourceOffers :: int
  rl_maxVisitedSubsetsPerPair :: int
  rl_maxVisitedSubsetsTotal :: int
  rl_maxMakersPerCombination :: int
  rl_maxWirePointsPerPair :: int
  rl_maxPairs :: int
  rl_maxCandidatePairs :: int
  rl_maxDiscoveryWork :: int

datatype limit_name =
  MaxSourceOffers
| MaxVisitedSubsetsPerPair
| MaxVisitedSubsetsTotal
| MaxMakersPerCombination
| MaxWirePointsPerPair
| MaxPairs
| MaxCandidatePairs
| MaxDiscoveryWork

definition HARD_LADDER_RESOURCE_LIMITS :: resource_limits where
  "HARD_LADDER_RESOURCE_LIMITS = \<lparr>rl_maxSourceOffers = 4096, rl_maxVisitedSubsetsPerPair = 100000,
     rl_maxVisitedSubsetsTotal = 200000, rl_maxMakersPerCombination = 8,
     rl_maxWirePointsPerPair = MAX_RUNGS_PER_PAIR, rl_maxPairs = MAX_PAIRS_PER_PUSH,
     rl_maxCandidatePairs = 4096, rl_maxDiscoveryWork = 1000000\<rparr>"

definition DEFAULT_LADDER_RESOURCE_LIMITS :: resource_limits where
  "DEFAULT_LADDER_RESOURCE_LIMITS = HARD_LADDER_RESOURCE_LIMITS"

fun get_limit :: "resource_limits \<Rightarrow> limit_name \<Rightarrow> int" where
  "get_limit l MaxSourceOffers = rl_maxSourceOffers l"
| "get_limit l MaxVisitedSubsetsPerPair = rl_maxVisitedSubsetsPerPair l"
| "get_limit l MaxVisitedSubsetsTotal = rl_maxVisitedSubsetsTotal l"
| "get_limit l MaxMakersPerCombination = rl_maxMakersPerCombination l"
| "get_limit l MaxWirePointsPerPair = rl_maxWirePointsPerPair l"
| "get_limit l MaxPairs = rl_maxPairs l"
| "get_limit l MaxCandidatePairs = rl_maxCandidatePairs l"
| "get_limit l MaxDiscoveryWork = rl_maxDiscoveryWork l"

fun set_limit :: "limit_name \<Rightarrow> int \<Rightarrow> resource_limits \<Rightarrow> resource_limits" where
  "set_limit MaxSourceOffers v l = l\<lparr>rl_maxSourceOffers := v\<rparr>"
| "set_limit MaxVisitedSubsetsPerPair v l = l\<lparr>rl_maxVisitedSubsetsPerPair := v\<rparr>"
| "set_limit MaxVisitedSubsetsTotal v l = l\<lparr>rl_maxVisitedSubsetsTotal := v\<rparr>"
| "set_limit MaxMakersPerCombination v l = l\<lparr>rl_maxMakersPerCombination := v\<rparr>"
| "set_limit MaxWirePointsPerPair v l = l\<lparr>rl_maxWirePointsPerPair := v\<rparr>"
| "set_limit MaxPairs v l = l\<lparr>rl_maxPairs := v\<rparr>"
| "set_limit MaxCandidatePairs v l = l\<lparr>rl_maxCandidatePairs := v\<rparr>"
| "set_limit MaxDiscoveryWork v l = l\<lparr>rl_maxDiscoveryWork := v\<rparr>"

definition RESOURCE_LIMIT_NAMES :: "limit_name list" where
  "RESOURCE_LIMIT_NAMES = [MaxSourceOffers, MaxVisitedSubsetsPerPair, MaxVisitedSubsetsTotal,
     MaxMakersPerCombination, MaxWirePointsPerPair, MaxPairs, MaxCandidatePairs, MaxDiscoveryWork]"

text \<open>Partial controls, and the limit that was refused with its value and ceiling.\<close>

type_synonym limit_controls = "limit_name \<Rightarrow> js_number option"

record limit_refusal =
  lr_field :: limit_name
  lr_value :: js_number
  lr_maximum :: int

fun resolve_fields :: "limit_name list \<Rightarrow> limit_controls \<Rightarrow> resource_limits \<Rightarrow> limit_refusal + resource_limits" where
  "resolve_fields [] controls limits = Inr limits"
| "resolve_fields (field # rest) controls limits =
     (case controls field of
        None \<Rightarrow> resolve_fields rest controls limits
      | Some value \<Rightarrow>
          let maximum = get_limit HARD_LADDER_RESOURCE_LIMITS field in
          (case value of
            NonIntegral \<Rightarrow> Inl \<lparr>lr_field = field, lr_value = value, lr_maximum = maximum\<rparr>
          | Integral n \<Rightarrow>
              if \<not> is_safe_integer n \<or> n < 1 \<or> n > maximum
              then Inl \<lparr>lr_field = field, lr_value = value, lr_maximum = maximum\<rparr>
              else resolve_fields rest controls (set_limit field n limits)))"

definition resolveLadderResourceLimits :: "limit_controls option \<Rightarrow> limit_refusal + resource_limits" where
  "resolveLadderResourceLimits controls = (case controls of
     None \<Rightarrow> Inr DEFAULT_LADDER_RESOURCE_LIMITS
   | Some c \<Rightarrow> resolve_fields RESOURCE_LIMIT_NAMES c DEFAULT_LADDER_RESOURCE_LIMITS)"

section \<open>Reasons\<close>

text \<open>
  The string unions of the source overlap; one datatype holds their members: exclusion, pair
  withholding, search, stop and terminal-cap reasons.
\<close>

datatype ladder_reason =
  R_multi_leg | R_non_shielded_leg | R_non_positive_amount | R_same_token | R_malformed_token
| R_malformed_hash | R_malformed_nullifier | R_no_expiry | R_expiring | R_unavailable
| R_duplicate_offer | R_shared_coin | R_settlement_amount_cap | R_source_offer_cap
| R_pair_search_cap | R_global_search_cap | R_wire_point_cap | R_pair_cap | R_candidate_pair_cap
| R_discovery_work_cap | R_unsafe_merge_order | R_merge_order_work_cap | R_unsupported_pair
| R_minimum_output | R_aborted | R_abort_check_failed | R_invalid_pair
| R_next_omitted_improvement | R_invalid_resource_limit

fun reason_text :: "ladder_reason \<Rightarrow> string" where
  "reason_text R_multi_leg = ''multi-leg''"
| "reason_text R_non_shielded_leg = ''non-shielded-leg''"
| "reason_text R_non_positive_amount = ''non-positive-amount''"
| "reason_text R_same_token = ''same-token''"
| "reason_text R_malformed_token = ''malformed-token''"
| "reason_text R_malformed_hash = ''malformed-hash''"
| "reason_text R_malformed_nullifier = ''malformed-nullifier''"
| "reason_text R_no_expiry = ''no-expiry''"
| "reason_text R_expiring = ''expiring''"
| "reason_text R_unavailable = ''unavailable''"
| "reason_text R_duplicate_offer = ''duplicate-offer''"
| "reason_text R_shared_coin = ''shared-coin''"
| "reason_text R_settlement_amount_cap = ''settlement-amount-cap''"
| "reason_text R_source_offer_cap = ''source-offer-cap''"
| "reason_text R_pair_search_cap = ''pair-search-cap''"
| "reason_text R_global_search_cap = ''global-search-cap''"
| "reason_text R_wire_point_cap = ''wire-point-cap''"
| "reason_text R_pair_cap = ''pair-cap''"
| "reason_text R_candidate_pair_cap = ''candidate-pair-cap''"
| "reason_text R_discovery_work_cap = ''discovery-work-cap''"
| "reason_text R_unsafe_merge_order = ''unsafe-merge-order''"
| "reason_text R_merge_order_work_cap = ''merge-order-work-cap''"
| "reason_text R_unsupported_pair = ''unsupported-pair''"
| "reason_text R_minimum_output = ''minimum-output''"
| "reason_text R_aborted = ''aborted''"
| "reason_text R_abort_check_failed = ''abort-check-failed''"
| "reason_text R_invalid_pair = ''invalid-pair''"
| "reason_text R_next_omitted_improvement = ''next-omitted-improvement''"
| "reason_text R_invalid_resource_limit = ''invalid-resource-limit''"

text \<open>One poll of the abort callback: the reason to stop, and the number of polls so far.\<close>

definition abortReason :: "abort_callback \<Rightarrow> nat \<Rightarrow> ladder_reason option \<times> nat" where
  "abortReason shouldAbort polls = (case shouldAbort of
     None \<Rightarrow> (None, polls)
   | Some answer \<Rightarrow> (case answer polls of
         Continue \<Rightarrow> None
       | Abort \<Rightarrow> Some R_aborted
       | Throws \<Rightarrow> Some R_abort_check_failed, Suc polls))"

section \<open>Source offers\<close>

datatype leg_kind = SHIELDED | UNSHIELDED

record source_leg = balance_leg +
  sl_kind :: leg_kind

record source_offer =
  so_offerHash :: string
  so_gives :: "source_leg list"
  so_wants :: "source_leg list"
  so_expiresAt :: "int option"
  so_inputNullifiers :: "string list"

record ladder_exclusion =
  lx_offerHash :: string
  lx_reason :: ladder_reason
  lx_detail :: "ladder_rejection option"

text \<open>The admission policy; \<open>None\<close> is an open group (\<open>null\<close> or \<open>undefined\<close>).\<close>

record admission_policy =
  ap_supportedPairs :: "string list option"
  ap_minJobOutput :: "(string \<times> int) list option"

definition admissionPairKey :: "string \<Rightarrow> string \<Rightarrow> string" where
  "admissionPairKey tokenIn tokenOut = toLowerCase tokenIn @ ''->'' @ toLowerCase tokenOut"

record derive_options = admission_policy +
  do_nowMs :: int
  do_expiryMarginSeconds :: int
  do_unavailableOfferHashes :: "string list"
  do_resourceLimits :: "limit_controls option"
  do_shouldAbort :: abort_callback

record crossable =
  cr_offerHash :: string
  cr_tokenIn :: string
  cr_tokenOut :: string
  cr_tokenInIndex :: int
  cr_tokenOutIndex :: int
  cr_amountIn :: int
  cr_amountOut :: int
  cr_nullifiers :: "string list"

definition toCrossable :: "source_offer \<Rightarrow> 'a derive_options_scheme \<Rightarrow> string list \<Rightarrow> ladder_reason + crossable" where
  "toCrossable offer options unavailable =
     (if \<not> isHex64 (so_offerHash offer) then Inl R_malformed_hash
      else if toLowerCase (so_offerHash offer) \<in> set unavailable then Inl R_unavailable
      else case (so_gives offer, so_wants offer) of
        ([give], [want]) \<Rightarrow>
          if sl_kind give \<noteq> SHIELDED \<or> sl_kind want \<noteq> SHIELDED then Inl R_non_shielded_leg
          else if \<not> isHex64 (leg_token give) then Inl R_malformed_token
          else if \<not> isHex64 (leg_token want) then Inl R_malformed_token
          else if leg_amount give \<le> 0 \<or> leg_amount want \<le> 0 then Inl R_non_positive_amount
          else if leg_amount give > MAX_SETTLEMENT_AMOUNT \<or> leg_amount want > MAX_SETTLEMENT_AMOUNT
          then Inl R_settlement_amount_cap
          else if toLowerCase (leg_token want) = toLowerCase (leg_token give) then Inl R_same_token
          else if list_ex (\<lambda>n. \<not> isHex64 n) (so_inputNullifiers offer) then Inl R_malformed_nullifier
          else (case so_expiresAt offer of
             None \<Rightarrow> Inl R_no_expiry
           | Some expiresAt \<Rightarrow>
               if do_nowMs options \<ge> expiresAt - do_expiryMarginSeconds options * 1000 then Inl R_expiring
               else Inr \<lparr>cr_offerHash = toLowerCase (so_offerHash offer),
                         cr_tokenIn = toLowerCase (leg_token want),
                         cr_tokenOut = toLowerCase (leg_token give),
                         cr_tokenInIndex = -1, cr_tokenOutIndex = -1,
                         cr_amountIn = leg_amount want, cr_amountOut = leg_amount give,
                         cr_nullifiers = sort (js_uniq (map toLowerCase (so_inputNullifiers offer)))\<rparr>)
      | _ \<Rightarrow> Inl R_multi_leg)"

section \<open>Diagnostics and the discovery budget\<close>

datatype pair_status = Published | Withheld

record pair_diagnostic =
  pd_tokenIn :: string
  pd_tokenOut :: string
  pd_status :: pair_status
  pd_reason :: "ladder_reason option"
  pd_candidateOffers :: int
  pd_visitedSubsets :: int
  pd_storedExactInputs :: int
  pd_amountCappedSubsets :: int
  pd_frontierCombinations :: int
  pd_wirePoints :: int
  pd_discoveryWork :: int
  pd_safeMergeOrderWork :: int

text \<open>
  The diagnostics of a run; \<open>dg_polls\<close> counts the polls of the abort callback, which the code
  does not record but whose answers depend on it.
\<close>

record ladder_diagnostics =
  dg_stopReason :: "ladder_reason option"
  dg_invalidResourceLimit :: "limit_refusal option"
  dg_sourceOffersScanned :: int
  dg_candidatePairsExamined :: int
  dg_discoveryWork :: int
  dg_safeMergeOrderWork :: int
  dg_visitedSubsets :: int
  dg_peakStoredExactInputs :: int
  dg_pairs :: "pair_diagnostic list"
  dg_polls :: nat

definition emptyDiagnostics :: "nat \<Rightarrow> ladder_diagnostics" where
  "emptyDiagnostics polls = \<lparr>dg_stopReason = None, dg_invalidResourceLimit = None, dg_sourceOffersScanned = 0,
     dg_candidatePairsExamined = 0, dg_discoveryWork = 0, dg_safeMergeOrderWork = 0, dg_visitedSubsets = 0,
     dg_peakStoredExactInputs = 0, dg_pairs = [], dg_polls = polls\<rparr>"

datatype charge_kind = Discovery | Safe_merge_order

text \<open>What the budget's closures close over: the limit, the global stop, and the callback.\<close>

record budget_context =
  bc_maxDiscoveryWork :: int
  bc_globalStop :: "ladder_reason option"
  bc_shouldAbort :: abort_callback

definition budget_remaining :: "budget_context \<Rightarrow> ladder_diagnostics \<Rightarrow> int" where
  "budget_remaining ctx d = bc_maxDiscoveryWork ctx - dg_discoveryWork d"

text \<open>
  \<open>charge(work, kind)\<close>: unit by unit, refusing at the limit, polling on every 256th unit unless the
  run is already cancelled. Every call site charges a natural number, for which the code's
  argument guard holds.
\<close>

definition count_unit :: "charge_kind \<Rightarrow> ladder_diagnostics \<Rightarrow> ladder_diagnostics" where
  "count_unit kind d =
     (let d1 = d\<lparr>dg_discoveryWork := dg_discoveryWork d + 1\<rparr> in
      if kind = Safe_merge_order then d1\<lparr>dg_safeMergeOrderWork := dg_safeMergeOrderWork d1 + 1\<rparr> else d1)"

definition charge_unit :: "budget_context \<Rightarrow> charge_kind \<Rightarrow> ladder_diagnostics \<Rightarrow> ladder_reason option \<times> ladder_diagnostics" where
  "charge_unit ctx kind d =
     (if dg_discoveryWork d \<ge> bc_maxDiscoveryWork ctx then (Some R_discovery_work_cap, d)
      else
        let d1 = count_unit kind d in
        if dg_discoveryWork d1 mod 256 = 0
           \<and> bc_globalStop ctx \<noteq> Some R_aborted \<and> bc_globalStop ctx \<noteq> Some R_abort_check_failed
        then (case abortReason (bc_shouldAbort ctx) (dg_polls d1) of (r, p) \<Rightarrow> (r, d1\<lparr>dg_polls := p\<rparr>))
        else (None, d1))"

fun charge :: "budget_context \<Rightarrow> nat \<Rightarrow> charge_kind \<Rightarrow> ladder_diagnostics \<Rightarrow> ladder_reason option \<times> ladder_diagnostics" where
  "charge ctx 0 kind d = (None, d)"
| "charge ctx (Suc work) kind d =
     (case charge_unit ctx kind d of
        (Some r, d1) \<Rightarrow> (Some r, d1)
      | (None, d1) \<Rightarrow> charge ctx work kind d1)"

text \<open>\<open>Math.ceil(Math.log2(n))\<close> for n of at least 1.\<close>

fun ceil_log2 :: "nat \<Rightarrow> nat" where
  "ceil_log2 n = (if n \<le> 1 then 0 else Suc (ceil_log2 ((n + 1) div 2)))"

declare ceil_log2.simps [simp del]

definition chargeDeterministicSort ::
    "budget_context \<Rightarrow> nat \<Rightarrow> ladder_diagnostics \<Rightarrow> ladder_reason option \<times> ladder_diagnostics" where
  "chargeDeterministicSort ctx len d =
     (if len < 2 then (None, d) else charge ctx (len * ceil_log2 len) Discovery d)"

section \<open>The budget is never exceeded\<close>

lemma abortReason_reasons: "abortReason cb p = (Some r, p') \<Longrightarrow> r \<in> {R_aborted, R_abort_check_failed}"
  by (auto simp: abortReason_def split: option.splits poll_answer.splits)

lemma count_unit_fields [simp]:
  "dg_discoveryWork (count_unit kind d) = dg_discoveryWork d + 1"
  "dg_pairs (count_unit kind d) = dg_pairs d" "dg_visitedSubsets (count_unit kind d) = dg_visitedSubsets d"
  "dg_stopReason (count_unit kind d) = dg_stopReason d"
  "dg_candidatePairsExamined (count_unit kind d) = dg_candidatePairsExamined d"
  "dg_sourceOffersScanned (count_unit kind d) = dg_sourceOffersScanned d"
  by (simp_all add: count_unit_def Let_def)

lemma charge_unit_facts:
  assumes "charge_unit ctx kind d = (r, d')"
  shows "dg_discoveryWork d \<le> bc_maxDiscoveryWork ctx \<Longrightarrow> dg_discoveryWork d' \<le> bc_maxDiscoveryWork ctx"
    "dg_discoveryWork d \<le> dg_discoveryWork d'"
    "r = None \<Longrightarrow> dg_discoveryWork d' = dg_discoveryWork d + 1"
    "dg_pairs d' = dg_pairs d" "dg_visitedSubsets d' = dg_visitedSubsets d"
    "dg_stopReason d' = dg_stopReason d" "dg_candidatePairsExamined d' = dg_candidatePairsExamined d"
    "dg_sourceOffersScanned d' = dg_sourceOffersScanned d"
    "r = Some x \<Longrightarrow> x \<in> {R_discovery_work_cap, R_aborted, R_abort_check_failed}"
proof -
  obtain a p where a: "abortReason (bc_shouldAbort ctx) (dg_polls (count_unit kind d)) = (a, p)" by fastforce
  have x: "x \<in> {R_aborted, R_abort_check_failed}" if "a = Some x"
    using abortReason_reasons [of _ _ x p] a that by blast
  from assms a x show "dg_discoveryWork d \<le> bc_maxDiscoveryWork ctx \<Longrightarrow> dg_discoveryWork d' \<le> bc_maxDiscoveryWork ctx"
    "dg_discoveryWork d \<le> dg_discoveryWork d'"
    "r = None \<Longrightarrow> dg_discoveryWork d' = dg_discoveryWork d + 1"
    "dg_pairs d' = dg_pairs d" "dg_visitedSubsets d' = dg_visitedSubsets d"
    "dg_stopReason d' = dg_stopReason d" "dg_candidatePairsExamined d' = dg_candidatePairsExamined d"
    "dg_sourceOffersScanned d' = dg_sourceOffersScanned d"
    "r = Some x \<Longrightarrow> x \<in> {R_discovery_work_cap, R_aborted, R_abort_check_failed}"
    by (simp_all add: charge_unit_def Let_def split: if_splits; auto)+
qed

lemma charge_discoveryWork:
  assumes "charge ctx work kind d = (r, d')" "dg_discoveryWork d \<le> bc_maxDiscoveryWork ctx"
  shows "dg_discoveryWork d' \<le> bc_maxDiscoveryWork ctx \<and> dg_discoveryWork d \<le> dg_discoveryWork d'
    \<and> (r = None \<longrightarrow> dg_discoveryWork d' = dg_discoveryWork d + int work)"
  using assms
proof (induction ctx work kind d arbitrary: r d' rule: charge.induct)
  case (2 ctx work kind d)
  obtain u d1 where u: "charge_unit ctx kind d = (u, d1)" by fastforce
  note f = charge_unit_facts(1-3) [OF u]
  show ?case
  proof (cases u)
    case None
    with "2.prems" u have "charge ctx work kind d1 = (r, d')" by simp
    with "2.IH" [OF u [symmetric] None this] f(1) [OF "2.prems"(2)] f(3) [OF None] show ?thesis by auto
  next
    case (Some x)
    with "2.prems" u f(1,2) show ?thesis by auto
  qed
qed simp

lemma charge_fields:
  assumes "charge ctx work kind d = (r, d')"
  shows "dg_pairs d' = dg_pairs d \<and> dg_visitedSubsets d' = dg_visitedSubsets d
    \<and> dg_stopReason d' = dg_stopReason d \<and> dg_candidatePairsExamined d' = dg_candidatePairsExamined d
    \<and> dg_sourceOffersScanned d' = dg_sourceOffersScanned d"
  using assms
proof (induction ctx work kind d arbitrary: r d' rule: charge.induct)
  case (2 ctx work kind d)
  obtain u d1 where u: "charge_unit ctx kind d = (u, d1)" by fastforce
  note f = charge_unit_facts(4-8) [OF u]
  show ?case
  proof (cases u)
    case None
    with "2.prems" u have "charge ctx work kind d1 = (r, d')" by simp
    from "2.IH" [OF u [symmetric] None this] f show ?thesis by auto
  next
    case (Some x)
    with "2.prems" u f show ?thesis by simp
  qed
qed simp

lemma charge_reasons:
  "charge ctx work kind d = (Some r, d') \<Longrightarrow> r \<in> {R_discovery_work_cap, R_aborted, R_abort_check_failed}"
proof (induction ctx work kind d arbitrary: d' rule: charge.induct)
  case (2 ctx work kind d)
  obtain u d1 where u: "charge_unit ctx kind d = (u, d1)" by fastforce
  show ?case
  proof (cases u)
    case None
    with "2.prems" u have "charge ctx work kind d1 = (Some r, d')" by simp
    from "2.IH" [OF u [symmetric] None this] show ?thesis .
  next
    case (Some x)
    with "2.prems" u charge_unit_facts(9) [OF u Some] show ?thesis by simp
  qed
qed simp

section \<open>What an eligible offer guarantees\<close>

definition valid_crossable :: "crossable \<Rightarrow> bool" where
  "valid_crossable c \<longleftrightarrow> isLowerHex64 (cr_offerHash c) \<and> isLowerHex64 (cr_tokenIn c) \<and> isLowerHex64 (cr_tokenOut c)
     \<and> cr_tokenIn c \<noteq> cr_tokenOut c
     \<and> 0 < cr_amountIn c \<and> cr_amountIn c \<le> MAX_SETTLEMENT_AMOUNT
     \<and> 0 < cr_amountOut c \<and> cr_amountOut c \<le> MAX_SETTLEMENT_AMOUNT
     \<and> list_all isLowerHex64 (cr_nullifiers c) \<and> sorted (cr_nullifiers c) \<and> distinct (cr_nullifiers c)"

lemma toCrossable_valid: "toCrossable offer options unavailable = Inr c \<Longrightarrow> valid_crossable c"
  by (auto simp: toCrossable_def valid_crossable_def isHex64_toLowerCase list_all_iff list_ex_iff
      split: if_splits list.splits option.splits)

text \<open>The maker terms an eligible offer stands for.\<close>

definition crossable_source :: "crossable \<Rightarrow> merge_source" where
  "crossable_source c = \<lparr>src_gives = [\<lparr>leg_token = cr_tokenOut c, leg_amount = cr_amountOut c\<rparr>],
     src_wants = [\<lparr>leg_token = cr_tokenIn c, leg_amount = cr_amountIn c\<rparr>], src_hash = cr_offerHash c\<rparr>"

lemma crossable_net:
  assumes "valid_crossable c"
  shows "maker_net [crossable_source c] t =
    (if t = cr_tokenOut c then cr_amountOut c else 0) - (if t = cr_tokenIn c then cr_amountIn c else 0)"
  using assms
  by (auto simp: maker_net_def crossable_source_def leg_sum_def valid_crossable_def toLowerCase_lower)

lemma crossable_source_valid:
  assumes "valid_crossable c"
  shows "valid_source (crossable_source c)" "isHex64 (src_hash (crossable_source c))"
    "toLowerCase (src_hash (crossable_source c)) = cr_offerHash c"
  using assms
  by (auto simp: crossable_source_def valid_source_def valid_leg_def valid_crossable_def
      isLowerHex64_isHex64 toLowerCase_lower)

section \<open>Properties\<close>

lemma get_set_limit: "get_limit (set_limit f v l) g = (if f = g then v else get_limit l g)"
  by (cases f; cases g) simp_all

lemma all_limit_names: "f \<in> set RESOURCE_LIMIT_NAMES" "distinct RESOURCE_LIMIT_NAMES"
  by (cases f; simp add: RESOURCE_LIMIT_NAMES_def) (simp add: RESOURCE_LIMIT_NAMES_def)

definition valid_control :: "limit_name \<Rightarrow> js_number \<Rightarrow> bool" where
  "valid_control f v \<longleftrightarrow> (case v of
     Integral n \<Rightarrow> 1 \<le> n \<and> n \<le> get_limit HARD_LADDER_RESOURCE_LIMITS f | NonIntegral \<Rightarrow> False)"

definition controlled :: "limit_controls \<Rightarrow> resource_limits \<Rightarrow> limit_name \<Rightarrow> int" where
  "controlled c l f = (case c f of Some (Integral n) \<Rightarrow> n | _ \<Rightarrow> get_limit l f)"

lemma hard_safe: "n \<le> get_limit HARD_LADDER_RESOURCE_LIMITS f \<Longrightarrow> 1 \<le> n \<Longrightarrow> is_safe_integer n"
  by (cases f) (simp_all add: HARD_LADDER_RESOURCE_LIMITS_def MAX_RUNGS_PER_PAIR_def MAX_PAIRS_PER_PUSH_def
      is_safe_integer_def max_safe_integer_def)

lemma resolve_fields_cases:
  assumes "distinct fs"
  shows "case resolve_fields fs c l of
     Inr l' \<Rightarrow> (\<forall>f. get_limit l' f = (if f \<in> set fs then controlled c l f else get_limit l f))
       \<and> (\<forall>f \<in> set fs. \<forall>v. c f = Some v \<longrightarrow> valid_control f v)
   | Inl e \<Rightarrow> c (lr_field e) = Some (lr_value e) \<and> \<not> valid_control (lr_field e) (lr_value e)
       \<and> lr_maximum e = get_limit HARD_LADDER_RESOURCE_LIMITS (lr_field e)"
  using assms
proof (induction fs arbitrary: l)
  case (Cons f fs)
  then have IH: "\<And>l. case resolve_fields fs c l of
     Inr l' \<Rightarrow> (\<forall>f. get_limit l' f = (if f \<in> set fs then controlled c l f else get_limit l f))
       \<and> (\<forall>f \<in> set fs. \<forall>v. c f = Some v \<longrightarrow> valid_control f v)
   | Inl e \<Rightarrow> c (lr_field e) = Some (lr_value e) \<and> \<not> valid_control (lr_field e) (lr_value e)
       \<and> lr_maximum e = get_limit HARD_LADDER_RESOURCE_LIMITS (lr_field e)" and nf: "f \<notin> set fs"
    by auto
  show ?case
  proof (cases "c f")
    case None
    with IH [of l] nf show ?thesis
      by (auto simp: controlled_def split: sum.splits)
  next
    case (Some v)
    show ?thesis
    proof (cases "valid_control f v")
      case False
      with Some show ?thesis
        by (cases v) (auto simp: valid_control_def Let_def)
    next
      case True
      then obtain n where v: "v = Integral n" "1 \<le> n" "n \<le> get_limit HARD_LADDER_RESOURCE_LIMITS f"
        by (cases v) (auto simp: valid_control_def)
      have "resolve_fields (f # fs) c l = resolve_fields fs c (set_limit f n l)"
        using Some v hard_safe [OF v(3,2)] by simp
      moreover have "controlled c l f = n" using Some v by (simp add: controlled_def)
      moreover have "controlled c (set_limit f n l) g = controlled c l g" if "g \<in> set fs" for g
        using that nf by (auto simp: controlled_def get_set_limit split: option.split js_number.split)
      ultimately show ?thesis
        using IH [of "set_limit f n l"] Some v True nf by (auto simp: get_set_limit split: sum.splits)
    qed
  qed
qed simp

text \<open>
  Resource controls only ever lower a limit. Resolution succeeds exactly when every
  supplied control is an integer between 1 and its hard ceiling, and then every limit is the
  supplied control or the ceiling; otherwise it names an offending field, its value and the
  ceiling, and never clamps.
\<close>

theorem resolveLadderResourceLimits_lowers:
  "case resolveLadderResourceLimits (Some controls) of
     Inr l \<Rightarrow> (\<forall>f. get_limit l f = controlled controls HARD_LADDER_RESOURCE_LIMITS f
               \<and> 1 \<le> get_limit l f \<and> get_limit l f \<le> get_limit HARD_LADDER_RESOURCE_LIMITS f)
   | Inl e \<Rightarrow> controls (lr_field e) = Some (lr_value e) \<and> \<not> valid_control (lr_field e) (lr_value e)
       \<and> lr_maximum e = get_limit HARD_LADDER_RESOURCE_LIMITS (lr_field e)"
proof (cases "resolveLadderResourceLimits (Some controls)")
  case (Inl e)
  with resolve_fields_cases [OF all_limit_names(2), of controls DEFAULT_LADDER_RESOURCE_LIMITS]
  show ?thesis by (simp add: resolveLadderResourceLimits_def)
next
  case (Inr l)
  with resolve_fields_cases [OF all_limit_names(2), of controls DEFAULT_LADDER_RESOURCE_LIMITS] all_limit_names(1)
  have l: "get_limit l f = controlled controls HARD_LADDER_RESOURCE_LIMITS f"
    and v: "controls f = Some v \<Longrightarrow> valid_control f v" for f v
    by (simp_all add: resolveLadderResourceLimits_def DEFAULT_LADDER_RESOURCE_LIMITS_def)
  have h: "1 \<le> get_limit HARD_LADDER_RESOURCE_LIMITS f" for f
    by (cases f) (simp_all add: HARD_LADDER_RESOURCE_LIMITS_def MAX_RUNGS_PER_PAIR_def MAX_PAIRS_PER_PUSH_def)
  have "1 \<le> controlled controls HARD_LADDER_RESOURCE_LIMITS f
      \<and> controlled controls HARD_LADDER_RESOURCE_LIMITS f \<le> get_limit HARD_LADDER_RESOURCE_LIMITS f" for f
    using v [of f] h [of f]
    by (cases "controls f") (auto simp: controlled_def valid_control_def split: js_number.splits)
  with Inr l show ?thesis by simp
qed

end
