(* ===== verification/Offer_Book.thy ===== *)
theory Offer_Book
  imports Collections Ladder_Limits
begin

text \<open>
  Model of \<^verbatim>\<open>packages/solver/src/book.ts\<close>: the boundary parser that admits an API row as an
  offer, and the in-memory mirror of the node's live offers with its two indexes, by nullifier
  and by directed pair. \<open>Date.parse\<close>, whose result on arbitrary text is left to the
  implementation, is a parameter: the epoch milliseconds, or \<open>None\<close> for NaN.
\<close>

section \<open>Admitting an API row\<close>

record book_offer = source_offer +
  bo_firstSeenAt :: "int option"
  bo_blob :: "string option"

definition isRecord :: "json \<Rightarrow> bool" where
  "isRecord value = (case value of JObj _ \<Rightarrow> True | _ \<Rightarrow> False)"

definition positive_decimal :: "string \<Rightarrow> bool" where
  "positive_decimal s \<longleftrightarrow> s \<noteq> [] \<and> hd s \<noteq> CHR ''0'' \<and> list_all is_digit s"

definition hex_string :: "json \<Rightarrow> bool" where
  "hex_string value = (case value of JStr s \<Rightarrow> isHex64 s | _ \<Rightarrow> False)"

definition text_of :: "json \<Rightarrow> string" where
  "text_of value = (case value of JStr s \<Rightarrow> s | _ \<Rightarrow> [])"

definition parseTokenLeg :: "json \<Rightarrow> source_leg option" where
  "parseTokenLeg value =
     (if \<not> isRecord value then None
      else if \<not> hex_string (js_get value ''token'') then None
      else case js_get value ''amount'' of
        JStr amount \<Rightarrow>
          if \<not> positive_decimal amount then None
          else (case js_get value ''type'' of
            JStr kind \<Rightarrow>
              if kind \<noteq> ''SHIELDED'' \<and> kind \<noteq> ''UNSHIELDED'' then None
              else (case BigInt amount of
                 Inl _ \<Rightarrow> None
               | Inr n \<Rightarrow> Some \<lparr>leg_token = toLowerCase (text_of (js_get value ''token'')), leg_amount = n,
                   sl_kind = (if kind = ''SHIELDED'' then SHIELDED else UNSHIELDED)\<rparr>)
          | _ \<Rightarrow> None)
      | _ \<Rightarrow> None)"

type_synonym date_parser = "string \<Rightarrow> int option"

definition toEpochMs :: "date_parser \<Rightarrow> json \<Rightarrow> int option" where
  "toEpochMs parseDate v = (case v of JStr s \<Rightarrow> if s = [] then None else parseDate s | _ \<Rightarrow> None)"

definition isTimestamp :: "date_parser \<Rightarrow> json \<Rightarrow> bool" where
  "isTimestamp parseDate value = (case value of JStr s \<Rightarrow> s \<noteq> [] \<and> parseDate s \<noteq> None | _ \<Rightarrow> False)"

definition isOptionalTimestamp :: "date_parser \<Rightarrow> json \<Rightarrow> bool" where
  "isOptionalTimestamp parseDate value \<longleftrightarrow> value = JUndefined \<or> value = JNull \<or> isTimestamp parseDate value"

text \<open>The rows' \<open>offerBech32\<close> is a string or absent by the API's type; an empty one is dropped.\<close>

definition row_blob :: "json \<Rightarrow> string option" where
  "row_blob value = (case value of JStr s \<Rightarrow> if s = [] then None else Some s | _ \<Rightarrow> None)"

definition bookOfferFromApi :: "date_parser \<Rightarrow> json \<Rightarrow> book_offer option" where
  "bookOfferFromApi parseDate row =
     (let computed = js_get row ''computed'' in
      if \<not> isRecord row \<or> \<not> hex_string (js_get row ''offerId'') then None
      else if \<not> isRecord computed then None
      else case (js_get computed ''gives'', js_get computed ''wants'', js_get computed ''inputNullifiers'') of
        (JArr gives, JArr wants, JArr nullifiers) \<Rightarrow>
          if list_ex (\<lambda>n. \<not> hex_string n) nullifiers then None
          else if \<not> isTimestamp parseDate (js_get computed ''expiresAt'')
                \<or> \<not> isOptionalTimestamp parseDate (js_get computed ''firstSeenAt'') then None
          else if list_ex (\<lambda>l. parseTokenLeg l = None) gives \<or> list_ex (\<lambda>l. parseTokenLeg l = None) wants then None
          else Some \<lparr>so_offerHash = toLowerCase (text_of (js_get row ''offerId'')),
                     so_gives = map (\<lambda>l. the (parseTokenLeg l)) gives,
                     so_wants = map (\<lambda>l. the (parseTokenLeg l)) wants,
                     so_expiresAt = toEpochMs parseDate (js_get computed ''expiresAt''),
                     so_inputNullifiers = map (\<lambda>n. toLowerCase (text_of n)) nullifiers,
                     bo_firstSeenAt = toEpochMs parseDate (js_get computed ''firstSeenAt''),
                     bo_blob = row_blob (js_get row ''offerBech32'')\<rparr>
      | _ \<Rightarrow> None)"

section \<open>The book\<close>

record book =
  bk_byHash :: "(string \<times> book_offer) list"
  bk_byNullifier :: key_index
  bk_byPair :: key_index

definition empty_book :: book where
  "empty_book = \<lparr>bk_byHash = [], bk_byNullifier = [], bk_byPair = []\<rparr>"

definition isSingleLeg :: "book_offer \<Rightarrow> bool" where
  "isSingleLeg offer \<longleftrightarrow> length (so_gives offer) = 1 \<and> length (so_wants offer) = 1"

definition offer_pair :: "book_offer \<Rightarrow> string" where
  "offer_pair offer = pairKey (leg_token (so_gives offer ! 0)) (leg_token (so_wants offer ! 0))"

definition book_get :: "book \<Rightarrow> string \<Rightarrow> book_offer option" where
  "book_get b offerHash = map_of (bk_byHash b) (toLowerCase offerHash)"

definition book_all :: "book \<Rightarrow> book_offer list" where
  "book_all b = map snd (bk_byHash b)"

definition book_hashes :: "book \<Rightarrow> string list" where
  "book_hashes b = map fst (bk_byHash b)"

definition book_size :: "book \<Rightarrow> int" where
  "book_size b = int (length (bk_byHash b))"

definition book_unindex :: "string \<Rightarrow> book \<Rightarrow> book" where
  "book_unindex hash b = (case map_of (bk_byHash b) hash of
     None \<Rightarrow> b
   | Some existing \<Rightarrow>
       b\<lparr>bk_byNullifier := fold (index_remove hash) (so_inputNullifiers existing) (bk_byNullifier b),
         bk_byPair := (if isSingleLeg existing then index_remove hash (offer_pair existing) (bk_byPair b)
                       else bk_byPair b)\<rparr>)"

definition stored_offer :: "book_offer \<Rightarrow> book_offer" where
  "stored_offer offer = offer\<lparr>so_offerHash := toLowerCase (so_offerHash offer),
     so_inputNullifiers := js_uniq (map toLowerCase (so_inputNullifiers offer))\<rparr>"

definition book_upsert :: "book_offer \<Rightarrow> book \<Rightarrow> book" where
  "book_upsert offer b =
     (let hash = toLowerCase (so_offerHash offer);
          b1 = (if map_of (bk_byHash b) hash \<noteq> None then book_unindex hash b else b);
          stored = stored_offer offer
      in b1\<lparr>bk_byHash := AList.update hash stored (bk_byHash b1),
            bk_byNullifier := fold (index_add hash) (so_inputNullifiers stored) (bk_byNullifier b1),
            bk_byPair := (if isSingleLeg stored then index_add hash (offer_pair stored) (bk_byPair b1)
                          else bk_byPair b1)\<rparr>)"

definition book_remove :: "string \<Rightarrow> book \<Rightarrow> book" where
  "book_remove offerHash b =
     (let hash = toLowerCase offerHash in
      if map_of (bk_byHash b) hash = None then b
      else (let b1 = book_unindex hash b in b1\<lparr>bk_byHash := AList.delete hash (bk_byHash b1)\<rparr>))"

definition removed_by :: "book \<Rightarrow> string \<Rightarrow> bool" where
  "removed_by b offerHash \<longleftrightarrow> map_of (bk_byHash b) (toLowerCase offerHash) \<noteq> None"

definition removeByNullifier :: "string \<Rightarrow> book \<Rightarrow> string list \<times> book" where
  "removeByNullifier nullifier b =
     (let hashes = bucket (bk_byNullifier b) (toLowerCase nullifier)
      in (hashes, fold book_remove hashes b))"

definition byPair :: "book \<Rightarrow> string \<Rightarrow> string \<Rightarrow> book_offer list" where
  "byPair b giveToken wantToken =
     List.map_filter (map_of (bk_byHash b))
       (bucket (bk_byPair b) (pairKey (toLowerCase giveToken) (toLowerCase wantToken)))"

text \<open>\<open>key.split("|")\<close>, of which the first two parts are used.\<close>

definition split_pair :: "string \<Rightarrow> string \<times> string" where
  "split_pair key = (takeWhile (\<lambda>c. c \<noteq> CHR ''|'') key,
     takeWhile (\<lambda>c. c \<noteq> CHR ''|'') (drop 1 (dropWhile (\<lambda>c. c \<noteq> CHR ''|'') key)))"

definition book_pairs :: "book \<Rightarrow> (string \<times> string) list" where
  "book_pairs b = map (\<lambda>e. split_pair (fst e)) (bk_byPair b)"

definition expired :: "int \<Rightarrow> int \<Rightarrow> book_offer \<Rightarrow> bool" where
  "expired nowMs marginSeconds offer = (case so_expiresAt offer of
     None \<Rightarrow> False
   | Some expiresAt \<Rightarrow> nowMs \<ge> expiresAt - marginSeconds * 1000)"

definition sweepExpired :: "int \<Rightarrow> int \<Rightarrow> book \<Rightarrow> string list \<times> book" where
  "sweepExpired nowMs marginSeconds b =
     (let removed = map so_offerHash (filter (expired nowMs marginSeconds) (book_all b))
      in (removed, fold book_remove removed b))"

subsection \<open>Snapshots\<close>

definition kind_text :: "leg_kind \<Rightarrow> string" where
  "kind_text k = (case k of SHIELDED \<Rightarrow> ''SHIELDED'' | UNSHIELDED \<Rightarrow> ''UNSHIELDED'')"

definition legs_text :: "source_leg list \<Rightarrow> string" where
  "legs_text legs = join_with CHR ''|'' (sort (map (\<lambda>l.
     kind_text (sl_kind l) @ '':'' @ leg_token l @ '':'' @ bigint_to_string (leg_amount l)) legs))"

definition sameOfferProjection :: "book_offer \<Rightarrow> book_offer \<Rightarrow> bool" where
  "sameOfferProjection l r \<longleftrightarrow>
     toLowerCase (so_offerHash l) = toLowerCase (so_offerHash r)
     \<and> legs_text (so_gives l) = legs_text (so_gives r)
     \<and> legs_text (so_wants l) = legs_text (so_wants r)
     \<and> so_expiresAt l = so_expiresAt r
     \<and> bo_firstSeenAt l = bo_firstSeenAt r
     \<and> join_with CHR ''|'' (sort (so_inputNullifiers l)) = join_with CHR ''|'' (sort (so_inputNullifiers r))
     \<and> (bo_blob l = None \<or> bo_blob r = None \<or> bo_blob l = bo_blob r)"

record resync_diff =
  rd_added :: "string list"
  rd_removed :: "string list"
  rd_updated :: "string list"

definition snapshot :: "book_offer list \<Rightarrow> (string \<times> book_offer) list" where
  "snapshot offers = fold (\<lambda>v. AList.update (toLowerCase (so_offerHash v)) v) offers []"

definition carry_blob :: "book_offer option \<Rightarrow> book_offer \<Rightarrow> book_offer" where
  "carry_blob existing offer = (case existing of
     None \<Rightarrow> offer
   | Some e \<Rightarrow> (case bo_blob e of
        None \<Rightarrow> offer
      | Some blob \<Rightarrow> if blob \<noteq> [] \<and> (bo_blob offer = None \<or> bo_blob offer = Some []) then offer\<lparr>bo_blob := Some blob\<rparr> else offer))"

definition resync :: "book_offer list \<Rightarrow> book \<Rightarrow> resync_diff \<times> book" where
  "resync offers b =
     (let next = snapshot offers;
          removed = filter (\<lambda>h. map_of next h = None) (book_hashes b);
          added = filter (\<lambda>h. map_of (bk_byHash b) h = None) (map fst next);
          updated = List.map_filter (\<lambda>(hash, offer). case map_of (bk_byHash b) hash of
              None \<Rightarrow> None
            | Some existing \<Rightarrow> if sameOfferProjection existing offer then None else Some hash) next;
          b1 = fold book_remove removed b;
          b2 = fold (\<lambda>(hash, offer) b. book_upsert (carry_blob (map_of (bk_byHash b) hash) offer) b) next b1
      in (\<lparr>rd_added = added, rd_removed = removed, rd_updated = updated\<rparr>, b2))"

section \<open>The indexes describe the offers\<close>

definition book_ok :: "book \<Rightarrow> bool" where
  "book_ok b \<longleftrightarrow> distinct (map fst (bk_byHash b))
     \<and> (\<forall>h v. map_of (bk_byHash b) h = Some v \<longrightarrow> so_offerHash v = h \<and> toLowerCase h = h)
     \<and> index_ok (bk_byNullifier b) \<and> index_ok (bk_byPair b)
     \<and> (\<forall>n. set (bucket (bk_byNullifier b) n) = {h. \<exists>v. map_of (bk_byHash b) h = Some v \<and> n \<in> set (so_inputNullifiers v)})
     \<and> (\<forall>k. set (bucket (bk_byPair b) k) = {h. \<exists>v. map_of (bk_byHash b) h = Some v \<and> isSingleLeg v \<and> offer_pair v = k})"

lemma lower_char_idem [simp]: "lower_char (lower_char c) = lower_char c"
  by (simp add: lower_char_def)

lemma lower_idem [simp]: "toLowerCase (toLowerCase s) = toLowerCase s"
  by (simp add: toLowerCase_def)

lemma book_okI:
  assumes "distinct (map fst (bk_byHash b))"
    "\<And>h v. map_of (bk_byHash b) h = Some v \<Longrightarrow> so_offerHash v = h \<and> toLowerCase h = h"
    "index_ok (bk_byNullifier b)" "index_ok (bk_byPair b)"
    "\<And>n. set (bucket (bk_byNullifier b) n) = {h. \<exists>v. map_of (bk_byHash b) h = Some v \<and> n \<in> set (so_inputNullifiers v)}"
    "\<And>k. set (bucket (bk_byPair b) k) = {h. \<exists>v. map_of (bk_byHash b) h = Some v \<and> isSingleLeg v \<and> offer_pair v = k}"
  shows "book_ok b"
  unfolding book_ok_def using assms by blast

lemma book_okD:
  assumes "book_ok b"
  shows "distinct (map fst (bk_byHash b))"
    "map_of (bk_byHash b) h = Some v \<Longrightarrow> so_offerHash v = h \<and> toLowerCase h = h"
    "index_ok (bk_byNullifier b)" "index_ok (bk_byPair b)"
    "set (bucket (bk_byNullifier b) n) = {h. \<exists>v. map_of (bk_byHash b) h = Some v \<and> n \<in> set (so_inputNullifiers v)}"
    "set (bucket (bk_byPair b) k) = {h. \<exists>v. map_of (bk_byHash b) h = Some v \<and> isSingleLeg v \<and> offer_pair v = k}"
  using assms unfolding book_ok_def by blast+

lemma empty_book_ok: "book_ok empty_book"
  by (rule book_okI) (simp_all add: empty_book_def bucket_def)

text \<open>After \<open>#unindex\<close> the indexes describe the book without that hash.\<close>

lemma book_unindex_spec:
  assumes "book_ok b"
  shows "bk_byHash (book_unindex h b) = bk_byHash b"
    "index_ok (bk_byNullifier (book_unindex h b))" "index_ok (bk_byPair (book_unindex h b))"
    "set (bucket (bk_byNullifier (book_unindex h b)) n)
       = {x. \<exists>v. ((map_of (bk_byHash b))(h := None)) x = Some v \<and> n \<in> set (so_inputNullifiers v)}"
    "set (bucket (bk_byPair (book_unindex h b)) k)
       = {x. \<exists>v. ((map_of (bk_byHash b))(h := None)) x = Some v \<and> isSingleLeg v \<and> offer_pair v = k}"
proof -
  note d = book_okD(3-6) [OF assms]
  show "bk_byHash (book_unindex h b) = bk_byHash b" by (simp add: book_unindex_def split: option.split)
  show "index_ok (bk_byNullifier (book_unindex h b))" "index_ok (bk_byPair (book_unindex h b))"
    using d(1,2) by (simp_all add: book_unindex_def index_remove_all(1) index_remove_ok split: option.split)
  show "set (bucket (bk_byNullifier (book_unindex h b)) n)
       = {x. \<exists>v. ((map_of (bk_byHash b))(h := None)) x = Some v \<and> n \<in> set (so_inputNullifiers v)}"
    by (cases "map_of (bk_byHash b) h") (auto simp: book_unindex_def index_remove_all(2) d(3) split: if_splits)
  show "set (bucket (bk_byPair (book_unindex h b)) k)
       = {x. \<exists>v. ((map_of (bk_byHash b))(h := None)) x = Some v \<and> isSingleLeg v \<and> offer_pair v = k}"
    by (cases "map_of (bk_byHash b) h") (auto simp: book_unindex_def bucket_remove d(4) split: if_splits)
qed

lemma stored_offer_fields [simp]:
  "so_offerHash (stored_offer v) = toLowerCase (so_offerHash v)"
  "isSingleLeg (stored_offer v) = isSingleLeg v" "offer_pair (stored_offer v) = offer_pair v"
  by (simp_all add: stored_offer_def isSingleLeg_def offer_pair_def)

lemma byHash_upsert: "map_of (bk_byHash (book_upsert v b)) =
  (map_of (bk_byHash b))(toLowerCase (so_offerHash v) \<mapsto> stored_offer v)"
  by (auto simp: book_upsert_def Let_def update_conv' book_unindex_def split: option.split)

lemma byHash_remove: "map_of (bk_byHash (book_remove h b)) = (map_of (bk_byHash b))(toLowerCase h := None)"
  by (auto simp: book_remove_def Let_def delete_conv' book_unindex_def split: option.split)

lemma upsert_ok:
  assumes "book_ok b"
  shows "book_ok (book_upsert v b)"
proof -
  let ?h = "toLowerCase (so_offerHash v)" and ?s = "stored_offer v"
  define b1 where "b1 = (if map_of (bk_byHash b) ?h \<noteq> None then book_unindex ?h b else b)"
  have u: "book_upsert v b = b1\<lparr>bk_byHash := AList.update ?h ?s (bk_byHash b1),
            bk_byNullifier := fold (index_add ?h) (so_inputNullifiers ?s) (bk_byNullifier b1),
            bk_byPair := (if isSingleLeg v then index_add ?h (offer_pair v) (bk_byPair b1) else bk_byPair b1)\<rparr>"
    by (simp add: book_upsert_def b1_def Let_def)
  have b1: "bk_byHash b1 = bk_byHash b" "index_ok (bk_byNullifier b1)" "index_ok (bk_byPair b1)"
    "set (bucket (bk_byNullifier b1) n)
       = {x. \<exists>w. ((map_of (bk_byHash b))(?h := None)) x = Some w \<and> n \<in> set (so_inputNullifiers w)}"
    "set (bucket (bk_byPair b1) k)
       = {x. \<exists>w. ((map_of (bk_byHash b))(?h := None)) x = Some w \<and> isSingleLeg w \<and> offer_pair w = k}" for n k
    using book_unindex_spec [OF assms, of ?h] book_okD [OF assms] by (auto simp: b1_def split: if_splits)
  show ?thesis
  proof (rule book_okI)
    show "distinct (map fst (bk_byHash (book_upsert v b)))"
      using book_okD(1) [OF assms] b1(1) by (simp add: u distinct_update)
    show "so_offerHash w = h \<and> toLowerCase h = h" if "map_of (bk_byHash (book_upsert v b)) h = Some w" for h w
      using that book_okD(2) [OF assms, of h w] by (auto simp: byHash_upsert split: if_splits)
    show "index_ok (bk_byNullifier (book_upsert v b))" "index_ok (bk_byPair (book_upsert v b))"
      using b1(2,3) by (simp_all add: u index_add_all(1) index_add_ok)
    show "set (bucket (bk_byNullifier (book_upsert v b)) n)
        = {h. \<exists>w. map_of (bk_byHash (book_upsert v b)) h = Some w \<and> n \<in> set (so_inputNullifiers w)}" for n
      unfolding byHash_upsert by (auto simp: u index_add_all(2) b1(4) split: if_splits)
    show "set (bucket (bk_byPair (book_upsert v b)) k)
        = {h. \<exists>w. map_of (bk_byHash (book_upsert v b)) h = Some w \<and> isSingleLeg w \<and> offer_pair w = k}" for k
      unfolding byHash_upsert by (auto simp: u bucket_add b1(5) split: if_splits)
  qed
qed

lemma remove_ok:
  assumes "book_ok b"
  shows "book_ok (book_remove h b)"
proof (cases "map_of (bk_byHash b) (toLowerCase h) = None")
  case False
  let ?h = "toLowerCase h" and ?b = "book_unindex (toLowerCase h) b"
  have r: "book_remove h b = ?b\<lparr>bk_byHash := AList.delete ?h (bk_byHash b)\<rparr>"
    using False book_unindex_spec(1) [OF assms] by (auto simp: book_remove_def Let_def)
  note s = book_unindex_spec [OF assms, of ?h]
  show ?thesis
  proof (rule book_okI)
    show "distinct (map fst (bk_byHash (book_remove h b)))"
      using book_okD(1) [OF assms] by (simp add: r distinct_delete)
    show "so_offerHash w = x \<and> toLowerCase x = x" if "map_of (bk_byHash (book_remove h b)) x = Some w" for x w
      using that book_okD(2) [OF assms, of x w] by (auto simp: byHash_remove split: if_splits)
    show "index_ok (bk_byNullifier (book_remove h b))" "index_ok (bk_byPair (book_remove h b))"
      using s(2,3) by (simp_all add: r)
    show "set (bucket (bk_byNullifier (book_remove h b)) n)
        = {x. \<exists>w. map_of (bk_byHash (book_remove h b)) x = Some w \<and> n \<in> set (so_inputNullifiers w)}" for n
      unfolding byHash_remove by (simp add: r s(4))
    show "set (bucket (bk_byPair (book_remove h b)) k)
        = {x. \<exists>w. map_of (bk_byHash (book_remove h b)) x = Some w \<and> isSingleLeg w \<and> offer_pair w = k}" for k
      unfolding byHash_remove by (simp add: r s(5))
  qed
qed (use assms in \<open>simp add: book_remove_def\<close>)

text \<open>The book keeps the contract of a keyed store.\<close>

interpretation book_store: keyed_store book_ok "\<lambda>b. map_of (bk_byHash b)" book_hashes book_upsert book_remove
  toLowerCase "\<lambda>v. toLowerCase (so_offerHash v)" stored_offer
proof
  fix b :: book and k
  assume b: "book_ok b"
  show "set (book_hashes b) = dom (map_of (bk_byHash b))" by (simp add: book_hashes_def dom_map_of_conv_image_fst)
  show "toLowerCase k = k" if "k \<in> dom (map_of (bk_byHash b))"
    using that book_okD(2) [OF b, of k] by auto
qed (simp_all add: upsert_ok remove_ok byHash_upsert byHash_remove)

section \<open>Bulk removals and snapshots\<close>

lemma removeByNullifier_spec:
  assumes "book_ok b" "removeByNullifier n b = (hashes, b')"
  shows "book_ok b'"
    "set hashes = {h. \<exists>v. map_of (bk_byHash b) h = Some v \<and> toLowerCase n \<in> set (so_inputNullifiers v)}"
    "map_of (bk_byHash b') h = (if h \<in> set hashes then None else map_of (bk_byHash b) h)"
proof -
  have r: "hashes = bucket (bk_byNullifier b) (toLowerCase n)" "b' = fold book_remove hashes b"
    using assms(2) by (auto simp: removeByNullifier_def Let_def)
  show h: "set hashes = {h. \<exists>v. map_of (bk_byHash b) h = Some v \<and> toLowerCase n \<in> set (so_inputNullifiers v)}"
    unfolding r(1) by (rule book_okD(5) [OF assms(1)])
  show "book_ok b'" unfolding r(2) by (rule book_store.del_all_ok [OF assms(1)])
  have "toLowerCase h = h" if "h \<in> set hashes" for h
    using that h book_okD(2) [OF assms(1)] by auto
  then have "toLowerCase ` set hashes = set hashes" by (auto simp: image_iff)
  then show "map_of (bk_byHash b') h = (if h \<in> set hashes then None else map_of (bk_byHash b) h)"
    unfolding r(2) book_store.del_all [OF assms(1)] by simp
qed

lemma sweepExpired_spec:
  assumes "book_ok b" "sweepExpired now margin b = (hashes, b')"
  shows "book_ok b'"
    "set hashes = {h. \<exists>v. map_of (bk_byHash b) h = Some v \<and> expired now margin v}"
    "map_of (bk_byHash b') h = (case map_of (bk_byHash b) h of
       None \<Rightarrow> None | Some v \<Rightarrow> if expired now margin v then None else Some v)"
proof -
  have r: "hashes = map so_offerHash (filter (expired now margin) (book_all b))" "b' = fold book_remove hashes b"
    using assms(2) by (auto simp: sweepExpired_def Let_def)
  show h: "set hashes = {h. \<exists>v. map_of (bk_byHash b) h = Some v \<and> expired now margin v}"
    using book_okD(1) [OF assms(1)] book_okD(2) [OF assms(1)] unfolding r(1) book_all_def by (force simp: map_of_eq_Some_iff)
  show "book_ok b'" unfolding r(2) by (rule book_store.del_all_ok [OF assms(1)])
  have "toLowerCase h = h" if "h \<in> set hashes" for h
    using that h book_okD(2) [OF assms(1)] by auto
  then have "toLowerCase ` set hashes = set hashes" by (auto simp: image_iff)
  then show "map_of (bk_byHash b') h = (case map_of (bk_byHash b) h of
       None \<Rightarrow> None | Some v \<Rightarrow> if expired now margin v then None else Some v)"
    unfolding r(2) book_store.del_all [OF assms(1)] using h by (auto split: option.split)
qed

lemma find_append: "find P (xs @ ys) = (case find P xs of None \<Rightarrow> find P ys | Some x \<Rightarrow> Some x)"
  by (induction xs) auto

lemma snapshot_lookup: "map_of (snapshot offers) h = find (\<lambda>v. toLowerCase (so_offerHash v) = h) (rev offers)"
  "distinct (map fst (snapshot offers))" "\<forall>(k, v) \<in> set (snapshot offers). toLowerCase (so_offerHash v) = k"
proof -
  have a: "map_of (fold (\<lambda>v. AList.update (toLowerCase (so_offerHash v)) v) vs al) h =
      (case find (\<lambda>v. toLowerCase (so_offerHash v) = h) (rev vs) of None \<Rightarrow> map_of al h | Some v \<Rightarrow> Some v)" for vs al h
    by (induction vs arbitrary: al) (auto simp: update_conv' find_append split: option.split)
  show l: "map_of (snapshot offers) h = find (\<lambda>v. toLowerCase (so_offerHash v) = h) (rev offers)" for h
    by (cases "find (\<lambda>v. toLowerCase (so_offerHash v) = h) (rev offers)") (simp_all add: snapshot_def a)
  have d: "distinct (map fst al) \<Longrightarrow> distinct (map fst (fold (\<lambda>v. AList.update (toLowerCase (so_offerHash v)) v) vs al))" for vs al
    by (induction vs arbitrary: al) (simp_all add: distinct_update)
  show ds: "distinct (map fst (snapshot offers))" unfolding snapshot_def by (rule d) simp
  show "\<forall>(k, v) \<in> set (snapshot offers). toLowerCase (so_offerHash v) = k"
  proof clarify
    fix k v
    assume "(k, v) \<in> set (snapshot offers)"
    then have "map_of (snapshot offers) k = Some v" using ds by (rule map_of_is_SomeI [rotated])
    then show "toLowerCase (so_offerHash v) = k" unfolding l by (auto simp: find_Some_iff)
  qed
qed

lemma carry_blob_hash: "so_offerHash (carry_blob e v) = so_offerHash v"
  by (simp add: carry_blob_def split: option.split)

lemma resync_spec:
  assumes "book_ok b" "resync offers b = (d, b')"
  shows "book_ok b'"
    "map_of (bk_byHash b') h = map_option (\<lambda>v. stored_offer (carry_blob (map_of (bk_byHash b) h) v))
       (find (\<lambda>v. toLowerCase (so_offerHash v) = h) (rev offers))"
    "set (rd_added d) = set (book_hashes b') - set (book_hashes b)"
    "set (rd_removed d) = set (book_hashes b) - set (book_hashes b')"
proof -
  let ?next = "snapshot offers" and ?gone = "\<lambda>h. map_of (snapshot offers) h = None"
  define b1 where "b1 = fold book_remove (filter ?gone (book_hashes b)) b"
  have b1: "book_ok b1" "map_of (bk_byHash b1) k = (if ?gone k then None else map_of (bk_byHash b) k)" for k
    unfolding b1_def using book_store.del_all_ok [OF assms(1)] book_store.drop_listed [OF assms(1), of ?gone] by auto
  have b': "b' = fold (\<lambda>(k, v) s. book_upsert (carry_blob (map_of (bk_byHash s) k) v) s) ?next b1"
    and dd: "rd_added d = filter (\<lambda>h. map_of (bk_byHash b) h = None) (map fst ?next)"
      "rd_removed d = filter ?gone (book_hashes b)"
    using assms(2) by (auto simp: resync_def Let_def b1_def)
  note p = book_store.put_all [of carry_blob, OF _ b1(1) snapshot_lookup(2,3), unfolded carry_blob_hash, OF refl, of offers]
  show "book_ok b'" using p b' by blast
  show l: "map_of (bk_byHash b') h = map_option (\<lambda>v. stored_offer (carry_blob (map_of (bk_byHash b) h) v))
       (find (\<lambda>v. toLowerCase (so_offerHash v) = h) (rev offers))" for h
  proof -
    have "map_of (bk_byHash b') h = (case map_of ?next h of None \<Rightarrow> map_of (bk_byHash b1) h
        | Some v \<Rightarrow> Some (stored_offer (carry_blob (map_of (bk_byHash b1) h) v)))" using p b' by blast
    then show ?thesis using b1(2) [of h] by (simp add: snapshot_lookup(1) split: option.split)
  qed
  have hs: "set (book_hashes b') = fst ` set ?next"
    unfolding book_hashes_def set_map using l snapshot_lookup(1)
    by (auto simp: dom_map_of_conv_image_fst [symmetric] simp del: map_of_eq_None_iff)
  show "set (rd_added d) = set (book_hashes b') - set (book_hashes b)"
    unfolding hs dd by (auto simp: book_hashes_def map_of_eq_None_iff)
  show "set (rd_removed d) = set (book_hashes b) - set (book_hashes b')"
    unfolding hs dd by (auto simp: map_of_eq_None_iff)
qed

section \<open>Runs of the mirror\<close>

text \<open>The states the synchroniser can bring the book to.\<close>

inductive book_reachable :: "book \<Rightarrow> bool" where
  Empty: "book_reachable empty_book"
| Upsert: "book_reachable b \<Longrightarrow> book_reachable (book_upsert offer b)"
| Remove: "book_reachable b \<Longrightarrow> book_reachable (book_remove offerHash b)"
| Spent: "book_reachable b \<Longrightarrow> book_reachable (snd (removeByNullifier nullifier b))"
| Sweep: "book_reachable b \<Longrightarrow> book_reachable (snd (sweepExpired nowMs marginSeconds b))"
| Resync: "book_reachable b \<Longrightarrow> book_reachable (snd (resync offers b))"

lemma reachable_ok: "book_reachable b \<Longrightarrow> book_ok b"
proof (induction rule: book_reachable.induct)
  case (Spent b n)
  then show ?case using removeByNullifier_spec(1) [of b n] by (cases "removeByNullifier n b") simp
next
  case (Sweep b t m)
  then show ?case using sweepExpired_spec(1) [of b t m] by (cases "sweepExpired t m b") simp
next
  case (Resync b offers)
  then show ?case using resync_spec(1) [of b offers] by (cases "resync offers b") simp
qed (simp_all add: empty_book_ok upsert_ok remove_ok)

lemma book_all_set: "book_ok b \<Longrightarrow> set (book_all b) = ran (map_of (bk_byHash b))"
  using book_okD(1) [of b] by (force simp: book_all_def ran_def map_of_eq_Some_iff)

lemma byPair_set:
  assumes "book_ok b"
  shows "set (byPair b g w) = {v \<in> set (book_all b). isSingleLeg v \<and> offer_pair v = pairKey g w}"
proof -
  have k: "pairKey (toLowerCase g) (toLowerCase w) = pairKey g w" by (simp add: pairKey_def)
  have "set (byPair b g w) = {v. \<exists>h \<in> set (bucket (bk_byPair b) (pairKey g w)). map_of (bk_byHash b) h = Some v}"
    unfolding byPair_def k by (auto simp: List.map_filter_def image_iff) (metis option.sel)+
  then show ?thesis
    using book_okD(6) [OF assms, of "pairKey g w"] book_all_set [OF assms] by (auto simp: ran_def)
qed

section \<open>Properties\<close>

text \<open>
  C32: however the mirror has been driven, its indexes describe its offers: each offer is
  stored under its lower-cased hash, no two share one, a pair query answers exactly the single-leg
  offers of that pair, and consuming a coin removes exactly the offers that spend it.
\<close>

theorem book_indexes_exact:
  assumes "book_reachable b"
  shows "distinct (book_hashes b) \<and> list_all (\<lambda>v. book_get b (so_offerHash v) = Some v) (book_all b)
     \<and> set (byPair b give want) = {v \<in> set (book_all b). isSingleLeg v \<and> offer_pair v = pairKey give want}
     \<and> set (book_all (snd (removeByNullifier nullifier b)))
         = {v \<in> set (book_all b). toLowerCase nullifier \<notin> set (so_inputNullifiers v)}"
proof -
  have ok: "book_ok b" by (rule reachable_ok [OF assms])
  obtain hs b' where r: "removeByNullifier nullifier b = (hs, b')" by fastforce
  note s = removeByNullifier_spec [OF ok r]
  have "book_get b (so_offerHash v) = Some v" if "v \<in> set (book_all b)" for v
  proof -
    from that obtain h where h: "map_of (bk_byHash b) h = Some v" by (auto simp: book_all_set [OF ok] ran_def)
    with book_okD(2) [OF ok h] show ?thesis by (simp add: book_get_def)
  qed
  moreover have "set (book_all b') = {v \<in> set (book_all b). toLowerCase nullifier \<notin> set (so_inputNullifiers v)}"
  proof -
    have "map_of (bk_byHash b') k = Some v \<longleftrightarrow> map_of (bk_byHash b) k = Some v
        \<and> toLowerCase nullifier \<notin> set (so_inputNullifiers v)" for k v
      using s(2) by (auto simp: s(3))
    then show ?thesis unfolding book_all_set [OF s(1)] book_all_set [OF ok] ran_def by auto
  qed
  ultimately show ?thesis
    using book_okD(1) [OF ok] byPair_set [OF ok] r by (simp add: book_hashes_def list_all_iff)
qed

definition sample_offer :: "char \<Rightarrow> book_offer" where
  "sample_offer c = \<lparr>so_offerHash = ident c, so_gives = [\<lparr>leg_token = ident CHR ''a'', leg_amount = 5, sl_kind = SHIELDED\<rparr>],
     so_wants = [\<lparr>leg_token = ident CHR ''b'', leg_amount = 7, sl_kind = SHIELDED\<rparr>], so_expiresAt = Some 9,
     so_inputNullifiers = [''n'', ''N''], bo_firstSeenAt = None, bo_blob = None\<rparr>"

definition sample_book :: book where
  "sample_book = book_upsert (sample_offer CHR ''2'') (book_upsert (sample_offer CHR ''1'') empty_book)"

theorem book_indexes_exact_witness:
  "length (book_all sample_book) = 2 \<and> set (book_all (snd (removeByNullifier ''N'' sample_book))) = {}"
proof -
  have "book_reachable sample_book" unfolding sample_book_def by (intro book_reachable.intros)
  moreover have "list_all (\<lambda>v. toLowerCase ''N'' \<in> set (so_inputNullifiers v)) (book_all sample_book)" "length (book_all sample_book) = 2"
    by code_simp+
  ultimately show ?thesis
    using book_indexes_exact [of sample_book "[]" "[]" "''N''"]
    by (auto simp: list_all_iff)
qed

text \<open>The blob a resync leaves with an offer: the one of the snapshot's row, else the one the book had.\<close>

lemma carried: "stored_offer (carry_blob e v) = (stored_offer v)\<lparr>bo_blob :=
    (if bo_blob v \<noteq> None \<and> bo_blob v \<noteq> Some [] then bo_blob v
     else case e of Some w \<Rightarrow> if bo_blob w \<noteq> None \<and> bo_blob w \<noteq> Some [] then bo_blob w else bo_blob v
       | None \<Rightarrow> bo_blob v)\<rparr>"
  by (auto simp: carry_blob_def stored_offer_def split: option.splits)

text \<open>
  C31: a resync leaves exactly the snapshot's offers, the last row of each hash, its hash and its
  nullifiers in lower case and without repetition. Every other field is the row's, but for the blob: a
  row that comes without one (or with an empty one) keeps the blob the book had cached for its hash.
  And it reports exactly the hashes that came and went.
\<close>

theorem resync_replaces:
  assumes "book_reachable b" "resync offers b = (d, b')"
  shows "(case find (\<lambda>v. toLowerCase (so_offerHash v) = h) (rev offers) of
       None \<Rightarrow> map_of (bk_byHash b') h = None
     | Some row \<Rightarrow> map_of (bk_byHash b') h = Some (row\<lparr>so_offerHash := h,
         so_inputNullifiers := js_uniq (map toLowerCase (so_inputNullifiers row)),
         bo_blob := (if bo_blob row \<noteq> None \<and> bo_blob row \<noteq> Some [] then bo_blob row
           else case map_of (bk_byHash b) h of
             Some cached \<Rightarrow> if bo_blob cached \<noteq> None \<and> bo_blob cached \<noteq> Some [] then bo_blob cached else bo_blob row
           | None \<Rightarrow> bo_blob row)\<rparr>))
     \<and> set (book_hashes b') = (\<lambda>v. toLowerCase (so_offerHash v)) ` set offers
     \<and> set (rd_added d) = set (book_hashes b') - set (book_hashes b)
     \<and> set (rd_removed d) = set (book_hashes b) - set (book_hashes b')"
proof -
  have ok: "book_ok b" by (rule reachable_ok [OF assms(1)])
  note s = resync_spec [OF ok assms(2)]
  have "k \<in> set (book_hashes b') \<longleftrightarrow> map_of (bk_byHash b') k \<noteq> None" for k
    by (simp add: book_hashes_def map_of_eq_None_iff)
  also have "\<dots> k \<longleftrightarrow> find (\<lambda>v. toLowerCase (so_offerHash v) = k) (rev offers) \<noteq> None" for k
    using s(2) by simp
  finally have "set (book_hashes b') = (\<lambda>v. toLowerCase (so_offerHash v)) ` set offers"
    by (auto simp: find_None_iff image_iff)
  moreover have "case find (\<lambda>v. toLowerCase (so_offerHash v) = h) (rev offers) of
       None \<Rightarrow> map_of (bk_byHash b') h = None
     | Some row \<Rightarrow> map_of (bk_byHash b') h = Some (row\<lparr>so_offerHash := h,
         so_inputNullifiers := js_uniq (map toLowerCase (so_inputNullifiers row)),
         bo_blob := (if bo_blob row \<noteq> None \<and> bo_blob row \<noteq> Some [] then bo_blob row
           else case map_of (bk_byHash b) h of
             Some cached \<Rightarrow> if bo_blob cached \<noteq> None \<and> bo_blob cached \<noteq> Some [] then bo_blob cached else bo_blob row
           | None \<Rightarrow> bo_blob row)\<rparr>)"
  proof (cases "find (\<lambda>v. toLowerCase (so_offerHash v) = h) (rev offers)")
    case None
    then show ?thesis using s(2) [of h] by simp
  next
    case (Some row)
    then have "toLowerCase (so_offerHash row) = h" by (auto simp: find_Some_iff)
    then have "stored_offer row = row\<lparr>so_offerHash := h, so_inputNullifiers := js_uniq (map toLowerCase (so_inputNullifiers row))\<rparr>"
      by (simp add: stored_offer_def)
    then show ?thesis using s(2) [of h] unfolding Some carried option.map option.case by simp
  qed
  ultimately show ?thesis using s by blast
qed

theorem resync_replaces_witness:
  "\<exists>d b'. resync [sample_offer CHR ''2''] (book_upsert (sample_offer CHR ''1'') empty_book) = (d, b')
     \<and> set (book_hashes b') = {ident CHR ''2''} \<and> set (rd_removed d) = {ident CHR ''1''}"
proof -
  let ?b = "book_upsert (sample_offer CHR ''1'') empty_book"
  have r: "book_reachable ?b" by (intro book_reachable.intros)
  obtain d b' where e: "resync [sample_offer CHR ''2''] ?b = (d, b')" by fastforce
  have "book_hashes ?b = [ident CHR ''1'']" by code_simp
  moreover have "ident CHR ''1'' \<noteq> ident CHR ''2''" "toLowerCase (so_offerHash (sample_offer CHR ''2'')) = ident CHR ''2''"
    by code_simp+
  ultimately show ?thesis using resync_replaces [OF r e, of "[]"] e by auto
qed

lemma nat_of_digits_pos: "0 < a \<Longrightarrow> 0 < foldl (\<lambda>a c. a * 10 + digit_val c) a s"
  by (induction s arbitrary: a) auto

lemma positive_decimal_value:
  assumes "positive_decimal s"
  shows "\<exists>n. BigInt s = Inr n \<and> 0 < n"
proof -
  from assms obtain c cs where s: "s = c # cs" "c \<noteq> CHR ''0''" "is_digit c" and d: "list_all is_digit s"
    by (cases s) (auto simp: positive_decimal_def)
  have "code_of c \<noteq> 48"
  proof
    assume "code_of c = 48"
    then have "char_of (code_of c) = (char_of (48 :: nat) :: char)" by (rule arg_cong)
    moreover have "(char_of (48 :: nat) :: char) = CHR ''0''" by code_simp
    ultimately show False using s(2) by simp
  qed
  with s(3) have "0 < digit_val c" by (auto simp: digit_val_def is_digit_def)
  then have "0 < nat_of_digits s" using nat_of_digits_pos [of "digit_val c" cs] by (simp add: nat_of_digits_def s(1))
  with BigInt_digits [OF d] show ?thesis by simp
qed

definition leg_typed :: "source_leg \<Rightarrow> bool" where
  "leg_typed l \<longleftrightarrow> isLowerHex64 (leg_token l) \<and> 0 < leg_amount l"

lemma parseTokenLeg_typed: "parseTokenLeg v = Some l \<Longrightarrow> leg_typed l"
  using positive_decimal_value
  by (fastforce simp: parseTokenLeg_def leg_typed_def hex_string_def text_of_def isHex64_toLowerCase
      split: json.splits if_splits sum.splits)

text \<open>
  A row admitted from the API is well typed: a lower-case 64-digit hash, tokens and
  nullifiers, positive amounts, and an expiry; anything else, unknown leg kinds included, is refused.
\<close>

theorem bookOfferFromApi_typed:
  "case bookOfferFromApi parseDate row of
     None \<Rightarrow> True
   | Some v \<Rightarrow> isLowerHex64 (so_offerHash v) \<and> list_all leg_typed (so_gives v) \<and> list_all leg_typed (so_wants v)
       \<and> list_all isLowerHex64 (so_inputNullifiers v) \<and> (\<exists>t. so_expiresAt v = Some t)"
proof (cases "bookOfferFromApi parseDate row")
  case (Some v)
  have legs: "list_all leg_typed (map (\<lambda>l. the (parseTokenLeg l)) ls)" if "\<not> list_ex (\<lambda>l. parseTokenLeg l = None) ls" for ls
    using that parseTokenLeg_typed by (auto simp: list_all_iff list_ex_iff)
  have nulls: "list_all isLowerHex64 (map (\<lambda>n. toLowerCase (text_of n)) ns)" if "\<not> list_ex (\<lambda>n. \<not> hex_string n) ns" for ns
    using that by (auto simp: list_all_iff list_ex_iff hex_string_def text_of_def isHex64_toLowerCase split: json.splits)
  have hash: "isLowerHex64 (toLowerCase (text_of j))" if "hex_string j" for j
    using that by (auto simp: hex_string_def text_of_def isHex64_toLowerCase split: json.splits)
  have stamp: "\<exists>t. toEpochMs parseDate j = Some t" if "isTimestamp parseDate j" for j
    using that by (auto simp: isTimestamp_def toEpochMs_def split: json.splits)
  from Some show ?thesis
    unfolding bookOfferFromApi_def Let_def
    by (auto split: if_splits json.splits intro!: legs nulls hash stamp)
qed simp

end
