(* ===== verification/Token_Sets.thy ===== *)
theory Token_Sets
  imports Main
begin

text \<open>
  Model of \<open>DisjointTokenSets\<close> (\<^verbatim>\<open>packages/solver-core/ladder-derivation.ts\<close>): a union-find
  forest with union by rank and full path compression. The pointer loops are
  \<open>partial_function\<close>s whose \<open>None\<close> is not returning an index; they are proved to return on every
  forest the class can build. The specification is the equivalence relation of the forest.
\<close>

section \<open>Operations\<close>

record disjoint_sets =
  ds_parent :: "nat list"
  ds_rank :: "nat list"

definition empty_sets :: disjoint_sets where
  "empty_sets = \<lparr>ds_parent = [], ds_rank = []\<rparr>"

definition add_set :: "disjoint_sets \<Rightarrow> nat \<times> disjoint_sets" where
  "add_set s = (let index = length (ds_parent s) in
     (index, \<lparr>ds_parent = ds_parent s @ [index], ds_rank = ds_rank s @ [0]\<rparr>))"

partial_function (option) find_root :: "nat list \<Rightarrow> nat \<Rightarrow> nat option" where
  "find_root parent root =
     (if length parent \<le> root then None
      else if parent ! root \<noteq> root then find_root parent (parent ! root)
      else Some root)"

partial_function (option) compress_path :: "nat list \<Rightarrow> nat \<Rightarrow> nat \<Rightarrow> nat list option" where
  "compress_path parent root cursor =
     (if length parent \<le> cursor then None
      else if parent ! cursor \<noteq> cursor
      then compress_path (parent[cursor := root]) root (parent ! cursor)
      else Some parent)"

definition find_set :: "disjoint_sets \<Rightarrow> nat \<Rightarrow> (nat \<times> disjoint_sets) option" where
  "find_set s v =
     (case find_root (ds_parent s) v of
        None \<Rightarrow> None
      | Some root \<Rightarrow>
          (case compress_path (ds_parent s) root v of
             None \<Rightarrow> None
           | Some parent \<Rightarrow> Some (root, s\<lparr>ds_parent := parent\<rparr>)))"

definition link_roots :: "nat \<Rightarrow> nat \<Rightarrow> disjoint_sets \<Rightarrow> disjoint_sets" where
  "link_roots l r s =
     (let (leftRoot, rightRoot) = (if ds_rank s ! l < ds_rank s ! r then (r, l) else (l, r));
          s1 = s\<lparr>ds_parent := (ds_parent s)[rightRoot := leftRoot]\<rparr>
      in if ds_rank s1 ! leftRoot = ds_rank s1 ! rightRoot
         then s1\<lparr>ds_rank := (ds_rank s1)[leftRoot := ds_rank s1 ! leftRoot + 1]\<rparr> else s1)"

definition union_sets :: "disjoint_sets \<Rightarrow> nat \<Rightarrow> nat \<Rightarrow> disjoint_sets option" where
  "union_sets s left right =
     (case find_set s left of
        None \<Rightarrow> None
      | Some (leftRoot, s1) \<Rightarrow>
          (case find_set s1 right of
             None \<Rightarrow> None
           | Some (rightRoot, s2) \<Rightarrow>
               Some (if leftRoot = rightRoot then s2 else link_roots leftRoot rightRoot s2)))"

section \<open>Roots\<close>

inductive has_root :: "nat list \<Rightarrow> nat \<Rightarrow> nat \<Rightarrow> bool" for parent where
  root: "i < length parent \<Longrightarrow> parent ! i = i \<Longrightarrow> has_root parent i i"
| step: "i < length parent \<Longrightarrow> parent ! i \<noteq> i \<Longrightarrow> has_root parent (parent ! i) r \<Longrightarrow> has_root parent i r"

inductive_cases has_rootE: "has_root parent i r"

inductive_simps has_root_out: "has_root parent i r"

text \<open>The forest invariant: parents in range, ranks strictly increasing towards the root.\<close>

definition forest :: "nat list \<Rightarrow> nat list \<Rightarrow> bool" where
  "forest parent rank \<longleftrightarrow> length rank = length parent
     \<and> (\<forall>i < length parent. parent ! i < length parent \<and> (parent ! i \<noteq> i \<longrightarrow> rank ! i < rank ! (parent ! i)))"

abbreviation wf_sets :: "disjoint_sets \<Rightarrow> bool" where
  "wf_sets s \<equiv> forest (ds_parent s) (ds_rank s)"

abbreviation root_of :: "disjoint_sets \<Rightarrow> nat \<Rightarrow> nat \<Rightarrow> bool" where
  "root_of s \<equiv> has_root (ds_parent s)"

definition same_set :: "disjoint_sets \<Rightarrow> nat \<Rightarrow> nat \<Rightarrow> bool" where
  "same_set s i j \<longleftrightarrow> (\<exists>r. root_of s i r \<and> root_of s j r)"

lemma has_root_fun: "has_root p i r \<Longrightarrow> has_root p i r' \<Longrightarrow> r = r'"
proof (induction arbitrary: r' rule: has_root.induct)
  case (root i)
  then show ?case by (metis has_rootE)
next
  case (step i r)
  then show ?case by (metis has_rootE)
qed

lemma has_root_range: "has_root p i r \<Longrightarrow> i < length p \<and> r < length p \<and> p ! r = r"
  by (induction rule: has_root.induct) auto

lemma has_root_self: "has_root p r r' \<Longrightarrow> p ! r = r \<Longrightarrow> r' = r"
  by (auto elim: has_rootE)

lemma has_root_rank: "has_root p i r \<Longrightarrow> forest p rk \<Longrightarrow> i = r \<or> rk ! i < rk ! r"
proof (induction rule: has_root.induct)
  case (step i r)
  then have "rk ! i < rk ! (p ! i)" by (auto simp: forest_def)
  with step show ?case by auto
qed simp

lemma rank_induct [consumes 2, case_names up]:
  assumes "forest p rk" "i < length p"
    and "\<And>i. i < length p \<Longrightarrow> (\<And>j. j < length p \<Longrightarrow> rk ! i < rk ! j \<Longrightarrow> P j) \<Longrightarrow> P i"
  shows "P i"
  using assms(2)
proof (induction "Max (set rk) - rk ! i" arbitrary: i rule: less_induct)
  case less
  have b: "rk ! j \<le> Max (set rk)" if "j < length p" for j
    using that assms(1) by (intro Max_ge) (auto simp: forest_def)
  show ?case
  proof (rule assms(3) [OF less(2)])
    fix j assume j: "j < length p" "rk ! i < rk ! j"
    with b [OF j(1)] have "Max (set rk) - rk ! j < Max (set rk) - rk ! i" by arith
    then show "P j" using j(1) by (rule less(1))
  qed
qed

lemma has_root_total:
  assumes "forest p rk" "i < length p"
  shows "\<exists>r. has_root p i r"
  using assms
proof (induction rule: rank_induct)
  case (up i)
  show ?case
  proof (cases "p ! i = i")
    case True
    with up(1) has_root.root show ?thesis by blast
  next
    case False
    with up(1) assms(1) have "p ! i < length p" "rk ! i < rk ! (p ! i)" by (auto simp: forest_def)
    from up(2) [OF this] has_root.step [OF up(1) False] show ?thesis by blast
  qed
qed

lemma find_root_correct: "has_root p i r \<Longrightarrow> find_root p i = Some r"
  by (induction rule: has_root.induct) (subst find_root.simps; simp)+

section \<open>Path compression keeps every root\<close>

lemma redirect_roots:
  assumes "has_root p c r" "p ! c \<noteq> c" "has_root p i s"
  shows "has_root (p[c := r]) i s"
  using assms(3)
proof (induction rule: has_root.induct)
  case (root i)
  with assms(2) have "i \<noteq> c" by auto
  with root show ?case by (intro has_root.root) auto
next
  case (step i s)
  have r: "r < length p" "p ! r = r" using has_root_range [OF assms(1)] by auto
  have "c \<noteq> r" using r(2) assms(2) by auto
  then have rr: "has_root (p[c := r]) r r" by (intro has_root.root) (use r in auto)
  show ?case
  proof (cases "i = c")
    case True
    have "s = r" using has_root_fun [OF has_root.step [OF step(1-3)]] assms(1) True by simp
    then show ?thesis by (simp, intro has_root.step [of i]) (use True step(1) rr \<open>c \<noteq> r\<close> in auto)
  next
    case False
    show ?thesis by (rule has_root.step) (use step False in auto)
  qed
qed

lemma redirect_forest:
  assumes "forest p rk" "has_root p c r"
  shows "forest (p[c := r]) rk"
  using assms(1) has_root_range [OF assms(2)] has_root_rank [OF assms(2,1)]
  by (auto simp: forest_def nth_list_update)

lemma redirect_iff:
  assumes "forest p rk" "has_root p c r" "p ! c \<noteq> c"
  shows "has_root (p[c := r]) i s \<longleftrightarrow> has_root p i s"
proof
  assume h: "has_root (p[c := r]) i s"
  then have "i < length p" using has_root_range by fastforce
  then obtain s' where s: "has_root p i s'" using has_root_total [OF assms(1)] by blast
  from redirect_roots [OF assms(2,3) s] h have "s' = s" by (rule has_root_fun)
  with s show "has_root p i s" by simp
qed (rule redirect_roots [OF assms(2,3)])

lemma compress_path_correct:
  assumes "forest p rk" "has_root p c r"
  shows "\<exists>p'. compress_path p r c = Some p' \<and> length p' = length p \<and> forest p' rk
    \<and> (\<forall>i s. has_root p' i s \<longleftrightarrow> has_root p i s)"
proof -
  have "c < length p" using has_root_range [OF assms(2)] by simp
  with assms(1) show ?thesis
    using assms
  proof (induction "Max (set rk) - rk ! c" arbitrary: p c rule: less_induct)
    case less
    show ?case
    proof (cases "p ! c = c")
      case True
      with less show ?thesis by (subst compress_path.simps) auto
    next
      case False
      let ?q = "p[c := r]" and ?n = "p ! c"
      note f = redirect_forest [OF less(2,5)] and iff = redirect_iff [OF less(2,5) False]
      have n: "?n < length p" "rk ! c < rk ! ?n" using less(2,3) False by (auto simp: forest_def)
      have "rk ! ?n \<le> Max (set rk)" using n(1) less(2) by (intro Max_ge) (auto simp: forest_def)
      with n have m: "Max (set rk) - rk ! ?n < Max (set rk) - rk ! c" by simp
      have nr: "has_root p ?n r" using less(5) False by (auto elim: has_rootE)
      have "\<exists>p'. compress_path ?q r ?n = Some p' \<and> length p' = length ?q \<and> forest p' rk
          \<and> (\<forall>i s. has_root p' i s \<longleftrightarrow> has_root ?q i s)"
        using less(1) [OF m f _ f] n(1) nr iff by simp
      then show ?thesis using less(3) False iff by (subst compress_path.simps) auto
    qed
  qed
qed

lemma find_set_spec:
  assumes "wf_sets s" "i < length (ds_parent s)"
  obtains r s' where "find_set s i = Some (r, s')" "root_of s i r" "wf_sets s'"
    "length (ds_parent s') = length (ds_parent s)" "\<And>j t. root_of s' j t \<longleftrightarrow> root_of s j t"
    "ds_rank s' = ds_rank s"
proof -
  obtain r where r: "root_of s i r" using has_root_total [OF assms] by blast
  from compress_path_correct [OF assms(1) r] obtain p where
    "compress_path (ds_parent s) r i = Some p" "length p = length (ds_parent s)" "forest p (ds_rank s)"
    "\<forall>j t. has_root p j t \<longleftrightarrow> root_of s j t" by blast
  with that [of r "s\<lparr>ds_parent := p\<rparr>"] r find_root_correct [OF r] show thesis
    by (simp add: find_set_def)
qed

section \<open>Union merges two classes\<close>

lemma attach_roots:
  assumes "has_root p i s" "p ! rr = rr" "p ! lr = lr" "lr < length p" "lr \<noteq> rr"
  shows "has_root (p[rr := lr]) i (if s = rr then lr else s)"
  using assms(1)
proof (induction rule: has_root.induct)
  case (root i)
  have l: "has_root (p[rr := lr]) lr lr" using assms(3-5) by (intro has_root.root) auto
  show ?case
  proof (cases "i = rr")
    case True
    have "has_root (p[rr := lr]) rr lr"
      by (rule has_root.step) (use root(1) True assms(5) l in simp_all)
    with True show ?thesis by simp
  next
    case False
    then have "has_root (p[rr := lr]) i i" by (intro has_root.root) (use root in auto)
    with False show ?thesis by simp
  qed
next
  case (step i s)
  then have "i \<noteq> rr" using assms(2) by auto
  show ?case by (rule has_root.step) (use step \<open>i \<noteq> rr\<close> in auto)
qed

lemma link_roots_spec:
  assumes "wf_sets s" "ds_parent s ! l = l" "ds_parent s ! r = r"
    "l < length (ds_parent s)" "r < length (ds_parent s)" "l \<noteq> r"
  shows "wf_sets (link_roots l r s)" "length (ds_parent (link_roots l r s)) = length (ds_parent s)"
    "\<exists>m \<in> {l, r}. \<forall>i t. root_of s i t \<longrightarrow> root_of (link_roots l r s) i (if t \<in> {l, r} then m else t)"
proof -
  obtain a b where ab: "(if ds_rank s ! l < ds_rank s ! r then (r, l) else (l, r)) = (a, b)" by fastforce
  then have s: "{a, b} = {l, r}" and rk: "ds_rank s ! b \<le> ds_rank s ! a" by (auto split: if_splits)
  with assms have f: "ds_parent s ! a = a" "ds_parent s ! b = b" "a < length (ds_parent s)"
    "b < length (ds_parent s)" "a \<noteq> b" by (auto simp: doubleton_eq_iff)
  have p: "ds_parent (link_roots l r s) = (ds_parent s)[b := a]"
    and rnk: "ds_rank (link_roots l r s) =
      (if ds_rank s ! a = ds_rank s ! b then (ds_rank s)[a := ds_rank s ! a + 1] else ds_rank s)"
    by (simp_all add: link_roots_def ab Let_def)
  show "length (ds_parent (link_roots l r s)) = length (ds_parent s)" by (simp add: p)
  show "wf_sets (link_roots l r s)"
    unfolding forest_def
  proof (intro conjI allI impI)
    show "length (ds_rank (link_roots l r s)) = length (ds_parent (link_roots l r s))"
      using assms(1) by (simp add: forest_def p rnk)
    fix i assume "i < length (ds_parent (link_roots l r s))"
    then have i: "i < length (ds_parent s)" by (simp add: p)
    with assms(1) have o: "ds_parent s ! i < length (ds_parent s)" "ds_parent s ! i \<noteq> i \<Longrightarrow> ds_rank s ! i < ds_rank s ! (ds_parent s ! i)"
      "length (ds_rank s) = length (ds_parent s)" by (auto simp: forest_def)
    show "ds_parent (link_roots l r s) ! i < length (ds_parent (link_roots l r s))"
      using i o f by (simp add: p nth_list_update)
    assume ch: "ds_parent (link_roots l r s) ! i \<noteq> i"
    show "ds_rank (link_roots l r s) ! i < ds_rank (link_roots l r s) ! (ds_parent (link_roots l r s) ! i)"
    proof (cases "i = b")
      case True
      with i o f rk show ?thesis by (simp add: p rnk nth_list_update)
    next
      case False
      with ch i have pi: "ds_parent s ! i \<noteq> i" by (simp add: p)
      with f have "i \<noteq> a" by auto
      with o(2) [OF pi] False i o f show ?thesis by (simp add: p rnk nth_list_update)
    qed
  qed
  have "root_of (link_roots l r s) i (if t \<in> {l, r} then a else t)" if "root_of s i t" for i t
    using attach_roots [OF that f(2,1,3,5)] s by (auto simp: p doubleton_eq_iff)
  moreover have "a \<in> {l, r}" using s by auto
  ultimately show "\<exists>m \<in> {l, r}. \<forall>i t. root_of s i t \<longrightarrow> root_of (link_roots l r s) i (if t \<in> {l, r} then m else t)"
    by blast
qed

lemma same_set_roots: "root_of s i t \<Longrightarrow> root_of s j u \<Longrightarrow> same_set s i j \<longleftrightarrow> t = u"
  unfolding same_set_def by (metis has_root_fun)

lemma same_set_total: "wf_sets s \<Longrightarrow> i < length (ds_parent s) \<Longrightarrow> same_set s i i"
  using has_root_total by (auto simp: same_set_def)

lemma same_set_sym: "same_set s i j \<Longrightarrow> same_set s j i"
  by (auto simp: same_set_def)

lemma same_set_trans: "same_set s i j \<Longrightarrow> same_set s j k \<Longrightarrow> same_set s i k"
  unfolding same_set_def by (metis has_root_fun)

lemma same_set_range: "same_set s i j \<Longrightarrow> i < length (ds_parent s) \<and> j < length (ds_parent s)"
  by (auto simp: same_set_def dest: has_root_range)

lemma union_sets_spec:
  assumes "wf_sets s" "a < length (ds_parent s)" "b < length (ds_parent s)"
  obtains s' where "union_sets s a b = Some s'" "wf_sets s'" "length (ds_parent s') = length (ds_parent s)"
    "\<And>i j. same_set s' i j \<longleftrightarrow> same_set s i j \<or> (same_set s i a \<and> same_set s b j) \<or> (same_set s i b \<and> same_set s a j)"
proof -
  obtain ra s1 where 1: "find_set s a = Some (ra, s1)" "root_of s a ra" "wf_sets s1"
    "length (ds_parent s1) = length (ds_parent s)" "\<And>j t. root_of s1 j t \<longleftrightarrow> root_of s j t"
    using find_set_spec [OF assms(1,2)] by metis
  obtain rb s2 where 2: "find_set s1 b = Some (rb, s2)" "root_of s1 b rb" "wf_sets s2"
    "length (ds_parent s2) = length (ds_parent s1)" "\<And>j t. root_of s2 j t \<longleftrightarrow> root_of s1 j t"
    using find_set_spec [OF 1(3), of b] assms(3) 1(4) by metis
  have ss: "same_set s2 i j \<longleftrightarrow> same_set s i j" for i j using 1(5) 2(5) by (simp add: same_set_def)
  show thesis
  proof (cases "ra = rb")
    case True
    then have "same_set s a b" using 1(2,5) 2(2) by (auto simp: same_set_def)
    then have m: "same_set s2 i j \<longleftrightarrow> same_set s i j \<or> (same_set s i a \<and> same_set s b j) \<or> (same_set s i b \<and> same_set s a j)" for i j
      unfolding ss using same_set_trans same_set_sym by blast
    have "union_sets s a b = Some s2" using True 1(1) 2(1) by (simp add: union_sets_def)
    then show thesis by (rule that) (use 1(4) 2(3,4) m in simp_all)
  next
    case False
    let ?u = "link_roots ra rb s2"
    have r: "root_of s2 a ra" "root_of s2 b rb" using 1(2,5) 2(2,5) by auto
    have "root_of s2 ra ra" "root_of s2 rb rb"
      using has_root_range [OF r(1)] has_root_range [OF r(2)] by (auto intro: has_root.root)
    note lk = link_roots_spec [OF 2(3), of ra rb] 
    have ok: "wf_sets ?u" "length (ds_parent ?u) = length (ds_parent s2)"
      "\<exists>m \<in> {ra, rb}. \<forall>i t. root_of s2 i t \<longrightarrow> root_of ?u i (if t \<in> {ra, rb} then m else t)"
      using lk has_root_range [OF r(1)] has_root_range [OF r(2)] False by auto
    then obtain m where m: "m \<in> {ra, rb}"
      "\<And>i t. root_of s2 i t \<Longrightarrow> root_of ?u i (if t \<in> {ra, rb} then m else t)" by blast
    have "same_set ?u i j \<longleftrightarrow> same_set s2 i j \<or> (same_set s2 i a \<and> same_set s2 b j) \<or> (same_set s2 i b \<and> same_set s2 a j)"
      for i j
    proof (cases "i < length (ds_parent s2) \<and> j < length (ds_parent s2)")
      case False
      then show ?thesis using same_set_range [of ?u] same_set_range [of s2] ok(2) by metis
    next
      case True
      then obtain t u where t: "root_of s2 i t" "root_of s2 j u" using has_root_total [OF 2(3)] by blast
      note same_set_roots [OF t(1) r(1)] same_set_roots [OF r(2) t(2)] same_set_roots [OF t(1) r(2)]
        same_set_roots [OF r(1) t(2)] same_set_roots [OF t] same_set_roots [OF m(2) [OF t(1)] m(2) [OF t(2)]]
      with m(1) show ?thesis by auto
    qed
    then have m: "same_set ?u i j \<longleftrightarrow> same_set s i j \<or> (same_set s i a \<and> same_set s b j) \<or> (same_set s i b \<and> same_set s a j)" for i j
      unfolding ss .
    have "union_sets s a b = Some ?u" using False 1(1) 2(1) by (simp add: union_sets_def)
    then show thesis by (rule that) (use 1(4) 2(4) ok(1,2) m in simp_all)
  qed
qed

lemma add_set_spec:
  assumes "wf_sets s" "add_set s = (n, s')"
  shows "n = length (ds_parent s)" "wf_sets s'" "length (ds_parent s') = Suc n"
    "same_set s' i j \<longleftrightarrow> same_set s i j \<or> (i = n \<and> j = n)"
proof -
  from assms(2) have d: "n = length (ds_parent s)" "ds_parent s' = ds_parent s @ [n]" "ds_rank s' = ds_rank s @ [0]"
    by (auto simp: add_set_def Let_def)
  then show "n = length (ds_parent s)" "length (ds_parent s') = Suc n" by simp_all
  show w: "wf_sets s'" using assms(1) d by (auto simp: forest_def nth_append less_Suc_eq)
  have old: "root_of s' i t" if "root_of s i t" for i t
    using that by (induction rule: has_root.induct) (auto simp: d nth_append intro: has_root.intros)
  have new: "root_of s' n n" by (rule has_root.root) (simp_all add: d)
  show "same_set s' i j \<longleftrightarrow> same_set s i j \<or> (i = n \<and> j = n)"
  proof
    assume h: "same_set s' i j"
    then have "i < Suc n" "j < Suc n" using same_set_range [OF h] d by auto
    moreover have "\<exists>t. root_of s k t \<and> t < n" if "k < n" for k
      using has_root_total [OF assms(1), of k] that d(1) has_root_range by fastforce
    ultimately show "same_set s i j \<or> (i = n \<and> j = n)"
      using h old new unfolding same_set_def by (metis has_root_fun less_SucE less_irrefl)
  qed (use old new in \<open>auto simp: same_set_def\<close>)
qed

lemma empty_sets_spec [simp]: "wf_sets empty_sets" "\<not> same_set empty_sets i j" "ds_parent empty_sets = []"
  by (auto simp: empty_sets_def forest_def same_set_def dest: has_root_range)

end
