(* ===== verification/Ladder_Discovery.thy ===== *)
theory Ladder_Discovery
  imports Ladder_Limits Token_Sets "HOL-Library.AList"
begin

text \<open>
  Model of \<open>buildDiscoveryGraph\<close> (\<^verbatim>\<open>packages/solver-core/ladder-derivation.ts\<close>): token indices,
  weak components by union-find, and Kahn's removal marking the components that may hold a
  directed cycle, every step charged to the discovery budget. A budgeted computation returns a
  value or the reason it stopped for; \<open>None\<close> stands for a run without a value (a pointer loop
  that does not end, or a failed \<open>!\<close> assertion), which is proved never to happen.
\<close>

section \<open>Budgeted computations\<close>

type_synonym 'a budgeted = "ladder_diagnostics \<Rightarrow> ((ladder_reason + 'a) \<times> ladder_diagnostics) option"

definition returnB :: "'a \<Rightarrow> 'a budgeted" where
  "returnB x d = Some (Inr x, d)"

definition bindB :: "'a budgeted \<Rightarrow> ('a \<Rightarrow> 'b budgeted) \<Rightarrow> 'b budgeted" where
  "bindB m f d = (case m d of
     None \<Rightarrow> None
   | Some (Inl r, d1) \<Rightarrow> Some (Inl r, d1)
   | Some (Inr x, d1) \<Rightarrow> f x d1)"

definition chargesB :: "budget_context \<Rightarrow> nat \<Rightarrow> unit budgeted" where
  "chargesB ctx work d = (case charge ctx work Discovery d of
     (Some r, d1) \<Rightarrow> Some (Inl r, d1)
   | (None, d1) \<Rightarrow> Some (Inr (), d1))"

abbreviation chargeB :: "budget_context \<Rightarrow> unit budgeted" where
  "chargeB ctx \<equiv> chargesB ctx 1"

definition chargeSortB :: "budget_context \<Rightarrow> nat \<Rightarrow> unit budgeted" where
  "chargeSortB ctx len d = (case chargeDeterministicSort ctx len d of
     (Some r, d1) \<Rightarrow> Some (Inl r, d1)
   | (None, d1) \<Rightarrow> Some (Inr (), d1))"

definition liftB :: "'a option \<Rightarrow> 'a budgeted" where
  "liftB m d = (case m of None \<Rightarrow> None | Some x \<Rightarrow> Some (Inr x, d))"

fun foldB :: "('x \<Rightarrow> 's \<Rightarrow> 's budgeted) \<Rightarrow> 'x list \<Rightarrow> 's \<Rightarrow> 's budgeted" where
  "foldB f [] s = returnB s"
| "foldB f (x # xs) s = bindB (f x s) (foldB f xs)"

section \<open>The graph\<close>

record discovery_component =
  dc_root :: nat
  dc_key :: string
  dc_tokens :: "string list"
  dc_cyclic :: bool

record discovery_graph =
  gr_componentByToken :: "string \<Rightarrow> discovery_component option"
  gr_components :: "discovery_component list"
  gr_indexByToken :: "string \<Rightarrow> nat option"
  gr_tokenAt :: "string list"

record token_index =
  ti_sets :: disjoint_sets
  ti_index :: "string \<Rightarrow> nat option"
  ti_tokenAt :: "string list"

definition indexFor :: "budget_context \<Rightarrow> string \<Rightarrow> token_index \<Rightarrow> (nat \<times> token_index) budgeted" where
  "indexFor ctx token ti = (case ti_index ti token of
     Some index \<Rightarrow> returnB (index, ti)
   | None \<Rightarrow> bindB (chargeB ctx) (\<lambda>_.
       let (index, sets) = add_set (ti_sets ti)
       in returnB (index, ti\<lparr>ti_sets := sets, ti_index := (ti_index ti)(token \<mapsto> index),
                           ti_tokenAt := ti_tokenAt ti @ [token]\<rparr>)))"

definition connect_offer :: "budget_context \<Rightarrow> crossable \<Rightarrow> token_index \<Rightarrow> token_index budgeted" where
  "connect_offer ctx offer ti =
     bindB (indexFor ctx (cr_tokenIn offer) ti) (\<lambda>(i, ti1).
     bindB (indexFor ctx (cr_tokenOut offer) ti1) (\<lambda>(out, ti2).
     bindB (chargeB ctx) (\<lambda>_.
     bindB (liftB (union_sets (ti_sets ti2) i out)) (\<lambda>sets.
       returnB (ti2\<lparr>ti_sets := sets\<rparr>)))))"

type_synonym components_by_root = "(nat \<times> discovery_component) list"

definition place_token :: "budget_context \<Rightarrow> string list \<Rightarrow> nat \<Rightarrow> disjoint_sets \<times> components_by_root
    \<Rightarrow> (disjoint_sets \<times> components_by_root) budgeted" where
  "place_token ctx tokenAt index st = (case st of (sets, byRoot) \<Rightarrow>
     bindB (chargeB ctx) (\<lambda>_.
     bindB (liftB (find_set sets index)) (\<lambda>(root, sets1).
       let token = tokenAt ! index in
       returnB (sets1, case map_of byRoot root of
           None \<Rightarrow> byRoot @ [(root, \<lparr>dc_root = root, dc_key = token, dc_tokens = [token], dc_cyclic = False\<rparr>)]
         | Some component \<Rightarrow> AList.update root
             (component\<lparr>dc_tokens := dc_tokens component @ [token],
                       dc_key := (if token < dc_key component then token else dc_key component)\<rparr>) byRoot))))"

text \<open>Kahn's removal. Edges run from an offer's input token to its output token.\<close>

definition count_edge :: "budget_context \<Rightarrow> (string \<Rightarrow> nat option) \<Rightarrow> crossable
    \<Rightarrow> crossable list \<times> nat list list \<times> int list \<Rightarrow> (crossable list \<times> nat list list \<times> int list) budgeted" where
  "count_edge ctx indexByToken offer st = (case st of (indexed, outgoing, indegree) \<Rightarrow>
     bindB (chargeB ctx) (\<lambda>_.
     bindB (liftB (indexByToken (cr_tokenIn offer))) (\<lambda>i.
     bindB (liftB (indexByToken (cr_tokenOut offer))) (\<lambda>out.
       returnB (indexed @ [offer\<lparr>cr_tokenInIndex := int i, cr_tokenOutIndex := int out\<rparr>],
                outgoing[i := outgoing ! i @ [out]],
                indegree[out := indegree ! out + 1])))))"

definition seed_vertex :: "budget_context \<Rightarrow> int list \<Rightarrow> nat \<Rightarrow> nat list \<Rightarrow> nat list budgeted" where
  "seed_vertex ctx indegree index queue =
     bindB (chargeB ctx) (\<lambda>_. returnB (if indegree ! index = 0 then queue @ [index] else queue))"

definition relax_edge :: "budget_context \<Rightarrow> nat \<Rightarrow> nat list \<times> int list \<Rightarrow> (nat list \<times> int list) budgeted" where
  "relax_edge ctx output st = (case st of (queue, indegree) \<Rightarrow>
     bindB (chargeB ctx) (\<lambda>_.
       let indegree1 = indegree[output := indegree ! output - 1]
       in returnB (if indegree1 ! output = 0 then queue @ [output] else queue, indegree1)))"

lemma charge_Suc_gap:
  assumes "charge ctx (Suc 0) kind d = (None, d1)"
  shows "dg_discoveryWork d < bc_maxDiscoveryWork ctx \<and> dg_discoveryWork d1 = dg_discoveryWork d + 1"
proof -
  obtain r d2 where u: "charge_unit ctx kind d = (r, d2)" by fastforce
  with assms have r: "r = None" "d2 = d1" by (cases r; simp)+
  have "dg_discoveryWork d < bc_maxDiscoveryWork ctx"
    using u r by (auto simp: charge_unit_def split: if_splits)
  with charge_unit_facts(3) [OF u] r show ?thesis by simp
qed

lemma charge_gap: "charge ctx 1 kind d = (None, d1) \<Longrightarrow>
    dg_discoveryWork d < bc_maxDiscoveryWork ctx \<and> dg_discoveryWork d1 = dg_discoveryWork d + 1"
  using charge_Suc_gap by simp

text \<open>What every budgeted computation does to the diagnostics: only work and polls move, upwards.\<close>

definition work_moved :: "budget_context \<Rightarrow> ladder_diagnostics \<Rightarrow> ladder_diagnostics \<Rightarrow> bool" where
  "work_moved ctx d d' \<longleftrightarrow> dg_discoveryWork d \<le> dg_discoveryWork d'
     \<and> (dg_discoveryWork d \<le> bc_maxDiscoveryWork ctx \<longrightarrow> dg_discoveryWork d' \<le> bc_maxDiscoveryWork ctx)
     \<and> dg_pairs d' = dg_pairs d \<and> dg_stopReason d' = dg_stopReason d
     \<and> dg_candidatePairsExamined d' = dg_candidatePairsExamined d
     \<and> dg_sourceOffersScanned d' = dg_sourceOffersScanned d"

definition stop_reasons :: "ladder_reason set" where
  "stop_reasons = {R_discovery_work_cap, R_aborted, R_abort_check_failed}"

lemma work_moved_refl [simp]: "work_moved ctx d d"
  by (simp add: work_moved_def)

lemma work_moved_trans: "work_moved ctx d d1 \<Longrightarrow> work_moved ctx d1 d2 \<Longrightarrow> work_moved ctx d d2"
  by (auto simp: work_moved_def)

lemma charge_mono: "charge ctx work kind d = (r, d') \<Longrightarrow> dg_discoveryWork d \<le> dg_discoveryWork d'"
proof (induction ctx work kind d arbitrary: r d' rule: charge.induct)
  case (2 ctx work kind d)
  obtain u d1 where u: "charge_unit ctx kind d = (u, d1)" by fastforce
  show ?case
  proof (cases u)
    case None
    with "2.prems" u have "charge ctx work kind d1 = (r, d')" by simp
    from "2.IH" [OF u [symmetric] None this] charge_unit_facts(2) [OF u] show ?thesis by linarith
  next
    case (Some x)
    with "2.prems" u charge_unit_facts(2) [OF u] show ?thesis by simp
  qed
qed simp

lemma charge_moves:
  assumes "charge ctx work kind d = (r, d')"
  shows "work_moved ctx d d'" "r = Some x \<Longrightarrow> x \<in> stop_reasons"
  using charge_mono [OF assms] charge_discoveryWork [OF assms] charge_fields [OF assms]
    charge_reasons [of ctx work kind d x d'] assms
  by (auto simp: work_moved_def stop_reasons_def)

text \<open>
  The weakest-precondition view: \<open>m\<close> always returns, moves only the work, stops for a budget
  reason only, and a value it returns satisfies \<open>Q\<close>.
\<close>

definition runs :: "budget_context \<Rightarrow> 'a budgeted \<Rightarrow> ('a \<Rightarrow> bool) \<Rightarrow> bool" where
  "runs ctx m Q \<longleftrightarrow> (\<forall>d. \<exists>r d'. m d = Some (r, d') \<and> work_moved ctx d d'
     \<and> (case r of Inl reason \<Rightarrow> reason \<in> stop_reasons | Inr x \<Rightarrow> Q x))"

lemma runs_return: "Q x \<Longrightarrow> runs ctx (returnB x) Q"
  by (simp add: runs_def returnB_def)

lemma runs_bind:
  assumes "runs ctx m P" "\<And>x. P x \<Longrightarrow> runs ctx (f x) Q"
  shows "runs ctx (bindB m f) Q"
  unfolding runs_def
proof
  fix d
  obtain r d1 where m: "m d = Some (r, d1)" "work_moved ctx d d1"
    "case r of Inl reason \<Rightarrow> reason \<in> stop_reasons | Inr x \<Rightarrow> P x"
    using assms(1) unfolding runs_def by meson
  show "\<exists>r d'. bindB m f d = Some (r, d') \<and> work_moved ctx d d'
     \<and> (case r of Inl reason \<Rightarrow> reason \<in> stop_reasons | Inr x \<Rightarrow> Q x)"
  proof (cases r)
    case (Inl reason)
    with m show ?thesis by (simp add: bindB_def)
  next
    case (Inr x)
    with m assms(2) have "runs ctx (f x) Q" by simp
    then obtain r2 d2 where "f x d1 = Some (r2, d2)" "work_moved ctx d1 d2"
      "case r2 of Inl reason \<Rightarrow> reason \<in> stop_reasons | Inr x \<Rightarrow> Q x" unfolding runs_def by meson
    with m Inr work_moved_trans show ?thesis by (auto simp: bindB_def)
  qed
qed

lemma runs_charges: "runs ctx (chargesB ctx work) (\<lambda>_. True)"
  unfolding runs_def
proof
  fix d
  obtain r d' where c: "charge ctx work Discovery d = (r, d')" by fastforce
  with charge_moves [OF c] show "\<exists>r d'. chargesB ctx work d = Some (r, d') \<and> work_moved ctx d d'
      \<and> (case r of Inl reason \<Rightarrow> reason \<in> stop_reasons | Inr x \<Rightarrow> True)"
    by (cases r) (auto simp: chargesB_def)
qed

lemma runs_sort: "runs ctx (chargeSortB ctx len) (\<lambda>_. True)"
  using runs_charges [of ctx "len * ceil_log2 len"]
  by (auto simp: runs_def chargeSortB_def chargeDeterministicSort_def chargesB_def)

lemma runs_lift: "m = Some x \<Longrightarrow> Q x \<Longrightarrow> runs ctx (liftB m) Q"
  by (simp add: runs_def liftB_def)

lemma runs_mono:
  assumes "runs ctx m P" "\<And>x. P x \<Longrightarrow> Q x"
  shows "runs ctx m Q"
  unfolding runs_def
proof
  fix d
  obtain r d1 where "m d = Some (r, d1)" "work_moved ctx d d1"
    "case r of Inl reason \<Rightarrow> reason \<in> stop_reasons | Inr x \<Rightarrow> P x"
    using assms(1) unfolding runs_def by meson
  with assms(2) show "\<exists>r d1. m d = Some (r, d1) \<and> work_moved ctx d d1
      \<and> (case r of Inl reason \<Rightarrow> reason \<in> stop_reasons | Inr x \<Rightarrow> Q x)"
    by (cases r) auto
qed

lemma runs_charge_then: "runs ctx m Q \<Longrightarrow> runs ctx (bindB (chargesB ctx work) (\<lambda>_. m)) Q"
  by (rule runs_bind [OF runs_charges])

lemma runs_fold_from:
  assumes "P done s"
    and "\<And>a x b s. done @ xs = a @ x # b \<Longrightarrow> P a s \<Longrightarrow> runs ctx (f x s) (P (a @ [x]))"
  shows "runs ctx (foldB f xs s) (P (done @ xs))"
  using assms
proof (induction xs arbitrary: "done" s)
  case Nil
  then show ?case by (simp add: runs_return)
next
  case (Cons x xs)
  have "runs ctx (f x s) (P (done @ [x]))" by (rule Cons.prems(2)) (use Cons.prems(1) in auto)
  then have "runs ctx (bindB (f x s) (foldB f xs)) (P ((done @ [x]) @ xs))"
  proof (rule runs_bind)
    fix s' assume "P (done @ [x]) s'"
    then show "runs ctx (foldB f xs s') (P ((done @ [x]) @ xs))"
      by (rule Cons.IH) (use Cons.prems(2) in simp)
  qed
  then show ?case by simp
qed

lemma runs_fold:
  assumes "P [] s" "\<And>a x b s. xs = a @ x # b \<Longrightarrow> P a s \<Longrightarrow> runs ctx (f x s) (P (a @ [x]))"
  shows "runs ctx (foldB f xs s) (P xs)"
  using runs_fold_from [of P "[]" s xs] assms by simp

section \<open>Kahn's loop\<close>

lemma runs_value: "runs ctx m Q \<Longrightarrow> m d = Some (r, d') \<Longrightarrow> work_moved ctx d d'"
  by (fastforce simp: runs_def dest: spec [of _ d])

lemma relax_mono:
  assumes "foldB (relax_edge ctx) xs st d = Some (r, d')"
  shows "dg_discoveryWork d \<le> dg_discoveryWork d'"
proof -
  have "runs ctx (foldB (relax_edge ctx) xs st) (\<lambda>_. True)"
    by (rule runs_fold) (auto simp: relax_edge_def Let_def split: prod.split intro!: runs_charge_then runs_return)
  from runs_value [OF this assms] show ?thesis by (simp add: work_moved_def)
qed

text \<open>Every iteration is charged, so the loop ends by its budget alone.\<close>

function kahn_loop :: "budget_context \<Rightarrow> nat list list \<Rightarrow> nat list \<Rightarrow> nat \<Rightarrow> int list
    \<Rightarrow> int list budgeted" where
  "kahn_loop ctx outgoing queue cursor indegree d =
     (if cursor < length queue then
        (case charge ctx 1 Discovery d of
           (Some r, d1) \<Rightarrow> Some (Inl r, d1)
         | (None, d1) \<Rightarrow>
             (case foldB (relax_edge ctx) (outgoing ! (queue ! cursor)) (queue, indegree) d1 of
                None \<Rightarrow> None
              | Some (Inl r, d2) \<Rightarrow> Some (Inl r, d2)
              | Some (Inr (queue1, indegree1), d2) \<Rightarrow>
                  kahn_loop ctx outgoing queue1 (Suc cursor) indegree1 d2))
      else Some (Inr indegree, d))"
  by pat_completeness auto
termination
  by (relation "measure (\<lambda>(ctx, outgoing, queue, cursor, indegree, d).
        nat (bc_maxDiscoveryWork ctx - dg_discoveryWork d))")
    (auto simp del: charge.simps One_nat_def dest!: charge_gap [OF sym] relax_mono)

definition mark_cyclic :: "budget_context \<Rightarrow> int list \<Rightarrow> nat \<Rightarrow> disjoint_sets \<times> components_by_root
    \<Rightarrow> (disjoint_sets \<times> components_by_root) budgeted" where
  "mark_cyclic ctx indegree index st = (case st of (sets, byRoot) \<Rightarrow>
     bindB (chargeB ctx) (\<lambda>_.
       if indegree ! index > 0 then
         bindB (liftB (find_set sets index)) (\<lambda>(root, sets1).
         bindB (liftB (map_of byRoot root)) (\<lambda>component.
           returnB (sets1, AList.update root (component\<lparr>dc_cyclic := True\<rparr>) byRoot)))
       else returnB st))"

definition sort_tokens :: "budget_context \<Rightarrow> discovery_component
    \<Rightarrow> discovery_component list \<times> (string \<Rightarrow> discovery_component option)
    \<Rightarrow> (discovery_component list \<times> (string \<Rightarrow> discovery_component option)) budgeted" where
  "sort_tokens ctx component st = (case st of (components, byToken) \<Rightarrow>
     bindB (chargeSortB ctx (length (dc_tokens component))) (\<lambda>_.
       let sorted = component\<lparr>dc_tokens := sort (dc_tokens component)\<rparr>
       in returnB (components @ [sorted], fold (\<lambda>token m. m(token \<mapsto> sorted)) (dc_tokens sorted) byToken)))"

text \<open>
  The offers' index fields are assigned in place; the function returns the graph and the offers
  so updated.
\<close>

definition index_tokens :: "budget_context \<Rightarrow> crossable list \<Rightarrow> token_index budgeted" where
  "index_tokens ctx offers = foldB (connect_offer ctx) offers
     \<lparr>ti_sets = empty_sets, ti_index = (\<lambda>_. None), ti_tokenAt = []\<rparr>"

definition kahn_indegrees :: "budget_context \<Rightarrow> (string \<Rightarrow> nat option) \<Rightarrow> nat \<Rightarrow> crossable list
    \<Rightarrow> (crossable list \<times> int list) budgeted" where
  "kahn_indegrees ctx indexByToken n offers =
     bindB (foldB (count_edge ctx indexByToken) offers ([], replicate n [], replicate n 0))
       (\<lambda>(indexed, outgoing, indegree).
     bindB (foldB (seed_vertex ctx indegree) [0..<length indegree] []) (\<lambda>queue.
     bindB (kahn_loop ctx outgoing queue 0 indegree) (\<lambda>indegree1.
       returnB (indexed, indegree1))))"

definition buildDiscoveryGraph ::
    "crossable list \<Rightarrow> budget_context \<Rightarrow> (discovery_graph \<times> crossable list) budgeted" where
  "buildDiscoveryGraph offers ctx =
     bindB (index_tokens ctx offers) (\<lambda>ti.
     bindB (foldB (place_token ctx (ti_tokenAt ti)) [0..<length (ti_tokenAt ti)] (ti_sets ti, []))
       (\<lambda>(sets, byRoot).
     bindB (kahn_indegrees ctx (ti_index ti) (length (ti_tokenAt ti)) offers) (\<lambda>(indexed, indegree).
     bindB (foldB (mark_cyclic ctx indegree) [0..<length indegree] (sets, byRoot)) (\<lambda>(sets1, byRoot1).
     bindB (chargeSortB ctx (length byRoot1)) (\<lambda>_.
     bindB (foldB (sort_tokens ctx) (sort_key dc_key (map snd byRoot1)) ([], \<lambda>_. None))
       (\<lambda>(components, byToken).
       returnB (\<lparr>gr_componentByToken = byToken, gr_components = components,
                 gr_indexByToken = ti_index ti, gr_tokenAt = ti_tokenAt ti\<rparr>, indexed)))))))"

section \<open>Token indices and classes\<close>

text \<open>The classes of the specification: the equivalence generated by the offers.\<close>

inductive linked :: "crossable list \<Rightarrow> string \<Rightarrow> string \<Rightarrow> bool" for offers where
  offer: "c \<in> set offers \<Longrightarrow> linked offers (cr_tokenIn c) (cr_tokenOut c)"
| self: "c \<in> set offers \<Longrightarrow> t = cr_tokenIn c \<or> t = cr_tokenOut c \<Longrightarrow> linked offers t t"
| sym: "linked offers t u \<Longrightarrow> linked offers u t"
| trans: "linked offers t u \<Longrightarrow> linked offers u v \<Longrightarrow> linked offers t v"

definition index_ok :: "token_index \<Rightarrow> bool" where
  "index_ok ti \<longleftrightarrow> wf_sets (ti_sets ti) \<and> length (ds_parent (ti_sets ti)) = length (ti_tokenAt ti)
     \<and> distinct (ti_tokenAt ti)
     \<and> (\<forall>t i. ti_index ti t = Some i \<longleftrightarrow> i < length (ti_tokenAt ti) \<and> ti_tokenAt ti ! i = t)"

definition token_linked :: "token_index \<Rightarrow> string \<Rightarrow> string \<Rightarrow> bool" where
  "token_linked ti t u \<longleftrightarrow> (\<exists>i j. ti_index ti t = Some i \<and> ti_index ti u = Some j \<and> same_set (ti_sets ti) i j)"

lemma index_ok_inj: "index_ok ti \<Longrightarrow> ti_index ti t = Some i \<Longrightarrow> ti_index ti u = Some i \<Longrightarrow> t = u"
  unfolding index_ok_def by metis

lemma token_linked_index:
  "ti_index ti t = Some i \<Longrightarrow> ti_index ti u = Some j \<Longrightarrow> token_linked ti t u \<longleftrightarrow> same_set (ti_sets ti) i j"
  "ti_index ti t = None \<Longrightarrow> \<not> token_linked ti t u" "ti_index ti t = None \<Longrightarrow> \<not> token_linked ti u t"
  by (auto simp: token_linked_def)

lemma token_linked_sym: "token_linked ti t u \<Longrightarrow> token_linked ti u t"
  by (auto simp: token_linked_def dest: same_set_sym)

lemma token_linked_trans: "token_linked ti t u \<Longrightarrow> token_linked ti u v \<Longrightarrow> token_linked ti t v"
  by (auto simp: token_linked_def intro: same_set_trans)

lemma indexFor_runs:
  assumes "index_ok ti"
  shows "runs ctx (indexFor ctx token ti) (\<lambda>(i, ti'). index_ok ti' \<and> ti_index ti' token = Some i
    \<and> (\<forall>t j. ti_index ti t = Some j \<longrightarrow> ti_index ti' t = Some j)
    \<and> (\<forall>t u. token_linked ti' t u \<longleftrightarrow> token_linked ti t u \<or> t = token \<and> u = token))"
proof (cases "ti_index ti token")
  case (Some i)
  with assms have "same_set (ti_sets ti) i i"
    by (intro same_set_total) (auto simp: index_ok_def)
  with Some have "token_linked ti token token" by (auto simp: token_linked_def)
  with Some assms show ?thesis by (auto simp: indexFor_def intro!: runs_return)
next
  case None
  obtain n s where a: "add_set (ti_sets ti) = (n, s)" by fastforce
  let ?t = "ti\<lparr>ti_sets := s, ti_index := (ti_index ti)(token \<mapsto> n), ti_tokenAt := ti_tokenAt ti @ [token]\<rparr>"
  from assms have w: "wf_sets (ti_sets ti)" by (simp add: index_ok_def)
  note f = add_set_spec [OF w a]
  have n: "n = length (ti_tokenAt ti)" using f(1) assms by (simp add: index_ok_def)
  have new: "token \<notin> set (ti_tokenAt ti)"
    using None assms unfolding index_ok_def by (metis in_set_conv_nth option.distinct(1))
  have ok: "index_ok ?t"
    using assms f n new None by (auto simp: index_ok_def nth_append less_Suc_eq)
  have old: "ti_index ti t = Some j \<Longrightarrow> j < n" for t j
    using assms n by (auto simp: index_ok_def)
  have ln: "token_linked ?t t u \<longleftrightarrow> token_linked ti t u \<or> t = token \<and> u = token" for t u
    using old None f(4) same_set_range [of "ti_sets ti"] f(1)
    by (auto simp: token_linked_def; metis less_irrefl)
  from ok ln None show ?thesis
    by (auto simp: indexFor_def a intro!: runs_charge_then runs_return)
qed

lemma linked_mono: "linked xs t u \<Longrightarrow> set xs \<subseteq> set ys \<Longrightarrow> linked ys t u"
  by (induction rule: linked.induct) (auto intro: linked.intros)

lemma linked_range: "linked xs t u \<Longrightarrow> \<exists>c \<in> set xs. t = cr_tokenIn c \<or> t = cr_tokenOut c"
  and linked_range2: "linked xs t u \<Longrightarrow> \<exists>c \<in> set xs. u = cr_tokenIn c \<or> u = cr_tokenOut c"
  by (induction rule: linked.induct) auto

text \<open>Joining two classes of a partial equivalence.\<close>

lemma join_trans:
  assumes "\<And>t u. L t u \<Longrightarrow> L u t" "\<And>t u v. L t u \<Longrightarrow> L u v \<Longrightarrow> L t v"
    and "L t u \<or> L t a \<and> L b u \<or> L t b \<and> L a u" "L u v \<or> L u a \<and> L b v \<or> L u b \<and> L a v"
  shows "L t v \<or> L t a \<and> L b v \<or> L t b \<and> L a v"
  using assms(3,4) by (elim disjE conjE) (meson assms(1,2))+

lemma linked_snoc:
  "linked (xs @ [c]) t u \<longleftrightarrow>
     (let lk = \<lambda>t u. linked xs t u \<or> t = u \<and> (t = cr_tokenIn c \<or> t = cr_tokenOut c) in
      lk t u \<or> lk t (cr_tokenIn c) \<and> lk (cr_tokenOut c) u \<or> lk t (cr_tokenOut c) \<and> lk (cr_tokenIn c) u)"
  (is "?L t u \<longleftrightarrow> ?R t u")
proof
  assume "?L t u"
  then show "?R t u"
  proof (induction rule: linked.induct)
    case (offer c')
    then show ?case using linked.offer [of c' xs] by (auto simp: Let_def)
  next
    case (self c' t)
    then show ?case using linked.self [of c' xs t] by (auto simp: Let_def)
  next
    case (sym t u)
    then show ?case using linked.sym [of xs] by (auto simp: Let_def)
  next
    case (trans t u v)
    show ?case using trans(3,4) unfolding Let_def
      by (rule join_trans [rotated 2]) (auto intro: linked.sym linked.trans)
  qed
next
  have m: "linked xs t u \<Longrightarrow> ?L t u" for t u by (erule linked_mono) auto
  have s: "?L (cr_tokenIn c) (cr_tokenIn c)" "?L (cr_tokenOut c) (cr_tokenOut c)"
    "?L (cr_tokenIn c) (cr_tokenOut c)"
    by (auto intro: linked.intros)
  note s = s linked.sym [OF s(3)]
  have lk: "linked xs t u \<or> t = u \<and> (t = cr_tokenIn c \<or> t = cr_tokenOut c) \<Longrightarrow> ?L t u" for t u
    using m s(1,2) by auto
  assume "?R t u"
  then show "?L t u" unfolding Let_def
    by (elim disjE conjE) (meson lk m s linked.trans)+
qed

lemma connect_offer_runs:
  assumes "index_ok ti" "\<And>t u. token_linked ti t u \<longleftrightarrow> linked xs t u"
  shows "runs ctx (connect_offer ctx offer ti) (\<lambda>ti'. index_ok ti'
    \<and> (\<forall>t u. token_linked ti' t u \<longleftrightarrow> linked (xs @ [offer]) t u))"
  unfolding connect_offer_def
proof (rule runs_bind [OF indexFor_runs [OF assms(1)]], clarsimp)
  fix i ti1
  assume 1: "index_ok ti1" "ti_index ti1 (cr_tokenIn offer) = Some i"
    "\<forall>t u. token_linked ti1 t u \<longleftrightarrow> token_linked ti t u \<or> t = cr_tokenIn offer \<and> u = cr_tokenIn offer"
  show "runs ctx (bindB (indexFor ctx (cr_tokenOut offer) ti1) (\<lambda>(out, ti2). bindB (chargesB ctx (Suc 0)) (\<lambda>_.
      bindB (liftB (union_sets (ti_sets ti2) i out)) (\<lambda>sets. returnB (ti2\<lparr>ti_sets := sets\<rparr>)))))
    (\<lambda>ti'. index_ok ti' \<and> (\<forall>t u. token_linked ti' t u \<longleftrightarrow> linked (xs @ [offer]) t u))"
  proof (rule runs_bind [OF indexFor_runs [OF 1(1)]], clarsimp intro!: runs_charge_then)
    fix out ti2
    assume 2: "index_ok ti2" "ti_index ti2 (cr_tokenOut offer) = Some out"
      "\<forall>t j. ti_index ti1 t = Some j \<longrightarrow> ti_index ti2 t = Some j"
      "\<forall>t u. token_linked ti2 t u \<longleftrightarrow> token_linked ti1 t u \<or> t = cr_tokenOut offer \<and> u = cr_tokenOut offer"
    have i: "ti_index ti2 (cr_tokenIn offer) = Some i" using 1(2) 2(3) by blast
    from 2(1,2) i have r: "wf_sets (ti_sets ti2)" "i < length (ds_parent (ti_sets ti2))"
      "out < length (ds_parent (ti_sets ti2))" by (auto simp: index_ok_def)
    obtain s where s: "union_sets (ti_sets ti2) i out = Some s" "wf_sets s"
      "length (ds_parent s) = length (ds_parent (ti_sets ti2))"
      "\<And>x y. same_set s x y \<longleftrightarrow> same_set (ti_sets ti2) x y
         \<or> (same_set (ti_sets ti2) x i \<and> same_set (ti_sets ti2) out y)
         \<or> (same_set (ti_sets ti2) x out \<and> same_set (ti_sets ti2) i y)"
      by (rule union_sets_spec [OF r]) blast
    let ?t = "ti2\<lparr>ti_sets := s\<rparr>"
    have ok: "index_ok ?t" using 2(1) s(2,3) by (simp add: index_ok_def)
    have ix: "ti_index ?t = ti_index ti2" "ti_sets ?t = s" by simp_all
    have "token_linked ?t t u \<longleftrightarrow> token_linked ti2 t u
        \<or> (token_linked ti2 t (cr_tokenIn offer) \<and> token_linked ti2 (cr_tokenOut offer) u)
        \<or> (token_linked ti2 t (cr_tokenOut offer) \<and> token_linked ti2 (cr_tokenIn offer) u)" for t u
      using i 2(2) by (cases "ti_index ti2 t"; cases "ti_index ti2 u") (simp_all add: token_linked_def s(4))
    moreover have "token_linked ti2 t u \<longleftrightarrow> linked xs t u \<or> t = u \<and> (t = cr_tokenIn offer \<or> t = cr_tokenOut offer)" for t u
      using 1(3) 2(4) assms(2) by auto
    ultimately have "token_linked ?t t u \<longleftrightarrow> linked (xs @ [offer]) t u" for t u
      unfolding linked_snoc Let_def by (simp only:)
    with ok s(1) show "runs ctx (bindB (liftB (union_sets (ti_sets ti2) i out)) (\<lambda>sets. returnB (ti2\<lparr>ti_sets := sets\<rparr>)))
        (\<lambda>ti'. index_ok ti' \<and> (\<forall>t u. token_linked ti' t u \<longleftrightarrow> linked (xs @ [offer]) t u))"
      by (intro runs_bind [OF runs_lift [OF s(1), of "\<lambda>x. x = s"]]) (auto intro!: runs_return)
  qed
qed

lemma index_tokens_runs:
  "runs ctx (index_tokens ctx offers) (\<lambda>ti. index_ok ti \<and> (\<forall>t u. token_linked ti t u \<longleftrightarrow> linked offers t u))"
  unfolding index_tokens_def
proof (rule runs_fold [where P = "\<lambda>xs ti. index_ok ti \<and> (\<forall>t u. token_linked ti t u \<longleftrightarrow> linked xs t u)"])
  have "\<not> linked [] t u" for t u using linked_range by fastforce
  moreover have "forest [] (ds_rank empty_sets)" by (simp add: forest_def empty_sets_def)
  ultimately show "index_ok \<lparr>ti_sets = empty_sets, ti_index = \<lambda>_. None, ti_tokenAt = []\<rparr>
    \<and> (\<forall>t u. token_linked \<lparr>ti_sets = empty_sets, ti_index = \<lambda>_. None, ti_tokenAt = []\<rparr> t u \<longleftrightarrow> linked [] t u)"
    by (simp add: index_ok_def token_linked_def)
qed (auto intro: connect_offer_runs)

text \<open>Every token of an offer has an index, and every indexed token is of an offer.\<close>

lemma indexed_tokens:
  assumes "index_ok ti" "\<forall>t u. token_linked ti t u \<longleftrightarrow> linked offers t u"
  shows "set (ti_tokenAt ti) = cr_tokenIn ` set offers \<union> cr_tokenOut ` set offers"
proof -
  have "t \<in> set (ti_tokenAt ti) \<longleftrightarrow> token_linked ti t t" for t
  proof
    assume "t \<in> set (ti_tokenAt ti)"
    then obtain i where "i < length (ti_tokenAt ti)" "ti_tokenAt ti ! i = t" by (auto simp: in_set_conv_nth)
    with assms(1) show "token_linked ti t t"
      using same_set_total [of "ti_sets ti" i] by (auto simp: index_ok_def token_linked_def)
  next
    assume "token_linked ti t t"
    with assms(1) show "t \<in> set (ti_tokenAt ti)" by (auto simp: index_ok_def token_linked_def)
  qed
  moreover have "linked offers t t \<longleftrightarrow> (\<exists>c \<in> set offers. t = cr_tokenIn c \<or> t = cr_tokenOut c)" for t
    using linked_range linked.self by blast
  ultimately show ?thesis using assms(2) by auto
qed

section \<open>Components\<close>

text \<open>
  The map by root after the indices \<open>I\<close> were placed and the indices \<open>M\<close> marked.
\<close>

definition comps_ok :: "disjoint_sets \<Rightarrow> string list \<Rightarrow> nat set \<Rightarrow> nat set \<Rightarrow> components_by_root \<Rightarrow> bool" where
  "comps_ok sets tokenAt I M byRoot \<longleftrightarrow> distinct (map fst byRoot)
     \<and> dom (map_of byRoot) = {r. \<exists>i \<in> I. root_of sets i r}
     \<and> (\<forall>r c. map_of byRoot r = Some c \<longrightarrow> dc_root c = r
          \<and> set (dc_tokens c) = (\<lambda>i. tokenAt ! i) ` {i \<in> I. root_of sets i r}
          \<and> (dc_cyclic c \<longleftrightarrow> (\<exists>i \<in> M. root_of sets i r)))"

definition same_roots :: "disjoint_sets \<Rightarrow> disjoint_sets \<Rightarrow> bool" where
  "same_roots s s' \<longleftrightarrow> wf_sets s' \<and> length (ds_parent s') = length (ds_parent s)
     \<and> (\<forall>i r. root_of s' i r \<longleftrightarrow> root_of s i r)"

lemma same_roots_comps: "same_roots s s' \<Longrightarrow> comps_ok s' tokenAt I M byRoot \<longleftrightarrow> comps_ok s tokenAt I M byRoot"
  by (simp add: same_roots_def comps_ok_def)

lemma same_roots_trans: "same_roots s s' \<Longrightarrow> same_roots s' s'' \<Longrightarrow> same_roots s s''"
  by (simp add: same_roots_def)

lemma runs_find:
  assumes "wf_sets sets" "i < length (ds_parent sets)"
    and "\<And>r s. root_of sets i r \<Longrightarrow> same_roots sets s \<Longrightarrow> runs ctx (f (r, s)) Q"
  shows "runs ctx (bindB (liftB (find_set sets i)) f) Q"
proof -
  obtain r s where "find_set sets i = Some (r, s)" "root_of sets i r" "same_roots sets s"
    using find_set_spec [OF assms(1,2)] unfolding same_roots_def by metis
  then show ?thesis
    by (intro runs_bind [OF runs_lift [of _ "(r, s)" "\<lambda>x. x = (r, s)"]]) (auto intro: assms(3))
qed

lemma place_comps:
  assumes ok: "comps_ok sets tokenAt I {} byRoot" and i: "root_of sets i root" "i \<notin> I"
  shows "comps_ok sets tokenAt (insert i I) {} (case map_of byRoot root of
           None \<Rightarrow> byRoot @ [(root, \<lparr>dc_root = root, dc_key = tokenAt ! i, dc_tokens = [tokenAt ! i], dc_cyclic = False\<rparr>)]
         | Some component \<Rightarrow> AList.update root
             (component\<lparr>dc_tokens := dc_tokens component @ [tokenAt ! i], dc_key := k component\<rparr>) byRoot)"
proof (cases "map_of byRoot root")
  case None
  have r: "root_of sets i r \<longleftrightarrow> r = root" for r using i(1) has_root_fun by blast
  let ?c = "\<lparr>dc_root = root, dc_key = tokenAt ! i, dc_tokens = [tokenAt ! i], dc_cyclic = False\<rparr>"
  from None ok have no: "\<not> (\<exists>j \<in> I. root_of sets j root)" by (auto simp: comps_ok_def)
  have new: "root \<notin> fst ` set byRoot" using None by (simp add: map_of_eq_None_iff)
  have get: "map_of (byRoot @ [(root, ?c)]) = (map_of byRoot)(root \<mapsto> ?c)"
    using None by (auto simp: map_add_def fun_eq_iff split: option.split)
  have dom: "dom (map_of (byRoot @ [(root, ?c)])) = {q. \<exists>j \<in> insert i I. root_of sets j q}"
    unfolding get using ok by (auto simp: comps_ok_def r)
  show ?thesis
    using ok new no None dom unfolding comps_ok_def get by (auto simp: r split: if_splits)
next
  case (Some c)
  have r: "root_of sets i r \<longleftrightarrow> r = root" for r using i(1) has_root_fun by blast
  from Some ok show ?thesis unfolding comps_ok_def
    by (auto simp: r update_conv' distinct_update split: if_splits)
qed

lemma place_token_runs:
  assumes "same_roots sets0 sets" "comps_ok sets tokenAt I {} byRoot" "i < length (ds_parent sets0)" "i \<notin> I"
  shows "runs ctx (place_token ctx tokenAt i (sets, byRoot))
    (\<lambda>(s, byRoot'). same_roots sets0 s \<and> comps_ok s tokenAt (insert i I) {} byRoot')"
proof -
  have w: "wf_sets sets" "i < length (ds_parent sets)" using assms(1,3) by (auto simp: same_roots_def)
  have "runs ctx (bindB (liftB (find_set sets i)) (\<lambda>(root, sets1).
       let token = tokenAt ! i in
       returnB (sets1, case map_of byRoot root of
           None \<Rightarrow> byRoot @ [(root, \<lparr>dc_root = root, dc_key = token, dc_tokens = [token], dc_cyclic = False\<rparr>)]
         | Some component \<Rightarrow> AList.update root
             (component\<lparr>dc_tokens := dc_tokens component @ [token],
                       dc_key := (if token < dc_key component then token else dc_key component)\<rparr>) byRoot)))
    (\<lambda>(s, byRoot'). same_roots sets0 s \<and> comps_ok s tokenAt (insert i I) {} byRoot')"
  proof (rule runs_find [OF w])
    fix r s assume r: "root_of sets i r" "same_roots sets s"
    note place_comps [OF assms(2) r(1) assms(4), of "\<lambda>c. if tokenAt ! i < dc_key c then tokenAt ! i else dc_key c"]
    with r(2) assms(1) same_roots_trans same_roots_comps [OF r(2)]
    show "runs ctx (case (r, s) of (root, sets1) \<Rightarrow> let token = tokenAt ! i in
       returnB (sets1, case map_of byRoot root of
           None \<Rightarrow> byRoot @ [(root, \<lparr>dc_root = root, dc_key = token, dc_tokens = [token], dc_cyclic = False\<rparr>)]
         | Some component \<Rightarrow> AList.update root
             (component\<lparr>dc_tokens := dc_tokens component @ [token],
                       dc_key := (if token < dc_key component then token else dc_key component)\<rparr>) byRoot))
      (\<lambda>(s, byRoot'). same_roots sets0 s \<and> comps_ok s tokenAt (insert i I) {} byRoot')"
      by (auto simp: Let_def intro!: runs_return)
  qed
  then show ?thesis by (simp add: place_token_def runs_charge_then)
qed

lemma place_tokens_runs:
  assumes "wf_sets sets" "length (ds_parent sets) = n"
  shows "runs ctx (foldB (place_token ctx tokenAt) [0..<n] (sets, []))
    (\<lambda>(s, byRoot). same_roots sets s \<and> comps_ok s tokenAt {..<n} {} byRoot)"
proof -
  have "runs ctx (foldB (place_token ctx tokenAt) [0..<n] (sets, []))
    ((\<lambda>xs (s, byRoot). same_roots sets s \<and> comps_ok s tokenAt (set xs) {} byRoot) [0..<n])"
  proof (rule runs_fold, goal_cases)
    case 1
    show ?case using assms by (simp add: same_roots_def comps_ok_def)
  next
    case (2 a x b st)
    have "x < n" "x \<notin> set a"
    proof -
      have "distinct (a @ x # b)" "set (a @ x # b) \<subseteq> {..<n}" unfolding 2(1) [symmetric] by auto
      then show "x < n" "x \<notin> set a" by auto
    qed
    with 2 assms(2) show ?case by (cases st) (auto intro!: place_token_runs)
  qed
  then show ?thesis by (simp add: atLeast0LessThan)
qed

lemma mark_comps:
  assumes ok: "comps_ok sets tokenAt I M byRoot" and i: "root_of sets i root" "map_of byRoot root = Some c"
  shows "comps_ok sets tokenAt I (insert i M) (AList.update root (c\<lparr>dc_cyclic := True\<rparr>) byRoot)"
proof -
  have r: "root_of sets i r \<longleftrightarrow> r = root" for r using i(1) has_root_fun by blast
  from i(2) ok show ?thesis unfolding comps_ok_def
    by (auto simp: r update_conv' distinct_update split: if_splits)
qed

lemma mark_cyclic_runs:
  assumes "same_roots sets0 sets" "comps_ok sets tokenAt {..<n} {j \<in> J. 0 < indegree ! j} byRoot"
    and "i < n" "length (ds_parent sets0) = n"
  shows "runs ctx (mark_cyclic ctx indegree i (sets, byRoot))
    (\<lambda>(s, byRoot'). same_roots sets0 s \<and> comps_ok s tokenAt {..<n} {j \<in> insert i J. 0 < indegree ! j} byRoot')"
proof -
  have w: "wf_sets sets" "i < length (ds_parent sets)" using assms(1,3,4) by (auto simp: same_roots_def)
  have "runs ctx (if indegree ! i > 0 then
         bindB (liftB (find_set sets i)) (\<lambda>(root, sets1).
         bindB (liftB (map_of byRoot root)) (\<lambda>component.
           returnB (sets1, AList.update root (component\<lparr>dc_cyclic := True\<rparr>) byRoot)))
       else returnB (sets, byRoot))
    (\<lambda>(s, byRoot'). same_roots sets0 s \<and> comps_ok s tokenAt {..<n} {j \<in> insert i J. 0 < indegree ! j} byRoot')"
  proof (cases "indegree ! i > 0")
    case False
    then have "{j \<in> insert i J. 0 < indegree ! j} = {j \<in> J. 0 < indegree ! j}" by auto
    with assms False show ?thesis by (auto intro!: runs_return)
  next
    case True
    then have J: "{j \<in> insert i J. 0 < indegree ! j} = insert i {j \<in> J. 0 < indegree ! j}" by auto
    have "runs ctx (bindB (liftB (find_set sets i)) (\<lambda>(root, sets1).
         bindB (liftB (map_of byRoot root)) (\<lambda>component.
           returnB (sets1, AList.update root (component\<lparr>dc_cyclic := True\<rparr>) byRoot))))
      (\<lambda>(s, byRoot'). same_roots sets0 s \<and> comps_ok s tokenAt {..<n} {j \<in> insert i J. 0 < indegree ! j} byRoot')"
    proof (rule runs_find [OF w], simp)
      fix r s assume r: "root_of sets i r" "same_roots sets s"
      then have "r \<in> dom (map_of byRoot)" using assms(2,3) by (auto simp: comps_ok_def)
      then obtain c where c: "map_of byRoot r = Some c" by blast
      with r assms(1) mark_comps [OF assms(2) r(1) c] same_roots_comps [OF r(2)] same_roots_trans
      show "runs ctx (bindB (liftB (map_of byRoot r)) (\<lambda>component.
           returnB (s, AList.update r (component\<lparr>dc_cyclic := True\<rparr>) byRoot)))
        (\<lambda>(s, byRoot'). same_roots sets0 s \<and> comps_ok s tokenAt {..<n} {j. (j = i \<or> j \<in> J) \<and> 0 < indegree ! j} byRoot')"
        using J by (intro runs_bind [OF runs_lift [OF c, of "\<lambda>x. x = c"]]) (auto intro!: runs_return)
    qed
    with True show ?thesis by simp
  qed
  then show ?thesis by (simp add: mark_cyclic_def runs_charge_then)
qed

lemma mark_all_runs:
  assumes "wf_sets sets" "length (ds_parent sets) = n" "comps_ok sets tokenAt {..<n} {} byRoot"
  shows "runs ctx (foldB (mark_cyclic ctx indegree) [0..<n] (sets, byRoot))
    (\<lambda>(s, byRoot'). same_roots sets s \<and> comps_ok s tokenAt {..<n} {j. j < n \<and> 0 < indegree ! j} byRoot')"
proof -
  have "runs ctx (foldB (mark_cyclic ctx indegree) [0..<n] (sets, byRoot))
    ((\<lambda>xs (s, byRoot'). same_roots sets s
       \<and> comps_ok s tokenAt {..<n} {j \<in> set xs. 0 < indegree ! j} byRoot') [0..<n])"
  proof (rule runs_fold, goal_cases)
    case 1
    show ?case using assms by (simp add: same_roots_def)
  next
    case (2 a x b st)
    have "x < n"
    proof -
      have "set (a @ x # b) \<subseteq> {..<n}" unfolding 2(1) [symmetric] by auto
      then show ?thesis by auto
    qed
    obtain s bm where st: "st = (s, bm)" by fastforce
    from mark_cyclic_runs [of sets s tokenAt n "set a" indegree bm x ctx] 2(2) \<open>x < n\<close> assms(2) show ?case
      by (simp add: st)
  qed
  then show ?thesis by simp
qed

end
