(* ===== verification/Ladder_Frontier.thy ===== *)
theory Ladder_Frontier
  imports Ladder_Limits "HOL-Library.Product_Lexorder"
begin

text \<open>
  Model of the publication half of \<^verbatim>\<open>packages/solver-core/ladder-derivation.ts\<close>: the running
  output maximum over the exact-input map of a pair search (\<open>bestOutputFrontier\<close>), the encoding
  of a prefix of it as relay rungs (\<open>encodePrefix\<close>) and the choice of the longest prefix that
  fits the wire (\<open>longestEncodableFrontier\<close>).

  The number of comparator calls the engine's \<open>sort\<close> makes is not in the source: it is the
  parameter \<open>comparisons\<close>. The sorted result does not depend on it, because the order is total
  on distinct inputs.
\<close>

section \<open>Data\<close>

record combination_state =
  cs_input :: int
  cs_output :: int
  cs_offerHashes :: "string list"
  cs_tokenBalances :: "token_balance list option"

record combination_provenance =
  cp_input :: string
  cp_output :: string
  cp_offerHashes :: "string list"
  cp_tokenBalances :: "serialized_balance list"

record encoded_frontier =
  ef_levels :: "price_level list"
  ef_combinations :: "combination_provenance list"
  ef_terminalInput :: int
  ef_nominalTerminalInput :: int
  ef_capReasons :: "ladder_reason list"

text \<open>The exact-input map of a search, keyed by the decimal input.\<close>

type_synonym exact_map = "(string \<times> combination_state) list"

section \<open>Operations\<close>

fun compareHashes :: "string list \<Rightarrow> string list \<Rightarrow> int" where
  "compareHashes (l # ls) (r # rs) =
     (if l < r then -1 else if l > r then 1 else compareHashes ls rs)"
| "compareHashes ls rs = int (length ls) - int (length rs)"

fun poll_times :: "nat \<Rightarrow> abort_callback \<Rightarrow> nat \<Rightarrow> ladder_reason option \<times> nat" where
  "poll_times 0 shouldAbort polls = (None, polls)"
| "poll_times (Suc n) shouldAbort polls =
     (case abortReason shouldAbort polls of
        (Some r, p) \<Rightarrow> (Some r, p)
      | (None, p) \<Rightarrow> poll_times n shouldAbort p)"

fun frontier_loop :: "abort_callback \<Rightarrow> nat \<Rightarrow> int \<Rightarrow> combination_state list \<Rightarrow> combination_state list \<Rightarrow> nat
    \<Rightarrow> (combination_state list \<times> ladder_reason option) \<times> nat" where
  "frontier_loop shouldAbort index bestOutput frontier [] polls = ((frontier, None), polls)"
| "frontier_loop shouldAbort index bestOutput frontier (candidate # rest) polls =
     (case (if index mod 256 = 255 then abortReason shouldAbort polls else (None, polls)) of
        (Some r, p) \<Rightarrow> (([], Some r), p)
      | (None, p) \<Rightarrow>
          if cs_output candidate \<le> bestOutput
          then frontier_loop shouldAbort (Suc index) bestOutput frontier rest p
          else frontier_loop shouldAbort (Suc index) (cs_output candidate) (frontier @ [candidate]) rest p)"

definition bestOutputFrontier ::
    "(combination_state list \<Rightarrow> nat) \<Rightarrow> exact_map \<Rightarrow> abort_callback \<Rightarrow> nat
      \<Rightarrow> (combination_state list \<times> ladder_reason option) \<times> nat" where
  "bestOutputFrontier comparisons exact shouldAbort polls =
     (let values = map snd exact in
      case poll_times (comparisons values div 256) shouldAbort polls of
        (Some r, p) \<Rightarrow> (([], Some r), p)
      | (None, p) \<Rightarrow>
          frontier_loop shouldAbort 0 0 [] (sort_key (\<lambda>c. (cs_input c, cs_offerHashes c)) values) p)"

definition level_at :: "int \<Rightarrow> int \<Rightarrow> price_level" where
  "level_at i out = \<lparr>pl_input = bigint_to_string i, pl_output = bigint_to_string out\<rparr>"

text \<open>The rungs of the retained thresholds, the last plateau ending at the terminal input.\<close>

fun plateau_levels :: "combination_state list \<Rightarrow> int \<Rightarrow> price_level list" where
  "plateau_levels [] terminalInput = []"
| "plateau_levels [threshold] terminalInput =
     [level_at (cs_input threshold) (cs_output threshold), level_at terminalInput (cs_output threshold)]"
| "plateau_levels (threshold # next # rest) terminalInput =
     (let plateauEnd = cs_input next - 1 in
      level_at (cs_input threshold) (cs_output threshold)
      # (if plateauEnd > cs_input threshold then [level_at plateauEnd (cs_output threshold)] else [])
      @ plateau_levels (next # rest) terminalInput)"

definition combination_of :: "string \<Rightarrow> string \<Rightarrow> combination_state \<Rightarrow> combination_provenance result" where
  "combination_of tokenIn tokenOut entry =
     bindR (serializeWholeOfferTokenBalances (case cs_tokenBalances entry of
         Some rows \<Rightarrow> rows
       | None \<Rightarrow>
          [\<lparr>tb_token = tokenIn, tb_gives = 0, tb_wants = cs_input entry, tb_net = - cs_input entry\<rparr>,
           \<lparr>tb_token = tokenOut, tb_gives = cs_output entry, tb_wants = 0, tb_net = cs_output entry\<rparr>]))
       (\<lambda>rows. Inr \<lparr>cp_input = bigint_to_string (cs_input entry), cp_output = bigint_to_string (cs_output entry),
                    cp_offerHashes = cs_offerHashes entry, cp_tokenBalances = rows\<rparr>)"

text \<open>The terminal input after its safety caps, with the caps that applied, in order.\<close>

definition capped_terminal :: "int \<Rightarrow> combination_state option \<Rightarrow> int \<times> ladder_reason list" where
  "capped_terminal nominal nextOmitted =
     (let (t1, c1) = (if nominal > MAX_SETTLEMENT_AMOUNT
                      then (MAX_SETTLEMENT_AMOUNT, [R_settlement_amount_cap]) else (nominal, []))
      in case nextOmitted of
           None \<Rightarrow> (t1, c1)
         | Some n \<Rightarrow> if t1 > cs_input n - 1 then (cs_input n - 1, c1 @ [R_next_omitted_improvement]) else (t1, c1))"

definition encodePrefix ::
    "combination_state list \<Rightarrow> nat \<Rightarrow> int \<Rightarrow> string \<Rightarrow> string
      \<Rightarrow> (ladder_reason list + encoded_frontier) result" where
  "encodePrefix frontier retainedCount maxWirePoints tokenIn tokenOut =
     (let retained = take retainedCount frontier in
      if retained = [] then Inl (TypeError ''final is undefined'')
      else
        let final = last retained;
            nominalTerminalInput = cs_input final * 10;
            nextOmitted = (if retainedCount < length frontier then Some (frontier ! retainedCount) else None);
            (terminalInput, capReasons) = capped_terminal nominalTerminalInput nextOmitted;
            levels = plateau_levels retained terminalInput;
            failureReasons =
              (if int (length levels) > maxWirePoints then [R_wire_point_cap] else [])
              @ (if terminalInput \<le> cs_input final
                 then [if cs_input final \<ge> MAX_SETTLEMENT_AMOUNT then R_settlement_amount_cap
                       else R_next_omitted_improvement]
                 else [])
        in if failureReasons \<noteq> [] then Inr (Inl failureReasons)
           else bindR (mapR (combination_of tokenIn tokenOut) retained) (\<lambda>combinations.
             Inr (Inr \<lparr>ef_levels = levels, ef_combinations = combinations, ef_terminalInput = terminalInput,
                       ef_nominalTerminalInput = nominalTerminalInput, ef_capReasons = js_uniq capReasons\<rparr>)))"

text \<open>The loop over prefix lengths; a failure's reasons join the set, a success clears it.\<close>

definition note_failures :: "ladder_reason list \<Rightarrow> ladder_reason list \<Rightarrow> ladder_reason list" where
  "note_failures failures reasons =
     fold (\<lambda>r acc. if r = R_next_omitted_improvement then acc else set_add r acc) failures reasons"

fun longest_loop :: "combination_state list \<Rightarrow> int \<Rightarrow> string \<Rightarrow> string \<Rightarrow> nat list
    \<Rightarrow> encoded_frontier option \<times> ladder_reason list \<Rightarrow> (encoded_frontier option \<times> ladder_reason list) result" where
  "longest_loop frontier maxWirePoints tokenIn tokenOut [] st = Inr st"
| "longest_loop frontier maxWirePoints tokenIn tokenOut (retained # rest) (best, truncationReasons) =
     bindR (encodePrefix frontier retained maxWirePoints tokenIn tokenOut) (\<lambda>encoded.
       longest_loop frontier maxWirePoints tokenIn tokenOut rest
         (case encoded of
            Inl failures \<Rightarrow> (best, note_failures failures truncationReasons)
          | Inr e \<Rightarrow> (Some e, [])))"

definition longestEncodableFrontier ::
    "combination_state list \<Rightarrow> int \<Rightarrow> string \<Rightarrow> string
      \<Rightarrow> (encoded_frontier option \<times> ladder_reason list) result" where
  "longestEncodableFrontier frontier maxWirePoints tokenIn tokenOut =
     (let most = min (int (length frontier)) (maxWirePoints - 1) in
      bindR (longest_loop frontier maxWirePoints tokenIn tokenOut [1..<Suc (nat most)] (None, []))
        (\<lambda>(best, reasons).
          let truncationReasons =
                (if int (length frontier) > most then set_add R_wire_point_cap reasons else reasons)
          in Inr (case best of
                    None \<Rightarrow> None
                  | Some e \<Rightarrow> Some (e\<lparr>ef_capReasons := js_uniq (truncationReasons @ ef_capReasons e)\<rparr>),
                  truncationReasons)))"

section \<open>The best output for a budget\<close>

text \<open>
  The specification: the largest output among the combinations whose exact input is within the
  budget, or the bound given when there is none.
\<close>

definition best_from :: "int \<Rightarrow> combination_state list \<Rightarrow> int \<Rightarrow> int" where
  "best_from b cs x = Max (insert b (cs_output ` {c \<in> set cs. cs_input c \<le> x}))"

abbreviation best_output :: "combination_state list \<Rightarrow> int \<Rightarrow> int" where
  "best_output \<equiv> best_from 0"

lemma best_from_Nil [simp]: "best_from b [] x = b"
  by (simp add: best_from_def)

lemma best_from_Cons:
  "best_from b (c # cs) x = (if cs_input c \<le> x then best_from (max b (cs_output c)) cs x else best_from b cs x)"
proof -
  let ?S = "cs_output ` {c \<in> set cs. cs_input c \<le> x}"
  have "{d \<in> set (c # cs). cs_input d \<le> x} = (if cs_input c \<le> x then insert c {d \<in> set cs. cs_input d \<le> x}
      else {d \<in> set cs. cs_input d \<le> x})" by auto
  moreover have "Max (insert b (insert y T)) = Max (insert (max b y) T)" if "finite T" for T and y :: int
    using that by (cases "T = {}") (simp_all add: max.assoc)
  ultimately show ?thesis by (simp add: best_from_def)
qed

lemma best_from_set: "set cs = set ds \<Longrightarrow> best_from b cs x = best_from b ds x"
  by (simp add: best_from_def)

lemma best_from_above: "\<forall>c \<in> set cs. x < cs_input c \<Longrightarrow> best_from b cs x = b"
  by (induction cs) (auto simp: best_from_Cons)

definition rises :: "combination_state \<Rightarrow> combination_state \<Rightarrow> bool" where
  "rises c d \<longleftrightarrow> cs_input c < cs_input d \<and> cs_output c < cs_output d"

fun records :: "int \<Rightarrow> combination_state list \<Rightarrow> combination_state list" where
  "records b [] = []"
| "records b (c # cs) = (if cs_output c \<le> b then records b cs else c # records (cs_output c) cs)"

lemma records_subset: "set (records b cs) \<subseteq> set cs"
  by (induction cs arbitrary: b) auto

lemma records_above: "c \<in> set (records b cs) \<Longrightarrow> b < cs_output c"
proof (induction cs arbitrary: b)
  case (Cons a cs)
  from Cons.prems show ?case by (cases "cs_output a \<le> b") (auto dest: Cons.IH)
qed simp

lemma records_rises:
  "sorted_wrt (\<lambda>c d. cs_input c < cs_input d) cs \<Longrightarrow> sorted_wrt rises (records b cs)"
  by (induction cs arbitrary: b)
    (auto simp: rises_def dest: records_above subsetD [OF records_subset])

lemma best_from_records:
  "sorted_wrt (\<lambda>c d. cs_input c < cs_input d) cs \<Longrightarrow> best_from b (records b cs) x = best_from b cs x"
proof (induction cs arbitrary: b)
  case (Cons c cs)
  show ?case
  proof (cases "cs_output c \<le> b")
    case True
    with Cons show ?thesis by (simp add: best_from_Cons max_absorb1)
  next
    case out: False
    show ?thesis
    proof (cases "cs_input c \<le> x")
      case True
      with Cons out show ?thesis by (simp add: best_from_Cons max_absorb2)
    next
      case False
      with Cons.prems have "\<forall>d \<in> set cs. x < cs_input d" by auto
      moreover from this have "\<forall>d \<in> set (records (cs_output c) cs). x < cs_input d"
        using records_subset by blast
      ultimately show ?thesis using False out by (simp add: best_from_Cons best_from_above)
    qed
  qed
qed simp

lemma frontier_loop_records:
  "frontier_loop cb index b fr cs p = ((fr', None), p') \<Longrightarrow> fr' = fr @ records b cs"
  by (induction cb index b fr cs p rule: frontier_loop.induct)
    (auto split: prod.splits option.splits if_splits)

lemma frontier_loop_stop:
  "frontier_loop cb index b fr cs p = ((fr', Some r), p') \<Longrightarrow> fr' = []"
  by (induction cb index b fr cs p rule: frontier_loop.induct)
    (auto split: prod.splits option.splits if_splits)

text \<open>The map a search hands over: one combination per exact input, keyed by its spelling.\<close>

definition valid_combination :: "combination_state \<Rightarrow> bool" where
  "valid_combination c \<longleftrightarrow> 0 < cs_input c \<and> cs_input c \<le> MAX_SETTLEMENT_AMOUNT
     \<and> 0 < cs_output c \<and> cs_output c \<le> MAX_SETTLEMENT_AMOUNT"

definition exact_ok :: "exact_map \<Rightarrow> bool" where
  "exact_ok exact \<longleftrightarrow> distinct (map fst exact)
     \<and> (\<forall>(k, c) \<in> set exact. k = bigint_to_string (cs_input c) \<and> valid_combination c)"

lemma exact_ok_inputs: "exact_ok exact \<Longrightarrow> distinct (map cs_input (map snd exact))"
proof -
  assume e: "exact_ok exact"
  then have "map fst exact = map bigint_to_string (map cs_input (map snd exact))"
    by (auto simp: exact_ok_def)
  moreover have "distinct (map fst exact)" using e by (simp add: exact_ok_def)
  ultimately show ?thesis using distinct_map by metis
qed

lemma bestOutputFrontier_records:
  assumes "exact_ok exact"
    and "bestOutputFrontier comparisons exact cb polls = ((frontier, None), polls')"
  obtains cs where "mset cs = mset (map snd exact)" "sorted_wrt (\<lambda>c d. cs_input c < cs_input d) cs"
    "frontier = records 0 cs"
proof
  let ?cs = "sort_key (\<lambda>c. (cs_input c, cs_offerHashes c)) (map snd exact)"
  show "mset ?cs = mset (map snd exact)" by simp
  have "distinct (map cs_input ?cs)"
    using exact_ok_inputs [OF assms(1)] by simp
  moreover have "sorted (map cs_input ?cs)"
  proof -
    have "sorted (map (\<lambda>c. (cs_input c, cs_offerHashes c)) ?cs)" by simp
    then show ?thesis by (auto simp: sorted_map elim!: sorted_wrt_mono_rel [rotated])
  qed
  ultimately have "sorted_wrt (<) (map cs_input ?cs)" by (simp add: strict_sorted_iff)
  then show "sorted_wrt (\<lambda>c d. cs_input c < cs_input d) ?cs" by (simp add: sorted_wrt_map)
  show "frontier = records 0 ?cs"
  proof (cases "poll_times (comparisons (map snd exact) div 256) cb polls")
    case (Pair r p)
    with assms(2) have "frontier_loop cb 0 0 [] ?cs p = ((frontier, None), polls')"
      by (auto simp: bestOutputFrontier_def split: option.splits)
    from frontier_loop_records [OF this] show ?thesis by simp
  qed
qed

section \<open>The published staircase\<close>

text \<open>The rungs of a prefix, as numbers.\<close>

fun stair :: "combination_state list \<Rightarrow> int \<Rightarrow> rung list" where
  "stair [] t = []"
| "stair [f] t = [(cs_input f, cs_output f), (t, cs_output f)]"
| "stair (f # g # r) t =
     (cs_input f, cs_output f)
     # (if cs_input g - 1 > cs_input f then [(cs_input g - 1, cs_output f)] else [])
     @ stair (g # r) t"

lemma plateau_levels_stair: "plateau_levels fs t = map encode_rung (stair fs t)"
  by (induction fs t rule: stair.induct) (auto simp: level_at_def encode_rung_def Let_def)

lemma stair_Cons: "\<exists>rs. stair (f # fs) t = (cs_input f, cs_output f) # rs \<and> rs \<noteq> []"
proof (induction fs arbitrary: f)
  case (Cons g fs)
  from Cons.IH [of g] show ?case by auto
qed simp

definition positive_combination :: "combination_state \<Rightarrow> bool" where
  "positive_combination c \<longleftrightarrow> 0 < cs_input c \<and> 0 < cs_output c"

lemma stair_staircase:
  assumes "fs \<noteq> []" "sorted_wrt rises fs" "\<forall>c \<in> set fs. positive_combination c" "cs_input (last fs) < t"
  shows "staircase (stair fs t)"
  using assms
proof (induction fs t rule: stair.induct)
  case (3 f g r t)
  obtain rs where rs: "stair (g # r) t = (cs_input g, cs_output g) # rs" using stair_Cons by blast
  from 3 have "staircase (stair (g # r) t)" by auto
  with 3 rs show ?case by (auto simp: staircase_simps climbs_def rises_def positive_combination_def)
qed (auto simp: staircase_simps climbs_def positive_combination_def)

lemma stair_ends:
  "fs \<noteq> [] \<Longrightarrow> fst (hd (stair fs t)) = cs_input (hd fs) \<and> fst (last (stair fs t)) = t"
proof (induction fs t rule: stair.induct)
  case (3 f g r t)
  obtain rs where "stair (g # r) t = (cs_input g, cs_output g) # rs" using stair_Cons by blast
  with 3 show ?case by auto
qed auto

lemma stair_bounds:
  "fs \<noteq> [] \<Longrightarrow> sorted_wrt rises fs \<Longrightarrow> cs_input (last fs) < t \<Longrightarrow> \<forall>c \<in> set fs. cs_output c \<le> B
    \<Longrightarrow> r \<in> set (stair fs t) \<Longrightarrow> fst r \<le> t \<and> snd r \<le> B"
proof (induction fs t rule: stair.induct)
  case (3 f g rr t)
  have "cs_input g \<le> cs_input (last (g # rr))"
    using 3(3) by (cases rr rule: rev_cases) (auto simp: rises_def)
  with 3 show ?case by (auto simp: rises_def split: if_splits)
qed auto

text \<open>
  Interpolating the staircase evaluates the running maximum: on a plateau both ends carry the
  same output, and a jump spans a single input unit, so no intermediate price exists.
\<close>

lemma interp_unit_step:
  assumes "staircase (lo # hi # rs)" "fst hi = fst lo + 1" "fst lo \<le> x"
  shows "interp (lo # hi # rs) x = (if x = fst lo then Some (snd lo) else interp (hi # rs) x)"
proof -
  from assms(1) have c: "climbs lo hi" "staircase (hi # rs)" by (auto simp: staircase_simps)
  consider "x = fst lo" | "x = fst hi" | "x > fst hi" using assms(2,3) by linarith
  then show ?thesis
  proof cases
    case 1
    with assms c show ?thesis by (simp add: chord_ends)
  next
    case 2
    with assms c interp_rung [OF c(2), of hi] chord_ends(2) [OF c(1)] show ?thesis by simp
  next
    case 3
    with assms show ?thesis by simp
  qed
qed

lemma interp_stair:
  assumes "fs \<noteq> []" "sorted_wrt rises fs" "\<forall>c \<in> set fs. positive_combination c" "cs_input (last fs) < t"
    and "cs_input (hd fs) \<le> x" "x \<le> t" "b \<le> cs_output (hd fs)"
  shows "interp (stair fs t) x = Some (best_from b fs x)"
  using assms
proof (induction fs t arbitrary: b rule: stair.induct)
  case (2 f t)
  then show ?case by (simp add: chord_flat best_from_Cons max_absorb2)
next
  case (3 f g r t)
  obtain rs where rs: "stair (g # r) t = (cs_input g, cs_output g) # rs" using stair_Cons by blast
  have s: "staircase (stair (f # g # r) t)" by (rule stair_staircase) (use 3 in auto)
  have fg: "cs_input f < cs_input g" "cs_output f < cs_output g" using 3(3) by (auto simp: rises_def)
  have best: "best_from b (f # g # r) x = best_from (cs_output f) (g # r) x"
    using 3 by (simp add: best_from_Cons max_absorb2)
  have low: "best_from (cs_output f) (g # r) x = cs_output f" if "x < cs_input g"
  proof (rule best_from_above)
    show "\<forall>c \<in> set (g # r). x < cs_input c"
      using that 3(3) by (auto simp: rises_def dest: less_trans)
  qed
  have high: "interp (stair (g # r) t) x = Some (best_from (cs_output f) (g # r) x)" if "cs_input g \<le> x"
    using 3 that fg by (intro "3.IH") auto
  show ?case
  proof (cases "cs_input g - 1 > cs_input f")
    case True
    let ?mid = "(cs_input g - 1, cs_output f)"
    from True rs have st: "stair (f # g # r) t = (cs_input f, cs_output f) # ?mid # (cs_input g, cs_output g) # rs"
      by simp
    with s have s2: "staircase (?mid # (cs_input g, cs_output g) # rs)" by (simp add: staircase_simps)
    show ?thesis
    proof (cases "x \<le> cs_input g - 1")
      case True
      with 3(6) low best show ?thesis unfolding st by (simp add: chord_flat)
    next
      case False
      with interp_unit_step [OF s2, of x] 3(6) high best rs show ?thesis unfolding st by simp
    qed
  next
    case False
    with fg have one: "cs_input g = cs_input f + 1" by linarith
    from False rs have st: "stair (f # g # r) t = (cs_input f, cs_output f) # (cs_input g, cs_output g) # rs"
      by simp
    with interp_unit_step [of "(cs_input f, cs_output f)" "(cs_input g, cs_output g)" rs x] s one 3(6) high low best rs
    show ?thesis unfolding st by (cases "x = cs_input f") simp_all
  qed
qed simp

lemma capped_terminal_bounds:
  assumes "capped_terminal nominal nextOmitted = (t, caps)"
  shows "t \<le> nominal" "t \<le> MAX_SETTLEMENT_AMOUNT" "nextOmitted = Some n \<Longrightarrow> t < cs_input n"
    "caps = [] \<longleftrightarrow> t = nominal"
  using assms by (auto simp: capped_terminal_def Let_def split: if_splits option.splits)

lemma encodePrefix_facts:
  assumes "encodePrefix fr k maxWire tokenIn tokenOut = Inr (Inr e)"
  shows "take k fr \<noteq> []" "cs_input (last (take k fr)) < ef_terminalInput e"
    "ef_terminalInput e \<le> MAX_SETTLEMENT_AMOUNT"
    "ef_terminalInput e \<le> cs_input (last (take k fr)) * 10"
    "k < length fr \<Longrightarrow> ef_terminalInput e < cs_input (fr ! k)"
    "ef_levels e = plateau_levels (take k fr) (ef_terminalInput e)"
    "int (length (ef_levels e)) \<le> maxWire"
    "mapR (combination_of tokenIn tokenOut) (take k fr) = Inr (ef_combinations e)"
proof -
  let ?n = "if k < length fr then Some (fr ! k) else None"
  obtain t caps where c: "capped_terminal (cs_input (last (take k fr)) * 10) ?n = (t, caps)" by fastforce
  have ne: "take k fr \<noteq> []"
  proof
    assume "take k fr = []"
    with assms show False unfolding encodePrefix_def Let_def by simp
  qed
  from assms ne c have f: "int (length (plateau_levels (take k fr) t)) \<le> maxWire"
    "cs_input (last (take k fr)) < t"
    "mapR (combination_of tokenIn tokenOut) (take k fr) = Inr (ef_combinations e)"
    "ef_levels e = plateau_levels (take k fr) t" "ef_terminalInput e = t"
    by (auto simp: encodePrefix_def Let_def bindR_eq_Inr split: if_splits)
  from ne show "take k fr \<noteq> []" .
  from f capped_terminal_bounds [OF c]
  show "cs_input (last (take k fr)) < ef_terminalInput e" "ef_terminalInput e \<le> MAX_SETTLEMENT_AMOUNT"
    "ef_terminalInput e \<le> cs_input (last (take k fr)) * 10"
    "k < length fr \<Longrightarrow> ef_terminalInput e < cs_input (fr ! k)"
    "ef_levels e = plateau_levels (take k fr) (ef_terminalInput e)"
    "int (length (ef_levels e)) \<le> maxWire"
    "mapR (combination_of tokenIn tokenOut) (take k fr) = Inr (ef_combinations e)"
    by auto
qed

definition frontier_ok :: "combination_state list \<Rightarrow> bool" where
  "frontier_ok fr \<longleftrightarrow> sorted_wrt rises fr \<and> (\<forall>c \<in> set fr. valid_combination c)"

lemma settlement_u256: "MAX_SETTLEMENT_AMOUNT \<le> MAX_U256"
  by (simp add: MAX_SETTLEMENT_AMOUNT_def MAX_U256_def)

lemma encoded_stair:
  assumes "encodePrefix fr k maxWire tokenIn tokenOut = Inr (Inr e)" "frontier_ok fr" "maxWire \<le> 64"
  shows "published (ef_levels e)"
    and "cs_input (hd fr) \<le> x \<Longrightarrow> x \<le> ef_terminalInput e \<Longrightarrow>
      interp (map rung_of (ef_levels e)) x = Some (best_output fr x)"
    and "fst (rung_of (hd (ef_levels e))) = cs_input (hd fr)"
    and "fst (rung_of (last (ef_levels e))) = ef_terminalInput e"
proof -
  note f = encodePrefix_facts [OF assms(1)]
  let ?rt = "take k fr" and ?t = "ef_terminalInput e"
  have fr: "fr = ?rt @ drop k fr" by simp
  have sw: "sorted_wrt rises ?rt" and sub: "set ?rt \<subseteq> set fr"
    using assms(2) by (auto simp: frontier_ok_def sorted_wrt_take dest: in_set_takeD)
  have pos: "\<forall>c \<in> set ?rt. positive_combination c" and out: "\<forall>c \<in> set ?rt. cs_output c \<le> MAX_SETTLEMENT_AMOUNT"
    using assms(2) sub by (auto simp: frontier_ok_def valid_combination_def positive_combination_def)
  have lv: "ef_levels e = map encode_rung (stair ?rt ?t)" by (simp add: f(6) plateau_levels_stair)
  have st: "staircase (stair ?rt ?t)" by (rule stair_staircase [OF f(1) sw pos f(2)])
  show "published (ef_levels e)"
    unfolding lv
  proof (rule published_encode [OF st])
    show "length (stair ?rt ?t) \<le> 64" using f(7) assms(3) lv by simp
    show "\<forall>r \<in> set (stair ?rt ?t). fst r \<le> MAX_U256 \<and> snd r \<le> MAX_U256"
    proof
      fix r assume "r \<in> set (stair ?rt ?t)"
      from stair_bounds [OF f(1) sw f(2) out this] f(3) settlement_u256
      show "fst r \<le> MAX_U256 \<and> snd r \<le> MAX_U256" by linarith
    qed
  qed
  have ne: "ef_levels e \<noteq> []" using st by (auto simp: lv staircase_simps)
  have hd: "hd ?rt = hd fr" using f(1) by (cases fr; cases k) auto
  show "fst (rung_of (hd (ef_levels e))) = cs_input (hd fr)"
    "fst (rung_of (last (ef_levels e))) = ?t"
    using stair_ends [OF f(1), of ?t] ne hd by (simp_all add: lv hd_map last_map)
  assume x: "cs_input (hd fr) \<le> x" "x \<le> ?t"
  have "best_output fr x = best_output ?rt x"
  proof -
    have "x < cs_input c" if "c \<in> set (drop k fr)" for c
    proof -
      from that have k: "k < length fr" by (cases "k < length fr") auto
      then have d: "drop k fr = fr ! k # drop (Suc k) fr" by (simp add: Cons_nth_drop_Suc)
      have "sorted_wrt rises (drop k fr)" using assms(2) by (simp add: frontier_ok_def sorted_wrt_drop)
      with that d have "cs_input (fr ! k) \<le> cs_input c" by (auto simp: rises_def)
      with f(5) [OF k] x(2) show ?thesis by linarith
    qed
    then have "{c \<in> set fr. cs_input c \<le> x} = {c \<in> set ?rt. cs_input c \<le> x}"
      using fr by (metis (no_types, lifting) Un_iff leD set_append)
    then show ?thesis by (simp add: best_from_def)
  qed
  moreover have "positive_combination (hd ?rt)" using pos hd_in_set [OF f(1)] by blast
  then have "interp (stair ?rt ?t) x = Some (best_output ?rt x)"
    using x by (intro interp_stair [OF f(1) sw pos f(2)]) (simp_all add: positive_combination_def hd)
  ultimately show "interp (map rung_of (ef_levels e)) x = Some (best_output fr x)"
    by (simp add: lv comp_def)
qed

context ladder_quoter
begin

lemma quote_encoded:
  assumes "encodePrefix fr k maxWire tokenIn tokenOut = Inr (Inr e)" "frontier_ok fr" "maxWire \<le> 64"
  shows "quote (ef_levels e) x = Inr (if cs_input (hd fr) \<le> x \<and> x \<le> ef_terminalInput e
    then Some (best_output fr x) else None)"
proof (cases "cs_input (hd fr) \<le> x \<and> x \<le> ef_terminalInput e")
  case True
  with encoded_stair [OF assms] quote_interp show ?thesis by simp
next
  case False
  with quote_range [OF encoded_stair(1) [OF assms], of x] encoded_stair(3,4) [OF assms]
  have "\<nexists>q. quote (ef_levels e) x = Inr (Some q)" by simp
  moreover obtain r where "quote (ef_levels e) x = Inr r"
    using quote_total [OF encoded_stair(1) [OF assms]] by blast
  ultimately show ?thesis using False by (cases r) auto
qed

end

section \<open>From the exact map to the wire\<close>

lemma frontier_ok_records:
  assumes "exact_ok exact" "mset cs = mset (map snd exact)" "sorted_wrt (\<lambda>c d. cs_input c < cs_input d) cs"
  shows "frontier_ok (records 0 cs)" "best_output (records 0 cs) x = best_output (map snd exact) x"
proof -
  have "set cs = snd ` set exact" using assms(2) by (metis list.set_map set_mset_mset)
  then have "\<forall>c \<in> set (records 0 cs). valid_combination c"
    using assms(1) records_subset [of 0 cs] by (fastforce simp: exact_ok_def)
  then show "frontier_ok (records 0 cs)" by (simp add: frontier_ok_def records_rises [OF assms(3)])
  have "set cs = set (map snd exact)" using assms(2) mset_eq_setD by blast
  then show "best_output (records 0 cs) x = best_output (map snd exact) x"
    by (simp add: best_from_records [OF assms(3)] best_from_set)
qed

text \<open>\<open>minimum === undefined ? frontier : frontier.filter(entry => entry.output >= minimum)\<close>\<close>

definition apply_minimum :: "int option \<Rightarrow> combination_state list \<Rightarrow> combination_state list" where
  "apply_minimum minimum frontier = (case minimum of
     None \<Rightarrow> frontier
   | Some m \<Rightarrow> filter (\<lambda>entry. cs_output entry \<ge> m) frontier)"

lemma best_filter:
  assumes "sorted_wrt rises fr" "filter (\<lambda>e. m \<le> cs_output e) fr \<noteq> []"
    "cs_input (hd (filter (\<lambda>e. m \<le> cs_output e) fr)) \<le> x"
    "\<forall>c \<in> set fr. positive_combination c" "b \<le> 0"
  shows "best_from b (filter (\<lambda>e. m \<le> cs_output e) fr) x = best_from b fr x"
  using assms
proof (induction fr arbitrary: b)
  case (Cons c fr)
  show ?case
  proof (cases "m \<le> cs_output c")
    case True
    with Cons.prems(1) have "filter (\<lambda>e. m \<le> cs_output e) fr = fr" by (auto simp: rises_def filter_id_conv)
    with True show ?thesis by simp
  next
    case False
    let ?h = "hd (filter (\<lambda>e. m \<le> cs_output e) fr)"
    from Cons.prems False have ne: "filter (\<lambda>e. m \<le> cs_output e) fr \<noteq> []" by simp
    then have h: "?h \<in> set (filter (\<lambda>e. m \<le> cs_output e) fr)" by (rule hd_in_set)
    then have m: "m \<le> cs_output ?h" "?h \<in> set fr" by auto
    have r: "rises c ?h" using Cons.prems(1) m(2) by auto
    have x: "cs_input ?h \<le> x" using Cons.prems(3) False by simp
    have "best_from b (c # fr) x = best_from b fr x"
    proof -
      have "cs_output c \<le> Max (insert b (cs_output ` {d \<in> set fr. cs_input d \<le> x}))"
        using m r x by (intro Max_ge_iff [THEN iffD2]) (auto simp: rises_def intro!: bexI [of _ ?h])
      moreover have "finite (cs_output ` {d \<in> set fr. cs_input d \<le> x})" by simp
      moreover have "cs_input c \<le> x" using r x by (simp add: rises_def)
      moreover have "{d \<in> set (c # fr). cs_input d \<le> x} = insert c {d \<in> set fr. cs_input d \<le> x}"
        using \<open>cs_input c \<le> x\<close> by auto
      ultimately show ?thesis unfolding best_from_def
        by (simp add: insert_commute [of b] max_absorb2 del: Max_insert)
          (subst Max_insert; simp add: max_absorb2)
    qed
    moreover have "best_from b (filter (\<lambda>e. m \<le> cs_output e) fr) x = best_from b fr x"
      using Cons.prems False ne x by (intro Cons.IH) auto
    ultimately show ?thesis using False by simp
  qed
qed simp

lemma frontier_ok_filter: "frontier_ok fr \<Longrightarrow> frontier_ok (filter P fr)"
  by (auto simp: frontier_ok_def intro: sorted_wrt_filter)

lemma frontier_ok_positive: "frontier_ok fr \<Longrightarrow> \<forall>c \<in> set fr. positive_combination c"
  by (auto simp: frontier_ok_def valid_combination_def positive_combination_def)

lemma apply_minimum_best:
  assumes "frontier_ok fr" "apply_minimum minimum fr \<noteq> []" "cs_input (hd (apply_minimum minimum fr)) \<le> x"
  shows "frontier_ok (apply_minimum minimum fr)" "best_output (apply_minimum minimum fr) x = best_output fr x"
  using assms best_filter [of fr _ x 0] frontier_ok_positive [OF assms(1)]
  by (auto simp: apply_minimum_def frontier_ok_filter frontier_ok_def [of fr] split: option.splits)

lemma longest_loop_success:
  "longest_loop fr maxWire tokenIn tokenOut ks st = Inr (Some e, reasons) \<Longrightarrow>
   fst st = Some e \<or> (\<exists>k \<in> set ks. encodePrefix fr k maxWire tokenIn tokenOut = Inr (Inr e))"
proof (induction fr maxWire tokenIn tokenOut ks st rule: longest_loop.induct)
  case (2 fr maxWire tokenIn tokenOut k ks best reasons0)
  then obtain x where x: "encodePrefix fr k maxWire tokenIn tokenOut = Inr x" by (auto simp: bindR_eq_Inr)
  with 2 show ?case by (cases x) auto
qed auto

lemma longestEncodable_prefix:
  assumes "longestEncodableFrontier fr maxWire tokenIn tokenOut = Inr (Some e, reasons)"
  obtains k e0 where "0 < k" "encodePrefix fr k maxWire tokenIn tokenOut = Inr (Inr e0)"
    "ef_levels e = ef_levels e0" "ef_terminalInput e = ef_terminalInput e0"
    "ef_combinations e = ef_combinations e0"
proof -
  from assms obtain e0 rs where
    l: "longest_loop fr maxWire tokenIn tokenOut [1..<Suc (nat (min (int (length fr)) (maxWire - 1)))] (None, [])
      = Inr (Some e0, rs)"
    and e: "ef_levels e = ef_levels e0" "ef_terminalInput e = ef_terminalInput e0"
      "ef_combinations e = ef_combinations e0"
    by (auto simp: longestEncodableFrontier_def Let_def bindR_eq_Inr split: option.splits prod.splits)
  from longest_loop_success [OF l] obtain k where
    "k \<in> set [1..<Suc (nat (min (int (length fr)) (maxWire - 1)))]"
    "encodePrefix fr k maxWire tokenIn tokenOut = Inr (Inr e0)" by auto
  moreover from this(1) have "0 < k" by auto
  ultimately show thesis using that e by blast
qed

text \<open>The pipeline of one pair: frontier, minimum output, longest prefix that fits the wire.\<close>

lemma pipeline_encoded:
  assumes "exact_ok exact"
    and "bestOutputFrontier comparisons exact cb polls = ((frontier, None), polls')"
    and "longestEncodableFrontier (apply_minimum minimum frontier) maxWire tokenIn tokenOut = Inr (Some e, reasons)"
    and "maxWire \<le> 64"
  obtains k e0 where "encodePrefix (apply_minimum minimum frontier) k maxWire tokenIn tokenOut = Inr (Inr e0)"
    "frontier_ok (apply_minimum minimum frontier)" "apply_minimum minimum frontier \<noteq> []"
    "ef_levels e = ef_levels e0" "ef_terminalInput e = ef_terminalInput e0"
    "\<And>x. cs_input (hd (apply_minimum minimum frontier)) \<le> x \<Longrightarrow>
       best_output (apply_minimum minimum frontier) x = best_output (map snd exact) x"
proof -
  let ?fr = "apply_minimum minimum frontier"
  obtain cs where cs: "mset cs = mset (map snd exact)" "sorted_wrt (\<lambda>c d. cs_input c < cs_input d) cs"
    "frontier = records 0 cs"
    using bestOutputFrontier_records [OF assms(1,2)] .
  note fo = frontier_ok_records [OF assms(1) cs(1,2)]
  obtain k e0 where k: "encodePrefix ?fr k maxWire tokenIn tokenOut = Inr (Inr e0)"
    "ef_levels e = ef_levels e0" "ef_terminalInput e = ef_terminalInput e0"
    using longestEncodable_prefix [OF assms(3)] .
  have ne: "?fr \<noteq> []" using encodePrefix_facts(1) [OF k(1)] by auto
  have ok: "frontier_ok ?fr"
    using fo(1) by (auto simp: apply_minimum_def cs(3) frontier_ok_filter split: option.split)
  from that [OF k(1) ok ne k(2,3)] apply_minimum_best(2) fo ne show thesis by (simp add: cs(3))
qed

section \<open>Properties\<close>

text \<open>
  The published ladder is exact. For every amount between the first published
  threshold and the terminal input, the relay's interpolation of the published rungs is the best
  output among all combinations of the search whose required input does not exceed the amount;
  outside that range the relay refuses. The rungs are always a schema-valid ladder.
\<close>

theorem published_ladder_quotes_best:
  assumes "exact_ok exact"
    and "bestOutputFrontier comparisons exact cb polls = ((frontier, None), polls')"
    and "longestEncodableFrontier (apply_minimum minimum frontier) maxWire tokenIn tokenOut = Inr (Some e, reasons)"
    and "maxWire \<le> 64"
  shows "relay_interpolateQuote (ef_levels e) x =
     Inr (if cs_input (hd (apply_minimum minimum frontier)) \<le> x \<and> x \<le> ef_terminalInput e
          then Some (best_output (map snd exact) x) else None)
   \<and> rejectLevels (JArr (map level_json (ef_levels e))) = None"
proof -
  let ?fr = "apply_minimum minimum frontier"
  obtain k e0 where k: "encodePrefix ?fr k maxWire tokenIn tokenOut = Inr (Inr e0)"
    "frontier_ok ?fr" "ef_levels e = ef_levels e0" "ef_terminalInput e = ef_terminalInput e0"
    and best: "\<And>x. cs_input (hd ?fr) \<le> x \<Longrightarrow> best_output ?fr x = best_output (map snd exact) x"
    using pipeline_encoded [OF assms] by metis
  have "published (ef_levels e)" using encoded_stair(1) [OF k(1,2) assms(4)] k(3) by simp
  moreover have "list_all2 level_view (map level_json (ef_levels e)) (ef_levels e)"
    by (simp add: list_all2_conv_all_nth)
  ultimately have "rejectLevels (JArr (map level_json (ef_levels e))) = None"
    using rejectLevels_None_iff by blast
  with relay_quoter.quote_encoded [OF k(1,2) assms(4), of x] best k(3,4) show ?thesis by simp
qed

subsection \<open>Concrete inputs\<close>

definition sample_combination :: "int \<Rightarrow> int \<Rightarrow> string \<times> combination_state" where
  "sample_combination i out =
     (bigint_to_string i, \<lparr>cs_input = i, cs_output = out, cs_offerHashes = [], cs_tokenBalances = None\<rparr>)"

definition sample_exact :: exact_map where
  "sample_exact = [sample_combination 30 9, sample_combination 10 5, sample_combination 20 4]"

lemma sample_exact_ok: "exact_ok sample_exact"
  by (simp add: exact_ok_def sample_exact_def sample_combination_def valid_combination_def
      MAX_SETTLEMENT_AMOUNT_def)

lemma sample_frontier:
  "bestOutputFrontier (\<lambda>_. 3) sample_exact None 0 =
     (([snd (sample_combination 10 5), snd (sample_combination 30 9)], None), 0)"
  by (simp add: bestOutputFrontier_def sample_exact_def sample_combination_def abortReason_def)

theorem published_ladder_quotes_best_witness:
  "\<exists>e reasons. longestEncodableFrontier
      (apply_minimum None [snd (sample_combination 10 5), snd (sample_combination 30 9)]) 64
      (ident CHR ''a'') (ident CHR ''b'') = Inr (Some e, reasons)
    \<and> relay_interpolateQuote (ef_levels e) 25 = Inr (Some 5)"
proof -
  let ?fr = "[snd (sample_combination 10 5), snd (sample_combination 30 9)]"
  have ser: "combination_of (ident CHR ''a'') (ident CHR ''b'') (snd (sample_combination i out)) =
      Inr \<lparr>cp_input = bigint_to_string i, cp_output = bigint_to_string out, cp_offerHashes = [],
           cp_tokenBalances = [\<lparr>sb_token = ident CHR ''a'', sb_gives = bigint_to_string 0,
              sb_wants = bigint_to_string i, sb_net = bigint_to_string (- i)\<rparr>,
             \<lparr>sb_token = ident CHR ''b'', sb_gives = bigint_to_string out,
              sb_wants = bigint_to_string 0, sb_net = bigint_to_string out\<rparr>]\<rparr>"
    if "0 \<le> i" "0 \<le> out" for i out
    using that by (simp add: combination_of_def sample_combination_def serializeWholeOfferTokenBalances_def
        eval_accounting)
  obtain e reasons where e: "longestEncodableFrontier (apply_minimum None ?fr) 64
      (ident CHR ''a'') (ident CHR ''b'') = Inr (Some e, reasons)" and t: "ef_terminalInput e = 300"
    using ser by (auto simp: longestEncodableFrontier_def apply_minimum_def encodePrefix_def Let_def
        capped_terminal_def MAX_SETTLEMENT_AMOUNT_def level_at_def upt_rec sample_combination_def)
  have b: "best_output (map snd sample_exact) 25 = 5"
    by (simp add: best_from_Cons sample_exact_def sample_combination_def)
  have h: "cs_input (hd (apply_minimum None ?fr)) = 10"
    by (simp add: apply_minimum_def sample_combination_def)
  from published_ladder_quotes_best [OF sample_exact_ok sample_frontier e, of 25] e b h t
  show ?thesis by auto
qed

end
