(* ===== verification/Merge_Order.thy ===== *)
theory Merge_Order
  imports Whole_Offer
begin

text \<open>
  Model of \<open>findSafeWholeOfferMergeOrder\<close> (\<^verbatim>\<open>packages/solver-core/whole-offer-balance.ts\<close>): the
  sorted-hash fast path, and the memoised depth-first search over subset masks, with its
  failed-mask set, balances per mask, path, transition counter and abort polls as an explicit
  state. Masks are natural numbers read by bits, as in the code.
\<close>

section \<open>Data\<close>

record merge_entry =
  me_hash :: string
  me_rows :: "token_balance list"

record merge_options =
  mo_maximumDelta :: "int option"
  mo_maxSources :: "int option"
  mo_maxWork :: "int option"
  mo_shouldAbort :: abort_callback

datatype merge_failure =
  Too_many_sources
| Unsafe_merge_order
| Merge_order_work_cap
| Merge_aborted
| Merge_abort_check_failed

datatype interrupt_reason = Aborted | Abort_check_failed

datatype merge_result =
  Merge_ok "string list" bool int
| Merge_failed merge_failure int

type_synonym net_map = "string \<Rightarrow> int option"

record merge_search =
  ms_failed :: "nat set"
  ms_balances :: "nat \<Rightarrow> net_map option"
  ms_path :: "nat list"
  ms_work :: int
  ms_exhausted :: bool
  ms_interrupt :: "interrupt_reason option"
  ms_polls :: nat

section \<open>Operations\<close>

definition sourceNetRows :: "'a balance_source_scheme \<Rightarrow> token_balance list result" where
  "sourceNetRows s = accountWholeOfferBalances [s]"

fun addNetRows :: "net_map \<Rightarrow> token_balance list \<Rightarrow> int \<Rightarrow> net_map option" where
  "addNetRows current [] maximumDelta = Some current"
| "addNetRows current (row # rows) maximumDelta =
     (let amount = (case current (tb_token row) of Some a \<Rightarrow> a | None \<Rightarrow> 0) + tb_net row in
      if amount < - maximumDelta \<or> amount > maximumDelta then None
      else if amount = 0 then addNetRows (current(tb_token row := None)) rows maximumDelta
      else addNetRows (current(tb_token row \<mapsto> amount)) rows maximumDelta)"

text \<open>The merge of a whole sequence in its given order, as the fast path tries it.\<close>

fun merge_in_order :: "int \<Rightarrow> net_map \<Rightarrow> merge_entry list \<Rightarrow> net_map option" where
  "merge_in_order maximumDelta current [] = Some current"
| "merge_in_order maximumDelta current (e # es) =
     (case addNetRows current (me_rows e) maximumDelta of
        None \<Rightarrow> None
      | Some next \<Rightarrow> merge_in_order maximumDelta next es)"

definition poll :: "abort_callback \<Rightarrow> nat \<Rightarrow> poll_answer \<times> nat" where
  "poll shouldAbort polls = (case shouldAbort of
     None \<Rightarrow> (Continue, polls)
   | Some answer \<Rightarrow> (answer polls, Suc polls))"

text \<open>One counted transition: the budget unit, and the abort poll on every 256th of them.\<close>

definition tick :: "abort_callback \<Rightarrow> merge_search \<Rightarrow> poll_answer \<times> merge_search" where
  "tick shouldAbort st =
     (let work = ms_work st + 1;
          (answer, polls) = (if work mod 256 = 0 then poll shouldAbort (ms_polls st)
                             else (Continue, ms_polls st))
      in (answer, st\<lparr>ms_work := work, ms_polls := polls\<rparr>))"

definition interrupted :: "interrupt_reason \<Rightarrow> merge_search \<Rightarrow> merge_search" where
  "interrupted reason st = st\<lparr>ms_exhausted := True, ms_interrupt := Some reason\<rparr>"

definition enter_mask :: "nat \<Rightarrow> net_map \<Rightarrow> nat \<Rightarrow> merge_search \<Rightarrow> merge_search" where
  "enter_mask nextMask nextBalances index st =
     st\<lparr>ms_balances := (ms_balances st)(nextMask \<mapsto> nextBalances), ms_path := ms_path st @ [index]\<rparr>"

definition leave_mask :: "merge_search \<Rightarrow> merge_search" where
  "leave_mask st = st\<lparr>ms_path := butlast (ms_path st)\<rparr>"

abbreviation bits :: "nat \<Rightarrow> nat set" where
  "bits m \<equiv> {i. bit m i}"

lemma unset_decreases:
  assumes "index < n" "\<not> bit m index"
  shows "card ({..<n} - bits (set_bit index m)) < card ({..<n} - bits m)"
proof (rule psubset_card_mono)
  have "bits (set_bit index m) = insert index (bits m)"
    by (auto simp: bit_set_bit_iff)
  with assms show "{..<n} - bits (set_bit index m) \<subset> {..<n} - bits m" by auto
qed simp

function
  mask_search :: "merge_entry list \<Rightarrow> int \<Rightarrow> int \<Rightarrow> abort_callback \<Rightarrow> nat \<Rightarrow> merge_search
    \<Rightarrow> bool \<times> merge_search"
and mask_loop :: "merge_entry list \<Rightarrow> int \<Rightarrow> int \<Rightarrow> abort_callback \<Rightarrow> nat \<Rightarrow> net_map \<Rightarrow> nat
    \<Rightarrow> merge_search \<Rightarrow> bool \<times> merge_search"
where
  "mask_search ordered delta maxWork cb m st =
     (if m = 2 ^ length ordered - 1 then (True, st)
      else if m \<in> ms_failed st then (False, st)
      else mask_loop ordered delta maxWork cb m (the (ms_balances st m)) 0 st)"
| "mask_loop ordered delta maxWork cb m balances index st =
     (if length ordered \<le> index then (False, st\<lparr>ms_failed := insert m (ms_failed st)\<rparr>)
      else if bit m index then mask_loop ordered delta maxWork cb m balances (Suc index) st
      else if ms_work st \<ge> maxWork then (False, st\<lparr>ms_exhausted := True\<rparr>)
      else case tick cb st of (answer, st2) \<Rightarrow> case answer of
          Abort \<Rightarrow> (False, interrupted Aborted st2)
        | Throws \<Rightarrow> (False, interrupted Abort_check_failed st2)
        | Continue \<Rightarrow>
          (case addNetRows balances (me_rows (ordered ! index)) delta of
             None \<Rightarrow> mask_loop ordered delta maxWork cb m balances (Suc index) st2
           | Some nextBalances \<Rightarrow>
              (case mask_search ordered delta maxWork cb (set_bit index m)
                      (enter_mask (set_bit index m) nextBalances index st2) of
                 (found, st3) \<Rightarrow>
                   if found then (True, st3)
                   else if ms_exhausted st3 then (False, leave_mask st3)
                   else mask_loop ordered delta maxWork cb m balances (Suc index) (leave_mask st3))))"
  by pat_completeness auto

termination
  by (relation "measures [
        \<lambda>x. case x of Inl (ordered, _, _, _, m, _) \<Rightarrow> card ({..<length ordered} - bits m)
          | Inr (ordered, _, _, _, m, _, _, _) \<Rightarrow> card ({..<length ordered} - bits m),
        \<lambda>x. case x of Inl (ordered, _) \<Rightarrow> Suc (length ordered)
          | Inr (ordered, _, _, _, _, _, index, _) \<Rightarrow> length ordered - index]")
    (auto simp: unset_decreases)

declare mask_search.simps [simp del] mask_loop.simps [simp del]

definition merge_entry_of :: "merge_source \<Rightarrow> merge_entry result" where
  "merge_entry_of s =
     bindR (canonicalToken (src_hash s)) (\<lambda>h.
     bindR (sourceNetRows s) (\<lambda>rows. Inr \<lparr>me_hash = h, me_rows = rows\<rparr>))"

definition initial_search :: "nat \<Rightarrow> merge_search" where
  "initial_search polls = \<lparr>ms_failed = {}, ms_balances = [0 \<mapsto> Map.empty], ms_path = [], ms_work = 0,
     ms_exhausted = False, ms_interrupt = None, ms_polls = polls\<rparr>"

definition plan_merge :: "merge_entry list \<Rightarrow> int \<Rightarrow> int \<Rightarrow> abort_callback \<Rightarrow> nat \<Rightarrow> merge_result \<times> nat" where
  "plan_merge ordered delta maxWork cb polls =
     (case merge_in_order delta Map.empty ordered of
        Some _ \<Rightarrow> (Merge_ok (map me_hash ordered) False 0, polls)
      | None \<Rightarrow>
        let (found, st) = mask_search ordered delta maxWork cb 0 (initial_search polls) in
        ((if found then Merge_ok (map (\<lambda>i. me_hash (ordered ! i)) (ms_path st)) True (ms_work st)
          else Merge_failed (case ms_interrupt st of Some Aborted \<Rightarrow> Merge_aborted
                 | Some Abort_check_failed \<Rightarrow> Merge_abort_check_failed
                 | None \<Rightarrow> if ms_exhausted st then Merge_order_work_cap else Unsafe_merge_order)
               (ms_work st)), ms_polls st))"

definition findSafeWholeOfferMergeOrder ::
    "merge_source list \<Rightarrow> merge_options \<Rightarrow> nat \<Rightarrow> (merge_result \<times> nat) result" where
  "findSafeWholeOfferMergeOrder sources options polls =
     (let maximumDelta = (case mo_maximumDelta options of Some d \<Rightarrow> d | None \<Rightarrow> MAX_SETTLEMENT_AMOUNT);
          maxSources = (case mo_maxSources options of Some n \<Rightarrow> n | None \<Rightarrow> MAX_PHYSICAL_MAKERS_PER_MERGE);
          maxWork = (case mo_maxWork options of Some w \<Rightarrow> w | None \<Rightarrow> MAX_SAFE_MERGE_ORDER_WORK)
      in if maximumDelta \<le> 0 \<or> maximumDelta > MAX_SETTLEMENT_AMOUNT
         then Inl (RangeError ''maximumDelta'')
         else if \<not> is_safe_integer maxSources \<or> maxSources < 1 \<or> maxSources > MAX_PHYSICAL_MAKERS_PER_MERGE
         then Inl (RangeError ''maxSources'')
         else if \<not> is_safe_integer maxWork \<or> maxWork < 0 \<or> maxWork > MAX_SAFE_MERGE_ORDER_WORK
         then Inl (RangeError ''maxWork'')
         else if int (length sources) > maxSources then Inr (Merge_failed Too_many_sources 0, polls)
         else bindR (mapR merge_entry_of sources) (\<lambda>entries.
           let ordered = sort_key me_hash entries in
           if length (js_uniq (map me_hash ordered)) \<noteq> length ordered
           then Inl (TypeError ''duplicate offer hash in merge sources'')
           else Inr (plan_merge ordered maximumDelta maxWork (mo_shouldAbort options) polls)))"

section \<open>Specification: orders with representable prefixes\<close>

text \<open>
  \<open>prefix_safe\<close>: after every prefix of the order, every token's running net lies in
  \<open>[-delta, delta]\<close>. \<open>safe_from\<close> is the same, step by step, from a running net vector.
\<close>

definition entry_net :: "merge_entry list \<Rightarrow> string \<Rightarrow> int" where
  "entry_net es t = (\<Sum>e\<leftarrow>es. net_of (me_rows e) t)"

definition prefix_safe :: "int \<Rightarrow> merge_entry list \<Rightarrow> bool" where
  "prefix_safe delta es \<longleftrightarrow> (\<forall>k \<le> length es. \<forall>t. \<bar>entry_net (take k es) t\<bar> \<le> delta)"

fun safe_from :: "int \<Rightarrow> (string \<Rightarrow> int) \<Rightarrow> merge_entry list \<Rightarrow> bool" where
  "safe_from delta net [] \<longleftrightarrow> True"
| "safe_from delta net (e # es) \<longleftrightarrow>
     (\<forall>t. \<bar>net t + net_of (me_rows e) t\<bar> \<le> delta) \<and> safe_from delta (\<lambda>t. net t + net_of (me_rows e) t) es"

lemma entry_net_simps [simp]:
  "entry_net [] t = 0"
  "entry_net (e # es) t = net_of (me_rows e) t + entry_net es t"
  "entry_net (xs @ ys) t = entry_net xs t + entry_net ys t"
  by (simp_all add: entry_net_def)

lemma safe_from_iff:
  "safe_from delta net es \<longleftrightarrow> (\<forall>k. 0 < k \<and> k \<le> length es \<longrightarrow> (\<forall>t. \<bar>net t + entry_net (take k es) t\<bar> \<le> delta))"
proof (induction es arbitrary: net)
  case (Cons e es)
  have "(\<forall>k. 0 < k \<and> k \<le> length (e # es) \<longrightarrow> P k) \<longleftrightarrow> P 1 \<and> (\<forall>k. 0 < k \<and> k \<le> length es \<longrightarrow> P (Suc k))" for P
  proof (intro iffI allI impI)
    fix k assume l: "P 1 \<and> (\<forall>k. 0 < k \<and> k \<le> length es \<longrightarrow> P (Suc k))"
      and k: "0 < k \<and> k \<le> length (e # es)"
    from k obtain j where "k = Suc j" by (cases k) auto
    with k l show "P k" by (cases "j = 0") auto
  qed auto
  then show ?case by (simp add: Cons.IH add.assoc)
qed simp

lemma prefix_safe_safe_from: "0 \<le> delta \<Longrightarrow> prefix_safe delta es \<longleftrightarrow> safe_from delta (\<lambda>_. 0) es"
proof -
  assume "0 \<le> delta"
  then have "prefix_safe delta es \<longleftrightarrow>
      (\<forall>k. 0 < k \<and> k \<le> length es \<longrightarrow> (\<forall>t. \<bar>entry_net (take k es) t\<bar> \<le> delta))"
    unfolding prefix_safe_def
  proof (intro iffI allI impI)
    fix k t assume l: "\<forall>k. 0 < k \<and> k \<le> length es \<longrightarrow> (\<forall>t. \<bar>entry_net (take k es) t\<bar> \<le> delta)"
      and "k \<le> length es" "0 \<le> delta"
    then show "\<bar>entry_net (take k es) t\<bar> \<le> delta" by (cases "k = 0") auto
  qed auto
  then show ?thesis by (simp add: safe_from_iff)
qed

lemma safe_from_append:
  "safe_from delta net (xs @ ys) \<longleftrightarrow> safe_from delta net xs \<and> safe_from delta (\<lambda>t. net t + entry_net xs t) ys"
  by (induction xs arbitrary: net) (simp_all add: add.assoc)

subsection \<open>One merge step\<close>

definition net_fn :: "net_map \<Rightarrow> string \<Rightarrow> int" where
  "net_fn bal t = (case bal t of Some a \<Rightarrow> a | None \<Rightarrow> 0)"

definition within :: "int \<Rightarrow> (string \<Rightarrow> int) \<Rightarrow> bool" where
  "within delta net \<longleftrightarrow> (\<forall>t. \<bar>net t\<bar> \<le> delta)"

lemma net_fn_upd:
  "net_fn (bal(k \<mapsto> a)) t = (if t = k then a else net_fn bal t)"
  "net_fn (bal(k := None)) t = (if t = k then 0 else net_fn bal t)"
  by (simp_all add: net_fn_def)

definition net_store :: "net_map \<Rightarrow> string \<Rightarrow> int \<Rightarrow> net_map" where
  "net_store bal k a = (if a = 0 then bal(k := None) else bal(k \<mapsto> a))"

lemma net_fn_store [simp]: "net_fn (net_store bal k a) t = (if t = k then a else net_fn bal t)"
  by (simp add: net_store_def net_fn_upd)

lemma addNetRows_Cons:
  "addNetRows bal (row # rows) delta =
     (let a = net_fn bal (tb_token row) + tb_net row in
      if \<bar>a\<bar> \<le> delta then addNetRows (net_store bal (tb_token row) a) rows delta else None)"
  by (auto simp: net_fn_def net_store_def Let_def abs_le_iff)

declare addNetRows.simps(2) [simp del]

lemma addNetRows_Some:
  "addNetRows bal rows delta = Some bal' \<Longrightarrow> net_fn bal' t = net_fn bal t + net_of rows t"
proof (induction rows arbitrary: bal)
  case (Cons row rows)
  from Cons.prems Cons.IH show ?case
    by (fastforce simp: addNetRows_Cons Let_def split: if_splits)
qed simp

lemma addNetRows_defined:
  assumes "distinct (map tb_token rows)"
  shows "addNetRows bal rows delta \<noteq> None \<longleftrightarrow>
    (\<forall>r \<in> set rows. \<bar>net_fn bal (tb_token r) + tb_net r\<bar> \<le> delta)"
  using assms
proof (induction rows arbitrary: bal)
  case (Cons row rows)
  have "tb_token r \<noteq> tb_token row" if "r \<in> set rows" for r
    using that Cons.prems by (auto simp: image_iff)
  with Cons show ?case
    by (auto simp: addNetRows_Cons Let_def)
qed simp

lemma addNetRows_iff:
  assumes "distinct (map tb_token rows)" and "within delta (net_fn bal)"
  shows "addNetRows bal rows delta = None \<longleftrightarrow> \<not> within delta (\<lambda>t. net_fn bal t + net_of rows t)"
proof -
  have "(\<forall>r \<in> set rows. \<bar>net_fn bal (tb_token r) + tb_net r\<bar> \<le> delta) \<longleftrightarrow>
      (\<forall>t. \<bar>net_fn bal t + net_of rows t\<bar> \<le> delta)"
    (is "?l \<longleftrightarrow> ?r")
  proof
    assume l: ?l
    show ?r
    proof
      fix t show "\<bar>net_fn bal t + net_of rows t\<bar> \<le> delta"
      proof (cases "t \<in> tb_token ` set rows")
        case True
        then obtain r where "r \<in> set rows" "t = tb_token r" by blast
        with l show ?thesis by (simp add: net_of_member [OF assms(1)])
      next
        case False
        with assms(2) show ?thesis by (simp add: net_of_absent within_def)
      qed
    qed
  next
    assume r: ?r
    show ?l
    proof
      fix x assume "x \<in> set rows"
      with r [rule_format, of "tb_token x"] show "\<bar>net_fn bal (tb_token x) + tb_net x\<bar> \<le> delta"
        by (simp add: net_of_member [OF assms(1)])
    qed
  qed
  moreover have "addNetRows bal rows delta = None \<longleftrightarrow>
      \<not> (\<forall>r \<in> set rows. \<bar>net_fn bal (tb_token r) + tb_net r\<bar> \<le> delta)"
    using addNetRows_defined [OF assms(1), of bal delta] by blast
  ultimately show ?thesis by (simp add: within_def)
qed

definition good_entries :: "merge_entry list \<Rightarrow> bool" where
  "good_entries es \<longleftrightarrow> (\<forall>e \<in> set es. distinct (map tb_token (me_rows e)))"

lemma merge_in_order_iff:
  assumes "good_entries es" and "within delta (net_fn bal)"
  shows "merge_in_order delta bal es \<noteq> None \<longleftrightarrow> safe_from delta (net_fn bal) es"
  using assms
proof (induction es arbitrary: bal)
  case (Cons e es)
  from Cons.prems have d: "distinct (map tb_token (me_rows e))" and g: "good_entries es"
    by (auto simp: good_entries_def)
  show ?case
  proof (cases "addNetRows bal (me_rows e) delta")
    case None
    with addNetRows_iff [OF d Cons.prems(2)] show ?thesis by (auto simp: within_def)
  next
    case (Some b)
    have fn: "net_fn b = (\<lambda>t. net_fn bal t + net_of (me_rows e) t)"
      using addNetRows_Some [OF Some] by blast
    have "within delta (net_fn b)"
      using addNetRows_iff [OF d Cons.prems(2)] Some by (simp add: fn)
    with Cons.IH [OF g] Some show ?thesis by (simp add: fn within_def)
  qed
qed simp

section \<open>The search is sound and complete\<close>

definition full_mask :: "nat \<Rightarrow> nat" where
  "full_mask n = 2 ^ n - 1"

lemma bits_full: "bits (full_mask n) = {..<n}"
  unfolding full_mask_def mask_eq_exp_minus_1 [symmetric] by (auto simp: bit_mask_iff)

lemma mask_eq_iff: "m = m' \<longleftrightarrow> bits m = bits (m' :: nat)"
  by (auto simp: bit_eq_iff)

lemma bits_set_bit: "bits (set_bit i m) = insert i (bits (m :: nat))"
  by (auto simp: bit_set_bit_iff)

definition mask_net :: "merge_entry list \<Rightarrow> nat \<Rightarrow> string \<Rightarrow> int" where
  "mask_net E m t = (\<Sum>i \<in> bits m \<inter> {..<length E}. net_of (me_rows (E ! i)) t)"

lemma mask_net_set_bit:
  assumes "i < length E" "\<not> bit m i"
  shows "mask_net E (set_bit i m) t = mask_net E m t + net_of (me_rows (E ! i)) t"
proof -
  have "bits (set_bit i m) \<inter> {..<length E} = insert i (bits m \<inter> {..<length E})"
    using assms by (auto simp: bits_set_bit)
  with assms show ?thesis by (simp add: mask_net_def)
qed

text \<open>A completion of a mask is a safe order of the entries it leaves out.\<close>

definition completion :: "merge_entry list \<Rightarrow> int \<Rightarrow> nat \<Rightarrow> nat list \<Rightarrow> bool" where
  "completion E delta m idx \<longleftrightarrow> distinct idx \<and> set idx = {..<length E} - bits m
     \<and> safe_from delta (mask_net E m) (map (\<lambda>i. E ! i) idx)"

definition completable :: "merge_entry list \<Rightarrow> int \<Rightarrow> nat \<Rightarrow> bool" where
  "completable E delta m \<longleftrightarrow> (\<exists>idx. completion E delta m idx)"

lemma completable_step:
  assumes "completable E delta m" "bits m \<subseteq> {..<length E}" "bits m \<noteq> {..<length E}"
  obtains i where "i < length E" "\<not> bit m i" "within delta (mask_net E (set_bit i m))"
    "completable E delta (set_bit i m)"
proof -
  from assms(1) obtain idx where c: "completion E delta m idx" by (auto simp: completable_def)
  with assms(2,3) obtain i js where idx: "idx = i # js" by (cases idx) (auto simp: completion_def)
  from c have i: "i < length E" "\<not> bit m i" by (auto simp: completion_def idx)
  have net: "mask_net E (set_bit i m) = (\<lambda>t. mask_net E m t + net_of (me_rows (E ! i)) t)"
    using mask_net_set_bit [OF i] by blast
  from c have "within delta (mask_net E (set_bit i m))" "completion E delta (set_bit i m) js"
    by (auto simp: completion_def idx net within_def bits_set_bit)
  with that i show thesis by (auto simp: completable_def)
qed

definition path_ok :: "merge_entry list \<Rightarrow> int \<Rightarrow> nat \<Rightarrow> nat list \<Rightarrow> bool" where
  "path_ok E delta m path \<longleftrightarrow> distinct path \<and> set path = bits m
     \<and> safe_from delta (\<lambda>_. 0) (map (\<lambda>i. E ! i) path)"

lemma entry_net_path:
  "distinct path \<Longrightarrow> set path = bits m \<Longrightarrow> bits m \<subseteq> {..<length E} \<Longrightarrow>
   entry_net (map (\<lambda>i. E ! i) path) t = mask_net E m t"
  by (simp add: entry_net_def mask_net_def Int_absorb2 comp_def sum_list_distinct_conv_sum_set)

lemma path_ok_extend:
  assumes "path_ok E delta m path" "i < length E" "\<not> bit m i" "bits m \<subseteq> {..<length E}"
    "within delta (mask_net E (set_bit i m))"
  shows "path_ok E delta (set_bit i m) (path @ [i])"
  using assms entry_net_path [of path m E]
  by (auto simp: path_ok_def bits_set_bit safe_from_append mask_net_set_bit within_def)

text \<open>What a search state guarantees.\<close>

definition search_inv :: "merge_entry list \<Rightarrow> int \<Rightarrow> merge_search \<Rightarrow> bool" where
  "search_inv E delta st \<longleftrightarrow> (\<forall>m \<in> ms_failed st. \<not> completable E delta m)"

definition mask_ready :: "merge_entry list \<Rightarrow> int \<Rightarrow> nat \<Rightarrow> net_map \<Rightarrow> bool" where
  "mask_ready E delta m bal \<longleftrightarrow> bits m \<subseteq> {..<length E} \<and> net_fn bal = mask_net E m
     \<and> within delta (mask_net E m)"

lemma mask_ready_step:
  assumes "good_entries E" "mask_ready E delta m bal" "i < length E" "\<not> bit m i"
  shows "addNetRows bal (me_rows (E ! i)) delta = None \<Longrightarrow>
      \<not> within delta (mask_net E (set_bit i m))"
    and "addNetRows bal (me_rows (E ! i)) delta = Some b \<Longrightarrow> mask_ready E delta (set_bit i m) b"
proof -
  have d: "distinct (map tb_token (me_rows (E ! i)))"
    using assms(1,3) by (auto simp: good_entries_def)
  have net: "mask_net E (set_bit i m) = (\<lambda>t. net_fn bal t + net_of (me_rows (E ! i)) t)"
    using mask_net_set_bit [OF assms(3,4)] assms(2) by (auto simp: mask_ready_def)
  have w: "within delta (net_fn bal)" using assms(2) by (simp add: mask_ready_def)
  show "addNetRows bal (me_rows (E ! i)) delta = None \<Longrightarrow>
      \<not> within delta (mask_net E (set_bit i m))"
    using addNetRows_iff [OF d w] by (simp add: net)
  assume s: "addNetRows bal (me_rows (E ! i)) delta = Some b"
  moreover from s have "net_fn b = mask_net E (set_bit i m)"
    using addNetRows_Some [OF s] net by auto
  moreover from s have "within delta (mask_net E (set_bit i m))"
    using addNetRows_iff [OF d w] by (simp add: net)
  ultimately show "mask_ready E delta (set_bit i m) b"
    using assms(2,3) by (auto simp: mask_ready_def bits_set_bit)
qed

text \<open>
  One induction over the search: a success leaves a complete safe path; a failure that was
  not cut short proves the mask not completable; the path is restored on failure.
\<close>

definition search_post :: "merge_entry list \<Rightarrow> int \<Rightarrow> nat \<Rightarrow> merge_search \<Rightarrow> bool \<times> merge_search \<Rightarrow> bool" where
  "search_post E delta m st r \<longleftrightarrow> (case r of (found, st') \<Rightarrow>
     search_inv E delta st' \<and>
     (found \<longrightarrow> path_ok E delta (full_mask (length E)) (ms_path st')) \<and>
     (\<not> found \<longrightarrow> ms_path st' = ms_path st) \<and>
     (\<not> found \<and> \<not> ms_exhausted st' \<longrightarrow> \<not> completable E delta m))"

lemma tick_fields:
  assumes "tick cb st = (answer, st2)"
  shows "ms_failed st2 = ms_failed st" "ms_path st2 = ms_path st" "ms_exhausted st2 = ms_exhausted st"
    "ms_interrupt st2 = ms_interrupt st" "ms_work st2 = ms_work st + 1"
  using assms by (auto simp: tick_def Let_def split: prod.splits if_splits)

lemma state_fields [simp]:
  "ms_failed (interrupted r st) = ms_failed st" "ms_path (interrupted r st) = ms_path st"
  "ms_exhausted (interrupted r st)" "ms_interrupt (interrupted r st) = Some r"
  "ms_work (interrupted r st) = ms_work st"
  "ms_failed (enter_mask m b i st) = ms_failed st" "ms_path (enter_mask m b i st) = ms_path st @ [i]"
  "ms_exhausted (enter_mask m b i st) = ms_exhausted st"
  "ms_interrupt (enter_mask m b i st) = ms_interrupt st"
  "ms_work (enter_mask m b i st) = ms_work st"
  "ms_balances (enter_mask m b i st) m = Some b"
  "ms_failed (leave_mask st) = ms_failed st" "ms_path (leave_mask st) = butlast (ms_path st)"
  "ms_exhausted (leave_mask st) = ms_exhausted st" "ms_interrupt (leave_mask st) = ms_interrupt st"
  "ms_work (leave_mask st) = ms_work st"
  by (simp_all add: interrupted_def enter_mask_def leave_mask_def)

text \<open>
  Inside the loop the indices below \<open>index\<close> are already known to lead nowhere.
\<close>

definition tried :: "merge_entry list \<Rightarrow> int \<Rightarrow> nat \<Rightarrow> nat \<Rightarrow> bool" where
  "tried E delta m index \<longleftrightarrow> (\<forall>i < index. i < length E \<and> \<not> bit m i \<longrightarrow>
     \<not> (within delta (mask_net E (set_bit i m)) \<and> completable E delta (set_bit i m)))"

lemma tried_all:
  assumes "tried E delta m index" "length E \<le> index" "bits m \<subseteq> {..<length E}"
    "m \<noteq> full_mask (length E)"
  shows "\<not> completable E delta m"
proof
  assume "completable E delta m"
  moreover have "bits m \<noteq> {..<length E}"
    using assms(4) by (simp add: mask_eq_iff bits_full)
  ultimately obtain i where "i < length E" "\<not> bit m i" "within delta (mask_net E (set_bit i m))"
      "completable E delta (set_bit i m)"
    using completable_step assms(3) by blast
  with assms(1,2) show False by (auto simp: tried_def)
qed

lemma tried_Suc:
  "tried E delta m (Suc index) \<longleftrightarrow> tried E delta m index \<and>
    (index < length E \<and> \<not> bit m index \<longrightarrow>
     \<not> (within delta (mask_net E (set_bit index m)) \<and> completable E delta (set_bit index m)))"
  by (auto simp: tried_def less_Suc_eq)

lemma mask_search_correct:
  shows "\<lbrakk>good_entries E; search_inv E delta st; \<not> ms_exhausted st;
      path_ok E delta m (ms_path st); mask_ready E delta m (the (ms_balances st m))\<rbrakk>
    \<Longrightarrow> search_post E delta m st (mask_search E delta maxWork cb m st)"
  and "\<lbrakk>good_entries E; search_inv E delta st; \<not> ms_exhausted st;
      path_ok E delta m (ms_path st); mask_ready E delta m balances;
      m \<noteq> full_mask (length E); tried E delta m index\<rbrakk>
    \<Longrightarrow> search_post E delta m st (mask_loop E delta maxWork cb m balances index st)"
proof (induction E delta maxWork cb m st and E delta maxWork cb m balances index st
    rule: mask_search_mask_loop.induct)
  case (1 ordered delta maxWork cb m st)
  then show ?case
    by (subst mask_search.simps)
      (auto simp: search_post_def full_mask_def search_inv_def tried_def)
next
  case (2 ordered delta maxWork cb m balances index st)
  note unf = mask_loop.simps [of ordered delta maxWork cb m balances index st]
  note ready = mask_ready_step [OF "2.prems"(1,5)]
  have sub: "bits m \<subseteq> {..<length ordered}" using "2.prems"(5) by (simp add: mask_ready_def)
  consider (out) "length ordered \<le> index" | (skip) "\<not> length ordered \<le> index" "bit m index"
    | (spent) "\<not> length ordered \<le> index" "\<not> bit m index" "ms_work st \<ge> maxWork"
    | (step) "\<not> length ordered \<le> index" "\<not> bit m index" "\<not> ms_work st \<ge> maxWork"
    by blast
  then show ?case
  proof cases
    case out
    with tried_all [OF "2.prems"(7) out sub "2.prems"(6)] "2.prems" show ?thesis
      by (auto simp: unf search_post_def search_inv_def)
  next
    case skip
    with "2.IH"(1) "2.prems" show ?thesis by (simp add: unf tried_Suc)
  next
    case spent
    with "2.prems" show ?thesis by (simp add: unf search_post_def search_inv_def)
  next
    case step
    obtain answer st2 where t: "tick cb st = (answer, st2)" by fastforce
    note IH = "2.IH"(2-4) [OF step t [symmetric]]
    have st2: "search_inv ordered delta st2" "\<not> ms_exhausted st2" "ms_path st2 = ms_path st"
      using "2.prems"(2,3) tick_fields [OF t] by (simp_all add: search_inv_def)
    have i: "index < length ordered" using step(1) by simp
    show ?thesis
    proof (cases answer)
      case Continue
      show ?thesis
      proof (cases "addNetRows balances (me_rows (ordered ! index)) delta")
        case None
        have "tried ordered delta m (Suc index)"
          using "2.prems"(7) ready(1) [OF i step(2) None] by (simp add: tried_Suc)
        with IH(1) [OF Continue None] step t Continue None st2 "2.prems"
        show ?thesis by (simp add: unf search_post_def)
      next
        case (Some b)
        let ?m = "set_bit index m" and ?st = "enter_mask (set_bit index m) b index st2"
        have rdy: "mask_ready ordered delta ?m b" by (rule ready(2) [OF i step(2) Some])
        obtain found st3 where r: "mask_search ordered delta maxWork cb ?m ?st = (found, st3)"
          by fastforce
        have "path_ok ordered delta ?m (ms_path st @ [index])"
          using path_ok_extend [OF "2.prems"(4) i step(2) sub] rdy by (simp add: mask_ready_def)
        with IH(2) [OF Continue Some] "2.prems"(1) st2 rdy
        have p: "search_post ordered delta ?m ?st (found, st3)"
          by (simp add: search_inv_def r)
        show ?thesis
        proof (cases "found \<or> ms_exhausted st3")
          case True
          with p step t Continue Some r st2 show ?thesis
            by (auto simp: unf search_post_def search_inv_def)
        next
          case False
          with p have p': "search_inv ordered delta (leave_mask st3)" "\<not> completable ordered delta ?m"
            "ms_path (leave_mask st3) = ms_path st"
            by (auto simp: search_post_def search_inv_def st2(3))
          with "2.prems"(7) have "tried ordered delta m (Suc index)" by (simp add: tried_Suc)
          with IH(3) [OF Continue Some r [symmetric]] False p' "2.prems" step t Continue Some r
          show ?thesis by (simp add: unf search_post_def)
        qed
      qed
    qed (use step t st2 in \<open>simp_all add: unf search_post_def search_inv_def\<close>)
  qed
qed

section \<open>The transition bound\<close>

text \<open>
  Every mask is expanded at most once, and expanding it costs one transition per index it leaves
  out. \<open>mask_cost\<close> charges that to a set of masks; the whole lattice costs n * 2^(n-1).
\<close>

definition supermasks :: "nat \<Rightarrow> nat \<Rightarrow> nat set" where
  "supermasks n m = {m'. bits m \<subseteq> bits m' \<and> bits m' \<subseteq> {..<n}}"

definition mask_cost :: "nat \<Rightarrow> nat set \<Rightarrow> int" where
  "mask_cost n M = (\<Sum>m \<in> M. int (card ({..<n} - bits m)))"

definition remaining :: "nat \<Rightarrow> nat \<Rightarrow> nat \<Rightarrow> int" where
  "remaining n m index = int (card ({index..<n} - bits m))"

lemma inj_bits: "inj_on bits M"
  by (auto simp: inj_on_def mask_eq_iff)

lemma finite_supermasks [simp]: "finite (supermasks n m)"
proof (rule finite_imageD [OF _ inj_bits])
  have "bits ` supermasks n m \<subseteq> Pow {..<n}" by (auto simp: supermasks_def)
  then show "finite (bits ` supermasks n m)" using finite_subset by blast
qed

lemma mask_cost_mono: "A \<subseteq> B \<Longrightarrow> finite B \<Longrightarrow> mask_cost n A \<le> mask_cost n B"
  unfolding mask_cost_def by (rule sum_mono2) auto

lemma mask_cost_Un: "finite A \<Longrightarrow> finite B \<Longrightarrow> A \<inter> B = {} \<Longrightarrow> mask_cost n (A \<union> B) = mask_cost n A + mask_cost n B"
  by (simp add: mask_cost_def sum.union_disjoint)

lemma mask_cost_nonneg: "0 \<le> mask_cost n M"
  unfolding mask_cost_def by (rule sum_nonneg) simp

lemma mask_cost_lattice: "2 * mask_cost n (supermasks n 0) = int n * 2 ^ n"
proof -
  have ex: "\<exists>m. bits m = S" if "finite S" for S
    using that
  proof (induction S)
    case empty
    show ?case by (rule exI [of _ 0]) simp
  next
    case (insert x F)
    then obtain m where "bits m = F" by blast
    then show ?case by (intro exI [of _ "set_bit x m"]) (simp add: bits_set_bit)
  qed
  have im: "bits ` supermasks n 0 = Pow {..<n}"
  proof
    show "Pow {..<n} \<subseteq> bits ` supermasks n 0"
    proof
      fix S assume "S \<in> Pow {..<n}"
      moreover from this obtain m where "bits m = S" using ex finite_subset by blast
      ultimately show "S \<in> bits ` supermasks n 0" by (auto simp: supermasks_def)
    qed
  qed (auto simp: supermasks_def)
  let ?c = "\<lambda>S. int (card ({..<n} - S))"
  have cost: "mask_cost n (supermasks n 0) = (\<Sum>S \<in> Pow {..<n}. ?c S)"
    unfolding mask_cost_def im [symmetric] by (subst sum.reindex [OF inj_bits]) (simp add: comp_def)
  have "(\<Sum>S \<in> Pow {..<n}. ?c S) = (\<Sum>S \<in> Pow {..<n}. int (card S))"
    by (rule sum.reindex_bij_witness [of _ "\<lambda>S. {..<n} - S" "\<lambda>S. {..<n} - S"]) auto
  then have "2 * mask_cost n (supermasks n 0) = (\<Sum>S \<in> Pow {..<n}. ?c S + int (card S))"
    by (simp add: cost sum.distrib)
  also have "\<dots> = (\<Sum>S \<in> Pow {..<n}. int n)"
  proof (rule sum.cong [OF refl])
    fix S assume "S \<in> Pow {..<n}"
    then have "S \<subseteq> {..<n}" "finite S" by (auto intro: finite_subset)
    then have "card ({..<n} - S) + card S = n"
      using card_mono [of "{..<n}" S] by (simp add: card_Diff_subset)
    then show "?c S + int (card S) = int n" by linarith
  qed
  also have "\<dots> = int n * 2 ^ n" by (simp add: card_Pow)
  finally show ?thesis .
qed

text \<open>What the search charges to its transition counter.\<close>

definition cap_slack :: "merge_search \<Rightarrow> int" where
  "cap_slack st = (if ms_exhausted st \<and> ms_interrupt st = None then 1 else 0)"

definition clean :: "nat \<Rightarrow> merge_search \<Rightarrow> bool" where
  "clean n st \<longleftrightarrow> \<not> ms_exhausted st \<and> ms_interrupt st = None \<and> finite (ms_failed st)"

definition work_post :: "nat \<Rightarrow> int \<Rightarrow> nat \<Rightarrow> nat set \<Rightarrow> int \<Rightarrow> merge_search \<Rightarrow> bool \<times> merge_search \<Rightarrow> bool" where
  "work_post n maxWork m M extra st r \<longleftrightarrow> (case r of (found, st') \<Rightarrow>
     ms_work st' + cap_slack st' \<le> ms_work st + extra + mask_cost n (M - ms_failed st)
     \<and> (cap_slack st' = 1 \<longrightarrow> maxWork \<le> ms_work st')
     \<and> (\<not> found \<and> \<not> ms_exhausted st' \<longrightarrow> clean n st' \<and> ms_failed st \<subseteq> ms_failed st'
          \<and> m \<in> ms_failed st' \<and> ms_failed st' - ms_failed st \<subseteq> supermasks n m
          \<and> ms_work st' \<le> ms_work st + extra + mask_cost n ((ms_failed st' - ms_failed st) \<inter> M)))"

lemma remaining_bounds:
  "remaining n m 0 = mask_cost n {m}"
  "0 \<le> remaining n m index"
  "bit m index \<Longrightarrow> remaining n m (Suc index) = remaining n m index"
  "index < n \<Longrightarrow> \<not> bit m index \<Longrightarrow> remaining n m index = remaining n m (Suc index) + 1"
proof -
  show "remaining n m 0 = mask_cost n {m}"
    by (simp add: remaining_def mask_cost_def lessThan_atLeast0)
  show "0 \<le> remaining n m index" by (simp add: remaining_def)
  show "remaining n m (Suc index) = remaining n m index" if "bit m index"
  proof -
    have "{Suc index..<n} - bits m = {index..<n} - bits m"
      using that by (auto simp: not_less_eq_eq le_less Suc_le_eq)
    then show ?thesis by (simp add: remaining_def)
  qed
  show "remaining n m index = remaining n m (Suc index) + 1" if "index < n" "\<not> bit m index"
  proof -
    have "{index..<n} - bits m = insert index ({Suc index..<n} - bits m)" using that by auto
    then show ?thesis by (simp add: remaining_def)
  qed
qed

lemma supermasks_step:
  assumes "index < n" "\<not> bit m index"
  shows "supermasks n (set_bit index m) \<subseteq> supermasks n m - {m}"
  using assms by (auto simp: supermasks_def bits_set_bit)

lemma supermasks_self: "bits m \<subseteq> {..<n} \<Longrightarrow> m \<in> supermasks n m"
  by (simp add: supermasks_def)

text \<open>From the loop over a mask's indices to the visit of the mask.\<close>

lemma work_post_visit:
  assumes "work_post n maxWork m (supermasks n m - {m}) (remaining n m 0) st r"
    and "m \<notin> ms_failed st" "bits m \<subseteq> {..<n}"
  shows "work_post n maxWork m (supermasks n m) 0 st r"
proof -
  obtain found st' where r: "r = (found, st')" by fastforce
  have split: "mask_cost n A = mask_cost n {m} + mask_cost n (A - {m})" if "m \<in> A" "finite A" for A
    using that mask_cost_Un [of "{m}" "A - {m}" n] by (simp add: insert_absorb)
  have "supermasks n m - {m} - ms_failed st = supermasks n m - ms_failed st - {m}" by auto
  moreover have "mask_cost n (supermasks n m - ms_failed st)
      = mask_cost n {m} + mask_cost n (supermasks n m - ms_failed st - {m})"
    using assms(2,3) by (intro split) (simp_all add: supermasks_self)
  moreover have "mask_cost n ((ms_failed st' - ms_failed st) \<inter> supermasks n m)
      = mask_cost n {m} + mask_cost n ((ms_failed st' - ms_failed st) \<inter> (supermasks n m - {m}))"
    if "m \<in> ms_failed st'"
    using that assms(2,3) split [of "(ms_failed st' - ms_failed st) \<inter> supermasks n m"]
    by (simp add: supermasks_self Int_Diff)
  ultimately show ?thesis
    using assms(1) by (auto simp: work_post_def r remaining_bounds(1))
qed

text \<open>An attempt that recurses into a supermask and comes back, followed by the rest of the loop.\<close>

lemma work_post_seq:
  assumes first: "work_post n maxWork m' (supermasks n m') 0 st2 (False, st3)"
    and normal: "\<not> ms_exhausted st3"
    and rest: "work_post n maxWork m (supermasks n m - {m}) x st4 r"
    and same: "ms_failed st4 = ms_failed st3" "ms_work st4 = ms_work st3"
      "ms_failed st2 = ms_failed st" "ms_work st2 = ms_work st + 1"
    and sub: "supermasks n m' \<subseteq> supermasks n m - {m}"
  shows "work_post n maxWork m (supermasks n m - {m}) (x + 1) st r"
proof -
  obtain found st' where r: "r = (found, st')" by fastforce
  let ?F = "ms_failed st" and ?F3 = "ms_failed st3" and ?F' = "ms_failed st'" and ?M = "supermasks n m - {m}"
  from first normal have f: "?F \<subseteq> ?F3" "?F3 - ?F \<subseteq> supermasks n m'"
      "ms_work st3 \<le> ms_work st + 1 + mask_cost n ((?F3 - ?F) \<inter> supermasks n m')"
    by (auto simp: work_post_def same)
  from f(2) have eq: "(?F3 - ?F) \<inter> supermasks n m' = ?F3 - ?F" by auto
  from f(2) sub have inM: "?F3 - ?F \<subseteq> ?M" by auto
  have fin: "finite (?F3 - ?F)" by (rule finite_subset [OF f(2)]) simp
  have "mask_cost n (?M - ?F) = mask_cost n (?F3 - ?F) + mask_cost n (?M - ?F3)"
  proof -
    have "?M - ?F = (?F3 - ?F) \<union> (?M - ?F3)" using f(1) inM by auto
    then show ?thesis using mask_cost_Un [OF fin, of "?M - ?F3" n] by auto
  qed
  moreover have "mask_cost n ((?F' - ?F) \<inter> ?M) = mask_cost n (?F3 - ?F) + mask_cost n ((?F' - ?F3) \<inter> ?M)"
    if "?F3 \<subseteq> ?F'"
  proof -
    have "(?F' - ?F) \<inter> ?M = (?F3 - ?F) \<union> ((?F' - ?F3) \<inter> ?M)" using f(1) inM that by auto
    then show ?thesis using mask_cost_Un [OF fin, of "(?F' - ?F3) \<inter> ?M" n] by auto
  qed
  moreover have "?F' - ?F \<subseteq> supermasks n m" if "?F' - ?F3 \<subseteq> supermasks n m"
    using that inM by auto
  ultimately show ?thesis
    using rest f(1,3) unfolding eq by (auto simp: work_post_def r same)
qed

lemma work_post_mono:
  assumes "work_post n maxWork m M x st2 r" "ms_failed st2 = ms_failed st"
    "ms_work st2 \<le> ms_work st + d"
  shows "work_post n maxWork m M (x + d) st r"
  using assms by (auto simp: work_post_def)

lemma mask_search_work:
  shows "\<lbrakk>clean (length E) st; bits m \<subseteq> {..<length E}\<rbrakk>
    \<Longrightarrow> work_post (length E) maxWork m (supermasks (length E) m) 0 st (mask_search E delta maxWork cb m st)"
  and "\<lbrakk>clean (length E) st; bits m \<subseteq> {..<length E}\<rbrakk>
    \<Longrightarrow> work_post (length E) maxWork m (supermasks (length E) m - {m}) (remaining (length E) m index) st
          (mask_loop E delta maxWork cb m balances index st)"
proof (induction E delta maxWork cb m st and E delta maxWork cb m balances index st
    rule: mask_search_mask_loop.induct)
  case (1 ordered delta maxWork cb m st)
  show ?case
  proof (cases "m = 2 ^ length ordered - 1 \<or> m \<in> ms_failed st")
    case False
    with 1 have "work_post (length ordered) maxWork m (supermasks (length ordered) m) 0 st
        (mask_loop ordered delta maxWork cb m (the (ms_balances st m)) 0 st)"
      by (intro work_post_visit) auto
    with False show ?thesis by (simp add: mask_search.simps)
  next
    case True
    then show ?thesis
      using "1.prems" mask_cost_nonneg
      by (auto simp: mask_search.simps work_post_def clean_def cap_slack_def)
  qed
next
  case (2 ordered delta maxWork cb m balances index st)
  note unf = mask_loop.simps [of ordered delta maxWork cb m balances index st]
  let ?n = "length ordered"
  consider (out) "?n \<le> index" | (skip) "\<not> ?n \<le> index" "bit m index"
    | (spent) "\<not> ?n \<le> index" "\<not> bit m index" "ms_work st \<ge> maxWork"
    | (step) "\<not> ?n \<le> index" "\<not> bit m index" "\<not> ms_work st \<ge> maxWork"
    by blast
  then show ?case
  proof cases
    case out
    then show ?thesis
      using "2.prems" mask_cost_nonneg remaining_bounds(2) [of ?n m index]
      by (auto simp: unf work_post_def clean_def cap_slack_def supermasks_self
          intro!: add_nonneg_nonneg)
  next
    case skip
    with "2.IH"(1) "2.prems" show ?thesis by (simp add: unf remaining_bounds(3))
  next
    case spent
    then show ?thesis
      using "2.prems" mask_cost_nonneg [of ?n] remaining_bounds(2) [of ?n m "Suc index"]
        remaining_bounds(4) [of index ?n m]
      by (simp add: unf work_post_def clean_def cap_slack_def)
  next
    case step
    obtain answer st2 where t: "tick cb st = (answer, st2)" by fastforce
    note IH = "2.IH"(2-4) [OF step t [symmetric]]
    have st2: "clean ?n st2" using "2.prems"(1) tick_fields [OF t] by (simp add: clean_def)
    have i: "index < ?n" using step(1) by simp
    note rem = remaining_bounds(4) [OF i step(2)]
    show ?thesis
    proof (cases answer)
      case Continue
      show ?thesis
      proof (cases "addNetRows balances (me_rows (ordered ! index)) delta")
        case None
        with IH(1) [OF Continue None st2 "2.prems"(2)] step t Continue
          tick_fields(1,5) [OF t]
        show ?thesis
          by (simp add: unf rem work_post_mono [where d = 1])
      next
        case (Some b)
        let ?m = "set_bit index m" and ?st = "enter_mask (set_bit index m) b index st2"
        obtain found st3 where r: "mask_search ordered delta maxWork cb ?m ?st = (found, st3)"
          by fastforce
        have bm: "bits ?m \<subseteq> {..<?n}" using "2.prems"(2) i by (simp add: bits_set_bit)
        have same: "ms_failed ?st = ms_failed st" "ms_work ?st = ms_work st + 1"
          using tick_fields [OF t] by simp_all
        have "clean ?n ?st" using st2 by (simp add: clean_def)
        with IH(2) [OF Continue Some _ bm] have w: "work_post ?n maxWork ?m (supermasks ?n ?m) 0 ?st (found, st3)"
          by (simp add: r)
        note sub = supermasks_step [OF i step(2)]
        show ?thesis
        proof (cases "found \<or> ms_exhausted st3")
          case True
          have "mask_cost ?n (supermasks ?n ?m - ms_failed st) \<le> mask_cost ?n (supermasks ?n m - {m} - ms_failed st)"
            using sub by (intro mask_cost_mono) auto
          with w True step t Continue Some r same remaining_bounds(2) [of ?n m "Suc index"] show ?thesis
            by (auto simp: unf rem work_post_def cap_slack_def)
        next
          case False
          with w have c: "clean ?n (leave_mask st3)" by (simp add: work_post_def clean_def)
          have "work_post ?n maxWork m (supermasks ?n m - {m}) (remaining ?n m (Suc index)) (leave_mask st3)
              (mask_loop ordered delta maxWork cb m balances (Suc index) (leave_mask st3))"
            using IH(3) [OF Continue Some r [symmetric]] False c "2.prems"(2) by simp
          from work_post_seq [OF _ _ this _ _ same sub] w False step t Continue Some r show ?thesis
            by (simp add: unf rem)
        qed
      qed
    qed (use step t tick_fields(5) [OF t] remaining_bounds(2) [of ?n m "Suc index"]
          mask_cost_nonneg [of ?n "supermasks ?n m - {m} - ms_failed st"]
        in \<open>simp_all add: unf work_post_def rem cap_slack_def\<close>)
  qed
qed

section \<open>From the search to the planner\<close>

lemma completable_iff:
  "0 \<le> delta \<Longrightarrow> completable E delta 0 \<longleftrightarrow> (\<exists>es. mset es = mset E \<and> prefix_safe delta es)"
proof -
  assume d: "0 \<le> delta"
  have z: "mask_net E 0 = (\<lambda>_. 0)" by (simp add: mask_net_def fun_eq_iff)
  show ?thesis
  proof
    assume "completable E delta 0"
    then obtain idx where idx: "distinct idx" "set idx = {..<length E}"
        "safe_from delta (\<lambda>_. 0) (map (\<lambda>i. E ! i) idx)"
      by (auto simp: completable_def completion_def z)
    then have "mset idx = mset [0..<length E]"
      by (metis atLeast_upt distinct_upt set_eq_iff_mset_eq_distinct)
    then have "mset (map (\<lambda>i. E ! i) idx) = mset (map (\<lambda>i. E ! i) [0..<length E])"
      by (metis mset_map)
    with idx(3) d show "\<exists>es. mset es = mset E \<and> prefix_safe delta es"
      by (intro exI [of _ "map (\<lambda>i. E ! i) idx"]) (simp add: map_nth prefix_safe_safe_from del: mset_map)
  next
    assume "\<exists>es. mset es = mset E \<and> prefix_safe delta es"
    then obtain es where es: "mset es = mset E" "prefix_safe delta es" by blast
    have "list_all2 (\<lambda>e i. e = E ! i) E [0..<length E]" by (simp add: list_all2_conv_all_nth)
    from list_all2_reorder_left_invariance [OF this es(1)]
    obtain idx where idx: "list_all2 (\<lambda>e i. e = E ! i) es idx" "mset idx = mset [0..<length E]"
      by blast
    from idx(1) have "es = map (\<lambda>i. E ! i) idx"
      by (simp add: list_all2_conv_all_nth list_eq_iff_nth_eq)
    moreover from idx(2) have "distinct idx" "set idx = {..<length E}"
      by (metis distinct_upt mset_eq_imp_distinct_iff, metis atLeast_upt set_mset_mset)
    ultimately show "completable E delta 0"
      using es(2) d by (auto simp: completable_def completion_def z prefix_safe_safe_from)
  qed
qed

lemma path_ok_full:
  assumes "0 \<le> delta" "path_ok E delta (full_mask (length E)) path"
  shows "mset (map (\<lambda>i. E ! i) path) = mset E" "prefix_safe delta (map (\<lambda>i. E ! i) path)"
proof -
  from assms(2) have p: "distinct path" "set path = {..<length E}"
    "safe_from delta (\<lambda>_. 0) (map (\<lambda>i. E ! i) path)"
    by (auto simp: path_ok_def bits_full)
  then have "mset path = mset [0..<length E]"
    by (metis atLeast_upt distinct_upt set_eq_iff_mset_eq_distinct)
  then have "mset (map (\<lambda>i. E ! i) path) = mset (map (\<lambda>i. E ! i) [0..<length E])"
    by (metis mset_map)
  then show "mset (map (\<lambda>i. E ! i) path) = mset E" by (simp add: map_nth)
  show "prefix_safe delta (map (\<lambda>i. E ! i) path)"
    using p(3) assms(1) by (simp add: prefix_safe_safe_from)
qed

lemma net_fn_empty [simp]: "net_fn Map.empty = (\<lambda>_. 0)"
  by (simp add: net_fn_def fun_eq_iff)

lemma within_zero [simp]: "within delta (\<lambda>_. 0) \<longleftrightarrow> 0 \<le> delta"
  by (simp add: within_def)

lemma initial_search_fields [simp]:
  "ms_failed (initial_search polls) = {}" "ms_balances (initial_search polls) 0 = Some Map.empty"
  "ms_path (initial_search polls) = []" "\<not> ms_exhausted (initial_search polls)"
  "ms_interrupt (initial_search polls) = None" "ms_work (initial_search polls) = 0"
  by (simp_all add: initial_search_def)

lemma search_from_start:
  assumes "0 \<le> delta" "good_entries E" "mask_search E delta maxWork cb 0 (initial_search polls) = (found, st)"
  shows "search_post E delta 0 (initial_search polls) (found, st)"
    and "work_post (length E) maxWork 0 (supermasks (length E) 0) 0 (initial_search polls) (found, st)"
proof -
  have "search_inv E delta (initial_search polls)" "path_ok E delta 0 []" "mask_ready E delta 0 Map.empty"
    using assms(1) by (simp_all add: search_inv_def path_ok_def mask_ready_def mask_net_def fun_eq_iff within_def)
  then show "search_post E delta 0 (initial_search polls) (found, st)"
    using mask_search_correct(1) [OF assms(2), of delta "initial_search polls" 0 maxWork cb] assms(3) by simp
  show "work_post (length E) maxWork 0 (supermasks (length E) 0) 0 (initial_search polls) (found, st)"
    using mask_search_work(1) [of E "initial_search polls" 0 maxWork delta cb] assms(3)
    by (simp add: clean_def)
qed

lemma plan_merge_ok:
  assumes "0 \<le> delta" "good_entries E"
    and "plan_merge E delta maxWork cb polls = (Merge_ok hashes fb work, polls')"
  shows "\<exists>es. mset es = mset E \<and> hashes = map me_hash es \<and> prefix_safe delta es"
proof (cases "merge_in_order delta Map.empty E")
  case (Some b)
  then have "prefix_safe delta E"
    using merge_in_order_iff [OF assms(2), of delta Map.empty] assms(1)
    by (simp add: prefix_safe_safe_from)
  with assms(3) Some show ?thesis by (auto simp: plan_merge_def)
next
  case None
  obtain found st where r: "mask_search E delta maxWork cb 0 (initial_search polls) = (found, st)"
    by fastforce
  with assms(3) None have f: "found" "hashes = map (\<lambda>i. me_hash (E ! i)) (ms_path st)"
    by (auto simp: plan_merge_def split: if_splits)
  from search_from_start(1) [OF assms(1,2) r] f(1)
  have "path_ok E delta (full_mask (length E)) (ms_path st)" by (simp add: search_post_def)
  from path_ok_full [OF assms(1) this] f(2) show ?thesis
    by (intro exI [of _ "map (\<lambda>i. E ! i) (ms_path st)"]) simp
qed

lemma plan_merge_unsafe:
  assumes "0 \<le> delta" "good_entries E"
    and "plan_merge E delta maxWork cb polls = (Merge_failed Unsafe_merge_order work, polls')"
  shows "\<not> (\<exists>es. mset es = mset E \<and> prefix_safe delta es)"
proof -
  obtain found st where r: "mask_search E delta maxWork cb 0 (initial_search polls) = (found, st)"
    by fastforce
  from assms(3) r have f: "\<not> found" "\<not> ms_exhausted st"
    by (auto simp: plan_merge_def split: option.splits interrupt_reason.splits if_splits)
  with search_from_start(1) [OF assms(1,2) r] show ?thesis
    by (simp add: search_post_def completable_iff [OF assms(1)])
qed

text \<open>The transition counter never exceeds n * 2^(n-1), and a budget that large is never spent.\<close>

lemma plan_merge_work:
  assumes "0 \<le> delta" "good_entries E" and "plan_merge E delta maxWork cb polls = (r, polls')"
  shows "r = Merge_ok hashes fb work \<or> r = Merge_failed reason work \<Longrightarrow> 2 * work \<le> int (length E) * 2 ^ length E"
    and "int (length E) * 2 ^ length E \<le> 2 * maxWork \<Longrightarrow> r \<noteq> Merge_failed Merge_order_work_cap w"
proof -
  obtain found st where s: "mask_search E delta maxWork cb 0 (initial_search polls) = (found, st)"
    by fastforce
  note w = search_from_start(2) [OF assms(1,2) s]
  from w have b: "ms_work st + cap_slack st \<le> mask_cost (length E) (supermasks (length E) 0)"
    and c: "cap_slack st = 1 \<longrightarrow> maxWork \<le> ms_work st"
    by (simp_all add: work_post_def)
  from b have b2: "2 * (ms_work st + cap_slack st) \<le> int (length E) * 2 ^ length E"
    using mask_cost_lattice [of "length E"] by simp
  show "2 * work \<le> int (length E) * 2 ^ length E"
    if "r = Merge_ok hashes fb work \<or> r = Merge_failed reason work"
    using that assms(3) s b2
    by (auto simp: plan_merge_def cap_slack_def split: option.splits if_splits)
  show "r \<noteq> Merge_failed Merge_order_work_cap w" if "int (length E) * 2 ^ length E \<le> 2 * maxWork"
  proof
    assume "r = Merge_failed Merge_order_work_cap w"
    with assms(3) s have "ms_interrupt st = None" "ms_exhausted st"
      by (auto simp: plan_merge_def split: option.splits interrupt_reason.splits if_splits)
    with b2 c that show False by (simp add: cap_slack_def)
  qed
qed

lemma no_callback_no_interrupt:
  shows "cb = None \<Longrightarrow> ms_interrupt st = None \<Longrightarrow> ms_interrupt (snd (mask_search E delta maxWork cb m st)) = None"
    and "cb = None \<Longrightarrow> ms_interrupt st = None \<Longrightarrow>
      ms_interrupt (snd (mask_loop E delta maxWork cb m balances index st)) = None"
proof (induction E delta maxWork cb m st and E delta maxWork cb m balances index st
    rule: mask_search_mask_loop.induct)
  case (1 ordered delta maxWork cb m st)
  then show ?case by (simp add: mask_search.simps)
next
  case (2 ordered delta maxWork cb m balances index st)
  obtain answer st2 where t: "tick cb st = (answer, st2)" by fastforce
  from t 2(5) have a: "answer = Continue" by (auto simp: tick_def poll_def Let_def split: if_splits)
  have st2: "ms_interrupt st2 = None" using tick_fields(4) [OF t] "2.prems" by simp
  from "2.prems" have [simp]: "cb = None" by simp
  note unf = mask_loop.simps [of ordered delta maxWork None m balances index st]
  note IH = "2.IH"(2-4) [OF _ _ _ t [symmetric] a]
  show ?case
  proof (cases "length ordered \<le> index \<or> bit m index \<or> ms_work st \<ge> maxWork")
    case True
    with "2.IH"(1) "2.prems" show ?thesis by (auto simp: unf)
  next
    case False
    show ?thesis
    proof (cases "addNetRows balances (me_rows (ordered ! index)) delta")
      case None
      with IH(1) False "2.prems" st2 t a show ?thesis by (simp add: unf)
    next
      case (Some b)
      obtain found st3 where r: "mask_search ordered delta maxWork cb (set_bit index m)
          (enter_mask (set_bit index m) b index st2) = (found, st3)" by fastforce
      with IH(2) [OF _ _ _ Some] False "2.prems" st2 have "ms_interrupt st3 = None" by simp
      with IH(3) [OF _ _ _ Some r [symmetric]] False "2.prems" t a Some r show ?thesis
        by (simp add: unf)
    qed
  qed
qed

lemma plan_merge_no_callback:
  assumes "plan_merge E delta maxWork None polls = (Merge_failed reason work, polls')"
  shows "reason = Unsafe_merge_order \<or> reason = Merge_order_work_cap"
  using assms no_callback_no_interrupt(1) [of None "initial_search polls" E delta maxWork 0]
  by (auto simp: plan_merge_def split: option.splits interrupt_reason.splits if_splits prod.splits)

section \<open>The planner decides the existence of a safe order\<close>

text \<open>
  The contract in terms of the makers alone: an order of the sources is safe when the signed
  maker supply of every prefix stays representable for every token.
\<close>

definition safe_order :: "int \<Rightarrow> merge_source list \<Rightarrow> bool" where
  "safe_order delta ss \<longleftrightarrow> (\<forall>k \<le> length ss. \<forall>t. \<bar>maker_net (take k ss) t\<bar> \<le> delta)"

definition entry_for :: "merge_source \<Rightarrow> merge_entry \<Rightarrow> bool" where
  "entry_for s e \<longleftrightarrow> merge_entry_of s = Inr e"

lemma entry_for_facts:
  assumes "entry_for s e"
  shows "me_hash e = toLowerCase (src_hash s)" "net_of (me_rows e) t = maker_net [s] t"
    "distinct (map tb_token (me_rows e))"
proof -
  from assms obtain rows where "isHex64 (src_hash s)" "accountWholeOfferBalances [s] = Inr rows"
      and e: "e = \<lparr>me_hash = toLowerCase (src_hash s), me_rows = rows\<rparr>"
    by (auto simp: entry_for_def merge_entry_of_def bindR_eq_Inr canonicalToken_def sourceNetRows_def
        split: if_splits)
  then show "me_hash e = toLowerCase (src_hash s)" "net_of (me_rows e) t = maker_net [s] t"
    "distinct (map tb_token (me_rows e))"
    using net_of_account [of "[s]" rows t] canonical_rows_distinct [OF canonical_account] by auto
qed

lemma entries_good: "list_all2 entry_for ss es \<Longrightarrow> good_entries es"
  by (induction rule: list_all2_induct) (auto simp: good_entries_def entry_for_facts(3))

lemma entries_hashes: "list_all2 entry_for ss es \<Longrightarrow> map me_hash es = map (\<lambda>s. toLowerCase (src_hash s)) ss"
  by (induction rule: list_all2_induct) (auto simp: entry_for_facts(1))

lemma entries_net: "list_all2 entry_for ss es \<Longrightarrow> entry_net es t = maker_net ss t"
proof (induction rule: list_all2_induct)
  case (Cons s ss e es)
  then show ?case using entry_for_facts(2) [OF Cons.hyps(1)] by (simp add: maker_net_def)
qed (simp add: maker_net_def)

lemma entries_safe: "list_all2 entry_for ss es \<Longrightarrow> prefix_safe delta es \<longleftrightarrow> safe_order delta ss"
proof -
  assume l: "list_all2 entry_for ss es"
  then have "entry_net (take k es) t = maker_net (take k ss) t" for k t
    by (intro entries_net list_all2_takeI)
  then show ?thesis using list_all2_lengthD [OF l] by (simp add: prefix_safe_def safe_order_def)
qed

lemma exists_safe_order:
  assumes "list_all2 entry_for sources entries"
  shows "(\<exists>es. mset es = mset entries \<and> prefix_safe delta es)
     \<longleftrightarrow> (\<exists>ss. mset ss = mset sources \<and> safe_order delta ss)"
proof
  assume "\<exists>es. mset es = mset entries \<and> prefix_safe delta es"
  then obtain es where es: "mset es = mset entries" "prefix_safe delta es" by blast
  have "list_all2 (\<lambda>e s. entry_for s e) entries sources"
    using assms by (simp add: list_all2_conv_all_nth)
  from list_all2_reorder_left_invariance [OF this es(1)]
  obtain ss where "list_all2 entry_for ss es" "mset ss = mset sources"
    by (auto simp: list_all2_conv_all_nth)
  with es(2) entries_safe show "\<exists>ss. mset ss = mset sources \<and> safe_order delta ss" by blast
next
  assume "\<exists>ss. mset ss = mset sources \<and> safe_order delta ss"
  then obtain ss where ss: "mset ss = mset sources" "safe_order delta ss" by blast
  from list_all2_reorder_left_invariance [OF assms ss(1)]
  obtain es where "list_all2 entry_for ss es" "mset es = mset entries" by blast
  with ss(2) entries_safe show "\<exists>es. mset es = mset entries \<and> prefix_safe delta es" by blast
qed

text \<open>A call that gets past its argument checks is a call of the planner.\<close>

lemma find_plan:
  assumes "findSafeWholeOfferMergeOrder sources options polls = Inr (r, polls')"
    and "\<forall>w. r \<noteq> Merge_failed Too_many_sources w"
  obtains entries delta maxWork where
    "list_all2 entry_for sources entries"
    "delta = (case mo_maximumDelta options of Some d \<Rightarrow> d | None \<Rightarrow> MAX_SETTLEMENT_AMOUNT)"
    "maxWork = (case mo_maxWork options of Some w \<Rightarrow> w | None \<Rightarrow> MAX_SAFE_MERGE_ORDER_WORK)"
    "0 < delta" "length sources \<le> 8"
    "plan_merge (sort_key me_hash entries) delta maxWork (mo_shouldAbort options) polls = (r, polls')"
proof -
  let ?n = "(case mo_maxSources options of Some n \<Rightarrow> n | None \<Rightarrow> MAX_PHYSICAL_MAKERS_PER_MERGE)"
  from assms obtain entries where e: "mapR merge_entry_of sources = Inr entries"
    "length sources \<le> 8"
    "0 < (case mo_maximumDelta options of Some d \<Rightarrow> d | None \<Rightarrow> MAX_SETTLEMENT_AMOUNT)"
    "plan_merge (sort_key me_hash entries)
       (case mo_maximumDelta options of Some d \<Rightarrow> d | None \<Rightarrow> MAX_SETTLEMENT_AMOUNT)
       (case mo_maxWork options of Some w \<Rightarrow> w | None \<Rightarrow> MAX_SAFE_MERGE_ORDER_WORK)
       (mo_shouldAbort options) polls = (r, polls')"
    unfolding findSafeWholeOfferMergeOrder_def Let_def
    by (auto simp: bindR_eq_Inr MAX_PHYSICAL_MAKERS_PER_MERGE_def split: if_splits)
  from e(1) have "list_all2 entry_for sources entries" by (simp add: mapR_Inr_iff entry_for_def [abs_def])
  with that e(2-4) show thesis by blast
qed

abbreviation effective_delta :: "merge_options \<Rightarrow> int" where
  "effective_delta options \<equiv>
     (case mo_maximumDelta options of Some d \<Rightarrow> d | None \<Rightarrow> MAX_SETTLEMENT_AMOUNT)"

lemma findSafe_ok:
  assumes "findSafeWholeOfferMergeOrder sources options polls = Inr (Merge_ok hashes fb work, polls')"
  shows "\<exists>ss. mset ss = mset sources \<and> hashes = map (\<lambda>s. toLowerCase (src_hash s)) ss
     \<and> safe_order (effective_delta options) ss"
proof -
  obtain entries delta maxWork where e: "list_all2 entry_for sources entries"
    and d: "delta = effective_delta options" "0 < delta"
    and p: "plan_merge (sort_key me_hash entries) delta maxWork (mo_shouldAbort options) polls
        = (Merge_ok hashes fb work, polls')"
    by (rule find_plan [OF assms]) auto
  have "good_entries (sort_key me_hash entries)"
    using entries_good [OF e] by (simp add: good_entries_def)
  from plan_merge_ok [OF less_imp_le [OF d(2)] this p] obtain es where
    es: "mset es = mset entries" "hashes = map me_hash es" "prefix_safe delta es" by auto
  have "list_all2 (\<lambda>e s. entry_for s e) entries sources"
    using e by (simp add: list_all2_conv_all_nth)
  from list_all2_reorder_left_invariance [OF this es(1)]
  obtain ss where ss: "list_all2 entry_for ss es" "mset ss = mset sources"
    by (auto simp: list_all2_conv_all_nth)
  with es entries_hashes [OF ss(1)] entries_safe [OF ss(1)] d(1) show ?thesis by auto
qed

lemma findSafe_unsafe:
  assumes "findSafeWholeOfferMergeOrder sources options polls = Inr (Merge_failed Unsafe_merge_order work, polls')"
  shows "\<not> (\<exists>ss. mset ss = mset sources \<and> safe_order (effective_delta options) ss)"
proof -
  obtain entries delta maxWork where e: "list_all2 entry_for sources entries"
    and d: "delta = effective_delta options" "0 < delta"
    and p: "plan_merge (sort_key me_hash entries) delta maxWork (mo_shouldAbort options) polls
        = (Merge_failed Unsafe_merge_order work, polls')"
    by (rule find_plan [OF assms]) auto
  have "good_entries (sort_key me_hash entries)"
    using entries_good [OF e] by (simp add: good_entries_def)
  from plan_merge_unsafe [OF less_imp_le [OF d(2)] this p] exists_safe_order [OF e] d(1)
  show ?thesis by simp
qed

section \<open>Properties\<close>

text \<open>
  C12: whatever its budget and its callback, an order the planner returns lists every
  source exactly once by canonical hash, and after each of its prefixes the net supply of
  every token is representable within the configured delta.
\<close>

theorem findSafeWholeOfferMergeOrder_sound:
  assumes "findSafeWholeOfferMergeOrder sources options polls = Inr (Merge_ok hashes fb work, polls')"
  shows "\<exists>ss. mset ss = mset sources \<and> hashes = map (\<lambda>s. toLowerCase (src_hash s)) ss
     \<and> safe_order (effective_delta options) ss"
  by (rule findSafe_ok [OF assms])

text \<open>
  C3: the planner answers that no safe order exists only when none does, among all
  permutations of the sources.
\<close>

theorem findSafeWholeOfferMergeOrder_complete:
  assumes "findSafeWholeOfferMergeOrder sources options polls = Inr (Merge_failed Unsafe_merge_order work, polls')"
  shows "\<not> (\<exists>ss. mset ss = mset sources \<and> safe_order (effective_delta options) ss)"
  by (rule findSafe_unsafe [OF assms])

lemma power_bound: "n \<le> 8 \<Longrightarrow> int n * 2 ^ n \<le> 2048"
proof -
  assume n: "n \<le> 8"
  then have "int n * 2 ^ n \<le> 8 * 2 ^ 8"
    by (intro mult_mono power_increasing) auto
  then show ?thesis by simp
qed

lemma valid_entries:
  assumes "list_all valid_source sources" "\<forall>s \<in> set sources. isHex64 (src_hash s)"
  obtains entries where "mapR merge_entry_of sources = Inr entries"
proof -
  have v: "\<exists>e. merge_entry_of s = Inr e" if "s \<in> set sources" for s
  proof -
    have "list_all valid_source [s]" using that assms(1) by (auto simp: list_all_iff)
    from accountWholeOfferBalances_valid [OF this] that assms(2) show ?thesis
      by (simp add: merge_entry_of_def sourceNetRows_def canonicalToken_def)
  qed
  then have "mapR merge_entry_of sources = Inr (map (\<lambda>s. projr (merge_entry_of s)) sources)"
    by (intro mapR_total) force
  with that show thesis by blast
qed

lemma find_returns:
  assumes "list_all valid_source sources" "\<forall>s \<in> set sources. isHex64 (src_hash s)"
    and "distinct (map (\<lambda>s. toLowerCase (src_hash s)) sources)" "length sources \<le> 8"
    and "0 \<le> w" "w \<le> MAX_SAFE_MERGE_ORDER_WORK"
  shows "\<exists>r polls'. findSafeWholeOfferMergeOrder sources
       \<lparr>mo_maximumDelta = None, mo_maxSources = None, mo_maxWork = Some w, mo_shouldAbort = cb\<rparr> polls
         = Inr (r, polls')"
proof -
  obtain entries where m: "mapR merge_entry_of sources = Inr entries"
    using valid_entries [OF assms(1,2)] .
  then have e: "list_all2 entry_for sources entries"
    by (simp add: mapR_Inr_iff entry_for_def [abs_def])
  let ?E = "sort_key me_hash entries"
  have "distinct (map me_hash ?E)" using entries_hashes [OF e] assms(3) by simp
  then have "length (js_uniq (map me_hash ?E)) = length ?E" using js_uniq_length_eq [of "map me_hash ?E"] by simp
  then show ?thesis
    using assms(4-6) m
    by (cases "plan_merge ?E MAX_SETTLEMENT_AMOUNT w cb polls")
      (simp add: findSafeWholeOfferMergeOrder_def MAX_PHYSICAL_MAKERS_PER_MERGE_def is_safe_integer_def
        max_safe_integer_def max_safe_merge_order_work_1024 not_le)
qed

text \<open>
  With the default budget and no abort callback, the planner always decides: on up
  to eight valid sources with distinct hashes it returns an order, or the answer that no safe
  order exists, never a spent budget, after at most n * 2^(n-1) transitions.
\<close>

theorem findSafeWholeOfferMergeOrder_decides:
  assumes "list_all valid_source sources" "\<forall>s \<in> set sources. isHex64 (src_hash s)"
    and "distinct (map (\<lambda>s. toLowerCase (src_hash s)) sources)" "length sources \<le> 8"
    and "0 < delta" "delta \<le> MAX_SETTLEMENT_AMOUNT"
  shows "\<exists>r polls'. findSafeWholeOfferMergeOrder sources
       \<lparr>mo_maximumDelta = Some delta, mo_maxSources = None, mo_maxWork = None, mo_shouldAbort = None\<rparr> polls
         = Inr (r, polls')
     \<and> ((\<exists>hashes fb work. r = Merge_ok hashes fb work \<and> 2 * work \<le> int (length sources) * 2 ^ length sources)
        \<or> (\<exists>work. r = Merge_failed Unsafe_merge_order work
             \<and> 2 * work \<le> int (length sources) * 2 ^ length sources))"
proof -
  obtain entries where m: "mapR merge_entry_of sources = Inr entries"
    using valid_entries [OF assms(1,2)] .
  then have e: "list_all2 entry_for sources entries"
    by (simp add: mapR_Inr_iff entry_for_def [abs_def])
  let ?E = "sort_key me_hash entries"
  have len: "length entries = length sources" using list_all2_lengthD [OF e] by simp
  have "distinct (map me_hash entries)" using entries_hashes [OF e] assms(3) by simp
  then have dist: "distinct (map me_hash ?E)"
    by (metis mset_map mset_sort mset_eq_imp_distinct_iff)
  have g: "good_entries ?E" using entries_good [OF e] by (simp add: good_entries_def)
  obtain r polls' where p: "plan_merge ?E delta MAX_SAFE_MERGE_ORDER_WORK None polls = (r, polls')"
    by fastforce
  have "length (js_uniq (map me_hash ?E)) = length ?E" using dist js_uniq_length_eq [of "map me_hash ?E"] by simp
  then have f: "findSafeWholeOfferMergeOrder sources
       \<lparr>mo_maximumDelta = Some delta, mo_maxSources = None, mo_maxWork = None, mo_shouldAbort = None\<rparr> polls
         = Inr (r, polls')"
    using assms(4-6) m p
    by (simp add: findSafeWholeOfferMergeOrder_def MAX_PHYSICAL_MAKERS_PER_MERGE_def is_safe_integer_def
        max_safe_integer_def max_safe_merge_order_work_1024)
  note w = plan_merge_work [OF less_imp_le [OF assms(5)] g p]
  have cap: "r \<noteq> Merge_failed Merge_order_work_cap w'" for w'
    by (rule w(2)) (use power_bound [OF assms(4)] in \<open>simp add: len max_safe_merge_order_work_1024\<close>)
  show ?thesis
  proof (cases r)
    case (Merge_ok hashes fb work)
    with f w(1) [of hashes fb work] show ?thesis by (auto simp: len)
  next
    case (Merge_failed reason work)
    with plan_merge_no_callback [of ?E delta MAX_SAFE_MERGE_ORDER_WORK polls reason work polls'] p cap
    have "reason = Unsafe_merge_order" by auto
    with Merge_failed f w(1) [of _ _ work reason] show ?thesis by (auto simp: len)
  qed
qed

subsection \<open>Concrete inputs\<close>

definition sample_sources :: "merge_source list" where
  "sample_sources =
    [\<lparr>src_gives = [\<lparr>leg_token = ident CHR ''a'', leg_amount = 8\<rparr>], src_wants = [], src_hash = ident CHR ''1''\<rparr>,
     \<lparr>src_gives = [\<lparr>leg_token = ident CHR ''a'', leg_amount = 8\<rparr>], src_wants = [], src_hash = ident CHR ''2''\<rparr>,
     \<lparr>src_gives = [], src_wants = [\<lparr>leg_token = ident CHR ''A'', leg_amount = 10\<rparr>], src_hash = ident CHR ''3''\<rparr>]"

definition sample_options :: "int \<Rightarrow> merge_options" where
  "sample_options d = \<lparr>mo_maximumDelta = Some d, mo_maxSources = None, mo_maxWork = None, mo_shouldAbort = None\<rparr>"

lemmas eval_find = findSafeWholeOfferMergeOrder_def Let_def merge_entry_of_def sourceNetRows_def eval_accounting
  sample_sources_def sample_options_def js_uniq_def set_add_def MAX_SETTLEMENT_AMOUNT_def
  MAX_PHYSICAL_MAKERS_PER_MERGE_def max_safe_merge_order_work_1024 is_safe_integer_def max_safe_integer_def

lemma sample_plans:
  "plan_merge [\<lparr>me_hash = h1, me_rows = [balance_row (ident CHR ''a'') 8 0]\<rparr>,
    \<lparr>me_hash = h2, me_rows = [balance_row (ident CHR ''a'') 8 0]\<rparr>,
    \<lparr>me_hash = h3, me_rows = [balance_row (ident CHR ''a'') 0 10]\<rparr>] 10 1024 None 0 =
   (Merge_ok [h1, h3, h2] True 4, 0)"
  "plan_merge [\<lparr>me_hash = h1, me_rows = [balance_row (ident CHR ''a'') 8 0]\<rparr>,
    \<lparr>me_hash = h2, me_rows = [balance_row (ident CHR ''a'') 8 0]\<rparr>] 10 1024 None 0 =
   (Merge_failed Unsafe_merge_order 4, 0)"
  by code_simp+

theorem findSafeWholeOfferMergeOrder_sound_witness:
  "findSafeWholeOfferMergeOrder sample_sources (sample_options 10) 0
     = Inr (Merge_ok [ident CHR ''1'', ident CHR ''3'', ident CHR ''2''] True 4, 0)
   \<and> (\<exists>ss. mset ss = mset sample_sources \<and> safe_order 10 ss)"
proof -
  have r: "findSafeWholeOfferMergeOrder sample_sources (sample_options 10) 0
      = Inr (Merge_ok [ident CHR ''1'', ident CHR ''3'', ident CHR ''2''] True 4, 0)"
    using sample_plans(1) [of "ident CHR ''1''" "ident CHR ''2''" "ident CHR ''3''"]
    by (simp add: eval_find)
  from findSafeWholeOfferMergeOrder_sound [OF r] r show ?thesis by (auto simp: sample_options_def)
qed

theorem findSafeWholeOfferMergeOrder_complete_witness:
  "findSafeWholeOfferMergeOrder (take 2 sample_sources) (sample_options 10) 0
     = Inr (Merge_failed Unsafe_merge_order 4, 0)
   \<and> \<not> (\<exists>ss. mset ss = mset (take 2 sample_sources) \<and> safe_order 10 ss)"
proof -
  have r: "findSafeWholeOfferMergeOrder (take 2 sample_sources) (sample_options 10) 0
      = Inr (Merge_failed Unsafe_merge_order 4, 0)"
    using sample_plans(2) [of "ident CHR ''1''" "ident CHR ''2''"]
    by (simp add: eval_find)
  from findSafeWholeOfferMergeOrder_complete [OF r] r show ?thesis by (simp add: sample_options_def)
qed

theorem findSafeWholeOfferMergeOrder_decides_witness:
  "\<exists>r polls'. findSafeWholeOfferMergeOrder sample_sources (sample_options 10) 0 = Inr (r, polls')
     \<and> ((\<exists>hashes fb work. r = Merge_ok hashes fb work \<and> 2 * work \<le> 24)
        \<or> (\<exists>work. r = Merge_failed Unsafe_merge_order work \<and> 2 * work \<le> 24))"
proof -
  have h: "list_all valid_source sample_sources" "\<forall>s \<in> set sample_sources. isHex64 (src_hash s)"
    "distinct (map (\<lambda>s. toLowerCase (src_hash s)) sample_sources)" "length sample_sources \<le> 8"
    "0 < (10 :: int)" "10 \<le> MAX_SETTLEMENT_AMOUNT" "length sample_sources = 3"
    by (simp_all add: sample_sources_def valid_source_def valid_leg_def lower_hex_is_hex MAX_SETTLEMENT_AMOUNT_def)
  from findSafeWholeOfferMergeOrder_decides [OF h(1-6), of 0] show ?thesis
    by (simp add: sample_options_def h(7))
qed

end
