(* ===== verification/Ladder_Search.thy ===== *)
theory Ladder_Search
  imports Ladder_Frontier Merge_Order "HOL-Library.Sublist"
begin

text \<open>
  Model of \<open>enumeratePair\<close> (\<^verbatim>\<open>packages/solver-core/ladder-derivation.ts\<close>): the depth-first
  enumeration of every nonempty physical subset of a universe up to the maker limit, with its
  budgets, polls and the reusable scratch arrays that each branch mutates and rolls back. The
  code's index loop over the bucket is a recursion over the bucket's suffix; sparse arrays are
  partial functions of an index, \<open>undefined\<close> being \<open>None\<close>.
\<close>

section \<open>State\<close>

record search_context =
  sx_tokenIn :: string
  sx_tokenOut :: string
  sx_tokenInIndex :: int
  sx_tokenOutIndex :: int
  sx_tokenAt :: "string list"
  sx_limits :: resource_limits
  sx_budget :: budget_context
  sx_direct :: bool

record search_state =
  ss_exact :: exact_map
  ss_visitedSubsets :: int
  ss_amountCappedSubsets :: int
  ss_safeMergeOrderWork :: int
  ss_unsafeMergeOrderSubsets :: int
  ss_reason :: "ladder_reason option"
  ss_gives :: "int \<Rightarrow> int option"
  ss_wants :: "int \<Rightarrow> int option"
  ss_nets :: "int \<Rightarrow> int option"
  ss_active :: "int list"
  ss_selected :: "crossable list"
  ss_diag :: ladder_diagnostics

section \<open>Small steps\<close>

fun earlier_hashes :: "crossable list \<Rightarrow> string list \<Rightarrow> bool" where
  "earlier_hashes (c # cs) (h # hs) =
     (if cr_offerHash c < h then True else if cr_offerHash c > h then False else earlier_hashes cs hs)"
| "earlier_hashes cs hs = False"

definition betterSelectedWitness :: "int \<Rightarrow> crossable list \<Rightarrow> combination_state \<Rightarrow> bool" where
  "betterSelectedWitness output selected incumbent =
     (if output \<noteq> cs_output incumbent then output > cs_output incumbent
      else if length selected \<noteq> length (cs_offerHashes incumbent)
      then length selected < length (cs_offerHashes incumbent)
      else earlier_hashes selected (cs_offerHashes incumbent))"

text \<open>\<open>x ?? 0n\<close>\<close>

definition or_zero :: "int option \<Rightarrow> int" where
  "or_zero x = (case x of Some v \<Rightarrow> v | None \<Rightarrow> 0)"

definition offer_witness ::
    "int \<Rightarrow> int \<Rightarrow> token_balance list option \<Rightarrow> search_state \<Rightarrow> search_state" where
  "offer_witness input out rows st =
     (let key = bigint_to_string input;
          better = (case map_of (ss_exact st) key of
                      None \<Rightarrow> True
                    | Some incumbent \<Rightarrow> betterSelectedWitness out (ss_selected st) incumbent)
      in if better
         then st\<lparr>ss_exact := AList.update key
                 \<lparr>cs_input = input, cs_output = out, cs_offerHashes = map cr_offerHash (ss_selected st),
                  cs_tokenBalances = rows\<rparr> (ss_exact st)\<rparr>
         else st)"

definition within_settlement :: "int \<Rightarrow> bool" where
  "within_settlement n \<longleftrightarrow> - MAX_SETTLEMENT_AMOUNT \<le> n \<and> n \<le> MAX_SETTLEMENT_AMOUNT"

text \<open>Whether a token is untouched by the selection so far.\<close>

definition was_absent :: "search_state \<Rightarrow> int \<Rightarrow> bool" where
  "was_absent st i \<longleftrightarrow> or_zero (ss_gives st i) = 0 \<and> or_zero (ss_wants st i) = 0"

text \<open>Extending the composed selection by a candidate: balances, active tokens, selection.\<close>

definition push_candidate :: "crossable \<Rightarrow> search_state \<Rightarrow> search_state" where
  "push_candidate c st =
     (let i = cr_tokenInIndex c; out = cr_tokenOutIndex c;
          active = ss_active st @ (if was_absent st i then [i] else []) @ (if was_absent st out then [out] else []);
          wants = (ss_wants st)(i \<mapsto> or_zero (ss_wants st i) + cr_amountIn c);
          nets = (ss_nets st)(i \<mapsto> or_zero (ss_nets st i) - cr_amountIn c);
          gives = (ss_gives st)(out \<mapsto> or_zero (ss_gives st out) + cr_amountOut c);
          nets2 = nets(out \<mapsto> or_zero (nets out) + cr_amountOut c)
      in st\<lparr>ss_active := active, ss_wants := wants, ss_nets := nets2, ss_gives := gives,
            ss_selected := ss_selected st @ [c]\<rparr>)"

text \<open>
  The \<open>finally\<close> block: \<open>st\<close> is the state the candidate was pushed on, \<open>st'\<close> the state the branch
  left. The popped active entries must be the ones the push added.
\<close>

definition pop_active :: "bool \<Rightarrow> int \<Rightarrow> int list \<Rightarrow> int list result" where
  "pop_active was i active =
     (if was then
        if active \<noteq> [] \<and> last active = i then Inr (butlast active)
        else Inl (PlainError ''balance stack corruption'')
      else Inr active)"

definition rollback :: "crossable \<Rightarrow> search_state \<Rightarrow> search_state \<Rightarrow> search_state result" where
  "rollback c st st' =
     (let i = cr_tokenInIndex c; out = cr_tokenOutIndex c;
          gives = (ss_gives st')(out := ss_gives st out);
          nets = (ss_nets st')(out := ss_nets st out)
      in bindR (pop_active (was_absent st out) out (ss_active st')) (\<lambda>active1.
         bindR (pop_active (was_absent st i) i active1) (\<lambda>active2.
           Inr (st'\<lparr>ss_selected := butlast (ss_selected st'), ss_gives := gives,
                    ss_wants := (ss_wants st')(i := ss_wants st i),
                    ss_nets := nets(i := ss_nets st i), ss_active := active2\<rparr>))))"

text \<open>The scan for another deficit and for an amount beyond the cap, with its early break.\<close>

fun scan_active :: "(int \<Rightarrow> int option) \<Rightarrow> int \<Rightarrow> int list \<Rightarrow> bool \<Rightarrow> bool \<times> bool" where
  "scan_active nets tokenInIndex [] amountCapped = (False, amountCapped)"
| "scan_active nets tokenInIndex (i # rest) amountCapped =
     (let net = or_zero (nets i) in
      if i \<noteq> tokenInIndex \<and> net < 0 then (True, amountCapped)
      else scan_active nets tokenInIndex rest (amountCapped \<or> \<not> within_settlement net))"

definition token_of :: "string list \<Rightarrow> int \<Rightarrow> string" where
  "token_of tokenAt i = (if 0 \<le> i \<and> nat i < length tokenAt then tokenAt ! nat i else [])"

definition witness_rows :: "string list \<Rightarrow> search_state \<Rightarrow> token_balance list" where
  "witness_rows tokenAt st =
     sort_key tb_token (map (\<lambda>i. \<lparr>tb_token = token_of tokenAt i, tb_gives = or_zero (ss_gives st i),
        tb_wants = or_zero (ss_wants st i), tb_net = or_zero (ss_nets st i)\<rparr>) (ss_active st))"

text \<open>
  The merge-order check of an economic candidate. Its result is the state and whether the branch
  returns at once.
\<close>

definition plan_order :: "search_context \<Rightarrow> bool \<Rightarrow> search_state \<Rightarrow> (merge_result \<times> nat) result" where
  "plan_order ctx prefixSafe st =
     (if prefixSafe then Inr (Merge_ok [] False 0, dg_polls (ss_diag st))
      else findSafeWholeOfferMergeOrder (map crossable_source (ss_selected st))
             \<lparr>mo_maximumDelta = None, mo_maxSources = None,
              mo_maxWork = Some (min MAX_SAFE_MERGE_ORDER_WORK (budget_remaining (sx_budget ctx) (ss_diag st))),
              mo_shouldAbort = bc_shouldAbort (sx_budget ctx)\<rparr> (dg_polls (ss_diag st)))"

definition merge_work :: "merge_result \<Rightarrow> int" where
  "merge_work r = (case r of Merge_ok _ _ w \<Rightarrow> w | Merge_failed _ w \<Rightarrow> w)"

text \<open>Charging the planner's work to the discovery budget and to the pair.\<close>

definition charge_merge_work :: "search_context \<Rightarrow> int \<Rightarrow> search_state \<Rightarrow> bool \<times> search_state" where
  "charge_merge_work ctx work st =
     (if work > 0 then
        (case charge (sx_budget ctx) (nat work) Safe_merge_order (ss_diag st) of (budgetReason, d) \<Rightarrow>
           let st1 = st\<lparr>ss_diag := d, ss_safeMergeOrderWork := ss_safeMergeOrderWork st + work\<rparr> in
           case budgetReason of
             Some r \<Rightarrow> (True, st1\<lparr>ss_reason := Some r\<rparr>)
           | None \<Rightarrow> (False, st1))
      else (False, st))"

definition after_order :: "search_context \<Rightarrow> int \<Rightarrow> merge_result \<Rightarrow> search_state \<Rightarrow> bool \<times> search_state" where
  "after_order ctx mergeWorkLimit order st =
     (case order of
        Merge_ok _ _ _ \<Rightarrow>
          (False, offer_witness (- or_zero (ss_nets st (sx_tokenInIndex ctx)))
                    (or_zero (ss_nets st (sx_tokenOutIndex ctx)))
                    (Some (witness_rows (sx_tokenAt ctx) st)) st)
      | Merge_failed failure _ \<Rightarrow>
          (case failure of
             Unsafe_merge_order \<Rightarrow> (False, st\<lparr>ss_unsafeMergeOrderSubsets := ss_unsafeMergeOrderSubsets st + 1\<rparr>)
           | Merge_aborted \<Rightarrow> (True, st\<lparr>ss_reason := Some R_aborted\<rparr>)
           | Merge_abort_check_failed \<Rightarrow> (True, st\<lparr>ss_reason := Some R_abort_check_failed\<rparr>)
           | Merge_order_work_cap \<Rightarrow>
               (True, st\<lparr>ss_reason := Some (if mergeWorkLimit < MAX_SAFE_MERGE_ORDER_WORK
                                            then R_discovery_work_cap else R_merge_order_work_cap)\<rparr>)
           | Too_many_sources \<Rightarrow> (False, st)))"

definition evaluate_selection :: "search_context \<Rightarrow> bool \<Rightarrow> search_state \<Rightarrow> (bool \<times> search_state) result" where
  "evaluate_selection ctx prefixSafe st =
     (let inputNet = or_zero (ss_nets st (sx_tokenInIndex ctx));
          outputNet = or_zero (ss_nets st (sx_tokenOutIndex ctx));
          (additionalDeficit, amountCapped) =
            (if inputNet < 0 \<and> outputNet > 0
             then scan_active (ss_nets st) (sx_tokenInIndex ctx) (ss_active st) False else (False, False));
          economicCandidate = (inputNet < 0 \<and> outputNet > 0 \<and> \<not> additionalDeficit)
      in if economicCandidate \<and> \<not> amountCapped then
           let mergeWorkLimit = min MAX_SAFE_MERGE_ORDER_WORK (budget_remaining (sx_budget ctx) (ss_diag st)) in
           bindR (plan_order ctx prefixSafe st) (\<lambda>(order, polls).
             let st1 = st\<lparr>ss_diag := (ss_diag st)\<lparr>dg_polls := polls\<rparr>\<rparr>;
                 (stopped, st2) = charge_merge_work ctx (merge_work order) st1
             in Inr (if stopped then (True, st2) else after_order ctx mergeWorkLimit order st2))
         else if economicCandidate \<and> amountCapped
         then Inr (False, st\<lparr>ss_amountCappedSubsets := ss_amountCappedSubsets st + 1\<rparr>)
         else Inr (False, st))"

text \<open>The sorted-prefix flag after a candidate: only its two rows changed.\<close>

definition next_prefix_safe :: "crossable \<Rightarrow> bool \<Rightarrow> search_state \<Rightarrow> bool" where
  "next_prefix_safe c prefixSafe st \<longleftrightarrow> prefixSafe
     \<and> within_settlement (or_zero (ss_nets st (cr_tokenInIndex c)))
     \<and> within_settlement (or_zero (ss_nets st (cr_tokenOutIndex c)))"

text \<open>The budget checks and the poll at the head of each iteration.\<close>

definition enter_subset :: "search_context \<Rightarrow> search_state \<Rightarrow> search_state" where
  "enter_subset ctx st =
     (let d = ss_diag st in
      if ss_visitedSubsets st \<ge> rl_maxVisitedSubsetsPerPair (sx_limits ctx)
      then st\<lparr>ss_reason := Some R_pair_search_cap\<rparr>
      else if dg_visitedSubsets d \<ge> rl_maxVisitedSubsetsTotal (sx_limits ctx)
      then st\<lparr>ss_reason := Some R_global_search_cap\<rparr>
      else
        let d1 = d\<lparr>dg_visitedSubsets := dg_visitedSubsets d + 1\<rparr>;
            (stopped, polls) = (if dg_visitedSubsets d1 mod 256 = 0
                                then abortReason (bc_shouldAbort (sx_budget ctx)) (dg_polls d1)
                                else (None, dg_polls d1))
        in st\<lparr>ss_visitedSubsets := ss_visitedSubsets st + 1, ss_diag := d1\<lparr>dg_polls := polls\<rparr>,
              ss_reason := stopped\<rparr>)"

section \<open>The enumeration\<close>

fun visit :: "search_context \<Rightarrow> crossable list \<Rightarrow> int \<Rightarrow> int \<Rightarrow> bool \<Rightarrow> search_state \<Rightarrow> search_state result" where
  "visit ctx [] directInput directOutput prefixSafe st = Inr st"
| "visit ctx (candidate # rest) directInput directOutput prefixSafe st0 =
     (if ss_reason st0 \<noteq> None then Inr st0
      else let st = enter_subset ctx st0 in
        if ss_reason st \<noteq> None then Inr st
        else if sx_direct ctx then
          let nextInput = directInput + cr_amountIn candidate;
              nextOutput = directOutput + cr_amountOut candidate
          in if nextInput > MAX_SETTLEMENT_AMOUNT \<or> nextOutput > MAX_SETTLEMENT_AMOUNT
             then visit ctx rest directInput directOutput prefixSafe
                    (st\<lparr>ss_amountCappedSubsets := ss_amountCappedSubsets st + 1\<rparr>)
             else
               let st1 = offer_witness nextInput nextOutput None
                           (st\<lparr>ss_selected := ss_selected st @ [candidate]\<rparr>)
               in bindR (if int (length (ss_selected st1)) < rl_maxMakersPerCombination (sx_limits ctx)
                         then visit ctx rest nextInput nextOutput True st1 else Inr st1) (\<lambda>st2.
                    visit ctx rest directInput directOutput prefixSafe
                      (st2\<lparr>ss_selected := butlast (ss_selected st2)\<rparr>))
        else
          let st1 = push_candidate candidate st;
              nextSafe = next_prefix_safe candidate prefixSafe st1
          in bindR (evaluate_selection ctx nextSafe st1) (\<lambda>(stopped, st2).
             bindR (if \<not> stopped \<and> int (length (ss_selected st2)) < rl_maxMakersPerCombination (sx_limits ctx)
                    then visit ctx rest 0 0 nextSafe st2 else Inr st2) (\<lambda>st3.
             bindR (rollback candidate st st3) (\<lambda>st4.
               visit ctx rest directInput directOutput prefixSafe st4))))"

record search_result =
  sr_exact :: exact_map
  sr_visitedSubsets :: int
  sr_amountCappedSubsets :: int
  sr_safeMergeOrderWork :: int
  sr_unsafeMergeOrderSubsets :: int
  sr_reason :: "ladder_reason option"

text \<open>The scratch buffers that pair searches share.\<close>

record pair_search_scratch =
  px_gives :: "int \<Rightarrow> int option"
  px_wants :: "int \<Rightarrow> int option"
  px_nets :: "int \<Rightarrow> int option"
  px_active :: "int list"
  px_selected :: "crossable list"

definition enumeratePair ::
    "crossable list \<Rightarrow> string \<Rightarrow> string \<Rightarrow> int \<Rightarrow> int \<Rightarrow> string list \<Rightarrow> pair_search_scratch \<Rightarrow> resource_limits
      \<Rightarrow> budget_context \<Rightarrow> ladder_diagnostics
      \<Rightarrow> (search_result \<times> pair_search_scratch \<times> ladder_diagnostics) result" where
  "enumeratePair bucket tokenIn tokenOut tokenInIndex tokenOutIndex tokenAt scratch limits budget diagnostics =
     (if px_active scratch \<noteq> [] \<or> px_selected scratch \<noteq> []
      then Inl (PlainError ''pair search scratch is not empty'')
      else
        let ctx = \<lparr>sx_tokenIn = tokenIn, sx_tokenOut = tokenOut, sx_tokenInIndex = tokenInIndex,
                   sx_tokenOutIndex = tokenOutIndex, sx_tokenAt = tokenAt, sx_limits = limits,
                   sx_budget = budget,
                   sx_direct = list_all (\<lambda>e. cr_tokenIn e = tokenIn \<and> cr_tokenOut e = tokenOut) bucket\<rparr>;
            st0 = \<lparr>ss_exact = [], ss_visitedSubsets = 0, ss_amountCappedSubsets = 0, ss_safeMergeOrderWork = 0,
                   ss_unsafeMergeOrderSubsets = 0, ss_reason = None, ss_gives = px_gives scratch,
                   ss_wants = px_wants scratch, ss_nets = px_nets scratch, ss_active = px_active scratch,
                   ss_selected = px_selected scratch, ss_diag = diagnostics\<rparr>
        in bindR (visit ctx bucket 0 0 True st0) (\<lambda>st.
          Inr (\<lparr>sr_exact = ss_exact st, sr_visitedSubsets = ss_visitedSubsets st,
                sr_amountCappedSubsets = ss_amountCappedSubsets st,
                sr_safeMergeOrderWork = ss_safeMergeOrderWork st,
                sr_unsafeMergeOrderSubsets = ss_unsafeMergeOrderSubsets st, sr_reason = ss_reason st\<rparr>,
               \<lparr>px_gives = ss_gives st, px_wants = ss_wants st, px_nets = ss_nets st,
                px_active = ss_active st, px_selected = ss_selected st\<rparr>,
               ss_diag st)))"

section \<open>Specification: feasible maker sets\<close>

text \<open>
  A selection of offers supplies and demands; it is feasible for a pair when its makers' net
  vector can be filled for the pair and the makers can be merged in some order whose every
  prefix is representable.
\<close>

definition offered :: "crossable list \<Rightarrow> string \<Rightarrow> int" where
  "offered S t = (\<Sum>c\<leftarrow>S. if cr_tokenOut c = t then cr_amountOut c else 0)"

definition requested :: "crossable list \<Rightarrow> string \<Rightarrow> int" where
  "requested S t = (\<Sum>c\<leftarrow>S. if cr_tokenIn c = t then cr_amountIn c else 0)"

definition net :: "crossable list \<Rightarrow> string \<Rightarrow> int" where
  "net S t = offered S t - requested S t"

definition mergeable :: "crossable list \<Rightarrow> bool" where
  "mergeable S \<longleftrightarrow> (\<exists>ss. mset ss = mset (map crossable_source S) \<and> safe_order MAX_SETTLEMENT_AMOUNT ss)"

definition feasible :: "string \<Rightarrow> string \<Rightarrow> crossable list \<Rightarrow> bool" where
  "feasible tokenIn tokenOut S \<longleftrightarrow> fillable (net S) tokenIn tokenOut \<and> mergeable S"

lemma offered_simps [simp]:
  "offered [] t = 0" "offered (c # S) t = (if cr_tokenOut c = t then cr_amountOut c else 0) + offered S t"
  "offered (S @ S') t = offered S t + offered S' t"
  by (simp_all add: offered_def)

lemma requested_simps [simp]:
  "requested [] t = 0" "requested (c # S) t = (if cr_tokenIn c = t then cr_amountIn c else 0) + requested S t"
  "requested (S @ S') t = requested S t + requested S' t"
  by (simp_all add: requested_def)

lemma net_append: "net (S @ S') t = net S t + net S' t"
  by (simp add: net_def)

lemma offered_nonneg: "\<forall>c \<in> set S. valid_crossable c \<Longrightarrow> 0 \<le> offered S t"
  by (induction S) (auto simp: valid_crossable_def)

lemma requested_nonneg: "\<forall>c \<in> set S. valid_crossable c \<Longrightarrow> 0 \<le> requested S t"
  by (induction S) (auto simp: valid_crossable_def)

lemma untouched_iff:
  assumes "\<forall>c \<in> set S. valid_crossable c"
  shows "offered S t = 0 \<and> requested S t = 0 \<longleftrightarrow> (\<forall>c \<in> set S. cr_tokenIn c \<noteq> t \<and> cr_tokenOut c \<noteq> t)"
  using assms
proof (induction S)
  case (Cons c S)
  then have "0 \<le> offered S t" "0 \<le> requested S t" by (auto intro: offered_nonneg requested_nonneg)
  with Cons show ?case by (auto simp: valid_crossable_def)
qed simp

lemma maker_net_crossables:
  assumes "\<forall>c \<in> set S. valid_crossable c"
  shows "maker_net (map crossable_source S) t = net S t"
  using assms
proof (induction S)
  case (Cons c S)
  have "maker_net (map crossable_source (c # S)) t
      = maker_net [crossable_source c] t + maker_net (map crossable_source S) t"
    by (simp add: maker_net_def)
  with Cons crossable_net [of c t] show ?case by (auto simp: net_def)
qed (simp add: maker_net_def net_def)

definition prefix_ok :: "crossable list \<Rightarrow> bool" where
  "prefix_ok S \<longleftrightarrow> (\<forall>k \<le> length S. \<forall>t. within_settlement (net (take k S) t))"

lemma within_settlement_abs: "within_settlement n \<longleftrightarrow> \<bar>n\<bar> \<le> MAX_SETTLEMENT_AMOUNT"
  by (auto simp: within_settlement_def)

lemma prefix_ok_safe_order:
  assumes "\<forall>c \<in> set S. valid_crossable c"
  shows "prefix_ok S \<longleftrightarrow> safe_order MAX_SETTLEMENT_AMOUNT (map crossable_source S)"
proof -
  have "maker_net (take k (map crossable_source S)) t = net (take k S) t" for k t
    using maker_net_crossables [of "take k S" t] assms by (auto simp: take_map dest: in_set_takeD)
  then show ?thesis by (simp add: prefix_ok_def safe_order_def within_settlement_abs)
qed

lemma prefix_ok_mergeable: "\<forall>c \<in> set S. valid_crossable c \<Longrightarrow> prefix_ok S \<Longrightarrow> mergeable S"
  using prefix_ok_safe_order mergeable_def by blast

lemma prefix_ok_snoc:
  assumes "valid_crossable c"
  shows "prefix_ok (S @ [c]) \<longleftrightarrow> prefix_ok S
     \<and> within_settlement (net (S @ [c]) (cr_tokenIn c)) \<and> within_settlement (net (S @ [c]) (cr_tokenOut c))"
proof -
  have "(\<forall>t. within_settlement (net (S @ [c]) t)) \<longleftrightarrow>
      within_settlement (net (S @ [c]) (cr_tokenIn c)) \<and> within_settlement (net (S @ [c]) (cr_tokenOut c))"
    if "prefix_ok S"
  proof (intro iffI allI)
    fix t assume w: "within_settlement (net (S @ [c]) (cr_tokenIn c)) \<and> within_settlement (net (S @ [c]) (cr_tokenOut c))"
    show "within_settlement (net (S @ [c]) t)"
    proof (cases "t = cr_tokenIn c \<or> t = cr_tokenOut c")
      case False
      then have "net (S @ [c]) t = net (take (length S) S) t" by (auto simp: net_def)
      moreover have "within_settlement (net (take (length S) S) t)" using that unfolding prefix_ok_def by blast
      ultimately show ?thesis by metis
    qed (use w in auto)
  qed auto
  then show ?thesis by (auto simp: prefix_ok_def le_Suc_eq)
qed

text \<open>What a pair search's result map guarantees.\<close>

text \<open>A provenance's balance rows, when it carries them, are the makers' balances.\<close>

definition rows_of :: "crossable list \<Rightarrow> token_balance list option \<Rightarrow> bool" where
  "rows_of S rows \<longleftrightarrow> (\<forall>b \<in> set (case rows of None \<Rightarrow> [] | Some rs \<Rightarrow> rs). isLowerHex64 (tb_token b)
     \<and> tb_gives b = offered S (tb_token b) \<and> tb_wants b = requested S (tb_token b) \<and> tb_net b = net S (tb_token b))"

definition witnessed :: "crossable list \<Rightarrow> string \<Rightarrow> string \<Rightarrow> nat \<Rightarrow> combination_state \<Rightarrow> bool" where
  "witnessed bucket tokenIn tokenOut maxMakers c \<longleftrightarrow>
     (\<exists>S. subseq S bucket \<and> S \<noteq> [] \<and> length S \<le> maxMakers \<and> feasible tokenIn tokenOut S
       \<and> cs_input c = - net S tokenIn \<and> cs_output c = net S tokenOut
       \<and> cs_offerHashes c = map cr_offerHash S \<and> rows_of S (cs_tokenBalances c))"

definition exact_inv :: "crossable list \<Rightarrow> string \<Rightarrow> string \<Rightarrow> nat \<Rightarrow> exact_map \<Rightarrow> bool" where
  "exact_inv bucket tokenIn tokenOut maxMakers exact \<longleftrightarrow> distinct (map fst exact)
     \<and> (\<forall>k c. map_of exact k = Some c \<longrightarrow>
          k = bigint_to_string (cs_input c) \<and> witnessed bucket tokenIn tokenOut maxMakers c)"

definition covered :: "string \<Rightarrow> string \<Rightarrow> exact_map \<Rightarrow> crossable list \<Rightarrow> bool" where
  "covered tokenIn tokenOut exact S \<longleftrightarrow>
     (\<exists>c. map_of exact (bigint_to_string (- net S tokenIn)) = Some c \<and> net S tokenOut \<le> cs_output c)"

lemma better_outputs:
  "betterSelectedWitness out sel inc \<Longrightarrow> cs_output inc \<le> out"
  "\<not> betterSelectedWitness out sel inc \<Longrightarrow> out \<le> cs_output inc"
  by (auto simp: betterSelectedWitness_def split: if_splits)

lemma offer_witness_fields [simp]:
  "ss_selected (offer_witness i out rows st) = ss_selected st"
  "ss_gives (offer_witness i out rows st) = ss_gives st"
  "ss_wants (offer_witness i out rows st) = ss_wants st"
  "ss_nets (offer_witness i out rows st) = ss_nets st"
  "ss_active (offer_witness i out rows st) = ss_active st"
  "ss_reason (offer_witness i out rows st) = ss_reason st"
  "ss_diag (offer_witness i out rows st) = ss_diag st"
  by (simp_all add: offer_witness_def Let_def)

lemma offer_witness_exact:
  assumes "exact_inv bucket tin tout n (ss_exact st)" and "S = ss_selected st"
    and "subseq S bucket" "S \<noteq> []" "length S \<le> n" "feasible tin tout S"
    and "i = - net S tin" "out = net S tout" "rows_of S rows"
  shows "exact_inv bucket tin tout n (ss_exact (offer_witness i out rows st))"
    and "covered tin tout (ss_exact (offer_witness i out rows st)) S"
    and "covered tin tout (ss_exact st) S' \<Longrightarrow> covered tin tout (ss_exact (offer_witness i out rows st)) S'"
proof -
  let ?new = "\<lparr>cs_input = i, cs_output = out, cs_offerHashes = map cr_offerHash S, cs_tokenBalances = rows\<rparr>"
  have w: "witnessed bucket tin tout n ?new"
    unfolding witnessed_def using assms(3-9) by (intro exI [of _ S]) simp
  let ?better = "case map_of (ss_exact st) (bigint_to_string i) of None \<Rightarrow> True
      | Some inc \<Rightarrow> betterSelectedWitness out (ss_selected st) inc"
  have ex: "ss_exact (offer_witness i out rows st) =
      (if ?better then AList.update (bigint_to_string i) ?new (ss_exact st) else ss_exact st)"
    using assms(2) by (simp add: offer_witness_def)
  then have get: "map_of (ss_exact (offer_witness i out rows st)) =
      (if ?better then (map_of (ss_exact st))(bigint_to_string i \<mapsto> ?new) else map_of (ss_exact st))"
    by (simp add: update_conv')
  have dist: "distinct (map fst (ss_exact (offer_witness i out rows st)))"
    using assms(1) by (simp add: ex exact_inv_def distinct_update)
  have entries: "k = bigint_to_string (cs_input c) \<and> witnessed bucket tin tout n c"
    if "map_of (ss_exact (offer_witness i out rows st)) k = Some c" for k c
    using that assms(1) w unfolding get exact_inv_def by (cases ?better; cases "k = bigint_to_string i") auto
  show "exact_inv bucket tin tout n (ss_exact (offer_witness i out rows st))"
    using dist entries unfolding exact_inv_def by blast
  show "covered tin tout (ss_exact (offer_witness i out rows st)) S"
    unfolding covered_def get using assms(2,7,8) better_outputs(2) by (auto split: option.splits)
  show "covered tin tout (ss_exact st) S' \<Longrightarrow> covered tin tout (ss_exact (offer_witness i out rows st)) S'"
    unfolding covered_def get using better_outputs(1)
    by (cases "- net S' tin = i") (fastforce split: option.splits)+
qed

end
