(* ===== verification/Ladder_Graph.thy ===== *)
theory Ladder_Graph
  imports Ladder_Discovery Ladder_Search
begin

text \<open>
  Correctness of \<open>buildDiscoveryGraph\<close>: Kahn's removal orders every vertex it removes after all its
  predecessors, so the offers of a component that is not marked cyclic respect a topological
  order; and the pruned search universe of a pair loses no feasible set of makers.
\<close>

section \<open>Edges\<close>

definition edge_of :: "(string \<Rightarrow> nat option) \<Rightarrow> crossable \<Rightarrow> nat \<times> nat" where
  "edge_of idx c = (the (idx (cr_tokenIn c)), the (idx (cr_tokenOut c)))"

definition reindex :: "(string \<Rightarrow> nat option) \<Rightarrow> crossable \<Rightarrow> crossable" where
  "reindex idx c = c\<lparr>cr_tokenInIndex := int (the (idx (cr_tokenIn c))),
                    cr_tokenOutIndex := int (the (idx (cr_tokenOut c)))\<rparr>"

definition in_edges :: "(nat \<times> nat) list \<Rightarrow> nat set \<Rightarrow> nat \<Rightarrow> nat" where
  "in_edges es done v = length (filter (\<lambda>e. snd e = v \<and> fst e \<notin> done) es)"

definition offers_indexed :: "(string \<Rightarrow> nat option) \<Rightarrow> nat \<Rightarrow> crossable list \<Rightarrow> bool" where
  "offers_indexed idx n offers \<longleftrightarrow> (\<forall>c \<in> set offers. \<exists>i out. idx (cr_tokenIn c) = Some i
     \<and> idx (cr_tokenOut c) = Some out \<and> i < n \<and> out < n)"

lemma count_edges_runs:
  assumes "offers_indexed idx n offers"
  shows "runs ctx (foldB (count_edge ctx idx) offers ([], replicate n [], replicate n 0))
    (\<lambda>(indexed, outgoing, indegree). indexed = map (reindex idx) offers
       \<and> length outgoing = n \<and> length indegree = n
       \<and> (\<forall>u < n. outgoing ! u = map snd (filter (\<lambda>e. fst e = u) (map (edge_of idx) offers)))
       \<and> (\<forall>v < n. indegree ! v = int (in_edges (map (edge_of idx) offers) {} v)))"
    (is "runs ctx _ (\<lambda>st. ?P offers st)")
proof (rule runs_fold, goal_cases)
  case 1
  show ?case by (simp add: in_edges_def)
next
  case (2 a c b st)
  obtain indexed outgoing indegree where st: "st = (indexed, outgoing, indegree)" by (cases st) auto
  obtain i out where ix: "idx (cr_tokenIn c) = Some i" "idx (cr_tokenOut c) = Some out" "i < n" "out < n"
    using assms 2(1) by (auto simp: offers_indexed_def)
  have "?P (a @ [c]) (indexed @ [c\<lparr>cr_tokenInIndex := int i, cr_tokenOutIndex := int out\<rparr>],
      outgoing[i := outgoing ! i @ [out]], indegree[out := indegree ! out + 1])"
    using 2(2) ix by (auto simp: st reindex_def edge_of_def in_edges_def nth_list_update)
  then show ?case
    unfolding st count_edge_def
    by (auto intro!: runs_charge_then runs_bind [OF runs_lift [OF ix(1), of "\<lambda>x. x = i"]]
        runs_bind [OF runs_lift [OF ix(2), of "\<lambda>x. x = out"]] runs_return)
qed

lemma seed_runs:
  assumes "length indegree = n"
  shows "runs ctx (foldB (seed_vertex ctx indegree) [0..<n] []) (\<lambda>queue. queue = filter (\<lambda>v. indegree ! v = 0) [0..<n])"
proof (rule runs_fold [where P = "\<lambda>xs queue. queue = filter (\<lambda>v. indegree ! v = 0) xs"])
qed (auto simp: seed_vertex_def intro!: runs_charge_then runs_return)

section \<open>Kahn's removal\<close>

definition topo :: "(nat \<times> nat) list \<Rightarrow> nat list \<Rightarrow> bool" where
  "topo es queue \<longleftrightarrow> (\<forall>k < length queue. \<forall>e \<in> set es. snd e = queue ! k \<longrightarrow> fst e \<in> set (take k queue))"

lemma topo_snoc: "topo es queue \<Longrightarrow> \<forall>e \<in> set es. snd e = v \<longrightarrow> fst e \<in> set queue \<Longrightarrow> topo es (queue @ [v])"
  by (auto simp: topo_def nth_append less_Suc_eq)

lemma in_edges_zero: "in_edges es done v = 0 \<longleftrightarrow> (\<forall>e \<in> set es. snd e = v \<longrightarrow> fst e \<in> done)"
  by (auto simp: in_edges_def filter_empty_conv)

lemma in_edges_insert:
  "u \<notin> done \<Longrightarrow> in_edges es done v = in_edges es (insert u done) v
     + count_list (map snd (filter (\<lambda>e. fst e = u) es)) v"
  by (induction es) (auto simp: in_edges_def)

definition queue_ok :: "nat \<Rightarrow> (nat \<times> nat) list \<Rightarrow> nat list \<Rightarrow> int list \<Rightarrow> bool" where
  "queue_ok n es queue indegree \<longleftrightarrow> length indegree = n \<and> distinct queue \<and> set queue \<subseteq> {..<n}
     \<and> topo es queue \<and> (\<forall>v < n. v \<in> set queue \<longleftrightarrow> indegree ! v = 0)"

definition kahn_inv :: "nat \<Rightarrow> (nat \<times> nat) list \<Rightarrow> nat list \<Rightarrow> nat \<Rightarrow> int list \<Rightarrow> bool" where
  "kahn_inv n es queue cursor indegree \<longleftrightarrow> queue_ok n es queue indegree \<and> cursor \<le> length queue
     \<and> (\<forall>v < n. indegree ! v = int (in_edges es (set (take cursor queue)) v))"

definition relax_inv :: "nat \<Rightarrow> (nat \<times> nat) list \<Rightarrow> nat list \<Rightarrow> nat \<Rightarrow> nat list \<Rightarrow> nat list \<times> int list \<Rightarrow> bool" where
  "relax_inv n es queue0 cursor todo st \<longleftrightarrow> (case st of (queue, indegree) \<Rightarrow>
     (\<exists>suf. queue = queue0 @ suf) \<and> queue_ok n es queue indegree
     \<and> (\<forall>v < n. indegree ! v = int (in_edges es (set (take (Suc cursor) queue0)) v) + int (count_list todo v)))"

lemma relax_edge_runs:
  assumes "relax_inv n es queue0 cursor (x # todo) st" "x < n"
  shows "runs ctx (relax_edge ctx x st) (relax_inv n es queue0 cursor todo)"
proof -
  obtain queue indegree where st: "st = (queue, indegree)" by fastforce
  let ?I = "indegree[x := indegree ! x - 1]"
  let ?N = "\<lambda>v. in_edges es (set (take (Suc cursor) queue0)) v"
  from assms have inv: "\<exists>suf. queue = queue0 @ suf" "queue_ok n es queue indegree"
    "\<forall>v < n. indegree ! v = int (?N v) + int (count_list (x # todo) v)" by (auto simp: relax_inv_def st)
  then have len: "length indegree = n" by (simp add: queue_ok_def)
  have num: "\<forall>v < n. ?I ! v = int (?N v) + int (count_list todo v)"
    using inv(3) len assms(2) by (auto simp: nth_list_update)
  have x: "indegree ! x > 0" using inv(3) assms(2) by simp
  then have nq: "x \<notin> set queue" using inv(2) assms(2) by (auto simp: queue_ok_def)
  have "relax_inv n es queue0 cursor todo (if ?I ! x = 0 then queue @ [x] else queue, ?I)"
  proof (cases "?I ! x = 0")
    case False
    with inv num len nq assms(2) show ?thesis by (auto simp: relax_inv_def queue_ok_def nth_list_update)
  next
    case True
    with num assms(2) have "?N x = 0" by simp
    then have "\<forall>e \<in> set es. snd e = x \<longrightarrow> fst e \<in> set queue"
      using inv(1) by (auto simp: in_edges_zero dest!: in_set_takeD)
    then have "topo es (queue @ [x])" using inv(2) by (intro topo_snoc) (auto simp: queue_ok_def)
    moreover have "v \<in> set (queue @ [x]) \<longleftrightarrow> ?I ! v = 0" if "v < n" for v
      using that inv(2) True len nq assms(2) by (auto simp: queue_ok_def nth_list_update)
    ultimately have "queue_ok n es (queue @ [x]) ?I"
      using inv(2) nq len assms(2) by (auto simp: queue_ok_def)
    with inv(1) num True show ?thesis by (auto simp: relax_inv_def)
  qed
  then show ?thesis by (simp add: st relax_edge_def Let_def runs_charge_then runs_return)
qed

lemma relax_all_runs:
  assumes "kahn_inv n es queue cursor indegree" "cursor < length queue"
    and "outs = map snd (filter (\<lambda>e. fst e = queue ! cursor) es)" "\<forall>e \<in> set es. snd e < n"
  shows "runs ctx (foldB (relax_edge ctx) outs (queue, indegree))
    (\<lambda>(queue1, indegree1). kahn_inv n es queue1 (Suc cursor) indegree1)"
proof -
  have u: "queue ! cursor \<notin> set (take cursor queue)"
    using assms(1,2) by (auto simp: kahn_inv_def queue_ok_def in_set_conv_nth nth_eq_iff_index_eq)
  have tk: "set (take (Suc cursor) queue) = insert (queue ! cursor) (set (take cursor queue))"
    using assms(2) by (simp add: take_Suc_conv_app_nth)
  have "runs ctx (foldB (relax_edge ctx) outs (queue, indegree))
    ((\<lambda>xs. relax_inv n es queue cursor (drop (length xs) outs)) outs)"
  proof (rule runs_fold [where P = "\<lambda>xs. relax_inv n es queue cursor (drop (length xs) outs)"], goal_cases)
    case 1
    show ?case using assms(1) in_edges_insert [OF u, of es]
      by (simp add: relax_inv_def kahn_inv_def tk assms(3))
  next
    case (2 a x b st)
    have "x \<in> set outs" using 2(1) by simp
    then have "x < n" using assms(3,4) by auto
    with 2 show ?case by (intro relax_edge_runs) simp_all
  qed
  then show ?thesis
  proof (rule runs_mono)
    fix st assume "relax_inv n es queue cursor (drop (length outs) outs) st"
    with assms(2) show "case st of (queue1, indegree1) \<Rightarrow> kahn_inv n es queue1 (Suc cursor) indegree1"
      by (auto simp: relax_inv_def kahn_inv_def)
  qed
qed

lemma kahn_loop_runs_at:
  assumes "kahn_inv n es queue cursor indegree"
    and "\<forall>u < n. outgoing ! u = map snd (filter (\<lambda>e. fst e = u) es)" "\<forall>e \<in> set es. snd e < n"
  shows "\<exists>r d'. kahn_loop ctx outgoing queue cursor indegree d = Some (r, d') \<and> work_moved ctx d d'
    \<and> (case r of Inl reason \<Rightarrow> reason \<in> stop_reasons
       | Inr indegree' \<Rightarrow> (\<exists>q. kahn_inv n es q (length q) indegree'))"
  using assms
proof (induction ctx outgoing queue cursor indegree d rule: kahn_loop.induct)
  case (1 ctx outgoing queue cursor indegree d)
  note inv = "1.prems"(1)
  show ?case
  proof (cases "cursor < length queue")
    case False
    with inv have "cursor = length queue" by (simp add: kahn_inv_def)
    with False inv show ?thesis by (subst kahn_loop.simps) (auto intro!: exI [of _ queue])
  next
    case True
    obtain a d1 where c: "charge ctx 1 Discovery d = (a, d1)" by fastforce
    note mv = charge_moves [OF c]
    show ?thesis
    proof (cases a)
      case (Some r)
      with True c mv show ?thesis by (subst kahn_loop.simps) simp
    next
      case None
      have v: "queue ! cursor < n" using True inv by (auto simp: kahn_inv_def queue_ok_def dest!: nth_mem)
      have "runs ctx (foldB (relax_edge ctx) (outgoing ! (queue ! cursor)) (queue, indegree))
        (\<lambda>(queue1, indegree1). kahn_inv n es queue1 (Suc cursor) indegree1)"
        by (rule relax_all_runs [OF inv True]) (use "1.prems"(2,3) v in auto)
      then obtain b d2 where f: "foldB (relax_edge ctx) (outgoing ! (queue ! cursor)) (queue, indegree) d1 = Some (b, d2)"
        "work_moved ctx d1 d2"
        "case b of Inl reason \<Rightarrow> reason \<in> stop_reasons
           | Inr (queue1, indegree1) \<Rightarrow> kahn_inv n es queue1 (Suc cursor) indegree1"
        unfolding runs_def by meson
      have mv2: "work_moved ctx d d2" using mv(1) f(2) by (rule work_moved_trans)
      show ?thesis
      proof (cases b)
        case (Inl r)
        with True c None f mv2 show ?thesis by (subst kahn_loop.simps) simp
      next
        case (Inr qi)
        obtain q1 i1 where qi: "qi = (q1, i1)" by fastforce
        have "kahn_inv n es q1 (Suc cursor) i1" using f(3) Inr qi by simp
        from "1.IH" [OF True c [symmetric] None f(1) refl Inr qi [symmetric] this "1.prems"(2,3)]
        obtain r d' where r: "kahn_loop ctx outgoing q1 (Suc cursor) i1 d2 = Some (r, d')" "work_moved ctx d2 d'"
          "case r of Inl reason \<Rightarrow> reason \<in> stop_reasons
           | Inr indegree' \<Rightarrow> (\<exists>q. kahn_inv n es q (length q) indegree')" by blast
        have "kahn_loop ctx outgoing queue cursor indegree d = Some (r, d')"
          using True c None f(1) Inr qi r(1) by (subst kahn_loop.simps) simp
        with r work_moved_trans [OF mv2 r(2)] show ?thesis by blast
      qed
    qed
  qed
qed

lemma kahn_indegrees_runs:
  assumes "offers_indexed idx n offers"
  shows "runs ctx (kahn_indegrees ctx idx n offers) (\<lambda>(indexed, indegree). indexed = map (reindex idx) offers
    \<and> (\<exists>q. kahn_inv n (map (edge_of idx) offers) q (length q) indegree))"
  unfolding kahn_indegrees_def
proof (rule runs_bind [OF count_edges_runs [OF assms]])
  let ?es = "map (edge_of idx) offers"
  let ?Q = "\<lambda>(indexed, indegree). indexed = map (reindex idx) offers \<and> (\<exists>q. kahn_inv n ?es q (length q) indegree)"
  fix st
  assume h: "case st of (indexed, outgoing, indegree) \<Rightarrow> indexed = map (reindex idx) offers
       \<and> length outgoing = n \<and> length indegree = n
       \<and> (\<forall>u < n. outgoing ! u = map snd (filter (\<lambda>e. fst e = u) ?es))
       \<and> (\<forall>v < n. indegree ! v = int (in_edges ?es {} v))"
  obtain indexed outgoing indegree where st: "st = (indexed, outgoing, indegree)" by (cases st) auto
  with h have ix: "indexed = map (reindex idx) offers" and l: "length indegree = n"
    and out: "\<forall>u < n. outgoing ! u = map snd (filter (\<lambda>e. fst e = u) ?es)"
    and ind: "\<forall>v < n. indegree ! v = int (in_edges ?es {} v)" by auto
  have es: "\<forall>e \<in> set ?es. snd e < n" using assms by (auto simp: offers_indexed_def edge_of_def)
  have "runs ctx (bindB (foldB (seed_vertex ctx indegree) [0..<n] [])
      (\<lambda>queue. bindB (kahn_loop ctx outgoing queue 0 indegree) (\<lambda>indegree1. returnB (indexed, indegree1)))) ?Q"
  proof (rule runs_bind [OF seed_runs [OF l]])
    let ?q = "filter (\<lambda>v. indegree ! v = 0) [0..<n]"
    fix queue assume q: "queue = ?q"
    have "topo ?es ?q"
    proof -
      have "e \<in> set ?es \<Longrightarrow> snd e \<notin> set ?q" for e
        using ind in_edges_zero [of ?es "{}" "snd e"] by fastforce
      then show ?thesis unfolding topo_def by (metis nth_mem)
    qed
    then have inv: "kahn_inv n ?es ?q 0 indegree"
      using ind l by (auto simp: kahn_inv_def queue_ok_def)
    have "runs ctx (kahn_loop ctx outgoing ?q 0 indegree) (\<lambda>indegree'. \<exists>q. kahn_inv n ?es q (length q) indegree')"
      unfolding runs_def using kahn_loop_runs_at [OF inv out es] by blast
    then show "runs ctx (bindB (kahn_loop ctx outgoing queue 0 indegree) (\<lambda>indegree1. returnB (indexed, indegree1))) ?Q"
      unfolding q by (rule runs_bind) (use ix in \<open>auto intro!: runs_return\<close>)
  qed
  then show "runs ctx (case st of (indexed, outgoing, indegree) \<Rightarrow>
     bindB (foldB (seed_vertex ctx indegree) [0..<length indegree] []) (\<lambda>queue.
     bindB (kahn_loop ctx outgoing queue 0 indegree) (\<lambda>indegree1. returnB (indexed, indegree1)))) ?Q"
    by (simp add: st l)
qed

text \<open>What the removal leaves: a vertex with a positive in-degree has a predecessor that was left too.\<close>

lemma kahn_result:
  assumes "kahn_inv n es q (length q) indegree" "v < n"
  shows "0 < indegree ! v \<longleftrightarrow> v \<notin> set q"
    "v \<notin> set q \<Longrightarrow> \<exists>u. (u, v) \<in> set es \<and> u \<notin> set q"
proof -
  have z: "v \<in> set q \<longleftrightarrow> indegree ! v = 0" "indegree ! v = int (in_edges es (set q) v)"
    using assms by (auto simp: kahn_inv_def queue_ok_def)
  then show "0 < indegree ! v \<longleftrightarrow> v \<notin> set q" by auto
  assume "v \<notin> set q"
  with z have "in_edges es (set q) v \<noteq> 0" by simp
  then show "\<exists>u. (u, v) \<in> set es \<and> u \<notin> set q" unfolding in_edges_zero by force
qed

lemma topo_trancl:
  assumes "topo es q" "(u, v) \<in> (set es)\<^sup>+" "k < length q" "q ! k = v"
  shows "\<exists>j < k. q ! j = u"
  using assms(2-4)
proof (induction arbitrary: k rule: trancl_induct)
  case (base y)
  with assms(1) have "u \<in> set (take k q)" unfolding topo_def by force
  then show ?case by (auto simp: in_set_conv_nth)
next
  case (step y z)
  with assms(1) have "y \<in> set (take k q)" unfolding topo_def by force
  then obtain i where i: "i < k" "q ! i = y" by (auto simp: in_set_conv_nth)
  with step.prems(1) have "i < length q" by simp
  from step.IH [OF this i(2)] obtain j where "j < i" "q ! j = u" by blast
  with i show ?case using less_trans by blast
qed

lemma topo_acyclic:
  assumes "topo es q" "distinct q" "v \<in> set q"
  shows "(v, v) \<notin> (set es)\<^sup>+"
proof
  assume c: "(v, v) \<in> (set es)\<^sup>+"
  obtain k where k: "k < length q" "q ! k = v" using assms(3) by (auto simp: in_set_conv_nth)
  then obtain j where "j < k" "q ! j = v" using topo_trancl [OF assms(1) c] by blast
  with k assms(2) show False by (auto simp: nth_eq_iff_index_eq)
qed

text \<open>A nonempty finite set closed under some predecessor holds a cycle.\<close>

lemma backward_closed_cycle:
  assumes "finite W" "w \<in> W" "\<And>v. v \<in> W \<Longrightarrow> \<exists>u \<in> W. (u, v) \<in> E"
  shows "\<exists>v \<in> W. (v, v) \<in> E\<^sup>+"
proof (rule ccontr)
  assume no: "\<not> ?thesis"
  let ?E = "E \<inter> W \<times> W"
  have "acyclic ?E"
  proof (rule acyclicI, rule allI, rule notI)
    fix x assume x: "(x, x) \<in> ?E\<^sup>+"
    then have "x \<in> W" by (meson IntE SigmaD1 tranclD)
    moreover have "(x, x) \<in> E\<^sup>+" using x by (rule trancl_mono) auto
    ultimately show False using no by blast
  qed
  moreover have "finite ?E" using assms(1) by simp
  ultimately have "wf ?E" by (rule finite_acyclic_wf [rotated])
  then have "\<forall>Q. (\<exists>x. x \<in> Q) \<longrightarrow> (\<exists>z \<in> Q. \<forall>y. (y, z) \<in> ?E \<longrightarrow> y \<notin> Q)" by (simp only: wf_eq_minimal) blast
  with assms(2) have "\<exists>z \<in> W. \<forall>y. (y, z) \<in> ?E \<longrightarrow> y \<notin> W" by blast
  then obtain z where z: "z \<in> W" "\<And>y. (y, z) \<in> ?E \<Longrightarrow> y \<notin> W" by blast
  obtain u where "u \<in> W" "(u, z) \<in> E" using assms(3) [OF z(1)] by blast
  with z(1) z(2) [of u] show False by blast
qed

lemma trancl_image: "(a, b) \<in> R\<^sup>+ \<Longrightarrow> (f a, f b) \<in> (map_prod f f ` R)\<^sup>+"
proof (induction rule: trancl_induct)
  case (base y)
  then show ?case by (intro r_into_trancl) force
next
  case (step y z)
  then show ?case by (intro trancl_into_trancl [OF step(3)]) force
qed

section \<open>The graph\<close>

definition offer_edges :: "crossable list \<Rightarrow> (string \<times> string) set" where
  "offer_edges offers = (\<lambda>c. (cr_tokenIn c, cr_tokenOut c)) ` set offers"

definition tokens_of :: "crossable list \<Rightarrow> string set" where
  "tokens_of offers = cr_tokenIn ` set offers \<union> cr_tokenOut ` set offers"

definition graph_ok :: "crossable list \<Rightarrow> discovery_graph \<Rightarrow> bool" where
  "graph_ok offers g \<longleftrightarrow> distinct (gr_tokenAt g) \<and> set (gr_tokenAt g) = tokens_of offers
     \<and> (\<forall>t i. gr_indexByToken g t = Some i \<longleftrightarrow> i < length (gr_tokenAt g) \<and> gr_tokenAt g ! i = t)
     \<and> dom (gr_componentByToken g) = tokens_of offers
     \<and> ran (gr_componentByToken g) = set (gr_components g)
     \<and> inj_on dc_root (set (gr_components g))
     \<and> (\<forall>t u c d. gr_componentByToken g t = Some c \<longrightarrow> gr_componentByToken g u = Some d
          \<longrightarrow> (dc_root c = dc_root d \<longleftrightarrow> linked offers t u))
     \<and> (\<forall>c \<in> set (gr_components g). dc_cyclic c
          \<longleftrightarrow> (\<exists>t. gr_componentByToken g t = Some c \<and> (t, t) \<in> (offer_edges offers)\<^sup>+))"

abbreviation with_sorted_tokens :: "discovery_component \<Rightarrow> discovery_component" where
  "with_sorted_tokens c \<equiv> c\<lparr>dc_tokens := sort (dc_tokens c)\<rparr>"

lemma fold_upd: "fold (\<lambda>x m. m(x \<mapsto> c)) xs m = (\<lambda>t. if t \<in> set xs then Some c else m t)"
  by (induction xs arbitrary: m) auto

lemma sort_tokens_runs:
  "runs ctx (foldB (sort_tokens ctx) comps ([], \<lambda>_. None)) (\<lambda>(components, byToken).
     components = map with_sorted_tokens comps
     \<and> (\<forall>t. byToken t \<noteq> None \<longleftrightarrow> (\<exists>c \<in> set comps. t \<in> set (dc_tokens c)))
     \<and> (\<forall>t c. byToken t = Some c \<longrightarrow> c \<in> set components \<and> t \<in> set (dc_tokens c)))"
proof (rule runs_fold [where P = "\<lambda>comps (components, byToken).
     components = map with_sorted_tokens comps
     \<and> (\<forall>t. byToken t \<noteq> None \<longleftrightarrow> (\<exists>c \<in> set comps. t \<in> set (dc_tokens c)))
     \<and> (\<forall>t c. byToken t = Some c \<longrightarrow> c \<in> set components \<and> t \<in> set (dc_tokens c))"], goal_cases)
  case (2 a c b st)
  obtain cs m where st: "st = (cs, m)" by fastforce
  have "runs ctx (returnB (cs @ [with_sorted_tokens c], fold (\<lambda>t m. m(t \<mapsto> with_sorted_tokens c)) (sort (dc_tokens c)) m))
    (\<lambda>(components, byToken). components = map with_sorted_tokens (a @ [c])
     \<and> (\<forall>t. byToken t \<noteq> None \<longleftrightarrow> (\<exists>c \<in> set (a @ [c]). t \<in> set (dc_tokens c)))
     \<and> (\<forall>t c. byToken t = Some c \<longrightarrow> c \<in> set components \<and> t \<in> set (dc_tokens c)))"
    using 2(2) by (intro runs_return) (auto simp: st fold_upd)
  then have "runs ctx (bindB (chargeSortB ctx (length (dc_tokens c))) (\<lambda>_.
      returnB (cs @ [with_sorted_tokens c], fold (\<lambda>t m. m(t \<mapsto> with_sorted_tokens c)) (sort (dc_tokens c)) m)))
    (\<lambda>(components, byToken). components = map with_sorted_tokens (a @ [c])
     \<and> (\<forall>t. byToken t \<noteq> None \<longleftrightarrow> (\<exists>c \<in> set (a @ [c]). t \<in> set (dc_tokens c)))
     \<and> (\<forall>t c. byToken t = Some c \<longrightarrow> c \<in> set components \<and> t \<in> set (dc_tokens c)))"
    by (rule runs_bind [OF runs_sort])
  then show ?case by (simp add: st sort_tokens_def Let_def)
qed simp

definition labelled :: "token_index \<Rightarrow> crossable list \<Rightarrow> nat set \<Rightarrow> components_by_root \<Rightarrow> bool" where
  "labelled ti offers M byRoot \<longleftrightarrow> index_ok ti \<and> (\<forall>t u. token_linked ti t u \<longleftrightarrow> linked offers t u)
     \<and> comps_ok (ti_sets ti) (ti_tokenAt ti) {..<length (ti_tokenAt ti)} M byRoot"

lemma index_ok_nth: "index_ok ti \<Longrightarrow> i < length (ti_tokenAt ti) \<Longrightarrow> ti_index ti (ti_tokenAt ti ! i) = Some i"
  by (simp add: index_ok_def)

lemma index_ok_Some: "index_ok ti \<Longrightarrow> ti_index ti t = Some i \<Longrightarrow> i < length (ti_tokenAt ti) \<and> ti_tokenAt ti ! i = t"
  by (simp add: index_ok_def)

lemma labelled_tokens: "labelled ti offers M byRoot \<Longrightarrow> set (ti_tokenAt ti) = tokens_of offers"
  using indexed_tokens [of ti offers] by (simp add: labelled_def tokens_of_def)

lemma labelled_get:
  assumes "labelled ti offers M byRoot" "c \<in> snd ` set byRoot"
  shows "map_of byRoot (dc_root c) = Some c"
proof -
  from assms(2) obtain r where "(r, c) \<in> set byRoot" by auto
  with assms(1) have "map_of byRoot r = Some c" by (simp add: labelled_def comps_ok_def)
  moreover from this assms(1) have "dc_root c = r" unfolding labelled_def comps_ok_def by blast
  ultimately show ?thesis by simp
qed

lemma labelled_member:
  assumes "labelled ti offers M byRoot" "c \<in> snd ` set byRoot"
  shows "t \<in> set (dc_tokens c) \<longleftrightarrow> (\<exists>i. ti_index ti t = Some i \<and> root_of (ti_sets ti) i (dc_root c))"
    "dc_cyclic c \<longleftrightarrow> (\<exists>i \<in> M. root_of (ti_sets ti) i (dc_root c))"
    "\<exists>t. t \<in> set (dc_tokens c)"
proof -
  let ?n = "length (ti_tokenAt ti)"
  note g = labelled_get [OF assms]
  from assms(1) have ix: "index_ok ti" and co: "comps_ok (ti_sets ti) (ti_tokenAt ti) {..<?n} M byRoot"
    by (auto simp: labelled_def)
  from co g have tk: "set (dc_tokens c) = (\<lambda>i. ti_tokenAt ti ! i) ` {i \<in> {..<?n}. root_of (ti_sets ti) i (dc_root c)}"
    and cy: "dc_cyclic c \<longleftrightarrow> (\<exists>i \<in> M. root_of (ti_sets ti) i (dc_root c))"
    unfolding comps_ok_def by blast+
  show "t \<in> set (dc_tokens c) \<longleftrightarrow> (\<exists>i. ti_index ti t = Some i \<and> root_of (ti_sets ti) i (dc_root c))"
    using index_ok_nth [OF ix] index_ok_Some [OF ix] unfolding tk by force
  show "dc_cyclic c \<longleftrightarrow> (\<exists>i \<in> M. root_of (ti_sets ti) i (dc_root c))" by (rule cy)
  have "dc_root c \<in> dom (map_of byRoot)" using g by blast
  with co have "\<exists>i \<in> {..<?n}. root_of (ti_sets ti) i (dc_root c)" by (auto simp: comps_ok_def)
  then show "\<exists>t. t \<in> set (dc_tokens c)" unfolding tk by blast
qed

lemma labelled_total:
  assumes "labelled ti offers M byRoot" "t \<in> tokens_of offers"
  shows "\<exists>c \<in> snd ` set byRoot. t \<in> set (dc_tokens c)"
proof -
  from assms(1) have ix: "index_ok ti"
    and co: "comps_ok (ti_sets ti) (ti_tokenAt ti) {..<length (ti_tokenAt ti)} M byRoot" by (auto simp: labelled_def)
  from assms obtain i where i: "i < length (ti_tokenAt ti)" "ti_tokenAt ti ! i = t"
    using labelled_tokens by (metis in_set_conv_nth)
  then obtain r where r: "root_of (ti_sets ti) i r" using ix has_root_total [of "ds_parent (ti_sets ti)" "ds_rank (ti_sets ti)" i]
    by (auto simp: index_ok_def)
  with co i have "r \<in> dom (map_of byRoot)" by (auto simp: comps_ok_def)
  then obtain c where c: "map_of byRoot r = Some c" by blast
  then have "c \<in> snd ` set byRoot" by (force dest: map_of_SomeD)
  moreover from c co have "dc_root c = r" unfolding comps_ok_def by blast
  ultimately show ?thesis using labelled_member(1) [OF assms(1)] i r index_ok_nth [OF ix i(1)] by auto
qed

lemma labelled_linked:
  assumes "labelled ti offers M byRoot" "c \<in> snd ` set byRoot" "d \<in> snd ` set byRoot"
    "t \<in> set (dc_tokens c)" "u \<in> set (dc_tokens d)"
  shows "dc_root c = dc_root d \<longleftrightarrow> linked offers t u"
proof -
  obtain i j where ij: "ti_index ti t = Some i" "root_of (ti_sets ti) i (dc_root c)"
    "ti_index ti u = Some j" "root_of (ti_sets ti) j (dc_root d)"
    using labelled_member(1) [OF assms(1,2)] labelled_member(1) [OF assms(1,3)] assms(4,5) by blast
  then have "token_linked ti t u \<longleftrightarrow> dc_root c = dc_root d"
    using token_linked_index(1) [OF ij(1,3)] same_set_roots [OF ij(2,4)] by simp
  with assms(1) show ?thesis by (simp add: labelled_def)
qed

lemma edges_by_index:
  assumes "labelled ti offers M byRoot"
  shows "set (map (edge_of (ti_index ti)) offers) = map_prod (\<lambda>t. the (ti_index ti t)) (\<lambda>t. the (ti_index ti t)) ` offer_edges offers"
    "offer_edges offers = map_prod (\<lambda>i. ti_tokenAt ti ! i) (\<lambda>i. ti_tokenAt ti ! i) ` set (map (edge_of (ti_index ti)) offers)"
    "offers_indexed (ti_index ti) (length (ti_tokenAt ti)) offers"
proof -
  have ix: "index_ok ti" using assms by (simp add: labelled_def)
  have "\<exists>i. ti_index ti t = Some i" if "t \<in> tokens_of offers" for t
    using that labelled_tokens [OF assms] ix by (metis in_set_conv_nth index_ok_nth)
  then have tok: "\<exists>i. ti_index ti t = Some i \<and> i < length (ti_tokenAt ti) \<and> ti_tokenAt ti ! i = t"
    if "t \<in> tokens_of offers" for t using that index_ok_Some [OF ix] by blast
  show "set (map (edge_of (ti_index ti)) offers) = map_prod (\<lambda>t. the (ti_index ti t)) (\<lambda>t. the (ti_index ti t)) ` offer_edges offers"
    by (auto simp: offer_edges_def edge_of_def image_image)
  have "ti_tokenAt ti ! the (ti_index ti (cr_tokenIn c)) = cr_tokenIn c
      \<and> ti_tokenAt ti ! the (ti_index ti (cr_tokenOut c)) = cr_tokenOut c" if "c \<in> set offers" for c
    using tok [of "cr_tokenIn c"] tok [of "cr_tokenOut c"] that by (auto simp: tokens_of_def)
  then show "offer_edges offers = map_prod (\<lambda>i. ti_tokenAt ti ! i) (\<lambda>i. ti_tokenAt ti ! i) ` set (map (edge_of (ti_index ti)) offers)"
    by (auto simp: offer_edges_def edge_of_def image_image intro!: image_cong)
  show "offers_indexed (ti_index ti) (length (ti_tokenAt ti)) offers"
    unfolding offers_indexed_def using tok by (metis UnCI imageI tokens_of_def)
qed

lemma labelled_cyclic:
  assumes lab: "labelled ti offers {j. j < n \<and> 0 < indegree ! j} byRoot" and n: "n = length (ti_tokenAt ti)"
    and k: "kahn_inv n (map (edge_of (ti_index ti)) offers) q (length q) indegree"
    and c: "c \<in> snd ` set byRoot"
  shows "dc_cyclic c \<longleftrightarrow> (\<exists>t \<in> set (dc_tokens c). (t, t) \<in> (offer_edges offers)\<^sup>+)"
proof -
  let ?es = "map (edge_of (ti_index ti)) offers" and ?s = "ti_sets ti" and ?r = "dc_root c"
  have ix: "index_ok ti" using lab by (simp add: labelled_def)
  note e = edges_by_index [OF lab]
  have left: "0 < indegree ! v \<longleftrightarrow> v \<notin> set q" if "v < n" for v by (rule kahn_result(1) [OF k that])
  show ?thesis
  proof
    assume "dc_cyclic c"
    then obtain w where w: "w < n" "w \<notin> set q" "root_of ?s w ?r"
      using labelled_member(2) [OF lab c] left by auto
    let ?W = "{v. v < n \<and> v \<notin> set q \<and> root_of ?s v ?r}"
    have "\<exists>v \<in> ?W. (v, v) \<in> (set ?es)\<^sup>+"
    proof (rule backward_closed_cycle [of _ w])
      fix v assume v: "v \<in> ?W"
      then obtain u where u: "(u, v) \<in> set ?es" "u \<notin> set q" using kahn_result(2) [OF k] by blast
      then obtain o' where o: "o' \<in> set offers" "ti_index ti (cr_tokenIn o') = Some u" "ti_index ti (cr_tokenOut o') = Some v"
        using e(3) by (auto simp: offers_indexed_def edge_of_def)
      have "token_linked ti (cr_tokenIn o') (cr_tokenOut o')"
        using lab linked.offer [OF o(1)] by (simp add: labelled_def)
      then have ss: "same_set ?s u v" using token_linked_index(1) [OF o(2,3)] by simp
      then have "root_of ?s u ?r" using v has_root_fun unfolding same_set_def by blast
      with u same_set_range [OF ss] ix n show "\<exists>u \<in> ?W. (u, v) \<in> set ?es" by (auto simp: index_ok_def)
    qed (use w in auto)
    then obtain v where v: "v \<in> ?W" "(v, v) \<in> (set ?es)\<^sup>+" by blast
    from trancl_image [OF v(2), of "\<lambda>i. ti_tokenAt ti ! i"] e(2)
    have "(ti_tokenAt ti ! v, ti_tokenAt ti ! v) \<in> (offer_edges offers)\<^sup>+" by simp
    moreover have "ti_tokenAt ti ! v \<in> set (dc_tokens c)"
      using v(1) n index_ok_nth [OF ix] labelled_member(1) [OF lab c] by auto
    ultimately show "\<exists>t \<in> set (dc_tokens c). (t, t) \<in> (offer_edges offers)\<^sup>+" by blast
  next
    assume "\<exists>t \<in> set (dc_tokens c). (t, t) \<in> (offer_edges offers)\<^sup>+"
    then obtain t i where t: "(t, t) \<in> (offer_edges offers)\<^sup>+" "ti_index ti t = Some i" "root_of ?s i ?r"
      using labelled_member(1) [OF lab c] by blast
    from trancl_image [OF t(1), of "\<lambda>t. the (ti_index ti t)"] e(1) t(2)
    have cyc: "(i, i) \<in> (set ?es)\<^sup>+" by simp
    have i: "i < n" using index_ok_Some [OF ix t(2)] n by simp
    have "i \<notin> set q" using topo_acyclic [of ?es q i] cyc k by (auto simp: kahn_inv_def queue_ok_def)
    with left i t(3) show "dc_cyclic c" using labelled_member(2) [OF lab c] by blast
  qed
qed

lemma labelled_graph:
  assumes lab: "labelled ti offers {j. j < n \<and> 0 < indegree ! j} byRoot" and n: "n = length (ti_tokenAt ti)"
    and k: "kahn_inv n (map (edge_of (ti_index ti)) offers) q (length q) indegree"
    and m: "\<forall>t. byToken t \<noteq> None \<longleftrightarrow> (\<exists>c \<in> set comps. t \<in> set (dc_tokens c))"
    "\<forall>t c. byToken t = Some c \<longrightarrow> c \<in> set (map with_sorted_tokens comps) \<and> t \<in> set (dc_tokens c)"
    and comps: "set comps = snd ` set byRoot"
  shows "graph_ok offers \<lparr>gr_componentByToken = byToken, gr_components = map with_sorted_tokens comps,
                 gr_indexByToken = ti_index ti, gr_tokenAt = ti_tokenAt ti\<rparr>"
proof -
  have ix: "index_ok ti" using lab by (simp add: labelled_def)
  have get: "\<exists>c \<in> snd ` set byRoot. c' = with_sorted_tokens c \<and> t \<in> set (dc_tokens c)" if "byToken t = Some c'" for t c'
    using that m(2) comps by fastforce
  have put: "byToken t = Some (with_sorted_tokens c)" if c: "c \<in> snd ` set byRoot" "t \<in> set (dc_tokens c)" for t c
  proof -
    have "byToken t \<noteq> None" using m(1) comps c by blast
    then obtain d where d: "byToken t = Some (with_sorted_tokens d)" "d \<in> snd ` set byRoot" "t \<in> set (dc_tokens d)"
      using get by blast
    obtain i j where "ti_index ti t = Some i" "root_of (ti_sets ti) i (dc_root c)"
      "ti_index ti t = Some j" "root_of (ti_sets ti) j (dc_root d)"
      using labelled_member(1) [OF lab c(1), of t] labelled_member(1) [OF lab d(2), of t] c(2) d(3) by blast
    then have "dc_root c = dc_root d" by (metis has_root_fun option.inject)
    then have "c = d" using labelled_get [OF lab c(1)] labelled_get [OF lab d(2)] by (metis option.inject)
    with d(1) show ?thesis by metis
  qed
  have dom: "dom byToken = tokens_of offers"
  proof -
    have "t \<in> tokens_of offers" if "c \<in> snd ` set byRoot" "t \<in> set (dc_tokens c)" for c t
      using labelled_member(1) [OF lab that(1)] that(2) index_ok_Some [OF ix] labelled_tokens [OF lab]
      by (metis nth_mem)
    then have one: "\<exists>c \<in> snd ` set byRoot. t \<in> set (dc_tokens c) \<Longrightarrow> t \<in> tokens_of offers" for t by metis
    have "byToken t \<noteq> None \<longleftrightarrow> t \<in> tokens_of offers" for t
      unfolding m(1) [rule_format] comps by (rule iffI [OF one labelled_total [OF lab]])
    then show ?thesis by (auto simp: dom_def)
  qed
  have ran: "ran byToken = set (map with_sorted_tokens comps)"
  proof
    show "ran byToken \<subseteq> set (map with_sorted_tokens comps)" using m(2) unfolding ran_def by blast
    show "set (map with_sorted_tokens comps) \<subseteq> ran byToken"
    proof
      fix c assume "c \<in> set (map with_sorted_tokens comps)"
      with comps obtain d where d: "c = with_sorted_tokens d" "d \<in> snd ` set byRoot" by auto
      obtain t where "t \<in> set (dc_tokens d)" using labelled_member(3) [OF lab d(2)] by blast
      from put [OF d(2) this] d(1) show "c \<in> ran byToken" by (auto intro: ranI)
    qed
  qed
  have inj: "inj_on dc_root (set (map with_sorted_tokens comps))"
  proof (rule inj_onI)
    fix c d
    assume cd: "c \<in> set (map with_sorted_tokens comps)" "d \<in> set (map with_sorted_tokens comps)" "dc_root c = dc_root d"
    then obtain c' d' where "c = with_sorted_tokens c'" "d = with_sorted_tokens d'" "c' \<in> snd ` set byRoot"
      "d' \<in> snd ` set byRoot" using comps by auto
    moreover from this cd(3) have "dc_root c' = dc_root d'" by simp
    ultimately show "c = d" using labelled_get [OF lab, of c'] labelled_get [OF lab, of d'] by (metis option.inject)
  qed
  have lnk: "dc_root c = dc_root d \<longleftrightarrow> linked offers t u" if "byToken t = Some c" "byToken u = Some d" for t u c d
  proof -
    note h = that
    obtain c' d' where m': "c' \<in> snd ` set byRoot" "c = with_sorted_tokens c'" "t \<in> set (dc_tokens c')"
      "d' \<in> snd ` set byRoot" "d = with_sorted_tokens d'" "u \<in> set (dc_tokens d')"
      using get [OF h(1)] get [OF h(2)] by blast
    from labelled_linked [OF lab m'(1,4,3,6)] m'(2,5) show ?thesis by simp
  qed
  have cyc: "dc_cyclic c \<longleftrightarrow> (\<exists>t. byToken t = Some c \<and> (t, t) \<in> (offer_edges offers)\<^sup>+)"
    if "c \<in> set (map with_sorted_tokens comps)" for c
  proof -
    from that comps obtain d where d: "c = with_sorted_tokens d" "d \<in> snd ` set byRoot" by auto
    have "byToken t = Some c \<longleftrightarrow> t \<in> set (dc_tokens d)" for t
    proof
      assume "byToken t = Some c"
      then have "t \<in> set (dc_tokens c)" using m(2) by blast
      then show "t \<in> set (dc_tokens d)" by (simp add: d(1))
    qed (use put d in simp)
    then show ?thesis using labelled_cyclic [OF lab n k d(2)] by (auto simp: d(1))
  qed
  show ?thesis unfolding graph_ok_def
    using ix dom ran inj lnk cyc labelled_tokens [OF lab] by (simp add: index_ok_def)
qed

theorem buildDiscoveryGraph_runs:
  "runs ctx (buildDiscoveryGraph offers ctx) (\<lambda>(g, indexed). graph_ok offers g
     \<and> indexed = map (reindex (gr_indexByToken g)) offers)"
  unfolding buildDiscoveryGraph_def
proof (rule runs_bind [OF index_tokens_runs], elim conjE)
  fix ti
  assume ix: "index_ok ti" and lk: "\<forall>t u. token_linked ti t u \<longleftrightarrow> linked offers t u"
  let ?n = "length (ti_tokenAt ti)" and ?s = "ti_sets ti" and ?idx = "ti_index ti"
  have wf: "wf_sets ?s" "length (ds_parent ?s) = ?n" using ix by (auto simp: index_ok_def)
  let ?Q = "\<lambda>(g, indexed). graph_ok offers g \<and> indexed = map (reindex (gr_indexByToken g)) offers"
  let ?tail = "\<lambda>(sets, byRoot).
     bindB (kahn_indegrees ctx ?idx ?n offers) (\<lambda>(indexed, indegree).
     bindB (foldB (mark_cyclic ctx indegree) [0..<length indegree] (sets, byRoot)) (\<lambda>(sets1, byRoot1).
     bindB (chargeSortB ctx (length byRoot1)) (\<lambda>_.
     bindB (foldB (sort_tokens ctx) (sort_key dc_key (map snd byRoot1)) ([], \<lambda>_. None))
       (\<lambda>(components, byToken).
       returnB (\<lparr>gr_componentByToken = byToken, gr_components = components,
                 gr_indexByToken = ?idx, gr_tokenAt = ti_tokenAt ti\<rparr>, indexed)))))"
  have tail: "runs ctx (?tail (sets, byRoot)) ?Q"
    if sr: "same_roots ?s sets" and co: "comps_ok sets (ti_tokenAt ti) {..<?n} {} byRoot" for sets byRoot
  proof -
    have lab0: "labelled ti offers {} byRoot" using ix lk co same_roots_comps [OF sr] by (simp add: labelled_def)
    have wf': "wf_sets sets" "length (ds_parent sets) = ?n" using sr wf by (auto simp: same_roots_def)
    show ?thesis unfolding split
    proof (rule runs_bind [OF kahn_indegrees_runs [OF edges_by_index(3) [OF lab0]]], clarify)
      fix indegree q
      assume k: "kahn_inv ?n (map (edge_of ?idx) offers) q (length q) indegree"
      then have len: "length indegree = ?n" by (simp add: kahn_inv_def queue_ok_def)
      show "runs ctx (bindB (foldB (mark_cyclic ctx indegree) [0..<length indegree] (sets, byRoot)) (\<lambda>(sets1, byRoot1).
         bindB (chargeSortB ctx (length byRoot1)) (\<lambda>_.
         bindB (foldB (sort_tokens ctx) (sort_key dc_key (map snd byRoot1)) ([], \<lambda>_. None))
           (\<lambda>(components, byToken).
           returnB (\<lparr>gr_componentByToken = byToken, gr_components = components,
                     gr_indexByToken = ?idx, gr_tokenAt = ti_tokenAt ti\<rparr>, map (reindex ?idx) offers))))) ?Q"
        unfolding len
      proof (rule runs_bind [OF mark_all_runs [OF wf' co]], clarify)
        fix sets1 byRoot1
        assume m: "same_roots sets sets1"
          "comps_ok sets1 (ti_tokenAt ti) {..<?n} {j. j < ?n \<and> 0 < indegree ! j} byRoot1"
        have lab: "labelled ti offers {j. j < ?n \<and> 0 < indegree ! j} byRoot1"
          using ix lk m same_roots_comps [OF same_roots_trans [OF sr m(1)]] by (simp add: labelled_def)
        show "runs ctx (bindB (chargeSortB ctx (length byRoot1)) (\<lambda>_.
         bindB (foldB (sort_tokens ctx) (sort_key dc_key (map snd byRoot1)) ([], \<lambda>_. None))
           (\<lambda>(components, byToken).
           returnB (\<lparr>gr_componentByToken = byToken, gr_components = components,
                     gr_indexByToken = ?idx, gr_tokenAt = ti_tokenAt ti\<rparr>, map (reindex ?idx) offers)))) ?Q"
        proof (rule runs_bind [OF runs_sort], rule runs_bind [OF sort_tokens_runs])
          fix st
          assume st: "case st of (components, byToken) \<Rightarrow>
              components = map with_sorted_tokens (sort_key dc_key (map snd byRoot1))
              \<and> (\<forall>t. byToken t \<noteq> None \<longleftrightarrow> (\<exists>c \<in> set (sort_key dc_key (map snd byRoot1)). t \<in> set (dc_tokens c)))
              \<and> (\<forall>t c. byToken t = Some c \<longrightarrow> c \<in> set components \<and> t \<in> set (dc_tokens c))"
          obtain cs bt where eq: "st = (cs, bt)" by fastforce
          from st have "cs = map with_sorted_tokens (sort_key dc_key (map snd byRoot1))"
            and "\<forall>t. bt t \<noteq> None \<longleftrightarrow> (\<exists>c \<in> set (sort_key dc_key (map snd byRoot1)). t \<in> set (dc_tokens c))"
            and "\<forall>t c. bt t = Some c \<longrightarrow> c \<in> set cs \<and> t \<in> set (dc_tokens c)" by (auto simp: eq)
          then have "graph_ok offers \<lparr>gr_componentByToken = bt, gr_components = cs,
                 gr_indexByToken = ?idx, gr_tokenAt = ti_tokenAt ti\<rparr>"
            using labelled_graph [OF lab refl k] by simp
          then show "runs ctx (case st of (components, byToken) \<Rightarrow>
             returnB (\<lparr>gr_componentByToken = byToken, gr_components = components,
                       gr_indexByToken = ?idx, gr_tokenAt = ti_tokenAt ti\<rparr>, map (reindex ?idx) offers)) ?Q"
            by (simp add: eq runs_return)
        qed
      qed
    qed
  qed
  show "runs ctx (bindB (foldB (place_token ctx (ti_tokenAt ti)) [0..<?n] (?s, [])) ?tail) ?Q"
    by (rule runs_bind [OF place_tokens_runs [OF wf]]) (use tail in auto)
qed

end
