(* ===== verification/Ladder_Derivation.thy ===== *)
theory Ladder_Derivation
  imports Ladder_Graph
begin

text \<open>
  Model of \<open>deriveLadder\<close> (\<^verbatim>\<open>packages/solver-core/ladder-derivation.ts\<close>): the eligibility
  scan, the duplicate and shared-coin policies, the pruned universe of an input token, the loop
  over directed pairs with its withholding reasons, and the cancellation rules. The loop's
  \<open>continue\<close>, \<open>break\<close> and private exception are a \<open>flow\<close>; errors the code would throw are \<open>Inl\<close>.
\<close>

section \<open>State\<close>

record pair_provenance =
  pp_tokenIn :: string
  pp_tokenOut :: string
  pp_combinations :: "combination_provenance list"
  pp_terminalInput :: string
  pp_nominalTerminalInput :: string
  pp_capReasons :: "ladder_reason list"

record derived_ladder =
  dl_levels :: "price_levels list"
  dl_tokenIds :: "string list"
  dl_provenance :: "pair_provenance list"
  dl_excluded :: "ladder_exclusion list"
  dl_limits :: resource_limits
  dl_diagnostics :: ladder_diagnostics

record offer_universe =
  uv_offers :: "crossable list"
  uv_outputs :: "string list"

text \<open>
  The exclusion scans are remembered per array object: the retained offers, or the universe built
  for a component's root.
\<close>

datatype bucket_id = Retained_offers | Universe_of nat

record derive_state =
  dv_excluded :: "ladder_exclusion list"
  dv_keys :: "(string \<times> ladder_reason) list"
  dv_levels :: "price_levels list"
  dv_provenance :: "pair_provenance list"
  dv_globalStop :: "ladder_reason option"
  dv_excludedUniverses :: "(bucket_id \<times> ladder_reason list) list"
  dv_universeCache :: "(nat \<times> offer_universe) list"
  dv_scratch :: pair_search_scratch
  dv_diag :: ladder_diagnostics

datatype flow = Go | Continue_pair | Break_discovery | Scan_stop

record derive_env =
  de_limits :: resource_limits
  de_options :: derive_options
  de_graph :: discovery_graph
  de_retained :: "crossable list"
  de_cyclic :: "discovery_component list"
  de_comparisons :: "combination_state list \<Rightarrow> nat"

definition excludedHash :: "source_offer \<Rightarrow> string" where
  "excludedHash offer = toLowerCase (so_offerHash offer)"

definition exclusion :: "string \<Rightarrow> ladder_reason \<Rightarrow> ladder_exclusion" where
  "exclusion h r = \<lparr>lx_offerHash = h, lx_reason = r, lx_detail = None\<rparr>"

definition emptyDerived :: "resource_limits \<Rightarrow> ladder_diagnostics \<Rightarrow> ladder_exclusion list \<Rightarrow> derived_ladder" where
  "emptyDerived limits diagnostics excluded =
     \<lparr>dl_levels = [], dl_tokenIds = [], dl_provenance = [], dl_excluded = excluded,
      dl_limits = limits, dl_diagnostics = diagnostics\<rparr>"

section \<open>The eligibility scan\<close>

text \<open>
  The loop over the source: it ends with the eligible and the excluded offers, or at the reason
  that withdraws the whole result.
\<close>

fun scan_sources :: "derive_options \<Rightarrow> string list \<Rightarrow> resource_limits \<Rightarrow> source_offer list
    \<Rightarrow> crossable list \<times> ladder_exclusion list \<times> ladder_diagnostics
    \<Rightarrow> ladder_reason option \<times> crossable list \<times> ladder_exclusion list \<times> ladder_diagnostics" where
  "scan_sources options unavailable limits [] st = (None, st)"
| "scan_sources options unavailable limits (offer # rest) (crossables, excluded, d) =
     (let d1 = d\<lparr>dg_sourceOffersScanned := dg_sourceOffersScanned d + 1\<rparr> in
      if dg_sourceOffersScanned d1 > rl_maxSourceOffers limits then
        (Some R_source_offer_cap, crossables, excluded @ [exclusion (excludedHash offer) R_source_offer_cap],
         d1\<lparr>dg_stopReason := Some R_source_offer_cap\<rparr>)
      else
        (case abortReason (do_shouldAbort options) (dg_polls d1) of
           (Some r, p) \<Rightarrow>
             (Some r, crossables, excluded @ [exclusion (excludedHash offer) r],
              d1\<lparr>dg_polls := p, dg_stopReason := Some r\<rparr>)
         | (None, p) \<Rightarrow>
             scan_sources options unavailable limits rest
               (case toCrossable offer options unavailable of
                  Inl r \<Rightarrow> (crossables, excluded @ [exclusion (excludedHash offer) r], d1\<lparr>dg_polls := p\<rparr>)
                | Inr c \<Rightarrow> (crossables @ [c], excluded, d1\<lparr>dg_polls := p\<rparr>))))"

definition hash_count :: "crossable list \<Rightarrow> string \<Rightarrow> nat" where
  "hash_count crossables h = length (filter (\<lambda>c. cr_offerHash c = h) crossables)"

definition drop_duplicates :: "crossable list \<Rightarrow> ladder_exclusion list \<Rightarrow> crossable list \<times> ladder_exclusion list" where
  "drop_duplicates crossables excluded =
     (let ordered = sort_key cr_offerHash crossables;
          dup = (\<lambda>c. hash_count crossables (cr_offerHash c) > 1)
      in (filter (\<lambda>c. \<not> dup c) ordered,
          excluded @ map (\<lambda>c. exclusion (cr_offerHash c) R_duplicate_offer) (filter dup ordered)))"

fun claim_coins :: "crossable list \<Rightarrow> string list \<Rightarrow> crossable list \<times> ladder_exclusion list
    \<Rightarrow> crossable list \<times> ladder_exclusion list" where
  "claim_coins [] claimed st = st"
| "claim_coins (offer # rest) claimed (retained, excluded) =
     (if list_ex (\<lambda>n. n \<in> set claimed) (cr_nullifiers offer)
      then claim_coins rest claimed (retained, excluded @ [exclusion (cr_offerHash offer) R_shared_coin])
      else claim_coins rest (claimed @ cr_nullifiers offer) (retained @ [offer], excluded))"

section \<open>Exclusions of a universe\<close>

definition budget_of :: "derive_env \<Rightarrow> derive_state \<Rightarrow> budget_context" where
  "budget_of env st = \<lparr>bc_maxDiscoveryWork = rl_maxDiscoveryWork (de_limits env), bc_globalStop = dv_globalStop st,
     bc_shouldAbort = do_shouldAbort (de_options env)\<rparr>"

definition addPairExclusion :: "ladder_exclusion \<Rightarrow> derive_state \<Rightarrow> derive_state" where
  "addPairExclusion entry st =
     (let key = (lx_offerHash entry, lx_reason entry) in
      if key \<in> set (dv_keys st) then st
      else st\<lparr>dv_keys := dv_keys st @ [key], dv_excluded := dv_excluded st @ [entry]\<rparr>)"

definition stop_with :: "ladder_reason \<Rightarrow> derive_state \<Rightarrow> derive_state" where
  "stop_with r st = st\<lparr>dv_globalStop := Some r, dv_diag := (dv_diag st)\<lparr>dg_stopReason := Some r\<rparr>\<rparr>"

abbreviation cancelled :: "ladder_reason option \<Rightarrow> bool" where
  "cancelled r \<equiv> r = Some R_aborted \<or> r = Some R_abort_check_failed"

fun exclusion_scan :: "derive_env \<Rightarrow> ladder_reason \<Rightarrow> ladder_rejection option \<Rightarrow> crossable list
    \<Rightarrow> derive_state \<Rightarrow> flow \<times> derive_state" where
  "exclusion_scan env reason detail [] st = (Go, st)"
| "exclusion_scan env reason detail (offer # rest) st =
     (case charge (budget_of env st) 1 Discovery (dv_diag st) of
        (Some r, d) \<Rightarrow>
          (Scan_stop, if cancelled (dv_globalStop st) then st\<lparr>dv_diag := d\<rparr> else stop_with r (st\<lparr>dv_diag := d\<rparr>))
      | (None, d) \<Rightarrow>
          exclusion_scan env reason detail rest
            (addPairExclusion \<lparr>lx_offerHash = cr_offerHash offer, lx_reason = reason, lx_detail = detail\<rparr>
              (st\<lparr>dv_diag := d\<rparr>)))"

definition addPairExclusions :: "derive_env \<Rightarrow> bucket_id \<Rightarrow> crossable list \<Rightarrow> ladder_reason
    \<Rightarrow> ladder_rejection option \<Rightarrow> derive_state \<Rightarrow> flow \<times> derive_state" where
  "addPairExclusions env bid bucket reason detail st =
     (let reasons = (case map_of (dv_excludedUniverses st) bid of Some rs \<Rightarrow> rs | None \<Rightarrow> []) in
      if reason \<in> set reasons then (Go, st)
      else
        let st1 = st\<lparr>dv_excludedUniverses := AList.update bid reasons (dv_excludedUniverses st)\<rparr> in
        case exclusion_scan env reason detail bucket st1 of
          (Go, st2) \<Rightarrow> (Go, st2\<lparr>dv_excludedUniverses := AList.update bid (reasons @ [reason]) (dv_excludedUniverses st2)\<rparr>)
        | other \<Rightarrow> other)"

section \<open>The universe of an input token\<close>

definition universe_roots :: "budget_context \<Rightarrow> discovery_component list \<Rightarrow> nat list budgeted" where
  "universe_roots ctx included =
     foldB (\<lambda>c roots. bindB (chargeB ctx) (\<lambda>_. returnB (set_add (dc_root c) roots))) included []"

definition universe_member :: "budget_context \<Rightarrow> discovery_graph \<Rightarrow> nat list \<Rightarrow> crossable
    \<Rightarrow> crossable list \<times> string list \<Rightarrow> (crossable list \<times> string list) budgeted" where
  "universe_member ctx g roots offer st = (case st of (offers, outputs) \<Rightarrow>
     bindB (chargeB ctx) (\<lambda>_.
     bindB (liftB (gr_componentByToken g (cr_tokenIn offer))) (\<lambda>component.
       returnB (if dc_root component \<in> set roots then (offers @ [offer], set_add (cr_tokenOut offer) outputs)
                else (offers, outputs)))))"

definition build_universe :: "budget_context \<Rightarrow> discovery_graph \<Rightarrow> discovery_component list
    \<Rightarrow> crossable list \<Rightarrow> discovery_component \<Rightarrow> offer_universe budgeted" where
  "build_universe ctx g cyclicComponents retained inputComponent =
     bindB (universe_roots ctx (if dc_cyclic inputComponent then cyclicComponents
                                else inputComponent # cyclicComponents)) (\<lambda>roots.
     bindB (foldB (universe_member ctx g roots) retained ([], [])) (\<lambda>(offers, outputs).
     bindB (chargeSortB ctx (length outputs)) (\<lambda>_.
       returnB \<lparr>uv_offers = offers, uv_outputs = sort outputs\<rparr>)))"

text \<open>Running a budgeted computation on the state.\<close>

definition run_budgeted :: "'a budgeted \<Rightarrow> derive_state \<Rightarrow> ((ladder_reason + 'a) \<times> derive_state) result" where
  "run_budgeted m st = (case m (dv_diag st) of
     None \<Rightarrow> Inl (TypeError ''undefined'')
   | Some (r, d) \<Rightarrow> Inr (r, st\<lparr>dv_diag := d\<rparr>))"

definition universeFor :: "derive_env \<Rightarrow> discovery_component \<Rightarrow> derive_state
    \<Rightarrow> ((ladder_reason + offer_universe) \<times> derive_state) result" where
  "universeFor env inputComponent st =
     (case map_of (dv_universeCache st) (dc_root inputComponent) of
        Some u \<Rightarrow> Inr (Inr u, st)
      | None \<Rightarrow>
          bindR (run_budgeted (build_universe (budget_of env st) (de_graph env) (de_cyclic env)
                                 (de_retained env) inputComponent) st) (\<lambda>(r, st1).
            Inr (case r of
                   Inl reason \<Rightarrow> (Inl reason, st1)
                 | Inr u \<Rightarrow> (Inr u, st1\<lparr>dv_universeCache :=
                     AList.update (dc_root inputComponent) u (dv_universeCache st1)\<rparr>))))"

section \<open>One directed pair\<close>

text \<open>The pair's diagnostic is the last of the list; it is updated in place.\<close>

definition update_last :: "(pair_diagnostic \<Rightarrow> pair_diagnostic) \<Rightarrow> derive_state \<Rightarrow> derive_state" where
  "update_last f st =
     (let ps = dg_pairs (dv_diag st) in
      if ps = [] then st
      else st\<lparr>dv_diag := (dv_diag st)\<lparr>dg_pairs := butlast ps @ [f (last ps)]\<rparr>\<rparr>)"

definition pair_reason :: "ladder_reason \<Rightarrow> derive_state \<Rightarrow> derive_state" where
  "pair_reason r = update_last (\<lambda>p. p\<lparr>pd_reason := Some r\<rparr>)"

record pair_context =
  pc_id :: bucket_id
  pc_bucket :: "crossable list"
  pc_tokenIn :: string
  pc_tokenOut :: string

definition withhold :: "derive_env \<Rightarrow> pair_context \<Rightarrow> ladder_reason \<Rightarrow> ladder_rejection option
    \<Rightarrow> derive_state \<Rightarrow> flow \<times> derive_state" where
  "withhold env pc r detail st =
     (case addPairExclusions env (pc_id pc) (pc_bucket pc) r detail (pair_reason r st) of
        (Go, st1) \<Rightarrow> (Continue_pair, st1)
      | other \<Rightarrow> other)"

definition abandon :: "derive_env \<Rightarrow> pair_context \<Rightarrow> ladder_reason \<Rightarrow> derive_state \<Rightarrow> flow \<times> derive_state" where
  "abandon env pc r st =
     (case addPairExclusions env (pc_id pc) (pc_bucket pc) r None (pair_reason r (stop_with r st)) of
        (Go, st1) \<Rightarrow> (Break_discovery, st1)
      | other \<Rightarrow> other)"

definition poll_pair :: "derive_env \<Rightarrow> pair_context \<Rightarrow> derive_state \<Rightarrow> flow \<times> derive_state" where
  "poll_pair env pc st =
     (case abortReason (do_shouldAbort (de_options env)) (dg_polls (dv_diag st)) of
        (r, p) \<Rightarrow>
          let st1 = st\<lparr>dv_diag := (dv_diag st)\<lparr>dg_polls := p\<rparr>\<rparr>
          in case r of Some reason \<Rightarrow> abandon env pc reason st1 | None \<Rightarrow> (Go, st1))"

definition thenD :: "flow \<times> derive_state \<Rightarrow> (derive_state \<Rightarrow> (flow \<times> derive_state) result)
    \<Rightarrow> (flow \<times> derive_state) result" where
  "thenD s f = (case s of (Go, st) \<Rightarrow> f st | other \<Rightarrow> Inr other)"

text \<open>The pair's terms as the wire JSON the predicates read.\<close>

definition pair_json :: "price_levels \<Rightarrow> json" where
  "pair_json p = JObj [(''tokenIn'', JStr (pv_tokenIn p)), (''tokenOut'', JStr (pv_tokenOut p)),
     (''levels'', JArr (map level_json (pv_levels p)))]"

text \<open>The scan that explains the thresholds a resource cap cut off.\<close>

fun truncation_scan :: "derive_env \<Rightarrow> string list \<Rightarrow> ladder_reason list \<Rightarrow> crossable list
    \<Rightarrow> derive_state \<Rightarrow> flow \<times> derive_state" where
  "truncation_scan env used reasons [] st = (Go, st)"
| "truncation_scan env used reasons (offer # rest) st =
     (case charge (budget_of env st) 1 Discovery (dv_diag st) of
        (Some r, d) \<Rightarrow> (Scan_stop, stop_with r (st\<lparr>dv_diag := d\<rparr>))
      | (None, d) \<Rightarrow>
          truncation_scan env used reasons rest
            (let st1 = st\<lparr>dv_diag := d\<rparr> in
             if cr_offerHash offer \<in> set used then st1
             else fold (\<lambda>r. addPairExclusion (exclusion (cr_offerHash offer) r)) reasons st1))"

definition publish_pair :: "derive_env \<Rightarrow> pair_context \<Rightarrow> combination_state list \<Rightarrow> ladder_reason list
    \<Rightarrow> encoded_frontier \<Rightarrow> derive_state \<Rightarrow> (flow \<times> derive_state) result" where
  "publish_pair env pc frontier truncationReasons encoded st =
     (let pair = \<lparr>pv_tokenIn = pc_tokenIn pc, pv_tokenOut = pc_tokenOut pc, pv_levels = ef_levels encoded\<rparr>;
          rejection = rejectPair (pair_json pair)
      in if rejection \<noteq> None \<or> \<not> isPriceLevelsPair (pair_json pair)
         then Inr (withhold env pc R_invalid_pair rejection st)
         else
           let st1 = st\<lparr>dv_levels := dv_levels st @ [pair],
                       dv_provenance := dv_provenance st @ [\<lparr>pp_tokenIn = pc_tokenIn pc, pp_tokenOut = pc_tokenOut pc,
                         pp_combinations = ef_combinations encoded,
                         pp_terminalInput = bigint_to_string (ef_terminalInput encoded),
                         pp_nominalTerminalInput = bigint_to_string (ef_nominalTerminalInput encoded),
                         pp_capReasons = ef_capReasons encoded\<rparr>]\<rparr>;
               st2 = update_last (\<lambda>p. p\<lparr>pd_status := Published,
                       pd_frontierCombinations := int (length (ef_combinations encoded)),
                       pd_wirePoints := int (length (ef_levels encoded))\<rparr>) st1
           in if length (ef_combinations encoded) < length frontier
              then Inr (truncation_scan env (concat (map cp_offerHashes (ef_combinations encoded)))
                          truncationReasons (pc_bucket pc) st2)
              else Inr (Go, st2))"

fun withhold_all :: "derive_env \<Rightarrow> pair_context \<Rightarrow> ladder_reason list \<Rightarrow> derive_state \<Rightarrow> flow \<times> derive_state" where
  "withhold_all env pc [] st = (Continue_pair, st)"
| "withhold_all env pc (r # rs) st =
     (case addPairExclusions env (pc_id pc) (pc_bucket pc) r None st of
        (Go, st1) \<Rightarrow> withhold_all env pc rs st1
      | other \<Rightarrow> other)"

definition encode_pair :: "derive_env \<Rightarrow> pair_context \<Rightarrow> combination_state list \<Rightarrow> derive_state
    \<Rightarrow> (flow \<times> derive_state) result" where
  "encode_pair env pc frontier st =
     bindR (longestEncodableFrontier frontier (rl_maxWirePointsPerPair (de_limits env)) (pc_tokenIn pc) (pc_tokenOut pc))
       (\<lambda>(encoded, truncationReasons). case encoded of
          None \<Rightarrow>
            (case truncationReasons of
               [] \<Rightarrow> Inr (withhold_all env pc [] st)
             | r # rs \<Rightarrow> Inr (withhold_all env pc truncationReasons (pair_reason r st)))
        | Some e \<Rightarrow> thenD (poll_pair env pc st) (publish_pair env pc frontier truncationReasons e))"

definition price_pair :: "derive_env \<Rightarrow> pair_context \<Rightarrow> int option \<Rightarrow> search_result \<Rightarrow> derive_state
    \<Rightarrow> (flow \<times> derive_state) result" where
  "price_pair env pc minimum search st =
     thenD (poll_pair env pc st) (\<lambda>st1.
       case bestOutputFrontier (de_comparisons env) (sr_exact search) (do_shouldAbort (de_options env))
              (dg_polls (dv_diag st1)) of
         ((frontier, reason), p) \<Rightarrow>
           let st2 = st1\<lparr>dv_diag := (dv_diag st1)\<lparr>dg_polls := p\<rparr>\<rparr> in
           case reason of
             Some r \<Rightarrow> Inr (abandon env pc r st2)
           | None \<Rightarrow>
               let frontier1 = apply_minimum minimum frontier in
               if frontier1 = []
               then Inr (withhold env pc
                      (if sr_amountCappedSubsets search > 0 then R_settlement_amount_cap
                       else if sr_unsafeMergeOrderSubsets search > 0 then R_unsafe_merge_order
                       else R_minimum_output) None st2)
               else encode_pair env pc frontier1 st2)"

definition note_search :: "search_result \<Rightarrow> derive_state \<Rightarrow> derive_state" where
  "note_search search st =
     (let st1 = update_last (\<lambda>p. p\<lparr>pd_visitedSubsets := sr_visitedSubsets search,
                  pd_storedExactInputs := int (length (sr_exact search)),
                  pd_amountCappedSubsets := sr_amountCappedSubsets search,
                  pd_safeMergeOrderWork := sr_safeMergeOrderWork search\<rparr>) st
      in st1\<lparr>dv_diag := (dv_diag st1)\<lparr>dg_peakStoredExactInputs :=
           max (dg_peakStoredExactInputs (dv_diag st1)) (int (length (sr_exact search)))\<rparr>\<rparr>)"

definition search_pair :: "derive_env \<Rightarrow> pair_context \<Rightarrow> int option \<Rightarrow> derive_state
    \<Rightarrow> (flow \<times> derive_state) result" where
  "search_pair env pc minimum st =
     (case (gr_indexByToken (de_graph env) (pc_tokenIn pc), gr_indexByToken (de_graph env) (pc_tokenOut pc)) of
        (Some i, Some out) \<Rightarrow>
          bindR (enumeratePair (pc_bucket pc) (pc_tokenIn pc) (pc_tokenOut pc) (int i) (int out)
                   (gr_tokenAt (de_graph env)) (dv_scratch st) (de_limits env) (budget_of env st) (dv_diag st))
            (\<lambda>(search, scratch, d).
              let st1 = note_search search (st\<lparr>dv_scratch := scratch, dv_diag := d\<rparr>) in
              case sr_reason search of
                Some r \<Rightarrow>
                  Inr (if r \<in> {R_global_search_cap, R_discovery_work_cap, R_aborted, R_abort_check_failed}
                       then abandon env pc r st1 else withhold env pc r None st1)
              | None \<Rightarrow> price_pair env pc minimum search st1)
      | _ \<Rightarrow> Inl (TypeError ''undefined index''))"

definition pair_body :: "derive_env \<Rightarrow> pair_context \<Rightarrow> derive_state \<Rightarrow> (flow \<times> derive_state) result" where
  "pair_body env pc st =
     (let options = de_options env;
          minimum = (case ap_minJobOutput options of None \<Rightarrow> None | Some m \<Rightarrow> map_of m (pc_tokenOut pc))
      in if int (length (dv_levels st)) \<ge> rl_maxPairs (de_limits env) then Inr (withhold env pc R_pair_cap None st)
         else if (case ap_supportedPairs options of None \<Rightarrow> False
                  | Some pairs \<Rightarrow> admissionPairKey (pc_tokenIn pc) (pc_tokenOut pc) \<notin> set pairs)
         then Inr (withhold env pc R_unsupported_pair None st)
         else if ap_minJobOutput options \<noteq> None \<and> minimum = None
         then Inr (withhold env pc R_minimum_output None st)
         else thenD (poll_pair env pc st) (search_pair env pc minimum))"

section \<open>The loops over pairs\<close>

definition new_pair :: "pair_context \<Rightarrow> pair_diagnostic" where
  "new_pair pc = \<lparr>pd_tokenIn = pc_tokenIn pc, pd_tokenOut = pc_tokenOut pc, pd_status = Withheld, pd_reason = None,
     pd_candidateOffers = int (length (pc_bucket pc)), pd_visitedSubsets = 0, pd_storedExactInputs = 0,
     pd_amountCappedSubsets = 0, pd_frontierCombinations = 0, pd_wirePoints = 0, pd_discoveryWork = 0,
     pd_safeMergeOrderWork = 0\<rparr>"

definition pair_step :: "derive_env \<Rightarrow> pair_context \<Rightarrow> derive_state \<Rightarrow> (flow \<times> derive_state) result" where
  "pair_step env pc st =
     (if dg_candidatePairsExamined (dv_diag st) \<ge> rl_maxCandidatePairs (de_limits env)
      then Inr (Break_discovery, stop_with R_candidate_pair_cap st)
      else
        let pairWorkStart = dg_discoveryWork (dv_diag st) in
        case charge (budget_of env st) 1 Discovery (dv_diag st) of
          (Some r, d) \<Rightarrow> Inr (Break_discovery, stop_with r (st\<lparr>dv_diag := d\<rparr>))
        | (None, d) \<Rightarrow>
            let d1 = d\<lparr>dg_candidatePairsExamined := dg_candidatePairsExamined d + 1,
                      dg_pairs := dg_pairs d @ [new_pair pc]\<rparr>
            in bindR (pair_body env pc (st\<lparr>dv_diag := d1\<rparr>)) (\<lambda>(fl, st1).
                 Inr (fl, update_last (\<lambda>p. p\<lparr>pd_discoveryWork :=
                   dg_discoveryWork (dv_diag st1) - pairWorkStart\<rparr>) st1)))"

fun output_loop :: "derive_env \<Rightarrow> bucket_id \<Rightarrow> crossable list \<Rightarrow> string \<Rightarrow> string list \<Rightarrow> derive_state
    \<Rightarrow> (flow \<times> derive_state) result" where
  "output_loop env bid bucket tokenIn [] st = Inr (Go, st)"
| "output_loop env bid bucket tokenIn (tokenOut # rest) st =
     (if tokenOut = tokenIn then output_loop env bid bucket tokenIn rest st
      else
        bindR (pair_step env \<lparr>pc_id = bid, pc_bucket = bucket, pc_tokenIn = tokenIn, pc_tokenOut = tokenOut\<rparr> st)
          (\<lambda>(fl, st1). if fl = Go \<or> fl = Continue_pair then output_loop env bid bucket tokenIn rest st1
                        else Inr (fl, st1)))"

fun input_loop :: "derive_env \<Rightarrow> string list \<Rightarrow> derive_state \<Rightarrow> (flow \<times> derive_state) result" where
  "input_loop env [] st = Inr (Go, st)"
| "input_loop env (tokenIn # rest) st =
     (case gr_componentByToken (de_graph env) tokenIn of
        None \<Rightarrow> Inl (TypeError ''undefined component'')
      | Some component \<Rightarrow>
          bindR (universeFor env component st) (\<lambda>(u, st1). case u of
             Inl reason \<Rightarrow> Inr (Break_discovery, stop_with reason st1)
           | Inr universe \<Rightarrow>
               bindR (output_loop env (Universe_of (dc_root component)) (uv_offers universe) tokenIn
                        (uv_outputs universe) st1) (\<lambda>(fl, st2).
                 if fl = Go then input_loop env rest st2 else Inr (fl, st2))))"

section \<open>The derivation\<close>

definition collect_cyclic :: "budget_context \<Rightarrow> discovery_component list \<Rightarrow> discovery_component list budgeted" where
  "collect_cyclic ctx components =
     foldB (\<lambda>c cyc. bindB (chargeB ctx) (\<lambda>_. returnB (if dc_cyclic c then cyc @ [c] else cyc))) components []"

definition collect_wanted :: "budget_context \<Rightarrow> crossable list \<Rightarrow> string list budgeted" where
  "collect_wanted ctx retained =
     bindB (foldB (\<lambda>c ws. bindB (chargeB ctx) (\<lambda>_. returnB (set_add (cr_tokenIn c) ws))) retained []) (\<lambda>ws.
     bindB (chargeSortB ctx (length ws)) (\<lambda>_. returnB (sort ws)))"

definition empty_pair_scratch :: pair_search_scratch where
  "empty_pair_scratch = \<lparr>px_gives = \<lambda>_. None, px_wants = \<lambda>_. None, px_nets = \<lambda>_. None, px_active = [], px_selected = []\<rparr>"

definition prepare :: "budget_context \<Rightarrow> crossable list
    \<Rightarrow> (discovery_graph \<times> crossable list \<times> discovery_component list \<times> string list) budgeted" where
  "prepare ctx retained =
     bindB (buildDiscoveryGraph retained ctx) (\<lambda>(g, indexed).
     bindB (collect_cyclic ctx (gr_components g)) (\<lambda>cyc.
     bindB (collect_wanted ctx indexed) (\<lambda>wantedTokens.
       returnB (g, indexed, cyc, wantedTokens))))"

text \<open>The handler of the private exception: the pair in progress is withheld for the global stop.\<close>

definition scan_stopped :: "derive_state \<Rightarrow> derive_state" where
  "scan_stopped = (\<lambda>st. update_last (\<lambda>p. if pd_status p = Withheld then p\<lparr>pd_reason := dv_globalStop st\<rparr> else p) st)"

definition withdraw_pair :: "ladder_reason option \<Rightarrow> pair_diagnostic \<Rightarrow> pair_diagnostic" where
  "withdraw_pair stop p = (if pd_status p \<noteq> Published then p
     else p\<lparr>pd_status := Withheld, pd_reason := stop, pd_frontierCombinations := 0, pd_wirePoints := 0\<rparr>)"

definition withdraw_cancelled :: "derive_env \<Rightarrow> derive_state \<Rightarrow> derive_state" where
  "withdraw_cancelled env st = (case dv_globalStop st of
     None \<Rightarrow> st
   | Some r \<Rightarrow>
       if r = R_aborted \<or> r = R_abort_check_failed then
         let d = dv_diag st;
             st1 = st\<lparr>dv_diag := d\<lparr>dg_pairs := map (withdraw_pair (Some r)) (dg_pairs d)\<rparr>\<rparr>;
             (fl, st2) = addPairExclusions env Retained_offers (de_retained env) r None st1
         in st2\<lparr>dv_levels := [], dv_provenance := []\<rparr>
       else st)"

definition finish :: "derive_env \<Rightarrow> derive_state \<Rightarrow> derived_ladder" where
  "finish env st0 =
     (let st = withdraw_cancelled env st0 in
      \<lparr>dl_levels = dv_levels st,
       dl_tokenIds = sort (js_uniq (concat (map (\<lambda>p. [pv_tokenIn p, pv_tokenOut p]) (dv_levels st)))),
       dl_provenance = dv_provenance st,
       dl_excluded = sort_key (\<lambda>e. (lx_offerHash e, reason_text (lx_reason e))) (dv_excluded st),
       dl_limits = de_limits env, dl_diagnostics = dv_diag st\<rparr>)"

text \<open>
  A stop before the pair loop: the retained offers are excluded for it; when even that scan runs
  out of budget, the code falls through to the common end.
\<close>

definition early_stop :: "derive_env \<Rightarrow> ladder_reason \<Rightarrow> derive_state \<Rightarrow> derived_ladder" where
  "early_stop env r st =
     (case addPairExclusions env Retained_offers (de_retained env) r None (stop_with r st) of
        (Go, st1) \<Rightarrow> emptyDerived (de_limits env) (dv_diag st1) (dv_excluded st1)
      | (_, st1) \<Rightarrow> finish env (scan_stopped st1))"

definition derive_pairs :: "derive_env \<Rightarrow> derive_state \<Rightarrow> derived_ladder result option" where
  "derive_pairs env st =
     (case prepare (budget_of env st) (de_retained env) (dv_diag st) of
        None \<Rightarrow> None
      | Some (Inl r, d) \<Rightarrow> Some (Inr (early_stop env r (st\<lparr>dv_diag := d\<rparr>)))
      | Some (Inr (g, indexed, cyc, wantedTokens), d) \<Rightarrow>
          let env1 = env\<lparr>de_graph := g, de_retained := indexed, de_cyclic := cyc\<rparr> in
          Some (bindR (input_loop env1 wantedTokens (st\<lparr>dv_diag := d\<rparr>)) (\<lambda>(fl, st1).
            Inr (finish env1 (if fl = Scan_stop then scan_stopped st1 else st1)))))"

definition no_graph :: discovery_graph where
  "no_graph = \<lparr>gr_componentByToken = \<lambda>_. None, gr_components = [], gr_indexByToken = \<lambda>_. None, gr_tokenAt = []\<rparr>"

definition deriveLadder ::
    "(combination_state list \<Rightarrow> nat) \<Rightarrow> source_offer list \<Rightarrow> derive_options \<Rightarrow> derived_ladder result option" where
  "deriveLadder comparisons offers options =
     (case resolveLadderResourceLimits (do_resourceLimits options) of
        Inl refusal \<Rightarrow>
          Some (Inr (emptyDerived DEFAULT_LADDER_RESOURCE_LIMITS
            ((emptyDiagnostics 0)\<lparr>dg_stopReason := Some R_invalid_resource_limit,
                                  dg_invalidResourceLimit := Some refusal\<rparr>) []))
      | Inr limits \<Rightarrow>
          (case abortReason (do_shouldAbort options) 0 of
             (Some r, p) \<Rightarrow> Some (Inr (emptyDerived limits ((emptyDiagnostics p)\<lparr>dg_stopReason := Some r\<rparr>) []))
           | (None, p) \<Rightarrow>
               (case scan_sources options (map toLowerCase (do_unavailableOfferHashes options)) limits offers
                       ([], [], emptyDiagnostics p) of
                  (Some r, crossables, excluded, d) \<Rightarrow> Some (Inr (emptyDerived limits d excluded))
                | (None, crossables, excluded, d) \<Rightarrow>
                    let (unique, excluded1) = drop_duplicates crossables excluded;
                        (retained, excluded2) = claim_coins unique [] ([], excluded1)
                    in derive_pairs
                         \<lparr>de_limits = limits, de_options = options, de_graph = no_graph, de_retained = retained,
                          de_cyclic = [], de_comparisons = comparisons\<rparr>
                         \<lparr>dv_excluded = excluded2, dv_keys = js_uniq (map (\<lambda>e. (lx_offerHash e, lx_reason e)) excluded2),
                          dv_levels = [], dv_provenance = [], dv_globalStop = None, dv_excludedUniverses = [],
                          dv_universeCache = [], dv_scratch = empty_pair_scratch, dv_diag = d\<rparr>)))"

end
