(* ===== verification/Ladder_Frames.thy ===== *)
theory Ladder_Frames
  imports Ladder_Derivation
begin

text \<open>
  The frame builders at the end of \<^verbatim>\<open>packages/solver-core/ladder-derivation.ts\<close>, and the
  posted prices of \<^verbatim>\<open>packages/solver/src/ladder.ts\<close>: what the solver sends, and what it quotes
  from. A frame is the JSON value that goes on the socket.
\<close>

section \<open>Frames\<close>

definition buildPriceLevelsFrame :: "price_levels list \<Rightarrow> json result" where
  "buildPriceLevelsFrame pairs =
     (if list_ex (\<lambda>p. rejectPair (pair_json p) \<noteq> None) pairs
      then Inl (PlainError ''refusing to build price-levels: a pair is rejected'')
      else
        let frame = JObj [(''type'', JStr ''price-levels''), (''levels'', JArr (map pair_json pairs))]
        in if parsePriceLevels frame = None
           then Inl (PlainError ''refusing to build price-levels: the relay would discard this frame'')
           else Inr frame)"

definition withdrawalPriceLevelsFrame :: "json result" where
  "withdrawalPriceLevelsFrame = buildPriceLevelsFrame []"

text \<open>The optional field is present only for a positive integer.\<close>

definition parallel_cap :: "js_number option \<Rightarrow> int option" where
  "parallel_cap maxParallelSwaps = (case maxParallelSwaps of
     Some (Integral n) \<Rightarrow> if n > 0 then Some n else None
   | _ \<Rightarrow> None)"

definition buildSolverCapabilitiesFrame :: "string list \<Rightarrow> js_number option \<Rightarrow> json result" where
  "buildSolverCapabilitiesFrame tokenIds maxParallelSwaps =
     (if list_ex (\<lambda>t. \<not> isCapabilityTokenId (JStr t)) tokenIds
      then Inl (PlainError ''refusing to build solver-capabilities: not a token id'')
      else
        let frame = JObj ([(''type'', JStr ''solver-capabilities''),
                           (''tokenIds'', JArr (map (\<lambda>t. JStr (toLowerCase t)) tokenIds))]
                      @ (case parallel_cap maxParallelSwaps of
                           Some n \<Rightarrow> [(''maxParallelSwaps'', JNum (Integral n))] | None \<Rightarrow> []))
        in if parseSolverCapabilities frame = None
           then Inl (PlainError ''refusing to build solver-capabilities: the relay would discard this frame'')
           else Inr frame)"

lemma pair_json_fields [simp]:
  "js_get (pair_json p) ''tokenIn'' = JStr (pv_tokenIn p)" "js_get (pair_json p) ''tokenOut'' = JStr (pv_tokenOut p)"
  "js_get (pair_json p) ''levels'' = JArr (map level_json (pv_levels p))" "asRecord (pair_json p) = Some (pair_json p)"
  by (simp_all add: pair_json_def js_get_def asRecord_def)

lemma rejectPair_None:
  assumes "rejectPair (pair_json p) = None"
  shows "isHex64 (pv_tokenIn p)" "isHex64 (pv_tokenOut p)" "published (pv_levels p)" "isPriceLevelsPair (pair_json p)"
proof -
  from assms have l: "rejectLevels (JArr (map level_json (pv_levels p))) = None"
    and t: "isHex64 (pv_tokenIn p)" "isHex64 (pv_tokenOut p)"
    by (auto simp: rejectPair_def isTokenColor_def split: if_splits)
  show "isHex64 (pv_tokenIn p)" "isHex64 (pv_tokenOut p)" by (rule t)+
  have v: "list_all2 level_view (map level_json (pv_levels p)) (pv_levels p)" by (simp add: list_all2_conv_all_nth)
  from l show "published (pv_levels p)"
    using rejectLevels_None_iff [of "JArr (map level_json (pv_levels p))"] levels_view_unique [OF v] by auto
  have "list_all (\<lambda>r. asRecord r \<noteq> None) (map level_json (pv_levels p))"
    by (simp add: list_all_iff asRecord_def level_json_def)
  moreover have "reject_rungs None (map level_json (pv_levels p)) = None"
    using l by (auto simp: rejectLevels_def split: if_splits)
  ultimately have "relay_rungs_ok None (map level_json (pv_levels p))" by (rule reject_rungs_relay [rotated])
  then show "isPriceLevelsPair (pair_json p)" by (simp add: isPriceLevelsPair_def is_string_def)
qed

lemma levels_frame_parses:
  "list_all (\<lambda>p. rejectPair (pair_json p) = None) pairs \<Longrightarrow>
   parsePriceLevels (JObj [(''type'', JStr ''price-levels''), (''levels'', JArr (map pair_json pairs))]) = Some (map pair_json pairs)"
  using rejectPair_None(4) by (auto simp: parsePriceLevels_def frame_of_type_def asRecord_def js_get_def list_all_iff)

lemma buildPriceLevelsFrame_ok:
  assumes "list_all (\<lambda>p. rejectPair (pair_json p) = None) pairs"
  shows "\<exists>frame. buildPriceLevelsFrame pairs = Inr frame \<and> parsePriceLevels frame = Some (map pair_json pairs)"
proof -
  have "\<not> list_ex (\<lambda>p. rejectPair (pair_json p) \<noteq> None) pairs" using assms by (simp add: list_all_iff list_ex_iff)
  with levels_frame_parses [OF assms] show ?thesis by (simp only: buildPriceLevelsFrame_def Let_def if_False) simp
qed

lemma capability_ids: "list_all isHex64 ids \<Longrightarrow> list_all isCapabilityTokenId (map (\<lambda>t. JStr (toLowerCase t)) ids)"
  by (auto simp: list_all_iff isCapabilityTokenId_def isHex64_toLowerCase isLowerHex64_isHex64)

lemma buildSolverCapabilitiesFrame_ok:
  assumes "list_all isHex64 ids"
  shows "\<exists>frame. buildSolverCapabilitiesFrame ids cap = Inr frame
     \<and> parseSolverCapabilities frame = Some \<lparr>sc_tokenIds = map toLowerCase ids, sc_maxParallelSwaps = parallel_cap cap\<rparr>"
proof -
  let ?frame = "JObj ([(''type'', JStr ''solver-capabilities''), (''tokenIds'', JArr (map (\<lambda>t. JStr (toLowerCase t)) ids))]
      @ (case parallel_cap cap of Some n \<Rightarrow> [(''maxParallelSwaps'', JNum (Integral n))] | None \<Rightarrow> []))"
  have pos: "parallel_cap cap = Some n \<Longrightarrow> 0 < n" for n
    by (auto simp: parallel_cap_def split: option.splits js_number.splits if_splits)
  have "parseSolverCapabilities ?frame = Some \<lparr>sc_tokenIds = map toLowerCase ids, sc_maxParallelSwaps = parallel_cap cap\<rparr>"
    using capability_ids [OF assms] pos assms
    by (cases "parallel_cap cap")
      (auto simp: parseSolverCapabilities_def frame_of_type_def asRecord_def js_get_def string_value_def comp_def
        list_all_iff isHex64_toLowerCase toLowerCase_lower)
  moreover have "\<not> list_ex (\<lambda>t. \<not> isCapabilityTokenId (JStr t)) ids"
    using assms by (simp add: list_all_iff list_ex_iff isCapabilityTokenId_def)
  ultimately show ?thesis by (simp add: buildSolverCapabilitiesFrame_def Let_def)
qed

section \<open>Posted prices\<close>

text \<open>\<open>LadderBook\<close>: a map from the pair key, in insertion order.\<close>

type_synonym ladder_book = "(string \<times> price_levels) list"

definition ladder_set :: "ladder_book \<Rightarrow> price_levels \<Rightarrow> ladder_book result" where
  "ladder_set book pair = (case rejectPair (pair_json pair) of
     Some rejection \<Rightarrow> Inl (PlainError ''invalid ladder'')
   | None \<Rightarrow> Inr (AList.update (pairKey (pv_tokenIn pair) (pv_tokenOut pair)) pair book))"

definition fromPairs :: "price_levels list \<Rightarrow> ladder_book result" where
  "fromPairs pairs = foldR ladder_set [] pairs"

definition ladder_get :: "ladder_book \<Rightarrow> string \<Rightarrow> string \<Rightarrow> price_levels option" where
  "ladder_get book tokenIn tokenOut = map_of book (pairKey tokenIn tokenOut)"

definition maxPayout :: "ladder_book \<Rightarrow> string \<Rightarrow> string \<Rightarrow> int \<Rightarrow> int option result" where
  "maxPayout book tokenIn tokenOut amountIn = (case ladder_get book tokenIn tokenOut of
     None \<Rightarrow> Inr None
   | Some pair \<Rightarrow> interpolateQuote (pv_levels pair) amountIn)"

definition ladder_pairs :: "ladder_book \<Rightarrow> price_levels list" where
  "ladder_pairs book = map snd book"

definition ladder_size :: "ladder_book \<Rightarrow> int" where
  "ladder_size book = int (length book)"

lemma pairKey_eq:
  assumes "isHex64 a" "isHex64 b" "isHex64 c" "isHex64 d"
  shows "pairKey a b = pairKey c d \<longleftrightarrow> toLowerCase a = toLowerCase c \<and> toLowerCase b = toLowerCase d"
  using assms by (auto simp: pairKey_def isHex64_def toLowerCase_def)

definition posted :: "price_levels list \<Rightarrow> ladder_book \<Rightarrow> bool" where
  "posted pairs book \<longleftrightarrow> list_all (\<lambda>p. rejectPair (pair_json p) = None) pairs
     \<and> map_of book = map_of (rev (map (\<lambda>p. (pairKey (pv_tokenIn p) (pv_tokenOut p), p)) pairs))"

lemma foldR_ladder_set:
  "posted done book \<Longrightarrow> (case foldR ladder_set book pairs of
     Inl e \<Rightarrow> list_ex (\<lambda>p. rejectPair (pair_json p) \<noteq> None) pairs | Inr b \<Rightarrow> posted (done @ pairs) b)"
proof (induction pairs arbitrary: "done" book)
  case (Cons p pairs)
  show ?case
  proof (cases "rejectPair (pair_json p)")
    case None
    with Cons.prems have "posted (done @ [p]) (AList.update (pairKey (pv_tokenIn p) (pv_tokenOut p)) p book)"
      by (simp add: posted_def update_conv')
    from Cons.IH [OF this] None show ?thesis by (simp add: ladder_set_def split: sum.splits)
  qed (simp add: ladder_set_def)
qed simp

lemma fromPairs_posted:
  "case fromPairs pairs of Inl e \<Rightarrow> list_ex (\<lambda>p. rejectPair (pair_json p) \<noteq> None) pairs | Inr b \<Rightarrow> posted pairs b"
  using foldR_ladder_set [of "[]" "[]" pairs] by (simp add: fromPairs_def posted_def split: sum.splits)

section \<open>Properties\<close>

text \<open>
  a price-levels frame is refused exactly when the schema rejects one of its
  pairs; a frame that is built is read back by the relay's parser as the very pairs it was built
  from, so no push is silently discarded.
\<close>

theorem buildPriceLevelsFrame_roundtrip:
  "case buildPriceLevelsFrame pairs of
     Inl e \<Rightarrow> list_ex (\<lambda>p. rejectPair (pair_json p) \<noteq> None) pairs
   | Inr frame \<Rightarrow> list_all (\<lambda>p. rejectPair (pair_json p) = None) pairs \<and> parsePriceLevels frame = Some (map pair_json pairs)"
proof (cases "list_all (\<lambda>p. rejectPair (pair_json p) = None) pairs")
  case True
  with buildPriceLevelsFrame_ok [OF True] show ?thesis by auto
next
  case False
  then have "list_ex (\<lambda>p. rejectPair (pair_json p) \<noteq> None) pairs" by (auto simp: list_all_iff list_ex_iff)
  then show ?thesis by (simp add: buildPriceLevelsFrame_def)
qed

text \<open>
  A capabilities frame is refused exactly when an identifier is not a token id; a
  built frame is read back as the lower-cased identifiers and the positive integer cap, if any.
\<close>

theorem buildSolverCapabilitiesFrame_roundtrip:
  "case buildSolverCapabilitiesFrame tokenIds cap of
     Inl e \<Rightarrow> list_ex (\<lambda>t. \<not> isHex64 t) tokenIds
   | Inr frame \<Rightarrow> list_all isHex64 tokenIds \<and> parseSolverCapabilities frame =
       Some \<lparr>sc_tokenIds = map toLowerCase tokenIds, sc_maxParallelSwaps = parallel_cap cap\<rparr>"
proof (cases "list_all isHex64 tokenIds")
  case True
  with buildSolverCapabilitiesFrame_ok [OF True, of cap] show ?thesis by auto
next
  case False
  then have l: "list_ex (\<lambda>t. \<not> isHex64 t) tokenIds" by (auto simp: list_all_iff list_ex_iff)
  then have "list_ex (\<lambda>t. \<not> isCapabilityTokenId (JStr t)) tokenIds" by (simp add: isCapabilityTokenId_def)
  with l show ?thesis by (simp add: buildSolverCapabilitiesFrame_def)
qed

text \<open>
  A ladder book is refused exactly when a posted pair is invalid; otherwise a pair of
  tokens is priced by the last ladder posted for it, in any letter case, and its quote never throws.
\<close>

theorem fromPairs_prices:
  "case fromPairs pairs of
     Inl e \<Rightarrow> list_ex (\<lambda>p. rejectPair (pair_json p) \<noteq> None) pairs
   | Inr book \<Rightarrow> list_all (\<lambda>p. rejectPair (pair_json p) = None) pairs
       \<and> (\<forall>tokenIn tokenOut. ladder_get book tokenIn tokenOut =
            find (\<lambda>p. pairKey (pv_tokenIn p) (pv_tokenOut p) = pairKey tokenIn tokenOut) (rev pairs))
       \<and> (\<forall>tokenIn tokenOut x. \<exists>r. maxPayout book tokenIn tokenOut x = Inr r)"
proof (cases "fromPairs pairs")
  case (Inl e)
  with fromPairs_posted [of pairs] show ?thesis by simp
next
  case (Inr book)
  with fromPairs_posted [of pairs] have p: "posted pairs book" by simp
  have f: "map_of (map (\<lambda>p. (g p, p)) xs) k = find (\<lambda>p. g p = k) xs" for g :: "price_levels \<Rightarrow> string" and xs k
    by (induction xs) auto
  have get: "ladder_get book a b = find (\<lambda>p. pairKey (pv_tokenIn p) (pv_tokenOut p) = pairKey a b) (rev pairs)" for a b
    using p by (simp add: ladder_get_def posted_def f rev_map)
  have "\<exists>r. maxPayout book a b x = Inr r" for a b x
  proof (cases "ladder_get book a b")
    case (Some q)
    then have "q \<in> set pairs" unfolding get by (metis find_Some_iff nth_mem set_rev)
    with p have "published (pv_levels q)" using rejectPair_None(3) by (auto simp: posted_def list_all_iff)
    with Some show ?thesis using node_quoter.quote_total [of "pv_levels q" x] by (simp add: maxPayout_def)
  qed (simp add: maxPayout_def)
  with get p Inr show ?thesis by (simp add: posted_def)
qed

end
