(* ===== verification/Ladder_Search_Correct.thy ===== *)
theory Ladder_Search_Correct
  imports Ladder_Search
begin

text \<open>
  Correctness of \<open>enumeratePair\<close>: the scratch arrays always hold the balances of the current
  selection and are restored exactly, the search never throws, every entry of its result is a
  feasible maker set, and a search that was not cut short covers every feasible maker set.
\<close>

section \<open>The scratch arrays\<close>

definition in_range :: "string list \<Rightarrow> int \<Rightarrow> string \<Rightarrow> bool" where
  "in_range tokenAt i t \<longleftrightarrow> 0 \<le> i \<and> nat i < length tokenAt \<and> tokenAt ! nat i = t"

lemma in_range_token: "in_range tokenAt i t \<Longrightarrow> token_of tokenAt i = t"
  by (simp add: in_range_def token_of_def)

lemma in_range_inj: "distinct tokenAt \<Longrightarrow> in_range tokenAt i t \<Longrightarrow> in_range tokenAt j t' \<Longrightarrow> i = j \<longleftrightarrow> t = t'"
  by (auto simp: in_range_def nth_eq_iff_index_eq)

definition indexed :: "string list \<Rightarrow> crossable \<Rightarrow> bool" where
  "indexed tokenAt c \<longleftrightarrow> in_range tokenAt (cr_tokenInIndex c) (cr_tokenIn c)
     \<and> in_range tokenAt (cr_tokenOutIndex c) (cr_tokenOut c)"

definition touches :: "crossable list \<Rightarrow> string \<Rightarrow> bool" where
  "touches S t \<longleftrightarrow> (\<exists>c \<in> set S. cr_tokenIn c = t \<or> cr_tokenOut c = t)"

definition scratch_inv :: "string list \<Rightarrow> search_state \<Rightarrow> bool" where
  "scratch_inv tokenAt st \<longleftrightarrow>
     (\<forall>i t. in_range tokenAt i t \<longrightarrow> or_zero (ss_gives st i) = offered (ss_selected st) t
        \<and> or_zero (ss_wants st i) = requested (ss_selected st) t
        \<and> or_zero (ss_nets st i) = net (ss_selected st) t)
     \<and> distinct (ss_active st)
     \<and> set (ss_active st) = {i. \<exists>t. in_range tokenAt i t \<and> touches (ss_selected st) t}"

lemma was_absent_iff:
  assumes "scratch_inv tokenAt st" "\<forall>c \<in> set (ss_selected st). valid_crossable c" "in_range tokenAt i t"
  shows "was_absent st i \<longleftrightarrow> \<not> touches (ss_selected st) t"
  using assms(1,3) untouched_iff [OF assms(2), of t]
  by (auto simp: was_absent_def scratch_inv_def touches_def)

lemma or_zero_simps [simp]: "or_zero (Some v) = v" "or_zero None = 0"
  by (simp_all add: or_zero_def)

lemma push_candidate_fields [simp]:
  "ss_selected (push_candidate c st) = ss_selected st @ [c]"
  "ss_exact (push_candidate c st) = ss_exact st" "ss_reason (push_candidate c st) = ss_reason st"
  "ss_diag (push_candidate c st) = ss_diag st"
  by (simp_all add: push_candidate_def Let_def)

lemma push_candidate_inv:
  assumes "scratch_inv tokenAt st" "\<forall>d \<in> set (ss_selected st). valid_crossable d \<and> indexed tokenAt d"
    and "valid_crossable c" "indexed tokenAt c" "distinct tokenAt"
  shows "scratch_inv tokenAt (push_candidate c st)"
proof -
  let ?i = "cr_tokenInIndex c" and ?out = "cr_tokenOutIndex c"
  from assms(4) have ri: "in_range tokenAt ?i (cr_tokenIn c)" and ro: "in_range tokenAt ?out (cr_tokenOut c)"
    by (auto simp: indexed_def)
  have ne: "cr_tokenIn c \<noteq> cr_tokenOut c" using assms(3) by (simp add: valid_crossable_def)
  then have nidx: "?i \<noteq> ?out" using in_range_inj [OF assms(5) ri ro] by simp
  have eqs: "j = ?i \<longleftrightarrow> t = cr_tokenIn c" "j = ?out \<longleftrightarrow> t = cr_tokenOut c" if "in_range tokenAt j t" for j t
    using in_range_inj [OF assms(5) that ri] in_range_inj [OF assms(5) that ro] by auto
  have bal: "or_zero (ss_gives st j) = offered (ss_selected st) t"
    "or_zero (ss_wants st j) = requested (ss_selected st) t"
    "or_zero (ss_nets st j) = net (ss_selected st) t" if "in_range tokenAt j t" for j t
    using assms(1) that by (auto simp: scratch_inv_def)
  have "or_zero (ss_gives (push_candidate c st) j) = offered (ss_selected st @ [c]) t
      \<and> or_zero (ss_wants (push_candidate c st) j) = requested (ss_selected st @ [c]) t
      \<and> or_zero (ss_nets (push_candidate c st) j) = net (ss_selected st @ [c]) t"
    if r: "in_range tokenAt j t" for j t
    using eqs [OF r] bal [OF r] nidx ne
    by (auto simp: push_candidate_def Let_def net_def)
  moreover have valid: "\<forall>d \<in> set (ss_selected st). valid_crossable d" using assms(2) by blast
  have abs: "was_absent st ?i \<longleftrightarrow> \<not> touches (ss_selected st) (cr_tokenIn c)"
    "was_absent st ?out \<longleftrightarrow> \<not> touches (ss_selected st) (cr_tokenOut c)"
    using was_absent_iff [OF assms(1) valid ri] was_absent_iff [OF assms(1) valid ro] by auto
  have act: "ss_active (push_candidate c st) =
      ss_active st @ (if was_absent st ?i then [?i] else []) @ (if was_absent st ?out then [?out] else [])"
    by (simp add: push_candidate_def Let_def)
  have old: "j \<in> set (ss_active st) \<longleftrightarrow> touches (ss_selected st) t" if "in_range tokenAt j t" for j t
    using assms(1) that by (auto simp: scratch_inv_def in_range_def)
  have "distinct (ss_active (push_candidate c st))"
    using assms(1) abs old [OF ri] old [OF ro] nidx by (auto simp: act scratch_inv_def)
  moreover have "set (ss_active (push_candidate c st))
      = {j. \<exists>t. in_range tokenAt j t \<and> touches (ss_selected st @ [c]) t}"
  proof -
    have "touches (ss_selected st @ [c]) t \<longleftrightarrow> touches (ss_selected st) t \<or> t = cr_tokenIn c \<or> t = cr_tokenOut c" for t
      by (auto simp: touches_def)
    moreover have "set (ss_active st) = {i. \<exists>t. in_range tokenAt i t \<and> touches (ss_selected st) t}"
      using assms(1) by (simp add: scratch_inv_def)
    ultimately show ?thesis
      using ri ro abs by (auto simp: act eqs split: if_splits)
  qed
  ultimately show ?thesis by (simp add: scratch_inv_def)
qed

text \<open>Two states agree on everything a branch must restore.\<close>

definition same_scratch :: "search_state \<Rightarrow> search_state \<Rightarrow> bool" where
  "same_scratch st st' \<longleftrightarrow> ss_gives st' = ss_gives st \<and> ss_wants st' = ss_wants st \<and> ss_nets st' = ss_nets st
     \<and> ss_active st' = ss_active st \<and> ss_selected st' = ss_selected st"

lemma same_scratch_refl [simp]: "same_scratch st st"
  by (simp add: same_scratch_def)

lemma same_scratch_trans: "same_scratch a b \<Longrightarrow> same_scratch b c \<Longrightarrow> same_scratch a c"
  by (simp add: same_scratch_def)

lemma same_scratch_inv: "same_scratch st st' \<Longrightarrow> scratch_inv tokenAt st' \<longleftrightarrow> scratch_inv tokenAt st"
  by (simp add: same_scratch_def scratch_inv_def)

lemma rollback_restores:
  assumes "same_scratch (push_candidate c st) st3" "cr_tokenInIndex c \<noteq> cr_tokenOutIndex c"
  shows "\<exists>st4. rollback c st st3 = Inr st4 \<and> same_scratch st st4
    \<and> ss_exact st4 = ss_exact st3 \<and> ss_reason st4 = ss_reason st3 \<and> ss_diag st4 = ss_diag st3
    \<and> ss_visitedSubsets st4 = ss_visitedSubsets st3"
proof -
  let ?i = "cr_tokenInIndex c" and ?out = "cr_tokenOutIndex c"
  have act: "ss_active st3 =
      ss_active st @ (if was_absent st ?i then [?i] else []) @ (if was_absent st ?out then [?out] else [])"
    using assms(1) by (simp add: same_scratch_def push_candidate_def Let_def)
  then have pops: "pop_active (was_absent st ?out) ?out (ss_active st3)
      = Inr (ss_active st @ (if was_absent st ?i then [?i] else []))"
    by (simp add: pop_active_def butlast_append)
  have "pop_active (was_absent st ?i) ?i (ss_active st @ (if was_absent st ?i then [?i] else [])) = Inr (ss_active st)"
    by (simp add: pop_active_def)
  with pops assms show ?thesis
    by (auto simp: rollback_def Let_def same_scratch_def push_candidate_def fun_eq_iff)
qed

section \<open>One candidate\<close>

lemma scan_active_spec:
  "fst (scan_active nets tin act capped) \<longleftrightarrow> (\<exists>i \<in> set act. i \<noteq> tin \<and> or_zero (nets i) < 0)"
  "\<not> fst (scan_active nets tin act capped) \<Longrightarrow>
     snd (scan_active nets tin act capped) \<longleftrightarrow> capped \<or> (\<exists>i \<in> set act. \<not> within_settlement (or_zero (nets i)))"
  by (induction nets tin act capped rule: scan_active.induct) (auto simp: Let_def)

lemma economic_iff:
  assumes inv: "scratch_inv tokenAt st" "S = ss_selected st" "\<forall>c \<in> set S. indexed tokenAt c"
    and dist: "distinct tokenAt" "in_range tokenAt i tin" "in_range tokenAt out tout" "tin \<noteq> tout"
  shows "or_zero (ss_nets st i) < 0 \<and> or_zero (ss_nets st out) > 0
       \<and> \<not> fst (scan_active (ss_nets st) i (ss_active st) False)
       \<and> \<not> snd (scan_active (ss_nets st) i (ss_active st) False)
     \<longleftrightarrow> fillable (net S) tin tout"
proof -
  have bal: "or_zero (ss_nets st j) = net S t" if "in_range tokenAt j t" for j t
    using inv(1,2) that by (simp add: scratch_inv_def)
  have act: "set (ss_active st) = {j. \<exists>t. in_range tokenAt j t \<and> touches S t}"
    using inv(1,2) by (simp add: scratch_inv_def)
  have zero: "net S t = 0" if "\<not> touches S t" for t
    using that by (induction S) (auto simp: touches_def net_def)
  have idx: "\<exists>j. in_range tokenAt j t" if "touches S t" for t
    using that inv(3) by (auto simp: touches_def indexed_def)
  have deficit: "(\<exists>j \<in> set (ss_active st). j \<noteq> i \<and> or_zero (ss_nets st j) < 0) \<longleftrightarrow> (\<exists>t. t \<noteq> tin \<and> net S t < 0)"
  proof
    assume "\<exists>j \<in> set (ss_active st). j \<noteq> i \<and> or_zero (ss_nets st j) < 0"
    then obtain j t where "in_range tokenAt j t" "j \<noteq> i" "or_zero (ss_nets st j) < 0" by (auto simp: act)
    with bal in_range_inj [OF dist(1) _ dist(2)] show "\<exists>t. t \<noteq> tin \<and> net S t < 0" by metis
  next
    assume "\<exists>t. t \<noteq> tin \<and> net S t < 0"
    then obtain t where t: "t \<noteq> tin" "net S t < 0" by blast
    then have "touches S t" using zero by force
    then obtain j where j: "in_range tokenAt j t" using idx by blast
    with t bal [OF j] in_range_inj [OF dist(1) j dist(2)] have "or_zero (ss_nets st j) < 0" "j \<noteq> i" by auto
    with j \<open>touches S t\<close> show "\<exists>j \<in> set (ss_active st). j \<noteq> i \<and> or_zero (ss_nets st j) < 0"
      unfolding act by blast
  qed
  have cap: "(\<exists>j \<in> set (ss_active st). \<not> within_settlement (or_zero (ss_nets st j)))
      \<longleftrightarrow> (\<exists>t. \<not> within_settlement (net S t))"
  proof
    assume "\<exists>j \<in> set (ss_active st). \<not> within_settlement (or_zero (ss_nets st j))"
    with bal show "\<exists>t. \<not> within_settlement (net S t)" by (auto simp: act)
  next
    assume "\<exists>t. \<not> within_settlement (net S t)"
    then obtain t where t: "\<not> within_settlement (net S t)" by blast
    moreover have "within_settlement 0" by (simp add: within_settlement_def MAX_SETTLEMENT_AMOUNT_def)
    ultimately have "touches S t" using zero [of t] by metis
    then obtain j where j: "in_range tokenAt j t" using idx by blast
    with t bal [OF j] have "\<not> within_settlement (or_zero (ss_nets st j))" by simp
    with j \<open>touches S t\<close> show "\<exists>j \<in> set (ss_active st). \<not> within_settlement (or_zero (ss_nets st j))"
      unfolding act by blast
  qed
  let ?scan = "scan_active (ss_nets st) i (ss_active st) False"
  have f: "fst ?scan \<longleftrightarrow> (\<exists>t. t \<noteq> tin \<and> net S t < 0)" by (simp only: scan_active_spec(1) deficit)
  have s: "\<not> fst ?scan \<Longrightarrow> snd ?scan \<longleftrightarrow> (\<exists>t. \<not> within_settlement (net S t))"
    by (simp add: scan_active_spec(2) cap)
  show ?thesis
    unfolding fillable_def within_settlement_abs [symmetric] bal [OF dist(2)] bal [OF dist(3)]
    using f s dist(4) by (auto simp: not_less)
qed

definition budget_ok :: "search_context \<Rightarrow> search_state \<Rightarrow> bool" where
  "budget_ok ctx st \<longleftrightarrow> dg_discoveryWork (ss_diag st) \<le> bc_maxDiscoveryWork (sx_budget ctx)"

text \<open>What a step keeps: the scratch, the map's invariant, coverage, the budget.\<close>

definition keeps :: "crossable list \<Rightarrow> nat \<Rightarrow> search_context \<Rightarrow> search_state \<Rightarrow> search_state \<Rightarrow> bool" where
  "keeps bucket n ctx st st' \<longleftrightarrow> same_scratch st st' \<and> budget_ok ctx st'
     \<and> exact_inv bucket (sx_tokenIn ctx) (sx_tokenOut ctx) n (ss_exact st')
     \<and> (\<forall>S. covered (sx_tokenIn ctx) (sx_tokenOut ctx) (ss_exact st) S
          \<longrightarrow> covered (sx_tokenIn ctx) (sx_tokenOut ctx) (ss_exact st') S)"

lemma keeps_trans: "keeps bucket n ctx a b \<Longrightarrow> keeps bucket n ctx b c \<Longrightarrow> keeps bucket n ctx a c"
  by (auto simp: keeps_def intro: same_scratch_trans)

lemma charge_merge_work_keeps:
  assumes "charge_merge_work ctx w st = (stopped, st2)" "budget_ok ctx st"
    and "exact_inv bucket (sx_tokenIn ctx) (sx_tokenOut ctx) n (ss_exact st)"
  shows "keeps bucket n ctx st st2" "ss_exact st2 = ss_exact st"
    "stopped \<Longrightarrow> ss_reason st2 \<noteq> None" "\<not> stopped \<Longrightarrow> ss_reason st2 = ss_reason st"
proof -
  obtain r d where c: "charge (sx_budget ctx) (nat w) Safe_merge_order (ss_diag st) = (r, d)" by fastforce
  have "dg_discoveryWork d \<le> bc_maxDiscoveryWork (sx_budget ctx)"
    using charge_discoveryWork [OF c] assms(2) by (simp add: budget_ok_def)
  with assms c show "keeps bucket n ctx st st2" "ss_exact st2 = ss_exact st"
    "stopped \<Longrightarrow> ss_reason st2 \<noteq> None" "\<not> stopped \<Longrightarrow> ss_reason st2 = ss_reason st"
    by (auto simp: charge_merge_work_def Let_def keeps_def same_scratch_def budget_ok_def
        split: if_splits option.splits)
qed

lemma subseq_set: "subseq S bucket \<Longrightarrow> set S \<subseteq> set bucket"
  by (induction rule: list_emb.induct) auto

lemma subseq_hashes:
  "subseq S bucket \<Longrightarrow> distinct (map cr_offerHash bucket) \<Longrightarrow> distinct (map cr_offerHash S)"
  by (induction rule: list_emb.induct) (auto dest!: subseq_set)

definition bucket_ok :: "crossable list \<Rightarrow> bool" where
  "bucket_ok bucket \<longleftrightarrow> (\<forall>c \<in> set bucket. valid_crossable c) \<and> distinct (map cr_offerHash bucket)"

lemma plan_order_spec:
  assumes "bucket_ok bucket" "subseq S bucket" "S = ss_selected st" "length S \<le> 8"
    and "prefixSafe \<longleftrightarrow> prefix_ok S" "budget_ok ctx st"
  obtains order polls where "plan_order ctx prefixSafe st = Inr (order, polls)"
    "\<And>h f w. order = Merge_ok h f w \<Longrightarrow> mergeable S"
    "\<And>w. order = Merge_failed Unsafe_merge_order w \<Longrightarrow> \<not> mergeable S"
    "\<And>w. order \<noteq> Merge_failed Too_many_sources w"
proof (cases prefixSafe)
  case True
  have "\<forall>c \<in> set S. valid_crossable c" using assms(1,2) subseq_set by (auto simp: bucket_ok_def)
  with True assms(5) have "mergeable S" by (simp add: prefix_ok_mergeable)
  with True that [of "Merge_ok [] False 0"] show thesis by (simp add: plan_order_def)
next
  case False
  have v: "\<forall>c \<in> set S. valid_crossable c" using assms(1,2) subseq_set by (auto simp: bucket_ok_def)
  let ?ss = "map crossable_source S"
  let ?opts = "\<lparr>mo_maximumDelta = None, mo_maxSources = None,
              mo_maxWork = Some (min MAX_SAFE_MERGE_ORDER_WORK (budget_remaining (sx_budget ctx) (ss_diag st))),
              mo_shouldAbort = bc_shouldAbort (sx_budget ctx)\<rparr>"
  have "map (\<lambda>s. toLowerCase (src_hash s)) ?ss = map cr_offerHash S"
    using v by (auto simp: crossable_source_valid)
  moreover have "distinct (map cr_offerHash S)" using assms(1,2) subseq_hashes by (auto simp: bucket_ok_def)
  ultimately have d: "distinct (map (\<lambda>s. toLowerCase (src_hash s)) ?ss)" by metis
  obtain order polls where f: "findSafeWholeOfferMergeOrder ?ss ?opts (dg_polls (ss_diag st)) = Inr (order, polls)"
    using find_returns [OF _ _ d, of "min MAX_SAFE_MERGE_ORDER_WORK (budget_remaining (sx_budget ctx) (ss_diag st))"
        "bc_shouldAbort (sx_budget ctx)" "dg_polls (ss_diag st)"] v assms(4,6)
    by (auto simp: crossable_source_valid list_all_iff budget_ok_def budget_remaining_def
        max_safe_merge_order_work_1024)
  have eff: "effective_delta ?opts = MAX_SETTLEMENT_AMOUNT" by simp
  show thesis
  proof (rule that)
    show "plan_order ctx prefixSafe st = Inr (order, polls)" using False f assms(3) by (simp add: plan_order_def)
    show "mergeable S" if "order = Merge_ok h fb w" for h fb w
      using findSafe_ok [OF f [unfolded that]] eff by (auto simp: mergeable_def)
    show "\<not> mergeable S" if "order = Merge_failed Unsafe_merge_order w" for w
      using findSafe_unsafe [OF f [unfolded that]] eff by (auto simp: mergeable_def)
    show "order \<noteq> Merge_failed Too_many_sources w" for w
      using f assms(4)
      by (auto simp: findSafeWholeOfferMergeOrder_def Let_def MAX_PHYSICAL_MAKERS_PER_MERGE_def bindR_eq_Inr
          plan_merge_def split: if_splits option.splits prod.splits interrupt_reason.splits)
  qed
qed

definition search_ok :: "search_context \<Rightarrow> crossable list \<Rightarrow> nat \<Rightarrow> bool" where
  "search_ok ctx bucket n \<longleftrightarrow> bucket_ok bucket \<and> sx_tokenIn ctx \<noteq> sx_tokenOut ctx
     \<and> int n = rl_maxMakersPerCombination (sx_limits ctx) \<and> 1 \<le> n \<and> n \<le> 8
     \<and> distinct (sx_tokenAt ctx) \<and> (\<forall>c \<in> set bucket. indexed (sx_tokenAt ctx) c)
     \<and> in_range (sx_tokenAt ctx) (sx_tokenInIndex ctx) (sx_tokenIn ctx)
     \<and> in_range (sx_tokenAt ctx) (sx_tokenOutIndex ctx) (sx_tokenOut ctx)"

abbreviation ctx_covered :: "search_context \<Rightarrow> search_state \<Rightarrow> crossable list \<Rightarrow> bool" where
  "ctx_covered ctx st \<equiv> covered (sx_tokenIn ctx) (sx_tokenOut ctx) (ss_exact st)"

abbreviation ctx_feasible :: "search_context \<Rightarrow> crossable list \<Rightarrow> bool" where
  "ctx_feasible ctx \<equiv> feasible (sx_tokenIn ctx) (sx_tokenOut ctx)"

abbreviation ctx_exact_inv :: "crossable list \<Rightarrow> nat \<Rightarrow> search_context \<Rightarrow> search_state \<Rightarrow> bool" where
  "ctx_exact_inv bucket n ctx st \<equiv> exact_inv bucket (sx_tokenIn ctx) (sx_tokenOut ctx) n (ss_exact st)"

lemma keeps_unchanged:
  "ctx_exact_inv bucket n ctx st \<Longrightarrow> budget_ok ctx st \<Longrightarrow> same_scratch st st' \<Longrightarrow> ss_exact st' = ss_exact st
    \<Longrightarrow> ss_diag st' = ss_diag st \<Longrightarrow> keeps bucket n ctx st st'"
  by (simp add: keeps_def budget_ok_def)

lemma same_scratch_fields [simp]:
  "same_scratch st (st\<lparr>ss_reason := r\<rparr>)" "same_scratch st (st\<lparr>ss_unsafeMergeOrderSubsets := u\<rparr>)"
  "same_scratch st (st\<lparr>ss_amountCappedSubsets := u\<rparr>)" "same_scratch st (st\<lparr>ss_diag := d\<rparr>)"
  "same_scratch st (offer_witness i out rows st)"
  by (simp_all add: same_scratch_def)

lemma offer_selected:
  assumes "ctx_exact_inv bucket n ctx st" "S = ss_selected st" "subseq S bucket" "S \<noteq> []" "length S \<le> n"
    "budget_ok ctx st" "ctx_feasible ctx S" "i = - net S (sx_tokenIn ctx)" "out = net S (sx_tokenOut ctx)"
    "rows_of S rows"
  shows "keeps bucket n ctx st (offer_witness i out rows st)" "ctx_covered ctx (offer_witness i out rows st) S"
  using offer_witness_exact [OF assms(1-5,7-10)] assms(6) by (auto simp: keeps_def budget_ok_def)

lemma witness_rows_of:
  assumes "scratch_inv tokenAt st" "S = ss_selected st" "\<forall>c \<in> set S. valid_crossable c \<and> indexed tokenAt c"
  shows "rows_of S (Some (witness_rows tokenAt st))"
proof -
  have "isLowerHex64 (token_of tokenAt i) \<and> or_zero (ss_gives st i) = offered S (token_of tokenAt i)
      \<and> or_zero (ss_wants st i) = requested S (token_of tokenAt i) \<and> or_zero (ss_nets st i) = net S (token_of tokenAt i)"
    if i: "i \<in> set (ss_active st)" for i
  proof -
    from i assms(1,2) obtain t where t: "in_range tokenAt i t" "touches S t" by (auto simp: scratch_inv_def)
    then have "isLowerHex64 t" using assms(3) by (auto simp: touches_def valid_crossable_def)
    with t assms(1,2) show ?thesis by (simp add: in_range_token scratch_inv_def)
  qed
  then show ?thesis by (auto simp: rows_of_def witness_rows_def)
qed

lemma evaluate_selection_spec:
  assumes ok: "search_ok ctx bucket n" and sel: "S = ss_selected st" "subseq S bucket" "S \<noteq> []" "length S \<le> n"
    and inv: "scratch_inv (sx_tokenAt ctx) st" "prefixSafe \<longleftrightarrow> prefix_ok S" "budget_ok ctx st"
      "ctx_exact_inv bucket n ctx st" "ss_reason st = None"
  obtains stopped st2 where "evaluate_selection ctx prefixSafe st = Inr (stopped, st2)"
    "keeps bucket n ctx st st2" "stopped \<Longrightarrow> ss_reason st2 \<noteq> None"
    "\<not> stopped \<Longrightarrow> ss_reason st2 = None" "\<not> stopped \<Longrightarrow> ctx_feasible ctx S \<Longrightarrow> ctx_covered ctx st2 S"
proof -
  let ?in = "or_zero (ss_nets st (sx_tokenInIndex ctx))" and ?out = "or_zero (ss_nets st (sx_tokenOutIndex ctx))"
  let ?scan = "scan_active (ss_nets st) (sx_tokenInIndex ctx) (ss_active st) False"
  from ok have bk: "bucket_ok bucket" and n8: "length S \<le> 8" and ne: "sx_tokenIn ctx \<noteq> sx_tokenOut ctx"
    and idx: "distinct (sx_tokenAt ctx)" "in_range (sx_tokenAt ctx) (sx_tokenInIndex ctx) (sx_tokenIn ctx)"
      "in_range (sx_tokenAt ctx) (sx_tokenOutIndex ctx) (sx_tokenOut ctx)"
    and ix: "\<forall>c \<in> set S. indexed (sx_tokenAt ctx) c"
    using sel(2,4) subseq_set by (auto simp: search_ok_def)
  have econ: "?in < 0 \<and> ?out > 0 \<and> \<not> fst ?scan \<and> \<not> snd ?scan \<longleftrightarrow> fillable (net S) (sx_tokenIn ctx) (sx_tokenOut ctx)"
    using economic_iff [OF inv(1) sel(1) ix idx ne] .
  have nets: "?in = net S (sx_tokenIn ctx)" "?out = net S (sx_tokenOut ctx)"
    using inv(1) idx sel(1) by (auto simp: scratch_inv_def)
  show thesis
  proof (cases "fillable (net S) (sx_tokenIn ctx) (sx_tokenOut ctx)")
    case False
    with econ have "\<not> ctx_feasible ctx S" by (simp add: feasible_def)
    moreover have "\<exists>st2. evaluate_selection ctx prefixSafe st = Inr (False, st2) \<and> keeps bucket n ctx st st2
        \<and> ss_reason st2 = None"
      using econ False inv
      by (auto simp: evaluate_selection_def Let_def keeps_unchanged split: prod.splits)
    ultimately show thesis using that by blast
  next
    case True
    with econ have e: "?in < 0" "?out > 0" "\<not> fst ?scan" "\<not> snd ?scan" by auto
    obtain order polls where p: "plan_order ctx prefixSafe st = Inr (order, polls)"
      and m: "\<And>h f w. order = Merge_ok h f w \<Longrightarrow> mergeable S"
        "\<And>w. order = Merge_failed Unsafe_merge_order w \<Longrightarrow> \<not> mergeable S"
        "\<And>w. order \<noteq> Merge_failed Too_many_sources w"
      by (rule plan_order_spec [OF bk sel(2,1) n8 inv(2,3)]) blast
    let ?st1 = "st\<lparr>ss_diag := (ss_diag st)\<lparr>dg_polls := polls\<rparr>\<rparr>"
    let ?lim = "min MAX_SAFE_MERGE_ORDER_WORK (budget_remaining (sx_budget ctx) (ss_diag st))"
    obtain s1 st2 where c: "charge_merge_work ctx (merge_work order) ?st1 = (s1, st2)" by fastforce
    have b1: "budget_ok ctx ?st1" "ctx_exact_inv bucket n ctx ?st1" using inv(3,4) by (auto simp: budget_ok_def)
    note k = charge_merge_work_keeps [OF c b1]
    have k1: "keeps bucket n ctx st st2" using k(1) by (auto simp: keeps_def same_scratch_def)
    have ev: "evaluate_selection ctx prefixSafe st =
        Inr (if s1 then (True, st2) else after_order ctx ?lim order st2)"
      using e p c by (auto simp: evaluate_selection_def Let_def split: prod.splits)
    show thesis
    proof (cases s1)
      case True
      with ev k1 k(3) that [of True st2] show thesis by simp
    next
      case False
      have st2: "ss_reason st2 = None" "ctx_exact_inv bucket n ctx st2" "budget_ok ctx st2" "ss_selected st2 = S"
        "ss_nets st2 = ss_nets st"
        using k(4) False inv(5) k1 sel(1) by (auto simp: keeps_def same_scratch_def)
      show thesis
      proof (cases order)
        case (Merge_ok h f w)
        from m(1) [OF this] True have fe: "ctx_feasible ctx S" by (simp add: feasible_def)
        let ?rows = "Some (witness_rows (sx_tokenAt ctx) st2)"
        have "scratch_inv (sx_tokenAt ctx) st2"
          using inv(1) k1 by (simp add: scratch_inv_def keeps_def same_scratch_def)
        moreover have "\<forall>c \<in> set S. valid_crossable c \<and> indexed (sx_tokenAt ctx) c"
          using ix bk subseq_set [OF sel(2)] by (auto simp: bucket_ok_def)
        ultimately have "rows_of S ?rows" using st2(4) by (intro witness_rows_of) simp_all
        from offer_selected [OF st2(2) _ sel(2-4) st2(3) fe _ _ this] st2(4) nets
        have o: "keeps bucket n ctx st2 (offer_witness (- ?in) ?out ?rows st2)"
          "ctx_covered ctx (offer_witness (- ?in) ?out ?rows st2) S" by auto
        show thesis
          by (rule that [of False "offer_witness (- ?in) ?out ?rows st2"])
            (use ev False Merge_ok st2 keeps_trans [OF k1 o(1)] o(2) in \<open>auto simp: after_order_def\<close>)
      next
        case (Merge_failed failure w)
        have k2: "keeps bucket n ctx st (st2\<lparr>ss_reason := r\<rparr>)"
          "keeps bucket n ctx st (st2\<lparr>ss_unsafeMergeOrderSubsets := u\<rparr>)" for r u
          using keeps_trans [OF k1] keeps_unchanged [OF st2(2,3)] by simp_all
        show thesis
        proof (cases failure)
          case Unsafe_merge_order
          with m(2) Merge_failed have "\<not> ctx_feasible ctx S" by (simp add: feasible_def)
          with that [of False] ev False Merge_failed Unsafe_merge_order st2 k2 show thesis
            by (simp add: after_order_def)
        qed (use that [of True] ev False Merge_failed st2 k2 m(3) in \<open>auto simp: after_order_def\<close>)
      qed
    qed
  qed
qed

section \<open>The direct universe\<close>

definition all_direct :: "search_context \<Rightarrow> crossable list \<Rightarrow> bool" where
  "all_direct ctx S \<longleftrightarrow> (\<forall>c \<in> set S. cr_tokenIn c = sx_tokenIn ctx \<and> cr_tokenOut c = sx_tokenOut ctx)"

lemma direct_net:
  assumes "all_direct ctx S" "sx_tokenIn ctx \<noteq> sx_tokenOut ctx"
  shows "net S (sx_tokenIn ctx) = - requested S (sx_tokenIn ctx)"
    "net S (sx_tokenOut ctx) = offered S (sx_tokenOut ctx)"
    "t \<noteq> sx_tokenIn ctx \<Longrightarrow> t \<noteq> sx_tokenOut ctx \<Longrightarrow> net S t = 0"
  using assms by (induction S) (auto simp: net_def all_direct_def)

lemma direct_prefix_le:
  assumes "\<forall>c \<in> set (S @ S'). valid_crossable c"
  shows "requested S t \<le> requested (S @ S') t" "offered S t \<le> offered (S @ S') t"
  using requested_nonneg [of S' t] offered_nonneg [of S' t] assms by auto

lemma direct_positive:
  assumes "all_direct ctx S" "\<forall>c \<in> set S. valid_crossable c" "S \<noteq> []"
  shows "0 < requested S (sx_tokenIn ctx) \<and> 0 < offered S (sx_tokenOut ctx)"
proof (cases S)
  case (Cons c S')
  have "0 \<le> requested S' (sx_tokenIn ctx)" "0 \<le> offered S' (sx_tokenOut ctx)"
    using assms(2) Cons by (auto intro: requested_nonneg offered_nonneg)
  with assms(1,2) Cons show ?thesis by (auto simp: all_direct_def valid_crossable_def)
qed (use assms(3) in simp)

lemma direct_feasible_iff:
  assumes "all_direct ctx S" "sx_tokenIn ctx \<noteq> sx_tokenOut ctx" "\<forall>c \<in> set S. valid_crossable c" "S \<noteq> []"
  shows "ctx_feasible ctx S \<longleftrightarrow>
    requested S (sx_tokenIn ctx) \<le> MAX_SETTLEMENT_AMOUNT \<and> offered S (sx_tokenOut ctx) \<le> MAX_SETTLEMENT_AMOUNT"
proof
  assume "ctx_feasible ctx S"
  then have "\<bar>net S t\<bar> \<le> MAX_SETTLEMENT_AMOUNT" for t by (simp add: feasible_def fillable_def)
  from this [of "sx_tokenIn ctx"] this [of "sx_tokenOut ctx"]
  show "requested S (sx_tokenIn ctx) \<le> MAX_SETTLEMENT_AMOUNT \<and> offered S (sx_tokenOut ctx) \<le> MAX_SETTLEMENT_AMOUNT"
    by (auto simp: direct_net [OF assms(1,2)] dest: abs_le_D1)
next
  assume le: "requested S (sx_tokenIn ctx) \<le> MAX_SETTLEMENT_AMOUNT \<and> offered S (sx_tokenOut ctx) \<le> MAX_SETTLEMENT_AMOUNT"
  have bound: "within_settlement (net (take k S) t)" for k t
  proof -
    have d: "all_direct ctx (take k S)" using assms(1) by (auto simp: all_direct_def dest: in_set_takeD)
    have v: "\<forall>c \<in> set (take k S @ drop k S). valid_crossable c" using assms(3) by simp
    have v': "\<forall>c \<in> set (take k S). valid_crossable c" using assms(3) by (auto dest: in_set_takeD)
    have m: "0 \<le> MAX_SETTLEMENT_AMOUNT" by (simp add: MAX_SETTLEMENT_AMOUNT_def)
    from direct_prefix_le [OF v, of "sx_tokenIn ctx"] direct_prefix_le [OF v, of "sx_tokenOut ctx"] le
    have "requested (take k S) (sx_tokenIn ctx) \<le> MAX_SETTLEMENT_AMOUNT"
      "offered (take k S) (sx_tokenOut ctx) \<le> MAX_SETTLEMENT_AMOUNT" by simp_all
    with direct_net [OF d assms(2)] requested_nonneg [OF v'] offered_nonneg [OF v'] m show ?thesis
      unfolding within_settlement_abs by (cases "t = sx_tokenIn ctx"; cases "t = sx_tokenOut ctx") auto
  qed
  then have "prefix_ok S" by (simp add: prefix_ok_def)
  with assms(3) have "mergeable S" by (simp add: prefix_ok_mergeable)
  moreover have "fillable (net S) (sx_tokenIn ctx) (sx_tokenOut ctx)"
    unfolding fillable_def
  proof (intro conjI allI impI)
    show "sx_tokenIn ctx \<noteq> sx_tokenOut ctx" by (rule assms(2))
    show "net S (sx_tokenIn ctx) < 0" "0 < net S (sx_tokenOut ctx)"
      using direct_positive [OF assms(1,3,4)] by (simp_all add: direct_net [OF assms(1,2)])
    show "0 \<le> net S t" if "t \<noteq> sx_tokenIn ctx" for t
      using that direct_positive [OF assms(1,3,4)] direct_net [OF assms(1,2)]
      by (cases "t = sx_tokenOut ctx") auto
    show "\<bar>net S t\<bar> \<le> MAX_SETTLEMENT_AMOUNT" for t
      using bound [of "length S" t] by (simp add: within_settlement_abs)
  qed
  ultimately show "ctx_feasible ctx S" by (simp add: feasible_def)
qed

section \<open>The whole enumeration\<close>

lemma enter_subset_facts:
  shows "same_scratch st (enter_subset ctx st)" "ss_exact (enter_subset ctx st) = ss_exact st"
    "budget_ok ctx st \<Longrightarrow> budget_ok ctx (enter_subset ctx st)"
  by (auto simp: enter_subset_def Let_def same_scratch_def budget_ok_def split: prod.splits if_splits)

definition visit_pre :: "search_context \<Rightarrow> crossable list \<Rightarrow> nat \<Rightarrow> int \<Rightarrow> int \<Rightarrow> bool \<Rightarrow> search_state \<Rightarrow> bool" where
  "visit_pre ctx bucket n directInput directOutput prefixSafe st \<longleftrightarrow>
     length (ss_selected st) < n \<and> budget_ok ctx st \<and> ctx_exact_inv bucket n ctx st
     \<and> (if sx_direct ctx then all_direct ctx bucket
          \<and> directInput = requested (ss_selected st) (sx_tokenIn ctx)
          \<and> directOutput = offered (ss_selected st) (sx_tokenOut ctx)
        else scratch_inv (sx_tokenAt ctx) st \<and> (prefixSafe \<longleftrightarrow> prefix_ok (ss_selected st)))"

definition visit_post :: "search_context \<Rightarrow> crossable list \<Rightarrow> nat \<Rightarrow> crossable list \<Rightarrow> search_state \<Rightarrow> search_state result \<Rightarrow> bool" where
  "visit_post ctx bucket n rest st r \<longleftrightarrow> (\<exists>st'. r = Inr st' \<and> keeps bucket n ctx st st'
     \<and> (ss_reason st \<noteq> None \<longrightarrow> ss_reason st' \<noteq> None)
     \<and> (ss_reason st' = None \<longrightarrow> (\<forall>S. subseq S rest \<and> S \<noteq> [] \<and> length (ss_selected st @ S) \<le> n
          \<and> ctx_feasible ctx (ss_selected st @ S) \<longrightarrow> ctx_covered ctx st' (ss_selected st @ S))))"

lemma visit_pre_cong:
  assumes "visit_pre ctx bucket n di dd ps st" "keeps bucket n ctx st st'"
  shows "visit_pre ctx bucket n di dd ps st'"
proof -
  from assms(2) have "same_scratch st st'" by (simp add: keeps_def)
  then have "scratch_inv (sx_tokenAt ctx) st' \<longleftrightarrow> scratch_inv (sx_tokenAt ctx) st" "ss_selected st' = ss_selected st"
    by (rule same_scratch_inv) (use assms(2) in \<open>simp add: keeps_def same_scratch_def\<close>)
  with assms show ?thesis by (simp add: visit_pre_def keeps_def)
qed

text \<open>
  What remains after a candidate's branch: the loop goes on with the rest, and every set that
  starts with the candidate is already covered.
\<close>

lemma visit_post_Cons:
  assumes "keeps bucket n ctx st st4" "visit_post ctx bucket n rest st4 r"
    and "ss_reason st \<noteq> None \<Longrightarrow> ss_reason st4 \<noteq> None"
    and "\<And>S. ss_reason st4 = None \<Longrightarrow> subseq S rest \<Longrightarrow> length (ss_selected st @ c # S) \<le> n
      \<Longrightarrow> ctx_feasible ctx (ss_selected st @ c # S) \<Longrightarrow> ctx_covered ctx st4 (ss_selected st @ c # S)"
  shows "visit_post ctx bucket n (c # rest) st r"
proof -
  from assms(2) obtain st' where r: "r = Inr st'" "keeps bucket n ctx st4 st'"
    "ss_reason st4 \<noteq> None \<longrightarrow> ss_reason st' \<noteq> None"
    and cov: "ss_reason st' = None \<Longrightarrow> subseq S rest \<Longrightarrow> S \<noteq> [] \<Longrightarrow> length (ss_selected st4 @ S) \<le> n
      \<Longrightarrow> ctx_feasible ctx (ss_selected st4 @ S) \<Longrightarrow> ctx_covered ctx st' (ss_selected st4 @ S)" for S
    by (auto simp: visit_post_def)
  have sel: "ss_selected st4 = ss_selected st" using assms(1) by (simp add: keeps_def same_scratch_def)
  have "ctx_covered ctx st' (ss_selected st @ S)"
    if n: "ss_reason st' = None" and S: "subseq S (c # rest)" "S \<noteq> []" "length (ss_selected st @ S) \<le> n"
      "ctx_feasible ctx (ss_selected st @ S)" for S
  proof (cases "subseq S rest")
    case True
    with cov [OF n True] S sel show ?thesis by simp
  next
    case False
    with S(1) obtain T where T: "S = c # T" "subseq T rest"
      by (cases S) (auto split: if_splits)
    have "ss_reason st4 = None" using n r(3) by auto
    from assms(4) [OF this T(2)] S T(1) have "ctx_covered ctx st4 (ss_selected st @ S)" by simp
    with r(2) show ?thesis by (simp add: keeps_def)
  qed
  with r keeps_trans [OF assms(1) r(2)] assms(3) show ?thesis
    by (auto simp: visit_post_def)
qed

lemma visit_post_skip:
  "ss_reason st' \<noteq> None \<Longrightarrow> keeps bucket n ctx st st' \<Longrightarrow> visit_post ctx bucket n rest st (Inr st')"
  by (auto simp: visit_post_def)

lemma visit_post_start:
  assumes "keeps bucket n ctx st0 st" "ss_reason st0 = None" "visit_post ctx bucket n rest st r"
  shows "visit_post ctx bucket n rest st0 r"
proof -
  have sel: "ss_selected st = ss_selected st0" using assms(1) by (simp add: keeps_def same_scratch_def)
  from assms(3) obtain st' where r: "r = Inr st'" "keeps bucket n ctx st st'"
    "ss_reason st' = None \<longrightarrow> (\<forall>S. subseq S rest \<and> S \<noteq> [] \<and> length (ss_selected st @ S) \<le> n
          \<and> ctx_feasible ctx (ss_selected st @ S) \<longrightarrow> ctx_covered ctx st' (ss_selected st @ S))"
    by (auto simp: visit_post_def)
  with keeps_trans [OF assms(1) r(2)] sel assms(2) show ?thesis by (simp add: visit_post_def)
qed

lemma subseq_drop_mid: "subseq (P @ c # rest) bucket \<Longrightarrow> subseq (P @ rest) bucket"
  by (metis list_emb_append_mono subseq_Cons' subseq_order.order_refl subseq_order.trans subseq_Cons2_iff)

lemma subseq_first: "subseq (P @ c # rest) bucket \<Longrightarrow> subseq (P @ [c]) bucket"
proof -
  have "subseq (P @ [c]) (P @ c # rest)" by (simp add: subseq_append')
  then show "subseq (P @ c # rest) bucket \<Longrightarrow> subseq (P @ [c]) bucket"
    using subseq_order.trans by blast
qed

lemma subseq_all: "subseq (P @ c # rest) bucket \<Longrightarrow> subseq S (c # rest) \<Longrightarrow> subseq (P @ S) bucket"
proof -
  assume "subseq S (c # rest)"
  then have "subseq (P @ S) (P @ c # rest)" by (simp only: subseq_append')
  then show "subseq (P @ c # rest) bucket \<Longrightarrow> subseq (P @ S) bucket" using subseq_order.trans by blast
qed

text \<open>The branch of a direct universe.\<close>

lemma visit_direct_step:
  assumes ok: "search_ok ctx bucket n" "sx_direct ctx" "subseq (ss_selected st @ c # rest) bucket"
    and pre: "visit_pre ctx bucket n di dd ps st" and r0: "ss_reason st = None"
    and IH: "\<And>di dd ps st. subseq (ss_selected st @ rest) bucket \<Longrightarrow> visit_pre ctx bucket n di dd ps st
      \<Longrightarrow> visit_post ctx bucket n rest st (visit ctx rest di dd ps st)"
  shows "visit_post ctx bucket n (c # rest) st
    (let nextInput = di + cr_amountIn c; nextOutput = dd + cr_amountOut c
     in if nextInput > MAX_SETTLEMENT_AMOUNT \<or> nextOutput > MAX_SETTLEMENT_AMOUNT
        then visit ctx rest di dd ps (st\<lparr>ss_amountCappedSubsets := ss_amountCappedSubsets st + 1\<rparr>)
        else
          let st1 = offer_witness nextInput nextOutput None (st\<lparr>ss_selected := ss_selected st @ [c]\<rparr>)
          in bindR (if int (length (ss_selected st1)) < rl_maxMakersPerCombination (sx_limits ctx)
                    then visit ctx rest nextInput nextOutput True st1 else Inr st1) (\<lambda>st2.
               visit ctx rest di dd ps (st2\<lparr>ss_selected := butlast (ss_selected st2)\<rparr>)))"
proof -
  let ?P = "ss_selected st" and ?i = "sx_tokenIn ctx" and ?o = "sx_tokenOut ctx"
  let ?ni = "di + cr_amountIn c" and ?no = "dd + cr_amountOut c"
  from pre ok(2) have ad: "all_direct ctx bucket" and dd: "di = requested ?P ?i" "dd = offered ?P ?o"
    and b: "budget_ok ctx st" and ex: "ctx_exact_inv bucket n ctx st" and len: "length ?P < n"
    by (auto simp: visit_pre_def)
  have ne: "?i \<noteq> ?o" and nlim: "int n = rl_maxMakersPerCombination (sx_limits ctx)"
    and bk: "bucket_ok bucket" using ok(1) by (auto simp: search_ok_def)
  have inb: "set (?P @ S) \<subseteq> set bucket" if "subseq S (c # rest)" for S
    using subseq_set [OF subseq_all [OF ok(3) that]] .
  have dir: "all_direct ctx (?P @ S)" "\<forall>c \<in> set (?P @ S). valid_crossable c" if "subseq S (c # rest)" for S
    using inb [OF that] ad bk by (auto simp: all_direct_def bucket_ok_def)
  have c1: "subseq [c] (c # rest)" by simp
  have sums: "?ni = requested (?P @ [c]) ?i" "?no = offered (?P @ [c]) ?o"
    using dir(1) [OF c1] by (auto simp: dd all_direct_def)
  have drop: "subseq (?P @ rest) bucket" by (rule subseq_drop_mid [OF ok(3)])
  show ?thesis
  proof (cases "?ni > MAX_SETTLEMENT_AMOUNT \<or> ?no > MAX_SETTLEMENT_AMOUNT")
    case True
    let ?st = "st\<lparr>ss_amountCappedSubsets := ss_amountCappedSubsets st + 1\<rparr>"
    have k: "keeps bucket n ctx st ?st" by (rule keeps_unchanged [OF ex b]) simp_all
    have inf: "\<not> ctx_feasible ctx (?P @ c # S)" if "subseq S rest" for S
    proof -
      have s: "subseq (c # S) (c # rest)" using that by simp
      have "\<forall>d \<in> set ((?P @ [c]) @ S). valid_crossable d" using dir(2) [OF s] by simp
      from direct_prefix_le [OF this, of ?i] direct_prefix_le [OF this, of ?o]
      have "requested (?P @ [c]) ?i \<le> requested ((?P @ [c]) @ S) ?i" "offered (?P @ [c]) ?o \<le> offered ((?P @ [c]) @ S) ?o"
        by simp_all
      with True sums direct_feasible_iff [OF dir(1) [OF s] ne dir(2) [OF s]] show ?thesis by auto
    qed
    have "visit_post ctx bucket n rest ?st (visit ctx rest di dd ps ?st)"
      by (rule IH) (use drop visit_pre_cong [OF pre k] in simp_all)
    then have "visit_post ctx bucket n (c # rest) st (visit ctx rest di dd ps ?st)"
      by (rule visit_post_Cons [OF k]) (use inf r0 in auto)
    with True show ?thesis by (simp add: Let_def)
  next
    case False
    let ?s = "st\<lparr>ss_selected := ?P @ [c]\<rparr>"
    let ?s1 = "offer_witness ?ni ?no None ?s"
    have fe: "ctx_feasible ctx (?P @ [c])"
      using False sums direct_feasible_iff [OF dir(1) [OF c1] ne dir(2) [OF c1]] by auto
    have net: "?ni = - net (?P @ [c]) ?i" "?no = net (?P @ [c]) ?o"
      using direct_net [OF dir(1) [OF c1] ne] sums by simp_all
    have s: "ctx_exact_inv bucket n ctx ?s" "budget_ok ctx ?s" using ex b by (simp_all add: budget_ok_def)
    have o: "keeps bucket n ctx ?s ?s1" "ctx_covered ctx ?s1 (?P @ [c])"
      using offer_selected [OF s(1) _ subseq_first [OF ok(3)] _ _ s(2) fe net, of None] len
      by (simp_all add: rows_of_def)
    have s1: "ss_selected ?s1 = ?P @ [c]" "ss_reason ?s1 = None" using r0 by simp_all
    obtain st2 where st2: "(if int (length (ss_selected ?s1)) < rl_maxMakersPerCombination (sx_limits ctx)
          then visit ctx rest ?ni ?no True ?s1 else Inr ?s1) = Inr st2"
      and k2: "keeps bucket n ctx ?s1 st2"
      and cov: "\<And>S. ss_reason st2 = None \<Longrightarrow> subseq S rest \<Longrightarrow> S \<noteq> [] \<Longrightarrow> length (?P @ c # S) \<le> n
        \<Longrightarrow> ctx_feasible ctx (?P @ c # S) \<Longrightarrow> ctx_covered ctx st2 (?P @ c # S)"
    proof (cases "length (?P @ [c]) < n")
      case True
      have "visit_pre ctx bucket n ?ni ?no True ?s1"
        using True o(1) ok(2) ad sums s1 by (auto simp: visit_pre_def keeps_def)
      with ok(3) s1 have "visit_post ctx bucket n rest ?s1 (visit ctx rest ?ni ?no True ?s1)"
        by (intro IH) simp_all
      with that True s1 nlim show thesis by (auto simp: visit_post_def)
    next
      case False
      have k: "keeps bucket n ctx ?s1 ?s1" using o(1) by (simp add: keeps_def)
      show thesis
        by (rule that [of ?s1]) (use False s1 nlim k in \<open>auto simp: neq_Nil_conv\<close>)
    qed
    let ?st4 = "st2\<lparr>ss_selected := butlast (ss_selected st2)\<rparr>"
    have k4: "keeps bucket n ctx st ?st4"
      using keeps_trans [OF o(1) k2] by (auto simp: keeps_def same_scratch_def budget_ok_def)
    have "visit_post ctx bucket n rest ?st4 (visit ctx rest di dd ps ?st4)"
      by (rule IH) (use drop visit_pre_cong [OF pre k4] k4 in \<open>simp_all add: keeps_def same_scratch_def\<close>)
    moreover have "ctx_covered ctx ?st4 (?P @ c # S)"
      if "ss_reason ?st4 = None" "subseq S rest" "length (?P @ c # S) \<le> n" "ctx_feasible ctx (?P @ c # S)" for S
    proof (cases "S = []")
      case True
      with o(2) k2 show ?thesis by (simp add: keeps_def)
    qed (use cov that in simp)
    ultimately show ?thesis
      using visit_post_Cons [OF k4, of rest _ c] st2 False r0 by (simp add: Let_def)
  qed
qed

text \<open>The branch of a composed universe.\<close>

lemma visit_composed_step:
  assumes ok: "search_ok ctx bucket n" "\<not> sx_direct ctx" "subseq (ss_selected st @ c # rest) bucket"
    and pre: "visit_pre ctx bucket n di dd ps st" and r0: "ss_reason st = None"
    and IH: "\<And>di dd ps st. subseq (ss_selected st @ rest) bucket \<Longrightarrow> visit_pre ctx bucket n di dd ps st
      \<Longrightarrow> visit_post ctx bucket n rest st (visit ctx rest di dd ps st)"
  shows "visit_post ctx bucket n (c # rest) st
    (let st1 = push_candidate c st; nextSafe = next_prefix_safe c ps st1
     in bindR (evaluate_selection ctx nextSafe st1) (\<lambda>(stopped, st2).
        bindR (if \<not> stopped \<and> int (length (ss_selected st2)) < rl_maxMakersPerCombination (sx_limits ctx)
               then visit ctx rest 0 0 nextSafe st2 else Inr st2) (\<lambda>st3.
        bindR (rollback c st st3) (\<lambda>st4. visit ctx rest di dd ps st4))))"
proof -
  let ?P = "ss_selected st" and ?ta = "sx_tokenAt ctx"
  from pre ok(2) have inv: "scratch_inv ?ta st" "ps \<longleftrightarrow> prefix_ok ?P"
    and b: "budget_ok ctx st" and ex: "ctx_exact_inv bucket n ctx st" and len: "length ?P < n"
    by (auto simp: visit_pre_def)
  have nlim: "int n = rl_maxMakersPerCombination (sx_limits ctx)" and bk: "bucket_ok bucket"
    and ta: "distinct ?ta" and ix: "\<forall>d \<in> set bucket. indexed ?ta d"
    using ok(1) by (auto simp: search_ok_def)
  have "set (?P @ c # rest) \<subseteq> set bucket" by (rule subseq_set [OF ok(3)])
  then have vP: "\<forall>d \<in> set ?P. valid_crossable d \<and> indexed ?ta d" and vc: "valid_crossable c" "indexed ?ta c"
    using bk ix by (auto simp: bucket_ok_def)
  let ?s1 = "push_candidate c st"
  have i1: "scratch_inv ?ta ?s1" by (rule push_candidate_inv [OF inv(1) vP vc ta])
  have rc: "in_range ?ta (cr_tokenInIndex c) (cr_tokenIn c)" "in_range ?ta (cr_tokenOutIndex c) (cr_tokenOut c)"
    using vc(2) by (auto simp: indexed_def)
  have nidx: "cr_tokenInIndex c \<noteq> cr_tokenOutIndex c"
    using in_range_inj [OF ta rc] vc(1) by (auto simp: valid_crossable_def)
  let ?ns = "next_prefix_safe c ps ?s1"
  have ns: "?ns \<longleftrightarrow> prefix_ok (?P @ [c])"
    using prefix_ok_snoc [OF vc(1), of ?P] i1 rc inv(2) by (auto simp: next_prefix_safe_def scratch_inv_def)
  have s1: "ss_selected ?s1 = ?P @ [c]" "budget_ok ctx ?s1" "ctx_exact_inv bucket n ctx ?s1" "ss_reason ?s1 = None"
    using b ex r0 by (simp_all add: budget_ok_def)
  have drop: "subseq (?P @ rest) bucket" by (rule subseq_drop_mid [OF ok(3)])
  obtain stopped st2 where ev: "evaluate_selection ctx ?ns ?s1 = Inr (stopped, st2)"
    and k2: "keeps bucket n ctx ?s1 st2" and stop: "stopped \<Longrightarrow> ss_reason st2 \<noteq> None"
    and go: "\<not> stopped \<Longrightarrow> ss_reason st2 = None" "\<not> stopped \<Longrightarrow> ctx_feasible ctx (?P @ [c]) \<Longrightarrow> ctx_covered ctx st2 (?P @ [c])"
    by (rule evaluate_selection_spec [OF ok(1) s1(1) [symmetric] subseq_first [OF ok(3)] _ _ i1 ns s1(2-4)])
      (use len in auto)
  have sel2: "ss_selected st2 = ?P @ [c]" using k2 s1(1) by (simp add: keeps_def same_scratch_def)
  obtain st3 where st3: "(if \<not> stopped \<and> int (length (ss_selected st2)) < rl_maxMakersPerCombination (sx_limits ctx)
          then visit ctx rest 0 0 ?ns st2 else Inr st2) = Inr st3"
    and k3: "keeps bucket n ctx st2 st3" and r3: "ss_reason st2 \<noteq> None \<Longrightarrow> ss_reason st3 \<noteq> None"
    and cov: "\<And>S. ss_reason st3 = None \<Longrightarrow> subseq S rest \<Longrightarrow> S \<noteq> [] \<Longrightarrow> length (?P @ c # S) \<le> n
        \<Longrightarrow> ctx_feasible ctx (?P @ c # S) \<Longrightarrow> ctx_covered ctx st3 (?P @ c # S)"
  proof (cases "\<not> stopped \<and> length (?P @ [c]) < n")
    case True
    have "scratch_inv ?ta st2" using k2 i1 same_scratch_inv [of ?s1 st2] by (simp add: keeps_def)
    then have "visit_pre ctx bucket n 0 0 ?ns st2"
      using True ok(2) k2 sel2 ns by (auto simp: visit_pre_def keeps_def)
    with ok(3) sel2 have "visit_post ctx bucket n rest st2 (visit ctx rest 0 0 ?ns st2)"
      by (intro IH) simp_all
    with that True sel2 nlim show thesis by (auto simp: visit_post_def)
  next
    case False
    have k: "keeps bucket n ctx st2 st2" using k2 by (simp add: keeps_def)
    show thesis
      by (rule that [of st2]) (use False sel2 nlim k stop in \<open>auto simp: neq_Nil_conv\<close>)
  qed
  have "same_scratch ?s1 st3" using keeps_trans [OF k2 k3] by (simp add: keeps_def)
  from rollback_restores [OF this nidx] obtain st4 where st4: "rollback c st st3 = Inr st4"
    "same_scratch st st4" "ss_exact st4 = ss_exact st3" "ss_reason st4 = ss_reason st3" "ss_diag st4 = ss_diag st3"
    by blast
  have k4: "keeps bucket n ctx st st4"
    using keeps_trans [OF k2 k3] st4 by (auto simp: keeps_def budget_ok_def)
  have post: "visit_post ctx bucket n rest st4 (visit ctx rest di dd ps st4)"
    by (rule IH) (use drop visit_pre_cong [OF pre k4] k4 in \<open>simp_all add: keeps_def same_scratch_def\<close>)
  have "ctx_covered ctx st4 (?P @ c # S)"
    if n: "ss_reason st4 = None" and S: "subseq S rest" "length (?P @ c # S) \<le> n" "ctx_feasible ctx (?P @ c # S)" for S
  proof -
    have ns: "\<not> stopped" using stop r3 n st4(4) by auto
    show ?thesis
    proof (cases "S = []")
      case True
      with S(3) go(2) [OF ns] k3 st4(3) show ?thesis by (simp add: keeps_def)
    qed (use cov [of S] n S st4 in simp)
  qed
  with visit_post_Cons [OF k4 post] r0
  have "visit_post ctx bucket n (c # rest) st (visit ctx rest di dd ps st4)" by auto
  with ev st3 st4(1) show ?thesis by (simp add: Let_def)
qed

lemma visit_spec:
  assumes "search_ok ctx bucket n" "subseq (ss_selected st @ rest) bucket" "visit_pre ctx bucket n di dd ps st"
  shows "visit_post ctx bucket n rest st (visit ctx rest di dd ps st)"
  using assms(2,3)
proof (induction rest arbitrary: di dd ps st)
  case Nil
  then have "keeps bucket n ctx st st" by (simp add: keeps_def visit_pre_def)
  then show ?case by (auto simp: visit_post_def)
next
  case (Cons c rest di dd ps st)
  show ?case
  proof (cases "ss_reason st = None")
    case False
    from Cons.prems(2) have "keeps bucket n ctx st st" by (simp add: keeps_def visit_pre_def)
    with False visit_post_skip [of st bucket n ctx st "c # rest"] show ?thesis by simp
  next
    case True
    let ?st = "enter_subset ctx st"
    have k: "keeps bucket n ctx st ?st"
      using enter_subset_facts [where st = st and ctx = ctx] Cons.prems(2) by (auto simp: keeps_def visit_pre_def)
    have sel: "ss_selected ?st = ss_selected st" using k by (simp add: keeps_def same_scratch_def)
    show ?thesis
    proof (cases "ss_reason ?st = None")
      case False
      from visit_post_skip [OF False k] False True show ?thesis by simp
    next
      case r: True
      have pre: "visit_pre ctx bucket n di dd ps ?st" by (rule visit_pre_cong [OF Cons.prems(2) k])
      have sub: "subseq (ss_selected ?st @ c # rest) bucket" using Cons.prems(1) sel by simp
      have "visit_post ctx bucket n (c # rest) ?st (visit ctx (c # rest) di dd ps st)"
      proof (cases "sx_direct ctx")
        case d: True
        from visit_direct_step [OF assms(1) d sub pre r Cons.IH] True r d show ?thesis
          by (simp add: Let_def)
      next
        case d: False
        from visit_composed_step [OF assms(1) d sub pre r Cons.IH] True r d show ?thesis
          by (simp add: Let_def)
      qed
      from visit_post_start [OF k True this] show ?thesis .
    qed
  qed
qed

text \<open>The search of a pair: total, sound, complete, and the shared scratch is handed back clean.\<close>

definition empty_scratch :: "string list \<Rightarrow> pair_search_scratch \<Rightarrow> bool" where
  "empty_scratch tokenAt s \<longleftrightarrow> px_active s = [] \<and> px_selected s = []
     \<and> (\<forall>i t. in_range tokenAt i t \<longrightarrow> or_zero (px_gives s i) = 0 \<and> or_zero (px_wants s i) = 0
          \<and> or_zero (px_nets s i) = 0)"

lemma enumeratePair_spec:
  assumes bk: "bucket_ok bucket" and ne: "tokenIn \<noteq> tokenOut"
    and n: "int n = rl_maxMakersPerCombination limits" "1 \<le> n" "n \<le> 8"
    and ta: "distinct tokenAt" "\<forall>c \<in> set bucket. indexed tokenAt c"
      "in_range tokenAt tokenInIndex tokenIn" "in_range tokenAt tokenOutIndex tokenOut"
    and scr: "empty_scratch tokenAt scratch"
    and bud: "dg_discoveryWork d \<le> bc_maxDiscoveryWork budget"
  obtains r d' where
    "enumeratePair bucket tokenIn tokenOut tokenInIndex tokenOutIndex tokenAt scratch limits budget d
       = Inr (r, scratch, d')"
    "exact_inv bucket tokenIn tokenOut n (sr_exact r)" "dg_discoveryWork d' \<le> bc_maxDiscoveryWork budget"
    "\<And>S. sr_reason r = None \<Longrightarrow> subseq S bucket \<Longrightarrow> S \<noteq> [] \<Longrightarrow> length S \<le> n \<Longrightarrow> feasible tokenIn tokenOut S
       \<Longrightarrow> covered tokenIn tokenOut (sr_exact r) S"
proof -
  let ?ctx = "\<lparr>sx_tokenIn = tokenIn, sx_tokenOut = tokenOut, sx_tokenInIndex = tokenInIndex,
                   sx_tokenOutIndex = tokenOutIndex, sx_tokenAt = tokenAt, sx_limits = limits,
                   sx_budget = budget,
                   sx_direct = list_all (\<lambda>e. cr_tokenIn e = tokenIn \<and> cr_tokenOut e = tokenOut) bucket\<rparr>"
  let ?st0 = "\<lparr>ss_exact = [], ss_visitedSubsets = 0, ss_amountCappedSubsets = 0, ss_safeMergeOrderWork = 0,
                   ss_unsafeMergeOrderSubsets = 0, ss_reason = None, ss_gives = px_gives scratch,
                   ss_wants = px_wants scratch, ss_nets = px_nets scratch, ss_active = px_active scratch,
                   ss_selected = px_selected scratch, ss_diag = d\<rparr>"
  have e: "px_active scratch = []" "px_selected scratch = []" using scr by (auto simp: empty_scratch_def)
  have "search_ok ?ctx bucket n" using bk ne n ta by (simp add: search_ok_def)
  moreover have "subseq (ss_selected ?st0 @ bucket) bucket" by (simp add: e)
  moreover have "scratch_inv tokenAt ?st0"
    using scr by (auto simp: scratch_inv_def empty_scratch_def touches_def net_def)
  then have "visit_pre ?ctx bucket n 0 0 True ?st0"
    using n(2) bud
    by (simp add: visit_pre_def e budget_ok_def exact_inv_def all_direct_def list_all_iff prefix_ok_def
        within_settlement_def net_def MAX_SETTLEMENT_AMOUNT_def)
  ultimately have "visit_post ?ctx bucket n bucket ?st0 (visit ?ctx bucket 0 0 True ?st0)"
    by (rule visit_spec)
  then obtain st' where v: "visit ?ctx bucket 0 0 True ?st0 = Inr st'" and k: "keeps bucket n ?ctx ?st0 st'"
    and cov: "ss_reason st' = None \<longrightarrow> (\<forall>S. subseq S bucket \<and> S \<noteq> [] \<and> length S \<le> n
          \<and> feasible tokenIn tokenOut S \<longrightarrow> covered tokenIn tokenOut (ss_exact st') S)"
    by (auto simp: visit_post_def e)
  have "enumeratePair bucket tokenIn tokenOut tokenInIndex tokenOutIndex tokenAt scratch limits budget d
     = Inr (\<lparr>sr_exact = ss_exact st', sr_visitedSubsets = ss_visitedSubsets st',
                sr_amountCappedSubsets = ss_amountCappedSubsets st',
                sr_safeMergeOrderWork = ss_safeMergeOrderWork st',
                sr_unsafeMergeOrderSubsets = ss_unsafeMergeOrderSubsets st', sr_reason = ss_reason st'\<rparr>,
            scratch, ss_diag st')"
    using v k e by (simp add: enumeratePair_def keeps_def same_scratch_def)
  from that [OF this] k cov show thesis by (simp add: keeps_def budget_ok_def)
qed

section \<open>The optimum of a pair\<close>

text \<open>
  What a budget can buy from a universe: the best net supply of the output token over all
  feasible maker sets within the maker limit whose required input is within the budget.
\<close>

definition maker_sets :: "crossable list \<Rightarrow> string \<Rightarrow> string \<Rightarrow> nat \<Rightarrow> int \<Rightarrow> crossable list set" where
  "maker_sets bucket tokenIn tokenOut n x = {S. subseq S bucket \<and> S \<noteq> [] \<and> length S \<le> n
     \<and> feasible tokenIn tokenOut S \<and> - net S tokenIn \<le> x}"

definition best_payout :: "crossable list \<Rightarrow> string \<Rightarrow> string \<Rightarrow> nat \<Rightarrow> int \<Rightarrow> int" where
  "best_payout bucket tokenIn tokenOut n x =
     Max (insert 0 ((\<lambda>S. net S tokenOut) ` maker_sets bucket tokenIn tokenOut n x))"

lemma finite_maker_sets: "finite (maker_sets bucket tokenIn tokenOut n x)"
  by (rule finite_subset [of _ "set (subseqs bucket)"]) (auto simp: maker_sets_def)

lemma exact_inv_ok: "exact_inv bucket tokenIn tokenOut n exact \<Longrightarrow> exact_ok exact"
proof -
  assume e: "exact_inv bucket tokenIn tokenOut n exact"
  then have d: "distinct (map fst exact)" by (simp add: exact_inv_def)
  have "k = bigint_to_string (cs_input c) \<and> valid_combination c" if "(k, c) \<in> set exact" for k c
  proof -
    have "map_of exact k = Some c" using that d by simp
    with e have k: "k = bigint_to_string (cs_input c)" and "witnessed bucket tokenIn tokenOut n c"
      by (auto simp: exact_inv_def)
    then obtain S where S: "fillable (net S) tokenIn tokenOut" "cs_input c = - net S tokenIn" "cs_output c = net S tokenOut"
      by (auto simp: witnessed_def feasible_def)
    then have b: "\<bar>net S t\<bar> \<le> MAX_SETTLEMENT_AMOUNT" for t by (simp add: fillable_def)
    have "- net S tokenIn \<le> MAX_SETTLEMENT_AMOUNT" "net S tokenOut \<le> MAX_SETTLEMENT_AMOUNT"
      using b [of tokenIn] b [of tokenOut] by linarith+
    moreover have "net S tokenIn < 0" "0 < net S tokenOut" using S(1) by (simp_all add: fillable_def)
    ultimately show ?thesis using k S(2,3) by (simp add: valid_combination_def)
  qed
  with d show ?thesis by (auto simp: exact_ok_def)
qed

lemma best_output_optimum:
  assumes inv: "exact_inv bucket tokenIn tokenOut n exact"
    and cov: "\<And>S. subseq S bucket \<Longrightarrow> S \<noteq> [] \<Longrightarrow> length S \<le> n \<Longrightarrow> feasible tokenIn tokenOut S
       \<Longrightarrow> covered tokenIn tokenOut exact S"
  shows "best_output (map snd exact) x = best_payout bucket tokenIn tokenOut n x"
proof (rule antisym)
  let ?A = "insert 0 (cs_output ` {c \<in> set (map snd exact). cs_input c \<le> x})"
  let ?B = "insert 0 ((\<lambda>S. net S tokenOut) ` maker_sets bucket tokenIn tokenOut n x)"
  have fin: "finite ?A" "finite ?B" using finite_maker_sets by auto
  have d: "distinct (map fst exact)" using inv by (simp add: exact_inv_def)
  have "a \<in> ?B" if a: "a \<in> ?A" for a
  proof (cases "a = 0")
    case False
    with a obtain k c where c: "(k, c) \<in> set exact" "cs_input c \<le> x" "a = cs_output c" by auto
    then have "witnessed bucket tokenIn tokenOut n c" using inv d by (auto simp: exact_inv_def)
    with c show ?thesis by (auto simp: witnessed_def maker_sets_def image_iff)
  qed simp
  then have "?A \<subseteq> ?B" by blast
  then show "best_output (map snd exact) x \<le> best_payout bucket tokenIn tokenOut n x"
    unfolding best_from_def best_payout_def by (intro Max_mono fin(2)) auto
  have "\<exists>a \<in> ?A. v \<le> a" if v: "v \<in> ?B" for v
  proof (cases "v = 0")
    case False
    with v obtain S where S: "S \<in> maker_sets bucket tokenIn tokenOut n x" "v = net S tokenOut" by auto
    with cov obtain c where c: "map_of exact (bigint_to_string (- net S tokenIn)) = Some c" "v \<le> cs_output c"
      by (auto simp: maker_sets_def covered_def)
    then have "bigint_to_string (- net S tokenIn) = bigint_to_string (cs_input c)"
      using inv unfolding exact_inv_def by blast
    then have "cs_input c = - net S tokenIn" unfolding bigint_to_string_inj by simp
    moreover have "c \<in> set (map snd exact)" using map_of_SomeD [OF c(1)] by force
    ultimately have "cs_output c \<in> ?A" using S(1) by (auto simp: maker_sets_def)
    with c(2) show ?thesis by blast
  qed auto
  then show "best_payout bucket tokenIn tokenOut n x \<le> best_output (map snd exact) x"
    unfolding best_from_def best_payout_def using fin
    by (metis (no_types, lifting) Max_ge Max_in insert_not_empty order_trans)
qed

section \<open>Properties\<close>

text \<open>A pair search's inputs as \<open>deriveLadder\<close> prepares them.\<close>

definition search_inputs ::
    "crossable list \<Rightarrow> string \<Rightarrow> string \<Rightarrow> int \<Rightarrow> int \<Rightarrow> string list \<Rightarrow> pair_search_scratch \<Rightarrow> nat \<Rightarrow> bool" where
  "search_inputs bucket tokenIn tokenOut tokenInIndex tokenOutIndex tokenAt scratch n \<longleftrightarrow>
     bucket_ok bucket \<and> tokenIn \<noteq> tokenOut \<and> 1 \<le> n \<and> n \<le> 8 \<and> distinct tokenAt
     \<and> (\<forall>c \<in> set bucket. indexed tokenAt c) \<and> in_range tokenAt tokenInIndex tokenIn
     \<and> in_range tokenAt tokenOutIndex tokenOut \<and> empty_scratch tokenAt scratch"

text \<open>
  The search of a pair never throws and hands back the shared scratch arrays
  exactly as it got them, whatever the budget, the limits and the abort callback do; every
  combination it reports is the input and output of an actual set of at most \<open>n\<close> makers that can be
  merged safely; and when it was not cut short, every feasible set of makers is matched by an
  entry with the same input and at least its output. The work charged stays within the budget.
\<close>

theorem enumeratePair_exhaustive:
  assumes "search_inputs bucket tokenIn tokenOut tokenInIndex tokenOutIndex tokenAt scratch n"
    and "int n = rl_maxMakersPerCombination limits"
    and "dg_discoveryWork d \<le> bc_maxDiscoveryWork budget"
  shows "\<exists>r d'. enumeratePair bucket tokenIn tokenOut tokenInIndex tokenOutIndex tokenAt scratch limits budget d
       = Inr (r, scratch, d')
     \<and> exact_inv bucket tokenIn tokenOut n (sr_exact r) \<and> dg_discoveryWork d' \<le> bc_maxDiscoveryWork budget
     \<and> (sr_reason r = None \<longrightarrow> (\<forall>S \<in> set (subseqs bucket). S \<noteq> [] \<and> length S \<le> n \<and> feasible tokenIn tokenOut S
          \<longrightarrow> covered tokenIn tokenOut (sr_exact r) S))"
proof -
  obtain r d' where "enumeratePair bucket tokenIn tokenOut tokenInIndex tokenOutIndex tokenAt scratch limits budget d
       = Inr (r, scratch, d')"
    "exact_inv bucket tokenIn tokenOut n (sr_exact r)" "dg_discoveryWork d' \<le> bc_maxDiscoveryWork budget"
    "\<And>S. sr_reason r = None \<Longrightarrow> subseq S bucket \<Longrightarrow> S \<noteq> [] \<Longrightarrow> length S \<le> n \<Longrightarrow> feasible tokenIn tokenOut S
       \<Longrightarrow> covered tokenIn tokenOut (sr_exact r) S"
    by (rule enumeratePair_spec [of bucket tokenIn tokenOut n limits tokenAt tokenInIndex tokenOutIndex scratch d budget])
      (use assms in \<open>auto simp: search_inputs_def\<close>)
  then show ?thesis by (intro exI [of _ r] exI [of _ d']) auto
qed

text \<open>
  C5: the published ladder of a pair is optimal. When the search was not cut short,
  the relay's quote for any amount between the first published threshold and the terminal input is
  the best net output that any feasible set of at most \<open>n\<close> makers gives for that amount, taken over
  all subsets of the universe; outside that range the relay refuses to quote.
\<close>

theorem derived_ladder_optimal:
  assumes "search_inputs bucket tokenIn tokenOut tokenInIndex tokenOutIndex tokenAt scratch n"
    and "int n = rl_maxMakersPerCombination limits"
    and "dg_discoveryWork d \<le> bc_maxDiscoveryWork budget"
    and "enumeratePair bucket tokenIn tokenOut tokenInIndex tokenOutIndex tokenAt scratch limits budget d
       = Inr (r, scratch', d')" "sr_reason r = None"
    and "bestOutputFrontier comparisons (sr_exact r) cb polls = ((frontier, None), polls')"
    and "longestEncodableFrontier (apply_minimum minimum frontier) maxWire tokenIn tokenOut = Inr (Some e, reasons)"
    and "maxWire \<le> 64"
  shows "relay_interpolateQuote (ef_levels e) x =
     Inr (if cs_input (hd (apply_minimum minimum frontier)) \<le> x \<and> x \<le> ef_terminalInput e
          then Some (best_payout bucket tokenIn tokenOut n x) else None)"
proof -
  obtain r0 d0 where "enumeratePair bucket tokenIn tokenOut tokenInIndex tokenOutIndex tokenAt scratch limits budget d
       = Inr (r0, scratch, d0)"
    and "exact_inv bucket tokenIn tokenOut n (sr_exact r0)" "dg_discoveryWork d0 \<le> bc_maxDiscoveryWork budget"
    and "\<And>S. sr_reason r0 = None \<Longrightarrow> subseq S bucket \<Longrightarrow> S \<noteq> [] \<Longrightarrow> length S \<le> n \<Longrightarrow> feasible tokenIn tokenOut S
       \<Longrightarrow> covered tokenIn tokenOut (sr_exact r0) S"
    by (rule enumeratePair_spec [of bucket tokenIn tokenOut n limits tokenAt tokenInIndex tokenOutIndex scratch d budget])
      (use assms(1-3) in \<open>auto simp: search_inputs_def\<close>)
  with assms(4,5) have inv: "exact_inv bucket tokenIn tokenOut n (sr_exact r)"
    and cov: "\<And>S. subseq S bucket \<Longrightarrow> S \<noteq> [] \<Longrightarrow> length S \<le> n \<Longrightarrow> feasible tokenIn tokenOut S
       \<Longrightarrow> covered tokenIn tokenOut (sr_exact r) S" by auto
  obtain k e0 where k: "encodePrefix (apply_minimum minimum frontier) k maxWire tokenIn tokenOut = Inr (Inr e0)"
    "frontier_ok (apply_minimum minimum frontier)" "ef_levels e = ef_levels e0" "ef_terminalInput e = ef_terminalInput e0"
    and best: "\<And>x. cs_input (hd (apply_minimum minimum frontier)) \<le> x \<Longrightarrow>
       best_output (apply_minimum minimum frontier) x = best_output (map snd (sr_exact r)) x"
    using pipeline_encoded [OF exact_inv_ok [OF inv] assms(6-8)] by metis
  with relay_quoter.quote_encoded [OF k(1,2) assms(8), of x] best_output_optimum [OF inv cov, of x]
  show ?thesis by simp
qed

subsection \<open>Concrete inputs\<close>

definition sample_crossable :: "char \<Rightarrow> char \<Rightarrow> int \<Rightarrow> int \<Rightarrow> char \<Rightarrow> int \<Rightarrow> int \<Rightarrow> crossable" where
  "sample_crossable h i ix amountIn out ox amountOut =
     \<lparr>cr_offerHash = ident h, cr_tokenIn = ident i, cr_tokenOut = ident out, cr_tokenInIndex = ix,
      cr_tokenOutIndex = ox, cr_amountIn = amountIn, cr_amountOut = amountOut, cr_nullifiers = []\<rparr>"

text \<open>Two makers that only together sell \<open>c\<close> for \<open>a\<close>.\<close>

definition sample_bucket :: "crossable list" where
  "sample_bucket = [sample_crossable CHR ''1'' CHR ''a'' 0 10 CHR ''b'' 1 8,
                    sample_crossable CHR ''2'' CHR ''b'' 1 8 CHR ''c'' 2 5]"

definition sample_tokens :: "string list" where
  "sample_tokens = [ident CHR ''a'', ident CHR ''b'', ident CHR ''c'']"

definition clean_scratch :: pair_search_scratch where
  "clean_scratch = \<lparr>px_gives = \<lambda>_. None, px_wants = \<lambda>_. None, px_nets = \<lambda>_. None, px_active = [], px_selected = []\<rparr>"

definition sample_budget :: budget_context where
  "sample_budget = \<lparr>bc_maxDiscoveryWork = 1000, bc_globalStop = None, bc_shouldAbort = None\<rparr>"

lemma sample_inputs:
  "search_inputs sample_bucket (ident CHR ''a'') (ident CHR ''c'') 0 2 sample_tokens clean_scratch 8"
  by (simp add: search_inputs_def bucket_ok_def sample_bucket_def sample_crossable_def valid_crossable_def
      MAX_SETTLEMENT_AMOUNT_def sample_tokens_def indexed_def in_range_def empty_scratch_def clean_scratch_def)

lemma sample_makers: "int 8 = rl_maxMakersPerCombination HARD_LADDER_RESOURCE_LIMITS"
  "dg_discoveryWork (emptyDiagnostics 0) \<le> bc_maxDiscoveryWork sample_budget"
  by (simp_all add: HARD_LADDER_RESOURCE_LIMITS_def MAX_PHYSICAL_MAKERS_PER_MERGE_def emptyDiagnostics_def
      sample_budget_def)

abbreviation sample_run :: "(search_result \<times> pair_search_scratch \<times> ladder_diagnostics) result" where
  "sample_run \<equiv> enumeratePair sample_bucket (ident CHR ''a'') (ident CHR ''c'') 0 2 sample_tokens clean_scratch
     HARD_LADDER_RESOURCE_LIMITS sample_budget (emptyDiagnostics 0)"

definition sample_entry :: combination_state where
  "sample_entry = \<lparr>cs_input = 10, cs_output = 5, cs_offerHashes = [ident CHR ''1'', ident CHR ''2''],
     cs_tokenBalances = Some [\<lparr>tb_token = ident CHR ''a'', tb_gives = 0, tb_wants = 10, tb_net = -10\<rparr>,
       \<lparr>tb_token = ident CHR ''b'', tb_gives = 8, tb_wants = 8, tb_net = 0\<rparr>,
       \<lparr>tb_token = ident CHR ''c'', tb_gives = 5, tb_wants = 0, tb_net = 5\<rparr>]\<rparr>"

lemma sample_run_result:
  "case sample_run of Inr (r, _, _) \<Rightarrow> sr_exact r = [(''10'', sample_entry)] \<and> sr_reason r = None | Inl _ \<Rightarrow> False"
  by code_simp

lemma sample_run_returns:
  obtains r scratch' d' where "sample_run = Inr (r, scratch', d')" "sr_exact r = [(''10'', sample_entry)]" "sr_reason r = None"
  using sample_run_result by (auto split: sum.splits prod.splits)

lemma sample_feasible: "feasible (ident CHR ''a'') (ident CHR ''c'') sample_bucket"
proof -
  have v: "\<forall>c \<in> set sample_bucket. valid_crossable c"
    using sample_inputs by (simp add: search_inputs_def bucket_ok_def)
  have "prefix_ok sample_bucket"
    by (auto simp: prefix_ok_def within_settlement_def net_def sample_bucket_def sample_crossable_def
        MAX_SETTLEMENT_AMOUNT_def take_Cons split: nat.split)
  then have "mergeable sample_bucket" by (rule prefix_ok_mergeable [OF v])
  then show ?thesis
    by (auto simp: feasible_def fillable_def net_def sample_bucket_def sample_crossable_def MAX_SETTLEMENT_AMOUNT_def)
qed

theorem enumeratePair_exhaustive_witness:
  "\<exists>r d'. sample_run = Inr (r, clean_scratch, d') \<and> sr_exact r = [(''10'', sample_entry)]
     \<and> covered (ident CHR ''a'') (ident CHR ''c'') (sr_exact r) sample_bucket"
proof -
  obtain r scratch' d' where run: "sample_run = Inr (r, scratch', d')" "sr_exact r = [(''10'', sample_entry)]"
    "sr_reason r = None" by (rule sample_run_returns)
  have S: "sample_bucket \<in> set (subseqs sample_bucket)" "sample_bucket \<noteq> []" "length sample_bucket \<le> 8"
    "feasible (ident CHR ''a'') (ident CHR ''c'') sample_bucket"
    by (simp add: sample_bucket_def) (simp_all add: sample_bucket_def sample_feasible [unfolded sample_bucket_def])
  from enumeratePair_exhaustive [OF sample_inputs sample_makers] run S show ?thesis by auto
qed

theorem derived_ladder_optimal_witness:
  "\<exists>e reasons. longestEncodableFrontier [sample_entry] 64 (ident CHR ''a'') (ident CHR ''c'') = Inr (Some e, reasons)
    \<and> relay_interpolateQuote (ef_levels e) 55
      = Inr (Some (best_payout sample_bucket (ident CHR ''a'') (ident CHR ''c'') 8 55))"
proof -
  obtain r scratch' d' where run: "sample_run = Inr (r, scratch', d')" "sr_exact r = [(''10'', sample_entry)]"
    "sr_reason r = None" by (rule sample_run_returns)
  have fr: "bestOutputFrontier (\<lambda>_. 0) (sr_exact r) None 0 = (([sample_entry], None), 0)"
    by (simp add: bestOutputFrontier_def run(2) sample_entry_def abortReason_def)
  obtain e reasons where e: "longestEncodableFrontier (apply_minimum None [sample_entry]) 64
      (ident CHR ''a'') (ident CHR ''c'') = Inr (Some e, reasons)" and t: "ef_terminalInput e = 100"
    by (simp add: longestEncodableFrontier_def apply_minimum_def encodePrefix_def Let_def combination_of_def
        serializeWholeOfferTokenBalances_def eval_accounting
        capped_terminal_def MAX_SETTLEMENT_AMOUNT_def level_at_def upt_rec sample_entry_def)
  from derived_ladder_optimal [OF sample_inputs sample_makers run(1,3) fr e, of 55] t e
  show ?thesis by (auto simp: apply_minimum_def sample_entry_def)
qed

end
