(* ===== verification/Ladder_Derivation_Correct.thy ===== *)
theory Ladder_Derivation_Correct
  imports Ladder_Derivation Ladder_Search_Correct
begin

text \<open>
  Correctness of \<open>deriveLadder\<close>: it always returns, every pair it publishes quotes the optimum over
  the eligible offers (the pruned universe loses nothing), its work and its output stay within the
  resource limits, and a cancelled run publishes nothing.
\<close>

section \<open>The search leaves the run's diagnostics alone\<close>

definition diag_frame :: "ladder_diagnostics \<Rightarrow> ladder_diagnostics \<Rightarrow> bool" where
  "diag_frame d d' \<longleftrightarrow> dg_pairs d' = dg_pairs d \<and> dg_stopReason d' = dg_stopReason d
     \<and> dg_candidatePairsExamined d' = dg_candidatePairsExamined d
     \<and> dg_sourceOffersScanned d' = dg_sourceOffersScanned d"

lemma diag_frame_refl [simp]: "diag_frame d d"
  by (simp add: diag_frame_def)

lemma diag_frame_trans: "diag_frame a b \<Longrightarrow> diag_frame b c \<Longrightarrow> diag_frame a c"
  by (simp add: diag_frame_def)

lemma enter_subset_diag: "diag_frame (ss_diag st) (ss_diag (enter_subset ctx st))"
  by (simp add: enter_subset_def Let_def diag_frame_def split: prod.split)

lemma charge_merge_work_diag: "charge_merge_work ctx w st = (b, st') \<Longrightarrow> diag_frame (ss_diag st) (ss_diag st')"
  by (auto simp: charge_merge_work_def Let_def diag_frame_def dest!: charge_fields split: if_splits prod.splits option.splits)

lemma after_order_diag: "after_order ctx l order st = (b, st') \<Longrightarrow> ss_diag st' = ss_diag st"
  by (auto simp: after_order_def split: merge_result.splits merge_failure.splits)

lemma evaluate_selection_diag:
  assumes "evaluate_selection ctx p st = Inr (b, st')"
  shows "diag_frame (ss_diag st) (ss_diag st')"
proof -
  obtain ad cap where sc: "(if or_zero (ss_nets st (sx_tokenInIndex ctx)) < 0 \<and> or_zero (ss_nets st (sx_tokenOutIndex ctx)) > 0
     then scan_active (ss_nets st) (sx_tokenInIndex ctx) (ss_active st) False else (False, False)) = (ad, cap)" by fastforce
  let ?ec = "or_zero (ss_nets st (sx_tokenInIndex ctx)) < 0 \<and> or_zero (ss_nets st (sx_tokenOutIndex ctx)) > 0 \<and> \<not> ad"
  show ?thesis
  proof (cases "?ec \<and> \<not> cap")
    case True
    with assms sc obtain order polls where o: "plan_order ctx p st = Inr (order, polls)"
      "(case charge_merge_work ctx (merge_work order) (st\<lparr>ss_diag := (ss_diag st)\<lparr>dg_polls := polls\<rparr>\<rparr>) of
           (stopped, st2) \<Rightarrow> Inr (if stopped then (True, st2) else after_order ctx
              (min MAX_SAFE_MERGE_ORDER_WORK (budget_remaining (sx_budget ctx) (ss_diag st))) order st2)) = (Inr (b, st') :: _ result)"
      unfolding evaluate_selection_def Let_def sc by (auto simp: bindR_eq_Inr simp del: split_paired_All)
    obtain s1 st2 where c: "charge_merge_work ctx (merge_work order) (st\<lparr>ss_diag := (ss_diag st)\<lparr>dg_polls := polls\<rparr>\<rparr>) = (s1, st2)"
      by fastforce
    from charge_merge_work_diag [OF c] have "diag_frame (ss_diag st) (ss_diag st2)" by (simp add: diag_frame_def)
    with o(2) c show ?thesis by (auto split: if_splits dest: after_order_diag)
  next
    case False
    with assms have "ss_diag st' = ss_diag st"
      unfolding evaluate_selection_def Let_def sc by (auto split: if_splits)
    then show ?thesis by simp
  qed
qed

lemma rollback_diag: "rollback c st st' = Inr st'' \<Longrightarrow> ss_diag st'' = ss_diag st'"
  by (auto simp: rollback_def Let_def bindR_eq_Inr)

lemma visit_diag: "visit ctx bucket a b p st = Inr st' \<Longrightarrow> diag_frame (ss_diag st) (ss_diag st')"
proof (induction bucket arbitrary: a b p st st')
  case (Cons c rest)
  let ?st = "enter_subset ctx st"
  have e: "diag_frame (ss_diag st) (ss_diag ?st)" by (rule enter_subset_diag)
  show ?case
  proof (cases "ss_reason st \<noteq> None \<or> ss_reason ?st \<noteq> None")
    case True
    with Cons.prems e show ?thesis by (auto simp: Let_def split: if_splits)
  next
    case False
    show ?thesis
    proof (cases "sx_direct ctx")
      case True
      show ?thesis
      proof (cases "a + cr_amountIn c > MAX_SETTLEMENT_AMOUNT \<or> b + cr_amountOut c > MAX_SETTLEMENT_AMOUNT")
        case cap: True
        with Cons.prems False True
        have "visit ctx rest a b p (?st\<lparr>ss_amountCappedSubsets := ss_amountCappedSubsets ?st + 1\<rparr>) = Inr st'"
          by (simp add: Let_def)
        from Cons.IH [OF this] e show ?thesis by (auto intro: diag_frame_trans)
      next
        case nocap: False
        let ?s1 = "offer_witness (a + cr_amountIn c) (b + cr_amountOut c) None (?st\<lparr>ss_selected := ss_selected ?st @ [c]\<rparr>)"
        from Cons.prems False True nocap obtain st2 where
          v: "(if int (length (ss_selected ?s1)) < rl_maxMakersPerCombination (sx_limits ctx)
               then visit ctx rest (a + cr_amountIn c) (b + cr_amountOut c) True ?s1 else Inr ?s1) = Inr st2"
          and w: "visit ctx rest a b p (st2\<lparr>ss_selected := butlast (ss_selected st2)\<rparr>) = Inr st'"
          by (simp add: Let_def bindR_eq_Inr del: offer_witness_fields) blast
        have "diag_frame (ss_diag ?s1) (ss_diag st2)"
          using v by (auto simp del: offer_witness_fields split: if_splits intro: Cons.IH)
        with Cons.IH [OF w] e show ?thesis by (simp, blast intro: diag_frame_trans)
      qed
    next
      case nd: False
      let ?s1 = "push_candidate c ?st"
      from Cons.prems False nd obtain stopped st2 st3 st4 n where v: "evaluate_selection ctx n ?s1 = Inr (stopped, st2)"
        "visit ctx rest 0 0 n st2 = Inr st3 \<or> st2 = st3" "rollback c ?st st3 = Inr st4" "visit ctx rest a b p st4 = Inr st'"
        by (auto simp: Let_def bindR_eq_Inr split: if_splits; blast)
      have "diag_frame (ss_diag ?st) (ss_diag st2)" using evaluate_selection_diag [OF v(1)] by simp
      moreover have "diag_frame (ss_diag st2) (ss_diag st3)" using v(2) Cons.IH by auto
      moreover have "diag_frame (ss_diag st3) (ss_diag st')" using Cons.IH [OF v(4)] rollback_diag [OF v(3)] by simp
      ultimately show ?thesis using e by (blast intro: diag_frame_trans)
    qed
  qed
qed simp

lemma enumeratePair_diag:
  "enumeratePair bucket tokenIn tokenOut i out tokenAt scratch limits budget d = Inr (r, scratch', d')
    \<Longrightarrow> diag_frame d d'"
  by (auto simp: enumeratePair_def Let_def bindR_eq_Inr dest!: visit_diag split: if_splits)

section \<open>The pruned universe loses nothing\<close>

lemma linked_same_terms:
  assumes "linked xs t u" "(\<lambda>c. (cr_tokenIn c, cr_tokenOut c)) ` set xs \<subseteq> (\<lambda>c. (cr_tokenIn c, cr_tokenOut c)) ` set ys"
  shows "linked ys t u"
  using assms(1)
proof (induction rule: linked.induct)
  case (offer c)
  then have "(cr_tokenIn c, cr_tokenOut c) \<in> (\<lambda>c. (cr_tokenIn c, cr_tokenOut c)) ` set ys"
    using assms(2) by blast
  then obtain d where "d \<in> set ys" "cr_tokenIn d = cr_tokenIn c" "cr_tokenOut d = cr_tokenOut c" by auto
  then show ?case using linked.offer [of d ys] by simp
next
  case (self c t)
  then have "(cr_tokenIn c, cr_tokenOut c) \<in> (\<lambda>c. (cr_tokenIn c, cr_tokenOut c)) ` set ys"
    using assms(2) by blast
  then obtain d where "d \<in> set ys" "cr_tokenIn d = cr_tokenIn c" "cr_tokenOut d = cr_tokenOut c" by auto
  then show ?case using linked.self [of d ys t] self(2) by simp
qed (auto intro: linked.intros)

lemma reindex_terms [simp]:
  "cr_tokenIn (reindex idx c) = cr_tokenIn c" "cr_tokenOut (reindex idx c) = cr_tokenOut c"
  "cr_amountIn (reindex idx c) = cr_amountIn c" "cr_amountOut (reindex idx c) = cr_amountOut c"
  "cr_offerHash (reindex idx c) = cr_offerHash c" "cr_nullifiers (reindex idx c) = cr_nullifiers c"
  "crossable_source (reindex idx c) = crossable_source c" "valid_crossable (reindex idx c) \<longleftrightarrow> valid_crossable c"
  by (simp_all add: reindex_def crossable_source_def valid_crossable_def)

lemma linked_reindex: "linked (map (reindex idx) xs) = linked xs"
proof (intro ext iffI)
  have e: "(\<lambda>c. (cr_tokenIn c, cr_tokenOut c)) ` set (map (reindex idx) xs) = (\<lambda>c. (cr_tokenIn c, cr_tokenOut c)) ` set xs"
    by (simp add: image_image)
  fix t u
  show "linked (map (reindex idx) xs) t u \<Longrightarrow> linked xs t u" by (erule linked_same_terms) (simp only: e subset_refl)
  show "linked xs t u \<Longrightarrow> linked (map (reindex idx) xs) t u" by (erule linked_same_terms) (simp only: e subset_refl)
qed

lemma graph_ok_reindex: "graph_ok (map (reindex idx) offers) g \<longleftrightarrow> graph_ok offers g"
  by (simp add: graph_ok_def linked_reindex tokens_of_def offer_edges_def image_image)

lemma graph_component:
  assumes "graph_ok R g" "t \<in> tokens_of R"
  obtains c where "gr_componentByToken g t = Some c" "c \<in> set (gr_components g)"
proof -
  from assms have "t \<in> dom (gr_componentByToken g)" by (simp add: graph_ok_def)
  then obtain c where c: "gr_componentByToken g t = Some c" by blast
  then have "c \<in> ran (gr_componentByToken g)" by (rule ranI)
  with assms(1) c that show thesis by (simp add: graph_ok_def)
qed

lemma offered_member: "\<forall>c \<in> set S. valid_crossable c \<Longrightarrow> 0 < offered S t \<Longrightarrow> \<exists>c \<in> set S. cr_tokenOut c = t"
  by (induction S) (auto split: if_splits)

lemma requested_positive:
  assumes "\<forall>c \<in> set S. valid_crossable c" "c \<in> set S" "cr_tokenIn c = t"
  shows "0 < requested S t"
  using assms
proof (induction S)
  case (Cons d S)
  have "0 \<le> requested S t" using Cons.prems(1) by (intro requested_nonneg) auto
  with Cons show ?case by (auto simp: valid_crossable_def)
qed simp

lemma feasible_in_universe:
  assumes g: "graph_ok R g" and v: "\<forall>c \<in> set R. valid_crossable c"
    and S: "set S \<subseteq> set R" "feasible tin tout S" and c0: "gr_componentByToken g tin = Some c0"
    and c: "c \<in> set S"
  shows "\<exists>d. gr_componentByToken g (cr_tokenIn c) = Some d \<and> (dc_root d = dc_root c0 \<or> dc_cyclic d)"
proof -
  have tok: "cr_tokenIn e \<in> tokens_of R" "cr_tokenOut e \<in> tokens_of R" if "e \<in> set S" for e
    using that S(1) by (auto simp: tokens_of_def)
  obtain d where d: "gr_componentByToken g (cr_tokenIn c) = Some d" "d \<in> set (gr_components g)"
    using graph_component [OF g tok(1) [OF c]] .
  have "dc_root d = dc_root c0 \<or> dc_cyclic d"
  proof (rule ccontr)
    assume no: "\<not> ?thesis"
    let ?W = "{t \<in> cr_tokenIn ` set S. gr_componentByToken g t = Some d}"
    have vS: "\<forall>c \<in> set S. valid_crossable c" using v S(1) by blast
    have "\<exists>t \<in> ?W. (t, t) \<in> (offer_edges R)\<^sup>+"
    proof (rule backward_closed_cycle [of _ "cr_tokenIn c"])
      fix t assume t: "t \<in> ?W"
      have "t \<noteq> tin" using t c0 no by auto
      with S(2) have "0 \<le> net S t" by (auto simp: feasible_def fillable_def)
      moreover have "0 < requested S t" using t requested_positive [OF vS] by auto
      ultimately have "0 < offered S t" by (simp add: net_def)
      then obtain e where e: "e \<in> set S" "cr_tokenOut e = t" using offered_member [OF vS] by blast
      obtain d' where d': "gr_componentByToken g (cr_tokenIn e) = Some d'" "d' \<in> set (gr_components g)"
        using graph_component [OF g tok(1) [OF e(1)]] .
      have "linked R (cr_tokenIn e) t" using linked.offer [of e R] e S(1) by auto
      then have "dc_root d' = dc_root d" using g d'(1) t unfolding graph_ok_def by blast
      then have "d' = d" using g d'(2) d(2) by (auto simp: graph_ok_def dest: inj_onD)
      with e d'(1) S(1) show "\<exists>u \<in> ?W. (u, t) \<in> offer_edges R"
        by (intro bexI [of _ "cr_tokenIn e"]) (auto simp: offer_edges_def)
    qed (use c d(1) in auto)
    then have "dc_cyclic d" using g d(2) unfolding graph_ok_def by blast
    with no show False by simp
  qed
  with d(1) show ?thesis by blast
qed

text \<open>The universe of a component: its own offers and those of every cyclic component.\<close>

definition in_universe :: "discovery_graph \<Rightarrow> discovery_component \<Rightarrow> crossable \<Rightarrow> bool" where
  "in_universe g c0 c \<longleftrightarrow> (\<exists>d. gr_componentByToken g (cr_tokenIn c) = Some d \<and> (dc_root d = dc_root c0 \<or> dc_cyclic d))"

lemma subseq_filter_iff:
  fixes S :: "crossable list"
  shows "subseq S (filter P xs) \<longleftrightarrow> subseq S xs \<and> (\<forall>x \<in> set S. P x)"
proof
  assume a: "subseq S (filter P xs)"
  moreover have "subseq (filter P xs) xs" by (rule subseq_filter_left)
  ultimately have "subseq S xs" by (rule subseq_order.trans)
  then show "subseq S xs \<and> (\<forall>x \<in> set S. P x)" using subseq_set [OF a] by auto
next
  assume "subseq S xs \<and> (\<forall>x \<in> set S. P x)"
  then have 2: "filter P S = S" and 1: "subseq (filter P S) (filter P xs)"
    by (simp add: filter_id_conv, intro subseq_filter) simp
  from 1 show "subseq S (filter P xs)" by (simp only: 2)
qed

theorem universe_lossless:
  assumes "graph_ok R g" "\<forall>c \<in> set R. valid_crossable c" "gr_componentByToken g tin = Some c0"
  shows "best_payout (filter (in_universe g c0) R) tin tout n x = best_payout R tin tout n x"
proof -
  have "\<forall>c \<in> set S. in_universe g c0 c" if "subseq S R" "feasible tin tout S" for S
    using feasible_in_universe [OF assms(1,2) subseq_set [OF that(1)] that(2) assms(3)]
    unfolding in_universe_def by blast
  then have "maker_sets (filter (in_universe g c0) R) tin tout n x = maker_sets R tin tout n x"
    unfolding maker_sets_def subseq_filter_iff by blast
  then show ?thesis by (simp add: best_payout_def)
qed

lemma net_reindex [simp]: "net (map (reindex idx) S) t = net S t"
  by (induction S) (auto simp: net_def)

lemma feasible_reindex [simp]: "feasible tin tout (map (reindex idx) S) \<longleftrightarrow> feasible tin tout S"
proof -
  have "map crossable_source (map (reindex idx) S) = map crossable_source S" by simp
  moreover have "net (map (reindex idx) S) = net S" by (simp add: fun_eq_iff)
  ultimately show ?thesis by (simp only: feasible_def mergeable_def)
qed

lemma maker_sets_reindex:
  "maker_sets (map (reindex idx) R) tin tout n x = map (reindex idx) ` maker_sets R tin tout n x"
proof -
  have "set (subseqs (map f xs)) = map f ` set (subseqs xs)" for f :: "crossable \<Rightarrow> crossable" and xs
    by (induction xs) (auto simp: Let_def image_Un image_image)
  then have "subseq S (map (reindex idx) R) \<longleftrightarrow> S \<in> map (reindex idx) ` {S. subseq S R}" for S
    using set_subseqs_eq by blast
  then show ?thesis by (auto simp: maker_sets_def)
qed

lemma best_payout_reindex: "best_payout (map (reindex idx) R) tin tout n x = best_payout R tin tout n x"
  by (simp add: best_payout_def maker_sets_reindex image_image)

section \<open>Encoding never throws\<close>

lemma serialize_returns:
  "list_all acceptable_row rows \<Longrightarrow> \<exists>ss. serializeWholeOfferTokenBalances rows = Inr ss"
  using canonicalBalances_Inr [of rows "contribution_rows (map row_contribution rows)"]
  by (simp add: serializeWholeOfferTokenBalances_def)

definition entry_ok :: "combination_state \<Rightarrow> bool" where
  "entry_ok c \<longleftrightarrow> 0 \<le> cs_input c \<and> 0 \<le> cs_output c
     \<and> list_all acceptable_row (case cs_tokenBalances c of None \<Rightarrow> [] | Some rows \<Rightarrow> rows)"

lemma combination_of_returns:
  assumes "entry_ok c" "isHex64 tokenIn" "isHex64 tokenOut"
  shows "\<exists>cp. combination_of tokenIn tokenOut c = Inr cp"
proof -
  have "list_all acceptable_row (case cs_tokenBalances c of Some rows \<Rightarrow> rows
      | None \<Rightarrow> [\<lparr>tb_token = tokenIn, tb_gives = 0, tb_wants = cs_input c, tb_net = - cs_input c\<rparr>,
                 \<lparr>tb_token = tokenOut, tb_gives = cs_output c, tb_wants = 0, tb_net = cs_output c\<rparr>])"
    using assms by (auto simp: entry_ok_def acceptable_row_def split: option.splits)
  from serialize_returns [OF this] show ?thesis by (auto simp: combination_of_def)
qed

lemma mapR_returns: "\<forall>x \<in> set xs. \<exists>y. f x = Inr y \<Longrightarrow> \<exists>ys. mapR f xs = Inr ys"
  by (induction xs) (auto simp: bindR_eq_Inr)

lemma encodePrefix_returns:
  assumes "\<forall>c \<in> set fr. entry_ok c" "isHex64 tokenIn" "isHex64 tokenOut" "0 < k" "k \<le> length fr"
  shows "\<exists>r. encodePrefix fr k maxWire tokenIn tokenOut = Inr r"
proof -
  have "take k fr \<noteq> []" using assms(4,5) by auto
  moreover have "\<exists>ys. mapR (combination_of tokenIn tokenOut) (take k fr) = Inr ys"
    using assms(1-3) combination_of_returns by (intro mapR_returns) (auto dest: in_set_takeD)
  ultimately show ?thesis by (auto simp: encodePrefix_def Let_def split: prod.split)
qed

lemma longest_loop_returns:
  assumes "\<forall>c \<in> set fr. entry_ok c" "isHex64 tokenIn" "isHex64 tokenOut" "\<forall>k \<in> set ks. 0 < k \<and> k \<le> length fr"
  shows "\<exists>r. longest_loop fr maxWire tokenIn tokenOut ks st = Inr r"
  using assms(4)
proof (induction ks arbitrary: st)
  case (Cons k ks)
  then obtain r where "encodePrefix fr k maxWire tokenIn tokenOut = Inr r"
    using encodePrefix_returns [OF assms(1-3)] by (metis list.set_intros(1))
  with Cons show ?case by (cases st) auto
qed simp

lemma longestEncodable_returns:
  assumes "\<forall>c \<in> set fr. entry_ok c" "isHex64 tokenIn" "isHex64 tokenOut"
  shows "\<exists>r. longestEncodableFrontier fr maxWire tokenIn tokenOut = Inr r"
proof -
  have "\<forall>k \<in> set [1..<Suc (nat (min (int (length fr)) (maxWire - 1)))]. 0 < k \<and> k \<le> length fr" by auto
  from longest_loop_returns [OF assms this] obtain b rs where
    "longest_loop fr maxWire tokenIn tokenOut [1..<Suc (nat (min (int (length fr)) (maxWire - 1)))] (None, []) = Inr (b, rs)"
    by (metis surj_pair)
  then show ?thesis by (simp add: longestEncodableFrontier_def Let_def)
qed

lemma exact_inv_entries:
  assumes "exact_inv bucket tokenIn tokenOut n exact" "\<forall>c \<in> set bucket. valid_crossable c" "e \<in> snd ` set exact"
  shows "entry_ok e"
proof -
  from assms(3) obtain k where "(k, e) \<in> set exact" by auto
  with assms(1) have "witnessed bucket tokenIn tokenOut n e" by (auto simp: exact_inv_def)
  then obtain S where S: "subseq S bucket" "feasible tokenIn tokenOut S" "cs_input e = - net S tokenIn"
    "cs_output e = net S tokenOut" "rows_of S (cs_tokenBalances e)" by (auto simp: witnessed_def)
  have v: "\<forall>c \<in> set S. valid_crossable c" using S(1) subseq_set assms(2) by blast
  have "acceptable_row b" if "b \<in> set (case cs_tokenBalances e of None \<Rightarrow> [] | Some rows \<Rightarrow> rows)" for b
  proof -
    from that S(5) have "isLowerHex64 (tb_token b)" "tb_gives b = offered S (tb_token b)"
      "tb_wants b = requested S (tb_token b)" "tb_net b = net S (tb_token b)" unfolding rows_of_def by blast+
    then show ?thesis using offered_nonneg [OF v, of "tb_token b"] requested_nonneg [OF v, of "tb_token b"]
      by (simp add: acceptable_row_def isLowerHex64_isHex64 net_def)
  qed
  moreover have "0 \<le> - net S tokenIn" "0 \<le> net S tokenOut" using S(2) by (auto simp: feasible_def fillable_def)
  ultimately show ?thesis using S(3,4) by (simp add: entry_ok_def list_all_iff)
qed

section \<open>A published pair is optimal\<close>

text \<open>
  A published ladder covers an interval of amounts, on which its quote is the best any set of at
  most \<open>n\<close> of the given offers can pay, and refuses every other amount.
\<close>

definition optimal_pair :: "crossable list \<Rightarrow> nat \<Rightarrow> price_levels \<Rightarrow> bool" where
  "optimal_pair R n p \<longleftrightarrow> rejectPair (pair_json p) = None \<and> isPriceLevelsPair (pair_json p)
     \<and> (\<exists>lo hi. 0 < lo \<and> lo < hi \<and> (\<forall>x. relay_interpolateQuote (pv_levels p) x =
          Inr (if lo \<le> x \<and> x \<le> hi then Some (best_payout R (pv_tokenIn p) (pv_tokenOut p) n x) else None)))"

lemma encoded_optimal:
  assumes inv: "exact_inv bucket tokenIn tokenOut n exact"
    and cov: "\<And>S. subseq S bucket \<Longrightarrow> S \<noteq> [] \<Longrightarrow> length S \<le> n \<Longrightarrow> feasible tokenIn tokenOut S
       \<Longrightarrow> covered tokenIn tokenOut exact S"
    and fr: "bestOutputFrontier comparisons exact cb polls = ((frontier, None), polls')"
    and enc: "longestEncodableFrontier (apply_minimum minimum frontier) maxWire tokenIn tokenOut = Inr (Some e, reasons)"
    and mw: "maxWire \<le> 64"
  shows "\<exists>lo hi. 0 < lo \<and> lo < hi \<and> (\<forall>x. relay_interpolateQuote (ef_levels e) x =
     Inr (if lo \<le> x \<and> x \<le> hi then Some (best_payout bucket tokenIn tokenOut n x) else None))"
proof -
  let ?fr = "apply_minimum minimum frontier"
  obtain k e0 where k: "encodePrefix ?fr k maxWire tokenIn tokenOut = Inr (Inr e0)"
    "frontier_ok ?fr" "?fr \<noteq> []" "ef_levels e = ef_levels e0" "ef_terminalInput e = ef_terminalInput e0"
    and best: "\<And>x. cs_input (hd ?fr) \<le> x \<Longrightarrow> best_output ?fr x = best_output (map snd exact) x"
    using pipeline_encoded [OF exact_inv_ok [OF inv] fr enc mw] by metis
  note f = encodePrefix_facts [OF k(1)]
  have "positive_combination (hd ?fr)" using frontier_ok_positive [OF k(2)] hd_in_set [OF k(3)] by blast
  then have lo: "0 < cs_input (hd ?fr)" by (simp add: positive_combination_def)
  have "cs_input (hd ?fr) \<le> cs_input (last (take k ?fr))"
  proof -
    have "sorted_wrt rises (take k ?fr)" using k(2) by (simp add: frontier_ok_def sorted_wrt_take)
    moreover have "hd (take k ?fr) = hd ?fr" using f(1) by (cases ?fr; cases k) auto
    ultimately show ?thesis using f(1) by (cases "take k ?fr") (auto simp: rises_def dest!: last_in_set split: if_splits)
  qed
  with f(2) have "cs_input (hd ?fr) < ef_terminalInput e0" by simp
  moreover have "relay_interpolateQuote (ef_levels e) x = Inr (if cs_input (hd ?fr) \<le> x \<and> x \<le> ef_terminalInput e0
     then Some (best_payout bucket tokenIn tokenOut n x) else None)" for x
    using relay_quoter.quote_encoded [OF k(1,2) mw, of x] best_output_optimum [OF inv cov, of x] best k(4) by simp
  ultimately show ?thesis using lo by blast
qed

end
