(* ===== verification/Ladder_Optimal.thy ===== *)
theory Ladder_Optimal
  imports Ladder_Derivation_Correct
begin

text \<open>
  The loop invariants of \<open>deriveLadder\<close> and its properties: termination without an error, the
  optimality of every published pair over all eligible offers, the resource bounds, and the
  withdrawal of a cancelled run.
\<close>

section \<open>Steps that publish nothing\<close>

text \<open>
  What a scan, a poll or a withheld pair may change: exclusions, the stop and the diagnostics,
  never what is published, the cached universes or the shared scratch.
\<close>

definition within_work :: "derive_env \<Rightarrow> derive_state \<Rightarrow> bool" where
  "within_work env st \<longleftrightarrow> dg_discoveryWork (dv_diag st) \<le> rl_maxDiscoveryWork (de_limits env)"

definition steady :: "derive_env \<Rightarrow> derive_state \<Rightarrow> derive_state \<Rightarrow> bool" where
  "steady env st st' \<longleftrightarrow> dv_levels st' = dv_levels st \<and> dv_provenance st' = dv_provenance st
     \<and> dv_universeCache st' = dv_universeCache st \<and> dv_scratch st' = dv_scratch st
     \<and> (within_work env st \<longrightarrow> within_work env st')
     \<and> dg_candidatePairsExamined (dv_diag st') = dg_candidatePairsExamined (dv_diag st)
     \<and> (dv_globalStop st = dg_stopReason (dv_diag st) \<longrightarrow> dv_globalStop st' = dg_stopReason (dv_diag st'))"

lemma steady_refl [simp]: "steady env st st"
  by (simp add: steady_def)

lemma steady_trans: "steady env a b \<Longrightarrow> steady env b c \<Longrightarrow> steady env a c"
  by (auto simp: steady_def)

named_theorems steady_steps

lemma steady_stop [steady_steps]: "steady env st (stop_with r st)"
  by (simp add: steady_def stop_with_def within_work_def)

lemma steady_add [steady_steps]: "steady env st (addPairExclusion e st)"
  by (simp add: steady_def addPairExclusion_def Let_def within_work_def)

lemma steady_last [steady_steps]: "steady env st (update_last f st)"
  by (simp add: steady_def update_last_def Let_def within_work_def)

lemma steady_reason [steady_steps]: "steady env st (pair_reason r st)"
  by (simp add: pair_reason_def steady_last)

lemma steady_universes [steady_steps]: "steady env st (st\<lparr>dv_excludedUniverses := u\<rparr>)"
  by (simp add: steady_def within_work_def)

lemma steady_polls [steady_steps]: "steady env st (st\<lparr>dv_diag := (dv_diag st)\<lparr>dg_polls := p\<rparr>\<rparr>)"
  by (simp add: steady_def within_work_def)

lemma steady_moved:
  "work_moved (budget_of env st) (dv_diag st) d \<Longrightarrow> steady env st (st\<lparr>dv_diag := d\<rparr>)"
  by (simp add: steady_def work_moved_def within_work_def budget_of_def)

lemma steady_charge:
  "charge (budget_of env st) w k (dv_diag st) = (r, d) \<Longrightarrow> steady env st (st\<lparr>dv_diag := d\<rparr>)"
  by (rule steady_moved) (rule charge_moves(1))

lemma steady_fold: "(\<And>x st. steady env st (f x st)) \<Longrightarrow> steady env st (fold f xs st)"
  by (induction xs arbitrary: st) (auto intro: steady_trans)

lemma exclusion_scan_steady: "exclusion_scan env r detail bucket st = (fl, st') \<Longrightarrow> steady env st st'"
proof (induction env r detail bucket st rule: exclusion_scan.induct)
  case (2 env reason detail offer rest st)
  obtain a d where c: "charge (budget_of env st) 1 Discovery (dv_diag st) = (a, d)" by fastforce
  note s = steady_charge [OF c]
  show ?case
  proof (cases a)
    case None
    from "2.IH" [OF c [symmetric] None] "2.prems" c None
    have "steady env (addPairExclusion \<lparr>lx_offerHash = cr_offerHash offer, lx_reason = reason, lx_detail = detail\<rparr>
        (st\<lparr>dv_diag := d\<rparr>)) st'" by simp
    with s show ?thesis by (blast intro: steady_trans steady_add)
  next
    case (Some x)
    with "2.prems" c s steady_trans [OF s steady_stop] show ?thesis by (auto split: if_splits)
  qed
qed simp

lemma addPairExclusions_steady [steady_steps]:
  "steady env st (snd (addPairExclusions env bid bucket r detail st))"
proof -
  let ?rs = "case map_of (dv_excludedUniverses st) bid of Some rs \<Rightarrow> rs | None \<Rightarrow> []"
  let ?st1 = "st\<lparr>dv_excludedUniverses := AList.update bid ?rs (dv_excludedUniverses st)\<rparr>"
  obtain fl st2 where e: "exclusion_scan env r detail bucket ?st1 = (fl, st2)" by fastforce
  have "steady env st st2" by (rule steady_trans [OF steady_universes exclusion_scan_steady [OF e]])
  moreover from this have "steady env st (st2\<lparr>dv_excludedUniverses := u\<rparr>)" for u
    by (rule steady_trans [OF _ steady_universes])
  ultimately show ?thesis using e by (cases fl) (simp_all add: addPairExclusions_def Let_def)
qed

lemma addPairExclusions_flow: "fst (addPairExclusions env bid bucket r detail st) \<in> {Go, Scan_stop}"
proof -
  have f: "fst (exclusion_scan env r detail b st') \<in> {Go, Scan_stop}" for b st'
    by (induction env r detail b st' rule: exclusion_scan.induct) (auto split: prod.split option.split)
  let ?rs = "case map_of (dv_excludedUniverses st) bid of Some rs \<Rightarrow> rs | None \<Rightarrow> []"
  let ?st1 = "st\<lparr>dv_excludedUniverses := AList.update bid ?rs (dv_excludedUniverses st)\<rparr>"
  obtain fl st2 where e: "exclusion_scan env r detail bucket ?st1 = (fl, st2)" by fastforce
  with f [of bucket ?st1] show ?thesis by (cases fl) (simp_all add: addPairExclusions_def Let_def)
qed

lemma withhold_steady [steady_steps]: "steady env st (snd (withhold env pc r detail st))"
  using steady_trans [OF steady_reason addPairExclusions_steady]
  by (auto simp: withhold_def split: prod.split flow.split) (metis snd_conv)+

lemma abandon_steady [steady_steps]: "steady env st (snd (abandon env pc r st))"
  using steady_trans [OF steady_trans [OF steady_stop steady_reason] addPairExclusions_steady]
  by (auto simp: abandon_def split: prod.split flow.split) (metis snd_conv)+

lemma withhold_all_steady [steady_steps]: "steady env st (snd (withhold_all env pc rs st))"
proof (induction env pc rs st rule: withhold_all.induct)
  case (2 env pc r rs st)
  obtain fl st1 where a: "addPairExclusions env (pc_id pc) (pc_bucket pc) r None st = (fl, st1)" by fastforce
  have "steady env st st1" using addPairExclusions_steady [of env st "pc_id pc" "pc_bucket pc" r None] a by simp
  with 2 a show ?case by (cases fl) (auto intro: steady_trans)
qed simp

lemma poll_pair_steady [steady_steps]: "steady env st (snd (poll_pair env pc st))"
proof -
  obtain r p where a: "abortReason (do_shouldAbort (de_options env)) (dg_polls (dv_diag st)) = (r, p)" by fastforce
  show ?thesis
    using steady_trans [OF steady_polls abandon_steady] steady_polls
    by (cases r) (simp_all add: poll_pair_def a Let_def)
qed

lemma poll_pair_go: "poll_pair env pc st = (Go, st') \<Longrightarrow> steady env st st'"
  using poll_pair_steady [of env st pc] by simp

lemma truncation_scan_steady: "steady env st (snd (truncation_scan env used rs bucket st))"
proof (induction env used rs bucket st rule: truncation_scan.induct)
  case (2 env used reasons offer rest st)
  obtain a d where c: "charge (budget_of env st) 1 Discovery (dv_diag st) = (a, d)" by fastforce
  note s = steady_charge [OF c]
  show ?case
  proof (cases a)
    case None
    let ?st1 = "st\<lparr>dv_diag := d\<rparr>"
    let ?st2 = "if cr_offerHash offer \<in> set used then ?st1
      else fold (\<lambda>r. addPairExclusion (exclusion (cr_offerHash offer) r)) reasons ?st1"
    have "steady env ?st1 ?st2" by (auto intro: steady_fold steady_add)
    moreover have "steady env ?st2 (snd (truncation_scan env used reasons rest ?st2))"
      using "2.IH" [OF c [symmetric] None] by (simp add: Let_def)
    ultimately have "steady env st (snd (truncation_scan env used reasons rest ?st2))" using s by (blast intro: steady_trans)
    then show ?thesis using c None by (simp add: Let_def)
  next
    case (Some x)
    with c steady_trans [OF s steady_stop] show ?thesis by simp
  qed
qed simp

section \<open>The universe of a component\<close>

definition env_ok :: "derive_env \<Rightarrow> nat \<Rightarrow> bool" where
  "env_ok env n \<longleftrightarrow> graph_ok (de_retained env) (de_graph env) \<and> bucket_ok (de_retained env)
     \<and> (\<forall>c \<in> set (de_retained env). indexed (gr_tokenAt (de_graph env)) c)
     \<and> de_cyclic env = filter dc_cyclic (gr_components (de_graph env))
     \<and> int n = rl_maxMakersPerCombination (de_limits env) \<and> 1 \<le> n \<and> n \<le> 8
     \<and> rl_maxWirePointsPerPair (de_limits env) \<le> 64"

definition universe_ok :: "derive_env \<Rightarrow> discovery_component \<Rightarrow> offer_universe \<Rightarrow> bool" where
  "universe_ok env c0 u \<longleftrightarrow> uv_offers u = filter (in_universe (de_graph env) c0) (de_retained env)
     \<and> set (uv_outputs u) = cr_tokenOut ` set (uv_offers u)"

lemma set_add_set [simp]: "set (set_add x xs) = insert x (set xs)"
  by (auto simp: set_add_def)

lemma universe_roots_runs: "runs ctx (universe_roots ctx included) (\<lambda>roots. set roots = dc_root ` set included)"
  unfolding universe_roots_def
  by (rule runs_fold [where P = "\<lambda>xs roots. set roots = dc_root ` set xs"])
    (auto intro!: runs_charge_then runs_return)

lemma build_universe_runs:
  assumes e: "env_ok env n" and c0: "c0 \<in> set (gr_components (de_graph env))"
  shows "runs ctx (build_universe ctx (de_graph env) (de_cyclic env) (de_retained env) c0) (universe_ok env c0)"
  unfolding build_universe_def
proof (rule runs_bind [OF universe_roots_runs])
  let ?g = "de_graph env" and ?R = "de_retained env"
  have g: "graph_ok ?R ?g" and cyc: "de_cyclic env = filter dc_cyclic (gr_components ?g)" using e by (auto simp: env_ok_def)
  fix roots
  assume "set roots = dc_root ` set (if dc_cyclic c0 then de_cyclic env else c0 # de_cyclic env)"
  then have roots: "set roots = dc_root ` (insert c0 {c \<in> set (gr_components ?g). dc_cyclic c})"
    using c0 by (auto simp: cyc)
  have member: "dc_root d \<in> set roots \<longleftrightarrow> dc_root d = dc_root c0 \<or> dc_cyclic d"
    if "gr_componentByToken ?g t = Some d" for t d
  proof -
    have d: "d \<in> set (gr_components ?g)" using that g by (auto simp: graph_ok_def intro: ranI)
    have "inj_on dc_root (set (gr_components ?g))" using g by (simp add: graph_ok_def)
    then show ?thesis using d unfolding roots by (auto dest: inj_onD)
  qed
  let ?P = "\<lambda>xs (offers, outputs). offers = filter (in_universe ?g c0) xs \<and> set outputs = cr_tokenOut ` set offers"
  have "runs ctx (foldB (universe_member ctx ?g roots) ?R ([], [])) (?P ?R)"
  proof (rule runs_fold [where P = ?P])
    fix a x b st
    assume R: "?R = a @ x # b" and st: "?P a st"
    obtain os outs where eq: "st = (os, outs)" by fastforce
    have "cr_tokenIn x \<in> tokens_of ?R" using R by (auto simp: tokens_of_def)
    then obtain d where d: "gr_componentByToken ?g (cr_tokenIn x) = Some d" using graph_component [OF g] by metis
    have P: "?P (a @ [x]) (if dc_root d \<in> set roots then (os @ [x], set_add (cr_tokenOut x) outs) else (os, outs))"
      using st d member [OF d] by (auto simp: eq in_universe_def)
    then show "runs ctx (universe_member ctx ?g roots x st) (?P (a @ [x]))"
      unfolding universe_member_def eq split
    proof (intro runs_charge_then runs_bind [OF runs_lift [OF d, of "\<lambda>c. c = d"]])
      fix c assume c: "c = d"
      show "runs ctx (returnB (if dc_root c \<in> set roots then (os @ [x], set_add (cr_tokenOut x) outs) else (os, outs)))
        (?P (a @ [x]))" unfolding c
        by (rule runs_return [where Q = "?P (a @ [x])"]) (rule P)
    qed simp
  qed simp
  then show "runs ctx (bindB (foldB (universe_member ctx ?g roots) ?R ([], [])) (\<lambda>(offers, outputs).
     bindB (chargeSortB ctx (length outputs)) (\<lambda>_.
       returnB \<lparr>uv_offers = offers, uv_outputs = sort outputs\<rparr>))) (universe_ok env c0)"
  proof (rule runs_bind)
    fix st assume "?P ?R st"
    then show "runs ctx (case st of (offers, outputs) \<Rightarrow> bindB (chargeSortB ctx (length outputs)) (\<lambda>_.
       returnB \<lparr>uv_offers = offers, uv_outputs = sort outputs\<rparr>)) (universe_ok env c0)"
      by (cases st) (auto simp: universe_ok_def intro!: runs_bind [OF runs_sort] runs_return)
  qed
qed

definition derive_inv :: "derive_env \<Rightarrow> nat \<Rightarrow> derive_state \<Rightarrow> bool" where
  "derive_inv env n st \<longleftrightarrow> empty_scratch (gr_tokenAt (de_graph env)) (dv_scratch st) \<and> within_work env st
     \<and> (\<forall>p \<in> set (dv_levels st). optimal_pair (de_retained env) n p)
     \<and> int (length (dv_levels st)) \<le> rl_maxPairs (de_limits env)
     \<and> (\<forall>c \<in> set (gr_components (de_graph env)). \<forall>u. map_of (dv_universeCache st) (dc_root c) = Some u
          \<longrightarrow> universe_ok env c u)
     \<and> dg_candidatePairsExamined (dv_diag st) \<le> rl_maxCandidatePairs (de_limits env)
     \<and> dv_globalStop st = dg_stopReason (dv_diag st)"

lemma derive_inv_steady: "derive_inv env n st \<Longrightarrow> steady env st st' \<Longrightarrow> derive_inv env n st'"
  by (simp add: derive_inv_def steady_def)

text \<open>A pair in hand: its bucket is the universe of its input token's component.\<close>

definition pair_ok :: "derive_env \<Rightarrow> pair_context \<Rightarrow> bool" where
  "pair_ok env pc \<longleftrightarrow> pc_tokenIn pc \<noteq> pc_tokenOut pc
     \<and> pc_tokenIn pc \<in> tokens_of (de_retained env) \<and> pc_tokenOut pc \<in> tokens_of (de_retained env)
     \<and> (\<exists>c0. gr_componentByToken (de_graph env) (pc_tokenIn pc) = Some c0
          \<and> pc_bucket pc = filter (in_universe (de_graph env) c0) (de_retained env))"

lemma pair_ok_bucket:
  assumes "env_ok env n" "pair_ok env pc"
  shows "bucket_ok (pc_bucket pc)" "\<forall>c \<in> set (pc_bucket pc). indexed (gr_tokenAt (de_graph env)) c"
    "best_payout (pc_bucket pc) (pc_tokenIn pc) tout n x = best_payout (de_retained env) (pc_tokenIn pc) tout n x"
    "isHex64 (pc_tokenIn pc)" "isHex64 (pc_tokenOut pc)"
proof -
  from assms obtain c0 where c0: "gr_componentByToken (de_graph env) (pc_tokenIn pc) = Some c0"
    "pc_bucket pc = filter (in_universe (de_graph env) c0) (de_retained env)" by (auto simp: pair_ok_def)
  have bk: "bucket_ok (de_retained env)" and g: "graph_ok (de_retained env) (de_graph env)"
    using assms(1) by (auto simp: env_ok_def)
  then have v: "\<forall>c \<in> set (de_retained env). valid_crossable c" by (simp add: bucket_ok_def)
  show "bucket_ok (pc_bucket pc)" using bk by (auto simp: bucket_ok_def c0(2) distinct_map_filter)
  show "\<forall>c \<in> set (pc_bucket pc). indexed (gr_tokenAt (de_graph env)) c" using assms(1) by (simp add: env_ok_def c0(2))
  show "best_payout (pc_bucket pc) (pc_tokenIn pc) tout n x = best_payout (de_retained env) (pc_tokenIn pc) tout n x"
    unfolding c0(2) by (rule universe_lossless [OF g v c0(1)])
  have "isHex64 t" if "t \<in> tokens_of (de_retained env)" for t
    using that v by (auto simp: tokens_of_def valid_crossable_def isLowerHex64_isHex64)
  then show "isHex64 (pc_tokenIn pc)" "isHex64 (pc_tokenOut pc)" using assms(2) by (auto simp: pair_ok_def)
qed

section \<open>One pair keeps the invariant\<close>

definition keeps_inv :: "derive_env \<Rightarrow> nat \<Rightarrow> (flow \<times> derive_state) result \<Rightarrow> bool" where
  "keeps_inv env n r \<longleftrightarrow> (case r of Inr s \<Rightarrow> derive_inv env n (snd s) | Inl _ \<Rightarrow> False)"

lemma keeps_Inr [simp]: "keeps_inv env n (Inr s) \<longleftrightarrow> derive_inv env n (snd s)"
  by (simp add: keeps_inv_def)

lemma keeps_invE:
  assumes "keeps_inv env n r"
  obtains fl st' where "r = Inr (fl, st')" "derive_inv env n st'"
  using assms by (cases r) (auto simp: keeps_inv_def)

lemma keeps_steady: "derive_inv env n st \<Longrightarrow> steady env st (snd s) \<Longrightarrow> keeps_inv env n (Inr s)"
  by (simp add: derive_inv_steady)

lemma keeps_thenD:
  assumes "derive_inv env n st" "steady env st (snd s)"
    and "\<And>st'. s = (Go, st') \<Longrightarrow> derive_inv env n st' \<Longrightarrow> keeps_inv env n (f st')"
  shows "keeps_inv env n (thenD s f)"
proof -
  obtain fl st' where s: "s = (fl, st')" by fastforce
  then have "derive_inv env n st'" using assms(1,2) by (auto intro: derive_inv_steady)
  with s assms(3) show ?thesis by (cases fl) (auto simp: thenD_def)
qed

lemma publish_keeps:
  assumes e: "env_ok env n" and inv: "derive_inv env n st"
    and room: "int (length (dv_levels st)) < rl_maxPairs (de_limits env)"
    and quotes: "\<exists>lo hi. 0 < lo \<and> lo < hi \<and> (\<forall>x. relay_interpolateQuote (ef_levels enc) x =
       Inr (if lo \<le> x \<and> x \<le> hi then Some (best_payout (de_retained env) (pc_tokenIn pc) (pc_tokenOut pc) n x) else None))"
  shows "keeps_inv env n (publish_pair env pc frontier rs enc st)"
proof -
  let ?pair = "\<lparr>pv_tokenIn = pc_tokenIn pc, pv_tokenOut = pc_tokenOut pc, pv_levels = ef_levels enc\<rparr>"
  show ?thesis
  proof (cases "rejectPair (pair_json ?pair) \<noteq> None \<or> \<not> isPriceLevelsPair (pair_json ?pair)")
    case True
    then have "publish_pair env pc frontier rs enc st = Inr (withhold env pc R_invalid_pair (rejectPair (pair_json ?pair)) st)"
      by (simp only: publish_pair_def Let_def if_True)
    with keeps_steady [OF inv withhold_steady] show ?thesis by simp
  next
    case False
    let ?prov = "\<lparr>pp_tokenIn = pc_tokenIn pc, pp_tokenOut = pc_tokenOut pc,
                         pp_combinations = ef_combinations enc,
                         pp_terminalInput = bigint_to_string (ef_terminalInput enc),
                         pp_nominalTerminalInput = bigint_to_string (ef_nominalTerminalInput enc),
                         pp_capReasons = ef_capReasons enc\<rparr>"
    let ?st1 = "st\<lparr>dv_levels := dv_levels st @ [?pair], dv_provenance := dv_provenance st @ [?prov]\<rparr>"
    have "optimal_pair (de_retained env) n ?pair" using False quotes
      unfolding optimal_pair_def price_levels.select_convs by blast
    then have "derive_inv env n ?st1" using inv room by (auto simp: derive_inv_def within_work_def)
    then have inv2: "derive_inv env n (update_last f ?st1)" for f by (rule derive_inv_steady [OF _ steady_last])
    from keeps_steady [OF inv2 truncation_scan_steady] inv2 False show ?thesis
      by (simp add: publish_pair_def Let_def)
  qed
qed

lemma encode_keeps:
  assumes e: "env_ok env n" and pc: "pair_ok env pc" and inv: "derive_inv env n st"
    and room: "int (length (dv_levels st)) < rl_maxPairs (de_limits env)"
    and ex: "exact_inv (pc_bucket pc) (pc_tokenIn pc) (pc_tokenOut pc) n exact"
    and cov: "\<And>S. subseq S (pc_bucket pc) \<Longrightarrow> S \<noteq> [] \<Longrightarrow> length S \<le> n
       \<Longrightarrow> feasible (pc_tokenIn pc) (pc_tokenOut pc) S \<Longrightarrow> covered (pc_tokenIn pc) (pc_tokenOut pc) exact S"
    and fr: "bestOutputFrontier cmp exact cb polls = ((frontier, None), polls')"
  shows "keeps_inv env n (encode_pair env pc (apply_minimum minimum frontier) st)"
proof -
  let ?fr = "apply_minimum minimum frontier" and ?mw = "rl_maxWirePointsPerPair (de_limits env)"
  note b = pair_ok_bucket [OF e pc]
  have "\<forall>c \<in> set ?fr. entry_ok c"
  proof
    fix c assume c: "c \<in> set ?fr"
    obtain cs where cs: "mset cs = mset (map snd exact)" "frontier = records 0 cs"
      using bestOutputFrontier_records [OF exact_inv_ok [OF ex] fr] by metis
    have "set frontier \<subseteq> snd ` set exact"
      using records_subset [of 0 cs] mset_eq_setD [OF cs(1)] cs(2) by auto
    with c have "c \<in> snd ` set exact" by (auto simp: apply_minimum_def split: option.splits)
    then show "entry_ok c" using exact_inv_entries [OF ex] b(1) by (simp add: bucket_ok_def)
  qed
  from longestEncodable_returns [OF this b(4,5), of ?mw] obtain enc rs where
    l: "longestEncodableFrontier ?fr ?mw (pc_tokenIn pc) (pc_tokenOut pc) = Inr (enc, rs)" by (metis surj_pair)
  show ?thesis
  proof (cases enc)
    case None
    have "keeps_inv env n (Inr (withhold_all env pc [] st))"
      by (rule keeps_steady [OF inv withhold_all_steady])
    moreover have "keeps_inv env n (Inr (withhold_all env pc rs (pair_reason r st)))" for r
      by (rule keeps_steady [OF derive_inv_steady [OF inv steady_reason] withhold_all_steady])
    ultimately show ?thesis using l None by (cases rs) (simp_all add: encode_pair_def)
  next
    case (Some en)
    have mw: "?mw \<le> 64" using e by (simp add: env_ok_def)
    have q: "\<exists>lo hi. 0 < lo \<and> lo < hi \<and> (\<forall>x. relay_interpolateQuote (ef_levels en) x =
       Inr (if lo \<le> x \<and> x \<le> hi then Some (best_payout (de_retained env) (pc_tokenIn pc) (pc_tokenOut pc) n x) else None))"
      using encoded_optimal [OF ex cov fr l [unfolded Some] mw] unfolding b(3) .
    have "keeps_inv env n (thenD (poll_pair env pc st) (publish_pair env pc ?fr rs en))"
    proof (rule keeps_thenD [OF inv poll_pair_steady])
      fix st' assume st': "poll_pair env pc st = (Go, st')" "derive_inv env n st'"
      have "dv_levels st' = dv_levels st" using poll_pair_go [OF st'(1)] by (simp add: steady_def)
      then show "keeps_inv env n (publish_pair env pc ?fr rs en st')"
        using room by (intro publish_keeps [OF e st'(2) _ q]) simp
    qed
    with l Some show ?thesis by (simp add: encode_pair_def)
  qed
qed

lemma price_keeps:
  assumes e: "env_ok env n" and pc: "pair_ok env pc" and inv: "derive_inv env n st"
    and room: "int (length (dv_levels st)) < rl_maxPairs (de_limits env)"
    and ex: "exact_inv (pc_bucket pc) (pc_tokenIn pc) (pc_tokenOut pc) n (sr_exact search)"
    and cov: "\<And>S. subseq S (pc_bucket pc) \<Longrightarrow> S \<noteq> [] \<Longrightarrow> length S \<le> n
       \<Longrightarrow> feasible (pc_tokenIn pc) (pc_tokenOut pc) S \<Longrightarrow> covered (pc_tokenIn pc) (pc_tokenOut pc) (sr_exact search) S"
  shows "keeps_inv env n (price_pair env pc minimum search st)"
  unfolding price_pair_def
proof (rule keeps_thenD [OF inv poll_pair_steady])
  fix st1 assume st1: "poll_pair env pc st = (Go, st1)" "derive_inv env n st1"
  have lv: "dv_levels st1 = dv_levels st" using poll_pair_go [OF st1(1)] by (simp add: steady_def)
  obtain frontier reason p where fr: "bestOutputFrontier (de_comparisons env) (sr_exact search)
      (do_shouldAbort (de_options env)) (dg_polls (dv_diag st1)) = ((frontier, reason), p)" by (metis surj_pair)
  let ?st2 = "st1\<lparr>dv_diag := (dv_diag st1)\<lparr>dg_polls := p\<rparr>\<rparr>"
  have inv2: "derive_inv env n ?st2" by (rule derive_inv_steady [OF st1(2) steady_polls])
  have "keeps_inv env n (encode_pair env pc (apply_minimum minimum frontier) ?st2)" if "reason = None"
    using fr that room lv by (intro encode_keeps [OF e pc inv2 _ ex cov]) simp_all
  with fr keeps_steady [OF inv2 abandon_steady] keeps_steady [OF inv2 withhold_steady]
  show "keeps_inv env n (case bestOutputFrontier (de_comparisons env) (sr_exact search) (do_shouldAbort (de_options env))
              (dg_polls (dv_diag st1)) of
         ((frontier, reason), p) \<Rightarrow>
           let st2 = st1\<lparr>dv_diag := (dv_diag st1)\<lparr>dg_polls := p\<rparr>\<rparr> in
           case reason of
             Some r \<Rightarrow> Inr (abandon env pc r st2)
           | None \<Rightarrow>
               let frontier1 = apply_minimum minimum frontier in
               if frontier1 = []
               then Inr (withhold env pc
                      (if sr_amountCappedSubsets search > 0 then R_settlement_amount_cap
                       else if sr_unsafeMergeOrderSubsets search > 0 then R_unsafe_merge_order
                       else R_minimum_output) None st2)
               else encode_pair env pc frontier1 st2)"
    by (cases reason) (simp_all add: Let_def)
qed

lemma diag_frame_steady:
  assumes "diag_frame (dv_diag st) d" "dg_discoveryWork d \<le> rl_maxDiscoveryWork (de_limits env)"
  shows "steady env st (st\<lparr>dv_diag := d\<rparr>)"
  using assms by (simp add: steady_def diag_frame_def within_work_def)

lemma note_search_steady: "steady env st (note_search search st)"
proof -
  have "steady env st (update_last f st)" for f by (rule steady_last)
  then show ?thesis by (simp add: note_search_def Let_def steady_def within_work_def)
qed

lemma search_keeps:
  assumes e: "env_ok env n" and pc: "pair_ok env pc" and inv: "derive_inv env n st"
    and room: "int (length (dv_levels st)) < rl_maxPairs (de_limits env)"
  shows "keeps_inv env n (search_pair env pc minimum st)"
proof -
  let ?g = "de_graph env" and ?in = "pc_tokenIn pc" and ?out = "pc_tokenOut pc"
  have g: "graph_ok (de_retained env) ?g" and n: "int n = rl_maxMakersPerCombination (de_limits env)" "1 \<le> n" "n \<le> 8"
    using e by (auto simp: env_ok_def)
  have "\<exists>i. gr_indexByToken ?g t = Some i \<and> in_range (gr_tokenAt ?g) (int i) t" if t: "t \<in> tokens_of (de_retained env)" for t
  proof -
    from t g have "t \<in> set (gr_tokenAt ?g)" by (simp add: graph_ok_def)
    then obtain i where "i < length (gr_tokenAt ?g)" "gr_tokenAt ?g ! i = t" by (auto simp: in_set_conv_nth)
    with g show ?thesis by (auto simp: graph_ok_def in_range_def)
  qed
  then obtain i out where ix: "gr_indexByToken ?g ?in = Some i" "in_range (gr_tokenAt ?g) (int i) ?in"
    "gr_indexByToken ?g ?out = Some out" "in_range (gr_tokenAt ?g) (int out) ?out"
    using pc unfolding pair_ok_def by meson
  note b = pair_ok_bucket [OF e pc]
  have dist: "distinct (gr_tokenAt ?g)" using g by (simp add: graph_ok_def)
  have ne: "?in \<noteq> ?out" using pc by (simp add: pair_ok_def)
  have scr: "empty_scratch (gr_tokenAt ?g) (dv_scratch st)" using inv by (simp add: derive_inv_def)
  have bud: "dg_discoveryWork (dv_diag st) \<le> bc_maxDiscoveryWork (budget_of env st)"
    using inv by (simp add: derive_inv_def within_work_def budget_of_def)
  obtain r d where s: "enumeratePair (pc_bucket pc) ?in ?out (int i) (int out) (gr_tokenAt ?g) (dv_scratch st)
      (de_limits env) (budget_of env st) (dv_diag st) = Inr (r, dv_scratch st, d)"
    and ex: "exact_inv (pc_bucket pc) ?in ?out n (sr_exact r)"
    and w: "dg_discoveryWork d \<le> bc_maxDiscoveryWork (budget_of env st)"
    and cov: "\<And>S. sr_reason r = None \<Longrightarrow> subseq S (pc_bucket pc) \<Longrightarrow> S \<noteq> [] \<Longrightarrow> length S \<le> n
       \<Longrightarrow> feasible ?in ?out S \<Longrightarrow> covered ?in ?out (sr_exact r) S"
    by (rule enumeratePair_spec [OF b(1) ne n dist b(2) ix(2,4) scr bud]) blast
  let ?st1 = "note_search r (st\<lparr>dv_scratch := dv_scratch st, dv_diag := d\<rparr>)"
  have "steady env st (st\<lparr>dv_diag := d\<rparr>)"
    using enumeratePair_diag [OF s] w by (intro diag_frame_steady) (simp_all add: budget_of_def)
  then have st: "steady env st ?st1" using steady_trans [OF _ note_search_steady] by simp
  then have inv1: "derive_inv env n ?st1" by (rule derive_inv_steady [OF inv])
  have "dv_levels ?st1 = dv_levels st" using st by (simp add: steady_def)
  with room have room1: "int (length (dv_levels ?st1)) < rl_maxPairs (de_limits env)" by simp
  have "keeps_inv env n (price_pair env pc minimum r ?st1)" if "sr_reason r = None"
    by (rule price_keeps [OF e pc inv1 room1 ex cov]) (use that in simp_all)
  with s ix(1,3) keeps_steady [OF inv1 abandon_steady] keeps_steady [OF inv1 withhold_steady]
  show ?thesis by (cases "sr_reason r") (simp_all add: search_pair_def Let_def)
qed

lemma body_keeps:
  assumes "env_ok env n" "pair_ok env pc" "derive_inv env n st"
  shows "keeps_inv env n (pair_body env pc st)"
proof -
  have s: "keeps_inv env n (thenD (poll_pair env pc st) (search_pair env pc minimum))"
    if room: "int (length (dv_levels st)) < rl_maxPairs (de_limits env)" for minimum
  proof (rule keeps_thenD [OF assms(3) poll_pair_steady])
    fix st' assume st': "poll_pair env pc st = (Go, st')" "derive_inv env n st'"
    have "dv_levels st' = dv_levels st" using poll_pair_go [OF st'(1)] by (simp add: steady_def)
    with room show "keeps_inv env n (search_pair env pc minimum st')"
      by (intro search_keeps [OF assms(1,2) st'(2)]) simp
  qed
  have w: "keeps_inv env n (Inr (withhold env pc r None st))" for r by (rule keeps_steady [OF assms(3) withhold_steady])
  show ?thesis using s w by (simp add: pair_body_def Let_def not_le)
qed

lemma step_keeps:
  assumes "env_ok env n" "pair_ok env pc" "derive_inv env n st"
  shows "keeps_inv env n (pair_step env pc st)"
proof (cases "dg_candidatePairsExamined (dv_diag st) \<ge> rl_maxCandidatePairs (de_limits env)")
  case True
  then show ?thesis using keeps_steady [OF assms(3), of "(Break_discovery, stop_with R_candidate_pair_cap st)"]
    by (simp add: pair_step_def steady_stop)
next
  case False
  obtain a d where c: "charge (budget_of env st) 1 Discovery (dv_diag st) = (a, d)" by fastforce
  note s = steady_charge [OF c]
  show ?thesis
  proof (cases a)
    case (Some r)
    have "derive_inv env n (stop_with r (st\<lparr>dv_diag := d\<rparr>))"
      by (rule derive_inv_steady [OF assms(3) steady_trans [OF s steady_stop]])
    with False c Some show ?thesis by (simp add: pair_step_def Let_def)
  next
    case None
    let ?d1 = "d\<lparr>dg_candidatePairsExamined := dg_candidatePairsExamined d + 1, dg_pairs := dg_pairs d @ [new_pair pc]\<rparr>"
    have "derive_inv env n (st\<lparr>dv_diag := d\<rparr>)" by (rule derive_inv_steady [OF assms(3) s])
    then have "derive_inv env n (st\<lparr>dv_diag := ?d1\<rparr>)"
      using False s by (simp add: derive_inv_def within_work_def steady_def)
    from body_keeps [OF assms(1,2) this] obtain fl st1 where
      b: "pair_body env pc (st\<lparr>dv_diag := ?d1\<rparr>) = Inr (fl, st1)" "derive_inv env n st1" by (rule keeps_invE)
    have "derive_inv env n (update_last f st1)" for f by (rule derive_inv_steady [OF b(2) steady_last])
    with False c None b(1) show ?thesis by (simp add: pair_step_def Let_def)
  qed
qed

lemma outputs_keep:
  assumes e: "env_ok env n" and c0: "gr_componentByToken (de_graph env) tokenIn = Some c0"
    and bucket: "bucket = filter (in_universe (de_graph env) c0) (de_retained env)"
  shows "set outs \<subseteq> tokens_of (de_retained env) \<Longrightarrow> derive_inv env n st
    \<Longrightarrow> keeps_inv env n (output_loop env bid bucket tokenIn outs st)"
proof (induction outs arbitrary: st)
  case (Cons tokenOut rest)
  have tin: "tokenIn \<in> tokens_of (de_retained env)" using e c0 by (auto simp: env_ok_def graph_ok_def)
  show ?case
  proof (cases "tokenOut = tokenIn")
    case True
    with Cons show ?thesis by simp
  next
    case False
    let ?pc = "\<lparr>pc_id = bid, pc_bucket = bucket, pc_tokenIn = tokenIn, pc_tokenOut = tokenOut\<rparr>"
    have "pair_ok env ?pc" using False tin c0 bucket Cons.prems(1) by (simp add: pair_ok_def)
    from step_keeps [OF e this Cons.prems(2)] obtain fl st1 where
      s: "pair_step env ?pc st = Inr (fl, st1)" "derive_inv env n st1" by (rule keeps_invE)
    with Cons False show ?thesis by simp
  qed
qed simp

lemma universe_for_inv:
  assumes e: "env_ok env n" and c0: "c0 \<in> set (gr_components (de_graph env))" and inv: "derive_inv env n st"
  shows "\<exists>u st'. universeFor env c0 st = Inr (u, st') \<and> derive_inv env n st'
    \<and> (\<forall>uv. u = Inr uv \<longrightarrow> universe_ok env c0 uv)"
proof (cases "map_of (dv_universeCache st) (dc_root c0)")
  case (Some uv)
  with inv c0 have "universe_ok env c0 uv" by (auto simp: derive_inv_def)
  with Some inv show ?thesis by (simp add: universeFor_def)
next
  case None
  obtain r d where b: "build_universe (budget_of env st) (de_graph env) (de_cyclic env) (de_retained env) c0 (dv_diag st)
      = Some (r, d)" "work_moved (budget_of env st) (dv_diag st) d"
    "case r of Inl reason \<Rightarrow> reason \<in> stop_reasons | Inr uv \<Rightarrow> universe_ok env c0 uv"
    using build_universe_runs [OF e c0] unfolding runs_def by meson
  have inv1: "derive_inv env n (st\<lparr>dv_diag := d\<rparr>)" by (rule derive_inv_steady [OF inv steady_moved [OF b(2)]])
  show ?thesis
  proof (cases r)
    case (Inl reason)
    with None b inv1 show ?thesis by (simp add: universeFor_def run_budgeted_def)
  next
    case (Inr uv)
    then have ok: "universe_ok env c0 uv" using b(3) by simp
    have inj: "inj_on dc_root (set (gr_components (de_graph env)))" using e by (simp add: env_ok_def graph_ok_def)
    let ?st = "st\<lparr>dv_diag := d, dv_universeCache := AList.update (dc_root c0) uv (dv_universeCache st)\<rparr>"
    have "universe_ok env c u" if "c \<in> set (gr_components (de_graph env))"
      "map_of (dv_universeCache ?st) (dc_root c) = Some u" for c u
    proof (cases "dc_root c = dc_root c0")
      case True
      then have "c = c0" using inj that(1) c0 by (auto dest: inj_onD)
      with that(2) ok show ?thesis by (simp add: update_conv')
    next
      case False
      with that inv show ?thesis by (simp add: derive_inv_def update_conv')
    qed
    then have "derive_inv env n ?st" using inv1 unfolding derive_inv_def within_work_def by simp
    with None b(1) Inr ok show ?thesis by (simp add: universeFor_def run_budgeted_def)
  qed
qed

lemma inputs_keep:
  assumes e: "env_ok env n"
  shows "set ins \<subseteq> tokens_of (de_retained env) \<Longrightarrow> derive_inv env n st \<Longrightarrow> keeps_inv env n (input_loop env ins st)"
proof (induction ins arbitrary: st)
  case (Cons tokenIn rest)
  have g: "graph_ok (de_retained env) (de_graph env)" using e by (simp add: env_ok_def)
  obtain c0 where c0: "gr_componentByToken (de_graph env) tokenIn = Some c0" "c0 \<in> set (gr_components (de_graph env))"
    using graph_component [OF g, of tokenIn] Cons.prems(1) by auto
  obtain u st1 where u: "universeFor env c0 st = Inr (u, st1)" "derive_inv env n st1"
    "\<forall>uv. u = Inr uv \<longrightarrow> universe_ok env c0 uv" using universe_for_inv [OF e c0(2) Cons.prems(2)] by blast
  show ?case
  proof (cases u)
    case (Inl r)
    have "derive_inv env n (stop_with r st1)" by (rule derive_inv_steady [OF u(2) steady_stop])
    with c0(1) u(1) Inl show ?thesis by simp
  next
    case (Inr uv)
    with u(3) have ok: "uv_offers uv = filter (in_universe (de_graph env) c0) (de_retained env)"
      "set (uv_outputs uv) = cr_tokenOut ` set (uv_offers uv)" by (auto simp: universe_ok_def)
    then have "set (uv_outputs uv) \<subseteq> tokens_of (de_retained env)" by (auto simp: tokens_of_def)
    from outputs_keep [OF e c0(1) ok(1) this u(2)] obtain fl st2 where
      o: "output_loop env (Universe_of (dc_root c0)) (uv_offers uv) tokenIn (uv_outputs uv) st1 = Inr (fl, st2)"
      "derive_inv env n st2" by (rule keeps_invE)
    with c0(1) u(1) Inr Cons show ?thesis by simp
  qed
qed simp

section \<open>From the source offers to the pairs\<close>

lemma resolved_limits:
  assumes "resolveLadderResourceLimits controls = Inr l"
  shows "1 \<le> get_limit l f \<and> get_limit l f \<le> get_limit HARD_LADDER_RESOURCE_LIMITS f"
proof -
  have h: "1 \<le> get_limit HARD_LADDER_RESOURCE_LIMITS f"
    by (cases f) (simp_all add: HARD_LADDER_RESOURCE_LIMITS_def MAX_RUNGS_PER_PAIR_def MAX_PAIRS_PER_PUSH_def)
  show ?thesis
  proof (cases controls)
    case None
    with assms h show ?thesis by (auto simp: resolveLadderResourceLimits_def DEFAULT_LADDER_RESOURCE_LIMITS_def)
  next
    case (Some c)
    with assms resolve_fields_cases [OF all_limit_names(2), of c DEFAULT_LADDER_RESOURCE_LIMITS] all_limit_names(1)
    have "get_limit l f = controlled c HARD_LADDER_RESOURCE_LIMITS f" "\<And>v. c f = Some v \<Longrightarrow> valid_control f v"
      by (auto simp: resolveLadderResourceLimits_def DEFAULT_LADDER_RESOURCE_LIMITS_def)
    with h show ?thesis
      by (cases "c f") (auto simp: controlled_def valid_control_def split: js_number.splits)
  qed
qed

lemma collect_cyclic_runs: "runs ctx (collect_cyclic ctx cs) (\<lambda>cyc. cyc = filter dc_cyclic cs)"
  unfolding collect_cyclic_def
  by (rule runs_fold [where P = "\<lambda>xs cyc. cyc = filter dc_cyclic xs"]) (auto intro!: runs_charge_then runs_return)

lemma collect_wanted_runs: "runs ctx (collect_wanted ctx R) (\<lambda>ws. set ws = cr_tokenIn ` set R)"
  unfolding collect_wanted_def
proof (rule runs_bind)
  show "runs ctx (foldB (\<lambda>c ws. bindB (chargeB ctx) (\<lambda>_. returnB (set_add (cr_tokenIn c) ws))) R [])
    (\<lambda>ws. set ws = cr_tokenIn ` set R)"
    by (rule runs_fold [where P = "\<lambda>xs ws. set ws = cr_tokenIn ` set xs"]) (auto intro!: runs_charge_then runs_return)
qed (auto intro!: runs_bind [OF runs_sort] runs_return)

definition prepared :: "crossable list \<Rightarrow> discovery_graph \<times> crossable list \<times> discovery_component list \<times> string list \<Rightarrow> bool" where
  "prepared R p \<longleftrightarrow> (case p of (g, ixd, cyc, wantedTokens) \<Rightarrow> graph_ok R g \<and> ixd = map (reindex (gr_indexByToken g)) R
     \<and> cyc = filter dc_cyclic (gr_components g) \<and> set wantedTokens = cr_tokenIn ` set R)"

lemma prepare_runs: "runs ctx (prepare ctx R) (prepared R)"
  unfolding prepare_def
proof (rule runs_bind [OF buildDiscoveryGraph_runs], clarify)
  fix g :: discovery_graph
  assume g: "graph_ok R g"
  let ?ix = "map (reindex (gr_indexByToken g)) R"
  show "runs ctx (bindB (collect_cyclic ctx (gr_components g)) (\<lambda>cyc.
     bindB (collect_wanted ctx ?ix) (\<lambda>wantedTokens. returnB (g, ?ix, cyc, wantedTokens)))) (prepared R)"
    by (rule runs_bind [OF collect_cyclic_runs], rule runs_bind [OF collect_wanted_runs], rule runs_return)
      (use g in \<open>auto simp: prepared_def image_image\<close>)
qed

lemma prepared_env:
  assumes p: "prepared R (g, ixd, cyc, wantedTokens)" and bk: "bucket_ok R"
    and l: "resolveLadderResourceLimits controls = Inr (de_limits env)"
  shows "env_ok (env\<lparr>de_graph := g, de_retained := ixd, de_cyclic := cyc\<rparr>)
      (nat (rl_maxMakersPerCombination (de_limits env)))"
    "set wantedTokens \<subseteq> tokens_of ixd"
proof -
  from p have g: "graph_ok R g" and ixd: "ixd = map (reindex (gr_indexByToken g)) R"
    and cyc: "cyc = filter dc_cyclic (gr_components g)" and ws: "set wantedTokens = cr_tokenIn ` set R"
    by (auto simp: prepared_def)
  have "\<exists>i. gr_indexByToken g t = Some i \<and> in_range (gr_tokenAt g) (int i) t" if "t \<in> tokens_of R" for t
    using that g unfolding graph_ok_def in_range_def by (metis in_set_conv_nth nat_int of_nat_0_le_iff)
  then have tok: "in_range (gr_tokenAt g) (int (the (gr_indexByToken g t))) t" if "t \<in> tokens_of R" for t
    using that by fastforce
  have "indexed (gr_tokenAt g) c" if "c \<in> set ixd" for c
    using that tok by (auto simp: ixd indexed_def reindex_def tokens_of_def)
  moreover have "1 \<le> rl_maxMakersPerCombination (de_limits env) \<and> rl_maxMakersPerCombination (de_limits env) \<le> 8"
    using resolved_limits [OF l, of MaxMakersPerCombination]
    by (simp add: HARD_LADDER_RESOURCE_LIMITS_def MAX_PHYSICAL_MAKERS_PER_MERGE_def)
  moreover have "rl_maxWirePointsPerPair (de_limits env) \<le> 64"
    using resolved_limits [OF l, of MaxWirePointsPerPair]
    by (simp add: HARD_LADDER_RESOURCE_LIMITS_def MAX_RUNGS_PER_PAIR_def)
  moreover have "bucket_ok ixd" using bk by (simp add: bucket_ok_def ixd comp_def)
  moreover have "1 \<le> nat m \<and> nat m \<le> 8" if "1 \<le> m \<and> m \<le> 8" for m :: int
    using that by linarith
  ultimately show "env_ok (env\<lparr>de_graph := g, de_retained := ixd, de_cyclic := cyc\<rparr>)
      (nat (rl_maxMakersPerCombination (de_limits env)))"
    using g cyc unfolding env_ok_def by (simp add: ixd graph_ok_reindex)
  show "set wantedTokens \<subseteq> tokens_of ixd" by (auto simp: ws ixd tokens_of_def image_image)
qed

text \<open>What the common end guarantees.\<close>

definition outcome_ok :: "crossable list \<Rightarrow> resource_limits \<Rightarrow> derived_ladder \<Rightarrow> bool" where
  "outcome_ok R limits d \<longleftrightarrow> dl_limits d = limits
     \<and> list_all (optimal_pair R (nat (rl_maxMakersPerCombination limits))) (dl_levels d)
     \<and> int (length (dl_levels d)) \<le> rl_maxPairs limits
     \<and> dg_discoveryWork (dl_diagnostics d) \<le> rl_maxDiscoveryWork limits
     \<and> dg_candidatePairsExamined (dl_diagnostics d) \<le> rl_maxCandidatePairs limits
     \<and> dl_tokenIds d = sort (js_uniq (concat (map (\<lambda>p. [pv_tokenIn p, pv_tokenOut p]) (dl_levels d))))
     \<and> (cancelled (dg_stopReason (dl_diagnostics d)) \<longrightarrow> dl_levels d = [] \<and> dl_provenance d = [] \<and> dl_tokenIds d = [])"

lemma exclusion_scan_stop:
  "exclusion_scan env r detail bucket st = (fl, st') \<Longrightarrow> cancelled (dv_globalStop st) \<Longrightarrow> dv_globalStop st' = dv_globalStop st"
proof (induction env r detail bucket st rule: exclusion_scan.induct)
  case (2 env reason detail offer rest st)
  obtain a d where c: "charge (budget_of env st) 1 Discovery (dv_diag st) = (a, d)" by fastforce
  show ?case
  proof (cases a)
    case None
    let ?st = "addPairExclusion \<lparr>lx_offerHash = cr_offerHash offer, lx_reason = reason, lx_detail = detail\<rparr> (st\<lparr>dv_diag := d\<rparr>)"
    have g: "dv_globalStop ?st = dv_globalStop st" by (simp add: addPairExclusion_def Let_def)
    with "2.IH" [OF c [symmetric] None] "2.prems" c None show ?thesis by simp
  next
    case (Some x)
    with "2.prems" c show ?thesis by (auto split: if_splits)
  qed
qed simp

lemma addPairExclusions_stop:
  assumes "cancelled (dv_globalStop st)"
  shows "dv_globalStop (snd (addPairExclusions env bid bucket r detail st)) = dv_globalStop st"
proof -
  let ?rs = "case map_of (dv_excludedUniverses st) bid of Some rs \<Rightarrow> rs | None \<Rightarrow> []"
  let ?st1 = "st\<lparr>dv_excludedUniverses := AList.update bid ?rs (dv_excludedUniverses st)\<rparr>"
  obtain fl st2 where e: "exclusion_scan env r detail bucket ?st1 = (fl, st2)" by fastforce
  from exclusion_scan_stop [OF e] assms e show ?thesis by (cases fl) (auto simp: addPairExclusions_def Let_def)
qed

lemma withdraw_cancelled_inv:
  assumes "derive_inv env n st"
  shows "derive_inv env n (withdraw_cancelled env st)"
    "cancelled (dv_globalStop (withdraw_cancelled env st)) \<Longrightarrow>
       dv_levels (withdraw_cancelled env st) = [] \<and> dv_provenance (withdraw_cancelled env st) = []"
proof -
  have "derive_inv env n (withdraw_cancelled env st) \<and> (cancelled (dv_globalStop (withdraw_cancelled env st)) \<longrightarrow>
       dv_levels (withdraw_cancelled env st) = [] \<and> dv_provenance (withdraw_cancelled env st) = [])"
  proof (cases "cancelled (dv_globalStop st)")
    case True
    then obtain r where r: "dv_globalStop st = Some r" "r = R_aborted \<or> r = R_abort_check_failed" by auto
    let ?d = "dv_diag st"
    let ?st1 = "st\<lparr>dv_diag := ?d\<lparr>dg_pairs := map (withdraw_pair (Some r)) (dg_pairs ?d)\<rparr>\<rparr>"
    obtain fl st2 where a: "addPairExclusions env Retained_offers (de_retained env) r None ?st1 = (fl, st2)" by fastforce
    have w: "withdraw_cancelled env st = st2\<lparr>dv_levels := [], dv_provenance := []\<rparr>"
      using r a by (simp add: withdraw_cancelled_def Let_def)
    have "derive_inv env n ?st1" using assms by (simp add: derive_inv_def within_work_def)
    moreover have "steady env ?st1 st2"
      using addPairExclusions_steady [of env ?st1 Retained_offers "de_retained env" r None] a by simp
    ultimately have "derive_inv env n st2" by (rule derive_inv_steady)
    then have "derive_inv env n (st2\<lparr>dv_levels := [], dv_provenance := []\<rparr>)"
      by (auto simp: derive_inv_def within_work_def)
    with w show ?thesis by simp
  next
    case False
    then have "withdraw_cancelled env st = st"
      by (auto simp: withdraw_cancelled_def split: option.split)
    with assms False show ?thesis by simp
  qed
  then show "derive_inv env n (withdraw_cancelled env st)"
    "cancelled (dv_globalStop (withdraw_cancelled env st)) \<Longrightarrow>
       dv_levels (withdraw_cancelled env st) = [] \<and> dv_provenance (withdraw_cancelled env st) = []" by auto
qed

lemma finish_outcome:
  assumes "derive_inv env (nat (rl_maxMakersPerCombination (de_limits env))) st"
  shows "outcome_ok (de_retained env) (de_limits env) (finish env st)"
proof -
  note w = withdraw_cancelled_inv [OF assms]
  show ?thesis
    using w(1) w(2) by (auto simp: outcome_ok_def finish_def Let_def derive_inv_def within_work_def list_all_iff js_uniq_def)
qed

lemma outcome_reindex: "outcome_ok (map (reindex idx) R) limits d \<longleftrightarrow> outcome_ok R limits d"
proof -
  have "optimal_pair (map (reindex idx) R) n p \<longleftrightarrow> optimal_pair R n p" for n p
    unfolding optimal_pair_def best_payout_reindex ..
  then show ?thesis by (simp add: outcome_ok_def list_all_iff)
qed

lemma outcome_empty:
  assumes "dg_discoveryWork d \<le> rl_maxDiscoveryWork limits" "dg_candidatePairsExamined d \<le> rl_maxCandidatePairs limits"
    "0 \<le> rl_maxPairs limits"
  shows "outcome_ok R limits (emptyDerived limits d excluded)"
  using assms by (simp add: outcome_ok_def emptyDerived_def js_uniq_def)

end
