(* ===== verification/Ladder_Outcome.thy ===== *)
theory Ladder_Outcome
  imports Ladder_Optimal
begin

text \<open>
  The contract of \<open>deriveLadder\<close>: it always returns, each published pair quotes the best payout
  any set of eligible offers can make, the resource limits bound the run, and a cancelled run
  publishes nothing. The graph and the pruning it rests on have their properties here too.
\<close>

section \<open>Eligible offers\<close>

text \<open>
  The specification of the offers a derivation may use: the accepted ones of the source, whose hash
  is listed once, and that share no coin with an earlier kept one.
\<close>

definition accepted :: "derive_options \<Rightarrow> source_offer list \<Rightarrow> crossable list" where
  "accepted options offers = concat (map (\<lambda>offer.
     case toCrossable offer options (map toLowerCase (do_unavailableOfferHashes options)) of
       Inl r \<Rightarrow> [] | Inr c \<Rightarrow> [c]) offers)"

definition unique_offers :: "crossable list \<Rightarrow> crossable list" where
  "unique_offers cs = filter (\<lambda>c. hash_count cs (cr_offerHash c) = 1) (sort_key cr_offerHash cs)"

definition eligible :: "derive_options \<Rightarrow> source_offer list \<Rightarrow> crossable list" where
  "eligible options offers = fst (claim_coins (unique_offers (accepted options offers)) [] ([], []))"

lemma accepted_simps [simp]:
  "accepted options [] = []"
  "accepted options (offer # rest) =
     (case toCrossable offer options (map toLowerCase (do_unavailableOfferHashes options)) of
        Inl r \<Rightarrow> accepted options rest | Inr c \<Rightarrow> c # accepted options rest)"
  by (simp_all add: accepted_def split: sum.split)

lemma scan_sources_result:
  assumes "scan_sources options (map toLowerCase (do_unavailableOfferHashes options)) limits offers (cs, ex, d)
    = (r, cs', ex', d')"
  shows "(r = None \<longrightarrow> cs' = cs @ accepted options offers \<and> dg_stopReason d' = dg_stopReason d)
    \<and> dg_discoveryWork d' = dg_discoveryWork d \<and> dg_candidatePairsExamined d' = dg_candidatePairsExamined d"
  using assms
proof (induction offers arbitrary: cs ex d)
  case (Cons offer rest)
  let ?u = "map toLowerCase (do_unavailableOfferHashes options)"
  let ?d1 = "d\<lparr>dg_sourceOffersScanned := dg_sourceOffersScanned d + 1\<rparr>"
  show ?case
  proof (cases "dg_sourceOffersScanned ?d1 > rl_maxSourceOffers limits")
    case True
    with Cons.prems show ?thesis by (auto simp: Let_def)
  next
    case small: False
    obtain a p where a: "abortReason (do_shouldAbort options) (dg_polls ?d1) = (a, p)" by fastforce
    show ?thesis
    proof (cases a)
      case None
      let ?st = "case toCrossable offer options ?u of
                  Inl r \<Rightarrow> (cs, ex @ [exclusion (excludedHash offer) r], ?d1\<lparr>dg_polls := p\<rparr>)
                | Inr c \<Rightarrow> (cs @ [c], ex, ?d1\<lparr>dg_polls := p\<rparr>)"
      from Cons.prems small a None have "scan_sources options ?u limits rest ?st = (r, cs', ex', d')"
        by (simp add: Let_def)
      with Cons.IH show ?thesis by (cases "toCrossable offer options ?u") fastforce+
    next
      case (Some x)
      with Cons.prems small a show ?thesis by (auto simp: Let_def)
    qed
  qed
qed simp

lemma claim_coins_retained: "fst (claim_coins cs claimed (R, ex)) = R @ fst (claim_coins cs claimed ([], ex'))"
proof (induction cs arbitrary: claimed R ex ex')
  case (Cons c cs)
  show ?case
  proof (cases "list_ex (\<lambda>n. n \<in> set claimed) (cr_nullifiers c)")
    case True
    then show ?thesis using Cons.IH by simp
  next
    case False
    have "fst (claim_coins cs (claimed @ cr_nullifiers c) (R @ [c], ex))
        = (R @ [c]) @ fst (claim_coins cs (claimed @ cr_nullifiers c) ([], []))" by (rule Cons.IH)
    moreover have "fst (claim_coins cs (claimed @ cr_nullifiers c) ([] @ [c], ex'))
        = ([] @ [c]) @ fst (claim_coins cs (claimed @ cr_nullifiers c) ([], []))" by (rule Cons.IH)
    ultimately show ?thesis using False by simp
  qed
qed simp

lemma claim_coins_subseq: "subseq (fst (claim_coins cs claimed ([], ex))) cs"
proof (induction cs arbitrary: claimed ex)
  case (Cons c cs)
  have "fst (claim_coins cs (claimed @ cr_nullifiers c) ([c], ex))
      = [c] @ fst (claim_coins cs (claimed @ cr_nullifiers c) ([], ex))" by (rule claim_coins_retained)
  with Cons.IH show ?case by (auto simp: list_emb_Cons2 subseq_Cons')
qed simp

lemma drop_duplicates_fst: "fst (drop_duplicates cs ex) = unique_offers cs"
proof -
  have "\<not> 1 < hash_count cs (cr_offerHash c) \<longleftrightarrow> hash_count cs (cr_offerHash c) = 1" if "c \<in> set cs" for c
  proof -
    have "c \<in> set (filter (\<lambda>x. cr_offerHash x = cr_offerHash c) cs)" using that by simp
    then have "0 < hash_count cs (cr_offerHash c)" by (auto simp: hash_count_def simp del: set_filter)
    then show ?thesis by linarith
  qed
  then show ?thesis by (auto simp: drop_duplicates_def unique_offers_def Let_def intro: filter_cong)
qed

lemma eligible_retained:
  assumes "drop_duplicates (accepted options offers) ex = (unique, ex1)" "claim_coins unique [] ([], ex1) = (R, ex2)"
  shows "R = eligible options offers"
  using assms drop_duplicates_fst [of "accepted options offers" ex] claim_coins_retained [of unique "[]" "[]" ex1 "[]"]
  by (simp add: eligible_def)

lemma hash_count_sort [simp]: "hash_count (sort_key f cs) h = hash_count cs h"
  unfolding hash_count_def by (metis mset_filter mset_sort size_mset)

lemma distinct_unique_hashes:
  "(\<And>c. c \<in> set cs \<Longrightarrow> hash_count as (cr_offerHash c) = 1) \<Longrightarrow> (\<And>h. hash_count cs h \<le> hash_count as h)
     \<Longrightarrow> distinct (map cr_offerHash cs)"
proof (induction cs)
  case (Cons c cs)
  have "cr_offerHash c \<notin> cr_offerHash ` set cs"
  proof
    assume "cr_offerHash c \<in> cr_offerHash ` set cs"
    then obtain x where "x \<in> set (filter (\<lambda>x. cr_offerHash x = cr_offerHash c) cs)" by auto
    then have "2 \<le> hash_count (c # cs) (cr_offerHash c)"
      by (cases "filter (\<lambda>x. cr_offerHash x = cr_offerHash c) cs") (auto simp: hash_count_def)
    with Cons.prems(2) [of "cr_offerHash c"] Cons.prems(1) [of c] show False by simp
  qed
  moreover have "hash_count cs h \<le> hash_count as h" for h
    using Cons.prems(2) [of h] by (auto simp: hash_count_def split: if_splits)
  then have "distinct (map cr_offerHash cs)" using Cons.IH Cons.prems(1) by simp
  ultimately show ?case by auto
qed simp

lemma unique_hashes: "distinct (map cr_offerHash (unique_offers cs))"
proof (rule distinct_unique_hashes [where as = cs])
  fix h
  have "hash_count (unique_offers cs) h = length (filter (\<lambda>c. hash_count cs (cr_offerHash c) = 1)
      (filter (\<lambda>c. cr_offerHash c = h) (sort_key cr_offerHash cs)))"
    by (simp add: hash_count_def unique_offers_def conj_commute)
  also have "\<dots> \<le> hash_count (sort_key cr_offerHash cs) h" unfolding hash_count_def by (rule length_filter_le)
  finally show "hash_count (unique_offers cs) h \<le> hash_count cs h" by simp
qed (simp add: unique_offers_def)

lemma unique_offers_ok: "\<forall>c \<in> set cs. valid_crossable c \<Longrightarrow> bucket_ok (unique_offers cs)"
  using unique_hashes by (auto simp: bucket_ok_def unique_offers_def)

lemma accepted_valid: "\<forall>c \<in> set (accepted options offers). valid_crossable c"
  by (induction offers) (auto split: sum.splits dest: toCrossable_valid)

lemma eligible_ok: "bucket_ok (eligible options offers)"
proof -
  have s: "subseq (eligible options offers) (unique_offers (accepted options offers))"
    unfolding eligible_def by (rule claim_coins_subseq)
  have u: "bucket_ok (unique_offers (accepted options offers))" by (rule unique_offers_ok [OF accepted_valid])
  have "distinct (map cr_offerHash (eligible options offers))"
    by (rule subseq_hashes [OF s]) (use u in \<open>simp add: bucket_ok_def\<close>)
  moreover have "set (eligible options offers) \<subseteq> set (unique_offers (accepted options offers))"
    using s subseq_set by blast
  ultimately show ?thesis using u by (auto simp: bucket_ok_def)
qed

section \<open>Every run ends well\<close>

abbreviation max_makers :: "resource_limits \<Rightarrow> nat" where
  "max_makers limits \<equiv> nat (rl_maxMakersPerCombination limits)"

text \<open>The invariant does not look at the exclusion bookkeeping of the initial state.\<close>

lemma initial_inv:
  assumes l: "resolveLadderResourceLimits controls = Inr (de_limits env)" and c: "gr_components (de_graph env) = [] \<or> dv_universeCache st = []"
    and st: "dv_levels st = []" "dv_scratch st = empty_pair_scratch" "dv_globalStop st = dg_stopReason (dv_diag st)"
      "dg_discoveryWork (dv_diag st) \<le> rl_maxDiscoveryWork (de_limits env)" "dg_candidatePairsExamined (dv_diag st) = 0"
  shows "derive_inv env n st"
  using resolved_limits [OF l, of MaxPairs] resolved_limits [OF l, of MaxCandidatePairs] c st
  by (auto simp: derive_inv_def within_work_def empty_scratch_def empty_pair_scratch_def or_zero_def)

lemma early_stop_outcome:
  assumes l: "resolveLadderResourceLimits controls = Inr (de_limits env)"
    and inv: "derive_inv env (max_makers (de_limits env)) st"
  shows "outcome_ok (de_retained env) (de_limits env) (early_stop env r st)"
proof -
  have s: "steady env (stop_with r st) (snd (addPairExclusions env Retained_offers (de_retained env) r None (stop_with r st)))"
    by (rule addPairExclusions_steady)
  obtain fl st1 where a: "addPairExclusions env Retained_offers (de_retained env) r None (stop_with r st) = (fl, st1)" by fastforce
  with s inv have i1: "derive_inv env (max_makers (de_limits env)) st1"
    by (auto intro: derive_inv_steady steady_trans steady_stop)
  have "derive_inv env (max_makers (de_limits env)) (scan_stopped st1)"
    unfolding scan_stopped_def by (rule derive_inv_steady [OF i1 steady_last])
  then have "outcome_ok (de_retained env) (de_limits env) (finish env (scan_stopped st1))" by (rule finish_outcome)
  moreover have "outcome_ok (de_retained env) (de_limits env) (emptyDerived (de_limits env) (dv_diag st1) (dv_excluded st1))"
    using i1 resolved_limits [OF l, of MaxPairs]
    by (intro outcome_empty) (auto simp: derive_inv_def within_work_def)
  ultimately show ?thesis using a by (cases fl) (simp_all add: early_stop_def)
qed

lemma derive_pairs_outcome:
  assumes l: "resolveLadderResourceLimits controls = Inr (de_limits env)" and bk: "bucket_ok (de_retained env)"
    and g: "gr_components (de_graph env) = []"
    and st: "dv_levels st = []" "dv_scratch st = empty_pair_scratch" "dv_universeCache st = []" "dv_globalStop st = None"
      "dg_stopReason (dv_diag st) = None" "dg_discoveryWork (dv_diag st) = 0" "dg_candidatePairsExamined (dv_diag st) = 0"
  shows "\<exists>d. derive_pairs env st = Some (Inr d) \<and> outcome_ok (de_retained env) (de_limits env) d"
proof -
  let ?R = "de_retained env" and ?n = "max_makers (de_limits env)"
  obtain r d where p: "prepare (budget_of env st) ?R (dv_diag st) = Some (r, d)" "work_moved (budget_of env st) (dv_diag st) d"
    "case r of Inl reason \<Rightarrow> reason \<in> stop_reasons | Inr x \<Rightarrow> prepared ?R x"
    using prepare_runs unfolding runs_def by meson
  have w: "dg_discoveryWork d \<le> rl_maxDiscoveryWork (de_limits env)" "dg_candidatePairsExamined d = 0" "dg_stopReason d = None"
    using p(2) st resolved_limits [OF l, of MaxDiscoveryWork] by (auto simp: work_moved_def budget_of_def)
  show ?thesis
  proof (cases r)
    case (Inl reason)
    have "derive_inv env ?n (st\<lparr>dv_diag := d\<rparr>)" using st w g by (intro initial_inv [OF l]) auto
    from early_stop_outcome [OF l this] p(1) Inl show ?thesis by (auto simp: derive_pairs_def)
  next
    case (Inr x)
    obtain g ixd cyc ws where x: "x = (g, ixd, cyc, ws)" by (cases x) auto
    let ?e = "env\<lparr>de_graph := g, de_retained := ixd, de_cyclic := cyc\<rparr>"
    from p(3) Inr x have pr: "prepared ?R (g, ixd, cyc, ws)" by simp
    then have ixd: "ixd = map (reindex (gr_indexByToken g)) ?R" by (simp add: prepared_def)
    note e = prepared_env [OF pr bk l]
    have "derive_inv ?e ?n (st\<lparr>dv_diag := d\<rparr>)" using st w l by (intro initial_inv [of controls]) auto
    from inputs_keep [OF e(1) _ this, of ws] e(2) obtain fl st1 where
      i: "input_loop ?e ws (st\<lparr>dv_diag := d\<rparr>) = Inr (fl, st1)" "derive_inv ?e ?n st1" by (auto elim: keeps_invE)
    have "derive_inv ?e ?n (scan_stopped st1)"
      unfolding scan_stopped_def by (rule derive_inv_steady [OF i(2) steady_last])
    with i(2) have "derive_inv ?e ?n (if fl = Scan_stop then scan_stopped st1 else st1)" by simp
    then have "outcome_ok ixd (de_limits env) (finish ?e (if fl = Scan_stop then scan_stopped st1 else st1))"
      using finish_outcome [of ?e] by simp
    then have "outcome_ok ?R (de_limits env) (finish ?e (if fl = Scan_stop then scan_stopped st1 else st1))"
      unfolding ixd outcome_reindex .
    moreover have "derive_pairs env st = Some (Inr (finish ?e (if fl = Scan_stop then scan_stopped st1 else st1)))"
      using p(1) Inr x i(1) by (simp add: derive_pairs_def Let_def)
    ultimately show ?thesis by blast
  qed
qed

lemma default_limits: "resolveLadderResourceLimits None = Inr DEFAULT_LADDER_RESOURCE_LIMITS"
  by (simp add: resolveLadderResourceLimits_def)

lemma empty_outcome:
  assumes "resolveLadderResourceLimits controls = Inr limits" "dg_discoveryWork d = 0" "dg_candidatePairsExamined d = 0"
  shows "outcome_ok R limits (emptyDerived limits d excluded)"
  using assms(2,3) resolved_limits [OF assms(1), of MaxDiscoveryWork] resolved_limits [OF assms(1), of MaxCandidatePairs]
    resolved_limits [OF assms(1), of MaxPairs] by (intro outcome_empty) auto

lemma deriveLadder_spec:
  "\<exists>d limits. deriveLadder comparisons offers options = Some (Inr d) \<and> outcome_ok (eligible options offers) limits d
     \<and> (\<exists>controls. resolveLadderResourceLimits controls = Inr limits)
     \<and> (case resolveLadderResourceLimits (do_resourceLimits options) of Inl _ \<Rightarrow> dl_levels d = [] | Inr l \<Rightarrow> limits = l)"
proof (cases "resolveLadderResourceLimits (do_resourceLimits options)")
  case (Inl refusal)
  have "outcome_ok (eligible options offers) DEFAULT_LADDER_RESOURCE_LIMITS
      (emptyDerived DEFAULT_LADDER_RESOURCE_LIMITS ((emptyDiagnostics 0)\<lparr>dg_stopReason := Some R_invalid_resource_limit,
         dg_invalidResourceLimit := Some refusal\<rparr>) [])"
    by (rule empty_outcome [OF default_limits]) (simp_all add: emptyDiagnostics_def)
  with Inl default_limits show ?thesis by (simp add: deriveLadder_def emptyDerived_def) blast
next
  case (Inr limits)
  let ?u = "map toLowerCase (do_unavailableOfferHashes options)"
  obtain a p where a: "abortReason (do_shouldAbort options) 0 = (a, p)" by fastforce
  obtain r cs ex d where s: "scan_sources options ?u limits offers ([], [], emptyDiagnostics p) = (r, cs, ex, d)"
    by (metis prod_cases4)
  note f = scan_sources_result [OF s]
  show ?thesis
  proof (cases "a = None \<and> r = None")
    case True
    with f have cs: "cs = accepted options offers" and d: "dg_stopReason d = None" "dg_discoveryWork d = 0"
      "dg_candidatePairsExamined d = 0" by (auto simp: emptyDiagnostics_def)
    obtain unique ex1 where du: "drop_duplicates cs ex = (unique, ex1)" by fastforce
    obtain R ex2 where cc: "claim_coins unique [] ([], ex1) = (R, ex2)" by fastforce
    let ?env = "\<lparr>de_limits = limits, de_options = options, de_graph = no_graph, de_retained = R,
                          de_cyclic = [], de_comparisons = comparisons\<rparr>"
    let ?st = "\<lparr>dv_excluded = ex2, dv_keys = js_uniq (map (\<lambda>e. (lx_offerHash e, lx_reason e)) ex2),
                          dv_levels = [], dv_provenance = [], dv_globalStop = None, dv_excludedUniverses = [],
                          dv_universeCache = [], dv_scratch = empty_pair_scratch, dv_diag = d\<rparr>"
    have R: "R = eligible options offers" using eligible_retained du cc cs by blast
    obtain x where "derive_pairs ?env ?st = Some (Inr x)" "outcome_ok R limits x"
      using derive_pairs_outcome [of "do_resourceLimits options" ?env ?st] Inr R eligible_ok d
      by (auto simp: no_graph_def)
    with True Inr a s du cc R show ?thesis by (auto simp: deriveLadder_def)
  next
    case False
    have "outcome_ok (eligible options offers) limits (emptyDerived limits d ex)"
      "outcome_ok (eligible options offers) limits (emptyDerived limits ((emptyDiagnostics p)\<lparr>dg_stopReason := a\<rparr>) [])"
      using f by (auto intro!: empty_outcome [OF Inr] simp: emptyDiagnostics_def)
    with False Inr a s show ?thesis by (cases a; cases r) (auto simp: deriveLadder_def)
  qed
qed

section \<open>Coins\<close>

definition coins_apart :: "crossable \<Rightarrow> crossable \<Rightarrow> bool" where
  "coins_apart a b \<longleftrightarrow> set (cr_nullifiers a) \<inter> set (cr_nullifiers b) = {}"

lemma claim_coins_facts:
  assumes "sorted_wrt (\<lambda>a b. cr_offerHash a < cr_offerHash b) cs" "R = fst (claim_coins cs claimed ([], ex))"
  shows "(\<forall>c \<in> set R. set (cr_nullifiers c) \<inter> set claimed = {}) \<and> sorted_wrt coins_apart R
    \<and> (\<forall>c \<in> set cs. c \<in> set R \<or> set (cr_nullifiers c) \<inter> set claimed \<noteq> {}
         \<or> (\<exists>k \<in> set R. cr_offerHash k < cr_offerHash c \<and> \<not> coins_apart k c))"
  using assms
proof (induction cs arbitrary: claimed R ex)
  case (Cons c cs)
  show ?case
  proof (cases "set (cr_nullifiers c) \<inter> set claimed = {}")
    case True
    let ?R = "fst (claim_coins cs (claimed @ cr_nullifiers c) ([], ex))"
    have "\<not> list_ex (\<lambda>n. n \<in> set claimed) (cr_nullifiers c)" using True by (auto simp: list_ex_iff)
    with Cons.prems claim_coins_retained [of cs "claimed @ cr_nullifiers c" "[c]" ex ex] have R: "R = c # ?R" by simp
    from Cons.prems have "sorted_wrt (\<lambda>a b. cr_offerHash a < cr_offerHash b) cs" by simp
    note ih = Cons.IH [OF this refl, of "claimed @ cr_nullifiers c" ex]
    have later: "cr_offerHash c < cr_offerHash x" if "x \<in> set cs" for x using Cons.prems(1) that by simp
    have "x \<in> set R \<or> set (cr_nullifiers x) \<inter> set claimed \<noteq> {}
        \<or> (\<exists>k \<in> set R. cr_offerHash k < cr_offerHash x \<and> \<not> coins_apart k x)" if "x \<in> set cs" for x
    proof -
      have x: "x \<in> set ?R \<or> set (cr_nullifiers x) \<inter> set (claimed @ cr_nullifiers c) \<noteq> {}
          \<or> (\<exists>k \<in> set ?R. cr_offerHash k < cr_offerHash x \<and> \<not> coins_apart k x)"
        by (rule bspec [OF conjunct2 [OF conjunct2 [OF ih]] that])
      consider (1) "x \<in> set ?R" | "set (cr_nullifiers x) \<inter> set claimed \<noteq> {}" | "\<not> coins_apart c x"
        | k where "k \<in> set ?R" "cr_offerHash k < cr_offerHash x" "\<not> coins_apart k x"
      proof -
        have "set (cr_nullifiers x) \<inter> set (claimed @ cr_nullifiers c) \<noteq> {}
            \<longleftrightarrow> set (cr_nullifiers x) \<inter> set claimed \<noteq> {} \<or> \<not> coins_apart c x" by (auto simp: coins_apart_def)
        with x that show thesis by blast
      qed
      then show ?thesis using R later [OF that] by cases auto
    qed
    with ih True show ?thesis unfolding R by (auto simp: coins_apart_def)
  next
    case False
    then have "list_ex (\<lambda>n. n \<in> set claimed) (cr_nullifiers c)" by (auto simp: list_ex_iff)
    with Cons False show ?thesis by simp
  qed
qed simp

lemma unique_offers_sorted: "sorted_wrt (\<lambda>a b. cr_offerHash a < cr_offerHash b) (unique_offers cs)"
proof -
  have "sorted (map cr_offerHash (unique_offers cs))"
    unfolding unique_offers_def by (simp add: sorted_filter)
  moreover note unique_hashes [of cs]
  ultimately have "sorted_wrt (<) (map cr_offerHash (unique_offers cs))" by (simp add: strict_sorted_iff)
  then show ?thesis by (simp add: sorted_wrt_map)
qed

section \<open>Properties\<close>

text \<open>
  C1: whatever the source offers, the options and the abort callback, \<open>deriveLadder\<close>
  returns a result and throws nothing; and every pair it publishes is valid on the wire and
  quotes, on its whole range, the best payout any admissible set of eligible offers can make,
  refusing every amount outside it.
\<close>

theorem deriveLadder_optimal:
  "\<exists>d. deriveLadder comparisons offers options = Some (Inr d)
     \<and> list_all (optimal_pair (eligible options offers) (max_makers (dl_limits d))) (dl_levels d)"
  using deriveLadder_spec [of comparisons offers options] by (auto simp: outcome_ok_def)

text \<open>
  C30: the run stays within its resource limits: the work charged, the pairs examined
  and the pairs published; and the limits it ran under lie between one and the hard limits.
\<close>

theorem deriveLadder_bounded:
  "\<exists>d. deriveLadder comparisons offers options = Some (Inr d)
     \<and> dg_discoveryWork (dl_diagnostics d) \<le> rl_maxDiscoveryWork (dl_limits d)
     \<and> dg_candidatePairsExamined (dl_diagnostics d) \<le> rl_maxCandidatePairs (dl_limits d)
     \<and> int (length (dl_levels d)) \<le> rl_maxPairs (dl_limits d)
     \<and> (\<forall>f. 1 \<le> get_limit (dl_limits d) f \<and> get_limit (dl_limits d) f \<le> get_limit HARD_LADDER_RESOURCE_LIMITS f)"
proof -
  obtain d limits controls where d: "deriveLadder comparisons offers options = Some (Inr d)"
    and o: "outcome_ok (eligible options offers) limits d" and l: "resolveLadderResourceLimits controls = Inr limits"
    using deriveLadder_spec [of comparisons offers options] by blast
  from o have dl: "dl_limits d = limits" by (simp add: outcome_ok_def)
  have "1 \<le> get_limit (dl_limits d) f \<and> get_limit (dl_limits d) f \<le> get_limit HARD_LADDER_RESOURCE_LIMITS f" for f
    unfolding dl by (rule resolved_limits [OF l])
  with o d show ?thesis by (auto simp: outcome_ok_def)
qed

text \<open>
  A run that ends cancelled, by the abort callback's answer or by its failure,
  publishes nothing, whatever it had priced before.
\<close>

theorem deriveLadder_cancelled:
  assumes "deriveLadder comparisons offers options = Some (Inr d)"
    and "dg_stopReason (dl_diagnostics d) \<in> {Some R_aborted, Some R_abort_check_failed}"
  shows "dl_levels d = [] \<and> dl_provenance d = [] \<and> dl_tokenIds d = []"
  using deriveLadder_spec [of comparisons offers options] assms by (auto simp: outcome_ok_def)

definition sample_source_offer :: source_offer where
  "sample_source_offer = \<lparr>so_offerHash = ident CHR ''1'', so_gives = [], so_wants = [], so_expiresAt = None,
     so_inputNullifiers = []\<rparr>"

definition sample_options :: derive_options where
  "sample_options = \<lparr>ap_supportedPairs = None, ap_minJobOutput = None, do_nowMs = 0, do_expiryMarginSeconds = 0,
     do_unavailableOfferHashes = [], do_resourceLimits = None,
     do_shouldAbort = Some (\<lambda>polls. if polls < 2 then Continue else Throws)\<rparr>"

theorem deriveLadder_cancelled_witness:
  "case deriveLadder (\<lambda>_. 0) [sample_source_offer, sample_source_offer] sample_options of
     Some (Inr d) \<Rightarrow> dg_stopReason (dl_diagnostics d) = Some R_abort_check_failed \<and> dl_levels d = []
       \<and> length (dl_excluded d) = 2
   | _ \<Rightarrow> False"
proof -
  have r: "case deriveLadder (\<lambda>_. 0) [sample_source_offer, sample_source_offer] sample_options of
     Some (Inr d) \<Rightarrow> dg_stopReason (dl_diagnostics d) = Some R_abort_check_failed \<and> length (dl_excluded d) = 2
   | _ \<Rightarrow> False"
    by code_simp
  then obtain d where d: "deriveLadder (\<lambda>_. 0) [sample_source_offer, sample_source_offer] sample_options = Some (Inr d)"
    by (auto split: option.splits sum.splits)
  with r have "dg_stopReason (dl_diagnostics d) \<in> {Some R_aborted, Some R_abort_check_failed}" by simp
  from deriveLadder_cancelled [OF d this] r d show ?thesis by simp
qed

text \<open>
  Of the accepted offers, those kept have hashes of their own and pairwise disjoint
  coins; and an offer listed once is dropped only for a coin of a kept offer of smaller hash.
\<close>

theorem claim_coins_fair:
  "let unique = fst (drop_duplicates crossables excluded); kept = fst (claim_coins unique [] ([], excluded'))
   in distinct (map cr_offerHash kept) \<and> sorted_wrt coins_apart kept
      \<and> set unique = {c \<in> set crossables. hash_count crossables (cr_offerHash c) = 1}
      \<and> list_all (\<lambda>c. c \<in> set kept \<or> list_ex (\<lambda>k. cr_offerHash k < cr_offerHash c \<and> \<not> coins_apart k c) kept) unique"
proof -
  let ?u = "unique_offers crossables" and ?k = "fst (claim_coins (unique_offers crossables) [] ([], excluded'))"
  note f = claim_coins_facts [OF unique_offers_sorted refl, of crossables "[]" excluded']
  have "distinct (map cr_offerHash ?k)" by (rule subseq_hashes [OF claim_coins_subseq unique_hashes])
  moreover have "set ?u = {c \<in> set crossables. hash_count crossables (cr_offerHash c) = 1}"
    by (auto simp: unique_offers_def)
  ultimately show ?thesis using f by (auto simp: Let_def drop_duplicates_fst list_all_iff list_ex_iff)
qed

text \<open>
  C29: within its budget, building the discovery graph always returns, and what it returns is
  right: two tokens share a component exactly when offers link them, a component is marked cyclic
  exactly when one of its tokens lies on a directed cycle of offers, and every offer carries the
  indices of its tokens in the deterministic token array.
\<close>

theorem buildDiscoveryGraph_correct:
  "\<exists>r d'. buildDiscoveryGraph offers ctx d = Some (r, d')
     \<and> (case r of Inl reason \<Rightarrow> reason \<in> stop_reasons
        | Inr (g, ixd) \<Rightarrow> graph_ok offers g \<and> ixd = map (reindex (gr_indexByToken g)) offers)"
  using buildDiscoveryGraph_runs [of ctx offers] unfolding runs_def by (fastforce split: sum.split)

end
