(* ===== verification/Ladder_Source.thy ===== *)
theory Ladder_Source
  imports Offer_Book Ladder_Frames Ladder_Outcome
begin

text \<open>
  Model of \<^verbatim>\<open>packages/solver/src/ladder-source.ts\<close>: the book cache as a ladder source. The
  cache's \<open>isCurrent\<close> is external: its answer at the first call, and at the poll it is asked in.
\<close>

section \<open>The push\<close>

datatype withheld = Cache_not_current | Derivation_failed | Snapshot_stale | Withdrawn

record ladder_push =
  lp_capabilities :: json
  lp_priceLevels :: json
  lp_derived :: derived_ladder
  lp_withheld :: "withheld option"
  lp_withheldReason :: "string option"

record push_options = admission_policy +
  po_nowMs :: int
  po_expiryMarginSeconds :: int
  po_unavailableOfferHashes :: "string list option"
  po_maxParallelSwaps :: "js_number option"
  po_resourceLimits :: "limit_controls option"
  po_shouldAbort :: abort_callback

record ladder_cache =
  lc_book :: book
  lc_isCurrent :: bool
  lc_isCurrentAt :: "nat \<Rightarrow> bool"

text \<open>\<open>forwardAdmissionPolicy\<close>: every declared field the source defines.\<close>

definition forwardAdmissionPolicy :: "'a admission_policy_scheme \<Rightarrow> admission_policy" where
  "forwardAdmissionPolicy policy =
     \<lparr>ap_supportedPairs = ap_supportedPairs policy, ap_minJobOutput = ap_minJobOutput policy\<rparr>"

definition nothingDerived :: "resource_limits \<Rightarrow> derived_ladder" where
  "nothingDerived limits = \<lparr>dl_levels = [], dl_tokenIds = [], dl_provenance = [], dl_excluded = [],
     dl_limits = limits, dl_diagnostics = emptyDiagnostics 0\<rparr>"

definition buildWithheldLadderPush :: "withheld \<Rightarrow> js_number option \<Rightarrow> string option \<Rightarrow> resource_limits
    \<Rightarrow> ladder_push result" where
  "buildWithheldLadderPush reason maxParallelSwaps withheldReason limits =
     bindR (buildSolverCapabilitiesFrame [] maxParallelSwaps) (\<lambda>capabilities.
     bindR (buildPriceLevelsFrame []) (\<lambda>levels.
       Inr \<lparr>lp_capabilities = capabilities, lp_priceLevels = levels, lp_derived = nothingDerived limits,
            lp_withheld = Some reason, lp_withheldReason = withheldReason\<rparr>))"

text \<open>The derivation's callback: the cache's freshness first, then the caller's own check.\<close>

definition push_callback :: "ladder_cache \<Rightarrow> push_options \<Rightarrow> abort_callback" where
  "push_callback cache options = Some (\<lambda>polls.
     if \<not> lc_isCurrentAt cache polls then Abort
     else (case po_shouldAbort options of None \<Rightarrow> Continue | Some answer \<Rightarrow> answer polls))"

definition push_derive_options :: "ladder_cache \<Rightarrow> push_options \<Rightarrow> derive_options" where
  "push_derive_options cache options =
     (let policy = forwardAdmissionPolicy options in
      \<lparr>ap_supportedPairs = ap_supportedPairs policy, ap_minJobOutput = ap_minJobOutput policy,
       do_nowMs = po_nowMs options, do_expiryMarginSeconds = po_expiryMarginSeconds options,
       do_unavailableOfferHashes = (case po_unavailableOfferHashes options of None \<Rightarrow> [] | Some hs \<Rightarrow> hs),
       do_resourceLimits = po_resourceLimits options, do_shouldAbort = push_callback cache options\<rparr>)"

text \<open>What a derivation becomes on the wire.\<close>

definition push_of :: "push_options \<Rightarrow> derived_ladder \<Rightarrow> ladder_push result" where
  "push_of options derived =
     (let stop = dg_stopReason (dl_diagnostics derived) in
      bindR (buildSolverCapabilitiesFrame (dl_tokenIds derived) (po_maxParallelSwaps options)) (\<lambda>capabilities.
      bindR (buildPriceLevelsFrame (dl_levels derived)) (\<lambda>levels.
        Inr \<lparr>lp_capabilities = capabilities, lp_priceLevels = levels, lp_derived = derived,
             lp_withheld = (if dl_levels derived = [] \<and> stop \<noteq> None then Some Derivation_failed else None),
             lp_withheldReason = (if dl_levels derived = [] \<and> stop \<noteq> None then map_option reason_text stop else None)\<rparr>)))"

definition with_stop :: "ladder_reason \<Rightarrow> ladder_push \<Rightarrow> ladder_push" where
  "with_stop r push = push\<lparr>lp_derived := (lp_derived push)\<lparr>dl_diagnostics :=
     (dl_diagnostics (lp_derived push))\<lparr>dg_stopReason := Some r\<rparr>\<rparr>\<rparr>"

definition deriveLadderPush ::
    "(combination_state list \<Rightarrow> nat) \<Rightarrow> ladder_cache \<Rightarrow> push_options \<Rightarrow> ladder_push result option" where
  "deriveLadderPush comparisons cache options =
     (if \<not> lc_isCurrent cache
      then Some (buildWithheldLadderPush Cache_not_current (po_maxParallelSwaps options) None DEFAULT_LADDER_RESOURCE_LIMITS)
      else
        let resolved = resolveLadderResourceLimits (po_resourceLimits options);
            derive = (\<lambda>offers. case deriveLadder comparisons (map source_offer.truncate offers) (push_derive_options cache options) of
                None \<Rightarrow> None
              | Some r \<Rightarrow> Some (bindR r (push_of options)))
        in case resolved of
             Inl refusal \<Rightarrow> derive []
           | Inr limits \<Rightarrow>
               if book_size (lc_book cache) > rl_maxSourceOffers limits
               then Some (bindR (buildWithheldLadderPush Derivation_failed (po_maxParallelSwaps options)
                            (Some (reason_text R_source_offer_cap)) limits)
                          (\<lambda>push. Inr (with_stop R_source_offer_cap push)))
               else derive (book_all (lc_book cache)))"

section \<open>Every push is accepted\<close>

text \<open>
  A push is coherent when the relay's parsers read back exactly what it derived, its advertised
  tokens are those of its levels, and it is withheld only with nothing to publish.
\<close>

definition push_ok :: "push_options \<Rightarrow> ladder_push \<Rightarrow> bool" where
  "push_ok options push \<longleftrightarrow>
     parsePriceLevels (lp_priceLevels push) = Some (map pair_json (dl_levels (lp_derived push)))
     \<and> (\<exists>ids. parseSolverCapabilities (lp_capabilities push) =
          Some \<lparr>sc_tokenIds = ids, sc_maxParallelSwaps = parallel_cap (po_maxParallelSwaps options)\<rparr>
        \<and> set ids = toLowerCase ` (pv_tokenIn ` set (dl_levels (lp_derived push)) \<union> pv_tokenOut ` set (dl_levels (lp_derived push))))
     \<and> (case lp_withheld push of None \<Rightarrow> True | Some _ \<Rightarrow> dl_levels (lp_derived push) = [])"

lemma withheld_push:
  "\<exists>push. buildWithheldLadderPush reason (po_maxParallelSwaps options) text limits = Inr push \<and> push_ok options push
     \<and> dl_levels (lp_derived push) = [] \<and> lp_withheld push = Some reason"
proof -
  obtain cap where c: "buildSolverCapabilitiesFrame [] (po_maxParallelSwaps options) = Inr cap"
    "parseSolverCapabilities cap = Some \<lparr>sc_tokenIds = [], sc_maxParallelSwaps = parallel_cap (po_maxParallelSwaps options)\<rparr>"
    using buildSolverCapabilitiesFrame_ok [of "[]" "po_maxParallelSwaps options"] by auto
  obtain lv where l: "buildPriceLevelsFrame [] = Inr lv" "parsePriceLevels lv = Some []"
    using buildPriceLevelsFrame_ok [of "[]"] by auto
  show ?thesis using c l by (simp add: buildWithheldLadderPush_def push_ok_def nothingDerived_def)
qed

lemma push_of_ok:
  assumes "outcome_ok R limits d"
  shows "\<exists>push. push_of options d = Inr push \<and> push_ok options push \<and> lp_derived push = d
    \<and> (lp_withheld push = None \<longleftrightarrow> dl_levels d \<noteq> [] \<or> dg_stopReason (dl_diagnostics d) = None)"
proof -
  from assms have v: "list_all (\<lambda>p. rejectPair (pair_json p) = None) (dl_levels d)"
    and t: "dl_tokenIds d = sort (js_uniq (concat (map (\<lambda>p. [pv_tokenIn p, pv_tokenOut p]) (dl_levels d))))"
    by (auto simp: outcome_ok_def optimal_pair_def list_all_iff)
  have s: "set (dl_tokenIds d) = pv_tokenIn ` set (dl_levels d) \<union> pv_tokenOut ` set (dl_levels d)"
    unfolding t by auto
  with v have "list_all isHex64 (dl_tokenIds d)"
    using rejectPair_None(1,2) by (auto simp: list_all_iff)
  from buildSolverCapabilitiesFrame_ok [OF this, of "po_maxParallelSwaps options"] obtain cap where
    c: "buildSolverCapabilitiesFrame (dl_tokenIds d) (po_maxParallelSwaps options) = Inr cap"
      "parseSolverCapabilities cap = Some \<lparr>sc_tokenIds = map toLowerCase (dl_tokenIds d),
         sc_maxParallelSwaps = parallel_cap (po_maxParallelSwaps options)\<rparr>" by blast
  from buildPriceLevelsFrame_ok [OF v] obtain lv where
    l: "buildPriceLevelsFrame (dl_levels d) = Inr lv" "parsePriceLevels lv = Some (map pair_json (dl_levels d))" by blast
  show ?thesis using c l s by (auto simp: push_of_def push_ok_def Let_def)
qed

lemma with_stop_ok: "push_ok options push \<Longrightarrow> push_ok options (with_stop r push)"
  by (simp add: push_ok_def with_stop_def split: option.splits)

lemma deriveLadderPush_spec:
  "\<exists>push. deriveLadderPush comparisons cache options = Some (Inr push) \<and> push_ok options push
     \<and> (lc_isCurrent cache \<or> dl_levels (lp_derived push) = [] \<and> lp_withheld push = Some Cache_not_current)"
proof (cases "lc_isCurrent cache")
  case False
  with withheld_push [of Cache_not_current options None DEFAULT_LADDER_RESOURCE_LIMITS] show ?thesis
    by (auto simp: deriveLadderPush_def)
next
  case True
  have d: "\<exists>push. (case deriveLadder comparisons os (push_derive_options cache options) of
                None \<Rightarrow> None | Some r \<Rightarrow> Some (bindR r (push_of options))) = Some (Inr push) \<and> push_ok options push" for os
    using deriveLadder_spec [of comparisons os "push_derive_options cache options"] push_of_ok by fastforce
  show ?thesis
  proof (cases "resolveLadderResourceLimits (po_resourceLimits options)")
    case (Inl refusal)
    with True d [of "[]"] show ?thesis by (simp add: deriveLadderPush_def)
  next
    case (Inr limits)
    obtain push where "buildWithheldLadderPush Derivation_failed (po_maxParallelSwaps options)
        (Some (reason_text R_source_offer_cap)) limits = Inr push" "push_ok options push"
      using withheld_push by blast
    with True Inr d [of "map source_offer.truncate (book_all (lc_book cache))"] with_stop_ok show ?thesis
      by (simp add: deriveLadderPush_def)
  qed
qed

section \<open>Properties\<close>

text \<open>
  C28: deriving a push never throws; the relay's parsers accept both of its frames and read back
  exactly the derived levels and their tokens; a withheld push publishes nothing; and a cache that
  is not current always yields the empty withdrawal.
\<close>

theorem deriveLadderPush_accepted:
  "\<exists>push. deriveLadderPush comparisons cache options = Some (Inr push)
     \<and> parsePriceLevels (lp_priceLevels push) = Some (map pair_json (dl_levels (lp_derived push)))
     \<and> (case parseSolverCapabilities (lp_capabilities push) of None \<Rightarrow> False
        | Some c \<Rightarrow> set (sc_tokenIds c) = toLowerCase ` (pv_tokenIn ` set (dl_levels (lp_derived push))
             \<union> pv_tokenOut ` set (dl_levels (lp_derived push))))
     \<and> (case lp_withheld push of None \<Rightarrow> True | Some _ \<Rightarrow> dl_levels (lp_derived push) = [])
     \<and> (lc_isCurrent cache \<or> dl_levels (lp_derived push) = [] \<and> lp_withheld push = Some Cache_not_current)"
  using deriveLadderPush_spec [of comparisons cache options] by (auto simp: push_ok_def)

end
