(* ===== verification/Stock.thy ===== *)
theory Stock
  imports Offer_Book
begin

text \<open>
  Model of \<^verbatim>\<open>packages/solver/src/stock.ts\<close>: what the solver can still commit. A claim
  holds offers, the coins they spend, and (for historical jobs) token payouts; claims are reserved
  and released as a unit. Payouts are a map: an association list with distinct keys.
\<close>

section \<open>Claims\<close>

record claim =
  cl_offerHashes :: "string list"
  cl_nullifiers :: "string list"
  cl_payouts :: "(string \<times> int) list"

definition claimFor :: "book_offer list \<Rightarrow> (string \<times> int) list \<Rightarrow> claim" where
  "claimFor offers payouts = \<lparr>cl_offerHashes = map so_offerHash offers,
     cl_nullifiers = concat (map so_inputNullifiers offers), cl_payouts = payouts\<rparr>"

definition payout_text :: "string \<times> int \<Rightarrow> string" where
  "payout_text p = fst p @ '':'' @ bigint_to_string (snd p)"

definition claimKey :: "claim \<Rightarrow> string" where
  "claimKey c = join_with CHR '','' (sort (cl_offerHashes c)) @ ''|'' @ join_with CHR '','' (sort (cl_nullifiers c))
     @ ''|'' @ join_with CHR '','' (sort (map payout_text (cl_payouts c)))"

section \<open>The stock\<close>

record stock =
  sk_balances :: "(string \<times> int) list"
  sk_reserved :: "(string \<times> int) list"
  sk_claimedHashes :: "string set"
  sk_claimedNullifiers :: "string set"
  sk_live :: "(string \<times> claim) list"

definition empty_stock :: stock where
  "empty_stock = \<lparr>sk_balances = [], sk_reserved = [], sk_claimedHashes = {}, sk_claimedNullifiers = {}, sk_live = []\<rparr>"

definition amount_in :: "(string \<times> int) list \<Rightarrow> string \<Rightarrow> int" where
  "amount_in m t = (case map_of m t of None \<Rightarrow> 0 | Some n \<Rightarrow> n)"

definition setBalances :: "(string \<times> int) list \<Rightarrow> stock \<Rightarrow> stock" where
  "setBalances balances s = s\<lparr>sk_balances := balances\<rparr>"

definition balance :: "stock \<Rightarrow> string \<Rightarrow> int" where
  "balance s t = amount_in (sk_balances s) t"

definition reserved :: "stock \<Rightarrow> string \<Rightarrow> int" where
  "reserved s t = amount_in (sk_reserved s) t"

definition available :: "stock \<Rightarrow> string \<Rightarrow> int" where
  "available s t = (let spare = balance s t - reserved s t in if spare > 0 then spare else 0)"

definition isClaimed :: "stock \<Rightarrow> string list \<Rightarrow> string list \<Rightarrow> bool" where
  "isClaimed s offerHashes nullifiers \<longleftrightarrow>
     list_ex (\<lambda>h. h \<in> sk_claimedHashes s) offerHashes \<or> list_ex (\<lambda>n. n \<in> sk_claimedNullifiers s) nullifiers"

definition isOfferClaimed :: "stock \<Rightarrow> book_offer \<Rightarrow> bool" where
  "isOfferClaimed s offer = isClaimed s [so_offerHash offer] (so_inputNullifiers offer)"

definition reserve :: "claim \<Rightarrow> stock \<Rightarrow> bool \<times> stock" where
  "reserve c s =
     (if isClaimed s (cl_offerHashes c) (cl_nullifiers c) then (False, s)
      else if list_ex (\<lambda>(t, n). n \<le> 0 \<or> available s t < n) (cl_payouts c) then (False, s)
      else if map_of (sk_live s) (claimKey c) \<noteq> None then (False, s)
      else (True, s\<lparr>sk_live := AList.update (claimKey c) c (sk_live s),
                    sk_claimedHashes := sk_claimedHashes s \<union> set (cl_offerHashes c),
                    sk_claimedNullifiers := sk_claimedNullifiers s \<union> set (cl_nullifiers c),
                    sk_reserved := fold (\<lambda>(t, n) m. AList.update t (amount_in m t + n) m) (cl_payouts c) (sk_reserved s)\<rparr>))"

definition unreserve :: "string \<times> int \<Rightarrow> (string \<times> int) list \<Rightarrow> (string \<times> int) list" where
  "unreserve p m = (case p of (t, n) \<Rightarrow>
     let next_amount = amount_in m t - n
     in if next_amount > 0 then AList.update t next_amount m else AList.delete t m)"

definition release :: "claim \<Rightarrow> stock \<Rightarrow> stock" where
  "release c s =
     (if map_of (sk_live s) (claimKey c) = None then s
      else s\<lparr>sk_live := AList.delete (claimKey c) (sk_live s),
             sk_claimedHashes := sk_claimedHashes s - set (cl_offerHashes c),
             sk_claimedNullifiers := sk_claimedNullifiers s - set (cl_nullifiers c),
             sk_reserved := fold unreserve (cl_payouts c) (sk_reserved s)\<rparr>)"

definition tokens :: "stock \<Rightarrow> string list" where
  "tokens s = js_uniq (map fst (sk_balances s) @ map fst (sk_reserved s))"

definition spendable :: "stock \<Rightarrow> (string \<times> int) list" where
  "spendable s = List.map_filter (\<lambda>t. if available s t > 0 then Some (t, available s t) else None) (tokens s)"

section \<open>Content keys\<close>

text \<open>
  The claims the solver makes: non-empty identifiers without the key's separators, a proper map of
  payouts. For them the content key determines the claim up to order.
\<close>

definition plain :: "string \<Rightarrow> bool" where
  "plain s \<longleftrightarrow> s \<noteq> [] \<and> CHR '','' \<notin> set s \<and> CHR ''|'' \<notin> set s \<and> CHR '':'' \<notin> set s"

definition claim_ok :: "claim \<Rightarrow> bool" where
  "claim_ok c \<longleftrightarrow> list_all plain (cl_offerHashes c) \<and> list_all plain (cl_nullifiers c)
     \<and> list_all (\<lambda>p. plain (fst p)) (cl_payouts c) \<and> distinct (map fst (cl_payouts c))"

lemma plain_separable: "list_all plain xs \<Longrightarrow> separable CHR '','' xs"
  by (auto simp: separable_def plain_def list_all_iff)

lemma amount_chars: "c \<in> set (bigint_to_string i) \<Longrightarrow> is_digit c \<or> c = CHR ''-''"
  using nat_to_string_digits [of "nat i"] nat_to_string_digits [of "nat (- i)"]
  by (auto simp: bigint_to_string_def list_all_iff split: if_splits)

lemma amount_separators:
  "CHR '','' \<notin> set (bigint_to_string i)" "CHR ''|'' \<notin> set (bigint_to_string i)" "CHR '':'' \<notin> set (bigint_to_string i)"
  using amount_chars [of "CHR '',''" i] amount_chars [of "CHR ''|''" i] amount_chars [of "CHR '':''" i]
  by (auto simp: is_digit_def)

lemma payout_separable: "list_all (\<lambda>p. plain (fst p)) ps \<Longrightarrow> separable CHR '','' (map payout_text ps)"
  using amount_separators by (auto simp: separable_def payout_text_def plain_def list_all_iff)

lemma payout_text_inject: "plain (fst p) \<Longrightarrow> plain (fst q) \<Longrightarrow> payout_text p = payout_text q \<longleftrightarrow> p = q"
  using split_at_unique [of "CHR '':''" "fst p" "fst q"]
  by (cases p; cases q) (auto simp: payout_text_def plain_def)

lemma separable_sort [simp]: "separable sep (sort xs) = separable sep xs"
  by (simp add: separable_def)

lemma no_bar_join: "list_all plain xs \<Longrightarrow> CHR ''|'' \<notin> set (join_with CHR '','' (sort xs))"
  using set_join_with [of "CHR '',''" "sort xs"] by (auto simp: list_all_iff plain_def)

lemma sort_eq_mset: "sort xs = sort ys \<longleftrightarrow> mset xs = mset (ys :: string list)"
  by (metis mset_sort properties_for_sort sorted_sort)

lemma claimKey_content:
  assumes "claim_ok a" "claim_ok b" "claimKey a = claimKey b"
  shows "set (cl_offerHashes a) = set (cl_offerHashes b)" "set (cl_nullifiers a) = set (cl_nullifiers b)"
    "map_of (cl_payouts a) = map_of (cl_payouts b)"
proof -
  note d = assms(1,2) [unfolded claim_ok_def]
  have k: "join_with CHR '','' (sort (cl_offerHashes a)) = join_with CHR '','' (sort (cl_offerHashes b))"
    "join_with CHR '','' (sort (cl_nullifiers a)) = join_with CHR '','' (sort (cl_nullifiers b))"
    "join_with CHR '','' (sort (map payout_text (cl_payouts a))) = join_with CHR '','' (sort (map payout_text (cl_payouts b)))"
    using assms(3) split_at_unique [OF no_bar_join no_bar_join, of "cl_offerHashes a" "cl_offerHashes b"]
      split_at_unique [OF no_bar_join no_bar_join, of "cl_nullifiers a" "cl_nullifiers b"] d
    by (auto simp: claimKey_def)
  then have m: "sort (cl_offerHashes a) = sort (cl_offerHashes b)" "sort (cl_nullifiers a) = sort (cl_nullifiers b)"
    "sort (map payout_text (cl_payouts a)) = sort (map payout_text (cl_payouts b))"
    using join_with_inject d by (auto simp: plain_separable payout_separable)
  then show "set (cl_offerHashes a) = set (cl_offerHashes b)" "set (cl_nullifiers a) = set (cl_nullifiers b)"
    by (metis set_sort)+
  have "payout_text ` set (cl_payouts a) = payout_text ` set (cl_payouts b)"
    using m(3) by (metis set_map set_sort)
  moreover have "inj_on payout_text (set (cl_payouts a) \<union> set (cl_payouts b))"
  proof (rule inj_onI)
    fix p q
    assume m: "p \<in> set (cl_payouts a) \<union> set (cl_payouts b)" "q \<in> set (cl_payouts a) \<union> set (cl_payouts b)"
      and t: "payout_text p = payout_text q"
    have "plain (fst p)" "plain (fst q)" using d m by (auto simp: list_all_iff)
    with payout_text_inject t show "p = q" by blast
  qed
  ultimately have "set (cl_payouts a) = set (cl_payouts b)" by (simp add: inj_on_image_eq_iff [of payout_text])
  with d show "map_of (cl_payouts a) = map_of (cl_payouts b)" by (intro map_of_inject_set [THEN iffD2]) auto
qed

section \<open>The commitments are those of the live claims\<close>

definition committed :: "(string \<times> claim) list \<Rightarrow> string \<Rightarrow> int" where
  "committed live t = sum_list (map (\<lambda>(k, c). amount_in (cl_payouts c) t) live)"

definition live_claim :: "string \<Rightarrow> claim \<Rightarrow> bool" where
  "live_claim k c \<longleftrightarrow> claim_ok c \<and> claimKey c = k \<and> (\<forall>p \<in> set (cl_payouts c). 0 < snd p)"

definition claims_disjoint :: "claim \<Rightarrow> claim \<Rightarrow> bool" where
  "claims_disjoint a b \<longleftrightarrow> set (cl_offerHashes a) \<inter> set (cl_offerHashes b) = {}
     \<and> set (cl_nullifiers a) \<inter> set (cl_nullifiers b) = {}"

definition stock_ok :: "stock \<Rightarrow> bool" where
  "stock_ok s \<longleftrightarrow> distinct (map fst (sk_live s)) \<and> (\<forall>(k, c) \<in> set (sk_live s). live_claim k c)
     \<and> sk_claimedHashes s = \<Union> ((\<lambda>e. set (cl_offerHashes (snd e))) ` set (sk_live s))
     \<and> sk_claimedNullifiers s = \<Union> ((\<lambda>e. set (cl_nullifiers (snd e))) ` set (sk_live s))
     \<and> (\<forall>e \<in> set (sk_live s). \<forall>f \<in> set (sk_live s). e \<noteq> f \<longrightarrow> claims_disjoint (snd e) (snd f))
     \<and> (\<forall>t. reserved s t = committed (sk_live s) t)"

lemma amount_in_update: "amount_in (AList.update t n m) u = (if u = t then n else amount_in m u)"
  by (simp add: amount_in_def update_conv')

lemma amount_in_delete: "amount_in (AList.delete t m) u = (if u = t then 0 else amount_in m u)"
  by (simp add: amount_in_def delete_conv')

lemma amount_in_absent: "t \<notin> fst ` set m \<Longrightarrow> amount_in m t = 0"
  by (simp add: amount_in_def map_of_eq_None_iff [symmetric])

lemma amount_in_Cons [simp]: "amount_in ((t, n) # m) u = (if u = t then n else amount_in m u)"
  by (simp add: amount_in_def)

lemma reserve_amounts:
  "distinct (map fst ps) \<Longrightarrow>
   amount_in (fold (\<lambda>(t, n) m. AList.update t (amount_in m t + n) m) ps m) u = amount_in m u + amount_in ps u"
proof (induction ps arbitrary: m)
  case (Cons p ps)
  obtain t n where p: "p = (t, n)" by fastforce
  have "t \<notin> fst ` set ps" using Cons.prems p by auto
  with Cons p show ?case by (simp add: amount_in_update amount_in_absent)
qed (simp add: amount_in_def)

lemma release_amounts:
  "distinct (map fst ps) \<Longrightarrow> (\<And>t. amount_in ps t \<le> amount_in m t) \<Longrightarrow>
   amount_in (fold unreserve ps m) u = amount_in m u - amount_in ps u"
proof (induction ps arbitrary: m)
  case (Cons p ps)
  obtain t n where p: "p = (t, n)" by fastforce
  have t: "t \<notin> fst ` set ps" using Cons.prems(1) p by auto
  have step: "amount_in (unreserve (t, n) m) v = (if v = t then amount_in m t - n else amount_in m v)" for v
    using Cons.prems(2) [of t] p by (simp add: unreserve_def Let_def amount_in_update amount_in_delete)
  have "amount_in ps v \<le> amount_in (unreserve (t, n) m) v" for v
    using Cons.prems(2) [of v] Cons.prems(2) [of t] p t by (cases "v = t") (simp_all add: step amount_in_absent)
  with Cons.IH [of "unreserve (t, n) m"] Cons.prems(1) p t show ?case by (simp add: step amount_in_absent)
qed (simp add: amount_in_def)

lemma amount_in_nonneg: "\<forall>p \<in> set ps. 0 < snd p \<Longrightarrow> 0 \<le> amount_in ps t"
  by (induction ps) (auto simp: amount_in_def)

lemma committed_delete:
  assumes "distinct (map fst live)" "map_of live k = Some c"
  shows "committed live t = amount_in (cl_payouts c) t + committed (AList.delete k live) t"
  using assms
proof (induction live)
  case (Cons e live)
  obtain k' c' where e: "e = (k', c')" by fastforce
  show ?case
  proof (cases "k' = k")
    case True
    with Cons.prems e have "AList.delete k live = live" by (intro delete_id) auto
    with True Cons.prems e show ?thesis by (simp add: committed_def)
  next
    case False
    with Cons e show ?thesis by (simp add: committed_def)
  qed
qed simp

lemma committed_nonneg: "\<forall>(k, c) \<in> set live. live_claim k c \<Longrightarrow> 0 \<le> committed live t"
  by (induction live) (auto simp: committed_def live_claim_def amount_in_nonneg)

lemma update_absent: "map_of al k = None \<Longrightarrow> AList.update k v al = al @ [(k, v)]"
  by (induction al) auto

lemma reserve_refused: "reserve c s = (False, s') \<Longrightarrow> s' = s"
  by (auto simp: reserve_def split: if_splits)

lemma reserve_accepted:
  assumes "reserve c s = (True, s')"
  shows "\<not> isClaimed s (cl_offerHashes c) (cl_nullifiers c)" "\<forall>(t, n) \<in> set (cl_payouts c). 0 < n \<and> n \<le> available s t"
    "map_of (sk_live s) (claimKey c) = None" "sk_live s' = sk_live s @ [(claimKey c, c)]"
    "sk_claimedHashes s' = sk_claimedHashes s \<union> set (cl_offerHashes c)"
    "sk_claimedNullifiers s' = sk_claimedNullifiers s \<union> set (cl_nullifiers c)"
    "sk_reserved s' = fold (\<lambda>(t, n) m. AList.update t (amount_in m t + n) m) (cl_payouts c) (sk_reserved s)"
    "sk_balances s' = sk_balances s"
  using assms by (auto simp: reserve_def update_absent list_ex_iff split: if_splits)

lemma reserve_ok:
  assumes "stock_ok s" "claim_ok c" "reserve c s = (b, s')"
  shows "stock_ok s'"
proof (cases b)
  case True
  with assms(3) have "reserve c s = (True, s')" by simp
  note r = reserve_accepted [OF this]
  note s = assms(1) [unfolded stock_ok_def]
  have c: "live_claim (claimKey c) c" using assms(2) r(2) by (auto simp: live_claim_def)
  have dis: "claims_disjoint c (snd e) \<and> claims_disjoint (snd e) c" if "e \<in> set (sk_live s)" for e
    using r(1) s that by (fastforce simp: isClaimed_def claims_disjoint_def list_ex_iff)
  have "claimKey c \<notin> fst ` set (sk_live s)" using r(3) by (simp add: map_of_eq_None_iff)
  moreover have "reserved s' t = committed (sk_live s') t" for t
    using s assms(2) reserve_amounts [of "cl_payouts c" "sk_reserved s" t]
    by (simp add: reserved_def r(4,7) committed_def claim_ok_def)
  ultimately show ?thesis
    unfolding stock_ok_def using s c dis by (auto simp: r(4-6))
next
  case False
  with assms reserve_refused [of c s s'] show ?thesis by simp
qed

lemma Union_minus: "m \<in> L \<Longrightarrow> f m = X \<Longrightarrow> (\<And>e. e \<in> L - {m} \<Longrightarrow> X \<inter> f e = {}) \<Longrightarrow>
  \<Union> (f ` (L - {m})) = \<Union> (f ` L) - X"
  by blast

lemma release_ok:
  assumes "stock_ok s" "claim_ok c"
  shows "stock_ok (release c s)"
proof (cases "map_of (sk_live s) (claimKey c)")
  case (Some c')
  let ?live = "AList.delete (claimKey c) (sk_live s)"
  note s = assms(1) [unfolded stock_ok_def]
  have m: "(claimKey c, c') \<in> set (sk_live s)" using Some by (rule map_of_SomeD)
  with s have l: "live_claim (claimKey c) c'" by auto
  then have "claimKey c = claimKey c'" "claim_ok c'" by (simp_all add: live_claim_def)
  note k = claimKey_content [OF assms(2) this(2,1)]
  have am: "amount_in (cl_payouts c) t = amount_in (cl_payouts c') t" for t by (simp add: amount_in_def k(3))
  have live: "set ?live = set (sk_live s) - {(claimKey c, c')}"
    using s m by (auto simp: AList.delete_eq) (metis eq_key_imp_eq_value)
  have cm: "committed (sk_live s) t = amount_in (cl_payouts c) t + committed ?live t" for t
    using committed_delete [OF _ Some] s by (simp add: am)
  have "0 \<le> committed ?live t" for t using committed_nonneg [of ?live] s live by auto
  then have "amount_in (cl_payouts c) t \<le> amount_in (sk_reserved s) t" for t
    using s cm [of t] by (simp add: reserved_def)
  with assms(2) have "amount_in (fold unreserve (cl_payouts c) (sk_reserved s)) t
      = amount_in (sk_reserved s) t - amount_in (cl_payouts c) t" for t
    by (intro release_amounts) (simp_all add: claim_ok_def)
  then have res: "reserved (release c s) t = committed ?live t" for t
    using s cm [of t] Some by (simp add: release_def reserved_def)
  have dis: "claims_disjoint c' (snd e)" if "e \<in> set ?live" for e
  proof -
    have "e \<in> set (sk_live s)" "(claimKey c, c') \<noteq> e" using that unfolding live by auto
    then have "claims_disjoint (snd (claimKey c, c')) (snd e)" using s m by blast
    then show ?thesis by simp
  qed
  have apart: "claims_disjoint c' (snd e)" if "e \<in> set (sk_live s) - {(claimKey c, c')}" for e
    using that dis live by blast
  have "\<Union> ((\<lambda>e. set (cl_offerHashes (snd e))) ` set ?live)
      = \<Union> ((\<lambda>e. set (cl_offerHashes (snd e))) ` set (sk_live s)) - set (cl_offerHashes c)"
    unfolding live by (rule Union_minus [OF m]) (use apart in \<open>simp_all add: k claims_disjoint_def\<close>)
  moreover have "\<Union> ((\<lambda>e. set (cl_nullifiers (snd e))) ` set ?live)
      = \<Union> ((\<lambda>e. set (cl_nullifiers (snd e))) ` set (sk_live s)) - set (cl_nullifiers c)"
    unfolding live by (rule Union_minus [OF m]) (use apart in \<open>simp_all add: k claims_disjoint_def\<close>)
  moreover have "distinct (map fst ?live)" using s by (simp add: distinct_delete)
  ultimately show ?thesis
    unfolding stock_ok_def using s live Some res by (auto simp: release_def)
qed (use assms in \<open>simp add: release_def\<close>)

section \<open>Runs\<close>

inductive stock_reachable :: "stock \<Rightarrow> bool" where
  Empty: "stock_reachable empty_stock"
| Balances: "stock_reachable s \<Longrightarrow> stock_reachable (setBalances balances s)"
| Reserve: "stock_reachable s \<Longrightarrow> claim_ok c \<Longrightarrow> stock_reachable (snd (reserve c s))"
| Release: "stock_reachable s \<Longrightarrow> claim_ok c \<Longrightarrow> stock_reachable (release c s)"

lemma stock_reachable_ok: "stock_reachable s \<Longrightarrow> stock_ok s"
proof (induction rule: stock_reachable.induct)
  case Empty
  show ?case by (simp add: stock_ok_def empty_stock_def reserved_def amount_in_def committed_def)
next
  case (Balances s balances)
  then show ?case by (simp add: stock_ok_def setBalances_def reserved_def)
next
  case (Reserve s c)
  then show ?case using reserve_ok [of s c] by (cases "reserve c s") simp
qed (rule release_ok)

text \<open>Offers admitted from the API make claims in the content key's domain.\<close>

lemma hex_plain: "isLowerHex64 s \<Longrightarrow> plain s"
  by (auto simp: isLowerHex64_def plain_def list_all_iff is_lower_hex_digit_def is_digit_def)

lemma claimFor_ok:
  assumes "list_all (\<lambda>v. isLowerHex64 (so_offerHash v) \<and> list_all isLowerHex64 (so_inputNullifiers v)) offers"
  shows "claim_ok (claimFor offers [])"
  using assms hex_plain by (auto simp: claimFor_def claim_ok_def list_all_iff)

lemma committed_snoc: "committed (live @ [(k, c)]) t = committed live t + amount_in (cl_payouts c) t"
  by (simp add: committed_def)

lemma release_undoes:
  assumes "stock_ok s" "claim_ok c" "reserve c s = (True, s')"
  shows "sk_live (release c s') = sk_live s" "sk_claimedHashes (release c s') = sk_claimedHashes s"
    "sk_claimedNullifiers (release c s') = sk_claimedNullifiers s" "reserved (release c s') t = reserved s t"
proof -
  note r = reserve_accepted [OF assms(3)]
  have live: "map_of (sk_live s') (claimKey c) \<noteq> None" by (simp add: r(4) map_add_def split: option.split)
  have "claimKey c \<notin> fst ` set (sk_live s)" using r(3) by (simp add: map_of_eq_None_iff)
  then have d: "AList.delete (claimKey c) (sk_live s @ [(claimKey c, c)]) = sk_live s"
    by (auto simp: AList.delete_eq filter_id_conv rev_image_eqI)
  then show l: "sk_live (release c s') = sk_live s" using live by (simp add: release_def r(4))
  show "sk_claimedHashes (release c s') = sk_claimedHashes s" "sk_claimedNullifiers (release c s') = sk_claimedNullifiers s"
    using live r(1) by (auto simp: release_def r(5,6) isClaimed_def list_ex_iff)
  have "stock_ok s'" by (rule reserve_ok [OF assms])
  from release_ok [OF this assms(2)] assms(1) l show "reserved (release c s') t = reserved s t"
    by (simp add: stock_ok_def)
qed

lemma release_idem: "stock_ok s \<Longrightarrow> release c (release c s) = release c s"
  by (simp add: release_def delete_conv')

section \<open>Properties\<close>

text \<open>
  C33: however claims are reserved and released, no offer and no coin is in two live claims; an
  offer or coin is refused exactly while a live claim holds it; and the amount reserved of a token is
  the sum of the live claims' payouts in it.
\<close>

theorem stock_commitments:
  assumes "stock_reachable s"
  shows "(\<forall>a b. a \<in> set (sk_live s) \<and> b \<in> set (sk_live s) \<and> a \<noteq> b \<longrightarrow> claims_disjoint (snd a) (snd b))
     \<and> (isClaimed s hs ns \<longleftrightarrow> list_ex (\<lambda>e. set hs \<inter> set (cl_offerHashes (snd e)) \<noteq> {}
          \<or> set ns \<inter> set (cl_nullifiers (snd e)) \<noteq> {}) (sk_live s))
     \<and> reserved s t = committed (sk_live s) t"
proof -
  have s: "stock_ok s" by (rule stock_reachable_ok [OF assms])
  have "isClaimed s hs ns \<longleftrightarrow> list_ex (\<lambda>e. set hs \<inter> set (cl_offerHashes (snd e)) \<noteq> {}
          \<or> set ns \<inter> set (cl_nullifiers (snd e)) \<noteq> {}) (sk_live s)"
    using s by (fastforce simp: isClaimed_def stock_ok_def list_ex_iff)
  with s show ?thesis unfolding stock_ok_def by blast
qed

definition sample_claim :: "string \<Rightarrow> claim" where
  "sample_claim h = \<lparr>cl_offerHashes = [h], cl_nullifiers = [''n'' @ h], cl_payouts = [(''t'', 3)]\<rparr>"

definition sample_stock :: stock where
  "sample_stock = snd (reserve (sample_claim ''a'') (setBalances [(''t'', 5)] empty_stock))"

lemma sample_stock_reachable: "stock_reachable sample_stock"
proof -
  have "claim_ok (sample_claim ''a'')" by (simp add: claim_ok_def sample_claim_def plain_def)
  then show ?thesis unfolding sample_stock_def by (intro stock_reachable.intros)
qed

theorem stock_commitments_witness: "isClaimed sample_stock [''a''] [] \<and> reserved sample_stock ''t'' = 3"
proof -
  have "sk_live sample_stock = [(claimKey (sample_claim ''a''), sample_claim ''a'')]" by code_simp
  with stock_commitments [OF sample_stock_reachable, of "[''a'']" "[]" "''t''"] show ?thesis
    by (auto simp: sample_claim_def committed_def)
qed

text \<open>
  C34: reserving is all or nothing: a refusal changes nothing; an acceptance means every
  payout was affordable at once and nothing of the claim was held, and it commits exactly the
  claim's payouts; releasing it restores every commitment, and releasing it again does nothing.
\<close>

theorem reserve_all_or_nothing:
  assumes "stock_reachable s" "claim_ok c" "reserve c s = (accepted, s')"
  shows "if accepted
     then list_all (\<lambda>p. 0 < snd p \<and> snd p \<le> available s (fst p)) (cl_payouts c)
       \<and> \<not> isClaimed s (cl_offerHashes c) (cl_nullifiers c)
       \<and> reserved s' t = reserved s t + amount_in (cl_payouts c) t
       \<and> sk_live (release c s') = sk_live s \<and> sk_claimedHashes (release c s') = sk_claimedHashes s
       \<and> sk_claimedNullifiers (release c s') = sk_claimedNullifiers s
       \<and> reserved (release c s') t = reserved s t \<and> release c (release c s') = release c s'
     else s' = s"
proof (cases accepted)
  case True
  with assms have a: "reserve c s = (True, s')" and s: "stock_ok s" by (simp_all add: stock_reachable_ok)
  note r = reserve_accepted [OF a]
  have s': "stock_ok s'" by (rule reserve_ok [OF s assms(2) a])
  have "reserved s' t = reserved s t + amount_in (cl_payouts c) t"
    using s s' by (simp add: stock_ok_def r(4) committed_snoc)
  with True r(1,2) release_undoes [OF s assms(2) a] release_idem [OF s'] show ?thesis
    by (auto simp: list_all_iff)
next
  case False
  with assms(3) reserve_refused [of c s s'] show ?thesis by simp
qed

theorem reserve_all_or_nothing_witness:
  "\<exists>s'. reserve (sample_claim ''b'') (setBalances [(''t'', 9)] sample_stock) = (True, s') \<and> reserved s' ''t'' = 6"
proof -
  let ?s = "setBalances [(''t'', 9)] sample_stock"
  have c: "claim_ok (sample_claim ''b'')" by (simp add: claim_ok_def sample_claim_def plain_def)
  have r: "stock_reachable ?s" by (rule stock_reachable.Balances [OF sample_stock_reachable])
  have "fst (reserve (sample_claim ''b'') ?s)" "reserved ?s ''t'' = 3" by code_simp+
  then obtain s' where a: "reserve (sample_claim ''b'') ?s = (True, s')" by (cases "reserve (sample_claim ''b'') ?s") auto
  from reserve_all_or_nothing [OF r c a, of "''t''"] a \<open>reserved ?s ''t'' = 3\<close> show ?thesis
    by (simp add: sample_claim_def amount_in_def)
qed

end
