(* ===== verification/Swap_Route.thy ===== *)
theory Swap_Route
  imports Ladder_Source Stock
begin

text \<open>
  Model of the route resolution of \<^verbatim>\<open>packages/solver/src/swap-job-executor.ts\<close>: from a relayed job to
  the exact maker offers, receipts, merge order and claim that back it, or a refusal. Refusals keep
  their reason; the prose detail is left out. What the surrounding callbacks answer during the
  synchronous derivation is part of the cache and the options: freshness, the caller's abort check,
  and the book as it is read again afterwards, with the hashes whose stored object was replaced.
\<close>

section \<open>Refusals and options\<close>

datatype job_reason =
  JOB_AT_CAPACITY | JOB_DUPLICATE | JOB_CACHE_NOT_CURRENT | JOB_ROUTE_NOT_CURRENT
| JOB_ROUTE_UNAVAILABLE | JOB_EXACT_FILES_UNAVAILABLE | JOB_EXACT_FILE_REFUSED
| JOB_EXACT_FILE_MISMATCH | JOB_WALLET_FAILED | JOB_WALLET_TIMEOUT | JOB_RECONCILING
| JOB_PAIR_UNSUPPORTED | JOB_MIN_OUTPUT | JOB_DUST_PER_JOB | JOB_DUST_WINDOW | JOB_DUST_ESTIMATE

datatype job_failure = Refusal job_reason | Thrown js_error

type_synonym 'a job_result = "job_failure + 'a"

definition refuse :: "job_reason \<Rightarrow> 'a job_result" where
  "refuse reason = Inl (Refusal reason)"

definition refuse_if :: "bool \<Rightarrow> job_reason \<Rightarrow> unit job_result" where
  "refuse_if b reason = (if b then refuse reason else Inr ())"

definition rethrow :: "'a result \<Rightarrow> 'a job_result" where
  "rethrow r = (case r of Inl e \<Rightarrow> Inl (Thrown e) | Inr x \<Rightarrow> Inr x)"

definition refuse_failed :: "job_reason \<Rightarrow> 'a result \<Rightarrow> 'a job_result" where
  "refuse_failed reason r = (case r of Inl e \<Rightarrow> refuse reason | Inr x \<Rightarrow> Inr x)"

record swap_cache = ladder_cache +
  sc_isCurrentAfter :: bool
  sc_bookAfter :: book
  sc_replaced :: "string \<Rightarrow> bool"

record route_options = admission_policy +
  ro_nowMs :: int
  ro_expiryMarginSeconds :: int
  ro_unavailableOfferHashes :: "string list"
  ro_resourceLimits :: "limit_controls option"
  ro_freshNowMs :: "int option"
  ro_shouldAbort :: abort_callback
  ro_abortAfter :: poll_answer

record resolved_route =
  rt_offers :: "book_offer list"
  rt_tokenBalances :: "token_balance list"
  rt_receipts :: "whole_offer_receipt list"
  rt_mergeOrder :: "string list"
  rt_claim :: claim

definition MAX_EXACT_FILES_PER_READ :: nat where
  "MAX_EXACT_FILES_PER_READ = 8"

section \<open>The job\<close>

definition snapshotOffer :: "book_offer \<Rightarrow> book_offer" where
  "snapshotOffer offer = offer\<lparr>bo_blob := None\<rparr>"

definition outside_settlement :: "int \<Rightarrow> bool" where
  "outside_settlement n \<longleftrightarrow> n \<le> 0 \<or> n > MAX_SETTLEMENT_AMOUNT"

definition requireCanonicalJob :: "swap_message \<Rightarrow> unit job_result" where
  "requireCanonicalJob job =
     (if \<not> isHex64 (sw_tokenIn job) \<or> \<not> isHex64 (sw_tokenOut job) then refuse JOB_ROUTE_NOT_CURRENT
      else if toLowerCase (sw_tokenIn job) = toLowerCase (sw_tokenOut job) then refuse JOB_ROUTE_NOT_CURRENT
      else bindR (rethrow (BigInt (sw_amountIn job))) (\<lambda>amountIn.
           bindR (rethrow (BigInt (sw_amountOut job))) (\<lambda>amountOut.
             refuse_if (outside_settlement amountIn \<or> outside_settlement amountOut) JOB_ROUTE_NOT_CURRENT)))"

text \<open>\<open>provenance[index]\<close> past the end is undefined.\<close>

definition matchingPair ::
    "price_levels list \<Rightarrow> pair_provenance list \<Rightarrow> swap_message \<Rightarrow> (price_levels \<times> pair_provenance option) option" where
  "matchingPair levels provenance job =
     (let found = filter (\<lambda>i. pv_tokenIn (levels ! i) = toLowerCase (sw_tokenIn job)
                            \<and> pv_tokenOut (levels ! i) = toLowerCase (sw_tokenOut job)) [0..<length levels]
      in case found of
        [] \<Rightarrow> None
      | index # _ \<Rightarrow> Some (levels ! index, if index < length provenance then Some (provenance ! index) else None))"

definition requireAdmittedPair :: "route_options \<Rightarrow> swap_message \<Rightarrow> unit job_result" where
  "requireAdmittedPair options job =
     (let tokenIn = toLowerCase (sw_tokenIn job); tokenOut = toLowerCase (sw_tokenOut job) in
      bindR (refuse_if (case ap_supportedPairs options of None \<Rightarrow> False
                        | Some pairs \<Rightarrow> admissionPairKey tokenIn tokenOut \<notin> set pairs) JOB_PAIR_UNSUPPORTED) (\<lambda>_.
        case ap_minJobOutput options of None \<Rightarrow> Inr ()
        | Some minima \<Rightarrow> (case map_of minima tokenOut of
            None \<Rightarrow> refuse JOB_MIN_OUTPUT
          | Some minimum \<Rightarrow> bindR (rethrow (BigInt (sw_amountOut job))) (\<lambda>amountOut.
              refuse_if (amountOut < minimum) JOB_MIN_OUTPUT))))"

section \<open>The derivation\<close>

definition route_callback :: "swap_cache \<Rightarrow> route_options \<Rightarrow> abort_callback" where
  "route_callback cache options = Some (\<lambda>polls.
     if \<not> lc_isCurrentAt cache polls then Abort
     else (case ro_shouldAbort options of None \<Rightarrow> Continue | Some answer \<Rightarrow> answer polls))"

definition route_derive_options :: "swap_cache \<Rightarrow> route_options \<Rightarrow> resource_limits \<Rightarrow> derive_options" where
  "route_derive_options cache options limits =
     (let policy = forwardAdmissionPolicy options in
      \<lparr>ap_supportedPairs = ap_supportedPairs policy, ap_minJobOutput = ap_minJobOutput policy,
       do_nowMs = ro_nowMs options, do_expiryMarginSeconds = ro_expiryMarginSeconds options,
       do_unavailableOfferHashes = ro_unavailableOfferHashes options,
       do_resourceLimits = Some (\<lambda>field. Some (Integral (get_limit limits field))),
       do_shouldAbort = route_callback cache options\<rparr>)"

definition crossed_margin :: "route_options \<Rightarrow> book_offer \<Rightarrow> bool" where
  "crossed_margin options offer =
     (let freshNow = (case ro_freshNowMs options of None \<Rightarrow> ro_nowMs options | Some n \<Rightarrow> n) in
      case so_expiresAt offer of None \<Rightarrow> False
      | Some expiresAt \<Rightarrow> expiresAt - ro_expiryMarginSeconds options * 1000 > ro_nowMs options
                       \<and> expiresAt - ro_expiryMarginSeconds options * 1000 \<le> freshNow)"

definition book_moved :: "swap_cache \<Rightarrow> route_options \<Rightarrow> book_offer list \<Rightarrow> bool" where
  "book_moved cache options sourceOffers \<longleftrightarrow>
     book_size (sc_bookAfter cache) \<noteq> int (length sourceOffers)
     \<or> list_ex (\<lambda>offer. book_get (sc_bookAfter cache) (so_offerHash offer) \<noteq> Some offer
                     \<or> sc_replaced cache (so_offerHash offer) \<or> crossed_margin options offer) sourceOffers"

definition requireStillCurrent :: "swap_cache \<Rightarrow> route_options \<Rightarrow> book_offer list \<Rightarrow> unit job_result" where
  "requireStillCurrent cache options sourceOffers =
     (if \<not> sc_isCurrentAfter cache then refuse JOB_CACHE_NOT_CURRENT
      else case ro_abortAfter options of
        Throws \<Rightarrow> Inl (Thrown (PlainError ''shouldAbort''))
      | Abort \<Rightarrow> refuse JOB_CACHE_NOT_CURRENT
      | Continue \<Rightarrow> refuse_if (book_moved cache options sourceOffers) JOB_ROUTE_NOT_CURRENT)"

section \<open>The witness\<close>

text \<open>\<open>combinations.findLast(entry => BigInt(entry.input) <= amountIn)\<close>.\<close>

fun first_within :: "combination_provenance list \<Rightarrow> int \<Rightarrow> combination_provenance option result" where
  "first_within [] amountIn = Inr None"
| "first_within (e # es) amountIn = bindR (BigInt (cp_input e)) (\<lambda>n.
     if n \<le> amountIn then Inr (Some e) else first_within es amountIn)"

definition find_witness :: "combination_provenance list \<Rightarrow> int \<Rightarrow> combination_provenance option result" where
  "find_witness combinations amountIn = first_within (rev combinations) amountIn"

definition witness_invalid :: "resource_limits \<Rightarrow> combination_provenance \<Rightarrow> bool" where
  "witness_invalid limits witness \<longleftrightarrow>
     cp_offerHashes witness = []
     \<or> length (cp_offerHashes witness) > MAX_EXACT_FILES_PER_READ
     \<or> int (length (cp_offerHashes witness)) > rl_maxMakersPerCombination limits
     \<or> length (js_uniq (cp_offerHashes witness)) \<noteq> length (cp_offerHashes witness)"

definition route_offer :: "book \<Rightarrow> string \<Rightarrow> book_offer job_result" where
  "route_offer b hash = (case book_get b hash of
     None \<Rightarrow> refuse JOB_ROUTE_NOT_CURRENT | Some offer \<Rightarrow> Inr (snapshotOffer offer))"

definition terms_changed :: "book_offer \<Rightarrow> bool" where
  "terms_changed offer = (case (so_gives offer, so_wants offer) of
     ([give], [want]) \<Rightarrow> sl_kind give \<noteq> SHIELDED \<or> sl_kind want \<noteq> SHIELDED
                       \<or> leg_amount give \<le> 0 \<or> leg_amount want \<le> 0
   | _ \<Rightarrow> True)"

definition maker_source :: "book_offer \<Rightarrow> merge_source" where
  "maker_source offer = \<lparr>src_gives = map balance_leg.truncate (so_gives offer),
     src_wants = map balance_leg.truncate (so_wants offer), src_hash = so_offerHash offer\<rparr>"

definition job_trade :: "swap_message \<Rightarrow> int \<Rightarrow> int \<Rightarrow> whole_offer_trade" where
  "job_trade job amountIn amountOut = \<lparr>tr_tokenIn = toLowerCase (sw_tokenIn job),
     tr_tokenOut = toLowerCase (sw_tokenOut job), tr_input = amountIn, tr_output = amountOut\<rparr>"

text \<open>The receipts of the exact job, which the witness's totals and the quote must back.\<close>

definition route_receipts ::
    "token_balance list \<Rightarrow> whole_offer_trade \<Rightarrow> combination_provenance \<Rightarrow> int \<Rightarrow> whole_offer_receipt list job_result" where
  "route_receipts tokenBalances trade witness quoted =
     bindR (rethrow (buildWholeOfferReceipts tokenBalances trade)) (\<lambda>result.
       case result of
         Inl f \<Rightarrow> refuse JOB_ROUTE_NOT_CURRENT
       | Inr r \<Rightarrow> bindR (rethrow (BigInt (cp_input witness))) (\<lambda>input.
           if rr_requiredInput r \<noteq> input then refuse JOB_ROUTE_NOT_CURRENT
           else bindR (rethrow (BigInt (cp_output witness))) (\<lambda>output.
             if rr_availableOutput r \<noteq> output \<or> rr_availableOutput r \<noteq> quoted
             then refuse JOB_ROUTE_NOT_CURRENT
             else Inr (rr_receipts r))))"

definition route_merge_order :: "book_offer list \<Rightarrow> resource_limits \<Rightarrow> string list job_result" where
  "route_merge_order offers limits =
     bindR (rethrow (findSafeWholeOfferMergeOrder (map maker_source offers)
              \<lparr>mo_maximumDelta = None, mo_maxSources = Some (rl_maxMakersPerCombination limits),
               mo_maxWork = Some (min MAX_SAFE_MERGE_ORDER_WORK (rl_maxDiscoveryWork limits)),
               mo_shouldAbort = None\<rparr> 0)) (\<lambda>(result, polls).
       case result of Merge_ok hashes fallback work \<Rightarrow> Inr hashes
       | Merge_failed reason work \<Rightarrow> refuse JOB_ROUTE_NOT_CURRENT)"

definition quoted_pair :: "derived_ladder \<Rightarrow> swap_message \<Rightarrow> int \<Rightarrow> int
    \<Rightarrow> (int \<times> pair_provenance option) job_result" where
  "quoted_pair derived job amountIn amountOut =
     (case matchingPair (dl_levels derived) (dl_provenance derived) job of
        None \<Rightarrow> refuse JOB_ROUTE_NOT_CURRENT
      | Some (levels, provenance) \<Rightarrow>
          bindR (rethrow (relay_interpolateQuote (pv_levels levels) amountIn)) (\<lambda>quote.
            case quote of
              None \<Rightarrow> refuse JOB_ROUTE_NOT_CURRENT
            | Some quoted \<Rightarrow> if amountOut > quoted then refuse JOB_ROUTE_NOT_CURRENT
                             else Inr (quoted, provenance)))"

definition require_witness :: "derived_ladder \<Rightarrow> pair_provenance option \<Rightarrow> int \<Rightarrow> combination_provenance job_result" where
  "require_witness derived provenance amountIn =
     (case provenance of
        None \<Rightarrow> Inl (Thrown (TypeError ''combinations of undefined''))
      | Some p \<Rightarrow> bindR (rethrow (find_witness (pp_combinations p) amountIn)) (\<lambda>found.
          case found of None \<Rightarrow> refuse JOB_ROUTE_NOT_CURRENT
          | Some witness \<Rightarrow> if witness_invalid (dl_limits derived) witness then refuse JOB_ROUTE_NOT_CURRENT
                            else Inr witness))"

definition route_of :: "swap_cache \<Rightarrow> derived_ladder \<Rightarrow> swap_message \<Rightarrow> resolved_route job_result" where
  "route_of cache derived job =
     bindR (rethrow (BigInt (sw_amountIn job))) (\<lambda>amountIn.
     bindR (rethrow (BigInt (sw_amountOut job))) (\<lambda>amountOut.
     bindR (quoted_pair derived job amountIn amountOut) (\<lambda>(quoted, provenance).
     bindR (require_witness derived provenance amountIn) (\<lambda>witness.
     bindR (mapR (route_offer (sc_bookAfter cache)) (sort (cp_offerHashes witness))) (\<lambda>offers.
     bindR (refuse_if (list_ex terms_changed offers) JOB_ROUTE_NOT_CURRENT) (\<lambda>_.
     bindR (refuse_failed JOB_ROUTE_NOT_CURRENT (accountWholeOfferBalances (map maker_source offers))) (\<lambda>tokenBalances.
     bindR (rethrow (serializeWholeOfferTokenBalances tokenBalances)) (\<lambda>serialized.
     bindR (refuse_if (serialized \<noteq> cp_tokenBalances witness) JOB_ROUTE_NOT_CURRENT) (\<lambda>_.
     bindR (route_receipts tokenBalances (job_trade job amountIn amountOut) witness quoted) (\<lambda>receipts.
     bindR (route_merge_order offers (dl_limits derived)) (\<lambda>mergeOrder.
       Inr \<lparr>rt_offers = offers, rt_tokenBalances = tokenBalances, rt_receipts = receipts,
            rt_mergeOrder = mergeOrder, rt_claim = claimFor offers []\<rparr>)))))))))))"

section \<open>Resolving\<close>

definition route_preconditions :: "swap_message \<Rightarrow> swap_cache \<Rightarrow> route_options \<Rightarrow> resource_limits job_result" where
  "route_preconditions job cache options =
     bindR (requireCanonicalJob job) (\<lambda>_.
     bindR (refuse_if (\<not> lc_isCurrent cache) JOB_CACHE_NOT_CURRENT) (\<lambda>_.
     bindR (requireAdmittedPair options job) (\<lambda>_.
       case resolveLadderResourceLimits (ro_resourceLimits options) of
         Inl refusal \<Rightarrow> refuse JOB_ROUTE_NOT_CURRENT
       | Inr limits \<Rightarrow> if book_size (lc_book cache) > rl_maxSourceOffers limits then refuse JOB_ROUTE_NOT_CURRENT
                        else Inr limits)))"

text \<open>Reserving is the last step; every earlier refusal leaves the stock as it was.\<close>

definition claim_route :: "resolved_route job_result \<Rightarrow> stock \<Rightarrow> resolved_route job_result \<times> stock" where
  "claim_route r stock = (case r of
     Inl f \<Rightarrow> (Inl f, stock)
   | Inr route \<Rightarrow> (let (reserved, stock') = reserve (rt_claim route) stock in
       if reserved then (Inr route, stock') else (refuse JOB_ROUTE_UNAVAILABLE, stock')))"

definition resolveSwapJobRoute ::
    "(combination_state list \<Rightarrow> nat) \<Rightarrow> swap_message \<Rightarrow> swap_cache \<Rightarrow> stock \<Rightarrow> route_options
      \<Rightarrow> (resolved_route job_result \<times> stock) option" where
  "resolveSwapJobRoute comparisons job cache stock options =
     (case route_preconditions job cache options of
        Inl f \<Rightarrow> Some (Inl f, stock)
      | Inr limits \<Rightarrow>
          (let sourceOffers = book_all (lc_book cache) in
           case deriveLadder comparisons (map source_offer.truncate sourceOffers) (route_derive_options cache options limits) of
             None \<Rightarrow> None
           | Some derivation \<Rightarrow> Some (claim_route
               (bindR (rethrow derivation) (\<lambda>derived.
                bindR (requireStillCurrent cache options sourceOffers) (\<lambda>_.
                  route_of cache derived job))) stock)))"

section \<open>An admitted route backs the job\<close>

lemma refuse_simps [simp]: "refuse r \<noteq> Inr x" "refuse_if b r = Inr () \<longleftrightarrow> \<not> b"
  "rethrow q = Inr x \<longleftrightarrow> q = Inr x" "refuse_failed r q = Inr x \<longleftrightarrow> q = Inr x"
  by (auto simp: refuse_def refuse_if_def rethrow_def refuse_failed_def split: sum.splits)

lemma refused_case: "(case r of Inl f \<Rightarrow> refuse x | Inr q \<Rightarrow> g q) = Inr y \<longleftrightarrow> (\<exists>q. r = Inr q \<and> g q = Inr y)"
  by (cases r) simp_all

lemma refused_merge: "(case r of Merge_ok h f w \<Rightarrow> Inr h | Merge_failed e w \<Rightarrow> refuse x) = Inr y \<longleftrightarrow> (\<exists>f w. r = Merge_ok y f w)"
  by (cases r) auto

lemma all2_source: "list_all2 P xs ys \<Longrightarrow> y \<in> set ys \<Longrightarrow> \<exists>x. P x y"
  by (induction rule: list_all2_induct) auto

lemma canonical_job:
  assumes "requireCanonicalJob job = Inr u"
  shows "isHex64 (sw_tokenIn job)" "isHex64 (sw_tokenOut job)" "toLowerCase (sw_tokenIn job) \<noteq> toLowerCase (sw_tokenOut job)"
    "\<exists>amountIn amountOut. BigInt (sw_amountIn job) = Inr amountIn \<and> BigInt (sw_amountOut job) = Inr amountOut
       \<and> 0 < amountIn \<and> amountIn \<le> MAX_SETTLEMENT_AMOUNT \<and> 0 < amountOut \<and> amountOut \<le> MAX_SETTLEMENT_AMOUNT"
  using assms by (auto simp: requireCanonicalJob_def bindR_eq_Inr outside_settlement_def not_le not_less split: if_splits)

lemma findSafe_distinct:
  assumes "findSafeWholeOfferMergeOrder sources options polls = Inr (Merge_ok hashes fb work, polls')"
  shows "distinct (map (\<lambda>s. toLowerCase (src_hash s)) sources)"
proof -
  from assms obtain entries where e: "mapR merge_entry_of sources = Inr entries"
    and d: "length (js_uniq (map me_hash (sort_key me_hash entries))) = length (sort_key me_hash entries)"
    by (auto simp: findSafeWholeOfferMergeOrder_def Let_def bindR_eq_Inr split: if_splits)
  from d have "distinct (map me_hash (sort_key me_hash entries))"
    using js_uniq_length_eq [of "map me_hash (sort_key me_hash entries)"] by simp
  then have "distinct (map me_hash entries)" by (simp add: distinct_map_sort_key)
  moreover have "map me_hash entries = map (\<lambda>s. toLowerCase (src_hash s)) sources"
    using e unfolding mapR_Inr_iff
    by (induction rule: list_all2_induct) (auto simp: merge_entry_of_def canonicalToken_def bindR_eq_Inr split: if_splits)
  ultimately show ?thesis by simp
qed

text \<open>What the receipts, merge order and claim of a route must satisfy for amounts \<open>x\<close> in, \<open>y\<close> out.\<close>

definition backs_trade :: "swap_message \<Rightarrow> int \<Rightarrow> int \<Rightarrow> resolved_route \<Rightarrow> bool" where
  "backs_trade job x y route \<longleftrightarrow>
     (\<forall>t. received (rt_receipts route) t = maker_net (map maker_source (rt_offers route)) t
        + (if t = toLowerCase (sw_tokenIn job) then x else 0) - (if t = toLowerCase (sw_tokenOut job) then y else 0))
     \<and> list_all (\<lambda>r. 0 < rc_amount r \<and> rc_amount r \<le> MAX_SETTLEMENT_AMOUNT) (rt_receipts route)
     \<and> (\<exists>ss. mset ss = mset (map maker_source (rt_offers route))
          \<and> rt_mergeOrder route = map (\<lambda>s. toLowerCase (src_hash s)) ss \<and> safe_order MAX_SETTLEMENT_AMOUNT ss)
     \<and> distinct (map (\<lambda>v. toLowerCase (so_offerHash v)) (rt_offers route))
     \<and> rt_offers route \<noteq> [] \<and> length (rt_offers route) \<le> MAX_EXACT_FILES_PER_READ
     \<and> rt_claim route = claimFor (rt_offers route) []"

lemma route_receipts_backed:
  assumes a: "accountWholeOfferBalances sources = Inr rows"
    and r: "route_receipts rows trade witness quoted = Inr receipts"
  shows "received receipts t = maker_net sources t
       + (if t = toLowerCase (tr_tokenIn trade) then tr_input trade else 0)
       - (if t = toLowerCase (tr_tokenOut trade) then tr_output trade else 0)"
    "list_all (\<lambda>r. 0 < rc_amount r \<and> rc_amount r \<le> MAX_SETTLEMENT_AMOUNT) receipts"
proof -
  from r obtain q where q: "buildWholeOfferReceipts rows trade = Inr (Inr q)" "rr_receipts q = receipts"
    by (auto simp: route_receipts_def bindR_eq_Inr refused_case split: if_splits)
  from receipts_conserve [OF a q(1), of t] q(2) show "received receipts t = maker_net sources t
       + (if t = toLowerCase (tr_tokenIn trade) then tr_input trade else 0)
       - (if t = toLowerCase (tr_tokenOut trade) then tr_output trade else 0)"
    "list_all (\<lambda>r. 0 < rc_amount r \<and> rc_amount r \<le> MAX_SETTLEMENT_AMOUNT) receipts"
    by (simp_all add: list_all_iff)
qed

lemma merge_order_safe:
  assumes "route_merge_order offers limits = Inr hashes"
  shows "\<exists>ss. mset ss = mset (map maker_source offers) \<and> hashes = map (\<lambda>s. toLowerCase (src_hash s)) ss
      \<and> safe_order MAX_SETTLEMENT_AMOUNT ss"
    "distinct (map (\<lambda>v. toLowerCase (so_offerHash v)) offers)"
proof -
  from assms obtain fb work polls where
    f: "findSafeWholeOfferMergeOrder (map maker_source offers)
              \<lparr>mo_maximumDelta = None, mo_maxSources = Some (rl_maxMakersPerCombination limits),
               mo_maxWork = Some (min MAX_SAFE_MERGE_ORDER_WORK (rl_maxDiscoveryWork limits)),
               mo_shouldAbort = None\<rparr> 0 = Inr (Merge_ok hashes fb work, polls)"
    by (auto simp: route_merge_order_def bindR_eq_Inr refused_merge)
  from findSafe_ok [OF f] show "\<exists>ss. mset ss = mset (map maker_source offers)
      \<and> hashes = map (\<lambda>s. toLowerCase (src_hash s)) ss \<and> safe_order MAX_SETTLEMENT_AMOUNT ss"
    by simp
  from findSafe_distinct [OF f] show "distinct (map (\<lambda>v. toLowerCase (so_offerHash v)) offers)"
    by (simp add: comp_def maker_source_def)
qed

lemma route_of_backed:
  assumes r: "route_of cache derived job = Inr route" and h: "isHex64 (sw_tokenIn job)" "isHex64 (sw_tokenOut job)"
    and x: "BigInt (sw_amountIn job) = Inr x" and y: "BigInt (sw_amountOut job) = Inr y"
  shows "backs_trade job x y route"
    "list_all (\<lambda>v. \<exists>hash w. book_get (sc_bookAfter cache) hash = Some w \<and> v = snapshotOffer w) (rt_offers route)"
proof -
  from r x y obtain quoted provenance witness offers rows receipts order where
    w: "require_witness derived provenance x = Inr witness"
    and os: "mapR (route_offer (sc_bookAfter cache)) (sort (cp_offerHashes witness)) = Inr offers"
    and acc: "accountWholeOfferBalances (map maker_source offers) = Inr rows"
    and rec: "route_receipts rows (job_trade job x y) witness quoted = Inr receipts"
    and ord: "route_merge_order offers (dl_limits derived) = Inr order"
    and route: "route = \<lparr>rt_offers = offers, rt_tokenBalances = rows, rt_receipts = receipts,
            rt_mergeOrder = order, rt_claim = claimFor offers []\<rparr>"
    by (clarsimp simp: route_of_def bindR_eq_Inr)
  from w have "\<not> witness_invalid (dl_limits derived) witness"
    by (auto simp: require_witness_def bindR_eq_Inr split: option.splits if_splits)
  moreover have "length offers = length (cp_offerHashes witness)"
    using os list_all2_lengthD unfolding mapR_Inr_iff by fastforce
  ultimately have len: "offers \<noteq> []" "length offers \<le> MAX_EXACT_FILES_PER_READ"
    by (auto simp: witness_invalid_def)
  note rb = route_receipts_backed [OF acc rec]
  note mo = merge_order_safe [OF ord]
  have l: "toLowerCase (toLowerCase (sw_tokenIn job)) = toLowerCase (sw_tokenIn job)"
    "toLowerCase (toLowerCase (sw_tokenOut job)) = toLowerCase (sw_tokenOut job)"
    using h by (simp_all add: toLowerCase_idem_hex)
  show "backs_trade job x y route"
    unfolding backs_trade_def route resolved_route.select_convs
    using rb mo len by (intro conjI allI) (simp_all only: job_trade_def whole_offer_trade.select_convs l not_False_eq_True)
  have "\<exists>hash w. book_get (sc_bookAfter cache) hash = Some w \<and> v = snapshotOffer w" if "v \<in> set offers" for v
  proof -
    from os have "list_all2 (\<lambda>hash v. route_offer (sc_bookAfter cache) hash = Inr v) (sort (cp_offerHashes witness)) offers"
      by (simp add: mapR_Inr_iff)
    from all2_source [OF this that] obtain hash where "route_offer (sc_bookAfter cache) hash = Inr v" ..
    then show ?thesis by (auto simp: route_offer_def split: option.splits)
  qed
  then show "list_all (\<lambda>v. \<exists>hash w. book_get (sc_bookAfter cache) hash = Some w \<and> v = snapshotOffer w) (rt_offers route)"
    by (simp add: route list_all_iff)
qed

lemma resolve_cases:
  obtains (refused) f where "resolveSwapJobRoute comparisons job cache stock options = Some (Inl f, stock)"
  | (admitted) route stock' derived where
      "resolveSwapJobRoute comparisons job cache stock options = Some (Inr route, stock')"
      "requireCanonicalJob job = Inr ()" "route_of cache derived job = Inr route"
      "reserve (rt_claim route) stock = (True, stock')"
proof (cases "route_preconditions job cache options")
  case (Inl f)
  then show thesis by (intro refused) (simp add: resolveSwapJobRoute_def)
next
  case (Inr limits)
  then have c: "requireCanonicalJob job = Inr ()" by (auto simp: route_preconditions_def bindR_eq_Inr)
  let ?offers = "book_all (lc_book cache)"
  obtain d where d: "deriveLadder comparisons (map source_offer.truncate ?offers) (route_derive_options cache options limits)
      = Some (Inr d)"
    using deriveLadder_spec by blast
  let ?r = "bindR (requireStillCurrent cache options ?offers) (\<lambda>_. route_of cache d job)"
  have s: "resolveSwapJobRoute comparisons job cache stock options = Some (claim_route ?r stock)"
    using Inr d by (simp add: resolveSwapJobRoute_def rethrow_def)
  show thesis
  proof (cases ?r)
    case (Inl f)
    then show thesis using s by (intro refused) (simp add: claim_route_def)
  next
    case (Inr route)
    then have r: "route_of cache d job = Inr route" by (auto simp: bindR_eq_Inr)
    obtain b stock' where b: "reserve (rt_claim route) stock = (b, stock')" by fastforce
    show thesis
    proof (cases b)
      case True
      with s Inr b have "resolveSwapJobRoute comparisons job cache stock options = Some (Inr route, stock')"
        by (simp add: claim_route_def)
      then show thesis using c r b True by (intro admitted) auto
    next
      case False
      with s Inr b reserve_refused [of "rt_claim route" stock stock']
      show thesis by (intro refused) (simp add: claim_route_def refuse_def)
    qed
  qed
qed

section \<open>Properties\<close>

text \<open>
  C16: resolving a job always returns. A refusal leaves the stock untouched. An admitted route is
  made of distinct offers of the current book; for every token, what the solver receives is
  exactly what the makers net of it plus the taker's input less the taker's output, and nothing is
  ever paid from the solver's own tokens; the makers can be merged in the given order with every
  prefix representable; and exactly the offers and coins of the route have been reserved.
\<close>

theorem swap_route_backed:
  "\<exists>r stock'. resolveSwapJobRoute comparisons job cache stock options = Some (r, stock')
     \<and> (case r of
         Inl f \<Rightarrow> stock' = stock
       | Inr route \<Rightarrow> (case (BigInt (sw_amountIn job), BigInt (sw_amountOut job)) of
           (Inr x, Inr y) \<Rightarrow> 0 < x \<and> 0 < y \<and> backs_trade job x y route
         | _ \<Rightarrow> False)
         \<and> list_all (\<lambda>v. \<exists>hash w. book_get (sc_bookAfter cache) hash = Some w \<and> v = snapshotOffer w) (rt_offers route)
         \<and> reserve (rt_claim route) stock = (True, stock'))"
proof (rule resolve_cases [of comparisons job cache stock options])
  fix route stock' derived
  assume a: "resolveSwapJobRoute comparisons job cache stock options = Some (Inr route, stock')"
    "requireCanonicalJob job = Inr ()" "route_of cache derived job = Inr route"
    "reserve (rt_claim route) stock = (True, stock')"
  from canonical_job [OF a(2)] obtain x y where xy: "isHex64 (sw_tokenIn job)" "isHex64 (sw_tokenOut job)"
    "BigInt (sw_amountIn job) = Inr x" "BigInt (sw_amountOut job) = Inr y" "0 < x" "0 < y" by auto
  from route_of_backed [OF a(3) xy(1-4)] a(1,4) xy show ?thesis by simp
qed simp

end
