(* ===== verification/Swap_Exact.thy ===== *)
theory Swap_Exact
  imports Swap_Route
begin

text \<open>
  Model of the exact-file and transaction checks of \<^verbatim>\<open>packages/solver/src/swap-job-executor.ts\<close>: the
  fetched maker files are bound to the route's offers, and every transaction the executor handles is
  inspected for its shielded token vector. The ledger library is external: a transaction is of any
  type, and what the library answers on one is a record of functions.
\<close>

section \<open>The ledger and the fetched files\<close>

record imbalance =
  im_tag :: string
  im_raw :: string
  im_amount :: int

record exact_leg =
  xl_token :: string
  xl_amount :: string
  xl_kind :: string

record exact_semantics =
  xs_gives :: "exact_leg list"
  xs_wants :: "exact_leg list"
  xs_nullifiers :: "string list"

record exact_file =
  xf_offerId :: string
  xf_valid :: bool
  xf_computed :: "exact_semantics option"
  xf_expiresAt :: string
  xf_offer :: "string option"

record 'tx sdk =
  ld_reconstruct :: "string \<Rightarrow> 'tx result"
  ld_semantics :: "'tx \<Rightarrow> exact_semantics result"
  ld_imbalances :: "'tx \<Rightarrow> imbalance list result"
  ld_merge :: "'tx list \<Rightarrow> 'tx result"

section \<open>Semantics of a file against its cached offer\<close>

definition sameSet :: "string list \<Rightarrow> string list \<Rightarrow> bool" where
  "sameSet l r \<longleftrightarrow> join_with CHR '','' (sort (js_uniq (map toLowerCase l))) = join_with CHR '','' (sort (js_uniq (map toLowerCase r)))"

definition exact_leg_text :: "exact_leg \<Rightarrow> string result" where
  "exact_leg_text leg = bindR (BigInt (xl_amount leg)) (\<lambda>n.
     Inr (xl_kind leg @ '':'' @ toLowerCase (xl_token leg) @ '':'' @ bigint_to_string n))"

definition exact_legs_text :: "exact_leg list \<Rightarrow> string result" where
  "exact_legs_text legs = bindR (mapR exact_leg_text legs) (\<lambda>ts. Inr (join_with CHR ''|'' (sort ts)))"

definition cached_legs_text :: "source_leg list \<Rightarrow> string" where
  "cached_legs_text legs = join_with CHR ''|'' (sort (map (\<lambda>l.
     kind_text (sl_kind l) @ '':'' @ toLowerCase (leg_token l) @ '':'' @ bigint_to_string (leg_amount l)) legs))"

definition exactSemanticsMatch :: "book_offer \<Rightarrow> exact_semantics \<Rightarrow> bool result" where
  "exactSemanticsMatch offer sem =
     (if length (xs_gives sem) \<noteq> length (so_gives offer) \<or> length (xs_wants sem) \<noteq> length (so_wants offer)
      then Inr False
      else bindR (exact_legs_text (xs_gives sem)) (\<lambda>gives.
        if gives \<noteq> cached_legs_text (so_gives offer) then Inr False
        else bindR (exact_legs_text (xs_wants sem)) (\<lambda>wants.
          Inr (wants = cached_legs_text (so_wants offer) \<and> sameSet (xs_nullifiers sem) (so_inputNullifiers offer)))))"

section \<open>Token vectors\<close>

type_synonym token_vector = "(string \<times> int) list"

definition add_imbalance :: "token_vector \<Rightarrow> imbalance \<Rightarrow> token_vector job_result" where
  "add_imbalance m im =
     (if im_tag im = ''dust'' then Inr m
      else if im_tag im \<noteq> ''shielded'' then refuse JOB_WALLET_FAILED
      else let token = toLowerCase (im_raw im) in Inr (AList.update token (amount_in m token + im_amount im) m))"

definition aggregateTokenImbalances :: "imbalance list \<Rightarrow> token_vector job_result" where
  "aggregateTokenImbalances ims =
     bindR (foldR add_imbalance [] ims) (\<lambda>m. Inr (filter (\<lambda>e. snd e \<noteq> 0) m))"

definition vector_of :: "(string \<times> int) list \<Rightarrow> token_vector" where
  "vector_of es = fold (\<lambda>(k, v). AList.update k v) es []"

definition balanceNetMap :: "token_balance list \<Rightarrow> token_vector" where
  "balanceNetMap balances =
     vector_of (map (\<lambda>b. (toLowerCase (tb_token b), tb_net b)) (filter (\<lambda>b. tb_net b \<noteq> 0) balances))"

definition receiptHalfNetMap :: "whole_offer_receipt list \<Rightarrow> token_vector" where
  "receiptHalfNetMap receipts = vector_of (map (\<lambda>r. (toLowerCase (rc_token r), - rc_amount r)) receipts)"

definition same_vector :: "token_vector \<Rightarrow> token_vector \<Rightarrow> bool" where
  "same_vector actual expected \<longleftrightarrow>
     length actual = length expected \<and> list_all (\<lambda>(token, n). map_of actual token = Some n) expected"

definition out_of_domain :: "token_vector \<Rightarrow> bool" where
  "out_of_domain m \<longleftrightarrow> list_ex (\<lambda>e. snd e < - MAX_SETTLEMENT_AMOUNT \<or> snd e > MAX_SETTLEMENT_AMOUNT) m"

definition inspect :: "'tx sdk \<Rightarrow> job_reason \<Rightarrow> 'tx \<Rightarrow> token_vector job_result" where
  "inspect ld reason tx =
     bindR (refuse_failed reason (ld_imbalances ld tx)) (\<lambda>rows.
       case aggregateTokenImbalances rows of Inl _ \<Rightarrow> refuse reason | Inr m \<Rightarrow> Inr m)"

definition assertTransactionNet :: "'tx sdk \<Rightarrow> 'tx \<Rightarrow> token_vector \<Rightarrow> job_reason \<Rightarrow> unit job_result" where
  "assertTransactionNet ld tx expected reason =
     bindR (inspect ld reason tx) (\<lambda>actual.
       refuse_if (out_of_domain (actual @ expected) \<or> \<not> same_vector actual expected) reason)"

definition inverse_vector :: "swap_message \<Rightarrow> token_vector job_result" where
  "inverse_vector job =
     bindR (rethrow (BigInt (sw_amountOut job))) (\<lambda>amountOut.
     bindR (rethrow (BigInt (sw_amountIn job))) (\<lambda>amountIn.
       Inr (vector_of [(toLowerCase (sw_tokenOut job), amountOut), (toLowerCase (sw_tokenIn job), - amountIn)])))"

definition assertInverseHalf :: "'tx sdk \<Rightarrow> swap_message \<Rightarrow> 'tx \<Rightarrow> unit job_result" where
  "assertInverseHalf ld job tx =
     bindR (inspect ld JOB_WALLET_FAILED tx) (\<lambda>actual.
     bindR (inverse_vector job) (\<lambda>expected.
       refuse_if (\<not> same_vector actual expected) JOB_WALLET_FAILED))"

text \<open>Magnitudes are summed: a fee reservation is never under-counted.\<close>

definition estimateDustAmount :: "'tx sdk \<Rightarrow> 'tx \<Rightarrow> int job_result" where
  "estimateDustAmount ld tx =
     bindR (refuse_failed JOB_DUST_ESTIMATE (ld_imbalances ld tx)) (\<lambda>rows.
       let dust = filter (\<lambda>r. im_tag r = ''dust'' \<and> im_amount r \<noteq> 0) rows in
       if dust = [] then refuse JOB_DUST_ESTIMATE
       else Inr (sum_list (map (\<lambda>r. \<bar>im_amount r\<bar>) dust)))"

section \<open>Reading a route's files\<close>

definition exact_leg_amount :: "exact_leg \<Rightarrow> balance_leg result" where
  "exact_leg_amount leg = bindR (BigInt (xl_amount leg)) (\<lambda>n. Inr \<lparr>leg_token = xl_token leg, leg_amount = n\<rparr>)"

definition exact_source :: "string \<Rightarrow> exact_semantics \<Rightarrow> merge_source result" where
  "exact_source hash sem =
     bindR (mapR exact_leg_amount (xs_gives sem)) (\<lambda>gives.
     bindR (mapR exact_leg_amount (xs_wants sem)) (\<lambda>wants.
       Inr \<lparr>src_gives = gives, src_wants = wants, src_hash = hash\<rparr>))"

definition require_match :: "book_offer \<Rightarrow> exact_semantics \<Rightarrow> unit job_result" where
  "require_match offer sem =
     bindR (rethrow (exactSemanticsMatch offer sem)) (\<lambda>same. refuse_if (\<not> same) JOB_EXACT_FILE_MISMATCH)"

text \<open>One file: the validated projection, the reconstructed transaction, and its real token vector.\<close>

definition read_file :: "'tx sdk \<Rightarrow> date_parser \<Rightarrow> book_offer \<Rightarrow> exact_file \<Rightarrow> (merge_source \<times> 'tx) job_result" where
  "read_file ld parseDate cached file =
     (case (xf_valid file, xf_offer file) of
        (True, Some text) \<Rightarrow>
          (case xf_computed file of
             None \<Rightarrow> refuse JOB_EXACT_FILE_MISMATCH
           | Some validated \<Rightarrow>
               bindR (require_match cached validated) (\<lambda>_.
               bindR (refuse_if (parseDate (xf_expiresAt file) = None \<or> parseDate (xf_expiresAt file) \<noteq> so_expiresAt cached)
                        JOB_EXACT_FILE_MISMATCH) (\<lambda>_.
               bindR (refuse_failed JOB_EXACT_FILE_MISMATCH (ld_reconstruct ld text)) (\<lambda>tx.
               bindR (refuse_failed JOB_EXACT_FILE_MISMATCH (ld_semantics ld tx)) (\<lambda>sem.
               bindR (require_match cached sem) (\<lambda>_.
               bindR (rethrow (exact_source (so_offerHash cached) sem)) (\<lambda>source.
               bindR (rethrow (accountWholeOfferBalances [source])) (\<lambda>balances.
               bindR (assertTransactionNet ld tx (balanceNetMap balances) JOB_EXACT_FILE_MISMATCH) (\<lambda>_.
                 Inr (source, tx))))))))))
      | _ \<Rightarrow> refuse JOB_EXACT_FILE_REFUSED)"

definition transaction_of :: "(merge_source \<times> 'tx) list \<Rightarrow> string \<Rightarrow> 'tx job_result" where
  "transaction_of read hash = (case map_of (map (\<lambda>(s, tx). (src_hash s, tx)) (rev read)) hash of
     None \<Rightarrow> refuse JOB_EXACT_FILE_MISMATCH | Some tx \<Rightarrow> Inr tx)"

definition default_merge_options :: merge_options where
  "default_merge_options = \<lparr>mo_maximumDelta = None, mo_maxSources = None, mo_maxWork = None, mo_shouldAbort = None\<rparr>"

definition readAndReconstruct ::
    "'tx sdk \<Rightarrow> date_parser \<Rightarrow> resolved_route \<Rightarrow> exact_file list result \<Rightarrow> 'tx list job_result" where
  "readAndReconstruct ld parseDate route response =
     bindR (refuse_failed JOB_EXACT_FILES_UNAVAILABLE response) (\<lambda>files.
     bindR (refuse_if (map xf_offerId files \<noteq> map so_offerHash (rt_offers route)) JOB_EXACT_FILE_MISMATCH) (\<lambda>_.
     bindR (mapR (\<lambda>(cached, file). read_file ld parseDate cached file) (zip (rt_offers route) files)) (\<lambda>read.
     bindR (rethrow (accountWholeOfferBalances (map fst read))) (\<lambda>exactBalances.
     bindR (rethrow (serializeWholeOfferTokenBalances exactBalances)) (\<lambda>exactText.
     bindR (rethrow (serializeWholeOfferTokenBalances (rt_tokenBalances route))) (\<lambda>routeText.
     bindR (refuse_if (exactText \<noteq> routeText) JOB_EXACT_FILE_MISMATCH) (\<lambda>_.
     bindR (rethrow (findSafeWholeOfferMergeOrder (map fst read) default_merge_options 0)) (\<lambda>(order, polls).
     bindR (refuse_if (case order of Merge_ok hashes fallback work \<Rightarrow> hashes \<noteq> rt_mergeOrder route | Merge_failed _ _ \<Rightarrow> True)
              JOB_EXACT_FILE_MISMATCH) (\<lambda>_.
       mapR (transaction_of read) (rt_mergeOrder route))))))))))"

section \<open>A route still current\<close>

definition book_semantics :: "book_offer \<Rightarrow> exact_semantics" where
  "book_semantics offer =
     (let legs = map (\<lambda>l. \<lparr>xl_token = leg_token l, xl_amount = bigint_to_string (leg_amount l), xl_kind = kind_text (sl_kind l)\<rparr>)
      in \<lparr>xs_gives = legs (so_gives offer), xs_wants = legs (so_wants offer), xs_nullifiers = so_inputNullifiers offer\<rparr>)"

definition offer_moved :: "book \<Rightarrow> int \<Rightarrow> book_offer \<Rightarrow> bool result" where
  "offer_moved b cutoff selected = (case book_get b (so_offerHash selected) of
     None \<Rightarrow> Inr True
   | Some current \<Rightarrow>
       if so_expiresAt current \<noteq> so_expiresAt selected
          \<or> (case so_expiresAt selected of None \<Rightarrow> False | Some e \<Rightarrow> e \<le> cutoff)
       then Inr True
       else bindR (exactSemanticsMatch selected (book_semantics current)) (\<lambda>same. Inr (\<not> same)))"

fun require_offers_current :: "book \<Rightarrow> int \<Rightarrow> book_offer list \<Rightarrow> unit job_result" where
  "require_offers_current b cutoff [] = Inr ()"
| "require_offers_current b cutoff (selected # rest) =
     bindR (rethrow (offer_moved b cutoff selected)) (\<lambda>moved.
       if moved then refuse JOB_ROUTE_NOT_CURRENT else require_offers_current b cutoff rest)"

definition assertRouteCurrent :: "ladder_cache \<Rightarrow> int \<Rightarrow> int \<Rightarrow> resolved_route \<Rightarrow> unit job_result" where
  "assertRouteCurrent cache now marginSeconds route =
     (if \<not> lc_isCurrent cache then refuse JOB_CACHE_NOT_CURRENT
      else require_offers_current (lc_book cache) (now + marginSeconds * 1000) (rt_offers route))"

section \<open>What the checks establish\<close>

text \<open>The real token vector of a transaction: what its shielded rows sum to, per token.\<close>

definition shielded_net :: "imbalance list \<Rightarrow> string \<Rightarrow> int" where
  "shielded_net rows t = (\<Sum>r\<leftarrow>rows. if im_tag r = ''shielded'' \<and> toLowerCase (im_raw r) = t then im_amount r else 0)"

definition has_net :: "'tx sdk \<Rightarrow> 'tx \<Rightarrow> (string \<Rightarrow> int) \<Rightarrow> bool" where
  "has_net ld tx v = (case ld_imbalances ld tx of Inl _ \<Rightarrow> False | Inr rows \<Rightarrow> (\<forall>t. shielded_net rows t = v t))"

lemma foldR_imbalances:
  assumes "foldR add_imbalance m rows = Inr m'" "distinct (map fst m)"
  shows "distinct (map fst m') \<and> (\<forall>t. amount_in m' t = amount_in m t + shielded_net rows t)"
  using assms
proof (induction rows arbitrary: m)
  case (Cons r rows)
  then obtain m1 where m1: "add_imbalance m r = Inr m1" "foldR add_imbalance m1 rows = Inr m'"
    by (auto simp: bindR_eq_Inr)
  have d: "distinct (map fst m1)" and a: "amount_in m1 t = amount_in m t + shielded_net [r] t" for t
    using m1(1) Cons.prems(2)
    by (auto simp: add_imbalance_def Let_def shielded_net_def distinct_update amount_in_update split: if_splits)
  from Cons.IH [OF m1(2) d] a show ?case by (simp add: shielded_net_def)
qed (simp add: shielded_net_def)

lemma amount_in_nonzero: "distinct (map fst m) \<Longrightarrow> amount_in (filter (\<lambda>e. snd e \<noteq> 0) m) t = amount_in m t"
proof (induction m)
  case (Cons e m)
  then show ?case by (cases e) (auto simp: amount_in_absent)
qed simp

lemma aggregate_net:
  assumes "aggregateTokenImbalances rows = Inr m"
  shows "distinct (map fst m)" "amount_in m t = shielded_net rows t" "\<forall>e \<in> set m. snd e \<noteq> 0"
proof -
  from assms obtain m0 where m0: "foldR add_imbalance [] rows = Inr m0" "m = filter (\<lambda>e. snd e \<noteq> 0) m0"
    by (auto simp: aggregateTokenImbalances_def bindR_eq_Inr)
  note f = foldR_imbalances [OF m0(1)]
  show "distinct (map fst m)" using f by (simp add: m0(2) distinct_map_filter)
  show "amount_in m t = shielded_net rows t" using f amount_in_nonzero [of m0 t] by (simp add: m0(2) amount_in_def)
  show "\<forall>e \<in> set m. snd e \<noteq> 0" by (simp add: m0(2))
qed

lemma same_vector_amounts:
  assumes s: "same_vector actual expected" and d: "distinct (map fst actual)" "distinct (map fst expected)"
  shows "amount_in actual t = amount_in expected t"
proof -
  have "set expected \<subseteq> set actual" using s by (auto simp: same_vector_def list_all_iff dest: map_of_SomeD)
  moreover have "card (set expected) = card (set actual)"
    using s d by (simp add: same_vector_def distinct_card distinct_map)
  ultimately have "set expected = set actual" by (simp add: card_subset_eq)
  then have "map_of actual = map_of expected" using d by (simp add: map_of_inject_set)
  then show ?thesis by (simp add: amount_in_def)
qed

lemma vector_of_props: "distinct (map fst (vector_of es))"
  "distinct (map fst es) \<Longrightarrow> map_of (vector_of es) = map_of es"
proof -
  have "distinct (map fst (fold (\<lambda>(k, v). AList.update k v) es m))" if "distinct (map fst m)" for m :: token_vector
    using that by (induction es arbitrary: m) (auto simp: distinct_update)
  then show "distinct (map fst (vector_of es))" by (simp add: vector_of_def)
  have "map_of (fold (\<lambda>(k, v). AList.update k v) es m) = map_of m ++ map_of es"
    if "distinct (map fst es)" for m :: token_vector
    using that
  proof (induction es arbitrary: m)
    case (Cons e es)
    obtain k v where e: "e = (k, v)" by fastforce
    then have "map_of es k = None" using Cons.prems by (simp add: map_of_eq_None_iff)
    then have u: "(map_of m)(k \<mapsto> v) ++ map_of es = map_of m ++ (map_of es)(k \<mapsto> v)"
      by (auto simp: map_add_def fun_eq_iff split: option.splits)
    have "map_of (fold (\<lambda>(k, v). AList.update k v) (e # es) m) = map_of (AList.update k v m) ++ map_of es"
      using Cons.IH Cons.prems by (simp add: e)
    also have "\<dots> = map_of m ++ (map_of es)(k \<mapsto> v)" unfolding update_conv' by (rule u)
    also have "(map_of es)(k \<mapsto> v) = map_of (e # es)" by (simp add: e fun_eq_iff)
    finally show ?case .
  qed simp
  then show "distinct (map fst es) \<Longrightarrow> map_of (vector_of es) = map_of es" by (simp add: vector_of_def)
qed

lemma inspected: "inspect ld reason tx = Inr m \<longleftrightarrow>
    (\<exists>rows. ld_imbalances ld tx = Inr rows \<and> aggregateTokenImbalances rows = Inr m)"
proof -
  have "(case r of Inl _ \<Rightarrow> refuse reason | Inr m \<Rightarrow> Inr m) = Inr m \<longleftrightarrow> r = Inr m" for r :: "token_vector job_result"
    by (cases r) auto
  then show ?thesis by (auto simp: inspect_def bindR_eq_Inr)
qed

lemma assertTransactionNet_net:
  assumes "assertTransactionNet ld tx expected reason = Inr u" "distinct (map fst expected)"
  shows "has_net ld tx (amount_in expected)"
proof -
  from assms(1) obtain rows m where r: "ld_imbalances ld tx = Inr rows" "aggregateTokenImbalances rows = Inr m"
    "same_vector m expected"
    by (auto simp: assertTransactionNet_def inspected bindR_eq_Inr)
  from same_vector_amounts [OF r(3) aggregate_net(1) [OF r(2)] assms(2)] aggregate_net(2) [OF r(2)]
  show ?thesis by (simp add: has_net_def r(1))
qed

lemma amount_in_balanceNetMap:
  assumes c: "canonical_rows rows"
  shows "amount_in (balanceNetMap rows) t = net_of rows t"
proof -
  have d: "distinct (map tb_token rows)" and low: "\<And>r. r \<in> set rows \<Longrightarrow> toLowerCase (tb_token r) = tb_token r"
    using c by (auto simp: canonical_rows_def list_all_iff valid_row_def toLowerCase_lower)
  let ?es = "map (\<lambda>b. (toLowerCase (tb_token b), tb_net b)) (filter (\<lambda>b. tb_net b \<noteq> 0) rows)"
  have es: "?es = map (\<lambda>b. (tb_token b, tb_net b)) (filter (\<lambda>b. tb_net b \<noteq> 0) rows)"
    using low by (intro map_cong) auto
  have "distinct (map fst ?es)" unfolding es using d by (simp add: comp_def distinct_map_filter)
  then have "amount_in (balanceNetMap rows) t = amount_in ?es t"
    by (simp add: amount_in_def balanceNetMap_def vector_of_props(2))
  also have "\<dots> = net_of rows t"
    unfolding es using d
  proof (induction rows)
    case (Cons r rows)
    then show ?case by (auto simp: net_of_absent amount_in_def)
  qed (simp add: amount_in_def)
  finally show ?thesis .
qed

lemma serialize_inj:
  assumes "canonical_rows a" "canonical_rows b"
    "serializeWholeOfferTokenBalances a = Inr x" "serializeWholeOfferTokenBalances b = Inr x"
  shows "a = b"
proof -
  let ?f = "\<lambda>b :: token_balance. \<lparr>sb_token = tb_token b, sb_gives = bigint_to_string (tb_gives b),
        sb_wants = bigint_to_string (tb_wants b), sb_net = bigint_to_string (tb_net b)\<rparr>"
  have "map ?f a = map ?f b" using assms by (simp add: serializeWholeOfferTokenBalances_def canonical_rows_fixpoint)
  moreover have "inj ?f"
  proof (rule injI)
    fix r r' :: token_balance
    assume "?f r = ?f r'"
    then show "r = r'" by (cases r; cases r') simp
  qed
  ultimately show "a = b" by (simp add: inj_map_eq_map)
qed

lemma read_file_net:
  assumes "read_file ld parseDate cached file = Inr (s, tx)"
  shows "has_net ld tx (maker_net [s])" "src_hash s = so_offerHash cached"
proof -
  from assms obtain sem balances where e: "exact_source (so_offerHash cached) sem = Inr s"
    and a: "accountWholeOfferBalances [s] = Inr balances"
    and n: "assertTransactionNet ld tx (balanceNetMap balances) JOB_EXACT_FILE_MISMATCH = Inr ()"
    by (auto simp: read_file_def bindR_eq_Inr split: bool.splits option.splits)
  have c: "canonical_rows balances" by (rule canonical_account [OF a])
  have "amount_in (balanceNetMap balances) = maker_net [s]"
    using net_of_account [OF a] amount_in_balanceNetMap [OF c] by (simp add: fun_eq_iff)
  with assertTransactionNet_net [OF n] show "has_net ld tx (maker_net [s])"
    by (simp add: balanceNetMap_def vector_of_props(1))
  from e show "src_hash s = so_offerHash cached" by (auto simp: exact_source_def bindR_eq_Inr)
qed

lemma list_all2_mono': "list_all2 P xs ys \<Longrightarrow> (\<And>x y. x \<in> set xs \<Longrightarrow> P x y \<Longrightarrow> Q x y) \<Longrightarrow> list_all2 Q xs ys"
  by (induction rule: list_all2_induct) auto

lemma distinct_key_same: "distinct (map f xs) \<Longrightarrow> x \<in> set xs \<Longrightarrow> y \<in> set xs \<Longrightarrow> f x = f y \<Longrightarrow> x = y"
  by (induction xs) (auto simp: image_iff)

lemma mapR_source: "mapR f xs = Inr ys \<Longrightarrow> y \<in> set ys \<Longrightarrow> \<exists>x. f x = Inr y"
  unfolding mapR_Inr_iff by (rule all2_source)

lemma mapR_all2: "mapR f (map g xs) = Inr ys \<Longrightarrow> list_all2 (\<lambda>x y. f (g x) = Inr y) xs ys"
  unfolding mapR_Inr_iff list_all2_map1 .

lemma transaction_of_member: "transaction_of read hash = Inr tx \<Longrightarrow> \<exists>s. (s, tx) \<in> set read \<and> src_hash s = hash"
  by (auto simp: transaction_of_def dest!: map_of_SomeD split: option.splits)

lemma read_steps:
  assumes "readAndReconstruct ld parseDate route response = Inr txs"
  obtains files read balances order fb work polls x where
    "response = Inr files" "map xf_offerId files = map so_offerHash (rt_offers route)"
    "mapR (\<lambda>(cached, file). read_file ld parseDate cached file) (zip (rt_offers route) files) = Inr read"
    "accountWholeOfferBalances (map fst read) = Inr balances" "serializeWholeOfferTokenBalances balances = Inr x"
    "serializeWholeOfferTokenBalances (rt_tokenBalances route) = Inr x"
    "findSafeWholeOfferMergeOrder (map fst read) default_merge_options 0 = Inr (Merge_ok (rt_mergeOrder route) fb work, polls)"
    "mapR (transaction_of read) (rt_mergeOrder route) = Inr txs"
proof -
  have m: "\<not> (case r of Merge_ok hashes fallback work \<Rightarrow> hashes \<noteq> h | Merge_failed _ _ \<Rightarrow> True)
     \<longleftrightarrow> (\<exists>f w. r = Merge_ok h f w)" for r h
    by (cases r) auto
  from assms show thesis
    by (clarsimp simp: readAndReconstruct_def bindR_eq_Inr m that)
qed

section \<open>Properties\<close>

text \<open>
  The maker transactions handed on after reading a route's exact files come one per entry of
  the route's merge order; each carries, for every token, exactly the net amount its exact maker terms
  say; every prefix of the merge stays representable; and all together they net exactly what the cached
  offers of the route net.
\<close>

theorem readAndReconstruct_exact:
  assumes r: "readAndReconstruct ld parseDate route response = Inr txs"
    and b: "accountWholeOfferBalances (map maker_source (rt_offers route)) = Inr (rt_tokenBalances route)"
  shows "\<exists>ss. rt_mergeOrder route = map (\<lambda>s. toLowerCase (src_hash s)) ss \<and> safe_order MAX_SETTLEMENT_AMOUNT ss
     \<and> list_all2 (\<lambda>s tx. has_net ld tx (maker_net [s])) ss txs
     \<and> (\<forall>t. maker_net ss t = maker_net (map maker_source (rt_offers route)) t)"
proof (rule read_steps [OF r])
  fix files read balances order fb work polls x
  assume s: "mapR (\<lambda>(cached, file). read_file ld parseDate cached file) (zip (rt_offers route) files) = Inr read"
    "accountWholeOfferBalances (map fst read) = Inr balances" "serializeWholeOfferTokenBalances balances = Inr x"
    "serializeWholeOfferTokenBalances (rt_tokenBalances route) = Inr x"
    "findSafeWholeOfferMergeOrder (map fst read) default_merge_options 0 = Inr (Merge_ok (rt_mergeOrder route) fb work, polls)"
    "mapR (transaction_of read) (rt_mergeOrder route) = Inr txs"
  from findSafe_ok [OF s(5)] obtain ss where ss: "mset ss = mset (map fst read)"
    "rt_mergeOrder route = map (\<lambda>s. toLowerCase (src_hash s)) ss" "safe_order MAX_SETTLEMENT_AMOUNT ss"
    by (auto simp: default_merge_options_def)
  have d: "distinct (map (\<lambda>s. toLowerCase (src_hash s)) (map fst read))" by (rule findSafe_distinct [OF s(5)])
  have read: "has_net ld tx (maker_net [s])" if "(s, tx) \<in> set read" for s tx
    using mapR_source [OF s(1) that] read_file_net(1) by auto
  have "list_all2 (\<lambda>s tx. transaction_of read (toLowerCase (src_hash s)) = Inr tx) ss txs"
    using mapR_all2 [OF s(6) [unfolded ss(2)]] .
  then have "list_all2 (\<lambda>s tx. has_net ld tx (maker_net [s])) ss txs"
  proof (rule list_all2_mono')
    fix s tx assume m: "s \<in> set ss" and t: "transaction_of read (toLowerCase (src_hash s)) = Inr tx"
    from transaction_of_member [OF t] obtain s' where s': "(s', tx) \<in> set read" "src_hash s' = toLowerCase (src_hash s)" by blast
    have "s \<in> set (map fst read)" using m mset_eq_setD [OF ss(1)] by blast
    moreover have "s' \<in> set (map fst read)" using s'(1) by force
    moreover have "toLowerCase (src_hash s') = toLowerCase (src_hash s)" by (simp add: s'(2))
    ultimately have "s' = s" by (intro distinct_key_same [OF d])
    with read [OF s'(1)] show "has_net ld tx (maker_net [s])" by simp
  qed
  moreover have "balances = rt_tokenBalances route"
    by (rule serialize_inj [OF canonical_account [OF s(2)] canonical_account [OF b] s(3,4)])
  then have "maker_net ss t = maker_net (map maker_source (rt_offers route)) t" for t
    using net_of_account [OF s(2), of t] net_of_account [OF b, of t] maker_net_mset [OF ss(1), of t] by simp
  ultimately show ?thesis using ss by blast
qed

definition sample_cached :: book_offer where
  "sample_cached = \<lparr>so_offerHash = ident CHR ''1'', so_gives = [\<lparr>leg_token = ident CHR ''b'', leg_amount = 7, sl_kind = SHIELDED\<rparr>],
     so_wants = [\<lparr>leg_token = ident CHR ''a'', leg_amount = 3, sl_kind = SHIELDED\<rparr>], so_expiresAt = Some 5,
     so_inputNullifiers = [ident CHR ''2''], bo_firstSeenAt = None, bo_blob = None\<rparr>"

definition sample_sdk :: "unit sdk" where
  "sample_sdk = \<lparr>ld_reconstruct = (\<lambda>text. Inr ()), ld_semantics = (\<lambda>tx. Inr (book_semantics sample_cached)),
     ld_imbalances = (\<lambda>tx. Inr [\<lparr>im_tag = ''shielded'', im_raw = ident CHR ''a'', im_amount = -3\<rparr>,
       \<lparr>im_tag = ''dust'', im_raw = ''x'', im_amount = 1\<rparr>, \<lparr>im_tag = ''shielded'', im_raw = ident CHR ''b'', im_amount = 7\<rparr>]),
     ld_merge = (\<lambda>txs. Inr ())\<rparr>"

definition sample_route_rows :: "token_balance list" where
  "sample_route_rows = [balance_row (ident CHR ''a'') 0 3, balance_row (ident CHR ''b'') 7 0]"

definition sample_route :: resolved_route where
  "sample_route = \<lparr>rt_offers = [sample_cached], rt_tokenBalances = sample_route_rows, rt_receipts = [],
     rt_mergeOrder = [ident CHR ''1''], rt_claim = claimFor [sample_cached] []\<rparr>"

definition sample_file :: exact_file where
  "sample_file = \<lparr>xf_offerId = ident CHR ''1'', xf_valid = True, xf_computed = Some (book_semantics sample_cached),
     xf_expiresAt = ''t'', xf_offer = Some ''z''\<rparr>"

text \<open>An offer's own semantics match it.\<close>

lemma exact_self: "exactSemanticsMatch v (book_semantics v) = Inr True"
proof -
  have m: "mapR exact_leg_text (map (\<lambda>l. \<lparr>xl_token = leg_token l, xl_amount = bigint_to_string (leg_amount l), xl_kind = kind_text (sl_kind l)\<rparr>) legs)
      = Inr (map (\<lambda>l. kind_text (sl_kind l) @ '':'' @ toLowerCase (leg_token l) @ '':'' @ bigint_to_string (leg_amount l)) legs)" for legs
    by (induction legs) (simp_all add: exact_leg_text_def)
  have "exact_legs_text (map (\<lambda>l. \<lparr>xl_token = leg_token l, xl_amount = bigint_to_string (leg_amount l),
      xl_kind = kind_text (sl_kind l)\<rparr>) legs) = Inr (cached_legs_text legs)" for legs
    by (simp only: exact_legs_text_def cached_legs_text_def m bindR_simps)
  then show ?thesis
    unfolding exactSemanticsMatch_def book_semantics_def Let_def exact_semantics.select_convs by (simp add: sameSet_def)
qed

definition sample_source :: merge_source where
  "sample_source = \<lparr>src_gives = [\<lparr>leg_token = ident CHR ''b'', leg_amount = 7\<rparr>],
     src_wants = [\<lparr>leg_token = ident CHR ''a'', leg_amount = 3\<rparr>], src_hash = ident CHR ''1''\<rparr>"

lemma sample_source_exact: "exact_source (ident CHR ''1'') (book_semantics sample_cached) = Inr sample_source"
  by (simp add: exact_source_def exact_leg_amount_def book_semantics_def Let_def sample_cached_def sample_source_def)

lemma sample_source_account: "accountWholeOfferBalances [sample_source] = Inr sample_route_rows"
  by (simp add: sample_source_def sample_route_rows_def eval_accounting)

lemma sample_route_account: "accountWholeOfferBalances (map maker_source (rt_offers sample_route)) = Inr (rt_tokenBalances sample_route)"
proof -
  have "map maker_source (rt_offers sample_route) = [sample_source]"
    by (simp add: sample_route_def sample_source_def maker_source_def sample_cached_def balance_leg.defs)
  then show ?thesis by (simp only: sample_source_account) (simp add: sample_route_def)
qed

lemma sample_net: "assertTransactionNet sample_sdk () (balanceNetMap sample_route_rows) reason = Inr ()"
  by (simp add: assertTransactionNet_def inspect_def refuse_failed_def sample_sdk_def aggregateTokenImbalances_def add_imbalance_def
      Let_def amount_in_def balanceNetMap_def sample_route_rows_def balance_row_def vector_of_def out_of_domain_def
      MAX_SETTLEMENT_AMOUNT_def same_vector_def)

lemma sample_read_file: "read_file sample_sdk (\<lambda>text. Some 5) sample_cached sample_file = Inr (sample_source, ())"
proof -
  have c: "so_offerHash sample_cached = ident CHR ''1''" "so_expiresAt sample_cached = Some 5" by (simp_all add: sample_cached_def)
  have k: "ld_reconstruct sample_sdk w = Inr ()" "ld_semantics sample_sdk tx = Inr (book_semantics sample_cached)" for w tx
    by (simp_all add: sample_sdk_def)
  show ?thesis
    by (simp add: read_file_def sample_file_def require_match_def exact_self rethrow_def refuse_if_def refuse_failed_def c k
        sample_source_exact sample_source_account sample_net)
qed

lemma sample_merge: "findSafeWholeOfferMergeOrder [sample_source] default_merge_options 0 = Inr (Merge_ok [ident CHR ''1''] False 0, 0)"
proof -
  let ?e = "\<lparr>me_hash = ident CHR ''1'', me_rows = sample_route_rows\<rparr>"
  have "canonicalToken (src_hash sample_source) = Inr (ident CHR ''1'')"
    by (simp add: canonicalToken_def sample_source_def lower_hex_is_hex)
  then have "merge_entry_of sample_source = Inr ?e" by (simp add: merge_entry_of_def sourceNetRows_def sample_source_account)
  moreover have "merge_in_order MAX_SETTLEMENT_AMOUNT Map.empty [?e] \<noteq> None"
    by (simp add: sample_route_rows_def balance_row_def MAX_SETTLEMENT_AMOUNT_def Let_def addNetRows.simps)
  then have "plan_merge [?e] MAX_SETTLEMENT_AMOUNT MAX_SAFE_MERGE_ORDER_WORK None 0 = (Merge_ok [ident CHR ''1''] False 0, 0)"
    by (auto simp: plan_merge_def)
  ultimately show ?thesis
    by (simp add: findSafeWholeOfferMergeOrder_def default_merge_options_def MAX_PHYSICAL_MAKERS_PER_MERGE_def
        max_safe_merge_order_work_1024 is_safe_integer_def max_safe_integer_def js_uniq_def set_add_def not_le)
qed

lemma sample_read: "readAndReconstruct sample_sdk (\<lambda>text. Some 5) sample_route (Inr [sample_file]) = Inr [()]"
proof -
  have r: "rt_offers sample_route = [sample_cached]" "rt_tokenBalances sample_route = sample_route_rows"
    "rt_mergeOrder sample_route = [ident CHR ''1'']" by (simp_all add: sample_route_def)
  have f: "xf_offerId sample_file = ident CHR ''1''" "so_offerHash sample_cached = ident CHR ''1''" "src_hash sample_source = ident CHR ''1''"
    by (simp_all add: sample_file_def sample_cached_def sample_source_def)
  obtain x where x: "serializeWholeOfferTokenBalances sample_route_rows = Inr x"
    using canonical_rows_fixpoint [OF canonical_account [OF sample_source_account]]
    by (auto simp: serializeWholeOfferTokenBalances_def)
  show ?thesis
    by (simp add: readAndReconstruct_def refuse_failed_def refuse_if_def rethrow_def r f sample_read_file sample_source_account x
        sample_merge transaction_of_def)
qed

theorem readAndReconstruct_exact_witness:
  "\<exists>ss :: merge_source list. map (\<lambda>s. toLowerCase (src_hash s)) ss = [ident CHR ''1''] \<and> maker_net ss (ident CHR ''b'') = 7"
proof -
  obtain ss :: "merge_source list" where "rt_mergeOrder sample_route = map (\<lambda>s. toLowerCase (src_hash s)) ss"
    "\<forall>t. maker_net ss t = maker_net (map maker_source (rt_offers sample_route)) t"
    using readAndReconstruct_exact [OF sample_read sample_route_account] by blast
  moreover have "maker_net (map maker_source (rt_offers sample_route)) (ident CHR ''b'') = 7"
    by (simp add: sample_route_def sample_cached_def maker_source_def maker_net_def leg_sum_def balance_leg.defs)
  ultimately show ?thesis by (intro exI [of _ ss]) (simp add: sample_route_def)
qed

end
