(* ===== verification/Receipt_Contract.thy ===== *)
theory Receipt_Contract
  imports Offer_Book
begin

text \<open>
  Model of the parsers of \<^verbatim>\<open>packages/solver-core/receipt-client.ts\<close>: what the relay says of a job, and
  what the backend's ledger evidence says of an offer. Fetching the bodies is left out.
\<close>

section \<open>The contracts\<close>

datatype relay_job_status =
  Relay_pending
| Relay_solving
| Relay_done string
| Relay_error string

record consumption_response =
  cn_offerId :: string
  cn_status :: string
  cn_evidence :: "(string \<times> int) option"

definition RELAY_JOB_STATUSES :: "string list" where
  "RELAY_JOB_STATUSES = [''pending'', ''solving'', ''done'', ''error'']"

definition OFFER_STATUSES :: "string list" where
  "OFFER_STATUSES = [''live'', ''consumed'', ''cancelled'', ''expired'', ''not_found'']"

definition js_keys :: "json \<Rightarrow> string list" where
  "js_keys value = (case value of JObj fs \<Rightarrow> map fst fs | _ \<Rightarrow> [])"

definition exactKeys :: "json \<Rightarrow> string list \<Rightarrow> bool" where
  "exactKeys value expected \<longleftrightarrow> sort (js_keys value) = sort expected"

text \<open>\<open>HASH_32_OPTIONAL_PREFIX\<close> and the prefix's removal.\<close>

definition without_prefix :: "string \<Rightarrow> string" where
  "without_prefix s = (if take 2 s = ''0x'' \<or> take 2 s = ''0X'' then drop 2 s else s)"

definition hash_with_optional_prefix :: "string \<Rightarrow> bool" where
  "hash_with_optional_prefix s \<longleftrightarrow> isHex64 s \<or> (take 2 s = ''0x'' \<and> isHex64 (drop 2 s))"

definition canonicalRelayExtrinsicHash :: "json \<Rightarrow> string option" where
  "canonicalRelayExtrinsicHash value = (case value of
     JStr s \<Rightarrow> if hash_with_optional_prefix s then Some (''0x'' @ toLowerCase (without_prefix s)) else None
   | _ \<Rightarrow> None)"

definition relay_reason_ok :: "string \<Rightarrow> bool" where
  "relay_reason_ok s \<longleftrightarrow> s \<noteq> [] \<and> length s \<le> 1024 \<and> list_all (\<lambda>c. code_of c \<noteq> 0) s"

definition parseRelayJobStatus :: "json \<Rightarrow> relay_job_status option" where
  "parseRelayJobStatus value =
     (case js_get value ''status'' of
        JStr status \<Rightarrow>
          if \<not> isRecord value \<or> status \<notin> set RELAY_JOB_STATUSES then None
          else if status = ''pending'' \<or> status = ''solving''
          then (if exactKeys value [''status'']
                then Some (if status = ''pending'' then Relay_pending else Relay_solving) else None)
          else if status = ''done''
          then (if \<not> exactKeys value [''status'', ''txId''] then None
                else map_option Relay_done (canonicalRelayExtrinsicHash (js_get value ''txId'')))
          else if \<not> exactKeys value [''status'', ''reason''] then None
          else (case js_get value ''reason'' of
             JStr reason \<Rightarrow> if relay_reason_ok reason then Some (Relay_error reason) else None
           | _ \<Rightarrow> None)
      | _ \<Rightarrow> None)"

definition parse_evidence :: "json \<Rightarrow> (string \<times> int) option" where
  "parse_evidence value =
     (if \<not> isRecord value \<or> \<not> exactKeys value [''ledgerTxHash'', ''height''] then None
      else case (js_get value ''ledgerTxHash'', js_get value ''height'') of
        (JStr hash, JNum (Integral height)) \<Rightarrow>
          if isLowerHex64 hash \<and> is_safe_integer height \<and> 0 \<le> height then Some (hash, height) else None
      | _ \<Rightarrow> None)"

definition parseOfferConsumptionResponse :: "json \<Rightarrow> string \<Rightarrow> consumption_response option" where
  "parseOfferConsumptionResponse value expectedOfferId =
     (if \<not> isLowerHex64 expectedOfferId \<or> \<not> isRecord value then None
      else if js_get value ''version'' \<noteq> JNum (Integral 1) \<or> js_get value ''offerId'' \<noteq> JStr expectedOfferId then None
      else case js_get value ''status'' of
        JStr status \<Rightarrow>
          if status \<notin> set OFFER_STATUSES then None
          else if js_get value ''evidence'' = JUndefined
          then (if exactKeys value [''version'', ''offerId'', ''status'']
                then Some \<lparr>cn_offerId = expectedOfferId, cn_status = status, cn_evidence = None\<rparr> else None)
          else if status \<noteq> ''consumed'' \<or> \<not> exactKeys value [''version'', ''offerId'', ''status'', ''evidence''] then None
          else map_option (\<lambda>e. \<lparr>cn_offerId = expectedOfferId, cn_status = ''consumed'', cn_evidence = Some e\<rparr>)
                 (parse_evidence (js_get value ''evidence''))
      | _ \<Rightarrow> None)"

section \<open>The canonical bodies\<close>

definition status_body :: "relay_job_status \<Rightarrow> json" where
  "status_body s = (case s of
     Relay_pending \<Rightarrow> JObj [(''status'', JStr ''pending'')]
   | Relay_solving \<Rightarrow> JObj [(''status'', JStr ''solving'')]
   | Relay_done txId \<Rightarrow> JObj [(''status'', JStr ''done''), (''txId'', JStr txId)]
   | Relay_error reason \<Rightarrow> JObj [(''status'', JStr ''error''), (''reason'', JStr reason)])"

definition status_canonical :: "relay_job_status \<Rightarrow> bool" where
  "status_canonical s = (case s of
     Relay_done txId \<Rightarrow> take 2 txId = ''0x'' \<and> isLowerHex64 (drop 2 txId)
   | Relay_error reason \<Rightarrow> relay_reason_ok reason
   | _ \<Rightarrow> True)"

definition consumption_body :: "consumption_response \<Rightarrow> json" where
  "consumption_body r = JObj ([(''version'', JNum (Integral 1)), (''offerId'', JStr (cn_offerId r)), (''status'', JStr (cn_status r))]
     @ (case cn_evidence r of None \<Rightarrow> []
        | Some (hash, height) \<Rightarrow> [(''evidence'', JObj [(''ledgerTxHash'', JStr hash), (''height'', JNum (Integral height))])]))"

definition consumption_canonical :: "consumption_response \<Rightarrow> bool" where
  "consumption_canonical r \<longleftrightarrow> isLowerHex64 (cn_offerId r) \<and> cn_status r \<in> set OFFER_STATUSES
     \<and> (case cn_evidence r of None \<Rightarrow> True
        | Some (hash, height) \<Rightarrow> cn_status r = ''consumed'' \<and> isLowerHex64 hash \<and> is_safe_integer height \<and> 0 \<le> height)"

lemma prefix_not_hex: "take 2 s = ''0x'' \<Longrightarrow> \<not> isHex64 s"
proof
  assume p: "take 2 s = ''0x''" and h: "isHex64 s"
  then obtain r where "s = ''0x'' @ r" by (metis append_take_drop_id)
  with h have "is_hex_digit CHR ''x''" by (simp add: isHex64_def)
  then show False by code_simp
qed

lemma canonical_hash:
  assumes "canonicalRelayExtrinsicHash v = Some h"
  shows "take 2 h = ''0x'' \<and> isLowerHex64 (drop 2 h)"
proof -
  from assms obtain s where s: "v = JStr s" "hash_with_optional_prefix s" "h = ''0x'' @ toLowerCase (without_prefix s)"
    by (auto simp: canonicalRelayExtrinsicHash_def split: json.splits if_splits)
  have "isHex64 (without_prefix s)"
  proof (cases "take 2 s = ''0x''")
    case True
    with s(2) prefix_not_hex [OF True] show ?thesis by (simp add: hash_with_optional_prefix_def without_prefix_def)
  next
    case False
    with s(2) have h: "isHex64 s" by (simp add: hash_with_optional_prefix_def)
    have "take 2 s \<noteq> ''0X''"
    proof
      assume "take 2 s = ''0X''"
      then obtain r where "s = ''0X'' @ r" by (metis append_take_drop_id)
      with h have "is_hex_digit CHR ''X''" by (simp add: isHex64_def)
      then show False by code_simp
    qed
    with False h show ?thesis by (simp add: without_prefix_def)
  qed
  then show ?thesis by (simp add: s(3) isHex64_toLowerCase)
qed

lemma canonical_hash_id:
  assumes "take 2 h = ''0x''" "isLowerHex64 (drop 2 h)"
  shows "canonicalRelayExtrinsicHash (JStr h) = Some h"
proof -
  have "''0x'' @ drop 2 h = h" using assms(1) append_take_drop_id [of 2 h] by simp
  with assms show ?thesis
    by (simp add: canonicalRelayExtrinsicHash_def hash_with_optional_prefix_def without_prefix_def
        isLowerHex64_isHex64 toLowerCase_lower)
qed

section \<open>Properties\<close>

text \<open>
  The relay-status parser is a round trip on canonical statuses and yields only
  canonical ones: a settled job carries a lower-case \<open>0x\<close> hash of 32 bytes, a failure a bounded reason.
\<close>

theorem parseRelayJobStatus_roundtrip:
  "(case parseRelayJobStatus v of None \<Rightarrow> True | Some s \<Rightarrow> status_canonical s)
   \<and> (if status_canonical s then parseRelayJobStatus (status_body s) = Some s else True)"
proof
  show "case parseRelayJobStatus v of None \<Rightarrow> True | Some s \<Rightarrow> status_canonical s"
  proof (cases "js_get v ''status''")
    case (JStr status)
    then show ?thesis
      by (auto simp: parseRelayJobStatus_def status_canonical_def dest: canonical_hash split: if_splits option.splits json.splits)
  qed (simp_all add: parseRelayJobStatus_def)
  show "if status_canonical s then parseRelayJobStatus (status_body s) = Some s else True"
    by (cases s) (simp_all add: status_body_def status_canonical_def parseRelayJobStatus_def RELAY_JOB_STATUSES_def isRecord_def
      exactKeys_def js_keys_def canonical_hash_id)
qed

text \<open>
  The consumption parser is a round trip on canonical responses and yields only canonical
  ones, bound to the offer that was asked about: ledger evidence is never read from a response for
  another offer or with a status other than consumed.
\<close>

theorem parseOfferConsumption_roundtrip:
  "(case parseOfferConsumptionResponse v h of None \<Rightarrow> True | Some r \<Rightarrow> consumption_canonical r \<and> cn_offerId r = h)
   \<and> (if consumption_canonical r then parseOfferConsumptionResponse (consumption_body r) (cn_offerId r) = Some r else True)"
proof
  have e: "parse_evidence u = Some (hash, height) \<Longrightarrow> isLowerHex64 hash \<and> is_safe_integer height \<and> 0 \<le> height" for u hash height
    by (auto simp: parse_evidence_def split: if_splits json.splits js_number.splits)
  show "case parseOfferConsumptionResponse v h of None \<Rightarrow> True | Some r \<Rightarrow> consumption_canonical r \<and> cn_offerId r = h"
  proof (cases "js_get v ''status''")
    case (JStr status)
    then show ?thesis
      by (auto simp: parseOfferConsumptionResponse_def consumption_canonical_def OFFER_STATUSES_def dest: e split: if_splits option.splits)
  qed (auto simp: parseOfferConsumptionResponse_def)
  show "if consumption_canonical r then parseOfferConsumptionResponse (consumption_body r) (cn_offerId r) = Some r else True"
  proof (cases "cn_evidence r")
    case None
    then show ?thesis
      by (auto simp: consumption_canonical_def consumption_body_def parseOfferConsumptionResponse_def isRecord_def exactKeys_def js_keys_def)
  next
    case (Some p)
    obtain hash height where p: "p = (hash, height)" by fastforce
    show ?thesis
      by (auto simp: Some p consumption_canonical_def consumption_body_def parseOfferConsumptionResponse_def isRecord_def
          exactKeys_def js_keys_def parse_evidence_def)
  qed
qed

end
