(* ===== verification/Bytes.thy ===== *)
theory Bytes
  imports Prelude "HOL-Library.Word"
begin

text \<open>
  Byte strings: hexadecimal text as Node's \<open>Buffer\<close> reads and writes it, the first position of a
  substring, and the latin1 strings of 16-bit code units that carry raw bytes between the layers.
\<close>

type_synonym bytes = "8 word list"
type_synonym code_units = "16 word list"

unbundle bit_operations_syntax

section \<open>Hexadecimal text\<close>

definition hex_char :: "nat \<Rightarrow> char" where
  "hex_char d = (if d < 10 then char_of (48 + d) else char_of (87 + d))"

definition hex_byte :: "8 word \<Rightarrow> string" where
  "hex_byte b = [hex_char (unat b div 16), hex_char (unat b mod 16)]"

definition toHex :: "bytes \<Rightarrow> string" where
  "toHex bs = concat (map hex_byte bs)"

text \<open>\<open>Buffer.from(s, "hex")\<close> stops at the first pair that is not hexadecimal.\<close>

fun fromHex :: "string \<Rightarrow> bytes" where
  "fromHex (c # d # s) = (if is_hex_digit c \<and> is_hex_digit d
     then of_nat (16 * radix_digit c + radix_digit d) # fromHex s else [])"
| "fromHex _ = []"

lemma hex_char_props: "d < 16 \<Longrightarrow> is_lower_hex_digit (hex_char d) \<and> radix_digit (hex_char d) = d"
  by (auto simp: hex_char_def is_lower_hex_digit_def is_digit_def radix_digit_def of_char_of)

lemma hex_char_hex [simp]: "d < 16 \<Longrightarrow> is_hex_digit (hex_char d)" "d < 16 \<Longrightarrow> radix_digit (hex_char d) = d"
  using hex_char_props lower_hex_is_hex by blast+

lemma byte_nibbles [simp]: "unat (b :: 8 word) div 16 < 16"
  using unsigned_less [where 'a = nat and 'b = 8, of b] by (simp add: div_less_iff_less_mult)

lemma toHex_Cons [simp]: "toHex (b # bs) = hex_byte b @ toHex bs"
  by (simp add: toHex_def)

lemma toHex_Nil [simp]: "toHex [] = []"
  by (simp add: toHex_def)

lemma fromHex_toHex [simp]: "fromHex (toHex bs) = bs"
proof (induction bs)
  case (Cons b bs)
  have "word_of_nat (16 * (unat b div 16) + unat b mod 16) = b" by simp
  with Cons show ?case by (simp add: hex_byte_def)
qed simp

lemma toHex_lower: "list_all is_lower_hex_digit (toHex bs)"
  by (induction bs) (simp_all add: hex_byte_def hex_char_props)

lemma length_toHex [simp]: "length (toHex bs) = 2 * length bs"
  by (induction bs) (simp_all add: hex_byte_def)

section \<open>Substrings\<close>

fun indexOf :: "'a list \<Rightarrow> 'a list \<Rightarrow> nat option" where
  "indexOf xs [] = (if xs = [] then Some 0 else None)"
| "indexOf xs (y # ys) = (if take (length xs) (y # ys) = xs then Some 0 else map_option Suc (indexOf xs ys))"

lemma indexOf_Some: "indexOf xs ys = Some i \<Longrightarrow> take (length xs) (drop i ys) = xs \<and> i + length xs \<le> length ys"
proof (induction xs ys arbitrary: i rule: indexOf.induct)
  case (2 xs y ys)
  show ?case
  proof (cases "take (length xs) (y # ys) = xs")
    case True
    with 2(2) have "i = 0" by simp
    moreover have "length xs \<le> length (y # ys)" using True by (metis length_take min.cobounded2 min.commute nat_le_linear take_all)
    ultimately show ?thesis using True by simp
  next
    case False
    with 2(2) obtain j where "indexOf xs ys = Some j" "i = Suc j" by auto
    with 2(1) [OF False] show ?thesis by simp
  qed
qed (simp split: if_splits)

text \<open>The position is the first one.\<close>

lemma indexOf_first: "indexOf xs ys = Some i \<Longrightarrow> k < i \<Longrightarrow> take (length xs) (drop k ys) \<noteq> xs"
proof (induction xs ys arbitrary: i k rule: indexOf.induct)
  case (2 xs y ys)
  show ?case
  proof (cases "take (length xs) (y # ys) = xs")
    case False
    with 2(2) obtain j where "indexOf xs ys = Some j" "i = Suc j" by auto
    with False 2(1) [OF False] 2(3) show ?thesis by (cases k) simp_all
  qed (use 2 in simp)
qed (simp split: if_splits)

definition contains :: "'a list \<Rightarrow> 'a list \<Rightarrow> bool" where
  "contains needle text = (indexOf needle text \<noteq> None)"

definition bytes_of_string :: "string \<Rightarrow> bytes" where
  "bytes_of_string s = map (\<lambda>c. of_nat (of_char c)) s"

section \<open>Latin1 strings\<close>

definition latin1ToBytes :: "code_units \<Rightarrow> bytes" where
  "latin1ToBytes supplied = map (\<lambda>u. ucast (u AND 255)) supplied"

definition bytesToLatin1 :: "bytes \<Rightarrow> code_units" where
  "bytesToLatin1 raw = map ucast raw"

lemma latin1_roundtrip [simp]: "latin1ToBytes (bytesToLatin1 raw) = raw"
proof -
  have m: "(255 :: 16 word) = mask 8" by (simp add: mask_eq_exp_minus_1)
  have "ucast ((ucast (b :: 8 word) :: 16 word) AND 255) = b" for b
    unfolding m by (rule bit_word_eqI) (simp add: bit_simps)
  then show ?thesis by (simp add: latin1ToBytes_def bytesToLatin1_def comp_def)
qed

end
