(* ===== verification/Journal.thy ===== *)
theory Journal
  imports Ladder_Limits Bytes
begin

text \<open>
  Model of \<^verbatim>\<open>packages/solver/src/operation-journal.ts\<close>: the solver's durable journal of
  wallet operations and its reservations of fee budget. The two tables are lists of rows in
  insertion order, with the schema's constraints written out; a transaction that throws leaves the
  journal as it was. The clock's reading and the size of the database file are external: an
  argument of the operations, and a function of the tables. Numbers are integers; a fraction or
  NaN fails the same guard as an unsafe integer.
\<close>

section \<open>Rows\<close>

datatype operation_kind = MIRROR_RESERVATION | MIRROR_REVERT | RESIDUAL_BUILD | DUST_BALANCE
  | FINALIZED_CONTRIBUTION | JOB_SETTLEMENT | JOB_REVERT

datatype lifecycle_state = PREPARED | APPLIED | AWAITING_RELAY | RELAY_SUBMITTED | CONFIRMING | REVERTING
  | SETTLED | REVERTED | FAILED | QUARANTINED

datatype artifact_kind = FINALIZED_TRANSACTION | UNPROVEN_TRANSACTION

record journal_claim =
  jc_inputs :: "string list"
  jc_payouts :: "(string \<times> string) list"

record journal_receipt =
  jr_relayJobId :: "string option"
  jr_relayState :: "string option"
  jr_relayExtrinsicHash :: "string option"
  jr_ledgerTxHash :: "string option"
  jr_ledgerHeight :: "int option"

definition no_receipt :: journal_receipt where
  "no_receipt = \<lparr>jr_relayJobId = None, jr_relayState = None, jr_relayExtrinsicHash = None,
     jr_ledgerTxHash = None, jr_ledgerHeight = None\<rparr>"

record prepared_operation =
  jo_operationKey :: string
  jo_jobId :: string
  jo_generation :: int
  jo_offerHashes :: "string list"
  jo_claim :: journal_claim
  jo_operationKind :: operation_kind
  jo_ttlExpiresAtMs :: int
  jo_deadlineAtMs :: int
  jo_artifactKind :: "artifact_kind option"
  jo_artifactBytes :: "bytes option"
  jo_receipt :: "journal_receipt option"

record transition_patch =
  tp_artifactKind :: "artifact_kind option"
  tp_artifactBytes :: "bytes option"
  tp_receipt :: "journal_receipt option"
  tp_errorCode :: "string option"
  tp_errorDetail :: "string option"
  tp_retryCount :: "int option"
  tp_nextRetryAtMs :: "int option"

record journal_operation = prepared_operation +
  jo_id :: nat
  jo_lifecycleState :: lifecycle_state
  jo_retentionUntilMs :: int
  jo_errorCode :: "string option"
  jo_errorDetail :: "string option"
  jo_retryCount :: int
  jo_nextRetryAtMs :: "int option"
  jo_createdAtMs :: int
  jo_updatedAtMs :: int

datatype dust_state = RESERVED | SPENT | RELEASED

record dust_row =
  dr_operationKey :: string
  dr_jobId :: string
  dr_generation :: int
  dr_amountText :: string
  dr_state :: dust_state
  dr_reservedAtMs :: int
  dr_spentAtMs :: "int option"
  dr_updatedAtMs :: int

record dust_reservation =
  ds_operationKey :: string
  ds_jobId :: string
  ds_generation :: int
  ds_amount :: int
  ds_state :: dust_state
  ds_reservedAtMs :: int
  ds_spentAtMs :: "int option"
  ds_updatedAtMs :: int

record journal_config =
  cf_maxRows :: int
  cf_maxBytes :: int
  cf_maxArtifactBytes :: int
  cf_reconciliationMarginMs :: int

record journal =
  jn_operations :: "journal_operation list"
  jn_dust :: "dust_row list"
  jn_nextId :: nat
  jn_closed :: bool

datatype journal_error =
  Type_error string
| Capacity_error
| Cas_conflict
| Transition_error
| Not_found
| Journal_closed
| Constraint_failed
| Corrupt_row

type_synonym 'a journal_result = "journal_error + 'a"

type_synonym file_size = "journal_operation list \<Rightarrow> dust_row list \<Rightarrow> int"

section \<open>Guards\<close>

definition TERMINAL_STATES :: "lifecycle_state set" where
  "TERMINAL_STATES = {SETTLED, REVERTED, FAILED}"

fun allowedTransitions :: "lifecycle_state \<Rightarrow> lifecycle_state set" where
  "allowedTransitions PREPARED = {APPLIED, FAILED, REVERTING, REVERTED, QUARANTINED}"
| "allowedTransitions APPLIED = {AWAITING_RELAY, CONFIRMING, REVERTING, QUARANTINED}"
| "allowedTransitions AWAITING_RELAY = {RELAY_SUBMITTED, REVERTING, QUARANTINED}"
| "allowedTransitions RELAY_SUBMITTED = {CONFIRMING, SETTLED, QUARANTINED}"
| "allowedTransitions CONFIRMING = {SETTLED, REVERTING, QUARANTINED}"
| "allowedTransitions REVERTING = {REVERTED, QUARANTINED}"
| "allowedTransitions QUARANTINED = {CONFIRMING, REVERTING, SETTLED, REVERTED}"
| "allowedTransitions SETTLED = {}"
| "allowedTransitions REVERTED = {}"
| "allowedTransitions FAILED = {}"

definition guard :: "bool \<Rightarrow> journal_error \<Rightarrow> unit journal_result" where
  "guard b e = (if b then Inr () else Inl e)"

definition safe_at_least :: "int \<Rightarrow> int \<Rightarrow> bool" where
  "safe_at_least least value \<longleftrightarrow> is_safe_integer value \<and> least \<le> value"

definition text_ok :: "nat \<Rightarrow> string \<Rightarrow> bool" where
  "text_ok most value \<longleftrightarrow> value \<noteq> [] \<and> length value \<le> most \<and> list_all (\<lambda>c. code_of c \<noteq> 0) value"

definition canonical_uint :: "string \<Rightarrow> bool" where
  "canonical_uint s \<longleftrightarrow> s = ''0'' \<or> (s \<noteq> [] \<and> hd s \<noteq> CHR ''0'' \<and> list_all is_digit s)"

text \<open>\<open>requireUniqueSortedHex\<close>: the list equals its own sorted set.\<close>

definition unique_sorted_hex :: "string list \<Rightarrow> bool" where
  "unique_sorted_hex values \<longleftrightarrow> values \<noteq> [] \<and> list_all isLowerHex64 values \<and> sort (js_uniq values) = values"

definition optional :: "('a \<Rightarrow> bool) \<Rightarrow> 'a option \<Rightarrow> bool" where
  "optional P v = (case v of None \<Rightarrow> True | Some x \<Rightarrow> P x)"

definition receipt_ok :: "journal_receipt \<Rightarrow> bool" where
  "receipt_ok r \<longleftrightarrow> optional (text_ok 1024) (jr_relayJobId r) \<and> optional (text_ok 1024) (jr_relayState r)
     \<and> optional (text_ok 1024) (jr_relayExtrinsicHash r) \<and> optional (text_ok 1024) (jr_ledgerTxHash r)
     \<and> optional (safe_at_least 0) (jr_ledgerHeight r)"

definition requireReceipt :: "journal_receipt option \<Rightarrow> unit journal_result" where
  "requireReceipt r = guard (optional receipt_ok r) (Type_error ''receipt'')"

definition requirePrepared :: "int \<Rightarrow> 'a prepared_operation_scheme \<Rightarrow> unit journal_result" where
  "requirePrepared maxArtifactBytes input =
     bindR (guard (text_ok 512 (jo_operationKey input)) (Type_error ''operationKey'')) (\<lambda>_.
     bindR (guard (text_ok 512 (jo_jobId input)) (Type_error ''jobId'')) (\<lambda>_.
     bindR (guard (safe_at_least 0 (jo_generation input)) (Type_error ''generation'')) (\<lambda>_.
     bindR (guard (unique_sorted_hex (jo_offerHashes input)) (Type_error ''offerHashes'')) (\<lambda>_.
     bindR (guard (unique_sorted_hex (jc_inputs (jo_claim input))) (Type_error ''claim.inputs'')) (\<lambda>_.
     bindR (guard (list_all (\<lambda>(t, n). isLowerHex64 t \<and> canonical_uint n) (jc_payouts (jo_claim input)))
              (Type_error ''claim.payouts'')) (\<lambda>_.
     bindR (guard (safe_at_least 1 (jo_ttlExpiresAtMs input)) (Type_error ''ttlExpiresAtMs'')) (\<lambda>_.
     bindR (guard (safe_at_least 1 (jo_deadlineAtMs input)) (Type_error ''deadlineAtMs'')) (\<lambda>_.
     bindR (guard (jo_deadlineAtMs input \<le> jo_ttlExpiresAtMs input) (Type_error ''deadlineAtMs must not exceed ttl'')) (\<lambda>_.
     bindR (guard ((jo_artifactKind input = None) = (jo_artifactBytes input = None)) (Type_error ''wallet artifact'')) (\<lambda>_.
     bindR (guard (optional (\<lambda>b. int (length b) \<le> maxArtifactBytes) (jo_artifactBytes input)) Capacity_error) (\<lambda>_.
       requireReceipt (jo_receipt input))))))))))))"

definition validateTransitionPatch :: "int \<Rightarrow> transition_patch \<Rightarrow> unit journal_result" where
  "validateTransitionPatch maxArtifactBytes patch =
     bindR (guard ((tp_artifactKind patch = None) = (tp_artifactBytes patch = None)) (Type_error ''wallet artifact'')) (\<lambda>_.
     bindR (guard (optional (\<lambda>b. int (length b) \<le> maxArtifactBytes) (tp_artifactBytes patch)) Capacity_error) (\<lambda>_.
     bindR (guard (optional (text_ok 256) (tp_errorCode patch)) (Type_error ''errorCode'')) (\<lambda>_.
     bindR (guard (optional (text_ok 4096) (tp_errorDetail patch)) (Type_error ''errorDetail'')) (\<lambda>_.
     bindR (guard (optional (safe_at_least 0) (tp_retryCount patch)) (Type_error ''retryCount'')) (\<lambda>_.
     bindR (guard (optional (safe_at_least 1) (tp_nextRetryAtMs patch)) (Type_error ''nextRetryAtMs'')) (\<lambda>_.
       requireReceipt (tp_receipt patch)))))))"

section \<open>Hydration\<close>

text \<open>The stored row as a patch, which the reader validates like one.\<close>

definition row_patch :: "journal_operation \<Rightarrow> transition_patch" where
  "row_patch row = \<lparr>tp_artifactKind = jo_artifactKind row, tp_artifactBytes = jo_artifactBytes row,
     tp_receipt = jo_receipt row, tp_errorCode = jo_errorCode row, tp_errorDetail = jo_errorDetail row,
     tp_retryCount = Some (jo_retryCount row), tp_nextRetryAtMs = jo_nextRetryAtMs row\<rparr>"

definition hydrate :: "journal_operation \<Rightarrow> journal_operation journal_result" where
  "hydrate row =
     bindR (requirePrepared max_safe_integer row) (\<lambda>_.
     bindR (guard (safe_at_least (jo_ttlExpiresAtMs row) (jo_retentionUntilMs row)) (Type_error ''retentionUntilMs'')) (\<lambda>_.
     bindR (validateTransitionPatch max_safe_integer (row_patch row)) (\<lambda>_. Inr row)))"

definition hydrateDust :: "dust_row \<Rightarrow> dust_reservation journal_result" where
  "hydrateDust row =
     (if \<not> canonical_uint (dr_amountText row) \<or> dr_amountText row = ''0'' then Inl Corrupt_row
      else case BigInt (dr_amountText row) of
        Inl _ \<Rightarrow> Inl Corrupt_row
      | Inr amount \<Rightarrow> Inr \<lparr>ds_operationKey = dr_operationKey row, ds_jobId = dr_jobId row,
          ds_generation = dr_generation row, ds_amount = amount, ds_state = dr_state row,
          ds_reservedAtMs = dr_reservedAtMs row, ds_spentAtMs = dr_spentAtMs row, ds_updatedAtMs = dr_updatedAtMs row\<rparr>)"

section \<open>Operations\<close>

definition assertOpen :: "journal \<Rightarrow> unit journal_result" where
  "assertOpen j = guard (\<not> jn_closed j) Journal_closed"

definition clock :: "int \<Rightarrow> int journal_result" where
  "clock now = (if safe_at_least 1 now then Inr now else Inl (Type_error ''journal clock''))"

definition find_operation :: "journal \<Rightarrow> string \<Rightarrow> journal_operation option" where
  "find_operation j key = find (\<lambda>r. jo_operationKey r = key) (jn_operations j)"

definition find_dust :: "journal \<Rightarrow> string \<Rightarrow> dust_row option" where
  "find_dust j key = find (\<lambda>r. dr_operationKey r = key) (jn_dust j)"

definition get_operation :: "journal \<Rightarrow> string \<Rightarrow> journal_operation option journal_result" where
  "get_operation j key =
     bindR (assertOpen j) (\<lambda>_. case find_operation j key of
        None \<Rightarrow> Inr None
      | Some row \<Rightarrow> bindR (hydrate row) (\<lambda>r. Inr (Some r)))"

definition require_operation :: "journal \<Rightarrow> string \<Rightarrow> journal_operation journal_result" where
  "require_operation j key =
     bindR (get_operation j key) (\<lambda>row. case row of None \<Rightarrow> Inl Not_found | Some r \<Rightarrow> Inr r)"

definition assertWithinCeilings :: "journal_config \<Rightarrow> file_size \<Rightarrow> journal \<Rightarrow> unit journal_result" where
  "assertWithinCeilings cf fs j =
     bindR (guard (int (length (jn_operations j) + length (jn_dust j)) \<le> cf_maxRows cf) Capacity_error) (\<lambda>_.
       guard (fs (jn_operations j) (jn_dust j) \<le> cf_maxBytes cf) Capacity_error)"

text \<open>\<open>#writeReceipt\<close>: a field is written once; a conflicting value is refused.\<close>

definition field_conflict :: "'a option \<Rightarrow> 'a option \<Rightarrow> bool" where
  "field_conflict requested stored \<longleftrightarrow> requested \<noteq> None \<and> stored \<noteq> None \<and> requested \<noteq> stored"

definition coalesce :: "'a option \<Rightarrow> 'a option \<Rightarrow> 'a option" where
  "coalesce new old = (case new of None \<Rightarrow> old | Some x \<Rightarrow> Some x)"

definition existing_receipt :: "journal_operation \<Rightarrow> journal_receipt" where
  "existing_receipt row = (case jo_receipt row of None \<Rightarrow> no_receipt | Some r \<Rightarrow> r)"

definition merge_receipts :: "journal_receipt \<Rightarrow> journal_receipt \<Rightarrow> journal_receipt" where
  "merge_receipts new old =
     \<lparr>jr_relayJobId = coalesce (jr_relayJobId new) (jr_relayJobId old),
      jr_relayState = coalesce (jr_relayState new) (jr_relayState old),
      jr_relayExtrinsicHash = coalesce (jr_relayExtrinsicHash new) (jr_relayExtrinsicHash old),
      jr_ledgerTxHash = coalesce (jr_ledgerTxHash new) (jr_ledgerTxHash old),
      jr_ledgerHeight = coalesce (jr_ledgerHeight new) (jr_ledgerHeight old)\<rparr>"

definition receipts_conflict :: "journal_receipt \<Rightarrow> journal_receipt \<Rightarrow> bool" where
  "receipts_conflict new old \<longleftrightarrow> field_conflict (jr_relayJobId new) (jr_relayJobId old)
     \<or> field_conflict (jr_relayState new) (jr_relayState old)
     \<or> field_conflict (jr_relayExtrinsicHash new) (jr_relayExtrinsicHash old)
     \<or> field_conflict (jr_ledgerTxHash new) (jr_ledgerTxHash old)
     \<or> field_conflict (jr_ledgerHeight new) (jr_ledgerHeight old)"

definition writeReceipt :: "journal_receipt \<Rightarrow> journal_operation \<Rightarrow> journal_operation journal_result" where
  "writeReceipt receipt row =
     bindR (requireReceipt (Some receipt)) (\<lambda>_.
       if receipts_conflict receipt (existing_receipt row) then Inl Transition_error
       else Inr (row\<lparr>jo_receipt := Some (merge_receipts receipt (existing_receipt row))\<rparr>))"

text \<open>Replacing the row of an operation key, which is unique.\<close>

definition put_row :: "journal_operation \<Rightarrow> journal \<Rightarrow> journal" where
  "put_row row j = j\<lparr>jn_operations :=
     map (\<lambda>r. if jo_operationKey r = jo_operationKey row then row else r) (jn_operations j)\<rparr>"

definition prepared_row :: "prepared_operation \<Rightarrow> nat \<Rightarrow> int \<Rightarrow> int \<Rightarrow> journal_operation" where
  "prepared_row input rid retention now =
     prepared_operation.extend (input\<lparr>jo_claim := (jo_claim input)\<lparr>jc_payouts := sort_key fst (jc_payouts (jo_claim input))\<rparr>,
        jo_receipt := None\<rparr>)
       \<lparr>jo_id = rid, jo_lifecycleState = PREPARED, jo_retentionUntilMs = retention, jo_errorCode = None,
        jo_errorDetail = None, jo_retryCount = 0, jo_nextRetryAtMs = None, jo_createdAtMs = now, jo_updatedAtMs = now\<rparr>"

definition createPrepared :: "journal_config \<Rightarrow> file_size \<Rightarrow> prepared_operation \<Rightarrow> int \<Rightarrow> journal
    \<Rightarrow> (journal_operation \<times> journal) journal_result" where
  "createPrepared cf fs input now j =
     bindR (assertOpen j) (\<lambda>_.
     bindR (requirePrepared (cf_maxArtifactBytes cf) input) (\<lambda>_.
     bindR (clock now) (\<lambda>now.
     let retention = jo_ttlExpiresAtMs input + cf_reconciliationMarginMs cf in
     bindR (guard (safe_at_least 1 retention) (Type_error ''retentionUntilMs'')) (\<lambda>_.
     bindR (guard (find_operation j (jo_operationKey input) = None) Constraint_failed) (\<lambda>_.
     let row = prepared_row input (jn_nextId j) retention now in
     bindR (case jo_receipt input of None \<Rightarrow> Inr row | Some r \<Rightarrow> writeReceipt r row) (\<lambda>row1.
     let j1 = j\<lparr>jn_operations := jn_operations j @ [row1], jn_nextId := Suc (jn_nextId j)\<rparr> in
     bindR (assertWithinCeilings cf fs j1) (\<lambda>_.
     bindR (require_operation j1 (jo_operationKey input)) (\<lambda>stored. Inr (stored, j1)))))))))"

text \<open>A replay of a terminal transition must agree with the durable row.\<close>

definition agrees :: "'a option \<Rightarrow> 'a option \<Rightarrow> bool" where
  "agrees requested stored \<longleftrightarrow> requested = None \<or> requested = stored"

definition receipt_agrees :: "journal_receipt option \<Rightarrow> journal_receipt \<Rightarrow> bool" where
  "receipt_agrees requested stored = (case requested of None \<Rightarrow> True
   | Some r \<Rightarrow> agrees (jr_relayJobId r) (jr_relayJobId stored) \<and> agrees (jr_relayState r) (jr_relayState stored)
       \<and> agrees (jr_relayExtrinsicHash r) (jr_relayExtrinsicHash stored)
       \<and> agrees (jr_ledgerTxHash r) (jr_ledgerTxHash stored) \<and> agrees (jr_ledgerHeight r) (jr_ledgerHeight stored))"

definition assertIdempotentTerminalPatch :: "journal_operation \<Rightarrow> transition_patch \<Rightarrow> unit journal_result" where
  "assertIdempotentTerminalPatch current patch =
     bindR (validateTransitionPatch max_safe_integer patch) (\<lambda>_.
       guard (agrees (tp_artifactKind patch) (jo_artifactKind current)
         \<and> agrees (tp_errorCode patch) (jo_errorCode current) \<and> agrees (tp_errorDetail patch) (jo_errorDetail current)
         \<and> agrees (tp_retryCount patch) (Some (jo_retryCount current))
         \<and> agrees (tp_nextRetryAtMs patch) (jo_nextRetryAtMs current)
         \<and> agrees (tp_artifactBytes patch) (jo_artifactBytes current)
         \<and> receipt_agrees (tp_receipt patch) (existing_receipt current)) Transition_error)"

definition patched_row :: "lifecycle_state \<Rightarrow> transition_patch \<Rightarrow> int \<Rightarrow> journal_operation \<Rightarrow> journal_operation" where
  "patched_row next_state patch now row = row\<lparr>jo_lifecycleState := next_state,
     jo_artifactKind := coalesce (tp_artifactKind patch) (jo_artifactKind row),
     jo_artifactBytes := coalesce (tp_artifactBytes patch) (jo_artifactBytes row),
     jo_errorCode := coalesce (tp_errorCode patch) (jo_errorCode row),
     jo_errorDetail := coalesce (tp_errorDetail patch) (jo_errorDetail row),
     jo_retryCount := (case tp_retryCount patch of None \<Rightarrow> jo_retryCount row | Some n \<Rightarrow> n),
     jo_nextRetryAtMs := coalesce (tp_nextRetryAtMs patch) (jo_nextRetryAtMs row),
     jo_updatedAtMs := now\<rparr>"

definition apply_transition :: "journal_config \<Rightarrow> file_size \<Rightarrow> string \<Rightarrow> lifecycle_state
    \<Rightarrow> transition_patch \<Rightarrow> int \<Rightarrow> journal_operation \<Rightarrow> journal \<Rightarrow> (journal_operation \<times> journal) journal_result" where
  "apply_transition cf fs key next_state patch now current j =
     bindR (validateTransitionPatch (cf_maxArtifactBytes cf) patch) (\<lambda>_.
     bindR (clock now) (\<lambda>now.
     bindR (guard (jo_createdAtMs current \<le> now) Constraint_failed) (\<lambda>_.
     let row = patched_row next_state patch now current in
     bindR (case tp_receipt patch of None \<Rightarrow> Inr row | Some r \<Rightarrow> writeReceipt r row) (\<lambda>row1.
     let j1 = put_row row1 j in
     bindR (assertWithinCeilings cf fs j1) (\<lambda>_.
     bindR (require_operation j1 key) (\<lambda>stored. Inr (stored, j1)))))))"

definition transition :: "journal_config \<Rightarrow> file_size \<Rightarrow> string \<Rightarrow> lifecycle_state \<Rightarrow> lifecycle_state
    \<Rightarrow> transition_patch \<Rightarrow> int \<Rightarrow> journal \<Rightarrow> (journal_operation \<times> journal) journal_result" where
  "transition cf fs key expected next_state patch now j =
     bindR (assertOpen j) (\<lambda>_.
     bindR (guard (text_ok 512 key) (Type_error ''operationKey'')) (\<lambda>_.
     bindR (require_operation j key) (\<lambda>current.
       if jo_lifecycleState current = next_state \<and> next_state \<in> TERMINAL_STATES
       then bindR (assertIdempotentTerminalPatch current patch) (\<lambda>_. Inr (current, j))
       else if jo_lifecycleState current \<noteq> expected then Inl Cas_conflict
       else if next_state \<notin> allowedTransitions expected then Inl Transition_error
       else apply_transition cf fs key next_state patch now current j)))"

definition recordReceipt :: "journal_config \<Rightarrow> file_size \<Rightarrow> string \<Rightarrow> journal_receipt \<Rightarrow> int \<Rightarrow> journal
    \<Rightarrow> (journal_operation \<times> journal) journal_result" where
  "recordReceipt cf fs key receipt now j =
     bindR (assertOpen j) (\<lambda>_.
     bindR (guard (text_ok 512 key) (Type_error ''operationKey'')) (\<lambda>_.
     bindR (requireReceipt (Some receipt)) (\<lambda>_.
     bindR (clock now) (\<lambda>now. case find_operation j key of
        None \<Rightarrow> Inl Not_found
      | Some row \<Rightarrow>
         bindR (writeReceipt receipt row) (\<lambda>row1.
         bindR (guard (jo_createdAtMs row \<le> now) Constraint_failed) (\<lambda>_.
         let j1 = put_row (row1\<lparr>jo_updatedAtMs := now\<rparr>) j in
         bindR (assertWithinCeilings cf fs j1) (\<lambda>_.
         bindR (require_operation j1 key) (\<lambda>stored. Inr (stored, j1)))))))))"

definition list_operations :: "journal \<Rightarrow> journal_operation list journal_result" where
  "list_operations j = bindR (assertOpen j) (\<lambda>_. mapR hydrate (jn_operations j))"

definition countsByState :: "journal \<Rightarrow> (lifecycle_state \<Rightarrow> int) journal_result" where
  "countsByState j = bindR (assertOpen j) (\<lambda>_.
     Inr (\<lambda>s. int (length (filter (\<lambda>r. jo_lifecycleState r = s) (jn_operations j)))))"

section \<open>The fee budget\<close>

definition dustByOperationKey :: "journal \<Rightarrow> string \<Rightarrow> dust_reservation option journal_result" where
  "dustByOperationKey j key = (case find_dust j key of
     None \<Rightarrow> Inr None
   | Some row \<Rightarrow> bindR (hydrateDust row) (\<lambda>d. Inr (Some d)))"

text \<open>Active reservations count whatever their age, settled ones within the window.\<close>

definition counts_in_window :: "int \<Rightarrow> dust_row \<Rightarrow> bool" where
  "counts_in_window cutoff row \<longleftrightarrow> dr_state row = RESERVED
     \<or> (dr_state row = SPENT \<and> (case dr_spentAtMs row of None \<Rightarrow> False | Some t \<Rightarrow> t > cutoff))"

definition amount_value :: "dust_row \<Rightarrow> int journal_result" where
  "amount_value row = (case BigInt (dr_amountText row) of Inl _ \<Rightarrow> Inl Corrupt_row | Inr n \<Rightarrow> Inr n)"

definition dust_usage :: "journal \<Rightarrow> int \<Rightarrow> int \<Rightarrow> int journal_result" where
  "dust_usage j windowMs nowMs =
     (let cutoff = max 0 (nowMs - windowMs) in
      foldR (\<lambda>sum row. bindR (amount_value row) (\<lambda>n. Inr (sum + n))) 0
        (filter (counts_in_window cutoff) (jn_dust j)))"

record dust_request =
  dq_operationKey :: string
  dq_jobId :: string
  dq_generation :: int
  dq_amount :: int
  dq_maxPerJob :: int
  dq_maxPerWindow :: int
  dq_windowMs :: int

datatype dust_result =
  Dust_accepted dust_reservation int
| Dust_refused_per_job int
| Dust_refused_window int

definition new_dust_row :: "dust_request \<Rightarrow> int \<Rightarrow> dust_row" where
  "new_dust_row input now = \<lparr>dr_operationKey = dq_operationKey input, dr_jobId = dq_jobId input,
     dr_generation = dq_generation input, dr_amountText = bigint_to_string (dq_amount input),
     dr_state = RESERVED, dr_reservedAtMs = now, dr_spentAtMs = None, dr_updatedAtMs = now\<rparr>"

definition reserveDust :: "journal_config \<Rightarrow> file_size \<Rightarrow> dust_request \<Rightarrow> int \<Rightarrow> journal
    \<Rightarrow> (dust_result \<times> journal) journal_result" where
  "reserveDust cf fs input now j =
     bindR (assertOpen j) (\<lambda>_.
     bindR (guard (text_ok 512 (dq_operationKey input)) (Type_error ''dust operationKey'')) (\<lambda>_.
     bindR (guard (text_ok 512 (dq_jobId input)) (Type_error ''dust jobId'')) (\<lambda>_.
     bindR (guard (safe_at_least 0 (dq_generation input)) (Type_error ''dust generation'')) (\<lambda>_.
     bindR (guard (dq_amount input > 0) (Type_error ''dust amount'')) (\<lambda>_.
     bindR (guard (dq_maxPerJob input > 0) (Type_error ''dust maxPerJob'')) (\<lambda>_.
     bindR (guard (dq_maxPerWindow input > 0) (Type_error ''dust maxPerWindow'')) (\<lambda>_.
     bindR (guard (safe_at_least 1 (dq_windowMs input)) (Type_error ''dust windowMs'')) (\<lambda>_.
     bindR (clock now) (\<lambda>now.
     bindR (dustByOperationKey j (dq_operationKey input)) (\<lambda>existing.
     case existing of
       Some d \<Rightarrow>
         if ds_jobId d \<noteq> dq_jobId input \<or> ds_generation d \<noteq> dq_generation input
            \<or> ds_amount d \<noteq> dq_amount input \<or> ds_state d = RELEASED
         then Inl Cas_conflict
         else bindR (dust_usage j (dq_windowMs input) now) (\<lambda>usage. Inr (Dust_accepted d usage, j))
     | None \<Rightarrow>
         bindR (dust_usage j (dq_windowMs input) now) (\<lambda>usage.
           if dq_amount input > dq_maxPerJob input then Inr (Dust_refused_per_job usage, j)
           else if usage + dq_amount input > dq_maxPerWindow input then Inr (Dust_refused_window usage, j)
           else (case find_operation j (dq_operationKey input) of
             None \<Rightarrow> Inl Transition_error
           | Some settlement \<Rightarrow>
               if jo_jobId settlement \<noteq> dq_jobId input \<or> jo_generation settlement \<noteq> dq_generation input
               then Inl Transition_error
               else
                 let j1 = j\<lparr>jn_dust := jn_dust j @ [new_dust_row input now]\<rparr>
                 in bindR (assertWithinCeilings cf fs j1) (\<lambda>_.
                    bindR (hydrateDust (new_dust_row input now)) (\<lambda>d.
                      Inr (Dust_accepted d (usage + dq_amount input), j1)))))))))))))))"

definition transitionDust :: "string \<Rightarrow> dust_state \<Rightarrow> int \<Rightarrow> journal
    \<Rightarrow> (dust_reservation option \<times> journal) journal_result" where
  "transitionDust key next_state now j =
     bindR (assertOpen j) (\<lambda>_.
     bindR (guard (text_ok 512 key) (Type_error ''dust operationKey'')) (\<lambda>_.
     bindR (clock now) (\<lambda>now.
     bindR (dustByOperationKey j key) (\<lambda>current. case current of
        None \<Rightarrow> Inr (None, j)
      | Some d \<Rightarrow>
          if ds_state d = next_state then Inr (Some d, j)
          else if ds_state d \<noteq> RESERVED then Inl Transition_error
          else
            bindR (guard (ds_reservedAtMs d \<le> now) Constraint_failed) (\<lambda>_.
            let update = (\<lambda>r. if dr_operationKey r = key \<and> dr_state r = RESERVED
                  then r\<lparr>dr_state := next_state, dr_spentAtMs := (if next_state = SPENT then Some now else None),
                         dr_updatedAtMs := now\<rparr> else r);
                j1 = j\<lparr>jn_dust := map update (jn_dust j)\<rparr>
            in bindR (dustByOperationKey j1 key) (\<lambda>d1. Inr (d1, j1)))))))"

definition markDustSpent :: "string \<Rightarrow> int \<Rightarrow> journal \<Rightarrow> (dust_reservation option \<times> journal) journal_result" where
  "markDustSpent key = transitionDust key SPENT"

definition releaseDust :: "string \<Rightarrow> int \<Rightarrow> journal \<Rightarrow> (dust_reservation option \<times> journal) journal_result" where
  "releaseDust key = transitionDust key RELEASED"

definition dustUsage :: "int \<Rightarrow> int \<Rightarrow> journal \<Rightarrow> int journal_result" where
  "dustUsage windowMs nowMs j =
     bindR (assertOpen j) (\<lambda>_.
     bindR (guard (safe_at_least 1 windowMs) (Type_error ''dust windowMs'')) (\<lambda>_.
     bindR (guard (safe_at_least 1 nowMs) (Type_error ''dust usage clock'')) (\<lambda>_.
       dust_usage j windowMs nowMs)))"

definition listDustReservations :: "journal \<Rightarrow> dust_reservation list journal_result" where
  "listDustReservations j = bindR (assertOpen j) (\<lambda>_. mapR hydrateDust (jn_dust j))"

section \<open>Pruning\<close>

definition prunable :: "journal \<Rightarrow> int \<Rightarrow> journal_operation \<Rightarrow> bool" where
  "prunable j nowMs row \<longleftrightarrow> jo_lifecycleState row \<in> TERMINAL_STATES \<and> jo_retentionUntilMs row \<le> nowMs
     \<and> find_dust j (jo_operationKey row) = None"

definition pruneTerminal :: "journal_config \<Rightarrow> file_size \<Rightarrow> int \<Rightarrow> journal \<Rightarrow> (nat \<times> journal) journal_result" where
  "pruneTerminal cf fs nowMs j =
     bindR (assertOpen j) (\<lambda>_.
     bindR (guard (safe_at_least 1 nowMs) (Type_error ''prune nowMs'')) (\<lambda>_.
     let candidates = map jo_id (take 1000 (filter (prunable j nowMs) (jn_operations j)))
     in if candidates = [] then Inr (0, j)
        else
          let j1 = j\<lparr>jn_operations := filter (\<lambda>r. jo_id r \<notin> set candidates) (jn_operations j)\<rparr>
          in bindR (assertWithinCeilings cf fs j1) (\<lambda>_. Inr (length candidates, j1))))"

definition pruneDust :: "int \<Rightarrow> int \<Rightarrow> journal \<Rightarrow> (nat \<times> journal) journal_result" where
  "pruneDust windowMs nowMs j =
     bindR (assertOpen j) (\<lambda>_.
     bindR (guard (safe_at_least 1 windowMs) (Type_error ''dust windowMs'')) (\<lambda>_.
     bindR (guard (safe_at_least 1 nowMs) (Type_error ''dust prune clock'')) (\<lambda>_.
     let cutoff = max 0 (nowMs - windowMs);
         stale = (\<lambda>r. dr_state r = RELEASED
            \<or> (dr_state r = SPENT \<and> (case dr_spentAtMs r of None \<Rightarrow> False | Some t \<Rightarrow> t \<le> cutoff)))
     in Inr (length (filter stale (jn_dust j)), j\<lparr>jn_dust := filter (\<lambda>r. \<not> stale r) (jn_dust j)\<rparr>))))"

definition close_journal :: "journal \<Rightarrow> journal" where
  "close_journal j = j\<lparr>jn_closed := True\<rparr>"

section \<open>Observing and opening\<close>

text \<open>The redacted summary: no artifact bytes, no claim inputs.\<close>

record operation_summary =
  os_id :: nat
  os_operationKey :: string
  os_jobId :: string
  os_generation :: int
  os_offerHashes :: "string list"
  os_inputCount :: nat
  os_payouts :: "(string \<times> string) list"
  os_operationKind :: operation_kind
  os_lifecycleState :: lifecycle_state
  os_ttlExpiresAtMs :: int
  os_deadlineAtMs :: int
  os_retentionUntilMs :: int
  os_receipt :: journal_receipt
  os_retryCount :: int
  os_createdAtMs :: int
  os_updatedAtMs :: int
  os_artifactByteLength :: "nat option"
  os_artifactKind :: "artifact_kind option"
  os_errorCode :: "string option"
  os_errorDetail :: "string option"
  os_nextRetryAtMs :: "int option"

definition hydrateSummary :: "journal_operation \<Rightarrow> operation_summary" where
  "hydrateSummary row = \<lparr>os_id = jo_id row, os_operationKey = jo_operationKey row, os_jobId = jo_jobId row,
     os_generation = jo_generation row, os_offerHashes = jo_offerHashes row,
     os_inputCount = length (jc_inputs (jo_claim row)), os_payouts = jc_payouts (jo_claim row),
     os_operationKind = jo_operationKind row, os_lifecycleState = jo_lifecycleState row,
     os_ttlExpiresAtMs = jo_ttlExpiresAtMs row, os_deadlineAtMs = jo_deadlineAtMs row,
     os_retentionUntilMs = jo_retentionUntilMs row, os_receipt = existing_receipt row,
     os_retryCount = jo_retryCount row, os_createdAtMs = jo_createdAtMs row, os_updatedAtMs = jo_updatedAtMs row,
     os_artifactByteLength = map_option length (jo_artifactBytes row), os_artifactKind = jo_artifactKind row,
     os_errorCode = jo_errorCode row, os_errorDetail = jo_errorDetail row, os_nextRetryAtMs = jo_nextRetryAtMs row\<rparr>"

definition listRecent :: "int \<Rightarrow> journal \<Rightarrow> operation_summary list journal_result" where
  "listRecent limit j =
     bindR (assertOpen j) (\<lambda>_.
     bindR (guard (safe_at_least 1 limit) (Type_error ''listRecent limit'')) (\<lambda>_.
       Inr (map hydrateSummary (take (nat limit) (rev (jn_operations j))))))"

definition DEFAULT_JOURNAL_CONFIG :: journal_config where
  "DEFAULT_JOURNAL_CONFIG = \<lparr>cf_maxRows = 10000, cf_maxBytes = 64 * 1024 * 1024, cf_maxArtifactBytes = 8 * 1024 * 1024,
     cf_reconciliationMarginMs = 24 * 60 * 60 * 1000\<rparr>"

text \<open>\<open>normalizeOptions\<close>, on the numeric options.\<close>

definition normalizeOptions :: "int option \<Rightarrow> int option \<Rightarrow> int option \<Rightarrow> int option \<Rightarrow> journal_config journal_result" where
  "normalizeOptions maxRows maxBytes maxArtifactBytes margin =
     (let pick = (\<lambda>v d. case v of None \<Rightarrow> d | Some n \<Rightarrow> n);
          cf = \<lparr>cf_maxRows = pick maxRows (cf_maxRows DEFAULT_JOURNAL_CONFIG),
                cf_maxBytes = pick maxBytes (cf_maxBytes DEFAULT_JOURNAL_CONFIG),
                cf_maxArtifactBytes = pick maxArtifactBytes (cf_maxArtifactBytes DEFAULT_JOURNAL_CONFIG),
                cf_reconciliationMarginMs = pick margin (cf_reconciliationMarginMs DEFAULT_JOURNAL_CONFIG)\<rparr>
      in bindR (guard (safe_at_least 1 (cf_maxRows cf)) (Type_error ''maxRows'')) (\<lambda>_.
         bindR (guard (safe_at_least (64 * 1024) (cf_maxBytes cf)) (Type_error ''maxBytes'')) (\<lambda>_.
         bindR (guard (safe_at_least 1 (cf_maxArtifactBytes cf)) (Type_error ''maxArtifactBytes'')) (\<lambda>_.
         bindR (guard (safe_at_least 1 (cf_reconciliationMarginMs cf)) (Type_error ''reconciliationMarginMs'')) (\<lambda>_.
         bindR (guard (cf_maxArtifactBytes cf \<le> cf_maxBytes cf) (Type_error ''artifact ceiling'')) (\<lambda>_. Inr cf))))))"

definition fresh_journal :: journal where
  "fresh_journal = \<lparr>jn_operations = [], jn_dust = [], jn_nextId = 1, jn_closed = False\<rparr>"

text \<open>\<open>open\<close> on a database that passed the schema checks: the ceilings hold and every reservation
  can be read.\<close>

definition open_journal :: "journal_config \<Rightarrow> file_size \<Rightarrow> journal \<Rightarrow> journal journal_result" where
  "open_journal cf fs stored =
     (let j = stored\<lparr>jn_closed := False\<rparr> in
      bindR (assertWithinCeilings cf fs j) (\<lambda>_. bindR (listDustReservations j) (\<lambda>_. Inr j)))"

section \<open>Runs\<close>

text \<open>Every operation that changes the journal, and the runs from an empty database.\<close>

inductive journal_step :: "journal_config \<Rightarrow> file_size \<Rightarrow> journal \<Rightarrow> journal \<Rightarrow> bool" for cf fs where
  Create: "createPrepared cf fs input now j = Inr (row, j') \<Longrightarrow> journal_step cf fs j j'"
| Transition: "transition cf fs key expected next_state patch now j = Inr (row, j') \<Longrightarrow> journal_step cf fs j j'"
| Receipt: "recordReceipt cf fs key receipt now j = Inr (row, j') \<Longrightarrow> journal_step cf fs j j'"
| Reserve: "reserveDust cf fs request now j = Inr (res, j') \<Longrightarrow> journal_step cf fs j j'"
| Spend: "markDustSpent key now j = Inr (d, j') \<Longrightarrow> journal_step cf fs j j'"
| Release: "releaseDust key now j = Inr (d, j') \<Longrightarrow> journal_step cf fs j j'"
| Prune_terminal: "pruneTerminal cf fs nowMs j = Inr (n, j') \<Longrightarrow> journal_step cf fs j j'"
| Prune_dust: "pruneDust windowMs nowMs j = Inr (n, j') \<Longrightarrow> journal_step cf fs j j'"
| Close: "journal_step cf fs j (close_journal j)"
| Reopen: "open_journal cf fs j = Inr j' \<Longrightarrow> journal_step cf fs j j'"

inductive journal_run :: "journal_config \<Rightarrow> file_size \<Rightarrow> journal \<Rightarrow> bool" for cf fs where
  Fresh: "journal_run cf fs fresh_journal"
| Step: "journal_run cf fs j \<Longrightarrow> journal_step cf fs j j' \<Longrightarrow> journal_run cf fs j'"

end
