(* ===== verification/Swap_State.thy ===== *)
theory Swap_State
  imports Swap_Exact Receipt_Contract Journal
begin

text \<open>
  The state of \<^verbatim>\<open>packages/solver/src/swap-job-executor.ts\<close> and the helpers its handlers are written in:
  the journal calls, the lifecycle marks of a job's rows, and the guards. A handler is a function of
  the executor's state that returns or throws and keeps what it had already changed when it throws.
  Clock readings, wallet answers, fetched files and evidence are external: functions of the number of
  external answers drawn so far. Error texts other than a refusal's reason are left out where the code
  does not branch on them.
\<close>

section \<open>Records\<close>

text \<open>
  The job records of the four maps are one record: an optional field is absent in the kinds of
  record that do not declare it.
\<close>

record 'tx job_record =
  sj_jobId :: string
  sj_claim :: claim
  sj_offerHashes :: "string list"
  sj_ttlExpiresAt :: int
  sj_generation :: int
  sj_operationKey :: string
  sj_walletTransaction :: "'tx option"
  sj_rawTransactions :: "'tx list"
  sj_reverting :: bool
  sj_relayAccepted :: "bool option"
  sj_locallyRevertible :: "bool option"
  sj_evidenceReconcile :: bool

record dust_admission =
  da_maxPerJob :: int
  da_maxPerWindow :: int
  da_windowMs :: int

datatype wallet_call = Call_initSwap | Call_finalize | Call_balance | Call_revert | Call_revertRaw

text \<open>The local variables of a running build: its contributions, and its deadline.\<close>

datatype deadline = Not_fired | Fired | Fired_unrecorded string

record 'tx build =
  bd_jobId :: string
  bd_generation :: int
  bd_finalized :: "(string \<times> string \<times> 'tx) list"
  bd_pending :: "(string \<times> 'tx) list"
  bd_walletTransactions :: "'tx list"
  bd_deadline :: deadline

record 'tx executor =
  ex_journal :: journal
  ex_stock :: stock
  ex_building :: "(string \<times> 'tx job_record) list"
  ex_awaiting :: "(string \<times> 'tx job_record) list"
  ex_confirmations :: "(string \<times> 'tx job_record) list"
  ex_quarantined :: "(string \<times> 'tx job_record) list"
  ex_tombstones :: "(string \<times> int) list"
  ex_stopped :: bool
  ex_reconciled :: bool
  ex_dustBlockedUsage :: "int option"
  ex_build :: "'tx build option"
  ex_tick :: nat
  ex_calls :: "(wallet_call \<times> string \<times> lifecycle_state option) list"
  ex_completed :: nat
  ex_refused :: nat
  ex_reverted :: nat
  ex_revertFailures :: nat
  ex_timedOutBuilds :: nat

record 'tx swap_env =
  se_journal :: journal_config
  se_fileSize :: file_size
  se_maxParallelSwaps :: int
  se_expiryMarginSeconds :: int
  se_settleTtlMinutes :: int
  se_walletOperationTimeoutMs :: int
  se_dustAdmission :: "dust_admission option"
  se_policy :: admission_policy
  se_resourceLimits :: "limit_controls option"
  se_comparisons :: "combination_state list \<Rightarrow> nat"
  se_sdk :: "'tx sdk"
  se_parseDate :: date_parser
  se_serializeUnproven :: "'tx \<Rightarrow> bytes result"
  se_deserializeUnproven :: "bytes \<Rightarrow> 'tx result"
  se_serializeFinalized :: "'tx \<Rightarrow> bytes result"
  se_deserializeFinalized :: "bytes \<Rightarrow> 'tx result"
  se_digest :: "artifact_kind \<Rightarrow> string list \<Rightarrow> bytes \<Rightarrow> string"
  se_now :: "nat \<Rightarrow> int"
  se_cache :: "nat \<Rightarrow> swap_cache"
  se_files :: "nat \<Rightarrow> exact_file list result"
  se_standIn :: "nat \<Rightarrow> unit result"
  se_address :: "nat \<Rightarrow> unit result"
  se_wallet :: "nat \<Rightarrow> 'tx result"
  se_walletRevert :: "nat \<Rightarrow> unit result"
  se_evidence :: "nat \<Rightarrow> string \<Rightarrow> consumption_response result"
  se_relay :: "nat \<Rightarrow> relay_job_status result"
  se_deadlineFires :: "nat \<Rightarrow> bool"

section \<open>Handlers\<close>

datatype 'tx exn =
  Refused job_reason
| Failed string
| Uncertain "'tx list" "'tx option" int

type_synonym ('tx, 'a) exec = "'tx executor \<Rightarrow> ('tx exn + 'a) \<times> 'tx executor"

definition returnE :: "'a \<Rightarrow> ('tx, 'a) exec" where
  "returnE x s = (Inr x, s)"

definition throwE :: "'tx exn \<Rightarrow> ('tx, 'a) exec" where
  "throwE e s = (Inl e, s)"

definition bindE :: "('tx, 'a) exec \<Rightarrow> ('a \<Rightarrow> ('tx, 'b) exec) \<Rightarrow> ('tx, 'b) exec" where
  "bindE m f s = (case m s of (Inl e, s') \<Rightarrow> (Inl e, s') | (Inr x, s') \<Rightarrow> f x s')"

definition thenE :: "('tx, 'a) exec \<Rightarrow> ('tx, 'b) exec \<Rightarrow> ('tx, 'b) exec" where
  "thenE m k = bindE m (\<lambda>_. k)"

definition catchE :: "('tx, 'a) exec \<Rightarrow> ('tx exn \<Rightarrow> ('tx, 'a) exec) \<Rightarrow> ('tx, 'a) exec" where
  "catchE m h s = (case m s of (Inl e, s') \<Rightarrow> h e s' | (Inr x, s') \<Rightarrow> (Inr x, s'))"

definition attemptE :: "('tx, 'a) exec \<Rightarrow> ('tx, 'tx exn + 'a) exec" where
  "attemptE m s = (case m s of (r, s') \<Rightarrow> (Inr r, s'))"

definition quietE :: "('tx, 'a) exec \<Rightarrow> ('tx, unit) exec" where
  "quietE m s = (Inr (), snd (m s))"

definition getE :: "('tx executor \<Rightarrow> 'a) \<Rightarrow> ('tx, 'a) exec" where
  "getE f s = (Inr (f s), s)"

definition modifyE :: "('tx executor \<Rightarrow> 'tx executor) \<Rightarrow> ('tx, unit) exec" where
  "modifyE f s = (Inr (), f s)"

definition whenE :: "bool \<Rightarrow> ('tx, unit) exec \<Rightarrow> ('tx, unit) exec" where
  "whenE b m = (if b then m else returnE ())"

fun forE :: "('a \<Rightarrow> ('tx, unit) exec) \<Rightarrow> 'a list \<Rightarrow> ('tx, unit) exec" where
  "forE f [] = returnE ()"
| "forE f (x # xs) = thenE (f x) (forE f xs)"

fun mapE :: "('a \<Rightarrow> ('tx, 'b) exec) \<Rightarrow> 'a list \<Rightarrow> ('tx, 'b list) exec" where
  "mapE f [] = returnE []"
| "mapE f (x # xs) = bindE (f x) (\<lambda>y. bindE (mapE f xs) (\<lambda>ys. returnE (y # ys)))"

text \<open>An external answer: the next one.\<close>

definition draw :: "(nat \<Rightarrow> 'a) \<Rightarrow> ('tx, 'a) exec" where
  "draw f s = (Inr (f (ex_tick s)), s\<lparr>ex_tick := Suc (ex_tick s)\<rparr>)"

fun js_message :: "js_error \<Rightarrow> string" where
  "js_message (TypeError m) = m"
| "js_message (RangeError m) = m"
| "js_message (SyntaxError m) = m"
| "js_message (PlainError m) = m"

definition liftResult :: "'a result \<Rightarrow> ('tx, 'a) exec" where
  "liftResult r = (case r of Inl e \<Rightarrow> throwE (Failed (js_message e)) | Inr x \<Rightarrow> returnE x)"

definition liftJob :: "'a job_result \<Rightarrow> ('tx, 'a) exec" where
  "liftJob r = (case r of Inl (Refusal reason) \<Rightarrow> throwE (Refused reason)
     | Inl (Thrown e) \<Rightarrow> throwE (Failed (js_message e)) | Inr x \<Rightarrow> returnE x)"

fun job_reason_text :: "job_reason \<Rightarrow> string" where
  "job_reason_text JOB_AT_CAPACITY = ''solver_at_capacity''"
| "job_reason_text JOB_DUPLICATE = ''duplicate_job_id''"
| "job_reason_text JOB_CACHE_NOT_CURRENT = ''book_cache_not_current''"
| "job_reason_text JOB_ROUTE_NOT_CURRENT = ''route_not_current''"
| "job_reason_text JOB_ROUTE_UNAVAILABLE = ''route_unavailable''"
| "job_reason_text JOB_EXACT_FILES_UNAVAILABLE = ''exact_files_unavailable''"
| "job_reason_text JOB_EXACT_FILE_REFUSED = ''exact_file_refused''"
| "job_reason_text JOB_EXACT_FILE_MISMATCH = ''exact_file_mismatch''"
| "job_reason_text JOB_WALLET_FAILED = ''wallet_build_failed''"
| "job_reason_text JOB_WALLET_TIMEOUT = ''wallet_build_timeout''"
| "job_reason_text JOB_RECONCILING = ''journal_reconciliation_in_progress''"
| "job_reason_text JOB_PAIR_UNSUPPORTED = ''pair_not_supported''"
| "job_reason_text JOB_MIN_OUTPUT = ''minimum_output_not_met''"
| "job_reason_text JOB_DUST_PER_JOB = ''dust_per_job_limit''"
| "job_reason_text JOB_DUST_WINDOW = ''dust_window_exhausted''"
| "job_reason_text JOB_DUST_ESTIMATE = ''dust_estimate_unavailable''"

definition exn_message :: "'tx exn \<Rightarrow> string" where
  "exn_message e = (case e of Refused r \<Rightarrow> job_reason_text r | Failed m \<Rightarrow> m | Uncertain _ _ _ \<Rightarrow> job_reason_text JOB_WALLET_FAILED)"

definition exn_reason :: "'tx exn \<Rightarrow> job_reason" where
  "exn_reason e = (case e of Refused r \<Rightarrow> r | _ \<Rightarrow> JOB_WALLET_FAILED)"

definition error_detail :: "string \<Rightarrow> string" where
  "error_detail message = take 4096 message"

section \<open>Journal calls\<close>

definition journal_message :: "journal_error \<Rightarrow> string" where
  "journal_message e = (case e of Type_error m \<Rightarrow> m | Capacity_error \<Rightarrow> ''capacity'' | Cas_conflict \<Rightarrow> ''cas conflict''
     | Transition_error \<Rightarrow> ''transition'' | Not_found \<Rightarrow> ''not found'' | Journal_closed \<Rightarrow> ''closed''
     | Constraint_failed \<Rightarrow> ''constraint'' | Corrupt_row \<Rightarrow> ''corrupt'')"

definition readJ :: "(journal \<Rightarrow> 'a journal_result) \<Rightarrow> ('tx, 'a) exec" where
  "readJ f s = (case f (ex_journal s) of Inl e \<Rightarrow> (Inl (Failed (journal_message e)), s) | Inr x \<Rightarrow> (Inr x, s))"

definition writeJ :: "(journal \<Rightarrow> ('a \<times> journal) journal_result) \<Rightarrow> ('tx, 'a) exec" where
  "writeJ f s = (case f (ex_journal s) of Inl e \<Rightarrow> (Inl (Failed (journal_message e)), s)
     | Inr (x, j) \<Rightarrow> (Inr x, s\<lparr>ex_journal := j\<rparr>))"

definition no_patch :: transition_patch where
  "no_patch = \<lparr>tp_artifactKind = None, tp_artifactBytes = None, tp_receipt = None, tp_errorCode = None,
     tp_errorDetail = None, tp_retryCount = None, tp_nextRetryAtMs = None\<rparr>"

definition j_transition :: "'tx swap_env \<Rightarrow> string \<Rightarrow> lifecycle_state \<Rightarrow> lifecycle_state \<Rightarrow> transition_patch
    \<Rightarrow> ('tx, journal_operation) exec" where
  "j_transition env key expected next_state patch =
     bindE (draw (se_now env)) (\<lambda>now. writeJ (transition (se_journal env) (se_fileSize env) key expected next_state patch now))"

definition j_create :: "'tx swap_env \<Rightarrow> prepared_operation \<Rightarrow> ('tx, journal_operation) exec" where
  "j_create env input = bindE (draw (se_now env)) (\<lambda>now. writeJ (createPrepared (se_journal env) (se_fileSize env) input now))"

definition j_receipt :: "'tx swap_env \<Rightarrow> string \<Rightarrow> journal_receipt \<Rightarrow> ('tx, journal_operation) exec" where
  "j_receipt env key receipt =
     bindE (draw (se_now env)) (\<lambda>now. writeJ (recordReceipt (se_journal env) (se_fileSize env) key receipt now))"

definition j_require :: "string \<Rightarrow> ('tx, journal_operation) exec" where
  "j_require key = readJ (\<lambda>j. require_operation j key)"

definition j_get :: "string \<Rightarrow> ('tx, journal_operation option) exec" where
  "j_get key = readJ (\<lambda>j. get_operation j key)"

definition j_releaseDust :: "'tx swap_env \<Rightarrow> string \<Rightarrow> ('tx, unit) exec" where
  "j_releaseDust env key = bindE (draw (se_now env)) (\<lambda>now. thenE (writeJ (releaseDust key now)) (returnE ()))"

definition j_spendDust :: "'tx swap_env \<Rightarrow> string \<Rightarrow> ('tx, unit) exec" where
  "j_spendDust env key = bindE (draw (se_now env)) (\<lambda>now. thenE (writeJ (markDustSpent key now)) (returnE ()))"

section \<open>Keys and rows of a job\<close>

definition state_terminal :: "lifecycle_state \<Rightarrow> bool" where
  "state_terminal state \<longleftrightarrow> state = SETTLED \<or> state = REVERTED \<or> state = FAILED"

fun kind_name :: "operation_kind \<Rightarrow> string" where
  "kind_name MIRROR_RESERVATION = ''MIRROR_RESERVATION''"
| "kind_name MIRROR_REVERT = ''MIRROR_REVERT''"
| "kind_name RESIDUAL_BUILD = ''RESIDUAL_BUILD''"
| "kind_name DUST_BALANCE = ''DUST_BALANCE''"
| "kind_name FINALIZED_CONTRIBUTION = ''FINALIZED_CONTRIBUTION''"
| "kind_name JOB_SETTLEMENT = ''JOB_SETTLEMENT''"
| "kind_name JOB_REVERT = ''JOB_REVERT''"

definition job_prefix :: "string \<Rightarrow> int \<Rightarrow> string" where
  "job_prefix jobId generation = ''job:'' @ jobId @ '':g'' @ bigint_to_string generation @ '':''"

definition jobKey :: "string \<Rightarrow> int \<Rightarrow> string" where
  "jobKey jobId generation = job_prefix jobId generation @ ''settlement''"

definition operationKey :: "string \<Rightarrow> int \<Rightarrow> operation_kind \<Rightarrow> string \<Rightarrow> string" where
  "operationKey jobId generation kind label = job_prefix jobId generation @ kind_name kind @ '':'' @ label"

definition in_group :: "string \<Rightarrow> int \<Rightarrow> journal_operation \<Rightarrow> bool" where
  "in_group jobId generation row \<longleftrightarrow> jo_jobId row = jobId \<and> jo_generation row = generation"

definition job_group :: "string \<Rightarrow> int \<Rightarrow> ('tx, journal_operation list) exec" where
  "job_group jobId generation = bindE (readJ list_operations) (\<lambda>rows. returnE (filter (in_group jobId generation) rows))"

definition recoveryRevertPrefix :: "string \<Rightarrow> int \<Rightarrow> string" where
  "recoveryRevertPrefix jobId generation = job_prefix jobId generation @ ''JOB_REVERT:recovery-''"

definition isRecoveryRevert :: "journal_operation \<Rightarrow> bool" where
  "isRecoveryRevert row \<longleftrightarrow> jo_operationKind row = JOB_REVERT
     \<and> (let p = recoveryRevertPrefix (jo_jobId row) (jo_generation row) in take (length p) (jo_operationKey row) = p)"

definition recoveryRevertKey :: "'tx swap_env \<Rightarrow> string \<Rightarrow> int \<Rightarrow> string list \<Rightarrow> artifact_kind \<Rightarrow> bytes \<Rightarrow> string" where
  "recoveryRevertKey env jobId generation sources kind bytes =
     operationKey jobId generation JOB_REVERT (''recovery-''
       @ (case kind of FINALIZED_TRANSACTION \<Rightarrow> ''finalized'' | UNPROVEN_TRANSACTION \<Rightarrow> ''unproven'') @ ''-''
       @ se_digest env kind (sort sources) bytes)"

definition terminalOrder :: "journal_operation list \<Rightarrow> journal_operation list" where
  "terminalOrder rows = filter (\<lambda>r. jo_operationKind r \<noteq> JOB_SETTLEMENT) rows @ filter (\<lambda>r. jo_operationKind r = JOB_SETTLEMENT) rows"

definition claimToJournal :: "claim \<Rightarrow> journal_claim" where
  "claimToJournal c = \<lparr>jc_inputs = sort (map toLowerCase (cl_nullifiers c)),
     jc_payouts = fold (\<lambda>(t, n). AList.update t n)
       (sort_key (\<lambda>(t, n). t @ '','' @ n) (map (\<lambda>(t, n). (toLowerCase t, bigint_to_string n)) (cl_payouts c))) []\<rparr>"

definition claimFromJournal :: "journal_operation \<Rightarrow> claim result" where
  "claimFromJournal row =
     bindR (mapR (\<lambda>(t, n). bindR (BigInt n) (\<lambda>v. Inr (t, v))) (jc_payouts (jo_claim row))) (\<lambda>payouts.
       Inr \<lparr>cl_offerHashes = jo_offerHashes row, cl_nullifiers = jc_inputs (jo_claim row), cl_payouts = payouts\<rparr>)"

section \<open>Lifecycle marks\<close>

definition error_patch :: "journal_operation \<Rightarrow> string \<Rightarrow> string \<Rightarrow> transition_patch" where
  "error_patch row code message = no_patch\<lparr>tp_errorCode := Some code, tp_errorDetail := Some (error_detail message),
     tp_retryCount := Some (jo_retryCount row + 1)\<rparr>"

definition quarantineRow :: "'tx swap_env \<Rightarrow> journal_operation \<Rightarrow> string \<Rightarrow> string \<Rightarrow> ('tx, unit) exec" where
  "quarantineRow env row code message =
     (if state_terminal (jo_lifecycleState row) \<or> jo_lifecycleState row = QUARANTINED then returnE ()
      else thenE (j_transition env (jo_operationKey row) (jo_lifecycleState row) QUARANTINED (error_patch row code message))
             (returnE ()))"

definition quarantineGroup :: "'tx swap_env \<Rightarrow> string \<Rightarrow> int \<Rightarrow> string \<Rightarrow> string \<Rightarrow> ('tx, unit) exec" where
  "quarantineGroup env jobId generation code message =
     bindE (job_group jobId generation) (\<lambda>rows. forE (\<lambda>row. quarantineRow env row code message) rows)"

definition move :: "'tx swap_env \<Rightarrow> string \<Rightarrow> lifecycle_state \<Rightarrow> lifecycle_state \<Rightarrow> ('tx, unit) exec" where
  "move env key expected next_state = thenE (j_transition env key expected next_state no_patch) (returnE ())"

text \<open>One row to \<open>REVERTED\<close>, through \<open>REVERTING\<close> unless it is quarantined.\<close>

definition revert_row :: "'tx swap_env \<Rightarrow> string \<Rightarrow> lifecycle_state \<Rightarrow> ('tx, unit) exec" where
  "revert_row env key state =
     (if state = QUARANTINED then move env key QUARANTINED REVERTED
      else thenE (whenE (state \<noteq> REVERTING) (move env key state REVERTING)) (move env key REVERTING REVERTED))"

definition markReverted :: "'tx swap_env \<Rightarrow> string \<Rightarrow> int \<Rightarrow> ('tx, unit) exec" where
  "markReverted env jobId generation =
     bindE (job_group jobId generation) (\<lambda>rows.
       thenE (forE (\<lambda>initial. bindE (j_require (jo_operationKey initial)) (\<lambda>row.
                whenE (\<not> state_terminal (jo_lifecycleState row)) (revert_row env (jo_operationKey row) (jo_lifecycleState row))))
               (terminalOrder rows))
         (j_releaseDust env (jobKey jobId generation)))"

definition markFailed :: "'tx swap_env \<Rightarrow> string \<Rightarrow> int \<Rightarrow> string \<Rightarrow> ('tx, unit) exec" where
  "markFailed env jobId generation message =
     bindE (job_group jobId generation) (\<lambda>rows.
       forE (\<lambda>initial. bindE (j_require (jo_operationKey initial)) (\<lambda>row.
          if state_terminal (jo_lifecycleState row) then returnE ()
          else if jo_lifecycleState row \<noteq> PREPARED then throwE (Failed ''cannot be proved mutation-free'')
          else thenE (j_transition env (jo_operationKey row) PREPARED FAILED
                  (no_patch\<lparr>tp_errorCode := Some ''MUTATION_FREE_FAILURE'', tp_errorDetail := Some (error_detail message)\<rparr>))
                 (returnE ()))) (terminalOrder rows))"

definition markAwaitingRelay :: "'tx swap_env \<Rightarrow> string \<Rightarrow> int \<Rightarrow> ('tx, unit) exec" where
  "markAwaitingRelay env jobId generation =
     bindE (job_group jobId generation) (\<lambda>rows.
       forE (\<lambda>initial. bindE (j_require (jo_operationKey initial)) (\<lambda>row.
          if state_terminal (jo_lifecycleState row) then returnE ()
          else bindE (if jo_lifecycleState row = PREPARED \<and> jo_operationKind row = JOB_SETTLEMENT
                      then bindE (j_transition env (jo_operationKey row) PREPARED APPLIED no_patch) (\<lambda>r. returnE (jo_lifecycleState r))
                      else returnE (jo_lifecycleState row)) (\<lambda>state.
            if state = APPLIED then move env (jo_operationKey row) APPLIED AWAITING_RELAY
            else if state \<noteq> AWAITING_RELAY then throwE (Failed ''not ready for relay ownership'')
            else returnE ()))) rows)"

definition relay_submitted_row :: "'tx swap_env \<Rightarrow> journal_operation \<Rightarrow> ('tx, unit) exec" where
  "relay_submitted_row env row =
     (case jo_lifecycleState row of
        AWAITING_RELAY \<Rightarrow> move env (jo_operationKey row) AWAITING_RELAY RELAY_SUBMITTED
      | QUARANTINED \<Rightarrow> move env (jo_operationKey row) QUARANTINED CONFIRMING
      | RELAY_SUBMITTED \<Rightarrow> returnE ()
      | CONFIRMING \<Rightarrow> returnE ()
      | state \<Rightarrow> if state_terminal state then returnE () else throwE (Failed ''cannot record relay submission''))"

definition relay_receipt :: "'tx job_record \<Rightarrow> string \<Rightarrow> string option \<Rightarrow> journal_receipt" where
  "relay_receipt record state hash = no_receipt\<lparr>jr_relayJobId := Some (sj_jobId record), jr_relayState := Some state,
     jr_relayExtrinsicHash := hash\<rparr>"

definition markRelaySubmitted :: "'tx swap_env \<Rightarrow> 'tx job_record \<Rightarrow> string \<Rightarrow> ('tx, unit) exec" where
  "markRelaySubmitted env record txId =
     (case canonicalRelayExtrinsicHash (JStr txId) of
        None \<Rightarrow> throwE (Failed ''relay txId is not canonical'')
      | Some canonical \<Rightarrow>
          thenE (j_receipt env (sj_operationKey record) (relay_receipt record ''done'' (Some canonical)))
            (bindE (job_group (sj_jobId record) (sj_generation record)) (\<lambda>rows.
               forE (\<lambda>initial. bindE (j_require (jo_operationKey initial)) (relay_submitted_row env)) (terminalOrder rows))))"

definition markRelayFailed :: "'tx swap_env \<Rightarrow> 'tx job_record \<Rightarrow> ('tx, unit) exec" where
  "markRelayFailed env record =
     thenE (j_receipt env (sj_operationKey record) (relay_receipt record ''error'' None)) (returnE ())"

definition settle_row :: "'tx swap_env \<Rightarrow> journal_operation \<Rightarrow> ('tx, unit) exec" where
  "settle_row env row =
     (let key = jo_operationKey row in
      case jo_lifecycleState row of
        AWAITING_RELAY \<Rightarrow> thenE (move env key AWAITING_RELAY RELAY_SUBMITTED) (move env key RELAY_SUBMITTED SETTLED)
      | RELAY_SUBMITTED \<Rightarrow> move env key RELAY_SUBMITTED SETTLED
      | CONFIRMING \<Rightarrow> move env key CONFIRMING SETTLED
      | QUARANTINED \<Rightarrow> move env key QUARANTINED SETTLED
      | state \<Rightarrow> if state_terminal state then returnE () else throwE (Failed ''cannot settle''))"

definition markSettled :: "'tx swap_env \<Rightarrow> string \<Rightarrow> int \<Rightarrow> string \<Rightarrow> (string \<times> int) option \<Rightarrow> ('tx, unit) exec" where
  "markSettled env jobId generation key evidence =
     thenE (case evidence of None \<Rightarrow> returnE ()
            | Some (hash, height) \<Rightarrow> thenE (j_receipt env key (no_receipt\<lparr>jr_ledgerTxHash := Some hash, jr_ledgerHeight := Some height\<rparr>)) (returnE ()))
       (thenE (bindE (job_group jobId generation) (\<lambda>rows.
                 forE (\<lambda>initial. bindE (j_require (jo_operationKey initial)) (settle_row env)) (terminalOrder rows)))
          (j_spendDust env key))"

section \<open>Guards and bookkeeping\<close>

definition unavailableOfferHashes :: "'tx executor \<Rightarrow> string list" where
  "unavailableOfferHashes s = sort (js_uniq (concat (map (\<lambda>(k, r). sj_offerHashes r)
     (ex_building s @ ex_awaiting s @ ex_confirmations s @ ex_quarantined s))))"

text \<open>Every failure of the journal's budget reads as an exhausted one; a block clears when usage falls.\<close>

definition dustAvailable :: "'tx swap_env \<Rightarrow> ('tx, bool) exec" where
  "dustAvailable env = (case se_dustAdmission env of
     None \<Rightarrow> returnE True
   | Some d \<Rightarrow> catchE
       (bindE (draw (se_now env)) (\<lambda>now.
        bindE (readJ (dustUsage (da_windowMs d) now)) (\<lambda>usage.
        bindE (getE ex_dustBlockedUsage) (\<lambda>blocked. case blocked of
            None \<Rightarrow> returnE (usage < da_maxPerWindow d)
          | Some b \<Rightarrow> if usage < b
              then thenE (modifyE (\<lambda>s. s\<lparr>ex_dustBlockedUsage := None\<rparr>)) (returnE (usage < da_maxPerWindow d))
              else returnE False))))
       (\<lambda>e. returnE False))"

definition isSeen :: "'tx executor \<Rightarrow> string \<Rightarrow> bool" where
  "isSeen s jobId \<longleftrightarrow> map_of (ex_building s) jobId \<noteq> None \<or> map_of (ex_awaiting s) jobId \<noteq> None
     \<or> map_of (ex_confirmations s) jobId \<noteq> None \<or> map_of (ex_quarantined s) jobId \<noteq> None
     \<or> map_of (ex_tombstones s) jobId \<noteq> None"

definition owns :: "'tx job_record \<Rightarrow> ('tx, bool) exec" where
  "owns record = bindE (j_get (sj_operationKey record)) (\<lambda>row. returnE (case row of None \<Rightarrow> False
     | Some r \<Rightarrow> jo_generation r = sj_generation record \<and> \<not> state_terminal (jo_lifecycleState r)))"

definition sameGeneration :: "'tx job_record \<Rightarrow> ('tx, bool) exec" where
  "sameGeneration record = bindE (j_get (sj_operationKey record)) (\<lambda>row. returnE (case row of None \<Rightarrow> False
     | Some r \<Rightarrow> jo_generation r = sj_generation record))"

definition retention :: "'tx job_record \<Rightarrow> ('tx, int) exec" where
  "retention record = bindE (j_get (sj_operationKey record)) (\<lambda>row.
     returnE (case row of None \<Rightarrow> sj_ttlExpiresAt record | Some r \<Rightarrow> jo_retentionUntilMs r))"

datatype response =
  Swap_tx string bytes
| Job_error string job_reason

definition terminalError :: "string \<Rightarrow> job_reason \<Rightarrow> ('tx, response) exec" where
  "terminalError jobId reason = thenE (modifyE (\<lambda>s. s\<lparr>ex_refused := Suc (ex_refused s)\<rparr>)) (returnE (Job_error jobId reason))"

definition release_claim :: "claim \<Rightarrow> ('tx, unit) exec" where
  "release_claim c = modifyE (\<lambda>s. s\<lparr>ex_stock := release c (ex_stock s)\<rparr>)"

definition drop_building :: "string \<Rightarrow> ('tx, unit) exec" where
  "drop_building jobId = modifyE (\<lambda>s. s\<lparr>ex_building := AList.delete jobId (ex_building s)\<rparr>)"

definition drop_awaiting :: "string \<Rightarrow> ('tx, unit) exec" where
  "drop_awaiting jobId = modifyE (\<lambda>s. s\<lparr>ex_awaiting := AList.delete jobId (ex_awaiting s)\<rparr>)"

definition drop_confirmation :: "string \<Rightarrow> ('tx, unit) exec" where
  "drop_confirmation jobId = modifyE (\<lambda>s. s\<lparr>ex_confirmations := AList.delete jobId (ex_confirmations s)\<rparr>)"

definition drop_quarantined :: "string \<Rightarrow> ('tx, unit) exec" where
  "drop_quarantined jobId = modifyE (\<lambda>s. s\<lparr>ex_quarantined := AList.delete jobId (ex_quarantined s)\<rparr>)"

definition set_building :: "'tx job_record \<Rightarrow> ('tx, unit) exec" where
  "set_building r = modifyE (\<lambda>s. s\<lparr>ex_building := AList.update (sj_jobId r) r (ex_building s)\<rparr>)"

definition set_awaiting :: "'tx job_record \<Rightarrow> ('tx, unit) exec" where
  "set_awaiting r = modifyE (\<lambda>s. s\<lparr>ex_awaiting := AList.update (sj_jobId r) r (ex_awaiting s)\<rparr>)"

definition set_confirmation :: "'tx job_record \<Rightarrow> ('tx, unit) exec" where
  "set_confirmation r = modifyE (\<lambda>s. s\<lparr>ex_confirmations := AList.update (sj_jobId r) r (ex_confirmations s)\<rparr>)"

definition set_quarantined :: "'tx job_record \<Rightarrow> ('tx, unit) exec" where
  "set_quarantined r = modifyE (\<lambda>s. s\<lparr>ex_quarantined := AList.update (sj_jobId r) r (ex_quarantined s)\<rparr>)"

definition entomb :: "string \<Rightarrow> int \<Rightarrow> ('tx, unit) exec" where
  "entomb jobId until = modifyE (\<lambda>s. s\<lparr>ex_tombstones := AList.update jobId until (ex_tombstones s)\<rparr>)"

definition count :: "('tx executor \<Rightarrow> 'tx executor) \<Rightarrow> ('tx, unit) exec" where
  "count f = modifyE f"

section \<open>Wallet calls\<close>

text \<open>
  Every wallet call is logged with the state its journal row has at that moment. While the call is
  awaited the deadline of a running build may fire: its rows are quarantined, once.
\<close>

definition row_state :: "journal \<Rightarrow> string \<Rightarrow> lifecycle_state option" where
  "row_state j key = map_option jo_lifecycleState (find_operation j key)"

definition log_call :: "wallet_call \<Rightarrow> string \<Rightarrow> ('tx, unit) exec" where
  "log_call call key = modifyE (\<lambda>s. s\<lparr>ex_calls := ex_calls s @ [(call, key, row_state (ex_journal s) key)]\<rparr>)"

definition modify_build :: "('tx build \<Rightarrow> 'tx build) \<Rightarrow> ('tx, unit) exec" where
  "modify_build f = modifyE (\<lambda>s. s\<lparr>ex_build := map_option f (ex_build s)\<rparr>)"

definition fire_deadline :: "'tx swap_env \<Rightarrow> ('tx, unit) exec" where
  "fire_deadline env =
     bindE (draw (se_deadlineFires env)) (\<lambda>fires.
     bindE (getE ex_build) (\<lambda>build. case build of
        None \<Rightarrow> returnE ()
      | Some b \<Rightarrow>
          if \<not> fires \<or> bd_deadline b \<noteq> Not_fired then returnE ()
          else thenE (count (\<lambda>s. s\<lparr>ex_timedOutBuilds := Suc (ex_timedOutBuilds s)\<rparr>))
            (bindE (attemptE (quarantineGroup env (bd_jobId b) (bd_generation b) ''WALLET_TIMEOUT_LATE_PENDING'' ''wallet build exceeded''))
              (\<lambda>r. modify_build (\<lambda>b. b\<lparr>bd_deadline := (case r of Inl e \<Rightarrow> Fired_unrecorded (exn_message e) | Inr _ \<Rightarrow> Fired)\<rparr>)))))"

definition wallet_transaction :: "'tx swap_env \<Rightarrow> wallet_call \<Rightarrow> string \<Rightarrow> ('tx, 'tx) exec" where
  "wallet_transaction env call key =
     thenE (log_call call key) (bindE (draw (se_wallet env)) (\<lambda>answer. thenE (fire_deadline env) (liftResult answer)))"

definition wallet_revert :: "'tx swap_env \<Rightarrow> wallet_call \<Rightarrow> string \<Rightarrow> ('tx, unit) exec" where
  "wallet_revert env call key =
     thenE (log_call call key) (bindE (draw (se_walletRevert env)) (\<lambda>answer. thenE (fire_deadline env) (liftResult answer)))"

definition prepared_input :: "'tx swap_env \<Rightarrow> 'tx job_record \<Rightarrow> string \<Rightarrow> operation_kind \<Rightarrow> int
    \<Rightarrow> (artifact_kind \<times> bytes) option \<Rightarrow> prepared_operation" where
  "prepared_input env record key kind now artifact = \<lparr>jo_operationKey = key, jo_jobId = sj_jobId record,
     jo_generation = sj_generation record, jo_offerHashes = sort (sj_offerHashes record),
     jo_claim = claimToJournal (sj_claim record), jo_operationKind = kind, jo_ttlExpiresAtMs = sj_ttlExpiresAt record,
     jo_deadlineAtMs = min (sj_ttlExpiresAt record) (now + se_walletOperationTimeoutMs env),
     jo_artifactKind = map_option fst artifact, jo_artifactBytes = map_option snd artifact, jo_receipt = None\<rparr>"

definition prepare_row :: "'tx swap_env \<Rightarrow> 'tx job_record \<Rightarrow> string \<Rightarrow> operation_kind
    \<Rightarrow> (artifact_kind \<times> bytes) option \<Rightarrow> ('tx, journal_operation) exec" where
  "prepare_row env record key kind artifact =
     bindE (draw (se_now env)) (\<lambda>now. j_create env (prepared_input env record key kind now artifact))"

definition prepareMutation :: "'tx swap_env \<Rightarrow> 'tx job_record \<Rightarrow> operation_kind \<Rightarrow> string \<Rightarrow> ('tx, string) exec" where
  "prepareMutation env record kind label =
     (let key = operationKey (sj_jobId record) (sj_generation record) kind label in
      thenE (prepare_row env record key kind None) (returnE key))"

definition applyArtifact :: "'tx swap_env \<Rightarrow> string \<Rightarrow> artifact_kind \<Rightarrow> bytes \<Rightarrow> ('tx, unit) exec" where
  "applyArtifact env key kind bytes =
     thenE (j_transition env key PREPARED APPLIED (no_patch\<lparr>tp_artifactKind := Some kind, tp_artifactBytes := Some bytes\<rparr>)) (returnE ())"

definition markOperationReverted :: "'tx swap_env \<Rightarrow> string \<Rightarrow> ('tx, unit) exec" where
  "markOperationReverted env key =
     bindE (j_require key) (\<lambda>row.
       whenE (jo_lifecycleState row \<noteq> REVERTED) (revert_row env key (jo_lifecycleState row)))"

end
