(* ===== verification/Swap_Build.thy ===== *)
theory Swap_Build
  imports Swap_State
begin

text \<open>
  Model of \<^verbatim>\<open>buildHalf\<close> in \<^verbatim>\<open>packages/solver/src/swap-job-executor.ts\<close>: the solver's half of a job, from
  the maker transactions to the transaction handed to the relay, every wallet call prepared durably
  first, and the cleanup that reverts what a failed build had already created.
\<close>

section \<open>The build's own bookkeeping\<close>

definition build_of :: "('tx build \<Rightarrow> 'a) \<Rightarrow> 'a \<Rightarrow> ('tx, 'a) exec" where
  "build_of f absent = getE (\<lambda>s. case ex_build s of None \<Rightarrow> absent | Some b \<Rightarrow> f b)"

definition push_pending :: "string \<Rightarrow> 'tx \<Rightarrow> ('tx, unit) exec" where
  "push_pending key tx = modify_build (\<lambda>b. b\<lparr>bd_pending := bd_pending b @ [(key, tx)]\<rparr>)"

definition push_wallet :: "'tx \<Rightarrow> ('tx, unit) exec" where
  "push_wallet tx = modify_build (\<lambda>b. b\<lparr>bd_walletTransactions := bd_walletTransactions b @ [tx]\<rparr>)"

fun remove_first :: "string \<Rightarrow> (string \<times> 'tx) list \<Rightarrow> (string \<times> 'tx) list" where
  "remove_first key [] = []"
| "remove_first key (e # es) = (if fst e = key then es else e # remove_first key es)"

text \<open>Exactly one form of a mutation is owned for cleanup: the finalized one replaces the raw one.\<close>

definition transferPendingToFinalized :: "string \<Rightarrow> string \<Rightarrow> 'tx \<Rightarrow> ('tx, unit) exec" where
  "transferPendingToFinalized sourceKey key tx =
     bindE (build_of bd_pending []) (\<lambda>pending.
       if sourceKey \<notin> fst ` set pending then throwE (Refused JOB_WALLET_FAILED)
       else modify_build (\<lambda>b. b\<lparr>bd_finalized := bd_finalized b @ [(key, sourceKey, tx)],
                               bd_pending := remove_first sourceKey (bd_pending b)\<rparr>))"

definition check_current :: "'tx swap_env \<Rightarrow> resolved_route \<Rightarrow> ('tx, unit) exec" where
  "check_current env route =
     bindE (draw (se_cache env)) (\<lambda>cache. bindE (draw (se_now env)) (\<lambda>now.
       liftJob (assertRouteCurrent (ladder_cache.truncate cache) now (se_expiryMarginSeconds env) route)))"

definition check_net :: "'tx swap_env \<Rightarrow> 'tx \<Rightarrow> token_vector \<Rightarrow> ('tx, unit) exec" where
  "check_net env tx expected = liftJob (assertTransactionNet (se_sdk env) tx expected JOB_WALLET_FAILED)"

section \<open>The contributions\<close>

text \<open>One wallet mutation: prepared, called, its artifact made durable.\<close>

definition mutate :: "'tx swap_env \<Rightarrow> 'tx job_record \<Rightarrow> operation_kind \<Rightarrow> string \<Rightarrow> wallet_call
    \<Rightarrow> (string \<times> 'tx \<Rightarrow> ('tx, 'a) exec) \<Rightarrow> ('tx, 'a) exec" where
  "mutate env record kind label call continue =
     bindE (prepareMutation env record kind label) (\<lambda>key.
     bindE (wallet_transaction env call key) (\<lambda>tx.
     bindE (liftResult (if kind = FINALIZED_CONTRIBUTION then se_serializeFinalized env tx else se_serializeUnproven env tx)) (\<lambda>bytes.
     thenE (applyArtifact env key (if kind = FINALIZED_CONTRIBUTION then FINALIZED_TRANSACTION else UNPROVEN_TRANSACTION) bytes)
       (continue (key, tx)))))"

definition build_residual :: "'tx swap_env \<Rightarrow> resolved_route \<Rightarrow> 'tx job_record \<Rightarrow> ('tx, unit) exec" where
  "build_residual env route record =
     (let expected = receiptHalfNetMap (rt_receipts route) in
      whenE (rt_receipts route \<noteq> [])
        (mutate env record RESIDUAL_BUILD ''residual'' Call_initSwap (\<lambda>(residualKey, residual).
           thenE (push_pending residualKey residual)
          (thenE (check_current env route)
          (thenE (check_net env residual expected)
          (mutate env record FINALIZED_CONTRIBUTION ''residual'' Call_finalize (\<lambda>(finalizedKey, residualFinal).
             thenE (transferPendingToFinalized residualKey finalizedKey residualFinal)
            (thenE (check_current env route)
            (thenE (check_net env residualFinal expected)
            (push_wallet residualFinal))))))))))"

text \<open>The makers merged in the route's order, each prefix inspected.\<close>

fun merge_makers :: "'tx swap_env \<Rightarrow> (string \<times> book_offer) list \<Rightarrow> string list \<Rightarrow> 'tx list \<Rightarrow> book_offer list
    \<Rightarrow> 'tx option \<Rightarrow> ('tx, 'tx option) exec" where
  "merge_makers env byHash [] txs earlier base = returnE base"
| "merge_makers env byHash (hash # order) txs earlier base =
     (case (map_of byHash hash, txs) of
        (Some source, tx # rest) \<Rightarrow>
          bindE (case base of None \<Rightarrow> returnE tx | Some b \<Rightarrow> liftResult (ld_merge (se_sdk env) [b, tx])) (\<lambda>merged.
          bindE (liftResult (accountWholeOfferBalances (map maker_source (earlier @ [source])))) (\<lambda>rows.
          thenE (check_net env merged (balanceNetMap rows))
            (merge_makers env byHash order rest (earlier @ [source]) (Some merged))))
      | _ \<Rightarrow> throwE (Refused JOB_EXACT_FILE_MISMATCH))"

fun merge_all :: "'tx swap_env \<Rightarrow> 'tx \<Rightarrow> 'tx list \<Rightarrow> ('tx, 'tx) exec" where
  "merge_all env base [] = returnE base"
| "merge_all env base (tx # txs) = bindE (liftResult (ld_merge (se_sdk env) [base, tx])) (\<lambda>merged. merge_all env merged txs)"

definition without_receipt :: "whole_offer_receipt \<Rightarrow> token_vector \<Rightarrow> token_vector" where
  "without_receipt r m = (let n = amount_in m (rc_token r) - rc_amount r in
     if n = 0 then AList.delete (rc_token r) m else AList.update (rc_token r) n m)"

definition expected_base :: "resolved_route \<Rightarrow> token_vector" where
  "expected_base route = fold without_receipt (rt_receipts route) (balanceNetMap (rt_tokenBalances route))"

definition build_base :: "'tx swap_env \<Rightarrow> resolved_route \<Rightarrow> 'tx list \<Rightarrow> ('tx, 'tx) exec" where
  "build_base env route offerTransactions =
     bindE (merge_makers env (map (\<lambda>v. (so_offerHash v, v)) (rev (rt_offers route))) (rt_mergeOrder route)
              offerTransactions [] None) (\<lambda>base. case base of
        None \<Rightarrow> throwE (Refused JOB_ROUTE_NOT_CURRENT)
      | Some makers \<Rightarrow>
          bindE (build_of bd_walletTransactions []) (\<lambda>wallet.
          bindE (merge_all env makers wallet) (\<lambda>merged.
          thenE (check_net env merged (expected_base route)) (returnE merged))))"

definition admit_dust :: "'tx swap_env \<Rightarrow> 'tx job_record \<Rightarrow> 'tx \<Rightarrow> ('tx, unit) exec" where
  "admit_dust env record tx = (case se_dustAdmission env of
     None \<Rightarrow> returnE ()
   | Some d \<Rightarrow>
       bindE (liftJob (estimateDustAmount (se_sdk env) tx)) (\<lambda>amount.
       bindE (draw (se_now env)) (\<lambda>now.
       bindE (writeJ (reserveDust (se_journal env) (se_fileSize env)
                \<lparr>dq_operationKey = sj_operationKey record, dq_jobId = sj_jobId record, dq_generation = sj_generation record,
                 dq_amount = amount, dq_maxPerJob = da_maxPerJob d, dq_maxPerWindow = da_maxPerWindow d,
                 dq_windowMs = da_windowMs d\<rparr> now)) (\<lambda>reserved. case reserved of
           Dust_accepted _ _ \<Rightarrow> returnE ()
         | Dust_refused_window usage \<Rightarrow>
             thenE (modifyE (\<lambda>s. s\<lparr>ex_dustBlockedUsage := Some usage\<rparr>)) (throwE (Refused JOB_DUST_WINDOW))
         | Dust_refused_per_job _ \<Rightarrow> throwE (Refused JOB_DUST_PER_JOB)))))"

definition build_dust :: "'tx swap_env \<Rightarrow> swap_message \<Rightarrow> resolved_route \<Rightarrow> 'tx job_record \<Rightarrow> 'tx \<Rightarrow> ('tx, 'tx \<times> 'tx) exec" where
  "build_dust env job route record base =
     mutate env record DUST_BALANCE ''fees'' Call_balance (\<lambda>(dustKey, dustTransaction).
       thenE (push_pending dustKey dustTransaction)
      (thenE (check_current env route)
      (thenE (admit_dust env record dustTransaction)
      (mutate env record FINALIZED_CONTRIBUTION ''dust'' Call_finalize (\<lambda>(finalizedKey, finalizedDust).
         thenE (transferPendingToFinalized dustKey finalizedKey finalizedDust)
        (thenE (check_current env route)
        (thenE (push_wallet finalizedDust)
        (bindE (build_of bd_walletTransactions []) (\<lambda>wallet.
         bindE (liftResult (ld_merge (se_sdk env) wallet)) (\<lambda>walletTransaction.
         bindE (liftResult (ld_merge (se_sdk env) [base, finalizedDust])) (\<lambda>relayTransaction.
         thenE (liftJob (assertInverseHalf (se_sdk env) job relayTransaction))
        (thenE (check_current env route)
        (returnE (relayTransaction, walletTransaction))))))))))))))"

definition build_steps :: "'tx swap_env \<Rightarrow> swap_message \<Rightarrow> resolved_route \<Rightarrow> 'tx list \<Rightarrow> 'tx job_record
    \<Rightarrow> ('tx, 'tx \<times> 'tx) exec" where
  "build_steps env job route offerTransactions record =
     thenE (check_current env route)
    (thenE (bindE (draw (se_standIn env)) liftResult)
    (thenE (build_residual env route record)
    (bindE (build_base env route offerTransactions) (\<lambda>base. build_dust env job route record base))))"

section \<open>Cleanup\<close>

definition note_failed_revert :: "'tx swap_env \<Rightarrow> string \<Rightarrow> 'tx exn \<Rightarrow> ('tx, unit) exec" where
  "note_failed_revert env key e =
     quietE (bindE (j_require key) (\<lambda>row. quarantineRow env row ''LOCAL_REVERT_FAILED'' (exn_message e)))"

definition revert_contribution :: "'tx swap_env \<Rightarrow> wallet_call \<Rightarrow> string \<Rightarrow> ('tx, unit) exec" where
  "revert_contribution env call key =
     thenE (move env key APPLIED REVERTING) (thenE (wallet_revert env call key) (move env key REVERTING REVERTED))"

text \<open>What could not be reverted, with the error.\<close>

definition clean_finalized :: "'tx swap_env \<Rightarrow> string \<times> string \<times> 'tx \<Rightarrow> ('tx, ('tx \<times> string) option) exec" where
  "clean_finalized env contribution = (case contribution of (key, sourceKey, tx) \<Rightarrow>
     catchE (thenE (revert_contribution env Call_revert key) (thenE (markOperationReverted env sourceKey) (returnE None)))
       (\<lambda>e. thenE (note_failed_revert env key e) (returnE (Some (tx, exn_message e)))))"

definition clean_pending :: "'tx swap_env \<Rightarrow> string \<times> 'tx \<Rightarrow> ('tx, ('tx \<times> string) option) exec" where
  "clean_pending env pending = (case pending of (key, tx) \<Rightarrow>
     catchE (thenE (revert_contribution env Call_revertRaw key) (returnE None))
       (\<lambda>e. thenE (note_failed_revert env key e) (returnE (Some (tx, exn_message e)))))"

definition build_open :: "journal_operation \<Rightarrow> bool" where
  "build_open row \<longleftrightarrow> jo_operationKind row \<noteq> JOB_SETTLEMENT \<and> \<not> state_terminal (jo_lifecycleState row)"

definition combined_message :: "'tx exn \<Rightarrow> ('tx \<times> string) list \<Rightarrow> string" where
  "combined_message e failed = (let first = exn_message e; rest = (case failed of [] \<Rightarrow> [] | f # _ \<Rightarrow> ''cleanup failed: '' @ snd f)
     in first @ (if first \<noteq> [] \<and> rest \<noteq> [] then ''; '' else []) @ rest)"

definition close_clean_build :: "'tx swap_env \<Rightarrow> 'tx job_record \<Rightarrow> 'tx exn \<Rightarrow> ('tx, unit) exec" where
  "close_clean_build env record e =
     thenE (j_releaseDust env (sj_operationKey record))
       (bindE (j_require (sj_operationKey record)) (\<lambda>row.
          if jo_lifecycleState row = QUARANTINED then markReverted env (sj_jobId record) (sj_generation record)
          else markFailed env (sj_jobId record) (sj_generation record) (exn_message e)))"

definition clean_build :: "'tx swap_env \<Rightarrow> 'tx job_record \<Rightarrow> 'tx exn \<Rightarrow> ('tx, 'a) exec" where
  "clean_build env record e =
     bindE (build_of bd_finalized []) (\<lambda>finalized.
     bindE (mapE (clean_finalized env) finalized) (\<lambda>r1.
     bindE (build_of bd_pending []) (\<lambda>pending.
     bindE (mapE (clean_pending env) pending) (\<lambda>r2.
     let failed1 = List.map_filter id r1; failed2 = List.map_filter id r2 in
     bindE (if failed1 = [] then returnE None
            else bindE (liftResult (ld_merge (se_sdk env) (map fst failed1))) (\<lambda>tx. returnE (Some tx))) (\<lambda>failedWallet.
     bindE (job_group (sj_jobId record) (sj_generation record)) (\<lambda>rows.
       if filter build_open rows = []
       then thenE (close_clean_build env record e)
              (throwE (case e of Refused r \<Rightarrow> Refused r | _ \<Rightarrow> Refused JOB_WALLET_FAILED))
       else thenE (quarantineGroup env (sj_jobId record) (sj_generation record) ''LOCAL_MUTATION_UNCERTAIN''
                     (combined_message e (failed1 @ failed2)))
              (throwE (Uncertain (map fst failed2) failedWallet (sj_ttlExpiresAt record)))))))))"

definition buildHalf :: "'tx swap_env \<Rightarrow> swap_message \<Rightarrow> resolved_route \<Rightarrow> 'tx list \<Rightarrow> 'tx job_record
    \<Rightarrow> ('tx, 'tx \<times> 'tx) exec" where
  "buildHalf env job route offerTransactions record =
     bindE (draw (se_address env)) (\<lambda>address.
     thenE (fire_deadline env)
    (thenE (liftResult address)
    (thenE (check_current env route)
    (catchE (build_steps env job route offerTransactions record) (clean_build env record)))))"

end
