(* ===== verification/Swap_Executor.thy ===== *)
theory Swap_Executor
  imports Swap_Build
begin

text \<open>
  Model of the handlers of \<^verbatim>\<open>packages/solver/src/swap-job-executor.ts\<close>: a job from admission to the
  relay, the reverts and their recovery from durable artifacts, the settlement on ledger evidence, the
  sweep, startup and stop. Handlers run one after the other; within one, the build's deadline may fire at
  any awaited wallet call, and its late continuation runs at the end.
\<close>

section \<open>Reverting a finalized contribution\<close>

text \<open>The journal's authority to revert: a fresh row, or the quarantined one taken up again.\<close>

definition authorize_revert :: "'tx swap_env \<Rightarrow> 'tx job_record \<Rightarrow> 'tx \<Rightarrow> string \<Rightarrow> ('tx, unit) exec" where
  "authorize_revert env record tx key =
     bindE (j_get key) (\<lambda>existing. case existing of
        None \<Rightarrow>
          bindE (draw (se_now env)) (\<lambda>now.
          bindE (liftResult (se_serializeFinalized env tx)) (\<lambda>bytes.
          thenE (j_create env (prepared_input env record key JOB_REVERT now (Some (FINALIZED_TRANSACTION, bytes))))
            (move env key PREPARED REVERTING)))
      | Some row \<Rightarrow>
          if jo_lifecycleState row = QUARANTINED
          then thenE (j_transition env key QUARANTINED REVERTING (no_patch\<lparr>tp_retryCount := Some (jo_retryCount row + 1)\<rparr>)) (returnE ())
          else if jo_lifecycleState row \<noteq> REVERTING then throwE (Failed ''unexpected durable revert state'')
          else returnE ())"

definition wallet_revert_key :: "'tx job_record \<Rightarrow> string" where
  "wallet_revert_key record = operationKey (sj_jobId record) (sj_generation record) JOB_REVERT ''wallet''"

definition finish_reverted :: "'tx swap_env \<Rightarrow> 'tx job_record \<Rightarrow> ('tx, unit) exec" where
  "finish_reverted env record =
     bindE (retention record) (\<lambda>until.
     thenE (entomb (sj_jobId record) until)
    (thenE (release_claim (sj_claim record))
       (count (\<lambda>s. s\<lparr>ex_reverted := Suc (ex_reverted s)\<rparr>))))"

text \<open>
  A failed revert keeps the record quarantined. The copy is taken while the record is marked as
  reverting, and keeps that mark.
\<close>

definition retain_failed_revert :: "'tx swap_env \<Rightarrow> 'tx job_record \<Rightarrow> 'tx exn \<Rightarrow> ('tx, bool) exec" where
  "retain_failed_revert env record e =
     thenE (quietE (quarantineGroup env (sj_jobId record) (sj_generation record) ''LOCAL_REVERT_FAILED'' (exn_message e)))
    (thenE (drop_awaiting (sj_jobId record))
    (thenE (set_quarantined (record\<lparr>sj_reverting := True, sj_locallyRevertible := Some True, sj_evidenceReconcile := False\<rparr>))
    (thenE (count (\<lambda>s. s\<lparr>ex_revertFailures := Suc (ex_revertFailures s)\<rparr>))
       (returnE False))))"

definition revertWallet :: "'tx swap_env \<Rightarrow> 'tx job_record \<Rightarrow> 'tx \<Rightarrow> ('tx, bool) exec" where
  "revertWallet env record tx =
     (if sj_reverting record then returnE False
      else bindE (owns record) (\<lambda>mine.
        if \<not> mine then returnE False
        else let key = wallet_revert_key record in
          catchE
            (thenE (authorize_revert env record tx key)
            (thenE (wallet_revert env Call_revert key)
            (thenE (move env key REVERTING REVERTED)
            (thenE (markReverted env (sj_jobId record) (sj_generation record))
            (thenE (drop_awaiting (sj_jobId record))
            (thenE (drop_quarantined (sj_jobId record))
            (thenE (finish_reverted env record) (returnE True))))))))
            (retain_failed_revert env record)))"

section \<open>Recovery from durable artifacts\<close>

record 'tx recovery_target =
  rv_operationKey :: string
  rv_sourceOperationKeys :: "string list"
  rv_expectedSourceState :: lifecycle_state
  rv_artifactKind :: artifact_kind
  rv_artifactBytes :: bytes
  rv_transaction :: 'tx

record 'tx recovery =
  rc_targets :: "'tx recovery_target list"
  rc_artifactlessMutation :: bool
  rc_ambiguity :: "string option"

definition ends_with :: "string \<Rightarrow> string \<Rightarrow> bool" where
  "ends_with s tail \<longleftrightarrow> drop (length s - length tail) s = tail \<and> length tail \<le> length s"

definition the_bytes :: "journal_operation \<Rightarrow> bytes" where
  "the_bytes row = (case jo_artifactBytes row of None \<Rightarrow> [] | Some b \<Rightarrow> b)"

text \<open>The raw artifacts still worth reverting: those with no finalized form, and legacy mirrors.\<close>

definition raw_selected :: "journal_operation list \<Rightarrow> journal_operation \<Rightarrow> bool" where
  "raw_selected finalizedRows row \<longleftrightarrow> jo_artifactKind row = Some UNPROVEN_TRANSACTION \<and> \<not> state_terminal (jo_lifecycleState row)
     \<and> (jo_operationKind row = MIRROR_RESERVATION
        \<or> (jo_operationKind row = RESIDUAL_BUILD \<and> \<not> list_ex (\<lambda>r. ends_with (jo_operationKey r) '':residual'') finalizedRows)
        \<or> (jo_operationKind row = DUST_BALANCE \<and> \<not> list_ex (\<lambda>r. ends_with (jo_operationKey r) '':dust'') finalizedRows))"

definition finalized_selected :: "journal_operation \<Rightarrow> bool" where
  "finalized_selected row \<longleftrightarrow> jo_operationKind row = FINALIZED_CONTRIBUTION
     \<and> jo_artifactKind row = Some FINALIZED_TRANSACTION \<and> \<not> state_terminal (jo_lifecycleState row)"

definition artifactless :: "journal_operation \<Rightarrow> bool" where
  "artifactless row \<longleftrightarrow> jo_operationKind row \<noteq> JOB_SETTLEMENT \<and> jo_lifecycleState row = PREPARED
     \<and> jo_artifactBytes row = None"

definition raw_target :: "'tx swap_env \<Rightarrow> string \<Rightarrow> int \<Rightarrow> journal_operation \<Rightarrow> 'tx recovery_target result" where
  "raw_target env jobId generation row =
     bindR (se_deserializeUnproven env (the_bytes row)) (\<lambda>tx. Inr
       \<lparr>rv_operationKey = recoveryRevertKey env jobId generation [jo_operationKey row] UNPROVEN_TRANSACTION (the_bytes row),
        rv_sourceOperationKeys = [jo_operationKey row], rv_expectedSourceState = APPLIED,
        rv_artifactKind = UNPROVEN_TRANSACTION, rv_artifactBytes = the_bytes row, rv_transaction = tx\<rparr>)"

definition finalized_target :: "'tx swap_env \<Rightarrow> string \<Rightarrow> int \<Rightarrow> bool \<Rightarrow> journal_operation list \<Rightarrow> 'tx
    \<Rightarrow> 'tx recovery_target result" where
  "finalized_target env jobId generation primary rows tx =
     bindR (se_serializeFinalized env tx) (\<lambda>bytes.
       let sources = sort (map jo_operationKey rows) in Inr
       \<lparr>rv_operationKey = recoveryRevertKey env jobId generation sources FINALIZED_TRANSACTION bytes,
        rv_sourceOperationKeys = sources, rv_expectedSourceState = (if primary then PREPARED else APPLIED),
        rv_artifactKind = FINALIZED_TRANSACTION, rv_artifactBytes = bytes, rv_transaction = tx\<rparr>)"

fun recovery_conflict :: "(string \<times> 'tx recovery_target) list \<Rightarrow> string \<Rightarrow> int \<Rightarrow> journal_operation list \<Rightarrow> string option" where
  "recovery_conflict byKey jobId generation [] = None"
| "recovery_conflict byKey jobId generation (row # rows) =
     (case map_of byKey (jo_operationKey row) of
        None \<Rightarrow> Some ''no longer binds the selected artifact set''
      | Some target \<Rightarrow>
          if jo_generation row \<noteq> generation \<or> jo_jobId row \<noteq> jobId
             \<or> jo_artifactKind row \<noteq> Some (rv_artifactKind target) \<or> jo_artifactBytes row \<noteq> Some (rv_artifactBytes target)
          then Some ''conflicts with its generation/artifact identity''
          else if jo_lifecycleState row \<noteq> PREPARED \<and> jo_lifecycleState row \<noteq> REVERTED
          then Some ''its wallet-call outcome is unprovable''
          else recovery_conflict byKey jobId generation rows)"

fun source_conflict :: "string list \<Rightarrow> lifecycle_state \<Rightarrow> ('tx, string option) exec" where
  "source_conflict [] expected = returnE None"
| "source_conflict (key # keys) expected = bindE (j_require key) (\<lambda>source.
     if jo_lifecycleState source \<noteq> expected then returnE (Some ''a prior revert call may have started'')
     else source_conflict keys expected)"

fun target_conflict :: "'tx recovery_target list \<Rightarrow> ('tx, string option) exec" where
  "target_conflict [] = returnE None"
| "target_conflict (target # targets) = bindE (j_get (rv_operationKey target)) (\<lambda>recovery.
     if (case recovery of None \<Rightarrow> False | Some r \<Rightarrow> jo_lifecycleState r = REVERTED) then target_conflict targets
     else bindE (source_conflict (rv_sourceOperationKeys target) (rv_expectedSourceState target)) (\<lambda>conflict.
       if conflict \<noteq> None then returnE conflict else target_conflict targets))"

definition primary_revert :: "journal_operation \<Rightarrow> bool" where
  "primary_revert row \<longleftrightarrow> jo_operationKind row = JOB_REVERT \<and> \<not> isRecoveryRevert row"

definition restore_targets :: "'tx swap_env \<Rightarrow> string \<Rightarrow> int \<Rightarrow> journal_operation list \<Rightarrow> journal_operation option
    \<Rightarrow> 'tx recovery_target list result" where
  "restore_targets env jobId generation rows primary =
     (let finalizedRows = (case primary of None \<Rightarrow> filter finalized_selected rows | Some r \<Rightarrow> [r]);
          rawRows = (case primary of None \<Rightarrow> filter (raw_selected finalizedRows) rows | Some _ \<Rightarrow> []) in
      bindR (mapR (\<lambda>r. se_deserializeFinalized env (the_bytes r)) finalizedRows) (\<lambda>txs.
      bindR (if txs = [] then Inr None else bindR (ld_merge (se_sdk env) txs) (\<lambda>tx. Inr (Some tx))) (\<lambda>walletTransaction.
      bindR (mapR (raw_target env jobId generation) rawRows) (\<lambda>rawTargets.
        case walletTransaction of
          None \<Rightarrow> Inr rawTargets
        | Some tx \<Rightarrow> bindR (finalized_target env jobId generation (primary \<noteq> None) finalizedRows tx)
                       (\<lambda>target. Inr (rawTargets @ [target]))))))"

definition restoreRecoveryTargets :: "'tx swap_env \<Rightarrow> string \<Rightarrow> int \<Rightarrow> ('tx, 'tx recovery) exec" where
  "restoreRecoveryTargets env jobId generation =
     bindE (job_group jobId generation) (\<lambda>rows.
       let recoveryRows = filter isRecoveryRevert rows;
           primaries = filter primary_revert rows;
           primary = (case primaries of [] \<Rightarrow> None | r # _ \<Rightarrow> Some r);
           artifactlessMutation = list_ex (\<lambda>r. artifactless r \<and> \<not> isRecoveryRevert r) rows
       in if length primaries > 1
          then returnE \<lparr>rc_targets = [], rc_artifactlessMutation = False,
                        rc_ambiguity = Some ''multiple primary JOB_REVERT authorities''\<rparr>
          else if (case primary of None \<Rightarrow> False
                   | Some r \<Rightarrow> jo_artifactKind r \<noteq> Some FINALIZED_TRANSACTION \<or> jo_artifactBytes r = None)
          then returnE \<lparr>rc_targets = [], rc_artifactlessMutation = artifactlessMutation,
                        rc_ambiguity = Some ''primary JOB_REVERT has no canonical finalized artifact''\<rparr>
          else bindE (liftResult (restore_targets env jobId generation rows primary)) (\<lambda>targets.
            case recovery_conflict (map (\<lambda>t. (rv_operationKey t, t)) (rev targets)) jobId generation recoveryRows of
              Some reason \<Rightarrow> returnE \<lparr>rc_targets = targets, rc_artifactlessMutation = artifactlessMutation, rc_ambiguity = Some reason\<rparr>
            | None \<Rightarrow> bindE (target_conflict targets) (\<lambda>conflict.
                returnE \<lparr>rc_targets = targets, rc_artifactlessMutation = artifactlessMutation, rc_ambiguity = conflict\<rparr>)))"

definition retainRecoveryAmbiguity :: "'tx swap_env \<Rightarrow> 'tx job_record \<Rightarrow> string \<Rightarrow> ('tx, bool) exec" where
  "retainRecoveryAmbiguity env record reason =
     thenE (quietE (quarantineGroup env (sj_jobId record) (sj_generation record) ''RECOVERY_REVERT_OUTCOME_UNKNOWN''
              (error_detail reason @ ''; wallet mutation will not be repeated'')))
    (thenE (set_quarantined (record\<lparr>sj_locallyRevertible := Some False, sj_evidenceReconcile := False\<rparr>))
    (thenE (count (\<lambda>s. s\<lparr>ex_revertFailures := Suc (ex_revertFailures s)\<rparr>)) (returnE False)))"

text \<open>One recovery: durable authority first, then the wallet, then its proof.\<close>

definition recover_target :: "'tx swap_env \<Rightarrow> 'tx job_record \<Rightarrow> 'tx recovery_target \<Rightarrow> ('tx, unit) exec" where
  "recover_target env record target =
     (let key = rv_operationKey target in
      bindE (j_get key) (\<lambda>recovery.
        if (case recovery of None \<Rightarrow> False | Some r \<Rightarrow> jo_lifecycleState r = REVERTED) then returnE ()
        else thenE (whenE (recovery = None)
               (thenE (prepare_row env record key JOB_REVERT (Some (rv_artifactKind target, rv_artifactBytes target))) (returnE ())))
            (thenE (move env key PREPARED REVERTING)
            (thenE (wallet_revert env (if rv_artifactKind target = UNPROVEN_TRANSACTION then Call_revertRaw else Call_revert) key)
                   (move env key REVERTING REVERTED)))))"

definition recover_all :: "'tx swap_env \<Rightarrow> 'tx job_record \<Rightarrow> ('tx, bool) exec" where
  "recover_all env record =
     bindE (restoreRecoveryTargets env (sj_jobId record) (sj_generation record)) (\<lambda>restored.
       case rc_ambiguity restored of
         Some reason \<Rightarrow> thenE (retainRecoveryAmbiguity env record reason) (returnE False)
       | None \<Rightarrow>
           if rc_artifactlessMutation restored \<or> rc_targets restored = []
           then thenE (retainRecoveryAmbiguity env record ''no artifact proves local recovery'') (returnE False)
           else thenE (forE (recover_target env record) (rc_targets restored)) (returnE True))"

definition retryQuarantine :: "'tx swap_env \<Rightarrow> 'tx job_record \<Rightarrow> ('tx, bool) exec" where
  "retryQuarantine env record =
     (if sj_reverting record \<or> sj_locallyRevertible record \<noteq> Some True then returnE False
      else bindE (owns record) (\<lambda>mine.
        if \<not> mine then returnE False
        else catchE
          (bindE (job_group (sj_jobId record) (sj_generation record)) (\<lambda>rows.
           bindE (if list_ex (\<lambda>r. primary_revert r \<and> jo_lifecycleState r = REVERTED) rows then returnE True
                  else recover_all env record) (\<lambda>recovered.
             if \<not> recovered then returnE False
             else thenE (markReverted env (sj_jobId record) (sj_generation record))
                 (thenE (drop_quarantined (sj_jobId record))
                 (thenE (finish_reverted env record) (returnE True))))))
          (\<lambda>e. retainRecoveryAmbiguity env record (exn_message e))))"

section \<open>Executing a job\<close>

definition retainCleanupFailure :: "'tx job_record \<Rightarrow> 'tx exn \<Rightarrow> ('tx, bool) exec" where
  "retainCleanupFailure record e = (case e of
     Uncertain raw wallet ttl \<Rightarrow>
       thenE (set_quarantined (record\<lparr>sj_rawTransactions := raw, sj_walletTransaction := wallet, sj_ttlExpiresAt := ttl,
                sj_reverting := False, sj_relayAccepted := None,
                sj_locallyRevertible := Some (raw \<noteq> [] \<or> wallet \<noteq> None), sj_evidenceReconcile := False\<rparr>)) (returnE True)
   | _ \<Rightarrow> returnE False)"

definition group_open :: "'tx job_record \<Rightarrow> ('tx, bool) exec" where
  "group_open record = bindE (job_group (sj_jobId record) (sj_generation record)) (\<lambda>rows.
     returnE (list_ex (\<lambda>r. \<not> state_terminal (jo_lifecycleState r)) rows))"

definition quarantine_unproved :: "'tx job_record \<Rightarrow> ('tx, unit) exec" where
  "quarantine_unproved record = set_quarantined (record\<lparr>sj_walletTransaction := None, sj_rawTransactions := [], sj_reverting := False,
     sj_relayAccepted := None, sj_locallyRevertible := Some False, sj_evidenceReconcile := False\<rparr>)"

definition release_closed :: "'tx job_record \<Rightarrow> ('tx, unit) exec" where
  "release_closed record =
     thenE (release_claim (sj_claim record)) (bindE (retention record) (\<lambda>until. entomb (sj_jobId record) until))"

text \<open>What a failed build leaves: the claim is released only when every row of the job is terminal.\<close>

definition settle_failure :: "'tx swap_env \<Rightarrow> 'tx job_record \<Rightarrow> 'tx exn \<Rightarrow> ('tx, unit) exec" where
  "settle_failure env record e =
     thenE (drop_building (sj_jobId record))
    (bindE (retainCleanupFailure record e) (\<lambda>retained.
       whenE (\<not> retained)
         (thenE (catchE (bindE (group_open record) (\<lambda>open. whenE open
                     (markFailed env (sj_jobId record) (sj_generation record) (exn_message e))))
                  (\<lambda>je. thenE (quarantineGroup env (sj_jobId record) (sj_generation record) ''FAILURE_STATE_UNCERTAIN'' (exn_message je))
                              (quarantine_unproved record)))
           (bindE (group_open record) (\<lambda>open. whenE (\<not> open) (release_closed record))))))"

definition late_success :: "'tx swap_env \<Rightarrow> 'tx job_record \<Rightarrow> 'tx \<Rightarrow> ('tx, unit) exec" where
  "late_success env record walletTransaction =
     bindE (sameGeneration record) (\<lambda>same. whenE same
       (let late = record\<lparr>sj_walletTransaction := Some walletTransaction, sj_relayAccepted := Some False\<rparr> in
        thenE (set_awaiting late) (thenE (drop_building (sj_jobId record))
          (thenE (revertWallet env late walletTransaction) (returnE ())))))"

definition late_failure :: "'tx swap_env \<Rightarrow> 'tx job_record \<Rightarrow> 'tx exn \<Rightarrow> ('tx, unit) exec" where
  "late_failure env record e =
     bindE (sameGeneration record) (\<lambda>same. whenE same
       (thenE (drop_building (sj_jobId record))
       (bindE (retainCleanupFailure record e) (\<lambda>retained. whenE (\<not> retained)
          (bindE (group_open record) (\<lambda>open.
             if \<not> open then release_closed record
             else thenE (quarantineGroup env (sj_jobId record) (sj_generation record) ''LATE_COMPLETION_UNCERTAIN'' (exn_message e))
                        (quarantine_unproved record)))))))"

definition hand_over :: "'tx swap_env \<Rightarrow> 'tx job_record \<Rightarrow> 'tx \<times> 'tx \<Rightarrow> ('tx, response) exec" where
  "hand_over env record built =
     bindE (owns record) (\<lambda>mine.
       if \<not> mine then throwE (Refused JOB_WALLET_FAILED)
       else thenE (markAwaitingRelay env (sj_jobId record) (sj_generation record))
           (thenE (drop_building (sj_jobId record))
           (thenE (set_awaiting (record\<lparr>sj_walletTransaction := Some (snd built), sj_relayAccepted := Some True\<rparr>))
           (bindE (liftResult (se_serializeFinalized env (fst built))) (\<lambda>bytes.
              returnE (Swap_tx (sj_jobId record) bytes))))))"

definition fresh_build :: "'tx job_record \<Rightarrow> 'tx build" where
  "fresh_build record = \<lparr>bd_jobId = sj_jobId record, bd_generation = sj_generation record, bd_finalized = [], bd_pending = [],
     bd_walletTransactions = [], bd_deadline = Not_fired\<rparr>"

definition build_outcome :: "'tx swap_env \<Rightarrow> swap_message \<Rightarrow> resolved_route \<Rightarrow> 'tx job_record
    \<Rightarrow> ('tx, ('tx exn + 'tx \<times> 'tx) \<times> deadline) exec" where
  "build_outcome env job route record =
     thenE (modifyE (\<lambda>s. s\<lparr>ex_build := Some (fresh_build record)\<rparr>))
    (bindE (attemptE
       (bindE (draw (se_files env)) (\<lambda>response.
        bindE (liftJob (readAndReconstruct (se_sdk env) (se_parseDate env) route response)) (\<lambda>exactTransactions.
        thenE (check_current env route) (buildHalf env job route exactTransactions record))))) (\<lambda>result.
     bindE (build_of bd_deadline Not_fired) (\<lambda>deadline.
     thenE (modifyE (\<lambda>s. s\<lparr>ex_build := None\<rparr>)) (returnE (result, deadline)))))"

definition run_job :: "'tx swap_env \<Rightarrow> swap_message \<Rightarrow> resolved_route \<Rightarrow> 'tx job_record \<Rightarrow> ('tx, response) exec" where
  "run_job env job route record =
     bindE (build_outcome env job route record) (\<lambda>(result, deadline).
       case deadline of
         Not_fired \<Rightarrow>
           catchE (case result of Inl e \<Rightarrow> throwE e | Inr built \<Rightarrow> hand_over env record built)
             (\<lambda>e. thenE (settle_failure env record e) (terminalError (sj_jobId record) (exn_reason e)))
       | Fired \<Rightarrow>
           thenE (quietE (case result of Inl e \<Rightarrow> late_failure env record e | Inr built \<Rightarrow> late_success env record (snd built)))
             (terminalError (sj_jobId record) JOB_WALLET_TIMEOUT)
       | Fired_unrecorded message \<Rightarrow> terminalError (sj_jobId record) JOB_WALLET_FAILED)"

definition job_route_options :: "'tx swap_env \<Rightarrow> 'tx executor \<Rightarrow> int \<Rightarrow> int \<Rightarrow> route_options" where
  "job_route_options env s now fresh =
     (let policy = forwardAdmissionPolicy (se_policy env) in
      \<lparr>ap_supportedPairs = ap_supportedPairs policy, ap_minJobOutput = ap_minJobOutput policy,
       ro_nowMs = now, ro_expiryMarginSeconds = se_expiryMarginSeconds env,
       ro_unavailableOfferHashes = unavailableOfferHashes s, ro_resourceLimits = se_resourceLimits env,
       ro_freshNowMs = Some fresh, ro_shouldAbort = Some (\<lambda>polls. Continue), ro_abortAfter = Continue\<rparr>)"

text \<open>The route is resolved against the stock; \<open>swap_route_backed\<close> shows it always returns.\<close>

definition resolve_job :: "'tx swap_env \<Rightarrow> swap_message \<Rightarrow> ('tx, resolved_route) exec" where
  "resolve_job env job =
     bindE (draw (se_now env)) (\<lambda>now.
     bindE (draw (se_now env)) (\<lambda>fresh.
     bindE (draw (se_cache env)) (\<lambda>cache.
     bindE (getE (\<lambda>s. s)) (\<lambda>s.
       case the (resolveSwapJobRoute (se_comparisons env) job cache (ex_stock s) (job_route_options env s now fresh)) of
         (r, stock) \<Rightarrow> thenE (modifyE (\<lambda>s. s\<lparr>ex_stock := stock\<rparr>)) (liftJob r)))))"

definition next_generation :: "string \<Rightarrow> ('tx, int) exec" where
  "next_generation jobId = bindE (readJ list_operations) (\<lambda>rows.
     returnE (fold max (map jo_generation (filter (\<lambda>r. jo_jobId r = jobId) rows)) 0 + 1))"

definition job_record_of :: "swap_message \<Rightarrow> resolved_route \<Rightarrow> int \<Rightarrow> int \<Rightarrow> 'tx job_record" where
  "job_record_of job route generation ttl = \<lparr>sj_jobId = sw_jobId job, sj_claim = rt_claim route,
     sj_offerHashes = map so_offerHash (rt_offers route), sj_ttlExpiresAt = ttl, sj_generation = generation,
     sj_operationKey = jobKey (sw_jobId job) generation, sj_walletTransaction = None, sj_rawTransactions = [],
     sj_reverting = False, sj_relayAccepted = None, sj_locallyRevertible = None, sj_evidenceReconcile = False\<rparr>"

definition settlement_input :: "'tx swap_env \<Rightarrow> 'tx job_record \<Rightarrow> int \<Rightarrow> prepared_operation" where
  "settlement_input env record now =
     (prepared_input env record (sj_operationKey record) JOB_SETTLEMENT now None)
       \<lparr>jo_receipt := Some (no_receipt\<lparr>jr_relayJobId := Some (sj_jobId record)\<rparr>)\<rparr>"

definition settleTtlMs :: "'tx swap_env \<Rightarrow> int" where
  "settleTtlMs env = se_settleTtlMinutes env * 60000"

definition start_job :: "'tx swap_env \<Rightarrow> swap_message \<Rightarrow> resolved_route \<Rightarrow> ('tx, response) exec" where
  "start_job env job route =
     bindE (next_generation (sw_jobId job)) (\<lambda>generation.
     bindE (draw (se_now env)) (\<lambda>now.
     let record = job_record_of job route generation (now + settleTtlMs env) in
     bindE (attemptE (bindE (draw (se_now env)) (\<lambda>now. j_create env (settlement_input env record now)))) (\<lambda>created.
       case created of
         Inl e \<Rightarrow> thenE (release_claim (rt_claim route)) (terminalError (sw_jobId job) JOB_WALLET_FAILED)
       | Inr _ \<Rightarrow> thenE (set_building record) (run_job env job route record))))"

definition executeSwap :: "'tx swap_env \<Rightarrow> swap_message \<Rightarrow> ('tx, response) exec" where
  "executeSwap env job =
     bindE (getE (\<lambda>s. s)) (\<lambda>s.
       if ex_stopped s then terminalError (sw_jobId job) JOB_CACHE_NOT_CURRENT
       else if \<not> ex_reconciled s then terminalError (sw_jobId job) JOB_RECONCILING
       else if isSeen s (sw_jobId job) then terminalError (sw_jobId job) JOB_DUPLICATE
       else if int (length (ex_building s) + length (ex_quarantined s)) \<ge> se_maxParallelSwaps env
       then terminalError (sw_jobId job) JOB_AT_CAPACITY
       else bindE (attemptE (resolve_job env job)) (\<lambda>resolved. case resolved of
           Inl e \<Rightarrow>
             bindE (draw (se_now env)) (\<lambda>now.
             thenE (entomb (sw_jobId job) (now + settleTtlMs env))
               (terminalError (sw_jobId job) (case e of Refused r \<Rightarrow> r | _ \<Rightarrow> JOB_ROUTE_NOT_CURRENT)))
         | Inr route \<Rightarrow> start_job env job route))"

end
