(* ===== verification/Swap_Reconcile.thy ===== *)
theory Swap_Reconcile
  imports Swap_Executor
begin

text \<open>
  The other half of \<^verbatim>\<open>packages/solver/src/swap-job-executor.ts\<close>: what the relay and the ledger report about
  a job handed over, the sweep over the open jobs, the reconstruction of the open jobs from the journal at
  startup, and stop. The websocket wake-up \<open>notifyConsumed\<close> is the sweep.
\<close>

section \<open>Ledger evidence\<close>

datatype evidence_read =
  Uniform string int
| No_evidence
| Unknown_evidence string

fun read_evidence :: "'tx swap_env \<Rightarrow> string list \<Rightarrow> ('tx, string + consumption_response list) exec" where
  "read_evidence env [] = returnE (Inr [])"
| "read_evidence env (hash # hashes) =
     bindE (draw (\<lambda>n. se_evidence env n hash)) (\<lambda>answer. case answer of
         Inl e \<Rightarrow> returnE (Inl (''backend evidence unavailable: '' @ js_message e))
       | Inr r \<Rightarrow> bindE (read_evidence env hashes) (\<lambda>rest. case rest of
             Inl reason \<Rightarrow> returnE (Inl reason)
           | Inr results \<Rightarrow> returnE (Inr (r # results))))"

definition judge_evidence :: "consumption_response list \<Rightarrow> evidence_read" where
  "judge_evidence results = (let positive = List.map_filter cn_evidence results in
     if length positive = length results \<and> positive \<noteq> []
     then if list_all (\<lambda>e. e = hd positive) positive then Uniform (fst (hd positive)) (snd (hd positive))
          else Unknown_evidence ''maker offers bind to split ledger transactions or heights''
     else if positive \<noteq> [] \<or> list_ex (\<lambda>r. cn_status r = ''consumed'') results
     then Unknown_evidence ''maker consumption evidence is partial or markerless''
     else No_evidence)"

definition readUniformEvidence :: "'tx swap_env \<Rightarrow> 'tx job_record \<Rightarrow> ('tx, evidence_read) exec" where
  "readUniformEvidence env record = bindE (read_evidence env (sj_offerHashes record)) (\<lambda>r.
     returnE (case r of Inl reason \<Rightarrow> Unknown_evidence reason | Inr results \<Rightarrow> judge_evidence results))"

section \<open>Reconciling one job\<close>

definition activeReceiptRecord :: "'tx executor \<Rightarrow> string \<Rightarrow> 'tx job_record option" where
  "activeReceiptRecord s jobId = (case map_of (ex_awaiting s) jobId of Some r \<Rightarrow> Some r | None \<Rightarrow>
     (case map_of (ex_confirmations s) jobId of Some r \<Rightarrow> Some r | None \<Rightarrow> map_of (ex_quarantined s) jobId))"

definition evidence_record :: "'tx job_record \<Rightarrow> 'tx job_record option \<Rightarrow> 'tx job_record" where
  "evidence_record record prior = record\<lparr>
     sj_rawTransactions := (case prior of None \<Rightarrow> [] | Some p \<Rightarrow> sj_rawTransactions p),
     sj_walletTransaction := (case sj_walletTransaction record of Some tx \<Rightarrow> Some tx
        | None \<Rightarrow> (case prior of None \<Rightarrow> None | Some p \<Rightarrow> sj_walletTransaction p)),
     sj_reverting := False, sj_relayAccepted := None, sj_locallyRevertible := Some False, sj_evidenceReconcile := True\<rparr>"

definition quarantineEvidence :: "'tx swap_env \<Rightarrow> 'tx job_record \<Rightarrow> string \<Rightarrow> string \<Rightarrow> ('tx, unit) exec" where
  "quarantineEvidence env record code reason =
     thenE (quietE (quarantineGroup env (sj_jobId record) (sj_generation record) code reason))
    (thenE (drop_awaiting (sj_jobId record))
    (thenE (drop_confirmation (sj_jobId record))
    (bindE (getE (\<lambda>s. map_of (ex_quarantined s) (sj_jobId record))) (\<lambda>prior.
       set_quarantined (evidence_record record prior)))))"

definition finishSettled :: "'tx swap_env \<Rightarrow> 'tx job_record \<Rightarrow> string \<Rightarrow> int \<Rightarrow> ('tx, unit) exec" where
  "finishSettled env record hash height =
     thenE (markSettled env (sj_jobId record) (sj_generation record) (sj_operationKey record) (Some (hash, height)))
    (thenE (drop_awaiting (sj_jobId record))
    (thenE (drop_confirmation (sj_jobId record))
    (thenE (drop_quarantined (sj_jobId record))
    (bindE (retention record) (\<lambda>until.
     thenE (entomb (sj_jobId record) until)
    (thenE (release_claim (sj_claim record))
       (count (\<lambda>s. s\<lparr>ex_completed := Suc (ex_completed s)\<rparr>))))))))"

definition confirmation_of :: "'tx job_record \<Rightarrow> 'tx job_record" where
  "confirmation_of record = record\<lparr>sj_walletTransaction := None, sj_rawTransactions := [], sj_reverting := False,
     sj_relayAccepted := None, sj_locallyRevertible := None, sj_evidenceReconcile := False\<rparr>"

definition reconcileRelayDone :: "'tx swap_env \<Rightarrow> 'tx job_record \<Rightarrow> string \<Rightarrow> ('tx, unit) exec" where
  "reconcileRelayDone env record txId =
     catchE
       (thenE (markRelaySubmitted env record txId)
       (thenE (drop_awaiting (sj_jobId record))
       (thenE (drop_quarantined (sj_jobId record))
       (thenE (set_confirmation (confirmation_of record))
       (bindE (readUniformEvidence env record) (\<lambda>evidence. case evidence of
           Uniform hash height \<Rightarrow> finishSettled env record hash height
         | No_evidence \<Rightarrow> quarantineEvidence env record ''BACKEND_EVIDENCE_UNKNOWN''
                            ''relay submission is positive but maker consumption is not yet proven''
         | Unknown_evidence reason \<Rightarrow> quarantineEvidence env record ''BACKEND_EVIDENCE_UNKNOWN'' reason))))))
       (\<lambda>e. quarantineEvidence env record ''RELAY_OR_SETTLEMENT_CONFLICT'' (exn_message e))"

definition revert_accepted :: "'tx swap_env \<Rightarrow> 'tx job_record \<Rightarrow> 'tx \<Rightarrow> ('tx, unit) exec" where
  "revert_accepted env record tx =
     (let again = record\<lparr>sj_relayAccepted := Some True\<rparr> in
      thenE (set_awaiting again)
     (thenE (drop_quarantined (sj_jobId record))
     (thenE (drop_confirmation (sj_jobId record))
     (thenE (revertWallet env again tx) (returnE ())))))"

definition reconcileRelayFailure :: "'tx swap_env \<Rightarrow> 'tx job_record \<Rightarrow> ('tx, unit) exec" where
  "reconcileRelayFailure env record =
     catchE
       (thenE (markRelayFailed env record)
       (bindE (readUniformEvidence env record) (\<lambda>evidence. case evidence of
           Uniform hash height \<Rightarrow> quarantineEvidence env record ''RELAY_FAILURE_EVIDENCE_CONFLICT''
                                    ''relay failure conflicts with positive ledger evidence''
         | Unknown_evidence reason \<Rightarrow> quarantineEvidence env record ''RELAY_FAILURE_EVIDENCE_CONFLICT'' reason
         | No_evidence \<Rightarrow> (case sj_walletTransaction record of
               None \<Rightarrow> quarantineEvidence env record ''RELAY_FAILURE_ARTIFACT_UNKNOWN''
                         ''explicit relay failure has no restorable solver wallet transaction''
             | Some tx \<Rightarrow> revert_accepted env record tx))))
       (\<lambda>e. quarantineEvidence env record ''RELAY_FAILURE_RECONCILIATION_UNKNOWN'' (exn_message e))"

definition reconcileFromHttp :: "'tx swap_env \<Rightarrow> 'tx job_record \<Rightarrow> ('tx, unit) exec" where
  "reconcileFromHttp env record =
     bindE (draw (\<lambda>n. se_relay env n)) (\<lambda>answer. case answer of
         Inl e \<Rightarrow> quarantineEvidence env record ''RELAY_HTTP_OUTCOME_UNKNOWN'' (js_message e)
       | Inr (Relay_done txId) \<Rightarrow> reconcileRelayDone env record txId
       | Inr (Relay_error reason) \<Rightarrow> reconcileRelayFailure env record
       | Inr _ \<Rightarrow> quarantineEvidence env record ''RELAY_HTTP_OUTCOME_UNKNOWN'' ''relay job is still open'')"

definition reconcileDurableEvidence :: "'tx swap_env \<Rightarrow> 'tx job_record \<Rightarrow> ('tx, unit) exec" where
  "reconcileDurableEvidence env record =
     bindE (j_require (sj_operationKey record)) (\<lambda>row.
       let receipt = existing_receipt row in
       case (jr_relayState receipt, jr_relayExtrinsicHash receipt) of
         (Some state, Some hash) \<Rightarrow>
           if state = ''done'' then reconcileRelayDone env record hash
           else if state = ''error'' then reconcileRelayFailure env record
           else quarantineEvidence env record ''RELAY_RECEIPT_MALFORMED'' ''durable relay receipt is incomplete''
       | (Some state, None) \<Rightarrow>
           if state = ''error'' then reconcileRelayFailure env record
           else quarantineEvidence env record ''RELAY_RECEIPT_MALFORMED'' ''durable relay receipt is incomplete''
       | (None, Some hash) \<Rightarrow> quarantineEvidence env record ''RELAY_RECEIPT_MALFORMED'' ''durable relay receipt is incomplete''
       | (None, None) \<Rightarrow> reconcileFromHttp env record)"

section \<open>What the relay reports\<close>

definition receipt_ready :: "'tx job_record \<Rightarrow> bool" where
  "receipt_ready record \<longleftrightarrow> sj_relayAccepted record \<noteq> Some False \<and> sj_locallyRevertible record \<noteq> Some True
     \<and> \<not> sj_reverting record"

definition onTxSubmitted :: "'tx swap_env \<Rightarrow> string \<Rightarrow> string \<Rightarrow> ('tx, unit) exec" where
  "onTxSubmitted env jobId txId = bindE (getE (\<lambda>s. activeReceiptRecord s jobId)) (\<lambda>r. case r of
     None \<Rightarrow> returnE ()
   | Some record \<Rightarrow> whenE (receipt_ready record) (reconcileRelayDone env record txId))"

definition onSubmitFailed :: "'tx swap_env \<Rightarrow> string \<Rightarrow> ('tx, unit) exec" where
  "onSubmitFailed env jobId = bindE (getE (\<lambda>s. activeReceiptRecord s jobId)) (\<lambda>r. case r of
     None \<Rightarrow> returnE ()
   | Some record \<Rightarrow> whenE (receipt_ready record) (reconcileRelayFailure env record))"

section \<open>The sweep\<close>

definition sweep_quarantined :: "'tx swap_env \<Rightarrow> 'tx job_record \<Rightarrow> ('tx, unit) exec" where
  "sweep_quarantined env record =
     (if sj_locallyRevertible record = Some True then thenE (retryQuarantine env record) (returnE ())
      else whenE (sj_evidenceReconcile record) (reconcileDurableEvidence env record))"

definition sweep_awaiting :: "'tx swap_env \<Rightarrow> int \<Rightarrow> 'tx job_record \<Rightarrow> ('tx, unit) exec" where
  "sweep_awaiting env at record =
     (if sj_relayAccepted record = Some True then reconcileFromHttp env record
      else bindE (getE (\<lambda>s. map_of (ex_awaiting s) (sj_jobId record))) (\<lambda>current.
        case sj_walletTransaction record of
          None \<Rightarrow> returnE ()
        | Some tx \<Rightarrow> whenE (sj_ttlExpiresAt record \<le> at \<and> current = Some record)
            (thenE (revertWallet env record tx) (returnE ()))))"

definition prune_journal :: "'tx swap_env \<Rightarrow> int \<Rightarrow> int \<Rightarrow> ('tx, unit) exec" where
  "prune_journal env dustAt terminalAt =
     thenE (case se_dustAdmission env of None \<Rightarrow> returnE ()
            | Some d \<Rightarrow> thenE (writeJ (pruneDust (da_windowMs d) dustAt)) (returnE ()))
       (thenE (writeJ (pruneTerminal (se_journal env) (se_fileSize env) terminalAt)) (returnE ()))"

definition runSweep :: "'tx swap_env \<Rightarrow> ('tx, unit) exec" where
  "runSweep env =
     bindE (draw (se_now env)) (\<lambda>at.
     thenE (modifyE (\<lambda>s. s\<lparr>ex_tombstones := filter (\<lambda>(k, expiry). \<not> expiry \<le> at) (ex_tombstones s)\<rparr>))
    (bindE (getE ex_quarantined) (\<lambda>quarantined.
     thenE (forE (\<lambda>(k, r). sweep_quarantined env r) quarantined)
    (bindE (getE ex_awaiting) (\<lambda>awaiting.
     thenE (forE (\<lambda>(k, r). sweep_awaiting env at r) awaiting)
    (bindE (getE ex_confirmations) (\<lambda>confirmations.
     thenE (forE (\<lambda>(k, r). reconcileDurableEvidence env r) confirmations)
       (prune_journal env at at))))))))"

text \<open>A wake-up only: it never settles anything by itself.\<close>

definition notifyConsumed :: "'tx swap_env \<Rightarrow> string \<Rightarrow> ('tx, unit) exec" where
  "notifyConsumed env offerHash =
     bindE (getE (\<lambda>s. list_ex (\<lambda>(k, r). toLowerCase offerHash \<in> set (sj_offerHashes r))
                       (ex_awaiting s @ ex_confirmations s @ ex_quarantined s))) (\<lambda>concerned.
       whenE concerned (quietE (runSweep env)))"

section \<open>Startup\<close>

fun latest_settlements :: "(string \<times> journal_operation) list \<Rightarrow> journal_operation list \<Rightarrow> (string \<times> journal_operation) list" where
  "latest_settlements latest [] = latest"
| "latest_settlements latest (row # rows) =
     latest_settlements (case map_of latest (jo_jobId row) of
         None \<Rightarrow> AList.update (jo_jobId row) row latest
       | Some prior \<Rightarrow> if jo_generation prior < jo_generation row then AList.update (jo_jobId row) row latest else latest) rows"

definition starts_with :: "string \<Rightarrow> string \<Rightarrow> bool" where
  "starts_with s start \<longleftrightarrow> take (length start) s = start"

definition relay_ambiguous :: "journal_operation \<Rightarrow> bool" where
  "relay_ambiguous row \<longleftrightarrow> jo_lifecycleState row \<in> {AWAITING_RELAY, RELAY_SUBMITTED, CONFIRMING}
     \<or> (jo_lifecycleState row = QUARANTINED \<and> (jr_relayState (existing_receipt row) \<noteq> None
        \<or> (case jo_errorCode row of None \<Rightarrow> False | Some c \<Rightarrow> starts_with c ''RELAY_'' \<or> starts_with c ''BACKEND_'')))"

definition reopened_record :: "journal_operation \<Rightarrow> claim \<Rightarrow> 'tx list \<Rightarrow> 'tx option \<Rightarrow> bool \<Rightarrow> bool \<Rightarrow> 'tx job_record" where
  "reopened_record row c raw wallet revertible reconcile = \<lparr>sj_jobId = jo_jobId row, sj_claim = c,
     sj_offerHashes = jo_offerHashes row, sj_ttlExpiresAt = jo_ttlExpiresAtMs row, sj_generation = jo_generation row,
     sj_operationKey = jo_operationKey row, sj_walletTransaction = wallet, sj_rawTransactions = raw, sj_reverting = False,
     sj_relayAccepted = None, sj_locallyRevertible = Some revertible, sj_evidenceReconcile = reconcile\<rparr>"

definition reopen_terminal :: "'tx swap_env \<Rightarrow> journal_operation \<Rightarrow> ('tx, unit) exec" where
  "reopen_terminal env row =
     bindE (liftResult (claimFromJournal row)) (\<lambda>c.
     thenE (if jo_lifecycleState row = REVERTED then markReverted env (jo_jobId row) (jo_generation row)
            else if jo_lifecycleState row = SETTLED
            then markSettled env (jo_jobId row) (jo_generation row) (jo_operationKey row) None
            else bindE (job_group (jo_jobId row) (jo_generation row)) (\<lambda>rows.
              if list_ex (\<lambda>r. \<not> state_terminal (jo_lifecycleState r)) rows
              then throwE (Failed ''FAILED job has non-terminal wallet evidence'') else returnE ()))
       (entomb (jo_jobId row) (jo_retentionUntilMs row)))"

definition proved_revert :: "journal_operation \<Rightarrow> bool" where
  "proved_revert row \<longleftrightarrow> primary_revert row \<and> jo_lifecycleState row = REVERTED"

definition startup_finalized :: "journal_operation list \<Rightarrow> journal_operation option \<times> journal_operation list" where
  "startup_finalized rows =
     (let revertArtifact = List.find (\<lambda>r. primary_revert r \<and> jo_artifactKind r = Some FINALIZED_TRANSACTION) (rev rows)
      in (revertArtifact, case revertArtifact of None \<Rightarrow> filter finalized_selected rows | Some r \<Rightarrow> [r]))"

definition startup_artifacts :: "'tx swap_env \<Rightarrow> journal_operation list \<Rightarrow> ('tx list \<times> 'tx list) result" where
  "startup_artifacts env rows = (case startup_finalized rows of (revertArtifact, finalizedRows) \<Rightarrow>
     let rawRows = (case revertArtifact of None \<Rightarrow> filter (raw_selected finalizedRows) rows | Some _ \<Rightarrow> []) in
     bindR (mapR (\<lambda>r. se_deserializeFinalized env (the_bytes r)) finalizedRows) (\<lambda>finalized.
     bindR (mapR (\<lambda>r. se_deserializeUnproven env (the_bytes r)) rawRows) (\<lambda>raw. Inr (raw, finalized))))"

definition reopen_artifacts :: "'tx swap_env \<Rightarrow> journal_operation \<Rightarrow> claim \<Rightarrow> journal_operation list \<Rightarrow> ('tx, unit) exec" where
  "reopen_artifacts env row c rows =
     bindE (liftResult (startup_artifacts env rows)) (\<lambda>(raw, finalized).
       if list_ex artifactless rows
       then thenE (quarantineGroup env (jo_jobId row) (jo_generation row) ''ARTIFACT_OUTCOME_UNKNOWN''
                     ''a PREPARED wallet call has no durable public artifact'')
              (set_quarantined (reopened_record row c [] None False False))
       else if raw = [] \<and> finalized = []
       then thenE (markFailed env (jo_jobId row) (jo_generation row) ''reopened before any wallet mutation was prepared'')
              (thenE (entomb (jo_jobId row) (jo_retentionUntilMs row)) (release_claim c))
       else bindE (if finalized = [] then returnE None
                   else bindE (liftResult (ld_merge (se_sdk env) finalized)) (\<lambda>tx. returnE (Some tx))) (\<lambda>wallet.
         if relay_ambiguous row
         then thenE (quarantineGroup env (jo_jobId row) (jo_generation row) ''RELAY_OUTCOME_UNKNOWN''
                       ''startup is reconciling the pinned relay HTTP and backend ledger authorities'')
                (let record = reopened_record row c [] wallet False True in
                 thenE (set_quarantined record) (reconcileDurableEvidence env record))
         else let record = reopened_record row c raw wallet True False in
              thenE (set_quarantined record) (thenE (retryQuarantine env record) (returnE ()))))"

definition reopen_open :: "'tx swap_env \<Rightarrow> journal_operation \<Rightarrow> ('tx, unit) exec" where
  "reopen_open env row =
     bindE (liftResult (claimFromJournal row)) (\<lambda>c.
     bindE (getE (\<lambda>s. reserve c (ex_stock s))) (\<lambda>(reserved, stock).
     thenE (modifyE (\<lambda>s. s\<lparr>ex_stock := stock\<rparr>))
       (if \<not> reserved then throwE (Failed ''could not rebuild durable Stock claim'')
        else bindE (job_group (jo_jobId row) (jo_generation row)) (\<lambda>rows.
          if list_ex proved_revert rows \<and> jo_lifecycleState row \<noteq> RELAY_SUBMITTED \<and> jo_lifecycleState row \<noteq> CONFIRMING
          then thenE (markReverted env (jo_jobId row) (jo_generation row))
                 (thenE (entomb (jo_jobId row) (jo_retentionUntilMs row)) (release_claim c))
          else catchE (reopen_artifacts env row c rows)
            (\<lambda>e. thenE (quarantineGroup env (jo_jobId row) (jo_generation row) ''ARTIFACT_RESTORE_FAILED'' (exn_message e))
                   (set_quarantined (reopened_record row c [] None False (relay_ambiguous row))))))))"

definition reopen_job :: "'tx swap_env \<Rightarrow> journal_operation list \<Rightarrow> journal_operation \<Rightarrow> ('tx, unit) exec" where
  "reopen_job env settlements row =
     (if state_terminal (jo_lifecycleState row) then reopen_terminal env row
      else if list_ex (\<lambda>r. jo_jobId r = jo_jobId row \<and> jo_generation r \<noteq> jo_generation row
                           \<and> \<not> state_terminal (jo_lifecycleState r)) settlements
      then throwE (Failed ''multiple non-terminal generations'')
      else reopen_open env row)"

definition reconcileStartup :: "'tx swap_env \<Rightarrow> ('tx, unit) exec" where
  "reconcileStartup env =
     bindE (readJ list_operations) (\<lambda>rows.
     let settlements = filter (\<lambda>r. jo_operationKind r = JOB_SETTLEMENT) rows in
     thenE (forE (\<lambda>(k, row). reopen_job env settlements row) (latest_settlements [] settlements))
    (bindE (draw (se_now env)) (\<lambda>dustAt.
     bindE (draw (se_now env)) (\<lambda>terminalAt.
     thenE (prune_journal env dustAt terminalAt)
       (modifyE (\<lambda>s. s\<lparr>ex_reconciled := True\<rparr>))))))"

section \<open>Stop\<close>

definition quarantine_in_flight :: "'tx swap_env \<Rightarrow> 'tx job_record \<Rightarrow> ('tx, unit) exec" where
  "quarantine_in_flight env r = quietE (quarantineGroup env (sj_jobId r) (sj_generation r) ''SHUTDOWN_IN_FLIGHT''
     ''shutdown deadline elapsed before wallet work acknowledged completion'')"

definition stop_awaiting :: "'tx swap_env \<Rightarrow> 'tx job_record \<Rightarrow> ('tx, unit) exec" where
  "stop_awaiting env r =
     (if sj_relayAccepted r = Some True then reconcileFromHttp env r
      else case sj_walletTransaction r of
        None \<Rightarrow> returnE ()
      | Some tx \<Rightarrow> thenE (revertWallet env r tx) (returnE ()))"

definition stop_executor :: "'tx swap_env \<Rightarrow> ('tx, unit) exec" where
  "stop_executor env = bindE (getE ex_stopped) (\<lambda>stopping. whenE (\<not> stopping)
     (thenE (modifyE (\<lambda>s. s\<lparr>ex_stopped := True\<rparr>))
     (bindE (draw (se_deadlineFires env)) (\<lambda>elapsed.
      thenE (bindE (getE ex_building) (\<lambda>building. whenE elapsed (forE (\<lambda>(k, r). quarantine_in_flight env r) building)))
     (thenE (bindE (getE ex_quarantined) (\<lambda>quarantined. forE (\<lambda>(k, r). quietE (sweep_quarantined env r)) quarantined))
     (thenE (bindE (getE ex_awaiting) (\<lambda>awaiting. forE (\<lambda>(k, r). quietE (stop_awaiting env r)) awaiting))
        (bindE (getE ex_confirmations) (\<lambda>confirmations.
           forE (\<lambda>(k, r). quietE (reconcileDurableEvidence env r)) confirmations))))))))"

section \<open>Runs\<close>

text \<open>
  What the executor's owner and its timers may do to it. A build that timed out and was lost leaves
  its record in \<open>building\<close>.
\<close>

datatype swap_event =
  On_swap swap_message
| On_tx_submitted string string
| On_submit_failed string
| On_consumed string
| On_sweep
| On_ready
| On_stop

definition handle :: "'tx swap_env \<Rightarrow> swap_event \<Rightarrow> ('tx, unit) exec" where
  "handle env ev = (case ev of
     On_swap job \<Rightarrow> quietE (executeSwap env job)
   | On_tx_submitted jobId txId \<Rightarrow> quietE (onTxSubmitted env jobId txId)
   | On_submit_failed jobId \<Rightarrow> quietE (onSubmitFailed env jobId)
   | On_consumed offerHash \<Rightarrow> quietE (notifyConsumed env offerHash)
   | On_sweep \<Rightarrow> quietE (runSweep env)
   | On_ready \<Rightarrow> quietE (reconcileStartup env)
   | On_stop \<Rightarrow> quietE (stop_executor env))"

text \<open>A run on a list of events; every external answer is an argument of the environment.\<close>

fun swap_run :: "'tx swap_env \<Rightarrow> swap_event list \<Rightarrow> 'tx executor \<Rightarrow> 'tx executor" where
  "swap_run env [] s = s"
| "swap_run env (ev # evs) s = swap_run env evs (snd (handle env ev s))"

definition fresh_executor :: "journal \<Rightarrow> stock \<Rightarrow> 'tx executor" where
  "fresh_executor j stock = \<lparr>ex_journal = j, ex_stock = stock, ex_building = [], ex_awaiting = [], ex_confirmations = [],
     ex_quarantined = [], ex_tombstones = [], ex_stopped = False, ex_reconciled = False, ex_dustBlockedUsage = None,
     ex_build = None, ex_tick = 0, ex_calls = [], ex_completed = 0, ex_refused = 0, ex_reverted = 0,
     ex_revertFailures = 0, ex_timedOutBuilds = 0\<rparr>"

end
