(* ===== verification/Journal_Correct.thy ===== *)
theory Journal_Correct
  imports Journal
begin

text \<open>
  The journal's guarantees: its invariant over all runs, the life cycle every row follows, receipts
  that are written once, and the fee budget's ceiling.
\<close>

section \<open>Guards\<close>

lemma guard_bind [simp]: "bindR (guard b e) f = (if b then f () else Inl e)"
  by (simp add: guard_def)

lemma guard_Inr [simp]: "guard b e = Inr u \<longleftrightarrow> b"
  by (cases u) (simp add: guard_def)

lemma if_Inl_Inr [simp]: "(if b then x else Inl e) = Inr y \<longleftrightarrow> b \<and> x = Inr y"
  by simp

lemma optional_simps [simp]: "optional P None" "optional P (Some x) = P x"
  by (simp_all add: optional_def)

definition prepared_ok :: "int \<Rightarrow> 'a prepared_operation_scheme \<Rightarrow> bool" where
  "prepared_ok most r \<longleftrightarrow> text_ok 512 (jo_operationKey r) \<and> text_ok 512 (jo_jobId r) \<and> safe_at_least 0 (jo_generation r)
     \<and> unique_sorted_hex (jo_offerHashes r) \<and> unique_sorted_hex (jc_inputs (jo_claim r))
     \<and> list_all (\<lambda>(t, n). isLowerHex64 t \<and> canonical_uint n) (jc_payouts (jo_claim r))
     \<and> safe_at_least 1 (jo_ttlExpiresAtMs r) \<and> safe_at_least 1 (jo_deadlineAtMs r)
     \<and> jo_deadlineAtMs r \<le> jo_ttlExpiresAtMs r \<and> (jo_artifactKind r = None) = (jo_artifactBytes r = None)
     \<and> optional (\<lambda>b. int (length b) \<le> most) (jo_artifactBytes r) \<and> optional receipt_ok (jo_receipt r)"

lemma requirePrepared_iff [simp]: "requirePrepared most r = Inr u \<longleftrightarrow> prepared_ok most r"
  by (simp add: requirePrepared_def requireReceipt_def prepared_ok_def)

definition patch_ok :: "int \<Rightarrow> transition_patch \<Rightarrow> bool" where
  "patch_ok most p \<longleftrightarrow> (tp_artifactKind p = None) = (tp_artifactBytes p = None)
     \<and> optional (\<lambda>b. int (length b) \<le> most) (tp_artifactBytes p) \<and> optional (text_ok 256) (tp_errorCode p)
     \<and> optional (text_ok 4096) (tp_errorDetail p) \<and> optional (safe_at_least 0) (tp_retryCount p)
     \<and> optional (safe_at_least 1) (tp_nextRetryAtMs p) \<and> optional receipt_ok (tp_receipt p)"

lemma validateTransitionPatch_iff [simp]: "validateTransitionPatch most p = Inr u \<longleftrightarrow> patch_ok most p"
  by (simp add: validateTransitionPatch_def requireReceipt_def patch_ok_def)

definition row_ok :: "journal_operation \<Rightarrow> bool" where
  "row_ok r \<longleftrightarrow> prepared_ok max_safe_integer r \<and> safe_at_least (jo_ttlExpiresAtMs r) (jo_retentionUntilMs r)
     \<and> patch_ok max_safe_integer (row_patch r)"

lemma bind_unit: "bindR (m :: 'e + unit) f = Inr y \<longleftrightarrow> m = Inr () \<and> f () = Inr y"
  by (cases m) auto

lemma hydrate_iff: "hydrate r = Inr r' \<longleftrightarrow> r' = r \<and> row_ok r"
  by (auto simp: hydrate_def row_ok_def bind_unit)

lemma require_iff: "require_operation j key = Inr r \<longleftrightarrow> \<not> jn_closed j \<and> find_operation j key = Some r \<and> row_ok r"
  by (auto simp: require_operation_def get_operation_def assertOpen_def bindR_eq_Inr hydrate_iff split: option.splits)

lemma clock_iff: "bindR (clock now) f = Inr y \<longleftrightarrow> safe_at_least 1 now \<and> f now = Inr y"
  by (simp add: clock_def)

lemma clock_Inr [simp]: "clock now = Inr x \<longleftrightarrow> x = now \<and> safe_at_least 1 now"
  by (auto simp: clock_def)

lemma ceilings_iff [simp]: "assertWithinCeilings cf fs j = Inr u \<longleftrightarrow>
  int (length (jn_operations j) + length (jn_dust j)) \<le> cf_maxRows cf \<and> fs (jn_operations j) (jn_dust j) \<le> cf_maxBytes cf"
  by (simp add: assertWithinCeilings_def)

section \<open>Receipts\<close>

definition extends_receipt :: "journal_receipt \<Rightarrow> journal_receipt \<Rightarrow> bool" where
  "extends_receipt old new \<longleftrightarrow> agrees (jr_relayJobId old) (jr_relayJobId new) \<and> agrees (jr_relayState old) (jr_relayState new)
     \<and> agrees (jr_relayExtrinsicHash old) (jr_relayExtrinsicHash new)
     \<and> agrees (jr_ledgerTxHash old) (jr_ledgerTxHash new) \<and> agrees (jr_ledgerHeight old) (jr_ledgerHeight new)"

lemma agrees_refl [simp]: "agrees x x"
  by (simp add: agrees_def)

lemma agrees_trans: "agrees x y \<Longrightarrow> agrees y z \<Longrightarrow> agrees x z"
  by (auto simp: agrees_def)

lemma extends_refl [simp]: "extends_receipt r r"
  by (simp add: extends_receipt_def)

lemma extends_trans: "extends_receipt a b \<Longrightarrow> extends_receipt b c \<Longrightarrow> extends_receipt a c"
  unfolding extends_receipt_def using agrees_trans by metis

lemma coalesce_agrees: "\<not> field_conflict new old \<Longrightarrow> agrees old (coalesce new old)"
  by (cases new; cases old) (auto simp: field_conflict_def agrees_def coalesce_def)

lemma optional_coalesce: "optional P new \<Longrightarrow> optional P old \<Longrightarrow> optional P (coalesce new old)"
  by (cases new) (simp_all add: coalesce_def)

lemma writeReceipt_iff: "writeReceipt receipt row = Inr row' \<longleftrightarrow> receipt_ok receipt
   \<and> \<not> receipts_conflict receipt (existing_receipt row)
   \<and> row' = row\<lparr>jo_receipt := Some (merge_receipts receipt (existing_receipt row))\<rparr>"
  by (auto simp: writeReceipt_def requireReceipt_def)

lemma no_receipt_ok: "receipt_ok no_receipt"
  by (simp add: receipt_ok_def no_receipt_def)

lemma merge_ok: "receipt_ok new \<Longrightarrow> receipt_ok old \<Longrightarrow> receipt_ok (merge_receipts new old)"
  by (simp add: receipt_ok_def merge_receipts_def optional_coalesce)

lemma merge_extends: "\<not> receipts_conflict new old \<Longrightarrow> extends_receipt old (merge_receipts new old)"
  by (simp add: extends_receipt_def merge_receipts_def receipts_conflict_def coalesce_agrees)

lemma existing_receipt_ok: "row_ok r \<Longrightarrow> receipt_ok (existing_receipt r)"
  by (auto simp: row_ok_def prepared_ok_def existing_receipt_def no_receipt_ok split: option.split)

lemma written_row_ok:
  assumes "row_ok r" "writeReceipt receipt r = Inr r'"
  shows "row_ok r'"
proof -
  from assms(2) have r: "receipt_ok receipt" "r' = r\<lparr>jo_receipt := Some (merge_receipts receipt (existing_receipt r))\<rparr>"
    by (simp_all add: writeReceipt_iff)
  show ?thesis
    using assms(1) merge_ok [OF r(1) existing_receipt_ok [OF assms(1)]]
    by (simp add: r(2) row_ok_def prepared_ok_def patch_ok_def row_patch_def)
qed

section \<open>The invariant\<close>

definition dust_ok :: "journal_operation list \<Rightarrow> dust_row \<Rightarrow> bool" where
  "dust_ok rows d \<longleftrightarrow> (\<exists>n > 0. dr_amountText d = bigint_to_string n) \<and> (dr_state d = SPENT \<longleftrightarrow> dr_spentAtMs d \<noteq> None)
     \<and> dr_reservedAtMs d \<le> dr_updatedAtMs d
     \<and> (\<exists>r \<in> set rows. jo_operationKey r = dr_operationKey d \<and> jo_jobId r = dr_jobId d \<and> jo_generation r = dr_generation d)"

definition journal_ok :: "journal_config \<Rightarrow> journal \<Rightarrow> bool" where
  "journal_ok cf j \<longleftrightarrow> distinct (map jo_operationKey (jn_operations j))
     \<and> sorted_wrt (<) (map jo_id (jn_operations j)) \<and> (\<forall>r \<in> set (jn_operations j). jo_id r < jn_nextId j)
     \<and> (\<forall>r \<in> set (jn_operations j). row_ok r \<and> jo_createdAtMs r \<le> jo_updatedAtMs r)
     \<and> distinct (map dr_operationKey (jn_dust j)) \<and> (\<forall>d \<in> set (jn_dust j). dust_ok (jn_operations j) d)
     \<and> int (length (jn_operations j) + length (jn_dust j)) \<le> cf_maxRows cf"

definition config_ok :: "journal_config \<Rightarrow> bool" where
  "config_ok cf \<longleftrightarrow> 1 \<le> cf_maxRows cf \<and> 1 \<le> cf_reconciliationMarginMs cf \<and> cf_maxArtifactBytes cf \<le> max_safe_integer"

lemma normalizeOptions_ok: "normalizeOptions a b c d = Inr cf \<Longrightarrow> config_ok cf"
  by (auto simp: normalizeOptions_def Let_def safe_at_least_def is_safe_integer_def config_ok_def bindR_eq_Inr)

text \<open>How a step may change a row: its identity and terms are fixed, its state moves along the
  transition table, its receipt only gains fields.\<close>

definition row_evolves :: "journal_operation \<Rightarrow> journal_operation \<Rightarrow> bool" where
  "row_evolves a b \<longleftrightarrow> jo_id b = jo_id a \<and> jo_operationKey b = jo_operationKey a \<and> jo_jobId b = jo_jobId a
     \<and> jo_generation b = jo_generation a \<and> jo_offerHashes b = jo_offerHashes a \<and> jo_claim b = jo_claim a
     \<and> jo_operationKind b = jo_operationKind a \<and> jo_ttlExpiresAtMs b = jo_ttlExpiresAtMs a
     \<and> jo_deadlineAtMs b = jo_deadlineAtMs a \<and> jo_retentionUntilMs b = jo_retentionUntilMs a
     \<and> jo_createdAtMs b = jo_createdAtMs a
     \<and> (jo_lifecycleState b = jo_lifecycleState a \<or> jo_lifecycleState b \<in> allowedTransitions (jo_lifecycleState a))
     \<and> extends_receipt (existing_receipt a) (existing_receipt b)"

lemma row_evolves_refl [simp]: "row_evolves r r"
  by (simp add: row_evolves_def)

lemma find_operation_Some: "find_operation j key = Some r \<Longrightarrow> r \<in> set (jn_operations j) \<and> jo_operationKey r = key"
  by (auto simp: find_operation_def find_Some_iff)

lemma find_operation_None: "find_operation j key = None \<longleftrightarrow> key \<notin> jo_operationKey ` set (jn_operations j)"
  by (auto simp: find_operation_def find_None_iff)

lemma distinct_key_eq: "distinct (map f xs) \<Longrightarrow> x \<in> set xs \<Longrightarrow> y \<in> set xs \<Longrightarrow> f x = f y \<Longrightarrow> x = y"
  by (metis distinct_map inj_onD)

lemma find_replaced:
  "distinct (map k xs) \<Longrightarrow> r \<in> set xs \<Longrightarrow> k r' = k r \<Longrightarrow>
   find (\<lambda>x. k x = k r) (map (\<lambda>x. if x = r then r' else x) xs) = Some r'"
  by (induction xs) auto

lemma put_row_rows:
  assumes "distinct (map jo_operationKey (jn_operations j))" "r \<in> set (jn_operations j)" "jo_operationKey r' = jo_operationKey r"
  shows "set (jn_operations (put_row r' j)) = insert r' (set (jn_operations j) - {r})"
    "\<forall>f. f r' = f r \<longrightarrow> map f (jn_operations (put_row r' j)) = map f (jn_operations j)"
    "find_operation (put_row r' j) (jo_operationKey r) = Some r'"
proof -
  have e: "(if jo_operationKey x = jo_operationKey r' then r' else x) = (if x = r then r' else x)"
    if "x \<in> set (jn_operations j)" for x
    using distinct_key_eq [OF assms(1) that assms(2)] assms(3) by auto
  have m: "jn_operations (put_row r' j) = map (\<lambda>x. if x = r then r' else x) (jn_operations j)"
    unfolding put_row_def by (simp add: e cong: map_cong)
  show s: "set (jn_operations (put_row r' j)) = insert r' (set (jn_operations j) - {r})"
    unfolding m using assms(2) by auto
  show "\<forall>f. f r' = f r \<longrightarrow> map f (jn_operations (put_row r' j)) = map f (jn_operations j)"
    unfolding m by auto
  show "find_operation (put_row r' j) (jo_operationKey r) = Some r'"
    unfolding find_operation_def m by (rule find_replaced [OF assms])
qed

section \<open>Operations keep the invariant and evolve rows\<close>

text \<open>What one step does to the operation rows.\<close>

definition rows_step :: "journal \<Rightarrow> journal \<Rightarrow> bool" where
  "rows_step j j' \<longleftrightarrow> jn_nextId j \<le> jn_nextId j'
     \<and> (\<forall>r \<in> set (jn_operations j'). (\<exists>r0 \<in> set (jn_operations j). row_evolves r0 r)
          \<or> (jn_nextId j \<le> jo_id r \<and> jo_lifecycleState r = PREPARED))
     \<and> (\<forall>r0 \<in> set (jn_operations j). (\<exists>r \<in> set (jn_operations j'). row_evolves r0 r)
          \<or> (jo_lifecycleState r0 \<in> TERMINAL_STATES \<and> find_dust j (jo_operationKey r0) = None))"

lemma rows_step_same: "jn_operations j' = jn_operations j \<Longrightarrow> jn_nextId j' = jn_nextId j \<Longrightarrow> rows_step j j'"
  unfolding rows_step_def by (simp, blast intro: row_evolves_refl)

lemma rows_step_insert:
  assumes "set (jn_operations j') = insert n (set (jn_operations j))" "jn_nextId j \<le> jo_id n"
    "jo_lifecycleState n = PREPARED" "jn_nextId j \<le> jn_nextId j'"
  shows "rows_step j j'"
  unfolding rows_step_def
proof (intro conjI ballI)
  fix r
  assume "r \<in> set (jn_operations j')"
  with assms(1) consider "r = n" | "r \<in> set (jn_operations j)" by blast
  then show "(\<exists>r0 \<in> set (jn_operations j). row_evolves r0 r) \<or> (jn_nextId j \<le> jo_id r \<and> jo_lifecycleState r = PREPARED)"
    using assms(2,3) row_evolves_refl by cases blast+
next
  fix r0
  assume "r0 \<in> set (jn_operations j)"
  with assms(1) have "r0 \<in> set (jn_operations j')" by blast
  then show "(\<exists>r \<in> set (jn_operations j'). row_evolves r0 r)
      \<or> (jo_lifecycleState r0 \<in> TERMINAL_STATES \<and> find_dust j (jo_operationKey r0) = None)"
    using row_evolves_refl by blast
qed (rule assms(4))

lemma journal_okD:
  assumes "journal_ok cf j"
  shows "distinct (map jo_operationKey (jn_operations j))" "r \<in> set (jn_operations j) \<Longrightarrow> row_ok r \<and> jo_createdAtMs r \<le> jo_updatedAtMs r"
    "d \<in> set (jn_dust j) \<Longrightarrow> dust_ok (jn_operations j) d" "distinct (map dr_operationKey (jn_dust j))"
  using assms by (auto simp: journal_ok_def)

text \<open>Replacing a row by one it evolves to.\<close>

lemma put_row_step:
  assumes ok: "journal_ok cf j" and r: "find_operation j key = Some r" and ev: "row_evolves r r'"
    and r': "row_ok r'" "jo_createdAtMs r' \<le> jo_updatedAtMs r'"
  shows "journal_ok cf (put_row r' j)" "rows_step j (put_row r' j)" "find_operation (put_row r' j) key = Some r'"
proof -
  from find_operation_Some [OF r] have m: "r \<in> set (jn_operations j)" "jo_operationKey r = key" by auto
  from ev have k: "jo_operationKey r' = jo_operationKey r" "jo_id r' = jo_id r" "jo_jobId r' = jo_jobId r"
    "jo_generation r' = jo_generation r" by (simp_all add: row_evolves_def)
  note p = put_row_rows [OF journal_okD(1) [OF ok] m(1) k(1)]
  have keys: "map jo_operationKey (jn_operations (put_row r' j)) = map jo_operationKey (jn_operations j)"
    "map jo_id (jn_operations (put_row r' j)) = map jo_id (jn_operations j)" using p(2) k by blast+
  have rest: "jn_dust (put_row r' j) = jn_dust j" "jn_nextId (put_row r' j) = jn_nextId j" by (simp_all add: put_row_def)
  have len: "length (jn_operations (put_row r' j)) = length (jn_operations j)" by (simp add: put_row_def)
  have dust: "dust_ok (jn_operations (put_row r' j)) d" if "d \<in> set (jn_dust j)" for d
  proof -
    from journal_okD(3) [OF ok that] obtain x where d: "dust_ok (jn_operations j) d" and x: "x \<in> set (jn_operations j)"
      "jo_operationKey x = dr_operationKey d" "jo_jobId x = dr_jobId d" "jo_generation x = dr_generation d"
      by (auto simp: dust_ok_def)
    have "\<exists>y \<in> set (jn_operations (put_row r' j)). jo_operationKey y = dr_operationKey d
        \<and> jo_jobId y = dr_jobId d \<and> jo_generation y = dr_generation d"
      unfolding p(1) using x k by (cases "x = r") auto
    with d show ?thesis by (simp add: dust_ok_def)
  qed
  have ids: "\<forall>x \<in> set (jn_operations (put_row r' j)). jo_id x < jn_nextId j"
    using ok m(1) k(2) unfolding p(1) journal_ok_def by auto
  show "journal_ok cf (put_row r' j)"
    using ok r' dust ids unfolding journal_ok_def keys rest len p(1) by auto
  show "rows_step j (put_row r' j)"
    unfolding rows_step_def rest p(1) using ev m(1) row_evolves_refl by blast
  show "find_operation (put_row r' j) key = Some r'" using p(3) m(2) by simp
qed


lemma find_append_none: "find P (xs @ ys) = (case find P xs of None \<Rightarrow> find P ys | Some x \<Rightarrow> Some x)"
  by (induction xs) auto

lemma prepared_row_fields [simp]:
  "jo_operationKey (prepared_row input rid retention now) = jo_operationKey input"
  "jo_id (prepared_row input rid retention now) = rid" "jo_lifecycleState (prepared_row input rid retention now) = PREPARED"
  "jo_createdAtMs (prepared_row input rid retention now) = now" "jo_updatedAtMs (prepared_row input rid retention now) = now"
  "jo_receipt (prepared_row input rid retention now) = None"
  "jo_jobId (prepared_row input rid retention now) = jo_jobId input"
  "jo_offerHashes (prepared_row input rid retention now) = jo_offerHashes input"
  "jc_inputs (jo_claim (prepared_row input rid retention now)) = jc_inputs (jo_claim input)"
  by (simp_all add: prepared_row_def prepared_operation.defs)

lemma prepared_row_ok:
  assumes "prepared_ok most input" "most \<le> max_safe_integer" "safe_at_least 1 retention" "jo_ttlExpiresAtMs input \<le> retention"
  shows "row_ok (prepared_row input rid retention now)"
proof -
  have b: "optional (\<lambda>b. int (length b) \<le> max_safe_integer) (jo_artifactBytes input)"
    using assms(1,2) by (cases "jo_artifactBytes input") (auto simp: prepared_ok_def)
  have z: "safe_at_least 0 0" by (simp add: safe_at_least_def is_safe_integer_def max_safe_integer_def)
  show ?thesis
    using assms b z
    by (simp add: row_ok_def prepared_ok_def patch_ok_def row_patch_def prepared_row_def prepared_operation.defs
        list_all_iff safe_at_least_def)
qed

text \<open>What a row created from an input holds: the input, its payouts sorted by token.\<close>

definition created :: "prepared_operation \<Rightarrow> journal_operation \<Rightarrow> bool" where
  "created input row \<longleftrightarrow> jo_lifecycleState row = PREPARED
     \<and> prepared_operation.truncate row
       = input\<lparr>jo_claim := (jo_claim input)\<lparr>jc_payouts := sort_key fst (jc_payouts (jo_claim input))\<rparr>\<rparr>"

lemma created_prepared: "jo_receipt input = None \<Longrightarrow> created input (prepared_row input rid retention now)"
  by (simp add: created_def prepared_row_def prepared_operation.defs)

lemma created_receipt:
  "jo_receipt input = Some r \<Longrightarrow> created input ((prepared_row input rid retention now)\<lparr>jo_receipt := Some r\<rparr>)"
  by (simp add: created_def prepared_row_def prepared_operation.defs)

lemma merge_no_receipt: "merge_receipts r no_receipt = r"
  by (simp add: merge_receipts_def no_receipt_def coalesce_def split: option.split)

lemma createPrepared_step:
  assumes ok: "journal_ok cf j" and cf: "config_ok cf" and c: "createPrepared cf fs input now j = Inr (row, j')"
  shows "journal_ok cf j'" "rows_step j j'" "find_operation j' (jo_operationKey input) = Some row" "created input row"
    "jn_closed j' = jn_closed j"
proof -
  let ?ret = "jo_ttlExpiresAtMs input + cf_reconciliationMarginMs cf"
  let ?row = "prepared_row input (jn_nextId j) ?ret now"
  from c obtain row1 where g: "prepared_ok (cf_maxArtifactBytes cf) input" "safe_at_least 1 ?ret"
    "find_operation j (jo_operationKey input) = None"
    and w: "(case jo_receipt input of None \<Rightarrow> Inr ?row | Some r \<Rightarrow> writeReceipt r ?row) = Inr row1"
    and j': "j' = j\<lparr>jn_operations := jn_operations j @ [row1], jn_nextId := Suc (jn_nextId j)\<rparr>"
    and ceil: "int (length (jn_operations j') + length (jn_dust j')) \<le> cf_maxRows cf"
    and st: "find_operation j' (jo_operationKey input) = Some row"
    by (auto simp: createPrepared_def assertOpen_def clock_iff bindR_eq_Inr Let_def require_iff)
  have r: "row_ok ?row" using g cf by (intro prepared_row_ok) (auto simp: config_ok_def)
  have f: "row_ok row1 \<and> jo_operationKey row1 = jo_operationKey input \<and> jo_id row1 = jn_nextId j
      \<and> jo_createdAtMs row1 = now \<and> jo_updatedAtMs row1 = now \<and> created input row1"
  proof (cases "jo_receipt input")
    case None
    with w r created_prepared [OF None] show ?thesis by auto
  next
    case (Some x)
    with w have x: "writeReceipt x ?row = Inr row1" by simp
    then have "row1 = ?row\<lparr>jo_receipt := Some x\<rparr>"
      by (auto simp: writeReceipt_iff existing_receipt_def merge_no_receipt)
    with written_row_ok [OF r x] created_receipt [OF Some] show ?thesis by simp
  qed
  have "row1 = row" using st g(3) f by (simp add: j' find_operation_def find_append_none)
  then show "find_operation j' (jo_operationKey input) = Some row" "created input row" using st f by auto
  show "jn_closed j' = jn_closed j" by (simp add: j')
  have keys: "jo_operationKey row1 \<notin> jo_operationKey ` set (jn_operations j)"
    using g(3) f by (simp add: find_operation_None)
  show "journal_ok cf j'"
    using ok f keys ceil unfolding journal_ok_def j'
    by (auto simp: sorted_wrt_append dust_ok_def less_Suc_eq)
  show "rows_step j j'"
    by (rule rows_step_insert [where n = row1]) (use f in \<open>auto simp: created_def j'\<close>)
qed

lemma patched_row_ok:
  assumes "row_ok r" "patch_ok most patch" "most \<le> max_safe_integer"
  shows "row_ok (patched_row s patch now r)"
proof -
  have b: "optional (\<lambda>b. int (length b) \<le> max_safe_integer) (tp_artifactBytes patch)"
    using assms(2,3) by (cases "tp_artifactBytes patch") (auto simp: patch_ok_def)
  have n: "safe_at_least 0 (case tp_retryCount patch of None \<Rightarrow> jo_retryCount r | Some n \<Rightarrow> n)"
    using assms(1,2) by (cases "tp_retryCount patch") (auto simp: row_ok_def patch_ok_def row_patch_def)
  have k: "(coalesce (tp_artifactKind patch) (jo_artifactKind r) = None) = (coalesce (tp_artifactBytes patch) (jo_artifactBytes r) = None)"
    using assms(1,2) by (cases "tp_artifactKind patch"; cases "tp_artifactBytes patch")
      (auto simp: coalesce_def row_ok_def prepared_ok_def patch_ok_def)
  show ?thesis
    using assms(1,2) b n k
    by (simp add: row_ok_def prepared_ok_def patch_ok_def row_patch_def patched_row_def optional_coalesce)
qed

lemma apply_transition_step:
  assumes ok: "journal_ok cf j" and cf: "config_ok cf" and r: "find_operation j key = Some r"
    and s: "next_state \<in> allowedTransitions (jo_lifecycleState r)"
    and t: "apply_transition cf fs key next_state patch now r j = Inr (row, j')"
  shows "journal_ok cf j' \<and> rows_step j j' \<and> find_operation j' key = Some row \<and> jo_lifecycleState row = next_state
    \<and> jn_closed j' = jn_closed j \<and> jn_dust j' = jn_dust j"
proof -
  let ?p = "patched_row next_state patch now r"
  obtain row1 where p: "patch_ok (cf_maxArtifactBytes cf) patch" "jo_createdAtMs r \<le> now"
    and x: "(case tp_receipt patch of None \<Rightarrow> Inr ?p | Some x \<Rightarrow> writeReceipt x ?p) = Inr row1"
    and j': "j' = put_row row1 j" "find_operation j' key = Some row"
    using t by (auto simp: apply_transition_def clock_iff bind_unit bindR_eq_Inr Let_def require_iff)
  have r0: "row_ok r" using journal_okD(2) [OF ok] find_operation_Some [OF r] by blast
  have pr: "row_ok ?p" using p(1) r0 cf by (intro patched_row_ok) (auto simp: config_ok_def)
  have w: "row_ok row1 \<and> jo_createdAtMs row1 \<le> jo_updatedAtMs row1
      \<and> jo_lifecycleState row1 = next_state \<and> row_evolves r row1"
  proof (cases "tp_receipt patch")
    case None
    with x have "row1 = ?p" by simp
    with pr p(2) s show ?thesis by (simp add: row_evolves_def patched_row_def existing_receipt_def)
  next
    case (Some y)
    with x have y: "writeReceipt y ?p = Inr row1" by simp
    have e: "existing_receipt ?p = existing_receipt r" by (simp add: patched_row_def existing_receipt_def)
    from written_row_ok [OF pr y] y e p(2) s merge_extends [of y "existing_receipt r"] show ?thesis
      by (auto simp: writeReceipt_iff row_evolves_def patched_row_def existing_receipt_def)
  qed
  note step = put_row_step [OF ok r, of row1]
  have "journal_ok cf j'" "rows_step j j'" "find_operation j' key = Some row1"
    using step w j'(1) by auto
  with j' w show ?thesis by (auto simp: put_row_def)
qed

lemma transition_step:
  assumes ok: "journal_ok cf j" and cf: "config_ok cf"
    and t: "transition cf fs key expected next_state patch now j = Inr (row, j')"
  shows "journal_ok cf j' \<and> rows_step j j' \<and> find_operation j' key = Some row \<and> jo_lifecycleState row = next_state
    \<and> jn_closed j' = jn_closed j \<and> jn_dust j' = jn_dust j"
proof -
  obtain r where "require_operation j key = Inr r"
    and e: "(if jo_lifecycleState r = next_state \<and> next_state \<in> TERMINAL_STATES
       then bindR (assertIdempotentTerminalPatch r patch) (\<lambda>_. Inr (r, j))
       else if jo_lifecycleState r \<noteq> expected then Inl Cas_conflict
       else if next_state \<notin> allowedTransitions expected then Inl Transition_error
       else apply_transition cf fs key next_state patch now r j) = Inr (row, j')"
    using t unfolding transition_def assertOpen_def guard_bind if_Inl_Inr
    unfolding bindR_eq_Inr [of "require_operation j key"] by blast
  then have r: "find_operation j key = Some r" by (simp add: require_iff)
  show ?thesis
  proof (cases "jo_lifecycleState r = next_state \<and> next_state \<in> TERMINAL_STATES")
    case True
    with e have "row = r" "j' = j" by (simp_all add: bind_unit)
    with True ok r show ?thesis by (simp add: rows_step_same)
  next
    case False
    with e have "next_state \<in> allowedTransitions (jo_lifecycleState r)"
      "apply_transition cf fs key next_state patch now r j = Inr (row, j')" by (simp_all split: if_splits)
    then show ?thesis by (rule apply_transition_step [OF ok cf r])
  qed
qed

lemma recordReceipt_step:
  assumes ok: "journal_ok cf j" and t: "recordReceipt cf fs key receipt now j = Inr (row, j')"
  shows "journal_ok cf j'" "rows_step j j'" "find_operation j' key = Some row"
    "extends_receipt receipt (existing_receipt row)" "jn_closed j' = jn_closed j" "jn_dust j' = jn_dust j"
proof -
  obtain r row1 where r: "find_operation j key = Some r" and w: "writeReceipt receipt r = Inr row1" "jo_createdAtMs r \<le> now"
    and j': "j' = put_row (row1\<lparr>jo_updatedAtMs := now\<rparr>) j" and st: "find_operation j' key = Some row"
    using t by (auto simp: recordReceipt_def assertOpen_def clock_iff bindR_eq_Inr Let_def require_iff split: option.splits)
  let ?r = "row1\<lparr>jo_updatedAtMs := now\<rparr>"
  have r0: "row_ok r" using journal_okD(2) [OF ok] find_operation_Some [OF r] by blast
  have "row_ok row1" by (rule written_row_ok [OF r0 w(1)])
  then have ok1: "row_ok ?r" by (simp add: row_ok_def prepared_ok_def row_patch_def)
  have ev: "row_evolves r ?r"
    using w(1) merge_extends [of receipt "existing_receipt r"]
    by (auto simp: writeReceipt_iff row_evolves_def existing_receipt_def)
  have "jo_createdAtMs ?r \<le> jo_updatedAtMs ?r" using w by (auto simp: writeReceipt_iff)
  note s = put_row_step [OF ok r ev ok1 this]
  show "journal_ok cf j'" "rows_step j j'" "find_operation j' key = Some row" "jn_closed j' = jn_closed j" "jn_dust j' = jn_dust j"
    using s st by (auto simp: j' put_row_def)
  have "row = ?r" using s(3) st by (simp add: j')
  with w(1) show "extends_receipt receipt (existing_receipt row)"
    by (auto simp: writeReceipt_iff existing_receipt_def extends_receipt_def merge_receipts_def agrees_def coalesce_def
        split: option.splits)
qed

section \<open>The fee budget\<close>

lemma amount_text:
  assumes "dr_amountText d = bigint_to_string n" "0 < n"
  shows "amount_value d = Inr n" "hydrateDust d = Inr \<lparr>ds_operationKey = dr_operationKey d, ds_jobId = dr_jobId d,
     ds_generation = dr_generation d, ds_amount = n, ds_state = dr_state d, ds_reservedAtMs = dr_reservedAtMs d,
     ds_spentAtMs = dr_spentAtMs d, ds_updatedAtMs = dr_updatedAtMs d\<rparr>"
proof -
  have t: "bigint_to_string n = nat_to_string (nat n)" using assms(2) by (simp add: bigint_to_string_def)
  have "hd (bigint_to_string n) \<noteq> CHR ''0''" unfolding t using assms(2) by (simp add: hd_nat_to_string_zero)
  moreover have "list_all is_digit (bigint_to_string n)" using assms(2) by (simp add: bigint_to_string_digits)
  moreover have "bigint_to_string n \<noteq> []" by (simp add: t)
  ultimately have c: "canonical_uint (bigint_to_string n)" "bigint_to_string n \<noteq> ''0''"
    by (auto simp: canonical_uint_def)
  then show "amount_value d = Inr n" "hydrateDust d = Inr \<lparr>ds_operationKey = dr_operationKey d, ds_jobId = dr_jobId d,
     ds_generation = dr_generation d, ds_amount = n, ds_state = dr_state d, ds_reservedAtMs = dr_reservedAtMs d,
     ds_spentAtMs = dr_spentAtMs d, ds_updatedAtMs = dr_updatedAtMs d\<rparr>"
    using assms(1) by (simp_all add: amount_value_def hydrateDust_def)
qed

definition amount_of :: "dust_row \<Rightarrow> int" where
  "amount_of d = (case amount_value d of Inr n \<Rightarrow> n | Inl _ \<Rightarrow> 0)"

lemma dust_amount: "dust_ok rows d \<Longrightarrow> amount_value d = Inr (amount_of d) \<and> 0 < amount_of d
    \<and> (\<exists>x. hydrateDust d = Inr x \<and> ds_state x = dr_state d \<and> ds_reservedAtMs x = dr_reservedAtMs d
        \<and> ds_amount x = amount_of d \<and> ds_operationKey x = dr_operationKey d \<and> ds_jobId x = dr_jobId d
        \<and> ds_generation x = dr_generation d)"
  using amount_text [of d] by (auto simp: dust_ok_def amount_of_def)

lemma sum_amounts:
  "\<forall>d \<in> set ds. amount_value d = Inr (amount_of d) \<Longrightarrow>
   foldR (\<lambda>sum row. bindR (amount_value row) (\<lambda>n. Inr (sum + n))) a ds = Inr (a + sum_list (map amount_of ds))"
  by (induction ds arbitrary: a) auto

definition window_sum :: "journal \<Rightarrow> int \<Rightarrow> int \<Rightarrow> int" where
  "window_sum j windowMs nowMs =
     sum_list (map amount_of (filter (counts_in_window (max 0 (nowMs - windowMs))) (jn_dust j)))"

lemma dust_usage_value: "journal_ok cf j \<Longrightarrow> dust_usage j windowMs nowMs = Inr (window_sum j windowMs nowMs)"
  using journal_okD(3) dust_amount sum_amounts [of "filter (counts_in_window (max 0 (nowMs - windowMs))) (jn_dust j)" 0]
  unfolding dust_usage_def window_sum_def Let_def by force

lemma find_dust_Some: "find_dust j key = Some d \<Longrightarrow> d \<in> set (jn_dust j) \<and> dr_operationKey d = key"
  by (auto simp: find_dust_def find_Some_iff)

lemma dustByOperationKey_value:
  assumes "journal_ok cf j"
  shows "case find_dust j key of None \<Rightarrow> dustByOperationKey j key = Inr None
    | Some d \<Rightarrow> \<exists>x. dustByOperationKey j key = Inr (Some x) \<and> hydrateDust d = Inr x \<and> ds_state x = dr_state d
        \<and> ds_reservedAtMs x = dr_reservedAtMs d \<and> ds_amount x = amount_of d"
proof (cases "find_dust j key")
  case (Some d)
  with find_dust_Some [OF Some] journal_okD(3) [OF assms] dust_amount show ?thesis
    by (fastforce simp: dustByOperationKey_def)
qed (simp add: dustByOperationKey_def)

lemma reserveDust_step:
  assumes ok: "journal_ok cf j" and t: "reserveDust cf fs input now j = Inr (res, j')"
  shows "journal_ok cf j' \<and> rows_step j j' \<and> jn_closed j' = jn_closed j
    \<and> (case res of
        Dust_accepted d u \<Rightarrow> window_sum j' (dq_windowMs input) now = u \<and> ds_amount d = dq_amount input
          \<and> (if find_dust j (dq_operationKey input) = None
             then u \<le> dq_maxPerWindow input \<and> dq_amount input \<le> dq_maxPerJob input
               \<and> u = window_sum j (dq_windowMs input) now + dq_amount input
             else j' = j)
      | Dust_refused_per_job u \<Rightarrow> j' = j \<and> dq_maxPerJob input < dq_amount input
      | Dust_refused_window u \<Rightarrow> j' = j \<and> u = window_sum j (dq_windowMs input) now
          \<and> dq_maxPerWindow input < u + dq_amount input)"
proof -
  let ?u = "window_sum j (dq_windowMs input) now" and ?new = "new_dust_row input now"
  have pos: "0 < dq_amount input" using t by (auto simp: reserveDust_def assertOpen_def split: if_splits)
  show ?thesis
  proof (cases "find_dust j (dq_operationKey input)")
    case (Some d)
    then obtain x where x: "dustByOperationKey j (dq_operationKey input) = Inr (Some x)" "ds_amount x = amount_of d"
      using dustByOperationKey_value [OF ok, of "dq_operationKey input"] by auto
    with t have "j' = j" "res = Dust_accepted x ?u" "ds_amount x = dq_amount input"
      by (auto simp: reserveDust_def assertOpen_def clock_iff dust_usage_value [OF ok] split: if_splits)
    with ok Some show ?thesis by (simp add: rows_step_same)
  next
    case None
    then have k: "dustByOperationKey j (dq_operationKey input) = Inr None"
      using dustByOperationKey_value [OF ok, of "dq_operationKey input"] by simp
    have nh: "hydrateDust ?new = Inr x \<Longrightarrow> ds_amount x = dq_amount input" for x
      using amount_text(2) [of ?new "dq_amount input"] pos by (auto simp: new_dust_row_def)
    from t k consider "j' = j" "res = Dust_refused_per_job ?u" "dq_maxPerJob input < dq_amount input"
      | "j' = j" "res = Dust_refused_window ?u" "dq_maxPerWindow input < ?u + dq_amount input"
      | s d where "find_operation j (dq_operationKey input) = Some s" "jo_jobId s = dq_jobId input"
          "jo_generation s = dq_generation input" "j' = j\<lparr>jn_dust := jn_dust j @ [?new]\<rparr>"
          "int (length (jn_operations j') + length (jn_dust j')) \<le> cf_maxRows cf"
          "res = Dust_accepted d (?u + dq_amount input)" "ds_amount d = dq_amount input"
          "?u + dq_amount input \<le> dq_maxPerWindow input" "dq_amount input \<le> dq_maxPerJob input"
      using nh
      by (auto simp: reserveDust_def assertOpen_def clock_iff dust_usage_value [OF ok] Let_def bindR_eq_Inr
          split: if_splits option.splits)
    then show ?thesis
    proof cases
      case (3 s d)
      have amt: "amount_of ?new = dq_amount input"
        using amount_text(1) [of ?new "dq_amount input"] pos by (simp add: amount_of_def new_dust_row_def)
      have "dr_operationKey ?new \<notin> dr_operationKey ` set (jn_dust j)"
        using None by (auto simp: find_dust_def find_None_iff new_dust_row_def)
      moreover have "dust_ok (jn_operations j) ?new"
        using pos 3 find_operation_Some [OF 3(1)] by (auto simp: dust_ok_def new_dust_row_def)
      ultimately have "journal_ok cf j'" using ok 3(5) unfolding journal_ok_def 3(4) by auto
      moreover have "window_sum j' (dq_windowMs input) now = ?u + dq_amount input"
        unfolding 3(4) window_sum_def using amt by (simp add: counts_in_window_def new_dust_row_def)
      moreover have "rows_step j j'" unfolding 3(4) by (rule rows_step_same) simp_all
      ultimately show ?thesis using 3 None by simp
    qed (use ok in \<open>auto simp: rows_step_same\<close>)
  qed
qed

text \<open>Settling or releasing a reservation.\<close>

definition settled :: "string \<Rightarrow> dust_state \<Rightarrow> int \<Rightarrow> dust_row \<Rightarrow> dust_row" where
  "settled key next_state now r = (if dr_operationKey r = key \<and> dr_state r = RESERVED
     then r\<lparr>dr_state := next_state, dr_spentAtMs := (if next_state = SPENT then Some now else None), dr_updatedAtMs := now\<rparr>
     else r)"

lemma settled_fields [simp]:
  "dr_operationKey (settled key s now r) = dr_operationKey r" "dr_amountText (settled key s now r) = dr_amountText r"
  "dr_jobId (settled key s now r) = dr_jobId r" "dr_generation (settled key s now r) = dr_generation r"
  by (simp_all add: settled_def)

lemma amount_of_settled [simp]: "amount_of (settled key s now r) = amount_of r"
  by (simp add: amount_of_def amount_value_def)

lemma window_sum_settled:
  assumes "distinct (map dr_operationKey ds)" "cutoff < now" "next_state \<in> {SPENT, RELEASED}"
  shows "sum_list (map amount_of (filter (counts_in_window cutoff) (map (settled key next_state now) ds)))
     = sum_list (map amount_of (filter (counts_in_window cutoff) ds))
       - (case find (\<lambda>r. dr_operationKey r = key) ds of None \<Rightarrow> 0
          | Some d \<Rightarrow> if dr_state d = RESERVED \<and> next_state = RELEASED then amount_of d else 0)"
  using assms(1)
proof (induction ds)
  case (Cons d ds)
  show ?case
  proof (cases "dr_operationKey d = key")
    case True
    have "dr_operationKey d \<notin> dr_operationKey ` set ds" using Cons.prems by simp
    with True have "\<forall>x \<in> set ds. dr_operationKey x \<noteq> key" by (metis image_eqI)
    then have "map (settled key next_state now) ds = ds" by (intro map_idI) (simp add: settled_def)
    then have m: "map (settled key next_state now) (d # ds) = settled key next_state now d # ds" by simp
    show ?thesis
      unfolding m using True assms(2,3) by (cases "dr_state d") (auto simp: settled_def counts_in_window_def amount_of_def amount_value_def)
  next
    case False
    then have "settled key next_state now d = d" by (simp add: settled_def)
    with False Cons show ?thesis by simp
  qed
qed simp

lemma transitionDust_step:
  assumes ok: "journal_ok cf j" and n: "next_state \<in> {SPENT, RELEASED}"
    and t: "transitionDust key next_state now j = Inr (res, j')"
  shows "journal_ok cf j' \<and> rows_step j j' \<and> jn_closed j' = jn_closed j \<and> jn_operations j' = jn_operations j
    \<and> (1 \<le> windowMs \<longrightarrow> window_sum j' windowMs now = window_sum j windowMs now
         - (case find_dust j key of None \<Rightarrow> 0
            | Some d \<Rightarrow> if dr_state d = RESERVED \<and> next_state = RELEASED then amount_of d else 0))
    \<and> (case find_dust j key of None \<Rightarrow> True | Some d \<Rightarrow> dr_state d \<in> {RESERVED, next_state})"
proof (cases "find_dust j key")
  case None
  then have "dustByOperationKey j key = Inr None" using dustByOperationKey_value [OF ok, of key] by simp
  with t have "j' = j" by (auto simp: transitionDust_def assertOpen_def clock_iff)
  with ok None show ?thesis by (simp add: rows_step_same)
next
  case (Some d)
  obtain x where x: "dustByOperationKey j key = Inr (Some x)" "ds_state x = dr_state d" "ds_reservedAtMs x = dr_reservedAtMs d"
    using dustByOperationKey_value [OF ok, of key] Some by auto
  have now: "safe_at_least 1 now" using t by (auto simp: transitionDust_def assertOpen_def clock_def split: if_splits)
  show ?thesis
  proof (cases "dr_state d = next_state")
    case True
    with t x have "j' = j" by (auto simp: transitionDust_def assertOpen_def clock_iff)
    with ok Some True n show ?thesis by (auto simp: rows_step_same)
  next
    case False
    with t x have st: "dr_state d = RESERVED" "dr_reservedAtMs d \<le> now"
      and j': "j' = j\<lparr>jn_dust := map (settled key next_state now) (jn_dust j)\<rparr>"
      by (auto simp: transitionDust_def assertOpen_def clock_iff bindR_eq_Inr Let_def settled_def [abs_def] split: if_splits)
    note d = find_dust_Some [OF Some]
    have "dust_ok (jn_operations j) (settled key next_state now r)" if "r \<in> set (jn_dust j)" for r
    proof (cases "dr_operationKey r = key")
      case True
      with d that journal_okD(4) [OF ok] have "r = d" by (metis distinct_key_eq)
      with journal_okD(3) [OF ok that] st n show ?thesis by (auto simp: dust_ok_def settled_def)
    next
      case False
      with journal_okD(3) [OF ok that] show ?thesis by (simp add: settled_def)
    qed
    then have "journal_ok cf j'" using ok unfolding journal_ok_def j' by (simp add: comp_def)
    moreover have "rows_step j j'" unfolding j' by (rule rows_step_same) simp_all
    moreover have "window_sum j' windowMs now = window_sum j windowMs now - (if next_state = RELEASED then amount_of d else 0)"
      if "1 \<le> windowMs"
    proof -
      have "max 0 (now - windowMs) < now" using now that by (simp add: safe_at_least_def)
      from window_sum_settled [OF journal_okD(4) [OF ok] this n, of key] Some st show ?thesis
        by (simp add: window_sum_def j' find_dust_def)
    qed
    ultimately show ?thesis using Some st by (auto simp: j')
  qed
qed

section \<open>Pruning\<close>

lemma journal_ok_shrink:
  assumes ok: "journal_ok cf j" and sub: "set (jn_operations j') \<subseteq> set (jn_operations j)" and n: "jn_nextId j' = jn_nextId j"
    and dust: "\<And>d. d \<in> set (jn_dust j') \<Longrightarrow> dust_ok (jn_operations j') d"
    and len: "length (jn_operations j') \<le> length (jn_operations j)" "length (jn_dust j') \<le> length (jn_dust j)"
    and srt: "sorted_wrt (<) (map jo_id (jn_operations j'))" "distinct (map jo_operationKey (jn_operations j'))"
    and dk: "distinct (map dr_operationKey (jn_dust j'))"
  shows "journal_ok cf j'"
  unfolding journal_ok_def
proof (intro conjI ballI)
  fix r
  assume "r \<in> set (jn_operations j')"
  then have "r \<in> set (jn_operations j)" using sub by blast
  with ok show "jo_id r < jn_nextId j'" "row_ok r" "jo_createdAtMs r \<le> jo_updatedAtMs r"
    by (simp_all add: journal_ok_def n)
next
  have "int (length (jn_operations j) + length (jn_dust j)) \<le> cf_maxRows cf" using ok by (simp add: journal_ok_def)
  with len show "int (length (jn_operations j') + length (jn_dust j')) \<le> cf_maxRows cf" by linarith
qed (use srt dk dust in simp_all)

lemma pruneTerminal_step:
  assumes ok: "journal_ok cf j" and t: "pruneTerminal cf fs nowMs j = Inr (n, j')"
  shows "journal_ok cf j' \<and> rows_step j j' \<and> jn_closed j' = jn_closed j \<and> jn_dust j' = jn_dust j
    \<and> set (jn_operations j') \<subseteq> set (jn_operations j)
    \<and> (\<forall>r \<in> set (jn_operations j) - set (jn_operations j'). prunable j nowMs r)"
proof -
  define ids where "ids = set (map jo_id (take 1000 (filter (prunable j nowMs) (jn_operations j))))"
  have inj: "inj_on jo_id (set (jn_operations j))"
    using ok by (metis distinct_map journal_ok_def strict_sorted_iff)
  have gone: "prunable j nowMs r" if "r \<in> set (jn_operations j)" "jo_id r \<in> ids" for r
  proof -
    from that(2) [unfolded ids_def] obtain r' where "r' \<in> set (take 1000 (filter (prunable j nowMs) (jn_operations j)))" "jo_id r' = jo_id r"
      by auto
    then have "r' \<in> set (jn_operations j)" "prunable j nowMs r'" "jo_id r' = jo_id r" by (auto dest: in_set_takeD)
    with that(1) inj show ?thesis by (metis inj_onD)
  qed
  have j': "j' = j \<or> j' = j\<lparr>jn_operations := filter (\<lambda>r. jo_id r \<notin> ids) (jn_operations j)\<rparr>"
    using t unfolding ids_def by (auto simp: pruneTerminal_def assertOpen_def bind_unit Let_def split: if_splits)
  then show ?thesis
  proof
    assume "j' = j"
    with ok show ?thesis by (simp add: rows_step_same)
  next
    assume j': "j' = j\<lparr>jn_operations := filter (\<lambda>r. jo_id r \<notin> ids) (jn_operations j)\<rparr>"
    have dust: "dust_ok (jn_operations j') d" if "d \<in> set (jn_dust j)" for d
    proof -
      from journal_okD(3) [OF ok that] obtain r where d: "dust_ok (jn_operations j) d" and r: "r \<in> set (jn_operations j)"
        "jo_operationKey r = dr_operationKey d" "jo_jobId r = dr_jobId d" "jo_generation r = dr_generation d"
        by (auto simp: dust_ok_def)
      have "find_dust j (jo_operationKey r) \<noteq> None"
        using that r(2) by (auto simp: find_dust_def find_None_iff)
      then have "jo_id r \<notin> ids" using gone [OF r(1)] by (auto simp: prunable_def)
      then have "r \<in> set (jn_operations j')" using r(1) by (simp add: j')
      with d r show ?thesis by (auto simp: dust_ok_def)
    qed
    have len: "length (jn_operations j') \<le> length (jn_operations j)" by (simp add: j')
    have srt: "sorted_wrt (<) (map jo_id (jn_operations j'))" "distinct (map jo_operationKey (jn_operations j'))"
      using ok by (simp_all add: j' journal_ok_def sorted_wrt_map sorted_wrt_filter distinct_map_filter)
    have rest: "jn_dust j' = jn_dust j" "jn_nextId j' = jn_nextId j" "set (jn_operations j') \<subseteq> set (jn_operations j)"
      by (auto simp: j')
    have dusts: "\<And>d. d \<in> set (jn_dust j') \<Longrightarrow> dust_ok (jn_operations j') d" using dust rest(1) by simp
    have lens: "length (jn_dust j') \<le> length (jn_dust j)" using rest(1) by simp
    have keys: "distinct (map dr_operationKey (jn_dust j'))" using journal_okD(4) [OF ok] rest(1) by simp
    have "journal_ok cf j'"
      by (rule journal_ok_shrink [OF ok rest(3,2) dusts len lens srt keys])
    moreover have gone': "\<forall>r \<in> set (jn_operations j) - set (jn_operations j'). prunable j nowMs r"
    proof
      fix r assume "r \<in> set (jn_operations j) - set (jn_operations j')"
      then have "r \<in> set (jn_operations j)" "jo_id r \<in> ids" by (simp_all add: j')
      then show "prunable j nowMs r" by (rule gone)
    qed
    moreover have "rows_step j j'"
      unfolding rows_step_def rest(2)
    proof (intro conjI ballI)
      fix r assume "r \<in> set (jn_operations j')"
      with rest(3) show "(\<exists>r0 \<in> set (jn_operations j). row_evolves r0 r) \<or> (jn_nextId j \<le> jo_id r \<and> jo_lifecycleState r = PREPARED)"
        using row_evolves_refl by blast
    next
      fix r0 assume "r0 \<in> set (jn_operations j)"
      with gone' show "(\<exists>r \<in> set (jn_operations j'). row_evolves r0 r)
          \<or> (jo_lifecycleState r0 \<in> TERMINAL_STATES \<and> find_dust j (jo_operationKey r0) = None)"
        using row_evolves_refl unfolding prunable_def by blast
    qed simp
    ultimately show ?thesis using rest by (simp add: j')
  qed
qed

lemma pruneDust_step:
  assumes ok: "journal_ok cf j" and t: "pruneDust windowMs nowMs j = Inr (n, j')"
  shows "journal_ok cf j' \<and> rows_step j j' \<and> jn_closed j' = jn_closed j \<and> jn_operations j' = jn_operations j
    \<and> window_sum j' windowMs nowMs = window_sum j windowMs nowMs"
proof -
  let ?cut = "max 0 (nowMs - windowMs)"
  let ?stale = "\<lambda>r. dr_state r = RELEASED \<or> (dr_state r = SPENT \<and> (case dr_spentAtMs r of None \<Rightarrow> False | Some t \<Rightarrow> t \<le> ?cut))"
  have j': "j' = j\<lparr>jn_dust := filter (\<lambda>r. \<not> ?stale r) (jn_dust j)\<rparr>"
    using t by (auto simp: pruneDust_def assertOpen_def Let_def split: if_splits)
  have "journal_ok cf j'"
    using ok journal_okD(3) [OF ok]
    by (intro journal_ok_shrink [OF ok]) (auto simp: j' journal_ok_def distinct_map_filter)
  moreover have "rows_step j j'" unfolding j' by (rule rows_step_same) simp_all
  moreover have "filter (counts_in_window ?cut) (filter (\<lambda>r. \<not> ?stale r) (jn_dust j)) = filter (counts_in_window ?cut) (jn_dust j)"
    unfolding filter_filter by (rule filter_cong) (auto simp: counts_in_window_def split: option.splits)
  then have "window_sum j' windowMs nowMs = window_sum j windowMs nowMs"
    unfolding window_sum_def j' by (simp del: filter_filter)
  ultimately show ?thesis by (simp add: j')
qed

section \<open>Steps and runs\<close>

lemma journal_step_ok:
  assumes s: "journal_step cf fs j j'" and ok: "journal_ok cf j" and cf: "config_ok cf"
  shows "journal_ok cf j' \<and> rows_step j j'"
  using s
proof cases
  case (Create input now row)
  with createPrepared_step [OF ok cf] show ?thesis by blast
next
  case (Transition key expected next_state patch now row)
  with transition_step [OF ok cf] show ?thesis by blast
next
  case (Receipt key receipt now row)
  with recordReceipt_step [OF ok] show ?thesis by blast
next
  case (Reserve request now res)
  with reserveDust_step [OF ok] show ?thesis by blast
next
  case (Spend key now d)
  with transitionDust_step [OF ok, of SPENT] show ?thesis by (auto simp: markDustSpent_def)
next
  case (Release key now d)
  with transitionDust_step [OF ok, of RELEASED] show ?thesis by (auto simp: releaseDust_def)
next
  case (Prune_terminal nowMs n)
  with pruneTerminal_step [OF ok] show ?thesis by blast
next
  case (Prune_dust windowMs nowMs n)
  with pruneDust_step [OF ok] show ?thesis by blast
next
  case Close
  with ok show ?thesis by (simp add: close_journal_def journal_ok_def rows_step_same)
next
  case Reopen
  with ok have "j' = j\<lparr>jn_closed := False\<rparr>" by (auto simp: open_journal_def Let_def bindR_eq_Inr)
  with ok show ?thesis by (simp add: journal_ok_def rows_step_same)
qed

lemma journal_run_ok: "journal_run cf fs j \<Longrightarrow> config_ok cf \<Longrightarrow> journal_ok cf j"
proof (induction rule: journal_run.induct)
  case Fresh
  then show ?case by (simp add: journal_ok_def fresh_journal_def config_ok_def)
qed (use journal_step_ok in blast)

lemma journal_run_steps: "(journal_step cf fs)\<^sup>*\<^sup>* j j' \<Longrightarrow> journal_run cf fs j \<Longrightarrow> journal_run cf fs j'"
  by (induction rule: rtranclp_induct) (auto intro: journal_run.Step)

text \<open>Evolution over many steps.\<close>

definition moves :: "lifecycle_state \<Rightarrow> lifecycle_state \<Rightarrow> bool" where
  "moves s t \<longleftrightarrow> t \<in> allowedTransitions s"

definition descends :: "journal_operation \<Rightarrow> journal_operation \<Rightarrow> bool" where
  "descends a b \<longleftrightarrow> jo_operationKey b = jo_operationKey a \<and> jo_jobId b = jo_jobId a
     \<and> jo_generation b = jo_generation a \<and> jo_offerHashes b = jo_offerHashes a \<and> jo_claim b = jo_claim a
     \<and> jo_operationKind b = jo_operationKind a \<and> jo_ttlExpiresAtMs b = jo_ttlExpiresAtMs a
     \<and> jo_deadlineAtMs b = jo_deadlineAtMs a \<and> moves\<^sup>*\<^sup>* (jo_lifecycleState a) (jo_lifecycleState b)
     \<and> extends_receipt (existing_receipt a) (existing_receipt b)"

lemma descends_refl: "descends r r"
  by (simp add: descends_def)

lemma descends_step: "descends a b \<Longrightarrow> row_evolves b c \<Longrightarrow> descends a c"
  unfolding descends_def row_evolves_def moves_def [symmetric]
  using extends_trans rtranclp.rtrancl_into_rtrancl by (metis (no_types, lifting))

lemma row_ids:
  assumes "journal_ok cf j" "r \<in> set (jn_operations j)" "r' \<in> set (jn_operations j)" "jo_id r = jo_id r'"
  shows "r = r'"
  using assms distinct_key_eq [of jo_id "jn_operations j"] unfolding journal_ok_def strict_sorted_iff by blast

text \<open>After any steps a row is still there, further along, or was terminal when it left.\<close>

definition traced :: "journal_operation \<Rightarrow> journal \<Rightarrow> bool" where
  "traced r j \<longleftrightarrow> jo_id r < jn_nextId j \<and> (\<exists>r'. jo_id r' = jo_id r \<and> descends r r' \<and> (r' \<in> set (jn_operations j)
     \<or> (jo_lifecycleState r' \<in> TERMINAL_STATES \<and> jo_id r \<notin> jo_id ` set (jn_operations j))))"

lemma traced_step:
  assumes tr: "traced r j" and ok: "journal_ok cf j" and rs: "rows_step j j'"
  shows "traced r j'"
proof -
  have n: "jo_id r < jn_nextId j'" "jn_nextId j \<le> jn_nextId j'" using tr rs by (auto simp: traced_def rows_step_def)
  from tr obtain r1 where r1: "jo_id r1 = jo_id r" "descends r r1" and lt: "jo_id r < jn_nextId j"
    and alt: "r1 \<in> set (jn_operations j) \<or> (jo_lifecycleState r1 \<in> TERMINAL_STATES \<and> jo_id r \<notin> jo_id ` set (jn_operations j))"
    unfolding traced_def by blast
  have old: "\<exists>r0 \<in> set (jn_operations j). row_evolves r0 r2" if "r2 \<in> set (jn_operations j')" "jo_id r2 = jo_id r" for r2
    using rs that lt unfolding rows_step_def by fastforce
  show ?thesis
  proof (cases "\<exists>r2 \<in> set (jn_operations j'). jo_id r2 = jo_id r")
    case True
    then obtain r2 where r2: "r2 \<in> set (jn_operations j')" "jo_id r2 = jo_id r" by blast
    from old [OF this] obtain r0 where r0: "r0 \<in> set (jn_operations j)" "row_evolves r0 r2" by blast
    then have id0: "jo_id r0 = jo_id r" using r2(2) by (simp add: row_evolves_def)
    then have "jo_id r \<in> jo_id ` set (jn_operations j)" using r0(1) by (metis image_eqI)
    with alt have "r1 \<in> set (jn_operations j)" by blast
    with row_ids [OF ok this r0(1)] r1 id0 have "r0 = r1" by simp
    with r0(2) descends_step [OF r1(2)] r2 n show ?thesis unfolding traced_def by blast
  next
    case False
    have "jo_lifecycleState r1 \<in> TERMINAL_STATES"
    proof (rule ccontr)
      assume "jo_lifecycleState r1 \<notin> TERMINAL_STATES"
      with alt rs obtain r2 where "r2 \<in> set (jn_operations j')" "row_evolves r1 r2" unfolding rows_step_def by blast
      with False r1(1) show False by (auto simp: row_evolves_def)
    qed
    moreover have "jo_id r \<notin> jo_id ` set (jn_operations j')" using False by (metis imageE)
    ultimately show ?thesis using n r1 unfolding traced_def by blast
  qed
qed

lemma steps_traced:
  assumes "(journal_step cf fs)\<^sup>*\<^sup>* j j'" "journal_run cf fs j" "config_ok cf" "r \<in> set (jn_operations j)"
  shows "traced r j'"
  using assms(1)
proof (induction rule: rtranclp_induct)
  case base
  then show ?case
    using assms(4) journal_run_ok [OF assms(2,3)] descends_refl unfolding traced_def journal_ok_def by blast
next
  case (step k k')
  have "journal_ok cf k" using journal_run_ok journal_run_steps assms step(1) by blast
  with journal_step_ok [OF step(2) this assms(3)] step.IH traced_step show ?case by blast
qed

lemma terminal_stuck: "moves\<^sup>*\<^sup>* s t \<Longrightarrow> s \<in> TERMINAL_STATES \<Longrightarrow> t = s"
  by (induction rule: converse_rtranclp_induct) (auto simp: moves_def TERMINAL_STATES_def)

text \<open>A transition the table allows is carried out when the clock and the ceilings permit.\<close>

definition empty_patch :: transition_patch where
  "empty_patch = \<lparr>tp_artifactKind = None, tp_artifactBytes = None, tp_receipt = None, tp_errorCode = None,
     tp_errorDetail = None, tp_retryCount = None, tp_nextRetryAtMs = None\<rparr>"

lemma transition_carried_out:
  assumes ok: "journal_ok cf j" and cf: "config_ok cf" and o: "\<not> jn_closed j" and r: "find_operation j key = Some r"
    and s: "next_state \<in> allowedTransitions (jo_lifecycleState r)" and n: "safe_at_least 1 now" "jo_createdAtMs r \<le> now"
    and fs: "\<forall>ops ds. fs ops ds \<le> cf_maxBytes cf"
  shows "\<exists>row j'. transition cf fs key (jo_lifecycleState r) next_state empty_patch now j = Inr (row, j')
    \<and> jo_createdAtMs row = jo_createdAtMs r"
proof -
  let ?p = "patched_row next_state empty_patch now r"
  have m: "r \<in> set (jn_operations j)" "jo_operationKey r = key" using find_operation_Some [OF r] by auto
  have rok: "row_ok r" using journal_okD(2) [OF ok m(1)] by simp
  have key: "text_ok 512 key" using rok m(2) by (simp add: row_ok_def prepared_ok_def)
  have p: "patch_ok most empty_patch" for most by (simp add: patch_ok_def empty_patch_def)
  have pok: "row_ok ?p" using patched_row_ok [OF rok p, of 0] by (simp add: max_safe_integer_def)
  have f: "find_operation (put_row ?p j) key = Some ?p"
    using put_row_rows(3) [OF journal_okD(1) [OF ok] m(1), of ?p] m(2) by (simp add: patched_row_def)
  have len: "int (length (jn_operations (put_row ?p j)) + length (jn_dust (put_row ?p j))) \<le> cf_maxRows cf"
    using ok by (simp add: journal_ok_def put_row_def)
  have c: "\<not> jn_closed (put_row ?p j)" using o by (simp add: put_row_def)
  have live: "jo_lifecycleState r \<notin> TERMINAL_STATES" using s by (auto simp: TERMINAL_STATES_def)
  have a: "require_operation j key = Inr r" using o r rok by (simp add: require_iff)
  have b: "require_operation (put_row ?p j) key = Inr ?p" using c f pok by (simp add: require_iff)
  have v: "validateTransitionPatch (cf_maxArtifactBytes cf) empty_patch = Inr ()" using p by simp
  have w: "assertWithinCeilings cf fs (put_row ?p j) = Inr ()" using len fs by simp
  have e: "tp_receipt empty_patch = None" by (simp add: empty_patch_def)
  have "transition cf fs key (jo_lifecycleState r) next_state empty_patch now j = Inr (?p, put_row ?p j)"
    using o key s n live by (auto simp: transition_def apply_transition_def assertOpen_def clock_def Let_def a b v w e)
  then show ?thesis by (auto simp: patched_row_def)
qed

end
