(* ===== verification/Journal_Outcome.thy ===== *)
theory Journal_Outcome
  imports Journal_Correct
begin

text \<open>
  What the journal promises its callers, over every run from an empty database: readable rows, a
  life cycle that only moves along the transition table, an exact round trip, progress, and a fee
  budget that no accepted reservation exceeds.
\<close>

section \<open>A small journal\<close>

definition no_size :: file_size where
  "no_size ops ds = 0"

definition sample_input :: prepared_operation where
  "sample_input = \<lparr>jo_operationKey = ''k'', jo_jobId = ''j'', jo_generation = 0, jo_offerHashes = [ident CHR ''a''],
     jo_claim = \<lparr>jc_inputs = [ident CHR ''b''], jc_payouts = []\<rparr>, jo_operationKind = MIRROR_RESERVATION,
     jo_ttlExpiresAtMs = 2000, jo_deadlineAtMs = 1000, jo_artifactKind = None, jo_artifactBytes = None,
     jo_receipt = None\<rparr>"

definition sample_row :: journal_operation where
  "sample_row = prepared_row sample_input 1 86402000 10"

definition sample_journal :: journal where
  "sample_journal = fresh_journal\<lparr>jn_operations := [sample_row], jn_nextId := 2\<rparr>"

definition sample_request :: dust_request where
  "sample_request = \<lparr>dq_operationKey = ''k'', dq_jobId = ''j'', dq_generation = 0, dq_amount = 5, dq_maxPerJob = 6,
     dq_maxPerWindow = 7, dq_windowMs = 1000\<rparr>"

definition sample_budget :: journal where
  "sample_budget = sample_journal\<lparr>jn_dust := [new_dust_row sample_request 20]\<rparr>"

lemma default_config: "normalizeOptions None None None None = Inr DEFAULT_JOURNAL_CONFIG"
  by (simp add: normalizeOptions_def DEFAULT_JOURNAL_CONFIG_def safe_at_least_def is_safe_integer_def max_safe_integer_def)

lemma default_ok: "config_ok DEFAULT_JOURNAL_CONFIG"
  by (rule normalizeOptions_ok [OF default_config])

lemma sample_prepared: "prepared_ok n sample_input"
  by (simp add: prepared_ok_def sample_input_def text_ok_def safe_at_least_def is_safe_integer_def
      max_safe_integer_def unique_sorted_hex_def js_uniq_def set_add_def is_lower_hex_digit_def)

lemma sample_row_ok: "row_ok sample_row"
  unfolding sample_row_def
  by (rule prepared_row_ok [OF sample_prepared order_refl])
    (simp_all add: safe_at_least_def is_safe_integer_def max_safe_integer_def sample_input_def)

lemma sample_fields: "jo_operationKey sample_row = ''k''" "jo_jobId sample_row = ''j''" "jo_generation sample_row = 0"
  "jo_lifecycleState sample_row = PREPARED" "jo_createdAtMs sample_row = 10"
  by (simp_all add: sample_row_def sample_input_def prepared_row_def prepared_operation.defs)

lemma sample_find: "find_operation sample_journal ''k'' = Some sample_row"
  by (simp add: find_operation_def sample_journal_def sample_fields)

lemma sample_create:
  "createPrepared DEFAULT_JOURNAL_CONFIG no_size sample_input 10 fresh_journal = Inr (sample_row, sample_journal)"
proof -
  have v: "requirePrepared n sample_input = Inr ()" for n using sample_prepared by simp
  have a: "assertWithinCeilings DEFAULT_JOURNAL_CONFIG no_size sample_journal = Inr ()"
    by (simp add: sample_journal_def fresh_journal_def DEFAULT_JOURNAL_CONFIG_def no_size_def)
  have r: "require_operation sample_journal ''k'' = Inr sample_row"
    using sample_find sample_row_ok by (simp add: require_iff sample_journal_def fresh_journal_def)
  have j: "fresh_journal\<lparr>jn_operations := [sample_row], jn_nextId := Suc (Suc 0)\<rparr> = sample_journal"
    by (simp add: sample_journal_def)
  have p: "prepared_row sample_input (Suc 0) (jo_ttlExpiresAtMs sample_input + cf_reconciliationMarginMs DEFAULT_JOURNAL_CONFIG) 10 = sample_row"
    by (simp add: sample_row_def sample_input_def DEFAULT_JOURNAL_CONFIG_def)
  have f: "jo_receipt sample_input = None" "jo_operationKey sample_input = ''k''" by (simp_all add: sample_input_def)
  have s: "safe_at_least 1 (jo_ttlExpiresAtMs sample_input + cf_reconciliationMarginMs DEFAULT_JOURNAL_CONFIG)" "safe_at_least 1 10"
    by (simp_all add: safe_at_least_def is_safe_integer_def max_safe_integer_def sample_input_def DEFAULT_JOURNAL_CONFIG_def)
  have e: "jn_operations fresh_journal = []" "jn_nextId fresh_journal = Suc 0" "\<not> jn_closed fresh_journal"
    "find_operation fresh_journal key = None" for key
    by (simp_all add: fresh_journal_def find_operation_def)
  show ?thesis
    by (simp add: createPrepared_def assertOpen_def clock_def Let_def v a r j p f s e)
qed

lemma sample_run: "journal_run DEFAULT_JOURNAL_CONFIG no_size sample_journal"
  by (rule journal_run.Step [OF journal_run.Fresh journal_step.Create [OF sample_create]])

lemma sample_reserve: "\<exists>d. reserveDust DEFAULT_JOURNAL_CONFIG no_size sample_request 20 sample_journal
  = Inr (Dust_accepted d 5, sample_budget)"
proof -
  let ?new = "new_dust_row sample_request 20"
  obtain d where d: "hydrateDust ?new = Inr d"
    using amount_text(2) [of ?new 5] by (auto simp: new_dust_row_def sample_request_def)
  have e: "find_dust sample_journal key = None" "jn_dust sample_journal = []" "\<not> jn_closed sample_journal" for key
    by (simp_all add: find_dust_def sample_journal_def fresh_journal_def)
  have a: "assertWithinCeilings DEFAULT_JOURNAL_CONFIG no_size sample_budget = Inr ()"
    by (simp add: sample_budget_def sample_journal_def fresh_journal_def DEFAULT_JOURNAL_CONFIG_def no_size_def)
  have q: "dq_operationKey sample_request = ''k''" "dq_jobId sample_request = ''j''" "dq_generation sample_request = 0"
    "dq_amount sample_request = 5" "dq_maxPerJob sample_request = 6" "dq_maxPerWindow sample_request = 7"
    "dq_windowMs sample_request = 1000" by (simp_all add: sample_request_def)
  have g: "text_ok 512 ''k''" "text_ok 512 ''j''" "safe_at_least 0 0" "safe_at_least 1 1000" "safe_at_least 1 20"
    by (simp_all add: text_ok_def safe_at_least_def is_safe_integer_def max_safe_integer_def)
  have b: "sample_journal\<lparr>jn_dust := [?new]\<rparr> = sample_budget" by (simp add: sample_budget_def)
  show ?thesis
    by (simp add: reserveDust_def assertOpen_def clock_def dustByOperationKey_def dust_usage_def Let_def
        q g e a b d sample_find sample_fields)
qed

lemma sample_budget_run: "journal_run DEFAULT_JOURNAL_CONFIG no_size sample_budget"
  using sample_reserve journal_run.Step [OF sample_run journal_step.Reserve] by blast

section \<open>Rows\<close>

lemma descends_terminal:
  "descends a b \<Longrightarrow> jo_lifecycleState a \<in> TERMINAL_STATES \<Longrightarrow> jo_lifecycleState b = jo_lifecycleState a"
  using terminal_stuck unfolding descends_def by blast

text \<open>C17: over every run from an empty database under validated options, operation keys
  and row ids stay unique, every row passes the reader's validation, every fee reservation is a
  positive canonical amount settled by its own operation, the rows stay within the configured
  number, and an open journal lists exactly its rows.\<close>

theorem journal_invariant:
  assumes "normalizeOptions maxRows maxBytes maxArtifactBytes margin = Inr cf" "journal_run cf fs j"
  shows "journal_ok cf j \<and> (jn_closed j \<or> list_operations j = Inr (jn_operations j))"
proof -
  have ok: "journal_ok cf j" using journal_run_ok normalizeOptions_ok assms by blast
  have "mapR hydrate rs = Inr rs" if "\<forall>r \<in> set rs. row_ok r" for rs
    using that by (induction rs) (auto simp: hydrate_iff bindR_eq_Inr)
  with ok show ?thesis by (auto simp: list_operations_def assertOpen_def journal_ok_def)
qed

theorem journal_invariant_witness:
  "journal_ok DEFAULT_JOURNAL_CONFIG sample_budget \<and> list_operations sample_budget = Inr [sample_row]"
  using journal_invariant [OF default_config sample_budget_run]
  by (simp add: sample_budget_def sample_journal_def fresh_journal_def)

text \<open>C18: however many operations follow, a row of the journal keeps its identity,
  terms and claim, its state has moved only along the transition table, its receipt has only gained
  fields, and it is either still stored or left the journal in a terminal state.\<close>

theorem journal_lifecycle:
  assumes "normalizeOptions maxRows maxBytes maxArtifactBytes margin = Inr cf" "journal_run cf fs j"
    "(journal_step cf fs)\<^sup>*\<^sup>* j j'" "r \<in> set (jn_operations j)"
  shows "\<exists>r'. jo_id r' = jo_id r \<and> descends r r'
    \<and> (if jo_lifecycleState r \<in> TERMINAL_STATES then jo_lifecycleState r' = jo_lifecycleState r else True)
    \<and> (r' \<in> set (jn_operations j')
        \<or> (jo_lifecycleState r' \<in> TERMINAL_STATES \<and> jo_id r \<notin> jo_id ` set (jn_operations j')))"
proof -
  have "traced r j'" using steps_traced assms normalizeOptions_ok by blast
  then obtain r' where r': "jo_id r' = jo_id r" "descends r r'" "r' \<in> set (jn_operations j')
      \<or> (jo_lifecycleState r' \<in> TERMINAL_STATES \<and> jo_id r \<notin> jo_id ` set (jn_operations j'))"
    unfolding traced_def by blast
  then show ?thesis using descends_terminal by (intro exI [of _ r']) simp
qed

theorem journal_lifecycle_witness:
  "\<exists>r'. jo_id r' = jo_id sample_row \<and> descends sample_row r'
     \<and> (r' = sample_row \<or> jo_lifecycleState r' \<in> TERMINAL_STATES)"
proof -
  have "(journal_step DEFAULT_JOURNAL_CONFIG no_size)\<^sup>*\<^sup>* sample_journal sample_budget"
    using sample_reserve journal_step.Reserve by blast
  from journal_lifecycle [OF default_config sample_run this, of sample_row] show ?thesis
    by (auto simp: sample_budget_def sample_journal_def)
qed

text \<open>C36: an operation the journal accepted is read back as it was put in, with its
  payouts sorted by token, in the state PREPARED.\<close>

theorem createPrepared_roundtrip:
  assumes "normalizeOptions maxRows maxBytes maxArtifactBytes margin = Inr cf" "journal_run cf fs j"
    "createPrepared cf fs input now j = Inr (row, j')"
  shows "get_operation j' (jo_operationKey input) = Inr (Some row) \<and> jo_lifecycleState row = PREPARED
    \<and> prepared_operation.truncate row
      = input\<lparr>jo_claim := (jo_claim input)\<lparr>jc_payouts := sort_key fst (jc_payouts (jo_claim input))\<rparr>\<rparr>"
proof -
  have cf: "config_ok cf" by (rule normalizeOptions_ok [OF assms(1)])
  note c = createPrepared_step [OF journal_run_ok [OF assms(2) cf] cf assms(3)]
  have "\<not> jn_closed j" using assms(3) by (auto simp: createPrepared_def assertOpen_def split: if_splits)
  moreover have "row_ok row" using journal_okD(2) [OF c(1)] find_operation_Some [OF c(3)] by blast
  ultimately have "get_operation j' (jo_operationKey input) = Inr (Some row)"
    using c(3,5) by (simp add: get_operation_def assertOpen_def hydrate_iff bindR_eq_Inr)
  with c(4) show ?thesis by (simp add: created_def)
qed

theorem createPrepared_roundtrip_witness: "get_operation sample_journal ''k'' = Inr (Some sample_row)"
  using createPrepared_roundtrip [OF default_config journal_run.Fresh sample_create] by (simp add: sample_input_def)

section \<open>Progress\<close>

lemma step_to:
  assumes ok: "journal_ok cf j" and cf: "config_ok cf" and o: "\<not> jn_closed j" and r: "find_operation j key = Some r"
    and s: "next_state \<in> allowedTransitions (jo_lifecycleState r)" and n: "safe_at_least 1 now" "jo_createdAtMs r \<le> now"
    and fs: "\<forall>ops ds. fs ops ds \<le> cf_maxBytes cf"
  obtains row j' where "journal_step cf fs j j'" "journal_ok cf j'" "\<not> jn_closed j'" "find_operation j' key = Some row"
    "jo_lifecycleState row = next_state" "jo_createdAtMs row \<le> now"
proof -
  from transition_carried_out [OF ok cf o r s n fs] obtain row j' where
    t: "transition cf fs key (jo_lifecycleState r) next_state empty_patch now j = Inr (row, j')"
    and c: "jo_createdAtMs row = jo_createdAtMs r" by blast
  from transition_step [OF ok cf t] c o n(2) journal_step.Transition [OF t] that [of j' row] show ?thesis by simp
qed

text \<open>C37: an open journal is never stuck. Whatever state a row is in, when the clock
  reads a time after its creation and the database stays under its size ceiling, some transitions
  bring it to a terminal state.\<close>

theorem journal_progress:
  assumes "normalizeOptions maxRows maxBytes maxArtifactBytes margin = Inr cf" "journal_run cf fs j"
    "\<not> jn_closed j" "find_operation j key = Some r" "safe_at_least 1 now" "jo_createdAtMs r \<le> now"
    "\<forall>ops ds. fs ops ds \<le> cf_maxBytes cf"
  shows "\<exists>j' r'. (journal_step cf fs)\<^sup>*\<^sup>* j j' \<and> find_operation j' key = Some r' \<and> jo_lifecycleState r' \<in> TERMINAL_STATES"
proof -
  have cf: "config_ok cf" by (rule normalizeOptions_ok [OF assms(1)])
  have ok: "journal_ok cf j" by (rule journal_run_ok [OF assms(2) cf])
  note go = step_to [OF _ cf _ _ _ assms(5) _ assms(7)]
  have last: ?thesis if t: "t \<in> TERMINAL_STATES" "t \<in> allowedTransitions (jo_lifecycleState r)" for t
  proof -
    obtain r1 j1 where "journal_step cf fs j j1" "find_operation j1 key = Some r1" "jo_lifecycleState r1 = t"
      by (rule go [OF ok assms(3,4) t(2) assms(6)])
    with t(1) show ?thesis by blast
  qed
  have two: ?thesis if rv: "REVERTING \<in> allowedTransitions (jo_lifecycleState r)"
  proof -
    obtain r1 j1 where 1: "journal_step cf fs j j1" "journal_ok cf j1" "\<not> jn_closed j1" "find_operation j1 key = Some r1"
      "jo_lifecycleState r1 = REVERTING" "jo_createdAtMs r1 \<le> now"
      by (rule go [OF ok assms(3,4) rv assms(6)])
    have "REVERTED \<in> allowedTransitions (jo_lifecycleState r1)" using 1(5) by simp
    then obtain r2 j2 where "journal_step cf fs j1 j2" "find_operation j2 key = Some r2" "jo_lifecycleState r2 = REVERTED"
      by (rule go [OF 1(2,3,4) _ 1(6)])
    with 1(1) show ?thesis
      by (intro exI [of _ j2] exI [of _ r2]) (simp add: TERMINAL_STATES_def rtranclp.rtrancl_into_rtrancl)
  qed
  show ?thesis
  proof (cases "jo_lifecycleState r \<in> TERMINAL_STATES")
    case True
    with assms(4) show ?thesis by blast
  next
    case False
    then show ?thesis using two last [of SETTLED] last [of REVERTED]
      by (cases "jo_lifecycleState r") (auto simp: TERMINAL_STATES_def)
  qed
qed

theorem journal_progress_witness:
  "\<exists>j' r'. (journal_step DEFAULT_JOURNAL_CONFIG no_size)\<^sup>*\<^sup>* sample_journal j' \<and> find_operation j' ''k'' = Some r'
     \<and> jo_lifecycleState r' \<in> TERMINAL_STATES"
  by (rule journal_progress [OF default_config sample_run _ sample_find, of 10])
    (simp_all add: sample_journal_def fresh_journal_def sample_fields safe_at_least_def is_safe_integer_def
      max_safe_integer_def no_size_def DEFAULT_JOURNAL_CONFIG_def)

section \<open>The fee budget\<close>

lemma dustUsage_value:
  "journal_ok cf j \<Longrightarrow> \<not> jn_closed j \<Longrightarrow> safe_at_least 1 windowMs \<Longrightarrow> safe_at_least 1 now \<Longrightarrow>
   dustUsage windowMs now j = Inr (window_sum j windowMs now)"
  by (simp add: dustUsage_def assertOpen_def dust_usage_value)

lemma dustUsage_iff:
  "journal_ok cf j \<Longrightarrow> dustUsage windowMs now j = Inr u \<longleftrightarrow>
   \<not> jn_closed j \<and> safe_at_least 1 windowMs \<and> safe_at_least 1 now \<and> u = window_sum j windowMs now"
  by (auto simp: dustUsage_def assertOpen_def dust_usage_value)

text \<open>C35: a fee reservation that is accepted anew leaves the window's usage, as the journal
  itself reports it, at the usage before plus its amount and within the caller's window ceiling, its
  amount within the per-job ceiling; a refusal leaves the journal unchanged and is given only when a
  ceiling would be exceeded; a replay leaves the journal as it is.\<close>

theorem dust_budget_respected:
  assumes "normalizeOptions maxRows maxBytes maxArtifactBytes margin = Inr cf" "journal_run cf fs j"
    "reserveDust cf fs input now j = Inr (res, j')"
  shows "case res of
      Dust_accepted d u \<Rightarrow> dustUsage (dq_windowMs input) now j' = Inr u \<and> ds_amount d = dq_amount input
        \<and> (if find_dust j (dq_operationKey input) = None
           then dustUsage (dq_windowMs input) now j = Inr (u - dq_amount input)
             \<and> u \<le> dq_maxPerWindow input \<and> dq_amount input \<le> dq_maxPerJob input
           else j' = j)
    | Dust_refused_per_job u \<Rightarrow> j' = j \<and> dq_maxPerJob input < dq_amount input
    | Dust_refused_window u \<Rightarrow> j' = j \<and> dustUsage (dq_windowMs input) now j = Inr u
        \<and> dq_maxPerWindow input < u + dq_amount input"
proof -
  have ok: "journal_ok cf j" using journal_run_ok normalizeOptions_ok assms(1,2) by blast
  note s = reserveDust_step [OF ok assms(3)]
  have g: "\<not> jn_closed j" "safe_at_least 1 (dq_windowMs input)" "safe_at_least 1 now"
    using assms(3) by (auto simp: reserveDust_def assertOpen_def clock_iff bind_unit)
  have "\<not> jn_closed j'" "journal_ok cf j'" using s g by auto
  note u = dustUsage_value [OF ok g] dustUsage_value [OF this(2,1) g(2,3)]
  show ?thesis using s by (cases res) (auto simp: u)
qed

theorem dust_budget_respected_witness: "dustUsage 1000 20 sample_budget = Inr 5 \<and> dustUsage 1000 20 sample_journal = Inr 0"
proof -
  obtain d where d: "reserveDust DEFAULT_JOURNAL_CONFIG no_size sample_request 20 sample_journal
    = Inr (Dust_accepted d 5, sample_budget)" using sample_reserve by blast
  have "find_dust sample_journal ''k'' = None" by (simp add: find_dust_def sample_journal_def fresh_journal_def)
  with dust_budget_respected [OF default_config sample_run d] show ?thesis by (simp add: sample_request_def)
qed

text \<open>Settling a reservation as spent leaves the usage of every window that ends now
  unchanged, releasing an active one lowers it by exactly its amount, a reservation settled the
  other way is refused, and no operation row changes.\<close>

theorem dust_settlement_exact:
  assumes "normalizeOptions maxRows maxBytes maxArtifactBytes margin = Inr cf" "journal_run cf fs j"
    "dustUsage windowMs now j = Inr u"
  shows "(case markDustSpent key now j of Inl e \<Rightarrow> True
      | Inr (d, j') \<Rightarrow> dustUsage windowMs now j' = Inr u \<and> jn_operations j' = jn_operations j
          \<and> (case find_dust j key of None \<Rightarrow> True | Some r \<Rightarrow> dr_state r \<noteq> RELEASED))
    \<and> (case releaseDust key now j of Inl e \<Rightarrow> True
      | Inr (d, j') \<Rightarrow> jn_operations j' = jn_operations j
          \<and> dustUsage windowMs now j' = Inr (u - (case find_dust j key of None \<Rightarrow> 0
              | Some r \<Rightarrow> if dr_state r = RESERVED then amount_of r else 0))
          \<and> (case find_dust j key of None \<Rightarrow> True | Some r \<Rightarrow> dr_state r \<noteq> SPENT))"
proof -
  have ok: "journal_ok cf j" using journal_run_ok normalizeOptions_ok assms(1,2) by blast
  from assms(3) have u: "\<not> jn_closed j" "safe_at_least 1 windowMs" "safe_at_least 1 now" "u = window_sum j windowMs now"
    by (simp_all add: dustUsage_iff [OF ok])
  have step: "jn_operations j' = jn_operations j
      \<and> dustUsage windowMs now j' = Inr (u - (case find_dust j key of None \<Rightarrow> 0
          | Some d \<Rightarrow> if dr_state d = RESERVED \<and> s = RELEASED then amount_of d else 0))
      \<and> (case find_dust j key of None \<Rightarrow> True | Some d \<Rightarrow> dr_state d \<in> {RESERVED, s})"
    if s: "s \<in> {SPENT, RELEASED}" "transitionDust key s now j = Inr (x, j')" for s x j'
  proof -
    note t = transitionDust_step [OF ok s, of windowMs]
    have w: "1 \<le> windowMs" using u(2) by (simp add: safe_at_least_def)
    have "dustUsage windowMs now j' = Inr (window_sum j' windowMs now)"
      using t u by (intro dustUsage_value [of cf]) auto
    with t w u(4) show ?thesis by simp
  qed
  have "case markDustSpent key now j of Inl e \<Rightarrow> True
      | Inr (d, j') \<Rightarrow> dustUsage windowMs now j' = Inr u \<and> jn_operations j' = jn_operations j
          \<and> (case find_dust j key of None \<Rightarrow> True | Some r \<Rightarrow> dr_state r \<noteq> RELEASED)"
  proof (cases "markDustSpent key now j")
    case (Inr p)
    then obtain d j' where p: "markDustSpent key now j = Inr (d, j')" by (cases p) auto
    show ?thesis using step [of SPENT d j'] p by (cases "find_dust j key") (auto simp: markDustSpent_def)
  qed simp
  moreover have "case releaseDust key now j of Inl e \<Rightarrow> True
      | Inr (d, j') \<Rightarrow> jn_operations j' = jn_operations j
          \<and> dustUsage windowMs now j' = Inr (u - (case find_dust j key of None \<Rightarrow> 0
              | Some r \<Rightarrow> if dr_state r = RESERVED then amount_of r else 0))
          \<and> (case find_dust j key of None \<Rightarrow> True | Some r \<Rightarrow> dr_state r \<noteq> SPENT)"
  proof (cases "releaseDust key now j")
    case (Inr p)
    then obtain d j' where p: "releaseDust key now j = Inr (d, j')" by (cases p) auto
    show ?thesis using step [of RELEASED d j'] p by (cases "find_dust j key") (auto simp: releaseDust_def)
  qed simp
  ultimately show ?thesis by blast
qed

theorem dust_settlement_exact_witness:
  "case releaseDust ''k'' 20 sample_budget of Inl e \<Rightarrow> True | Inr (d, j') \<Rightarrow> dustUsage 1000 20 j' = Inr 0"
proof -
  have ok: "journal_ok DEFAULT_JOURNAL_CONFIG sample_budget" by (rule journal_run_ok [OF sample_budget_run default_ok])
  have a: "amount_of (new_dust_row sample_request 20) = 5"
    using amount_text(1) [of "new_dust_row sample_request 20" 5] by (simp add: amount_of_def new_dust_row_def sample_request_def)
  have f: "find_dust sample_budget ''k'' = Some (new_dust_row sample_request 20)" "dr_state (new_dust_row sample_request 20) = RESERVED"
    by (simp_all add: find_dust_def sample_budget_def new_dust_row_def sample_request_def)
  have "dustUsage 1000 20 sample_budget = Inr 5"
    unfolding dustUsage_iff [OF ok] using a
    by (simp add: window_sum_def sample_budget_def sample_journal_def fresh_journal_def counts_in_window_def
        safe_at_least_def is_safe_integer_def max_safe_integer_def new_dust_row_def)
  from conjunct2 [OF dust_settlement_exact [OF default_config sample_budget_run this, of "''k''"]] show ?thesis
    by (cases "releaseDust ''k'' 20 sample_budget") (auto simp: f a)
qed

end
