(* ===== verification/Swap_Logic.thy ===== *)
theory Swap_Logic
  imports Swap_Reconcile Journal_Outcome
begin

text \<open>
  A program logic for the executor's handlers: what holds when a handler returns and when it throws,
  from what held before. Rules for every combinator, the journal calls' own guarantees, and the
  interface of an invariant of all handlers.
\<close>

section \<open>Validity\<close>

definition valid :: "('tx executor \<Rightarrow> bool) \<Rightarrow> ('tx, 'a) exec \<Rightarrow> ('a \<Rightarrow> 'tx executor \<Rightarrow> bool)
    \<Rightarrow> ('tx exn \<Rightarrow> 'tx executor \<Rightarrow> bool) \<Rightarrow> bool" where
  "valid P m Q E \<longleftrightarrow> (\<forall>s. P s \<longrightarrow> (case m s of (Inl e, s') \<Rightarrow> E e s' | (Inr x, s') \<Rightarrow> Q x s'))"

definition keeps :: "('tx executor \<Rightarrow> bool) \<Rightarrow> ('tx, 'a) exec \<Rightarrow> bool" where
  "keeps I m \<longleftrightarrow> valid I m (\<lambda>_. I) (\<lambda>_. I)"

named_theorems keeping

lemma validI:
  "(\<And>s x s'. P s \<Longrightarrow> m s = (Inr x, s') \<Longrightarrow> Q x s') \<Longrightarrow> (\<And>s e s'. P s \<Longrightarrow> m s = (Inl e, s') \<Longrightarrow> E e s') \<Longrightarrow> valid P m Q E"
  unfolding valid_def by (auto split: prod.splits sum.splits)

lemma valid_Inr: "valid P m Q E \<Longrightarrow> P s \<Longrightarrow> m s = (Inr x, s') \<Longrightarrow> Q x s'"
  unfolding valid_def by (auto split: prod.splits sum.splits)

lemma valid_Inl: "valid P m Q E \<Longrightarrow> P s \<Longrightarrow> m s = (Inl e, s') \<Longrightarrow> E e s'"
  unfolding valid_def by (auto split: prod.splits sum.splits)

lemma keepsI: "(\<And>s. I s \<Longrightarrow> I (snd (m s))) \<Longrightarrow> keeps I m"
  unfolding keeps_def valid_def by (auto split: prod.splits sum.splits; metis snd_conv)

lemma keepsD: "keeps I m \<Longrightarrow> I s \<Longrightarrow> I (snd (m s))"
  unfolding keeps_def valid_def by (cases "m s"; cases "fst (m s)") auto

lemma valid_weaken:
  "valid P m Q E \<Longrightarrow> (\<And>s. P' s \<Longrightarrow> P s) \<Longrightarrow> (\<And>x s. Q x s \<Longrightarrow> Q' x s) \<Longrightarrow> (\<And>e s. E e s \<Longrightarrow> E' e s) \<Longrightarrow> valid P' m Q' E'"
  by (rule validI) (meson valid_Inr valid_Inl)+

lemma valid_bind: "valid P m R E \<Longrightarrow> (\<And>x. valid (R x) (f x) Q E) \<Longrightarrow> valid P (bindE m f) Q E"
  unfolding valid_def bindE_def by (fastforce split: prod.splits sum.splits)

lemma valid_then: "valid P m (\<lambda>_. R) E \<Longrightarrow> valid R k Q E \<Longrightarrow> valid P (thenE m k) Q E"
  unfolding thenE_def by (rule valid_bind)

lemma thenE_assoc: "thenE (thenE m k) l = thenE m (thenE k l)"
  by (rule ext) (simp add: thenE_def bindE_def split: prod.splits sum.splits)

lemma bind_then: "bindE m (\<lambda>x. thenE (f x) k) = thenE (bindE m f) k"
  by (rule ext) (simp add: thenE_def bindE_def split: prod.splits sum.splits)

lemma returnE_then: "thenE (returnE x) m = m"
  by (rule ext) (simp add: thenE_def bindE_def returnE_def)

lemma valid_catch: "valid P m Q R \<Longrightarrow> (\<And>e. valid (R e) (h e) Q E) \<Longrightarrow> valid P (catchE m h) Q E"
  unfolding valid_def catchE_def by (fastforce split: prod.splits sum.splits)

lemma valid_return: "(\<And>s. P s \<Longrightarrow> Q x s) \<Longrightarrow> valid P (returnE x) Q E"
  unfolding valid_def returnE_def by simp

lemma valid_throw: "(\<And>s. P s \<Longrightarrow> E e s) \<Longrightarrow> valid P (throwE e) Q E"
  unfolding valid_def throwE_def by simp

lemma valid_modify: "(\<And>s. P s \<Longrightarrow> Q () (f s)) \<Longrightarrow> valid P (modifyE f) Q E"
  unfolding valid_def modifyE_def by simp

lemma valid_get: "(\<And>s. P s \<Longrightarrow> Q (f s) s) \<Longrightarrow> valid P (getE f) Q E"
  unfolding valid_def getE_def by simp

lemma valid_draw: "(\<And>s. P s \<Longrightarrow> Q (f (ex_tick s)) (s\<lparr>ex_tick := Suc (ex_tick s)\<rparr>)) \<Longrightarrow> valid P (draw f) Q E"
  unfolding valid_def draw_def by simp

lemma valid_readJ:
  "(\<And>s x. P s \<Longrightarrow> f (ex_journal s) = Inr x \<Longrightarrow> Q x s) \<Longrightarrow> (\<And>s e. P s \<Longrightarrow> E e s) \<Longrightarrow> valid P (readJ f) Q E"
  unfolding valid_def readJ_def by (auto split: sum.splits)

lemma valid_writeJ:
  "(\<And>s x j. P s \<Longrightarrow> f (ex_journal s) = Inr (x, j) \<Longrightarrow> Q x (s\<lparr>ex_journal := j\<rparr>)) \<Longrightarrow> (\<And>s e. P s \<Longrightarrow> E e s)
    \<Longrightarrow> valid P (writeJ f) Q E"
  unfolding valid_def writeJ_def by (auto split: sum.splits prod.splits)

lemma valid_liftResult:
  "(\<And>s x. P s \<Longrightarrow> r = Inr x \<Longrightarrow> Q x s) \<Longrightarrow> (\<And>s e. P s \<Longrightarrow> E e s) \<Longrightarrow> valid P (liftResult r) Q E"
  unfolding valid_def liftResult_def returnE_def throwE_def by (auto split: sum.splits)

lemma valid_liftJob:
  "(\<And>s x. P s \<Longrightarrow> r = Inr x \<Longrightarrow> Q x s) \<Longrightarrow> (\<And>s e. P s \<Longrightarrow> E e s) \<Longrightarrow> valid P (liftJob r) Q E"
  unfolding valid_def liftJob_def returnE_def throwE_def by (auto split: sum.splits job_failure.splits)

text \<open>Rules for what every handler keeps.\<close>

lemma keeps_bind [keeping]: "keeps I m \<Longrightarrow> (\<And>x. keeps I (f x)) \<Longrightarrow> keeps I (bindE m f)"
  unfolding keeps_def by (rule valid_bind)

lemma keeps_then [keeping]: "keeps I m \<Longrightarrow> keeps I k \<Longrightarrow> keeps I (thenE m k)"
  unfolding keeps_def by (rule valid_then)

lemma keeps_catch [keeping]: "keeps I m \<Longrightarrow> (\<And>e. keeps I (h e)) \<Longrightarrow> keeps I (catchE m h)"
  unfolding keeps_def by (rule valid_catch)

lemma keeps_attempt [keeping]: "keeps I m \<Longrightarrow> keeps I (attemptE m)"
  by (rule keepsI) (auto simp: attemptE_def split: prod.splits dest: keepsD)

lemma keeps_quiet [keeping]: "keeps I m \<Longrightarrow> keeps I (quietE m)"
  by (rule keepsI) (auto simp: quietE_def dest: keepsD)

lemma keeps_return [keeping]: "keeps I (returnE x)"
  by (rule keepsI) (simp add: returnE_def)

lemma keeps_throw [keeping]: "keeps I (throwE e)"
  by (rule keepsI) (simp add: throwE_def)

lemma keeps_get [keeping]: "keeps I (getE f)"
  by (rule keepsI) (simp add: getE_def)

lemma keeps_readJ [keeping]: "keeps I (readJ f)"
  by (rule keepsI) (simp add: readJ_def split: sum.splits)

lemma keeps_liftResult [keeping]: "keeps I (liftResult r)"
  by (rule keepsI) (simp add: liftResult_def returnE_def throwE_def split: sum.splits)

lemma keeps_liftJob [keeping]: "keeps I (liftJob r)"
  by (rule keepsI) (simp add: liftJob_def returnE_def throwE_def split: sum.splits job_failure.splits)

lemma keeps_when [keeping]: "(b \<Longrightarrow> keeps I m) \<Longrightarrow> keeps I (whenE b m)"
  by (simp add: whenE_def keeps_return)

lemma keeps_for [keeping]: "(\<And>x. keeps I (f x)) \<Longrightarrow> keeps I (forE f xs)"
  by (induction xs) (simp_all add: keeps_return keeps_then)

lemma keeps_map [keeping]: "(\<And>x. keeps I (f x)) \<Longrightarrow> keeps I (mapE f xs)"
  by (induction xs) (simp_all add: keeps_return keeps_bind)

lemma keeps_if [keeping]: "(b \<Longrightarrow> keeps I m) \<Longrightarrow> (\<not> b \<Longrightarrow> keeps I k) \<Longrightarrow> keeps I (if b then m else k)"
  by simp

lemma keeps_let [keeping]: "keeps I (f x) \<Longrightarrow> keeps I (Let x f)"
  by simp

lemma keeps_option [keeping]:
  "keeps I m \<Longrightarrow> (\<And>y. keeps I (f y)) \<Longrightarrow> keeps I (case x of None \<Rightarrow> m | Some y \<Rightarrow> f y)"
  by (simp split: option.splits)

lemma keeps_sum [keeping]:
  "(\<And>y. keeps I (f y)) \<Longrightarrow> (\<And>y. keeps I (g y)) \<Longrightarrow> keeps I (case x of Inl y \<Rightarrow> f y | Inr y \<Rightarrow> g y)"
  by (simp split: sum.splits)

lemma keeps_prod [keeping]: "(\<And>a b. keeps I (f a b)) \<Longrightarrow> keeps I (case p of (a, b) \<Rightarrow> f a b)"
  by (simp split: prod.splits)

lemma keeps_list [keeping]:
  "keeps I m \<Longrightarrow> (\<And>y ys. keeps I (f y ys)) \<Longrightarrow> keeps I (case x of [] \<Rightarrow> m | y # ys \<Rightarrow> f y ys)"
  by (simp split: list.splits)

lemma valid_any: "valid P m (\<lambda>_ _. True) (\<lambda>_ _. True)"
  by (rule validI) simp_all

lemma valid_const: "valid (\<lambda>_. C) m (\<lambda>_ _. C) (\<lambda>_ _. True)"
  by (rule validI) simp_all

lemma valid_conj: "valid P m Q E \<Longrightarrow> valid P m Q' E' \<Longrightarrow> valid P m (\<lambda>x s. Q x s \<and> Q' x s) (\<lambda>e s. E e s \<and> E' e s)"
  by (rule validI) (blast dest: valid_Inr valid_Inl)+

lemma valid_both:
  "valid P m (\<lambda>_. R) (\<lambda>_. R) \<Longrightarrow> valid P' m (\<lambda>_. S) (\<lambda>_ _. True) \<Longrightarrow> (\<And>s. P'' s \<Longrightarrow> P s \<and> P' s)
    \<Longrightarrow> valid P'' m (\<lambda>_ s. R s \<and> S s) (\<lambda>_. R)"
  by (rule validI) (blast dest: valid_Inr valid_Inl)+

lemma valid_attempt:
  assumes "valid P m Q E"
  shows "valid P (attemptE m) (\<lambda>x s. case x of Inl e \<Rightarrow> E e s | Inr y \<Rightarrow> Q y s) R"
proof (rule validI)
  fix s x s'
  assume s: "P s" and r: "attemptE m s = (Inr x, s')"
  then have "m s = (x, s')" by (auto simp: attemptE_def split: prod.splits)
  with valid_Inr [OF assms s] valid_Inl [OF assms s] show "case x of Inl e \<Rightarrow> E e s' | Inr y \<Rightarrow> Q y s'"
    by (auto split: sum.splits)
qed (simp add: attemptE_def split: prod.splits)

lemma keeps_pure:
  "keeps I m \<Longrightarrow> valid (\<lambda>_. True) m (\<lambda>x _. C x) (\<lambda>_ _. True) \<Longrightarrow> valid I m (\<lambda>x s. I s \<and> C x) (\<lambda>_ _. True)"
  unfolding keeps_def by (rule validI) (blast dest: valid_Inr)+

text \<open>A step that keeps what the rest needs.\<close>

lemma keeps_bind_valid:
  assumes "keeps P m" "\<And>x. valid P (f x) Q E" "\<And>e s. P s \<Longrightarrow> E e s"
  shows "valid P (bindE m f) Q E"
  by (rule valid_bind [OF valid_weaken [OF assms(1) [unfolded keeps_def]] assms(2)]) (use assms(3) in auto)

lemma keeps_then_valid: "keeps P m \<Longrightarrow> valid P k Q E \<Longrightarrow> (\<And>e s. P s \<Longrightarrow> E e s) \<Longrightarrow> valid P (thenE m k) Q E"
  unfolding thenE_def by (rule keeps_bind_valid)

lemma keeps_valid: "keeps P m \<Longrightarrow> (\<And>x s. P s \<Longrightarrow> Q x s) \<Longrightarrow> (\<And>e s. P s \<Longrightarrow> E e s) \<Longrightarrow> valid P m Q E"
  by (rule valid_weaken [of P m "\<lambda>_. P" "\<lambda>_. P"]) (simp_all add: keeps_def)

lemma valid_then_return: "valid P m (\<lambda>_. Q) E \<Longrightarrow> valid P (thenE m (returnE x)) (\<lambda>_. Q) E"
  by (erule valid_then) (simp add: valid_return)

section \<open>What the journal calls guarantee\<close>

lemma row_state_iff: "row_state j key = Some st \<longleftrightarrow> (\<exists>r. find_operation j key = Some r \<and> jo_lifecycleState r = st)"
  by (auto simp: row_state_def)

lemma written_state: "writeReceipt receipt row = Inr row' \<Longrightarrow> jo_lifecycleState row' = jo_lifecycleState row \<and> jo_operationKey row' = jo_operationKey row"
  by (auto simp: writeReceipt_iff)

lemma find_appended: "find P xs = None \<Longrightarrow> find P (xs @ [x]) = Some y \<Longrightarrow> y = x"
  by (induction xs) (auto split: if_splits)

lemma createPrepared_state:
  assumes "createPrepared cf fs input now j = Inr (row, j')"
  shows "row_state j' (jo_operationKey input) = Some PREPARED"
proof -
  from assms obtain row1 where n: "find_operation j (jo_operationKey input) = None"
    and w: "(case jo_receipt input of None \<Rightarrow> Inr (prepared_row input (jn_nextId j) (jo_ttlExpiresAtMs input + cf_reconciliationMarginMs cf) now)
        | Some r \<Rightarrow> writeReceipt r (prepared_row input (jn_nextId j) (jo_ttlExpiresAtMs input + cf_reconciliationMarginMs cf) now)) = Inr row1"
    and j': "j' = j\<lparr>jn_operations := jn_operations j @ [row1], jn_nextId := Suc (jn_nextId j)\<rparr>"
    and r: "require_operation j' (jo_operationKey input) = Inr row"
    by (auto simp: createPrepared_def bindR_eq_Inr Let_def)
  from w have s: "jo_lifecycleState row1 = PREPARED" by (auto simp: prepared_row_def prepared_operation.defs dest: written_state split: option.splits)
  from r have "find_operation j' (jo_operationKey input) = Some row" by (simp add: require_iff)
  with n have "row = row1" unfolding j' find_operation_def by (auto dest: find_appended)
  with \<open>find_operation j' (jo_operationKey input) = Some row\<close> s show ?thesis by (auto simp: row_state_iff)
qed

lemma find_put: "find_operation (put_row r j) (jo_operationKey r) = Some y \<Longrightarrow> y = r"
  unfolding find_operation_def put_row_def by (auto simp: find_Some_iff split: if_splits)

lemma transition_state:
  assumes "transition cf fs key expected next_state patch now j = Inr (row, j')"
  shows "row_state j' key = Some next_state"
proof -
  from assms obtain current where c: "require_operation j key = Inr current"
    and b: "(jo_lifecycleState current = next_state \<and> j' = j) \<or> apply_transition cf fs key next_state patch now current j = Inr (row, j')"
    by (auto simp: transition_def bindR_eq_Inr split: if_splits)
  from c have f: "find_operation j key = Some current" by (simp add: require_iff)
  then have k: "jo_operationKey current = key" by (auto dest: find_operation_Some)
  from b show ?thesis
  proof (elim disjE conjE)
    assume "apply_transition cf fs key next_state patch now current j = Inr (row, j')"
    then obtain row1 where w: "(case tp_receipt patch of None \<Rightarrow> Inr (patched_row next_state patch now current)
        | Some r \<Rightarrow> writeReceipt r (patched_row next_state patch now current)) = Inr row1"
      and j': "j' = put_row row1 j" and r: "require_operation j' key = Inr row"
      by (auto simp: apply_transition_def bindR_eq_Inr Let_def)
    from w k have s: "jo_lifecycleState row1 = next_state" "jo_operationKey row1 = key"
      by (auto simp: patched_row_def dest: written_state split: option.splits)
    from r have g: "find_operation (put_row row1 j) key = Some row" by (simp add: require_iff j')
    with find_put [of row1 j row] s have "row = row1" by simp
    with g s j' show ?thesis by (auto simp: row_state_iff)
  qed (use f in \<open>simp add: row_state_iff\<close>)
qed

lemma get_state: "get_operation j key = Inr (Some row) \<Longrightarrow> row_state j key = Some (jo_lifecycleState row)"
  by (auto simp: get_operation_def bindR_eq_Inr row_state_iff hydrate_iff split: option.splits)

end
