(* ===== verification/Swap_Safety.thy ===== *)
theory Swap_Safety
  imports Swap_Logic
begin

text \<open>
  The invariants every handler of the executor keeps. An invariant is an interface: what the journal,
  the stock and the log of wallet calls must satisfy, whatever the job maps hold. Three of them: every
  wallet call was authorized durably first, the journal is one that its own operations built, and the
  stock is one that reservations and releases built.
\<close>

section \<open>The interface of an invariant\<close>

fun required_state :: "wallet_call \<Rightarrow> lifecycle_state" where
  "required_state Call_initSwap = PREPARED"
| "required_state Call_finalize = PREPARED"
| "required_state Call_balance = PREPARED"
| "required_state Call_revert = REVERTING"
| "required_state Call_revertRaw = REVERTING"

text \<open>A call may be made only with its row in the state that authorizes it.\<close>

definition authorized :: "wallet_call \<Rightarrow> string \<Rightarrow> 'tx executor \<Rightarrow> bool" where
  "authorized c key s \<longleftrightarrow> row_state (ex_journal s) key = Some (required_state c)"

text \<open>First what holds as long as the stock is left alone, then what reservations and releases keep too.\<close>

locale executor_frame =
  fixes env :: "'tx swap_env" and I :: "'tx executor \<Rightarrow> bool"
  assumes frame: "I s \<Longrightarrow> ex_journal s' = ex_journal s \<Longrightarrow> ex_stock s' = ex_stock s \<Longrightarrow> ex_calls s' = ex_calls s \<Longrightarrow> I s'"
    and journal: "I s \<Longrightarrow> journal_step (se_journal env) (se_fileSize env) (ex_journal s) j \<Longrightarrow> I (s\<lparr>ex_journal := j\<rparr>)"
    and call: "I s \<Longrightarrow> row_state (ex_journal s) key = Some (required_state c)
      \<Longrightarrow> I (s\<lparr>ex_calls := ex_calls s @ [(c, key, Some (required_state c))]\<rparr>)"
begin

lemma keeps_modify [keeping]:
  "(\<And>s. ex_journal (f s) = ex_journal s) \<Longrightarrow> (\<And>s. ex_stock (f s) = ex_stock s) \<Longrightarrow> (\<And>s. ex_calls (f s) = ex_calls s)
    \<Longrightarrow> keeps I (modifyE f)"
  by (rule keepsI) (auto simp: modifyE_def intro: frame)

lemma keeps_draw [keeping]: "keeps I (draw f)"
  by (rule keepsI) (auto simp: draw_def intro: frame)

lemma keeps_writeJ:
  "(\<And>j x j'. f j = Inr (x, j') \<Longrightarrow> journal_step (se_journal env) (se_fileSize env) j j') \<Longrightarrow> keeps I (writeJ f)"
  by (rule keepsI) (auto simp: writeJ_def intro: journal split: sum.splits prod.splits)

lemmas journal_write = keeps_writeJ [OF journal_step.Transition] keeps_writeJ [OF journal_step.Create]
  keeps_writeJ [OF journal_step.Receipt] keeps_writeJ [OF journal_step.Reserve] keeps_writeJ [OF journal_step.Spend]
  keeps_writeJ [OF journal_step.Release] keeps_writeJ [OF journal_step.Prune_terminal] keeps_writeJ [OF journal_step.Prune_dust]

lemma keeps_transition [keeping]: "keeps I (j_transition env key a b patch)"
  unfolding j_transition_def by (intro keeping journal_write)

lemma keeps_create [keeping]: "keeps I (j_create env input)"
  unfolding j_create_def by (intro keeping journal_write)

lemma keeps_receipt [keeping]: "keeps I (j_receipt env key receipt)"
  unfolding j_receipt_def by (intro keeping journal_write)

lemma keeps_releaseDust [keeping]: "keeps I (j_releaseDust env key)"
  unfolding j_releaseDust_def by (intro keeping journal_write)

lemma keeps_spendDust [keeping]: "keeps I (j_spendDust env key)"
  unfolding j_spendDust_def by (intro keeping journal_write)

lemmas basics = j_get_def j_require_def job_group_def

lemma keeps_basics [keeping]: "keeps I (j_get key)" "keeps I (j_require key)" "keeps I (job_group jobId generation)"
  unfolding basics by (intro keeping)+

lemma keeps_guards [keeping]: "keeps I (owns r)" "keeps I (sameGeneration r)" "keeps I (retention r)" "keeps I (group_open r)"
  unfolding owns_def sameGeneration_def retention_def group_open_def by (intro keeping)+

lemma keeps_bookkeeping [keeping]:
  "keeps I (drop_building k)" "keeps I (drop_awaiting k)" "keeps I (drop_confirmation k)" "keeps I (drop_quarantined k)"
  "keeps I (set_building r)" "keeps I (set_awaiting r)" "keeps I (set_confirmation r)" "keeps I (set_quarantined r)"
  "keeps I (entomb k t)" "keeps I (modify_build g)" "keeps I (terminalError k reason)"
  unfolding drop_building_def drop_awaiting_def drop_confirmation_def drop_quarantined_def set_building_def set_awaiting_def
    set_confirmation_def set_quarantined_def entomb_def modify_build_def terminalError_def
  by (intro keeping; simp)+

lemma keeps_count [keeping]:
  "(\<And>s. ex_journal (f s) = ex_journal s) \<Longrightarrow> (\<And>s. ex_stock (f s) = ex_stock s) \<Longrightarrow> (\<And>s. ex_calls (f s) = ex_calls s)
    \<Longrightarrow> keeps I (count f)"
  unfolding count_def by (rule keeps_modify)

section \<open>The lifecycle marks\<close>

lemma keeps_move [keeping]: "keeps I (move env key a b)"
  unfolding move_def by (intro keeping)

lemma keeps_revert_row [keeping]: "keeps I (revert_row env key st)"
  unfolding revert_row_def by (intro keeping)

lemma keeps_quarantine [keeping]: "keeps I (quarantineRow env row code message)" "keeps I (quarantineGroup env k g code message)"
  unfolding quarantineRow_def quarantineGroup_def by (intro keeping)+

lemma keeps_relay_row [keeping]: "keeps I (relay_submitted_row env row)" "keeps I (settle_row env row)"
  unfolding relay_submitted_row_def settle_row_def Let_def
  by (cases "jo_lifecycleState row"; simp only: lifecycle_state.case; intro keeping)+

lemma keeps_marks [keeping]:
  "keeps I (markReverted env k g)" "keeps I (markFailed env k g message)" "keeps I (markAwaitingRelay env k g)"
  "keeps I (markRelaySubmitted env r txId)" "keeps I (markRelayFailed env r)" "keeps I (markSettled env k g key evidence)"
  "keeps I (applyArtifact env key kind bytes)" "keeps I (markOperationReverted env key)"
  unfolding markReverted_def markFailed_def markAwaitingRelay_def markRelaySubmitted_def markRelayFailed_def markSettled_def
    applyArtifact_def markOperationReverted_def
  by (intro keeping)+

lemma keeps_deadline [keeping]: "keeps I (fire_deadline env)"
  unfolding fire_deadline_def by (intro keeping; simp)

section \<open>Wallet calls\<close>

lemma log_call_ok: "valid (\<lambda>s. I s \<and> authorized c key s) (log_call c key) (\<lambda>_. I) (\<lambda>_. I)"
  unfolding log_call_def by (rule valid_modify) (auto simp: authorized_def dest: call)

lemma wallet_transaction_ok: "valid (\<lambda>s. I s \<and> authorized c key s) (wallet_transaction env c key) (\<lambda>_. I) (\<lambda>_. I)"
  unfolding wallet_transaction_def by (rule valid_then [OF log_call_ok]) (fold keeps_def, intro keeping)

lemma wallet_revert_ok: "valid (\<lambda>s. I s \<and> authorized c key s) (wallet_revert env c key) (\<lambda>_. I) (\<lambda>_. I)"
  unfolding wallet_revert_def by (rule valid_then [OF log_call_ok]) (fold keeps_def, intro keeping)

lemma transition_ok:
  "required_state c = b \<Longrightarrow> valid I (j_transition env key a b patch) (\<lambda>_ s. I s \<and> authorized c key s) (\<lambda>_. I)"
proof (rule validI)
  fix s x s'
  assume c: "required_state c = b" and i: "I s" and r: "j_transition env key a b patch s = (Inr x, s')"
  from keepsD [OF keeps_transition i] have "I (snd (j_transition env key a b patch s))" .
  with r c show "I s' \<and> authorized c key s'"
    by (auto simp: authorized_def j_transition_def bindE_def draw_def writeJ_def split: sum.splits prod.splits dest: transition_state)
next
  fix s e s'
  assume "I s" "j_transition env key a b patch s = (Inl e, s')"
  with keepsD [OF keeps_transition, of s key a b patch] show "I s'" by simp
qed

lemma create_ok:
  "required_state c = PREPARED \<Longrightarrow> valid I (j_create env input) (\<lambda>_ s. I s \<and> authorized c (jo_operationKey input) s) (\<lambda>_. I)"
proof (rule validI)
  fix s x s'
  assume c: "required_state c = PREPARED" and i: "I s" and r: "j_create env input s = (Inr x, s')"
  from keepsD [OF keeps_create i] have "I (snd (j_create env input s))" .
  with r c show "I s' \<and> authorized c (jo_operationKey input) s'"
    by (auto simp: authorized_def j_create_def bindE_def draw_def writeJ_def split: sum.splits prod.splits dest: createPrepared_state)
next
  fix s e s'
  assume "I s" "j_create env input s = (Inl e, s')"
  with keepsD [OF keeps_create, of s input] show "I s'" by simp
qed

lemma valid_keeps: "keeps I m \<Longrightarrow> valid I m (\<lambda>_. I) (\<lambda>_. I)"
  by (simp add: keeps_def)

lemma move_ok: "required_state c = b \<Longrightarrow> valid I (move env key a b) (\<lambda>_ s. I s \<and> authorized c key s) (\<lambda>_. I)"
  unfolding move_def by (rule valid_then [OF transition_ok]) (auto intro: valid_return)

lemma prepare_row_ok:
  "required_state c = PREPARED \<Longrightarrow> valid I (prepare_row env r key kind artifact) (\<lambda>_ s. I s \<and> authorized c key s) (\<lambda>_. I)"
  unfolding prepare_row_def
  by (rule valid_bind [OF valid_keeps [OF keeps_draw]])
     (use create_ok [where input = "prepared_input env r key kind _ artifact"] in \<open>simp add: prepared_input_def\<close>)

lemma prepareMutation_ok:
  "required_state c = PREPARED \<Longrightarrow> valid I (prepareMutation env r kind label) (\<lambda>key s. I s \<and> authorized c key s) (\<lambda>_. I)"
  unfolding prepareMutation_def Let_def by (rule valid_then [OF prepare_row_ok]) (auto intro: valid_return)

lemma keeps_prepared: "required_state c = PREPARED \<Longrightarrow> (\<And>key tx. keeps I (f key tx))
    \<Longrightarrow> keeps I (bindE (prepareMutation env r kind label) (\<lambda>key. bindE (wallet_transaction env c key) (f key)))"
  unfolding keeps_def by (rule valid_bind [OF prepareMutation_ok]) (auto intro: valid_bind [OF wallet_transaction_ok])

lemma keeps_reverting [keeping]: "required_state c = REVERTING \<Longrightarrow> keeps I k
    \<Longrightarrow> keeps I (thenE (move env key a REVERTING) (thenE (wallet_revert env c key) k))"
  unfolding keeps_def by (rule valid_then [OF move_ok]) (auto intro: valid_then [OF wallet_revert_ok])

lemma keeps_prepare_row [keeping]: "keeps I (prepare_row env r key kind artifact)"
  unfolding prepare_row_def by (intro keeping)

section \<open>The build\<close>

lemma keeps_checks [keeping]: "keeps I (check_current env route)" "keeps I (check_net env tx expected)" "keeps I (build_of g d)"
  "keeps I (push_pending key tx)" "keeps I (push_wallet tx)" "keeps I (transferPendingToFinalized a b tx)"
  unfolding check_current_def check_net_def build_of_def push_pending_def push_wallet_def transferPendingToFinalized_def
  by (intro keeping)+

lemma keeps_mutate [keeping]:
  "required_state c = PREPARED \<Longrightarrow> (\<And>x. keeps I (k x)) \<Longrightarrow> keeps I (mutate env r kind label c k)"
  unfolding mutate_def by (intro keeps_prepared keeping)

lemma keeps_residual [keeping]: "keeps I (build_residual env route r)"
  unfolding build_residual_def Let_def by (intro keeping; simp?)

lemma keeps_merge_makers [keeping]: "keeps I (merge_makers env byHash order txs earlier base)"
  by (induction order arbitrary: txs earlier base) (auto intro!: keeping split: option.splits list.splits)

lemma keeps_merge_all [keeping]: "keeps I (merge_all env base txs)"
  by (induction txs arbitrary: base) (auto intro!: keeping)

lemma keeps_base [keeping]: "keeps I (build_base env route txs)"
  unfolding build_base_def by (intro keeping)

lemma keeps_reserveDust [keeping]: "keeps I (writeJ (reserveDust (se_journal env) (se_fileSize env) request now))"
  by (intro journal_write)

lemma keeps_admit_dust [keeping]: "keeps I (admit_dust env r tx)"
  unfolding admit_dust_def by (intro keeping; simp split: dust_result.splits; intro conjI allI impI keeping; simp)

lemma keeps_dust [keeping]: "keeps I (build_dust env job route r base)"
  unfolding build_dust_def by (intro keeping; simp?)

lemma keeps_cleanup [keeping]: "keeps I (clean_finalized env x)" "keeps I (clean_pending env y)"
  unfolding clean_finalized_def clean_pending_def revert_contribution_def note_failed_revert_def thenE_assoc
  by (intro keeping; simp?)+

lemma keeps_clean_build [keeping]: "keeps I (clean_build env r e)"
  unfolding clean_build_def close_clean_build_def Let_def by (intro keeping; simp?)

lemma keeps_buildHalf [keeping]: "keeps I (buildHalf env job route txs r)"
  unfolding buildHalf_def build_steps_def by (intro keeping)

section \<open>Recovery\<close>

lemma authorize_revert_ok:
  "valid I (authorize_revert env r tx key) (\<lambda>_ s. I s \<and> authorized Call_revert key s) (\<lambda>_. I)"
  unfolding authorize_revert_def
proof (rule valid_bind)
  show "valid I (j_get key) (\<lambda>existing s. I s \<and> (\<forall>row. existing = Some row \<longrightarrow> row_state (ex_journal s) key = Some (jo_lifecycleState row))) (\<lambda>_. I)"
    unfolding j_get_def by (rule valid_readJ) (auto dest: get_state)
next
  fix existing
  show "valid (\<lambda>s. I s \<and> (\<forall>row. existing = Some row \<longrightarrow> row_state (ex_journal s) key = Some (jo_lifecycleState row)))
      (case existing of None \<Rightarrow> bindE (draw (se_now env)) (\<lambda>now. bindE (liftResult (se_serializeFinalized env tx)) (\<lambda>bytes.
           thenE (j_create env (prepared_input env r key JOB_REVERT now (Some (FINALIZED_TRANSACTION, bytes)))) (move env key PREPARED REVERTING)))
       | Some row \<Rightarrow> if jo_lifecycleState row = QUARANTINED
           then thenE (j_transition env key QUARANTINED REVERTING (no_patch\<lparr>tp_retryCount := Some (jo_retryCount row + 1)\<rparr>)) (returnE ())
           else if jo_lifecycleState row \<noteq> REVERTING then throwE (Failed ''unexpected durable revert state'') else returnE ())
      (\<lambda>_ s. I s \<and> authorized Call_revert key s) (\<lambda>_. I)"
  proof (cases existing)
    case None
    have "valid I (thenE (j_create env x) (move env key PREPARED REVERTING)) (\<lambda>_ s. I s \<and> authorized Call_revert key s) (\<lambda>_. I)" for x
      by (rule valid_then [OF valid_keeps [OF keeps_create] move_ok]) simp
    then show ?thesis
      unfolding None option.case
      by (intro valid_bind [OF valid_weaken [OF valid_keeps [OF keeps_draw]], where R = "\<lambda>_. I"]
          valid_bind [OF valid_keeps [OF keeps_liftResult]]) auto
  next
    case (Some row)
    have "valid I (thenE (j_transition env key QUARANTINED REVERTING patch) (returnE ())) (\<lambda>_ s. I s \<and> authorized Call_revert key s) (\<lambda>_. I)" for patch
      by (rule valid_then [OF transition_ok]) (auto intro: valid_return)
    note moved = valid_weaken [OF this]
    show ?thesis
      unfolding Some option.case by (auto intro!: moved valid_return valid_throw simp: authorized_def)
  qed
qed

lemma authorized_revert_valid: "valid I k Q (\<lambda>_. I)
    \<Longrightarrow> valid I (thenE (authorize_revert env r tx key) (thenE (wallet_revert env Call_revert key) k)) Q (\<lambda>_. I)"
  by (rule valid_then [OF authorize_revert_ok valid_then [OF wallet_revert_ok]])

lemma keeps_authorized_revert [keeping]: "keeps I k
    \<Longrightarrow> keeps I (thenE (authorize_revert env r tx key) (thenE (wallet_revert env Call_revert key) k))"
  unfolding keeps_def by (rule valid_then [OF authorize_revert_ok]) (auto intro: valid_then [OF wallet_revert_ok])

lemma keeps_failed_revert [keeping]: "keeps I (retain_failed_revert env r e)" "keeps I (retainRecoveryAmbiguity env r reason)"
  unfolding retain_failed_revert_def retainRecoveryAmbiguity_def by (intro keeping; simp)+

lemma keeps_conflicts [keeping]: "keeps I (source_conflict keys st)" "keeps I (target_conflict targets)"
proof -
  show s: "keeps I (source_conflict keys st)" for keys st
    by (induction keys) (auto intro!: keeping)
  show "keeps I (target_conflict targets)"
    by (induction targets) (auto intro!: keeping s)
qed

lemma keeps_restore [keeping]: "keeps I (restoreRecoveryTargets env k g)"
  unfolding restoreRecoveryTargets_def Let_def by (intro keeping)

lemma keeps_recover [keeping]: "keeps I (recover_target env r target)" "keeps I (recover_all env r)"
proof -
  show t: "keeps I (recover_target env r target)" for target
    unfolding recover_target_def Let_def by (intro keeping; simp)
  show "keeps I (recover_all env r)"
    unfolding recover_all_def by (intro keeping t)
qed

section \<open>The rest of a job that leaves the stock alone\<close>

lemma keeps_evidence [keeping]: "keeps I (readUniformEvidence env r)"
proof -
  have "keeps I (read_evidence env hashes)" for hashes
    by (induction hashes) (auto intro!: keeping)
  then show ?thesis unfolding readUniformEvidence_def by (intro keeping)
qed

lemma keeps_quarantineEvidence [keeping]: "keeps I (quarantineEvidence env r code reason)"
  unfolding quarantineEvidence_def by (intro keeping)

lemma keeps_retained [keeping]: "keeps I (retainCleanupFailure r e)" "keeps I (quarantine_unproved r)"
  unfolding retainCleanupFailure_def quarantine_unproved_def by (auto intro!: keeping split: exn.splits)

lemma keeps_hand_over [keeping]: "keeps I (hand_over env r built)"
  unfolding hand_over_def by (intro keeping)

lemma keeps_outcome [keeping]: "keeps I (build_outcome env job route r)"
  unfolding build_outcome_def by (intro keeping; simp)

lemma keeps_prune [keeping]: "keeps I (prune_journal env a b)"
  unfolding prune_journal_def by (intro keeping journal_write)

lemma keeps_next_generation [keeping]: "keeps I (next_generation k)" "keeps I (quarantine_in_flight env r)"
  unfolding next_generation_def quarantine_in_flight_def by (intro keeping)+

end

locale executor_invariant = executor_frame +
  assumes held: "I s \<Longrightarrow> reserve cl (ex_stock s) = (b, stock) \<Longrightarrow> I (s\<lparr>ex_stock := stock\<rparr>)"
    and freed: "I s \<Longrightarrow> I (s\<lparr>ex_stock := release cl (ex_stock s)\<rparr>)"
begin

lemma keeps_release [keeping]: "keeps I (release_claim cl)"
  by (rule keepsI) (simp add: release_claim_def modifyE_def freed)

lemma keeps_reserved [keeping]:
  assumes "\<And>b. keeps I (k b)"
  shows "keeps I (bindE (getE (\<lambda>s. reserve c (ex_stock s))) (\<lambda>(b, stock). thenE (modifyE (\<lambda>s. s\<lparr>ex_stock := stock\<rparr>)) (k b)))"
proof (rule keepsI)
  fix s
  assume "I s"
  obtain b stock where r: "reserve c (ex_stock s) = (b, stock)" by fastforce
  from keepsD [OF assms held [OF \<open>I s\<close> r]] show "I (snd (bindE (getE (\<lambda>s. reserve c (ex_stock s)))
      (\<lambda>(b, stock). thenE (modifyE (\<lambda>s. s\<lparr>ex_stock := stock\<rparr>)) (k b)) s))"
    by (simp add: bindE_def getE_def thenE_def modifyE_def r)
qed

lemma keeps_finish [keeping]: "keeps I (finish_reverted env r)" "keeps I (release_closed r)" "keeps I (finishSettled env r h n)"
  unfolding finish_reverted_def release_closed_def finishSettled_def by (intro keeping; simp)+

lemma keeps_revertWallet [keeping]: "keeps I (revertWallet env r tx)"
  unfolding revertWallet_def Let_def by (intro keeping)

lemma keeps_retry [keeping]: "keeps I (retryQuarantine env r)"
  unfolding retryQuarantine_def by (intro keeping)

lemma keeps_failures [keeping]: "keeps I (settle_failure env r e)" "keeps I (late_success env r tx)" "keeps I (late_failure env r e)"
  unfolding settle_failure_def late_success_def late_failure_def Let_def by (intro keeping)+

lemma keeps_run_job [keeping]: "keeps I (run_job env job route r)"
  unfolding run_job_def by (intro keeping; simp split: deadline.splits; intro conjI allI impI keeping)

lemma keeps_start_job [keeping]: "keeps I (start_job env job route)"
  unfolding start_job_def Let_def by (intro keeping)

lemma keeps_resolve [keeping]: "keeps I (resolve_job env job)"
  unfolding resolve_job_def
proof (rule keeps_bind [OF keeps_draw], rule keeps_bind [OF keeps_draw], rule keeps_bind [OF keeps_draw], rule keepsI)
  fix now fresh cache s
  assume i: "I s"
  let ?o = "job_route_options env s now fresh"
  show "I (snd (bindE (getE (\<lambda>s. s)) (\<lambda>s. case the (resolveSwapJobRoute (se_comparisons env) job cache (ex_stock s) (job_route_options env s now fresh)) of
         (r, stock) \<Rightarrow> thenE (modifyE (\<lambda>s. s\<lparr>ex_stock := stock\<rparr>)) (liftJob r)) s))"
  proof (cases rule: resolve_cases [of "se_comparisons env" job cache "ex_stock s" ?o])
    case (refused f)
    with i show ?thesis by (simp add: bindE_def getE_def thenE_def modifyE_def keepsD [OF keeps_liftJob])
  next
    case (admitted route stock' derived)
    with held i show ?thesis by (simp add: bindE_def getE_def thenE_def modifyE_def keepsD [OF keeps_liftJob])
  qed
qed

lemma keeps_executeSwap [keeping]: "keeps I (executeSwap env job)"
  unfolding executeSwap_def by (intro keeping)

section \<open>The other handlers\<close>

lemma keeps_reconcile [keeping]: "keeps I (reconcileRelayDone env r txId)" "keeps I (reconcileRelayFailure env r)"
  unfolding reconcileRelayDone_def reconcileRelayFailure_def revert_accepted_def Let_def
  by (intro keeping; simp split: evidence_read.splits; intro conjI allI impI keeping)+

lemma keeps_http [keeping]: "keeps I (reconcileFromHttp env r)"
  unfolding reconcileFromHttp_def by (intro keeping; simp split: relay_job_status.splits; intro conjI allI impI keeping)

lemma keeps_durable [keeping]: "keeps I (reconcileDurableEvidence env r)"
  unfolding reconcileDurableEvidence_def Let_def by (intro keeping)

lemma keeps_sweep [keeping]: "keeps I (sweep_quarantined env r)" "keeps I (sweep_awaiting env t r)" "keeps I (stop_awaiting env r)"
  unfolding sweep_quarantined_def sweep_awaiting_def stop_awaiting_def by (intro keeping)+

lemma keeps_runSweep [keeping]: "keeps I (runSweep env)"
  unfolding runSweep_def by (intro keeping; simp)

lemma keeps_reopen [keeping]: "keeps I (reopen_job env settlements row)"
  unfolding reopen_job_def reopen_terminal_def reopen_open_def reopen_artifacts_def Let_def by (intro keeping; simp?)

lemma keeps_startup [keeping]: "keeps I (reconcileStartup env)"
  unfolding reconcileStartup_def Let_def by (intro keeping; simp)

lemma keeps_stop [keeping]: "keeps I (stop_executor env)"
  unfolding stop_executor_def by (intro keeping; simp)

lemma keeps_handle: "keeps I (handle env ev)"
  unfolding handle_def onTxSubmitted_def onSubmitFailed_def notifyConsumed_def
  by (cases ev; simp only: swap_event.case; intro keeping)

lemma swap_run_keeps: "I s \<Longrightarrow> I (swap_run env evs s)"
  by (induction evs arbitrary: s) (auto simp: keepsD [OF keeps_handle])

end

section \<open>Every run is authorized\<close>

definition calls_authorized :: "'tx executor \<Rightarrow> bool" where
  "calls_authorized s \<longleftrightarrow> list_all (\<lambda>(c, key, st). st = Some (required_state c)) (ex_calls s)"

interpretation call_log: executor_invariant env calls_authorized for env :: "'tx swap_env"
  by unfold_locales (auto simp: calls_authorized_def)

interpretation journal_history: executor_invariant env "\<lambda>s. (journal_step (se_journal env) (se_fileSize env))\<^sup>*\<^sup>* j (ex_journal s)"
  for env :: "'tx swap_env" and j
  by unfold_locales (auto intro: rtranclp.rtrancl_into_rtrancl)

text \<open>
  C13: in every run of the executor, whatever the wallet, the relay, the ledger and the clock
  answer and whenever a build's deadline fires, the journal evolves only by its own operations, and
  every wallet call is made under durable authority: a mutation while its row is \<open>PREPARED\<close>, a revert
  while its row is \<open>REVERTING\<close>.
\<close>

theorem wallet_calls_authorized:
  "list_all (\<lambda>(c, key, st). st = Some (required_state c)) (ex_calls (swap_run env evs (fresh_executor j stock)))
   \<and> (journal_step (se_journal env) (se_fileSize env))\<^sup>*\<^sup>* j (ex_journal (swap_run env evs (fresh_executor j stock)))"
proof
  have "calls_authorized (fresh_executor j stock)" by (simp add: calls_authorized_def fresh_executor_def)
  from call_log.swap_run_keeps [OF this]
  show "list_all (\<lambda>(c, key, st). st = Some (required_state c)) (ex_calls (swap_run env evs (fresh_executor j stock)))"
    by (simp add: calls_authorized_def)
  have "(journal_step (se_journal env) (se_fileSize env))\<^sup>*\<^sup>* j (ex_journal (fresh_executor j stock))" by (simp add: fresh_executor_def)
  from journal_history.swap_run_keeps [OF this]
  show "(journal_step (se_journal env) (se_fileSize env))\<^sup>*\<^sup>* j (ex_journal (swap_run env evs (fresh_executor j stock)))" .
qed

end
