(* ===== verification/Swap_Closing.thy ===== *)
theory Swap_Closing
  imports Swap_Safety
begin

text \<open>
  When a job's claim leaves the stock: every mark that ends a job leaves all rows of its generation in a
  terminal state, and only after such a mark is the claim released.
\<close>

section \<open>Rows under transitions\<close>

definition row_ident :: "journal_operation \<Rightarrow> string \<times> string \<times> int" where
  "row_ident r = (jo_operationKey r, jo_jobId r, jo_generation r)"

definition terminal_at :: "journal \<Rightarrow> string \<Rightarrow> bool" where
  "terminal_at j key \<longleftrightarrow> (case row_state j key of None \<Rightarrow> False | Some st \<Rightarrow> state_terminal st)"

definition group_closed :: "string \<Rightarrow> int \<Rightarrow> journal \<Rightarrow> bool" where
  "group_closed jobId generation j \<longleftrightarrow>
     list_all (\<lambda>r. in_group jobId generation r \<longrightarrow> state_terminal (jo_lifecycleState r)) (jn_operations j)"

text \<open>The same rows, and what was terminal still is.\<close>

definition advanced :: "journal \<Rightarrow> journal \<Rightarrow> bool" where
  "advanced j j' \<longleftrightarrow> map row_ident (jn_operations j') = map row_ident (jn_operations j) \<and> (\<forall>k. terminal_at j k \<longrightarrow> terminal_at j' k)"

lemma advanced_refl [simp]: "advanced j j"
  by (simp add: advanced_def)

lemma advanced_trans: "advanced a b \<Longrightarrow> advanced b c \<Longrightarrow> advanced a c"
  by (simp add: advanced_def)

lemma terminal_states: "state_terminal st \<longleftrightarrow> st \<in> TERMINAL_STATES"
  by (auto simp: state_terminal_def TERMINAL_STATES_def)

lemma find_put_other: "k \<noteq> jo_operationKey r \<Longrightarrow> find_operation (put_row r j) k = find_operation j k"
proof -
  assume "k \<noteq> jo_operationKey r"
  then have "find (\<lambda>x. jo_operationKey x = k) (map (\<lambda>x. if jo_operationKey x = jo_operationKey r then r else x) xs)
      = find (\<lambda>x. jo_operationKey x = k) xs" for xs
    by (induction xs) auto
  then show ?thesis by (simp add: find_operation_def put_row_def)
qed

lemma transition_advances:
  assumes t: "transition cf fs key expected next_state patch now j = Inr (row, j')" and ok: "journal_ok cf j"
  shows "advanced j j'"
proof -
  from t obtain current where c: "require_operation j key = Inr current"
    and b: "j' = j \<or> (next_state \<in> allowedTransitions (jo_lifecycleState current)
      \<and> apply_transition cf fs key next_state patch now current j = Inr (row, j'))"
    by (auto simp: transition_def bindR_eq_Inr split: if_splits)
  from c have f: "find_operation j key = Some current" by (simp add: require_iff)
  then have m: "current \<in> set (jn_operations j)" "jo_operationKey current = key" by (auto dest: find_operation_Some)
  from b show ?thesis
  proof (elim disjE conjE)
    assume n: "next_state \<in> allowedTransitions (jo_lifecycleState current)"
      and "apply_transition cf fs key next_state patch now current j = Inr (row, j')"
    then obtain row1 where w: "(case tp_receipt patch of None \<Rightarrow> Inr (patched_row next_state patch now current)
        | Some r \<Rightarrow> writeReceipt r (patched_row next_state patch now current)) = Inr row1" and j': "j' = put_row row1 j"
      by (auto simp: apply_transition_def bindR_eq_Inr Let_def)
    from w have i: "row_ident row1 = row_ident current"
      by (auto simp: row_ident_def patched_row_def writeReceipt_iff split: option.splits)
    then have k: "jo_operationKey row1 = jo_operationKey current" by (simp add: row_ident_def)
    have live: "\<not> state_terminal (jo_lifecycleState current)" using n by (auto simp: terminal_states TERMINAL_STATES_def)
    have "terminal_at j k' \<Longrightarrow> terminal_at j' k'" for k'
      using live f k m(2) find_put_other [of k' row1 j] by (cases "k' = key") (auto simp: terminal_at_def row_state_def j')
    then show ?thesis
      using spec [OF put_row_rows(2) [OF journal_okD(1) [OF ok] m(1) k], of row_ident] i by (simp add: advanced_def j')
  qed simp
qed

lemma same_rows_advance: "jn_operations j' = jn_operations j \<Longrightarrow> advanced j j'"
  by (simp add: advanced_def terminal_at_def row_state_def find_operation_def)

lemma releaseDust_rows: "releaseDust key now j = Inr (d, j') \<Longrightarrow> jn_operations j' = jn_operations j"
  by (auto simp: releaseDust_def transitionDust_def bindR_eq_Inr Let_def split: option.splits if_splits)

lemma spendDust_rows: "markDustSpent key now j = Inr (d, j') \<Longrightarrow> jn_operations j' = jn_operations j"
  by (auto simp: markDustSpent_def transitionDust_def bindR_eq_Inr Let_def split: option.splits if_splits)

lemma listed_rows: "list_operations j = Inr rows \<Longrightarrow> rows = jn_operations j"
proof -
  have "mapR hydrate xs = Inr ys \<Longrightarrow> ys = xs" for xs ys
    by (induction xs arbitrary: ys) (auto simp: bindR_eq_Inr hydrate_iff)
  then show "list_operations j = Inr rows \<Longrightarrow> rows = jn_operations j" by (auto simp: list_operations_def bindR_eq_Inr)
qed

lemma found_row:
  assumes "distinct (map jo_operationKey (jn_operations j))" "b \<in> set (jn_operations j)"
  shows "find_operation j (jo_operationKey b) = Some b"
proof (cases "find_operation j (jo_operationKey b)")
  case None
  then show ?thesis using assms(2) by (auto simp: find_operation_None)
next
  case (Some c)
  from distinct_key_eq [OF assms(1) _ assms(2)] find_operation_Some [OF this] have "c = b" by blast
  with Some show ?thesis by simp
qed

text \<open>A row of the generation after the marks was one before, under the same key.\<close>

lemma advanced_row:
  assumes "advanced j j'" "distinct (map jo_operationKey (jn_operations j'))" "b \<in> set (jn_operations j')" "in_group jobId generation b"
  shows "\<exists>a \<in> set (filter (in_group jobId generation) (jn_operations j)). jo_operationKey a = jo_operationKey b"
proof -
  have "set (map row_ident (jn_operations j')) = set (map row_ident (jn_operations j))" using assms(1) by (simp only: advanced_def)
  then have "row_ident b \<in> row_ident ` set (jn_operations j)" using assms(3) by (metis image_eqI set_map)
  then obtain a where "a \<in> set (jn_operations j)" "row_ident a = row_ident b" by (metis imageE)
  with assms(4) show ?thesis by (auto simp: row_ident_def in_group_def)
qed

lemma advanced_closes:
  assumes "advanced j j'" "distinct (map jo_operationKey (jn_operations j'))"
    "\<forall>r \<in> set (filter (in_group jobId generation) (jn_operations j)). terminal_at j' (jo_operationKey r)"
  shows "group_closed jobId generation j'"
  unfolding group_closed_def list_all_iff
proof (intro ballI impI)
  fix b
  assume b: "b \<in> set (jn_operations j')" "in_group jobId generation b"
  from advanced_row [OF assms(1,2) b] assms(3) have "terminal_at j' (jo_operationKey b)" by force
  with found_row [OF assms(2) b(1)] show "state_terminal (jo_lifecycleState b)" by (simp add: terminal_at_def row_state_def)
qed

section \<open>The marks\<close>

lemma valid_for:
  assumes "\<And>x. valid I (f x) (\<lambda>_ s. I s \<and> D x s) E" "\<And>x y. valid (\<lambda>s. I s \<and> D x s) (f y) (\<lambda>_ s. I s \<and> D x s) E"
  shows "valid I (forE f xs) (\<lambda>_ s. I s \<and> (\<forall>x \<in> set xs. D x s)) E"
proof -
  have "valid (\<lambda>s. I s \<and> (\<forall>x \<in> A. D x s)) (forE f xs) (\<lambda>_ s. I s \<and> (\<forall>x \<in> A \<union> set xs. D x s)) E" for A
  proof (induction xs arbitrary: A)
    case Nil
    then show ?case by (auto intro: valid_return)
  next
    case (Cons y ys)
    have "valid (\<lambda>s. I s \<and> (\<forall>x \<in> A. D x s)) (f y) (\<lambda>_ s. I s \<and> (\<forall>x \<in> insert y A. D x s)) E"
      by (rule validI) (use valid_Inr [OF assms(1)] valid_Inr [OF assms(2)] valid_Inl [OF assms(1)] in blast)+
    from valid_then [OF this Cons.IH] show ?case by simp
  qed
  from this [of "{}"] show ?thesis by simp
qed

definition marking :: "'tx swap_env \<Rightarrow> stock \<Rightarrow> journal \<Rightarrow> 'tx executor \<Rightarrow> bool" where
  "marking env st j0 s \<longleftrightarrow> config_ok (se_journal env) \<and> journal_ok (se_journal env) (ex_journal s)
     \<and> ex_stock s = st \<and> advanced j0 (ex_journal s)"

lemma marking_same_rows:
  assumes "marking env st j0 s" "journal_step (se_journal env) (se_fileSize env) (ex_journal s) j" "jn_operations j = jn_operations (ex_journal s)"
  shows "marking env st j0 (s\<lparr>ex_journal := j\<rparr>)"
  using assms journal_step_ok same_rows_advance [OF assms(3)] by (auto simp: marking_def intro: advanced_trans)

lemma marking_frame: "marking env st j0 s \<Longrightarrow> ex_journal s' = ex_journal s \<Longrightarrow> ex_stock s' = ex_stock s \<Longrightarrow> marking env st j0 s'"
  by (simp add: marking_def)

lemma marking_draw: "valid (marking env st j0) (draw f) (\<lambda>_. marking env st j0) E"
  by (rule valid_draw) (erule marking_frame; simp)

lemma transition_marks:
  "valid (marking env st j0) (j_transition env key a b patch)
     (\<lambda>_ s. marking env st j0 s \<and> row_state (ex_journal s) key = Some b) (\<lambda>_. marking env st j0)"
  unfolding j_transition_def
proof (rule valid_bind [OF marking_draw], rule valid_writeJ)
  fix now s x j
  assume m: "marking env st j0 s" and t: "transition (se_journal env) (se_fileSize env) key a b patch now (ex_journal s) = Inr (x, j)"
  then have "journal_ok (se_journal env) j" using journal_step_ok [OF journal_step.Transition [OF t]] by (auto simp: marking_def)
  with m t transition_advances [OF t] transition_state [OF t]
  show "marking env st j0 (s\<lparr>ex_journal := j\<rparr>) \<and> row_state (ex_journal (s\<lparr>ex_journal := j\<rparr>)) key = Some b"
    by (auto simp: marking_def intro: advanced_trans)
qed

lemma move_marks:
  "valid (marking env st j0) (move env key a b)
     (\<lambda>_ s. marking env st j0 s \<and> row_state (ex_journal s) key = Some b) (\<lambda>_. marking env st j0)"
  unfolding move_def by (rule valid_then [OF transition_marks]) (auto intro: valid_return)

lemmas move_only = valid_weaken [OF move_marks]

lemma move_ends: "state_terminal b \<Longrightarrow> valid (marking env st j0) (move env key a b)
     (\<lambda>_ s. marking env st j0 s \<and> terminal_at (ex_journal s) key) (\<lambda>_. marking env st j0)"
  by (rule move_only) (auto simp: terminal_at_def)

text \<open>Whatever a handler that only marks does, a closed row stays closed.\<close>

lemma stays_terminal:
  assumes "\<And>j0. valid (marking env st j0) m (\<lambda>_. marking env st j0) (\<lambda>_. marking env st j0)"
  shows "valid (\<lambda>s. marking env st j0 s \<and> terminal_at (ex_journal s) key) m
    (\<lambda>_ s. marking env st j0 s \<and> terminal_at (ex_journal s) key) (\<lambda>_. marking env st j0)"
proof (rule validI)
  fix s x s'
  assume s: "marking env st j0 s \<and> terminal_at (ex_journal s) key" and r: "m s = (Inr x, s')"
  then have "marking env st (ex_journal s) s" by (simp add: marking_def)
  from valid_Inr [OF assms this r] have "advanced (ex_journal s) (ex_journal s')" by (simp add: marking_def)
  with s valid_Inr [OF assms _ r, of j0] show "marking env st j0 s' \<and> terminal_at (ex_journal s') key"
    by (auto simp: advanced_def)
next
  fix s e s'
  assume "marking env st j0 s \<and> terminal_at (ex_journal s) key" "m s = (Inl e, s')"
  with valid_Inl [OF assms, of j0] show "marking env st j0 s'" by blast
qed

lemma required_row:
  "valid (marking env st j0) (j_require key) (\<lambda>row s. marking env st j0 s \<and> jo_operationKey row = key
     \<and> row_state (ex_journal s) key = Some (jo_lifecycleState row)) (\<lambda>_. marking env st j0)"
  unfolding j_require_def by (rule valid_readJ) (auto simp: require_iff row_state_iff dest: find_operation_Some)

text \<open>A loop that ends every row of the generation closes the generation.\<close>

lemma closing_loop:
  assumes body: "\<And>row j0. valid (\<lambda>s. marking env st j0 s \<and> row_state (ex_journal s) (jo_operationKey row) = Some (jo_lifecycleState row))
      (h row) (\<lambda>_ s. marking env st j0 s \<and> terminal_at (ex_journal s) (jo_operationKey row)) (\<lambda>_. marking env st j0)"
  shows "valid (marking env st j0)
      (bindE (job_group jobId generation) (\<lambda>rows. forE (\<lambda>initial. bindE (j_require (jo_operationKey initial)) h) (terminalOrder rows)))
      (\<lambda>_ s. marking env st j0 s \<and> group_closed jobId generation (ex_journal s)) (\<lambda>_. marking env st j0)"
proof -
  let ?f = "\<lambda>initial. bindE (j_require (jo_operationKey initial)) h"
  have one: "valid (marking env st j0) (?f x) (\<lambda>_ s. marking env st j0 s \<and> terminal_at (ex_journal s) (jo_operationKey x)) (\<lambda>_. marking env st j0)"
    for x j0
  proof (rule valid_bind [OF required_row])
    fix row
    show "valid (\<lambda>s. marking env st j0 s \<and> jo_operationKey row = jo_operationKey x
          \<and> row_state (ex_journal s) (jo_operationKey x) = Some (jo_lifecycleState row)) (h row)
        (\<lambda>_ s. marking env st j0 s \<and> terminal_at (ex_journal s) (jo_operationKey x)) (\<lambda>_. marking env st j0)"
    proof (cases "jo_operationKey row = jo_operationKey x")
      case True
      then show ?thesis using body [of j0 row] by simp
    qed (simp add: valid_def)
  qed
  have keep: "valid (\<lambda>s. marking env st j0 s \<and> terminal_at (ex_journal s) (jo_operationKey x)) (?f y)
      (\<lambda>_ s. marking env st j0 s \<and> terminal_at (ex_journal s) (jo_operationKey x)) (\<lambda>_. marking env st j0)" for x y j0
    by (rule stays_terminal) (rule valid_weaken [OF one], auto)
  have loop: "valid (marking env st j) (forE ?f xs) (\<lambda>_ s. marking env st j s \<and> (\<forall>x \<in> set xs. terminal_at (ex_journal s) (jo_operationKey x)))
      (\<lambda>_. marking env st j)" for j xs
    by (rule valid_for [OF one keep])
  show ?thesis
  proof (rule validI)
    fix s x s'
    assume s: "marking env st j0 s" and r: "bindE (job_group jobId generation) (\<lambda>rows. forE ?f (terminalOrder rows)) s = (Inr x, s')"
    let ?rows = "filter (in_group jobId generation) (jn_operations (ex_journal s))"
    from r have l: "forE ?f (terminalOrder ?rows) s = (Inr x, s')"
      by (auto simp: bindE_def job_group_def readJ_def returnE_def split: sum.splits dest: listed_rows)
    from s have own: "marking env st (ex_journal s) s" by (simp add: marking_def)
    from valid_Inr [OF loop own l] have a: "marking env st (ex_journal s) s'"
      and e: "\<forall>y \<in> set ?rows. terminal_at (ex_journal s') (jo_operationKey y)" by (auto simp: terminalOrder_def)
    have "group_closed jobId generation (ex_journal s')"
      by (rule advanced_closes [OF _ _ e]) (use a journal_okD(1) in \<open>auto simp: marking_def\<close>)
    moreover from valid_Inr [OF loop s l] have "marking env st j0 s'" by blast
    ultimately show "marking env st j0 s' \<and> group_closed jobId generation (ex_journal s')" by blast
  next
    fix s e s'
    assume s: "marking env st j0 s" and r: "bindE (job_group jobId generation) (\<lambda>rows. forE ?f (terminalOrder rows)) s = (Inl e, s')"
    then show "marking env st j0 s'"
      by (auto simp: bindE_def job_group_def readJ_def returnE_def split: sum.splits dest: valid_Inl [OF loop s])
  qed
qed

lemma whenE_not_terminal:
  assumes "\<not> state_terminal st \<Longrightarrow> valid P m (\<lambda>_. Q) E" "\<And>s. P s \<Longrightarrow> state_terminal st \<Longrightarrow> Q s"
  shows "valid P (whenE (\<not> state_terminal st) m) (\<lambda>_. Q) E"
  using assms by (cases "state_terminal st") (auto simp: whenE_def intro: valid_return)

lemma revert_row_ends:
  "valid (marking env st j0) (revert_row env key state) (\<lambda>_ s. marking env st j0 s \<and> terminal_at (ex_journal s) key) (\<lambda>_. marking env st j0)"
proof (cases "state = QUARANTINED \<or> state = REVERTING")
  case True
  then show ?thesis
    by (auto simp: revert_row_def whenE_def returnE_then intro!: move_ends simp: state_terminal_def)
next
  case False
  have "valid (marking env st j0) (thenE (move env key state REVERTING) (move env key REVERTING REVERTED))
      (\<lambda>_ s. marking env st j0 s \<and> terminal_at (ex_journal s) key) (\<lambda>_. marking env st j0)"
    by (rule valid_then [OF move_only [where Q' = "\<lambda>_. marking env st j0"] move_ends]) (auto simp: state_terminal_def)
  with False show ?thesis by (simp add: revert_row_def whenE_def)
qed

lemma terminal_now: "row_state (ex_journal s) key = Some st \<Longrightarrow> state_terminal st \<Longrightarrow> terminal_at (ex_journal s) key"
  by (simp add: terminal_at_def)

text \<open>Budget entries are not rows.\<close>

lemma dust_marks:
  "valid (\<lambda>s. marking env st j0 s \<and> G (jn_operations (ex_journal s))) (j_releaseDust env key)
     (\<lambda>_ s. marking env st j0 s \<and> G (jn_operations (ex_journal s))) (\<lambda>_. marking env st j0)"
  "valid (\<lambda>s. marking env st j0 s \<and> G (jn_operations (ex_journal s))) (j_spendDust env key)
     (\<lambda>_ s. marking env st j0 s \<and> G (jn_operations (ex_journal s))) (\<lambda>_. marking env st j0)"
  unfolding j_releaseDust_def j_spendDust_def
  by (rule valid_bind [OF valid_draw [where Q = "\<lambda>_ s. marking env st j0 s \<and> G (jn_operations (ex_journal s))"]],
      simp add: marking_def, rule valid_then [OF valid_writeJ [where Q = "\<lambda>_ s. marking env st j0 s \<and> G (jn_operations (ex_journal s))"]],
      auto simp: releaseDust_rows spendDust_rows intro: marking_same_rows journal_step.Release journal_step.Spend valid_return)+

lemma recordReceipt_advances:
  assumes t: "recordReceipt cf fs key receipt now j = Inr (row, j')" and ok: "journal_ok cf j"
  shows "advanced j j'"
proof -
  from t obtain r row1 where f: "find_operation j key = Some r" and w: "writeReceipt receipt r = Inr row1"
    and j': "j' = put_row (row1\<lparr>jo_updatedAtMs := now\<rparr>) j"
    by (auto simp: recordReceipt_def bindR_eq_Inr Let_def split: option.splits)
  let ?r = "row1\<lparr>jo_updatedAtMs := now\<rparr>"
  from f have m: "r \<in> set (jn_operations j)" "jo_operationKey r = key" by (auto dest: find_operation_Some)
  from w have i: "row_ident ?r = row_ident r" "jo_lifecycleState ?r = jo_lifecycleState r" "jo_operationKey ?r = jo_operationKey r"
    by (auto simp: row_ident_def writeReceipt_iff)
  note p = put_row_rows [OF journal_okD(1) [OF ok] m(1) i(3)]
  have "terminal_at j k \<Longrightarrow> terminal_at j' k" for k
    using f p(3) i(2) m(2) i(3) find_put_other [of k ?r j] by (cases "k = key") (auto simp: terminal_at_def row_state_def j')
  then show ?thesis
    using spec [OF p(2), of row_ident] i(1) by (simp add: advanced_def j')
qed

lemma receipt_marks: "valid (marking env st j0) (j_receipt env key receipt) (\<lambda>_. marking env st j0) (\<lambda>_. marking env st j0)"
  unfolding j_receipt_def
proof (rule valid_bind [OF marking_draw], rule valid_writeJ)
  fix now s x j
  assume m: "marking env st j0 s" and t: "recordReceipt (se_journal env) (se_fileSize env) key receipt now (ex_journal s) = Inr (x, j)"
  then have "journal_ok (se_journal env) j" using journal_step_ok [OF journal_step.Receipt [OF t]] by (auto simp: marking_def)
  with m t recordReceipt_advances [OF t] show "marking env st j0 (s\<lparr>ex_journal := j\<rparr>)"
    by (auto simp: marking_def intro: advanced_trans)
qed

lemma group_closed_rows: "group_closed jobId generation j = (\<lambda>rows. list_all (\<lambda>r. in_group jobId generation r \<longrightarrow> state_terminal (jo_lifecycleState r)) rows) (jn_operations j)"
  by (simp add: group_closed_def)

lemma markReverted_closes:
  "valid (marking env st j0) (markReverted env jobId generation)
     (\<lambda>_ s. marking env st j0 s \<and> group_closed jobId generation (ex_journal s)) (\<lambda>_. marking env st j0)"
  unfolding markReverted_def bind_then
proof (rule valid_then [OF closing_loop])
  fix row :: journal_operation and j0
  show "valid (\<lambda>s. marking env st j0 s \<and> row_state (ex_journal s) (jo_operationKey row) = Some (jo_lifecycleState row))
      (whenE (\<not> state_terminal (jo_lifecycleState row)) (revert_row env (jo_operationKey row) (jo_lifecycleState row)))
      (\<lambda>_ s. marking env st j0 s \<and> terminal_at (ex_journal s) (jo_operationKey row)) (\<lambda>_. marking env st j0)"
    by (rule whenE_not_terminal) (auto intro: valid_weaken [OF revert_row_ends] terminal_now)
qed (unfold group_closed_rows, rule dust_marks)

lemma markFailed_closes:
  "valid (marking env st j0) (markFailed env jobId generation message)
     (\<lambda>_ s. marking env st j0 s \<and> group_closed jobId generation (ex_journal s)) (\<lambda>_. marking env st j0)"
  unfolding markFailed_def
proof (rule closing_loop)
  fix row :: journal_operation and j0
  have "valid (marking env st j0) (thenE (j_transition env (jo_operationKey row) PREPARED FAILED p) (returnE ()))
      (\<lambda>_ s. marking env st j0 s \<and> terminal_at (ex_journal s) (jo_operationKey row)) (\<lambda>_. marking env st j0)" for p
    by (rule valid_then [OF transition_marks]) (auto intro!: valid_return terminal_now simp: state_terminal_def)
  note failed = valid_weaken [OF this]
  show "valid (\<lambda>s. marking env st j0 s \<and> row_state (ex_journal s) (jo_operationKey row) = Some (jo_lifecycleState row))
      (if state_terminal (jo_lifecycleState row) then returnE ()
       else if jo_lifecycleState row \<noteq> PREPARED then throwE (Failed ''cannot be proved mutation-free'')
       else thenE (j_transition env (jo_operationKey row) PREPARED FAILED
               (no_patch\<lparr>tp_errorCode := Some ''MUTATION_FREE_FAILURE'', tp_errorDetail := Some (error_detail message)\<rparr>)) (returnE ()))
      (\<lambda>_ s. marking env st j0 s \<and> terminal_at (ex_journal s) (jo_operationKey row)) (\<lambda>_. marking env st j0)"
    by (auto intro!: failed valid_return valid_throw terminal_now)
qed

lemma settle_row_ends:
  "valid (\<lambda>s. marking env st j0 s \<and> row_state (ex_journal s) (jo_operationKey row) = Some (jo_lifecycleState row))
      (settle_row env row) (\<lambda>_ s. marking env st j0 s \<and> terminal_at (ex_journal s) (jo_operationKey row)) (\<lambda>_. marking env st j0)"
proof -
  let ?k = "jo_operationKey row"
  have one: "valid (\<lambda>s. marking env st j0 s \<and> row_state (ex_journal s) ?k = Some a) (move env ?k b SETTLED)
      (\<lambda>_ s. marking env st j0 s \<and> terminal_at (ex_journal s) ?k) (\<lambda>_. marking env st j0)" for a b
    by (rule valid_weaken [OF move_ends]) (auto simp: state_terminal_def)
  have two: "valid (\<lambda>s. marking env st j0 s \<and> row_state (ex_journal s) ?k = Some a)
      (thenE (move env ?k AWAITING_RELAY RELAY_SUBMITTED) (move env ?k RELAY_SUBMITTED SETTLED))
      (\<lambda>_ s. marking env st j0 s \<and> terminal_at (ex_journal s) ?k) (\<lambda>_. marking env st j0)" for a
    by (rule valid_then [OF valid_weaken [OF move_marks] one]) auto
  show ?thesis
    unfolding settle_row_def Let_def
    by (cases "jo_lifecycleState row") (auto intro!: one two valid_return valid_throw terminal_now simp: state_terminal_def)
qed

lemma markSettled_closes:
  "valid (marking env st j0) (markSettled env jobId generation key evidence)
     (\<lambda>_ s. marking env st j0 s \<and> group_closed jobId generation (ex_journal s)) (\<lambda>_. marking env st j0)"
  unfolding markSettled_def
proof (rule valid_then [where R = "marking env st j0"])
  show "valid (marking env st j0) (case evidence of None \<Rightarrow> returnE ()
      | Some (hash, height) \<Rightarrow> thenE (j_receipt env key (no_receipt\<lparr>jr_ledgerTxHash := Some hash, jr_ledgerHeight := Some height\<rparr>)) (returnE ()))
      (\<lambda>_. marking env st j0) (\<lambda>_. marking env st j0)"
    by (auto split: option.splits prod.splits intro!: valid_return valid_then [OF receipt_marks])
qed (rule valid_then [OF closing_loop], rule settle_row_ends, unfold group_closed_rows, rule dust_marks)

end
