(* ===== verification/Swap_Outcome.thy ===== *)
theory Swap_Outcome
  imports Swap_Closing
begin

text \<open>
  What a job's end does to the stock: its claim is released only once every row of its generation is
  terminal. And what handing a transaction to the relay requires.
\<close>

section \<open>Holding the stock\<close>

definition holding :: "'tx swap_env \<Rightarrow> stock \<Rightarrow> 'tx executor \<Rightarrow> bool" where
  "holding env st s \<longleftrightarrow> config_ok (se_journal env) \<and> journal_ok (se_journal env) (ex_journal s) \<and> ex_stock s = st"

definition closed_group :: "'tx job_record \<Rightarrow> 'tx executor \<Rightarrow> bool" where
  "closed_group r s \<longleftrightarrow> group_closed (sj_jobId r) (sj_generation r) (ex_journal s)"

definition outcome :: "'tx swap_env \<Rightarrow> stock \<Rightarrow> 'tx job_record \<Rightarrow> 'tx executor \<Rightarrow> bool" where
  "outcome env st r s \<longleftrightarrow> ex_stock s = st \<or> (ex_stock s = release (sj_claim r) st \<and> closed_group r s)"

interpretation held_stock: executor_frame env "holding env st" for env :: "'tx swap_env" and st
  by unfold_locales (auto simp: holding_def dest: journal_step_ok)

lemma marking_start: "holding env st s \<longleftrightarrow> marking env st (ex_journal s) s"
  by (simp add: holding_def marking_def)

lemma marking_holding: "marking env st j0 s \<Longrightarrow> holding env st s"
  by (simp add: holding_def marking_def)

lemma closes_holding:
  assumes "\<And>j0. valid (marking env st j0) m (\<lambda>_ s. marking env st j0 s \<and> P s) (\<lambda>_. marking env st j0)"
  shows "valid (holding env st) m (\<lambda>_ s. holding env st s \<and> P s) (\<lambda>_. holding env st)"
  by (rule validI) (use valid_Inr [OF assms] valid_Inl [OF assms] marking_holding marking_start in blast)+

lemmas reverted_closed = closes_holding [OF markReverted_closes]
lemmas settled_closed = closes_holding [OF markSettled_closes]

lemma holding_outcome: "holding env st s \<Longrightarrow> outcome env st r s"
  by (simp add: holding_def outcome_def)

section \<open>Releases\<close>

text \<open>What changes neither the journal nor the stock keeps a closed group closed.\<close>

lemma keeps_closed:
  "(\<And>s. ex_journal (f s) = ex_journal s) \<Longrightarrow> (\<And>s. ex_stock (f s) = ex_stock s)
    \<Longrightarrow> keeps (\<lambda>s. holding env st s \<and> closed_group r s) (modifyE f)"
  by (rule keepsI) (simp add: modifyE_def holding_def closed_group_def)

lemma keeps_closed_marks [keeping]:
  "keeps (\<lambda>s. holding env st s \<and> closed_group r s) (drop_awaiting k)"
  "keeps (\<lambda>s. holding env st s \<and> closed_group r s) (drop_confirmation k)"
  "keeps (\<lambda>s. holding env st s \<and> closed_group r s) (drop_quarantined k)"
  "keeps (\<lambda>s. holding env st s \<and> closed_group r s) (entomb k t)"
  unfolding drop_awaiting_def drop_confirmation_def drop_quarantined_def entomb_def by (rule keeps_closed; simp)+

lemma keeps_retention [keeping]: "keeps I (retention r)"
  unfolding retention_def j_get_def by (intro keeping)

text \<open>The end of every release: the claim leaves the stock, a counter moves.\<close>

lemma released_outcome:
  "valid (\<lambda>s. holding env st s \<and> closed_group r s)
     (thenE (release_claim (sj_claim r)) (modifyE f)) (\<lambda>_. outcome env st r) E"
  if "\<And>s. ex_journal (f s) = ex_journal s" "\<And>s. ex_stock (f s) = ex_stock s"
  unfolding release_claim_def
  by (rule valid_then [OF valid_modify valid_modify, where R = "outcome env st r"])
     (auto simp: that outcome_def holding_def closed_group_def)

lemma executeSwap_finish:
  "valid (\<lambda>s. holding env st s \<and> closed_group r s) (finish_reverted env r) (\<lambda>_. outcome env st r) (\<lambda>_. holding env st)"
  unfolding finish_reverted_def count_def
  by (intro keeps_bind_valid keeps_then_valid released_outcome keeping) auto

lemma reverted_outcome:
  "valid (\<lambda>s. holding env st s) (thenE (markReverted env (sj_jobId r) (sj_generation r)) k) (\<lambda>_. outcome env st r) (\<lambda>_. holding env st)"
  if "valid (\<lambda>s. holding env st s \<and> closed_group r s) k (\<lambda>_. outcome env st r) (\<lambda>_. holding env st)"
  by (rule valid_then [OF reverted_closed]) (use that in \<open>simp add: closed_group_def\<close>)

lemma revertWallet_outcome: "valid (holding env st) (revertWallet env r tx) (\<lambda>_. outcome env st r) (\<lambda>_. holding env st)"
  unfolding revertWallet_def Let_def
proof (cases "sj_reverting r"; simp)
  show "valid (holding env st) (returnE False) (\<lambda>_. outcome env st r) (\<lambda>_. holding env st)"
    by (auto intro: valid_return holding_outcome)
  let ?k = "wallet_revert_key r"
  have finish: "valid (\<lambda>s. holding env st s \<and> closed_group r s)
      (thenE (drop_awaiting (sj_jobId r)) (thenE (drop_quarantined (sj_jobId r)) (thenE (finish_reverted env r) (returnE True))))
      (\<lambda>_. outcome env st r) (\<lambda>_. holding env st)"
    by (intro keeps_then_valid [OF keeps_closed_marks(1)] keeps_then_valid [OF keeps_closed_marks(3)]
        valid_then_return [OF executeSwap_finish]) auto
  have body: "valid (holding env st)
      (thenE (authorize_revert env r tx ?k) (thenE (wallet_revert env Call_revert ?k) (thenE (move env ?k REVERTING REVERTED)
        (thenE (markReverted env (sj_jobId r) (sj_generation r))
        (thenE (drop_awaiting (sj_jobId r)) (thenE (drop_quarantined (sj_jobId r)) (thenE (finish_reverted env r) (returnE True))))))))
      (\<lambda>_. outcome env st r) (\<lambda>_. holding env st)"
    by (intro held_stock.authorized_revert_valid keeps_then_valid [OF held_stock.keeps_move] reverted_outcome finish)
  show "valid (holding env st)
      (bindE (owns r) (\<lambda>mine. if \<not> mine then returnE False else catchE
        (thenE (authorize_revert env r tx ?k) (thenE (wallet_revert env Call_revert ?k) (thenE (move env ?k REVERTING REVERTED)
          (thenE (markReverted env (sj_jobId r) (sj_generation r))
          (thenE (drop_awaiting (sj_jobId r)) (thenE (drop_quarantined (sj_jobId r)) (thenE (finish_reverted env r) (returnE True))))))))
        (retain_failed_revert env r))) (\<lambda>_. outcome env st r) (\<lambda>_. holding env st)"
    by (intro keeps_bind_valid [OF held_stock.keeps_guards(1)])
       (auto intro!: valid_return holding_outcome valid_catch [OF body] keeps_valid [OF held_stock.keeps_failed_revert(1)])
qed

lemma retry_outcome: "valid (holding env st) (retryQuarantine env r) (\<lambda>_. outcome env st r) (\<lambda>_. holding env st)"
  unfolding retryQuarantine_def
proof (cases "sj_reverting r \<or> sj_locallyRevertible r \<noteq> Some True"; simp only: if_True if_False)
  show "valid (holding env st) (returnE False) (\<lambda>_. outcome env st r) (\<lambda>_. holding env st)"
    by (auto intro: valid_return holding_outcome)
  have finish: "valid (\<lambda>s. holding env st s \<and> closed_group r s)
      (thenE (drop_quarantined (sj_jobId r)) (thenE (finish_reverted env r) (returnE True))) (\<lambda>_. outcome env st r) (\<lambda>_. holding env st)"
    by (intro keeps_then_valid [OF keeps_closed_marks(3)] valid_then_return [OF executeSwap_finish]) auto
  have body: "valid (holding env st)
      (bindE (job_group (sj_jobId r) (sj_generation r)) (\<lambda>rows.
       bindE (if list_ex (\<lambda>r. primary_revert r \<and> jo_lifecycleState r = REVERTED) rows then returnE True else recover_all env r) (\<lambda>recovered.
         if \<not> recovered then returnE False
         else thenE (markReverted env (sj_jobId r) (sj_generation r))
           (thenE (drop_quarantined (sj_jobId r)) (thenE (finish_reverted env r) (returnE True))))))
      (\<lambda>_. outcome env st r) (\<lambda>_. holding env st)"
    by (intro keeps_bind_valid held_stock.keeps_basics keeps_if keeps_return held_stock.keeps_recover)
       (auto intro!: valid_return holding_outcome reverted_outcome finish)
  show "valid (holding env st)
      (bindE (owns r) (\<lambda>mine. if \<not> mine then returnE False else catchE
        (bindE (job_group (sj_jobId r) (sj_generation r)) (\<lambda>rows.
         bindE (if list_ex (\<lambda>r. primary_revert r \<and> jo_lifecycleState r = REVERTED) rows then returnE True else recover_all env r) (\<lambda>recovered.
           if \<not> recovered then returnE False
           else thenE (markReverted env (sj_jobId r) (sj_generation r))
             (thenE (drop_quarantined (sj_jobId r)) (thenE (finish_reverted env r) (returnE True))))))
        (\<lambda>e. retainRecoveryAmbiguity env r (exn_message e)))) (\<lambda>_. outcome env st r) (\<lambda>_. holding env st)"
    by (intro keeps_bind_valid [OF held_stock.keeps_guards(1)])
       (auto intro!: valid_return holding_outcome valid_catch [OF body] keeps_valid [OF held_stock.keeps_failed_revert(2)])
qed

lemma settled_outcome: "valid (holding env st) (finishSettled env r hash height) (\<lambda>_. outcome env st r) (\<lambda>_. holding env st)"
  unfolding finishSettled_def count_def
proof (rule valid_then [OF settled_closed], fold closed_group_def)
  show "valid (\<lambda>s. holding env st s \<and> closed_group r s)
      (thenE (drop_awaiting (sj_jobId r)) (thenE (drop_confirmation (sj_jobId r)) (thenE (drop_quarantined (sj_jobId r))
        (bindE (retention r) (\<lambda>until. thenE (entomb (sj_jobId r) until) (thenE (release_claim (sj_claim r))
          (modifyE (\<lambda>s. s\<lparr>ex_completed := Suc (ex_completed s)\<rparr>)))))))) (\<lambda>_. outcome env st r) (\<lambda>_. holding env st)"
    by (intro keeps_bind_valid keeps_then_valid released_outcome keeping) auto
qed

lemmas kept_outcome = keeps_valid [OF _ holding_outcome]

lemma quarantined_outcome: "valid (holding env st) (quarantineEvidence env r code reason) (\<lambda>_. outcome env st r) (\<lambda>_. holding env st)"
  by (rule kept_outcome [OF held_stock.keeps_quarantineEvidence])

lemma done_outcome: "valid (holding env st) (reconcileRelayDone env r txId) (\<lambda>_. outcome env st r) (\<lambda>_. holding env st)"
  unfolding reconcileRelayDone_def
  by (rule valid_catch [OF _ quarantined_outcome], intro keeps_then_valid keeps_bind_valid held_stock.keeps_marks
        held_stock.keeps_bookkeeping held_stock.keeps_evidence)
     (auto intro: settled_outcome quarantined_outcome split: evidence_read.splits)

lemma revert_accepted_outcome: "valid (holding env st) (revert_accepted env r tx) (\<lambda>_. outcome env st r) (\<lambda>_. holding env st)"
proof -
  have "outcome env st (r\<lparr>sj_relayAccepted := b\<rparr>) = outcome env st r" for b
    by (simp add: outcome_def closed_group_def fun_eq_iff)
  with revertWallet_outcome [of env st "r\<lparr>sj_relayAccepted := Some True\<rparr>" tx] show ?thesis
    unfolding revert_accepted_def Let_def
    by (intro keeps_then_valid held_stock.keeps_bookkeeping valid_then_return) auto
qed

lemma failed_outcome: "valid (holding env st) (reconcileRelayFailure env r) (\<lambda>_. outcome env st r) (\<lambda>_. holding env st)"
  unfolding reconcileRelayFailure_def
  by (rule valid_catch [OF _ quarantined_outcome], intro keeps_then_valid keeps_bind_valid held_stock.keeps_marks held_stock.keeps_evidence)
     (auto intro: quarantined_outcome revert_accepted_outcome split: evidence_read.splits option.splits)

lemma http_outcome: "valid (holding env st) (reconcileFromHttp env r) (\<lambda>_. outcome env st r) (\<lambda>_. holding env st)"
  unfolding reconcileFromHttp_def
  by (intro keeps_bind_valid held_stock.keeps_draw)
     (auto intro: quarantined_outcome done_outcome failed_outcome split: sum.splits relay_job_status.splits)

lemma durable_outcome: "valid (holding env st) (reconcileDurableEvidence env r) (\<lambda>_. outcome env st r) (\<lambda>_. holding env st)"
  unfolding reconcileDurableEvidence_def Let_def
  by (intro keeps_bind_valid held_stock.keeps_basics)
     (auto intro: quarantined_outcome done_outcome failed_outcome http_outcome split: option.splits)

section \<open>A build that ends without a transaction\<close>

lemma group_read:
  "valid (holding env st) (job_group jobId generation)
     (\<lambda>rows s. holding env st s \<and> rows = filter (in_group jobId generation) (jn_operations (ex_journal s))) (\<lambda>_. holding env st)"
  unfolding job_group_def
  by (rule valid_bind [OF valid_readJ [where Q = "\<lambda>rows s. holding env st s \<and> rows = jn_operations (ex_journal s)"]])
     (auto intro!: valid_return dest: listed_rows)

lemma open_group_read:
  "valid (holding env st) (group_open r) (\<lambda>open s. holding env st s \<and> (\<not> open \<longrightarrow> closed_group r s)) (\<lambda>_. holding env st)"
  unfolding group_open_def
  by (rule valid_bind [OF group_read]) (auto intro!: valid_return simp: closed_group_def group_closed_def list_all_iff list_ex_iff)

lemma open_group_outcome:
  "valid (holding env st) (group_open r) (\<lambda>open s. holding env st s \<and> (\<not> open \<longrightarrow> closed_group r s)) (\<lambda>_. outcome env st r)"
  by (rule valid_weaken [OF open_group_read]) (auto intro: holding_outcome)

lemma closed_release_outcome:
  "valid (\<lambda>s. holding env st s \<and> closed_group r s) (release_closed r) (\<lambda>_. outcome env st r) (\<lambda>_. outcome env st r)"
proof -
  have o: "keeps (outcome env st r) (bindE (retention r) (\<lambda>until. entomb (sj_jobId r) until))"
    by (intro keeps_bind keeps_retention; rule keepsI; simp add: entomb_def modifyE_def outcome_def closed_group_def)
  show ?thesis
    unfolding release_closed_def release_claim_def
    by (rule valid_then [OF valid_modify keeps_valid [OF o]]) (auto simp: outcome_def holding_def closed_group_def)
qed

lemma late_failure_outcome: "valid (holding env st) (late_failure env r e) (\<lambda>_. outcome env st r) (\<lambda>_. outcome env st r)"
proof -
  let ?q = "thenE (quarantineGroup env (sj_jobId r) (sj_generation r) ''LATE_COMPLETION_UNCERTAIN'' (exn_message e)) (quarantine_unproved r)"
  have unproved: "valid (holding env st) ?q (\<lambda>_. outcome env st r) (\<lambda>_. outcome env st r)"
    by (rule keeps_valid [OF keeps_then [OF held_stock.keeps_quarantine(2) held_stock.keeps_retained(2)]]) (auto intro: holding_outcome)
  have close: "valid (holding env st) (bindE (group_open r) (\<lambda>open. if \<not> open then release_closed r else ?q))
      (\<lambda>_. outcome env st r) (\<lambda>_. outcome env st r)"
  proof (rule valid_bind [OF open_group_outcome])
    fix b
    show "valid (\<lambda>s. holding env st s \<and> (\<not> b \<longrightarrow> closed_group r s)) (if \<not> b then release_closed r else ?q)
        (\<lambda>_. outcome env st r) (\<lambda>_. outcome env st r)"
      using closed_release_outcome [of env st r] unproved by (cases b) auto
  qed
  show ?thesis
    unfolding late_failure_def whenE_def
    by (intro keeps_bind_valid keeps_then_valid held_stock.keeps_guards held_stock.keeps_bookkeeping held_stock.keeps_retained)
       (auto intro!: valid_return holding_outcome keeps_then_valid [OF held_stock.keeps_bookkeeping(1)]
         keeps_bind_valid [OF held_stock.keeps_retained(1)] close)
qed

lemma settle_failure_outcome: "valid (holding env st) (settle_failure env r e) (\<lambda>_. outcome env st r) (\<lambda>_. outcome env st r)"
proof -
  have close: "valid (holding env st) (bindE (group_open r) (\<lambda>open. whenE (\<not> open) (release_closed r)))
      (\<lambda>_. outcome env st r) (\<lambda>_. outcome env st r)"
  proof (rule valid_bind [OF open_group_outcome])
    fix b
    show "valid (\<lambda>s. holding env st s \<and> (\<not> b \<longrightarrow> closed_group r s)) (whenE (\<not> b) (release_closed r))
        (\<lambda>_. outcome env st r) (\<lambda>_. outcome env st r)"
      using closed_release_outcome [of env st r] by (cases b) (auto simp: whenE_def intro!: valid_return holding_outcome)
  qed
  have "keeps (holding env st) (catchE (bindE (group_open r) (\<lambda>open. whenE open (markFailed env (sj_jobId r) (sj_generation r) (exn_message e))))
      (\<lambda>je. thenE (quarantineGroup env (sj_jobId r) (sj_generation r) ''FAILURE_STATE_UNCERTAIN'' (exn_message je)) (quarantine_unproved r)))"
    by (intro keeping held_stock.keeps_guards held_stock.keeps_marks held_stock.keeps_quarantine held_stock.keeps_retained)
  from keeps_then_valid [OF this close] show ?thesis
    unfolding settle_failure_def whenE_def
    by (intro keeps_bind_valid keeps_then_valid held_stock.keeps_bookkeeping held_stock.keeps_retained)
       (auto intro!: valid_return holding_outcome)
qed

lemma late_success_outcome: "valid (holding env st) (late_success env r tx) (\<lambda>_. outcome env st r) (\<lambda>_. holding env st)"
proof -
  have "outcome env st (r\<lparr>sj_walletTransaction := a, sj_relayAccepted := b\<rparr>) = outcome env st r" for a b
    by (simp add: outcome_def closed_group_def fun_eq_iff)
  with revertWallet_outcome [of env st "r\<lparr>sj_walletTransaction := Some tx, sj_relayAccepted := Some False\<rparr>" tx]
  have "valid (holding env st) (thenE (revertWallet env (r\<lparr>sj_walletTransaction := Some tx, sj_relayAccepted := Some False\<rparr>) tx) (returnE ()))
      (\<lambda>_. outcome env st r) (\<lambda>_. holding env st)"
    by (auto intro: valid_then_return)
  then show ?thesis
    unfolding late_success_def Let_def whenE_def
    by (intro keeps_bind_valid held_stock.keeps_guards)
       (auto intro!: valid_return holding_outcome keeps_then_valid held_stock.keeps_bookkeeping)
qed

section \<open>The claim of a job\<close>

text \<open>The handlers that may end a job.\<close>

datatype 'tx job_end =
  End_revert 'tx
| End_retry
| End_submitted string
| End_relay_failed
| End_http
| End_durable
| End_build_failed "'tx exn"
| End_late_failed "'tx exn"
| End_late 'tx

definition end_job :: "'tx swap_env \<Rightarrow> 'tx job_record \<Rightarrow> 'tx job_end \<Rightarrow> ('tx, unit) exec" where
  "end_job env r a = (case a of
     End_revert tx \<Rightarrow> quietE (revertWallet env r tx)
   | End_retry \<Rightarrow> quietE (retryQuarantine env r)
   | End_submitted txId \<Rightarrow> quietE (reconcileRelayDone env r txId)
   | End_relay_failed \<Rightarrow> quietE (reconcileRelayFailure env r)
   | End_http \<Rightarrow> quietE (reconcileFromHttp env r)
   | End_durable \<Rightarrow> quietE (reconcileDurableEvidence env r)
   | End_build_failed e \<Rightarrow> quietE (settle_failure env r e)
   | End_late_failed e \<Rightarrow> quietE (late_failure env r e)
   | End_late tx \<Rightarrow> quietE (late_success env r tx))"

lemma quiet_outcome:
  assumes "valid (holding env st) m (\<lambda>_. outcome env st r) E" "\<And>e s. E e s \<Longrightarrow> outcome env st r s" "holding env st s"
  shows "outcome env st r (snd (quietE m s))"
  using assms valid_Inr [OF assms(1,3)] valid_Inl [OF assms(1,3)]
  by (cases "m s"; cases "fst (m s)") (auto simp: quietE_def)

lemmas ending = quiet_outcome [OF revertWallet_outcome holding_outcome] quiet_outcome [OF retry_outcome holding_outcome]
  quiet_outcome [OF done_outcome holding_outcome] quiet_outcome [OF failed_outcome holding_outcome]
  quiet_outcome [OF http_outcome holding_outcome] quiet_outcome [OF durable_outcome holding_outcome]
  quiet_outcome [OF settle_failure_outcome] quiet_outcome [OF late_failure_outcome]
  quiet_outcome [OF late_success_outcome holding_outcome]

lemma end_job_outcome: "holding env st s \<Longrightarrow> outcome env st r (snd (end_job env r a s))"
  unfolding end_job_def by (cases a) (auto intro: ending)

text \<open>
  A job that starts has no row yet, so its claim may leave with the settlement row that could not be
  written; afterwards only the end of its build releases it.
\<close>

definition upcoming_generation :: "string \<Rightarrow> journal \<Rightarrow> int" where
  "upcoming_generation jobId j = fold max (map jo_generation (filter (\<lambda>r. jo_jobId r = jobId) (jn_operations j))) 0 + 1"

lemma fold_max_ge: "(x :: int) \<in> set xs \<Longrightarrow> x \<le> fold max xs m"
proof (induction xs arbitrary: m)
  case (Cons a xs)
  have "m' \<le> fold max xs m'" for m' by (induction xs arbitrary: m') (auto intro: order_trans [OF max.cobounded2])
  from this [of "max a m"] Cons show ?case by auto
qed simp

lemma upcoming_group_closed: "group_closed jobId (upcoming_generation jobId j) j"
proof -
  have "jo_generation r < upcoming_generation jobId j" if "r \<in> set (jn_operations j)" "jo_jobId r = jobId" for r
    unfolding upcoming_generation_def by (intro zle_add1_eq_le [THEN iffD2] fold_max_ge) (use that in auto)
  then show ?thesis by (force simp: group_closed_def list_all_iff in_group_def)
qed

lemma upcoming_read:
  "valid (\<lambda>s. holding env st s \<and> ex_journal s = j) (next_generation jobId)
     (\<lambda>g s. holding env st s \<and> ex_journal s = j \<and> g = upcoming_generation jobId j) (\<lambda>_. holding env st)"
  unfolding next_generation_def
  by (rule valid_bind [OF valid_readJ [where Q = "\<lambda>rows s. holding env st s \<and> ex_journal s = j \<and> rows = jn_operations j"]])
     (auto intro!: valid_return simp: upcoming_generation_def dest: listed_rows)

lemma quiet_valid: "valid P m (\<lambda>_. Q) (\<lambda>_. Q) \<Longrightarrow> valid P (quietE m) (\<lambda>_. Q) E"
  unfolding valid_def quietE_def by (fastforce split: prod.splits sum.splits)

lemma terminal_outcome: "valid (outcome env st r) (terminalError k reason) (\<lambda>_. outcome env st r) (\<lambda>_. outcome env st r)"
  unfolding terminalError_def count_def
  by (intro valid_then [OF valid_modify [where Q = "\<lambda>_. outcome env st r"]] valid_return)
     (auto simp: outcome_def closed_group_def)

lemma run_job_outcome: "valid (holding env st) (run_job env job route r) (\<lambda>_. outcome env st r) (\<lambda>_. outcome env st r)"
  unfolding run_job_def
proof (rule keeps_bind_valid [OF held_stock.keeps_outcome])
  fix x :: "('a exn + 'a \<times> 'a) \<times> deadline"
  obtain result deadline where x: "x = (result, deadline)" by (cases x)
  have on_time: "valid (holding env st)
      (catchE (case result of Inl e \<Rightarrow> throwE e | Inr built \<Rightarrow> hand_over env r built)
        (\<lambda>e. thenE (settle_failure env r e) (terminalError (sj_jobId r) (exn_reason e)))) (\<lambda>_. outcome env st r) (\<lambda>_. outcome env st r)"
  proof (rule valid_catch)
    have "keeps (holding env st) (case result of Inl e \<Rightarrow> throwE e | Inr built \<Rightarrow> hand_over env r built)"
      by (intro keeping held_stock.keeps_hand_over)
    then show "valid (holding env st) (case result of Inl e \<Rightarrow> throwE e | Inr built \<Rightarrow> hand_over env r built)
        (\<lambda>_. outcome env st r) (\<lambda>_. holding env st)" by (rule keeps_valid) (auto intro: holding_outcome)
  qed (rule valid_then [OF settle_failure_outcome terminal_outcome])
  have "valid (holding env st) (case result of Inl e \<Rightarrow> late_failure env r e | Inr built \<Rightarrow> late_success env r (snd built))
      (\<lambda>_. outcome env st r) (\<lambda>_. outcome env st r)"
    by (cases result) (auto intro: late_failure_outcome valid_weaken [OF late_success_outcome] holding_outcome)
  then have late: "valid (holding env st)
      (thenE (quietE (case result of Inl e \<Rightarrow> late_failure env r e | Inr built \<Rightarrow> late_success env r (snd built)))
        (terminalError (sj_jobId r) JOB_WALLET_TIMEOUT)) (\<lambda>_. outcome env st r) (\<lambda>_. outcome env st r)"
    by (intro valid_then [OF quiet_valid terminal_outcome])
  have lost: "valid (holding env st) (terminalError (sj_jobId r) JOB_WALLET_FAILED) (\<lambda>_. outcome env st r) (\<lambda>_. outcome env st r)"
    by (rule valid_weaken [OF terminal_outcome]) (auto intro: holding_outcome)
  show "valid (holding env st) (case x of (result, deadline) \<Rightarrow> case deadline of
         Not_fired \<Rightarrow>
           catchE (case result of Inl e \<Rightarrow> throwE e | Inr built \<Rightarrow> hand_over env r built)
             (\<lambda>e. thenE (settle_failure env r e) (terminalError (sj_jobId r) (exn_reason e)))
       | Fired \<Rightarrow>
           thenE (quietE (case result of Inl e \<Rightarrow> late_failure env r e | Inr built \<Rightarrow> late_success env r (snd built)))
             (terminalError (sj_jobId r) JOB_WALLET_TIMEOUT)
       | Fired_unrecorded message \<Rightarrow> terminalError (sj_jobId r) JOB_WALLET_FAILED) (\<lambda>_. outcome env st r) (\<lambda>_. outcome env st r)"
    unfolding x prod.case by (cases deadline) (simp_all only: deadline.case on_time late lost)
qed (rule holding_outcome)

text \<open>How a claim is settled: it is still held, or it left and every row of its job is closed.\<close>

definition claim_settled :: "stock \<Rightarrow> claim \<Rightarrow> string \<Rightarrow> int \<Rightarrow> 'tx executor \<Rightarrow> bool" where
  "claim_settled st c jobId generation s \<longleftrightarrow> ex_stock s = st
    \<or> (ex_stock s = release c st \<and> group_closed jobId generation (ex_journal s))"

lemma outcome_settled: "outcome env st r s \<longleftrightarrow> claim_settled st (sj_claim r) (sj_jobId r) (sj_generation r) s"
  by (simp add: outcome_def closed_group_def claim_settled_def)

lemma valid_combine:
  "valid P m Q E \<Longrightarrow> valid P' m Q' E' \<Longrightarrow> valid (\<lambda>s. P s \<and> P' s) m (\<lambda>x s. Q x s \<and> Q' x s) (\<lambda>e s. E e s \<and> E' e s)"
  unfolding valid_def by (fastforce split: prod.splits sum.splits)

lemma failed_create:
  "valid (\<lambda>s. holding env st s \<and> ex_journal s = j) (bindE (draw (se_now env)) (\<lambda>now. j_create env (input now)))
     (\<lambda>_. holding env st) (\<lambda>_ s. holding env st s \<and> ex_journal s = j)"
proof -
  have j: "valid (\<lambda>s. ex_journal s = j) (bindE (draw (se_now env)) (\<lambda>now. j_create env (input now))) (\<lambda>_ _. True) (\<lambda>_ s. ex_journal s = j)"
    unfolding j_create_def
    by (intro valid_bind [OF valid_draw [where Q = "\<lambda>_ s. ex_journal s = j"]] valid_writeJ) auto
  have h: "valid (holding env st) (bindE (draw (se_now env)) (\<lambda>now. j_create env (input now))) (\<lambda>_. holding env st) (\<lambda>_. holding env st)"
    by (intro keeps_bind [unfolded keeps_def] held_stock.keeps_draw [unfolded keeps_def] held_stock.keeps_create [unfolded keeps_def])
  show ?thesis by (rule valid_weaken [OF valid_combine [OF h j]]) auto
qed

lemma start_job_outcome:
  "valid (\<lambda>s. holding env st s \<and> ex_journal s = j) (start_job env job route)
     (\<lambda>_. claim_settled st (rt_claim route) (sw_jobId job) (upcoming_generation (sw_jobId job) j))
     (\<lambda>_. claim_settled st (rt_claim route) (sw_jobId job) (upcoming_generation (sw_jobId job) j))"
proof -
  let ?g = "upcoming_generation (sw_jobId job) j" and ?P = "\<lambda>s. holding env st s \<and> ex_journal s = j"
  let ?Q = "claim_settled st (rt_claim route) (sw_jobId job) ?g"
  have held: "holding env st s \<Longrightarrow> ?Q s" for s by (simp add: holding_def claim_settled_def)
  have refused: "valid ?P (thenE (release_claim (rt_claim route)) (terminalError (sw_jobId job) JOB_WALLET_FAILED)) (\<lambda>_. ?Q) (\<lambda>_. ?Q)"
    unfolding release_claim_def terminalError_def
    by (intro valid_then [OF valid_modify [where Q = "\<lambda>_. ?Q"] valid_then [OF valid_modify [where Q = "\<lambda>_. ?Q"] valid_return]])
       (auto simp: claim_settled_def holding_def upcoming_group_closed)
  have run: "valid (holding env st) (thenE (set_building r) (run_job env job route r)) (\<lambda>_. ?Q) (\<lambda>_. ?Q)"
    if "r = job_record_of job route ?g ttl" for r ttl
  proof -
    have "outcome env st r = ?Q" by (simp add: fun_eq_iff outcome_settled that job_record_of_def)
    with run_job_outcome [of env st job route r] show ?thesis
      by (intro keeps_then_valid [OF held_stock.keeps_bookkeeping(5)]) (auto intro: held)
  qed
  show ?thesis
    unfolding start_job_def Let_def
  proof (rule valid_bind [OF valid_weaken [OF upcoming_read [of env st j]]], assumption, assumption)
    fix g
    show "valid (\<lambda>s. holding env st s \<and> ex_journal s = j \<and> g = ?g)
        (bindE (draw (se_now env)) (\<lambda>now. bindE (attemptE (bindE (draw (se_now env)) (\<lambda>now'. j_create env (settlement_input env (job_record_of job route g (now + settleTtlMs env)) now'))))
          (\<lambda>created. case created of
              Inl e \<Rightarrow> thenE (release_claim (rt_claim route)) (terminalError (sw_jobId job) JOB_WALLET_FAILED)
            | Inr _ \<Rightarrow> thenE (set_building (job_record_of job route g (now + settleTtlMs env)))
                        (run_job env job route (job_record_of job route g (now + settleTtlMs env)))))) (\<lambda>_. ?Q) (\<lambda>_. ?Q)"
    proof (cases "g = ?g")
      case False
      then show ?thesis by (simp add: valid_def)
    next
      case True
      have created: "valid (\<lambda>s. case x of Inl e \<Rightarrow> holding env st s \<and> ex_journal s = j | Inr y \<Rightarrow> holding env st s)
          (case x of Inl e \<Rightarrow> thenE (release_claim (rt_claim route)) (terminalError (sw_jobId job) JOB_WALLET_FAILED)
            | Inr _ \<Rightarrow> thenE (set_building (job_record_of job route g ttl)) (run_job env job route (job_record_of job route g ttl))) (\<lambda>_. ?Q) (\<lambda>_. ?Q)"
        for x :: "'a exn + journal_operation" and ttl
        using refused run [OF refl, of ttl] unfolding True by (cases x) simp_all
      show ?thesis
      proof (rule valid_bind [OF valid_draw [where Q = "\<lambda>_. ?P"]])
        show "valid ?P (bindE (attemptE (bindE (draw (se_now env)) (\<lambda>now'. j_create env (settlement_input env (job_record_of job route g (now + settleTtlMs env)) now'))))
          (\<lambda>created. case created of
              Inl e \<Rightarrow> thenE (release_claim (rt_claim route)) (terminalError (sw_jobId job) JOB_WALLET_FAILED)
            | Inr _ \<Rightarrow> thenE (set_building (job_record_of job route g (now + settleTtlMs env)))
                        (run_job env job route (job_record_of job route g (now + settleTtlMs env))))) (\<lambda>_. ?Q) (\<lambda>_. ?Q)" for now
          by (rule valid_bind [OF valid_attempt [OF failed_create]]) (rule created)
      qed (auto simp: holding_def)
    qed
  qed (simp add: held)
qed

text \<open>A job reopened at startup: its claim is taken again first, and leaves only with the job's rows closed.\<close>

lemma failed_closed: "valid (holding env st) (markFailed env jobId generation message)
    (\<lambda>_ s. holding env st s \<and> group_closed jobId generation (ex_journal s)) (\<lambda>_. holding env st)"
  by (rule closes_holding [OF markFailed_closes])

lemma valid_if: "(b \<Longrightarrow> valid P m Q E) \<Longrightarrow> (\<not> b \<Longrightarrow> valid P k Q E) \<Longrightarrow> valid P (if b then m else k) Q E"
  by simp

lemma valid_snd: "valid P m (\<lambda>_. Q) (\<lambda>_. Q) \<Longrightarrow> P s \<Longrightarrow> Q (snd (m s))"
  unfolding valid_def by (cases "m s"; cases "fst (m s)") auto

lemma entombed_release:
  "valid (\<lambda>s. holding env st s \<and> group_closed jobId generation (ex_journal s)) (thenE (entomb jobId t) (release_claim c))
     (\<lambda>_. claim_settled st c jobId generation) (\<lambda>_. holding env st)"
  unfolding entomb_def release_claim_def
  by (intro valid_then [OF valid_modify [where Q = "\<lambda>_ s. holding env st s \<and> group_closed jobId generation (ex_journal s)"] valid_modify])
     (auto simp: claim_settled_def holding_def)

lemma reopen_artifacts_settled:
  "valid (holding env st) (reopen_artifacts env row c rows)
     (\<lambda>_. claim_settled st c (jo_jobId row) (jo_generation row)) (\<lambda>_. holding env st)"
proof -
  let ?Q = "claim_settled st c (jo_jobId row) (jo_generation row)"
  have held: "holding env st s \<Longrightarrow> ?Q s" for s by (simp add: holding_def claim_settled_def)
  have same: "outcome env st (reopened_record row c raw wallet b b') = ?Q" for raw :: "'a list" and wallet b b'
    by (simp add: fun_eq_iff outcome_settled reopened_record_def)
  have quarantined: "valid (holding env st) (thenE (quarantineGroup env k g code reason) (set_quarantined r)) (\<lambda>_. ?Q) (\<lambda>_. holding env st)"
    for k g code reason r
    by (rule keeps_valid) (auto intro!: keeps_then held_stock.keeps_quarantine held_stock.keeps_bookkeeping held)
  have failed: "valid (holding env st) (thenE (markFailed env (jo_jobId row) (jo_generation row) message)
      (thenE (entomb (jo_jobId row) t) (release_claim c))) (\<lambda>_. ?Q) (\<lambda>_. holding env st)" for message t
    by (rule valid_then [OF failed_closed entombed_release])
  have evidence: "valid (holding env st) (let record = reopened_record row c [] wallet False True in
      thenE (set_quarantined record) (reconcileDurableEvidence env record)) (\<lambda>_. ?Q) (\<lambda>_. holding env st)" for wallet
    unfolding Let_def same [of "[]" wallet False True, symmetric]
    by (intro keeps_then_valid [OF held_stock.keeps_bookkeeping(8) durable_outcome]) simp
  have retried: "valid (holding env st) (let record = reopened_record row c raw wallet True False in
      thenE (set_quarantined record) (thenE (retryQuarantine env record) (returnE ()))) (\<lambda>_. ?Q) (\<lambda>_. holding env st)" for raw wallet
    unfolding Let_def same [of raw wallet True False, symmetric]
    by (intro keeps_then_valid [OF held_stock.keeps_bookkeeping(8) valid_then_return [OF retry_outcome]]) simp
  show ?thesis
  proof (unfold reopen_artifacts_def, rule keeps_bind_valid [OF keeps_liftResult])
    fix x :: "'a list \<times> 'a list"
    obtain raw finalized where x: "x = (raw, finalized)" by (cases x)
    have merged: "keeps (holding env st) (if finalized = [] then returnE None
        else bindE (liftResult (ld_merge (se_sdk env) finalized)) (\<lambda>tx. returnE (Some tx)))"
      by (intro keeping)
    show "valid (holding env st) (case x of (raw, finalized) \<Rightarrow>
       if list_ex artifactless rows
       then thenE (quarantineGroup env (jo_jobId row) (jo_generation row) ''ARTIFACT_OUTCOME_UNKNOWN''
                     ''a PREPARED wallet call has no durable public artifact'')
              (set_quarantined (reopened_record row c [] None False False))
       else if raw = [] \<and> finalized = []
       then thenE (markFailed env (jo_jobId row) (jo_generation row) ''reopened before any wallet mutation was prepared'')
              (thenE (entomb (jo_jobId row) (jo_retentionUntilMs row)) (release_claim c))
       else bindE (if finalized = [] then returnE None
                   else bindE (liftResult (ld_merge (se_sdk env) finalized)) (\<lambda>tx. returnE (Some tx))) (\<lambda>wallet.
         if relay_ambiguous row
         then thenE (quarantineGroup env (jo_jobId row) (jo_generation row) ''RELAY_OUTCOME_UNKNOWN''
                       ''startup is reconciling the pinned relay HTTP and backend ledger authorities'')
                (let record = reopened_record row c [] wallet False True in
                 thenE (set_quarantined record) (reconcileDurableEvidence env record))
         else let record = reopened_record row c raw wallet True False in
              thenE (set_quarantined record) (thenE (retryQuarantine env record) (returnE ())))) (\<lambda>_. ?Q) (\<lambda>_. holding env st)"
      unfolding x prod.case
      by (intro valid_if quarantined failed keeps_bind_valid [OF merged] retried keeps_then_valid [OF held_stock.keeps_quarantine(2)] evidence)
  qed simp
qed

definition reopen_reserved :: "'tx swap_env \<Rightarrow> journal_operation \<Rightarrow> claim \<Rightarrow> ('tx, unit) exec" where
  "reopen_reserved env row c =
     bindE (job_group (jo_jobId row) (jo_generation row)) (\<lambda>rows.
       if list_ex proved_revert rows \<and> jo_lifecycleState row \<noteq> RELAY_SUBMITTED \<and> jo_lifecycleState row \<noteq> CONFIRMING
       then thenE (markReverted env (jo_jobId row) (jo_generation row))
              (thenE (entomb (jo_jobId row) (jo_retentionUntilMs row)) (release_claim c))
       else catchE (reopen_artifacts env row c rows)
         (\<lambda>e. thenE (quarantineGroup env (jo_jobId row) (jo_generation row) ''ARTIFACT_RESTORE_FAILED'' (exn_message e))
                (set_quarantined (reopened_record row c [] None False (relay_ambiguous row)))))"

lemma reopen_reserved_settled:
  "valid (holding env st) (reopen_reserved env row c) (\<lambda>_. claim_settled st c (jo_jobId row) (jo_generation row))
     (\<lambda>_. claim_settled st c (jo_jobId row) (jo_generation row))"
proof -
  let ?Q = "claim_settled st c (jo_jobId row) (jo_generation row)"
  have held: "holding env st s \<Longrightarrow> ?Q s" for s by (simp add: holding_def claim_settled_def)
  have proved: "valid (holding env st) (thenE (markReverted env (jo_jobId row) (jo_generation row))
      (thenE (entomb (jo_jobId row) (jo_retentionUntilMs row)) (release_claim c))) (\<lambda>_. ?Q) (\<lambda>_. ?Q)"
    by (rule valid_weaken [OF valid_then [OF reverted_closed entombed_release]]) (auto intro: held)
  have restored: "valid (holding env st) (catchE (reopen_artifacts env row c rows)
         (\<lambda>e. thenE (quarantineGroup env (jo_jobId row) (jo_generation row) ''ARTIFACT_RESTORE_FAILED'' (exn_message e))
                (set_quarantined (reopened_record row c [] None False (relay_ambiguous row))))) (\<lambda>_. ?Q) (\<lambda>_. ?Q)" for rows
    by (rule valid_catch [OF reopen_artifacts_settled keeps_valid])
       (auto intro!: keeps_then held_stock.keeps_quarantine held_stock.keeps_bookkeeping held)
  show ?thesis
    unfolding reopen_reserved_def
    by (rule keeps_bind_valid [OF held_stock.keeps_basics(3)])
       (auto simp only: if_True if_False split: if_split intro!: proved restored held)
qed

lemma reopen_open_reserves:
  assumes "claimFromJournal row = Inr c" "reserve c (ex_stock s) = (b, stock)"
  shows "snd (reopen_open env row s) = (if b then snd (reopen_reserved env row c (s\<lparr>ex_stock := stock\<rparr>)) else s\<lparr>ex_stock := stock\<rparr>)"
  unfolding reopen_open_def reopen_reserved_def using assms
  by (simp add: liftResult_def bindE_def getE_def returnE_def thenE_def modifyE_def throwE_def)

lemma reopen_open_settled:
  assumes h: "holding env (ex_stock s) s" and c: "claimFromJournal row = Inr c" and b: "reserve c (ex_stock s) = (b, stock)"
  shows "if b then claim_settled stock c (jo_jobId row) (jo_generation row) (snd (reopen_open env row s))
         else ex_stock (snd (reopen_open env row s)) = stock"
proof -
  from h have h': "holding env stock (s\<lparr>ex_stock := stock\<rparr>)" by (simp add: holding_def)
  have "claim_settled stock c (jo_jobId row) (jo_generation row) (snd (reopen_reserved env row c (s\<lparr>ex_stock := stock\<rparr>)))"
    by (rule valid_snd [OF reopen_reserved_settled h'])
  then show ?thesis unfolding reopen_open_reserves [OF c b] by simp
qed

lemma reopen_open_unread: "claimFromJournal row = Inl e \<Longrightarrow> snd (reopen_open env row s) = s"
  unfolding reopen_open_def by (simp add: liftResult_def bindE_def throwE_def)

text \<open>
  C10: wherever the executor gives a claim back. A handler that may end a job (a revert, a
  recovery, what the relay or the ledger reported, a failed or a late build) leaves the stock as it was, or
  takes exactly that job's claim out of it when every journal row of the job's generation has reached a
  terminal state by then. A job that starts either keeps the claim its route reserved or gives it back with
  no open row under its new generation, whether its settlement row could not be written or its build ended.
  A job reopened at startup takes its claim again first (a refused reservation changes nothing but what
  reserve answers) and gives it back only with every row of its generation terminal: after a proved revert,
  when nothing had been prepared, or when the recovery or the evidence closes it. Whatever throws in
  between, the claim stays.
\<close>

theorem claim_released_when_closed:
  assumes "config_ok (se_journal env)" "journal_run (se_journal env) (se_fileSize env) (ex_journal s)"
  shows "claim_settled (ex_stock s) (sj_claim r) (sj_jobId r) (sj_generation r) (snd (end_job env r a s))
    \<and> claim_settled (ex_stock s) (rt_claim route) (sw_jobId job) (upcoming_generation (sw_jobId job) (ex_journal s))
        (snd (start_job env job route s))
    \<and> (case claimFromJournal row of
         Inl e \<Rightarrow> snd (reopen_open env row s) = s
       | Inr c \<Rightarrow> (case reserve c (ex_stock s) of (taken, stock) \<Rightarrow>
           if taken then claim_settled stock c (jo_jobId row) (jo_generation row) (snd (reopen_open env row s))
           else ex_stock (snd (reopen_open env row s)) = stock))"
proof -
  have h: "holding env (ex_stock s) s" using assms journal_run_ok by (auto simp: holding_def)
  have "claim_settled (ex_stock s) (rt_claim route) (sw_jobId job) (upcoming_generation (sw_jobId job) (ex_journal s))
      (snd (start_job env job route s))"
    by (rule valid_snd [OF start_job_outcome]) (use h in simp)
  with end_job_outcome [OF h, of r a] reopen_open_unread [of row _ env s] reopen_open_settled [OF h, of row] show ?thesis
    by (auto simp: outcome_settled split: sum.splits prod.splits)
qed

theorem claim_released_when_closed_witness:
  "\<forall>(env0 :: unit swap_env) (s0 :: unit executor) r a job route row.
     let env = env0\<lparr>se_journal := DEFAULT_JOURNAL_CONFIG, se_fileSize := no_size\<rparr>; s = s0\<lparr>ex_journal := sample_journal\<rparr>
     in claim_settled (ex_stock s) (sj_claim r) (sj_jobId r) (sj_generation r) (snd (end_job env r a s))
    \<and> claim_settled (ex_stock s) (rt_claim route) (sw_jobId job) (upcoming_generation (sw_jobId job) (ex_journal s))
        (snd (start_job env job route s))
    \<and> (case claimFromJournal row of
         Inl e \<Rightarrow> snd (reopen_open env row s) = s
       | Inr c \<Rightarrow> (case reserve c (ex_stock s) of (taken, stock) \<Rightarrow>
           if taken then claim_settled stock c (jo_jobId row) (jo_generation row) (snd (reopen_open env row s))
           else ex_stock (snd (reopen_open env row s)) = stock))"
  unfolding Let_def by (intro allI claim_released_when_closed) (simp_all add: default_ok sample_run)

section \<open>Handing a transaction to the relay\<close>

definition good_journal :: "'tx swap_env \<Rightarrow> 'tx executor \<Rightarrow> bool" where
  "good_journal env s \<longleftrightarrow> config_ok (se_journal env) \<and> journal_ok (se_journal env) (ex_journal s)"

interpretation good: executor_invariant env "good_journal env" for env :: "'tx swap_env"
  by unfold_locales (auto simp: good_journal_def dest: journal_step_ok)

text \<open>The cleanup of a failed build always throws; a build that returns has an exact inverse half.\<close>

lemma clean_build_throws: "valid P (clean_build env r e) (\<lambda>_ _. False) (\<lambda>_ _. True)"
  unfolding clean_build_def Let_def
  by (rule valid_bind [OF valid_any])+ (auto intro!: valid_bind [OF valid_any] valid_then [OF valid_any] valid_throw split: exn.splits)

definition inverse_half :: "'tx swap_env \<Rightarrow> swap_message \<Rightarrow> 'tx \<times> 'tx \<Rightarrow> bool" where
  "inverse_half env job built \<longleftrightarrow> assertInverseHalf (se_sdk env) job (fst built) = Inr ()"

lemma mutate_half:
  "(\<And>x. valid (\<lambda>_. True) (k x) Q (\<lambda>_ _. True)) \<Longrightarrow> valid (\<lambda>_. True) (mutate env r kind label c k) Q (\<lambda>_ _. True)"
  unfolding mutate_def by (intro valid_bind [OF valid_any] valid_then [OF valid_any]) simp

lemma checked_half:
  "valid (\<lambda>_. True) (thenE (liftJob (assertInverseHalf (se_sdk env) job relay)) (thenE (check_current env route) (returnE (relay, wallet))))
     (\<lambda>built _. inverse_half env job built) (\<lambda>_ _. True)"
proof (rule valid_then [where R = "\<lambda>_. assertInverseHalf (se_sdk env) job relay = Inr ()"])
  show "valid (\<lambda>_. True) (liftJob (assertInverseHalf (se_sdk env) job relay)) (\<lambda>_ _. assertInverseHalf (se_sdk env) job relay = Inr ()) (\<lambda>_ _. True)"
    by (rule valid_liftJob) auto
  show "valid (\<lambda>_. assertInverseHalf (se_sdk env) job relay = Inr ()) (thenE (check_current env route) (returnE (relay, wallet)))
     (\<lambda>built _. inverse_half env job built) (\<lambda>_ _. True)"
    by (rule valid_then [OF valid_const]) (auto intro!: valid_return simp: inverse_half_def)
qed

lemma dust_half: "valid (\<lambda>_. True) (build_dust env job route r base) (\<lambda>built _. inverse_half env job built) (\<lambda>_ _. True)"
  unfolding build_dust_def
  by (rule mutate_half, clarsimp, (rule valid_then [OF valid_any])+, rule mutate_half, clarsimp,
      (rule valid_then [OF valid_any])+, (rule valid_bind [OF valid_any])+, rule checked_half)

lemma buildHalf_half:
  "valid (\<lambda>_. True) (buildHalf env job route txs r) (\<lambda>built _. inverse_half env job built) (\<lambda>_ _. True)"
proof -
  have steps: "valid (\<lambda>_. True) (build_steps env job route txs r) (\<lambda>built _. inverse_half env job built) (\<lambda>_ _. True)"
    unfolding build_steps_def
    by (intro valid_then [OF valid_any] valid_bind [OF valid_any] dust_half)
  show ?thesis
    unfolding buildHalf_def
    by (intro valid_bind [OF valid_any] valid_then [OF valid_any] valid_catch [OF steps])
       (rule valid_weaken [OF clean_build_throws], auto)
qed

definition outcome_half :: "'tx swap_env \<Rightarrow> swap_message \<Rightarrow> 'tx exn + 'tx \<times> 'tx \<Rightarrow> bool" where
  "outcome_half env job result = (case result of Inl _ \<Rightarrow> True | Inr built \<Rightarrow> inverse_half env job built)"

lemma build_outcome_half:
  "valid (\<lambda>_. True) (build_outcome env job route r) (\<lambda>(result, _) _. outcome_half env job result) (\<lambda>_ _. True)"
proof -
  have attempt: "valid (\<lambda>_. True) (attemptE
       (bindE (draw (se_files env)) (\<lambda>response.
        bindE (liftJob (readAndReconstruct (se_sdk env) (se_parseDate env) route response)) (\<lambda>exactTransactions.
        thenE (check_current env route) (buildHalf env job route exactTransactions r)))))
      (\<lambda>result _. outcome_half env job result) (\<lambda>_ _. True)"
    by (rule valid_weaken [OF valid_attempt [OF valid_bind [OF valid_any valid_bind [OF valid_any valid_then [OF valid_any buildHalf_half]]]]])
       (auto simp: outcome_half_def split: sum.splits)
  have rest: "valid (\<lambda>_. outcome_half env job result)
      (bindE (build_of bd_deadline Not_fired) (\<lambda>deadline. thenE (modifyE (\<lambda>s. s\<lparr>ex_build := None\<rparr>)) (returnE (result, deadline))))
      (\<lambda>(result, _) _. outcome_half env job result) (\<lambda>_ _. True)" for result
    by (intro valid_bind [OF valid_const] valid_then [OF valid_const] valid_return) simp
  show ?thesis
    unfolding build_outcome_def by (intro valid_then [OF valid_any] valid_bind [OF attempt] rest)
qed

text \<open>After the mark every row of the generation belongs to the relay, or was already closed.\<close>

definition relay_state :: "lifecycle_state \<Rightarrow> bool" where
  "relay_state st \<longleftrightarrow> st = AWAITING_RELAY \<or> state_terminal st"

definition relay_at :: "string \<Rightarrow> 'tx executor \<Rightarrow> bool" where
  "relay_at key s \<longleftrightarrow> (case row_state (ex_journal s) key of None \<Rightarrow> False | Some st \<Rightarrow> relay_state st)"

definition relay_body :: "'tx swap_env \<Rightarrow> journal_operation \<Rightarrow> ('tx, unit) exec" where
  "relay_body env row =
     (if state_terminal (jo_lifecycleState row) then returnE ()
      else bindE (if jo_lifecycleState row = PREPARED \<and> jo_operationKind row = JOB_SETTLEMENT
                  then bindE (j_transition env (jo_operationKey row) PREPARED APPLIED no_patch) (\<lambda>r. returnE (jo_lifecycleState r))
                  else returnE (jo_lifecycleState row)) (\<lambda>state.
        if state = APPLIED then move env (jo_operationKey row) APPLIED AWAITING_RELAY
        else if state \<noteq> AWAITING_RELAY then throwE (Failed ''not ready for relay ownership'')
        else returnE ()))"

lemma markAwaitingRelay_loop:
  "markAwaitingRelay env jobId generation =
     bindE (job_group jobId generation) (\<lambda>rows. forE (\<lambda>initial. bindE (j_require (jo_operationKey initial)) (relay_body env)) rows)"
  by (simp add: markAwaitingRelay_def relay_body_def [abs_def])

lemma transition_result:
  assumes "transition cf fs key expected next_state patch now j = Inr (row, j')"
  shows "row_state j' key = Some (jo_lifecycleState row)"
  using assms by (auto simp: transition_def apply_transition_def bindR_eq_Inr Let_def require_iff row_state_iff split: if_splits)

lemma transition_other:
  assumes "transition cf fs key expected next_state patch now j = Inr (row, j')" "k \<noteq> key"
  shows "row_state j' k = row_state j k"
proof -
  from assms(1) obtain current where c: "require_operation j key = Inr current"
    and b: "j' = j \<or> apply_transition cf fs key next_state patch now current j = Inr (row, j')"
    by (auto simp: transition_def bindR_eq_Inr split: if_splits)
  from c have k: "jo_operationKey current = key" by (auto simp: require_iff dest: find_operation_Some)
  from b show ?thesis
  proof
    assume "apply_transition cf fs key next_state patch now current j = Inr (row, j')"
    then obtain row1 where w: "(case tp_receipt patch of None \<Rightarrow> Inr (patched_row next_state patch now current)
        | Some r \<Rightarrow> writeReceipt r (patched_row next_state patch now current)) = Inr row1" and j': "j' = put_row row1 j"
      by (auto simp: apply_transition_def bindR_eq_Inr Let_def)
    from w k have "jo_operationKey row1 = key" by (auto simp: patched_row_def dest: written_state split: option.splits)
    with find_put_other [of k row1 j] assms(2) j' show ?thesis by (simp add: row_state_def)
  qed simp
qed

lemma j_transition_states:
  "valid (\<lambda>_. True) (j_transition env key a b patch) (\<lambda>row s. row_state (ex_journal s) key = Some (jo_lifecycleState row)
     \<and> row_state (ex_journal s) key = Some b) (\<lambda>_ _. True)"
  unfolding j_transition_def
  by (rule valid_bind [OF valid_any]) (auto intro!: valid_writeJ dest: transition_result transition_state)

lemma j_transition_other:
  "k \<noteq> key \<Longrightarrow> valid (relay_at k) (j_transition env key a b patch) (\<lambda>_. relay_at k) (\<lambda>_ _. True)"
  unfolding j_transition_def
  by (rule valid_bind [OF valid_draw [where Q = "\<lambda>_. relay_at k"] valid_writeJ]) (auto simp: relay_at_def transition_other)

lemma relay_body_relays:
  "valid (\<lambda>s. row_state (ex_journal s) (jo_operationKey row) = Some (jo_lifecycleState row)) (relay_body env row)
     (\<lambda>_. relay_at (jo_operationKey row)) (\<lambda>_ _. True)"
proof -
  let ?k = "jo_operationKey row"
  have moved: "valid (\<lambda>_. True) (move env ?k a AWAITING_RELAY) (\<lambda>_. relay_at ?k) (\<lambda>_ _. True)" for a
    unfolding move_def
    by (rule valid_then [OF valid_weaken [OF j_transition_states], where R = "relay_at ?k"])
       (auto intro: valid_return simp: relay_at_def relay_state_def)
  have owned: "valid (\<lambda>s. row_state (ex_journal s) ?k = Some st)
      (if st = APPLIED then move env ?k APPLIED AWAITING_RELAY
       else if st \<noteq> AWAITING_RELAY then throwE (Failed ''not ready for relay ownership'') else returnE ())
      (\<lambda>_. relay_at ?k) (\<lambda>_ _. True)" for st
    by (auto intro!: valid_weaken [OF moved] valid_throw valid_return simp: relay_at_def relay_state_def)
  have applied: "valid (\<lambda>_. True) (bindE (j_transition env ?k PREPARED APPLIED no_patch) (\<lambda>r. returnE (jo_lifecycleState r)))
      (\<lambda>st s. row_state (ex_journal s) ?k = Some st) (\<lambda>_ _. True)"
    by (rule valid_bind [OF j_transition_states]) (auto intro: valid_return)
  have read: "valid (\<lambda>s. row_state (ex_journal s) ?k = Some (jo_lifecycleState row))
      (if jo_lifecycleState row = PREPARED \<and> jo_operationKind row = JOB_SETTLEMENT
       then bindE (j_transition env ?k PREPARED APPLIED no_patch) (\<lambda>r. returnE (jo_lifecycleState r)) else returnE (jo_lifecycleState row))
      (\<lambda>st s. row_state (ex_journal s) ?k = Some st) (\<lambda>_ _. True)"
    by (auto intro!: valid_return valid_weaken [OF applied])
  show ?thesis
  proof (cases "state_terminal (jo_lifecycleState row)")
    case True
    then show ?thesis by (auto simp: relay_body_def relay_at_def relay_state_def intro: valid_return)
  next
    case False
    with valid_bind [OF read owned] show ?thesis by (simp add: relay_body_def)
  qed
qed

lemma relay_body_other:
  "k \<noteq> jo_operationKey row \<Longrightarrow> valid (relay_at k) (relay_body env row) (\<lambda>_. relay_at k) (\<lambda>_ _. True)"
  unfolding relay_body_def move_def
  by (auto intro!: valid_return valid_throw valid_bind [where R = "\<lambda>_. relay_at k"] valid_then [where R = "relay_at k"] j_transition_other)

lemma relay_body_marks: "valid (marking env st j0) (relay_body env row) (\<lambda>_. marking env st j0) (\<lambda>_. marking env st j0)"
  unfolding relay_body_def
  by (auto intro!: valid_return valid_throw valid_bind [where R = "\<lambda>_. marking env st j0"] valid_weaken [OF transition_marks]
      valid_weaken [OF move_marks])

lemma relay_step:
  "valid (marking env st j0) (bindE (j_require (jo_operationKey x)) (relay_body env))
     (\<lambda>_ s. marking env st j0 s \<and> relay_at (jo_operationKey x) s) (\<lambda>_. marking env st j0)"
proof (rule valid_bind [OF required_row])
  fix row
  show "valid (\<lambda>s. marking env st j0 s \<and> jo_operationKey row = jo_operationKey x
        \<and> row_state (ex_journal s) (jo_operationKey x) = Some (jo_lifecycleState row)) (relay_body env row)
      (\<lambda>_ s. marking env st j0 s \<and> relay_at (jo_operationKey x) s) (\<lambda>_. marking env st j0)"
  proof (cases "jo_operationKey row = jo_operationKey x")
    case True
    show ?thesis
      unfolding True [symmetric] by (rule valid_both [OF relay_body_marks relay_body_relays]) simp
  qed (simp add: valid_def)
qed

lemma relay_step_keeps:
  "valid (\<lambda>s. marking env st j0 s \<and> relay_at k s) (bindE (j_require (jo_operationKey y)) (relay_body env))
     (\<lambda>_ s. marking env st j0 s \<and> relay_at k s) (\<lambda>_. marking env st j0)"
proof (cases "k = jo_operationKey y")
  case True
  show ?thesis unfolding True by (rule valid_weaken [OF relay_step]) auto
next
  case False
  show ?thesis
  proof (rule valid_bind [where R = "\<lambda>row s. marking env st j0 s \<and> relay_at k s \<and> jo_operationKey row = jo_operationKey y"])
    show "valid (\<lambda>s. marking env st j0 s \<and> relay_at k s) (j_require (jo_operationKey y))
        (\<lambda>row s. marking env st j0 s \<and> relay_at k s \<and> jo_operationKey row = jo_operationKey y) (\<lambda>_. marking env st j0)"
      unfolding j_require_def by (rule valid_readJ) (auto simp: require_iff dest: find_operation_Some)
  next
    fix row
    show "valid (\<lambda>s. marking env st j0 s \<and> relay_at k s \<and> jo_operationKey row = jo_operationKey y) (relay_body env row)
        (\<lambda>_ s. marking env st j0 s \<and> relay_at k s) (\<lambda>_. marking env st j0)"
    proof (cases "jo_operationKey row = jo_operationKey y")
      case True
      with False have "k \<noteq> jo_operationKey row" by simp
      show ?thesis
        by (rule valid_both [OF relay_body_marks relay_body_other [OF \<open>k \<noteq> jo_operationKey row\<close>]]) simp
    qed (simp add: valid_def)
  qed
qed

definition group_relayed :: "'tx job_record \<Rightarrow> journal \<Rightarrow> bool" where
  "group_relayed r j \<longleftrightarrow> list_all (\<lambda>row. in_group (sj_jobId r) (sj_generation r) row \<longrightarrow> relay_state (jo_lifecycleState row)) (jn_operations j)"

lemma markAwaitingRelay_relays:
  "valid (good_journal env) (markAwaitingRelay env (sj_jobId r) (sj_generation r)) (\<lambda>_ s. group_relayed r (ex_journal s)) (\<lambda>_ _. True)"
proof (rule validI)
  fix s x s'
  assume g: "good_journal env s" and m: "markAwaitingRelay env (sj_jobId r) (sj_generation r) s = (Inr x, s')"
  let ?rows = "filter (in_group (sj_jobId r) (sj_generation r)) (jn_operations (ex_journal s))"
  have s: "marking env (ex_stock s) (ex_journal s) s" using g by (simp add: marking_def good_journal_def)
  from m have l: "forE (\<lambda>initial. bindE (j_require (jo_operationKey initial)) (relay_body env)) ?rows s = (Inr x, s')"
    by (auto simp: markAwaitingRelay_loop bindE_def job_group_def readJ_def returnE_def split: sum.splits dest: listed_rows)
  from valid_Inr [OF valid_for [OF relay_step relay_step_keeps] s l]
  have a: "marking env (ex_stock s) (ex_journal s) s'" and e: "\<forall>y \<in> set ?rows. relay_at (jo_operationKey y) s'" by auto
  have d: "distinct (map jo_operationKey (jn_operations (ex_journal s')))" using a journal_okD(1) by (auto simp: marking_def)
  show "group_relayed r (ex_journal s')"
    unfolding group_relayed_def list_all_iff
  proof (intro ballI impI)
    fix b
    assume b: "b \<in> set (jn_operations (ex_journal s'))" "in_group (sj_jobId r) (sj_generation r) b"
    from advanced_row [of "ex_journal s" "ex_journal s'", OF _ d b] e a have "relay_at (jo_operationKey b) s'" by (auto simp: marking_def)
    with found_row [OF d b(1)] show "relay_state (jo_lifecycleState b)" by (simp add: relay_at_def row_state_def)
  qed
qed simp

definition handed_over :: "'tx swap_env \<Rightarrow> swap_message \<Rightarrow> response \<Rightarrow> 'tx executor \<Rightarrow> bool" where
  "handed_over env job resp s = (case resp of Job_error _ _ \<Rightarrow> True | Swap_tx jobId bytes \<Rightarrow>
     jobId = sw_jobId job \<and> (\<exists>relay record. assertInverseHalf (se_sdk env) job relay = Inr () \<and> se_serializeFinalized env relay = Inr bytes
       \<and> map_of (ex_awaiting s) jobId = Some record \<and> sj_walletTransaction record \<noteq> None \<and> sj_relayAccepted record = Some True
       \<and> group_relayed record (ex_journal s)))"

lemma refused_not_handed: "valid P (terminalError k reason) (\<lambda>resp s. handed_over env job resp s) E"
  unfolding terminalError_def
  by (rule valid_then [where R = "\<lambda>_. True"]) (auto intro: valid_modify valid_return simp: handed_over_def)

lemma hand_over_relays:
  assumes "sj_jobId r = sw_jobId job" "inverse_half env job built"
  shows "valid (good_journal env) (hand_over env r built) (\<lambda>resp s. handed_over env job resp s) (\<lambda>_ _. True)"
  unfolding hand_over_def
proof (rule keeps_bind_valid [OF good.keeps_guards(1)])
  let ?r = "r\<lparr>sj_walletTransaction := Some (snd built), sj_relayAccepted := Some True\<rparr>"
  let ?R = "\<lambda>s. group_relayed r (ex_journal s) \<and> map_of (ex_awaiting s) (sj_jobId r) = Some ?r"
  have same: "group_relayed ?r = group_relayed r" by (simp add: group_relayed_def fun_eq_iff)
  have tail: "valid ?R (bindE (liftResult (se_serializeFinalized env (fst built))) (\<lambda>bytes. returnE (Swap_tx (sj_jobId r) bytes)))
      (\<lambda>resp s. handed_over env job resp s) (\<lambda>_ _. True)"
    by (rule valid_bind [OF valid_liftResult [where Q = "\<lambda>bytes s. ?R s \<and> se_serializeFinalized env (fst built) = Inr bytes"]])
       (use assms in \<open>auto intro!: valid_return exI [of _ "fst built"] exI [of _ ?r] simp: handed_over_def inverse_half_def same\<close>)
  have mid: "valid (\<lambda>s. group_relayed r (ex_journal s))
      (thenE (drop_building (sj_jobId r)) (thenE (set_awaiting ?r)
        (bindE (liftResult (se_serializeFinalized env (fst built))) (\<lambda>bytes. returnE (Swap_tx (sj_jobId r) bytes)))))
      (\<lambda>resp s. handed_over env job resp s) (\<lambda>_ _. True)"
    unfolding drop_building_def set_awaiting_def
    by (rule valid_then [OF valid_modify [where Q = "\<lambda>_ s. group_relayed r (ex_journal s)"] valid_then [OF valid_modify tail]])
       (simp_all add: update_conv')
  fix mine
  show "valid (good_journal env) (if \<not> mine then throwE (Refused JOB_WALLET_FAILED)
      else thenE (markAwaitingRelay env (sj_jobId r) (sj_generation r)) (thenE (drop_building (sj_jobId r)) (thenE (set_awaiting ?r)
        (bindE (liftResult (se_serializeFinalized env (fst built))) (\<lambda>bytes. returnE (Swap_tx (sj_jobId r) bytes))))))
      (\<lambda>resp s. handed_over env job resp s) (\<lambda>_ _. True)"
    by (auto intro!: valid_throw valid_then [OF markAwaitingRelay_relays mid])
qed simp

lemma run_job_relays:
  assumes "sj_jobId r = sw_jobId job"
  shows "valid (good_journal env) (run_job env job route r) (\<lambda>resp s. handed_over env job resp s) (\<lambda>_ _. True)"
  unfolding run_job_def
proof (rule valid_bind [OF keeps_pure [OF good.keeps_outcome build_outcome_half [unfolded case_prod_beta]]])
  fix x :: "('a exn + 'a \<times> 'a) \<times> deadline"
  obtain result deadline where x: "x = (result, deadline)" by fastforce
  have built: "valid (\<lambda>s. good_journal env s \<and> outcome_half env job result)
      (catchE (case result of Inl e \<Rightarrow> throwE e | Inr built \<Rightarrow> hand_over env r built)
         (\<lambda>e. thenE (settle_failure env r e) (terminalError (sj_jobId r) (exn_reason e))))
      (\<lambda>resp s. handed_over env job resp s) (\<lambda>_ _. True)"
  proof (rule valid_catch [where R = "\<lambda>_ _. True"])
    show "valid (\<lambda>s. good_journal env s \<and> outcome_half env job result)
        (case result of Inl e \<Rightarrow> throwE e | Inr built \<Rightarrow> hand_over env r built) (\<lambda>resp s. handed_over env job resp s) (\<lambda>_ _. True)"
    proof (cases result)
      case (Inr built)
      show ?thesis
      proof (cases "inverse_half env job built")
        case True
        then show ?thesis using Inr by (auto intro: valid_weaken [OF hand_over_relays [OF assms True]])
      qed (simp add: Inr outcome_half_def valid_def)
    qed (auto intro: valid_throw)
  qed (intro valid_then [OF valid_any] refused_not_handed)
  show "valid (\<lambda>s. good_journal env s \<and> outcome_half env job (fst x))
      (case x of (result, deadline) \<Rightarrow> (case deadline of
         Not_fired \<Rightarrow> catchE (case result of Inl e \<Rightarrow> throwE e | Inr built \<Rightarrow> hand_over env r built)
             (\<lambda>e. thenE (settle_failure env r e) (terminalError (sj_jobId r) (exn_reason e)))
       | Fired \<Rightarrow> thenE (quietE (case result of Inl e \<Rightarrow> late_failure env r e | Inr built \<Rightarrow> late_success env r (snd built)))
             (terminalError (sj_jobId r) JOB_WALLET_TIMEOUT)
       | Fired_unrecorded message \<Rightarrow> terminalError (sj_jobId r) JOB_WALLET_FAILED)) (\<lambda>resp s. handed_over env job resp s) (\<lambda>_ _. True)"
    unfolding x by (cases deadline) (auto intro: built refused_not_handed valid_then [OF valid_any])
qed

lemma start_job_relays:
  "valid (good_journal env) (start_job env job route) (\<lambda>resp s. handed_over env job resp s) (\<lambda>_ _. True)"
proof -
  have run: "valid (good_journal env) (thenE (set_building r) (run_job env job route r)) (\<lambda>resp s. handed_over env job resp s) (\<lambda>_ _. True)"
    if "sj_jobId r = sw_jobId job" for r
    by (rule keeps_then_valid [OF good.keeps_bookkeeping(5) run_job_relays [OF that]]) simp
  have refused: "valid (good_journal env) (thenE (release_claim (rt_claim route)) (terminalError (sw_jobId job) JOB_WALLET_FAILED))
      (\<lambda>resp s. handed_over env job resp s) (\<lambda>_ _. True)"
    by (rule valid_then [OF valid_any refused_not_handed])
  show ?thesis
    unfolding start_job_def Let_def
    by (intro keeps_bind_valid good.keeps_next_generation good.keeps_draw keeps_attempt keeps_bind good.keeps_create)
       (auto split: sum.splits intro!: run refused simp: job_record_of_def)
qed

lemma executeSwap_tx:
  assumes good: "good_journal env s" and r: "executeSwap env job s = (Inr (Swap_tx jobId bytes), s')"
  shows "(\<not> ex_stopped s \<and> ex_reconciled s \<and> \<not> isSeen s (sw_jobId job)
    \<and> int (length (ex_building s) + length (ex_quarantined s)) < se_maxParallelSwaps env) \<and> handed_over env job (Swap_tx jobId bytes) s'"
proof -
  have refused: "terminalError k reason s = (Inr (Swap_tx jobId bytes), s') \<longleftrightarrow> False" for k reason
    by (simp add: terminalError_def thenE_def bindE_def modifyE_def returnE_def)
  from r have guards: "\<not> ex_stopped s" "ex_reconciled s" "\<not> isSeen s (sw_jobId job)"
    "int (length (ex_building s) + length (ex_quarantined s)) < se_maxParallelSwaps env"
    by (auto simp: executeSwap_def bindE_def getE_def refused split: if_splits)
  let ?k = "\<lambda>resolved. case resolved of
      Inl e \<Rightarrow> bindE (draw (se_now env)) (\<lambda>now. thenE (entomb (sw_jobId job) (now + settleTtlMs env))
               (terminalError (sw_jobId job) (case e of Refused r \<Rightarrow> r | _ \<Rightarrow> JOB_ROUTE_NOT_CURRENT)))
    | Inr route \<Rightarrow> start_job env job route"
  have rest: "valid (good_journal env) (bindE (attemptE (resolve_job env job)) ?k) (\<lambda>resp s. handed_over env job resp s) (\<lambda>_ _. True)"
    by (rule keeps_bind_valid [OF keeps_attempt [OF good.keeps_resolve]])
       (auto split: sum.splits intro: start_job_relays valid_bind [OF valid_any] valid_then [OF valid_any] refused_not_handed)
  from r guards have "bindE (attemptE (resolve_job env job)) ?k s = (Inr (Swap_tx jobId bytes), s')"
    by (simp add: executeSwap_def bindE_def [of "getE _"] getE_def)
  from valid_Inr [OF rest good this] guards show ?thesis by blast
qed

text \<open>
  C9: when the executor answers a job with a transaction it was running, reconciled and below
  its capacity and had not seen the job; the bytes are those of a transaction whose balance is the exact
  inverse of the job; and the job is recorded as the relay's, with its wallet half kept for a revert and
  every open row of its generation in state \<open>AWAITING_RELAY\<close>.
\<close>

theorem executeSwap_hands_over:
  assumes "config_ok (se_journal env)" "journal_run (se_journal env) (se_fileSize env) (ex_journal s)"
  shows "case executeSwap env job s of (Inl e, s') \<Rightarrow> True | (Inr (Job_error k reason), s') \<Rightarrow> True
    | (Inr (Swap_tx jobId bytes), s') \<Rightarrow>
        \<not> ex_stopped s \<and> ex_reconciled s \<and> \<not> isSeen s (sw_jobId job)
        \<and> int (length (ex_building s) + length (ex_quarantined s)) < se_maxParallelSwaps env \<and> jobId = sw_jobId job
        \<and> (\<exists>relay record. assertInverseHalf (se_sdk env) job relay = Inr () \<and> se_serializeFinalized env relay = Inr bytes
           \<and> map_of (ex_awaiting s') jobId = Some record \<and> sj_walletTransaction record \<noteq> None \<and> sj_relayAccepted record = Some True
           \<and> list_all (\<lambda>row. in_group (sj_jobId record) (sj_generation record) row \<longrightarrow> relay_state (jo_lifecycleState row))
               (jn_operations (ex_journal s')))"
proof -
  have "case resp of Job_error k reason \<Rightarrow> True | Swap_tx jobId bytes \<Rightarrow>
      (\<not> ex_stopped s \<and> ex_reconciled s \<and> \<not> isSeen s (sw_jobId job)
       \<and> int (length (ex_building s) + length (ex_quarantined s)) < se_maxParallelSwaps env) \<and> handed_over env job resp s'"
    if r: "executeSwap env job s = (Inr resp, s')" for resp s'
  proof (cases resp)
    case (Swap_tx jobId bytes)
    from executeSwap_tx [OF _ r [unfolded Swap_tx]] assms journal_run_ok Swap_tx show ?thesis by (auto simp: good_journal_def)
  qed simp
  then show ?thesis
    by (auto simp: handed_over_def group_relayed_def split: prod.splits sum.splits response.splits)
qed

theorem executeSwap_hands_over_witness:
  "\<forall>(env0 :: unit swap_env) (s0 :: unit executor) job.
     let env = env0\<lparr>se_journal := DEFAULT_JOURNAL_CONFIG, se_fileSize := no_size\<rparr>; s = s0\<lparr>ex_journal := sample_journal\<rparr> in
     case executeSwap env job s of (Inl e, s') \<Rightarrow> True | (Inr (Job_error k reason), s') \<Rightarrow> True
    | (Inr (Swap_tx jobId bytes), s') \<Rightarrow>
        \<not> ex_stopped s \<and> ex_reconciled s \<and> \<not> isSeen s (sw_jobId job)
        \<and> int (length (ex_building s) + length (ex_quarantined s)) < se_maxParallelSwaps env \<and> jobId = sw_jobId job
        \<and> (\<exists>relay record. assertInverseHalf (se_sdk env) job relay = Inr () \<and> se_serializeFinalized env relay = Inr bytes
           \<and> map_of (ex_awaiting s') jobId = Some record \<and> sj_walletTransaction record \<noteq> None \<and> sj_relayAccepted record = Some True
           \<and> list_all (\<lambda>row. in_group (sj_jobId record) (sj_generation record) row \<longrightarrow> relay_state (jo_lifecycleState row))
               (jn_operations (ex_journal s')))"
  unfolding Let_def by (intro allI executeSwap_hands_over) (simp_all add: default_ok sample_run)

end
