(* ===== verification/Offer_Transaction.thy ===== *)
theory Offer_Transaction
  imports Bytes Collections
begin

text \<open>
  Model of \<^verbatim>\<open>packages/validator/derive.ts\<close> and \<^verbatim>\<open>packages/validator/extract-root.ts\<close>: what
  the kernel reads out of a ledger transaction. The transaction itself is a record of the fields
  the code reads; \<open>undefined\<close> and empty lists are the same to that code. The ledger's address
  derivation is a parameter.
\<close>

unbundle bit_operations_syntax

section \<open>The transaction as the code reads it\<close>

text \<open>A field that is bytes, a hexadecimal text, or a value whose \<open>String\<close> form is used.\<close>

datatype hex_value = Hex_bytes bytes | Hex_text string | Hex_other string

text \<open>A point in time as a \<open>Date\<close> or number of milliseconds, or as text for \<open>Date.parse\<close>.\<close>

datatype time_value = No_time | Time_ms js_number | Time_text string

record shielded_input =
  zi_serialized :: bytes
  zi_nullifier :: hex_value

record shielded_offer =
  so_inputs :: "shielded_input list"
  so_transients :: "hex_value list"
  so_outputs :: "hex_value option list"

record utxo_spend =
  us_owner :: hex_value
  us_intentHash :: hex_value
  us_outputNo :: int

record utxo_output =
  uo_owner :: hex_value
  uo_type :: hex_value
  uo_value :: string

record unshielded_offer =
  uf_inputs :: "utxo_spend list"
  uf_outputs :: "utxo_output list"

record ledger_intent =
  it_guaranteed :: "unshielded_offer option"
  it_fallible :: "unshielded_offer option"
  it_intentHash :: "int \<Rightarrow> hex_value"
  it_dust :: "(time_value \<times> nat) option"

record offer_tx =
  tx_guaranteed :: "shielded_offer option"
  tx_fallible :: "shielded_offer option list"
  tx_intents :: "(int \<times> ledger_intent) list"

record spend_ref =
  sp_owner :: string
  sp_intentHash :: string
  sp_outputNo :: int

record output_ref =
  ou_owner :: string
  ou_intentHash :: string
  ou_outputNo :: int
  ou_tokenType :: string
  ou_value :: string

section \<open>Reading it\<close>

definition strip_0x :: "string \<Rightarrow> string" where
  "strip_0x s = (case s of z # x # rest \<Rightarrow> if z = CHR ''0'' \<and> (x = CHR ''x'' \<or> x = CHR ''X'') then rest else s
     | _ \<Rightarrow> s)"

fun bytesOrStringToHex :: "hex_value \<Rightarrow> string" where
  "bytesOrStringToHex (Hex_bytes b) = toLowerCase (toHex b)"
| "bytesOrStringToHex (Hex_text s) = toLowerCase (strip_0x s)"
| "bytesOrStringToHex (Hex_other s) = toLowerCase s"

definition shieldedOffersOf :: "offer_tx \<Rightarrow> shielded_offer list" where
  "shieldedOffersOf tx = (case tx_guaranteed tx of None \<Rightarrow> [] | Some g \<Rightarrow> [g]) @ List.map_filter id (tx_fallible tx)"

definition collectNullifiers :: "offer_tx \<Rightarrow> string list" where
  "collectNullifiers tx = concat (map (\<lambda>s. map (\<lambda>i. bytesOrStringToHex (zi_nullifier i)) (so_inputs s)
     @ map bytesOrStringToHex (so_transients s)) (shieldedOffersOf tx))"

definition unshielded_offers :: "ledger_intent \<Rightarrow> unshielded_offer list" where
  "unshielded_offers i = List.map_filter id [it_guaranteed i, it_fallible i]"

definition collectUnshieldedSpends :: "(string \<Rightarrow> string result) \<Rightarrow> offer_tx \<Rightarrow> spend_ref list result" where
  "collectUnshieldedSpends addressFromKey tx =
     mapR (\<lambda>s. bindR (addressFromKey (bytesOrStringToHex (us_owner s))) (\<lambda>a.
        Inr \<lparr>sp_owner = toLowerCase a, sp_intentHash = toLowerCase (bytesOrStringToHex (us_intentHash s)),
             sp_outputNo = us_outputNo s\<rparr>))
       (concat (map (\<lambda>(_, i). concat (map uf_inputs (unshielded_offers i))) (tx_intents tx)))"

definition collectOutputCommitments :: "offer_tx \<Rightarrow> string list" where
  "collectOutputCommitments tx = concat (map (\<lambda>s. map (\<lambda>c. toLowerCase (bytesOrStringToHex c))
     (List.map_filter id (so_outputs s))) (shieldedOffersOf tx))"

text \<open>A guaranteed output is stamped with segment 0, a fallible one with the intent's own key.\<close>

definition outputs_of :: "ledger_intent \<Rightarrow> int \<Rightarrow> unshielded_offer option \<Rightarrow> output_ref list" where
  "outputs_of i segment offer = (case offer of None \<Rightarrow> []
   | Some f \<Rightarrow> filter (\<lambda>u. ou_owner u \<noteq> [] \<and> ou_tokenType u \<noteq> [] \<and> ou_value u \<noteq> [])
       (map (\<lambda>(n, u). \<lparr>ou_owner = bytesOrStringToHex (uo_owner u),
           ou_intentHash = bytesOrStringToHex (it_intentHash i segment), ou_outputNo = int n,
           ou_tokenType = bytesOrStringToHex (uo_type u), ou_value = uo_value u\<rparr>)
         (enumerate 0 (uf_outputs f))))"

definition collectUnshieldedOutputs :: "offer_tx \<Rightarrow> output_ref list" where
  "collectUnshieldedOutputs tx = concat (map (\<lambda>(segment, i).
     outputs_of i 0 (it_guaranteed i) @ outputs_of i segment (it_fallible i)) (tx_intents tx))"

section \<open>Merkle roots of the inputs\<close>

definition ROOT_GAP_AFTER_NULLIFIER :: nat where
  "ROOT_GAP_AFTER_NULLIFIER = 33"

definition PINNED_INPUT_TAG :: string where
  "PINNED_INPUT_TAG = ''zswap-input[v2]''"

definition scaleRunLength :: "8 word \<Rightarrow> nat" where
  "scaleRunLength b = (let t = b AND 3 in
     if t = 0 then 1 else if t = 1 then 2 else if t = 2 then 4 else unat (drop_bit 2 b) + 5)"

definition canonicalRootHex :: "string \<Rightarrow> string" where
  "canonicalRootHex s = toLowerCase (strip_0x s)"

text \<open>\<open>String(value)\<close>: a byte array prints as its decimal elements.\<close>

definition js_string :: "hex_value \<Rightarrow> string" where
  "js_string v = (case v of Hex_text s \<Rightarrow> s | Hex_other s \<Rightarrow> s
   | Hex_bytes b \<Rightarrow> join_with CHR '','' (map (\<lambda>x. nat_to_string (unat x)) b))"

definition extractInputRoot :: "shielded_input \<Rightarrow> string result" where
  "extractInputRoot input =
     (let ser = zi_serialized input; nul = fromHex (canonicalRootHex (js_string (zi_nullifier input))) in
      if length nul \<noteq> 32 then Inl (PlainError ''unexpected nullifier length'')
      else case indexOf nul ser of
        None \<Rightarrow> Inl (PlainError ''nullifier not found in serialized input'')
      | Some nulOff \<Rightarrow>
          if \<not> contains (bytes_of_string PINNED_INPUT_TAG) (take nulOff ser)
          then Inl (PlainError ''input tag header missing'')
          else let rootOff = nulOff + 32 + ROOT_GAP_AFTER_NULLIFIER in
            if length ser \<le> rootOff then Inl (PlainError ''root offset past end of input'')
            else let runLen = scaleRunLength (ser ! rootOff) in
              if runLen < 1 \<or> 33 < runLen \<or> length ser < rootOff + runLen
              then Inl (PlainError ''implausible root run length'')
              else Inr (toHex (take runLen (drop rootOff ser))))"

definition extractOfferInputRoots :: "offer_tx \<Rightarrow> string list result" where
  "extractOfferInputRoots tx = mapR extractInputRoot (concat (map so_inputs (shieldedOffersOf tx)))"

section \<open>Facts\<close>

lemma map_filter_id_Some: "x \<in> set (List.map_filter id ys) \<longleftrightarrow> Some x \<in> set ys"
  by (induction ys) (auto simp: List.map_filter_def)

lemma image_map_filter: "f ` set (List.map_filter id ys) = {f v | v. Some v \<in> set ys}"
  by (simp add: set_eq_iff image_iff Bex_def map_filter_id_Some) blast

lemma shieldedOffersOf_iff: "s \<in> set (shieldedOffersOf tx) \<longleftrightarrow> tx_guaranteed tx = Some s \<or> Some s \<in> set (tx_fallible tx)"
  by (auto simp: shieldedOffersOf_def map_filter_id_Some split: option.split)

lemma collectNullifiers_iff: "n \<in> set (collectNullifiers tx) \<longleftrightarrow>
  (\<exists>s \<in> set (shieldedOffersOf tx). (\<exists>i \<in> set (so_inputs s). n = bytesOrStringToHex (zi_nullifier i))
     \<or> (\<exists>t \<in> set (so_transients s). n = bytesOrStringToHex t))"
  by (auto simp: collectNullifiers_def)

lemma collectOutputCommitments_iff: "c \<in> set (collectOutputCommitments tx) \<longleftrightarrow>
  (\<exists>s \<in> set (shieldedOffersOf tx). \<exists>v. Some v \<in> set (so_outputs s) \<and> c = toLowerCase (bytesOrStringToHex v))"
  by (auto simp: collectOutputCommitments_def image_map_filter)

lemma take_drop_cut: "take a (drop k xs) @ drop (k + a) xs = drop k xs"
  by (metis add.commute append_take_drop_id drop_drop)

text \<open>A root that is extracted stands, in full, where the pinned layout puts it: the nullifier's
  first occurrence under the pinned header, the gap, then a run of at most 33 bytes.\<close>

lemma extractInputRoot_layout:
  assumes "extractInputRoot input = Inr root"
  shows "\<exists>pre nul gap run post. zi_serialized input = pre @ nul @ gap @ run @ post
    \<and> nul = fromHex (canonicalRootHex (js_string (zi_nullifier input))) \<and> length nul = 32
    \<and> contains (bytes_of_string PINNED_INPUT_TAG) pre \<and> length gap = ROOT_GAP_AFTER_NULLIFIER
    \<and> root = toHex run \<and> run \<noteq> [] \<and> length run = scaleRunLength (hd run) \<and> length run \<le> 33"
proof -
  let ?ser = "zi_serialized input" and ?nul = "fromHex (canonicalRootHex (js_string (zi_nullifier input)))"
  from assms obtain k where k: "length ?nul = 32" "indexOf ?nul ?ser = Some k"
    "contains (bytes_of_string PINNED_INPUT_TAG) (take k ?ser)"
    and r: "k + 32 + ROOT_GAP_AFTER_NULLIFIER < length ?ser"
      "1 \<le> scaleRunLength (?ser ! (k + 32 + ROOT_GAP_AFTER_NULLIFIER))"
      "scaleRunLength (?ser ! (k + 32 + ROOT_GAP_AFTER_NULLIFIER)) \<le> 33"
      "k + 32 + ROOT_GAP_AFTER_NULLIFIER + scaleRunLength (?ser ! (k + 32 + ROOT_GAP_AFTER_NULLIFIER)) \<le> length ?ser"
      "root = toHex (take (scaleRunLength (?ser ! (k + 32 + ROOT_GAP_AFTER_NULLIFIER))) (drop (k + 32 + ROOT_GAP_AFTER_NULLIFIER) ?ser))"
    by (auto simp: extractInputRoot_def Let_def not_less split: if_splits option.splits)
  define off where "off = k + 32 + ROOT_GAP_AFTER_NULLIFIER"
  define len where "len = scaleRunLength (?ser ! off)"
  note r = r [folded off_def, folded len_def]
  let ?run = "take len (drop off ?ser)"
  have n: "take 32 (drop k ?ser) = ?nul" using indexOf_Some [OF k(2)] k(1) by simp
  have "?ser = take k ?ser @ take 32 (drop k ?ser) @ take ROOT_GAP_AFTER_NULLIFIER (drop (k + 32) ?ser) @ ?run @ drop (off + len) ?ser"
    unfolding off_def by (simp only: take_drop_cut append_take_drop_id)
  moreover have "length (take ROOT_GAP_AFTER_NULLIFIER (drop (k + 32) ?ser)) = ROOT_GAP_AFTER_NULLIFIER"
    using r(1) by (simp add: off_def)
  moreover have l: "length ?run = len" using r(4) by simp
  moreover have "hd ?run = ?ser ! off" using r(1,2) by (simp add: hd_drop_conv_nth)
  moreover have "?run \<noteq> []" using l r(2) by (metis length_0_conv not_one_le_zero)
  ultimately show ?thesis using n k r(3,5) len_def by metis
qed

end
