(* ===== verification/Offer_Validation.thy ===== *)
theory Offer_Validation
  imports Offer_Transaction
begin

text \<open>
  Model of \<^verbatim>\<open>packages/validator/validate.ts\<close> and \<^verbatim>\<open>packages/validator/liveness.ts\<close>: the
  ordered ladder every offer blob passes. The ledger, the codec and the swap standard are a record
  of functions, a parameter of the model; the text of a reject reason is left out.
\<close>

section \<open>Verdicts\<close>

datatype reject_code =
  BAD_ENCODING | TOO_LARGE | BAD_DESERIALIZE | WRONG_TX_VARIANT | NO_SPENDABLE_INPUT | NOT_A_SWAP
| CROSS_LAYER | UNKNOWN_TOKEN | PROOF_INVALID | SIGNATURE_INVALID | INTENT_TTL_EXPIRED | INTENT_TTL_TOO_FAR
| NULLIFIER_SPENT | UTXO_SPENT | UTXO_UNKNOWN | UTXO_NOT_LIVE | ROOT_UNKNOWN | ROOT_UNREADABLE | DUPLICATE
| DUPLICATE_OFFER | DUPLICATE_MARKERS | INVALID

datatype layer = SHIELDED | UNSHIELDED

record offer_leg =
  ol_token :: string
  ol_amount :: string
  ol_kind :: layer

record token_leg =
  tl_token :: string
  tl_amount :: string
  tl_type :: string

datatype legs_error = Unknown_token_tag | Legs_error

text \<open>What the offer code calls outside the repository.\<close>

record ledger =
  lg_hrp :: string
  lg_decode :: "string \<Rightarrow> bytes result"
  lg_encode :: "bytes \<Rightarrow> string"
  lg_sha256 :: "bytes \<Rightarrow> string"
  lg_deserialize :: "bytes \<Rightarrow> offer_tx result"
  lg_addressFromKey :: "string \<Rightarrow> string result"
  lg_deriveTokenLegs :: "offer_tx \<Rightarrow> legs_error + token_leg list \<times> token_leg list"
  lg_isTwoSided :: "offer_leg list \<Rightarrow> offer_leg list \<Rightarrow> bool"
  lg_identifiers :: "offer_tx \<Rightarrow> string list result"
  lg_wellFormed :: "offer_tx \<Rightarrow> int \<Rightarrow> string + unit"
  lg_earliestIntentTtl :: "offer_tx \<Rightarrow> time_value"

record offer_validation =
  ov_ok :: bool
  ov_code :: "reject_code option"
  ov_tx :: "offer_tx option"
  ov_nullifiers :: "string list option"
  ov_unshieldedSpends :: "spend_ref list option"
  ov_gives :: "offer_leg list option"
  ov_wants :: "offer_leg list option"
  ov_identifiers :: "string list option"
  ov_inputRoots :: "string list option"

record validate_opts =
  vo_tblock :: int
  vo_maxBytes :: int
  vo_defer :: bool
  vo_isNullifierSpent :: "(string \<Rightarrow> bool) option"
  vo_isUnshieldedSpent :: "(spend_ref \<Rightarrow> bool) option"
  vo_isUnshieldedCreated :: "(spend_ref \<Rightarrow> bool) option"
  vo_isKnownRoot :: "(string \<Rightarrow> bool) option"
  vo_seen :: "(string list \<Rightarrow> string list \<Rightarrow> bool) option"

definition no_validation :: offer_validation where
  "no_validation = \<lparr>ov_ok = False, ov_code = None, ov_tx = None, ov_nullifiers = None, ov_unshieldedSpends = None,
     ov_gives = None, ov_wants = None, ov_identifiers = None, ov_inputRoots = None\<rparr>"

definition reject_with :: "reject_code \<Rightarrow> offer_validation \<Rightarrow> offer_validation" where
  "reject_with code derived = derived\<lparr>ov_ok := False, ov_code := Some code\<rparr>"

section \<open>Liveness\<close>

datatype liveness_descriptor = Nullifier_fact string | Unshielded_fact spend_ref | Root_fact string

datatype unshielded_mode = Mode_not_live | Mode_spent | Mode_unknown

datatype liveness_verdict = Live | Dead reject_code liveness_descriptor

definition or_empty :: "'a list option \<Rightarrow> 'a list" where
  "or_empty v = (case v of None \<Rightarrow> [] | Some xs \<Rightarrow> xs)"

definition orderedOfferLivenessDescriptors :: "offer_validation \<Rightarrow> liveness_descriptor list" where
  "orderedOfferLivenessDescriptors v = map Nullifier_fact (or_empty (ov_nullifiers v))
     @ map Unshielded_fact (or_empty (ov_unshieldedSpends v)) @ map Root_fact (or_empty (ov_inputRoots v))"

definition offerLivenessFailure :: "liveness_descriptor \<Rightarrow> unshielded_mode \<Rightarrow> reject_code" where
  "offerLivenessFailure d mode = (case d of
     Nullifier_fact _ \<Rightarrow> NULLIFIER_SPENT
   | Root_fact _ \<Rightarrow> ROOT_UNKNOWN
   | Unshielded_fact _ \<Rightarrow> (case mode of Mode_spent \<Rightarrow> UTXO_SPENT | Mode_unknown \<Rightarrow> UTXO_UNKNOWN
       | Mode_not_live \<Rightarrow> UTXO_NOT_LIVE))"

text \<open>A probe answers live, dead, or \<open>undefined\<close> for a fact its context cannot check; it may throw.\<close>

type_synonym liveness_probe = "liveness_descriptor \<Rightarrow> bool option result"

fun probe_all :: "liveness_probe \<Rightarrow> liveness_descriptor list \<Rightarrow> liveness_verdict result" where
  "probe_all probe [] = Inr Live"
| "probe_all probe (d # ds) = bindR (probe d) (\<lambda>live.
     if live = Some False then Inr (Dead (offerLivenessFailure d Mode_not_live) d) else probe_all probe ds)"

definition evaluateOfferLiveness :: "offer_validation \<Rightarrow> liveness_probe \<Rightarrow> liveness_verdict result" where
  "evaluateOfferLiveness v probe = probe_all probe (orderedOfferLivenessDescriptors v)"

section \<open>The ladder\<close>

definition isCrossLayer :: "offer_leg list \<Rightarrow> offer_leg list \<Rightarrow> bool" where
  "isCrossLayer gives wants = (length (js_uniq (map ol_kind (gives @ wants))) > 1)"

definition deriveLegs :: "ledger \<Rightarrow> offer_tx \<Rightarrow> legs_error + offer_leg list \<times> offer_leg list" where
  "deriveLegs lg tx =
     (let tag = (\<lambda>l. \<lparr>ol_token = tl_token l, ol_amount = tl_amount l,
           ol_kind = (if tl_type l = ''UNSHIELDED'' then UNSHIELDED else SHIELDED)\<rparr>)
      in bindR (lg_deriveTokenLegs lg tx) (\<lambda>(gives, wants). Inr (map tag gives, map tag wants)))"

text \<open>\<open>/needle/i.test(message)\<close>\<close>

definition matches_ci :: "string \<Rightarrow> string \<Rightarrow> bool" where
  "matches_ci needle message = contains (toLowerCase needle) (toLowerCase message)"

definition wellFormedFailureCode :: "string \<Rightarrow> reject_code" where
  "wellFormedFailureCode message =
     (if matches_ci ''Intent TTL has expired'' message then INTENT_TTL_EXPIRED
      else if matches_ci ''Intent TTL is too far in the future'' message then INTENT_TTL_TOO_FAR
      else if matches_ci ''signature'' message then SIGNATURE_INVALID else PROOF_INVALID)"

definition safeIdentifiers :: "ledger \<Rightarrow> offer_tx \<Rightarrow> string list" where
  "safeIdentifiers lg tx = (case lg_identifiers lg tx of Inl _ \<Rightarrow> [] | Inr ids \<Rightarrow> ids)"

definition maxEncodedChars :: "ledger \<Rightarrow> int \<Rightarrow> int" where
  "maxEncodedChars lg maxBytes = - ((- (maxBytes * 8)) div 5) + int (length (lg_hrp lg)) + 7"

definition verifyOfferCrypto :: "ledger \<Rightarrow> offer_tx \<Rightarrow> int \<Rightarrow> reject_code + unit" where
  "verifyOfferCrypto lg tx tblock = (case lg_wellFormed lg tx tblock of
     Inr _ \<Rightarrow> Inr ()
   | Inl message \<Rightarrow> Inl (wellFormedFailureCode message))"

text \<open>Step 6: the optional synchronous predicates, each over its own kind of descriptor.\<close>

definition sync_liveness :: "validate_opts \<Rightarrow> liveness_descriptor list \<Rightarrow> reject_code option" where
  "sync_liveness opts ds =
     (let first = (\<lambda>failed mode. map_option (\<lambda>d. offerLivenessFailure d mode) (find failed ds));
          nullifier = (\<lambda>d. case (d, vo_isNullifierSpent opts) of (Nullifier_fact n, Some p) \<Rightarrow> p n | _ \<Rightarrow> False);
          spent = (\<lambda>d. case (d, vo_isUnshieldedSpent opts) of (Unshielded_fact r, Some p) \<Rightarrow> p r | _ \<Rightarrow> False);
          created = (\<lambda>d. case (d, vo_isUnshieldedCreated opts) of (Unshielded_fact r, Some p) \<Rightarrow> \<not> p r | _ \<Rightarrow> False);
          root = (\<lambda>d. case (d, vo_isKnownRoot opts) of (Root_fact r, Some p) \<Rightarrow> \<not> p r | _ \<Rightarrow> False)
      in case first nullifier Mode_not_live of Some c \<Rightarrow> Some c
         | None \<Rightarrow> (case first spent Mode_spent of Some c \<Rightarrow> Some c
         | None \<Rightarrow> (case first created Mode_unknown of Some c \<Rightarrow> Some c
         | None \<Rightarrow> first root Mode_not_live)))"

text \<open>Steps 5 to 8, once the legs are derived.\<close>

definition validate_derived :: "ledger \<Rightarrow> validate_opts \<Rightarrow> offer_tx \<Rightarrow> offer_validation \<Rightarrow> offer_validation" where
  "validate_derived lg opts tx derived =
     (case extractOfferInputRoots tx of
        Inl _ \<Rightarrow> reject_with ROOT_UNREADABLE derived
      | Inr roots \<Rightarrow>
          let derived = derived\<lparr>ov_inputRoots := Some roots\<rparr> in
          case sync_liveness opts (orderedOfferLivenessDescriptors derived) of
            Some code \<Rightarrow> reject_with code derived
          | None \<Rightarrow>
              if (case vo_seen opts of None \<Rightarrow> False
                  | Some seen \<Rightarrow> seen (or_empty (ov_nullifiers derived)) (or_empty (ov_identifiers derived)))
              then reject_with DUPLICATE derived
              else if vo_defer opts then derived\<lparr>ov_ok := True\<rparr>
              else (case verifyOfferCrypto lg tx (vo_tblock opts) of
                Inl code \<Rightarrow> reject_with code derived
              | Inr _ \<Rightarrow> derived\<lparr>ov_ok := True\<rparr>))"

text \<open>Step 4: the structural rules. Deriving an owner's address may throw.\<close>

definition validate_tx :: "ledger \<Rightarrow> validate_opts \<Rightarrow> offer_tx \<Rightarrow> offer_validation result" where
  "validate_tx lg opts tx =
     (let nullifiers = collectNullifiers tx in
      bindR (collectUnshieldedSpends (lg_addressFromKey lg) tx) (\<lambda>spends.
        Inr (if nullifiers = [] \<and> spends = []
             then reject_with NO_SPENDABLE_INPUT (no_validation\<lparr>ov_tx := Some tx\<rparr>)
             else
               let base = no_validation\<lparr>ov_tx := Some tx, ov_nullifiers := Some nullifiers, ov_unshieldedSpends := Some spends\<rparr> in
               case deriveLegs lg tx of
                 Inl Unknown_token_tag \<Rightarrow> reject_with UNKNOWN_TOKEN base
               | Inl Legs_error \<Rightarrow> reject_with BAD_DESERIALIZE base
               | Inr (gives, wants) \<Rightarrow>
                   let base = base\<lparr>ov_gives := Some gives, ov_wants := Some wants\<rparr> in
                   if \<not> lg_isTwoSided lg gives wants then reject_with NOT_A_SWAP base
                   else if isCrossLayer gives wants then reject_with CROSS_LAYER base
                   else validate_derived lg opts tx (base\<lparr>ov_identifiers := Some (safeIdentifiers lg tx)\<rparr>))))"

definition validateZswapOfferBytes :: "ledger \<Rightarrow> validate_opts \<Rightarrow> bytes \<Rightarrow> offer_validation result" where
  "validateZswapOfferBytes lg opts raw =
     (if vo_maxBytes opts < int (length raw) then Inr (reject_with TOO_LARGE no_validation)
      else case lg_deserialize lg raw of
        Inl _ \<Rightarrow> Inr (reject_with BAD_DESERIALIZE no_validation)
      | Inr tx \<Rightarrow> validate_tx lg opts tx)"

definition validateZswapOffer :: "ledger \<Rightarrow> validate_opts \<Rightarrow> string \<Rightarrow> offer_validation result" where
  "validateZswapOffer lg opts blob =
     (let prefix = lg_hrp lg @ ''1'' in
      if take (length prefix) blob \<noteq> prefix then Inr (reject_with BAD_ENCODING no_validation)
      else if maxEncodedChars lg (vo_maxBytes opts) < int (length blob) then Inr (reject_with TOO_LARGE no_validation)
      else case lg_decode lg blob of
        Inl _ \<Rightarrow> Inr (reject_with BAD_ENCODING no_validation)
      | Inr raw \<Rightarrow> validateZswapOfferBytes lg opts raw)"

end
