(* ===== verification/Offer_Validation_Correct.thy ===== *)
theory Offer_Validation_Correct
  imports Offer_Validation
begin

text \<open>
  What acceptance by the validator means: every rung of the ladder holds, and the data handed back
  is the data read out of the transaction. Deferring the proof check changes nothing else.
\<close>

section \<open>Liveness\<close>

definition facts_of :: "string list \<Rightarrow> spend_ref list \<Rightarrow> string list \<Rightarrow> liveness_descriptor list" where
  "facts_of nullifiers spends roots = map Nullifier_fact nullifiers @ map Unshielded_fact spends @ map Root_fact roots"

lemma descriptors_facts: "orderedOfferLivenessDescriptors v
   = facts_of (or_empty (ov_nullifiers v)) (or_empty (ov_unshieldedSpends v)) (or_empty (ov_inputRoots v))"
  by (simp add: orderedOfferLivenessDescriptors_def facts_of_def)

lemma probe_all_Live: "probe_all probe ds = Inr Live \<longleftrightarrow> (\<forall>d \<in> set ds. \<exists>a. probe d = Inr a \<and> a \<noteq> Some False)"
  by (induction ds) (auto simp: bindR_eq_Inr)

lemma probe_all_Dead: "probe_all probe ds = Inr (Dead c d) \<longleftrightarrow>
  (\<exists>pre post. ds = pre @ d # post \<and> probe d = Inr (Some False) \<and> c = offerLivenessFailure d Mode_not_live
     \<and> (\<forall>x \<in> set pre. \<exists>a. probe x = Inr a \<and> a \<noteq> Some False))"
proof (induction ds)
  case (Cons x xs)
  show ?case
  proof (cases "probe x = Inr (Some False)")
    case True
    have "pre = []" if "x # xs = pre @ d # post" "\<forall>y \<in> set pre. \<exists>a. probe y = Inr a \<and> a \<noteq> Some False" for pre post
      using that True by (cases pre) auto
    then have "(\<exists>pre post. x # xs = pre @ d # post \<and> probe d = Inr (Some False) \<and> c = offerLivenessFailure d Mode_not_live
        \<and> (\<forall>y \<in> set pre. \<exists>a. probe y = Inr a \<and> a \<noteq> Some False)) \<longleftrightarrow> d = x \<and> c = offerLivenessFailure d Mode_not_live"
      using True by fastforce
    with True show ?thesis by auto
  next
    case False
    show ?thesis
    proof (cases "probe x")
      case (Inl e)
      have "pre = []" if "x # xs = pre @ d # post" "\<forall>y \<in> set pre. \<exists>a. probe y = Inr a \<and> a \<noteq> Some False" for pre post
        using that Inl by (cases pre) auto
      with Inl False show ?thesis by fastforce
    next
      case (Inr a)
      with False have a: "a \<noteq> Some False" "probe_all probe (x # xs) = probe_all probe xs" by simp_all
      have "(\<exists>pre post. x # xs = pre @ d # post \<and> probe d = Inr (Some False) \<and> c = offerLivenessFailure d Mode_not_live
          \<and> (\<forall>y \<in> set pre. \<exists>a. probe y = Inr a \<and> a \<noteq> Some False))
        \<longleftrightarrow> (\<exists>pre post. xs = pre @ d # post \<and> probe d = Inr (Some False) \<and> c = offerLivenessFailure d Mode_not_live
          \<and> (\<forall>y \<in> set pre. \<exists>a. probe y = Inr a \<and> a \<noteq> Some False))" (is "?L \<longleftrightarrow> ?R")
      proof
        assume ?L
        then obtain pre post where p: "x # xs = pre @ d # post" "probe d = Inr (Some False)"
          "c = offerLivenessFailure d Mode_not_live" "\<forall>y \<in> set pre. \<exists>a. probe y = Inr a \<and> a \<noteq> Some False" by blast
        with False have "pre \<noteq> []" by auto
        then obtain pre' where "pre = x # pre'" "xs = pre' @ d # post" using p(1) by (cases pre) auto
        with p show ?R by auto
      next
        assume ?R
        then obtain pre post where p: "xs = pre @ d # post" "probe d = Inr (Some False)"
          "c = offerLivenessFailure d Mode_not_live" "\<forall>y \<in> set pre. \<exists>a. probe y = Inr a \<and> a \<noteq> Some False" by blast
        with Inr a(1) show ?L by (intro exI [of _ "x # pre"] exI [of _ post]) simp
      qed
      with Cons.IH a(2) show ?thesis by simp
    qed
  qed
qed simp

text \<open>The synchronous predicates hold of every fact of their kind.\<close>

definition sync_ok :: "validate_opts \<Rightarrow> string list \<Rightarrow> spend_ref list \<Rightarrow> string list \<Rightarrow> bool" where
  "sync_ok opts nullifiers spends roots \<longleftrightarrow>
     (case vo_isNullifierSpent opts of None \<Rightarrow> True | Some p \<Rightarrow> list_all (\<lambda>n. \<not> p n) nullifiers)
   \<and> (case vo_isUnshieldedSpent opts of None \<Rightarrow> True | Some p \<Rightarrow> list_all (\<lambda>r. \<not> p r) spends)
   \<and> (case vo_isUnshieldedCreated opts of None \<Rightarrow> True | Some p \<Rightarrow> list_all p spends)
   \<and> (case vo_isKnownRoot opts of None \<Rightarrow> True | Some p \<Rightarrow> list_all p roots)"

lemma find_None_facts: "find P (facts_of ns ss rs) = None \<longleftrightarrow>
  (\<forall>n \<in> set ns. \<not> P (Nullifier_fact n)) \<and> (\<forall>s \<in> set ss. \<not> P (Unshielded_fact s)) \<and> (\<forall>r \<in> set rs. \<not> P (Root_fact r))"
  by (auto simp: find_None_iff facts_of_def)

lemma first_None: "(case a of Some c \<Rightarrow> Some c | None \<Rightarrow> b) = None \<longleftrightarrow> a = None \<and> b = None"
  by (cases a) simp_all

lemma sync_liveness_None: "sync_liveness opts (facts_of ns ss rs) = None \<longleftrightarrow> sync_ok opts ns ss rs"
  unfolding sync_liveness_def Let_def first_None map_option_is_None find_None_facts sync_ok_def list_all_iff
  by (auto split: option.split)

section \<open>Acceptance\<close>

lemma reject_not_ok [simp]: "\<not> ov_ok (reject_with c v)"
  by (simp add: reject_with_def)

definition not_seen :: "validate_opts \<Rightarrow> string list \<Rightarrow> string list \<Rightarrow> bool" where
  "not_seen opts ns ids = (case vo_seen opts of None \<Rightarrow> True | Some seen \<Rightarrow> \<not> seen ns ids)"

definition accepted_data :: "ledger \<Rightarrow> offer_tx \<Rightarrow> spend_ref list \<Rightarrow> offer_leg list \<Rightarrow> offer_leg list \<Rightarrow> string list
    \<Rightarrow> offer_validation" where
  "accepted_data lg tx spends gives wants roots = \<lparr>ov_ok = True, ov_code = None, ov_tx = Some tx,
     ov_nullifiers = Some (collectNullifiers tx), ov_unshieldedSpends = Some spends, ov_gives = Some gives,
     ov_wants = Some wants, ov_identifiers = Some (safeIdentifiers lg tx), ov_inputRoots = Some roots\<rparr>"

lemma accepted_data_simps [simp]:
  "ov_ok (accepted_data lg tx spends gives wants roots)"
  "ov_tx (accepted_data lg tx spends gives wants roots) = Some tx"
  "ov_nullifiers (accepted_data lg tx spends gives wants roots) = Some (collectNullifiers tx)"
  "ov_unshieldedSpends (accepted_data lg tx spends gives wants roots) = Some spends"
  "ov_gives (accepted_data lg tx spends gives wants roots) = Some gives"
  "ov_wants (accepted_data lg tx spends gives wants roots) = Some wants"
  "ov_inputRoots (accepted_data lg tx spends gives wants roots) = Some roots"
  by (simp_all add: accepted_data_def)

text \<open>What makes a transaction an offer, whatever is known of the chain.\<close>

definition offer_shape :: "ledger \<Rightarrow> offer_tx \<Rightarrow> spend_ref list \<Rightarrow> offer_leg list \<Rightarrow> offer_leg list \<Rightarrow> string list \<Rightarrow> bool" where
  "offer_shape lg tx spends gives wants roots \<longleftrightarrow> collectUnshieldedSpends (lg_addressFromKey lg) tx = Inr spends
     \<and> (collectNullifiers tx \<noteq> [] \<or> spends \<noteq> []) \<and> deriveLegs lg tx = Inr (gives, wants)
     \<and> lg_isTwoSided lg gives wants \<and> \<not> isCrossLayer gives wants \<and> extractOfferInputRoots tx = Inr roots"

definition crypto_ok :: "ledger \<Rightarrow> validate_opts \<Rightarrow> offer_tx \<Rightarrow> bool" where
  "crypto_ok lg opts tx \<longleftrightarrow> vo_defer opts \<or> verifyOfferCrypto lg tx (vo_tblock opts) = Inr ()"

lemma validate_derived_ok:
  assumes "derived = no_validation\<lparr>ov_tx := Some tx, ov_nullifiers := Some (collectNullifiers tx),
      ov_unshieldedSpends := Some spends, ov_gives := Some gives, ov_wants := Some wants,
      ov_identifiers := Some (safeIdentifiers lg tx)\<rparr>"
  shows "(validate_derived lg opts tx derived = v \<and> ov_ok v) \<longleftrightarrow>
    (\<exists>roots. extractOfferInputRoots tx = Inr roots \<and> sync_ok opts (collectNullifiers tx) spends roots
       \<and> not_seen opts (collectNullifiers tx) (safeIdentifiers lg tx) \<and> crypto_ok lg opts tx
       \<and> v = accepted_data lg tx spends gives wants roots)"
proof (cases "extractOfferInputRoots tx")
  case (Inl e)
  then show ?thesis by (auto simp: validate_derived_def)
next
  case (Inr roots)
  let ?d = "derived\<lparr>ov_inputRoots := Some roots\<rparr>"
  have f: "orderedOfferLivenessDescriptors ?d = facts_of (collectNullifiers tx) spends roots"
    by (simp add: descriptors_facts assms or_empty_def)
  have a: "?d\<lparr>ov_ok := True\<rparr> = accepted_data lg tx spends gives wants roots"
    by (simp add: assms accepted_data_def no_validation_def)
  show ?thesis
  proof (cases "sync_ok opts (collectNullifiers tx) spends roots")
    case False
    then obtain c where "sync_liveness opts (facts_of (collectNullifiers tx) spends roots) = Some c"
      using sync_liveness_None by (metis not_None_eq)
    with Inr f False show ?thesis by (auto simp: validate_derived_def Let_def)
  next
    case True
    then have s: "sync_liveness opts (facts_of (collectNullifiers tx) spends roots) = None" by (simp add: sync_liveness_None)
    have n: "(case vo_seen opts of None \<Rightarrow> False | Some seen \<Rightarrow> seen (or_empty (ov_nullifiers ?d)) (or_empty (ov_identifiers ?d)))
        = (\<not> not_seen opts (collectNullifiers tx) (safeIdentifiers lg tx))"
      by (simp add: assms or_empty_def not_seen_def split: option.split)
    have "validate_derived lg opts tx derived =
       (if \<not> not_seen opts (collectNullifiers tx) (safeIdentifiers lg tx) then reject_with DUPLICATE ?d
        else if vo_defer opts then accepted_data lg tx spends gives wants roots
        else case verifyOfferCrypto lg tx (vo_tblock opts) of Inl code \<Rightarrow> reject_with code ?d
          | Inr _ \<Rightarrow> accepted_data lg tx spends gives wants roots)"
      unfolding validate_derived_def Inr Let_def sum.case f s option.case n a ..
    with Inr True show ?thesis
      by (auto simp: crypto_ok_def split: sum.splits)
  qed
qed

lemma validate_tx_ok:
  "(validate_tx lg opts tx = Inr v \<and> ov_ok v) \<longleftrightarrow>
   (\<exists>spends gives wants roots. offer_shape lg tx spends gives wants roots \<and> sync_ok opts (collectNullifiers tx) spends roots
      \<and> not_seen opts (collectNullifiers tx) (safeIdentifiers lg tx) \<and> crypto_ok lg opts tx
      \<and> v = accepted_data lg tx spends gives wants roots)"
proof (cases "collectUnshieldedSpends (lg_addressFromKey lg) tx")
  case (Inl e)
  then show ?thesis by (simp add: validate_tx_def offer_shape_def)
next
  case (Inr spends)
  show ?thesis
  proof (cases "deriveLegs lg tx")
    case (Inl e)
    with Inr show ?thesis by (cases e) (auto simp: validate_tx_def offer_shape_def Let_def)
  next
    case legs: (Inr p)
    obtain gives wants where p: "p = (gives, wants)" by (cases p)
    note v = validate_derived_ok [where lg = lg and opts = opts and tx = tx and spends = spends and gives = gives
      and wants = wants and v = v, OF refl]
    show ?thesis
    proof (cases "(collectNullifiers tx \<noteq> [] \<or> spends \<noteq> []) \<and> lg_isTwoSided lg gives wants \<and> \<not> isCrossLayer gives wants")
      case False
      with Inr legs p show ?thesis by (auto simp: validate_tx_def offer_shape_def Let_def)
    next
      case True
      have "(validate_tx lg opts tx = Inr v \<and> ov_ok v) \<longleftrightarrow>
          (\<exists>roots. extractOfferInputRoots tx = Inr roots \<and> sync_ok opts (collectNullifiers tx) spends roots
             \<and> not_seen opts (collectNullifiers tx) (safeIdentifiers lg tx) \<and> crypto_ok lg opts tx
             \<and> v = accepted_data lg tx spends gives wants roots)"
        unfolding v [symmetric] using Inr legs p True by (auto simp: validate_tx_def Let_def)
      with Inr legs p True show ?thesis by (simp add: offer_shape_def)
    qed
  qed
qed

lemma validate_bytes_ok:
  "(validateZswapOfferBytes lg opts raw = Inr v \<and> ov_ok v) \<longleftrightarrow> int (length raw) \<le> vo_maxBytes opts
     \<and> (\<exists>tx spends gives wants roots. lg_deserialize lg raw = Inr tx \<and> offer_shape lg tx spends gives wants roots
          \<and> sync_ok opts (collectNullifiers tx) spends roots
          \<and> not_seen opts (collectNullifiers tx) (safeIdentifiers lg tx) \<and> crypto_ok lg opts tx
          \<and> v = accepted_data lg tx spends gives wants roots)"
  using validate_tx_ok [of lg opts] unfolding validateZswapOfferBytes_def
  by (cases "lg_deserialize lg raw") auto

lemma validate_blob_ok:
  "(validateZswapOffer lg opts blob = Inr v \<and> ov_ok v) \<longleftrightarrow>
     take (length (lg_hrp lg) + 1) blob = lg_hrp lg @ ''1'' \<and> int (length blob) \<le> maxEncodedChars lg (vo_maxBytes opts)
     \<and> (\<exists>raw. lg_decode lg blob = Inr raw \<and> validateZswapOfferBytes lg opts raw = Inr v \<and> ov_ok v)"
  unfolding validateZswapOffer_def by (cases "lg_decode lg blob") (auto simp: Let_def)

end
