(* ===== verification/Offer_Guard.thy ===== *)
theory Offer_Guard
  imports Offer_Validation_Correct
begin

text \<open>
  Model of \<^verbatim>\<open>packages/offer-guard/mod.ts\<close>: the guard an asynchronous caller runs before it pays
  for an offer, with its cheap checks in front of the proof check, and the batcher's bounded memory
  of published offers.
\<close>

section \<open>The guard\<close>

text \<open>The checks a caller plugs in; each may be absent and each may throw.\<close>

record guard_opts =
  gd_maxBytes :: int
  gd_tblock :: "int option"
  gd_isDuplicate :: "(string \<Rightarrow> string option result) option"
  gd_isNullifierSpent :: "(string \<Rightarrow> bool result) option"
  gd_isUnshieldedLive :: "(spend_ref \<Rightarrow> bool result) option"
  gd_isKnownRoot :: "(string \<Rightarrow> bool result) option"

text \<open>A refusal without a code is \<open>"INVALID"\<close>.\<close>

datatype guard_result =
  Guard_ok string offer_validation
| Guard_refused "reject_code option" "string option" offer_validation

definition defer_opts :: "int \<Rightarrow> int \<Rightarrow> validate_opts" where
  "defer_opts tblock maxBytes = \<lparr>vo_tblock = tblock, vo_maxBytes = maxBytes, vo_defer = True, vo_isNullifierSpent = None,
     vo_isUnshieldedSpent = None, vo_isUnshieldedCreated = None, vo_isKnownRoot = None, vo_seen = None\<rparr>"

definition offerHashFromBytes :: "ledger \<Rightarrow> bytes \<Rightarrow> string" where
  "offerHashFromBytes lg raw = lg_sha256 lg raw"

definition offerHashFromBlob :: "ledger \<Rightarrow> string \<Rightarrow> string result" where
  "offerHashFromBlob lg blob = bindR (lg_decode lg blob) (\<lambda>raw. Inr (lg_sha256 lg raw))"

definition offerBytesToBech32 :: "ledger \<Rightarrow> bytes \<Rightarrow> string" where
  "offerBytesToBech32 lg raw = lg_encode lg raw"

definition guard_probe :: "guard_opts \<Rightarrow> liveness_probe" where
  "guard_probe g d = (case d of
     Nullifier_fact n \<Rightarrow> (case gd_isNullifierSpent g of None \<Rightarrow> Inr None
       | Some p \<Rightarrow> bindR (p n) (\<lambda>spent. Inr (Some (\<not> spent))))
   | Unshielded_fact r \<Rightarrow> (case gd_isUnshieldedLive g of None \<Rightarrow> Inr None
       | Some p \<Rightarrow> bindR (p r) (\<lambda>live. Inr (Some live)))
   | Root_fact r \<Rightarrow> (case gd_isKnownRoot g of None \<Rightarrow> Inr None
       | Some p \<Rightarrow> bindR (p r) (\<lambda>known. Inr (Some known))))"

definition known_status :: "guard_opts \<Rightarrow> string \<Rightarrow> string option result" where
  "known_status g offerHash = (case gd_isDuplicate g of None \<Rightarrow> Inr None | Some p \<Rightarrow> p offerHash)"

definition block_time :: "guard_opts \<Rightarrow> int \<Rightarrow> int" where
  "block_time g now = (case gd_tblock g of None \<Rightarrow> now | Some t \<Rightarrow> t)"

text \<open>The proof check comes last; \<open>new Date()\<close> is read once for each of the two validator calls.\<close>

definition guard_crypto :: "ledger \<Rightarrow> int \<Rightarrow> string \<Rightarrow> offer_validation \<Rightarrow> guard_result result" where
  "guard_crypto lg tblock offerHash validation = (case ov_tx validation of
     None \<Rightarrow> Inl (TypeError ''undefined transaction'')
   | Some tx \<Rightarrow> (case verifyOfferCrypto lg tx tblock of
       Inl code \<Rightarrow> Inr (Guard_refused (Some code) (Some offerHash) validation)
     | Inr _ \<Rightarrow> Inr (Guard_ok offerHash validation)))"

definition guardOffer :: "ledger \<Rightarrow> guard_opts \<Rightarrow> int \<Rightarrow> int \<Rightarrow> string \<Rightarrow> guard_result result" where
  "guardOffer lg g now1 now2 blob =
     bindR (validateZswapOffer lg (defer_opts (block_time g now1) (gd_maxBytes g)) blob) (\<lambda>validation.
     if \<not> ov_ok validation then Inr (Guard_refused (ov_code validation) None validation)
     else bindR (offerHashFromBlob lg blob) (\<lambda>offerHash.
     bindR (known_status g offerHash) (\<lambda>status.
     if status \<noteq> None then Inr (Guard_refused (Some DUPLICATE_OFFER) (Some offerHash) validation)
     else bindR (evaluateOfferLiveness validation (guard_probe g)) (\<lambda>liveness. case liveness of
         Dead code _ \<Rightarrow> Inr (Guard_refused (Some code) (Some offerHash) validation)
       | Live \<Rightarrow> guard_crypto lg (block_time g now2) offerHash validation))))"

section \<open>The namespace\<close>

definition MIP6_NAMESPACE_ID_SUFFIX_HEX :: string where
  "MIP6_NAMESPACE_ID_SUFFIX_HEX = ''6d6e2d737761702d7631''"

definition mip6NamespaceBytes :: bytes where
  "mip6NamespaceBytes = replicate 19 0 @ map (\<lambda>i. of_nat (nat_of_radix 16
     (take 2 (drop (2 * i) MIP6_NAMESPACE_ID_SUFFIX_HEX)))) [0..<10]"

section \<open>The memory of published offers\<close>

text \<open>\<open>DedupStore\<close>: a set in insertion order.\<close>

definition dedup_has :: "string \<Rightarrow> string list \<Rightarrow> bool" where
  "dedup_has h seen = (h \<in> set seen)"

definition dedup_add :: "nat \<Rightarrow> string \<Rightarrow> string list \<Rightarrow> string list" where
  "dedup_add maxEntries h seen =
     (if h \<in> set seen then seen
      else let kept = (if maxEntries \<le> length seen then tl seen else seen) in kept @ [h])"

definition dedup_size :: "string list \<Rightarrow> nat" where
  "dedup_size seen = length seen"

section \<open>Facts\<close>

lemma crypto_ok_defer: "crypto_ok lg (opts\<lparr>vo_defer := False\<rparr>) tx \<longleftrightarrow> verifyOfferCrypto lg tx (vo_tblock opts) = Inr ()"
  by (simp add: crypto_ok_def)

lemma sync_ok_defer [simp]: "sync_ok (opts\<lparr>vo_defer := b\<rparr>) = sync_ok opts"
  by (simp add: fun_eq_iff sync_ok_def)

lemma not_seen_defer [simp]: "not_seen (opts\<lparr>vo_defer := b\<rparr>) = not_seen opts"
  by (simp add: fun_eq_iff not_seen_def)

lemma bytes_deferral:
  "(validateZswapOfferBytes lg (opts\<lparr>vo_defer := False\<rparr>) raw = Inr v \<and> ov_ok v) \<longleftrightarrow>
   (validateZswapOfferBytes lg (opts\<lparr>vo_defer := True\<rparr>) raw = Inr v \<and> ov_ok v)
      \<and> (\<exists>tx. ov_tx v = Some tx \<and> verifyOfferCrypto lg tx (vo_tblock opts) = Inr ())"
  (is "?A \<longleftrightarrow> ?B \<and> (\<exists>tx. ov_tx v = Some tx \<and> ?C tx)")
proof -
  define ok where "ok tx \<longleftrightarrow> (\<exists>spends gives wants roots. lg_deserialize lg raw = Inr tx
      \<and> offer_shape lg tx spends gives wants roots \<and> sync_ok opts (collectNullifiers tx) spends roots
      \<and> not_seen opts (collectNullifiers tx) (safeIdentifiers lg tx) \<and> v = accepted_data lg tx spends gives wants roots)" for tx
  have tx: "ok tx \<Longrightarrow> ov_tx v = Some tx" for tx by (auto simp: ok_def)
  have "?A \<longleftrightarrow> int (length raw) \<le> vo_maxBytes opts \<and> (\<exists>tx. ok tx \<and> ?C tx)"
    unfolding validate_bytes_ok crypto_ok_defer ok_def by (simp, blast)
  also have "\<dots> \<longleftrightarrow> (int (length raw) \<le> vo_maxBytes opts \<and> (\<exists>tx. ok tx)) \<and> (\<exists>tx. ov_tx v = Some tx \<and> ?C tx)"
    using tx by (metis option.inject)
  also have "int (length raw) \<le> vo_maxBytes opts \<and> (\<exists>tx. ok tx) \<longleftrightarrow> ?B"
    unfolding validate_bytes_ok ok_def by (simp add: crypto_ok_def)
  finally show ?thesis .
qed

lemma blob_deferral:
  "(validateZswapOffer lg (opts\<lparr>vo_defer := False\<rparr>) blob = Inr v \<and> ov_ok v) \<longleftrightarrow>
   (validateZswapOffer lg (opts\<lparr>vo_defer := True\<rparr>) blob = Inr v \<and> ov_ok v)
      \<and> (\<exists>tx. ov_tx v = Some tx \<and> verifyOfferCrypto lg tx (vo_tblock opts) = Inr ())"
  unfolding validate_blob_ok bytes_deferral by auto

lemma guard_crypto_ok: "guard_crypto lg t h val = Inr (Guard_ok h' v) \<longleftrightarrow>
  h' = h \<and> v = val \<and> (\<exists>tx. ov_tx val = Some tx \<and> verifyOfferCrypto lg tx t = Inr ())"
  by (auto simp: guard_crypto_def split: option.split sum.split)

lemma liveness_case_ok: "(case l of Dead c d \<Rightarrow> Inr (Guard_refused (Some c) x y) | Live \<Rightarrow> r) = Inr (Guard_ok h v) \<longleftrightarrow>
  l = Live \<and> r = Inr (Guard_ok h v)"
  by (cases l) simp_all

lemma blob_decodes: "validateZswapOffer lg opts blob = Inr v \<Longrightarrow> ov_ok v \<Longrightarrow> \<exists>raw. lg_decode lg blob = Inr raw"
  using validate_blob_ok [of lg opts blob v] by blast

text \<open>The dedup store keeps the most recent hashes.\<close>

lemma dedup_add_length: "length seen \<le> max 1 n \<Longrightarrow> length (dedup_add n h seen) \<le> max 1 n"
  by (auto simp: dedup_add_def Let_def)

lemma dedup_add_distinct: "distinct seen \<Longrightarrow> distinct (dedup_add n h seen)"
  by (cases seen) (auto simp: dedup_add_def Let_def)

lemma dedup_add_has: "dedup_has h (dedup_add n h seen)"
  by (simp add: dedup_add_def dedup_has_def Let_def)

section \<open>A small ledger\<close>

definition sample_nullifier :: bytes where
  "sample_nullifier = replicate 32 7"

definition sample_input :: shielded_input where
  "sample_input = \<lparr>zi_serialized = bytes_of_string PINNED_INPUT_TAG @ sample_nullifier @ replicate 33 0 @ [8],
     zi_nullifier = Hex_text (toHex sample_nullifier)\<rparr>"

definition sample_tx :: offer_tx where
  "sample_tx = \<lparr>tx_guaranteed = Some \<lparr>so_inputs = [sample_input], so_transients = [], so_outputs = [Some (Hex_text ''cc'')]\<rparr>,
     tx_fallible = [], tx_intents = []\<rparr>"

definition sample_legs :: "token_leg list \<times> token_leg list" where
  "sample_legs = ([\<lparr>tl_token = ''aa'', tl_amount = ''5'', tl_type = ''SHIELDED''\<rparr>],
     [\<lparr>tl_token = ''bb'', tl_amount = ''7'', tl_type = ''SHIELDED''\<rparr>])"

text \<open>It decodes one blob and knows one transaction.\<close>

definition sample_ledger :: ledger where
  "sample_ledger = \<lparr>lg_hrp = ''swapoffer'', lg_decode = (\<lambda>_. Inr [1]), lg_encode = (\<lambda>_. ''swapoffer1q''),
     lg_sha256 = (\<lambda>b. toHex b), lg_deserialize = (\<lambda>_. Inr sample_tx), lg_addressFromKey = (\<lambda>k. Inr k),
     lg_deriveTokenLegs = (\<lambda>_. Inr sample_legs), lg_isTwoSided = (\<lambda>g w. g \<noteq> [] \<and> w \<noteq> []),
     lg_identifiers = (\<lambda>_. Inr []), lg_wellFormed = (\<lambda>_ _. Inr ()), lg_earliestIntentTtl = (\<lambda>_. No_time)\<rparr>"

definition sample_guard :: guard_opts where
  "sample_guard = \<lparr>gd_maxBytes = 10, gd_tblock = Some 1000, gd_isDuplicate = Some (\<lambda>_. Inr None),
     gd_isNullifierSpent = Some (\<lambda>_. Inr False), gd_isUnshieldedLive = None, gd_isKnownRoot = None\<rparr>"

definition sample_opts :: validate_opts where
  "sample_opts = (defer_opts 1000 10)\<lparr>vo_defer := False\<rparr>"

lemma sample_root: "extractInputRoot sample_input = Inr ''08''"
  by code_simp

lemma sample_collected: "collectNullifiers sample_tx = [toHex sample_nullifier]"
  "collectUnshieldedSpends (lg_addressFromKey sample_ledger) sample_tx = Inr []"
  "extractOfferInputRoots sample_tx = Inr [''08'']"
proof -
  have "toLowerCase (strip_0x (toHex sample_nullifier)) = toHex sample_nullifier" by code_simp
  then show "collectNullifiers sample_tx = [toHex sample_nullifier]"
    by (simp add: collectNullifiers_def shieldedOffersOf_def sample_tx_def sample_input_def)
  show "collectUnshieldedSpends (lg_addressFromKey sample_ledger) sample_tx = Inr []"
    by (simp add: collectUnshieldedSpends_def sample_tx_def)
  show "extractOfferInputRoots sample_tx = Inr [''08'']"
    by (simp add: extractOfferInputRoots_def shieldedOffersOf_def sample_tx_def sample_root)
qed

lemma sample_accepts: "\<exists>v. validateZswapOffer sample_ledger sample_opts ''swapoffer1q'' = Inr v \<and> ov_ok v
  \<and> ov_nullifiers v = Some [toHex sample_nullifier] \<and> ov_unshieldedSpends v = Some [] \<and> ov_inputRoots v = Some [''08'']"
proof -
  obtain gives wants where legs: "deriveLegs sample_ledger sample_tx = Inr (gives, wants)" "gives \<noteq> []" "wants \<noteq> []"
    "\<not> isCrossLayer gives wants"
    by (simp add: deriveLegs_def sample_ledger_def sample_legs_def Let_def isCrossLayer_def js_uniq_def set_add_def)
  define v where "v = accepted_data sample_ledger sample_tx [] gives wants [''08'']"
  have t: "lg_isTwoSided sample_ledger gives wants" "lg_deserialize sample_ledger raw = Inr sample_tx" for raw
    using legs by (simp_all add: sample_ledger_def)
  have s: "offer_shape sample_ledger sample_tx [] gives wants [''08'']"
    using legs t by (simp add: offer_shape_def sample_collected)
  have c: "sync_ok sample_opts ns ss rs" "not_seen sample_opts ns ids" "crypto_ok sample_ledger sample_opts tx"
    "vo_maxBytes sample_opts = 10" for ns ss rs ids tx
    by (simp_all add: sync_ok_def not_seen_def crypto_ok_def sample_opts_def defer_opts_def verifyOfferCrypto_def sample_ledger_def)
  have b: "validateZswapOfferBytes sample_ledger sample_opts [1] = Inr v \<and> ov_ok v"
    unfolding validate_bytes_ok using t(2) s c v_def by auto
  have "take (length (lg_hrp sample_ledger) + 1) ''swapoffer1q'' = lg_hrp sample_ledger @ ''1''"
    "int (length ''swapoffer1q'') \<le> maxEncodedChars sample_ledger 10" "lg_decode sample_ledger ''swapoffer1q'' = Inr [1]"
    by (simp_all add: sample_ledger_def maxEncodedChars_def)
  with b c(4) have "validateZswapOffer sample_ledger sample_opts ''swapoffer1q'' = Inr v \<and> ov_ok v"
    unfolding validate_blob_ok by simp
  then show ?thesis by (auto simp: v_def sample_collected)
qed

section \<open>Properties\<close>

text \<open>C19: a blob's bytes are accepted exactly when they are within the size bound, deserialize,
  spend something, have two sides on one value layer, carry readable roots, and pass every liveness
  predicate, the dedup hook and (unless it is deferred) the proof check the caller asked for; what is
  handed back is exactly the data read out of the transaction.\<close>

theorem validateZswapOfferBytes_accepts:
  "(validateZswapOfferBytes lg opts raw = Inr v \<and> ov_ok v) \<longleftrightarrow>
    int (length raw) \<le> vo_maxBytes opts \<and> (\<exists>tx spends gives wants roots.
      lg_deserialize lg raw = Inr tx \<and> collectUnshieldedSpends (lg_addressFromKey lg) tx = Inr spends
    \<and> \<not> (collectNullifiers tx = [] \<and> spends = []) \<and> deriveLegs lg tx = Inr (gives, wants)
    \<and> lg_isTwoSided lg gives wants \<and> \<not> isCrossLayer gives wants \<and> extractOfferInputRoots tx = Inr roots
    \<and> sync_ok opts (collectNullifiers tx) spends roots \<and> not_seen opts (collectNullifiers tx) (safeIdentifiers lg tx)
    \<and> (vo_defer opts \<or> verifyOfferCrypto lg tx (vo_tblock opts) = Inr ())
    \<and> v = accepted_data lg tx spends gives wants roots)"
  unfolding validate_bytes_ok offer_shape_def crypto_ok_def by (simp add: conj_assoc)

lemma probes_live: "evaluateOfferLiveness v (guard_probe g) = Inr Live \<longleftrightarrow>
    (\<forall>p n. gd_isNullifierSpent g = Some p \<and> n \<in> set (or_empty (ov_nullifiers v)) \<longrightarrow> p n = Inr False)
  \<and> (\<forall>p r. gd_isUnshieldedLive g = Some p \<and> r \<in> set (or_empty (ov_unshieldedSpends v)) \<longrightarrow> p r = Inr True)
  \<and> (\<forall>p r. gd_isKnownRoot g = Some p \<and> r \<in> set (or_empty (ov_inputRoots v)) \<longrightarrow> p r = Inr True)"
proof -
  have "(\<exists>a. guard_probe g (Nullifier_fact n) = Inr a \<and> a \<noteq> Some False) \<longleftrightarrow>
      (\<forall>p. gd_isNullifierSpent g = Some p \<longrightarrow> p n = Inr False)" for n
    by (auto simp: guard_probe_def bindR_eq_Inr split: option.splits)
  moreover have "(\<exists>a. guard_probe g (Unshielded_fact r) = Inr a \<and> a \<noteq> Some False) \<longleftrightarrow>
      (\<forall>p. gd_isUnshieldedLive g = Some p \<longrightarrow> p r = Inr True)" for r
    by (auto simp: guard_probe_def bindR_eq_Inr split: option.splits)
  moreover have "(\<exists>a. guard_probe g (Root_fact r) = Inr a \<and> a \<noteq> Some False) \<longleftrightarrow>
      (\<forall>p. gd_isKnownRoot g = Some p \<longrightarrow> p r = Inr True)" for r
    by (auto simp: guard_probe_def bindR_eq_Inr split: option.splits)
  ultimately show ?thesis
    unfolding evaluateOfferLiveness_def probe_all_Live orderedOfferLivenessDescriptors_def by (auto simp: ball_Un)
qed

text \<open>C20: at a block time the caller fixes, the guard (cheap checks first, proofs last) accepts a blob
  exactly when the validator with its proof check inline and no liveness predicate accepts it, the bytes
  decode to the hash handed back, the caller's duplicate check, if it has one, answers that the hash is
  not known, and of the caller's liveness checks those it has say that no nullifier of the offer is
  spent, that every unshielded coin is live and that every root is known. A check that throws never
  accepts, and moving the proof check last never turns a refusal into an acceptance.\<close>

theorem guardOffer_accepts:
  assumes "gd_tblock g = Some t"
  shows "guardOffer lg g now1 now2 blob = Inr (Guard_ok offerHash v) \<longleftrightarrow>
    validateZswapOffer lg ((defer_opts t (gd_maxBytes g))\<lparr>vo_defer := False\<rparr>) blob = Inr v \<and> ov_ok v
    \<and> offerHashFromBlob lg blob = Inr offerHash
    \<and> (\<forall>p. gd_isDuplicate g = Some p \<longrightarrow> p offerHash = Inr None)
    \<and> (\<forall>p n. gd_isNullifierSpent g = Some p \<and> n \<in> set (or_empty (ov_nullifiers v)) \<longrightarrow> p n = Inr False)
    \<and> (\<forall>p r. gd_isUnshieldedLive g = Some p \<and> r \<in> set (or_empty (ov_unshieldedSpends v)) \<longrightarrow> p r = Inr True)
    \<and> (\<forall>p r. gd_isKnownRoot g = Some p \<and> r \<in> set (or_empty (ov_inputRoots v)) \<longrightarrow> p r = Inr True)"
proof -
  let ?d = "defer_opts t (gd_maxBytes g)"
  have bt: "block_time g now = t" for now using assms by (simp add: block_time_def)
  have d: "?d\<lparr>vo_defer := True\<rparr> = ?d" "vo_tblock ?d = t" by (simp_all add: defer_opts_def)
  have k: "known_status g offerHash = Inr None \<longleftrightarrow> (\<forall>p. gd_isDuplicate g = Some p \<longrightarrow> p offerHash = Inr None)"
    by (auto simp: known_status_def split: option.splits)
  note e = blob_deferral [of lg ?d blob v, unfolded d]
  have "guardOffer lg g now1 now2 blob = Inr (Guard_ok offerHash v) \<longleftrightarrow>
      (validateZswapOffer lg ?d blob = Inr v \<and> ov_ok v) \<and> (\<exists>tx. ov_tx v = Some tx \<and> verifyOfferCrypto lg tx t = Inr ())
      \<and> offerHashFromBlob lg blob = Inr offerHash \<and> known_status g offerHash = Inr None
      \<and> evaluateOfferLiveness v (guard_probe g) = Inr Live"
    unfolding guardOffer_def bt
    by (auto simp: bindR_eq_Inr liveness_case_ok guard_crypto_ok split: if_splits)
  with e show ?thesis unfolding k probes_live by blast
qed

theorem guardOffer_accepts_witness:
  "\<exists>v. guardOffer sample_ledger sample_guard 1 2 ''swapoffer1q'' = Inr (Guard_ok ''01'' v)"
proof -
  obtain v where v: "validateZswapOffer sample_ledger sample_opts ''swapoffer1q'' = Inr v" "ov_ok v"
    "ov_nullifiers v = Some [toHex sample_nullifier]" "ov_unshieldedSpends v = Some []" "ov_inputRoots v = Some [''08'']"
    using sample_accepts by blast
  have "offerHashFromBlob sample_ledger ''swapoffer1q'' = Inr ''01''"
    unfolding offerHashFromBlob_def sample_ledger_def ledger.simps bindR_simps by code_simp
  then show ?thesis
    using guardOffer_accepts [of sample_guard 1000 sample_ledger 1 2 "''swapoffer1q''" "''01''" v] v
    by (auto simp: sample_guard_def sample_opts_def or_empty_def)
qed

lemma dedup_fold_recent:
  "distinct hs \<Longrightarrow> fold (dedup_add n) hs [] = drop (length hs - max 1 n) hs"
proof (induction hs rule: rev_induct)
  case (snoc h hs)
  let ?k = "length hs - max 1 n"
  have s: "fold (dedup_add n) hs [] = drop ?k hs" using snoc by simp
  have h: "h \<notin> set (drop ?k hs)" using snoc.prems by (auto dest: in_set_dropD)
  have e: "fold (dedup_add n) (hs @ [h]) [] = dedup_add n h (drop ?k hs)" using s by simp
  show ?case
  proof (cases "length hs < max 1 n")
    case True
    then have "\<not> n \<le> length (drop ?k hs) \<or> hs = []" by (cases hs) auto
    with True h show ?thesis unfolding e by (auto simp: dedup_add_def Let_def)
  next
    case False
    then have "n \<le> length (drop ?k hs)" "length (hs @ [h]) - max 1 n = Suc ?k" "Suc ?k \<le> length hs" by auto
    moreover have "tl (drop ?k hs) = drop (Suc ?k) hs" by (simp add: drop_Suc tl_drop)
    ultimately show ?thesis using h unfolding e by (simp add: dedup_add_def Let_def del: length_append max_Suc_Suc)
  qed
qed simp

text \<open>The batcher's memory of published offers never grows past its bound, holds each hash once
  and always the last one added; as long as no hash is added twice it holds exactly the most recent
  ones.\<close>

theorem dedup_store_bounded:
  "distinct (fold (dedup_add n) hs []) \<and> dedup_size (fold (dedup_add n) hs []) \<le> max 1 n
   \<and> dedup_has h (fold (dedup_add n) (hs @ [h]) [])
   \<and> (if distinct hs then fold (dedup_add n) hs [] = drop (length hs - max 1 n) hs else True)"
proof -
  have "distinct (fold (dedup_add n) hs seen) \<and> length (fold (dedup_add n) hs seen) \<le> max 1 n"
    if "distinct seen" "length seen \<le> max 1 n" for seen
    using that
  proof (induction hs arbitrary: seen)
    case (Cons a hs)
    have "distinct (dedup_add n a seen)" "length (dedup_add n a seen) \<le> max 1 n"
      using Cons.prems dedup_add_distinct dedup_add_length by blast+
    from Cons.IH [OF this] show ?case by simp
  qed simp
  from this [of "[]"] show ?thesis by (simp add: dedup_add_has dedup_size_def dedup_fold_recent)
qed

end
