(* ===== verification/Index_Db.thy ===== *)
theory Index_Db
  imports Offer_Guard
begin

text \<open>
  Model of the offer index's tables (\<^verbatim>\<open>packages/database/migrations/000-init.sql\<close>) and of the
  queries the state machine runs over them (\<^verbatim>\<open>packages/database/sql/queries.app.ts\<close> and
  \<^verbatim>\<open>queries.queries.ts\<close>). A table is a list of rows in insertion order; a foreign key with
  \<open>ON DELETE CASCADE\<close> is the removal of the child rows with their parent; a violated uniqueness
  constraint is an error. Timestamps are milliseconds.
\<close>

section \<open>Rows\<close>

record offer_row =
  of_id :: nat
  of_height :: int
  of_blob :: string
  of_hash :: string
  of_createdMs :: int
  of_expiresMs :: "int option"
  of_firstSeenMs :: int
  of_ttlSeconds :: int

datatype archive_reason = CONSUMED | TTL

record history_row = offer_row +
  hi_reason :: archive_reason
  hi_archivedMs :: int
  hi_settled :: "bool option"

datatype direction = GIVING | WANTING

record token_row =
  tk_offer :: nat
  tk_color :: string
  tk_amount :: string
  tk_direction :: direction
  tk_kind :: layer

record nullifier_row =
  nu_nullifier :: string
  nu_height :: int
  nu_txHash :: "string option"
  nu_matched :: bool

record commitment_row =
  cm_commitment :: string
  cm_txHash :: "string option"
  cm_mtIndex :: "string option"
  cm_height :: int

record utxo_spend_row =
  xs_ref :: spend_ref
  xs_txHash :: "string option"
  xs_height :: int

record utxo_create_row =
  xc_ref :: spend_ref
  xc_txHash :: "string option"
  xc_tokenType :: string
  xc_value :: string
  xc_height :: int

record root_row =
  kr_root :: string
  kr_height :: int
  kr_lastSeenMs :: int
  kr_firstSeenMs :: int

record offer_db =
  db_offers :: "offer_row list"
  db_tokens :: "token_row list"
  db_offerNullifiers :: "(nat \<times> string) list"
  db_offerSpends :: "(nat \<times> spend_ref) list"
  db_offerCommitments :: "(nat \<times> string) list"
  db_offerOutputs :: "(nat \<times> output_ref \<times> nat) list"
  db_history :: "history_row list"
  db_tokensHistory :: "token_row list"
  db_nullifiersHistory :: "(nat \<times> string) list"
  db_spendsHistory :: "(nat \<times> spend_ref) list"
  db_commitmentsHistory :: "(nat \<times> string) list"
  db_outputsHistory :: "(nat \<times> output_ref \<times> nat) list"
  db_nullifiers :: "nullifier_row list"
  db_commitments :: "commitment_row list"
  db_unshieldedSpends :: "utxo_spend_row list"
  db_unshieldedCreates :: "utxo_create_row list"
  db_created :: "(spend_ref \<times> int) list"
  db_roots :: "root_row list"
  db_rejections :: "((int \<times> reject_code) \<times> nat) list"
  db_accounting :: "(string \<times> int \<times> code_units) list"
  db_scheduled :: "(int \<times> nat) list"
  db_nextId :: nat

definition empty_db :: offer_db where
  "empty_db = \<lparr>db_offers = [], db_tokens = [], db_offerNullifiers = [], db_offerSpends = [], db_offerCommitments = [],
     db_offerOutputs = [], db_history = [], db_tokensHistory = [], db_nullifiersHistory = [], db_spendsHistory = [],
     db_commitmentsHistory = [], db_outputsHistory = [], db_nullifiers = [], db_commitments = [], db_unshieldedSpends = [],
     db_unshieldedCreates = [], db_created = [], db_roots = [], db_rejections = [], db_accounting = [], db_scheduled = [],
     db_nextId = 1\<rparr>"

definition ref_of_output :: "output_ref \<Rightarrow> spend_ref" where
  "ref_of_output u = \<lparr>sp_owner = ou_owner u, sp_intentHash = ou_intentHash u, sp_outputNo = ou_outputNo u\<rparr>"

section \<open>Chain records\<close>

text \<open>\<open>ON CONFLICT DO NOTHING\<close>: the first row of a key stays.\<close>

definition insert_first :: "('r \<Rightarrow> 'k) \<Rightarrow> 'r \<Rightarrow> 'r list \<Rightarrow> 'r list" where
  "insert_first key row rows = (if key row \<in> key ` set rows then rows else rows @ [row])"

definition insertNullifierWithTx :: "string \<Rightarrow> int \<Rightarrow> string option \<Rightarrow> offer_db \<Rightarrow> offer_db" where
  "insertNullifierWithTx nullifier height tx db = db\<lparr>db_nullifiers := insert_first nu_nullifier
     \<lparr>nu_nullifier = nullifier, nu_height = height, nu_txHash = tx, nu_matched = False\<rparr> (db_nullifiers db)\<rparr>"

definition markNullifierMatched :: "string \<Rightarrow> offer_db \<Rightarrow> offer_db" where
  "markNullifierMatched nullifier db = db\<lparr>db_nullifiers :=
     map (\<lambda>r. if nu_nullifier r = nullifier then r\<lparr>nu_matched := True\<rparr> else r) (db_nullifiers db)\<rparr>"

definition findUnmatchedNullifier :: "string \<Rightarrow> offer_db \<Rightarrow> nullifier_row list" where
  "findUnmatchedNullifier nullifier db = filter (\<lambda>r. nu_nullifier r = nullifier \<and> \<not> nu_matched r) (db_nullifiers db)"

definition isNullifierSpent :: "string \<Rightarrow> offer_db \<Rightarrow> bool" where
  "isNullifierSpent nullifier db = list_ex (\<lambda>r. nu_nullifier r = nullifier) (db_nullifiers db)"

definition insertCommitment :: "string \<Rightarrow> string option \<Rightarrow> string option \<Rightarrow> int \<Rightarrow> offer_db \<Rightarrow> offer_db" where
  "insertCommitment commitment tx mtIndex height db = db\<lparr>db_commitments := insert_first cm_commitment
     \<lparr>cm_commitment = commitment, cm_txHash = tx, cm_mtIndex = mtIndex, cm_height = height\<rparr> (db_commitments db)\<rparr>"

definition insertUnshieldedSpend :: "spend_ref \<Rightarrow> string option \<Rightarrow> int \<Rightarrow> offer_db \<Rightarrow> offer_db" where
  "insertUnshieldedSpend ref tx height db = db\<lparr>db_unshieldedSpends := insert_first xs_ref
     \<lparr>xs_ref = ref, xs_txHash = tx, xs_height = height\<rparr> (db_unshieldedSpends db)\<rparr>"

definition insertUnshieldedCreate :: "spend_ref \<Rightarrow> string option \<Rightarrow> string \<Rightarrow> string \<Rightarrow> int \<Rightarrow> offer_db \<Rightarrow> offer_db" where
  "insertUnshieldedCreate ref tx tokenType val height db = db\<lparr>db_unshieldedCreates := insert_first xc_ref
     \<lparr>xc_ref = ref, xc_txHash = tx, xc_tokenType = tokenType, xc_value = val, xc_height = height\<rparr> (db_unshieldedCreates db)\<rparr>"

definition insertCreatedUnshielded :: "spend_ref \<Rightarrow> int \<Rightarrow> offer_db \<Rightarrow> offer_db" where
  "insertCreatedUnshielded ref height db = db\<lparr>db_created := insert_first fst (ref, height) (db_created db)\<rparr>"

definition deleteCreatedUnshielded :: "spend_ref \<Rightarrow> offer_db \<Rightarrow> offer_db" where
  "deleteCreatedUnshielded ref db = db\<lparr>db_created := filter (\<lambda>(r, _). r \<noteq> ref) (db_created db)\<rparr>"

definition isUnshieldedCreated :: "spend_ref \<Rightarrow> offer_db \<Rightarrow> bool" where
  "isUnshieldedCreated ref db = list_ex (\<lambda>(r, _). r = ref) (db_created db)"

section \<open>Recent roots\<close>

text \<open>\<open>SELECT MAX(height) FROM known_roots\<close>; a comparison with its null over no rows is not true.\<close>

definition max_root_height :: "offer_db \<Rightarrow> int option" where
  "max_root_height db = (if db_roots db = [] then None else Some (Max (set (map kr_height (db_roots db)))))"

definition is_latest_root :: "offer_db \<Rightarrow> root_row \<Rightarrow> bool" where
  "is_latest_root db r = (case max_root_height db of None \<Rightarrow> False | Some h \<Rightarrow> h \<le> kr_height r)"

definition upsertKnownRootWithFirstSeen :: "string \<Rightarrow> int \<Rightarrow> int \<Rightarrow> offer_db \<Rightarrow> offer_db" where
  "upsertKnownRootWithFirstSeen root height seen db = db\<lparr>db_roots :=
     (if list_ex (\<lambda>r. kr_root r = root) (db_roots db)
      then map (\<lambda>r. if kr_root r = root then r\<lparr>kr_height := height, kr_lastSeenMs := seen\<rparr> else r) (db_roots db)
      else db_roots db @ [\<lparr>kr_root = root, kr_height = height, kr_lastSeenMs = seen, kr_firstSeenMs = seen\<rparr>])\<rparr>"

definition pruneKnownRoots :: "int \<Rightarrow> offer_db \<Rightarrow> offer_db" where
  "pruneKnownRoots cutoff db = db\<lparr>db_roots :=
     filter (\<lambda>r. \<not> (kr_lastSeenMs r < cutoff
       \<and> (case max_root_height db of None \<Rightarrow> False | Some h \<Rightarrow> kr_height r < h))) (db_roots db)\<rparr>"

definition isKnownRootLive :: "string \<Rightarrow> int \<Rightarrow> offer_db \<Rightarrow> bool" where
  "isKnownRootLive root cutoff db =
     list_ex (\<lambda>r. kr_root r = root \<and> (cutoff \<le> kr_lastSeenMs r \<or> is_latest_root db r)) (db_roots db)"

text \<open>\<open>MIN\<close> over the rows of the offer's roots: when the chain first held them, and the anchor of the
  first window to close.\<close>

definition min_of :: "int list \<Rightarrow> int option" where
  "min_of xs = (case xs of [] \<Rightarrow> None | y # ys \<Rightarrow> Some (fold min ys y))"

definition getOfferRootTiming :: "string list \<Rightarrow> int \<Rightarrow> offer_db \<Rightarrow> int option \<times> int option" where
  "getOfferRootTiming roots block_ms db =
     (let rows = filter (\<lambda>r. kr_root r \<in> set roots) (db_roots db) in
      (min_of (map kr_firstSeenMs rows),
       min_of (map (\<lambda>r. if is_latest_root db r then max (kr_lastSeenMs r) block_ms else kr_lastSeenMs r) rows)))"

section \<open>Offers\<close>

definition insertOfferFileWithHash :: "offer_row \<Rightarrow> offer_db \<Rightarrow> (nat \<times> offer_db) result" where
  "insertOfferFileWithHash row db =
     (if list_ex (\<lambda>r. of_hash r = of_hash row) (db_offers db) then Inl (PlainError ''offer_hash is not unique'')
      else Inr (db_nextId db, db\<lparr>db_offers := db_offers db @ [row\<lparr>of_id := db_nextId db\<rparr>],
        db_nextId := Suc (db_nextId db)\<rparr>))"

definition insertOfferFileNullifier :: "nat \<Rightarrow> string \<Rightarrow> offer_db \<Rightarrow> offer_db" where
  "insertOfferFileNullifier i n db = db\<lparr>db_offerNullifiers := insert_first id (i, n) (db_offerNullifiers db)\<rparr>"

definition insertOfferFileUnshieldedSpend :: "nat \<Rightarrow> spend_ref \<Rightarrow> offer_db \<Rightarrow> offer_db" where
  "insertOfferFileUnshieldedSpend i s db = db\<lparr>db_offerSpends := insert_first id (i, s) (db_offerSpends db)\<rparr>"

definition insertOfferFileCommitment :: "nat \<Rightarrow> string \<Rightarrow> offer_db \<Rightarrow> offer_db" where
  "insertOfferFileCommitment i c db = db\<lparr>db_offerCommitments := insert_first id (i, c) (db_offerCommitments db)\<rparr>"

definition insertOfferFileUnshieldedOutput :: "nat \<Rightarrow> output_ref \<Rightarrow> offer_db \<Rightarrow> offer_db" where
  "insertOfferFileUnshieldedOutput i u db =
     (let same = (\<lambda>(j, v, _). j = i \<and> ref_of_output v = ref_of_output u) in
      db\<lparr>db_offerOutputs := (if list_ex same (db_offerOutputs db)
        then map (\<lambda>(j, v, n). if same (j, v, n) then (j, v, Suc n) else (j, v, n)) (db_offerOutputs db)
        else db_offerOutputs db @ [(i, u, 1)])\<rparr>)"

definition insertOfferFileTokenWithKind :: "token_row \<Rightarrow> offer_db \<Rightarrow> offer_db result" where
  "insertOfferFileTokenWithKind t db =
     (if list_ex (\<lambda>r. tk_offer r = tk_offer t \<and> tk_color r = tk_color t \<and> tk_direction r = tk_direction t
          \<and> tk_kind r = tk_kind t) (db_tokens db)
      then Inl (PlainError ''offer token is not unique'') else Inr (db\<lparr>db_tokens := db_tokens db @ [t]\<rparr>))"

text \<open>The incumbent of a marker: the least offer hash among its live declarers.\<close>

definition least_hash :: "offer_db \<Rightarrow> nat list \<Rightarrow> string option" where
  "least_hash db ids = (let hs = map of_hash (filter (\<lambda>r. of_id r \<in> set ids) (db_offers db))
     in case hs of [] \<Rightarrow> None | h # t \<Rightarrow> Some (fold min t h))"

definition findActiveOfferByCommitment :: "string \<Rightarrow> offer_db \<Rightarrow> string option" where
  "findActiveOfferByCommitment c db = least_hash db (map fst (filter (\<lambda>(_, d). d = c) (db_offerCommitments db)))"

definition findActiveOfferByUnshieldedOutput :: "spend_ref \<Rightarrow> offer_db \<Rightarrow> string option" where
  "findActiveOfferByUnshieldedOutput ref db =
     least_hash db (map fst (filter (\<lambda>(_, u, _). ref_of_output u = ref) (db_offerOutputs db)))"

section \<open>Archiving\<close>

text \<open>\<open>archiveOfferSql\<close>: the matched live offers and everything that hangs on them move to history
  in one statement; it returns what it deleted.\<close>

definition archive_offers :: "(nat \<Rightarrow> bool) \<Rightarrow> archive_reason \<Rightarrow> int \<Rightarrow> offer_db \<Rightarrow> ((nat \<times> string) list \<times> offer_db) result" where
  "archive_offers matched reason archived db =
     (let gone = filter (\<lambda>r. matched (of_id r)) (db_offers db); dead = (\<lambda>i. i \<in> of_id ` set gone) in
      if list_ex (\<lambda>h. dead (of_id h)) (db_history db) then Inl (PlainError ''offer_file_history id is not unique'')
      else Inr (map (\<lambda>r. (of_id r, of_hash r)) gone,
        db\<lparr>db_offers := filter (\<lambda>r. \<not> matched (of_id r)) (db_offers db),
          db_tokens := filter (\<lambda>t. \<not> dead (tk_offer t)) (db_tokens db),
          db_offerNullifiers := filter (\<lambda>(i, _). \<not> dead i) (db_offerNullifiers db),
          db_offerSpends := filter (\<lambda>(i, _). \<not> dead i) (db_offerSpends db),
          db_offerCommitments := filter (\<lambda>(i, _). \<not> dead i) (db_offerCommitments db),
          db_offerOutputs := filter (\<lambda>(i, _). \<not> dead i) (db_offerOutputs db),
          db_history := db_history db @ map (\<lambda>r. offer_row.extend r
            \<lparr>hi_reason = reason, hi_archivedMs = archived, hi_settled = None\<rparr>) gone,
          db_tokensHistory := db_tokensHistory db @ filter (\<lambda>t. matched (tk_offer t)) (db_tokens db),
          db_nullifiersHistory := db_nullifiersHistory db @ filter (\<lambda>(i, _). matched i) (db_offerNullifiers db),
          db_spendsHistory := db_spendsHistory db @ filter (\<lambda>(i, _). matched i) (db_offerSpends db),
          db_commitmentsHistory := db_commitmentsHistory db @ filter (\<lambda>(i, _). matched i) (db_offerCommitments db),
          db_outputsHistory := db_outputsHistory db @ filter (\<lambda>(i, _). matched i) (db_offerOutputs db)\<rparr>))"

definition archiveOfferByNullifierWithHash :: "string \<Rightarrow> int \<Rightarrow> offer_db \<Rightarrow> ((nat \<times> string) list \<times> offer_db) result" where
  "archiveOfferByNullifierWithHash n archived db =
     archive_offers (\<lambda>i. (i, n) \<in> set (db_offerNullifiers db)) CONSUMED archived db"

definition archiveOfferByUnshieldedSpendWithHash :: "spend_ref \<Rightarrow> int \<Rightarrow> offer_db \<Rightarrow> ((nat \<times> string) list \<times> offer_db) result" where
  "archiveOfferByUnshieldedSpendWithHash ref archived db =
     archive_offers (\<lambda>i. (i, ref) \<in> set (db_offerSpends db)) CONSUMED archived db"

definition archiveOfferByIdTtlWithHash :: "nat \<Rightarrow> int \<Rightarrow> int \<Rightarrow> offer_db \<Rightarrow> ((nat \<times> string) list \<times> offer_db) result" where
  "archiveOfferByIdTtlWithHash i cutoff archived db =
     archive_offers (\<lambda>j. j = i \<and> list_ex (\<lambda>r. of_id r = i
       \<and> (case of_expiresMs r of None \<Rightarrow> False | Some e \<Rightarrow> e \<le> cutoff)) (db_offers db)) TTL archived db"

section \<open>Fill or cancel\<close>

definition spent_txs :: "offer_db \<Rightarrow> nat \<Rightarrow> string option list" where
  "spent_txs db i = concat (map (\<lambda>(j, n). if j = i then map nu_txHash (filter (\<lambda>r. nu_nullifier r = n) (db_nullifiers db)) else [])
     (db_nullifiersHistory db))"

definition unshielded_txs :: "offer_db \<Rightarrow> nat \<Rightarrow> string option list" where
  "unshielded_txs db i = concat (map (\<lambda>(j, s). if j = i then map xs_txHash (filter (\<lambda>r. xs_ref r = s) (db_unshieldedSpends db)) else [])
     (db_spendsHistory db))"

text \<open>\<open>COUNT(DISTINCT tx_hash)\<close> and \<open>MIN(tx_hash)\<close> ignore nulls.\<close>

definition distinct_txs :: "string option list \<Rightarrow> string list" where
  "distinct_txs txs = remdups (List.map_filter id txs)"

definition shieldedCancelledPredicate :: "offer_db \<Rightarrow> nat \<Rightarrow> bool" where
  "shieldedCancelledPredicate db i =
     (list_ex (\<lambda>(j, n). j = i \<and> \<not> list_ex (\<lambda>r. nu_nullifier r = n) (db_nullifiers db)) (db_nullifiersHistory db)
      \<or> 1 < length (distinct_txs (spent_txs db i))
      \<or> (length (distinct_txs (spent_txs db i)) = 1 \<and> None \<notin> set (spent_txs db i)
         \<and> list_ex (\<lambda>(j, c). j = i \<and> \<not> list_ex (\<lambda>m. cm_commitment m = c
               \<and> cm_txHash m = Some (hd (distinct_txs (spent_txs db i)))) (db_commitments db))
             (db_commitmentsHistory db)))"

definition unshieldedCancelledPredicate :: "offer_db \<Rightarrow> nat \<Rightarrow> bool" where
  "unshieldedCancelledPredicate db i =
     (list_ex (\<lambda>(j, _). j = i) (db_outputsHistory db)
      \<and> (list_ex (\<lambda>(j, s). j = i \<and> \<not> list_ex (\<lambda>r. xs_ref r = s) (db_unshieldedSpends db)) (db_spendsHistory db)
         \<or> 1 < length (distinct_txs (unshielded_txs db i))
         \<or> list_ex (\<lambda>(j, u, _). j = i \<and> \<not> list_ex (\<lambda>c. xc_ref c = ref_of_output u) (db_unshieldedCreates db))
             (db_outputsHistory db)))"

definition cancelledPredicate :: "offer_db \<Rightarrow> nat \<Rightarrow> bool" where
  "cancelledPredicate db i = (shieldedCancelledPredicate db i \<or> unshieldedCancelledPredicate db i)"

datatype offer_status = Live_offer | Expired_offer | Cancelled_offer | Consumed_offer

definition archivedStatus :: "offer_db \<Rightarrow> history_row \<Rightarrow> offer_status" where
  "archivedStatus db h = (if hi_reason h \<noteq> CONSUMED then Expired_offer
     else if cancelledPredicate db (of_id h) then Cancelled_offer else Consumed_offer)"

definition getOfferStatusByHash :: "string \<Rightarrow> offer_db \<Rightarrow> (nat \<times> offer_status) list" where
  "getOfferStatusByHash h db = map (\<lambda>r. (of_id r, Live_offer)) (filter (\<lambda>r. of_hash r = h) (db_offers db))
     @ map (\<lambda>r. (of_id r, archivedStatus db r)) (filter (\<lambda>r. of_hash r = h) (db_history db))"

definition adjudicateOfferFill :: "nat \<Rightarrow> offer_db \<Rightarrow> offer_db" where
  "adjudicateOfferFill i db = db\<lparr>db_history := map (\<lambda>h. if of_id h = i \<and> hi_reason h = CONSUMED
       \<and> list_ex (\<lambda>t. tk_offer t = i \<and> tk_direction t = GIVING) (db_tokensHistory db)
       \<and> list_ex (\<lambda>t. tk_offer t = i \<and> tk_direction t = WANTING) (db_tokensHistory db)
     then h\<lparr>hi_settled := Some (\<not> cancelledPredicate db i)\<rparr> else h) (db_history db)\<rparr>"

section \<open>Rejections\<close>

definition deleteRejectedAccountingRow :: "string \<Rightarrow> int \<Rightarrow> code_units \<Rightarrow> offer_db \<Rightarrow> offer_db" where
  "deleteRejectedAccountingRow primitive_name height supplied_json db = db\<lparr>db_accounting :=
     filter (\<lambda>(p, h, payload). \<not> (p = primitive_name \<and> h = height \<and> contains supplied_json payload)) (db_accounting db)\<rparr>"

definition recordOfferRejection :: "int \<Rightarrow> reject_code \<Rightarrow> offer_db \<Rightarrow> offer_db" where
  "recordOfferRejection height code db = db\<lparr>db_rejections :=
     (case map_of (db_rejections db) (height, code) of
        None \<Rightarrow> db_rejections db @ [((height, code), 1)]
      | Some n \<Rightarrow> AList.update (height, code) (Suc n) (db_rejections db))\<rparr>"

end
