(* ===== verification/Offer_Index.thy ===== *)
theory Offer_Index
  imports Index_Db
begin

text \<open>
  Model of \<^verbatim>\<open>packages/node/state-machine.ts\<close>, with \<^verbatim>\<open>marker-dedup.ts\<close>, the state machine's half of
  \<^verbatim>\<open>offer-liveness.ts\<close> and \<^verbatim>\<open>app-input-savepoint.ts\<close>: what each chain input does to the offer
  index. A handler that throws leaves the state as it was, because its savepoint is rolled back; the
  address codec and \<open>Date.parse\<close> are parameters. Log lines are left out.
\<close>

unbundle bit_operations_syntax

section \<open>State, settings and events\<close>

datatype consumed_by = By_nullifier string | By_spend spend_ref

datatype app_event =
  Offer_rejected reject_code
| Offer_consumed nat string consumed_by
| Offer_indexed nat string "offer_leg list" "offer_leg list"
| Offer_expired nat "string option"

record index_state =
  ix_db :: offer_db
  ix_events :: "(int \<times> app_event) list"

record index_env =
  ie_primitive :: string
  ie_maxBytes :: int
  ie_offerTtlSeconds :: int
  ie_rootWindowSeconds :: int
  ie_dustGraceSeconds :: int
  ie_parseBech32 :: "string \<Rightarrow> bytes result"
  ie_dateParse :: "string \<Rightarrow> int option"

record block_info =
  bk_height :: int
  bk_timestamp :: int

definition emitAppEvent :: "block_info \<Rightarrow> app_event \<Rightarrow> index_state \<Rightarrow> index_state" where
  "emitAppEvent b e s = s\<lparr>ix_events := ix_events s @ [(bk_height b, e)]\<rparr>"

section \<open>Normalizing event fields\<close>

text \<open>\<open>value ? bytesOrStringToHex(value) : null\<close>; the empty text is falsy.\<close>

definition tx_hash_of :: "hex_value option \<Rightarrow> string option" where
  "tx_hash_of v = (case v of None \<Rightarrow> None | Some x \<Rightarrow>
     if x = Hex_text [] then None else Some (bytesOrStringToHex x))"

definition unshieldedOwnerToCanonicalHex :: "index_env \<Rightarrow> hex_value \<Rightarrow> string" where
  "unshieldedOwnerToCanonicalHex env v = (case v of
     Hex_text s \<Rightarrow> (if CHR ''1'' \<in> set s then (case ie_parseBech32 env s of
         Inr d \<Rightarrow> toLowerCase (toHex d) | Inl _ \<Rightarrow> bytesOrStringToHex v) else bytesOrStringToHex v)
   | _ \<Rightarrow> bytesOrStringToHex v)"

section \<open>Expiry\<close>

text \<open>A \<open>Date\<close> holds a time within 8.64e15 milliseconds of the epoch.\<close>

definition valid_date :: "int \<Rightarrow> bool" where
  "valid_date t \<longleftrightarrow> - 8640000000000000 \<le> t \<and> t \<le> 8640000000000000"

definition valid_time :: "int \<Rightarrow> int result" where
  "valid_time t = (if valid_date t then Inr t else Inl (PlainError ''invalid offer expiry''))"

definition expiryTimestamp :: "index_env \<Rightarrow> time_value \<Rightarrow> int option result" where
  "expiryTimestamp env v = (case v of
     No_time \<Rightarrow> Inr None
   | Time_ms (Integral t) \<Rightarrow> bindR (valid_time t) (\<lambda>t. Inr (Some t))
   | Time_ms NonIntegral \<Rightarrow> Inl (PlainError ''invalid offer expiry'')
   | Time_text s \<Rightarrow> (case ie_dateParse env s of None \<Rightarrow> Inl (PlainError ''invalid offer expiry'')
       | Some t \<Rightarrow> bindR (valid_time t) (\<lambda>t. Inr (Some t))))"

definition requireApplicableOfferExpiry :: "index_env \<Rightarrow> bool \<Rightarrow> time_value \<Rightarrow> int option result" where
  "requireApplicableOfferExpiry env applies v =
     (if \<not> applies then Inr None
      else bindR (expiryTimestamp env v) (\<lambda>t. case t of
         None \<Rightarrow> Inl (PlainError ''offer expiry was not derived'')
       | Some t \<Rightarrow> Inr (Some t)))"

definition hasTransactionIntents :: "offer_tx \<Rightarrow> bool" where
  "hasTransactionIntents tx = (tx_intents tx \<noteq> [])"

text \<open>The least value seen so far, if any.\<close>

definition earlier :: "int option \<Rightarrow> int \<Rightarrow> int option" where
  "earlier best t = (case best of None \<Rightarrow> Some t | Some b \<Rightarrow> Some (if t < b then t else b))"

definition earliestDustSpendDeadline :: "index_env \<Rightarrow> offer_tx \<Rightarrow> int option result" where
  "earliestDustSpendDeadline env tx =
     (if \<not> hasTransactionIntents tx then Inr None
      else foldR (\<lambda>best (_, i). case it_dust i of
              None \<Rightarrow> Inr best
            | Some (ctime, spends) \<Rightarrow>
                if spends = 0 then Inr best
                else bindR (expiryTimestamp env ctime) (\<lambda>t. case t of
                    None \<Rightarrow> Inl (PlainError ''dust offer expiry was not derived'')
                  | Some t \<Rightarrow> Inr (earlier best (t + ie_dustGraceSeconds env * 1000)))) None (tx_intents tx))"

definition time_opt :: "int option \<Rightarrow> time_value" where
  "time_opt t = (case t of None \<Rightarrow> No_time | Some n \<Rightarrow> Time_ms (Integral n))"

definition deriveOfferExpiry :: "index_env \<Rightarrow> time_value \<Rightarrow> time_value \<Rightarrow> time_value \<Rightarrow> time_value \<Rightarrow> int result" where
  "deriveOfferExpiry env root intent dust fallback =
     bindR (mapR (expiryTimestamp env) [root, intent, dust]) (\<lambda>ts.
       case List.map_filter id ts of
         t # rest \<Rightarrow> Inr (fold min rest t)
       | [] \<Rightarrow> bindR (expiryTimestamp env fallback) (\<lambda>t. case t of
           None \<Rightarrow> Inl (PlainError ''offer expiry was not derived'')
         | Some t \<Rightarrow> Inr t))"

definition offerLifetimeSeconds :: "int \<Rightarrow> int \<Rightarrow> int" where
  "offerLifetimeSeconds expires created = max 0 ((expires - created) div 1000)"

section \<open>Markers\<close>

datatype declared_marker = Commitment_marker string | Output_marker spend_ref

definition declaredMarkers :: "offer_tx \<Rightarrow> declared_marker list" where
  "declaredMarkers tx = map Commitment_marker (collectOutputCommitments tx)
     @ map (\<lambda>u. Output_marker (ref_of_output u)) (collectUnshieldedOutputs tx)"

fun marker_owner :: "offer_db \<Rightarrow> declared_marker \<Rightarrow> string option" where
  "marker_owner db (Commitment_marker c) = findActiveOfferByCommitment c db"
| "marker_owner db (Output_marker r) = findActiveOfferByUnshieldedOutput r db"

section \<open>Chain events\<close>

definition emit_consumed :: "block_info \<Rightarrow> consumed_by \<Rightarrow> (nat \<times> string) list \<Rightarrow> index_state \<Rightarrow> index_state" where
  "emit_consumed b by archived s = fold (\<lambda>(i, h). emitAppEvent b (Offer_consumed i h by)) archived s"

datatype zswap_event =
  Commitment_event hex_value "hex_value option" "string option"
| Nullifier_event string "hex_value option"

definition on_zswap_event :: "block_info \<Rightarrow> zswap_event \<Rightarrow> index_state \<Rightarrow> index_state result" where
  "on_zswap_event b e s = (case e of
     Commitment_event c tx mt \<Rightarrow>
       Inr (s\<lparr>ix_db := insertCommitment (bytesOrStringToHex c) (tx_hash_of tx) mt (bk_height b) (ix_db s)\<rparr>)
   | Nullifier_event n tx \<Rightarrow>
       let db = insertNullifierWithTx n (bk_height b) (tx_hash_of tx) (ix_db s) in
       bindR (archiveOfferByNullifierWithHash n (bk_timestamp b) db) (\<lambda>(archived, db1).
         if archived = [] then Inr (s\<lparr>ix_db := db1\<rparr>)
         else Inr (emit_consumed b (By_nullifier n) archived (s\<lparr>ix_db := markNullifierMatched n db1\<rparr>))))"

record utxo_payload =
  up_owner :: hex_value
  up_intentHash :: hex_value
  up_outputIndex :: "int option"
  up_txHash :: "hex_value option"
  up_tokenType :: hex_value
  up_value :: string

text \<open>A payload without a finite output index, or with an empty owner or intent hash, is skipped.\<close>

definition payload_ref :: "index_env \<Rightarrow> utxo_payload \<Rightarrow> spend_ref option" where
  "payload_ref env p = (let owner = unshieldedOwnerToCanonicalHex env (up_owner p);
       intentHash = bytesOrStringToHex (up_intentHash p)
     in case up_outputIndex p of
          None \<Rightarrow> None
        | Some n \<Rightarrow> if owner = [] \<or> intentHash = [] then None
            else Some \<lparr>sp_owner = owner, sp_intentHash = intentHash, sp_outputNo = n\<rparr>)"

definition on_unshielded_spend :: "index_env \<Rightarrow> block_info \<Rightarrow> utxo_payload \<Rightarrow> index_state \<Rightarrow> index_state result" where
  "on_unshielded_spend env b p s = (case payload_ref env p of
     None \<Rightarrow> Inr s
   | Some ref \<Rightarrow>
       let db = insertUnshieldedSpend ref (tx_hash_of (up_txHash p)) (bk_height b) (ix_db s);
           db = deleteCreatedUnshielded ref db
       in bindR (archiveOfferByUnshieldedSpendWithHash ref (bk_timestamp b) db) (\<lambda>(archived, db1).
            Inr (emit_consumed b (By_spend ref) archived (s\<lparr>ix_db := db1\<rparr>))))"

definition on_unshielded_create :: "index_env \<Rightarrow> block_info \<Rightarrow> utxo_payload \<Rightarrow> index_state \<Rightarrow> index_state result" where
  "on_unshielded_create env b p s = (case payload_ref env p of
     None \<Rightarrow> Inr s
   | Some ref \<Rightarrow>
       let db = insertCreatedUnshielded ref (bk_height b) (ix_db s)
       in Inr (s\<lparr>ix_db := insertUnshieldedCreate ref (tx_hash_of (up_txHash p)) (bytesOrStringToHex (up_tokenType p))
            (up_value p) (bk_height b) db\<rparr>))"

definition on_zswap_root :: "index_env \<Rightarrow> block_info \<Rightarrow> string \<Rightarrow> index_state \<Rightarrow> index_state result" where
  "on_zswap_root env b payload s = (let root = canonicalRootHex payload in
     if root = [] then Inr s
     else Inr (s\<lparr>ix_db := pruneKnownRoots (bk_timestamp b - ie_rootWindowSeconds env * 1000)
       (upsertKnownRootWithFirstSeen root (bk_height b) (bk_timestamp b) (ix_db s))\<rparr>))"

section \<open>Ingestion\<close>

text \<open>\<open>JSON.stringify\<close> of a string.\<close>

definition json_escape :: "16 word \<Rightarrow> code_units" where
  "json_escape u = (if u = 34 then [92, 34] else if u = 92 then [92, 92] else if u = 8 then [92, 98]
     else if u = 12 then [92, 102] else if u = 10 then [92, 110] else if u = 13 then [92, 114]
     else if u = 9 then [92, 116]
     else if u < 32 then [92, 117, 48, 48] @ map (\<lambda>c. of_nat (of_char c)) (hex_byte (ucast u)) else [u])"

definition json_text :: "code_units \<Rightarrow> code_units" where
  "json_text s = [34] @ concat (map json_escape s) @ [34]"

definition rejectOffer :: "index_env \<Rightarrow> block_info \<Rightarrow> code_units \<Rightarrow> reject_code \<Rightarrow> index_state \<Rightarrow> index_state" where
  "rejectOffer env b raw code s =
     emitAppEvent b (Offer_rejected code) (s\<lparr>ix_db := recordOfferRejection (bk_height b) code
       (deleteRejectedAccountingRow (ie_primitive env) (bk_height b) (json_text raw) (ix_db s))\<rparr>)"

text \<open>The indexed probes of the liveness facts, each fail-closed.\<close>

definition db_probe :: "offer_db \<Rightarrow> int \<Rightarrow> liveness_descriptor \<Rightarrow> bool" where
  "db_probe db cutoff d = (case d of
     Nullifier_fact n \<Rightarrow> \<not> isNullifierSpent n db
   | Unshielded_fact r \<Rightarrow> isUnshieldedCreated r db
   | Root_fact r \<Rightarrow> isKnownRootLive r cutoff db)"

fun first_dead :: "offer_db \<Rightarrow> int \<Rightarrow> liveness_descriptor list \<Rightarrow> reject_code option" where
  "first_dead db cutoff [] = None"
| "first_dead db cutoff (d # ds) = (if db_probe db cutoff d then first_dead db cutoff ds
     else Some (offerLivenessFailure d Mode_not_live))"

definition evaluateOfferLivenessInStateMachine :: "offer_validation \<Rightarrow> int \<Rightarrow> offer_db \<Rightarrow> reject_code option" where
  "evaluateOfferLivenessInStateMachine v cutoff db = first_dead db cutoff (orderedOfferLivenessDescriptors v)"

definition stm_opts :: "index_env \<Rightarrow> block_info \<Rightarrow> validate_opts" where
  "stm_opts env b = defer_opts (bk_timestamp b) (ie_maxBytes env)"

text \<open>Everything that decides whether a valid offer is refused, in the order of the code.\<close>

definition ingest_refusal :: "ledger \<Rightarrow> index_env \<Rightarrow> block_info \<Rightarrow> bytes \<Rightarrow> offer_validation \<Rightarrow> offer_tx \<Rightarrow> offer_db \<Rightarrow> reject_code option" where
  "ingest_refusal lg env b raw v tx db =
     (if getOfferStatusByHash (offerHashFromBytes lg raw) db \<noteq> [] then Some DUPLICATE_OFFER
      else case evaluateOfferLivenessInStateMachine v (bk_timestamp b - ie_rootWindowSeconds env * 1000) db of
        Some code \<Rightarrow> Some code
      | None \<Rightarrow> (case verifyOfferCrypto lg tx (bk_timestamp b) of
          Inl code \<Rightarrow> Some code
        | Inr _ \<Rightarrow> if list_ex (\<lambda>m. marker_owner db m \<noteq> None) (declaredMarkers tx) then Some DUPLICATE_MARKERS else None))"

text \<open>First seen and expiry, from the chain's own times.\<close>

definition offer_times :: "ledger \<Rightarrow> index_env \<Rightarrow> block_info \<Rightarrow> offer_validation \<Rightarrow> offer_tx \<Rightarrow> offer_db \<Rightarrow> (int \<times> int) result" where
  "offer_times lg env b v tx db =
     bindR (valid_time (bk_timestamp b)) (\<lambda>blockTime.
     let roots = or_empty (ov_inputRoots v);
         (firstSeen, anchor) = (if roots = [] then (None, None) else getOfferRootTiming roots (bk_timestamp b) db);
         rootDeadline = map_option (\<lambda>a. a + ie_rootWindowSeconds env * 1000) anchor
     in bindR (case firstSeen of None \<Rightarrow> Inr blockTime | Some t \<Rightarrow> valid_time t) (\<lambda>firstSeenAt.
        bindR (earliestDustSpendDeadline env tx) (\<lambda>dust.
        bindR (deriveOfferExpiry env (time_opt rootDeadline) (lg_earliestIntentTtl lg tx) (time_opt dust)
          (Time_ms (Integral (bk_timestamp b + ie_offerTtlSeconds env * 1000)))) (\<lambda>expiry.
        Inr (firstSeenAt, expiry)))))"

definition leg_row :: "nat \<Rightarrow> direction \<Rightarrow> offer_leg \<Rightarrow> token_row" where
  "leg_row i d l = \<lparr>tk_offer = i, tk_color = ol_token l, tk_amount = ol_amount l, tk_direction = d, tk_kind = ol_kind l\<rparr>"

text \<open>The offer and everything that hangs on it.\<close>

definition insert_children :: "nat \<Rightarrow> offer_validation \<Rightarrow> offer_tx \<Rightarrow> offer_db \<Rightarrow> offer_db result" where
  "insert_children i v tx db =
     (let db = fold (insertOfferFileNullifier i) (or_empty (ov_nullifiers v)) db;
          db = fold (insertOfferFileUnshieldedSpend i) (or_empty (ov_unshieldedSpends v)) db;
          db = fold (insertOfferFileCommitment i) (collectOutputCommitments tx) db;
          db = fold (insertOfferFileUnshieldedOutput i) (collectUnshieldedOutputs tx) db
      in foldR (\<lambda>db t. insertOfferFileTokenWithKind t db) db
           (map (leg_row i GIVING) (or_empty (ov_gives v)) @ map (leg_row i WANTING) (or_empty (ov_wants v))))"

text \<open>An offer whose nullifier an earlier event recorded is archived at once.\<close>

definition reconcile_early :: "block_info \<Rightarrow> string list \<Rightarrow> index_state \<Rightarrow> (bool \<times> index_state) result" where
  "reconcile_early b nullifiers s = foldR (\<lambda>(early, s) n.
     if findUnmatchedNullifier n (ix_db s) = [] then Inr (early, s)
     else bindR (archiveOfferByNullifierWithHash n (bk_timestamp b) (ix_db s)) (\<lambda>(archived, db1).
       Inr (early \<or> archived \<noteq> [], emit_consumed b (By_nullifier n) archived (s\<lparr>ix_db := markNullifierMatched n db1\<rparr>))))
     (False, s) nullifiers"

definition save_offer :: "ledger \<Rightarrow> index_env \<Rightarrow> block_info \<Rightarrow> bytes \<Rightarrow> offer_validation \<Rightarrow> offer_tx \<Rightarrow> int \<Rightarrow> int \<Rightarrow> index_state \<Rightarrow> index_state result" where
  "save_offer lg env b raw v tx firstSeen expiry s =
     bindR (insertOfferFileWithHash \<lparr>of_id = 0, of_height = bk_height b, of_blob = offerBytesToBech32 lg raw,
         of_hash = offerHashFromBytes lg raw, of_createdMs = bk_timestamp b, of_expiresMs = Some expiry,
         of_firstSeenMs = firstSeen, of_ttlSeconds = offerLifetimeSeconds expiry (bk_timestamp b)\<rparr> (ix_db s)) (\<lambda>(i, db1).
     bindR (insert_children i v tx db1) (\<lambda>db2.
     bindR (reconcile_early b (or_empty (ov_nullifiers v)) (s\<lparr>ix_db := db2\<rparr>)) (\<lambda>(early, s3).
     if early then Inr s3
     else Inr (emitAppEvent b (Offer_indexed i (offerHashFromBytes lg raw) (or_empty (ov_gives v)) (or_empty (ov_wants v)))
       (s3\<lparr>ix_db := (ix_db s3)\<lparr>db_scheduled := db_scheduled (ix_db s3) @ [(expiry, i)]\<rparr>\<rparr>)))))"

definition on_celestia_blob :: "ledger \<Rightarrow> index_env \<Rightarrow> block_info \<Rightarrow> code_units \<Rightarrow> index_state \<Rightarrow> index_state result" where
  "on_celestia_blob lg env b supplied s =
     (let raw = latin1ToBytes supplied in
      bindR (validateZswapOfferBytes lg (stm_opts env b) raw) (\<lambda>v.
      if \<not> ov_ok v then Inr (rejectOffer env b supplied (case ov_code v of None \<Rightarrow> INVALID | Some c \<Rightarrow> c) s)
      else case ov_tx v of None \<Rightarrow> Inl (TypeError ''undefined transaction'') | Some tx \<Rightarrow>
        (case ingest_refusal lg env b raw v tx (ix_db s) of
           Some code \<Rightarrow> Inr (rejectOffer env b supplied code s)
         | None \<Rightarrow> bindR (offer_times lg env b v tx (ix_db s)) (\<lambda>(firstSeen, expiry).
             save_offer lg env b raw v tx firstSeen expiry s))))"

section \<open>Scheduled clean-up\<close>

definition archiveOfferAtExpiry :: "block_info \<Rightarrow> nat \<Rightarrow> index_state \<Rightarrow> index_state result" where
  "archiveOfferAtExpiry b i s =
     bindR (valid_time (bk_timestamp b)) (\<lambda>cutoff.
     bindR (archiveOfferByIdTtlWithHash i cutoff cutoff (ix_db s)) (\<lambda>(archived, db1).
       case archived of
         [] \<Rightarrow> Inr (s\<lparr>ix_db := db1\<rparr>)
       | (_, h) # _ \<Rightarrow> Inr (emitAppEvent b (Offer_expired i (Some h)) (s\<lparr>ix_db := db1\<rparr>))))"

section \<open>The state machine\<close>

datatype index_input =
  Zswap_event zswap_event
| Unshielded_spend utxo_payload
| Unshielded_create utxo_payload
| Zswap_root string
| Celestia_blob code_units
| Ttl_cleanup nat

fun transition_of :: "ledger \<Rightarrow> index_env \<Rightarrow> block_info \<Rightarrow> index_input \<Rightarrow> index_state \<Rightarrow> index_state result" where
  "transition_of lg env b (Zswap_event e) s = on_zswap_event b e s"
| "transition_of lg env b (Unshielded_spend p) s = on_unshielded_spend env b p s"
| "transition_of lg env b (Unshielded_create p) s = on_unshielded_create env b p s"
| "transition_of lg env b (Zswap_root r) s = on_zswap_root env b r s"
| "transition_of lg env b (Celestia_blob supplied) s = on_celestia_blob lg env b supplied s"
| "transition_of lg env b (Ttl_cleanup i) s = archiveOfferAtExpiry b i s"

text \<open>\<open>withAppInputSavepoint\<close>: a throw rolls the input's writes back and stops the block.\<close>

definition process_input :: "ledger \<Rightarrow> index_env \<Rightarrow> block_info \<Rightarrow> index_input \<Rightarrow> index_state \<Rightarrow> bool \<times> index_state" where
  "process_input lg env b input s = (case transition_of lg env b input s of Inr s' \<Rightarrow> (True, s') | Inl _ \<Rightarrow> (False, s))"

definition empty_index :: index_state where
  "empty_index = \<lparr>ix_db = empty_db, ix_events = []\<rparr>"

inductive index_step :: "ledger \<Rightarrow> index_env \<Rightarrow> index_state \<Rightarrow> index_state \<Rightarrow> bool" for lg env where
  Input: "transition_of lg env b input s = Inr s' \<Longrightarrow> index_step lg env s s'"
| Adjudicate: "index_step lg env s (s\<lparr>ix_db := adjudicateOfferFill i (ix_db s)\<rparr>)"

inductive index_run :: "ledger \<Rightarrow> index_env \<Rightarrow> index_state \<Rightarrow> bool" for lg env where
  Start: "index_run lg env empty_index"
| Step: "index_run lg env s \<Longrightarrow> index_step lg env s s' \<Longrightarrow> index_run lg env s'"

inductive_cases index_stepE: "index_step lg env s s'"

end
