(* ===== verification/Offer_Index_Correct.thy ===== *)
theory Offer_Index_Correct
  imports Offer_Index
begin

text \<open>
  The offer index's invariant: unique identities across the live book and the archive, a live book
  whose every input is still spendable as far as the chain has been seen, exclusive markers, a
  scheduled clean-up for every live offer, and an archive whose every row left for cause.
\<close>

section \<open>The invariant\<close>

definition live_ids :: "offer_db \<Rightarrow> nat set" where
  "live_ids db = of_id ` set (db_offers db)"

definition old_ids :: "offer_db \<Rightarrow> nat set" where
  "old_ids db = of_id ` set (db_history db)"

definition keys_ok :: "offer_db \<Rightarrow> bool" where
  "keys_ok db \<longleftrightarrow> distinct (map of_id (db_offers db)) \<and> distinct (map of_hash (db_offers db))
     \<and> distinct (map of_id (db_history db)) \<and> distinct (map of_hash (db_history db))
     \<and> live_ids db \<inter> old_ids db = {} \<and> of_hash ` set (db_offers db) \<inter> of_hash ` set (db_history db) = {}
     \<and> (\<forall>i \<in> live_ids db \<union> old_ids db. i < db_nextId db)"

definition refs_ok :: "offer_db \<Rightarrow> bool" where
  "refs_ok db \<longleftrightarrow> fst ` set (db_offerNullifiers db) \<subseteq> live_ids db \<and> fst ` set (db_offerSpends db) \<subseteq> live_ids db
     \<and> fst ` set (db_offerCommitments db) \<subseteq> live_ids db \<and> fst ` set (db_offerOutputs db) \<subseteq> live_ids db
     \<and> tk_offer ` set (db_tokens db) \<subseteq> live_ids db"

definition inputs_live :: "offer_db \<Rightarrow> bool" where
  "inputs_live db \<longleftrightarrow> (\<forall>(i, n) \<in> set (db_offerNullifiers db). \<not> isNullifierSpent n db)
     \<and> (\<forall>(i, r) \<in> set (db_offerSpends db). isUnshieldedCreated r db)"

definition markers_exclusive :: "offer_db \<Rightarrow> bool" where
  "markers_exclusive db \<longleftrightarrow>
     (\<forall>i j c. (i, c) \<in> set (db_offerCommitments db) \<longrightarrow> (j, c) \<in> set (db_offerCommitments db) \<longrightarrow> i = j)
   \<and> (\<forall>i u n j v m. (i, u, n) \<in> set (db_offerOutputs db) \<longrightarrow> (j, v, m) \<in> set (db_offerOutputs db)
        \<longrightarrow> ref_of_output u = ref_of_output v \<longrightarrow> i = j)"

definition cleanup_scheduled :: "offer_db \<Rightarrow> bool" where
  "cleanup_scheduled db \<longleftrightarrow> (\<forall>r \<in> set (db_offers db). \<exists>e. of_expiresMs r = Some e \<and> (e, of_id r) \<in> set (db_scheduled db))"

definition consumed_evidence :: "offer_db \<Rightarrow> nat \<Rightarrow> bool" where
  "consumed_evidence db i \<longleftrightarrow> (\<exists>n. (i, n) \<in> set (db_nullifiersHistory db) \<and> n \<in> nu_nullifier ` set (db_nullifiers db))
     \<or> (\<exists>r. (i, r) \<in> set (db_spendsHistory db) \<and> r \<in> xs_ref ` set (db_unshieldedSpends db))"

definition archived_for_cause :: "offer_db \<Rightarrow> bool" where
  "archived_for_cause db \<longleftrightarrow> (\<forall>h \<in> set (db_history db). case hi_reason h of
       TTL \<Rightarrow> \<exists>e. of_expiresMs h = Some e \<and> e \<le> hi_archivedMs h
     | CONSUMED \<Rightarrow> consumed_evidence db (of_id h))"

text \<open>What holds of the book whatever was just recorded of the chain.\<close>

definition book_ok :: "offer_db \<Rightarrow> bool" where
  "book_ok db \<longleftrightarrow> keys_ok db \<and> refs_ok db \<and> markers_exclusive db \<and> cleanup_scheduled db \<and> archived_for_cause db"

definition db_ok :: "offer_db \<Rightarrow> bool" where
  "db_ok db \<longleftrightarrow> book_ok db \<and> inputs_live db"

lemma isNullifierSpent_iff: "isNullifierSpent n db \<longleftrightarrow> n \<in> nu_nullifier ` set (db_nullifiers db)"
  by (auto simp: isNullifierSpent_def list_ex_iff)

lemma isUnshieldedCreated_iff: "isUnshieldedCreated r db \<longleftrightarrow> r \<in> fst ` set (db_created db)"
  by (force simp: isUnshieldedCreated_def list_ex_iff)

lemma insert_first_keys [simp]: "key ` set (insert_first key row rows) = insert (key row) (key ` set rows)"
  by (auto simp: insert_first_def)

lemma insert_first_id [simp]: "set (insert_first id x xs) = insert x (set xs)"
  using insert_first_keys [of id x xs] by simp

section \<open>Recording chain facts leaves the book alone\<close>

definition same_book :: "offer_db \<Rightarrow> offer_db \<Rightarrow> bool" where
  "same_book db db' \<longleftrightarrow> db_offers db' = db_offers db \<and> db_tokens db' = db_tokens db
     \<and> db_offerNullifiers db' = db_offerNullifiers db \<and> db_offerSpends db' = db_offerSpends db
     \<and> db_offerCommitments db' = db_offerCommitments db \<and> db_offerOutputs db' = db_offerOutputs db
     \<and> map offer_row.truncate (db_history db') = map offer_row.truncate (db_history db)
     \<and> map hi_reason (db_history db') = map hi_reason (db_history db)
     \<and> map hi_archivedMs (db_history db') = map hi_archivedMs (db_history db)
     \<and> db_nullifiersHistory db' = db_nullifiersHistory db \<and> db_spendsHistory db' = db_spendsHistory db
     \<and> db_scheduled db' = db_scheduled db \<and> db_nextId db' = db_nextId db
     \<and> nu_nullifier ` set (db_nullifiers db) \<subseteq> nu_nullifier ` set (db_nullifiers db')
     \<and> xs_ref ` set (db_unshieldedSpends db) \<subseteq> xs_ref ` set (db_unshieldedSpends db')"

lemma same_history:
  assumes "map offer_row.truncate hs' = map offer_row.truncate hs" "map hi_reason hs' = map hi_reason hs"
    "map hi_archivedMs hs' = map hi_archivedMs hs"
  shows "map (\<lambda>h. (of_id h, of_hash h, of_expiresMs h, hi_reason h, hi_archivedMs h)) (hs' :: history_row list)
    = map (\<lambda>h. (of_id h, of_hash h, of_expiresMs h, hi_reason h, hi_archivedMs h)) hs"
proof (rule nth_equalityI)
  show l: "length (map (\<lambda>h. (of_id h, of_hash h, of_expiresMs h, hi_reason h, hi_archivedMs h)) hs')
      = length (map (\<lambda>h. (of_id h, of_hash h, of_expiresMs h, hi_reason h, hi_archivedMs h)) hs)"
    using assms(2) by (metis length_map)
  fix k
  assume "k < length (map (\<lambda>h. (of_id h, of_hash h, of_expiresMs h, hi_reason h, hi_archivedMs h)) hs')"
  then have k: "k < length hs'" "k < length hs" using l by simp_all
  have "offer_row.truncate (hs' ! k) = offer_row.truncate (hs ! k)" "hi_reason (hs' ! k) = hi_reason (hs ! k)"
    "hi_archivedMs (hs' ! k) = hi_archivedMs (hs ! k)"
    using k assms by (metis nth_map)+
  with k show "map (\<lambda>h. (of_id h, of_hash h, of_expiresMs h, hi_reason h, hi_archivedMs h)) hs' ! k
      = map (\<lambda>h. (of_id h, of_hash h, of_expiresMs h, hi_reason h, hi_archivedMs h)) hs ! k"
    by (simp add: offer_row.defs)
qed

lemma book_frame:
  assumes ok: "book_ok db" and s: "same_book db db'"
  shows "book_ok db'"
proof -
  let ?v = "\<lambda>h. (of_id h, of_hash h, of_expiresMs h, hi_reason h, hi_archivedMs h)"
  have h: "map ?v (db_history db') = map ?v (db_history db)"
    using same_history s unfolding same_book_def by blast
  have ids: "map of_id (db_history db') = map of_id (db_history db)"
    using arg_cong [OF h, of "map fst"] by (simp add: comp_def)
  have hashes: "map of_hash (db_history db') = map of_hash (db_history db)"
    using arg_cong [OF h, of "map (fst \<circ> snd)"] by (simp add: comp_def)
  have sets: "of_id ` set (db_history db') = of_id ` set (db_history db)"
    "of_hash ` set (db_history db') = of_hash ` set (db_history db)"
    using ids hashes by (metis list.set_map)+
  have "keys_ok db'"
    using ok s unfolding book_ok_def keys_ok_def same_book_def live_ids_def old_ids_def ids hashes sets by simp
  moreover have "refs_ok db'" "markers_exclusive db'" "cleanup_scheduled db'"
    using ok s unfolding book_ok_def refs_ok_def markers_exclusive_def cleanup_scheduled_def same_book_def live_ids_def by simp_all
  moreover have "archived_for_cause db'"
    unfolding archived_for_cause_def
  proof
    fix x
    assume "x \<in> set (db_history db')"
    then have "?v x \<in> set (map ?v (db_history db'))" by simp
    then obtain y where y: "y \<in> set (db_history db)" "?v x = ?v y" unfolding h by auto
    have "consumed_evidence db i \<Longrightarrow> consumed_evidence db' i" for i
      using s unfolding consumed_evidence_def same_book_def by (metis subsetD)
    with ok y show "case hi_reason x of TTL \<Rightarrow> \<exists>e. of_expiresMs x = Some e \<and> e \<le> hi_archivedMs x
        | CONSUMED \<Rightarrow> consumed_evidence db' (of_id x)"
      by (auto simp: book_ok_def archived_for_cause_def split: archive_reason.splits)
  qed
  ultimately show ?thesis by (simp add: book_ok_def)
qed

lemma same_book_refl: "same_book db db"
  by (simp add: same_book_def)

text \<open>Which inputs the chain has consumed or created.\<close>

lemma spent_chain [simp]:
  "nu_nullifier ` set (db_nullifiers (insertNullifierWithTx n h tx db)) = insert n (nu_nullifier ` set (db_nullifiers db))"
  "nu_nullifier ` set (db_nullifiers (markNullifierMatched n db)) = nu_nullifier ` set (db_nullifiers db)"
proof -
  have "map nu_nullifier (db_nullifiers (markNullifierMatched n db)) = map nu_nullifier (db_nullifiers db)"
    by (simp add: markNullifierMatched_def comp_def if_distrib cong: if_cong)
  then show "nu_nullifier ` set (db_nullifiers (markNullifierMatched n db)) = nu_nullifier ` set (db_nullifiers db)"
    by (metis list.set_map)
qed (simp add: insertNullifierWithTx_def)

lemma created_chain [simp]:
  "fst ` set (db_created (insertCreatedUnshielded r h db)) = insert r (fst ` set (db_created db))"
  "fst ` set (db_created (deleteCreatedUnshielded r db)) = fst ` set (db_created db) - {r}"
  by (simp add: insertCreatedUnshielded_def) (force simp: deleteCreatedUnshielded_def)

lemma spent_utxos [simp]:
  "xs_ref ` set (db_unshieldedSpends (insertUnshieldedSpend r tx h db)) = insert r (xs_ref ` set (db_unshieldedSpends db))"
  by (simp add: insertUnshieldedSpend_def)

lemma same_book_chain [simp]:
  "same_book db (insertNullifierWithTx n h tx db)" "same_book db (markNullifierMatched n db)"
  "same_book db (insertCommitment c tx mt h db)" "same_book db (insertUnshieldedSpend r tx h db)"
  "same_book db (insertUnshieldedCreate r tx ty v h db)" "same_book db (insertCreatedUnshielded r h db)"
  "same_book db (deleteCreatedUnshielded r db)" "same_book db (upsertKnownRootWithFirstSeen root h t db)"
  "same_book db (pruneKnownRoots t db)" "same_book db (deleteRejectedAccountingRow p h raw db)"
  "same_book db (recordOfferRejection h code db)"
proof -
  have "db_offers (markNullifierMatched n db) = db_offers db" by (simp add: markNullifierMatched_def)
  show "same_book db (insertNullifierWithTx n h tx db)"
    unfolding same_book_def spent_chain by (simp add: insertNullifierWithTx_def subset_insertI)
  show "same_book db (markNullifierMatched n db)"
    unfolding same_book_def spent_chain by (simp add: markNullifierMatched_def)
  show "same_book db (insertUnshieldedSpend r tx h db)"
    unfolding same_book_def spent_utxos by (simp add: insertUnshieldedSpend_def subset_insertI)
qed (simp_all add: same_book_def insertCommitment_def insertUnshieldedCreate_def insertCreatedUnshielded_def
    deleteCreatedUnshielded_def upsertKnownRootWithFirstSeen_def pruneKnownRoots_def deleteRejectedAccountingRow_def
    recordOfferRejection_def)

lemma same_book_adjudicate [simp]: "same_book db (adjudicateOfferFill i db)"
  by (simp add: same_book_def adjudicateOfferFill_def offer_row.defs comp_def if_distrib cong: if_cong)

lemmas book_chain = same_book_chain [THEN book_frame [rotated]] same_book_adjudicate [THEN book_frame [rotated]]

section \<open>Archiving\<close>

text \<open>The state after an archive over a consistent book: every dependent row follows its offer.\<close>

definition after_archive :: "(nat \<Rightarrow> bool) \<Rightarrow> archive_reason \<Rightarrow> int \<Rightarrow> offer_db \<Rightarrow> offer_db" where
  "after_archive m reason t db = db\<lparr>db_offers := filter (\<lambda>r. \<not> m (of_id r)) (db_offers db),
     db_tokens := filter (\<lambda>k. \<not> m (tk_offer k)) (db_tokens db),
     db_offerNullifiers := filter (\<lambda>p. \<not> m (fst p)) (db_offerNullifiers db),
     db_offerSpends := filter (\<lambda>p. \<not> m (fst p)) (db_offerSpends db),
     db_offerCommitments := filter (\<lambda>p. \<not> m (fst p)) (db_offerCommitments db),
     db_offerOutputs := filter (\<lambda>p. \<not> m (fst p)) (db_offerOutputs db),
     db_history := db_history db @ map (\<lambda>r. offer_row.extend r
       \<lparr>hi_reason = reason, hi_archivedMs = t, hi_settled = None\<rparr>) (filter (\<lambda>r. m (of_id r)) (db_offers db)),
     db_tokensHistory := db_tokensHistory db @ filter (\<lambda>k. m (tk_offer k)) (db_tokens db),
     db_nullifiersHistory := db_nullifiersHistory db @ filter (\<lambda>p. m (fst p)) (db_offerNullifiers db),
     db_spendsHistory := db_spendsHistory db @ filter (\<lambda>p. m (fst p)) (db_offerSpends db),
     db_commitmentsHistory := db_commitmentsHistory db @ filter (\<lambda>p. m (fst p)) (db_offerCommitments db),
     db_outputsHistory := db_outputsHistory db @ filter (\<lambda>p. m (fst p)) (db_offerOutputs db)\<rparr>"

lemma filter_dead:
  assumes "\<And>i. i \<in> D \<longleftrightarrow> i \<in> L \<and> m i" and "fst ` set xs \<subseteq> L"
  shows "filter (\<lambda>p. fst p \<notin> D) xs = filter (\<lambda>p. \<not> m (fst p)) xs"
  using assms by (intro filter_cong) auto

lemma archive_offers_eq:
  assumes k: "keys_ok db" and r: "refs_ok db"
  shows "archive_offers m reason t db
    = Inr (map (\<lambda>r. (of_id r, of_hash r)) (filter (\<lambda>r. m (of_id r)) (db_offers db)), after_archive m reason t db)"
proof -
  define D where "D = of_id ` set (filter (\<lambda>r. m (of_id r)) (db_offers db))"
  have dead: "i \<in> D \<longleftrightarrow> i \<in> live_ids db \<and> m i" for i
    by (auto simp: D_def live_ids_def)
  have "\<not> list_ex (\<lambda>h. of_id h \<in> D) (db_history db)"
    using k unfolding dead keys_ok_def old_ids_def list_ex_iff by blast
  moreover have "filter (\<lambda>k. tk_offer k \<notin> D) (db_tokens db) = filter (\<lambda>k. \<not> m (tk_offer k)) (db_tokens db)"
    using r unfolding dead refs_ok_def by (intro filter_cong) auto
  ultimately show ?thesis
    using r unfolding archive_offers_def after_archive_def refs_ok_def Let_def D_def [symmetric] case_prod_unfold
    by (simp add: filter_dead [OF dead])
qed

lemma live_after [simp]: "live_ids (after_archive m reason t db) = {i \<in> live_ids db. \<not> m i}"
  by (auto simp: live_ids_def after_archive_def)

lemma extend_id [simp]: "of_id (offer_row.extend r x) = of_id r" "of_hash (offer_row.extend r x) = of_hash r"
  "of_expiresMs (offer_row.extend r x) = of_expiresMs r"
  by (simp_all add: offer_row.defs)

lemma extend_history [simp]:
  "hi_reason (offer_row.extend r \<lparr>hi_reason = reason, hi_archivedMs = t, hi_settled = f\<rparr>) = reason"
  "hi_archivedMs (offer_row.extend r \<lparr>hi_reason = reason, hi_archivedMs = t, hi_settled = f\<rparr>) = t"
  by (simp_all add: offer_row.defs)

lemma old_after [simp]: "old_ids (after_archive m reason t db) = old_ids db \<union> {i \<in> live_ids db. m i}"
  by (auto simp: old_ids_def live_ids_def after_archive_def image_Un image_image)

lemma keys_after:
  assumes k: "keys_ok db"
  shows "keys_ok (after_archive m reason t db)"
proof -
  let ?d = "after_archive m reason t db"
  let ?live = "filter (\<lambda>r. \<not> m (of_id r)) (db_offers db)" and ?gone = "filter (\<lambda>r. m (of_id r)) (db_offers db)"
  have o: "db_offers ?d = ?live" and n: "db_nextId ?d = db_nextId db"
    and ids: "map of_id (db_history ?d) = map of_id (db_history db) @ map of_id ?gone"
    and hashes: "map of_hash (db_history ?d) = map of_hash (db_history db) @ map of_hash ?gone"
    by (simp_all add: after_archive_def)
  have hs: "of_hash ` set (db_history ?d) = of_hash ` set (db_history db) \<union> of_hash ` set ?gone"
    using arg_cong [OF hashes, of set] by simp
  have inj: "inj_on of_hash (set (db_offers db))" and sep: "of_hash ` set (db_offers db) \<inter> of_hash ` set (db_history db) = {}"
    and idsep: "live_ids db \<inter> old_ids db = {}" and bound: "\<forall>i \<in> live_ids db \<union> old_ids db. i < db_nextId db"
    using k by (simp_all add: keys_ok_def distinct_map)
  have "of_hash ` set ?live \<inter> of_hash ` set ?gone = {}"
    using inj by (auto dest: inj_onD)
  then have disj: "of_hash ` set (db_offers ?d) \<inter> of_hash ` set (db_history ?d) = {}"
    unfolding o hs using sep by auto
  have hist: "distinct (map of_id (db_history ?d))" "distinct (map of_hash (db_history ?d))"
    unfolding ids hashes using k idsep sep by (auto simp: keys_ok_def distinct_map_filter live_ids_def old_ids_def)
  have live: "distinct (map of_id (db_offers ?d))" "distinct (map of_hash (db_offers ?d))"
    unfolding o using k by (simp_all add: keys_ok_def distinct_map_filter)
  have "live_ids ?d \<inter> old_ids ?d = {}" "\<forall>i \<in> live_ids ?d \<union> old_ids ?d. i < db_nextId ?d"
    unfolding n using idsep bound by auto
  with live hist disj show ?thesis by (simp add: keys_ok_def del: live_after old_after)
qed

definition cause_ok :: "offer_db \<Rightarrow> archive_reason \<Rightarrow> int \<Rightarrow> offer_row \<Rightarrow> bool" where
  "cause_ok db reason t r \<longleftrightarrow> (case reason of
     TTL \<Rightarrow> \<exists>e. of_expiresMs r = Some e \<and> e \<le> t
   | CONSUMED \<Rightarrow> (\<exists>n. (of_id r, n) \<in> set (db_offerNullifiers db) \<and> n \<in> nu_nullifier ` set (db_nullifiers db))
       \<or> (\<exists>x. (of_id r, x) \<in> set (db_offerSpends db) \<and> x \<in> xs_ref ` set (db_unshieldedSpends db)))"

lemma cause_after:
  assumes a: "archived_for_cause db" and c: "\<And>r. r \<in> set (db_offers db) \<Longrightarrow> m (of_id r) \<Longrightarrow> cause_ok db reason t r"
  shows "archived_for_cause (after_archive m reason t db)"
  unfolding archived_for_cause_def
proof
  let ?d = "after_archive m reason t db"
  fix h
  assume "h \<in> set (db_history ?d)"
  then consider (old) "h \<in> set (db_history db)"
    | (new) r where "r \<in> set (db_offers db)" "m (of_id r)" "h = offer_row.extend r \<lparr>hi_reason = reason, hi_archivedMs = t, hi_settled = None\<rparr>"
    by (auto simp: after_archive_def)
  then show "case hi_reason h of TTL \<Rightarrow> \<exists>e. of_expiresMs h = Some e \<and> e \<le> hi_archivedMs h | CONSUMED \<Rightarrow> consumed_evidence ?d (of_id h)"
  proof cases
    case old
    have "consumed_evidence db i \<Longrightarrow> consumed_evidence ?d i" for i
      by (auto simp: consumed_evidence_def after_archive_def)
    with old a show ?thesis by (auto simp: archived_for_cause_def split: archive_reason.splits)
  next
    case new
    have "consumed_evidence ?d (of_id r)" if "cause_ok db CONSUMED t r"
      using that new(2) by (auto simp: cause_ok_def consumed_evidence_def after_archive_def)
    with c [OF new(1,2)] new(3) show ?thesis by (cases reason) (auto simp: cause_ok_def)
  qed
qed

lemma archive_step:
  assumes ok: "book_ok db" and c: "\<And>r. r \<in> set (db_offers db) \<Longrightarrow> m (of_id r) \<Longrightarrow> cause_ok db reason t r"
  shows "archive_offers m reason t db
      = Inr (map (\<lambda>r. (of_id r, of_hash r)) (filter (\<lambda>r. m (of_id r)) (db_offers db)), after_archive m reason t db)"
    and "book_ok (after_archive m reason t db)"
proof -
  show "archive_offers m reason t db
      = Inr (map (\<lambda>r. (of_id r, of_hash r)) (filter (\<lambda>r. m (of_id r)) (db_offers db)), after_archive m reason t db)"
    using ok by (intro archive_offers_eq) (simp_all add: book_ok_def)
  let ?d = "after_archive m reason t db"
  have "keys_ok ?d" "archived_for_cause ?d"
    using ok c by (auto simp: book_ok_def intro: keys_after cause_after)
  moreover have "refs_ok ?d"
    using ok by (auto simp: book_ok_def refs_ok_def after_archive_def live_ids_def)
  moreover have "markers_exclusive ?d"
    using ok unfolding book_ok_def markers_exclusive_def after_archive_def by simp blast
  moreover have "cleanup_scheduled ?d"
    using ok by (auto simp: book_ok_def cleanup_scheduled_def after_archive_def)
  ultimately show "book_ok ?d" by (simp add: book_ok_def)
qed

lemma chain_after [simp]:
  "db_nullifiers (after_archive m reason t db) = db_nullifiers db" "db_created (after_archive m reason t db) = db_created db"
  "db_unshieldedSpends (after_archive m reason t db) = db_unshieldedSpends db"
  "db_offerNullifiers (after_archive m reason t db) = filter (\<lambda>p. \<not> m (fst p)) (db_offerNullifiers db)"
  "db_offerSpends (after_archive m reason t db) = filter (\<lambda>p. \<not> m (fst p)) (db_offerSpends db)"
  by (simp_all add: after_archive_def)

end
