(* ===== verification/Offer_Index_Run.thy ===== *)
theory Offer_Index_Run
  imports Offer_Index_Correct
begin

text \<open>
  Every input keeps the offer index's invariant: consumption archives what can no longer settle,
  expiry archives what may go, and an ingested offer enters with live inputs, markers of its own and
  its clean-up scheduled.
\<close>

section \<open>Recording what the chain did\<close>

lemma inputs_liveI:
  assumes "\<And>i n. (i, n) \<in> set (db_offerNullifiers db) \<Longrightarrow> n \<notin> nu_nullifier ` set (db_nullifiers db)"
    "\<And>i r. (i, r) \<in> set (db_offerSpends db) \<Longrightarrow> r \<in> fst ` set (db_created db)"
  shows "inputs_live db"
  using assms unfolding inputs_live_def isNullifierSpent_iff isUnshieldedCreated_iff by blast

lemma inputs_liveD:
  assumes "inputs_live db"
  shows "(i, n) \<in> set (db_offerNullifiers db) \<Longrightarrow> n \<notin> nu_nullifier ` set (db_nullifiers db)"
    "(i, r) \<in> set (db_offerSpends db) \<Longrightarrow> r \<in> fst ` set (db_created db)"
  using assms unfolding inputs_live_def isNullifierSpent_iff isUnshieldedCreated_iff by blast+

lemma inputs_frame:
  assumes "inputs_live db" "db_offerNullifiers db' = db_offerNullifiers db" "db_offerSpends db' = db_offerSpends db"
    "nu_nullifier ` set (db_nullifiers db') \<subseteq> nu_nullifier ` set (db_nullifiers db)"
    "fst ` set (db_created db) \<subseteq> fst ` set (db_created db')"
  shows "inputs_live db'"
proof (rule inputs_liveI)
  fix i n assume "(i, n) \<in> set (db_offerNullifiers db')"
  then show "n \<notin> nu_nullifier ` set (db_nullifiers db')" using assms inputs_liveD(1) by (metis subsetD)
next
  fix i r assume "(i, r) \<in> set (db_offerSpends db')"
  then show "r \<in> fst ` set (db_created db')" using assms inputs_liveD(2) by (metis subsetD)
qed

lemma db_ok_same:
  assumes "db_ok db" "same_book db db'" "db_nullifiers db' = db_nullifiers db" "db_created db' = db_created db"
  shows "db_ok db'"
  using assms book_frame [of db db'] inputs_frame [of db db'] by (simp add: db_ok_def same_book_def)

lemma db_ok_chain:
  assumes ok: "db_ok db"
  shows "db_ok (insertCommitment c tx mt h db)" "db_ok (markNullifierMatched n db)"
    "db_ok (insertUnshieldedCreate r tx ty v h db)" "db_ok (insertCreatedUnshielded r h db)"
    "db_ok (upsertKnownRootWithFirstSeen root h t db)" "db_ok (pruneKnownRoots t db)"
    "db_ok (deleteRejectedAccountingRow p h raw db)" "db_ok (recordOfferRejection h code db)"
    "db_ok (adjudicateOfferFill i db)"
proof -
  have b: "book_ok db" and l: "inputs_live db" using ok by (simp_all add: db_ok_def)
  show "db_ok (markNullifierMatched n db)"
    unfolding db_ok_def
    by (rule conjI, rule book_chain [OF b], rule inputs_frame [OF l], unfold spent_chain) (simp_all add: markNullifierMatched_def)
  show "db_ok (insertCreatedUnshielded r h db)"
    unfolding db_ok_def
    by (rule conjI, rule book_chain [OF b], rule inputs_frame [OF l], unfold created_chain)
      (auto simp: insertCreatedUnshielded_def)
qed (rule db_ok_same [OF ok], rule same_book_chain same_book_adjudicate, (simp_all add: insertCommitment_def
    insertUnshieldedCreate_def upsertKnownRootWithFirstSeen_def pruneKnownRoots_def deleteRejectedAccountingRow_def
    recordOfferRejection_def adjudicateOfferFill_def)[2])+

section \<open>Consumption\<close>

lemma emit_consumed_db [simp]: "ix_db (emit_consumed b by xs s) = ix_db s"
  by (induction xs arbitrary: s) (auto simp: emit_consumed_def emitAppEvent_def)

lemma emit_db [simp]: "ix_db (emitAppEvent b e s) = ix_db s"
  by (simp add: emitAppEvent_def)

lemma consumed_nullifier:
  fixes db :: offer_db and n :: string and t h :: int and tx :: "string option"
  assumes ok: "db_ok db"
  defines "m \<equiv> \<lambda>i. (i, n) \<in> set (db_offerNullifiers db)" and "db1 \<equiv> insertNullifierWithTx n h tx db"
  shows "archiveOfferByNullifierWithHash n t db1 = Inr (map (\<lambda>r. (of_id r, of_hash r))
      (filter (\<lambda>r. m (of_id r)) (db_offers db)), after_archive m CONSUMED t db1)"
    and "db_ok (after_archive m CONSUMED t db1)"
proof -
  have b: "book_ok db" and l: "inputs_live db" using ok by (simp_all add: db_ok_def)
  have b1: "book_ok db1" unfolding db1_def by (rule book_chain [OF b])
  have s: "nu_nullifier ` set (db_nullifiers db1) = insert n (nu_nullifier ` set (db_nullifiers db))"
    unfolding db1_def by simp
  have eqs: "db_offerNullifiers db1 = db_offerNullifiers db" "db_offers db1 = db_offers db"
    "db_offerSpends db1 = db_offerSpends db" "db_created db1 = db_created db"
    unfolding db1_def by (simp_all add: insertNullifierWithTx_def)
  have c: "cause_ok db1 CONSUMED t r" if "m (of_id r)" for r
    using that unfolding cause_ok_def s eqs m_def by auto
  note a = archive_step [OF b1, where m = m and reason = CONSUMED and t = t, OF c]
  show "archiveOfferByNullifierWithHash n t db1 = Inr (map (\<lambda>r. (of_id r, of_hash r))
      (filter (\<lambda>r. m (of_id r)) (db_offers db)), after_archive m CONSUMED t db1)"
    unfolding archiveOfferByNullifierWithHash_def eqs(1) using a(1) unfolding eqs(2) m_def .
  have "inputs_live (after_archive m CONSUMED t db1)"
  proof (rule inputs_liveI, unfold chain_after eqs s)
    fix i k assume "(i, k) \<in> set (filter (\<lambda>p. \<not> m (fst p)) (db_offerNullifiers db))"
    then have p: "(i, k) \<in> set (db_offerNullifiers db)" "\<not> m i" by auto
    then have "k \<noteq> n" by (auto simp: m_def)
    with inputs_liveD(1) [OF l p(1)] show "k \<notin> insert n (nu_nullifier ` set (db_nullifiers db))" by simp
  next
    fix i r assume "(i, r) \<in> set (filter (\<lambda>p. \<not> m (fst p)) (db_offerSpends db))"
    then show "r \<in> fst ` set (db_created db)" using inputs_liveD(2) [OF l] by auto
  qed
  with a(2) show "db_ok (after_archive m CONSUMED t db1)" by (simp add: db_ok_def)
qed

lemma consumed_spend:
  fixes db :: offer_db and ref :: spend_ref and t h :: int and tx :: "string option"
  assumes ok: "db_ok db"
  defines "m \<equiv> \<lambda>i. (i, ref) \<in> set (db_offerSpends db)"
    and "db1 \<equiv> deleteCreatedUnshielded ref (insertUnshieldedSpend ref tx h db)"
  shows "archiveOfferByUnshieldedSpendWithHash ref t db1 = Inr (map (\<lambda>r. (of_id r, of_hash r))
      (filter (\<lambda>r. m (of_id r)) (db_offers db)), after_archive m CONSUMED t db1)"
    and "db_ok (after_archive m CONSUMED t db1)"
proof -
  have b: "book_ok db" and l: "inputs_live db" using ok by (simp_all add: db_ok_def)
  have b1: "book_ok db1" unfolding db1_def by (intro book_chain b)
  have s: "xs_ref ` set (db_unshieldedSpends db1) = insert ref (xs_ref ` set (db_unshieldedSpends db))"
    "fst ` set (db_created db1) = fst ` set (db_created db) - {ref}"
    unfolding db1_def created_chain by (simp_all add: deleteCreatedUnshielded_def insertUnshieldedSpend_def)
  have eqs: "db_offerNullifiers db1 = db_offerNullifiers db" "db_offers db1 = db_offers db"
    "db_offerSpends db1 = db_offerSpends db" "db_nullifiers db1 = db_nullifiers db"
    unfolding db1_def by (simp_all add: insertUnshieldedSpend_def deleteCreatedUnshielded_def)
  have c: "cause_ok db1 CONSUMED t r" if "m (of_id r)" for r
    using that unfolding cause_ok_def s eqs m_def by auto
  note a = archive_step [OF b1, where m = m and reason = CONSUMED and t = t, OF c]
  show "archiveOfferByUnshieldedSpendWithHash ref t db1 = Inr (map (\<lambda>r. (of_id r, of_hash r))
      (filter (\<lambda>r. m (of_id r)) (db_offers db)), after_archive m CONSUMED t db1)"
    unfolding archiveOfferByUnshieldedSpendWithHash_def eqs(3) using a(1) unfolding eqs(2) m_def .
  have "inputs_live (after_archive m CONSUMED t db1)"
  proof (rule inputs_liveI, unfold chain_after eqs s)
    fix i k assume "(i, k) \<in> set (filter (\<lambda>p. \<not> m (fst p)) (db_offerNullifiers db))"
    then show "k \<notin> nu_nullifier ` set (db_nullifiers db)" using inputs_liveD(1) [OF l] by auto
  next
    fix i r assume "(i, r) \<in> set (filter (\<lambda>p. \<not> m (fst p)) (db_offerSpends db))"
    then have p: "(i, r) \<in> set (db_offerSpends db)" "\<not> m i" by auto
    then have "r \<noteq> ref" by (auto simp: m_def)
    with inputs_liveD(2) [OF l p(1)] show "r \<in> fst ` set (db_created db) - {ref}" by simp
  qed
  with a(2) show "db_ok (after_archive m CONSUMED t db1)" by (simp add: db_ok_def)
qed

section \<open>Expiry\<close>

lemma expired_offer:
  fixes db :: offer_db and i :: nat and t :: int
  assumes ok: "db_ok db"
  defines "m \<equiv> \<lambda>j. j = i \<and> list_ex (\<lambda>r. of_id r = i
       \<and> (case of_expiresMs r of None \<Rightarrow> False | Some e \<Rightarrow> e \<le> t)) (db_offers db)"
  shows "archiveOfferByIdTtlWithHash i t t db = Inr (map (\<lambda>r. (of_id r, of_hash r))
      (filter (\<lambda>r. m (of_id r)) (db_offers db)), after_archive m TTL t db)"
    and "db_ok (after_archive m TTL t db)"
proof -
  have b: "book_ok db" and l: "inputs_live db" using ok by (simp_all add: db_ok_def)
  have inj: "inj_on of_id (set (db_offers db))" using b by (simp add: book_ok_def keys_ok_def distinct_map)
  have c: "cause_ok db TTL t r" if r: "r \<in> set (db_offers db)" "m (of_id r)" for r
  proof -
    obtain q where q: "q \<in> set (db_offers db)" "of_id q = of_id r" "case of_expiresMs q of None \<Rightarrow> False | Some e \<Rightarrow> e \<le> t"
      using r by (auto simp: m_def list_ex_iff)
    then have "q = r" using inj r by (auto dest: inj_onD)
    with q(3) show ?thesis by (auto simp: cause_ok_def split: option.splits)
  qed
  note a = archive_step [OF b, where m = m and reason = TTL and t = t, OF c]
  show "archiveOfferByIdTtlWithHash i t t db = Inr (map (\<lambda>r. (of_id r, of_hash r))
      (filter (\<lambda>r. m (of_id r)) (db_offers db)), after_archive m TTL t db)"
    unfolding archiveOfferByIdTtlWithHash_def using a(1) unfolding m_def .
  have "inputs_live (after_archive m TTL t db)"
    by (rule inputs_liveI) (auto dest: inputs_liveD [OF l])
  with a(2) show "db_ok (after_archive m TTL t db)" by (simp add: db_ok_def)
qed

section \<open>Ingestion\<close>

text \<open>The child inserts as updates of one table each.\<close>

definition add_output :: "nat \<Rightarrow> output_ref \<Rightarrow> (nat \<times> output_ref \<times> nat) list \<Rightarrow> (nat \<times> output_ref \<times> nat) list" where
  "add_output i u rows = (let same = (\<lambda>(j, v, _). j = i \<and> ref_of_output v = ref_of_output u) in
     if list_ex same rows then map (\<lambda>(j, v, n). if same (j, v, n) then (j, v, Suc n) else (j, v, n)) rows
     else rows @ [(i, u, 1)])"

lemma fold_children:
  "fold (insertOfferFileNullifier i) ns db = db\<lparr>db_offerNullifiers := fold (insert_first id) (map (Pair i) ns) (db_offerNullifiers db)\<rparr>"
  "fold (insertOfferFileUnshieldedSpend i) ss db = db\<lparr>db_offerSpends := fold (insert_first id) (map (Pair i) ss) (db_offerSpends db)\<rparr>"
  "fold (insertOfferFileCommitment i) cs db = db\<lparr>db_offerCommitments := fold (insert_first id) (map (Pair i) cs) (db_offerCommitments db)\<rparr>"
  "fold (insertOfferFileUnshieldedOutput i) us db = db\<lparr>db_offerOutputs := fold (add_output i) us (db_offerOutputs db)\<rparr>"
proof -
  show "fold (insertOfferFileNullifier i) ns db = db\<lparr>db_offerNullifiers := fold (insert_first id) (map (Pair i) ns) (db_offerNullifiers db)\<rparr>"
    by (induction ns arbitrary: db) (simp_all add: insertOfferFileNullifier_def)
  show "fold (insertOfferFileUnshieldedSpend i) ss db = db\<lparr>db_offerSpends := fold (insert_first id) (map (Pair i) ss) (db_offerSpends db)\<rparr>"
    by (induction ss arbitrary: db) (simp_all add: insertOfferFileUnshieldedSpend_def)
  show "fold (insertOfferFileCommitment i) cs db = db\<lparr>db_offerCommitments := fold (insert_first id) (map (Pair i) cs) (db_offerCommitments db)\<rparr>"
    by (induction cs arbitrary: db) (simp_all add: insertOfferFileCommitment_def)
  show "fold (insertOfferFileUnshieldedOutput i) us db = db\<lparr>db_offerOutputs := fold (add_output i) us (db_offerOutputs db)\<rparr>"
    by (induction us arbitrary: db) (simp_all add: insertOfferFileUnshieldedOutput_def add_output_def Let_def)
qed

lemma token_inserted: "insertOfferFileTokenWithKind t db = Inr d \<Longrightarrow> d = db\<lparr>db_tokens := db_tokens db @ [t]\<rparr>"
  by (simp add: insertOfferFileTokenWithKind_def split: if_splits)

lemma tokens_inserted:
  "foldR (\<lambda>db t. insertOfferFileTokenWithKind t db) db ts = Inr db' \<Longrightarrow> db' = db\<lparr>db_tokens := db_tokens db @ ts\<rparr>"
proof (induction ts arbitrary: db)
  case (Cons t ts)
  then obtain d where "insertOfferFileTokenWithKind t db = Inr d" "foldR (\<lambda>db t. insertOfferFileTokenWithKind t db) d ts = Inr db'"
    by (auto simp: bindR_eq_Inr)
  with Cons.IH token_inserted show ?case by fastforce
qed auto

lemma set_insert_first [simp]: "set (fold (insert_first id) xs ys) = set xs \<union> set ys"
  by (induction xs arbitrary: ys) auto

lemma add_output_member: "(j, v, n) \<in> set (add_output i u rows) \<Longrightarrow> (\<exists>m. (j, v, m) \<in> set rows) \<or> (j = i \<and> v = u)"
  by (auto simp: add_output_def Let_def split: if_splits prod.splits)

lemma outputs_member:
  "(j, v, n) \<in> set (fold (add_output i) us rows) \<Longrightarrow> (\<exists>m. (j, v, m) \<in> set rows) \<or> (j = i \<and> v \<in> set us)"
proof (induction us arbitrary: rows)
  case (Cons u us)
  from Cons.IH [of "add_output i u rows"] Cons.prems add_output_member [of j v _ i u rows] show ?case by auto
qed auto

text \<open>An offer with fresh identity, markers of its own and live inputs may enter the book.\<close>

definition with_offer :: "offer_row \<Rightarrow> string list \<Rightarrow> spend_ref list \<Rightarrow> string list \<Rightarrow> output_ref list \<Rightarrow> token_row list \<Rightarrow> int \<Rightarrow> offer_db \<Rightarrow> offer_db" where
  "with_offer row ns ss cs us ts e db = (let i = db_nextId db in
     db\<lparr>db_offers := db_offers db @ [row\<lparr>of_id := i\<rparr>], db_nextId := Suc i,
       db_offerNullifiers := fold (insert_first id) (map (Pair i) ns) (db_offerNullifiers db),
       db_offerSpends := fold (insert_first id) (map (Pair i) ss) (db_offerSpends db),
       db_offerCommitments := fold (insert_first id) (map (Pair i) cs) (db_offerCommitments db),
       db_offerOutputs := fold (add_output i) us (db_offerOutputs db),
       db_tokens := db_tokens db @ ts, db_scheduled := db_scheduled db @ [(e, i)]\<rparr>)"

lemma live_with [simp]: "live_ids (with_offer row ns ss cs us ts e db) = insert (db_nextId db) (live_ids db)"
  by (auto simp: live_ids_def with_offer_def Let_def)

lemma with_sets:
  "set (db_offerNullifiers (with_offer row ns ss cs us ts e db)) = Pair (db_nextId db) ` set ns \<union> set (db_offerNullifiers db)"
  "set (db_offerSpends (with_offer row ns ss cs us ts e db)) = Pair (db_nextId db) ` set ss \<union> set (db_offerSpends db)"
  "set (db_offerCommitments (with_offer row ns ss cs us ts e db)) = Pair (db_nextId db) ` set cs \<union> set (db_offerCommitments db)"
  "set (db_tokens (with_offer row ns ss cs us ts e db)) = set (db_tokens db) \<union> set ts"
  by (simp_all add: with_offer_def Let_def)

lemma refs_grow:
  "fst ` B \<subseteq> L \<Longrightarrow> fst ` (Pair i ` A \<union> B) \<subseteq> insert i L"
  "f ` C \<subseteq> L \<Longrightarrow> (\<And>k. k \<in> D \<Longrightarrow> f k = i) \<Longrightarrow> f ` (C \<union> D) \<subseteq> insert i L"
  by auto

lemma keys_with:
  assumes k: "keys_ok db" and h: "of_hash row \<notin> of_hash ` set (db_offers db)" "of_hash row \<notin> of_hash ` set (db_history db)"
  shows "keys_ok (with_offer row ns ss cs us ts e db)"
proof -
  let ?d = "with_offer row ns ss cs us ts e db"
  have n: "db_nextId db \<notin> live_ids db" "db_nextId db \<notin> old_ids db"
    using k by (auto simp: keys_ok_def)
  have o: "db_offers ?d = db_offers db @ [row\<lparr>of_id := db_nextId db\<rparr>]" "db_history ?d = db_history db"
    "db_nextId ?d = Suc (db_nextId db)" and old: "old_ids ?d = old_ids db"
    by (simp_all add: with_offer_def Let_def old_ids_def)
  have "distinct (map of_id (db_offers ?d))" "distinct (map of_hash (db_offers ?d))"
    using k n(1) h(1) by (auto simp: o keys_ok_def live_ids_def)
  moreover have "live_ids ?d \<inter> old_ids ?d = {}" "\<forall>i \<in> live_ids ?d \<union> old_ids ?d. i < db_nextId ?d"
    using k n(2) unfolding old live_with o keys_ok_def by (auto intro: less_SucI)
  moreover have "of_hash ` set (db_offers ?d) \<inter> of_hash ` set (db_history ?d) = {}"
    using k h(2) unfolding o keys_ok_def by auto
  moreover have "distinct (map of_id (db_history ?d))" "distinct (map of_hash (db_history ?d))"
    using k unfolding o keys_ok_def by simp_all
  ultimately show ?thesis by (simp add: keys_ok_def del: live_with)
qed

lemma markers_with:
  assumes x: "markers_exclusive db" and cs: "\<And>c j. c \<in> set cs \<Longrightarrow> (j, c) \<notin> set (db_offerCommitments db)"
    and us: "\<And>u j w n. u \<in> set us \<Longrightarrow> (j, w, n) \<in> set (db_offerOutputs db) \<Longrightarrow> ref_of_output w \<noteq> ref_of_output u"
  shows "markers_exclusive (with_offer row ns ss cs us ts e db)"
proof -
  let ?d = "with_offer row ns ss cs us ts e db"
  have c: "db_offerCommitments ?d = fold (insert_first id) (map (Pair (db_nextId db)) cs) (db_offerCommitments db)"
    and o: "db_offerOutputs ?d = fold (add_output (db_nextId db)) us (db_offerOutputs db)"
    by (simp_all add: with_offer_def Let_def)
  have "i = j" if "(i, k) \<in> set (db_offerCommitments ?d)" "(j, k) \<in> set (db_offerCommitments ?d)" for i j k
    using that x cs unfolding c set_insert_first markers_exclusive_def by auto
  moreover have "i = j" if p: "(i, u, n) \<in> set (db_offerOutputs ?d)" "(j, v, m) \<in> set (db_offerOutputs ?d)"
      and r: "ref_of_output u = ref_of_output v" for i u n j v m
  proof -
    have old: "(\<exists>k. (i, u, k) \<in> set (db_offerOutputs db)) \<or> (i = db_nextId db \<and> u \<in> set us)"
      "(\<exists>k. (j, v, k) \<in> set (db_offerOutputs db)) \<or> (j = db_nextId db \<and> v \<in> set us)"
      using p unfolding o by (auto dest: outputs_member)
    have "i = j" if "(i, u, k) \<in> set (db_offerOutputs db)" "(j, v, l) \<in> set (db_offerOutputs db)" for k l
      using that r x unfolding markers_exclusive_def by blast
    then show ?thesis using old us r by metis
  qed
  ultimately show ?thesis unfolding markers_exclusive_def by blast
qed

lemma db_ok_with:
  assumes ok: "db_ok db" and h: "of_hash row \<notin> of_hash ` set (db_offers db)" "of_hash row \<notin> of_hash ` set (db_history db)"
    and e: "of_expiresMs row = Some e"
    and cs: "\<And>c j. c \<in> set cs \<Longrightarrow> (j, c) \<notin> set (db_offerCommitments db)"
    and us: "\<And>u j w n. u \<in> set us \<Longrightarrow> (j, w, n) \<in> set (db_offerOutputs db) \<Longrightarrow> ref_of_output w \<noteq> ref_of_output u"
    and ts: "\<And>k. k \<in> set ts \<Longrightarrow> tk_offer k = db_nextId db"
    and ns: "\<And>n. n \<in> set ns \<Longrightarrow> \<not> isNullifierSpent n db" and ss: "\<And>r. r \<in> set ss \<Longrightarrow> isUnshieldedCreated r db"
  shows "db_ok (with_offer row ns ss cs us ts e db)"
proof -
  let ?d = "with_offer row ns ss cs us ts e db" and ?i = "db_nextId db"
  have b: "keys_ok db" "refs_ok db" "markers_exclusive db" "cleanup_scheduled db" "archived_for_cause db" "inputs_live db"
    using ok by (simp_all add: db_ok_def book_ok_def)
  have r: "fst ` set (db_offerNullifiers db) \<subseteq> live_ids db" "fst ` set (db_offerSpends db) \<subseteq> live_ids db"
    "fst ` set (db_offerCommitments db) \<subseteq> live_ids db" "fst ` set (db_offerOutputs db) \<subseteq> live_ids db"
    "tk_offer ` set (db_tokens db) \<subseteq> live_ids db"
    using b(2) by (simp_all only: refs_ok_def)
  have "fst ` set (db_offerOutputs ?d) \<subseteq> insert ?i (fst ` set (db_offerOutputs db))"
  proof
    fix j assume "j \<in> fst ` set (db_offerOutputs ?d)"
    then obtain v n where "(j, v, n) \<in> set (fold (add_output ?i) us (db_offerOutputs db))"
      by (auto simp: with_offer_def Let_def)
    then show "j \<in> insert ?i (fst ` set (db_offerOutputs db))" by (force dest: outputs_member)
  qed
  also have "\<dots> \<subseteq> insert ?i (live_ids db)" by (rule insert_mono [OF r(4)])
  finally have "fst ` set (db_offerOutputs ?d) \<subseteq> insert ?i (live_ids db)" .
  then have "refs_ok ?d"
    unfolding refs_ok_def live_with with_sets by (intro conjI refs_grow ts r)
  moreover have "cleanup_scheduled ?d"
    using b(4) e by (auto simp: cleanup_scheduled_def with_offer_def Let_def)
  moreover have "archived_for_cause ?d"
    using b(5) by (auto simp: archived_for_cause_def consumed_evidence_def with_offer_def Let_def split: archive_reason.splits)
  moreover have "inputs_live ?d"
    using b(6) ns ss by (auto simp: inputs_live_def with_offer_def Let_def isNullifierSpent_def isUnshieldedCreated_def)
  ultimately show ?thesis
    using keys_with [OF b(1) h] markers_with [OF b(3) cs us] by (simp add: db_ok_def book_ok_def)
qed

text \<open>What ingestion requires of the indexed state before it writes.\<close>

lemma first_dead_None: "first_dead db cutoff ds = None \<longleftrightarrow> list_all (db_probe db cutoff) ds"
  by (induction ds) auto

lemma least_hash_None: "least_hash db ids = None \<longleftrightarrow> set ids \<inter> live_ids db = {}"
proof -
  have "filter (\<lambda>r. of_id r \<in> set ids) (db_offers db) = [] \<longleftrightarrow> set ids \<inter> live_ids db = {}"
    by (auto simp: filter_empty_conv live_ids_def)
  then show ?thesis by (auto simp: least_hash_def Let_def split: list.splits)
qed

lemma unowned_commitment:
  assumes "refs_ok db" "marker_owner db (Commitment_marker c) = None"
  shows "(j, c) \<notin> set (db_offerCommitments db)"
proof
  assume m: "(j, c) \<in> set (db_offerCommitments db)"
  then have "j \<in> live_ids db" using assms(1) by (force simp: refs_ok_def)
  moreover have "j \<in> set (map fst (filter (\<lambda>(_, d). d = c) (db_offerCommitments db)))" using m by force
  ultimately show False using assms(2) by (auto simp: findActiveOfferByCommitment_def least_hash_None)
qed

lemma unowned_output:
  assumes "refs_ok db" "marker_owner db (Output_marker r) = None" "(j, w, n) \<in> set (db_offerOutputs db)"
  shows "ref_of_output w \<noteq> r"
proof
  assume r: "ref_of_output w = r"
  have "j \<in> live_ids db" using assms(1,3) by (force simp: refs_ok_def)
  moreover have "j \<in> set (map fst (filter (\<lambda>(_, u, _). ref_of_output u = r) (db_offerOutputs db)))" using assms(3) r by force
  ultimately show False using assms(2) by (auto simp: findActiveOfferByUnshieldedOutput_def least_hash_None)
qed

lemma status_empty:
  "getOfferStatusByHash h db = [] \<longleftrightarrow> h \<notin> of_hash ` set (db_offers db) \<and> h \<notin> of_hash ` set (db_history db)"
  by (auto simp: getOfferStatusByHash_def filter_empty_conv)

lemma ingest_refusal_None:
  "ingest_refusal lg env b raw v tx db = None \<longleftrightarrow>
     getOfferStatusByHash (offerHashFromBytes lg raw) db = []
     \<and> list_all (db_probe db (bk_timestamp b - ie_rootWindowSeconds env * 1000)) (orderedOfferLivenessDescriptors v)
     \<and> (\<exists>u. verifyOfferCrypto lg tx (bk_timestamp b) = Inr u) \<and> list_all (\<lambda>m. marker_owner db m = None) (declaredMarkers tx)"
  unfolding ingest_refusal_def evaluateOfferLivenessInStateMachine_def first_dead_None [symmetric]
  by (auto split: option.splits sum.splits simp: list_ex_iff list_all_iff)

lemma reconcile_early_never:
  assumes "list_all (\<lambda>n. \<not> isNullifierSpent n (ix_db s)) ns"
  shows "reconcile_early b ns s = Inr (False, s)"
proof -
  have "findUnmatchedNullifier n (ix_db s) = []" if "\<not> isNullifierSpent n (ix_db s)" for n
    using that by (auto simp: findUnmatchedNullifier_def isNullifierSpent_def list_ex_iff filter_empty_conv)
  with assms show ?thesis unfolding reconcile_early_def by (induction ns) auto
qed

text \<open>What a saved offer leaves behind.\<close>

definition new_row :: "ledger \<Rightarrow> block_info \<Rightarrow> bytes \<Rightarrow> int \<Rightarrow> int \<Rightarrow> offer_row" where
  "new_row lg b raw firstSeen expiry = \<lparr>of_id = 0, of_height = bk_height b, of_blob = offerBytesToBech32 lg raw,
     of_hash = offerHashFromBytes lg raw, of_createdMs = bk_timestamp b, of_expiresMs = Some expiry,
     of_firstSeenMs = firstSeen, of_ttlSeconds = offerLifetimeSeconds expiry (bk_timestamp b)\<rparr>"

definition saved_db :: "ledger \<Rightarrow> block_info \<Rightarrow> bytes \<Rightarrow> offer_validation \<Rightarrow> offer_tx \<Rightarrow> int \<Rightarrow> int \<Rightarrow> offer_db \<Rightarrow> offer_db" where
  "saved_db lg b raw v tx firstSeen expiry db = with_offer (new_row lg b raw firstSeen expiry)
     (or_empty (ov_nullifiers v)) (or_empty (ov_unshieldedSpends v)) (collectOutputCommitments tx) (collectUnshieldedOutputs tx)
     (map (leg_row (db_nextId db) GIVING) (or_empty (ov_gives v)) @ map (leg_row (db_nextId db) WANTING) (or_empty (ov_wants v)))
     expiry db"

definition saved_state :: "ledger \<Rightarrow> block_info \<Rightarrow> bytes \<Rightarrow> offer_validation \<Rightarrow> offer_tx \<Rightarrow> int \<Rightarrow> int \<Rightarrow> index_state \<Rightarrow> index_state" where
  "saved_state lg b raw v tx firstSeen expiry s = emitAppEvent b (Offer_indexed (db_nextId (ix_db s))
     (offerHashFromBytes lg raw) (or_empty (ov_gives v)) (or_empty (ov_wants v)))
     (s\<lparr>ix_db := saved_db lg b raw v tx firstSeen expiry (ix_db s)\<rparr>)"

lemma insert_children_eq:
  "insert_children i v tx db = Inr d \<Longrightarrow> d = db\<lparr>
     db_offerNullifiers := fold (insert_first id) (map (Pair i) (or_empty (ov_nullifiers v))) (db_offerNullifiers db),
     db_offerSpends := fold (insert_first id) (map (Pair i) (or_empty (ov_unshieldedSpends v))) (db_offerSpends db),
     db_offerCommitments := fold (insert_first id) (map (Pair i) (collectOutputCommitments tx)) (db_offerCommitments db),
     db_offerOutputs := fold (add_output i) (collectUnshieldedOutputs tx) (db_offerOutputs db),
     db_tokens := db_tokens db @ map (leg_row i GIVING) (or_empty (ov_gives v)) @ map (leg_row i WANTING) (or_empty (ov_wants v))\<rparr>"
  unfolding insert_children_def Let_def fold_children by (drule tokens_inserted) simp

lemma live_inputs_unspent:
  assumes "list_all (db_probe db cutoff) (orderedOfferLivenessDescriptors v)"
  shows "n \<in> set (or_empty (ov_nullifiers v)) \<Longrightarrow> \<not> isNullifierSpent n db"
    "r \<in> set (or_empty (ov_unshieldedSpends v)) \<Longrightarrow> isUnshieldedCreated r db"
proof -
  have "list_all (\<lambda>n. \<not> isNullifierSpent n db) (or_empty (ov_nullifiers v))"
    "list_all (\<lambda>r. isUnshieldedCreated r db) (or_empty (ov_unshieldedSpends v))"
    using assms by (simp_all add: orderedOfferLivenessDescriptors_def list.pred_map comp_def db_probe_def)
  then show "n \<in> set (or_empty (ov_nullifiers v)) \<Longrightarrow> \<not> isNullifierSpent n db"
    "r \<in> set (or_empty (ov_unshieldedSpends v)) \<Longrightarrow> isUnshieldedCreated r db"
    unfolding list_all_iff by blast+
qed

lemma save_offer_eq:
  assumes r: "ingest_refusal lg env b raw v tx (ix_db s) = None"
    and sv: "save_offer lg env b raw v tx firstSeen expiry s = Inr s'"
  shows "s' = saved_state lg b raw v tx firstSeen expiry s"
proof -
  let ?db = "ix_db s"
  let ?i = "db_nextId ?db" and ?ns = "or_empty (ov_nullifiers v)"
  obtain i db1 db2 where 1: "insertOfferFileWithHash (new_row lg b raw firstSeen expiry) ?db = Inr (i, db1)"
    and 2: "insert_children i v tx db1 = Inr db2"
    and 3: "bindR (reconcile_early b ?ns (s\<lparr>ix_db := db2\<rparr>)) (\<lambda>(early, s3).
      if early then Inr s3
      else Inr (emitAppEvent b (Offer_indexed i (offerHashFromBytes lg raw) (or_empty (ov_gives v)) (or_empty (ov_wants v)))
        (s3\<lparr>ix_db := (ix_db s3)\<lparr>db_scheduled := db_scheduled (ix_db s3) @ [(expiry, i)]\<rparr>\<rparr>))) = Inr s'"
    using sv unfolding save_offer_def new_row_def [symmetric] by (auto simp: bindR_eq_Inr split: prod.splits)
  have i: "i = ?i" and db1: "db1 = ?db\<lparr>db_offers := db_offers ?db @ [(new_row lg b raw firstSeen expiry)\<lparr>of_id := ?i\<rparr>],
      db_nextId := Suc ?i\<rparr>"
    using 1 by (auto simp: insertOfferFileWithHash_def split: if_splits)
  note db2 = insert_children_eq [OF 2]
  have "db_nullifiers db2 = db_nullifiers ?db" unfolding db2 db1 by simp
  moreover have "list_all (\<lambda>n. \<not> isNullifierSpent n ?db) ?ns"
    using r live_inputs_unspent(1) unfolding ingest_refusal_None list_all_iff by blast
  ultimately have "reconcile_early b ?ns (s\<lparr>ix_db := db2\<rparr>) = Inr (False, s\<lparr>ix_db := db2\<rparr>)"
    by (intro reconcile_early_never) (simp add: isNullifierSpent_def)
  then have "s' = emitAppEvent b (Offer_indexed i (offerHashFromBytes lg raw) (or_empty (ov_gives v)) (or_empty (ov_wants v)))
      (s\<lparr>ix_db := db2\<lparr>db_scheduled := db_scheduled db2 @ [(expiry, i)]\<rparr>\<rparr>)"
    using 3 by simp
  then show ?thesis
    unfolding saved_state_def saved_db_def with_offer_def Let_def db2 db1 i by simp
qed

text \<open>Nothing in saving an accepted offer can throw when its legs are distinct on each side.\<close>

definition leg_key :: "offer_leg \<Rightarrow> string \<times> layer" where
  "leg_key l = (ol_token l, ol_kind l)"

definition token_key :: "token_row \<Rightarrow> nat \<times> string \<times> direction \<times> layer" where
  "token_key t = (tk_offer t, tk_color t, tk_direction t, tk_kind t)"

lemma fresh_key: "x \<notin> f ` set xs \<Longrightarrow> \<not> list_ex (\<lambda>r. f r = x) xs"
  by (auto simp: list_ex_iff)

lemma tokens_total:
  assumes "distinct (map token_key (db_tokens db @ ts))"
  shows "foldR (\<lambda>db t. insertOfferFileTokenWithKind t db) db ts = Inr (db\<lparr>db_tokens := db_tokens db @ ts\<rparr>)"
  using assms
proof (induction ts arbitrary: db)
  case (Cons t ts)
  have "token_key t \<notin> token_key ` set (db_tokens db)" using Cons.prems by simp
  from fresh_key [OF this] have "\<not> list_ex (\<lambda>r. tk_offer r = tk_offer t \<and> tk_color r = tk_color t \<and> tk_direction r = tk_direction t \<and> tk_kind r = tk_kind t) (db_tokens db)"
    by (simp add: token_key_def)
  then have "insertOfferFileTokenWithKind t db = Inr (db\<lparr>db_tokens := db_tokens db @ [t]\<rparr>)"
    by (simp add: insertOfferFileTokenWithKind_def)
  then show ?case using Cons.IH [of "db\<lparr>db_tokens := db_tokens db @ [t]\<rparr>"] Cons.prems by simp
qed simp

lemma leg_row_keys: "map (token_key \<circ> leg_row i d) xs = map (\<lambda>(c, k). (i, c, d, k)) (map leg_key xs)"
  by (simp add: leg_row_def leg_key_def token_key_def)

lemma leg_rows_distinct:
  assumes "distinct (map leg_key gives)" "distinct (map leg_key wants)"
  shows "distinct (map token_key (map (leg_row i GIVING) gives @ map (leg_row i WANTING) wants))"
proof -
  have "distinct (map (\<lambda>(c, k). (i, c, d, k)) xs)" if "distinct xs" for xs :: "(string \<times> layer) list" and d :: direction
    using that by (auto simp: distinct_map inj_on_def)
  then have "distinct (map (token_key \<circ> leg_row i GIVING) gives)" "distinct (map (token_key \<circ> leg_row i WANTING) wants)"
    unfolding leg_row_keys using assms by blast+
  then show ?thesis by (auto simp: token_key_def leg_row_def)
qed

lemma insert_children_total:
  assumes "distinct (map token_key (db_tokens db @ map (leg_row i GIVING) (or_empty (ov_gives v)) @ map (leg_row i WANTING) (or_empty (ov_wants v))))"
  shows "\<exists>d. insert_children i v tx db = Inr d"
  unfolding insert_children_def Let_def fold_children by (rule exI, rule tokens_total) (use assms in simp)

lemma save_offer_total:
  assumes r: "ingest_refusal lg env b raw v tx (ix_db s) = None" and ok: "db_ok (ix_db s)"
    and rows: "distinct (map token_key (db_tokens (ix_db s)))"
    and legs: "distinct (map leg_key (or_empty (ov_gives v)))" "distinct (map leg_key (or_empty (ov_wants v)))"
  shows "save_offer lg env b raw v tx firstSeen expiry s = Inr (saved_state lg b raw v tx firstSeen expiry s)"
proof -
  let ?db = "ix_db s"
  let ?i = "db_nextId ?db"
  define db1 where "db1 = ?db\<lparr>db_offers := db_offers ?db @ [(new_row lg b raw firstSeen expiry)\<lparr>of_id := ?i\<rparr>], db_nextId := Suc ?i\<rparr>"
  have "of_hash (new_row lg b raw firstSeen expiry) \<notin> of_hash ` set (db_offers ?db)"
    using r unfolding ingest_refusal_None status_empty by (simp add: new_row_def)
  then have "\<not> list_ex (\<lambda>r. of_hash r = of_hash (new_row lg b raw firstSeen expiry)) (db_offers ?db)"
    by (rule fresh_key)
  then have 1: "insertOfferFileWithHash (new_row lg b raw firstSeen expiry) ?db = Inr (?i, db1)"
    by (simp add: insertOfferFileWithHash_def db1_def)
  have new: "?i \<notin> tk_offer ` set (db_tokens ?db)"
    using ok by (auto simp: db_ok_def book_ok_def keys_ok_def refs_ok_def)
  have "distinct (map token_key
      (db_tokens ?db @ map (leg_row ?i GIVING) (or_empty (ov_gives v)) @ map (leg_row ?i WANTING) (or_empty (ov_wants v))))"
    using rows leg_rows_distinct [OF legs, of ?i] new by (auto simp: leg_row_def token_key_def image_iff)
  then obtain db2 where 2: "insert_children ?i v tx db1 = Inr db2"
    using insert_children_total [of db1 ?i v tx] by (auto simp: db1_def)
  have "db_nullifiers db2 = db_nullifiers ?db" unfolding insert_children_eq [OF 2] by (simp add: db1_def)
  moreover have "list_all (\<lambda>n. \<not> isNullifierSpent n ?db) (or_empty (ov_nullifiers v))"
    using r live_inputs_unspent(1) unfolding ingest_refusal_None list_all_iff by blast
  ultimately have "reconcile_early b (or_empty (ov_nullifiers v)) (s\<lparr>ix_db := db2\<rparr>) = Inr (False, s\<lparr>ix_db := db2\<rparr>)"
    by (intro reconcile_early_never) (simp add: isNullifierSpent_def)
  then have "\<exists>s'. save_offer lg env b raw v tx firstSeen expiry s = Inr s'"
    unfolding save_offer_def new_row_def [symmetric] 1 by (simp add: 2)
  then show ?thesis using save_offer_eq [OF r] by blast
qed

lemma ingest_db_ok:
  assumes ok: "db_ok (ix_db s)" and r: "ingest_refusal lg env b raw v tx (ix_db s) = None"
  shows "db_ok (ix_db (saved_state lg b raw v tx firstSeen expiry s))"
proof -
  let ?db = "ix_db s"
  have refs: "refs_ok ?db" using ok by (simp add: db_ok_def book_ok_def)
  have markers: "marker_owner ?db m = None" if "m \<in> set (declaredMarkers tx)" for m
    using r that unfolding ingest_refusal_None list_all_iff by blast
  have live: "list_all (db_probe ?db (bk_timestamp b - ie_rootWindowSeconds env * 1000)) (orderedOfferLivenessDescriptors v)"
    using r unfolding ingest_refusal_None by blast
  have hash: "of_hash (new_row lg b raw firstSeen expiry) \<notin> of_hash ` set (db_offers ?db)"
    "of_hash (new_row lg b raw firstSeen expiry) \<notin> of_hash ` set (db_history ?db)"
    using r unfolding ingest_refusal_None status_empty by (simp_all add: new_row_def)
  have "db_ok (saved_db lg b raw v tx firstSeen expiry ?db)"
    unfolding saved_db_def
  proof (rule db_ok_with [OF ok hash])
    show "of_expiresMs (new_row lg b raw firstSeen expiry) = Some expiry" by (simp add: new_row_def)
    show "(j, c) \<notin> set (db_offerCommitments ?db)" if "c \<in> set (collectOutputCommitments tx)" for c j
      using unowned_commitment [OF refs markers] that by (simp add: declaredMarkers_def)
    show "ref_of_output w \<noteq> ref_of_output u" if "u \<in> set (collectUnshieldedOutputs tx)" "(j, w, n) \<in> set (db_offerOutputs ?db)" for u j w n
      using unowned_output [OF refs markers that(2)] that(1) by (simp add: declaredMarkers_def)
    show "tk_offer k = db_nextId ?db"
      if "k \<in> set (map (leg_row (db_nextId ?db) GIVING) (or_empty (ov_gives v)) @ map (leg_row (db_nextId ?db) WANTING) (or_empty (ov_wants v)))" for k
      using that by (auto simp: leg_row_def)
  qed (use live_inputs_unspent [OF live] in auto)
  then show ?thesis by (simp add: saved_state_def)
qed

section \<open>Every transition keeps the invariant\<close>

lemma rejectOffer_db [simp]: "ix_db (rejectOffer env b raw code s) = recordOfferRejection (bk_height b) code
    (deleteRejectedAccountingRow (ie_primitive env) (bk_height b) (json_text raw) (ix_db s))"
  by (simp add: rejectOffer_def)

text \<open>How an ingested blob ends.\<close>

lemma on_celestia_blob_cases:
  assumes "on_celestia_blob lg env b supplied s = Inr s'"
  obtains (invalid) v where "validateZswapOfferBytes lg (stm_opts env b) (latin1ToBytes supplied) = Inr v" "\<not> ov_ok v"
      "s' = rejectOffer env b supplied (case ov_code v of None \<Rightarrow> INVALID | Some c \<Rightarrow> c) s"
  | (refused) v tx code where "validateZswapOfferBytes lg (stm_opts env b) (latin1ToBytes supplied) = Inr v" "ov_ok v" "ov_tx v = Some tx"
      "ingest_refusal lg env b (latin1ToBytes supplied) v tx (ix_db s) = Some code" "s' = rejectOffer env b supplied code s"
  | (saved) v tx firstSeen expiry where "validateZswapOfferBytes lg (stm_opts env b) (latin1ToBytes supplied) = Inr v" "ov_ok v" "ov_tx v = Some tx"
      "ingest_refusal lg env b (latin1ToBytes supplied) v tx (ix_db s) = None"
      "offer_times lg env b v tx (ix_db s) = Inr (firstSeen, expiry)"
      "s' = saved_state lg b (latin1ToBytes supplied) v tx firstSeen expiry s"
proof -
  obtain v where v: "validateZswapOfferBytes lg (stm_opts env b) (latin1ToBytes supplied) = Inr v"
    using assms by (auto simp: on_celestia_blob_def Let_def bindR_eq_Inr)
  show thesis
  proof (cases "ov_ok v")
    case False
    then show thesis using assms v invalid by (simp add: on_celestia_blob_def Let_def)
  next
    case True
    obtain tx where tx: "ov_tx v = Some tx"
      using assms v True by (cases "ov_tx v") (simp_all add: on_celestia_blob_def Let_def)
    show thesis
    proof (cases "ingest_refusal lg env b (latin1ToBytes supplied) v tx (ix_db s)")
      case None
      then obtain fs ex where "offer_times lg env b v tx (ix_db s) = Inr (fs, ex)"
        "save_offer lg env b (latin1ToBytes supplied) v tx fs ex s = Inr s'"
        using assms v True tx by (auto simp: on_celestia_blob_def Let_def bindR_eq_Inr)
      then show thesis using saved [OF v True tx None] save_offer_eq [OF None] by blast
    next
      case (Some code)
      then show thesis using assms v True tx refused [OF v True tx] by (simp add: on_celestia_blob_def Let_def)
    qed
  qed
qed

lemma transition_db_ok:
  assumes ok: "db_ok (ix_db s)" and t: "transition_of lg env b input s = Inr s'"
  shows "db_ok (ix_db s')"
proof (cases input)
  case (Zswap_event e)
  then show ?thesis
  proof (cases e)
    case (Commitment_event c tx mt)
    with t Zswap_event ok show ?thesis by (auto simp: on_zswap_event_def db_ok_chain)
  next
    case (Nullifier_event n tx)
    with t Zswap_event show ?thesis
      using consumed_nullifier [OF ok, where n = n and h = "bk_height b" and tx = "tx_hash_of tx" and t = "bk_timestamp b"]
      by (auto simp: on_zswap_event_def Let_def db_ok_chain split: if_splits)
  qed
next
  case (Unshielded_spend p)
  with t ok show ?thesis
    using consumed_spend [OF ok, where h = "bk_height b" and tx = "tx_hash_of (up_txHash p)" and t = "bk_timestamp b"]
    by (auto simp: on_unshielded_spend_def Let_def split: option.splits)
next
  case (Unshielded_create p)
  with t ok show ?thesis by (auto simp: on_unshielded_create_def Let_def db_ok_chain split: option.splits)
next
  case (Zswap_root r)
  with t ok show ?thesis by (auto simp: on_zswap_root_def Let_def db_ok_chain split: if_splits)
next
  case (Celestia_blob supplied)
  with t have c: "on_celestia_blob lg env b supplied s = Inr s'" by simp
  show ?thesis
    by (rule on_celestia_blob_cases [OF c]) (auto simp: db_ok_chain ok intro: ingest_db_ok)
next
  case (Ttl_cleanup i)
  with t show ?thesis
    using expired_offer [OF ok, where i = i and t = "bk_timestamp b"]
    by (auto simp: archiveOfferAtExpiry_def valid_time_def bindR_eq_Inr split: if_splits list.splits prod.splits)
qed

lemma index_run_ok: "index_run lg env s \<Longrightarrow> db_ok (ix_db s)"
proof (induction rule: index_run.induct)
  case Start
  show ?case
    by (simp add: empty_index_def empty_db_def db_ok_def book_ok_def keys_ok_def refs_ok_def markers_exclusive_def
        cleanup_scheduled_def archived_for_cause_def inputs_live_def live_ids_def old_ids_def)
next
  case (Step s s')
  from Step(2) show ?case
    by (rule index_stepE) (auto intro: transition_db_ok [OF Step.IH] simp: db_ok_chain Step.IH)
qed

section \<open>One row for each token, side and layer\<close>

definition tokens_ok :: "offer_db \<Rightarrow> bool" where
  "tokens_ok db \<longleftrightarrow> distinct (map token_key (db_tokens db))"

lemma tokens_ok_same: "db_tokens db' = db_tokens db \<Longrightarrow> tokens_ok db \<Longrightarrow> tokens_ok db'"
  by (simp add: tokens_ok_def)

lemma tokens_ok_after: "tokens_ok db \<Longrightarrow> tokens_ok (after_archive m reason t db)"
  by (simp add: tokens_ok_def after_archive_def distinct_map_filter)

lemma tokens_chain [simp]:
  "db_tokens (insertCommitment c tx mt h db) = db_tokens db" "db_tokens (markNullifierMatched n db) = db_tokens db"
  "db_tokens (insertUnshieldedCreate r tx ty v h db) = db_tokens db" "db_tokens (insertCreatedUnshielded r h db) = db_tokens db"
  "db_tokens (upsertKnownRootWithFirstSeen root h t db) = db_tokens db" "db_tokens (pruneKnownRoots t db) = db_tokens db"
  "db_tokens (deleteRejectedAccountingRow p h raw db) = db_tokens db" "db_tokens (recordOfferRejection h code db) = db_tokens db"
  "db_tokens (adjudicateOfferFill i db) = db_tokens db" "db_tokens (insertNullifierWithTx n h tx db) = db_tokens db"
  "db_tokens (deleteCreatedUnshielded r db) = db_tokens db" "db_tokens (insertUnshieldedSpend r tx h db) = db_tokens db"
  by (simp_all add: insertCommitment_def markNullifierMatched_def insertUnshieldedCreate_def insertCreatedUnshielded_def
      upsertKnownRootWithFirstSeen_def pruneKnownRoots_def deleteRejectedAccountingRow_def recordOfferRejection_def
      adjudicateOfferFill_def insertNullifierWithTx_def deleteCreatedUnshielded_def insertUnshieldedSpend_def)

lemma tokens_ok_marked [simp]: "tokens_ok (markNullifierMatched n db) = tokens_ok db"
  by (simp add: tokens_ok_def)

lemma tokens_inserted_ok:
  "foldR (\<lambda>db t. insertOfferFileTokenWithKind t db) db ts = Inr db' \<Longrightarrow> tokens_ok db \<Longrightarrow> tokens_ok db'"
proof (induction ts arbitrary: db)
  case (Cons t ts)
  then obtain d where d: "insertOfferFileTokenWithKind t db = Inr d" "foldR (\<lambda>db t. insertOfferFileTokenWithKind t db) d ts = Inr db'"
    by (auto simp: bindR_eq_Inr)
  then have "d = db\<lparr>db_tokens := db_tokens db @ [t]\<rparr> \<and> token_key t \<notin> token_key ` set (db_tokens db)"
    by (fastforce simp: insertOfferFileTokenWithKind_def token_key_def list_ex_iff split: if_splits)
  then have "tokens_ok d" using Cons.prems(2) by (auto simp: tokens_ok_def)
  with Cons.IH d(2) show ?case by blast
qed auto

lemma save_offer_tokens:
  assumes "ingest_refusal lg env b raw v tx (ix_db s) = None" "save_offer lg env b raw v tx firstSeen expiry s = Inr s'"
    "tokens_ok (ix_db s)"
  shows "tokens_ok (ix_db s')"
proof -
  obtain i db1 db2 where 1: "insertOfferFileWithHash (new_row lg b raw firstSeen expiry) (ix_db s) = Inr (i, db1)"
    and 2: "insert_children i v tx db1 = Inr db2"
    using assms(2) unfolding save_offer_def new_row_def [symmetric] by (auto simp: bindR_eq_Inr split: prod.splits)
  have db1: "db_tokens db1 = db_tokens (ix_db s)" "i = db_nextId (ix_db s)"
    using 1 by (auto simp: insertOfferFileWithHash_def split: if_splits)
  have "tokens_ok db2"
    using 2 assms(3) unfolding insert_children_def Let_def fold_children
    by (auto dest: tokens_inserted_ok simp: tokens_ok_def db1)
  moreover have "db_tokens (ix_db s') = db_tokens db2"
    unfolding save_offer_eq [OF assms(1,2)] insert_children_eq [OF 2] saved_state_def saved_db_def with_offer_def Let_def
    by (simp add: db1)
  ultimately show ?thesis by (simp add: tokens_ok_def)
qed

lemma transition_tokens_ok:
  assumes ok: "db_ok (ix_db s)" "tokens_ok (ix_db s)" and t: "transition_of lg env b input s = Inr s'"
  shows "tokens_ok (ix_db s')"
proof (cases input)
  case (Zswap_event e)
  then show ?thesis
  proof (cases e)
    case (Commitment_event c tx mt)
    with t Zswap_event ok(2) show ?thesis by (auto simp: on_zswap_event_def tokens_ok_def)
  next
    case (Nullifier_event n tx)
    with t Zswap_event show ?thesis
      using consumed_nullifier(1) [OF ok(1), where n = n and h = "bk_height b" and tx = "tx_hash_of tx" and t = "bk_timestamp b"]
        tokens_ok_after [OF tokens_ok_same [OF _ ok(2)]]
      by (auto simp: on_zswap_event_def Let_def intro: tokens_ok_same [rotated] split: if_splits)
  qed
next
  case (Unshielded_spend p)
  with t ok(2) show ?thesis
    using consumed_spend(1) [OF ok(1), where h = "bk_height b" and tx = "tx_hash_of (up_txHash p)" and t = "bk_timestamp b"]
      tokens_ok_after [OF tokens_ok_same [OF _ ok(2)]]
    by (auto simp: on_unshielded_spend_def Let_def split: option.splits)
next
  case (Unshielded_create p)
  with t ok(2) show ?thesis by (auto simp: on_unshielded_create_def Let_def tokens_ok_def split: option.splits)
next
  case (Zswap_root r)
  with t ok(2) show ?thesis by (auto simp: on_zswap_root_def Let_def tokens_ok_def split: if_splits)
next
  case (Celestia_blob supplied)
  then have c: "on_celestia_blob lg env b supplied s = Inr s'" using t by simp
  show ?thesis
  proof (rule on_celestia_blob_cases [OF c])
    fix v tx fs e
    assume v: "validateZswapOfferBytes lg (stm_opts env b) (latin1ToBytes supplied) = Inr v" "ov_ok v" "ov_tx v = Some tx"
      and r: "ingest_refusal lg env b (latin1ToBytes supplied) v tx (ix_db s) = None"
      and e: "offer_times lg env b v tx (ix_db s) = Inr (fs, e)"
    then have "save_offer lg env b (latin1ToBytes supplied) v tx fs e s = Inr s'"
      using c by (simp add: on_celestia_blob_def Let_def)
    then show ?thesis by (rule save_offer_tokens [OF r _ ok(2)])
  qed (use ok(2) in \<open>simp_all add: tokens_ok_def rejectOffer_db\<close>)
next
  case (Ttl_cleanup i)
  with t ok(2) show ?thesis
    using expired_offer(1) [OF ok(1), where i = i and t = "bk_timestamp b"] tokens_ok_after [OF ok(2)]
    by (auto simp: archiveOfferAtExpiry_def valid_time_def bindR_eq_Inr split: if_splits list.splits prod.splits)
qed

lemma index_run_tokens: "index_run lg env s \<Longrightarrow> tokens_ok (ix_db s)"
proof (induction rule: index_run.induct)
  case Start
  show ?case by (simp add: empty_index_def empty_db_def tokens_ok_def)
next
  case (Step s s')
  from Step(2) show ?case
    by (rule index_stepE) (auto intro: transition_tokens_ok [OF index_run_ok [OF Step(1)] Step.IH]
        tokens_ok_same [OF _ Step.IH])
qed

text \<open>How every blob ends: what throws is rolled back.\<close>

definition acceptable :: "ledger \<Rightarrow> index_env \<Rightarrow> block_info \<Rightarrow> bytes \<Rightarrow> offer_db \<Rightarrow> offer_validation \<Rightarrow> offer_tx \<Rightarrow> bool" where
  "acceptable lg env b raw db v tx \<longleftrightarrow>
     validateZswapOfferBytes lg (stm_opts env b) raw = Inr v \<and> ov_ok v \<and> ov_tx v = Some tx
   \<and> offerHashFromBytes lg raw \<notin> of_hash ` set (db_offers db) \<and> offerHashFromBytes lg raw \<notin> of_hash ` set (db_history db)
   \<and> (\<forall>n \<in> set (or_empty (ov_nullifiers v)). \<not> isNullifierSpent n db)
   \<and> (\<forall>r \<in> set (or_empty (ov_unshieldedSpends v)). isUnshieldedCreated r db)
   \<and> (\<forall>r \<in> set (or_empty (ov_inputRoots v)). isKnownRootLive r (bk_timestamp b - ie_rootWindowSeconds env * 1000) db)
   \<and> verifyOfferCrypto lg tx (bk_timestamp b) = Inr ()
   \<and> (\<forall>m \<in> set (declaredMarkers tx). marker_owner db m = None)"

lemma acceptable_iff: "acceptable lg env b raw db v tx \<longleftrightarrow>
    validateZswapOfferBytes lg (stm_opts env b) raw = Inr v \<and> ov_ok v \<and> ov_tx v = Some tx
    \<and> ingest_refusal lg env b raw v tx db = None"
  unfolding acceptable_def ingest_refusal_None status_empty
  by (simp add: orderedOfferLivenessDescriptors_def list_all_iff db_probe_def ball_Un conj_assoc)

lemma accepted_blob:
  assumes "acceptable lg env b (latin1ToBytes supplied) (ix_db s) v tx" "index_run lg env s"
  shows "on_celestia_blob lg env b supplied s = bindR (offer_times lg env b v tx (ix_db s)) (\<lambda>(firstSeen, expiry).
    save_offer lg env b (latin1ToBytes supplied) v tx firstSeen expiry s)"
  using assms(1) unfolding acceptable_iff by (simp add: on_celestia_blob_def Let_def)

end
