(* ===== verification/Offer_Index_Outcome.thy ===== *)
theory Offer_Index_Outcome
  imports Offer_Index_Run
begin

text \<open>
  What the offer index promises: its invariant, why an offer may leave the book, what a blob does to
  it, how consumption and expiry archive, and how expiry, recent roots and fills are decided. The
  last section drives the whole chain on a small ledger.
\<close>

section \<open>Effects in detail\<close>

lemma emit_consumed_events [simp]:
  "ix_events (emit_consumed b by xs s) = ix_events s @ map (\<lambda>(i, h). (bk_height b, Offer_consumed i h by)) xs"
  by (induction xs arbitrary: s) (auto simp: emit_consumed_def emitAppEvent_def)

lemma fields_after:
  "db_offers (after_archive m reason t db) = filter (\<lambda>r. \<not> m (of_id r)) (db_offers db)"
  "db_history (after_archive m reason t db) = db_history db @ map (\<lambda>r. offer_row.extend r
     \<lparr>hi_reason = reason, hi_archivedMs = t, hi_settled = None\<rparr>) (filter (\<lambda>r. m (of_id r)) (db_offers db))"
  "db_scheduled (after_archive m reason t db) = db_scheduled db"
  by (simp_all add: after_archive_def)

lemma mark_fields [simp]:
  "db_offers (markNullifierMatched n db) = db_offers db" "db_history (markNullifierMatched n db) = db_history db"
  by (simp_all add: markNullifierMatched_def)

lemma after_nothing: "(\<And>r. r \<in> set (db_offers db) \<Longrightarrow> \<not> m (of_id r)) \<Longrightarrow> db_ok db \<Longrightarrow> after_archive m reason t db = db"
proof -
  assume none: "\<And>r. r \<in> set (db_offers db) \<Longrightarrow> \<not> m (of_id r)" and ok: "db_ok db"
  have dead: "\<not> m i" if "i \<in> live_ids db" for i using none that by (auto simp: live_ids_def)
  have refs: "refs_ok db" using ok by (simp add: db_ok_def book_ok_def)
  have f: "filter (\<lambda>p. \<not> m (fst p)) (db_offerNullifiers db) = db_offerNullifiers db"
    "filter (\<lambda>p. \<not> m (fst p)) (db_offerSpends db) = db_offerSpends db"
    "filter (\<lambda>p. \<not> m (fst p)) (db_offerCommitments db) = db_offerCommitments db"
    "filter (\<lambda>p. \<not> m (fst p)) (db_offerOutputs db) = db_offerOutputs db"
    "filter (\<lambda>k. \<not> m (tk_offer k)) (db_tokens db) = db_tokens db"
    "filter (\<lambda>r. \<not> m (of_id r)) (db_offers db) = db_offers db"
    using refs dead none by (auto simp: filter_id_conv refs_ok_def)
  have g: "filter (\<lambda>p. m (fst p)) (db_offerNullifiers db) = []" "filter (\<lambda>p. m (fst p)) (db_offerSpends db) = []"
    "filter (\<lambda>p. m (fst p)) (db_offerCommitments db) = []" "filter (\<lambda>p. m (fst p)) (db_offerOutputs db) = []"
    "filter (\<lambda>k. m (tk_offer k)) (db_tokens db) = []" "filter (\<lambda>r. m (of_id r)) (db_offers db) = []"
    using refs dead none by (auto simp: filter_empty_conv refs_ok_def)
  show ?thesis unfolding after_archive_def f g by simp
qed

definition rejection_count :: "offer_db \<Rightarrow> int \<Rightarrow> reject_code \<Rightarrow> nat" where
  "rejection_count db height code = (case map_of (db_rejections db) (height, code) of None \<Rightarrow> 0 | Some n \<Rightarrow> n)"

lemma map_of_append_single: "map_of (xs @ [(k, v)]) j = (case map_of xs j of None \<Rightarrow> (if j = k then Some v else None) | Some w \<Rightarrow> Some w)"
  by (induction xs) auto

lemma rejection_counted:
  "rejection_count (recordOfferRejection h code db) h' code'
    = rejection_count db h' code' + (if (h', code') = (h, code) then 1 else 0)"
  by (auto simp: rejection_count_def recordOfferRejection_def map_of_append_single update_conv split: option.splits)

lemma rejected_book:
  "db_offers (recordOfferRejection h code (deleteRejectedAccountingRow p k raw db)) = db_offers db"
  "db_history (recordOfferRejection h code (deleteRejectedAccountingRow p k raw db)) = db_history db"
  "db_scheduled (recordOfferRejection h code (deleteRejectedAccountingRow p k raw db)) = db_scheduled db"
  "rejection_count (deleteRejectedAccountingRow p k raw db) = rejection_count db"
  by (simp_all add: recordOfferRejection_def deleteRejectedAccountingRow_def rejection_count_def fun_eq_iff)

lemma saved_fields:
  "db_offers (saved_db lg b raw v tx fs ex db) = db_offers db @ [(new_row lg b raw fs ex)\<lparr>of_id := db_nextId db\<rparr>]"
  "db_history (saved_db lg b raw v tx fs ex db) = db_history db"
  "db_scheduled (saved_db lg b raw v tx fs ex db) = db_scheduled db @ [(ex, db_nextId db)]"
  by (simp_all add: saved_db_def with_offer_def Let_def)

lemma filter_unique: "distinct (map f xs) \<Longrightarrow> x \<in> set xs \<Longrightarrow> filter (\<lambda>y. f y = f x) xs = [x]"
proof (induction xs)
  case (Cons a xs)
  show ?case
  proof (cases "f a = f x")
    case True
    then have "x = a" using Cons.prems by (auto simp: image_iff)
    moreover have "filter (\<lambda>y. f y = f a) xs = []" 
      unfolding filter_empty_conv using Cons.prems(1) by (metis distinct.simps(2) image_eqI list.set_map list.simps(9))
    ultimately show ?thesis by simp
  next
    case False
    then show ?thesis using Cons by auto
  qed
qed simp

section \<open>Recent roots\<close>

lemma max_root_kept:
  assumes "kr_height r = Max (kr_height ` set (db_roots db))" "r \<in> set (db_roots db)"
  shows "max_root_height (pruneKnownRoots c db) = max_root_height db"
proof -
  let ?h = "Max (kr_height ` set (db_roots db))"
  let ?rows = "db_roots (pruneKnownRoots c db)"
  have ne: "db_roots db \<noteq> []" using assms(2) by auto
  have r: "r \<in> set ?rows" using assms ne by (auto simp: pruneKnownRoots_def max_root_height_def)
  have "Max (kr_height ` set ?rows) = ?h"
  proof (rule Max_eqI)
    show "?h \<in> kr_height ` set ?rows" using r assms(1) by (metis imageI)
    show "y \<le> ?h" if "y \<in> kr_height ` set ?rows" for y
      using that by (auto simp: pruneKnownRoots_def)
  qed simp
  moreover have "?rows \<noteq> []" using r by auto
  ultimately show ?thesis using ne by (simp add: max_root_height_def)
qed

lemma max_root_pruned: "max_root_height (pruneKnownRoots c db) = max_root_height db"
proof (cases "db_roots db = []")
  case True
  then show ?thesis by (simp add: max_root_height_def pruneKnownRoots_def)
next
  case False
  have "Max (kr_height ` set (db_roots db)) \<in> kr_height ` set (db_roots db)"
    by (rule Max_in) (use False in simp_all)
  then obtain r where "r \<in> set (db_roots db)" "kr_height r = Max (kr_height ` set (db_roots db))" by auto
  then show ?thesis by (intro max_root_kept)
qed

section \<open>Fills\<close>

lemma distinct_txs_set: "set (distinct_txs txs) = {t. Some t \<in> set txs}"
  by (force simp: distinct_txs_def List.map_filter_def image_iff)

lemma spent_txs_member: "x \<in> set (spent_txs db i) \<longleftrightarrow>
    (\<exists>n r. (i, n) \<in> set (db_nullifiersHistory db) \<and> r \<in> set (db_nullifiers db) \<and> nu_nullifier r = n \<and> nu_txHash r = x)"
  by (auto simp: spent_txs_def split: if_splits)

text \<open>The chain saw a nullifier published, by a transaction that may be unknown.\<close>

definition spent_by :: "offer_db \<Rightarrow> string \<Rightarrow> string option \<Rightarrow> bool" where
  "spent_by db n tx \<longleftrightarrow> (\<exists>r \<in> set (db_nullifiers db). nu_nullifier r = n \<and> nu_txHash r = tx)"

definition created_by :: "offer_db \<Rightarrow> string \<Rightarrow> string \<Rightarrow> bool" where
  "created_by db c tx \<longleftrightarrow> (\<exists>m \<in> set (db_commitments db). cm_commitment m = c \<and> cm_txHash m = Some tx)"

definition recorded_coins :: "offer_db \<Rightarrow> nat \<Rightarrow> string set" where
  "recorded_coins db i = {n. (i, n) \<in> set (db_nullifiersHistory db)}"

definition recorded_outputs :: "offer_db \<Rightarrow> nat \<Rightarrow> string set" where
  "recorded_outputs db i = {c. (i, c) \<in> set (db_commitmentsHistory db)}"

lemma spent_txs_by: "x \<in> set (spent_txs db i) \<longleftrightarrow> (\<exists>n \<in> recorded_coins db i. spent_by db n x)"
  unfolding spent_txs_member spent_by_def recorded_coins_def by blast

lemma shielded_cancelled:
  "shieldedCancelledPredicate db i \<longleftrightarrow>
     (\<exists>n \<in> recorded_coins db i. \<nexists>tx. spent_by db n tx)
   \<or> (\<exists>n \<in> recorded_coins db i. \<exists>n' \<in> recorded_coins db i. \<exists>t t'. t \<noteq> t' \<and> spent_by db n (Some t) \<and> spent_by db n' (Some t'))
   \<or> (\<exists>t. (\<exists>n \<in> recorded_coins db i. spent_by db n (Some t)) \<and> (\<forall>n \<in> recorded_coins db i. \<forall>tx. spent_by db n tx \<longrightarrow> tx = Some t)
        \<and> (\<exists>c \<in> recorded_outputs db i. \<not> created_by db c t))"
    (is "_ \<longleftrightarrow> ?gone \<or> ?split \<or> ?missing")
proof -
  define T where "T = {t. Some t \<in> set (spent_txs db i)}"
  have memT: "t \<in> T \<longleftrightarrow> (\<exists>n \<in> recorded_coins db i. spent_by db n (Some t))" for t
    unfolding T_def mem_Collect_eq spent_txs_by ..
  have T_iff: "Some t \<in> set (spent_txs db i) \<longleftrightarrow> t \<in> T" for t by (simp add: T_def)
  have set_T: "set (distinct_txs (spent_txs db i)) = T" by (simp add: distinct_txs_set T_def)
  have len: "length (distinct_txs (spent_txs db i)) = card T"
    unfolding set_T [symmetric] by (rule distinct_card [symmetric]) (simp add: distinct_txs_def)
  have hd: "hd (distinct_txs (spent_txs db i)) = t" if "T = {t}" for t
    using that set_T by (cases "distinct_txs (spent_txs db i)") auto
  have fin: "finite T" unfolding set_T [symmetric] by simp
  have "1 < card T \<longleftrightarrow> (\<exists>t t'. t \<noteq> t' \<and> t \<in> T \<and> t' \<in> T)"
    using card_le_Suc0_iff_eq [OF fin] by auto
  then have split: "1 < card T \<longleftrightarrow> ?split" unfolding memT by blast
  have gone: "list_ex (\<lambda>(j, n). j = i \<and> \<not> list_ex (\<lambda>r. nu_nullifier r = n) (db_nullifiers db)) (db_nullifiersHistory db) \<longleftrightarrow> ?gone"
    by (auto simp: list_ex_iff recorded_coins_def spent_by_def)
  have one: "card T = 1 \<and> None \<notin> set (spent_txs db i) \<and> P (hd (distinct_txs (spent_txs db i))) \<longleftrightarrow>
      (\<exists>t. t \<in> T \<and> (\<forall>x \<in> set (spent_txs db i). x = Some t) \<and> P t)" for P
  proof
    assume "card T = 1 \<and> None \<notin> set (spent_txs db i) \<and> P (hd (distinct_txs (spent_txs db i)))"
    then have c: "card T = Suc 0" and none: "None \<notin> set (spent_txs db i)" and p: "P (hd (distinct_txs (spent_txs db i)))"
      by simp_all
    from c obtain t where t: "T = {t}" unfolding card_1_singleton_iff ..
    from p have "P t" unfolding hd [OF t] .
    moreover have "x = Some t" if "x \<in> set (spent_txs db i)" for x
      by (cases x) (use that none in \<open>simp_all add: T_iff t\<close>)
    ultimately show "\<exists>t. t \<in> T \<and> (\<forall>x \<in> set (spent_txs db i). x = Some t) \<and> P t" using t by blast
  next
    assume "\<exists>t. t \<in> T \<and> (\<forall>x \<in> set (spent_txs db i). x = Some t) \<and> P t"
    then obtain t where t: "t \<in> T" "\<forall>x \<in> set (spent_txs db i). x = Some t" "P t" by blast
    then have "T = {t}" "None \<notin> set (spent_txs db i)" by (auto simp: T_iff [symmetric])
    with t(3) hd show "card T = 1 \<and> None \<notin> set (spent_txs db i) \<and> P (hd (distinct_txs (spent_txs db i)))" by simp
  qed
  have made: "list_ex (\<lambda>(j, c). j = i \<and> \<not> list_ex (\<lambda>m. cm_commitment m = c \<and> cm_txHash m = Some t) (db_commitments db))
      (db_commitmentsHistory db) \<longleftrightarrow> (\<exists>c \<in> recorded_outputs db i. \<not> created_by db c t)" for t
    by (auto simp: list_ex_iff recorded_outputs_def created_by_def)
  have missing: "card T = 1 \<and> None \<notin> set (spent_txs db i)
      \<and> (\<exists>c \<in> recorded_outputs db i. \<not> created_by db c (hd (distinct_txs (spent_txs db i)))) \<longleftrightarrow> ?missing"
    unfolding one [of "\<lambda>t. \<exists>c \<in> recorded_outputs db i. \<not> created_by db c t"] memT
    unfolding Ball_def spent_txs_by by blast
  show ?thesis
    unfolding shieldedCancelledPredicate_def gone len split made missing ..
qed

section \<open>A small chain\<close>

definition sample_env :: index_env where
  "sample_env = \<lparr>ie_primitive = ''zswap'', ie_maxBytes = 10, ie_offerTtlSeconds = 3600, ie_rootWindowSeconds = 3600,
     ie_dustGraceSeconds = 10800, ie_parseBech32 = (\<lambda>_. Inl (PlainError ''not bech32m'')), ie_dateParse = (\<lambda>_. None)\<rparr>"

definition sample_block :: "int \<Rightarrow> block_info" where
  "sample_block n = \<lparr>bk_height = n, bk_timestamp = n * 1000\<rparr>"

definition sample_rooted :: index_state where
  "sample_rooted = empty_index\<lparr>ix_db := empty_db\<lparr>db_roots := [\<lparr>kr_root = ''08'', kr_height = 1, kr_lastSeenMs = 1000, kr_firstSeenMs = 1000\<rparr>]\<rparr>\<rparr>"

definition sample_gives :: "offer_leg list" where
  "sample_gives = [\<lparr>ol_token = ''aa'', ol_amount = ''5'', ol_kind = SHIELDED\<rparr>]"

definition sample_wants :: "offer_leg list" where
  "sample_wants = [\<lparr>ol_token = ''bb'', ol_amount = ''7'', ol_kind = SHIELDED\<rparr>]"

definition sample_indexed :: index_state where
  "sample_indexed = saved_state sample_ledger (sample_block 2) [1]
     (accepted_data sample_ledger sample_tx [] sample_gives sample_wants [''08'']) sample_tx 1000 3602000 sample_rooted"

lemma sample_legs_derived: "deriveLegs sample_ledger sample_tx = Inr (sample_gives, sample_wants)"
  by (simp add: deriveLegs_def sample_ledger_def sample_legs_def Let_def sample_gives_def sample_wants_def)

lemma sample_validated:
  "validateZswapOfferBytes sample_ledger (stm_opts sample_env b) [1] = Inr (accepted_data sample_ledger sample_tx [] sample_gives sample_wants [''08''])"
proof -
  have t: "lg_isTwoSided sample_ledger sample_gives sample_wants" "lg_deserialize sample_ledger raw = Inr sample_tx" for raw
    by (simp_all add: sample_ledger_def sample_gives_def sample_wants_def)
  have x: "\<not> isCrossLayer sample_gives sample_wants"
    by (simp add: isCrossLayer_def sample_gives_def sample_wants_def js_uniq_def set_add_def)
  have "offer_shape sample_ledger sample_tx [] sample_gives sample_wants [''08'']"
    using t x by (simp add: offer_shape_def sample_collected sample_legs_derived)
  moreover have "sync_ok (stm_opts sample_env b) ns ss rs" "not_seen (stm_opts sample_env b) ns ids"
    "crypto_ok sample_ledger (stm_opts sample_env b) tx" "vo_maxBytes (stm_opts sample_env b) = 10" for ns ss rs ids tx
    by (simp_all add: stm_opts_def sync_ok_def not_seen_def crypto_ok_def defer_opts_def sample_env_def)
  ultimately have "validateZswapOfferBytes sample_ledger (stm_opts sample_env b) [1]
        = Inr (accepted_data sample_ledger sample_tx [] sample_gives sample_wants [''08''])
      \<and> ov_ok (accepted_data sample_ledger sample_tx [] sample_gives sample_wants [''08''])"
    unfolding validate_bytes_ok using t(2) by auto
  then show ?thesis by blast
qed

lemma sample_root_step: "transition_of sample_ledger sample_env (sample_block 1) (Zswap_root ''08'') empty_index = Inr sample_rooted"
proof -
  have "canonicalRootHex ''08'' = ''08''" by code_simp
  then show ?thesis
    by (simp add: on_zswap_root_def sample_rooted_def empty_index_def empty_db_def sample_block_def sample_env_def
        upsertKnownRootWithFirstSeen_def pruneKnownRoots_def max_root_height_def)
qed

lemma sample_blob_step: "transition_of sample_ledger sample_env (sample_block 2) (Celestia_blob [1]) sample_rooted = Inr sample_indexed"
proof -
  let ?v = "accepted_data sample_ledger sample_tx [] sample_gives sample_wants [''08'']"
  have raw: "latin1ToBytes [1] = [1]" by (simp add: latin1ToBytes_def)
  have markers: "declaredMarkers sample_tx = [Commitment_marker ''cc'']"
    by code_simp
  have refusal: "ingest_refusal sample_ledger sample_env (sample_block 2) [1] ?v sample_tx (ix_db sample_rooted) = None"
    unfolding ingest_refusal_None status_empty markers
    by (simp add: sample_rooted_def empty_index_def empty_db_def orderedOfferLivenessDescriptors_def or_empty_def
        sample_collected db_probe_def isNullifierSpent_def isKnownRootLive_def is_latest_root_def max_root_height_def
        verifyOfferCrypto_def sample_ledger_def findActiveOfferByCommitment_def least_hash_def)
  have times: "offer_times sample_ledger sample_env (sample_block 2) ?v sample_tx (ix_db sample_rooted) = Inr (1000, 3602000)"
    by (simp add: offer_times_def valid_time_def valid_date_def sample_block_def or_empty_def getOfferRootTiming_def
        sample_rooted_def empty_index_def empty_db_def min_of_def is_latest_root_def max_root_height_def sample_env_def
        earliestDustSpendDeadline_def hasTransactionIntents_def sample_tx_def deriveOfferExpiry_def time_opt_def
        expiryTimestamp_def sample_ledger_def List.map_filter_def)
  have "db_ok (ix_db sample_rooted)"
    by (rule transition_db_ok [OF _ sample_root_step]) (use index_run_ok [OF index_run.Start] in blast)
  then have "save_offer sample_ledger sample_env (sample_block 2) [1] ?v sample_tx 1000 3602000 sample_rooted = Inr sample_indexed"
    unfolding sample_indexed_def
    by (intro save_offer_total [OF refusal])
      (simp_all add: sample_rooted_def empty_index_def empty_db_def or_empty_def sample_gives_def sample_wants_def)
  then show ?thesis
    by (simp add: on_celestia_blob_def raw sample_validated refusal times)
qed

lemma sample_index_run: "index_run sample_ledger sample_env sample_indexed"
  using index_run.Start index_step.Input sample_root_step sample_blob_step index_run.Step by metis

lemma sample_book:
  "map of_id (db_offers (ix_db sample_indexed)) = [1]" "map of_expiresMs (db_offers (ix_db sample_indexed)) = [Some 3602000]"
  "set (db_offerNullifiers (ix_db sample_indexed)) = {(1, toHex sample_nullifier)}"
  by (simp_all add: sample_indexed_def saved_state_def saved_db_def with_offer_def Let_def new_row_def
      sample_rooted_def empty_index_def empty_db_def or_empty_def sample_collected)

section \<open>Properties\<close>

text \<open>C11: whatever the chain and the namespace deliver, every offer ever indexed has its own id
  and its own content hash across the live book and the archive, nothing hangs on an offer that is not
  live, every input of a live offer is unspent as far as the chain has been seen, no fill marker is
  declared by two live offers, and every live offer has its clean-up scheduled at its expiry.\<close>

theorem index_invariant:
  assumes "index_run lg env s"
  shows "distinct (map of_id (db_offers (ix_db s)) @ map of_id (db_history (ix_db s)))
    \<and> distinct (map of_hash (db_offers (ix_db s)) @ map of_hash (db_history (ix_db s)))
    \<and> fst ` set (db_offerNullifiers (ix_db s)) \<union> fst ` set (db_offerSpends (ix_db s))
        \<union> fst ` set (db_offerCommitments (ix_db s)) \<union> fst ` set (db_offerOutputs (ix_db s))
        \<union> tk_offer ` set (db_tokens (ix_db s)) \<subseteq> of_id ` set (db_offers (ix_db s))
    \<and> (\<forall>(i, n) \<in> set (db_offerNullifiers (ix_db s)). \<not> isNullifierSpent n (ix_db s))
    \<and> (\<forall>(i, r) \<in> set (db_offerSpends (ix_db s)). isUnshieldedCreated r (ix_db s))
    \<and> (\<forall>i j c. (i, c) \<in> set (db_offerCommitments (ix_db s)) \<longrightarrow> (j, c) \<in> set (db_offerCommitments (ix_db s)) \<longrightarrow> i = j)
    \<and> (\<forall>i u n j v m. (i, u, n) \<in> set (db_offerOutputs (ix_db s)) \<longrightarrow> (j, v, m) \<in> set (db_offerOutputs (ix_db s))
        \<longrightarrow> ref_of_output u = ref_of_output v \<longrightarrow> i = j)
    \<and> (\<forall>r \<in> set (db_offers (ix_db s)). \<exists>e. of_expiresMs r = Some e \<and> (e, of_id r) \<in> set (db_scheduled (ix_db s)))"
proof -
  have ok: "keys_ok (ix_db s)" "refs_ok (ix_db s)" "markers_exclusive (ix_db s)" "cleanup_scheduled (ix_db s)" "inputs_live (ix_db s)"
    using index_run_ok [OF assms] by (simp_all add: db_ok_def book_ok_def)
  have "distinct (map of_id (db_offers (ix_db s)) @ map of_id (db_history (ix_db s)))"
    "distinct (map of_hash (db_offers (ix_db s)) @ map of_hash (db_history (ix_db s)))"
    using ok(1) by (simp_all add: keys_ok_def live_ids_def old_ids_def)
  with ok(2-5) show ?thesis
    unfolding refs_ok_def live_ids_def markers_exclusive_def cleanup_scheduled_def inputs_live_def by simp
qed

lemma index_invariant_witness:
  "length (db_offers (ix_db sample_indexed)) = 1 \<and> distinct (map of_hash (db_offers (ix_db sample_indexed)) @ map of_hash (db_history (ix_db sample_indexed)))"
proof -
  have "length (map of_id (db_offers (ix_db sample_indexed))) = 1" unfolding sample_book by simp
  then show ?thesis using index_invariant [OF sample_index_run] by simp
qed

text \<open>C23: an offer leaves the live book for one of two reasons, and the tables carry the evidence:
  the chain consumed one of its own inputs, or its expiry had passed when it was archived.\<close>

theorem archived_with_cause:
  assumes "index_run lg env s" and "h \<in> set (db_history (ix_db s))"
  shows "case hi_reason h of
      TTL \<Rightarrow> \<exists>e. of_expiresMs h = Some e \<and> e \<le> hi_archivedMs h
    | CONSUMED \<Rightarrow> (\<exists>n. (of_id h, n) \<in> set (db_nullifiersHistory (ix_db s)) \<and> isNullifierSpent n (ix_db s))
        \<or> (\<exists>r. (of_id h, r) \<in> set (db_spendsHistory (ix_db s)) \<and> list_ex (\<lambda>x. xs_ref x = r) (db_unshieldedSpends (ix_db s)))"
proof -
  have spent: "list_ex (\<lambda>x. xs_ref x = r) xs \<longleftrightarrow> r \<in> xs_ref ` set xs" for r xs
    by (auto simp: list_ex_iff)
  have "archived_for_cause (ix_db s)" using index_run_ok [OF assms(1)] by (simp add: db_ok_def book_ok_def)
  with assms(2) show ?thesis
    unfolding archived_for_cause_def consumed_evidence_def isNullifierSpent_iff spent by blast
qed

lemma sample_consumed:
  obtains s' h where "index_run sample_ledger sample_env s'" "h \<in> set (db_history (ix_db s'))" "hi_reason h = CONSUMED"
proof -
  let ?m = "\<lambda>i. (i, toHex sample_nullifier) \<in> set (db_offerNullifiers (ix_db sample_indexed))"
  let ?db1 = "insertNullifierWithTx (toHex sample_nullifier) 3 None (ix_db sample_indexed)"
  obtain r where r: "db_offers (ix_db sample_indexed) = [r]" "of_id r = 1"
    using sample_book(1) by (cases "db_offers (ix_db sample_indexed)") auto
  have d1: "db_offers ?db1 = [r]" using r by (simp add: insertNullifierWithTx_def)
  have ok: "db_ok (ix_db sample_indexed)" by (rule index_run_ok [OF sample_index_run])
  have "filter (\<lambda>r. ?m (of_id r)) (db_offers (ix_db sample_indexed)) = [r]"
    using r sample_book(3) by simp
  then have t: "transition_of sample_ledger sample_env (sample_block 3) (Zswap_event (Nullifier_event (toHex sample_nullifier) None)) sample_indexed
    = Inr (emit_consumed (sample_block 3) (By_nullifier (toHex sample_nullifier)) [(of_id r, of_hash r)]
        (sample_indexed\<lparr>ix_db := markNullifierMatched (toHex sample_nullifier) (after_archive ?m CONSUMED 3000 ?db1)\<rparr>))" (is "_ = Inr ?s'")
    using consumed_nullifier(1) [OF ok, where n = "toHex sample_nullifier" and h = 3 and tx = None and t = 3000]
    by (simp add: on_zswap_event_def tx_hash_of_def sample_block_def)
  have "index_run sample_ledger sample_env ?s'"
    using index_run.Step [OF sample_index_run index_step.Input [OF t]] .
  moreover have "offer_row.extend r \<lparr>hi_reason = CONSUMED, hi_archivedMs = 3000, hi_settled = None\<rparr> \<in> set (db_history (ix_db ?s'))"
    unfolding emit_consumed_db using d1 r sample_book(3) by (simp add: fields_after)
  ultimately show thesis using that by simp
qed

lemma archived_with_cause_witness:
  "\<exists>(s :: index_state) h. hi_reason h = CONSUMED \<and> h \<in> set (db_history (ix_db s))
     \<and> ((\<exists>n. (of_id h, n) \<in> set (db_nullifiersHistory (ix_db s)) \<and> isNullifierSpent n (ix_db s))
        \<or> (\<exists>r. (of_id h, r) \<in> set (db_spendsHistory (ix_db s)) \<and> list_ex (\<lambda>x. xs_ref x = r) (db_unshieldedSpends (ix_db s))))"
proof -
  obtain s h where sh: "index_run sample_ledger sample_env s" "h \<in> set (db_history (ix_db s))" "hi_reason h = CONSUMED"
    by (rule sample_consumed)
  from archived_with_cause [OF sh(1,2)] sh show ?thesis by (intro exI [of _ s] exI [of _ h]) simp
qed

text \<open>A blob whose offer may enter: what it leaves behind, and what a refusal leaves behind.\<close>

definition offer_saved :: "ledger \<Rightarrow> block_info \<Rightarrow> bytes \<Rightarrow> int \<Rightarrow> int \<Rightarrow> index_state \<Rightarrow> index_state \<Rightarrow> bool" where
  "offer_saved lg b raw firstSeen expiry s s' \<longleftrightarrow> (\<exists>r gives wants.
     db_offers (ix_db s') = db_offers (ix_db s) @ [r] \<and> of_id r = db_nextId (ix_db s)
     \<and> of_hash r = offerHashFromBytes lg raw \<and> of_expiresMs r = Some expiry \<and> of_firstSeenMs r = firstSeen
     \<and> db_scheduled (ix_db s') = db_scheduled (ix_db s) @ [(expiry, of_id r)] \<and> db_history (ix_db s') = db_history (ix_db s)
     \<and> ix_events s' = ix_events s @ [(bk_height b, Offer_indexed (of_id r) (of_hash r) gives wants)])"

definition blob_refused :: "block_info \<Rightarrow> index_state \<Rightarrow> index_state \<Rightarrow> bool" where
  "blob_refused b s s' \<longleftrightarrow> (\<exists>code. db_offers (ix_db s') = db_offers (ix_db s) \<and> db_history (ix_db s') = db_history (ix_db s)
     \<and> db_scheduled (ix_db s') = db_scheduled (ix_db s)
     \<and> rejection_count (ix_db s') = (\<lambda>h c. rejection_count (ix_db s) h c + (if (h, c) = (bk_height b, code) then 1 else 0))
     \<and> ix_events s' = ix_events s @ [(bk_height b, Offer_rejected code)])"

lemma rejected_blob: "blob_refused b s (rejectOffer env b supplied code s)"
  unfolding blob_refused_def
  by (rule exI [of _ code]) (simp add: rejected_book rejection_counted fun_eq_iff rejectOffer_def emitAppEvent_def)

lemma saved_blob: "offer_saved lg b raw firstSeen expiry s (saved_state lg b raw v tx firstSeen expiry s)"
  unfolding offer_saved_def
  by (rule exI [of _ "(new_row lg b raw firstSeen expiry)\<lparr>of_id := db_nextId (ix_db s)\<rparr>"])
    (simp add: saved_state_def saved_fields new_row_def emitAppEvent_def)

lemma children_distinct:
  assumes "insert_children i v tx db = Inr d" "tokens_ok db"
  shows "distinct (map leg_key (or_empty (ov_gives v))) \<and> distinct (map leg_key (or_empty (ov_wants v)))"
proof -
  have "tokens_ok d" using assms unfolding insert_children_def Let_def fold_children
    by (auto dest: tokens_inserted_ok simp: tokens_ok_def)
  then have "distinct (map (token_key \<circ> leg_row i GIVING) (or_empty (ov_gives v)))"
    "distinct (map (token_key \<circ> leg_row i WANTING) (or_empty (ov_wants v)))"
    unfolding insert_children_eq [OF assms(1)] by (simp_all add: tokens_ok_def)
  moreover have "distinct xs" if "distinct (map f xs)" for f :: "string \<times> layer \<Rightarrow> nat \<times> string \<times> direction \<times> layer" and xs
    using that by (simp add: distinct_map)
  ultimately show ?thesis unfolding leg_row_keys by blast
qed

lemma save_offer_throws:
  assumes "\<not> (distinct (map leg_key (or_empty (ov_gives v))) \<and> distinct (map leg_key (or_empty (ov_wants v))))"
    "tokens_ok (ix_db s)"
  shows "\<exists>e. save_offer lg env b raw v tx firstSeen expiry s = Inl e"
proof (cases "save_offer lg env b raw v tx firstSeen expiry s")
  case (Inr s')
  then obtain i db1 db2 where 1: "insertOfferFileWithHash (new_row lg b raw firstSeen expiry) (ix_db s) = Inr (i, db1)"
    and 2: "insert_children i v tx db1 = Inr db2"
    unfolding save_offer_def new_row_def [symmetric] by (auto simp: bindR_eq_Inr split: prod.splits)
  have "tokens_ok db1" using 1 assms(2) by (auto simp: insertOfferFileWithHash_def tokens_ok_def split: if_splits)
  with children_distinct [OF 2] assms(1) show ?thesis by blast
qed simp

lemma unacceptable_blob:
  assumes "\<not> (\<exists>v tx. acceptable lg env b (latin1ToBytes supplied) (ix_db s) v tx)"
    and v: "validateZswapOfferBytes lg (stm_opts env b) (latin1ToBytes supplied) = Inr v"
  shows "\<exists>s'. on_celestia_blob lg env b supplied s = Inr s' \<and> blob_refused b s s'"
proof (cases "ov_ok v")
  case False
  with v show ?thesis by (simp add: on_celestia_blob_def Let_def rejected_blob)
next
  case True
  with v obtain tx where tx: "ov_tx v = Some tx" using validate_bytes_ok [of lg "stm_opts env b" "latin1ToBytes supplied" v] by (auto simp: accepted_data_def)
  with assms True obtain code where "ingest_refusal lg env b (latin1ToBytes supplied) v tx (ix_db s) = Some code"
    unfolding acceptable_iff by fastforce
  with v True tx show ?thesis by (simp add: on_celestia_blob_def Let_def rejected_blob)
qed

lemma accepted_processed:
  assumes "acceptable lg env b (latin1ToBytes supplied) (ix_db s) v tx" "index_run lg env s"
  shows "process_input lg env b (Celestia_blob supplied) s = (case offer_times lg env b v tx (ix_db s) of
      Inl _ \<Rightarrow> (False, s)
    | Inr (fs, ex) \<Rightarrow>
        if distinct (map leg_key (or_empty (ov_gives v))) \<and> distinct (map leg_key (or_empty (ov_wants v)))
        then (True, saved_state lg b (latin1ToBytes supplied) v tx fs ex s) else (False, s))"
proof (cases "offer_times lg env b v tx (ix_db s)")
  case (Inl e)
  then show ?thesis by (simp add: process_input_def accepted_blob [OF assms])
next
  case (Inr times)
  obtain fs ex where t: "times = (fs, ex)" by (cases times)
  have ok: "db_ok (ix_db s)" "distinct (map token_key (db_tokens (ix_db s)))" "tokens_ok (ix_db s)"
    using index_run_ok [OF assms(2)] index_run_tokens [OF assms(2)] by (simp_all add: tokens_ok_def)
  have r: "ingest_refusal lg env b (latin1ToBytes supplied) v tx (ix_db s) = None"
    using assms(1) by (simp add: acceptable_iff)
  show ?thesis
  proof (cases "distinct (map leg_key (or_empty (ov_gives v))) \<and> distinct (map leg_key (or_empty (ov_wants v)))")
    case True
    with save_offer_total [OF r ok(1,2)] show ?thesis by (simp add: process_input_def accepted_blob [OF assms] Inr t)
  next
    case False
    then obtain e where "save_offer lg env b (latin1ToBytes supplied) v tx fs ex s = Inl e"
      using save_offer_throws ok(3) by blast
    with False show ?thesis by (auto simp: process_input_def accepted_blob [OF assms] Inr t)
  qed
qed

text \<open>C21: a blob from the namespace is indexed exactly when its bytes are a valid offer, its hash
  is neither live nor archived, each input is live, its proofs verify, no live offer owns one of its
  markers, its times can be derived and no token appears twice on one side and layer. Then one live row
  is added under the next id, with its clean-up scheduled at the row's own expiry, and it is announced as
  indexed; nothing is archived. An offer whose times or legs fail makes the handler throw, and so does a
  validator that throws: the input's writes are rolled back and the block stops. In every other case one
  rejection is counted and announced, and the book, the archive and the schedule stay as they were. In
  particular an offer whose nullifier was seen first is rejected, not indexed and archived on arrival.\<close>

theorem ingestion_outcome:
  assumes "index_run lg env s"
  shows "case process_input lg env b (Celestia_blob supplied) s of (finished, s') \<Rightarrow>
    (\<forall>v tx. acceptable lg env b (latin1ToBytes supplied) (ix_db s) v tx \<longrightarrow>
      (case offer_times lg env b v tx (ix_db s) of
         Inl _ \<Rightarrow> \<not> finished \<and> s' = s
       | Inr (firstSeen, expiry) \<Rightarrow>
           if distinct (map leg_key (or_empty (ov_gives v))) \<and> distinct (map leg_key (or_empty (ov_wants v)))
           then finished \<and> offer_saved lg b (latin1ToBytes supplied) firstSeen expiry s s'
           else \<not> finished \<and> s' = s))
  \<and> ((\<nexists>v tx. acceptable lg env b (latin1ToBytes supplied) (ix_db s) v tx) \<longrightarrow>
      (case validateZswapOfferBytes lg (stm_opts env b) (latin1ToBytes supplied) of
         Inl _ \<Rightarrow> \<not> finished \<and> s' = s
       | Inr _ \<Rightarrow> finished \<and> blob_refused b s s'))"
proof -
  let ?raw = "latin1ToBytes supplied"
  consider (yes) v tx where "acceptable lg env b ?raw (ix_db s) v tx"
    | (no) "\<nexists>v tx. acceptable lg env b ?raw (ix_db s) v tx" by blast
  then show ?thesis
  proof cases
    case yes
    then have "w = v \<and> ux = tx" if "acceptable lg env b ?raw (ix_db s) w ux" for w ux
      using that by (simp add: acceptable_def)
    then have close: "(\<forall>w ux. acceptable lg env b ?raw (ix_db s) w ux \<longrightarrow> Q w ux)
        \<and> ((\<nexists>v tx. acceptable lg env b ?raw (ix_db s) v tx) \<longrightarrow> R)" if "Q v tx" for Q R
      using that yes by blast
    show ?thesis
      unfolding accepted_processed [OF yes assms]
      by (cases "offer_times lg env b v tx (ix_db s)";
          cases "distinct (map leg_key (or_empty (ov_gives v))) \<and> distinct (map leg_key (or_empty (ov_wants v)))")
         (simp_all only: sum.case split_beta prod.case fst_conv snd_conv if_True if_False, (intro close; simp add: saved_blob split_beta)+)
  next
    case no
    then show ?thesis
      using unacceptable_blob [OF no] by (cases "validateZswapOfferBytes lg (stm_opts env b) ?raw")
        (auto simp: process_input_def on_celestia_blob_def Let_def)
  qed
qed

lemma ingestion_outcome_witness:
  "\<exists>r. db_offers (ix_db sample_indexed) = [r] \<and> of_hash r = ''01'' \<and> db_scheduled (ix_db sample_indexed) = [(3602000, of_id r)]"
proof -
  have run: "index_run sample_ledger sample_env sample_rooted"
    using index_run.Step [OF index_run.Start index_step.Input [OF sample_root_step]] .
  have blob: "on_celestia_blob sample_ledger sample_env (sample_block 2) [1] sample_rooted = Inr sample_indexed"
    using sample_blob_step by simp
  have raw: "latin1ToBytes [1] = [1]" by (simp add: latin1ToBytes_def)
  have hash: "offerHashFromBytes sample_ledger [1] = ''01''"
    unfolding offerHashFromBytes_def sample_ledger_def ledger.simps by code_simp
  have one: "length (db_offers (ix_db sample_indexed)) = 1"
    using sample_book(1) by (metis length_map length_Cons list.size(3) One_nat_def)
  have none: "db_offers (ix_db sample_rooted) = []" "db_scheduled (ix_db sample_rooted) = []"
    by (simp_all add: sample_rooted_def empty_index_def empty_db_def)
  have fin: "process_input sample_ledger sample_env (sample_block 2) (Celestia_blob [1]) sample_rooted = (True, sample_indexed)"
    using blob by (simp add: process_input_def)
  have "\<not> blob_refused (sample_block 2) sample_rooted sample_indexed" "sample_indexed \<noteq> sample_rooted"
    using one none by (auto simp: blob_refused_def)
  note off = this
  note main = ingestion_outcome [OF run, of "sample_block 2" "[1]", unfolded fin prod.case raw]
  have "\<exists>fs e. offer_saved sample_ledger (sample_block 2) [1] fs e sample_rooted sample_indexed"
  proof (cases "\<exists>v tx. acceptable sample_ledger sample_env (sample_block 2) [1] (ix_db sample_rooted) v tx")
    case True
    then obtain v tx where "acceptable sample_ledger sample_env (sample_block 2) [1] (ix_db sample_rooted) v tx" by blast
    from main [THEN conjunct1, rule_format, OF this] off show ?thesis by (auto split: sum.splits prod.splits if_splits)
  next
    case False
    from main [THEN conjunct2, rule_format, OF this] off show ?thesis by (auto split: sum.splits)
  qed
  then show ?thesis using sample_book(2) by (auto simp: offer_saved_def hash none)
qed

text \<open>C22: recording that a nullifier was published, or an unshielded coin spent, never fails on a
  reachable state. Exactly the live offers that declare the input leave the book, in order, into the
  archive as consumed; each is announced once, and the input counts as spent from then on.\<close>

theorem consumption_archives:
  assumes "index_run lg env s"
  shows "(\<exists>s'. on_zswap_event b (Nullifier_event n tx) s = Inr s' \<and> isNullifierSpent n (ix_db s')
      \<and> db_offers (ix_db s') = filter (\<lambda>r. (of_id r, n) \<notin> set (db_offerNullifiers (ix_db s))) (db_offers (ix_db s))
      \<and> db_history (ix_db s') = db_history (ix_db s) @ map (\<lambda>r. offer_row.extend r
          \<lparr>hi_reason = CONSUMED, hi_archivedMs = bk_timestamp b, hi_settled = None\<rparr>)
          (filter (\<lambda>r. (of_id r, n) \<in> set (db_offerNullifiers (ix_db s))) (db_offers (ix_db s)))
      \<and> ix_events s' = ix_events s @ map (\<lambda>r. (bk_height b, Offer_consumed (of_id r) (of_hash r) (By_nullifier n)))
          (filter (\<lambda>r. (of_id r, n) \<in> set (db_offerNullifiers (ix_db s))) (db_offers (ix_db s))))
    \<and> (case payload_ref env p of None \<Rightarrow> on_unshielded_spend env b p s = Inr s
       | Some ref \<Rightarrow> \<exists>s'. on_unshielded_spend env b p s = Inr s' \<and> \<not> isUnshieldedCreated ref (ix_db s')
          \<and> db_offers (ix_db s') = filter (\<lambda>r. (of_id r, ref) \<notin> set (db_offerSpends (ix_db s))) (db_offers (ix_db s))
          \<and> db_history (ix_db s') = db_history (ix_db s) @ map (\<lambda>r. offer_row.extend r
              \<lparr>hi_reason = CONSUMED, hi_archivedMs = bk_timestamp b, hi_settled = None\<rparr>)
              (filter (\<lambda>r. (of_id r, ref) \<in> set (db_offerSpends (ix_db s))) (db_offers (ix_db s)))
          \<and> ix_events s' = ix_events s @ map (\<lambda>r. (bk_height b, Offer_consumed (of_id r) (of_hash r) (By_spend ref)))
              (filter (\<lambda>r. (of_id r, ref) \<in> set (db_offerSpends (ix_db s))) (db_offers (ix_db s))))"
proof -
  have ok: "db_ok (ix_db s)" by (rule index_run_ok [OF assms])
  let ?n = "insertNullifierWithTx n (bk_height b) (tx_hash_of tx) (ix_db s)"
  have 1: "db_offers ?n = db_offers (ix_db s)" "db_history ?n = db_history (ix_db s)" by (simp_all add: insertNullifierWithTx_def)
  have "\<exists>s'. on_zswap_event b (Nullifier_event n tx) s = Inr s' \<and> isNullifierSpent n (ix_db s')
      \<and> db_offers (ix_db s') = filter (\<lambda>r. (of_id r, n) \<notin> set (db_offerNullifiers (ix_db s))) (db_offers (ix_db s))
      \<and> db_history (ix_db s') = db_history (ix_db s) @ map (\<lambda>r. offer_row.extend r
          \<lparr>hi_reason = CONSUMED, hi_archivedMs = bk_timestamp b, hi_settled = None\<rparr>)
          (filter (\<lambda>r. (of_id r, n) \<in> set (db_offerNullifiers (ix_db s))) (db_offers (ix_db s)))
      \<and> ix_events s' = ix_events s @ map (\<lambda>r. (bk_height b, Offer_consumed (of_id r) (of_hash r) (By_nullifier n)))
          (filter (\<lambda>r. (of_id r, n) \<in> set (db_offerNullifiers (ix_db s))) (db_offers (ix_db s)))"
    using consumed_nullifier(1) [OF ok, where n = n and h = "bk_height b" and tx = "tx_hash_of tx" and t = "bk_timestamp b"]
    by (simp add: on_zswap_event_def fields_after 1 isNullifierSpent_iff comp_def)
  moreover have "\<exists>s'. on_unshielded_spend env b p s = Inr s' \<and> \<not> isUnshieldedCreated ref (ix_db s')
          \<and> db_offers (ix_db s') = filter (\<lambda>r. (of_id r, ref) \<notin> set (db_offerSpends (ix_db s))) (db_offers (ix_db s))
          \<and> db_history (ix_db s') = db_history (ix_db s) @ map (\<lambda>r. offer_row.extend r
              \<lparr>hi_reason = CONSUMED, hi_archivedMs = bk_timestamp b, hi_settled = None\<rparr>)
              (filter (\<lambda>r. (of_id r, ref) \<in> set (db_offerSpends (ix_db s))) (db_offers (ix_db s)))
          \<and> ix_events s' = ix_events s @ map (\<lambda>r. (bk_height b, Offer_consumed (of_id r) (of_hash r) (By_spend ref)))
              (filter (\<lambda>r. (of_id r, ref) \<in> set (db_offerSpends (ix_db s))) (db_offers (ix_db s)))"
    if "payload_ref env p = Some ref" for ref
  proof -
    let ?d = "deleteCreatedUnshielded ref (insertUnshieldedSpend ref (tx_hash_of (up_txHash p)) (bk_height b) (ix_db s))"
    have 2: "db_offers ?d = db_offers (ix_db s)" "db_history ?d = db_history (ix_db s)" "db_created ?d = db_created (deleteCreatedUnshielded ref (ix_db s))"
      by (simp_all add: deleteCreatedUnshielded_def insertUnshieldedSpend_def)
    show ?thesis
      using consumed_spend(1) [OF ok, where ref = ref and h = "bk_height b" and tx = "tx_hash_of (up_txHash p)" and t = "bk_timestamp b"] that
      by (simp add: on_unshielded_spend_def fields_after 2 isUnshieldedCreated_iff comp_def)
  qed
  ultimately show ?thesis by (auto simp: on_unshielded_spend_def split: option.splits)
qed

lemma consumption_archives_witness:
  "\<exists>s'. on_zswap_event (sample_block 3) (Nullifier_event (toHex sample_nullifier) None) sample_indexed = Inr s'
     \<and> db_offers (ix_db s') = [] \<and> length (db_history (ix_db s')) = 1"
proof -
  obtain r where r: "db_offers (ix_db sample_indexed) = [r]" "of_id r = 1"
    using sample_book(1) by (cases "db_offers (ix_db sample_indexed)") auto
  have h: "db_history (ix_db sample_indexed) = []"
    by (simp add: sample_indexed_def saved_state_def saved_fields sample_rooted_def empty_index_def empty_db_def)
  show ?thesis
  proof (rule exE [OF conjunct1 [OF consumption_archives [OF sample_index_run, of "sample_block 3" "toHex sample_nullifier" None]]])
    fix s'
    assume a: "on_zswap_event (sample_block 3) (Nullifier_event (toHex sample_nullifier) None) sample_indexed = Inr s'
      \<and> isNullifierSpent (toHex sample_nullifier) (ix_db s')
      \<and> db_offers (ix_db s') = filter (\<lambda>r. (of_id r, toHex sample_nullifier) \<notin> set (db_offerNullifiers (ix_db sample_indexed)))
          (db_offers (ix_db sample_indexed))
      \<and> db_history (ix_db s') = db_history (ix_db sample_indexed) @ map (\<lambda>r. offer_row.extend r
          \<lparr>hi_reason = CONSUMED, hi_archivedMs = bk_timestamp (sample_block 3), hi_settled = None\<rparr>)
          (filter (\<lambda>r. (of_id r, toHex sample_nullifier) \<in> set (db_offerNullifiers (ix_db sample_indexed))) (db_offers (ix_db sample_indexed)))
      \<and> ix_events s' = ix_events sample_indexed @ map (\<lambda>r. (bk_height (sample_block 3),
          Offer_consumed (of_id r) (of_hash r) (By_nullifier (toHex sample_nullifier))))
          (filter (\<lambda>r. (of_id r, toHex sample_nullifier) \<in> set (db_offerNullifiers (ix_db sample_indexed))) (db_offers (ix_db sample_indexed)))"
    then show ?thesis unfolding r(1) h using r(2) sample_book(3) by (intro exI [of _ s']) simp
  qed
qed

text \<open>C27: the clean-up scheduled for a live offer does its work: at a block at or after the offer's
  own expiry it moves exactly that offer to the archive as expired and announces it, and run early it
  changes nothing.\<close>

theorem cleanup_archives:
  assumes "index_run lg env s" and "r \<in> set (db_offers (ix_db s))" and "valid_date (bk_timestamp b)"
  shows "\<exists>e s'. of_expiresMs r = Some e \<and> (e, of_id r) \<in> set (db_scheduled (ix_db s))
     \<and> archiveOfferAtExpiry b (of_id r) s = Inr s'
     \<and> (if e \<le> bk_timestamp b
        then db_offers (ix_db s') = filter (\<lambda>q. of_id q \<noteq> of_id r) (db_offers (ix_db s))
          \<and> db_history (ix_db s') = db_history (ix_db s) @ [offer_row.extend r
              \<lparr>hi_reason = TTL, hi_archivedMs = bk_timestamp b, hi_settled = None\<rparr>]
          \<and> ix_events s' = ix_events s @ [(bk_height b, Offer_expired (of_id r) (Some (of_hash r)))]
        else s' = s)"
proof -
  let ?db = "ix_db s" and ?t = "bk_timestamp b"
  have ok: "db_ok ?db" by (rule index_run_ok [OF assms(1)])
  then have k: "distinct (map of_id (db_offers ?db))" and c: "cleanup_scheduled ?db"
    by (simp_all add: db_ok_def book_ok_def keys_ok_def)
  obtain e where e: "of_expiresMs r = Some e" "(e, of_id r) \<in> set (db_scheduled ?db)"
    using c assms(2) unfolding cleanup_scheduled_def by blast
  have same: "q = r" if "q \<in> set (db_offers ?db)" "of_id q = of_id r" for q
    using k that assms(2) by (auto simp: distinct_map dest: inj_onD)
  define m where "m = (\<lambda>j. j = of_id r \<and> list_ex (\<lambda>q. of_id q = of_id r
    \<and> (case of_expiresMs q of None \<Rightarrow> False | Some e \<Rightarrow> e \<le> ?t)) (db_offers ?db))"
  have m: "m j \<longleftrightarrow> j = of_id r \<and> e \<le> ?t" for j
  proof -
    have "list_ex (\<lambda>q. of_id q = of_id r \<and> (case of_expiresMs q of None \<Rightarrow> False | Some e \<Rightarrow> e \<le> ?t)) (db_offers ?db) \<longleftrightarrow> e \<le> ?t"
    proof
      assume "e \<le> ?t"
      with assms(2) e(1) show "list_ex (\<lambda>q. of_id q = of_id r \<and> (case of_expiresMs q of None \<Rightarrow> False | Some e \<Rightarrow> e \<le> ?t)) (db_offers ?db)"
        unfolding list_ex_iff by (intro bexI [of _ r]) simp_all
    next
      assume "list_ex (\<lambda>q. of_id q = of_id r \<and> (case of_expiresMs q of None \<Rightarrow> False | Some e \<Rightarrow> e \<le> ?t)) (db_offers ?db)"
      then obtain q where q: "q \<in> set (db_offers ?db)" "of_id q = of_id r" "case of_expiresMs q of None \<Rightarrow> False | Some e \<Rightarrow> e \<le> ?t"
        unfolding list_ex_iff by blast
      from q(3) show "e \<le> ?t" unfolding same [OF q(1,2)] e(1) by simp
    qed
    then show ?thesis by (simp add: m_def)
  qed
  have a: "archiveOfferByIdTtlWithHash (of_id r) ?t ?t ?db
      = Inr (map (\<lambda>q. (of_id q, of_hash q)) (filter (\<lambda>q. m (of_id q)) (db_offers ?db)), after_archive m TTL ?t ?db)"
    using expired_offer(1) [OF ok, where i = "of_id r" and t = ?t] unfolding m_def .
  have one: "filter (\<lambda>q. of_id q = of_id r) (db_offers ?db) = [r]"
    by (rule filter_unique [OF k assms(2)])
  show ?thesis
  proof (cases "e \<le> ?t")
    case True
    then have f: "filter (\<lambda>q. m (of_id q)) (db_offers ?db) = [r]" using m one by simp
    have "archiveOfferAtExpiry b (of_id r) s = Inr (emitAppEvent b (Offer_expired (of_id r) (Some (of_hash r)))
        (s\<lparr>ix_db := after_archive m TTL ?t ?db\<rparr>))"
      using assms(3) by (simp add: archiveOfferAtExpiry_def valid_time_def a f)
    with True e f m show ?thesis by (auto simp: fields_after emitAppEvent_def)
  next
    case False
    have f: "filter (\<lambda>q. m (of_id q)) (db_offers ?db) = []" "after_archive m TTL ?t ?db = ?db"
      using m False ok by (simp_all add: after_nothing)
    have "archiveOfferAtExpiry b (of_id r) s = Inr s"
      using assms(3) by (simp add: archiveOfferAtExpiry_def valid_time_def a f)
    with False e show ?thesis by auto
  qed
qed

lemma cleanup_archives_witness:
  "\<exists>r s'. db_offers (ix_db sample_indexed) = [r] \<and> archiveOfferAtExpiry (sample_block 3602) (of_id r) sample_indexed = Inr s'
     \<and> db_offers (ix_db s') = []"
proof -
  obtain r where r: "db_offers (ix_db sample_indexed) = [r]" "of_id r = 1" "of_expiresMs r = Some 3602000"
    using sample_book(1,2) by (cases "db_offers (ix_db sample_indexed)") auto
  have "valid_date (bk_timestamp (sample_block 3602))" by (simp add: valid_date_def sample_block_def)
  from cleanup_archives [OF sample_index_run _ this, of r] r show ?thesis by (auto simp: sample_block_def)
qed

lemma earliest:
  "(min b a = t) = ((t = a \<or> t = b) \<and> t \<le> a \<and> t \<le> b)"
  "(min c (min b a) = t) = ((t = a \<or> t = b \<or> t = c) \<and> t \<le> a \<and> t \<le> b \<and> t \<le> c)" for a b c t :: int
proof -
  show two: "(min b a = t) = ((t = a \<or> t = b) \<and> t \<le> a \<and> t \<le> b)" for a b t :: int
    by (cases "b \<le> a") auto
  show "(min c (min b a) = t) = ((t = a \<or> t = b \<or> t = c) \<and> t \<le> a \<and> t \<le> b \<and> t \<le> c)"
    by (cases "b \<le> a"; cases "c \<le> b"; cases "c \<le> a") auto
qed

text \<open>An offer's expiry is the earliest of the ledger limits that apply to it, root window,
  intent time-to-live and fee deadline alike; the fallback counts only when none applies, and a limit
  that applies but holds no time refuses the offer instead of being skipped.\<close>

theorem deriveOfferExpiry_earliest:
  "deriveOfferExpiry env root intent dust fallback = Inr t \<longleftrightarrow>
     (\<exists>r i d. expiryTimestamp env root = Inr r \<and> expiryTimestamp env intent = Inr i \<and> expiryTimestamp env dust = Inr d
       \<and> (if r = None \<and> i = None \<and> d = None then expiryTimestamp env fallback = Inr (Some t)
          else Some t \<in> {r, i, d} \<and> list_all (\<lambda>v. case v of None \<Rightarrow> True | Some u \<Rightarrow> t \<le> u) [r, i, d]))"
proof -
  have m: "mapR (expiryTimestamp env) [root, intent, dust] = Inr ts \<longleftrightarrow> (\<exists>r i d. expiryTimestamp env root = Inr r
      \<and> expiryTimestamp env intent = Inr i \<and> expiryTimestamp env dust = Inr d \<and> ts = [r, i, d])" for ts
    by (auto simp: bindR_eq_Inr)
  have f: "(case List.map_filter id [r, i, d] of u # rest \<Rightarrow> Inr (fold min rest u) | [] \<Rightarrow> F) = Inr t \<longleftrightarrow>
     (if r = None \<and> i = None \<and> d = None then F = Inr t
      else Some t \<in> {r, i, d} \<and> list_all (\<lambda>v. case v of None \<Rightarrow> True | Some u \<Rightarrow> t \<le> u) [r, i, d])" for r i d and F :: "int result"
  proof -
    show ?thesis
      by (cases r; cases i; cases d) (simp_all add: List.map_filter_def earliest, auto)
  qed
  have g: "bindR (expiryTimestamp env fallback) (\<lambda>t. case t of None \<Rightarrow> Inl (PlainError ''offer expiry was not derived'') | Some t \<Rightarrow> Inr t) = Inr t
      \<longleftrightarrow> expiryTimestamp env fallback = Inr (Some t)"
    by (auto simp: bindR_eq_Inr split: option.splits)
  have "deriveOfferExpiry env root intent dust fallback = Inr t \<longleftrightarrow> (\<exists>r i d. expiryTimestamp env root = Inr r
      \<and> expiryTimestamp env intent = Inr i \<and> expiryTimestamp env dust = Inr d
      \<and> (case List.map_filter id [r, i, d] of u # rest \<Rightarrow> Inr (fold min rest u)
         | [] \<Rightarrow> bindR (expiryTimestamp env fallback) (\<lambda>t. case t of
             None \<Rightarrow> Inl (PlainError ''offer expiry was not derived'') | Some t \<Rightarrow> Inr t)) = Inr t)"
    unfolding deriveOfferExpiry_def bindR_eq_Inr [of "mapR _ _"] m by blast
  then show ?thesis unfolding f g .
qed

text \<open>C26: pruning forgets no root that a later check would still accept: with the prune's cutoff or any
  later one, a root is live afterwards exactly when it was before, the chain's current root always.\<close>

theorem prune_keeps_live_roots:
  "isKnownRootLive root (max c d) (pruneKnownRoots c db) = isKnownRootLive root (max c d) db"
proof -
  have latest: "is_latest_root (pruneKnownRoots c db) r = is_latest_root db r" for r
    by (simp add: is_latest_root_def max_root_pruned)
  show ?thesis
    unfolding isKnownRootLive_def latest
    by (auto simp: list_ex_iff pruneKnownRoots_def is_latest_root_def split: option.splits)
qed

text \<open>C25: a consumed offer with no unshielded output reads as cancelled exactly when the chain proves
  that no settlement took its coins: a coin of it has no recorded spend, or two coins were spent by
  different known transactions, or one known transaction spent them all and did not create each of its
  shielded outputs. Otherwise it reads as filled; in particular where the transaction of some spend is
  not known, the outputs prove nothing and are not asked about.\<close>

theorem shielded_fill_exact:
  assumes "hi_reason h = CONSUMED" and "\<forall>(j, u) \<in> set (db_outputsHistory db). j \<noteq> of_id h"
  shows "archivedStatus db h =
    (if (\<exists>n \<in> recorded_coins db (of_id h). \<nexists>tx. spent_by db n tx)
      \<or> (\<exists>n \<in> recorded_coins db (of_id h). \<exists>n' \<in> recorded_coins db (of_id h). \<exists>t t'. t \<noteq> t'
           \<and> spent_by db n (Some t) \<and> spent_by db n' (Some t'))
      \<or> (\<exists>t. (\<exists>n \<in> recorded_coins db (of_id h). spent_by db n (Some t))
           \<and> (\<forall>n \<in> recorded_coins db (of_id h). \<forall>tx. spent_by db n tx \<longrightarrow> tx = Some t)
           \<and> (\<exists>c \<in> recorded_outputs db (of_id h). \<not> created_by db c t))
     then Cancelled_offer else Consumed_offer)"
proof -
  have "\<not> unshieldedCancelledPredicate db (of_id h)"
    using assms(2) by (auto simp: unshieldedCancelledPredicate_def list_ex_iff)
  then show ?thesis
    unfolding shielded_cancelled [symmetric] using assms(1) by (simp add: archivedStatus_def cancelledPredicate_def)
qed

definition sample_history :: history_row where
  "sample_history = offer_row.extend (new_row sample_ledger (sample_block 2) [1] 1000 3602000)
     \<lparr>hi_reason = CONSUMED, hi_archivedMs = 3000, hi_settled = None\<rparr>"

definition sample_settled :: offer_db where
  "sample_settled = empty_db\<lparr>db_history := [sample_history], db_nullifiersHistory := [(0, ''a1'')],
     db_commitmentsHistory := [(0, ''cc'')], db_nullifiers := [\<lparr>nu_nullifier = ''a1'', nu_height = 3, nu_txHash = Some ''f1'', nu_matched = True\<rparr>],
     db_commitments := [\<lparr>cm_commitment = ''cc'', cm_txHash = Some ''f1'', cm_mtIndex = None, cm_height = 3\<rparr>]\<rparr>"

lemma shielded_fill_exact_witness: "archivedStatus sample_settled sample_history = Consumed_offer"
proof -
  have f: "hi_reason sample_history = CONSUMED" "of_id sample_history = 0"
    by (simp_all add: sample_history_def new_row_def)
  have d: "\<forall>(j, u) \<in> set (db_outputsHistory sample_settled). j \<noteq> of_id sample_history"
    by (simp add: sample_settled_def empty_db_def)
  have c: "recorded_coins sample_settled 0 = {''a1''}" "recorded_outputs sample_settled 0 = {''cc''}"
    "spent_by sample_settled ''a1'' tx \<longleftrightarrow> tx = Some ''f1''" "created_by sample_settled ''cc'' ''f1''" for tx
    by (auto simp: recorded_coins_def recorded_outputs_def spent_by_def created_by_def sample_settled_def empty_db_def)
  show ?thesis unfolding shielded_fill_exact [OF f(1) d] f(2) c(1,2) using c(3,4) by auto
qed

end
