(* ===== verification/Event_Bus.thy ===== *)
theory Event_Bus
  imports Prelude
begin

text \<open>
  Model of \<^verbatim>\<open>packages/node/event-bus.ts\<close>: the gate that publishes an event of the state machine only
  once another connection has seen its block committed. A height that is not a finite number is
  \<open>None\<close>. What is published is the list of events the in-process consumers are called with.
\<close>

section \<open>The gate\<close>

record app_message =
  am_type :: string
  am_offerHash :: "string option"
  am_offerId :: "int option"
  am_color :: "string option"
  am_payload :: json

type_synonym pending_event = "int \<times> string \<times> app_message"

record event_gate =
  eg_pending :: "pending_event list"
  eg_committed :: int
  eg_published :: "app_message list"

definition empty_gate :: event_gate where
  "empty_gate = \<lparr>eg_pending = [], eg_committed = - 1, eg_published = []\<rparr>"

definition event_subject :: "app_message \<Rightarrow> string" where
  "event_subject e = (case am_offerHash e of
     Some (c # cs) \<Rightarrow> c # cs
   | _ \<Rightarrow> (case am_offerId e of
        Some n \<Rightarrow> bigint_to_string n
      | None \<Rightarrow> (case am_color e of Some c \<Rightarrow> c | None \<Rightarrow> [])))"

definition identity :: "app_message \<Rightarrow> string" where
  "identity e = am_type e @ '':'' @ event_subject e"

text \<open>The loop runs from the last pending entry to the first, cutting out what is ready.\<close>

fun flush_loop :: "int \<Rightarrow> nat \<Rightarrow> pending_event list \<times> pending_event list \<Rightarrow> pending_event list \<times> pending_event list" where
  "flush_loop committed 0 (pending, ready) = (pending, ready)"
| "flush_loop committed (Suc i) (pending, ready) =
     (if fst (pending ! i) \<le> committed
      then flush_loop committed i (take i pending @ drop (Suc i) pending, pending ! i # ready)
      else flush_loop committed i (pending, ready))"

definition flush_gate :: "event_gate \<Rightarrow> event_gate" where
  "flush_gate g =
     (let (pending, ready) = flush_loop (eg_committed g) (length (eg_pending g)) (eg_pending g, [])
      in g\<lparr>eg_pending := pending, eg_published := eg_published g @ map (\<lambda>(h, k, e). e) ready\<rparr>)"

definition emit_app_event :: "app_message \<Rightarrow> int option \<Rightarrow> event_gate \<Rightarrow> event_gate" where
  "emit_app_event e atHeight g = (case atHeight of
     None \<Rightarrow> g\<lparr>eg_published := eg_published g @ [e]\<rparr>
   | Some h \<Rightarrow>
       if h \<le> eg_committed g then g\<lparr>eg_published := eg_published g @ [e]\<rparr>
       else if list_ex (\<lambda>(h', k, _). h' = h \<and> k = identity e) (eg_pending g) then g
       else g\<lparr>eg_pending := eg_pending g @ [(h, identity e, e)]\<rparr>)"

definition markBlockCommitted :: "int option \<Rightarrow> event_gate \<Rightarrow> event_gate" where
  "markBlockCommitted height g = (case height of
     None \<Rightarrow> g
   | Some h \<Rightarrow> if h \<le> eg_committed g then g else flush_gate (g\<lparr>eg_committed := h\<rparr>))"

definition pendingEventCount :: "event_gate \<Rightarrow> int" where
  "pendingEventCount g = int (length (eg_pending g))"

datatype gate_call = Emit app_message "int option" | Committed "int option"

fun gate_step :: "gate_call \<Rightarrow> event_gate \<Rightarrow> event_gate" where
  "gate_step (Emit e h) g = emit_app_event e h g"
| "gate_step (Committed h) g = markBlockCommitted h g"

definition run_gate :: "gate_call list \<Rightarrow> event_gate" where
  "run_gate calls = fold gate_step calls empty_gate"

section \<open>What it promises\<close>

lemma flush_loop_filter:
  "i \<le> length pending \<Longrightarrow> flush_loop c i (pending, ready) =
     (filter (\<lambda>p. c < fst p) (take i pending) @ drop i pending,
      filter (\<lambda>p. fst p \<le> c) (take i pending) @ ready)"
proof (induction i arbitrary: pending ready)
  case (Suc i)
  have t: "take (Suc i) pending = take i pending @ [pending ! i]" using Suc.prems by (simp add: take_Suc_conv_app_nth)
  show ?case
  proof (cases "fst (pending ! i) \<le> c")
    case True
    let ?p = "take i pending @ drop (Suc i) pending"
    have "i \<le> length ?p" "take i ?p = take i pending" "drop i ?p = drop (Suc i) pending" using Suc.prems by simp_all
    with Suc.IH [of ?p] True show ?thesis by (simp add: t)
  next
    case False
    have "drop i pending = pending ! i # drop (Suc i) pending" using Suc.prems by (simp add: Cons_nth_drop_Suc)
    with Suc.IH [of pending] Suc.prems False show ?thesis by (simp add: t)
  qed
qed simp

lemma flush_gate_eq: "flush_gate g = g\<lparr>eg_pending := filter (\<lambda>p. eg_committed g < fst p) (eg_pending g),
    eg_published := eg_published g @ map (\<lambda>(h, k, e). e) (filter (\<lambda>p. fst p \<le> eg_committed g) (eg_pending g))\<rparr>"
  by (simp add: flush_gate_def flush_loop_filter)

text \<open>The specification speaks of the calls alone. The highest block reported by some calls; the events
  that had to wait: those produced by a block above every block reported before them, the first of
  its kind and subject for that block; and what one more call publishes.\<close>

definition seen_block :: "gate_call list \<Rightarrow> int" where
  "seen_block calls = Max (insert (- 1) {h. Committed (Some h) \<in> set calls})"

definition emitted :: "gate_call list \<Rightarrow> int \<Rightarrow> string \<Rightarrow> bool" where
  "emitted calls h k \<longleftrightarrow> (\<exists>e. Emit e (Some h) \<in> set calls \<and> identity e = k)"

definition had_to_wait :: "gate_call list \<Rightarrow> gate_call \<Rightarrow> (int \<times> app_message) list" where
  "had_to_wait before call = (case call of
     Emit e (Some h) \<Rightarrow> if seen_block before < h \<and> \<not> emitted before h (identity e) then [(h, e)] else []
   | _ \<Rightarrow> [])"

definition waited :: "gate_call list \<Rightarrow> (int \<times> app_message) list" where
  "waited calls = concat (map (\<lambda>i. had_to_wait (take i calls) (calls ! i)) [0..<length calls])"

definition due :: "gate_call list \<Rightarrow> gate_call \<Rightarrow> app_message list" where
  "due before call = (case call of
     Emit e None \<Rightarrow> [e]
   | Emit e (Some h) \<Rightarrow> if h \<le> seen_block before then [e] else []
   | Committed None \<Rightarrow> []
   | Committed (Some c) \<Rightarrow> map snd (filter (\<lambda>p. seen_block before < fst p \<and> fst p \<le> c) (waited before)))"

lemma concat_takes_snoc:
  "concat (map (\<lambda>i. f (take i (xs @ [x])) ((xs @ [x]) ! i)) [0..<length (xs @ [x])]) =
     concat (map (\<lambda>i. f (take i xs) (xs ! i)) [0..<length xs]) @ f xs x"
proof -
  have "map (\<lambda>i. f (take i (xs @ [x])) ((xs @ [x]) ! i)) [0..<length xs] =
      map (\<lambda>i. f (take i xs) (xs ! i)) [0..<length xs]"
    by (simp add: nth_append)
  moreover have "take (length xs) (xs @ [x]) = xs" by simp
  ultimately show ?thesis by (simp del: take_append map_eq_conv)
qed

lemma waited_snoc: "waited (calls @ [call]) = waited calls @ had_to_wait calls call"
  unfolding waited_def by (rule concat_takes_snoc)

lemma finite_reports: "finite {h. Committed (Some h) \<in> set calls}"
proof -
  have "{h. Committed (Some h) \<in> set calls} \<subseteq>
      (\<lambda>call. case call of Committed (Some h) \<Rightarrow> h | _ \<Rightarrow> 0) ` set calls"
    by force
  then show ?thesis by (rule finite_subset) simp
qed

lemma seen_snoc: "seen_block (calls @ [call]) = (case call of
     Committed (Some h) \<Rightarrow> max h (seen_block calls) | _ \<Rightarrow> seen_block calls)"
proof -
  have eq: "{h. Committed (Some h) \<in> set (calls @ [call])} = (case call of
      Committed (Some h) \<Rightarrow> insert h {h. Committed (Some h) \<in> set calls} | _ \<Rightarrow> {h. Committed (Some h) \<in> set calls})"
    by (auto split: gate_call.splits option.splits)
  show ?thesis
    unfolding seen_block_def eq using finite_reports [of calls]
    by (auto simp: insert_commute [of "- 1"] split: gate_call.splits option.splits)
qed

lemma emitted_snoc: "emitted (calls @ [call]) h k \<longleftrightarrow>
    emitted calls h k \<or> (\<exists>e. call = Emit e (Some h) \<and> identity e = k)"
  by (auto simp: emitted_def)

text \<open>What waits above the highest reported block was emitted, and nothing else was.\<close>

lemma waited_iff: "seen_block calls < h \<Longrightarrow>
    (\<exists>e. (h, e) \<in> set (waited calls) \<and> identity e = k) \<longleftrightarrow> emitted calls h k"
proof (induction calls rule: rev_induct)
  case Nil
  then show ?case by (simp add: waited_def emitted_def)
next
  case (snoc call calls)
  have below: "seen_block calls < h"
    using snoc.prems by (auto simp: seen_snoc split: gate_call.splits option.splits)
  show ?case
    using snoc.IH [OF below] below
    by (auto simp: waited_snoc emitted_snoc had_to_wait_def split: gate_call.splits option.splits if_splits)
qed

text \<open>A pending entry: what waits, with its key.\<close>

definition entry_of :: "int \<times> app_message \<Rightarrow> pending_event" where
  "entry_of p = (fst p, identity (snd p), snd p)"

definition gate_inv :: "event_gate \<Rightarrow> gate_call list \<Rightarrow> bool" where
  "gate_inv g calls \<longleftrightarrow> eg_committed g = seen_block calls
     \<and> eg_pending g = map entry_of (filter (\<lambda>p. seen_block calls < fst p) (waited calls))"

lemma entries_filter:
  "filter (\<lambda>p. fst p \<le> c) (map entry_of ps) = map entry_of (filter (\<lambda>p. fst p \<le> c) ps)"
  "filter (\<lambda>p. c < fst p) (map entry_of ps) = map entry_of (filter (\<lambda>p. c < fst p) ps)"
  by (simp_all add: filter_map comp_def entry_of_def)

lemma entries_events: "map (\<lambda>(h, k, e). e) (map entry_of ps) = map snd ps"
  by (simp add: entry_of_def comp_def)

lemma entries_blocks: "map (\<lambda>(h, k, e). (h, e)) (map entry_of ps) = ps"
  by (simp add: entry_of_def comp_def)

lemma pending_dup:
  assumes "gate_inv g calls" "seen_block calls < h"
  shows "list_ex (\<lambda>(h', k, _). h' = h \<and> k = identity e) (eg_pending g) \<longleftrightarrow> emitted calls h (identity e)"
  unfolding waited_iff [OF assms(2), symmetric] using assms
  by (force simp: gate_inv_def list_ex_iff entry_of_def)

lemma emit_inv:
  assumes "gate_inv g calls"
  shows "gate_inv (emit_app_event e height g) (calls @ [Emit e height])
    \<and> eg_published (emit_app_event e height g) = eg_published g @ due calls (Emit e height)"
proof (cases height)
  case None
  then show ?thesis
    using assms by (simp add: gate_inv_def emit_app_event_def seen_snoc waited_snoc had_to_wait_def due_def)
next
  case (Some h)
  show ?thesis
  proof (cases "h \<le> seen_block calls")
    case True
    then show ?thesis
      using assms Some by (simp add: gate_inv_def emit_app_event_def seen_snoc waited_snoc had_to_wait_def due_def)
  next
    case False
    then have "seen_block calls < h" by simp
    with pending_dup [OF assms this] show ?thesis
      using assms Some
      by (simp add: gate_inv_def emit_app_event_def seen_snoc waited_snoc had_to_wait_def due_def entry_of_def)
  qed
qed

lemma commit_inv:
  assumes "gate_inv g calls"
  shows "gate_inv (markBlockCommitted height g) (calls @ [Committed height])
    \<and> eg_published (markBlockCommitted height g) = eg_published g @ due calls (Committed height)"
proof (cases height)
  case None
  then show ?thesis
    using assms by (simp add: gate_inv_def markBlockCommitted_def seen_snoc waited_snoc had_to_wait_def due_def)
next
  case (Some c)
  show ?thesis
  proof (cases "c \<le> seen_block calls")
    case True
    then have none: "filter (\<lambda>p. seen_block calls < fst p \<and> fst p \<le> c) (waited calls) = []" and m: "max c (seen_block calls) = seen_block calls"
      by (auto simp: filter_empty_conv)
    then show ?thesis
      using assms Some True
      by (simp add: gate_inv_def markBlockCommitted_def seen_snoc waited_snoc had_to_wait_def due_def)
  next
    case False
    then have m: "max c (seen_block calls) = c"
      and left: "filter (\<lambda>p. c < fst p) (filter (\<lambda>p. seen_block calls < fst p) (waited calls)) =
        filter (\<lambda>p. c < fst p) (waited calls)"
      and gone: "filter (\<lambda>p. fst p \<le> c) (filter (\<lambda>p. seen_block calls < fst p) (waited calls)) =
        filter (\<lambda>p. seen_block calls < fst p \<and> fst p \<le> c) (waited calls)"
      by (auto intro!: filter_cong)
    show ?thesis
      using assms Some False
      by (simp add: gate_inv_def markBlockCommitted_def flush_gate_eq entries_filter entries_events left gone
          seen_snoc waited_snoc had_to_wait_def due_def m del: filter_filter list.map_comp map_map)
  qed
qed

lemma run_gate_exact:
  "gate_inv (run_gate calls) calls \<and>
   eg_published (run_gate calls) = concat (map (\<lambda>i. due (take i calls) (calls ! i)) [0..<length calls])"
proof (induction calls rule: rev_induct)
  case Nil
  show ?case by (simp add: run_gate_def empty_gate_def gate_inv_def seen_block_def waited_def)
next
  case (snoc call calls)
  have run: "run_gate (calls @ [call]) = gate_step call (run_gate calls)" by (simp add: run_gate_def)
  show ?case
    unfolding concat_takes_snoc run using snoc.IH emit_inv commit_inv by (cases call) auto
qed

text \<open>C24:
  The event gate publishes each event once, in order, and what a block produced only once that block was
  reported committed. After any calls, the consumers have been called with exactly this, in this order:
  for each emission without a block, or with a block at or below one reported before it, that event; and
  for each report, the events that were waiting for a block above the earlier reports and at or below
  this one, in the order they were produced. An event waits when its block is above every block reported
  before it and the same block has not produced its kind and subject already, so that a retried block
  adds nothing. What is not published yet is pending, in order.\<close>

theorem event_gate_exact:
  "eg_published (run_gate calls) = concat (map (\<lambda>i. due (take i calls) (calls ! i)) [0..<length calls])
   \<and> map (\<lambda>(h, k, e). (h, e)) (eg_pending (run_gate calls)) = filter (\<lambda>p. seen_block calls < fst p) (waited calls)"
  using run_gate_exact [of calls] by (simp add: gate_inv_def entries_blocks del: map_map)

end
