(* ===== verification/Update_Stream.thy ===== *)
theory Update_Stream
  imports Receipt_Contract Complex_Main
begin

text \<open>
  Model of the offer update stream, from the backend to the solver: the wire contract
  (\<^verbatim>\<open>packages/solver-core/offer-updates-contract.ts\<close>), the server's subscription
  (\<^verbatim>\<open>packages/node/offer-updates-stream.ts\<close>) and the client's subscription and reconnect loop
  (\<^verbatim>\<open>openOfferUpdatesStream\<close> in \<^verbatim>\<open>packages/solver-core/api-client.ts\<close>). A text frame is its length in
  code units, its length in bytes, and what \<open>JSON.parse\<close> makes of it. Whatever the network does with
  the server's frames, the client hands on a prefix of what the server published.
\<close>

section \<open>The wire contract\<close>

definition OFFER_UPDATES_PROTOCOL :: string where
  "OFFER_UPDATES_PROTOCOL = ''offer-updates-v1''"

definition OFFER_UPDATES_PATH :: string where
  "OFFER_UPDATES_PATH = ''/v1/offers/updates''"

definition OFFER_UPDATES_SCHEMA_VERSION :: int where
  "OFFER_UPDATES_SCHEMA_VERSION = 1"

definition OFFER_UPDATES_READY_SEQ :: int where
  "OFFER_UPDATES_READY_SEQ = 0"

definition MAX_OFFER_UPDATES_FRAME_BYTES :: int where
  "MAX_OFFER_UPDATES_FRAME_BYTES = 64 * 1024"

definition MAX_U64_TOKEN :: string where
  "MAX_U64_TOKEN = ''18446744073709551615''"

datatype offer_updates_frame =
  Ready_frame string int "string option"
| Update_frame string int int json

definition stream_id_ok :: "string \<Rightarrow> bool" where
  "stream_id_ok s \<longleftrightarrow> length s = 32 \<and> list_all is_lower_hex_digit s"

definition hasExactKeys :: "json \<Rightarrow> string list \<Rightarrow> bool" where
  "hasExactKeys value keys \<longleftrightarrow> length (js_keys value) = length keys \<and> list_all (\<lambda>k. k \<in> set (js_keys value)) keys"

definition epoch_ms :: "json \<Rightarrow> int option" where
  "epoch_ms value = (case value of
     JNum (Integral n) \<Rightarrow> if is_safe_integer n \<and> 0 \<le> n then Some n else None
   | _ \<Rightarrow> None)"

text \<open>The outer \<open>None\<close> is \<open>undefined\<close>, a refusal; the inner one is \<open>null\<close>.\<close>

definition parseBlockL2Height :: "json \<Rightarrow> string option option" where
  "parseBlockL2Height value = (case value of
     JNull \<Rightarrow> Some None
   | JStr s \<Rightarrow>
       if \<not> positive_decimal s then None
       else if length s > length MAX_U64_TOKEN then None
       else if length s = length MAX_U64_TOKEN \<and> MAX_U64_TOKEN < s then None
       else Some (Some s)
   | _ \<Rightarrow> None)"

definition heightAtLeast :: "string \<Rightarrow> string \<Rightarrow> bool" where
  "heightAtLeast observed bound =
     (if length observed \<noteq> length bound then length bound < length observed else bound \<le> observed)"

definition parseEventPayload :: "json \<Rightarrow> json option" where
  "parseEventPayload value =
     (if \<not> isRecord value then None
      else case js_get value ''type'' of
        JStr t \<Rightarrow> if t = [] \<or> epoch_ms (js_get value ''timestamp'') = None then None else Some value
      | _ \<Rightarrow> None)"

definition READY_KEYS :: "string list" where
  "READY_KEYS = [''protocol'', ''schemaVersion'', ''type'', ''streamId'', ''seq'', ''ts'', ''blockL2Height'']"

definition UPDATE_KEYS :: "string list" where
  "UPDATE_KEYS = [''protocol'', ''schemaVersion'', ''type'', ''streamId'', ''seq'', ''ts'', ''event'']"

definition parse_ready :: "json \<Rightarrow> string \<Rightarrow> int \<Rightarrow> offer_updates_frame option" where
  "parse_ready value streamId ts =
     (if \<not> hasExactKeys value READY_KEYS then None
      else if js_get value ''seq'' \<noteq> JNum (Integral OFFER_UPDATES_READY_SEQ) then None
      else map_option (Ready_frame streamId ts) (parseBlockL2Height (js_get value ''blockL2Height'')))"

definition parse_update :: "json \<Rightarrow> string \<Rightarrow> int \<Rightarrow> offer_updates_frame option" where
  "parse_update value streamId ts =
     (if \<not> hasExactKeys value UPDATE_KEYS then None
      else case js_get value ''seq'' of
        JNum (Integral seq) \<Rightarrow>
          if \<not> is_safe_integer seq \<or> seq \<le> OFFER_UPDATES_READY_SEQ then None
          else map_option (Update_frame streamId seq ts) (parseEventPayload (js_get value ''event''))
      | _ \<Rightarrow> None)"

definition parseOfferUpdatesFrame :: "json \<Rightarrow> offer_updates_frame option" where
  "parseOfferUpdatesFrame value =
     (if \<not> isRecord value then None
      else if js_get value ''protocol'' \<noteq> JStr OFFER_UPDATES_PROTOCOL then None
      else if js_get value ''schemaVersion'' \<noteq> JNum (Integral OFFER_UPDATES_SCHEMA_VERSION) then None
      else case (js_get value ''streamId'', epoch_ms (js_get value ''ts'')) of
        (JStr streamId, Some ts) \<Rightarrow>
          if \<not> stream_id_ok streamId then None
          else if js_get value ''type'' = JStr ''ready'' then parse_ready value streamId ts
          else if js_get value ''type'' = JStr ''update'' then parse_update value streamId ts
          else None
      | _ \<Rightarrow> None)"

text \<open>The frame object as the code writes it, and what is left of a value after \<open>JSON.stringify\<close> and
  \<open>JSON.parse\<close>: fields that are \<open>undefined\<close> disappear, such elements of an array become \<open>null\<close>.\<close>

definition frame_json :: "offer_updates_frame \<Rightarrow> json" where
  "frame_json frame = (case frame of
     Ready_frame streamId ts height \<Rightarrow> JObj [(''protocol'', JStr OFFER_UPDATES_PROTOCOL),
       (''schemaVersion'', JNum (Integral OFFER_UPDATES_SCHEMA_VERSION)), (''type'', JStr ''ready''),
       (''streamId'', JStr streamId), (''seq'', JNum (Integral OFFER_UPDATES_READY_SEQ)),
       (''ts'', JNum (Integral ts)), (''blockL2Height'', case height of None \<Rightarrow> JNull | Some h \<Rightarrow> JStr h)]
   | Update_frame streamId seq ts event \<Rightarrow> JObj [(''protocol'', JStr OFFER_UPDATES_PROTOCOL),
       (''schemaVersion'', JNum (Integral OFFER_UPDATES_SCHEMA_VERSION)), (''type'', JStr ''update''),
       (''streamId'', JStr streamId), (''seq'', JNum (Integral seq)),
       (''ts'', JNum (Integral ts)), (''event'', event)])"

fun wire_value :: "json \<Rightarrow> json" where
  "wire_value (JObj fs) = JObj (concat (map (\<lambda>(k, v). if v = JUndefined then [] else [(k, wire_value v)]) fs))"
| "wire_value (JArr xs) = JArr (map (\<lambda>x. if x = JUndefined then JNull else wire_value x) xs)"
| "wire_value v = v"

datatype wire_data = Not_text | Text int int "json option"

record frame_text =
  jt_length :: "json \<Rightarrow> int"
  jt_bytes :: "json \<Rightarrow> int"

definition encodeOfferUpdatesFrame :: "frame_text \<Rightarrow> offer_updates_frame \<Rightarrow> wire_data result" where
  "encodeOfferUpdatesFrame jt frame =
     (let value = frame_json frame in
      if parseOfferUpdatesFrame value = None
      then Inl (TypeError ''refusing to emit a noncanonical offer-updates frame'')
      else Inr (Text (jt_length jt value) (jt_bytes jt value) (Some (wire_value value))))"

definition decodeOfferUpdatesFrame :: "json option \<Rightarrow> offer_updates_frame option" where
  "decodeOfferUpdatesFrame parsed = (case parsed of None \<Rightarrow> None | Some value \<Rightarrow> parseOfferUpdatesFrame value)"

definition followsInSequence :: "string \<times> int \<Rightarrow> string \<times> int \<Rightarrow> bool" where
  "followsInSequence previous next \<longleftrightarrow> fst next = fst previous \<and> snd next = snd previous + 1"

section \<open>The server's subscription\<close>

definition MAX_OFFER_UPDATES_BUFFERED_BYTES :: int where
  "MAX_OFFER_UPDATES_BUFFERED_BYTES = 1024 * 1024"

record update_subscription =
  us_streamId :: string
  us_seq :: int
  us_starting :: bool
  us_listening :: bool
  us_pinging :: bool
  us_awaitingPong :: bool
  us_closed :: bool
  us_sent :: "wire_data list"

text \<open>What the socket answers while one frame is written: whether it is open, whether \<open>send\<close> throws, and
  its backlog afterwards.\<close>

record socket_answer =
  sa_open :: bool
  sa_throws :: bool
  sa_buffered :: int

definition new_subscription :: "string \<Rightarrow> update_subscription" where
  "new_subscription streamId = \<lparr>us_streamId = streamId, us_seq = OFFER_UPDATES_READY_SEQ, us_starting = True, us_listening = False,
     us_pinging = False, us_awaitingPong = False, us_closed = False, us_sent = []\<rparr>"

text \<open>\<open>cleanup\<close>, which \<open>endSubscription\<close> runs before it destroys the connection.\<close>

definition subscription_cleanup :: "update_subscription \<Rightarrow> update_subscription" where
  "subscription_cleanup s = s\<lparr>us_closed := True, us_listening := False, us_pinging := False\<rparr>"

definition send_frame :: "frame_text \<Rightarrow> socket_answer \<Rightarrow> offer_updates_frame \<Rightarrow> update_subscription
    \<Rightarrow> bool \<times> update_subscription" where
  "send_frame jt sock frame s =
     (if us_closed s \<or> \<not> sa_open sock then (False, subscription_cleanup s)
      else case encodeOfferUpdatesFrame jt frame of
        Inl _ \<Rightarrow> (False, subscription_cleanup s)
      | Inr data \<Rightarrow>
          if jt_bytes jt (frame_json frame) > MAX_OFFER_UPDATES_FRAME_BYTES then (False, subscription_cleanup s)
          else if sa_throws sock then (False, subscription_cleanup s)
          else (let s1 = s\<lparr>us_sent := us_sent s @ [data]\<rparr> in
            if sa_buffered sock > MAX_OFFER_UPDATES_BUFFERED_BYTES then (False, subscription_cleanup s1)
            else (True, s1)))"

text \<open>The \<open>timestamp\<close> is written over whatever the event carries.\<close>

definition stamped :: "json \<Rightarrow> int \<Rightarrow> json" where
  "stamped event now = JObj (AList.update ''timestamp'' (JNum (Integral now)) (case event of JObj fs \<Rightarrow> fs | _ \<Rightarrow> []))"

definition anchor_token :: "json \<Rightarrow> string option" where
  "anchor_token height =
     (let token = (case height of JNum (Integral n) \<Rightarrow> bigint_to_string n | JStr s \<Rightarrow> s | _ \<Rightarrow> [])
      in if positive_decimal token then Some token else None)"

datatype subscription_input =
  Anchor_read socket_answer "json option" int
| Bus_event json int int socket_answer
| Ping_due bool
| Pong
| Peer_message
| Peer_gone
| Shut_down

definition subscribe :: "frame_text \<Rightarrow> socket_answer \<Rightarrow> json option \<Rightarrow> int \<Rightarrow> update_subscription \<Rightarrow> update_subscription" where
  "subscribe jt sock row now s =
     (if \<not> us_starting s then s
      else if us_closed s \<or> \<not> sa_open sock then subscription_cleanup (s\<lparr>us_starting := False\<rparr>)
      else (let height = (case row of None \<Rightarrow> None | Some value \<Rightarrow> anchor_token value);
                (sent, s1) = send_frame jt sock (Ready_frame (us_streamId s) now height) (s\<lparr>us_starting := False, us_listening := True\<rparr>)
            in if sent then s1\<lparr>us_pinging := True\<rparr> else s1))"

definition publish_event :: "frame_text \<Rightarrow> socket_answer \<Rightarrow> json \<Rightarrow> int \<Rightarrow> int \<Rightarrow> update_subscription \<Rightarrow> update_subscription" where
  "publish_event jt sock event ts now s =
     (if \<not> us_listening s then s
      else (let s1 = s\<lparr>us_seq := us_seq s + 1\<rparr>
            in snd (send_frame jt sock (Update_frame (us_streamId s) (us_seq s1) ts (stamped event now)) s1)))"

definition ping_due :: "bool \<Rightarrow> update_subscription \<Rightarrow> update_subscription" where
  "ping_due throws s =
     (if \<not> us_pinging s \<or> us_closed s then s
      else if us_awaitingPong s then subscription_cleanup s
      else if throws then subscription_cleanup (s\<lparr>us_awaitingPong := True\<rparr>)
      else s\<lparr>us_awaitingPong := True\<rparr>)"

fun subscription_step :: "frame_text \<Rightarrow> subscription_input \<Rightarrow> update_subscription \<Rightarrow> update_subscription" where
  "subscription_step jt (Anchor_read sock row now) s = subscribe jt sock row now s"
| "subscription_step jt (Bus_event event ts now sock) s = publish_event jt sock event ts now s"
| "subscription_step jt (Ping_due throws) s = ping_due throws s"
| "subscription_step jt Pong s = s\<lparr>us_awaitingPong := False\<rparr>"
| "subscription_step jt Peer_message s = subscription_cleanup s"
| "subscription_step jt Peer_gone s = subscription_cleanup s"
| "subscription_step jt Shut_down s = subscription_cleanup s"

definition run_subscription :: "frame_text \<Rightarrow> string \<Rightarrow> subscription_input list \<Rightarrow> update_subscription" where
  "run_subscription jt streamId inputs = fold (subscription_step jt) inputs (new_subscription streamId)"

text \<open>Admission of an upgrade: the path, the three headers, and the concurrency cap.\<close>

record upgrade_request =
  uq_url :: string
  uq_upgrade :: string
  uq_version :: string
  uq_key :: string

definition base64_char :: "char \<Rightarrow> bool" where
  "base64_char c \<longleftrightarrow> is_digit c \<or> (65 \<le> code_of c \<and> code_of c \<le> 90) \<or> (97 \<le> code_of c \<and> code_of c \<le> 122)
     \<or> c = CHR ''+'' \<or> c = CHR ''/''"

definition websocket_key_ok :: "string \<Rightarrow> bool" where
  "websocket_key_ok k \<longleftrightarrow> length k = 24 \<and> list_all base64_char (take 22 k) \<and> drop 22 k = ''==''"

definition onUpgrade :: "nat \<Rightarrow> nat \<Rightarrow> upgrade_request \<Rightarrow> bool" where
  "onUpgrade maxConnections openSockets request \<longleftrightarrow>
     takeWhile (\<lambda>c. c \<noteq> CHR ''?'') (uq_url request) = OFFER_UPDATES_PATH
     \<and> toLowerCase (uq_upgrade request) = ''websocket''
     \<and> uq_version request = ''13''
     \<and> websocket_key_ok (uq_key request)
     \<and> openSockets < maxConnections"

section \<open>The client's subscription\<close>

datatype stream_failure =
  Non_text_frame
| Oversized_frame
| Noncanonical_frame
| No_ready_frame
| Second_ready_frame
| Sequence_gap string int
| Ready_deadline
| Transport_error
| Unopenable

datatype stream_output =
  Opened string "string option"
| Delivered json
| Disconnected
| Failed stream_failure

record client_subscription =
  cs_settled :: bool
  cs_subscribed :: bool
  cs_previous :: "(string \<times> int) option"

definition fresh_subscription :: client_subscription where
  "fresh_subscription = \<lparr>cs_settled = False, cs_subscribed = False, cs_previous = None\<rparr>"

definition finish_subscription :: "bool \<Rightarrow> client_subscription \<Rightarrow> client_subscription \<times> stream_output list" where
  "finish_subscription stopped s =
     (if cs_settled s then (s, [])
      else (s\<lparr>cs_settled := True\<rparr>, if cs_subscribed s \<and> \<not> stopped then [Disconnected] else []))"

definition fail_subscription :: "bool \<Rightarrow> stream_failure \<Rightarrow> client_subscription \<Rightarrow> client_subscription \<times> stream_output list" where
  "fail_subscription stopped e s = (let (s1, out) = finish_subscription stopped s in (s1, Failed e # out))"

definition accept_frame :: "bool \<Rightarrow> offer_updates_frame \<Rightarrow> client_subscription \<Rightarrow> client_subscription \<times> stream_output list" where
  "accept_frame stopped frame s =
     (case (cs_previous s, frame) of
        (None, Ready_frame streamId _ height) \<Rightarrow>
          (s\<lparr>cs_previous := Some (streamId, OFFER_UPDATES_READY_SEQ), cs_subscribed := True\<rparr>, [Opened streamId height])
      | (None, Update_frame _ _ _ _) \<Rightarrow> fail_subscription stopped No_ready_frame s
      | (Some _, Ready_frame _ _ _) \<Rightarrow> fail_subscription stopped Second_ready_frame s
      | (Some previous, Update_frame streamId seq _ event) \<Rightarrow>
          if \<not> followsInSequence previous (streamId, seq) then fail_subscription stopped (Sequence_gap streamId seq) s
          else (s\<lparr>cs_previous := Some (streamId, seq)\<rparr>, [Delivered event]))"

definition receive_data :: "int \<Rightarrow> bool \<Rightarrow> wire_data \<Rightarrow> client_subscription \<Rightarrow> client_subscription \<times> stream_output list" where
  "receive_data maxFrameBytes stopped data s =
     (if cs_settled s \<or> stopped then (s, [])
      else case data of
        Not_text \<Rightarrow> fail_subscription stopped Non_text_frame s
      | Text units bytes parsed \<Rightarrow>
          if units > maxFrameBytes \<or> bytes > maxFrameBytes then fail_subscription stopped Oversized_frame s
          else (case decodeOfferUpdatesFrame parsed of
             None \<Rightarrow> fail_subscription stopped Noncanonical_frame s
           | Some frame \<Rightarrow> accept_frame stopped frame s))"

section \<open>Reconnecting\<close>

text \<open>\<open>Math.random\<close> and \<open>createWebSocket\<close> are external: the jitter and whether a socket could be made
  come with the input.\<close>

record stream_options =
  so_base :: int
  so_max :: int
  so_connectTimeoutMs :: int
  so_maxFrameBytes :: int

datatype stream_phase = Subscribing client_subscription | Backing_off int | Stream_ended

record updates_stream =
  up_stopped :: bool
  up_attempt :: nat
  up_phase :: stream_phase

datatype stream_input =
  Socket_data wire_data
| Socket_error
| Socket_closed
| Ready_due
| Backoff_over bool
| Close_stream

definition backoff_delay :: "stream_options \<Rightarrow> nat \<Rightarrow> rat \<Rightarrow> int" where
  "backoff_delay opts attempt random = \<lfloor>of_int (min (so_max opts) (so_base opts * 2 ^ attempt)) * (1 / 2 + random)\<rfloor>"

text \<open>The loop after one subscription attempt: over when stopped, otherwise a jittered pause.\<close>

definition after_subscription :: "stream_options \<Rightarrow> rat \<Rightarrow> updates_stream \<Rightarrow> updates_stream" where
  "after_subscription opts random u =
     (if up_stopped u then u\<lparr>up_phase := Stream_ended\<rparr>
      else u\<lparr>up_phase := Backing_off (backoff_delay opts (up_attempt u) random),
             up_attempt := min 30 (up_attempt u + 1)\<rparr>)"

definition subscription_result :: "stream_options \<Rightarrow> rat \<Rightarrow> updates_stream
    \<Rightarrow> client_subscription \<times> stream_output list \<Rightarrow> updates_stream \<times> stream_output list" where
  "subscription_result opts random u r =
     (if cs_settled (fst r) then (after_subscription opts random u, snd r)
      else (u\<lparr>up_phase := Subscribing (fst r)\<rparr>, snd r))"

definition start_subscription :: "stream_options \<Rightarrow> rat \<Rightarrow> bool \<Rightarrow> updates_stream \<Rightarrow> updates_stream \<times> stream_output list" where
  "start_subscription opts random creatable u =
     (if up_stopped u then (u\<lparr>up_phase := Stream_ended\<rparr>, [])
      else if \<not> creatable then (after_subscription opts random u, [Failed Unopenable])
      else (u\<lparr>up_phase := Subscribing fresh_subscription\<rparr>, []))"

text \<open>\<open>close\<close> closes the socket, whose \<open>onclose\<close> then ends the subscription, and wakes a pause.\<close>

definition stream_step :: "stream_options \<Rightarrow> rat \<Rightarrow> stream_input \<Rightarrow> updates_stream \<Rightarrow> updates_stream \<times> stream_output list" where
  "stream_step opts random input u =
     (case (input, up_phase u) of
        (Close_stream, phase) \<Rightarrow>
          (if up_stopped u then (u, [])
           else (u\<lparr>up_stopped := True,
                   up_phase := (case phase of Backing_off _ \<Rightarrow> Stream_ended | _ \<Rightarrow> phase)\<rparr>, []))
      | (Socket_data data, Subscribing s) \<Rightarrow>
          subscription_result opts random u (receive_data (so_maxFrameBytes opts) (up_stopped u) data s)
      | (Socket_error, Subscribing s) \<Rightarrow> (u, [Failed Transport_error])
      | (Socket_closed, Subscribing s) \<Rightarrow> subscription_result opts random u (finish_subscription (up_stopped u) s)
      | (Ready_due, Subscribing s) \<Rightarrow>
          (if cs_subscribed s then (u, [])
           else subscription_result opts random u (fail_subscription (up_stopped u) Ready_deadline s))
      | (Backoff_over creatable, Backing_off _) \<Rightarrow> start_subscription opts random creatable u
      | _ \<Rightarrow> (u, []))"

definition offerUpdatesUrl :: "string \<Rightarrow> string result" where
  "offerUpdatesUrl api =
     (let base = rev (dropWhile (\<lambda>c. c = CHR ''/'') (rev api)) in
      if take 8 base = ''https://'' then Inr (''wss://'' @ drop 8 base @ OFFER_UPDATES_PATH)
      else if take 7 base = ''http://'' then Inr (''ws://'' @ drop 7 base @ OFFER_UPDATES_PATH)
      else if take 5 base = ''ws://'' \<or> take 6 base = ''wss://'' then Inr (base @ OFFER_UPDATES_PATH)
      else Inl (PlainError ''malformed''))"

definition openOfferUpdatesStream :: "stream_options \<Rightarrow> string \<Rightarrow> rat \<Rightarrow> bool \<Rightarrow> (updates_stream \<times> stream_output list) result" where
  "openOfferUpdatesStream opts api random creatable =
     (if list_ex (\<lambda>v. \<not> is_safe_integer v \<or> v \<le> 0) [so_base opts, so_max opts, so_connectTimeoutMs opts, so_maxFrameBytes opts]
      then Inl (RangeError ''offer-updates option must be a positive safe integer'')
      else bindR (offerUpdatesUrl api) (\<lambda>url. Inr
        (start_subscription opts random creatable \<lparr>up_stopped = False, up_attempt = 0, up_phase = Stream_ended\<rparr>)))"

fun run_stream :: "stream_options \<Rightarrow> (stream_input \<times> rat) list \<Rightarrow> updates_stream \<times> stream_output list
    \<Rightarrow> updates_stream \<times> stream_output list" where
  "run_stream opts [] (u, out) = (u, out)"
| "run_stream opts ((input, random) # rest) (u, out) =
     (let (u1, more_out) = stream_step opts random input u in run_stream opts rest (u1, out @ more_out))"

section \<open>Heights are numbers\<close>

lemma code_digit_mono: "is_digit c \<Longrightarrow> is_digit d \<Longrightarrow> c < d \<longleftrightarrow> digit_val c < digit_val d"
  by (simp add: is_digit_def digit_val_def less_char_def) arith

lemma digits_less_iff:
  "length a = length b \<Longrightarrow> list_all is_digit a \<Longrightarrow> list_all is_digit b \<Longrightarrow>
     (a < b \<longleftrightarrow> nat_of_digits a < nat_of_digits b)"
proof (induction a arbitrary: b)
  case Nil
  then show ?case by (simp add: nat_of_digits_def)
next
  case (Cons c a)
  then obtain d b' where b: "b = d # b'" by (cases b) auto
  have d: "is_digit c" "is_digit d" "length a = length b'" "list_all is_digit a" "list_all is_digit b'"
    using Cons.prems unfolding b by auto
  have bounds: "nat_of_digits a < 10 ^ length b'" "nat_of_digits b' < 10 ^ length b'"
    using nat_of_digits_bound [OF d(4)] nat_of_digits_bound [OF d(5)] d(3) by simp_all
  note ih = Cons.IH [OF d(3-5)]
  consider "digit_val c < digit_val d" | "digit_val c = digit_val d" | "digit_val d < digit_val c" by linarith
  then show ?case
  proof cases
    case 1
    then have "(digit_val c + 1) * 10 ^ length b' \<le> digit_val d * 10 ^ length b'" by (intro mult_right_mono) simp_all
    then have "nat_of_digits (c # a) < nat_of_digits (d # b')" using bounds d(3) by (simp add: nat_of_digits_Cons)
    moreover have "c < d" using 1 code_digit_mono [OF d(1,2)] by simp
    ultimately show ?thesis by (simp add: b)
  next
    case 2
    then have "\<not> c < d" "\<not> d < c" using code_digit_mono [OF d(1,2)] code_digit_mono [OF d(2,1)] by simp_all
    then have "c = d" by (meson linorder_less_linear)
    then show ?thesis using ih d(3) by (simp add: b nat_of_digits_Cons)
  next
    case 3
    then have "(digit_val d + 1) * 10 ^ length b' \<le> digit_val c * 10 ^ length b'" by (intro mult_right_mono) simp_all
    then have "nat_of_digits (d # b') < nat_of_digits (c # a)" using bounds d(3) by (simp add: nat_of_digits_Cons)
    moreover have "d < c" using 3 code_digit_mono [OF d(2,1)] by simp
    ultimately show ?thesis by (auto simp: b)
  qed
qed

lemma leading_digit:
  assumes "positive_decimal s"
  shows "10 ^ (length s - 1) \<le> nat_of_digits s" "nat_of_digits s < 10 ^ length s"
proof -
  obtain c r where s: "s = c # r" "c \<noteq> CHR ''0''" "is_digit c" "list_all is_digit (c # r)"
    using assms by (cases s) (auto simp: positive_decimal_def)
  have "digit_val c \<noteq> 0"
  proof
    assume "digit_val c = 0"
    then have "code_of c = (code_of (CHR ''0'') :: nat)" using s(3) by (simp add: is_digit_def digit_val_def)
    with s(2) show False by (simp only: of_char_eq_iff)
  qed
  then have "1 * 10 ^ length r \<le> digit_val c * 10 ^ length r" by (intro mult_right_mono) simp_all
  then have "10 ^ length r \<le> digit_val c * 10 ^ length r + nat_of_digits r" by linarith
  then show "10 ^ (length s - 1) \<le> nat_of_digits s" by (simp add: s(1) nat_of_digits_Cons)
  show "nat_of_digits s < 10 ^ length s" using nat_of_digits_bound [OF s(4)] by (simp add: s(1))
qed

lemma heightAtLeast_iff:
  assumes "positive_decimal a" "positive_decimal b"
  shows "heightAtLeast a b \<longleftrightarrow> nat_of_digits b \<le> nat_of_digits a"
proof (cases "length a = length b")
  case True
  have "list_all is_digit a" "list_all is_digit b" using assms by (simp_all add: positive_decimal_def)
  from digits_less_iff [OF True this] have "a < b \<longleftrightarrow> nat_of_digits a < nat_of_digits b" .
  moreover have "b \<le> a \<longleftrightarrow> \<not> a < b" by auto
  ultimately show ?thesis using True by (simp add: heightAtLeast_def not_less)
next
  case False
  have less: "nat_of_digits x < nat_of_digits y"
    if "length x < length y" "positive_decimal x" "positive_decimal y" for x y
  proof -
    have "nat_of_digits x < 10 ^ length x" by (rule leading_digit(2) [OF that(2)])
    also have "\<dots> \<le> (10 :: nat) ^ (length y - 1)" using that(1) by (intro power_increasing) auto
    also have "\<dots> \<le> nat_of_digits y" by (rule leading_digit(1) [OF that(3)])
    finally show ?thesis .
  qed
  from False consider "length a < length b" | "length b < length a" by linarith
  then show ?thesis
    by cases (use False less [of a b] less [of b a] assms in \<open>simp_all add: heightAtLeast_def\<close>)
qed

section \<open>What the server puts on the wire\<close>

text \<open>A frame as the code builds it, once sent, is read back as itself, its event as the wire carries it.\<close>

definition wire_frame :: "offer_updates_frame \<Rightarrow> offer_updates_frame" where
  "wire_frame frame = (case frame of
     Ready_frame i ts h \<Rightarrow> Ready_frame i ts h | Update_frame i n ts e \<Rightarrow> Update_frame i n ts (wire_value e))"

lemma frame_json_fields [simp]:
  "isRecord (frame_json f)" "js_get (frame_json f) ''protocol'' = JStr OFFER_UPDATES_PROTOCOL"
  "js_get (frame_json f) ''schemaVersion'' = JNum (Integral OFFER_UPDATES_SCHEMA_VERSION)"
  by (cases f; simp add: frame_json_def isRecord_def)+

lemma parse_frame_json:
  "parseOfferUpdatesFrame (frame_json (Ready_frame i ts h)) =
     (if epoch_ms (JNum (Integral ts)) \<noteq> None \<and> stream_id_ok i
         \<and> parseBlockL2Height (case h of None \<Rightarrow> JNull | Some x \<Rightarrow> JStr x) \<noteq> None
      then Some (Ready_frame i ts h) else None)"
  "parseOfferUpdatesFrame (frame_json (Update_frame i n ts e)) =
     (if epoch_ms (JNum (Integral ts)) \<noteq> None \<and> stream_id_ok i \<and> is_safe_integer n \<and> 0 < n \<and> parseEventPayload e \<noteq> None
      then Some (Update_frame i n ts e) else None)"
  subgoal
    by (cases h) (auto simp: parseOfferUpdatesFrame_def frame_json_def isRecord_def epoch_ms_def parse_ready_def
        hasExactKeys_def js_keys_def READY_KEYS_def parseBlockL2Height_def)
  subgoal
    by (auto simp: parseOfferUpdatesFrame_def frame_json_def isRecord_def epoch_ms_def parse_update_def
        hasExactKeys_def js_keys_def UPDATE_KEYS_def OFFER_UPDATES_READY_SEQ_def parseEventPayload_def
        split: json.splits if_splits)
  done

lemma wire_frame_json: "wire_value (frame_json f) = frame_json (wire_frame f)" if "\<forall>i n ts. f \<noteq> Update_frame i n ts JUndefined"
  using that by (cases f) (auto simp: frame_json_def wire_frame_def split: option.split)

lemma wire_get:
  assumes "js_get (JObj fs) k = v" "v \<noteq> JUndefined"
  shows "js_get (wire_value (JObj fs)) k = wire_value v"
proof -
  have "map_of fs k = Some v" using assms by (auto split: option.splits)
  then have "map_of (concat (map (\<lambda>(k, v). if v = JUndefined then [] else [(k, wire_value v)]) fs)) k = Some (wire_value v)"
    using assms(2) by (induction fs) (auto simp: map_add_def split: if_splits option.split)
  then show ?thesis by simp
qed

lemma payload_wire:
  assumes "parseEventPayload e = Some e'"
  shows "e' = e \<and> parseEventPayload (wire_value e) = Some (wire_value e) \<and> e \<noteq> JUndefined"
proof -
  from assms obtain fs t n where e: "e = JObj fs" "js_get e ''type'' = JStr t" "t \<noteq> []"
    "js_get e ''timestamp'' = JNum (Integral n)" "is_safe_integer n" "0 \<le> n" "e' = e"
    by (auto simp: parseEventPayload_def isRecord_def epoch_ms_def split: json.splits js_number.splits if_splits)
  have "js_get (wire_value e) ''type'' = JStr t" "js_get (wire_value e) ''timestamp'' = JNum (Integral n)"
    using wire_get [of fs "''type''" "JStr t"] wire_get [of fs "''timestamp''" "JNum (Integral n)"] e by simp_all
  moreover have "isRecord (wire_value e)" by (simp add: e(1) isRecord_def)
  ultimately show ?thesis using e(1,3,5,6,7) by (simp add: parseEventPayload_def epoch_ms_def)
qed

text \<open>What is encoded decodes to the frame the wire carries.\<close>

lemma encode_decode:
  assumes "encodeOfferUpdatesFrame jt f = Inr d"
  shows "d = Text (jt_length jt (frame_json f)) (jt_bytes jt (frame_json f)) (Some (wire_value (frame_json f)))"
    and "decodeOfferUpdatesFrame (Some (wire_value (frame_json f))) = Some (wire_frame f)"
proof -
  have p: "parseOfferUpdatesFrame (frame_json f) \<noteq> None"
    and d: "d = Text (jt_length jt (frame_json f)) (jt_bytes jt (frame_json f)) (Some (wire_value (frame_json f)))"
    using assms by (auto simp: encodeOfferUpdatesFrame_def Let_def split: if_splits)
  show "d = Text (jt_length jt (frame_json f)) (jt_bytes jt (frame_json f)) (Some (wire_value (frame_json f)))" by (rule d)
  show "decodeOfferUpdatesFrame (Some (wire_value (frame_json f))) = Some (wire_frame f)"
  proof (cases f)
    case (Ready_frame i ts h)
    with p have "parseOfferUpdatesFrame (frame_json f) = Some f" by (simp add: parse_frame_json split: if_splits)
    then show ?thesis using Ready_frame by (simp add: wire_frame_json decodeOfferUpdatesFrame_def wire_frame_def)
  next
    case (Update_frame i n ts e)
    from p obtain e' where e: "parseEventPayload e = Some e'" by (auto simp: Update_frame parse_frame_json split: if_splits)
    with p payload_wire [OF e] show ?thesis
      by (auto simp: Update_frame wire_frame_json decodeOfferUpdatesFrame_def wire_frame_def parse_frame_json split: if_splits)
  qed
qed

section \<open>The server numbers what it publishes\<close>

text \<open>The events published on a subscription: those of the bus from the moment it listens.\<close>

definition bus_event :: "subscription_input \<Rightarrow> json list" where
  "bus_event x = (case x of Bus_event event ts now sock \<Rightarrow> [wire_value (stamped event now)] | _ \<Rightarrow> [])"

definition starts :: "subscription_input \<Rightarrow> bool" where
  "starts x = (case x of Anchor_read _ _ _ \<Rightarrow> True | _ \<Rightarrow> False)"

definition published :: "subscription_input list \<Rightarrow> json list" where
  "published inputs = concat (map bus_event (dropWhile (\<lambda>x. \<not> starts x) inputs))"

lemma published_Nil [simp]: "published [] = []"
  by (simp add: published_def)

lemma published_snoc: "published (inputs @ [x]) =
    (if list_ex starts inputs then published inputs @ bus_event x else [])"
  by (induction inputs) (auto simp: published_def starts_def bus_event_def split: subscription_input.split)

definition frame_from :: "string \<Rightarrow> json list \<Rightarrow> wire_data \<Rightarrow> bool" where
  "frame_from i evs d = (case d of
     Not_text \<Rightarrow> False
   | Text _ _ parsed \<Rightarrow> (case decodeOfferUpdatesFrame parsed of
        None \<Rightarrow> False
      | Some (Ready_frame j ts h) \<Rightarrow> j = i
      | Some (Update_frame j n ts e) \<Rightarrow> j = i \<and> 0 < n \<and> n \<le> int (length evs) \<and> e = evs ! nat (n - 1)))"

lemma frame_from_mono: "frame_from i evs d \<Longrightarrow> frame_from i (evs @ more_evs) d"
  by (auto simp: frame_from_def nth_append split: wire_data.splits option.splits offer_updates_frame.splits)

definition server_inv :: "string \<Rightarrow> json list \<Rightarrow> bool \<Rightarrow> update_subscription \<Rightarrow> bool" where
  "server_inv i evs started s \<longleftrightarrow> us_streamId s = i \<and> us_starting s = (\<not> started)
     \<and> (us_starting s \<longrightarrow> \<not> us_listening s \<and> us_seq s = 0)
     \<and> (us_listening s \<longrightarrow> us_seq s = int (length evs))
     \<and> (\<forall>d \<in> set (us_sent s). frame_from i evs d)"

lemma cleanup_inv: "server_inv i evs b s \<Longrightarrow> server_inv i evs b (subscription_cleanup s)"
  by (simp add: server_inv_def subscription_cleanup_def)

lemma send_frame_inv:
  assumes "server_inv i evs b s" "\<And>d. encodeOfferUpdatesFrame jt f = Inr d \<Longrightarrow> frame_from i evs d"
  shows "server_inv i evs b (snd (send_frame jt sock f s))"
proof -
  have s1: "server_inv i evs b (s\<lparr>us_sent := us_sent s @ [d]\<rparr>)" if "encodeOfferUpdatesFrame jt f = Inr d" for d
    using assms(1) assms(2) [OF that] by (auto simp: server_inv_def)
  show ?thesis
    using s1 cleanup_inv [OF assms(1)] cleanup_inv [OF s1]
    by (auto simp: send_frame_def Let_def split: sum.split)
qed

lemma encode_frame_from:
  assumes "encodeOfferUpdatesFrame jt f = Inr d"
  shows "frame_from i evs d \<longleftrightarrow> (case wire_frame f of
      Ready_frame j ts h \<Rightarrow> j = i
    | Update_frame j n ts e \<Rightarrow> j = i \<and> 0 < n \<and> n \<le> int (length evs) \<and> e = evs ! nat (n - 1))"
  unfolding encode_decode(1) [OF assms] frame_from_def wire_data.case encode_decode(2) [OF assms] by simp

lemma subscribe_inv:
  assumes "server_inv i [] False s"
  shows "server_inv i [] True (subscribe jt sock row now s)"
proof -
  have st: "us_starting s" "us_streamId s = i" using assms by (simp_all add: server_inv_def)
  have c: "server_inv i [] True (subscription_cleanup (s\<lparr>us_starting := False\<rparr>))"
    using assms by (simp add: server_inv_def subscription_cleanup_def)
  define h where "h = (case row of None \<Rightarrow> None | Some value \<Rightarrow> anchor_token value)"
  have "server_inv i [] True (s\<lparr>us_starting := False, us_listening := True\<rparr>)"
    using assms by (simp add: server_inv_def)
  then have "server_inv i [] True (snd (send_frame jt sock (Ready_frame i now h) (s\<lparr>us_starting := False, us_listening := True\<rparr>)))"
    by (rule send_frame_inv) (simp add: encode_frame_from wire_frame_def)
  then have "server_inv i [] True (case send_frame jt sock (Ready_frame i now h) (s\<lparr>us_starting := False, us_listening := True\<rparr>) of
      (sent, s1) \<Rightarrow> if sent then s1\<lparr>us_pinging := True\<rparr> else s1)"
    by (cases "send_frame jt sock (Ready_frame i now h) (s\<lparr>us_starting := False, us_listening := True\<rparr>)")
      (simp add: server_inv_def)
  with c st show ?thesis by (simp add: subscribe_def Let_def h_def)
qed

lemma publish_event_inv:
  assumes "server_inv i evs True s"
  shows "server_inv i (evs @ [wire_value (stamped event now)]) True (publish_event jt sock event ts now s)"
proof -
  let ?evs = "evs @ [wire_value (stamped event now)]"
  have sent: "\<forall>d \<in> set (us_sent s). frame_from i ?evs d"
    using assms by (auto simp: server_inv_def intro: frame_from_mono)
  show ?thesis
  proof (cases "us_listening s")
    case True
    let ?s = "s\<lparr>us_seq := us_seq s + 1\<rparr>"
    have i: "us_streamId s = i" and q: "us_seq s = int (length evs)" using assms True by (simp_all add: server_inv_def)
    have "server_inv i ?evs True ?s" using assms True sent by (simp add: server_inv_def)
    then have "server_inv i ?evs True (snd (send_frame jt sock (Update_frame i (us_seq ?s) ts (stamped event now)) ?s))"
    proof (rule send_frame_inv)
      fix d
      assume "encodeOfferUpdatesFrame jt (Update_frame i (us_seq ?s) ts (stamped event now)) = Inr d"
      from encode_frame_from [OF this, of i ?evs] show "frame_from i ?evs d" by (simp add: wire_frame_def q)
    qed
    with True show ?thesis by (simp add: publish_event_def Let_def i)
  next
    case False
    with assms sent show ?thesis by (simp add: publish_event_def server_inv_def)
  qed
qed

lemma started_frame: "server_inv i evs b s \<Longrightarrow> b \<Longrightarrow> subscribe jt sock row now s = s"
  by (simp add: server_inv_def subscribe_def)

lemma step_started:
  assumes "server_inv i evs True s"
  shows "server_inv i (evs @ bus_event x) True (subscription_step jt x s)"
proof (cases x)
  case (Anchor_read sock row now)
  then show ?thesis using assms started_frame [OF assms] by (simp add: bus_event_def)
next
  case (Bus_event event ts now sock)
  then show ?thesis using publish_event_inv [OF assms] by (simp add: bus_event_def)
next
  case (Ping_due throws)
  have "server_inv i evs True (s\<lparr>us_awaitingPong := True\<rparr>)" using assms by (simp add: server_inv_def)
  with Ping_due show ?thesis using assms cleanup_inv by (simp add: bus_event_def ping_due_def)
next
  case Pong
  then show ?thesis using assms by (simp add: bus_event_def server_inv_def)
qed (use cleanup_inv [OF assms] in \<open>simp_all add: bus_event_def\<close>)

lemma step_unstarted:
  assumes "server_inv i [] False s"
  shows "server_inv i [] (starts x) (subscription_step jt x s)"
proof (cases x)
  case (Anchor_read sock row now)
  then show ?thesis using subscribe_inv [OF assms] by (simp add: starts_def)
next
  case (Bus_event event ts now sock)
  then show ?thesis using assms by (simp add: starts_def publish_event_def server_inv_def)
next
  case (Ping_due throws)
  have "server_inv i [] False (s\<lparr>us_awaitingPong := True\<rparr>)" using assms by (simp add: server_inv_def)
  with Ping_due show ?thesis using assms cleanup_inv by (simp add: starts_def ping_due_def)
next
  case Pong
  then show ?thesis using assms by (simp add: starts_def server_inv_def)
qed (use cleanup_inv [OF assms] in \<open>simp_all add: starts_def\<close>)

lemma published_unstarted: "\<not> list_ex starts inputs \<Longrightarrow> published inputs = []"
  by (induction inputs) (simp_all add: published_def)

lemma server_run:
  "server_inv i (published inputs) (list_ex starts inputs) (run_subscription jt i inputs)"
proof (induction inputs rule: rev_induct)
  case Nil
  show ?case by (simp add: run_subscription_def new_subscription_def server_inv_def OFFER_UPDATES_READY_SEQ_def)
next
  case (snoc x inputs)
  have r: "run_subscription jt i (inputs @ [x]) = subscription_step jt x (run_subscription jt i inputs)"
    by (simp add: run_subscription_def)
  show ?case
  proof (cases "list_ex starts inputs")
    case True
    with snoc step_started show ?thesis by (simp add: r published_snoc)
  next
    case False
    with snoc published_unstarted [OF False] step_unstarted show ?thesis by (simp add: r published_snoc)
  qed
qed

corollary sent_frames: "d \<in> set (us_sent (run_subscription jt i inputs)) \<Longrightarrow> frame_from i (published inputs) d"
  using server_run [of i inputs jt] by (simp add: server_inv_def)

section \<open>The client hands on a prefix\<close>

text \<open>The subscriptions a client had, each with the events it handed on.\<close>

definition session_step :: "stream_output \<Rightarrow> (string \<times> json list) list \<Rightarrow> (string \<times> json list) list" where
  "session_step x ss = (case x of
     Opened i _ \<Rightarrow> ss @ [(i, [])]
   | Delivered e \<Rightarrow> if ss = [] then [] else butlast ss @ [(fst (last ss), snd (last ss) @ [e])]
   | _ \<Rightarrow> ss)"

definition sessions :: "stream_output list \<Rightarrow> (string \<times> json list) list" where
  "sessions out = fold session_step out []"

lemma sessions_Nil [simp]: "sessions [] = []"
  by (simp add: sessions_def)

lemma sessions_append: "sessions (out @ xs) = fold session_step xs (sessions out)"
  by (simp add: sessions_def)

definition client_inv :: "(string \<Rightarrow> json list) \<Rightarrow> updates_stream \<Rightarrow> stream_output list \<Rightarrow> bool" where
  "client_inv pub u out \<longleftrightarrow> (\<forall>(i, ds) \<in> set (sessions out). \<exists>n. ds = take n (pub i))
     \<and> (case up_phase u of Subscribing s \<Rightarrow> (case cs_previous s of
          None \<Rightarrow> True
        | Some (i, n) \<Rightarrow> 0 \<le> n \<and> n \<le> int (length (pub i)) \<and> sessions out \<noteq> [] \<and> last (sessions out) = (i, take (nat n) (pub i)))
      | _ \<Rightarrow> True)"

lemma quiet_sessions:
  assumes "\<forall>x \<in> set xs. x = Disconnected \<or> (\<exists>e. x = Failed e)"
  shows "sessions (out @ xs) = sessions out"
  using assms unfolding sessions_append
  by (induction xs arbitrary: out) (auto simp: session_step_def)

lemma finish_quiet: "\<forall>x \<in> set (snd (finish_subscription stopped s)). x = Disconnected \<or> (\<exists>e. x = Failed e)"
  "\<forall>x \<in> set (snd (fail_subscription stopped e s)). x = Disconnected \<or> (\<exists>e. x = Failed e)"
  by (simp_all add: finish_subscription_def fail_subscription_def)

lemma finish_settled: "cs_settled (fst (finish_subscription stopped s))" "cs_settled (fst (fail_subscription stopped e s))"
  by (simp_all add: finish_subscription_def fail_subscription_def)

lemma settled_result:
  assumes "client_inv pub u out" "cs_settled (fst r)" "\<forall>x \<in> set (snd r). x = Disconnected \<or> (\<exists>e. x = Failed e)"
  shows "case subscription_result opts random u r of (u1, xs) \<Rightarrow> client_inv pub u1 (out @ xs)"
  using assms quiet_sessions [OF assms(3), of out]
  by (simp add: subscription_result_def after_subscription_def client_inv_def)

lemma unsettled_result:
  assumes "client_inv pub (u\<lparr>up_phase := Subscribing s\<rparr>) (out @ xs)" "\<not> cs_settled s"
  shows "case subscription_result opts random u (s, xs) of (u1, xs) \<Rightarrow> client_inv pub u1 (out @ xs)"
  using assms by (simp add: subscription_result_def)

lemmas finished_result = settled_result [OF _ finish_settled(1) finish_quiet(1)]
lemmas failed_result = settled_result [OF _ finish_settled(2) finish_quiet(2)]

text \<open>One frame: the first opens a session, every later one extends it by the next event.\<close>

lemma take_next: "n \<le> length xs \<Longrightarrow> Suc n \<le> length xs \<Longrightarrow> take n xs @ [xs ! n] = take (Suc n) xs"
  by (simp add: take_Suc_conv_app_nth)

lemma accept_frame_inv:
  assumes inv: "client_inv pub u out" "up_phase u = Subscribing s" "\<not> cs_settled s"
    and frame: "case frame of Ready_frame i ts h \<Rightarrow> True
        | Update_frame i n ts e \<Rightarrow> 0 < n \<and> n \<le> int (length (pub i)) \<and> e = pub i ! nat (n - 1)"
  shows "case subscription_result opts random u (accept_frame stopped frame s) of (u1, xs) \<Rightarrow> client_inv pub u1 (out @ xs)"
proof (cases "cs_previous s")
  case None
  show ?thesis
  proof (cases frame)
    case (Ready_frame i ts h)
    have "client_inv pub (u\<lparr>up_phase := Subscribing (s\<lparr>cs_previous := Some (i, OFFER_UPDATES_READY_SEQ), cs_subscribed := True\<rparr>)\<rparr>)
        (out @ [Opened i h])"
      using inv(1) by (auto simp: client_inv_def sessions_append session_step_def OFFER_UPDATES_READY_SEQ_def intro: exI [of _ 0])
    then show ?thesis using None Ready_frame inv(3) by (simp add: accept_frame_def unsettled_result)
  next
    case Update_frame
    then show ?thesis using None failed_result [OF inv(1)] by (simp add: accept_frame_def)
  qed
next
  case (Some prev)
  obtain i n where p: "prev = (i, n)" by (cases prev)
  have last: "0 \<le> n" "n \<le> int (length (pub i))" "sessions out \<noteq> []" "last (sessions out) = (i, take (nat n) (pub i))"
    using inv(1,2) Some p by (simp_all add: client_inv_def)
  show ?thesis
  proof (cases frame)
    case Ready_frame
    then show ?thesis using Some failed_result [OF inv(1)] by (simp add: accept_frame_def)
  next
    case (Update_frame j m ts e)
    show ?thesis
    proof (cases "j = i \<and> m = n + 1")
      case False
      then show ?thesis using Some p Update_frame failed_result [OF inv(1)]
        by (simp add: accept_frame_def followsInSequence_def)
    next
      case True
      with frame Update_frame have e: "n + 1 \<le> int (length (pub i))" "e = pub i ! nat n" by simp_all
      have m: "nat (n + 1) = Suc (nat n)" using last(1) by simp
      have grow: "take (nat n) (pub i) @ [e] = take (nat (n + 1)) (pub i)"
        unfolding m e(2) using e(1) last(1) by (intro take_next) linarith+
      have ss: "sessions (out @ [Delivered e]) = butlast (sessions out) @ [(i, take (nat (n + 1)) (pub i))]"
        using last(3,4) grow by (simp add: sessions_append session_step_def)
      have "\<forall>(k, ds) \<in> set (butlast (sessions out)). \<exists>l. ds = take l (pub k)"
        using inv(1) in_set_butlastD unfolding client_inv_def by fastforce
      then have "client_inv pub (u\<lparr>up_phase := Subscribing (s\<lparr>cs_previous := Some (i, n + 1)\<rparr>)\<rparr>) (out @ [Delivered e])"
        using last(1) e(1) by (auto simp: client_inv_def ss)
      then show ?thesis using Some p Update_frame True inv(3)
        by (simp add: accept_frame_def followsInSequence_def unsettled_result)
    qed
  qed
qed

definition from_server :: "(string \<Rightarrow> json list) \<Rightarrow> stream_input \<Rightarrow> bool" where
  "from_server pub input = (case input of Socket_data d \<Rightarrow> \<exists>i. frame_from i (pub i) d | _ \<Rightarrow> True)"

definition phase_open :: "updates_stream \<Rightarrow> bool" where
  "phase_open u = (case up_phase u of Subscribing s \<Rightarrow> \<not> cs_settled s | _ \<Rightarrow> True)"

lemma receive_data_inv:
  assumes inv: "client_inv pub u out" "up_phase u = Subscribing s" "\<not> cs_settled s" and d: "frame_from i (pub i) d"
  shows "case subscription_result opts random u (receive_data m stopped d s) of (u1, xs) \<Rightarrow> client_inv pub u1 (out @ xs)"
proof (cases "stopped")
  case True
  have "u\<lparr>up_phase := Subscribing s\<rparr> = u" using inv(2) by simp
  with True inv(1,3) show ?thesis by (simp add: receive_data_def subscription_result_def)
next
  case False
  from d obtain units bytes parsed frame where f: "d = Text units bytes parsed" "decodeOfferUpdatesFrame parsed = Some frame"
    and frame: "case frame of Ready_frame j ts h \<Rightarrow> j = i
        | Update_frame j n ts e \<Rightarrow> j = i \<and> 0 < n \<and> n \<le> int (length (pub i)) \<and> e = pub i ! nat (n - 1)"
    by (auto simp: frame_from_def split: wire_data.splits option.splits)
  have "case subscription_result opts random u (accept_frame stopped frame s) of (u1, xs) \<Rightarrow> client_inv pub u1 (out @ xs)"
    by (rule accept_frame_inv [OF inv]) (use frame in \<open>cases frame; simp\<close>)
  moreover have "receive_data m stopped d s = (if units > m \<or> bytes > m then fail_subscription stopped Oversized_frame s
      else accept_frame stopped frame s)"
    using False inv(3) f by (simp add: receive_data_def)
  ultimately show ?thesis using failed_result [OF inv(1)] by presburger
qed

lemma start_inv:
  assumes "client_inv pub u out"
  shows "case start_subscription opts random creatable u of (u1, xs) \<Rightarrow> client_inv pub u1 (out @ xs) \<and> phase_open u1"
  using assms
  by (auto simp: start_subscription_def after_subscription_def client_inv_def sessions_append session_step_def
      fresh_subscription_def phase_open_def)

lemma result_open: "phase_open (fst (subscription_result opts random u r))"
  by (simp add: subscription_result_def after_subscription_def phase_open_def)

lemma result_open_both:
  assumes "case subscription_result opts random u r of (u1, xs) \<Rightarrow> client_inv pub u1 (out @ xs)"
  shows "case subscription_result opts random u r of (u1, xs) \<Rightarrow> client_inv pub u1 (out @ xs) \<and> phase_open u1"
  using assms result_open [of opts random u r] by (cases "subscription_result opts random u r") simp

lemma stream_step_inv:
  assumes "client_inv pub u out" "phase_open u" "from_server pub input"
  shows "case stream_step opts random input u of (u1, xs) \<Rightarrow> client_inv pub u1 (out @ xs) \<and> phase_open u1"
proof (cases "up_phase u")
  case (Subscribing s)
  have open': "\<not> cs_settled s" using assms(2) Subscribing by (simp add: phase_open_def)
  show ?thesis
  proof (cases input)
    case (Socket_data d)
    with assms(3) obtain i where "frame_from i (pub i) d" by (auto simp: from_server_def)
    from receive_data_inv [OF assms(1) Subscribing open' this] show ?thesis
      using Subscribing Socket_data result_open_both by (simp add: stream_step_def)
  next
    case Socket_error
    have same: "sessions (out @ [Failed Transport_error]) = sessions out" by (simp add: sessions_append session_step_def)
    have "client_inv pub u (out @ [Failed Transport_error]) = client_inv pub u out" unfolding client_inv_def same ..
    then show ?thesis using Subscribing Socket_error assms(1,2) by (simp add: stream_step_def)
  next
    case Socket_closed
    then show ?thesis using Subscribing result_open_both [OF finished_result [OF assms(1)]] by (simp add: stream_step_def)
  next
    case Ready_due
    then show ?thesis using Subscribing assms(1,2) result_open_both [OF failed_result [OF assms(1)]] by (simp add: stream_step_def)
  next
    case Backoff_over
    then show ?thesis using Subscribing assms(1,2) by (simp add: stream_step_def)
  next
    case Close_stream
    then show ?thesis using Subscribing assms(1,2)
      by (simp add: stream_step_def client_inv_def phase_open_def cong: option.case_cong)
  qed
next
  case (Backing_off d)
  show ?thesis
  proof (cases input)
    case (Backoff_over creatable)
    then show ?thesis using Backing_off start_inv [OF assms(1)] by (simp add: stream_step_def)
  qed (use Backing_off assms(1,2) in \<open>simp_all add: stream_step_def client_inv_def phase_open_def\<close>)
next
  case Stream_ended
  then show ?thesis using assms(1,2) by (cases input) (simp_all add: stream_step_def client_inv_def phase_open_def)
qed

lemma run_stream_inv:
  "client_inv pub u out \<Longrightarrow> phase_open u \<Longrightarrow> list_all (\<lambda>(input, random). from_server pub input) inputs \<Longrightarrow>
    case run_stream opts inputs (u, out) of (u1, out1) \<Rightarrow> client_inv pub u1 out1"
proof (induction inputs arbitrary: u out)
  case (Cons x inputs)
  obtain input random where x: "x = (input, random)" by (cases x)
  obtain u1 xs where s: "stream_step opts random input u = (u1, xs)" by (cases "stream_step opts random input u")
  from Cons.prems x have "from_server pub input" by simp
  from stream_step_inv [OF Cons.prems(1,2) this, of opts random] have "client_inv pub u1 (out @ xs)" "phase_open u1"
    by (simp_all add: s)
  from Cons.IH [OF this] Cons.prems(3) show ?case by (simp add: x s)
qed simp

text \<open>C8:
  The offer update stream never loses, repeats, reorders or invents an event within a subscription.
  Let every text frame the client's sockets receive be one that some server subscription sent, whatever
  the network does to them otherwise: drop, repeat, reorder, mix. Then, over any run of the client with
  any disconnections and reconnections, what it hands on between a subscription's opening and its end is
  a prefix of the events that server subscription published, in their order and as the wire carries them.\<close>

theorem updates_stream_gapless:
  assumes "openOfferUpdatesStream opts api random creatable = Inr (u, out)"
    and "\<forall>(input, random) \<in> set inputs. case input of
        Socket_data d \<Rightarrow> \<exists>i. d \<in> set (us_sent (run_subscription jt i (servers i))) | _ \<Rightarrow> True"
  shows "\<forall>(i, ds) \<in> set (sessions (snd (run_stream opts inputs (u, out)))). \<exists>n. ds = take n (published (servers i))"
proof -
  let ?pub = "\<lambda>i. published (servers i)"
  define u0 where "u0 = \<lparr>up_stopped = False, up_attempt = 0, up_phase = Stream_ended\<rparr>"
  have "client_inv ?pub u0 []" by (simp add: client_inv_def u0_def)
  from start_inv [OF this, of opts random creatable] have u: "client_inv ?pub u out" "phase_open u"
    using assms(1) by (auto simp: openOfferUpdatesStream_def u0_def bindR_eq_Inr split: if_splits)
  have "list_all (\<lambda>(input, random). from_server ?pub input) inputs"
    using assms(2) sent_frames by (fastforce simp: list_all_iff from_server_def split: stream_input.splits)
  from run_stream_inv [OF u this, of opts] show ?thesis
    by (cases "run_stream opts inputs (u, out)") (simp add: client_inv_def)
qed

text \<open>One subscription of which the client gets the ready frame and the first of two updates.\<close>

definition plain_text :: frame_text where
  "plain_text = \<lparr>jt_length = (\<lambda>_. 100), jt_bytes = (\<lambda>_. 100)\<rparr>"

definition good_socket :: socket_answer where
  "good_socket = \<lparr>sa_open = True, sa_throws = False, sa_buffered = 0\<rparr>"

definition sample_stream_id :: string where
  "sample_stream_id = replicate 32 CHR ''a''"

definition sample_event :: "string \<Rightarrow> json" where
  "sample_event h = JObj [(''type'', JStr ''offer_consumed''), (''offerHash'', JStr h), (''nullifier'', JUndefined)]"

definition sample_server :: "subscription_input list" where
  "sample_server = [Anchor_read good_socket (Some (JNum (Integral 7))) 1,
     Bus_event (sample_event ''x'') 2 3 good_socket, Bus_event (sample_event ''y'') 4 5 good_socket]"

definition sample_stream_options :: stream_options where
  "sample_stream_options = \<lparr>so_base = 500, so_max = 30000, so_connectTimeoutMs = 15000, so_maxFrameBytes = 65536\<rparr>"

lemma sample_sent: "us_sent (run_subscription plain_text sample_stream_id sample_server) =
    [Text 100 100 (Some (frame_json (Ready_frame sample_stream_id 1 (Some ''7'')))),
     Text 100 100 (Some (frame_json (Update_frame sample_stream_id 1 2 (wire_value (stamped (sample_event ''x'') 3))))),
     Text 100 100 (Some (frame_json (Update_frame sample_stream_id 2 4 (wire_value (stamped (sample_event ''y'') 5)))))]"
  by code_simp

lemma updates_stream_gapless_witness:
  "let s = run_subscription plain_text sample_stream_id sample_server;
       u = \<lparr>up_stopped = False, up_attempt = 0, up_phase = Subscribing fresh_subscription\<rparr>
   in sessions (snd (run_stream sample_stream_options [(Socket_data (us_sent s ! 0), 0), (Socket_data (us_sent s ! 1), 0)] (u, [])))
        = [(sample_stream_id, [wire_value (stamped (sample_event ''x'') 3)])]
      \<and> (\<exists>n. [wire_value (stamped (sample_event ''x'') 3)] = take n (published sample_server))"
proof -
  let ?s = "run_subscription plain_text sample_stream_id sample_server"
  let ?u = "\<lparr>up_stopped = False, up_attempt = 0, up_phase = Subscribing fresh_subscription\<rparr>"
  let ?in = "[(Socket_data (us_sent ?s ! 0), 0), (Socket_data (us_sent ?s ! 1), 0)]"
  have o: "openOfferUpdatesStream sample_stream_options ''http://x'' 0 True = Inr (?u, [])" by code_simp
  have r: "sessions (snd (run_stream sample_stream_options ?in (?u, []))) = [(sample_stream_id, [wire_value (stamped (sample_event ''x'') 3)])]"
    unfolding sample_sent by code_simp
  have h: "\<forall>(input, random) \<in> set ?in. case input of
      Socket_data d \<Rightarrow> \<exists>i. d \<in> set (us_sent (run_subscription plain_text i sample_server)) | _ \<Rightarrow> True"
    using sample_sent by (auto intro!: exI [of _ sample_stream_id])
  from updates_stream_gapless [OF o h] r show ?thesis by (simp add: Let_def)
qed

end
