(* ===== verification/Api_Client.thy ===== *)
theory Api_Client
  imports Update_Stream
begin

text \<open>
  Model of the request helpers and parsers of \<^verbatim>\<open>packages/solver-core/api-client.ts\<close>: how a request's end is
  classified, the bounded body read, the listing, detail and status reads, and the backend's health.
  What the network answers is an argument. The decoder of an offer blob with its hash, the text decoder
  with \<open>JSON.parse\<close>, and the test on a number that is not integral are parameters.
\<close>

section \<open>How a request ends\<close>

datatype api_failure = Api_timeout | Api_aborted | Api_network | Api_http int | Api_malformed | Api_range

type_synonym 'a api_result = "api_failure + 'a"

definition DEFAULT_API_TIMEOUT_MS :: int where
  "DEFAULT_API_TIMEOUT_MS = 15000"

definition MAX_SYNC_HEALTH_BODY_BYTES :: int where
  "MAX_SYNC_HEALTH_BODY_BYTES = 1024 * 1024"

definition requestTimeout :: "int option \<Rightarrow> int api_result" where
  "requestTimeout timeoutMs =
     (let t = (case timeoutMs of None \<Rightarrow> DEFAULT_API_TIMEOUT_MS | Some t \<Rightarrow> t)
      in if t \<le> 0 then Inl Api_range else Inr t)"

text \<open>What settled first: the run itself, which may throw one of the client's own errors or another
  one, or the abort; and whether the deadline had passed and the controller was aborted by then.\<close>

datatype 'a run_outcome = Returned 'a | Threw_api api_failure | Threw_other | Abort_won

definition withRequestDeadline :: "int option \<Rightarrow> bool \<Rightarrow> bool \<Rightarrow> 'a run_outcome \<Rightarrow> 'a api_result" where
  "withRequestDeadline timeoutMs timedOut aborted out =
     bindR (requestTimeout timeoutMs) (\<lambda>_. case out of
        Returned x \<Rightarrow> Inr x
      | Threw_api e \<Rightarrow> Inl e
      | Threw_other \<Rightarrow> Inl (if timedOut then Api_timeout else if aborted then Api_aborted else Api_network)
      | Abort_won \<Rightarrow> Inl (if timedOut then Api_timeout else Api_aborted))"

section \<open>The bounded body\<close>

text \<open>A body is what its chunks are, read one after the other; a read may fail, and the signal may have
  been aborted by the time it returns.\<close>

datatype 'b body_part = Chunk "'b list" | Read_failed | Signal_aborted api_failure

definition canonical_length :: "string \<Rightarrow> bool" where
  "canonical_length s \<longleftrightarrow> s = ''0'' \<or> positive_decimal s"

definition length_exceeds :: "string \<Rightarrow> int \<Rightarrow> bool" where
  "length_exceeds contentLength maxBytes =
     (let maximum = bigint_to_string maxBytes in
      length maximum < length contentLength \<or> (length contentLength = length maximum \<and> maximum < contentLength))"

fun read_parts :: "int \<Rightarrow> 'b body_part list \<Rightarrow> 'b list \<Rightarrow> 'b list api_result" where
  "read_parts maxBytes [] acc = Inr acc"
| "read_parts maxBytes (Chunk bs # parts) acc =
     (if int (length acc) + int (length bs) > maxBytes then Inl Api_malformed
      else read_parts maxBytes parts (acc @ bs))"
| "read_parts maxBytes (Read_failed # parts) acc = Inl Api_malformed"
| "read_parts maxBytes (Signal_aborted reason # parts) acc = Inl reason"

definition parseBoundedJson :: "('b list \<Rightarrow> json option) \<Rightarrow> int \<Rightarrow> string option \<Rightarrow> 'b body_part list option \<Rightarrow> json api_result" where
  "parseBoundedJson parse maxBytes contentLength body =
     (if (case contentLength of None \<Rightarrow> False | Some s \<Rightarrow> \<not> canonical_length s \<or> length_exceeds s maxBytes) then Inl Api_malformed
      else case body of
        None \<Rightarrow> Inl Api_malformed
      | Some parts \<Rightarrow> bindR (read_parts maxBytes parts []) (\<lambda>bytes.
          case parse bytes of None \<Rightarrow> Inl Api_malformed | Some value \<Rightarrow> Inr value))"

section \<open>Offers\<close>

definition canonicalOfferHash :: "string \<Rightarrow> string api_result" where
  "canonicalOfferHash hash = (if isLowerHex64 hash then Inr hash else Inl Api_malformed)"

type_synonym blob_hasher = "string \<Rightarrow> string option"

definition hashOfferBlob :: "blob_hasher \<Rightarrow> string \<Rightarrow> string api_result" where
  "hashOfferBlob hasher blob = (case hasher blob of None \<Rightarrow> Inl Api_malformed | Some h \<Rightarrow> Inr h)"

definition assertOfferBlobIdentity :: "blob_hasher \<Rightarrow> string \<Rightarrow> string \<Rightarrow> unit api_result" where
  "assertOfferBlobIdentity hasher blob expectedHash =
     bindR (canonicalOfferHash expectedHash) (\<lambda>canonical. bindR (hashOfferBlob hasher blob) (\<lambda>actual.
       if actual \<noteq> canonical then Inl Api_malformed else Inr ()))"

text \<open>A response: its status code, and what its body parses to.\<close>

record http_answer =
  ha_status :: int
  ha_body :: "json option"

definition http_ok :: "http_answer \<Rightarrow> bool" where
  "http_ok r \<longleftrightarrow> 200 \<le> ha_status r \<and> ha_status r \<le> 299"

definition parseJson :: "http_answer \<Rightarrow> json api_result" where
  "parseJson r = (case ha_body r of None \<Rightarrow> Inl Api_malformed | Some value \<Rightarrow> Inr value)"

definition ok_body :: "http_answer \<Rightarrow> json api_result" where
  "ok_body r = (if \<not> http_ok r then Inl (Api_http (ha_status r)) else parseJson r)"

record zswaps_page =
  zp_offers :: "json list"
  zp_nextCursor :: "string option"

definition getZswapsPage :: "http_answer \<Rightarrow> zswaps_page api_result" where
  "getZswapsPage r = bindR (ok_body r) (\<lambda>body. case (js_get body ''offers'', js_get body ''nextCursor'') of
       (JArr offers, JNull) \<Rightarrow> Inr \<lparr>zp_offers = offers, zp_nextCursor = None\<rparr>
     | (JArr offers, JStr cursor) \<Rightarrow> Inr \<lparr>zp_offers = offers, zp_nextCursor = Some cursor\<rparr>
     | _ \<Rightarrow> Inl Api_malformed)"

definition getZswapByHash :: "blob_hasher \<Rightarrow> string \<Rightarrow> http_answer \<Rightarrow> json api_result" where
  "getZswapByHash hasher hash r =
     bindR (canonicalOfferHash hash) (\<lambda>expectedHash. bindR (ok_body r) (\<lambda>body.
       case js_get body ''offerBech32'' of
         JStr blob \<Rightarrow>
           if \<not> isRecord body \<or> js_get body ''offerId'' \<noteq> JStr expectedHash \<or> blob = [] then Inl Api_malformed
           else bindR (assertOfferBlobIdentity hasher blob expectedHash) (\<lambda>_. Inr body)
       | _ \<Rightarrow> Inl Api_malformed))"

subsection \<open>Statuses\<close>

definition API_OFFER_STATUSES :: "string list" where
  "API_OFFER_STATUSES = [''live'', ''consumed'', ''cancelled'', ''expired'', ''unknown'', ''not_found'']"

record offer_status_result =
  os_offerId :: "string option"
  os_status :: string

definition parseStatusResult :: "json \<Rightarrow> string option \<Rightarrow> offer_status_result api_result" where
  "parseStatusResult body expectedHash =
     (case js_get body ''status'' of
        JStr status \<Rightarrow>
          if \<not> isRecord body \<or> status \<notin> set API_OFFER_STATUSES then Inl Api_malformed
          else (case js_get body ''offerId'' of
             JUndefined \<Rightarrow> if expectedHash \<noteq> None then Inl Api_malformed else Inr \<lparr>os_offerId = None, os_status = status\<rparr>
           | JStr offerId \<Rightarrow>
               if (case expectedHash of None \<Rightarrow> False | Some h \<Rightarrow> toLowerCase offerId \<noteq> toLowerCase h) then Inl Api_malformed
               else Inr \<lparr>os_offerId = Some offerId, os_status = status\<rparr>
           | _ \<Rightarrow> Inl Api_malformed)
      | _ \<Rightarrow> Inl Api_malformed)"

definition getOfferStatus :: "string \<Rightarrow> http_answer \<Rightarrow> offer_status_result api_result" where
  "getOfferStatus hash r = bindR (ok_body r) (\<lambda>body. parseStatusResult body (Some hash))"

definition parse_statuses :: "nat \<Rightarrow> http_answer \<Rightarrow> offer_status_result list api_result" where
  "parse_statuses n r = bindR (ok_body r) (\<lambda>body.
     let raw = (case js_get body ''statuses'' of JArr xs \<Rightarrow> xs | _ \<Rightarrow> [body])
     in if length raw \<noteq> n then Inl Api_malformed
        else mapR (\<lambda>item. parseStatusResult item None) raw)"

text \<open>Batches of fifty; the server's answers are a function of the batch.\<close>

function postOffersStatus :: "(string list \<Rightarrow> http_answer) \<Rightarrow> string list \<Rightarrow> offer_status_result list api_result" where
  "postOffersStatus post blobs =
     (if blobs = [] then Inr []
      else bindR (parse_statuses (length (take 50 blobs)) (post (take 50 blobs))) (\<lambda>statuses.
        bindR (postOffersStatus post (drop 50 blobs)) (\<lambda>rest. Inr (statuses @ rest))))"
  by pat_completeness auto
termination by (relation "measure (length \<circ> snd)") auto

declare postOffersStatus.simps [simp del]

section \<open>The backend's health\<close>

datatype backend_sync_status = Sync_ok | Sync_syncing | Sync_error

record ntp_position =
  np_current :: int
  np_tip :: int
  np_pct :: "js_number option"
  np_lagBlocks :: int
  np_lagSeconds :: js_number

record chain_position =
  cp_current :: "int option"
  cp_fetched :: "int option"
  cp_tip :: "int option"
  cp_pct :: "js_number option"
  cp_lagBlocks :: "int option"

record backend_health =
  bh_ts :: int
  bh_status :: backend_sync_status
  bh_blockL2 :: "string option"
  bh_ntp :: ntp_position
  bh_midnight :: chain_position
  bh_celestia :: chain_position

definition assertKnownKeys :: "json \<Rightarrow> string list \<Rightarrow> unit api_result" where
  "assertKnownKeys value allowed = (if list_all (\<lambda>k. k \<in> set allowed) (js_keys value) then Inr () else Inl Api_malformed)"

definition nonNegativeSafeInteger :: "json \<Rightarrow> int api_result" where
  "nonNegativeSafeInteger value = (case epoch_ms value of Some n \<Rightarrow> Inr n | None \<Rightarrow> Inl Api_malformed)"

definition nullableNonNegativeSafeInteger :: "json \<Rightarrow> int option api_result" where
  "nullableNonNegativeSafeInteger value =
     (if value = JNull then Inr None else bindR (nonNegativeSafeInteger value) (\<lambda>n. Inr (Some n)))"

definition positiveIntegerToken :: "json \<Rightarrow> string api_result" where
  "positiveIntegerToken value = (case value of
     JNum (Integral n) \<Rightarrow> if is_safe_integer n \<and> 0 < n then Inr (bigint_to_string n) else Inl Api_malformed
   | JStr s \<Rightarrow> (case parseBlockL2Height (JStr s) of Some (Some token) \<Rightarrow> Inr token | _ \<Rightarrow> Inl Api_malformed)
   | _ \<Rightarrow> Inl Api_malformed)"

definition nullableNonNegativeFiniteNumber :: "bool \<Rightarrow> json \<Rightarrow> js_number option api_result" where
  "nullableNonNegativeFiniteNumber fraction_ok value = (case value of
     JNull \<Rightarrow> Inr None
   | JNum (Integral n) \<Rightarrow> if n < 0 then Inl Api_malformed else Inr (Some (Integral n))
   | JNum NonIntegral \<Rightarrow> if fraction_ok then Inr (Some NonIntegral) else Inl Api_malformed
   | _ \<Rightarrow> Inl Api_malformed)"

definition parseNtpSyncPosition :: "(string \<Rightarrow> bool) \<Rightarrow> json \<Rightarrow> ntp_position api_result" where
  "parseNtpSyncPosition fraction_ok value =
     (if \<not> isRecord value then Inl Api_malformed
      else bindR (assertKnownKeys value [''current'', ''tip'', ''pct'', ''lag_blocks'', ''lag_seconds'']) (\<lambda>_.
        bindR (nonNegativeSafeInteger (js_get value ''current'')) (\<lambda>current.
        bindR (nonNegativeSafeInteger (js_get value ''tip'')) (\<lambda>tip.
        bindR (nullableNonNegativeFiniteNumber (fraction_ok ''ntp.pct'') (js_get value ''pct'')) (\<lambda>pct.
        bindR (nonNegativeSafeInteger (js_get value ''lag_blocks'')) (\<lambda>lagBlocks.
        bindR (nullableNonNegativeFiniteNumber (fraction_ok ''ntp.lag_seconds'') (js_get value ''lag_seconds'')) (\<lambda>lag.
          case lag of
            None \<Rightarrow> Inl Api_malformed
          | Some lagSeconds \<Rightarrow> Inr \<lparr>np_current = current, np_tip = tip, np_pct = pct, np_lagBlocks = lagBlocks,
                                np_lagSeconds = lagSeconds\<rparr>)))))))"

definition parseChainSyncPosition :: "(string \<Rightarrow> bool) \<Rightarrow> string \<Rightarrow> json \<Rightarrow> chain_position api_result" where
  "parseChainSyncPosition fraction_ok field value =
     (if \<not> isRecord value then Inl Api_malformed
      else bindR (assertKnownKeys value [''current'', ''fetched'', ''tip'', ''pct'', ''lag_blocks'']) (\<lambda>_.
        bindR (nullableNonNegativeSafeInteger (js_get value ''current'')) (\<lambda>current.
        bindR (nullableNonNegativeSafeInteger (js_get value ''fetched'')) (\<lambda>fetched.
        bindR (nullableNonNegativeSafeInteger (js_get value ''tip'')) (\<lambda>tip.
        bindR (nullableNonNegativeFiniteNumber (fraction_ok (field @ ''.pct'')) (js_get value ''pct'')) (\<lambda>pct.
        bindR (nullableNonNegativeSafeInteger (js_get value ''lag_blocks'')) (\<lambda>lagBlocks.
          Inr \<lparr>cp_current = current, cp_fetched = fetched, cp_tip = tip, cp_pct = pct, cp_lagBlocks = lagBlocks\<rparr>)))))))"

definition parseBlockL2Generation :: "json \<Rightarrow> string option api_result" where
  "parseBlockL2Generation value =
     (if value = JNull then Inr None
      else if \<not> isRecord value then Inl Api_malformed
      else bindR (assertKnownKeys value [''height'', ''timestamp'', ''block_hash'', ''main_chain_block_hash'', ''block_time'', ''lag'']) (\<lambda>_.
        bindR (positiveIntegerToken (js_get value ''height'')) (\<lambda>height. Inr (Some height))))"

definition sync_status_of :: "json \<Rightarrow> backend_sync_status option" where
  "sync_status_of value =
     (if value = JStr ''ok'' then Some Sync_ok else if value = JStr ''syncing'' then Some Sync_syncing
      else if value = JStr ''error'' then Some Sync_error else None)"

definition chain_complete :: "chain_position \<Rightarrow> bool" where
  "chain_complete p \<longleftrightarrow> cp_current p \<noteq> None \<and> cp_tip p \<noteq> None \<and> cp_lagBlocks p \<noteq> None"

definition parseBackendSyncHealth :: "(string \<Rightarrow> bool) \<Rightarrow> json \<Rightarrow> backend_health api_result" where
  "parseBackendSyncHealth fraction_ok body =
     (if \<not> isRecord body then Inl Api_malformed
      else bindR (assertKnownKeys body [''ts'', ''now'', ''status'', ''blockL2'', ''ntp'', ''midnight'', ''celestia'',
          ''sets'', ''recent_rejections'']) (\<lambda>_.
        bindR (nonNegativeSafeInteger (js_get body ''ts'')) (\<lambda>ts.
        case sync_status_of (js_get body ''status'') of
          None \<Rightarrow> Inl Api_malformed
        | Some status \<Rightarrow>
            bindR (parseBlockL2Generation (js_get body ''blockL2'')) (\<lambda>blockL2.
            bindR (parseNtpSyncPosition fraction_ok (js_get body ''ntp'')) (\<lambda>ntp.
            bindR (parseChainSyncPosition fraction_ok ''midnight'' (js_get body ''midnight'')) (\<lambda>midnight.
            bindR (parseChainSyncPosition fraction_ok ''celestia'' (js_get body ''celestia'')) (\<lambda>celestia.
              if status = Sync_ok \<and> (blockL2 = None \<or> \<not> chain_complete midnight \<or> \<not> chain_complete celestia)
              then Inl Api_malformed
              else Inr \<lparr>bh_ts = ts, bh_status = status, bh_blockL2 = blockL2, bh_ntp = ntp, bh_midnight = midnight,
                        bh_celestia = celestia\<rparr>)))))))"

definition getBackendSyncHealth :: "(string \<Rightarrow> bool) \<Rightarrow> ('b list \<Rightarrow> json option) \<Rightarrow> int \<Rightarrow> string option
    \<Rightarrow> 'b body_part list option \<Rightarrow> backend_health api_result" where
  "getBackendSyncHealth fraction_ok parse status contentLength body =
     (if \<not> (200 \<le> status \<and> status \<le> 299) then Inl (Api_http status)
      else bindR (parseBoundedJson parse MAX_SYNC_HEALTH_BODY_BYTES contentLength body)
        (parseBackendSyncHealth fraction_ok))"

definition reportsBackendProjectionCurrent :: "backend_health \<Rightarrow> bool" where
  "reportsBackendProjectionCurrent health \<longleftrightarrow> bh_status health = Sync_ok \<and> bh_blockL2 health \<noteq> None
     \<and> chain_complete (bh_midnight health) \<and> chain_complete (bh_celestia health)"

section \<open>What the reads guarantee\<close>

lemma parseBlockL2Height_token: "parseBlockL2Height v = Some (Some s) \<Longrightarrow> positive_decimal s"
  by (auto simp: parseBlockL2Height_def split: json.splits if_splits)

lemma nat_to_string_head: "0 < n \<Longrightarrow> hd (nat_to_string n) \<noteq> CHR ''0''"
proof (induction n rule: nat_to_string.induct)
  case (1 n)
  show ?case
  proof (cases "n < 10")
    case True
    have "of_char (digit_char n) \<noteq> (of_char (CHR ''0'') :: nat)" using True 1(2) by (simp add: digit_char_def of_char_of)
    then show ?thesis using True by (auto simp: nat_to_string.simps [of n])
  next
    case False
    with 1 show ?thesis by (simp add: nat_to_string.simps [of n] nat_to_string_nonempty)
  qed
qed

lemma positive_decimal_to_string: "0 < n \<Longrightarrow> positive_decimal (bigint_to_string n)"
  by (simp add: positive_decimal_def bigint_to_string_def nat_to_string_digits nat_to_string_nonempty nat_to_string_head)

lemma positiveIntegerToken_decimal: "positiveIntegerToken v = Inr s \<Longrightarrow> positive_decimal s"
  by (auto simp: positiveIntegerToken_def positive_decimal_to_string intro: parseBlockL2Height_token
      split: json.splits js_number.splits if_splits option.splits)

text \<open>An accepted health answer that says \<open>ok\<close> is complete, and its height is a positive decimal.\<close>

lemma parseBackendSyncHealth_current:
  assumes "parseBackendSyncHealth fr body = Inr h"
  shows "reportsBackendProjectionCurrent h \<longleftrightarrow> bh_status h = Sync_ok"
    and "bh_blockL2 h = Some height \<Longrightarrow> positive_decimal height"
proof -
  show "reportsBackendProjectionCurrent h \<longleftrightarrow> bh_status h = Sync_ok"
    using assms by (auto simp: parseBackendSyncHealth_def reportsBackendProjectionCurrent_def bindR_eq_Inr
        split: if_splits option.splits)
  show "positive_decimal height" if "bh_blockL2 h = Some height"
    using assms that by (auto simp: parseBackendSyncHealth_def bindR_eq_Inr parseBlockL2Generation_def
        intro: positiveIntegerToken_decimal split: if_splits option.splits)
qed

text \<open>A detail answer is accepted only for the offer asked for, with bytes of that very identity.\<close>

lemma getZswapByHash_bound:
  assumes "getZswapByHash hasher hash r = Inr body"
  shows "isLowerHex64 hash \<and> js_get body ''offerId'' = JStr hash
    \<and> (\<exists>blob. js_get body ''offerBech32'' = JStr blob \<and> hasher blob = Some hash)"
proof -
  from assms obtain b where h: "isLowerHex64 hash" and b: "(case js_get b ''offerBech32'' of
         JStr blob \<Rightarrow>
           if \<not> isRecord b \<or> js_get b ''offerId'' \<noteq> JStr hash \<or> blob = [] then Inl Api_malformed
           else bindR (assertOfferBlobIdentity hasher blob hash) (\<lambda>_. Inr b)
       | _ \<Rightarrow> Inl Api_malformed) = Inr body"
    by (auto simp: getZswapByHash_def canonicalOfferHash_def bindR_eq_Inr split: if_splits)
  from b obtain blob where "js_get b ''offerBech32'' = JStr blob" "js_get b ''offerId'' = JStr hash"
    "bindR (assertOfferBlobIdentity hasher blob hash) (\<lambda>_. Inr b) = Inr body"
    by (cases "js_get b ''offerBech32''") (auto split: if_splits)
  with h show ?thesis
    by (auto simp: assertOfferBlobIdentity_def canonicalOfferHash_def hashOfferBlob_def bindR_eq_Inr split: if_splits option.splits)
qed

text \<open>Bulk statuses come back one for each blob.\<close>

lemma parse_statuses_length: "parse_statuses n r = Inr xs \<Longrightarrow> length xs = n"
  by (auto simp: parse_statuses_def bindR_eq_Inr Let_def mapR_Inr_iff dest: list_all2_lengthD split: if_splits)

lemma postOffersStatus_length: "postOffersStatus post blobs = Inr xs \<Longrightarrow> length xs = length blobs"
proof (induction post blobs arbitrary: xs rule: postOffersStatus.induct)
  case (1 post blobs)
  show ?case
  proof (cases "blobs = []")
    case True
    then show ?thesis using 1(2) by (simp add: postOffersStatus.simps)
  next
    case False
    with 1(2) obtain ys zs where "parse_statuses (length (take 50 blobs)) (post (take 50 blobs)) = Inr ys"
      "postOffersStatus post (drop 50 blobs) = Inr zs" "xs = ys @ zs"
      by (auto simp: postOffersStatus.simps [of post blobs] bindR_eq_Inr)
    with 1(1) False parse_statuses_length show ?thesis by fastforce
  qed
qed

end
