(* ===== verification/Book_Sync.thy ===== *)
theory Book_Sync
  imports Api_Client
begin

text \<open>
  Model of \<^verbatim>\<open>packages/solver/src/book-sync.ts\<close>: the mirror that keeps the solver's book in step with the
  backend. Everything runs on one thread; a step runs from an external input, or from the answer a task
  awaits, to the next wait. Tasks of the serial queue start in a step of their own, and so does what the
  resync runner does with a finished task, so that every interleaving with the stream, the timers and
  the health probe is a sequence of steps. Observers are told, and do not call back. The trace records
  what the mirror did and told, in order.
\<close>

section \<open>The whole book\<close>

datatype blocked_reason =
  Initializing | Stream_disconnected | Stream_generation_changed | Backend_syncing | Backend_error
| Backend_rewound | Health_unavailable | Health_malformed | Health_stale | Generation_superseded | Stopped

datatype sync_error = Currentness_error blocked_reason | Api_error api_failure | Other_error

definition PAGE_LIMIT :: int where
  "PAGE_LIMIT = 100"

definition DEFAULT_MAX_SNAPSHOT_PAGES :: int where
  "DEFAULT_MAX_SNAPSHOT_PAGES = 100"

definition DEFAULT_MAX_SNAPSHOT_OFFERS :: int where
  "DEFAULT_MAX_SNAPSHOT_OFFERS = PAGE_LIMIT * DEFAULT_MAX_SNAPSHOT_PAGES"

type_synonym page_source = "nat \<Rightarrow> string option \<Rightarrow> api_failure + http_answer"

definition read_page :: "page_source \<Rightarrow> nat \<Rightarrow> string option \<Rightarrow> sync_error + zswaps_page" where
  "read_page source n cursor = (case bindR (source n cursor) getZswapsPage of Inl e \<Rightarrow> Inl (Api_error e) | Inr page \<Rightarrow> Inr page)"

function walk_pages :: "date_parser \<Rightarrow> page_source \<Rightarrow> int \<Rightarrow> int \<Rightarrow> nat \<Rightarrow> int \<Rightarrow> string option \<Rightarrow> string list
    \<Rightarrow> book_offer list \<Rightarrow> sync_error + book_offer list" where
  "walk_pages parseDate source maxPages maxOffers pages rows cursor seen offers =
     (if int pages \<ge> maxPages then Inl Other_error
      else bindR (read_page source pages cursor) (\<lambda>page.
        if rows + int (length (zp_offers page)) > maxOffers then Inl Other_error
        else (let offers' = offers @ List.map_filter (bookOfferFromApi parseDate) (zp_offers page) in
          case zp_nextCursor page of
            None \<Rightarrow> Inr offers'
          | Some next \<Rightarrow>
              if next = [] then Inr offers'
              else if \<not> isLowerHex64 next then Inl Other_error
              else if next \<in> set seen then Inl Other_error
              else walk_pages parseDate source maxPages maxOffers (Suc pages) (rows + int (length (zp_offers page)))
                     (Some next) (next # seen) offers')))"
  by pat_completeness auto
termination by (relation "measure (\<lambda>(_, _, maxPages, _, pages, _). nat maxPages - pages)") auto

declare walk_pages.simps [simp del]

definition limit_ok :: "int \<Rightarrow> bool" where
  "limit_ok n \<longleftrightarrow> is_safe_integer n \<and> 0 < n"

definition fetchWholeBook :: "date_parser \<Rightarrow> page_source \<Rightarrow> int option \<Rightarrow> int option \<Rightarrow> sync_error + book_offer list" where
  "fetchWholeBook parseDate source maxPages maxOffers =
     (let pages = (case maxPages of None \<Rightarrow> DEFAULT_MAX_SNAPSHOT_PAGES | Some n \<Rightarrow> n);
          offers = (case maxOffers of None \<Rightarrow> DEFAULT_MAX_SNAPSHOT_OFFERS | Some n \<Rightarrow> n)
      in if \<not> limit_ok pages \<or> \<not> limit_ok offers then Inl Other_error
         else walk_pages parseDate source pages offers 0 0 None [] [])"

section \<open>Options and state\<close>

record sync_options =
  op_resyncIntervalMs :: "int option"
  op_expiryMarginSeconds :: "int option"
  op_maxBufferedEvents :: "int option"
  op_maxBufferedBytes :: "int option"
  op_maxSnapshotPages :: "int option"
  op_maxSnapshotOffers :: "int option"
  op_readinessTimeoutMs :: "int option"
  op_backendHealthCheckIntervalMs :: "int option"
  op_backendHealthMaxAgeMs :: "int option"
  op_backendHealthRequestTimeoutMs :: "int option"

record sync_env =
  sv_parseDate :: date_parser
  sv_hasher :: blob_hasher
  sv_expiryMarginSeconds :: int
  sv_maxBufferedEvents :: int
  sv_maxBufferedBytes :: int
  sv_maxSnapshotPages :: int
  sv_maxSnapshotOffers :: int
  sv_healthMaxAgeMs :: int

text \<open>A frame of the stream; the size is that of its JSON text. A field an event lacks, or that is not
  what its type says, is \<open>None\<close>.\<close>

record sse_event =
  sse_type :: string
  sse_offerHash :: "string option"
  sse_nullifier :: "string option"
  sse_bytes :: int

datatype currentness = Blocked blocked_reason nat | Current nat string int

datatype change_reason = Change_consumed | Change_expired | Change_resync

datatype book_change = Offer_added book_offer | Offer_removed string change_reason

datatype sync_mark =
  Told_change book_change
| Told_currentness currentness
| Reported
| Ready_resolved
| Ready_rejected
| Subscribed nat "string option"
| Unsubscribed nat
| Event_received sse_event
| Event_applied sse_event
| Detail_read string "api_failure + http_answer"
| Walk_began nat
| Snapshot_applied nat "book_offer list"
| Swept int

datatype sync_task = Run_event sse_event | Run_initial | Run_stage | Run_install backend_health nat

datatype awaiting =
  Event_detail string
| Initial_preflight nat
| Initial_walk nat
| Initial_verdict nat "book_offer list"
| Initial_detail nat backend_health "sse_event list" string
| Stage_walk nat
| Stage_verdict nat "book_offer list"

datatype resync_runner =
  Awaiting_stage nat
| Staged nat "(sync_error + backend_health \<times> nat) option"
| Awaiting_install nat
| Installed nat "sync_error option"

record book_sync =
  sy_book :: book
  sy_stopped :: bool
  sy_buffering :: bool
  sy_buffered :: "sse_event list"
  sy_bufferedBytes :: int
  sy_overflowed :: bool
  sy_connected :: bool
  sy_generation :: nat
  sy_anchor :: "string option"
  sy_currentness :: currentness
  sy_notified :: bool
  sy_readySettled :: bool
  sy_readinessArmed :: bool
  sy_queue :: "sync_task list"
  sy_running :: "awaiting option"
  sy_initialAttempt :: bool
  sy_retryInitial :: bool
  sy_runner :: "resync_runner option"
  sy_requested :: nat
  sy_completed :: nat
  sy_healthCheck :: "nat option"
  sy_expiry :: "(nat \<times> int) option"
  sy_trace :: "sync_mark list"

definition note_mark :: "sync_mark \<Rightarrow> book_sync \<Rightarrow> book_sync" where
  "note_mark m s = s\<lparr>sy_trace := sy_trace s @ [m]\<rparr>"

section \<open>Currentness\<close>

fun currentness_changed :: "currentness \<Rightarrow> currentness \<Rightarrow> bool" where
  "currentness_changed (Blocked r g) (Blocked r' g') \<longleftrightarrow> g \<noteq> g' \<or> r \<noteq> r'"
| "currentness_changed (Current g l2 ts) (Current g' l2' ts') \<longleftrightarrow> g \<noteq> g' \<or> l2 \<noteq> l2'"
| "currentness_changed _ _ \<longleftrightarrow> True"

definition publishCurrentness :: "currentness \<Rightarrow> book_sync \<Rightarrow> book_sync" where
  "publishCurrentness next s =
     (let changed = currentness_changed (sy_currentness s) next;
          s1 = s\<lparr>sy_currentness := next\<rparr>
      in if \<not> sy_notified s \<or> changed then note_mark (Told_currentness next) (s1\<lparr>sy_notified := True\<rparr>) else s1)"

definition setBlocked :: "blocked_reason \<Rightarrow> book_sync \<Rightarrow> book_sync" where
  "setBlocked reason s =
     (if sy_stopped s \<and> reason \<noteq> Stopped then s
      else publishCurrentness (Blocked reason (sy_generation s)) (s\<lparr>sy_expiry := None\<rparr>))"

definition healthIsFresh :: "sync_env \<Rightarrow> backend_health \<Rightarrow> int \<Rightarrow> bool" where
  "healthIsFresh env health now \<longleftrightarrow> now - sv_healthMaxAgeMs env \<le> bh_ts health \<and> bh_ts health \<le> now + sv_healthMaxAgeMs env"

definition health_height :: "backend_health \<Rightarrow> string" where
  "health_height health = (case bh_blockL2 health of None \<Rightarrow> [] | Some h \<Rightarrow> h)"

definition installCurrent :: "sync_env \<Rightarrow> backend_health \<Rightarrow> nat \<Rightarrow> int \<Rightarrow> book_sync \<Rightarrow> sync_error option \<times> book_sync" where
  "installCurrent env health generation now s =
     (if \<not> healthIsFresh env health now then (Some (Currentness_error Health_stale), s)
      else if \<not> sy_connected s \<or> generation \<noteq> sy_generation s then (Some (Currentness_error Generation_superseded), s)
      else if (case sy_anchor s of None \<Rightarrow> False | Some anchor \<Rightarrow> \<not> heightAtLeast (health_height health) anchor)
      then (Some (Currentness_error Backend_rewound), s)
      else (None, publishCurrentness (Current generation (health_height health) (bh_ts health))
                    (s\<lparr>sy_expiry := Some (generation, bh_ts health)\<rparr>)))"

definition currentnessFailure :: "sync_error \<Rightarrow> blocked_reason" where
  "currentnessFailure e = (case e of
     Currentness_error reason \<Rightarrow> reason
   | Api_error kind \<Rightarrow> if kind = Api_malformed then Health_malformed else Health_unavailable
   | Other_error \<Rightarrow> Health_unavailable)"

definition readFreshHealth :: "sync_env \<Rightarrow> nat \<Rightarrow> backend_health api_result \<Rightarrow> int \<Rightarrow> book_sync \<Rightarrow> blocked_reason + backend_health" where
  "readFreshHealth env generation answer now s = (case answer of
     Inl e \<Rightarrow> Inl (currentnessFailure (Api_error e))
   | Inr health \<Rightarrow>
       if sy_stopped s \<or> \<not> sy_connected s \<or> generation \<noteq> sy_generation s then Inl Generation_superseded
       else if \<not> reportsBackendProjectionCurrent health
       then Inl (if bh_status health = Sync_syncing then Backend_syncing else Backend_error)
       else if \<not> healthIsFresh env health now then Inl Health_stale
       else Inr health)"

section \<open>Applying changes\<close>

definition emit_change :: "book_change \<Rightarrow> book_sync \<Rightarrow> book_sync" where
  "emit_change change s = (if sy_stopped s then s else note_mark (Told_change change) s)"

definition removeAndEmit :: "string \<Rightarrow> change_reason \<Rightarrow> book_sync \<Rightarrow> book_sync" where
  "removeAndEmit offerHash reason s =
     (if removed_by (sy_book s) offerHash
      then emit_change (Offer_removed offerHash reason) (s\<lparr>sy_book := book_remove offerHash (sy_book s)\<rparr>)
      else s)"

definition emit_removals :: "change_reason \<Rightarrow> string list \<Rightarrow> book_sync \<Rightarrow> book_sync" where
  "emit_removals reason hashes s = fold (\<lambda>h. emit_change (Offer_removed h reason)) hashes s"

datatype applied = Applied | Fetching string | Apply_failed

definition truthy :: "string option \<Rightarrow> string option" where
  "truthy v = (case v of Some (c # cs) \<Rightarrow> Some (c # cs) | _ \<Rightarrow> None)"

text \<open>\<open>applyEvent\<close> up to the detail fetch of an indexed offer; \<open>addByHash\<close> up to its await.\<close>

definition apply_event :: "sse_event \<Rightarrow> book_sync \<Rightarrow> applied \<times> book_sync" where
  "apply_event ev s0 =
     (if sy_stopped s0 then (Applied, s0)
      else (let s = note_mark (Event_applied ev) s0 in
        if sse_type ev = ''offer_indexed'' then
          (case sse_offerHash ev of
             None \<Rightarrow> (Apply_failed, s)
           | Some h \<Rightarrow> if book_get (sy_book s) (toLowerCase h) \<noteq> None then (Applied, s) else (Fetching (toLowerCase h), s))
        else if sse_type ev = ''offer_consumed'' then
          (let s1 = (case truthy (sse_offerHash ev) of
                None \<Rightarrow> s | Some h \<Rightarrow> removeAndEmit (toLowerCase h) Change_consumed s);
               s2 = (case truthy (sse_nullifier ev) of
                None \<Rightarrow> s1
              | Some n \<Rightarrow> (let (hashes, b) = removeByNullifier n (sy_book s1)
                           in emit_removals Change_consumed hashes (s1\<lparr>sy_book := b\<rparr>)))
           in (Applied, s2))
        else if sse_type ev = ''offer_expired'' then
          (Applied, (case truthy (sse_offerHash ev) of
                None \<Rightarrow> s | Some h \<Rightarrow> removeAndEmit (toLowerCase h) Change_expired s))
        else (Applied, s)))"

text \<open>The rest of \<open>addByHash\<close> once the detail is there.\<close>

definition add_fetched :: "sync_env \<Rightarrow> string \<Rightarrow> api_failure + http_answer \<Rightarrow> book_sync \<Rightarrow> bool \<times> book_sync" where
  "add_fetched env offerHash answer s0 =
     (let s = note_mark (Detail_read offerHash answer) s0
      in case bindR answer (getZswapByHash (sv_hasher env) offerHash) of
        Inl e \<Rightarrow> (False, s)
      | Inr detail \<Rightarrow>
          if sy_stopped s then (True, s)
          else (case bookOfferFromApi (sv_parseDate env) detail of
             None \<Rightarrow> (True, s)
           | Some parsed \<Rightarrow> (True, emit_change (Offer_added parsed) (s\<lparr>sy_book := book_upsert parsed (sy_book s)\<rparr>))))"

definition emit_added :: "string \<Rightarrow> book_sync \<Rightarrow> book_sync" where
  "emit_added h s = (case book_get (sy_book s) h of None \<Rightarrow> s | Some offer \<Rightarrow> emit_change (Offer_added offer) s)"

definition applySnapshot :: "nat \<Rightarrow> book_offer list \<Rightarrow> book_sync \<Rightarrow> book_sync" where
  "applySnapshot generation offers s =
     (if sy_stopped s then s
      else (let (diff, b) = resync offers (sy_book s);
                s1 = note_mark (Snapshot_applied generation offers) (s\<lparr>sy_book := b\<rparr>);
                s2 = emit_removals Change_resync (rd_removed diff) s1;
                s3 = fold (\<lambda>h s. emit_added h (emit_change (Offer_removed h Change_resync) s)) (rd_updated diff) s2
            in fold emit_added (rd_added diff) s3))"

section \<open>The queue and the initial attempt\<close>

definition enqueue :: "sync_task \<Rightarrow> book_sync \<Rightarrow> book_sync" where
  "enqueue task s = s\<lparr>sy_queue := sy_queue s @ [task]\<rparr>"

definition finish_task :: "book_sync \<Rightarrow> book_sync" where
  "finish_task s = s\<lparr>sy_running := None\<rparr>"

definition clear_buffer :: "book_sync \<Rightarrow> book_sync" where
  "clear_buffer s = s\<lparr>sy_buffered := [], sy_bufferedBytes := 0, sy_overflowed := False\<rparr>"

definition ensureInitialSync :: "book_sync \<Rightarrow> book_sync" where
  "ensureInitialSync s =
     (if sy_readySettled s \<or> sy_stopped s then s
      else if \<not> sy_connected s \<or> sy_generation s = 0 then s
      else if sy_initialAttempt s then s
      else enqueue Run_initial (s\<lparr>sy_initialAttempt := True\<rparr>))"

text \<open>An attempt's task has ended: a failure is reported by the queue and keeps the stream buffered, and
  a reconnection noted meanwhile starts the next attempt.\<close>

definition attempt_ended :: "bool \<Rightarrow> book_sync \<Rightarrow> book_sync" where
  "attempt_ended failed s =
     (let s1 = (if failed then note_mark Reported (s\<lparr>sy_buffering := True\<rparr>) else s);
          s2 = (finish_task s1)\<lparr>sy_initialAttempt := False\<rparr>
      in if \<not> sy_retryInitial s2 then s2
         else (let s3 = s2\<lparr>sy_retryInitial := False\<rparr> in
           if sy_buffering s3 \<and> \<not> sy_stopped s3 \<and> \<not> sy_readySettled s3 then ensureInitialSync s3 else s3))"

definition attempt_failed :: "blocked_reason \<Rightarrow> book_sync \<Rightarrow> book_sync" where
  "attempt_failed reason s = attempt_ended True (setBlocked reason s)"

text \<open>One turn of the attempt's loop up to its first await.\<close>

definition attempt_turn :: "book_sync \<Rightarrow> book_sync" where
  "attempt_turn s =
     (if \<not> sy_connected s then attempt_failed Generation_superseded s
      else s\<lparr>sy_running := Some (Initial_preflight (sy_generation s))\<rparr>)"

definition superseded :: "nat \<Rightarrow> book_sync \<Rightarrow> bool" where
  "superseded generation s \<longleftrightarrow> \<not> sy_connected s \<or> generation \<noteq> sy_generation s"

datatype drained = Batch_done | Batch_waits string "sse_event list" | Batch_failed

fun drain_batch :: "nat \<Rightarrow> sse_event list \<Rightarrow> book_sync \<Rightarrow> drained \<times> book_sync" where
  "drain_batch generation [] s = (Batch_done, s)"
| "drain_batch generation (ev # batch) s = (case apply_event ev s of
     (Applied, s1) \<Rightarrow>
       (if sy_stopped s1 \<or> sy_overflowed s1 \<or> superseded generation s1 then (Batch_done, s1)
        else drain_batch generation batch s1)
   | (Fetching h, s1) \<Rightarrow> (Batch_waits h batch, s1)
   | (Apply_failed, s1) \<Rightarrow> (Batch_failed, s1))"

text \<open>The end of the attempt: the buffer is empty, or what was drained is of no use any more.\<close>

definition attempt_install :: "sync_env \<Rightarrow> nat \<Rightarrow> backend_health \<Rightarrow> int \<Rightarrow> book_sync \<Rightarrow> book_sync" where
  "attempt_install env generation health now s =
     (if sy_overflowed s \<or> superseded generation s
      then (let s1 = clear_buffer s
            in if superseded generation s1 then attempt_ended False s1 else attempt_turn s1)
      else (case installCurrent env health generation now s of
         (Some e, s1) \<Rightarrow> attempt_failed (currentnessFailure e) s1
       | (None, s1) \<Rightarrow> attempt_ended False (note_mark Ready_resolved
           (s1\<lparr>sy_buffering := False, sy_readySettled := True, sy_readinessArmed := False\<rparr>))))"

text \<open>The drain loop. No event arrives while a batch runs without waiting, so the buffer is empty after
  it and the loop takes at most one batch here; what arrives during a wait is the next batch.\<close>

definition drain_pending :: "nat \<Rightarrow> book_sync \<Rightarrow> bool" where
  "drain_pending generation s \<longleftrightarrow> sy_buffered s \<noteq> [] \<and> \<not> sy_overflowed s \<and> \<not> superseded generation s"

definition take_batch :: "book_sync \<Rightarrow> book_sync" where
  "take_batch s = s\<lparr>sy_buffered := [], sy_bufferedBytes := 0\<rparr>"

definition after_batch :: "sync_env \<Rightarrow> nat \<Rightarrow> backend_health \<Rightarrow> int \<Rightarrow> drained \<times> book_sync \<Rightarrow> (book_sync \<Rightarrow> book_sync) \<Rightarrow> book_sync" where
  "after_batch env generation health now r continue = (case r of
     (Batch_waits h batch, s) \<Rightarrow> s\<lparr>sy_running := Some (Initial_detail generation health batch h)\<rparr>
   | (Batch_failed, s) \<Rightarrow> attempt_ended True s
   | (Batch_done, s) \<Rightarrow> if sy_stopped s then attempt_ended False s else continue s)"

definition drain_once :: "sync_env \<Rightarrow> nat \<Rightarrow> backend_health \<Rightarrow> int \<Rightarrow> (book_sync \<Rightarrow> book_sync) \<Rightarrow> book_sync \<Rightarrow> book_sync" where
  "drain_once env generation health now continue s =
     (if drain_pending generation s
      then after_batch env generation health now (drain_batch generation (sy_buffered s) (take_batch s)) continue
      else attempt_install env generation health now s)"

definition drain_loop :: "sync_env \<Rightarrow> nat \<Rightarrow> backend_health \<Rightarrow> int \<Rightarrow> book_sync \<Rightarrow> book_sync" where
  "drain_loop env generation health now s =
     drain_once env generation health now (attempt_install env generation health now) s"

text \<open>The answers the attempt awaits.\<close>

definition attempt_preflight :: "sync_env \<Rightarrow> nat \<Rightarrow> backend_health api_result \<Rightarrow> int \<Rightarrow> book_sync \<Rightarrow> book_sync" where
  "attempt_preflight env generation answer now s = (case readFreshHealth env generation answer now s of
     Inl reason \<Rightarrow> attempt_failed reason s
   | Inr _ \<Rightarrow> (note_mark (Walk_began generation) s)\<lparr>sy_running := Some (Initial_walk generation)\<rparr>)"

definition fetchSnapshot :: "sync_env \<Rightarrow> page_source \<Rightarrow> sync_error + book_offer list" where
  "fetchSnapshot env source = fetchWholeBook (sv_parseDate env) source (Some (sv_maxSnapshotPages env)) (Some (sv_maxSnapshotOffers env))"

definition attempt_walk :: "sync_env \<Rightarrow> nat \<Rightarrow> page_source \<Rightarrow> book_sync \<Rightarrow> book_sync" where
  "attempt_walk env generation source s = (case fetchSnapshot env source of
     Inl e \<Rightarrow> attempt_failed (currentnessFailure e) s
   | Inr offers \<Rightarrow> s\<lparr>sy_running := Some (Initial_verdict generation offers)\<rparr>)"

definition attempt_verdict :: "sync_env \<Rightarrow> nat \<Rightarrow> book_offer list \<Rightarrow> backend_health api_result \<Rightarrow> int \<Rightarrow> book_sync \<Rightarrow> book_sync" where
  "attempt_verdict env generation offers answer now s = (case readFreshHealth env generation answer now s of
     Inl reason \<Rightarrow> attempt_failed reason s
   | Inr health \<Rightarrow>
       (let s1 = applySnapshot generation offers s in
        if sy_stopped s1 then attempt_ended False s1
        else if superseded generation s1 then attempt_ended False (clear_buffer s1)
        else if sy_overflowed s1 then attempt_turn (clear_buffer s1)
        else drain_loop env generation health now s1))"

definition attempt_detail :: "sync_env \<Rightarrow> nat \<Rightarrow> backend_health \<Rightarrow> sse_event list \<Rightarrow> string
    \<Rightarrow> api_failure + http_answer \<Rightarrow> int \<Rightarrow> book_sync \<Rightarrow> book_sync" where
  "attempt_detail env generation health batch h answer now s = (case add_fetched env h answer s of
     (False, s1) \<Rightarrow> attempt_ended True s1
   | (True, s1) \<Rightarrow> after_batch env generation health now
       (if sy_stopped s1 \<or> sy_overflowed s1 \<or> superseded generation s1 then (Batch_done, s1)
        else drain_batch generation batch s1)
       (drain_loop env generation health now))"

section \<open>Resyncs after readiness\<close>

definition begin_stage :: "book_sync \<Rightarrow> book_sync" where
  "begin_stage s = enqueue Run_stage (s\<lparr>sy_runner := Some (Awaiting_stage (sy_requested s))\<rparr>)"

definition more_requested :: "book_sync \<Rightarrow> bool" where
  "more_requested s \<longleftrightarrow> \<not> sy_stopped s \<and> sy_completed s < sy_requested s"

text \<open>The runner has ended; a failure is reported, and a trigger not served yet starts another runner.\<close>

definition runner_ended :: "bool \<Rightarrow> book_sync \<Rightarrow> book_sync" where
  "runner_ended failed s =
     (let s1 = (if failed then note_mark Reported s else s)\<lparr>sy_runner := None\<rparr>
      in if more_requested s1 then begin_stage s1 else s1)"

definition runner_loop :: "book_sync \<Rightarrow> book_sync" where
  "runner_loop s = (if more_requested s then begin_stage s else runner_ended False s)"

definition runner_catch :: "nat \<Rightarrow> blocked_reason \<Rightarrow> book_sync \<Rightarrow> book_sync" where
  "runner_catch target reason s =
     (let s1 = s\<lparr>sy_completed := target\<rparr>
      in if reason \<noteq> Generation_superseded \<or> sy_requested s \<le> target then runner_ended True s1 else runner_loop s1)"

definition schedulePostReadyResync :: "book_sync \<Rightarrow> book_sync" where
  "schedulePostReadyResync s =
     (if sy_stopped s then s
      else (let s1 = s\<lparr>sy_requested := Suc (sy_requested s)\<rparr>
            in if sy_runner s1 \<noteq> None then s1 else runner_loop s1))"

definition runner_resumes :: "book_sync \<Rightarrow> book_sync" where
  "runner_resumes s = (case sy_runner s of
     Some (Staged target None) \<Rightarrow> runner_catch target Generation_superseded s
   | Some (Staged target (Some (Inl e))) \<Rightarrow> runner_catch target (currentnessFailure e) s
   | Some (Staged target (Some (Inr (health, generation)))) \<Rightarrow>
       enqueue (Run_install health generation) (s\<lparr>sy_runner := Some (Awaiting_install target)\<rparr>)
   | Some (Installed target None) \<Rightarrow> runner_loop (s\<lparr>sy_completed := target\<rparr>)
   | Some (Installed target (Some e)) \<Rightarrow> runner_catch target (currentnessFailure e) s
   | _ \<Rightarrow> s)"

definition runner_target :: "book_sync \<Rightarrow> nat" where
  "runner_target s = (case sy_runner s of
     Some (Awaiting_stage t) \<Rightarrow> t | Some (Staged t _) \<Rightarrow> t | Some (Awaiting_install t) \<Rightarrow> t | Some (Installed t _) \<Rightarrow> t
   | None \<Rightarrow> 0)"

definition stage_ended :: "(sync_error + backend_health \<times> nat) option \<Rightarrow> book_sync \<Rightarrow> book_sync" where
  "stage_ended result s = (finish_task s)\<lparr>sy_runner := Some (Staged (runner_target s) result)\<rparr>"

definition stage_failed :: "blocked_reason \<Rightarrow> book_sync \<Rightarrow> book_sync" where
  "stage_failed reason s =
     stage_ended (Some (Inl (Currentness_error reason))) (note_mark Reported (setBlocked reason s))"

definition stage_begins :: "book_sync \<Rightarrow> book_sync" where
  "stage_begins s =
     (if \<not> sy_connected s then stage_failed Generation_superseded s
      else (note_mark (Walk_began (sy_generation s)) s)\<lparr>sy_running := Some (Stage_walk (sy_generation s))\<rparr>)"

definition stage_walk :: "sync_env \<Rightarrow> nat \<Rightarrow> page_source \<Rightarrow> book_sync \<Rightarrow> book_sync" where
  "stage_walk env generation source s = (case fetchSnapshot env source of
     Inl e \<Rightarrow> stage_failed (currentnessFailure e) s
   | Inr offers \<Rightarrow> s\<lparr>sy_running := Some (Stage_verdict generation offers)\<rparr>)"

definition stage_verdict :: "sync_env \<Rightarrow> nat \<Rightarrow> book_offer list \<Rightarrow> backend_health api_result \<Rightarrow> int \<Rightarrow> book_sync \<Rightarrow> book_sync" where
  "stage_verdict env generation offers answer now s = (case readFreshHealth env generation answer now s of
     Inl reason \<Rightarrow> stage_failed reason s
   | Inr health \<Rightarrow>
       if sy_stopped s then stage_failed Generation_superseded s
       else stage_ended (Some (Inr (health, generation))) (applySnapshot generation offers s))"

definition install_ended :: "sync_error option \<Rightarrow> book_sync \<Rightarrow> book_sync" where
  "install_ended result s = (finish_task s)\<lparr>sy_runner := Some (Installed (runner_target s) result)\<rparr>"

definition install_runs :: "sync_env \<Rightarrow> backend_health \<Rightarrow> nat \<Rightarrow> int \<Rightarrow> book_sync \<Rightarrow> book_sync" where
  "install_runs env health generation now s = (case installCurrent env health generation now s of
     (None, s1) \<Rightarrow> install_ended None s1
   | (Some e, s1) \<Rightarrow>
       (let reason = currentnessFailure e
        in install_ended (Some (Currentness_error reason)) (note_mark Reported (setBlocked reason s1))))"

section \<open>Tasks\<close>

definition event_runs :: "sse_event \<Rightarrow> book_sync \<Rightarrow> book_sync" where
  "event_runs ev s = (case apply_event ev s of
     (Applied, s1) \<Rightarrow> finish_task s1
   | (Fetching h, s1) \<Rightarrow> s1\<lparr>sy_running := Some (Event_detail h)\<rparr>
   | (Apply_failed, s1) \<Rightarrow> finish_task (note_mark Reported s1))"

definition event_detail :: "sync_env \<Rightarrow> string \<Rightarrow> api_failure + http_answer \<Rightarrow> book_sync \<Rightarrow> book_sync" where
  "event_detail env h answer s = (case add_fetched env h answer s of
     (True, s1) \<Rightarrow> finish_task s1
   | (False, s1) \<Rightarrow> finish_task (note_mark Reported s1))"

text \<open>The wrapper \<open>enqueue\<close> puts around every task: after stop it ends without doing anything.\<close>

definition task_skipped :: "sync_task \<Rightarrow> book_sync \<Rightarrow> book_sync" where
  "task_skipped task s = (case task of
     Run_event _ \<Rightarrow> finish_task s
   | Run_initial \<Rightarrow> attempt_ended False s
   | Run_stage \<Rightarrow> stage_ended None s
   | Run_install _ _ \<Rightarrow> install_ended None s)"

definition task_runs :: "sync_env \<Rightarrow> sync_task \<Rightarrow> int \<Rightarrow> book_sync \<Rightarrow> book_sync" where
  "task_runs env task now s =
     (if sy_stopped s then task_skipped task s
      else (case task of
         Run_event ev \<Rightarrow> event_runs ev s
       | Run_initial \<Rightarrow> attempt_turn s
       | Run_stage \<Rightarrow> stage_begins s
       | Run_install health generation \<Rightarrow> install_runs env health generation now s))"

definition next_task :: "sync_env \<Rightarrow> int \<Rightarrow> book_sync \<Rightarrow> book_sync" where
  "next_task env now s = (case (sy_running s, sy_queue s) of
     (None, task # rest) \<Rightarrow> task_runs env task now (s\<lparr>sy_queue := rest\<rparr>)
   | _ \<Rightarrow> s)"

datatype task_answer =
  Health_answered "backend_health api_result"
| Pages_answered page_source
| Detail_answered "api_failure + http_answer"

definition task_answered :: "sync_env \<Rightarrow> task_answer \<Rightarrow> int \<Rightarrow> book_sync \<Rightarrow> book_sync" where
  "task_answered env answer now s = (case (sy_running s, answer) of
     (Some (Event_detail h), Detail_answered a) \<Rightarrow> event_detail env h a s
   | (Some (Initial_preflight g), Health_answered a) \<Rightarrow> attempt_preflight env g a now s
   | (Some (Initial_walk g), Pages_answered a) \<Rightarrow> attempt_walk env g a s
   | (Some (Initial_verdict g offers), Health_answered a) \<Rightarrow> attempt_verdict env g offers a now s
   | (Some (Initial_detail g health batch h), Detail_answered a) \<Rightarrow> attempt_detail env g health batch h a now s
   | (Some (Stage_walk g), Pages_answered a) \<Rightarrow> stage_walk env g a s
   | (Some (Stage_verdict g offers), Health_answered a) \<Rightarrow> stage_verdict env g offers a now s
   | _ \<Rightarrow> s)"

section \<open>The stream, the timers and the handle\<close>

definition stream_event :: "sync_env \<Rightarrow> sse_event \<Rightarrow> book_sync \<Rightarrow> book_sync" where
  "stream_event env ev s0 =
     (let s = note_mark (Event_received ev) s0 in
      if sy_buffering s then
        (if sy_overflowed s then s
         else if int (length (sy_buffered s)) \<ge> sv_maxBufferedEvents env
              \<or> sse_bytes ev > sv_maxBufferedBytes env - sy_bufferedBytes s
         then note_mark Reported (s\<lparr>sy_overflowed := True, sy_buffered := [], sy_bufferedBytes := 0\<rparr>)
         else s\<lparr>sy_buffered := sy_buffered s @ [ev], sy_bufferedBytes := sy_bufferedBytes s + sse_bytes ev\<rparr>)
      else enqueue (Run_event ev) s)"

definition stream_open :: "string option \<Rightarrow> book_sync \<Rightarrow> book_sync" where
  "stream_open height s =
     (let s1 = note_mark (Subscribed (Suc (sy_generation s)) height)
            (s\<lparr>sy_connected := True, sy_generation := Suc (sy_generation s), sy_anchor := height\<rparr>)
      in if sy_buffering s1
         then ensureInitialSync (if sy_initialAttempt s1 then s1\<lparr>sy_retryInitial := True\<rparr> else s1)
         else schedulePostReadyResync (setBlocked Stream_generation_changed s1))"

definition stream_disconnect :: "book_sync \<Rightarrow> book_sync" where
  "stream_disconnect s =
     (let s1 = setBlocked Stream_disconnected (note_mark (Unsubscribed (Suc (sy_generation s)))
            (s\<lparr>sy_connected := False, sy_generation := Suc (sy_generation s), sy_anchor := None\<rparr>))
      in if sy_buffering s1 then clear_buffer s1 else s1)"

definition scheduleHealthCheck :: "book_sync \<Rightarrow> book_sync" where
  "scheduleHealthCheck s =
     (if sy_stopped s \<or> \<not> sy_connected s then s
      else if sy_buffering s then ensureInitialSync s
      else if sy_runner s \<noteq> None then s
      else if sy_healthCheck s \<noteq> None then s
      else s\<lparr>sy_healthCheck := Some (sy_generation s)\<rparr>)"

definition is_current_state :: "currentness \<Rightarrow> bool" where
  "is_current_state c = (case c of Current _ _ _ \<Rightarrow> True | Blocked _ _ \<Rightarrow> False)"

text \<open>The health check's request has settled; the flag asks for a snapshot, in the same generation only.\<close>

definition health_verdict :: "sync_env \<Rightarrow> nat \<Rightarrow> backend_health api_result \<Rightarrow> int \<Rightarrow> book_sync \<Rightarrow> bool \<times> book_sync" where
  "health_verdict env generation answer now s =
     (let blocked = (\<lambda>reason s. if generation = sy_generation s then setBlocked reason s else s)
      in case readFreshHealth env generation answer now s of
        Inl reason \<Rightarrow> (False, blocked reason s)
      | Inr health \<Rightarrow>
          if is_current_state (sy_currentness s)
          then (case installCurrent env health generation now s of
             (None, s1) \<Rightarrow> (False, s1)
           | (Some e, s1) \<Rightarrow> (False, blocked (currentnessFailure e) s1))
          else (True, s))"

definition health_answered :: "sync_env \<Rightarrow> backend_health api_result \<Rightarrow> int \<Rightarrow> book_sync \<Rightarrow> book_sync" where
  "health_answered env answer now s = (case sy_healthCheck s of
     None \<Rightarrow> s
   | Some generation \<Rightarrow>
       (let (recover, s1) = health_verdict env generation answer now s;
            s2 = s1\<lparr>sy_healthCheck := None\<rparr>
        in if recover \<and> \<not> sy_stopped s2 \<and> generation = sy_generation s2 then schedulePostReadyResync s2 else s2))"

definition stopSynchronization :: "book_sync \<Rightarrow> book_sync" where
  "stopSynchronization s =
     (if sy_stopped s then s
      else (let s1 = setBlocked Stopped (s\<lparr>sy_stopped := True\<rparr>);
                s2 = s1\<lparr>sy_expiry := None, sy_readinessArmed := False, sy_buffered := [], sy_bufferedBytes := 0\<rparr>
            in if sy_readySettled s2 then s2 else note_mark Ready_rejected (s2\<lparr>sy_readySettled := True\<rparr>)))"

definition expiry_due :: "book_sync \<Rightarrow> book_sync" where
  "expiry_due s = (case sy_expiry s of
     None \<Rightarrow> s
   | Some (generation, ts) \<Rightarrow>
       (let s1 = s\<lparr>sy_expiry := None\<rparr>
        in case sy_currentness s1 of
          Current g _ healthTs \<Rightarrow>
            if g = generation \<and> healthTs = ts then scheduleHealthCheck (setBlocked Health_stale s1) else s1
        | Blocked _ _ \<Rightarrow> s1))"

definition readiness_due :: "book_sync \<Rightarrow> book_sync" where
  "readiness_due s = (if sy_readinessArmed s then stopSynchronization s else s)"

definition resync_now :: "book_sync \<Rightarrow> book_sync" where
  "resync_now s = (if sy_buffering s then ensureInitialSync s else schedulePostReadyResync s)"

definition resync_due :: "book_sync \<Rightarrow> book_sync" where
  "resync_due s = (if sy_stopped s then s else resync_now s)"

definition health_due :: "book_sync \<Rightarrow> book_sync" where
  "health_due s = (if sy_stopped s then s else scheduleHealthCheck s)"

definition sweep_due :: "sync_env \<Rightarrow> int \<Rightarrow> book_sync \<Rightarrow> book_sync" where
  "sweep_due env now s =
     (if sy_stopped s then s
      else (let (hashes, b) = sweepExpired now (sv_expiryMarginSeconds env) (sy_book s)
            in emit_removals Change_expired hashes (note_mark (Swept now) (s\<lparr>sy_book := b\<rparr>))))"

definition isCurrent :: "book_sync \<Rightarrow> bool" where
  "isCurrent s \<longleftrightarrow> is_current_state (sy_currentness s) \<and> \<not> sy_stopped s"

datatype sync_input =
  Stream_event sse_event
| Stream_opened "string option"
| Stream_disconnected_input
| Next_task int
| Task_answered task_answer int
| Runner_resumes
| Health_check_answered "backend_health api_result" int
| Expiry_due
| Readiness_due
| Resync_due
| Health_due
| Sweep_due int
| Resync_called
| Stop_called

fun sync_step :: "sync_env \<Rightarrow> sync_input \<Rightarrow> book_sync \<Rightarrow> book_sync" where
  "sync_step env (Stream_event ev) s = stream_event env ev s"
| "sync_step env (Stream_opened height) s = stream_open height s"
| "sync_step env Stream_disconnected_input s = stream_disconnect s"
| "sync_step env (Next_task now) s = next_task env now s"
| "sync_step env (Task_answered answer now) s = task_answered env answer now s"
| "sync_step env Runner_resumes s = runner_resumes s"
| "sync_step env (Health_check_answered answer now) s = health_answered env answer now s"
| "sync_step env Expiry_due s = expiry_due s"
| "sync_step env Readiness_due s = readiness_due s"
| "sync_step env Resync_due s = resync_due s"
| "sync_step env Health_due s = health_due s"
| "sync_step env (Sweep_due now) s = sweep_due env now s"
| "sync_step env Resync_called s = resync_now s"
| "sync_step env Stop_called s = stopSynchronization s"

section \<open>Starting\<close>

definition option_or :: "'a option \<Rightarrow> 'a \<Rightarrow> 'a" where
  "option_or v d = (case v of None \<Rightarrow> d | Some x \<Rightarrow> x)"

definition start_state :: "book \<Rightarrow> book_sync" where
  "start_state b = publishCurrentness (Blocked Initializing 0)
     \<lparr>sy_book = b, sy_stopped = False, sy_buffering = True, sy_buffered = [], sy_bufferedBytes = 0, sy_overflowed = False,
      sy_connected = False, sy_generation = 0, sy_anchor = None, sy_currentness = Blocked Initializing 0,
      sy_notified = False, sy_readySettled = False, sy_readinessArmed = True, sy_queue = [], sy_running = None,
      sy_initialAttempt = False, sy_retryInitial = False, sy_runner = None, sy_requested = 0, sy_completed = 0,
      sy_healthCheck = None, sy_expiry = None, sy_trace = []\<rparr>"

definition startBookSync :: "date_parser \<Rightarrow> blob_hasher \<Rightarrow> sync_options \<Rightarrow> book option \<Rightarrow> (sync_env \<times> book_sync) result" where
  "startBookSync parseDate hasher opts book0 =
     (let maxAge = option_or (op_backendHealthMaxAgeMs opts) 15000;
          interval = option_or (op_backendHealthCheckIntervalMs opts) 5000;
          requestTimeout = option_or (op_backendHealthRequestTimeoutMs opts) (min 5000 maxAge);
          events = option_or (op_maxBufferedEvents opts) 1000;
          bytes = option_or (op_maxBufferedBytes opts) (4 * 1024 * 1024);
          pages = option_or (op_maxSnapshotPages opts) DEFAULT_MAX_SNAPSHOT_PAGES;
          offers = option_or (op_maxSnapshotOffers opts) DEFAULT_MAX_SNAPSHOT_OFFERS
      in if list_ex (\<lambda>n. \<not> limit_ok n) [option_or (op_resyncIntervalMs opts) 300000, events, bytes, pages, offers,
             option_or (op_readinessTimeoutMs opts) 180000, interval, maxAge, requestTimeout]
         then Inl (RangeError ''must be a positive safe integer'')
         else if interval \<ge> maxAge then Inl (RangeError ''backendHealthCheckIntervalMs'')
         else if requestTimeout > maxAge then Inl (RangeError ''backendHealthRequestTimeoutMs'')
         else Inr (\<lparr>sv_parseDate = parseDate, sv_hasher = hasher,
                sv_expiryMarginSeconds = option_or (op_expiryMarginSeconds opts) 120, sv_maxBufferedEvents = events,
                sv_maxBufferedBytes = bytes, sv_maxSnapshotPages = pages, sv_maxSnapshotOffers = offers,
                sv_healthMaxAgeMs = maxAge\<rparr>, start_state (option_or book0 empty_book)))"

definition run_sync :: "sync_env \<Rightarrow> sync_input list \<Rightarrow> book_sync \<Rightarrow> book_sync" where
  "run_sync env inputs s = fold (sync_step env) inputs s"

end
