(* ===== verification/Book_Sync_Correct.thy ===== *)
theory Book_Sync_Correct
  imports Book_Sync "HOL-Library.Sublist"
begin

text \<open>
  What the mirror promises. Whatever the order in which the stream, the timers, the queue and the
  backend's answers interleave: it calls itself current only on a live subscription whose snapshot it
  holds, with no update received since that snapshot began either lost or out of order.
\<close>

section \<open>The gap between snapshot and stream\<close>

text \<open>What the trace says of it: the events received since the walk in progress began, the last snapshot
  of this subscription with the events received since its walk began, and the events applied since it.\<close>

record gap =
  gp_walk :: "sse_event list option"
  gp_snapshot :: "(nat \<times> sse_event list) option"
  gp_applied :: "sse_event list"

definition gap_step :: "sync_mark \<Rightarrow> gap \<Rightarrow> gap" where
  "gap_step m g = (case m of
     Event_received e \<Rightarrow> g\<lparr>gp_walk := map_option (\<lambda>r. r @ [e]) (gp_walk g),
                           gp_snapshot := map_option (\<lambda>(n, r). (n, r @ [e])) (gp_snapshot g)\<rparr>
   | Event_applied e \<Rightarrow> g\<lparr>gp_applied := gp_applied g @ [e]\<rparr>
   | Walk_began n \<Rightarrow> g\<lparr>gp_walk := Some []\<rparr>
   | Snapshot_applied n offers \<Rightarrow> \<lparr>gp_walk = None, gp_snapshot = map_option (\<lambda>r. (n, r)) (gp_walk g), gp_applied = []\<rparr>
   | Subscribed n h \<Rightarrow> g\<lparr>gp_snapshot := None\<rparr>
   | Unsubscribed n \<Rightarrow> g\<lparr>gp_snapshot := None\<rparr>
   | _ \<Rightarrow> g)"

definition gap_of :: "sync_mark list \<Rightarrow> gap" where
  "gap_of trace = fold gap_step trace \<lparr>gp_walk = None, gp_snapshot = None, gp_applied = []\<rparr>"

lemma gap_of_snoc [simp]: "gap_of (trace @ [m]) = gap_step m (gap_of trace)"
  by (simp add: gap_of_def)

definition quiet_mark :: "sync_mark \<Rightarrow> bool" where
  "quiet_mark m = (case m of
     Told_change _ \<Rightarrow> True | Told_currentness _ \<Rightarrow> True | Reported \<Rightarrow> True | Ready_resolved \<Rightarrow> True
   | Ready_rejected \<Rightarrow> True | Detail_read _ _ \<Rightarrow> True | Swept _ \<Rightarrow> True | _ \<Rightarrow> False)"

lemma gap_step_quiet [simp]: "quiet_mark m \<Longrightarrow> gap_step m g = g"
  by (cases m) (simp_all add: quiet_mark_def gap_step_def)

text \<open>The events received and not yet applied, once the mirror is ready.\<close>

definition task_event :: "sync_task \<Rightarrow> sse_event list" where
  "task_event task = (case task of Run_event ev \<Rightarrow> [ev] | _ \<Rightarrow> [])"

definition waiting :: "book_sync \<Rightarrow> sse_event list" where
  "waiting s = concat (map task_event (sy_queue s))"

definition lossless :: "book_sync \<Rightarrow> bool" where
  "lossless s \<longleftrightarrow> (\<exists>received. gp_snapshot (gap_of (sy_trace s)) = Some (sy_generation s, received)
     \<and> suffix received (gp_applied (gap_of (sy_trace s)) @ waiting s))"

section \<open>What only tells\<close>

text \<open>Steps that change nothing but the book and what was told.\<close>

definition quiet :: "book_sync \<Rightarrow> book_sync \<Rightarrow> bool" where
  "quiet s s' \<longleftrightarrow> (\<exists>b t. s' = s\<lparr>sy_book := b, sy_trace := t\<rparr> \<and> gap_of t = gap_of (sy_trace s))"

lemma quietI: "gap_of t = gap_of (sy_trace s) \<Longrightarrow> quiet s (s\<lparr>sy_book := b, sy_trace := t\<rparr>)"
  unfolding quiet_def by blast

lemma quiet_refl [simp]: "quiet s s"
  unfolding quiet_def by (rule exI [of _ "sy_book s"], rule exI [of _ "sy_trace s"]) simp

lemma quiet_trans [trans]: "quiet s s' \<Longrightarrow> quiet s' s'' \<Longrightarrow> quiet s s''"
  unfolding quiet_def by (elim exE conjE) (rule exI, rule exI, rule conjI, simp, simp)

lemma quiet_fields:
  assumes "quiet s s'"
  shows "sy_stopped s' = sy_stopped s" "sy_buffering s' = sy_buffering s" "sy_buffered s' = sy_buffered s"
    "sy_bufferedBytes s' = sy_bufferedBytes s" "sy_overflowed s' = sy_overflowed s" "sy_connected s' = sy_connected s"
    "sy_generation s' = sy_generation s" "sy_anchor s' = sy_anchor s" "sy_currentness s' = sy_currentness s"
    "sy_readySettled s' = sy_readySettled s" "sy_queue s' = sy_queue s" "sy_running s' = sy_running s"
    "sy_initialAttempt s' = sy_initialAttempt s" "sy_retryInitial s' = sy_retryInitial s" "sy_runner s' = sy_runner s"
    "sy_healthCheck s' = sy_healthCheck s" "gap_of (sy_trace s') = gap_of (sy_trace s)"
  using assms unfolding quiet_def by auto

lemma quiet_mark_note: "quiet_mark m \<Longrightarrow> quiet s (note_mark m s)"
  unfolding quiet_def note_mark_def by (rule exI [of _ "sy_book s"], rule exI [of _ "sy_trace s @ [m]"]) simp

lemma quiet_book: "quiet s (s\<lparr>sy_book := b\<rparr>)"
  unfolding quiet_def by (rule exI [of _ b], rule exI [of _ "sy_trace s"]) simp

lemma quiet_emit: "quiet s (emit_change c s)"
  by (simp add: emit_change_def quiet_mark_note quiet_mark_def)

lemma quiet_removeAndEmit: "quiet s (removeAndEmit h r s)"
  using quiet_trans [OF quiet_book quiet_emit] by (simp add: removeAndEmit_def)

lemma quiet_fold: "(\<And>x s. quiet s (f x s)) \<Longrightarrow> quiet s (fold f xs s)"
proof (induction xs arbitrary: s)
  case (Cons x xs)
  have "quiet s (f x s)" by (rule Cons.prems)
  also have "quiet (f x s) (fold f xs (f x s))" using Cons by blast
  finally show ?case by simp
qed simp

lemma quiet_removals: "quiet s (emit_removals r hs s)"
  unfolding emit_removals_def by (rule quiet_fold) (rule quiet_emit)

lemma quiet_emit_added: "quiet s (emit_added h s)"
  by (auto simp: emit_added_def quiet_emit split: option.split)

text \<open>Applying an event or a snapshot is its mark, and quiet after it.\<close>

lemma apply_event_marked:
  assumes "\<not> sy_stopped s"
  shows "quiet (note_mark (Event_applied ev) s) (snd (apply_event ev s))"
proof -
  let ?s = "note_mark (Event_applied ev) s"
  define s1 where "s1 = (case truthy (sse_offerHash ev) of None \<Rightarrow> ?s | Some h \<Rightarrow> removeAndEmit (toLowerCase h) Change_consumed ?s)"
  have s1: "quiet ?s s1" by (auto simp: s1_def quiet_removeAndEmit split: option.split)
  have s2: "quiet ?s (case truthy (sse_nullifier ev) of
                None \<Rightarrow> s1
              | Some n \<Rightarrow> (let (hashes, b) = removeByNullifier n (sy_book s1)
                           in emit_removals Change_consumed hashes (s1\<lparr>sy_book := b\<rparr>)))"
    using s1 quiet_trans [OF s1 quiet_trans [OF quiet_book quiet_removals]]
    by (auto split: option.split prod.split)
  have e: "quiet ?s (case truthy (sse_offerHash ev) of None \<Rightarrow> ?s | Some h \<Rightarrow> removeAndEmit (toLowerCase h) Change_expired ?s)"
    by (auto simp: quiet_removeAndEmit split: option.split)
  show ?thesis using assms s2 e unfolding apply_event_def s1_def
    by (auto simp: Let_def split: option.split prod.split)
qed

lemma apply_event_stopped: "sy_stopped s \<Longrightarrow> apply_event ev s = (Applied, s)"
  by (simp add: apply_event_def)

lemma add_fetched_quiet: "quiet s (snd (add_fetched env h a s))"
proof -
  have n: "quiet s (note_mark (Detail_read h a) s)" by (rule quiet_mark_note) (simp add: quiet_mark_def)
  have "quiet s (emit_change c ((note_mark (Detail_read h a) s)\<lparr>sy_book := b\<rparr>))" for c b
    by (rule quiet_trans [OF n quiet_trans [OF quiet_book quiet_emit]])
  with n show ?thesis by (auto simp: add_fetched_def Let_def split: sum.split option.split)
qed

lemma applySnapshot_marked:
  assumes "\<not> sy_stopped s"
  shows "quiet (note_mark (Snapshot_applied g offers) s) (applySnapshot g offers s)"
proof -
  obtain diff b where r: "resync offers (sy_book s) = (diff, b)" by (cases "resync offers (sy_book s)")
  let ?m = "note_mark (Snapshot_applied g offers)"
  have m: "?m (s\<lparr>sy_book := b\<rparr>) = (?m s)\<lparr>sy_book := b\<rparr>" by (simp add: note_mark_def)
  have step: "quiet s (emit_added h (emit_change (Offer_removed h Change_resync) s))" for h s
    by (rule quiet_trans [OF quiet_emit quiet_emit_added])
  have "quiet (?m s) (?m (s\<lparr>sy_book := b\<rparr>))" unfolding m by (rule quiet_book)
  also have "quiet \<dots> (emit_removals Change_resync (rd_removed diff) (?m (s\<lparr>sy_book := b\<rparr>)))" by (rule quiet_removals)
  also have "quiet \<dots> (fold (\<lambda>h s. emit_added h (emit_change (Offer_removed h Change_resync) s)) (rd_updated diff)
      (emit_removals Change_resync (rd_removed diff) (?m (s\<lparr>sy_book := b\<rparr>))))" by (rule quiet_fold) (rule step)
  also have "quiet \<dots> (fold emit_added (rd_added diff)
      (fold (\<lambda>h s. emit_added h (emit_change (Offer_removed h Change_resync) s)) (rd_updated diff)
      (emit_removals Change_resync (rd_removed diff) (?m (s\<lparr>sy_book := b\<rparr>)))))" by (rule quiet_fold) (rule quiet_emit_added)
  finally show ?thesis using assms by (simp add: applySnapshot_def r)
qed

section \<open>The invariant\<close>

text \<open>The mirror is stopped, or still buffering until its first snapshot, or ready.\<close>

definition stopped_inv :: "book_sync \<Rightarrow> bool" where
  "stopped_inv s \<longleftrightarrow> sy_stopped s \<and> (\<exists>g. sy_currentness s = Blocked Stopped g)"

definition walk_gap :: "book_sync \<Rightarrow> sse_event list \<Rightarrow> bool" where
  "walk_gap s evs \<longleftrightarrow> (\<exists>received. gp_walk (gap_of (sy_trace s)) = Some received \<and> suffix received evs)"

definition snapshot_gap :: "book_sync \<Rightarrow> sse_event list \<Rightarrow> bool" where
  "snapshot_gap s evs \<longleftrightarrow> (\<exists>received. gp_snapshot (gap_of (sy_trace s)) = Some (sy_generation s, received)
     \<and> suffix received (gp_applied (gap_of (sy_trace s)) @ evs))"

lemma lossless_gap: "lossless s \<longleftrightarrow> snapshot_gap s (waiting s)"
  by (simp add: lossless_def snapshot_gap_def)

definition attempt_inv :: "book_sync \<Rightarrow> awaiting \<Rightarrow> bool" where
  "attempt_inv s a \<longleftrightarrow> sy_initialAttempt s \<and> sy_queue s = [] \<and> (case a of
     Initial_preflight g \<Rightarrow> True
   | Initial_walk g \<Rightarrow> g \<le> sy_generation s \<and> (g = sy_generation s \<longrightarrow> sy_overflowed s \<or> walk_gap s (sy_buffered s))
   | Initial_verdict g offers \<Rightarrow> g \<le> sy_generation s \<and> (g = sy_generation s \<longrightarrow> sy_overflowed s \<or> walk_gap s (sy_buffered s))
   | Initial_detail g h batch x \<Rightarrow> g \<le> sy_generation s \<and>
       (g = sy_generation s \<longrightarrow> sy_overflowed s \<or> snapshot_gap s (batch @ sy_buffered s))
   | _ \<Rightarrow> False)"

definition buffering_base :: "book_sync \<Rightarrow> bool" where
  "buffering_base s \<longleftrightarrow> \<not> sy_stopped s \<and> sy_buffering s \<and> \<not> sy_readySettled s \<and> sy_runner s = None
     \<and> sy_healthCheck s = None \<and> \<not> is_current_state (sy_currentness s)"

definition buffering_inv :: "book_sync \<Rightarrow> bool" where
  "buffering_inv s \<longleftrightarrow> buffering_base s \<and> (case sy_running s of
     None \<Rightarrow> (sy_queue s = [] \<and> \<not> sy_initialAttempt s) \<or> (sy_queue s = [Run_initial] \<and> sy_initialAttempt s)
   | Some a \<Rightarrow> attempt_inv s a)"

definition current_ok :: "book_sync \<Rightarrow> bool" where
  "current_ok s \<longleftrightarrow> (case sy_currentness s of
     Blocked _ _ \<Rightarrow> True
   | Current g l2 ts \<Rightarrow> g = sy_generation s \<and> sy_connected s \<and> lossless s
       \<and> (case sy_anchor s of None \<Rightarrow> True | Some anchor \<Rightarrow> heightAtLeast l2 anchor))"

definition staged_ok :: "book_sync \<Rightarrow> nat \<Rightarrow> bool" where
  "staged_ok s g \<longleftrightarrow> g \<le> sy_generation s \<and> (g = sy_generation s \<longrightarrow> lossless s)"

definition runner_ok :: "book_sync \<Rightarrow> bool" where
  "runner_ok s \<longleftrightarrow> (case sy_runner s of Some (Staged _ (Some (Inr (_, g)))) \<Rightarrow> staged_ok s g | _ \<Rightarrow> True)"

definition queue_ok :: "book_sync \<Rightarrow> bool" where
  "queue_ok s \<longleftrightarrow> (\<forall>task \<in> set (sy_queue s). case task of
     Run_install _ g \<Rightarrow> staged_ok s g | Run_initial \<Rightarrow> False | _ \<Rightarrow> True)"

definition stage_ok :: "book_sync \<Rightarrow> bool" where
  "stage_ok s \<longleftrightarrow> (case sy_running s of
     None \<Rightarrow> True
   | Some (Event_detail _) \<Rightarrow> True
   | Some (Stage_walk g) \<Rightarrow> g \<le> sy_generation s \<and> (g = sy_generation s \<longrightarrow> walk_gap s (waiting s))
   | Some (Stage_verdict g _) \<Rightarrow> g \<le> sy_generation s \<and> (g = sy_generation s \<longrightarrow> walk_gap s (waiting s))
   | _ \<Rightarrow> False)"

definition ready_base :: "book_sync \<Rightarrow> bool" where
  "ready_base s \<longleftrightarrow> \<not> sy_stopped s \<and> \<not> sy_buffering s \<and> sy_readySettled s \<and> \<not> sy_initialAttempt s"

definition ready_inv :: "book_sync \<Rightarrow> bool" where
  "ready_inv s \<longleftrightarrow> ready_base s \<and> current_ok s \<and> runner_ok s \<and> queue_ok s \<and> stage_ok s"

definition sync_inv :: "book_sync \<Rightarrow> bool" where
  "sync_inv s \<longleftrightarrow> stopped_inv s \<or> buffering_inv s \<or> ready_inv s"

lemmas inv_defs = stopped_inv_def buffering_inv_def ready_inv_def attempt_inv_def buffering_base_def ready_base_def current_ok_def
  staged_ok_def runner_ok_def queue_ok_def stage_ok_def walk_gap_def snapshot_gap_def lossless_def waiting_def

lemma quiet_gaps:
  assumes "quiet s s'"
  shows "walk_gap s' evs = walk_gap s evs" "snapshot_gap s' evs = snapshot_gap s evs" "waiting s' = waiting s"
    "lossless s' = lossless s"
  using quiet_fields [OF assms] by (simp_all add: walk_gap_def snapshot_gap_def lossless_gap waiting_def)

lemma quiet_inv:
  assumes "quiet s s'"
  shows "stopped_inv s' = stopped_inv s" "buffering_inv s' = buffering_inv s" "ready_inv s' = ready_inv s"
    "sync_inv s' = sync_inv s" "current_ok s' = current_ok s" "staged_ok s' = staged_ok s"
    "ready_base s' = ready_base s" "buffering_base s' = buffering_base s" "attempt_inv s' = attempt_inv s"
proof -
  note q = quiet_fields [OF assms] quiet_gaps [OF assms]
  show st: "stopped_inv s' = stopped_inv s" by (simp add: stopped_inv_def q)
  show b: "buffering_base s' = buffering_base s" by (simp add: buffering_base_def q)
  show a: "attempt_inv s' = attempt_inv s" by (rule ext) (simp add: attempt_inv_def q cong: awaiting.case_cong)
  show bi: "buffering_inv s' = buffering_inv s" unfolding buffering_inv_def b a q ..
  show c: "current_ok s' = current_ok s" unfolding current_ok_def q ..
  show g: "staged_ok s' = staged_ok s" by (rule ext) (simp add: staged_ok_def q)
  have r: "runner_ok s' = runner_ok s" unfolding runner_ok_def q g ..
  have qu: "queue_ok s' = queue_ok s" unfolding queue_ok_def q g ..
  have sg: "stage_ok s' = stage_ok s" unfolding stage_ok_def q ..
  show rb: "ready_base s' = ready_base s" by (simp add: ready_base_def q)
  show ri: "ready_inv s' = ready_inv s" by (simp add: ready_inv_def c r qu sg rb)
  show "sync_inv s' = sync_inv s" by (simp add: sync_inv_def st bi ri)
qed

section \<open>Blocking\<close>

text \<open>\<open>setBlocked\<close> changes what is said of the mirror and nothing else.\<close>

lemma setBlocked_fields [simp]:
  "sy_stopped (setBlocked r s) = sy_stopped s" "sy_buffering (setBlocked r s) = sy_buffering s"
  "sy_buffered (setBlocked r s) = sy_buffered s" "sy_overflowed (setBlocked r s) = sy_overflowed s"
  "sy_connected (setBlocked r s) = sy_connected s" "sy_generation (setBlocked r s) = sy_generation s"
  "sy_anchor (setBlocked r s) = sy_anchor s" "sy_readySettled (setBlocked r s) = sy_readySettled s"
  "sy_queue (setBlocked r s) = sy_queue s" "sy_running (setBlocked r s) = sy_running s"
  "sy_initialAttempt (setBlocked r s) = sy_initialAttempt s" "sy_retryInitial (setBlocked r s) = sy_retryInitial s"
  "sy_runner (setBlocked r s) = sy_runner s" "sy_healthCheck (setBlocked r s) = sy_healthCheck s"
  "sy_requested (setBlocked r s) = sy_requested s" "sy_completed (setBlocked r s) = sy_completed s"
  "sy_book (setBlocked r s) = sy_book s"
  "gap_of (sy_trace (setBlocked r s)) = gap_of (sy_trace s)"
  "sy_currentness (setBlocked r s) = (if sy_stopped s \<and> r \<noteq> Stopped then sy_currentness s else Blocked r (sy_generation s))"
  by (simp_all add: setBlocked_def publishCurrentness_def note_mark_def Let_def quiet_mark_def)

text \<open>The parts of the invariant depend on some fields only.\<close>

lemma gap_congs:
  assumes "gap_of (sy_trace s') = gap_of (sy_trace s)" "sy_generation s' = sy_generation s"
  shows "walk_gap s' = walk_gap s" "snapshot_gap s' = snapshot_gap s"
  using assms by (simp_all add: walk_gap_def snapshot_gap_def fun_eq_iff)

lemma ready_parts_cong:
  assumes "gap_of (sy_trace s') = gap_of (sy_trace s)" "sy_generation s' = sy_generation s" "sy_queue s' = sy_queue s"
  shows "waiting s' = waiting s" "lossless s' = lossless s" "staged_ok s' = staged_ok s" "queue_ok s' = queue_ok s"
    "sy_runner s' = sy_runner s \<Longrightarrow> runner_ok s' = runner_ok s"
    "sy_running s' = sy_running s \<Longrightarrow> stage_ok s' = stage_ok s"
    "sy_currentness s' = sy_currentness s \<Longrightarrow> sy_connected s' = sy_connected s \<Longrightarrow> sy_anchor s' = sy_anchor s \<Longrightarrow>
       current_ok s' = current_ok s"
proof -
  show w: "waiting s' = waiting s" by (simp add: waiting_def assms)
  show l: "lossless s' = lossless s" by (simp add: lossless_def assms w)
  show g: "staged_ok s' = staged_ok s" by (rule ext) (simp add: staged_ok_def assms l)
  show "queue_ok s' = queue_ok s" unfolding queue_ok_def assms g ..
  show "runner_ok s' = runner_ok s" if "sy_runner s' = sy_runner s" unfolding runner_ok_def that g ..
  show "stage_ok s' = stage_ok s" if "sy_running s' = sy_running s"
    unfolding stage_ok_def that assms(2) w gap_congs [OF assms(1,2)] ..
  show "current_ok s' = current_ok s" if "sy_currentness s' = sy_currentness s" "sy_connected s' = sy_connected s" "sy_anchor s' = sy_anchor s"
    unfolding current_ok_def that assms(2) l ..
qed

lemma attempt_inv_cong:
  assumes "gap_of (sy_trace s') = gap_of (sy_trace s)" "sy_generation s' = sy_generation s" "sy_queue s' = sy_queue s"
    "sy_initialAttempt s' = sy_initialAttempt s" "sy_overflowed s' = sy_overflowed s" "sy_buffered s' = sy_buffered s"
  shows "attempt_inv s' = attempt_inv s"
  by (rule ext) (simp add: attempt_inv_def assms gap_congs [OF assms(1,2)] cong: awaiting.case_cong)

lemma setBlocked_stopped: "stopped_inv s \<Longrightarrow> stopped_inv (setBlocked r s)"
  by (auto simp: stopped_inv_def)

lemma setBlocked_buffering: "buffering_base s \<Longrightarrow> buffering_base (setBlocked r s)"
  by (simp add: buffering_base_def is_current_state_def)

lemma setBlocked_attempt: "attempt_inv (setBlocked r s) = attempt_inv s"
  by (rule attempt_inv_cong) simp_all

lemma setBlocked_ready:
  assumes "ready_base s" "runner_ok s" "queue_ok s" "stage_ok s"
  shows "ready_inv (setBlocked r s)"
  using assms ready_parts_cong [of "setBlocked r s" s]
  by (simp add: ready_inv_def ready_base_def current_ok_def)

section \<open>The initial attempt\<close>

lemma ensureInitialSync_inv:
  assumes "buffering_base s" "sy_running s = None" "sy_queue s = []" "\<not> sy_initialAttempt s"
  shows "buffering_inv (ensureInitialSync s)"
  using assms by (simp add: ensureInitialSync_def enqueue_def buffering_inv_def buffering_base_def)

lemma ensureInitialSync_busy: "sy_initialAttempt s \<Longrightarrow> ensureInitialSync s = s"
  by (simp add: ensureInitialSync_def)

lemma ensureInitialSync_buffering: "buffering_inv s \<Longrightarrow> buffering_inv (ensureInitialSync s)"
proof -
  assume inv: "buffering_inv s"
  show ?thesis
  proof (cases "sy_initialAttempt s")
    case True
    with inv show ?thesis by (simp add: ensureInitialSync_busy)
  next
    case False
    with inv have "sy_running s = None" "sy_queue s = []"
      by (auto simp: buffering_inv_def attempt_inv_def split: option.splits)
    with inv False show ?thesis by (intro ensureInitialSync_inv) (simp_all add: buffering_inv_def)
  qed
qed

lemma ensureInitialSync_stopped: "sy_stopped s \<Longrightarrow> ensureInitialSync s = s"
  by (simp add: ensureInitialSync_def)

text \<open>An attempt's end: from a state that is stopped, or buffering with an empty queue.\<close>

definition ending :: "book_sync \<Rightarrow> bool" where
  "ending s \<longleftrightarrow> stopped_inv s \<or> (buffering_base s \<and> sy_queue s = [])"

lemma note_fields [simp]:
  "sy_stopped (note_mark m s) = sy_stopped s" "sy_buffering (note_mark m s) = sy_buffering s"
  "sy_buffered (note_mark m s) = sy_buffered s" "sy_overflowed (note_mark m s) = sy_overflowed s"
  "sy_connected (note_mark m s) = sy_connected s" "sy_generation (note_mark m s) = sy_generation s"
  "sy_anchor (note_mark m s) = sy_anchor s" "sy_readySettled (note_mark m s) = sy_readySettled s"
  "sy_queue (note_mark m s) = sy_queue s" "sy_running (note_mark m s) = sy_running s"
  "sy_initialAttempt (note_mark m s) = sy_initialAttempt s" "sy_retryInitial (note_mark m s) = sy_retryInitial s"
  "sy_runner (note_mark m s) = sy_runner s" "sy_healthCheck (note_mark m s) = sy_healthCheck s"
  "sy_requested (note_mark m s) = sy_requested s" "sy_completed (note_mark m s) = sy_completed s"
  "sy_book (note_mark m s) = sy_book s" "sy_currentness (note_mark m s) = sy_currentness s"
  "gap_of (sy_trace (note_mark m s)) = gap_step m (gap_of (sy_trace s))"
  by (simp_all add: note_mark_def)

lemma attempt_ended_inv:
  assumes "ending s"
  shows "sync_inv (attempt_ended failed s)"
proof -
  define s1 where "s1 = (if failed then note_mark Reported (s\<lparr>sy_buffering := True\<rparr>) else s)"
  define s2 where "s2 = (finish_task s1)\<lparr>sy_initialAttempt := False\<rparr>"
  define s3 where "s3 = s2\<lparr>sy_retryInitial := False\<rparr>"
  have e: "attempt_ended failed s = (if \<not> sy_retryInitial s2 then s2
      else if sy_buffering s3 \<and> \<not> sy_stopped s3 \<and> \<not> sy_readySettled s3 then ensureInitialSync s3 else s3)"
    by (simp add: attempt_ended_def s1_def s2_def s3_def Let_def)
  show ?thesis
  proof (cases "sy_stopped s")
    case True
    then have "stopped_inv s2" "sy_stopped s3" "stopped_inv s3" using assms
      by (auto simp: ending_def stopped_inv_def s1_def s2_def s3_def finish_task_def buffering_base_def)
    then show ?thesis by (simp add: e sync_inv_def)
  next
    case False
    with assms have b: "buffering_base s" "sy_queue s = []" by (auto simp: ending_def stopped_inv_def)
    then have s2: "buffering_base s2" "sy_queue s2 = []" "sy_running s2 = None" "\<not> sy_initialAttempt s2"
      by (auto simp: s1_def s2_def finish_task_def buffering_base_def)
    then have s3: "buffering_base s3" "sy_queue s3 = []" "sy_running s3 = None" "\<not> sy_initialAttempt s3"
      by (auto simp: s3_def buffering_base_def)
    have "buffering_inv s2" "buffering_inv s3" using s2 s3 by (simp_all add: buffering_inv_def)
    moreover have "buffering_inv (ensureInitialSync s3)" by (rule ensureInitialSync_inv [OF s3(1,3,2,4)])
    ultimately show ?thesis by (simp add: e sync_inv_def)
  qed
qed

lemma ending_blocked: "ending s \<Longrightarrow> ending (setBlocked r s)"
  using setBlocked_stopped setBlocked_buffering by (auto simp: ending_def)

lemma attempt_failed_inv: "ending s \<Longrightarrow> sync_inv (attempt_failed r s)"
  by (simp add: attempt_failed_def attempt_ended_inv ending_blocked)

text \<open>The attempt runs, its task taken from the queue.\<close>

definition attempting :: "book_sync \<Rightarrow> bool" where
  "attempting s \<longleftrightarrow> buffering_base s \<and> sy_queue s = [] \<and> sy_initialAttempt s"

lemma attempting_ending: "attempting s \<Longrightarrow> ending s"
  by (simp add: attempting_def ending_def)

lemma attempt_turn_inv: "attempting s \<Longrightarrow> sync_inv (attempt_turn s)"
  using attempt_failed_inv [OF attempting_ending]
  by (auto simp: attempt_turn_def sync_inv_def attempting_def buffering_inv_def attempt_inv_def buffering_base_def)

lemma attempting_fields:
  "attempting s \<Longrightarrow> quiet s s' \<Longrightarrow> attempting s'"
  by (simp add: attempting_def quiet_inv quiet_fields)

lemma clear_buffer_attempting [simp]: "attempting (clear_buffer s) = attempting s"
  by (simp add: attempting_def clear_buffer_def buffering_base_def)

lemma fresh_health:
  assumes "readFreshHealth env g a now s = Inr h"
  shows "\<not> sy_stopped s \<and> sy_connected s \<and> g = sy_generation s \<and> reportsBackendProjectionCurrent h"
  using assms by (auto simp: readFreshHealth_def split: sum.splits if_splits)

text \<open>Currentness is installed only for the live generation and above its anchor.\<close>

lemma installCurrent_fields [simp]:
  fixes env h g now s
  defines "s' \<equiv> snd (installCurrent env h g now s)"
  shows "sy_stopped s' = sy_stopped s" "sy_buffering s' = sy_buffering s"
  "sy_buffered s' = sy_buffered s" "sy_overflowed s' = sy_overflowed s"
  "sy_connected s' = sy_connected s" "sy_generation s' = sy_generation s"
  "sy_anchor s' = sy_anchor s" "sy_readySettled s' = sy_readySettled s"
  "sy_queue s' = sy_queue s" "sy_running s' = sy_running s"
  "sy_initialAttempt s' = sy_initialAttempt s" "sy_retryInitial s' = sy_retryInitial s"
  "sy_runner s' = sy_runner s" "sy_healthCheck s' = sy_healthCheck s"
  "sy_book s' = sy_book s"
  "gap_of (sy_trace s') = gap_of (sy_trace s)"
  by (simp_all add: s'_def installCurrent_def publishCurrentness_def note_mark_def Let_def quiet_mark_def)

lemma installCurrent_currentness:
  "installCurrent env h g now s = (Some e, s') \<Longrightarrow> s' = s"
  "installCurrent env h g now s = (None, s') \<Longrightarrow> sy_currentness s' = Current g (health_height h) (bh_ts h)
     \<and> g = sy_generation s \<and> sy_connected s
     \<and> (case sy_anchor s of None \<Rightarrow> True | Some anchor \<Rightarrow> heightAtLeast (health_height h) anchor)"
  by (auto simp: installCurrent_def publishCurrentness_def note_mark_def Let_def split: if_splits option.splits)

lemma gap_applied:
  "snapshot_gap (note_mark (Event_applied ev) s) evs = snapshot_gap s (ev # evs)"
  "walk_gap (note_mark (Event_applied ev) s) evs = walk_gap s evs"
  by (simp_all add: snapshot_gap_def walk_gap_def gap_step_def)

lemma attempting_note: "quiet_mark m \<or> (\<exists>ev. m = Event_applied ev) \<or> (\<exists>g os. m = Snapshot_applied g os) \<or> (\<exists>g. m = Walk_began g) \<Longrightarrow>
    attempting (note_mark m s) = attempting s"
  by (simp add: attempting_def buffering_base_def)

definition marked_event :: "sse_event \<Rightarrow> book_sync \<Rightarrow> book_sync \<Rightarrow> bool" where
  "marked_event ev s s' \<longleftrightarrow> attempting s' \<and> sy_buffered s' = sy_buffered s \<and> sy_overflowed s' = sy_overflowed s
     \<and> sy_connected s' = sy_connected s \<and> sy_generation s' = sy_generation s
     \<and> (\<forall>evs. snapshot_gap s' evs = snapshot_gap s (ev # evs))"

lemma apply_event_attempting:
  assumes "attempting s" "apply_event ev s = (r, s')"
  shows "marked_event ev s s'"
proof -
  have "\<not> sy_stopped s" using assms(1) by (simp add: attempting_def buffering_base_def)
  from apply_event_marked [OF this, of ev] assms(2) have q: "quiet (note_mark (Event_applied ev) s) s'" by simp
  have "attempting (note_mark (Event_applied ev) s)" using assms(1) by (simp add: attempting_note)
  from attempting_fields [OF this q] show ?thesis
    by (simp add: marked_event_def quiet_fields [OF q] quiet_gaps [OF q] gap_applied)
qed

lemma drain_batch_inv:
  assumes "attempting s" "drain_batch g batch s = (r, s')"
  shows "attempting s' \<and> sy_buffered s' = sy_buffered s \<and> sy_overflowed s' = sy_overflowed s
     \<and> superseded g s' = superseded g s \<and> sy_generation s' = sy_generation s
     \<and> (case r of
          Batch_waits h rest \<Rightarrow> \<forall>evs. snapshot_gap s (batch @ evs) \<longrightarrow> snapshot_gap s' (rest @ evs)
        | Batch_done \<Rightarrow> sy_overflowed s \<or> superseded g s \<or> (\<forall>evs. snapshot_gap s (batch @ evs) \<longrightarrow> snapshot_gap s' evs)
        | Batch_failed \<Rightarrow> True)"
  using assms
proof (induction batch arbitrary: s)
  case Nil
  then show ?case by auto
next
  case (Cons ev batch)
  obtain x s1 where a: "apply_event ev s = (x, s1)" by (cases "apply_event ev s")
  have m: "marked_event ev s s1" by (rule apply_event_attempting [OF Cons.prems(1) a])
  then have att: "attempting s1" by (simp add: marked_event_def)
  then have ns: "\<not> sy_stopped s1" by (simp add: attempting_def buffering_base_def)
  have same: "sy_buffered s1 = sy_buffered s" "sy_overflowed s1 = sy_overflowed s" "superseded g s1 = superseded g s"
    "sy_generation s1 = sy_generation s" "snapshot_gap s1 evs = snapshot_gap s (ev # evs)" for evs
    using m by (simp_all add: marked_event_def superseded_def)
  show ?case
  proof (cases x)
    case Applied
    show ?thesis
    proof (cases "sy_overflowed s1 \<or> superseded g s1")
      case True
      with Applied a Cons.prems(2) have "r = Batch_done" "s' = s1" by auto
      with True same att show ?thesis by auto
    next
      case False
      with Applied a Cons.prems(2) ns have "drain_batch g batch s1 = (r, s')" by simp
      from Cons.IH [OF att this] same show ?thesis by (cases r) auto
    qed
  next
    case (Fetching h)
    with a Cons.prems(2) have "r = Batch_waits h batch" "s' = s1" by auto
    with same att show ?thesis by auto
  next
    case Apply_failed
    with a Cons.prems(2) have "r = Batch_failed" "s' = s1" by auto
    with same att show ?thesis by auto
  qed
qed

lemma attempt_install_inv:
  assumes "attempting s" "\<not> sy_overflowed s \<Longrightarrow> \<not> superseded g s \<Longrightarrow> sy_buffered s = [] \<and> snapshot_gap s []"
  shows "sync_inv (attempt_install env g h now s)"
proof (cases "sy_overflowed s \<or> superseded g s")
  case True
  have "attempting (clear_buffer s)" using assms(1) by simp
  from attempt_turn_inv [OF this] attempt_ended_inv [OF attempting_ending [OF this]] True show ?thesis
    by (simp add: attempt_install_def Let_def)
next
  case False
  obtain e s1 where i: "installCurrent env h g now s = (e, s1)" by (cases "installCurrent env h g now s")
  show ?thesis
  proof (cases e)
    case (Some err)
    with i have "s1 = s" using installCurrent_currentness(1) by blast
    with False i Some show ?thesis using attempt_failed_inv [OF attempting_ending [OF assms(1)]] by (simp add: attempt_install_def)
  next
    case None
    note c = installCurrent_currentness(2) [OF i [unfolded None]]
    note f = installCurrent_fields [of env h g now s, unfolded i snd_conv]
    define s2 where "s2 = note_mark Ready_resolved (s1\<lparr>sy_buffering := False, sy_readySettled := True, sy_readinessArmed := False\<rparr>)"
    define s3 where "s3 = (finish_task s2)\<lparr>sy_initialAttempt := False\<rparr>"
    define s4 where "s4 = (if sy_retryInitial s3 then s3\<lparr>sy_retryInitial := False\<rparr> else s3)"
    have eq: "attempt_install env g h now s = s4"
      using False i None by (simp add: attempt_install_def s2_def s3_def s4_def attempt_ended_def finish_task_def Let_def)
    have att: "\<not> sy_stopped s" "sy_queue s = []" "sy_runner s = None"
      using assms(1) by (simp_all add: attempting_def buffering_base_def)
    have fs: "sy_stopped s4 = sy_stopped s" "\<not> sy_buffering s4" "sy_readySettled s4" "\<not> sy_initialAttempt s4" "sy_queue s4 = []"
      "sy_running s4 = None" "sy_runner s4 = None" "sy_generation s4 = sy_generation s" "sy_connected s4 = sy_connected s"
      "sy_anchor s4 = sy_anchor s" "sy_currentness s4 = sy_currentness s1" "gap_of (sy_trace s4) = gap_of (sy_trace s)"
      using f att by (auto simp: s4_def s3_def s2_def finish_task_def quiet_mark_def)
    have "snapshot_gap s []" using False assms(2) by blast
    then have "lossless s4" by (simp add: lossless_def snapshot_gap_def waiting_def fs)
    then have "ready_inv s4"
      using c att by (simp add: ready_inv_def ready_base_def current_ok_def runner_ok_def queue_ok_def stage_ok_def fs)
    then show ?thesis by (simp add: eq sync_inv_def)
  qed
qed

text \<open>A batch and what follows it.\<close>

lemma waits_inv:
  assumes "attempting s" "g \<le> sy_generation s" "g = sy_generation s \<Longrightarrow> sy_overflowed s \<or> snapshot_gap s (batch @ sy_buffered s)"
  shows "sync_inv (s\<lparr>sy_running := Some (Initial_detail g h batch x)\<rparr>)"
proof -
  have "attempt_inv (s\<lparr>sy_running := Some (Initial_detail g h batch x)\<rparr>) (Initial_detail g h batch x)"
    using assms by (auto simp: attempt_inv_def attempting_def snapshot_gap_def)
  then show ?thesis using assms(1) by (simp add: sync_inv_def buffering_inv_def attempting_def buffering_base_def)
qed

lemma after_batch_inv:
  assumes "attempting s" "g \<le> sy_generation s"
    and gap: "g = sy_generation s \<Longrightarrow> sy_overflowed s \<or> snapshot_gap s (batch @ sy_buffered s)"
    and continue: "\<And>s'. attempting s' \<Longrightarrow> sy_buffered s' = sy_buffered s \<Longrightarrow> g \<le> sy_generation s' \<Longrightarrow>
        (\<not> sy_overflowed s' \<Longrightarrow> \<not> superseded g s' \<Longrightarrow> snapshot_gap s' (sy_buffered s')) \<Longrightarrow> sync_inv (continue s')"
  shows "sync_inv (after_batch env g h now (drain_batch g batch s) continue)"
proof -
  obtain r s' where d: "drain_batch g batch s = (r, s')" by (cases "drain_batch g batch s")
  note i = drain_batch_inv [OF assms(1) d]
  then have att: "attempting s'" and same: "sy_buffered s' = sy_buffered s" "sy_overflowed s' = sy_overflowed s"
      "superseded g s' = superseded g s" "sy_generation s' = sy_generation s" by auto
  show ?thesis
  proof (cases r)
    case Batch_done
    have "sync_inv (continue s')"
    proof (rule continue [OF att same(1)])
      show "g \<le> sy_generation s'" using assms(2) same by simp
      show "snapshot_gap s' (sy_buffered s')" if "\<not> sy_overflowed s'" "\<not> superseded g s'"
        using that gap i Batch_done same by (auto simp: superseded_def)
    qed
    moreover have "\<not> sy_stopped s'" using att by (simp add: attempting_def buffering_base_def)
    ultimately show ?thesis by (simp add: after_batch_def d Batch_done)
  next
    case (Batch_waits x rest)
    have "sync_inv (s'\<lparr>sy_running := Some (Initial_detail g h rest x)\<rparr>)"
      by (rule waits_inv [OF att]) (use assms(2) gap i Batch_waits same in auto)
    then show ?thesis by (simp add: after_batch_def d Batch_waits)
  next
    case Batch_failed
    then show ?thesis using attempt_ended_inv [OF attempting_ending [OF att]] by (simp add: after_batch_def d)
  qed
qed

lemma drain_loop_inv:
  assumes "attempting s" "g \<le> sy_generation s" "\<not> sy_overflowed s \<Longrightarrow> \<not> superseded g s \<Longrightarrow> snapshot_gap s (sy_buffered s)"
  shows "sync_inv (drain_loop env g h now s)"
proof (cases "drain_pending g s")
  case True
  let ?s = "take_batch s"
  have att: "attempting ?s" using assms(1) by (simp add: take_batch_def attempting_def buffering_base_def)
  have "snapshot_gap ?s (sy_buffered s)"
    using True assms(3) by (simp add: drain_pending_def take_batch_def snapshot_gap_def)
  then have "sync_inv (after_batch env g h now (drain_batch g (sy_buffered s) ?s) (attempt_install env g h now))"
  proof (intro after_batch_inv [OF att])
    show "g \<le> sy_generation ?s" using assms(2) by (simp add: take_batch_def)
    fix s'
    assume "attempting s'" "sy_buffered s' = sy_buffered ?s"
      "\<not> sy_overflowed s' \<Longrightarrow> \<not> superseded g s' \<Longrightarrow> snapshot_gap s' (sy_buffered s')"
    then show "sync_inv (attempt_install env g h now s')"
      by (intro attempt_install_inv) (auto simp: take_batch_def)
  qed (auto simp: take_batch_def)
  with True show ?thesis by (simp add: drain_loop_def drain_once_def)
next
  case False
  then have "sync_inv (attempt_install env g h now s)"
    using assms by (intro attempt_install_inv) (auto simp: drain_pending_def)
  with False show ?thesis by (simp add: drain_loop_def drain_once_def)
qed

text \<open>The answers the attempt awaits.\<close>

lemma attempt_running:
  assumes "buffering_inv s" "sy_running s = Some a"
  shows "attempting s" "attempt_inv s a"
  using assms by (auto simp: buffering_inv_def attempt_inv_def attempting_def)

lemma running_inv:
  assumes "attempting s" "attempt_inv (s\<lparr>sy_running := Some a\<rparr>) a"
  shows "sync_inv (s\<lparr>sy_running := Some a\<rparr>)"
  using assms by (simp add: sync_inv_def buffering_inv_def attempting_def buffering_base_def)

lemma attempt_preflight_inv:
  assumes "attempting s"
  shows "sync_inv (attempt_preflight env g a now s)"
proof (cases "readFreshHealth env g a now s")
  case (Inl r)
  then show ?thesis using attempt_failed_inv [OF attempting_ending [OF assms]] by (simp add: attempt_preflight_def)
next
  case (Inr h)
  let ?s = "note_mark (Walk_began g) s"
  have att: "attempting ?s" using assms by (simp add: attempting_note)
  have "attempt_inv (?s\<lparr>sy_running := Some (Initial_walk g)\<rparr>) (Initial_walk g)"
    using fresh_health [OF Inr] att by (simp add: attempt_inv_def attempting_def walk_gap_def gap_step_def)
  from running_inv [OF att this] show ?thesis by (simp add: attempt_preflight_def Inr)
qed

lemma attempt_walk_inv:
  assumes "attempting s" "attempt_inv s (Initial_walk g)"
  shows "sync_inv (attempt_walk env g source s)"
proof (cases "fetchSnapshot env source")
  case (Inl r)
  then show ?thesis using attempt_failed_inv [OF attempting_ending [OF assms(1)]] by (simp add: attempt_walk_def)
next
  case (Inr offers)
  have "attempt_inv (s\<lparr>sy_running := Some (Initial_verdict g offers)\<rparr>) (Initial_verdict g offers)"
    using assms(2) by (simp add: attempt_inv_def walk_gap_def)
  from running_inv [OF assms(1) this] show ?thesis by (simp add: attempt_walk_def Inr)
qed

lemma gap_snapshot:
  "snapshot_gap (note_mark (Snapshot_applied g offers) s) evs \<longleftrightarrow> g = sy_generation s \<and> walk_gap s evs"
  by (cases "gp_walk (gap_of (sy_trace s))") (auto simp: snapshot_gap_def walk_gap_def gap_step_def)

lemma attempt_verdict_inv:
  assumes "attempting s" "attempt_inv s (Initial_verdict g offers)"
  shows "sync_inv (attempt_verdict env g offers a now s)"
proof (cases "readFreshHealth env g a now s")
  case (Inl r)
  then show ?thesis using attempt_failed_inv [OF attempting_ending [OF assms(1)]] by (simp add: attempt_verdict_def)
next
  case (Inr h)
  note fresh = fresh_health [OF Inr]
  define s1 where "s1 = applySnapshot g offers s"
  have q: "quiet (note_mark (Snapshot_applied g offers) s) s1"
    unfolding s1_def using fresh by (intro applySnapshot_marked) simp
  have "attempting (note_mark (Snapshot_applied g offers) s)" using assms(1) by (simp add: attempting_note)
  then have att: "attempting s1" using attempting_fields q by blast
  have f: "sy_overflowed s1 = sy_overflowed s" "sy_buffered s1 = sy_buffered s" "sy_generation s1 = sy_generation s"
    "\<not> sy_stopped s1" "superseded g s1 = superseded g s"
    using quiet_fields [OF q] fresh by (simp_all add: superseded_def)
  have gap: "snapshot_gap s1 (sy_buffered s1)" if "\<not> sy_overflowed s1"
    using that assms(2) fresh f quiet_gaps(2) [OF q] by (simp add: gap_snapshot attempt_inv_def)
  have "attempting (clear_buffer s1)" using att by simp
  then have "sync_inv (attempt_ended False (clear_buffer s1))" "sync_inv (attempt_turn (clear_buffer s1))"
    using attempt_ended_inv attempting_ending attempt_turn_inv by blast+
  moreover have "sync_inv (drain_loop env g h now s1)"
    by (rule drain_loop_inv [OF att]) (use fresh f gap in auto)
  ultimately show ?thesis using f by (simp add: attempt_verdict_def Inr Let_def flip: s1_def)
qed

lemma attempt_detail_inv:
  assumes "attempting s" "attempt_inv s (Initial_detail g h batch x)"
  shows "sync_inv (attempt_detail env g h batch x a now s)"
proof -
  obtain ok s1 where r: "add_fetched env x a s = (ok, s1)" by (cases "add_fetched env x a s")
  have q: "quiet s s1" using add_fetched_quiet [of s env x a] by (simp add: r)
  have att: "attempting s1" by (rule attempting_fields [OF assms(1) q])
  have gen: "g \<le> sy_generation s1" using assms(2) by (simp add: attempt_inv_def quiet_fields [OF q])
  have gap: "g = sy_generation s1 \<Longrightarrow> sy_overflowed s1 \<or> snapshot_gap s1 (batch @ sy_buffered s1)"
    using assms(2) by (simp add: attempt_inv_def quiet_fields [OF q] quiet_gaps [OF q])
  have ns: "\<not> sy_stopped s1" using att by (simp add: attempting_def buffering_base_def)
  show ?thesis
  proof (cases ok)
    case False
    then show ?thesis using attempt_ended_inv [OF attempting_ending [OF att]] by (simp add: attempt_detail_def r)
  next
    case True
    show ?thesis
    proof (cases "sy_overflowed s1 \<or> superseded g s1")
      case True
      have "sync_inv (drain_loop env g h now s1)" by (rule drain_loop_inv [OF att gen]) (use True in auto)
      with True \<open>ok\<close> ns show ?thesis by (simp add: attempt_detail_def r after_batch_def)
    next
      case False
      have "sync_inv (after_batch env g h now (drain_batch g batch s1) (drain_loop env g h now))"
        by (rule after_batch_inv [OF att gen gap]) (auto intro: drain_loop_inv)
      with False \<open>ok\<close> ns show ?thesis by (simp add: attempt_detail_def r)
    qed
  qed
qed

section \<open>After readiness\<close>

lemma more_not_stopped: "more_requested s \<Longrightarrow> \<not> sy_stopped s"
  by (simp add: more_requested_def)

text \<open>Queueing a task other than an event leaves what waits as it is.\<close>

lemma waiting_enqueue: "waiting (enqueue task s) = waiting s @ task_event task"
  by (simp add: waiting_def enqueue_def)

lemma enqueue_fields [simp]:
  "sy_queue (enqueue task s) = sy_queue s @ [task]" "sy_running (enqueue task s) = sy_running s"
  "sy_generation (enqueue task s) = sy_generation s" "sy_trace (enqueue task s) = sy_trace s"
  "sy_stopped (enqueue task s) = sy_stopped s" "sy_buffering (enqueue task s) = sy_buffering s"
  "sy_currentness (enqueue task s) = sy_currentness s" "sy_connected (enqueue task s) = sy_connected s"
  "sy_anchor (enqueue task s) = sy_anchor s" "sy_readySettled (enqueue task s) = sy_readySettled s"
  "sy_initialAttempt (enqueue task s) = sy_initialAttempt s" "sy_runner (enqueue task s) = sy_runner s"
  "sy_book (enqueue task s) = sy_book s" "sy_buffered (enqueue task s) = sy_buffered s" "sy_healthCheck (enqueue task s) = sy_healthCheck s"
  by (simp_all add: enqueue_def)

lemma ready_enqueue:
  assumes "ready_base s" "current_ok s" "queue_ok s" "stage_ok s" "task_event task = []"
    "case task of Run_install _ g \<Rightarrow> staged_ok s g | Run_initial \<Rightarrow> False | _ \<Rightarrow> True"
  shows "ready_base (enqueue task s)" "current_ok (enqueue task s)" "queue_ok (enqueue task s)" "stage_ok (enqueue task s)"
proof -
  have w: "waiting (enqueue task s) = waiting s" by (simp add: waiting_enqueue assms(5))
  have l: "lossless (enqueue task s) = lossless s" by (simp add: lossless_def w)
  have g: "staged_ok (enqueue task s) = staged_ok s" by (rule ext) (simp add: staged_ok_def l)
  have k: "walk_gap (enqueue task s) = walk_gap s" by (simp add: walk_gap_def fun_eq_iff)
  show "ready_base (enqueue task s)" using assms(1) by (simp add: ready_base_def)
  show "current_ok (enqueue task s)" using assms(2) unfolding current_ok_def l enqueue_fields .
  show "queue_ok (enqueue task s)" using assms(3,6) unfolding queue_ok_def g enqueue_fields by auto
  show "stage_ok (enqueue task s)" using assms(4) unfolding stage_ok_def k w enqueue_fields .
qed

text \<open>What a ready mirror's parts have in common, whatever runs and wherever the runner is.\<close>

definition ready_core :: "book_sync \<Rightarrow> bool" where
  "ready_core s \<longleftrightarrow> ready_base s \<and> current_ok s \<and> queue_ok s"

lemma ready_inv_core: "ready_inv s \<longleftrightarrow> ready_core s \<and> runner_ok s \<and> stage_ok s"
  by (auto simp: ready_inv_def ready_core_def)

lemma ready_core_stopped: "ready_core s \<Longrightarrow> \<not> sy_stopped s"
  by (simp add: ready_core_def ready_base_def)

lemma core_cong:
  assumes "gap_of (sy_trace s') = gap_of (sy_trace s)" "sy_generation s' = sy_generation s" "sy_queue s' = sy_queue s"
    "sy_currentness s' = sy_currentness s" "sy_connected s' = sy_connected s" "sy_anchor s' = sy_anchor s"
    "sy_stopped s' = sy_stopped s" "sy_buffering s' = sy_buffering s" "sy_readySettled s' = sy_readySettled s"
    "sy_initialAttempt s' = sy_initialAttempt s"
  shows "ready_core s' = ready_core s"
proof -
  note c = ready_parts_cong [OF assms(1-3)]
  show ?thesis unfolding ready_core_def ready_base_def c(4) c(7) [OF assms(4-6)] assms(7-10) ..
qed

lemma runner_core [simp]:
  "ready_core (s\<lparr>sy_runner := r\<rparr>) = ready_core s" "stage_ok (s\<lparr>sy_runner := r\<rparr>) = stage_ok s"
  "ready_core (s\<lparr>sy_completed := n\<rparr>) = ready_core s" "stage_ok (s\<lparr>sy_completed := n\<rparr>) = stage_ok s"
  "ready_core (s\<lparr>sy_requested := n\<rparr>) = ready_core s" "stage_ok (s\<lparr>sy_requested := n\<rparr>) = stage_ok s"
  "ready_core (s\<lparr>sy_running := x\<rparr>) = ready_core s"
  "ready_core (note_mark Reported s) = ready_core s" "stage_ok (note_mark Reported s) = stage_ok s"
  "ready_core (s\<lparr>sy_healthCheck := hc\<rparr>) = ready_core s" "stage_ok (s\<lparr>sy_healthCheck := hc\<rparr>) = stage_ok s"
  "ready_core (s\<lparr>sy_expiry := ex\<rparr>) = ready_core s" "stage_ok (s\<lparr>sy_expiry := ex\<rparr>) = stage_ok s"
  by (rule core_cong ready_parts_cong(6); simp add: quiet_mark_def)+

lemma core_enqueue:
  assumes "ready_core s" "stage_ok s" "task_event task = []"
    "case task of Run_install _ g \<Rightarrow> staged_ok s g | Run_initial \<Rightarrow> False | _ \<Rightarrow> True"
  shows "ready_core (enqueue task s)" "stage_ok (enqueue task s)"
  using assms(1) ready_enqueue [OF _ _ _ assms(2-4)] by (simp_all add: ready_core_def)

lemma begin_stage_inv: "ready_core s \<Longrightarrow> stage_ok s \<Longrightarrow> ready_inv (begin_stage s)"
  by (simp add: ready_inv_core begin_stage_def core_enqueue task_event_def runner_ok_def)

definition idle_or_ready :: "book_sync \<Rightarrow> bool" where
  "idle_or_ready s \<longleftrightarrow> stopped_inv s \<or> (ready_core s \<and> stage_ok s)"

lemma stopped_fields [simp]:
  "stopped_inv (s\<lparr>sy_runner := r\<rparr>) = stopped_inv s" "stopped_inv (s\<lparr>sy_completed := n\<rparr>) = stopped_inv s"
  "stopped_inv (s\<lparr>sy_requested := n\<rparr>) = stopped_inv s" "stopped_inv (note_mark m s) = stopped_inv s"
  "stopped_inv (s\<lparr>sy_running := x\<rparr>) = stopped_inv s" "stopped_inv (s\<lparr>sy_queue := q\<rparr>) = stopped_inv s"
  "stopped_inv (s\<lparr>sy_healthCheck := hc\<rparr>) = stopped_inv s" "stopped_inv (enqueue task s) = stopped_inv s"
  "stopped_inv (s\<lparr>sy_expiry := ex\<rparr>) = stopped_inv s"
  by (simp_all add: stopped_inv_def)

lemma runner_ended_inv: "idle_or_ready s \<Longrightarrow> sync_inv (runner_ended failed s)"
proof -
  assume s: "idle_or_ready s"
  let ?s = "(if failed then note_mark Reported s else s)\<lparr>sy_runner := None\<rparr>"
  have "idle_or_ready ?s" using s by (simp add: idle_or_ready_def)
  then have "stopped_inv ?s \<or> ready_inv ?s" by (auto simp: idle_or_ready_def ready_inv_core runner_ok_def)
  moreover have "ready_inv (begin_stage ?s)" if "more_requested ?s"
    using more_not_stopped [OF that] \<open>idle_or_ready ?s\<close> begin_stage_inv by (auto simp: idle_or_ready_def stopped_inv_def)
  ultimately show ?thesis by (auto simp: runner_ended_def sync_inv_def Let_def)
qed

lemma runner_loop_inv: "idle_or_ready s \<Longrightarrow> sync_inv (runner_loop s)"
  using runner_ended_inv begin_stage_inv more_not_stopped
  by (auto simp: runner_loop_def idle_or_ready_def sync_inv_def stopped_inv_def)

lemma runner_catch_inv: "idle_or_ready s \<Longrightarrow> sync_inv (runner_catch t r s)"
  using runner_loop_inv [of "s\<lparr>sy_completed := t\<rparr>"] runner_ended_inv [of "s\<lparr>sy_completed := t\<rparr>"]
  by (simp add: runner_catch_def Let_def idle_or_ready_def)

lemma schedule_inv:
  assumes "stopped_inv s \<or> ready_inv s"
  shows "sync_inv (schedulePostReadyResync s)"
proof (cases "sy_stopped s")
  case True
  with assms show ?thesis by (simp add: schedulePostReadyResync_def sync_inv_def ready_inv_def ready_base_def)
next
  case False
  then have r: "ready_inv s" using assms by (simp add: stopped_inv_def)
  let ?s = "s\<lparr>sy_requested := Suc (sy_requested s)\<rparr>"
  have core: "ready_core ?s" "stage_ok ?s" using r by (simp_all add: ready_inv_core)
  have "runner_ok ?s = runner_ok s" by (rule ready_parts_cong(5)) simp_all
  then have "ready_inv ?s" using r core by (simp add: ready_inv_core)
  moreover have "sync_inv (runner_loop ?s)" using core by (intro runner_loop_inv) (simp add: idle_or_ready_def)
  ultimately show ?thesis using False by (auto simp: schedulePostReadyResync_def sync_inv_def Let_def)
qed

lemma runner_resumes_inv:
  assumes "sync_inv s"
  shows "sync_inv (runner_resumes s)"
proof (cases "sy_runner s")
  case None
  with assms show ?thesis by (simp add: runner_resumes_def)
next
  case (Some r)
  then have nb: "\<not> buffering_inv s" by (auto simp: buffering_inv_def buffering_base_def)
  with assms have st: "stopped_inv s \<or> ready_inv s" by (simp add: sync_inv_def)
  then have i: "idle_or_ready s" by (auto simp: idle_or_ready_def ready_inv_core)
  show ?thesis
  proof (cases r)
    case (Staged t res)
    show ?thesis
    proof (cases res)
      case None
      then show ?thesis using Some Staged runner_catch_inv [OF i] by (simp add: runner_resumes_def)
    next
      case res: (Some x)
      show ?thesis
      proof (cases x)
        case (Inl e)
        then show ?thesis using Some Staged res runner_catch_inv [OF i] by (simp add: runner_resumes_def)
      next
        case (Inr hg)
        obtain h g where hg: "hg = (h, g)" by (cases hg)
        have eq: "runner_resumes s = enqueue (Run_install h g) (s\<lparr>sy_runner := Some (Awaiting_install t)\<rparr>)"
          by (simp add: runner_resumes_def Some Staged res Inr hg)
        show ?thesis
        proof (cases "stopped_inv s")
          case True
          then show ?thesis by (simp add: eq sync_inv_def)
        next
          case False
          with st have ri: "ready_inv s" by simp
          let ?s = "s\<lparr>sy_runner := Some (Awaiting_install t)\<rparr>"
          have "staged_ok s g" using ri by (simp add: ready_inv_core runner_ok_def Some Staged res Inr hg)
          then have "staged_ok ?s g" using ready_parts_cong(3) [of ?s s] by simp
          with ri have "ready_inv (enqueue (Run_install h g) ?s)"
            by (simp add: ready_inv_core core_enqueue task_event_def runner_ok_def)
          then show ?thesis by (simp add: eq sync_inv_def)
        qed
      qed
    qed
  next
    case (Installed t res)
    have "idle_or_ready (s\<lparr>sy_completed := t\<rparr>)" using i by (simp add: idle_or_ready_def)
    then show ?thesis using Some Installed runner_catch_inv [OF i] runner_loop_inv
      by (auto simp: runner_resumes_def split: option.split)
  qed (use Some assms in \<open>simp_all add: runner_resumes_def\<close>)
qed

section \<open>Tasks of a ready mirror\<close>

text \<open>A change that keeps what was not lost not lost.\<close>

definition same_ready :: "book_sync \<Rightarrow> book_sync \<Rightarrow> bool" where
  "same_ready s s' \<longleftrightarrow> sy_generation s' = sy_generation s \<and> sy_currentness s' = sy_currentness s \<and> sy_connected s' = sy_connected s
     \<and> sy_anchor s' = sy_anchor s \<and> sy_stopped s' = sy_stopped s \<and> sy_buffering s' = sy_buffering s
     \<and> sy_readySettled s' = sy_readySettled s \<and> sy_initialAttempt s' = sy_initialAttempt s
     \<and> set (sy_queue s') \<subseteq> set (sy_queue s)"

lemma core_transfer:
  assumes "ready_core s" "same_ready s s'" "lossless s \<Longrightarrow> lossless s'"
  shows "ready_core s'" "staged_ok s g \<Longrightarrow> staged_ok s' g"
proof -
  note f = assms(2) [unfolded same_ready_def]
  show st: "staged_ok s g \<Longrightarrow> staged_ok s' g" for g using assms(3) f by (simp add: staged_ok_def)
  have "queue_ok s'" unfolding queue_ok_def
  proof
    fix task
    assume "task \<in> set (sy_queue s')"
    then have "case task of Run_install _ g \<Rightarrow> staged_ok s g | Run_initial \<Rightarrow> False | _ \<Rightarrow> True"
      using f assms(1) by (auto simp: ready_core_def queue_ok_def)
    then show "case task of Run_install _ g \<Rightarrow> staged_ok s' g | Run_initial \<Rightarrow> False | _ \<Rightarrow> True"
      using st by (cases task) auto
  qed
  moreover have "current_ok s'"
    using assms(1,3) f by (cases "sy_currentness s") (auto simp: ready_core_def current_ok_def)
  ultimately show "ready_core s'" using assms(1) f by (simp add: ready_core_def ready_base_def)
qed

lemma pop_other:
  assumes "ready_inv s" "sy_queue s = task # rest" "task_event task = []"
  shows "ready_core (s\<lparr>sy_queue := rest\<rparr>)" "staged_ok s g \<Longrightarrow> staged_ok (s\<lparr>sy_queue := rest\<rparr>) g"
proof -
  let ?s = "s\<lparr>sy_queue := rest\<rparr>"
  have "waiting ?s = waiting s" using assms(2,3) by (simp add: waiting_def)
  then have l: "lossless s \<Longrightarrow> lossless ?s" by (simp add: lossless_def)
  have same: "same_ready s ?s" using assms(2) by (auto simp: same_ready_def)
  have core: "ready_core s" using assms(1) by (simp add: ready_inv_core)
  show "ready_core ?s" by (rule core_transfer(1) [OF core same l])
  show "staged_ok s g \<Longrightarrow> staged_ok ?s g" by (rule core_transfer(2) [OF core same l])
qed

lemma pop_event:
  assumes "ready_inv s" "sy_queue s = Run_event ev # rest"
  shows "ready_core (note_mark (Event_applied ev) (s\<lparr>sy_queue := rest\<rparr>))"
    "runner_ok (note_mark (Event_applied ev) (s\<lparr>sy_queue := rest\<rparr>))"
proof -
  let ?s = "note_mark (Event_applied ev) (s\<lparr>sy_queue := rest\<rparr>)"
  have "waiting s = ev # waiting ?s" using assms(2) by (simp add: waiting_def task_event_def)
  then have l: "lossless s \<Longrightarrow> lossless ?s" by (simp add: lossless_def gap_step_def)
  have same: "same_ready s ?s" using assms(2) by (auto simp: same_ready_def)
  have core: "ready_core s" "runner_ok s" using assms(1) by (simp_all add: ready_inv_core)
  show "ready_core ?s" by (rule core_transfer(1) [OF core(1) same l])
  show "runner_ok ?s" using core(2) core_transfer(2) [OF core(1) same l]
    by (auto simp: runner_ok_def split: option.splits resync_runner.splits sum.splits)
qed

lemma stage_ended_inv:
  assumes "stopped_inv s \<or> ready_core s" "case res of Some (Inr (h, g)) \<Rightarrow> stopped_inv s \<or> staged_ok s g | _ \<Rightarrow> True"
  shows "sync_inv (stage_ended res s)"
proof (cases "stopped_inv s")
  case True
  then show ?thesis by (simp add: sync_inv_def stage_ended_def finish_task_def)
next
  case False
  let ?s = "(finish_task s)\<lparr>sy_runner := Some (Staged (runner_target s) res)\<rparr>"
  have "staged_ok ?s = staged_ok s" by (rule ready_parts_cong(3)) (simp_all add: finish_task_def)
  then have "runner_ok ?s" using assms(2) False
    by (auto simp: runner_ok_def split: option.splits sum.splits)
  moreover have "ready_core ?s" using assms(1) False by (simp add: finish_task_def)
  ultimately have "ready_inv ?s" by (simp add: ready_inv_core stage_ok_def finish_task_def)
  then show ?thesis by (simp add: stage_ended_def sync_inv_def)
qed

lemma core_blocked: "ready_core s \<Longrightarrow> ready_core (setBlocked r s)"
  using ready_parts_cong(4) [of "setBlocked r s" s]
  by (simp add: ready_core_def ready_base_def current_ok_def)

lemma stage_failed_inv:
  assumes "stopped_inv s \<or> ready_core s"
  shows "sync_inv (stage_failed r s)"
proof -
  have "stopped_inv (note_mark Reported (setBlocked r s)) \<or> ready_core (note_mark Reported (setBlocked r s))"
    using assms core_blocked setBlocked_stopped by auto
  then show ?thesis unfolding stage_failed_def by (rule stage_ended_inv) simp
qed

lemma stage_begins_inv:
  assumes "ready_core s" "runner_ok s"
  shows "sync_inv (stage_begins s)"
proof (cases "sy_connected s")
  case False
  then show ?thesis using stage_failed_inv assms by (simp add: stage_begins_def)
next
  case True
  let ?s = "note_mark (Walk_began (sy_generation s)) s"
  have w: "waiting ?s = waiting s" by (simp add: waiting_def)
  have l: "lossless s \<Longrightarrow> lossless ?s" by (simp add: lossless_def gap_step_def w)
  have same: "same_ready s ?s" by (simp add: same_ready_def)
  have core: "ready_core ?s" by (rule core_transfer(1) [OF assms(1) same l])
  let ?t = "?s\<lparr>sy_running := Some (Stage_walk (sy_generation s))\<rparr>"
  have "runner_ok ?s" using assms(2) core_transfer(2) [OF assms(1) same l]
    by (auto simp: runner_ok_def split: option.splits resync_runner.splits sum.splits)
  then have "runner_ok ?t" using ready_parts_cong(5) [of ?t ?s] by simp
  moreover have "stage_ok ?t" by (simp add: stage_ok_def walk_gap_def gap_step_def)
  ultimately have "ready_inv ?t" using core by (simp add: ready_inv_core)
  with True show ?thesis by (simp add: stage_begins_def sync_inv_def)
qed

lemma stage_walk_inv:
  assumes "stopped_inv s \<or> ready_inv s" "sy_running s = Some (Stage_walk g)"
  shows "sync_inv (stage_walk env g source s)"
proof (cases "fetchSnapshot env source")
  case (Inl e)
  then show ?thesis using assms(1) stage_failed_inv by (auto simp: stage_walk_def ready_inv_core)
next
  case (Inr offers)
  let ?s = "s\<lparr>sy_running := Some (Stage_verdict g offers)\<rparr>"
  have "ready_inv ?s" if r: "ready_inv s"
  proof -
    have "runner_ok ?s = runner_ok s" by (rule ready_parts_cong(5)) simp_all
    moreover have "stage_ok ?s" using r assms(2)
      by (simp add: ready_inv_core stage_ok_def walk_gap_def waiting_def)
    ultimately show ?thesis using r by (simp add: ready_inv_core)
  qed
  then show ?thesis using assms(1) Inr by (auto simp: stage_walk_def sync_inv_def)
qed

lemma stage_verdict_inv:
  assumes "stopped_inv s \<or> ready_inv s" "sy_running s = Some (Stage_verdict g offers)"
  shows "sync_inv (stage_verdict env g offers a now s)"
proof (cases "readFreshHealth env g a now s")
  case (Inl r)
  then show ?thesis using assms(1) stage_failed_inv by (auto simp: stage_verdict_def ready_inv_core)
next
  case (Inr h)
  note fresh = fresh_health [OF Inr]
  then have r: "ready_inv s" using assms(1) by (auto simp: stopped_inv_def)
  define s1 where "s1 = applySnapshot g offers s"
  have q: "quiet (note_mark (Snapshot_applied g offers) s) s1"
    unfolding s1_def using fresh by (intro applySnapshot_marked) simp
  have "walk_gap s (waiting s)" using r fresh by (simp add: ready_inv_core stage_ok_def assms(2))
  moreover have "waiting (note_mark (Snapshot_applied g offers) s) = waiting s" by (simp add: waiting_def)
  ultimately have l: "lossless s1"
    using fresh unfolding quiet_gaps(4) [OF q] unfolding lossless_gap by (simp add: gap_snapshot)
  have same: "same_ready s s1" using quiet_fields [OF q] by (simp add: same_ready_def)
  have core: "ready_core s1" using r by (intro core_transfer(1) [OF _ same l]) (simp add: ready_inv_core)
  have "staged_ok s1 g" using fresh l quiet_fields(7) [OF q] by (simp add: staged_ok_def)
  then have "sync_inv (stage_ended (Some (Inr (h, g))) s1)" using core by (intro stage_ended_inv) simp_all
  then show ?thesis using fresh unfolding stage_verdict_def Inr s1_def by simp
qed

lemma install_ended_inv:
  assumes "stopped_inv s \<or> ready_core s"
  shows "sync_inv (install_ended res s)"
proof -
  let ?s = "(finish_task s)\<lparr>sy_runner := Some (Installed (runner_target s) res)\<rparr>"
  have "stopped_inv ?s \<or> ready_inv ?s"
    using assms by (simp add: ready_inv_core finish_task_def runner_ok_def stage_ok_def)
  then show ?thesis by (auto simp: install_ended_def sync_inv_def)
qed

lemma installed_core:
  assumes "ready_core s" "installCurrent env h g now s = (None, s1)" "lossless s"
  shows "ready_core s1"
proof -
  note f = installCurrent_fields [of env h g now s, unfolded assms(2) snd_conv]
  note c = installCurrent_currentness(2) [OF assms(2)]
  note p = ready_parts_cong [OF f(16,6,9)]
  show ?thesis using assms(1,3) c f p(2,4) by (simp add: ready_core_def ready_base_def current_ok_def)
qed

lemma install_runs_inv:
  assumes "ready_core s" "staged_ok s g"
  shows "sync_inv (install_runs env h g now s)"
proof -
  obtain e s1 where i: "installCurrent env h g now s = (e, s1)" by (cases "installCurrent env h g now s")
  show ?thesis
  proof (cases e)
    case None
    with i have i': "installCurrent env h g now s = (None, s1)" by simp
    from installCurrent_currentness(2) [OF this] assms(2) have "lossless s" by (simp add: staged_ok_def)
    from installed_core [OF assms(1) i' this] show ?thesis
      using install_ended_inv by (simp add: install_runs_def i None)
  next
    case (Some err)
    then have "s1 = s" using i installCurrent_currentness(1) by blast
    moreover have "ready_core (note_mark Reported (setBlocked (currentnessFailure err) s))" using assms(1) core_blocked by simp
    ultimately show ?thesis using install_ended_inv by (simp add: install_runs_def i Some Let_def)
  qed
qed

lemma event_ended_inv:
  assumes "ready_core s" "runner_ok s"
  shows "ready_inv (finish_task s)" "ready_inv (finish_task (note_mark Reported s))" "ready_inv (s\<lparr>sy_running := Some (Event_detail h)\<rparr>)"
  using assms ready_parts_cong(5) [of "finish_task s" s] ready_parts_cong(5) [of "finish_task (note_mark Reported s)" s]
    ready_parts_cong(5) [of "s\<lparr>sy_running := Some (Event_detail h)\<rparr>" s]
  by (simp_all add: ready_inv_core finish_task_def stage_ok_def quiet_mark_def)

lemma quiet_core:
  assumes "quiet s s'"
  shows "ready_core s' = ready_core s" "runner_ok s' = runner_ok s"
proof -
  note q = quiet_fields [OF assms]
  show "ready_core s' = ready_core s" by (rule core_cong) (rule q)+
  show "runner_ok s' = runner_ok s" by (rule ready_parts_cong(5)) (rule q)+
qed

lemma event_runs_inv:
  assumes "ready_core (note_mark (Event_applied ev) s)" "runner_ok (note_mark (Event_applied ev) s)"
  shows "sync_inv (event_runs ev s)"
proof -
  obtain x s1 where a: "apply_event ev s = (x, s1)" by (cases "apply_event ev s")
  have "\<not> sy_stopped s" using ready_core_stopped [OF assms(1)] by simp
  from apply_event_marked [OF this, of ev] have q: "quiet (note_mark (Event_applied ev) s) s1" by (simp add: a)
  have "ready_core s1" "runner_ok s1" using assms quiet_core [OF q] by simp_all
  from event_ended_inv [OF this] show ?thesis by (cases x) (simp_all add: event_runs_def a sync_inv_def)
qed

lemma event_detail_inv:
  assumes "stopped_inv s \<or> ready_inv s"
  shows "sync_inv (event_detail env h a s)"
proof -
  obtain ok s1 where r: "add_fetched env h a s = (ok, s1)" by (cases "add_fetched env h a s")
  have q: "quiet s s1" using add_fetched_quiet [of s env h a] by (simp add: r)
  have "stopped_inv s1 \<or> (ready_core s1 \<and> runner_ok s1)"
    using assms quiet_core [OF q] quiet_inv(1) [OF q] by (auto simp: ready_inv_core)
  then have "stopped_inv (finish_task s1) \<or> ready_inv (finish_task s1)"
    "stopped_inv (finish_task (note_mark Reported s1)) \<or> ready_inv (finish_task (note_mark Reported s1))"
    using event_ended_inv by (auto simp: finish_task_def)
  then show ?thesis by (cases ok) (auto simp: event_detail_def r sync_inv_def)
qed

section \<open>Every step keeps the invariant\<close>

lemma task_skipped_inv: "stopped_inv s \<Longrightarrow> sync_inv (task_skipped task s)"
  using attempt_ended_inv [of s False] stage_ended_inv [of s None] install_ended_inv [of s None]
  by (cases task) (simp_all add: task_skipped_def ending_def finish_task_def sync_inv_def)

lemma next_task_inv:
  assumes "sync_inv s"
  shows "sync_inv (next_task env now s)"
proof (cases "sy_running s = None \<and> sy_queue s \<noteq> []")
  case False
  then have "next_task env now s = s" by (auto simp: next_task_def split: option.split list.split)
  with assms show ?thesis by simp
next
  case True
  then obtain task rest where q: "sy_running s = None" "sy_queue s = task # rest" by (auto simp: neq_Nil_conv)
  let ?s = "s\<lparr>sy_queue := rest\<rparr>"
  have eq: "next_task env now s = task_runs env task now ?s" by (simp add: next_task_def q)
  consider "stopped_inv s" | "buffering_inv s" | "ready_inv s" using assms by (auto simp: sync_inv_def)
  then show ?thesis
  proof cases
    case 1
    then have "stopped_inv ?s" "sy_stopped ?s" by (simp_all add: stopped_inv_def)
    then show ?thesis using task_skipped_inv by (simp add: eq task_runs_def)
  next
    case 2
    then have "task = Run_initial" "attempting ?s" "\<not> sy_stopped s"
      using q by (auto simp: buffering_inv_def attempting_def buffering_base_def)
    then show ?thesis using attempt_turn_inv by (simp add: eq task_runs_def)
  next
    case 3
    have ns: "\<not> sy_stopped ?s" using 3 by (simp add: ready_inv_def ready_base_def)
    have task: "case task of Run_install _ g \<Rightarrow> staged_ok s g | Run_initial \<Rightarrow> False | _ \<Rightarrow> True"
      using 3 q(2) by (simp add: ready_inv_def queue_ok_def)
    show ?thesis
    proof (cases task)
      case (Run_event ev)
      note p = pop_event [OF 3 q(2) [unfolded Run_event]]
      then show ?thesis using event_runs_inv ns by (simp add: eq task_runs_def Run_event)
    next
      case Run_stage
      have t: "task_event task = []" by (simp add: Run_stage task_event_def)
      note p = pop_other [OF 3 q(2) t]
      have "runner_ok ?s" using 3 p(2)
        by (auto simp: ready_inv_core runner_ok_def split: option.splits resync_runner.splits sum.splits)
      then show ?thesis using stage_begins_inv [OF p(1)] ns by (simp add: eq task_runs_def Run_stage)
    next
      case (Run_install h g)
      have t: "task_event task = []" by (simp add: Run_install task_event_def)
      note p = pop_other [OF 3 q(2) t]
      have "staged_ok ?s g" using task p(2) by (simp add: Run_install)
      then show ?thesis using install_runs_inv [OF p(1)] ns by (simp add: eq task_runs_def Run_install)
    qed (use task in simp)
  qed
qed

lemma stopped_attempt_end:
  assumes "stopped_inv s"
  shows "sync_inv (attempt_ended f s)" "sync_inv (attempt_failed r s)"
  using attempt_ended_inv attempt_failed_inv assms by (simp_all add: ending_def)

lemma stopped_answer:
  assumes "stopped_inv s"
  shows "sync_inv (attempt_preflight env g a now s)" "sync_inv (attempt_walk env g source s)"
    "sync_inv (attempt_verdict env g offers a now s)" "sync_inv (attempt_detail env g h batch x d now s)"
proof -
  have st: "sy_stopped s" using assms by (simp add: stopped_inv_def)
  obtain r where fr: "readFreshHealth env g a now s = Inl r"
    using fresh_health st by (cases "readFreshHealth env g a now s") auto
  show "sync_inv (attempt_preflight env g a now s)" "sync_inv (attempt_verdict env g offers a now s)"
    using stopped_attempt_end(2) [OF assms] by (simp_all add: attempt_preflight_def attempt_verdict_def fr)
  show "sync_inv (attempt_walk env g source s)"
    using stopped_attempt_end(2) [OF assms] assms
    by (auto simp: attempt_walk_def sync_inv_def split: sum.split)
  obtain ok s1 where d: "add_fetched env x d s = (ok, s1)" by (cases "add_fetched env x d s")
  have q: "quiet s s1" using add_fetched_quiet [of s env x d] by (simp add: d)
  have "stopped_inv s1" "sy_stopped s1" using assms st quiet_inv(1) [OF q] quiet_fields(1) [OF q] by simp_all
  then show "sync_inv (attempt_detail env g h batch x d now s)"
    using stopped_attempt_end(1) by (cases ok) (simp_all add: attempt_detail_def d after_batch_def)
qed

lemma task_answered_inv:
  assumes "sync_inv s"
  shows "sync_inv (task_answered env answer now s)"
proof (cases "sy_running s")
  case None
  with assms show ?thesis by (simp add: task_answered_def)
next
  case (Some a)
  have attempt: "stopped_inv s \<or> (attempting s \<and> attempt_inv s a)"
    if "case a of Event_detail _ \<Rightarrow> False | Stage_walk _ \<Rightarrow> False | Stage_verdict _ _ \<Rightarrow> False | _ \<Rightarrow> True"
    using assms that Some attempt_running [OF _ Some]
    by (cases a) (auto simp: sync_inv_def ready_inv_core stage_ok_def)
  have ready: "stopped_inv s \<or> ready_inv s"
    if "case a of Event_detail _ \<Rightarrow> True | Stage_walk _ \<Rightarrow> True | Stage_verdict _ _ \<Rightarrow> True | _ \<Rightarrow> False"
    using assms that Some by (cases a) (auto simp: sync_inv_def buffering_inv_def attempt_inv_def)
  show ?thesis
  proof (cases a)
    case (Event_detail h)
    with ready event_detail_inv Some assms show ?thesis by (cases answer) (simp_all add: task_answered_def)
  next
    case (Initial_preflight g)
    with attempt attempt_preflight_inv stopped_answer(1) Some assms show ?thesis by (cases answer) (auto simp: task_answered_def)
  next
    case (Initial_walk g)
    with attempt attempt_walk_inv stopped_answer(2) Some assms show ?thesis by (cases answer) (auto simp: task_answered_def)
  next
    case (Initial_verdict g offers)
    with attempt attempt_verdict_inv stopped_answer(3) Some assms show ?thesis by (cases answer) (auto simp: task_answered_def)
  next
    case (Initial_detail g h batch x)
    with attempt attempt_detail_inv stopped_answer(4) Some assms show ?thesis by (cases answer) (auto simp: task_answered_def)
  next
    case (Stage_walk g)
    with ready stage_walk_inv Some assms show ?thesis by (cases answer) (simp_all add: task_answered_def)
  next
    case (Stage_verdict g offers)
    with ready stage_verdict_inv Some assms show ?thesis by (cases answer) (simp_all add: task_answered_def)
  qed
qed

text \<open>The stream.\<close>

lemma stream_event_inv:
  assumes "sync_inv s"
  shows "sync_inv (stream_event env ev s)"
proof -
  let ?n = "note_mark (Event_received ev) s"
  consider "stopped_inv s" | "buffering_inv s" | "ready_inv s" using assms by (auto simp: sync_inv_def)
  then show ?thesis
  proof cases
    case 1
    then have "stopped_inv (stream_event env ev s)" by (simp add: stream_event_def Let_def stopped_inv_def)
    then show ?thesis by (simp add: sync_inv_def)
  next
    case 2
    then have b: "buffering_base s" "sy_buffering s" by (simp_all add: buffering_inv_def buffering_base_def)
    define s' where "s' = stream_event env ev s"
    have f: "sy_stopped s' = sy_stopped s" "sy_buffering s'" "sy_readySettled s' = sy_readySettled s" "sy_runner s' = sy_runner s"
      "sy_healthCheck s' = sy_healthCheck s" "sy_currentness s' = sy_currentness s" "sy_running s' = sy_running s"
      "sy_queue s' = sy_queue s" "sy_initialAttempt s' = sy_initialAttempt s" "sy_generation s' = sy_generation s"
      using b by (simp_all add: s'_def stream_event_def Let_def)
    have g: "gap_of (sy_trace s') = gap_step (Event_received ev) (gap_of (sy_trace s))"
      using b by (simp add: s'_def stream_event_def Let_def quiet_mark_def)
    have o: "sy_overflowed s' \<or> (\<not> sy_overflowed s \<and> sy_buffered s' = sy_buffered s @ [ev])"
      using b by (auto simp: s'_def stream_event_def Let_def)
    have w: "walk_gap s' (evs @ [ev])" if "walk_gap s evs" for evs
      using that g by (auto simp: walk_gap_def gap_step_def)
    have sn: "snapshot_gap s' (evs @ [ev])" if "snapshot_gap s evs" for evs
      using that g f(10) by (auto simp: snapshot_gap_def gap_step_def suffix_def)
    have "attempt_inv s' a" if "attempt_inv s a" for a
      using that o w sn [of "_ @ sy_buffered s", simplified]
      by (cases a) (auto simp: attempt_inv_def f)
    moreover have "buffering_base s'" using b f by (simp add: buffering_base_def)
    ultimately have "buffering_inv s'" using 2 f by (auto simp: buffering_inv_def split: option.splits)
    then show ?thesis by (simp add: sync_inv_def s'_def)
  next
    case 3
    let ?s = "enqueue (Run_event ev) ?n"
    have eq: "stream_event env ev s = ?s" using 3 by (simp add: stream_event_def ready_inv_def ready_base_def)
    have w: "waiting ?s = waiting s @ [ev]" by (simp add: waiting_def task_event_def)
    have g: "gap_of (sy_trace ?s) = gap_step (Event_received ev) (gap_of (sy_trace s))" by simp
    have l: "lossless s \<Longrightarrow> lossless ?s" unfolding lossless_def w g by (auto simp: gap_step_def suffix_def)
    have k: "walk_gap s evs \<Longrightarrow> walk_gap ?s (evs @ [ev])" for evs
      unfolding walk_gap_def g by (auto simp: gap_step_def)
    have st: "staged_ok s g \<Longrightarrow> staged_ok ?s g" for g using l by (simp add: staged_ok_def)
    have "ready_base ?s" using 3 by (simp add: ready_inv_def ready_base_def)
    moreover have "current_ok ?s" using 3 l
      by (cases "sy_currentness s") (auto simp: ready_inv_def current_ok_def)
    moreover have "runner_ok ?s" using 3 st
      by (auto simp: ready_inv_def runner_ok_def split: option.splits resync_runner.splits sum.splits)
    moreover have "queue_ok ?s" unfolding queue_ok_def
    proof
      fix task
      assume "task \<in> set (sy_queue ?s)"
      then have "task = Run_event ev \<or> (case task of Run_install _ g \<Rightarrow> staged_ok s g | Run_initial \<Rightarrow> False | _ \<Rightarrow> True)"
        using 3 by (auto simp: ready_inv_def queue_ok_def)
      then show "case task of Run_install _ g \<Rightarrow> staged_ok ?s g | Run_initial \<Rightarrow> False | _ \<Rightarrow> True"
        using st by (cases task) auto
    qed
    moreover have "stage_ok ?s" using 3 k
      by (auto simp: ready_inv_def stage_ok_def w split: option.splits awaiting.splits)
    ultimately show ?thesis by (simp add: eq sync_inv_def ready_inv_def)
  qed
qed

text \<open>A new subscription or a lost one: everything of an older generation is void.\<close>

lemma older_attempt:
  assumes "attempt_inv s a" "sy_generation s < sy_generation s'" "sy_initialAttempt s' = sy_initialAttempt s" "sy_queue s' = sy_queue s"
  shows "attempt_inv s' a"
  using assms by (cases a) (auto simp: attempt_inv_def)

lemma older_ready:
  assumes "ready_inv s" "sy_generation s < sy_generation s'" "\<not> is_current_state (sy_currentness s')"
    "sy_stopped s' = sy_stopped s" "sy_buffering s' = sy_buffering s" "sy_readySettled s' = sy_readySettled s"
    "sy_initialAttempt s' = sy_initialAttempt s" "sy_queue s' = sy_queue s" "sy_runner s' = sy_runner s" "sy_running s' = sy_running s"
  shows "ready_inv s'"
proof -
  have st: "staged_ok s g \<Longrightarrow> staged_ok s' g" for g using assms(2) by (simp add: staged_ok_def)
  have "ready_base s'" using assms by (simp add: ready_inv_def ready_base_def)
  moreover have "current_ok s'" using assms(3) by (simp add: current_ok_def is_current_state_def split: currentness.splits)
  moreover have "runner_ok s'" using assms(1,9) st
    by (auto simp: ready_inv_def runner_ok_def split: option.splits resync_runner.splits sum.splits)
  moreover have "queue_ok s'" unfolding queue_ok_def assms(8)
  proof
    fix task
    assume "task \<in> set (sy_queue s)"
    then have "case task of Run_install _ g \<Rightarrow> staged_ok s g | Run_initial \<Rightarrow> False | _ \<Rightarrow> True"
      using assms(1) by (auto simp: ready_inv_def queue_ok_def)
    then show "case task of Run_install _ g \<Rightarrow> staged_ok s' g | Run_initial \<Rightarrow> False | _ \<Rightarrow> True"
      using st by (cases task) auto
  qed
  moreover have "stage_ok s'" using assms(1,2,10)
    by (auto simp: ready_inv_def stage_ok_def split: option.splits awaiting.splits)
  ultimately show ?thesis by (simp add: ready_inv_def)
qed

lemma stream_open_inv:
  assumes "sync_inv s"
  shows "sync_inv (stream_open height s)"
proof -
  define s1 where "s1 = note_mark (Subscribed (Suc (sy_generation s)) height)
      (s\<lparr>sy_connected := True, sy_generation := Suc (sy_generation s), sy_anchor := height\<rparr>)"
  define s2 where "s2 = (if sy_initialAttempt s1 then s1\<lparr>sy_retryInitial := True\<rparr> else s1)"
  have eq: "stream_open height s = (if sy_buffering s1 then ensureInitialSync s2
      else schedulePostReadyResync (setBlocked Stream_generation_changed s1))"
    by (simp add: stream_open_def s1_def s2_def Let_def)
  consider "stopped_inv s" | "buffering_inv s" | "ready_inv s" using assms by (auto simp: sync_inv_def)
  then show ?thesis
  proof cases
    case 1
    then have "stopped_inv s1" "stopped_inv s2" "sy_stopped s2" by (simp_all add: s1_def s2_def stopped_inv_def)
    then show ?thesis using schedule_inv setBlocked_stopped by (simp add: eq ensureInitialSync_stopped sync_inv_def)
  next
    case 2
    have f: "sy_generation s < sy_generation s2" "sy_initialAttempt s2 = sy_initialAttempt s" "sy_queue s2 = sy_queue s"
      "sy_running s2 = sy_running s" "buffering_base s2 = buffering_base s"
      by (simp_all add: s2_def s1_def buffering_base_def)
    have "buffering_inv s2" using 2 older_attempt [OF _ f(1-3)] by (auto simp: buffering_inv_def f split: option.splits)
    moreover have "sy_buffering s1" using 2 by (simp add: s1_def buffering_inv_def buffering_base_def)
    ultimately show ?thesis using ensureInitialSync_buffering by (simp add: eq sync_inv_def)
  next
    case 3
    have ns: "\<not> sy_stopped s" "\<not> sy_buffering s1" using 3 by (simp_all add: s1_def ready_inv_def ready_base_def)
    have "ready_inv (setBlocked Stream_generation_changed s1)"
      by (rule older_ready [OF 3]) (use ns in \<open>simp_all add: s1_def is_current_state_def\<close>)
    then show ?thesis using schedule_inv ns by (simp add: eq)
  qed
qed

lemma stream_disconnect_inv:
  assumes "sync_inv s"
  shows "sync_inv (stream_disconnect s)"
proof -
  define s1 where "s1 = setBlocked Stream_disconnected (note_mark (Unsubscribed (Suc (sy_generation s)))
      (s\<lparr>sy_connected := False, sy_generation := Suc (sy_generation s), sy_anchor := None\<rparr>))"
  have eq: "stream_disconnect s = (if sy_buffering s1 then clear_buffer s1 else s1)"
    by (simp add: stream_disconnect_def s1_def Let_def)
  consider "stopped_inv s" | "buffering_inv s" | "ready_inv s" using assms by (auto simp: sync_inv_def)
  then show ?thesis
  proof cases
    case 1
    then have "stopped_inv s1" by (simp add: s1_def stopped_inv_def)
    then have "stopped_inv s1" "stopped_inv (clear_buffer s1)" by (simp_all add: stopped_inv_def clear_buffer_def)
    then show ?thesis by (simp add: eq sync_inv_def)
  next
    case 2
    let ?s = "clear_buffer s1"
    have ns: "\<not> sy_stopped s" "sy_buffering s1" using 2 by (simp_all add: s1_def buffering_inv_def buffering_base_def)
    have f: "sy_generation s < sy_generation ?s" "sy_initialAttempt ?s = sy_initialAttempt s" "sy_queue ?s = sy_queue s"
      "sy_running ?s = sy_running s"
      by (simp_all add: clear_buffer_def s1_def)
    have "buffering_base ?s" using 2 by (simp add: clear_buffer_def s1_def buffering_inv_def buffering_base_def is_current_state_def)
    then have "buffering_inv ?s" using 2 older_attempt [OF _ f(1-3)] by (auto simp: buffering_inv_def f split: option.splits)
    then show ?thesis using ns by (simp add: eq sync_inv_def)
  next
    case 3
    have ns: "\<not> sy_stopped s" "\<not> sy_buffering s1" using 3 by (simp_all add: s1_def ready_inv_def ready_base_def)
    have "ready_inv s1" by (rule older_ready [OF 3]) (use ns in \<open>simp_all add: s1_def is_current_state_def\<close>)
    then show ?thesis using ns by (simp add: eq sync_inv_def)
  qed
qed

text \<open>The health check, the timers and the handle.\<close>

lemma health_field_inv:
  assumes "ready_inv s"
  shows "ready_inv (s\<lparr>sy_healthCheck := hc\<rparr>)" "ready_inv (s\<lparr>sy_expiry := ex\<rparr>)"
  using assms ready_parts_cong(5) [of "s\<lparr>sy_healthCheck := hc\<rparr>" s] ready_parts_cong(5) [of "s\<lparr>sy_expiry := ex\<rparr>" s]
  by (simp_all add: ready_inv_core)

lemma scheduleHealthCheck_inv:
  assumes "sync_inv s"
  shows "sync_inv (scheduleHealthCheck s)"
proof -
  consider "stopped_inv s" | "buffering_inv s" | "ready_inv s" using assms by (auto simp: sync_inv_def)
  then show ?thesis
  proof cases
    case 1
    then show ?thesis using assms by (simp add: scheduleHealthCheck_def stopped_inv_def)
  next
    case 2
    then show ?thesis using assms ensureInitialSync_buffering [OF 2]
      by (simp add: scheduleHealthCheck_def buffering_inv_def buffering_base_def sync_inv_def)
  next
    case 3
    then show ?thesis using assms health_field_inv(1) [OF 3]
      by (simp add: scheduleHealthCheck_def ready_inv_def ready_base_def sync_inv_def)
  qed
qed

lemma installed_ready:
  assumes "ready_inv s" "installCurrent env h g now s = (None, s1)" "lossless s"
  shows "ready_inv s1"
proof -
  note f = installCurrent_fields [of env h g now s, unfolded assms(2) snd_conv]
  have "ready_core s1" using assms by (intro installed_core [OF _ assms(2,3)]) (simp add: ready_inv_core)
  moreover have "runner_ok s1 = runner_ok s" "stage_ok s1 = stage_ok s"
    using ready_parts_cong(5,6) [OF f(16,6,9)] f by simp_all
  ultimately show ?thesis using assms(1) by (simp add: ready_inv_core)
qed

lemma blocked_ready: "ready_inv s \<Longrightarrow> ready_inv (setBlocked r s)"
  by (intro setBlocked_ready) (simp_all add: ready_inv_def)

lemma health_verdict_inv:
  assumes "stopped_inv s \<or> ready_inv s" "health_verdict env g a now s = (b, s1)"
  shows "stopped_inv s1 \<or> ready_inv s1"
proof (cases "readFreshHealth env g a now s")
  case (Inl r)
  with assms show ?thesis using setBlocked_stopped blocked_ready by (auto simp: health_verdict_def Let_def split: if_splits)
next
  case (Inr h)
  note fresh = fresh_health [OF Inr]
  with assms(1) have r: "ready_inv s" by (auto simp: stopped_inv_def)
  show ?thesis
  proof (cases "is_current_state (sy_currentness s)")
    case False
    with assms Inr show ?thesis by (simp add: health_verdict_def Let_def)
  next
    case True
    then have l: "lossless s" using r by (auto simp: ready_inv_def current_ok_def is_current_state_def split: currentness.splits)
    obtain e s2 where i: "installCurrent env h g now s = (e, s2)" by (cases "installCurrent env h g now s")
    show ?thesis
    proof (cases e)
      case None
      then have "s1 = s2" using assms(2) Inr True i by (simp add: health_verdict_def Let_def)
      then show ?thesis using installed_ready [OF r _ l] i None by blast
    next
      case (Some err)
      then have "s2 = s" using i installCurrent_currentness(1) by blast
      then have "s1 = (if g = sy_generation s then setBlocked (currentnessFailure err) s else s)"
        using assms(2) Inr True i Some by (simp add: health_verdict_def Let_def split: if_splits)
      then show ?thesis using r blocked_ready by simp
    qed
  qed
qed

lemma health_answered_inv:
  assumes "sync_inv s"
  shows "sync_inv (health_answered env a now s)"
proof (cases "sy_healthCheck s")
  case None
  with assms show ?thesis by (simp add: health_answered_def)
next
  case (Some g)
  then have "\<not> buffering_inv s" by (auto simp: buffering_inv_def buffering_base_def)
  with assms have st: "stopped_inv s \<or> ready_inv s" by (simp add: sync_inv_def)
  obtain b s1 where v: "health_verdict env g a now s = (b, s1)" by (cases "health_verdict env g a now s")
  from health_verdict_inv [OF st v] have "stopped_inv (s1\<lparr>sy_healthCheck := None\<rparr>) \<or> ready_inv (s1\<lparr>sy_healthCheck := None\<rparr>)"
    using health_field_inv(1) by auto
  then have "sync_inv (schedulePostReadyResync (s1\<lparr>sy_healthCheck := None\<rparr>))" "sync_inv (s1\<lparr>sy_healthCheck := None\<rparr>)"
    using schedule_inv by (auto simp: sync_inv_def)
  then show ?thesis by (simp add: health_answered_def Some v Let_def)
qed

lemma stopSynchronization_inv:
  assumes "sync_inv s"
  shows "sync_inv (stopSynchronization s)"
proof (cases "sy_stopped s")
  case True
  with assms show ?thesis by (simp add: stopSynchronization_def)
next
  case False
  then have "stopped_inv (stopSynchronization s)"
    by (simp add: stopSynchronization_def Let_def stopped_inv_def)
  then show ?thesis by (simp add: sync_inv_def)
qed

lemma expiry_due_inv:
  assumes "sync_inv s"
  shows "sync_inv (expiry_due s)"
proof (cases "sy_expiry s")
  case None
  with assms show ?thesis by (simp add: expiry_due_def)
next
  case (Some gt)
  obtain g ts where gt: "gt = (g, ts)" by (cases gt)
  let ?s = "s\<lparr>sy_expiry := None\<rparr>"
  have a: "attempt_inv ?s = attempt_inv s" by (rule attempt_inv_cong) simp_all
  have "buffering_base ?s = buffering_base s" by (simp add: buffering_base_def)
  then have "buffering_inv ?s = buffering_inv s" by (simp add: buffering_inv_def a cong: option.case_cong)
  then have s: "sync_inv ?s" using assms health_field_inv(2) by (auto simp: sync_inv_def)
  have "sync_inv (setBlocked Health_stale ?s)"
    if c: "sy_currentness ?s = Current x l2 y" for x l2 y
  proof -
    have "stopped_inv ?s \<or> ready_inv ?s" using s that
      by (auto simp: sync_inv_def buffering_inv_def buffering_base_def is_current_state_def)
    then show ?thesis using setBlocked_stopped blocked_ready by (auto simp: sync_inv_def)
  qed
  with s scheduleHealthCheck_inv show ?thesis
    by (auto simp: expiry_due_def Some gt Let_def split: currentness.split)
qed

lemma sweep_due_inv:
  assumes "sync_inv s"
  shows "sync_inv (sweep_due env now s)"
proof -
  obtain hs b where w: "sweepExpired now (sv_expiryMarginSeconds env) (sy_book s) = (hs, b)"
    by (cases "sweepExpired now (sv_expiryMarginSeconds env) (sy_book s)")
  have "quiet s (emit_removals Change_expired hs (note_mark (Swept now) (s\<lparr>sy_book := b\<rparr>)))"
    by (rule quiet_trans [OF quiet_book quiet_trans [OF quiet_mark_note quiet_removals]]) (simp add: quiet_mark_def)
  from quiet_inv(4) [OF this] show ?thesis using assms by (simp add: sweep_due_def w)
qed

lemma resync_now_inv:
  assumes "sync_inv s"
  shows "sync_inv (resync_now s)"
proof -
  consider "stopped_inv s" | "buffering_inv s" | "ready_inv s" using assms by (auto simp: sync_inv_def)
  then show ?thesis
  proof cases
    case 1
    then show ?thesis using schedule_inv assms by (simp add: resync_now_def ensureInitialSync_stopped stopped_inv_def)
  next
    case 2
    then show ?thesis using ensureInitialSync_buffering [OF 2]
      by (simp add: resync_now_def sync_inv_def buffering_inv_def buffering_base_def)
  next
    case 3
    then show ?thesis using schedule_inv [of s] by (simp add: resync_now_def ready_inv_def ready_base_def)
  qed
qed

lemma sync_step_inv: "sync_inv s \<Longrightarrow> sync_inv (sync_step env input s)"
  using stream_event_inv stream_open_inv stream_disconnect_inv next_task_inv task_answered_inv runner_resumes_inv
    health_answered_inv expiry_due_inv stopSynchronization_inv scheduleHealthCheck_inv sweep_due_inv resync_now_inv
  by (cases input) (simp_all add: readiness_due_def resync_due_def health_due_def)

lemma run_sync_inv: "sync_inv s \<Longrightarrow> sync_inv (run_sync env inputs s)"
proof (induction inputs arbitrary: s)
  case (Cons input inputs)
  then show ?case using sync_step_inv by (simp add: run_sync_def)
qed (simp add: run_sync_def)

lemma start_state_inv: "sync_inv (start_state b)"
  by (simp add: sync_inv_def buffering_inv_def buffering_base_def start_state_def publishCurrentness_def note_mark_def
      is_current_state_def)

lemma startBookSync_inv: "startBookSync pd hs opts b0 = Inr (env, s) \<Longrightarrow> sync_inv s \<and> s = start_state (option_or b0 empty_book)"
  using start_state_inv by (auto simp: startBookSync_def Let_def split: if_splits)

section \<open>Removed offers stay away\<close>

text \<open>The offer an event is about, and the last word the trace has on an offer: whether it was removed
  after the last snapshot and not announced again since.\<close>

definition event_subject_hash :: "sse_event \<Rightarrow> string option" where
  "event_subject_hash ev =
     (if sse_type ev = ''offer_indexed'' then map_option toLowerCase (sse_offerHash ev)
      else if sse_type ev = ''offer_consumed'' \<or> sse_type ev = ''offer_expired''
      then map_option toLowerCase (truthy (sse_offerHash ev)) else None)"

definition last_word :: "string \<Rightarrow> sse_event list \<Rightarrow> sse_event option" where
  "last_word h evs = find (\<lambda>ev. event_subject_hash ev = Some h) (rev evs)"

definition removed_last :: "string \<Rightarrow> sse_event list \<Rightarrow> bool" where
  "removed_last h evs = (case last_word h evs of None \<Rightarrow> False | Some ev \<Rightarrow> sse_type ev \<noteq> ''offer_indexed'')"

lemma last_word_append:
  "last_word h (xs @ ys) = (case last_word h ys of None \<Rightarrow> last_word h xs | Some ev \<Rightarrow> Some ev)"
  unfolding last_word_def rev_append find_append by (simp split: option.split)

lemma removed_last_snoc: "removed_last h (evs @ [ev]) =
    (if event_subject_hash ev = Some h then sse_type ev \<noteq> ''offer_indexed'' else removed_last h evs)"
  by (simp add: removed_last_def last_word_append) (simp add: last_word_def)

definition lookup :: "book_sync \<Rightarrow> string \<Rightarrow> book_offer option" where
  "lookup s h = map_of (bk_byHash (sy_book s)) h"

definition applied_events :: "book_sync \<Rightarrow> sse_event list" where
  "applied_events s = gp_applied (gap_of (sy_trace s))"

definition fetch_of :: "awaiting option \<Rightarrow> string option" where
  "fetch_of a = (case a of Some (Event_detail h) \<Rightarrow> Some h | Some (Initial_detail _ _ _ h) \<Rightarrow> Some h | _ \<Rightarrow> None)"

definition away :: "book_sync \<Rightarrow> bool" where
  "away s \<longleftrightarrow> (\<forall>h. removed_last h (applied_events s) \<longrightarrow> lookup s h = None \<and> fetch_of (sy_running s) \<noteq> Some h)"

text \<open>Steps that apply nothing and add nothing to the book.\<close>

definition calm :: "book_sync \<Rightarrow> book_sync \<Rightarrow> bool" where
  "calm s s' \<longleftrightarrow> applied_events s' = applied_events s \<and> (\<forall>h. lookup s h = None \<longrightarrow> lookup s' h = None)
     \<and> (fetch_of (sy_running s') = None \<or> fetch_of (sy_running s') = fetch_of (sy_running s))"

lemma calm_away: "away s \<Longrightarrow> calm s s' \<Longrightarrow> away s'"
  unfolding away_def calm_def by auto

lemma calm_refl [simp]: "calm s s"
  by (simp add: calm_def)

lemma calm_trans [trans]: "calm s s' \<Longrightarrow> calm s' s'' \<Longrightarrow> calm s s''"
  unfolding calm_def by auto

lemma calmI:
  assumes "gp_applied (gap_of (sy_trace s')) = gp_applied (gap_of (sy_trace s))" "sy_book s' = sy_book s"
    "sy_running s' = sy_running s \<or> fetch_of (sy_running s') = None"
  shows "calm s s'"
  using assms by (auto simp: calm_def applied_events_def lookup_def)

lemma calm_note: "(case m of Event_applied _ \<Rightarrow> False | Snapshot_applied _ _ \<Rightarrow> False | _ \<Rightarrow> True) \<Longrightarrow> calm s (note_mark m s)"
  by (rule calmI) (cases m; simp add: gap_step_def)+

lemma calm_blocked [simp]: "calm s (setBlocked r s)"
  by (rule calmI) simp_all

lemma calm_ensure [simp]: "calm s (ensureInitialSync s)"
  by (rule calmI) (simp_all add: ensureInitialSync_def enqueue_def)

lemma running_cleared [simp]: "fetch_of None = None"
  by (simp add: fetch_of_def)

lemma calm_attempt_ended [simp]: "calm s (attempt_ended f s)"
proof -
  define s1 where "s1 = (finish_task (if f then note_mark Reported (s\<lparr>sy_buffering := True\<rparr>) else s))\<lparr>sy_initialAttempt := False\<rparr>"
  have "calm s s1" by (rule calmI) (simp_all add: s1_def finish_task_def quiet_mark_def)
  also have "calm s1 (s1\<lparr>sy_retryInitial := False\<rparr>)" by (rule calmI) simp_all
  also have "calm \<dots> (ensureInitialSync \<dots>)" by simp
  finally have "calm s (ensureInitialSync (s1\<lparr>sy_retryInitial := False\<rparr>))" .
  moreover have "calm s (s1\<lparr>sy_retryInitial := False\<rparr>)"
    by (rule calm_trans [OF \<open>calm s s1\<close>]) (rule calmI; simp)
  ultimately show ?thesis using \<open>calm s s1\<close> by (simp add: attempt_ended_def Let_def s1_def)
qed

lemma calm_attempt_failed [simp]: "calm s (attempt_failed r s)"
  unfolding attempt_failed_def by (rule calm_trans [OF calm_blocked calm_attempt_ended])

lemma calm_running: "fetch_of x = None \<Longrightarrow> calm s (s\<lparr>sy_running := x\<rparr>)"
  by (rule calmI) simp_all

lemma calm_attempt_turn [simp]: "calm s (attempt_turn s)"
  by (simp add: attempt_turn_def calm_running fetch_of_def)

lemma calm_clear [simp]: "calm s (clear_buffer s)"
  by (rule calmI) (simp_all add: clear_buffer_def)

lemma calm_installCurrent: "installCurrent env h g now s = (e, s1) \<Longrightarrow> calm s s1"
  using installCurrent_fields [of env h g now s] by (intro calmI) simp_all

lemma calm_attempt_install [simp]: "calm s (attempt_install env g h now s)"
proof (cases "sy_overflowed s \<or> superseded g s")
  case True
  then show ?thesis using calm_trans [OF calm_clear calm_attempt_ended] calm_trans [OF calm_clear calm_attempt_turn]
    by (simp add: attempt_install_def Let_def)
next
  case False
  obtain e s1 where i: "installCurrent env h g now s = (e, s1)" by (cases "installCurrent env h g now s")
  have c: "calm s s1" by (rule calm_installCurrent [OF i])
  also have "calm s1 (note_mark Ready_resolved (s1\<lparr>sy_buffering := False, sy_readySettled := True, sy_readinessArmed := False\<rparr>))"
    by (rule calmI) (simp_all add: quiet_mark_def)
  also have "calm \<dots> (attempt_ended False \<dots>)" by simp
  finally show ?thesis using False calm_trans [OF c calm_attempt_failed]
    by (simp add: attempt_install_def i split: option.split)
qed

text \<open>The runner.\<close>

lemma calm_enqueue [simp]: "calm s (enqueue task s)"
  by (rule calmI) simp_all

lemma calm_begin_stage [simp]: "calm s (begin_stage s)"
  by (rule calmI) (simp_all add: begin_stage_def)

lemma calm_runner_ended [simp]: "calm s (runner_ended f s)"
proof -
  let ?s = "(if f then note_mark Reported s else s)\<lparr>sy_runner := None\<rparr>"
  have "calm s ?s" by (rule calmI) (simp_all add: quiet_mark_def)
  from this calm_trans [OF this calm_begin_stage] show ?thesis by (simp add: runner_ended_def Let_def)
qed

lemma calm_runner_loop [simp]: "calm s (runner_loop s)"
  by (simp add: runner_loop_def)

lemma calm_runner_catch [simp]: "calm s (runner_catch t r s)"
proof -
  have "calm s (s\<lparr>sy_completed := t\<rparr>)" by (rule calmI) simp_all
  from calm_trans [OF this calm_runner_ended] calm_trans [OF this calm_runner_loop] show ?thesis
    by (simp add: runner_catch_def Let_def)
qed

lemma calm_schedule [simp]: "calm s (schedulePostReadyResync s)"
proof -
  have "calm s (s\<lparr>sy_requested := Suc (sy_requested s)\<rparr>)" by (rule calmI) simp_all
  from this calm_trans [OF this calm_runner_loop] show ?thesis by (simp add: schedulePostReadyResync_def Let_def)
qed

lemma calm_runner_resumes [simp]: "calm s (runner_resumes s)"
proof -
  have a: "calm s (runner_loop (s\<lparr>sy_completed := t\<rparr>))" for t
    by (rule calm_trans [OF _ calm_runner_loop]) (rule calmI; simp)
  have b: "calm s (enqueue (Run_install h g) (s\<lparr>sy_runner := Some (Awaiting_install t)\<rparr>))" for h g t
    by (rule calm_trans [OF _ calm_enqueue]) (rule calmI; simp)
  show ?thesis by (simp add: runner_resumes_def a b split: option.split resync_runner.split sum.split)
qed

lemma calm_stage_ended [simp]: "calm s (stage_ended res s)" "calm s (install_ended res' s)"
  by (rule calmI; simp add: stage_ended_def install_ended_def finish_task_def)+

lemma calm_stage_failed [simp]: "calm s (stage_failed r s)"
  unfolding stage_failed_def
  by (rule calm_trans [OF calm_trans [OF calm_blocked calm_note] calm_stage_ended(1)]) simp

lemma calm_install_runs [simp]: "calm s (install_runs env h g now s)"
proof -
  obtain e s1 where i: "installCurrent env h g now s = (e, s1)" by (cases "installCurrent env h g now s")
  have c: "calm s s1" by (rule calm_installCurrent [OF i])
  have "calm s1 (install_ended x (note_mark Reported (setBlocked r s1)))" for x r
    by (rule calm_trans [OF calm_trans [OF calm_blocked calm_note] calm_stage_ended(2)]) simp
  then show ?thesis using calm_trans [OF c] by (simp add: install_runs_def i Let_def split: option.split)
qed

text \<open>What applies events, or adds to the book.\<close>

definition away_book :: "book_sync \<Rightarrow> bool" where
  "away_book s \<longleftrightarrow> (\<forall>h. removed_last h (applied_events s) \<longrightarrow> lookup s h = None)"

lemma away_split: "away s \<longleftrightarrow> away_book s \<and> (\<forall>h. fetch_of (sy_running s) = Some h \<longrightarrow> \<not> removed_last h (applied_events s))"
  by (auto simp: away_def away_book_def)

lemma calm_settles: "away_book s \<Longrightarrow> calm s s' \<Longrightarrow> fetch_of (sy_running s') = None \<Longrightarrow> away s'"
  by (auto simp: away_def away_book_def calm_def)

lemma ensure_running [simp]: "sy_running (ensureInitialSync s) = sy_running s"
  by (simp add: ensureInitialSync_def enqueue_def)

lemma attempt_ended_running [simp]: "sy_running (attempt_ended f s) = None" "sy_running (attempt_failed r s) = None"
  by (simp_all add: attempt_failed_def attempt_ended_def finish_task_def Let_def)

lemma attempt_turn_fetch [simp]: "fetch_of (sy_running (attempt_turn s)) = None"
  by (simp add: attempt_turn_def fetch_of_def)

lemma attempt_install_fetch [simp]: "fetch_of (sy_running (attempt_install env g h now s)) = None"
  by (simp add: attempt_install_def Let_def split: prod.split option.split)

lemma attempts_away:
  assumes "away_book s"
  shows "away (attempt_ended f s)" "away (attempt_failed r s)" "away (attempt_turn s)" "away (attempt_install env g h now s)"
  by (rule calm_settles [OF assms]; simp)+

text \<open>Removals only shrink the book.\<close>

definition shrinks :: "book_sync \<Rightarrow> book_sync \<Rightarrow> bool" where
  "shrinks s s' \<longleftrightarrow> applied_events s' = applied_events s \<and> sy_running s' = sy_running s
     \<and> (\<forall>h. lookup s h = None \<longrightarrow> lookup s' h = None)"

lemma shrinks_refl [simp]: "shrinks s s"
  by (simp add: shrinks_def)

lemma shrinks_trans [trans]: "shrinks s s' \<Longrightarrow> shrinks s' s'' \<Longrightarrow> shrinks s s''"
  by (simp add: shrinks_def)

lemma shrinks_emit [simp]: "shrinks s (emit_change c s)" "shrinks s (emit_removals r hs s)"
proof -
  show e: "shrinks s (emit_change c s)" for c s
    by (simp add: shrinks_def emit_change_def applied_events_def lookup_def gap_step_def)
  show "shrinks s (emit_removals r hs s)" unfolding emit_removals_def
  proof (induction hs arbitrary: s)
    case (Cons h hs)
    from shrinks_trans [OF e Cons] show ?case by simp
  qed simp
qed

lemma shrinks_remove:
  shows "shrinks s (removeAndEmit h r s)" and "lookup (removeAndEmit h r s) (toLowerCase h) = None"
proof -
  have "shrinks s (s\<lparr>sy_book := book_remove h (sy_book s)\<rparr>)"
    by (simp add: shrinks_def applied_events_def lookup_def byHash_remove)
  from shrinks_trans [OF this shrinks_emit(1)] show "shrinks s (removeAndEmit h r s)" by (simp add: removeAndEmit_def)
  show "lookup (removeAndEmit h r s) (toLowerCase h) = None"
    by (simp add: removeAndEmit_def removed_by_def lookup_def emit_change_def byHash_remove)
qed

lemma fold_remove_none: "map_of (bk_byHash b) h = None \<Longrightarrow> map_of (bk_byHash (fold book_remove hs b)) h = None"
  by (induction hs arbitrary: b) (simp_all add: byHash_remove)

lemma shrinks_nullifier: "removeByNullifier n (sy_book s) = (hs, b) \<Longrightarrow> shrinks s (s\<lparr>sy_book := b\<rparr>)"
  by (auto simp: removeByNullifier_def Let_def shrinks_def applied_events_def lookup_def fold_remove_none)

lemma apply_event_shrinks:
  assumes "\<not> sy_stopped s" "apply_event ev s = (x, s')"
  shows "shrinks (note_mark (Event_applied ev) s) s'"
    and "event_subject_hash ev = Some h \<Longrightarrow> sse_type ev \<noteq> ''offer_indexed'' \<Longrightarrow> lookup s' h = None"
    and "x = Fetching f \<Longrightarrow> event_subject_hash ev = Some f \<and> sse_type ev = ''offer_indexed''"
proof -
  let ?s = "note_mark (Event_applied ev) s"
  define s1 where "s1 = (case truthy (sse_offerHash ev) of None \<Rightarrow> ?s | Some h \<Rightarrow> removeAndEmit (toLowerCase h) Change_consumed ?s)"
  define s2 where "s2 = (case truthy (sse_nullifier ev) of
                None \<Rightarrow> s1
              | Some n \<Rightarrow> (let (hashes, b) = removeByNullifier n (sy_book s1)
                           in emit_removals Change_consumed hashes (s1\<lparr>sy_book := b\<rparr>)))"
  define e1 where "e1 = (case truthy (sse_offerHash ev) of None \<Rightarrow> ?s | Some h \<Rightarrow> removeAndEmit (toLowerCase h) Change_expired ?s)"
  have s1: "shrinks ?s s1" "\<And>h. truthy (sse_offerHash ev) = Some h \<Longrightarrow> lookup s1 (toLowerCase h) = None"
    using shrinks_remove(1) [where s = ?s] shrinks_remove(2) [where h = "toLowerCase h" for h] by (auto simp: s1_def split: option.split)
  have "shrinks s1 s2"
    using shrinks_trans [OF shrinks_nullifier shrinks_emit(2)] by (auto simp: s2_def split: option.split prod.split)
  with s1 have s2: "shrinks ?s s2" "\<And>h. truthy (sse_offerHash ev) = Some h \<Longrightarrow> lookup s2 (toLowerCase h) = None"
    using shrinks_trans by (blast, simp add: shrinks_def)
  have e1: "shrinks ?s e1" "\<And>h. truthy (sse_offerHash ev) = Some h \<Longrightarrow> lookup e1 (toLowerCase h) = None"
    using shrinks_remove(1) [where s = ?s] shrinks_remove(2) [where h = "toLowerCase h" for h] by (auto simp: e1_def split: option.split)
  have "apply_event ev s = (if sse_type ev = ''offer_indexed'' then
          (case sse_offerHash ev of
             None \<Rightarrow> (Apply_failed, ?s)
           | Some h \<Rightarrow> if book_get (sy_book ?s) (toLowerCase h) \<noteq> None then (Applied, ?s) else (Fetching (toLowerCase h), ?s))
        else if sse_type ev = ''offer_consumed'' then (Applied, s2)
        else if sse_type ev = ''offer_expired'' then (Applied, e1) else (Applied, ?s))"
    using assms(1) unfolding apply_event_def s2_def s1_def e1_def Let_def by simp
  note a = assms(2) [unfolded this]
  show "shrinks ?s s'" using a assms(1) s2(1) e1(1) by (auto split: if_splits option.splits)
  show "lookup s' h = None" if "event_subject_hash ev = Some h" "sse_type ev \<noteq> ''offer_indexed''"
    using a assms(1) s2(2) e1(2) that by (auto simp: event_subject_hash_def split: if_splits)
  show "event_subject_hash ev = Some f \<and> sse_type ev = ''offer_indexed''" if "x = Fetching f"
    using a assms(1) that by (auto simp: event_subject_hash_def split: if_splits option.splits)
qed

lemma apply_event_away:
  assumes "away_book s" "apply_event ev s = (x, s')"
  shows "away_book s'" "x = Fetching f \<Longrightarrow> \<not> removed_last f (applied_events s')" "sy_running s' = sy_running s"
proof -
  consider "sy_stopped s" | "\<not> sy_stopped s" by blast
  then have "away_book s' \<and> (x = Fetching f \<longrightarrow> \<not> removed_last f (applied_events s')) \<and> sy_running s' = sy_running s"
  proof cases
    case 1
    with assms apply_event_stopped [OF 1] show ?thesis by auto
  next
    case 2
    note sh = apply_event_shrinks [OF 2 assms(2)]
    have app: "applied_events s' = applied_events s @ [ev]"
      using sh(1) by (simp add: shrinks_def applied_events_def gap_step_def)
    have keep: "lookup s h = None \<Longrightarrow> lookup s' h = None" for h
      using sh(1) by (simp add: shrinks_def lookup_def)
    have "lookup s' k = None" if "removed_last k (applied_events s')" for k
      using that sh(2) assms(1) keep unfolding app removed_last_snoc away_book_def by (auto split: if_splits)
    moreover have "\<not> removed_last f (applied_events s')" if "x = Fetching f"
      using sh(3) [OF that] unfolding app removed_last_snoc by simp
    moreover have "sy_running s' = sy_running s" using sh(1) by (simp add: shrinks_def)
    ultimately show ?thesis unfolding away_book_def by blast
  qed
  then show "away_book s'" "x = Fetching f \<Longrightarrow> \<not> removed_last f (applied_events s')" "sy_running s' = sy_running s" by blast+
qed

lemma bookOfferFromApi_hash: "bookOfferFromApi pd row = Some v \<Longrightarrow> so_offerHash v = toLowerCase (text_of (js_get row ''offerId''))"
  by (auto simp: bookOfferFromApi_def Let_def split: if_splits json.splits)

lemma add_fetched_cases:
  assumes "add_fetched env h a s = (ok, s')"
  obtains (same) "s' = note_mark (Detail_read h a) s"
  | (new) detail v r where "getZswapByHash (sv_hasher env) h r = Inr detail" "bookOfferFromApi (sv_parseDate env) detail = Some v"
      "s' = emit_change (Offer_added v) ((note_mark (Detail_read h a) s)\<lparr>sy_book := book_upsert v (sy_book s)\<rparr>)"
proof (cases "bindR a (getZswapByHash (sv_hasher env) h)")
  case (Inl e)
  then show thesis using assms same by (simp add: add_fetched_def Let_def)
next
  case (Inr detail)
  then obtain r where r: "getZswapByHash (sv_hasher env) h r = Inr detail" by (auto simp: bindR_eq_Inr)
  show thesis
  proof (cases "bookOfferFromApi (sv_parseDate env) detail")
    case None
    then show thesis using assms same Inr by (simp add: add_fetched_def Let_def split: if_splits)
  next
    case (Some v)
    then show thesis using assms same new [OF r Some] Inr by (simp add: add_fetched_def Let_def split: if_splits)
  qed
qed

lemma add_fetched_away:
  assumes "away_book s" "\<not> removed_last h (applied_events s)" "add_fetched env h a s = (ok, s')"
  shows "away_book s' \<and> sy_running s' = sy_running s"
  using assms(3)
proof (cases rule: add_fetched_cases)
  case same
  with assms(1) show ?thesis by (simp add: away_book_def applied_events_def lookup_def gap_step_def)
next
  case (new detail v r)
  have "so_offerHash v = toLowerCase h"
    using bookOfferFromApi_hash [OF new(2)] getZswapByHash_bound [OF new(1)] by (simp add: text_of_def)
  moreover have "toLowerCase h = h" using getZswapByHash_bound [OF new(1)] by (simp add: toLowerCase_lower)
  ultimately have l: "k \<noteq> h \<Longrightarrow> lookup s' k = lookup s k" and app: "applied_events s' = applied_events s"
    and run: "sy_running s' = sy_running s" for k
    by (simp_all add: new(3) lookup_def emit_change_def byHash_upsert applied_events_def gap_step_def)
  have "lookup s' k = None" if "removed_last k (applied_events s')" for k
  proof -
    have "k \<noteq> h" using that assms(2) app by auto
    with l that assms(1) app show ?thesis by (simp add: away_book_def)
  qed
  with run show ?thesis by (simp add: away_book_def)
qed

lemma applySnapshot_away:
  assumes "away_book s"
  shows "away_book (applySnapshot g offers s)" "sy_running (applySnapshot g offers s) = sy_running s"
proof -
  have "away_book (applySnapshot g offers s) \<and> sy_running (applySnapshot g offers s) = sy_running s"
  proof (cases "sy_stopped s")
    case True
    with assms show ?thesis by (simp add: applySnapshot_def)
  next
    case False
    have "applied_events (applySnapshot g offers s) = []"
      using quiet_fields(17) [OF applySnapshot_marked [OF False]] by (simp add: applied_events_def gap_step_def)
    then show ?thesis using quiet_fields(12) [OF applySnapshot_marked [OF False]]
      by (simp add: away_book_def removed_last_def last_word_def)
  qed
  then show "away_book (applySnapshot g offers s)" "sy_running (applySnapshot g offers s) = sy_running s" by blast+
qed

text \<open>The attempt.\<close>

lemma drain_batch_away:
  assumes "away_book s" "drain_batch g batch s = (r, s')"
  shows "away_book s' \<and> (\<forall>h rest. r = Batch_waits h rest \<longrightarrow> \<not> removed_last h (applied_events s'))"
  using assms
proof (induction batch arbitrary: s)
  case (Cons ev batch)
  obtain x s1 where a: "apply_event ev s = (x, s1)" by (cases "apply_event ev s")
  note w = apply_event_away [OF Cons.prems(1) a]
  show ?case
  proof (cases x)
    case Applied
    show ?thesis
    proof (cases "sy_stopped s1 \<or> sy_overflowed s1 \<or> superseded g s1")
      case True
      with Applied a Cons.prems(2) w(1) show ?thesis by auto
    next
      case False
      with Applied a Cons.prems(2) have "drain_batch g batch s1 = (r, s')" by simp
      from Cons.IH [OF w(1) this] show ?thesis .
    qed
  qed (use a Cons.prems(2) w in auto)
qed auto

lemma after_batch_away:
  assumes "away_book (snd r)" "\<And>h rest. fst r = Batch_waits h rest \<Longrightarrow> \<not> removed_last h (applied_events (snd r))"
    and continue: "away_book (snd r) \<Longrightarrow> away (continue (snd r))"
  shows "away (after_batch env g h now r continue)"
proof -
  obtain x s where r: "r = (x, s)" by (cases r)
  show ?thesis
  proof (cases x)
    case (Batch_waits k rest)
    let ?s = "s\<lparr>sy_running := Some (Initial_detail g h rest k)\<rparr>"
    have "away ?s" using assms(1,2) Batch_waits
      by (simp add: r away_split away_book_def lookup_def applied_events_def fetch_of_def)
    then show ?thesis by (simp add: after_batch_def r Batch_waits)
  qed (use assms attempts_away in \<open>simp_all add: after_batch_def r\<close>)
qed

lemma drain_loop_away:
  assumes "away_book s"
  shows "away (drain_loop env g h now s)"
proof -
  have "away_book (take_batch s)" using assms
    by (simp add: take_batch_def away_book_def lookup_def applied_events_def)
  then have "away (after_batch env g h now (drain_batch g (sy_buffered s) (take_batch s)) (attempt_install env g h now))"
    using drain_batch_away [of "take_batch s" g "sy_buffered s"]
    by (intro after_batch_away) (auto simp: attempts_away prod_eq_iff intro: attempts_away(4))
  then show ?thesis using assms attempts_away(4) by (simp add: drain_loop_def drain_once_def)
qed

lemma running_away: "away_book s \<Longrightarrow> fetch_of x = None \<Longrightarrow> away (s\<lparr>sy_running := x\<rparr>)"
  by (rule calm_settles [OF _ calm_running]) simp_all

lemma away_note: "away s \<Longrightarrow> (case m of Event_applied _ \<Rightarrow> False | Snapshot_applied _ _ \<Rightarrow> False | _ \<Rightarrow> True) \<Longrightarrow> away (note_mark m s)"
  by (rule calm_away [OF _ calm_note])

lemma answers_away:
  assumes "away s"
  shows "away (attempt_preflight env g a now s)" "away (attempt_walk env g source s)"
    "away (attempt_verdict env g offers a now s)" "away (stage_walk env g source s)" "away (stage_verdict env g offers a now s)"
proof -
  have b: "away_book s" using assms by (simp add: away_split)
  have w: "away_book (note_mark (Walk_began g) s)" using away_note [OF assms, of "Walk_began g"] by (simp add: away_split)
  show "away (attempt_preflight env g a now s)"
    by (simp add: attempt_preflight_def attempts_away(2) [OF b] running_away [OF w] fetch_of_def split: sum.split)
  show "away (attempt_walk env g source s)"
    by (simp add: attempt_walk_def attempts_away(2) [OF b] running_away [OF b] fetch_of_def split: sum.split)
  note snap = applySnapshot_away [OF b, of g offers]
  have clear: "away_book (clear_buffer (applySnapshot g offers s))" using snap(1)
    by (simp add: clear_buffer_def away_book_def lookup_def applied_events_def)
  show "away (attempt_verdict env g offers a now s)"
    using attempts_away(1) [OF snap(1)] attempts_away(1,3) [OF clear] attempts_away(2) [OF b] drain_loop_away [OF snap(1)]
    by (simp add: attempt_verdict_def Let_def split: sum.split)
  show "away (stage_walk env g source s)"
    using calm_away [OF assms calm_stage_failed] by (simp add: stage_walk_def running_away [OF b] fetch_of_def split: sum.split)
  have "away (stage_ended x (applySnapshot g offers s))" for x
    by (rule calm_settles [OF snap(1) calm_stage_ended(1)]) (simp add: stage_ended_def finish_task_def)
  then show "away (stage_verdict env g offers a now s)"
    using calm_away [OF assms calm_stage_failed] by (simp add: stage_verdict_def split: sum.split)
qed

lemma attempt_detail_away:
  assumes "away s" "fetch_of (sy_running s) = Some x"
  shows "away (attempt_detail env g h batch x a now s)"
proof -
  obtain ok s1 where f: "add_fetched env x a s = (ok, s1)" by (cases "add_fetched env x a s")
  have b: "away_book s1" using add_fetched_away [OF _ _ f] assms by (simp add: away_split)
  let ?r = "if sy_stopped s1 \<or> sy_overflowed s1 \<or> superseded g s1 then (Batch_done, s1) else drain_batch g batch s1"
  have "away (after_batch env g h now ?r (drain_loop env g h now))"
    using b drain_batch_away [OF b, of g batch] drain_loop_away
    by (intro after_batch_away) (auto simp: prod_eq_iff split: if_splits)
  then show ?thesis using attempts_away(1) [OF b] by (cases ok) (simp_all add: attempt_detail_def f)
qed

lemma event_away:
  assumes "away s"
  shows "away (event_runs ev s)" "fetch_of (sy_running s) = Some h \<Longrightarrow> away (event_detail env h a s)"
proof -
  have b: "away_book s" using assms by (simp add: away_split)
  have fin: "away (finish_task s1)" "away (finish_task (note_mark Reported s1))" if "away_book s1" for s1
    using that running_away [OF that, of None] running_away [of "note_mark Reported s1" None]
    by (simp_all add: finish_task_def away_book_def lookup_def applied_events_def gap_step_def)
  obtain x s1 where e: "apply_event ev s = (x, s1)" by (cases "apply_event ev s")
  note w = apply_event_away [OF b e]
  have "away (s1\<lparr>sy_running := Some (Event_detail f)\<rparr>)" if "x = Fetching f" for f
    using w(1) w(2) [OF that] by (simp add: away_split away_book_def lookup_def applied_events_def fetch_of_def)
  then show "away (event_runs ev s)" using fin [OF w(1)] by (cases x) (simp_all add: event_runs_def e)
  show "away (event_detail env h a s)" if fetch: "fetch_of (sy_running s) = Some h"
  proof -
    obtain ok s1 where f: "add_fetched env h a s = (ok, s1)" by (cases "add_fetched env h a s")
    have "away_book s1" using add_fetched_away [OF b _ f] assms fetch by (simp add: away_split)
    from fin [OF this] show ?thesis by (cases ok) (simp_all add: event_detail_def f)
  qed
qed

text \<open>Every step.\<close>

lemma calm_queue [simp]: "calm s (s\<lparr>sy_queue := q\<rparr>)"
  by (rule calmI) simp_all

lemma calm_task_skipped [simp]: "calm s (task_skipped task s)"
  by (simp add: task_skipped_def calm_running finish_task_def split: sync_task.split)

lemma calm_stage_begins [simp]: "calm s (stage_begins s)"
proof -
  have "calm s ((note_mark (Walk_began g) s)\<lparr>sy_running := Some (Stage_walk g)\<rparr>)" for g
    by (rule calm_trans [OF calm_note calm_running]) (simp_all add: fetch_of_def)
  then show ?thesis by (simp add: stage_begins_def)
qed

lemma next_task_away:
  assumes "away s"
  shows "away (next_task env now s)"
proof (cases "sy_running s = None \<and> sy_queue s \<noteq> []")
  case False
  then have "next_task env now s = s" by (auto simp: next_task_def split: option.split list.split)
  with assms show ?thesis by simp
next
  case True
  then obtain task rest where q: "sy_running s = None" "sy_queue s = task # rest" by (auto simp: neq_Nil_conv)
  have s: "away (s\<lparr>sy_queue := rest\<rparr>)" by (rule calm_away [OF assms]) simp
  have "away (task_runs env task now (s\<lparr>sy_queue := rest\<rparr>))"
    using event_away(1) [OF s] calm_away [OF s] by (simp add: task_runs_def split: sync_task.split)
  then show ?thesis by (simp add: next_task_def q)
qed

lemma task_answered_away:
  assumes "away s"
  shows "away (task_answered env answer now s)"
  using assms answers_away [OF assms] attempt_detail_away [OF assms] event_away(2) [OF assms]
  by (simp add: task_answered_def fetch_of_def split: option.split awaiting.split task_answer.split)

lemma calm_scheduleHealthCheck [simp]: "calm s (scheduleHealthCheck s)"
proof -
  have "calm s (s\<lparr>sy_healthCheck := hc\<rparr>)" for hc by (rule calmI) simp_all
  then show ?thesis by (simp add: scheduleHealthCheck_def)
qed

lemma calm_stream_event: "calm s (stream_event env ev s)"
  by (rule calmI) (simp_all add: stream_event_def Let_def gap_step_def quiet_mark_def)

lemma calm_stream_open: "calm s (stream_open height s)"
proof -
  define s1 where "s1 = note_mark (Subscribed (Suc (sy_generation s)) height)
      (s\<lparr>sy_connected := True, sy_generation := Suc (sy_generation s), sy_anchor := height\<rparr>)"
  define s2 where "s2 = (if sy_initialAttempt s1 then s1\<lparr>sy_retryInitial := True\<rparr> else s1)"
  have "calm s s1" "calm s s2" by (rule calmI; simp add: s1_def s2_def gap_step_def)+
  then have "calm s (ensureInitialSync s2)" "calm s (schedulePostReadyResync (setBlocked Stream_generation_changed s1))"
    using calm_trans calm_ensure calm_blocked calm_schedule by blast+
  then show ?thesis unfolding stream_open_def Let_def s2_def s1_def by simp
qed

lemma calm_stream_disconnect: "calm s (stream_disconnect s)"
  by (rule calmI) (simp_all add: stream_disconnect_def Let_def clear_buffer_def gap_step_def)

lemma calm_health_answered: "calm s (health_answered env a now s)"
proof (cases "sy_healthCheck s")
  case (Some g)
  obtain b s1 where v: "health_verdict env g a now s = (b, s1)" by (cases "health_verdict env g a now s")
  have "calm s s1" using v calm_installCurrent calm_trans [OF calm_installCurrent calm_blocked]
    by (auto simp: health_verdict_def Let_def split: sum.splits if_splits prod.splits option.splits)
  moreover have "calm s1 (s1\<lparr>sy_healthCheck := None\<rparr>)" by (rule calmI) simp_all
  ultimately have "calm s (s1\<lparr>sy_healthCheck := None\<rparr>)" by (rule calm_trans)
  from this calm_trans [OF this calm_schedule] show ?thesis by (simp add: health_answered_def Some v Let_def)
qed (simp add: health_answered_def)

lemma calm_stop [simp]: "calm s (stopSynchronization s)"
  by (rule calmI) (simp_all add: stopSynchronization_def Let_def quiet_mark_def)

lemma calm_expiry_due: "calm s (expiry_due s)"
proof (cases "sy_expiry s")
  case (Some gt)
  obtain g ts where gt: "gt = (g, ts)" by (cases gt)
  have "calm s (s\<lparr>sy_expiry := None\<rparr>)" by (rule calmI) simp_all
  from this calm_trans [OF this calm_trans [OF calm_blocked calm_scheduleHealthCheck]] show ?thesis
    by (simp add: expiry_due_def Some gt Let_def split: currentness.split)
qed (simp add: expiry_due_def)

lemma calm_sweep_due: "calm s (sweep_due env now s)"
proof -
  obtain hs b where w: "sweepExpired now (sv_expiryMarginSeconds env) (sy_book s) = (hs, b)"
    by (cases "sweepExpired now (sv_expiryMarginSeconds env) (sy_book s)")
  then have b: "b = fold book_remove hs (sy_book s)" by (auto simp: sweepExpired_def Let_def)
  have "shrinks s (note_mark (Swept now) (s\<lparr>sy_book := b\<rparr>))"
    by (simp add: shrinks_def applied_events_def lookup_def b fold_remove_none quiet_mark_def)
  from shrinks_trans [OF this shrinks_emit(2)] show ?thesis by (simp add: sweep_due_def w shrinks_def calm_def)
qed

lemma sync_step_away: "away s \<Longrightarrow> away (sync_step env input s)"
  using next_task_away task_answered_away calm_away calm_stream_event calm_stream_open calm_stream_disconnect
    calm_health_answered calm_expiry_due calm_sweep_due
  by (cases input) (simp_all add: readiness_due_def resync_due_def resync_now_def health_due_def)

lemma run_sync_away: "away s \<Longrightarrow> away (run_sync env inputs s)"
proof (induction inputs arbitrary: s)
  case (Cons input inputs)
  then show ?case using sync_step_away by (simp add: run_sync_def)
qed (simp add: run_sync_def)

lemma start_state_away: "away (start_state b)"
  by (simp add: away_def start_state_def publishCurrentness_def note_mark_def applied_events_def gap_of_def gap_step_def
      removed_last_def last_word_def)

section \<open>What the mirror promises\<close>

text \<open>C15:
  The mirror calls itself current only when it may. After any interleaving of stream frames, reconnects,
  task answers, health checks, timers and calls, a current mirror is not stopped, has resolved its
  readiness, is connected, and the generation it names is that of the live subscription; the backend
  height it was installed with is, as a number, at or above the height the subscription was anchored at.\<close>

theorem mirror_current_sound:
  assumes "startBookSync parseDate hasher opts b0 = Inr (env, s0)"
    and "isCurrent (run_sync env inputs s0)"
  shows "let s = run_sync env inputs s0 in sy_connected s \<and> sy_readySettled s \<and> \<not> sy_buffering s
    \<and> (\<exists>l2 ts. sy_currentness s = Current (sy_generation s) l2 ts
        \<and> (case sy_anchor s of None \<Rightarrow> True
           | Some anchor \<Rightarrow> positive_decimal l2 \<and> positive_decimal anchor \<longrightarrow> nat_of_digits anchor \<le> nat_of_digits l2))"
proof -
  let ?s = "run_sync env inputs s0"
  have "sync_inv ?s" using startBookSync_inv [OF assms(1)] run_sync_inv by blast
  then have "ready_inv ?s" using assms(2)
    by (auto simp: sync_inv_def isCurrent_def stopped_inv_def buffering_inv_def buffering_base_def)
  then show ?thesis using assms(2)
    by (auto simp: Let_def ready_inv_def ready_base_def current_ok_def isCurrent_def is_current_state_def heightAtLeast_iff
        split: currentness.splits option.splits)
qed

lemma last_word_suffix:
  assumes "suffix xs (ys @ zs)" "last_word h zs = None" "removed_last h xs"
  shows "removed_last h ys"
proof -
  from assms(1) obtain us where "ys @ zs = us @ xs" by (auto simp: suffix_def)
  then have "last_word h (ys @ zs) = last_word h (us @ xs)" by simp
  with assms(2,3) show ?thesis by (auto simp: last_word_append removed_last_def split: option.splits)
qed

text \<open>C14:
  The mirror never offers what it was told is gone. While it is current, an offer whose last event received
  since the snapshot's walk began was its consumption or expiry, and about which no event is still waiting,
  is not in the book: neither the snapshot, nor a detail fetch that was in flight, can bring it back.\<close>

theorem mirror_excludes_removed:
  assumes "startBookSync parseDate hasher opts b0 = Inr (env, s0)"
    and "isCurrent (run_sync env inputs s0)"
    and "gp_snapshot (gap_of (sy_trace (run_sync env inputs s0))) = Some (g, evs)"
    and "removed_last h evs" and "last_word h (waiting (run_sync env inputs s0)) = None"
  shows "book_get (sy_book (run_sync env inputs s0)) h = None"
proof -
  let ?s = "run_sync env inputs s0"
  have "sync_inv ?s" "away ?s"
    using startBookSync_inv [OF assms(1)] run_sync_inv run_sync_away start_state_away by blast+
  then have "lossless ?s" using assms(2)
    by (auto simp: sync_inv_def isCurrent_def stopped_inv_def buffering_inv_def buffering_base_def ready_inv_def
        current_ok_def is_current_state_def split: currentness.splits)
  then have "suffix evs (applied_events ?s @ waiting ?s)" using assms(3) by (simp add: lossless_def applied_events_def)
  from last_word_suffix [OF this assms(5,4)] have r: "removed_last h (applied_events ?s)" .
  with \<open>away ?s\<close> have "lookup ?s h = None" by (simp add: away_def)
  moreover from r obtain ev where "event_subject_hash ev = Some h"
    by (auto simp: removed_last_def last_word_def find_Some_iff split: option.splits)
  then have "toLowerCase h = h" by (auto simp: event_subject_hash_def split: if_splits)
  ultimately show ?thesis by (simp add: book_get_def lookup_def)
qed

section \<open>A run\<close>

text \<open>A mirror that subscribes at height seven, walks an empty book, hears of the consumption of an
  offer before the verdict, drains that event and becomes current.\<close>

definition sample_pages :: page_source where
  "sample_pages i cursor = Inr \<lparr>ha_status = 200, ha_body = Some (JObj [(''offers'', JArr []), (''nextCursor'', JNull)])\<rparr>"

definition sample_position :: chain_position where
  "sample_position = \<lparr>cp_current = Some 1, cp_fetched = None, cp_tip = Some 1, cp_pct = None, cp_lagBlocks = Some 0\<rparr>"

definition sample_health :: backend_health where
  "sample_health = \<lparr>bh_ts = 1000, bh_status = Sync_ok, bh_blockL2 = Some ''12'', bh_ntp = \<lparr>np_current = 1, np_tip = 1, np_pct = None,
     np_lagBlocks = 0, np_lagSeconds = Integral 0\<rparr>, bh_midnight = sample_position, bh_celestia = sample_position\<rparr>"

definition sample_consumed :: sse_event where
  "sample_consumed = \<lparr>sse_type = ''offer_consumed'', sse_offerHash = Some ''a1'', sse_nullifier = None, sse_bytes = 100\<rparr>"

definition sample_sync_inputs :: "sync_input list" where
  "sample_sync_inputs = [Stream_opened (Some ''7''), Next_task 1000, Task_answered (Health_answered (Inr sample_health)) 1000,
     Task_answered (Pages_answered sample_pages) 1000, Stream_event sample_consumed,
     Task_answered (Health_answered (Inr sample_health)) 1001]"

definition no_sync_options :: sync_options where
  "no_sync_options = \<lparr>op_resyncIntervalMs = None, op_expiryMarginSeconds = None, op_maxBufferedEvents = None,
     op_maxBufferedBytes = None, op_maxSnapshotPages = None, op_maxSnapshotOffers = None, op_readinessTimeoutMs = None,
     op_backendHealthCheckIntervalMs = None, op_backendHealthMaxAgeMs = None, op_backendHealthRequestTimeoutMs = None\<rparr>"

definition sample_sync_env :: sync_env where
  "sample_sync_env = \<lparr>sv_parseDate = (\<lambda>_. Some 99), sv_hasher = (\<lambda>_. None), sv_expiryMarginSeconds = 120,
     sv_maxBufferedEvents = 1000, sv_maxBufferedBytes = 4194304, sv_maxSnapshotPages = 100, sv_maxSnapshotOffers = 10000,
     sv_healthMaxAgeMs = 15000\<rparr>"

lemma sample_start: "startBookSync (\<lambda>_. Some 99) (\<lambda>_. None) no_sync_options None = Inr (sample_sync_env, start_state empty_book)"
  by (simp add: startBookSync_def no_sync_options_def option_or_def limit_ok_def is_safe_integer_def max_safe_integer_def
      DEFAULT_MAX_SNAPSHOT_PAGES_def DEFAULT_MAX_SNAPSHOT_OFFERS_def PAGE_LIMIT_def sample_sync_env_def Let_def)

lemma sample_sync:
  "isCurrent (run_sync sample_sync_env sample_sync_inputs (start_state empty_book))"
  "gp_snapshot (gap_of (sy_trace (run_sync sample_sync_env sample_sync_inputs (start_state empty_book)))) = Some (1, [sample_consumed])"
  "waiting (run_sync sample_sync_env sample_sync_inputs (start_state empty_book)) = []"
  "removed_last ''a1'' [sample_consumed]" "last_word ''a1'' [] = None"
  by code_simp+

lemma mirror_current_sound_witness:
  "let s = run_sync sample_sync_env sample_sync_inputs (start_state empty_book)
   in isCurrent s \<and> sy_connected s \<and> (\<exists>l2 ts. sy_currentness s = Current (sy_generation s) l2 ts)"
  using mirror_current_sound [OF sample_start sample_sync(1)] sample_sync(1) by (auto simp: Let_def)

lemma mirror_excludes_removed_witness:
  "let s = run_sync sample_sync_env sample_sync_inputs (start_state empty_book)
   in isCurrent s \<and> book_get (sy_book s) ''a1'' = None"
  using mirror_excludes_removed [OF sample_start sample_sync(1,2,4)] sample_sync by (simp add: Let_def)

end
