(* ===== verification/Book_Sync_Replay.thy ===== *)
theory Book_Sync_Replay
  imports Book_Sync_Correct
begin

text \<open>
  What every update did to the mirror's book. The trace is replayed against the contract of the updates:
  what a snapshot leaves, what an event removes, which event has to fetch its offer's details before
  anything else is applied, what the details add, and that a fetch that fails is reported. The book of a
  running mirror is the book of that replay, and the details it waits for are those the replay is owed.
\<close>

section \<open>The contract of an update\<close>

type_synonym view = "string \<Rightarrow> book_offer option"

datatype debt = No_debt | Detail_due string | Report_due

text \<open>The offer a row leaves: its hash and nullifiers in lower case, the latter without repetition.\<close>

definition kept_row :: "book_offer \<Rightarrow> book_offer" where
  "kept_row row = row\<lparr>so_offerHash := toLowerCase (so_offerHash row),
     so_inputNullifiers := js_uniq (map toLowerCase (so_inputNullifiers row))\<rparr>"

definition has_blob :: "book_offer \<Rightarrow> bool" where
  "has_blob offer \<longleftrightarrow> bo_blob offer \<noteq> None \<and> bo_blob offer \<noteq> Some []"

definition snapshot_view :: "book_offer list \<Rightarrow> view \<Rightarrow> view" where
  "snapshot_view offers v h = (case find (\<lambda>row. toLowerCase (so_offerHash row) = h) (rev offers) of
     None \<Rightarrow> None
   | Some row \<Rightarrow> Some ((kept_row row)\<lparr>bo_blob := (if has_blob row then bo_blob row
       else case v h of Some cached \<Rightarrow> if has_blob cached then bo_blob cached else bo_blob row | None \<Rightarrow> bo_blob row)\<rparr>))"

definition leaving :: "(string \<Rightarrow> book_offer \<Rightarrow> bool) \<Rightarrow> view \<Rightarrow> view" where
  "leaving gone v h = (case v h of None \<Rightarrow> None | Some offer \<Rightarrow> if gone h offer then None else Some offer)"

text \<open>The offers a removal takes: the one it names, and, for a consumption, all that spend its nullifier.\<close>

definition event_removes :: "sse_event \<Rightarrow> string \<Rightarrow> book_offer \<Rightarrow> bool" where
  "event_removes ev h offer \<longleftrightarrow>
     (sse_type ev \<in> {''offer_consumed'', ''offer_expired''} \<and> map_option toLowerCase (truthy (sse_offerHash ev)) = Some h)
     \<or> (sse_type ev = ''offer_consumed'' \<and>
        (case truthy (sse_nullifier ev) of None \<Rightarrow> False | Some n \<Rightarrow> toLowerCase n \<in> set (so_inputNullifiers offer)))"

definition run_out :: "sync_env \<Rightarrow> int \<Rightarrow> string \<Rightarrow> book_offer \<Rightarrow> bool" where
  "run_out env now h offer = (case so_expiresAt offer of None \<Rightarrow> False
     | Some t \<Rightarrow> t - sv_expiryMarginSeconds env * 1000 \<le> now)"

definition replay_mark :: "sync_env \<Rightarrow> sync_mark \<Rightarrow> view \<Rightarrow> debt \<Rightarrow> (view \<times> debt) option" where
  "replay_mark env m v d = (case d of
     No_debt \<Rightarrow> (case m of
         Event_applied ev \<Rightarrow>
           if sse_type ev = ''offer_indexed''
           then (case sse_offerHash ev of
               None \<Rightarrow> Some (v, Report_due)
             | Some h \<Rightarrow> Some (v, if v (toLowerCase h) = None then Detail_due (toLowerCase h) else No_debt))
           else Some (leaving (event_removes ev) v, No_debt)
       | Snapshot_applied g offers \<Rightarrow> Some (snapshot_view offers v, No_debt)
       | Swept now \<Rightarrow> Some (leaving (run_out env now) v, No_debt)
       | Detail_read h answer \<Rightarrow> None
       | _ \<Rightarrow> Some (v, No_debt))
   | Detail_due h \<Rightarrow> (case m of
         Detail_read h' answer \<Rightarrow>
           if h' \<noteq> h then None
           else (case bindR answer (getZswapByHash (sv_hasher env) h) of
               Inl e \<Rightarrow> Some (v, Report_due)
             | Inr detail \<Rightarrow> Some (case bookOfferFromApi (sv_parseDate env) detail of
                   None \<Rightarrow> v
                 | Some row \<Rightarrow> v(toLowerCase (so_offerHash row) \<mapsto> kept_row row), No_debt))
       | Event_applied ev \<Rightarrow> None
       | Snapshot_applied g offers \<Rightarrow> None
       | Swept now \<Rightarrow> Some (leaving (run_out env now) v, Detail_due h)
       | _ \<Rightarrow> Some (v, Detail_due h))
   | Report_due \<Rightarrow> (case m of Reported \<Rightarrow> Some (v, No_debt) | _ \<Rightarrow> None))"

fun replay :: "sync_env \<Rightarrow> sync_mark list \<Rightarrow> view \<Rightarrow> debt \<Rightarrow> (view \<times> debt) option" where
  "replay env [] v d = Some (v, d)"
| "replay env (m # ms) v d = (case replay_mark env m v d of None \<Rightarrow> None | Some (v', d') \<Rightarrow> replay env ms v' d')"

lemma replay_append: "replay env (xs @ ys) v d = (case replay env xs v d of None \<Rightarrow> None | Some (v', d') \<Rightarrow> replay env ys v' d')"
  by (induction xs arbitrary: v d) (simp_all split: option.split prod.split)

section \<open>The book of the replay\<close>

abbreviation offers_of :: "book_sync \<Rightarrow> view" where
  "offers_of s \<equiv> map_of (bk_byHash (sy_book s))"

definition replays :: "sync_env \<Rightarrow> view \<Rightarrow> debt \<Rightarrow> book_sync \<Rightarrow> bool" where
  "replays env v0 d s \<longleftrightarrow> sy_stopped s
     \<or> (book_ok (sy_book s) \<and> replay env (sy_trace s) v0 No_debt = Some (offers_of s, d))"

definition debt_of :: "awaiting option \<Rightarrow> debt" where
  "debt_of a = (case fetch_of a of None \<Rightarrow> No_debt | Some h \<Rightarrow> Detail_due h)"

lemma debt_of_simps [simp]: "fetch_of a = None \<Longrightarrow> debt_of a = No_debt" "fetch_of a = Some h \<Longrightarrow> debt_of a = Detail_due h"
  by (simp_all add: debt_of_def)

text \<open>Marks that say nothing of the book.\<close>

definition inert :: "sync_mark \<Rightarrow> bool" where
  "inert m = (case m of Event_applied _ \<Rightarrow> False | Snapshot_applied _ _ \<Rightarrow> False | Swept _ \<Rightarrow> False
     | Detail_read _ _ \<Rightarrow> False | _ \<Rightarrow> True)"

lemma replay_inert: "list_all inert ms \<Longrightarrow> d \<noteq> Report_due \<Longrightarrow> replay env ms v d = Some (v, d)"
proof (induction ms)
  case (Cons m ms)
  then have "replay_mark env m v d = Some (v, d)"
    by (cases d; cases m) (simp_all add: inert_def replay_mark_def)
  with Cons show ?case by simp
qed simp

text \<open>Steps that leave the book and only tell.\<close>

definition tells :: "book_sync \<Rightarrow> book_sync \<Rightarrow> bool" where
  "tells s s' \<longleftrightarrow> (sy_stopped s \<longrightarrow> sy_stopped s') \<and> sy_book s' = sy_book s
     \<and> (\<exists>ms. sy_trace s' = sy_trace s @ ms \<and> list_all inert ms)"

lemma tells_replays: "tells s s' \<Longrightarrow> d \<noteq> Report_due \<Longrightarrow> replays env v d s \<Longrightarrow> replays env v d s'"
  by (auto simp: tells_def replays_def replay_append replay_inert)

lemma tells_refl [simp]: "tells s s"
  by (simp add: tells_def)

lemma tells_trans [trans]: "tells s s' \<Longrightarrow> tells s' s'' \<Longrightarrow> tells s s''"
  by (auto simp: tells_def)

lemma tellsI:
  "(sy_stopped s \<Longrightarrow> sy_stopped s') \<Longrightarrow> sy_book s' = sy_book s \<Longrightarrow> sy_trace s' = sy_trace s @ ms \<Longrightarrow> list_all inert ms
    \<Longrightarrow> tells s s'"
  unfolding tells_def by blast

lemma tells_same: "sy_stopped s' = sy_stopped s \<Longrightarrow> sy_book s' = sy_book s \<Longrightarrow> sy_trace s' = sy_trace s \<Longrightarrow> tells s s'"
  by (rule tellsI [of _ _ "[]"]) simp_all

lemma tells_note: "inert m \<Longrightarrow> tells s (note_mark m s)"
  by (rule tellsI [of _ _ "[m]"]) (simp_all add: note_mark_def)

lemma tells_emit [simp]: "tells s (emit_change c s)"
  by (simp add: emit_change_def tells_note inert_def)

lemma tells_fold: "(\<And>x s. tells s (f x s)) \<Longrightarrow> tells s (fold f xs s)"
proof (induction xs arbitrary: s)
  case (Cons x xs)
  have "tells s (f x s)" by (rule Cons.prems)
  also have "tells (f x s) (fold f xs (f x s))" using Cons by blast
  finally show ?case by simp
qed simp

lemma tells_removals [simp]: "tells s (emit_removals r hs s)"
  unfolding emit_removals_def by (rule tells_fold) simp

lemma tells_added [simp]: "tells s (emit_added h s)"
  by (simp add: emit_added_def split: option.split)

lemma tells_publish [simp]: "tells s (publishCurrentness c s)"
proof (cases "\<not> sy_notified s \<or> currentness_changed (sy_currentness s) c")
  case True
  then show ?thesis
    by (intro tellsI [of _ _ "[Told_currentness c]"]) (simp_all add: publishCurrentness_def Let_def note_mark_def inert_def)
next
  case False
  then show ?thesis by (intro tells_same) (simp_all add: publishCurrentness_def Let_def)
qed

lemma tells_blocked [simp]: "tells s (setBlocked r s)"
proof -
  have "tells s (s\<lparr>sy_expiry := None\<rparr>)" by (rule tells_same) simp_all
  from tells_trans [OF this tells_publish] show ?thesis by (simp add: setBlocked_def)
qed

lemma tells_ensure [simp]: "tells s (ensureInitialSync s)"
  by (rule tells_same) (simp_all add: ensureInitialSync_def enqueue_def)

lemma tells_attempt_ended [simp]: "tells s (attempt_ended f s)"
proof -
  define s1 where "s1 = (finish_task (if f then note_mark Reported (s\<lparr>sy_buffering := True\<rparr>) else s))\<lparr>sy_initialAttempt := False\<rparr>"
  have s1: "tells s s1"
    by (rule tellsI [of _ _ "if f then [Reported] else []"]) (simp_all add: s1_def finish_task_def note_mark_def inert_def)
  have r: "tells s1 (s1\<lparr>sy_retryInitial := False\<rparr>)" by (rule tells_same) simp_all
  from s1 tells_trans [OF s1 r] tells_trans [OF tells_trans [OF s1 r] tells_ensure] show ?thesis
    by (simp add: attempt_ended_def Let_def s1_def)
qed

lemma tells_attempt_failed [simp]: "tells s (attempt_failed r s)"
  unfolding attempt_failed_def by (rule tells_trans [OF tells_blocked tells_attempt_ended])

lemma tells_running: "tells s (s\<lparr>sy_running := x\<rparr>)"
  by (rule tells_same) simp_all

lemma tells_attempt_turn [simp]: "tells s (attempt_turn s)"
  by (simp add: attempt_turn_def tells_running)

lemma tells_clear [simp]: "tells s (clear_buffer s)"
  by (rule tells_same) (simp_all add: clear_buffer_def)

lemma tells_installCurrent: "installCurrent env h g now s = (e, s1) \<Longrightarrow> tells s s1"
proof -
  assume i: "installCurrent env h g now s = (e, s1)"
  have "tells s (s\<lparr>sy_expiry := x\<rparr>)" for x by (rule tells_same) simp_all
  from tells_trans [OF this tells_publish] i show ?thesis
    by (auto simp: installCurrent_def split: if_splits)
qed

lemma tells_attempt_install [simp]: "tells s (attempt_install env g h now s)"
proof (cases "sy_overflowed s \<or> superseded g s")
  case True
  then show ?thesis using tells_trans [OF tells_clear tells_attempt_ended] tells_trans [OF tells_clear tells_attempt_turn]
    by (simp add: attempt_install_def Let_def)
next
  case False
  obtain e s1 where i: "installCurrent env h g now s = (e, s1)" by (cases "installCurrent env h g now s")
  have c: "tells s s1" by (rule tells_installCurrent [OF i])
  have "tells s1 (s1\<lparr>sy_buffering := False, sy_readySettled := True, sy_readinessArmed := False\<rparr>)" by (rule tells_same) simp_all
  also have "tells \<dots> (note_mark Ready_resolved \<dots>)" by (rule tells_note) (simp add: inert_def)
  also have "tells \<dots> (attempt_ended False \<dots>)" by simp
  finally show ?thesis using False tells_trans [OF c] tells_trans [OF c tells_attempt_failed]
    by (simp add: attempt_install_def i split: option.split)
qed

lemma tells_enqueue [simp]: "tells s (enqueue task s)"
  by (rule tells_same) (simp_all add: enqueue_def)

lemma tells_begin_stage [simp]: "tells s (begin_stage s)"
  by (rule tells_same) (simp_all add: begin_stage_def enqueue_def)

lemma tells_runner_ended [simp]: "tells s (runner_ended f s)"
proof -
  let ?s = "(if f then note_mark Reported s else s)\<lparr>sy_runner := None\<rparr>"
  have "tells s ?s" by (rule tellsI [of _ _ "if f then [Reported] else []"]) (simp_all add: note_mark_def inert_def)
  from this tells_trans [OF this tells_begin_stage] show ?thesis by (simp add: runner_ended_def Let_def)
qed

lemma tells_runner_loop [simp]: "tells s (runner_loop s)"
  by (simp add: runner_loop_def)

lemma tells_runner_catch [simp]: "tells s (runner_catch t r s)"
proof -
  have "tells s (s\<lparr>sy_completed := t\<rparr>)" by (rule tells_same) simp_all
  from tells_trans [OF this tells_runner_ended] tells_trans [OF this tells_runner_loop] show ?thesis
    by (simp add: runner_catch_def Let_def)
qed

lemma tells_schedule [simp]: "tells s (schedulePostReadyResync s)"
proof -
  have "tells s (s\<lparr>sy_requested := Suc (sy_requested s)\<rparr>)" by (rule tells_same) simp_all
  from this tells_trans [OF this tells_runner_loop] show ?thesis by (simp add: schedulePostReadyResync_def Let_def)
qed

lemma tells_runner_resumes [simp]: "tells s (runner_resumes s)"
proof -
  have a: "tells s (runner_loop (s\<lparr>sy_completed := t\<rparr>))" for t
    by (rule tells_trans [OF _ tells_runner_loop]) (rule tells_same; simp)
  have b: "tells s (enqueue (Run_install h g) (s\<lparr>sy_runner := Some (Awaiting_install t)\<rparr>))" for h g t
    by (rule tells_trans [OF _ tells_enqueue]) (rule tells_same; simp)
  show ?thesis by (simp add: runner_resumes_def a b split: option.split resync_runner.split sum.split)
qed

lemma tells_stage_ended [simp]: "tells s (stage_ended res s)" "tells s (install_ended res' s)"
  by (rule tells_same; simp add: stage_ended_def install_ended_def finish_task_def)+

lemma tells_reported: "tells s (note_mark Reported s)"
  by (rule tells_note) (simp add: inert_def)

lemma tells_stage_failed [simp]: "tells s (stage_failed r s)"
  unfolding stage_failed_def
  by (rule tells_trans [OF tells_trans [OF tells_blocked tells_reported] tells_stage_ended(1)])

lemma tells_install_runs [simp]: "tells s (install_runs env h g now s)"
proof -
  obtain e s1 where i: "installCurrent env h g now s = (e, s1)" by (cases "installCurrent env h g now s")
  have c: "tells s s1" by (rule tells_installCurrent [OF i])
  have "tells s1 (install_ended x (note_mark Reported (setBlocked r s1)))" for x r
    by (rule tells_trans [OF tells_trans [OF tells_blocked tells_reported] tells_stage_ended(2)])
  then show ?thesis using tells_trans [OF c] by (simp add: install_runs_def i Let_def split: option.split)
qed

section \<open>What changes the book\<close>

text \<open>A step that changes the book puts one mark and only tells after it.\<close>

lemma replays_step:
  assumes "replays env v d s" "\<not> sy_stopped s" "\<not> sy_stopped s' \<Longrightarrow> book_ok (sy_book s')"
    and "replay_mark env m (offers_of s) d = Some (offers_of s', d')"
    and "sy_trace s' = sy_trace s @ m # ms" "list_all inert ms" "d' \<noteq> Report_due \<or> ms = []"
  shows "replays env v d' s'"
proof -
  have "replay env ms (offers_of s') d' = Some (offers_of s', d')" using assms(6,7) replay_inert by auto
  with assms show ?thesis by (auto simp: replays_def replay_append)
qed

lemma told_after:
  assumes "tells (s1\<lparr>sy_book := b\<rparr>) s'" "sy_trace s1 = sy_trace s @ [m]"
  shows "sy_book s' = b \<and> (\<exists>ms. sy_trace s' = sy_trace s @ m # ms \<and> list_all inert ms)"
  using assms by (auto simp: tells_def)

lemma replays_marked:
  assumes "replays env v d s" "\<not> sy_stopped s" "tells ((note_mark m s)\<lparr>sy_book := b\<rparr>) s'" "book_ok b"
    and "replay_mark env m (offers_of s) d = Some (map_of (bk_byHash b), d')" "d' \<noteq> Report_due"
  shows "replays env v d' s'"
proof -
  from told_after [OF assms(3), of s m] obtain ms
    where b: "sy_book s' = b" and t: "sy_trace s' = sy_trace s @ m # ms" "list_all inert ms"
    by (auto simp: note_mark_def)
  show ?thesis
    by (rule replays_step [OF assms(1,2) _ _ t]) (simp_all add: b assms(4-6))
qed

lemma replays_ok: "replays env v d s \<Longrightarrow> \<not> sy_stopped s \<Longrightarrow> book_ok (sy_book s)"
  by (simp add: replays_def)

text \<open>Removals.\<close>

lemma removeAndEmit_tells:
  "tells (s\<lparr>sy_book := (if removed_by (sy_book s) h then book_remove h (sy_book s) else sy_book s)\<rparr>) (removeAndEmit h r s)"
  by (simp add: removeAndEmit_def)

lemma removed_if_view:
  "map_of (bk_byHash (if removed_by b h then book_remove h b else b)) = (map_of (bk_byHash b))(toLowerCase h := None)"
  by (cases "removed_by b h") (simp_all add: byHash_remove removed_by_def fun_eq_iff)

definition expel :: "string option \<Rightarrow> book \<Rightarrow> book" where
  "expel h b = (case truthy h of None \<Rightarrow> b | Some h \<Rightarrow> if removed_by b (toLowerCase h) then book_remove (toLowerCase h) b else b)"

definition expel_spent :: "string option \<Rightarrow> book \<Rightarrow> book" where
  "expel_spent n b = (case truthy n of None \<Rightarrow> b | Some n \<Rightarrow> snd (removeByNullifier n b))"

lemma expel_ok: "book_ok b \<Longrightarrow> book_ok (expel h b)"
  by (simp add: expel_def remove_ok split: option.split)

lemma expel_view: "map_of (bk_byHash (expel h b)) k =
    (if map_option toLowerCase (truthy h) = Some k then None else map_of (bk_byHash b) k)"
proof (cases "truthy h")
  case (Some x)
  then have "expel h b = (if removed_by b (toLowerCase x) then book_remove (toLowerCase x) b else b)" by (simp add: expel_def)
  then have "map_of (bk_byHash (expel h b)) = (map_of (bk_byHash b))(toLowerCase x := None)" by (simp only: removed_if_view lower_idem)
  with Some show ?thesis by simp
qed (simp add: expel_def)

lemma expel_spent_ok: "book_ok b \<Longrightarrow> book_ok (expel_spent n b)"
  using removeByNullifier_spec(1) by (auto simp: expel_spent_def split: option.split) (metis prod.collapse)

lemma expel_spent_view:
  assumes "book_ok b"
  shows "map_of (bk_byHash (expel_spent n b)) k = (case map_of (bk_byHash b) k of None \<Rightarrow> None
    | Some offer \<Rightarrow> if (case truthy n of None \<Rightarrow> False | Some n \<Rightarrow> toLowerCase n \<in> set (so_inputNullifiers offer)) then None else Some offer)"
proof (cases "truthy n")
  case (Some m)
  obtain hs b' where r: "removeByNullifier m b = (hs, b')" by (cases "removeByNullifier m b")
  note s = removeByNullifier_spec [OF assms r]
  show ?thesis unfolding expel_spent_def Some using s(2) s(3) [of k] by (auto simp: r split: option.split)
qed (simp add: expel_spent_def split: option.split)

text \<open>An event: its mark, and what the contract says of it.\<close>

lemma event_view:
  assumes "book_ok b"
  shows "map_of (bk_byHash (expel_spent n (expel h b))) = leaving (\<lambda>k offer.
      map_option toLowerCase (truthy h) = Some k
      \<or> (case truthy n of None \<Rightarrow> False | Some n \<Rightarrow> toLowerCase n \<in> set (so_inputNullifiers offer))) (map_of (bk_byHash b))"
  by (rule ext) (simp add: leaving_def expel_spent_view [OF expel_ok [OF assms]] expel_view split: option.split)

lemma expel_tells:
  "tells (s\<lparr>sy_book := expel h (sy_book s)\<rparr>) (case truthy h of None \<Rightarrow> s | Some h \<Rightarrow> removeAndEmit (toLowerCase h) r s)"
  using removeAndEmit_tells [of s "toLowerCase x" r for x] by (simp add: expel_def split: option.split)

lemma expel_spent_tells:
  "tells (s\<lparr>sy_book := expel_spent n (sy_book s)\<rparr>) (case truthy n of None \<Rightarrow> s
     | Some n \<Rightarrow> (let (hashes, b) = removeByNullifier n (sy_book s) in emit_removals r hashes (s\<lparr>sy_book := b\<rparr>)))"
  by (simp add: expel_spent_def split: option.split prod.split)

lemma consumed_tells:
  assumes "s1 = (case truthy h of None \<Rightarrow> s | Some h \<Rightarrow> removeAndEmit (toLowerCase h) r s)"
  shows "tells (s\<lparr>sy_book := expel_spent n (expel h (sy_book s))\<rparr>) (case truthy n of None \<Rightarrow> s1
     | Some n \<Rightarrow> (let (hashes, b) = removeByNullifier n (sy_book s1) in emit_removals r' hashes (s1\<lparr>sy_book := b\<rparr>)))"
proof -
  have 1: "tells (s\<lparr>sy_book := expel h (sy_book s)\<rparr>) s1" unfolding assms by (rule expel_tells)
  then have b: "sy_book s1 = expel h (sy_book s)" by (simp add: tells_def)
  have "tells (s\<lparr>sy_book := expel_spent n (expel h (sy_book s))\<rparr>) (s1\<lparr>sy_book := expel_spent n (sy_book s1)\<rparr>)"
    using 1 by (auto simp: tells_def b)
  from tells_trans [OF this expel_spent_tells] show ?thesis .
qed

lemma apply_event_replays:
  assumes "replays env v No_debt s" "apply_event ev s = (x, s')"
  shows "case x of Applied \<Rightarrow> replays env v No_debt s'
    | Fetching h \<Rightarrow> replays env v (Detail_due h) s'
    | Apply_failed \<Rightarrow> replays env v No_debt (note_mark Reported s')"
proof (cases "sy_stopped s")
  case True
  with assms show ?thesis by (simp add: apply_event_def)
next
  case False
  let ?s = "note_mark (Event_applied ev) s"
  note ok = replays_ok [OF assms(1) False]
  have marked: "replays env v d s''"
    if "tells (?s\<lparr>sy_book := b\<rparr>) s''" "book_ok b" "d \<noteq> Report_due"
      "replay_mark env (Event_applied ev) (offers_of s) No_debt = Some (map_of (bk_byHash b), d)" for b d s''
    by (rule replays_marked [OF assms(1) False that(1,2,4,3)])
  have same: "tells (?s\<lparr>sy_book := sy_book s\<rparr>) ?s" by (rule tells_same) (simp_all add: note_mark_def)
  consider (indexed) "sse_type ev = ''offer_indexed''" | (consumed) "sse_type ev = ''offer_consumed''"
    | (expired) "sse_type ev = ''offer_expired''"
    | (other) "sse_type ev \<notin> {''offer_indexed'', ''offer_consumed'', ''offer_expired''}" by auto
  then show ?thesis
  proof cases
    case indexed
    show ?thesis
    proof (cases "sse_offerHash ev")
      case None
      have "replays env v No_debt (note_mark Reported ?s)"
        using assms(1) False by (simp add: replays_def note_mark_def replay_append replay_mark_def indexed None)
      then show ?thesis using assms(2) False indexed None by (auto simp: apply_event_def Let_def)
    next
      case (Some h)
      have g: "book_get (sy_book s) (toLowerCase h) = offers_of s (toLowerCase h)" by (simp add: book_get_def)
      have "replays env v (if offers_of s (toLowerCase h) = None then Detail_due (toLowerCase h) else No_debt) ?s"
        by (rule marked [OF same ok]) (simp_all add: replay_mark_def indexed Some)
      then show ?thesis using assms(2) False indexed Some
        by (auto simp: apply_event_def Let_def g split: if_splits)
    qed
  next
    case consumed
    define s1 where "s1 = (case truthy (sse_offerHash ev) of None \<Rightarrow> ?s | Some h \<Rightarrow> removeAndEmit (toLowerCase h) Change_consumed ?s)"
    have "apply_event ev s = (Applied, case truthy (sse_nullifier ev) of None \<Rightarrow> s1
        | Some n \<Rightarrow> (let (hashes, b) = removeByNullifier n (sy_book s1) in emit_removals Change_consumed hashes (s1\<lparr>sy_book := b\<rparr>)))"
      unfolding s1_def using False consumed by (simp add: apply_event_def Let_def)
    with assms(2) have "x = Applied" and s': "s' = (case truthy (sse_nullifier ev) of None \<Rightarrow> s1
        | Some n \<Rightarrow> (let (hashes, b) = removeByNullifier n (sy_book s1) in emit_removals Change_consumed hashes (s1\<lparr>sy_book := b\<rparr>)))"
      by simp_all
    have "replays env v No_debt s'"
      unfolding s'
    proof (rule marked [OF consumed_tells [OF s1_def]])
      show "replay_mark env (Event_applied ev) (offers_of s) No_debt =
          Some (map_of (bk_byHash (expel_spent (sse_nullifier ev) (expel (sse_offerHash ev) (sy_book ?s)))), No_debt)"
      proof -
        have "event_removes ev = (\<lambda>k offer. map_option toLowerCase (truthy (sse_offerHash ev)) = Some k
            \<or> (case truthy (sse_nullifier ev) of None \<Rightarrow> False | Some n \<Rightarrow> toLowerCase n \<in> set (so_inputNullifiers offer)))"
          by (simp add: fun_eq_iff event_removes_def consumed)
        moreover have "sy_book ?s = sy_book s" by (simp add: note_mark_def)
        ultimately show ?thesis by (simp only: event_view [OF ok]) (simp add: replay_mark_def consumed)
      qed
    qed (simp_all add: ok expel_ok expel_spent_ok note_mark_def)
    with \<open>x = Applied\<close> show ?thesis by simp
  next
    case expired
    have "x = Applied" and s': "s' = (case truthy (sse_offerHash ev) of None \<Rightarrow> ?s | Some h \<Rightarrow> removeAndEmit (toLowerCase h) Change_expired ?s)"
      using assms(2) False expired by (simp_all add: apply_event_def Let_def)
    have "replays env v No_debt s'"
      unfolding s'
    proof (rule marked [OF expel_tells])
      show "replay_mark env (Event_applied ev) (offers_of s) No_debt = Some (map_of (bk_byHash (expel (sse_offerHash ev) (sy_book ?s))), No_debt)"
        by (simp add: replay_mark_def expired fun_eq_iff leaving_def event_removes_def expel_view note_mark_def split: option.split)
    qed (simp_all add: ok expel_ok note_mark_def)
    with \<open>x = Applied\<close> show ?thesis by simp
  next
    case other
    have "leaving (event_removes ev) w = w" for w
      using other by (simp add: leaving_def event_removes_def fun_eq_iff split: option.split)
    then have "replays env v No_debt ?s"
      by (intro marked [OF same ok]) (use other in \<open>simp_all add: replay_mark_def\<close>)
    then show ?thesis using assms(2) False other by (simp add: apply_event_def Let_def)
  qed
qed

text \<open>The details of an indexed offer, and a snapshot.\<close>

lemma kept_stored: "kept_row row = stored_offer row"
  by (simp add: kept_row_def stored_offer_def)

lemma add_fetched_replays:
  assumes "replays env v (Detail_due h) s" "add_fetched env h a s = (ok, s')"
  shows "replays env v No_debt (if ok then s' else note_mark Reported s')"
proof (cases "sy_stopped s")
  case True
  then have "sy_stopped s'" using assms(2)
    by (auto simp: add_fetched_def Let_def note_mark_def split: sum.splits if_splits option.splits)
  then show ?thesis by (simp add: replays_def note_mark_def)
next
  case False
  let ?s = "note_mark (Detail_read h a) s"
  note ok = replays_ok [OF assms(1) False]
  show ?thesis
  proof (cases "bindR a (getZswapByHash (sv_hasher env) h)")
    case (Inl e)
    have "replays env v No_debt (note_mark Reported ?s)"
      using assms(1) False by (simp add: replays_def note_mark_def replay_append replay_mark_def Inl)
    moreover have "ok = False" "s' = ?s" using assms(2) Inl by (auto simp: add_fetched_def Let_def)
    ultimately show ?thesis by simp
  next
    case (Inr detail)
    show ?thesis
    proof (cases "bookOfferFromApi (sv_parseDate env) detail")
      case None
      have "tells (?s\<lparr>sy_book := sy_book s\<rparr>) ?s" by (rule tells_same) (simp_all add: note_mark_def)
      then have "replays env v No_debt ?s"
        by (rule replays_marked [OF assms(1) False _ ok]) (simp_all add: replay_mark_def Inr None)
      moreover have "ok" "s' = ?s" using assms(2) Inr None False by (auto simp: add_fetched_def Let_def note_mark_def)
      ultimately show ?thesis by simp
    next
      case (Some row)
      have "replays env v No_debt (emit_change (Offer_added row) (?s\<lparr>sy_book := book_upsert row (sy_book s)\<rparr>))"
        by (rule replays_marked [OF assms(1) False tells_emit upsert_ok [OF ok]])
           (simp_all add: replay_mark_def Inr Some kept_stored byHash_upsert)
      moreover have "ok" "s' = emit_change (Offer_added row) (?s\<lparr>sy_book := book_upsert row (sy_book s)\<rparr>)"
        using assms(2) Inr Some False by (auto simp: add_fetched_def Let_def note_mark_def)
      ultimately show ?thesis by simp
    qed
  qed
qed

lemma snapshot_replays:
  assumes "replays env v No_debt s"
  shows "replays env v No_debt (applySnapshot g offers s)"
proof (cases "sy_stopped s")
  case True
  with assms show ?thesis by (simp add: applySnapshot_def)
next
  case False
  note ok = replays_ok [OF assms False]
  obtain diff b where r: "resync offers (sy_book s) = (diff, b)" by (cases "resync offers (sy_book s)")
  note spec = resync_spec [OF ok r]
  have "map_of (bk_byHash b) h = snapshot_view offers (offers_of s) h" for h
    unfolding spec(2) snapshot_view_def has_blob_def kept_stored
    by (cases "find (\<lambda>v. toLowerCase (so_offerHash v) = h) (rev offers)") (simp_all add: carried)
  then have view: "map_of (bk_byHash b) = snapshot_view offers (offers_of s)" ..
  have "tells ((note_mark (Snapshot_applied g offers) s)\<lparr>sy_book := b\<rparr>) (note_mark (Snapshot_applied g offers) (s\<lparr>sy_book := b\<rparr>))"
    by (rule tells_same) (simp_all add: note_mark_def)
  also have "tells \<dots> (emit_removals Change_resync (rd_removed diff) \<dots>)" by simp
  also have "tells \<dots> (fold (\<lambda>h s. emit_added h (emit_change (Offer_removed h Change_resync) s)) (rd_updated diff) \<dots>)"
    by (rule tells_fold) (rule tells_trans [OF tells_emit tells_added])
  also have "tells \<dots> (fold emit_added (rd_added diff) \<dots>)" by (rule tells_fold) simp
  finally have "tells ((note_mark (Snapshot_applied g offers) s)\<lparr>sy_book := b\<rparr>) (applySnapshot g offers s)"
    using False by (simp add: applySnapshot_def r)
  then show ?thesis
    by (rule replays_marked [OF assms False _ spec(1)]) (simp_all add: replay_mark_def view)
qed

section \<open>Every step\<close>

definition settled :: "sync_env \<Rightarrow> view \<Rightarrow> book_sync \<Rightarrow> bool" where
  "settled env v s \<longleftrightarrow> replays env v (debt_of (sy_running s)) s"

lemma debt_not_report [simp]: "debt_of a \<noteq> Report_due"
  by (simp add: debt_of_def split: option.split)

lemma settles: "replays env v No_debt s \<Longrightarrow> tells s s' \<Longrightarrow> fetch_of (sy_running s') = None \<Longrightarrow> settled env v s'"
  unfolding settled_def using tells_replays [of s s' No_debt] by simp

lemma settled_tells: "settled env v s \<Longrightarrow> tells s s' \<Longrightarrow> sy_running s' = sy_running s \<Longrightarrow> settled env v s'"
  unfolding settled_def using tells_replays by simp

lemma settled_idle: "settled env v s \<Longrightarrow> fetch_of (sy_running s) = None \<Longrightarrow> replays env v No_debt s"
  by (simp add: settled_def)

lemma settled_due: "settled env v s \<Longrightarrow> fetch_of (sy_running s) = Some h \<Longrightarrow> replays env v (Detail_due h) s"
  by (simp add: settled_def)

lemma waits_settled:
  "replays env v (Detail_due h) s \<Longrightarrow> fetch_of x = Some h \<Longrightarrow> settled env v (s\<lparr>sy_running := x\<rparr>)"
  unfolding settled_def using tells_replays [OF tells_running, of "Detail_due h"] by simp

lemma running_settled: "replays env v No_debt s \<Longrightarrow> fetch_of x = None \<Longrightarrow> settled env v (s\<lparr>sy_running := x\<rparr>)"
  by (rule settles [OF _ tells_running]) simp_all

lemma attempts_settled:
  assumes "replays env v No_debt s"
  shows "settled env v (attempt_ended f s)" "settled env v (attempt_failed r s)" "settled env v (attempt_turn s)"
    "settled env v (attempt_install env g h now s)"
  by (rule settles [OF assms]; simp)+

text \<open>A failed event or fetch is reported by the end of the attempt.\<close>

lemma attempt_reports:
  assumes "replays env v No_debt (note_mark Reported s)"
  shows "settled env v (attempt_ended True s)"
proof -
  let ?s = "(finish_task (note_mark Reported (s\<lparr>sy_buffering := True\<rparr>)))\<lparr>sy_initialAttempt := False\<rparr>"
  have "tells (note_mark Reported s) ?s" by (rule tells_same) (simp_all add: finish_task_def note_mark_def)
  moreover have "tells ?s (?s\<lparr>sy_retryInitial := False\<rparr>)" by (rule tells_same) simp_all
  ultimately have "tells (note_mark Reported s) (attempt_ended True s)"
    using tells_trans [OF tells_trans [of _ ?s] tells_ensure] tells_trans [of _ ?s "?s\<lparr>sy_retryInitial := False\<rparr>"]
    by (simp add: attempt_ended_def Let_def)
  then show ?thesis by (rule settles [OF assms]) simp
qed

definition drained_replays :: "sync_env \<Rightarrow> view \<Rightarrow> drained \<times> book_sync \<Rightarrow> bool" where
  "drained_replays env v r = (case r of
     (Batch_done, s) \<Rightarrow> replays env v No_debt s
   | (Batch_waits h rest, s) \<Rightarrow> replays env v (Detail_due h) s
   | (Batch_failed, s) \<Rightarrow> replays env v No_debt (note_mark Reported s))"

lemma drain_batch_replays:
  "replays env v No_debt s \<Longrightarrow> drained_replays env v (drain_batch g batch s)"
proof (induction batch arbitrary: s)
  case (Cons ev batch)
  obtain x s1 where a: "apply_event ev s = (x, s1)" by (cases "apply_event ev s")
  from apply_event_replays [OF Cons.prems a] show ?case
    using Cons.IH [of s1] by (cases x) (simp_all add: a drained_replays_def)
qed (simp add: drained_replays_def)

lemma after_batch_settled:
  assumes "drained_replays env v r" "\<And>s. replays env v No_debt s \<Longrightarrow> settled env v (continue s)"
  shows "settled env v (after_batch env g h now r continue)"
proof -
  obtain x s where r: "r = (x, s)" by (cases r)
  show ?thesis
  proof (cases x)
    case Batch_done
    with assms attempts_settled(1) [of env v s False] show ?thesis by (simp add: r after_batch_def drained_replays_def)
  next
    case (Batch_waits k rest)
    with assms(1) waits_settled [of env v k s] show ?thesis by (simp add: r after_batch_def drained_replays_def fetch_of_def)
  next
    case Batch_failed
    with assms(1) attempt_reports [of env v s] show ?thesis by (simp add: r after_batch_def drained_replays_def)
  qed
qed

lemma take_batch_tells: "tells s (take_batch s)"
  by (rule tells_same) (simp_all add: take_batch_def)

lemma drain_loop_settled:
  assumes "replays env v No_debt s"
  shows "settled env v (drain_loop env g h now s)"
proof -
  have "replays env v No_debt (take_batch s)" by (rule tells_replays [OF take_batch_tells _ assms]) simp
  then have "settled env v (after_batch env g h now (drain_batch g (sy_buffered s) (take_batch s)) (attempt_install env g h now))"
    by (intro after_batch_settled drain_batch_replays attempts_settled(4))
  with attempts_settled(4) [OF assms] show ?thesis by (simp add: drain_loop_def drain_once_def)
qed

lemma answers_settled:
  assumes r: "replays env v No_debt s"
  shows "settled env v (attempt_preflight env g a now s)" "settled env v (attempt_walk env g source s)"
    "settled env v (attempt_verdict env g offers a now s)" "settled env v (stage_walk env g source s)"
    "settled env v (stage_verdict env g offers a now s)"
proof -
  have w: "replays env v No_debt (note_mark (Walk_began g) s)"
    by (rule tells_replays [OF tells_note _ r]) (simp_all add: inert_def)
  show "settled env v (attempt_preflight env g a now s)"
    by (simp add: attempt_preflight_def attempts_settled(2) [OF r] running_settled [OF w] fetch_of_def split: sum.split)
  show "settled env v (attempt_walk env g source s)"
    by (simp add: attempt_walk_def attempts_settled(2) [OF r] running_settled [OF r] fetch_of_def split: sum.split)
  note snap = snapshot_replays [OF r, of g offers]
  have clear: "replays env v No_debt (clear_buffer (applySnapshot g offers s))"
    by (rule tells_replays [OF tells_clear _ snap]) simp
  show "settled env v (attempt_verdict env g offers a now s)"
    using attempts_settled(1) [OF snap] attempts_settled(1,3) [OF clear] attempts_settled(2) [OF r] drain_loop_settled [OF snap]
    by (simp add: attempt_verdict_def Let_def split: sum.split)
  have failed: "settled env v (stage_failed x s)" for x
    by (rule settles [OF r tells_stage_failed]) (simp add: stage_failed_def stage_ended_def finish_task_def)
  show "settled env v (stage_walk env g source s)"
    by (simp add: stage_walk_def failed running_settled [OF r] fetch_of_def split: sum.split)
  have "settled env v (stage_ended x (applySnapshot g offers s))" for x
    by (rule settles [OF snap tells_stage_ended(1)]) (simp add: stage_ended_def finish_task_def)
  with failed show "settled env v (stage_verdict env g offers a now s)" by (simp add: stage_verdict_def split: sum.split)
qed

lemma attempt_detail_settled:
  assumes "replays env v (Detail_due x) s"
  shows "settled env v (attempt_detail env g h batch x a now s)"
proof -
  obtain ok s1 where f: "add_fetched env x a s = (ok, s1)" by (cases "add_fetched env x a s")
  note b = add_fetched_replays [OF assms f]
  show ?thesis
  proof (cases ok)
    case False
    with b attempt_reports [of env v s1] show ?thesis by (simp add: attempt_detail_def f)
  next
    case True
    with b have r: "replays env v No_debt s1" by simp
    have "settled env v (after_batch env g h now
        (if sy_stopped s1 \<or> sy_overflowed s1 \<or> superseded g s1 then (Batch_done, s1) else drain_batch g batch s1) (drain_loop env g h now))"
      by (rule after_batch_settled) (use r drain_batch_replays [OF r] drain_loop_settled in \<open>simp_all add: drained_replays_def\<close>)
    then show ?thesis by (simp add: attempt_detail_def f True)
  qed
qed

lemma task_finish_settled: "replays env v No_debt s \<Longrightarrow> settled env v (finish_task s)"
  unfolding finish_task_def by (rule running_settled) simp_all

lemma event_settled:
  "replays env v No_debt s \<Longrightarrow> settled env v (event_runs ev s)"
  "replays env v (Detail_due h) s \<Longrightarrow> settled env v (event_detail env h a s)"
proof -
  assume r: "replays env v No_debt s"
  obtain x s1 where e: "apply_event ev s = (x, s1)" by (cases "apply_event ev s")
  from apply_event_replays [OF r e] show "settled env v (event_runs ev s)"
    by (cases x) (simp_all add: event_runs_def e task_finish_settled waits_settled fetch_of_def)
next
  assume r: "replays env v (Detail_due h) s"
  obtain ok s1 where f: "add_fetched env h a s = (ok, s1)" by (cases "add_fetched env h a s")
  from add_fetched_replays [OF r f] show "settled env v (event_detail env h a s)"
    by (cases ok) (simp_all add: event_detail_def f task_finish_settled)
qed

lemma tells_task_skipped: "tells s (task_skipped task s)"
  by (simp add: task_skipped_def tells_running finish_task_def split: sync_task.split)

lemma task_runs_settled:
  assumes r: "replays env v No_debt s" and f: "sy_running s = None"
  shows "settled env v (task_runs env task now s)"
proof -
  have skipped: "settled env v (task_skipped task s)"
    by (rule settles [OF r tells_task_skipped])
       (simp add: task_skipped_def finish_task_def stage_ended_def install_ended_def split: sync_task.split)
  have stage: "settled env v (stage_begins s)"
  proof (cases "sy_connected s")
    case True
    have "replays env v No_debt (note_mark (Walk_began (sy_generation s)) s)"
      by (rule tells_replays [OF tells_note _ r]) (simp_all add: inert_def)
    then show ?thesis using True by (simp add: stage_begins_def running_settled fetch_of_def)
  next
    case False
    then have "stage_begins s = stage_failed Generation_superseded s" by (simp add: stage_begins_def)
    then show ?thesis
      using settles [OF r tells_stage_failed] by (simp add: stage_failed_def stage_ended_def finish_task_def)
  qed
  have "settled env v (install_runs env h g now s)" for h g
    by (rule settles [OF r tells_install_runs])
       (simp add: install_runs_def install_ended_def finish_task_def Let_def split: prod.split option.split)
  with skipped stage event_settled(1) [OF r] attempts_settled(3) [OF r] show ?thesis
    by (simp add: task_runs_def split: sync_task.split)
qed

lemma next_task_settled:
  assumes "settled env v s"
  shows "settled env v (next_task env now s)"
proof (cases "sy_running s = None \<and> sy_queue s \<noteq> []")
  case False
  then have "next_task env now s = s" by (auto simp: next_task_def split: option.split list.split)
  with assms show ?thesis by simp
next
  case True
  then obtain task rest where q: "sy_running s = None" "sy_queue s = task # rest" by (auto simp: neq_Nil_conv)
  have "replays env v No_debt s" by (rule settled_idle [OF assms]) (simp add: q)
  moreover have "tells s (s\<lparr>sy_queue := rest\<rparr>)" by (rule tells_same) simp_all
  ultimately have "replays env v No_debt (s\<lparr>sy_queue := rest\<rparr>)" using tells_replays by blast
  then have "settled env v (task_runs env task now (s\<lparr>sy_queue := rest\<rparr>))" by (rule task_runs_settled) (simp add: q)
  then show ?thesis by (simp add: next_task_def q)
qed

lemma task_answered_settled:
  assumes "settled env v s"
  shows "settled env v (task_answered env answer now s)"
proof -
  have idle: "replays env v No_debt s" if "fetch_of (sy_running s) = None" by (rule settled_idle [OF assms that])
  have due: "replays env v (Detail_due h) s" if "fetch_of (sy_running s) = Some h" for h by (rule settled_due [OF assms that])
  show ?thesis
    using assms answers_settled [OF idle] attempt_detail_settled [OF due] event_settled(2) [OF due]
    by (simp add: task_answered_def fetch_of_def split: option.split awaiting.split task_answer.split)
qed

section \<open>Every input\<close>

lemma tells_scheduleHealthCheck [simp]: "tells s (scheduleHealthCheck s)"
proof -
  have "tells s (s\<lparr>sy_healthCheck := hc\<rparr>)" for hc by (rule tells_same) simp_all
  then show ?thesis by (simp add: scheduleHealthCheck_def)
qed

lemma tells_stream_event: "tells s (stream_event env ev s)"
proof -
  let ?s = "note_mark (Event_received ev) s"
  have n: "tells s ?s" by (rule tells_note) (simp add: inert_def)
  have o: "tells ?s (note_mark Reported (?s\<lparr>sy_overflowed := True, sy_buffered := [], sy_bufferedBytes := 0\<rparr>))"
    by (rule tellsI [of _ _ "[Reported]"]) (simp_all add: note_mark_def inert_def)
  have b: "tells ?s (?s\<lparr>sy_buffered := x, sy_bufferedBytes := y\<rparr>)" for x y by (rule tells_same) simp_all
  show ?thesis using n tells_trans [OF n o] tells_trans [OF n b] tells_trans [OF n tells_enqueue]
    by (simp add: stream_event_def Let_def)
qed

lemma tells_stream_open: "tells s (stream_open height s)"
proof -
  define s1 where "s1 = note_mark (Subscribed (Suc (sy_generation s)) height)
      (s\<lparr>sy_connected := True, sy_generation := Suc (sy_generation s), sy_anchor := height\<rparr>)"
  define s2 where "s2 = (if sy_initialAttempt s1 then s1\<lparr>sy_retryInitial := True\<rparr> else s1)"
  have 1: "tells s s1"
    by (rule tellsI [of _ _ "[Subscribed (Suc (sy_generation s)) height]"]) (simp_all add: s1_def note_mark_def inert_def)
  have "tells s1 s2" by (rule tells_same) (simp_all add: s2_def)
  with 1 have 2: "tells s s2" by (rule tells_trans)
  from tells_trans [OF 2 tells_ensure] tells_trans [OF 1 tells_trans [OF tells_blocked tells_schedule]]
  show ?thesis unfolding stream_open_def Let_def s2_def s1_def by simp
qed

lemma tells_stream_disconnect: "tells s (stream_disconnect s)"
proof -
  define s1 where "s1 = note_mark (Unsubscribed (Suc (sy_generation s)))
      (s\<lparr>sy_connected := False, sy_generation := Suc (sy_generation s), sy_anchor := None\<rparr>)"
  have 1: "tells s s1"
    by (rule tellsI [of _ _ "[Unsubscribed (Suc (sy_generation s))]"]) (simp_all add: s1_def note_mark_def inert_def)
  have 2: "tells s (setBlocked Stream_disconnected s1)" by (rule tells_trans [OF 1 tells_blocked])
  from 2 tells_trans [OF 2 tells_clear] show ?thesis unfolding stream_disconnect_def Let_def s1_def by simp
qed

lemma tells_health_answered: "tells s (health_answered env a now s)"
proof (cases "sy_healthCheck s")
  case (Some g)
  obtain b s1 where v: "health_verdict env g a now s = (b, s1)" by (cases "health_verdict env g a now s")
  have "tells s s1" using v tells_installCurrent tells_trans [OF tells_installCurrent tells_blocked]
    by (auto simp: health_verdict_def Let_def split: sum.splits if_splits prod.splits option.splits)
  moreover have "tells s1 (s1\<lparr>sy_healthCheck := None\<rparr>)" by (rule tells_same) simp_all
  ultimately have "tells s (s1\<lparr>sy_healthCheck := None\<rparr>)" by (rule tells_trans)
  from this tells_trans [OF this tells_schedule] show ?thesis by (simp add: health_answered_def Some v Let_def)
qed (simp add: health_answered_def)

lemma tells_stop [simp]: "tells s (stopSynchronization s)"
proof -
  define s1 where "s1 = setBlocked Stopped (s\<lparr>sy_stopped := True\<rparr>)"
  define s2 where "s2 = s1\<lparr>sy_expiry := None, sy_readinessArmed := False, sy_buffered := [], sy_bufferedBytes := 0\<rparr>"
  have "tells s (s\<lparr>sy_stopped := True\<rparr>)" by (rule tellsI [of _ _ "[]"]) simp_all
  then have "tells s s1" unfolding s1_def by (rule tells_trans [OF _ tells_blocked])
  moreover have "tells s1 s2" by (rule tells_same) (simp_all add: s2_def)
  ultimately have 2: "tells s s2" by (rule tells_trans)
  have "tells s2 (note_mark Ready_rejected (s2\<lparr>sy_readySettled := True\<rparr>))"
    by (rule tellsI [of _ _ "[Ready_rejected]"]) (simp_all add: note_mark_def inert_def)
  from 2 tells_trans [OF 2 this] show ?thesis by (simp add: stopSynchronization_def Let_def s1_def s2_def)
qed

lemma tells_expiry_due: "tells s (expiry_due s)"
proof (cases "sy_expiry s")
  case (Some gt)
  obtain g ts where gt: "gt = (g, ts)" by (cases gt)
  have "tells s (s\<lparr>sy_expiry := None\<rparr>)" by (rule tells_same) simp_all
  from this tells_trans [OF this tells_trans [OF tells_blocked tells_scheduleHealthCheck]] show ?thesis
    by (simp add: expiry_due_def Some gt Let_def split: currentness.split)
qed (simp add: expiry_due_def)

text \<open>What the stream and the timers do does not touch the running task.\<close>

lemma running_note [simp]: "sy_running (note_mark m s) = sy_running s"
  by (simp add: note_mark_def)

lemma running_begin [simp]: "sy_running (begin_stage s) = sy_running s"
  by (simp add: begin_stage_def enqueue_def)

lemma running_runner [simp]:
  "sy_running (runner_ended f s) = sy_running s" "sy_running (runner_loop s) = sy_running s"
  "sy_running (runner_catch t r s) = sy_running s"
  by (simp_all add: runner_ended_def runner_loop_def runner_catch_def Let_def)

lemma running_schedule [simp]: "sy_running (schedulePostReadyResync s) = sy_running s"
  by (simp add: schedulePostReadyResync_def Let_def)

lemma running_health [simp]: "sy_running (scheduleHealthCheck s) = sy_running s"
  by (simp add: scheduleHealthCheck_def)

lemma running_removals [simp]: "sy_running (emit_removals c hs s) = sy_running s"
proof -
  have e: "sy_running (emit_change x s) = sy_running s" for x s by (simp add: emit_change_def)
  show ?thesis unfolding emit_removals_def by (induction hs arbitrary: s) (simp_all add: e)
qed

lemma running_resumes: "sy_running (runner_resumes s) = sy_running s"
  by (simp add: runner_resumes_def enqueue_def split: option.split resync_runner.split sum.split)

lemma running_stream:
  "sy_running (stream_event env ev s) = sy_running s" "sy_running (stream_open height s) = sy_running s"
  "sy_running (stream_disconnect s) = sy_running s"
  by (simp_all add: stream_event_def stream_open_def stream_disconnect_def clear_buffer_def enqueue_def Let_def)

lemma running_stop [simp]: "sy_running (stopSynchronization s) = sy_running s"
  by (simp add: stopSynchronization_def Let_def)

lemma running_expiry: "sy_running (expiry_due s) = sy_running s"
  by (simp add: expiry_due_def Let_def split: option.split currentness.split)

lemma running_answered: "sy_running (health_answered env a now s) = sy_running s"
proof (cases "sy_healthCheck s")
  case (Some g)
  obtain b s1 where v: "health_verdict env g a now s = (b, s1)" by (cases "health_verdict env g a now s")
  have "sy_running s2 = sy_running s" if "installCurrent env h g' now s = (e, s2)" for h g' e s2
    using installCurrent_fields(10) [of env h g' now s] that by simp
  then have "sy_running s1 = sy_running s" using v
    by (auto simp: health_verdict_def Let_def split: sum.splits if_splits prod.splits option.splits)
  then show ?thesis by (simp add: health_answered_def Some v Let_def)
qed (simp add: health_answered_def)

lemma sweep_settled:
  assumes "settled env v s"
  shows "settled env v (sweep_due env now s)"
proof (cases "sy_stopped s")
  case True
  with assms show ?thesis by (simp add: sweep_due_def)
next
  case False
  have r: "replays env v (debt_of (sy_running s)) s" using assms by (simp add: settled_def)
  note ok = replays_ok [OF r False]
  obtain hs b where w: "sweepExpired now (sv_expiryMarginSeconds env) (sy_book s) = (hs, b)"
    by (cases "sweepExpired now (sv_expiryMarginSeconds env) (sy_book s)")
  note spec = sweepExpired_spec [OF ok w]
  have e: "run_out env now h offer = expired now (sv_expiryMarginSeconds env) offer" for h offer
    by (auto simp: expired_def run_out_def split: option.split)
  have view: "map_of (bk_byHash b) = leaving (run_out env now) (offers_of s)"
    by (rule ext) (simp add: spec(3) leaving_def e split: option.split)
  have "tells ((note_mark (Swept now) s)\<lparr>sy_book := b\<rparr>) (note_mark (Swept now) (s\<lparr>sy_book := b\<rparr>))"
    by (rule tells_same) (simp_all add: note_mark_def)
  also have "tells \<dots> (emit_removals Change_expired hs \<dots>)" by simp
  finally have t: "tells ((note_mark (Swept now) s)\<lparr>sy_book := b\<rparr>) (sweep_due env now s)"
    using False by (simp add: sweep_due_def w)
  have "replay_mark env (Swept now) (offers_of s) (debt_of (sy_running s)) = Some (map_of (bk_byHash b), debt_of (sy_running s))"
    unfolding view by (cases "fetch_of (sy_running s)") (simp_all add: replay_mark_def)
  from replays_marked [OF r False t spec(1) this] have "replays env v (debt_of (sy_running s)) (sweep_due env now s)" by simp
  moreover have "sy_running (sweep_due env now s) = sy_running s" using False by (simp add: sweep_due_def w)
  ultimately show ?thesis by (simp add: settled_def)
qed

lemma sync_step_settled: "settled env v s \<Longrightarrow> settled env v (sync_step env input s)"
  by (cases input)
     (simp_all add: next_task_settled task_answered_settled sweep_settled readiness_due_def resync_due_def resync_now_def
        health_due_def settled_tells tells_stream_event tells_stream_open tells_stream_disconnect tells_health_answered
        tells_expiry_due running_resumes running_stream running_expiry running_answered)

lemma run_sync_settled: "settled env v s \<Longrightarrow> settled env v (run_sync env inputs s)"
  unfolding run_sync_def by (induction inputs arbitrary: s) (simp_all add: sync_step_settled)

lemma start_state_settled: "book_ok b \<Longrightarrow> settled env (map_of (bk_byHash b)) (start_state b)"
  by (simp add: settled_def replays_def start_state_def publishCurrentness_def note_mark_def fetch_of_def debt_of_def replay_mark_def)

section \<open>No update is lost\<close>

text \<open>C4:
  No update is lost, reordered or left without its effect. Whenever the mirror is current, it holds a
  snapshot of the live subscription, and the events received since that snapshot's walk began are, in the
  order received, the last of those it has taken up since the snapshot or still has waiting. And its book is
  exactly what the updates it took up leave, in the order it took them up, starting from the book it was
  given: a snapshot leaves its rows; a consumption takes the offer it names and every offer that spends its
  nullifier, an expiry the offer it names, the sweep what has run out; an indexed offer the book does not
  have yet must be fetched before any other event or snapshot is applied, and its parsed details enter the
  book. Only details that cannot be read leave it out, and that failure is reported at once (as is an
  indexed event without a hash); the one fetch still owed is the one the mirror is waiting for. The book
  handed to the mirror, if any, is one its own operations can build.\<close>

theorem mirror_lossless:
  assumes "startBookSync parseDate hasher opts b0 = Inr (env, s0)"
    and "case b0 of None \<Rightarrow> True | Some b \<Rightarrow> book_reachable b"
    and "isCurrent (run_sync env inputs s0)"
  shows "let s = run_sync env inputs s0; gap = gap_of (sy_trace s)
    in (\<exists>received. gp_snapshot gap = Some (sy_generation s, received) \<and> suffix received (gp_applied gap @ waiting s))
     \<and> replay env (sy_trace s) (\<lambda>h. case b0 of None \<Rightarrow> None | Some b \<Rightarrow> map_of (bk_byHash b) h) No_debt
         = Some (map_of (bk_byHash (sy_book s)), debt_of (sy_running s))"
proof -
  let ?s = "run_sync env inputs s0" and ?b = "option_or b0 empty_book"
  have "sync_inv ?s" using startBookSync_inv [OF assms(1)] run_sync_inv by blast
  then have "lossless ?s" using assms(3)
    by (auto simp: sync_inv_def isCurrent_def stopped_inv_def buffering_inv_def buffering_base_def ready_inv_def
        current_ok_def is_current_state_def split: currentness.splits)
  have v: "map_of (bk_byHash ?b) = (\<lambda>h. case b0 of None \<Rightarrow> None | Some b \<Rightarrow> map_of (bk_byHash b) h)"
    by (cases b0) (simp_all add: option_or_def empty_book_def)
  have "book_ok ?b" using assms(2) reachable_ok empty_book_ok by (cases b0) (simp_all add: option_or_def)
  then have "settled env (map_of (bk_byHash ?b)) ?s"
    using startBookSync_inv [OF assms(1)] run_sync_settled start_state_settled by blast
  then have "replay env (sy_trace ?s) (map_of (bk_byHash ?b)) No_debt = Some (offers_of ?s, debt_of (sy_running ?s))"
    using assms(3) by (simp add: settled_def replays_def isCurrent_def)
  with \<open>lossless ?s\<close> show ?thesis by (simp add: lossless_def Let_def v)
qed

text \<open>The sample mirror, then told of an indexed offer whose details cannot be read.\<close>

definition sample_indexed :: sse_event where
  "sample_indexed = \<lparr>sse_type = ''offer_indexed'', sse_offerHash = Some ''B2'', sse_nullifier = None, sse_bytes = 100\<rparr>"

definition sample_fetch_inputs :: "sync_input list" where
  "sample_fetch_inputs = sample_sync_inputs @ [Stream_event sample_indexed, Next_task 1002,
     Task_answered (Detail_answered (Inl Api_malformed)) 1003]"

lemma sample_fetch:
  "isCurrent (run_sync sample_sync_env sample_fetch_inputs (start_state empty_book))"
  by code_simp

lemma mirror_lossless_witness:
  "let s = run_sync sample_sync_env sample_fetch_inputs (start_state empty_book)
   in isCurrent s \<and> (\<exists>received. suffix received (gp_applied (gap_of (sy_trace s)) @ waiting s))
    \<and> replay sample_sync_env (sy_trace s) (\<lambda>h. None) No_debt = Some (map_of (bk_byHash (sy_book s)), debt_of (sy_running s))"
  using mirror_lossless [OF sample_start _ sample_fetch(1)] sample_fetch(1) by (auto simp: Let_def)

end
