(* ===== verification/Relay_Client.thy ===== *)
theory Relay_Client
  imports Ladder_Source
begin

text \<open>
  Model of \<^verbatim>\<open>packages/solver/src/relay-client.ts\<close>: the push loop, the socket generations, the
  jobs and the graceful withdrawal, as one step per callback, timer or settled promise. Between two
  steps the cache, the reservations and the abort check may change in any way. Diagnostics are their
  kind and severity; observers do not call back. A \<open>send\<close> is the frame handed to the socket, its
  outcome a later step.
\<close>

section \<open>The source of a derivation\<close>

text \<open>\<open>JSON.stringify\<close> of these rows is injective, so the tokens are the rows themselves; the hashes
  are hexadecimal, where \<open>localeCompare\<close> is the order of the characters.\<close>

type_synonym ladder_leg = "leg_kind \<times> string \<times> int"
type_synonym ladder_row = "string \<times> ladder_leg list \<times> ladder_leg list \<times> int option \<times> string list"

record ladder_snapshot =
  ls_signature :: "ladder_row list"
  ls_unavailable :: "string list"
  ls_validUntilMs :: "int option"

definition ladder_leg :: "source_leg \<Rightarrow> ladder_leg" where
  "ladder_leg leg = (sl_kind leg, toLowerCase (leg_token leg), leg_amount leg)"

definition ladder_row :: "'a source_offer_scheme \<Rightarrow> ladder_row" where
  "ladder_row offer = (toLowerCase (so_offerHash offer), map ladder_leg (so_gives offer), map ladder_leg (so_wants offer),
     so_expiresAt offer, sort (map toLowerCase (so_inputNullifiers offer)))"

definition earlier_deadline :: "int \<Rightarrow> int \<Rightarrow> 'a source_offer_scheme \<Rightarrow> int option \<Rightarrow> int option" where
  "earlier_deadline nowMs marginMs offer validUntil = (case so_expiresAt offer of
     None \<Rightarrow> validUntil
   | Some expiresAt \<Rightarrow>
       (let deadline = expiresAt - marginMs
        in if deadline > nowMs \<and> (case validUntil of None \<Rightarrow> True | Some v \<Rightarrow> deadline < v)
           then Some deadline else validUntil))"

definition captureLadderSourceSnapshot :: "ladder_cache \<Rightarrow> int \<Rightarrow> int \<Rightarrow> int \<Rightarrow> string list \<Rightarrow> ladder_snapshot result" where
  "captureLadderSourceSnapshot cache nowMs expiryMarginSeconds maxSourceOffers unavailable =
     (if book_size (lc_book cache) > maxSourceOffers then Inl (PlainError ''source-offer-cap'')
      else let offers = book_all (lc_book cache) in
        Inr \<lparr>ls_signature = sort_key fst (map ladder_row offers),
             ls_unavailable = sort (js_uniq (map toLowerCase unavailable)),
             ls_validUntilMs = fold (earlier_deadline nowMs (expiryMarginSeconds * 1000)) offers None\<rparr>)"

definition sourceSnapshotFailure :: "ladder_cache \<Rightarrow> ladder_snapshot \<Rightarrow> int \<Rightarrow> int \<Rightarrow> int \<Rightarrow> string list
    \<Rightarrow> string option result" where
  "sourceSnapshotFailure cache expected nowMs expiryMarginSeconds maxSourceOffers unavailable =
     (if \<not> lc_isCurrent cache then Inr (Some ''book cache is no longer current'')
      else bindR (captureLadderSourceSnapshot cache nowMs expiryMarginSeconds maxSourceOffers unavailable) (\<lambda>current.
        if ls_signature current \<noteq> ls_signature expected then Inr (Some ''book snapshot changed during publication'')
        else if ls_unavailable current \<noteq> ls_unavailable expected
        then Inr (Some ''offer reservations changed during publication'')
        else if (case ls_validUntilMs expected of None \<Rightarrow> False | Some v \<Rightarrow> nowMs \<ge> v)
        then Inr (Some ''an offer entered the settlement expiry margin during publication'')
        else Inr None))"

section \<open>Diagnostics\<close>

datatype relay_event =
  Ev_connecting | Ev_connected | Ev_disconnected | Ev_connect_timeout | Ev_socket_error | Ev_push | Ev_push_failed
| Ev_cache_not_current | Ev_cache_current | Ev_ladder_truncated | Ev_ladder_truncation_cleared
| Ev_ladder_resource_limited | Ev_ladder_resource_cleared | Ev_job_refused | Ev_message_refused | Ev_withdrawn
| Ev_withdraw_failed | Ev_stopped

datatype severity = Sev_info | Sev_warn | Sev_error

record truncation_signal =
  tg_pairCapOffers :: int
  tg_wirePointCapOffers :: int

definition truncationOf :: "ladder_exclusion list \<Rightarrow> truncation_signal" where
  "truncationOf excluded =
     \<lparr>tg_pairCapOffers = int (length (filter (\<lambda>e. lx_reason e = R_pair_cap) excluded)),
      tg_wirePointCapOffers = int (length (filter (\<lambda>e. lx_reason e = R_wire_point_cap) excluded))\<rparr>"

definition truncates :: "truncation_signal \<Rightarrow> bool" where
  "truncates signal \<longleftrightarrow> tg_pairCapOffers signal > 0 \<or> tg_wirePointCapOffers signal > 0"

record resource_signal =
  rs_stopReason :: "ladder_reason option"
  rs_withheldPairs :: int
  rs_candidatePairsExamined :: int
  rs_discoveryWork :: int
  rs_safeMergeOrderWork :: int

definition resource_reasons :: "ladder_reason list" where
  "resource_reasons = [R_pair_search_cap, R_global_search_cap, R_source_offer_cap, R_candidate_pair_cap,
     R_discovery_work_cap, R_unsafe_merge_order, R_merge_order_work_cap, R_aborted, R_abort_check_failed,
     R_invalid_resource_limit]"

definition resourceSignalOf :: "ladder_push \<Rightarrow> resource_signal" where
  "resourceSignalOf push =
     (let d = dl_diagnostics (lp_derived push) in
      \<lparr>rs_stopReason = dg_stopReason d,
       rs_withheldPairs = int (length (filter (\<lambda>pair. pd_status pair = Withheld
          \<and> (case (case pd_reason pair of None \<Rightarrow> dg_stopReason d | Some r \<Rightarrow> Some r) of
               None \<Rightarrow> False | Some r \<Rightarrow> r \<in> set resource_reasons)) (dg_pairs d))),
       rs_candidatePairsExamined = dg_candidatePairsExamined d,
       rs_discoveryWork = dg_discoveryWork d,
       rs_safeMergeOrderWork = dg_safeMergeOrderWork d\<rparr>)"

definition resourceLimited :: "resource_signal \<Rightarrow> bool" where
  "resourceLimited signal \<longleftrightarrow> rs_stopReason signal \<noteq> None \<or> rs_withheldPairs signal > 0"

section \<open>State\<close>

record relay_ladder = admission_policy +
  ro_expiryMarginSeconds :: int
  ro_maxParallelSwaps :: "js_number option"
  ro_resourceLimits :: "limit_controls option"

text \<open>What the client is started with. The comparison counts of the derivation's sorts and the text
  of an error are the runtime's.\<close>

record relay_env =
  re_ladder :: relay_ladder
  re_maxFrameBytes :: int
  re_executesJobs :: bool
  re_comparisons :: "combination_state list \<Rightarrow> nat"
  re_errorText :: "js_error \<Rightarrow> string"

datatype push_cause = Cause_tick | Cause_connect | Cause_manual | Cause_coalesced | Cause_withdraw

record push_record =
  pr_push :: ladder_push
  pr_derivedAt :: int
  pr_cause :: push_cause

text \<open>What the push in flight awaits. A flag tells whether the frame was handed to the socket; when it
  was not, the promise awaited is a rejected one.\<close>

datatype push_wait =
  Awaiting_capabilities nat ladder_push "ladder_snapshot option" int push_cause bool
| Awaiting_levels nat bool
| Awaiting_withdrawal nat nat bool
| Push_returned

text \<open>Two frames sent one after the other; the second may throw when it is built.\<close>

datatype sender = Sender_first nat "json option" bool | Sender_second bool | Sender_done

datatype withdrawal = Waiting_for_push | Withdrawal_sending nat | Withdrawal_over

datatype stopping = Stop_withdrawing | Stop_draining | Stop_over

datatype terminal_message = Tx_submitted tx_submitted | Submit_failed submit_failed

datatype job_answer = Answer_swap_tx swap_tx | Answer_job_error job_error

datatype relay_mark =
  Emitted relay_event severity
| Push_recorded ladder_push push_cause
| Ladder_frame nat json ladder_cache "string list" int
| Retired
| Socket_closed nat
| Job_delivered nat nat string
| Job_answered nat nat job_answer "nat option" bool
| Job_unanswered nat nat "nat option" bool
| Terminal_arrived terminal_message
| Terminal_called terminal_message
| Terminal_settled terminal_message

record relay_client =
  rl_created :: nat
  rl_socket :: "nat option"
  rl_ready :: "nat \<Rightarrow> bool"
  rl_connectTimer :: "nat option"
  rl_reconnectTimer :: bool
  rl_pushTimer :: bool
  rl_retired :: bool
  rl_inFlight :: "push_wait option"
  rl_queued :: bool
  rl_senders :: "sender list"
  rl_withdrawing :: "withdrawal option"
  rl_stopping :: "stopping option"
  rl_jobs :: "(nat \<times> string \<times> bool) list"
  rl_answers :: "relay_event option list"
  rl_terminals :: "(terminal_message \<times> bool) list"
  rl_lastTruncation :: truncation_signal
  rl_lastResource :: resource_signal
  rl_lastCurrent :: "bool option"
  rl_lastPush :: "push_record option"
  rl_connected :: bool
  rl_connections :: int
  rl_pushes :: int
  rl_coalesced :: int
  rl_pushFailures :: int
  rl_withdrawn :: bool
  rl_stopped :: bool
  rl_cache :: ladder_cache
  rl_unavailable :: "string list result"
  rl_abortCallback :: abort_callback
  rl_abortNow :: poll_answer
  rl_trace :: "relay_mark list"

definition mark_relay :: "relay_mark \<Rightarrow> relay_client \<Rightarrow> relay_client" where
  "mark_relay m s = s\<lparr>rl_trace := rl_trace s @ [m]\<rparr>"

definition emit_event :: "relay_event \<Rightarrow> severity \<Rightarrow> relay_client \<Rightarrow> relay_client" where
  "emit_event kind sev s = mark_relay (Emitted kind sev) s"

definition isOpen :: "relay_client \<Rightarrow> bool" where
  "isOpen s = (case rl_socket s of None \<Rightarrow> False | Some sid \<Rightarrow> rl_ready s sid)"

definition recordPush :: "ladder_push \<Rightarrow> int \<Rightarrow> push_cause \<Rightarrow> relay_client \<Rightarrow> relay_client" where
  "recordPush push derivedAt cause s = mark_relay (Push_recorded push cause)
     (s\<lparr>rl_lastPush := Some \<lparr>pr_push = push, pr_derivedAt = derivedAt, pr_cause = cause\<rparr>\<rparr>)"

section \<open>Sockets\<close>

definition scheduleReconnect :: "relay_client \<Rightarrow> relay_client" where
  "scheduleReconnect s = (if rl_retired s \<or> rl_reconnectTimer s then s else s\<lparr>rl_reconnectTimer := True\<rparr>)"

definition handleClosed :: "relay_client \<Rightarrow> relay_client" where
  "handleClosed s = (case rl_socket s of
     None \<Rightarrow> s
   | Some _ \<Rightarrow>
       (let s1 = s\<lparr>rl_socket := None, rl_connectTimer := None, rl_pushTimer := False\<rparr>;
            s2 = (if rl_connected s1 then emit_event Ev_disconnected Sev_warn (s1\<lparr>rl_connected := False\<rparr>) else s1)
        in scheduleReconnect s2))"

definition closeSocketGeneration :: "nat \<Rightarrow> relay_client \<Rightarrow> relay_client" where
  "closeSocketGeneration sid s =
     (if rl_socket s \<noteq> Some sid then s else handleClosed (mark_relay (Socket_closed sid) s))"

text \<open>\<open>sendOn\<close> for the frames of a ladder: whether the frame was handed over.\<close>

definition unavailable_now :: "relay_client \<Rightarrow> string list" where
  "unavailable_now s = (case rl_unavailable s of Inl _ \<Rightarrow> [] | Inr hashes \<Rightarrow> hashes)"

definition sendOn :: "nat \<Rightarrow> json \<Rightarrow> int \<Rightarrow> relay_client \<Rightarrow> bool \<times> relay_client" where
  "sendOn sid frame now s =
     (if rl_socket s \<noteq> Some sid \<or> \<not> isOpen s then (False, s)
      else (True, mark_relay (Ladder_frame sid frame (rl_cache s) (unavailable_now s) now) s))"

definition start_sender :: "nat \<Rightarrow> json \<Rightarrow> json option \<Rightarrow> int \<Rightarrow> relay_client \<Rightarrow> nat \<times> relay_client" where
  "start_sender sid first second now s =
     (let (handed, s1) = sendOn sid first now s
      in (length (rl_senders s1), s1\<lparr>rl_senders := rl_senders s1 @ [Sender_first sid second handed]\<rparr>))"

section \<open>The push loop\<close>

text \<open>One derivation, with the snapshot it was made from.\<close>

definition ladder_options :: "relay_env \<Rightarrow> relay_client \<Rightarrow> string list \<Rightarrow> int \<Rightarrow> push_options" where
  "ladder_options env s unavailable nowMs =
     (let ladder = re_ladder env; policy = forwardAdmissionPolicy ladder in
      \<lparr>ap_supportedPairs = ap_supportedPairs policy, ap_minJobOutput = ap_minJobOutput policy, po_nowMs = nowMs,
       po_expiryMarginSeconds = ro_expiryMarginSeconds ladder, po_unavailableOfferHashes = Some unavailable,
       po_maxParallelSwaps = ro_maxParallelSwaps ladder, po_resourceLimits = ro_resourceLimits ladder,
       po_shouldAbort = rl_abortCallback s\<rparr>)"

definition source_snapshot :: "relay_env \<Rightarrow> relay_client \<Rightarrow> string list \<Rightarrow> int \<Rightarrow> ladder_snapshot option result" where
  "source_snapshot env s unavailable nowMs =
     (case resolveLadderResourceLimits (ro_resourceLimits (re_ladder env)) of
        Inl _ \<Rightarrow> Inr None
      | Inr limits \<Rightarrow>
          if lc_isCurrent (rl_cache s) \<and> book_size (lc_book (rl_cache s)) \<le> rl_maxSourceOffers limits
          then bindR (captureLadderSourceSnapshot (rl_cache s) nowMs (ro_expiryMarginSeconds (re_ladder env))
                        (rl_maxSourceOffers limits) unavailable) (\<lambda>snap. Inr (Some snap))
          else Inr None)"

definition derive_push :: "relay_env \<Rightarrow> int \<Rightarrow> relay_client \<Rightarrow> (ladder_push \<times> ladder_snapshot option) result" where
  "derive_push env nowMs s =
     bindR (rl_unavailable s) (\<lambda>unavailable.
     bindR (source_snapshot env s unavailable nowMs) (\<lambda>snap.
       case deriveLadderPush (re_comparisons env) (rl_cache s) (ladder_options env s unavailable nowMs) of
         None \<Rightarrow> Inl (PlainError ''derivation'')
       | Some derived \<Rightarrow> bindR derived (\<lambda>push. Inr (push, snap))))"

text \<open>Why what was derived may no longer be published.\<close>

definition stale_reason :: "relay_env \<Rightarrow> ladder_push \<Rightarrow> ladder_snapshot option \<Rightarrow> int \<Rightarrow> relay_client \<Rightarrow> string option" where
  "stale_reason env push snap nowMs s =
     (case (lp_withheld push, snap) of
        (None, Some expected) \<Rightarrow>
          (case (if rl_abortNow s \<noteq> Continue then Inl (PlainError ''publication aborted'')
                 else bindR (rl_unavailable s) (sourceSnapshotFailure (rl_cache s) expected nowMs
                        (ro_expiryMarginSeconds (re_ladder env)) (rl_maxSourceOffers (dl_limits (lp_derived push))))) of
             Inl e \<Rightarrow> Some (re_errorText env e)
           | Inr reason \<Rightarrow> reason)
      | _ \<Rightarrow> None)"

definition push_failed :: "severity \<Rightarrow> relay_client \<Rightarrow> relay_client" where
  "push_failed sev s = emit_event Ev_push_failed sev (s\<lparr>rl_pushFailures := rl_pushFailures s + 1\<rparr>)"

definition push_returned :: "relay_client \<Rightarrow> relay_client" where
  "push_returned s = s\<lparr>rl_inFlight := Some Push_returned\<rparr>"

definition push_over :: "relay_client \<Rightarrow> relay_client" where
  "push_over s = s\<lparr>rl_inFlight := None, rl_queued := False\<rparr>"

text \<open>\<open>withdrawFailedPush\<close> up to its wait; \<open>None\<close> when building the empty pair throws.\<close>

definition withdrawFailedPush :: "relay_env \<Rightarrow> nat \<Rightarrow> withheld \<Rightarrow> string \<Rightarrow> int \<Rightarrow> push_cause \<Rightarrow> bool \<Rightarrow> bool \<Rightarrow> int
    \<Rightarrow> relay_client \<Rightarrow> relay_client option" where
  "withdrawFailedPush env sid withheld reason derivedAt cause levelsFirst requeue now s =
     (if rl_socket s \<noteq> Some sid \<or> rl_retired s
      then Some (push_returned (if requeue then s\<lparr>rl_queued := True\<rparr> else s))
      else (case buildWithheldLadderPush withheld (ro_maxParallelSwaps (re_ladder env)) (Some reason)
                   DEFAULT_LADDER_RESOURCE_LIMITS of
         Inl _ \<Rightarrow> None
       | Inr nothing \<Rightarrow>
           (let s1 = recordPush nothing derivedAt cause s;
                (n, s2) = (if levelsFirst then start_sender sid (lp_priceLevels nothing) (Some (lp_capabilities nothing)) now s1
                           else start_sender sid (lp_capabilities nothing) (Some (lp_priceLevels nothing)) now s1)
            in Some (s2\<lparr>rl_inFlight := Some (Awaiting_withdrawal sid n requeue)\<rparr>))))"

text \<open>The loop of \<open>requestPush\<close> catches what its body throws.\<close>

definition loop_threw :: "relay_client \<Rightarrow> relay_client" where
  "loop_threw s = push_over (push_failed Sev_error s)"

definition reportCurrentness :: "ladder_push \<Rightarrow> relay_client \<Rightarrow> relay_client" where
  "reportCurrentness push s =
     (let current = (lp_withheld push = None) in
      if rl_lastCurrent s = Some current then s
      else (if current then emit_event Ev_cache_current Sev_info else emit_event Ev_cache_not_current Sev_error)
             (s\<lparr>rl_lastCurrent := Some current\<rparr>))"

definition reportTruncation :: "ladder_exclusion list \<Rightarrow> relay_client \<Rightarrow> relay_client" where
  "reportTruncation excluded s =
     (let signal = truncationOf excluded in
      if signal = rl_lastTruncation s then s
      else (let wasTruncating = truncates (rl_lastTruncation s); s1 = s\<lparr>rl_lastTruncation := signal\<rparr>
            in if truncates signal then emit_event Ev_ladder_truncated Sev_error s1
               else if wasTruncating then emit_event Ev_ladder_truncation_cleared Sev_info s1 else s1))"

definition reportResourceLimits :: "ladder_push \<Rightarrow> relay_client \<Rightarrow> relay_client" where
  "reportResourceLimits push s =
     (let signal = resourceSignalOf push in
      if signal = rl_lastResource s then s
      else (let wasLimiting = resourceLimited (rl_lastResource s); s1 = s\<lparr>rl_lastResource := signal\<rparr>
            in if resourceLimited signal then emit_event Ev_ladder_resource_limited Sev_error s1
               else if wasLimiting then emit_event Ev_ladder_resource_cleared Sev_info s1 else s1))"

definition report_push :: "ladder_push \<Rightarrow> int \<Rightarrow> push_cause \<Rightarrow> relay_client \<Rightarrow> relay_client" where
  "report_push push derivedAt cause s =
     reportResourceLimits push (reportTruncation (dl_excluded (lp_derived push)) (reportCurrentness push
       (recordPush push derivedAt cause s)))"

text \<open>\<open>runPush\<close> up to its first wait.\<close>

definition or_threw :: "relay_client option \<Rightarrow> relay_client \<Rightarrow> relay_client" where
  "or_threw r s = (case r of None \<Rightarrow> s | Some s1 \<Rightarrow> s1)"

definition runPush :: "relay_env \<Rightarrow> push_cause \<Rightarrow> int \<Rightarrow> relay_client \<Rightarrow> relay_client" where
  "runPush env cause now s = (case rl_socket s of
     None \<Rightarrow> push_returned s
   | Some sid \<Rightarrow>
       if rl_retired s \<or> \<not> isOpen s then push_returned s
       else (case derive_push env now s of
          Inl e \<Rightarrow>
            (let s1 = push_failed Sev_error s
             in or_threw (withdrawFailedPush env sid Derivation_failed (re_errorText env e) now cause False False now s1)
                  (loop_threw s1))
        | Inr (push, snap) \<Rightarrow>
            (case stale_reason env push snap now s of
               Some reason \<Rightarrow>
                 (let s1 = push_failed Sev_error s
                  in or_threw (withdrawFailedPush env sid Snapshot_stale reason now cause False True now s1) (loop_threw s1))
             | None \<Rightarrow>
                 (let (handed, s1) = sendOn sid (lp_capabilities push) now (report_push push now cause s)
                  in s1\<lparr>rl_inFlight := Some (Awaiting_capabilities sid push snap now cause handed)\<rparr>))))"

definition requestPush :: "relay_env \<Rightarrow> push_cause \<Rightarrow> int \<Rightarrow> relay_client \<Rightarrow> relay_client" where
  "requestPush env cause now s =
     (if rl_inFlight s \<noteq> None then s\<lparr>rl_queued := True, rl_coalesced := rl_coalesced s + 1\<rparr>
      else runPush env cause now s)"

text \<open>The turn of the loop after a push.\<close>

definition push_turn :: "relay_env \<Rightarrow> int \<Rightarrow> relay_client \<Rightarrow> relay_client" where
  "push_turn env now s =
     (if rl_inFlight s \<noteq> Some Push_returned then s
      else if \<not> rl_queued s \<or> rl_retired s \<or> \<not> isOpen s then push_over s
      else runPush env Cause_coalesced now (s\<lparr>rl_queued := False\<rparr>))"

definition wire_failed :: "nat \<Rightarrow> relay_client \<Rightarrow> relay_client" where
  "wire_failed sid s = push_returned (closeSocketGeneration sid (push_failed Sev_warn s))"

text \<open>The capabilities frame has settled: the same source, checked once more, then the levels.\<close>

definition capabilities_settled :: "relay_env \<Rightarrow> nat \<Rightarrow> ladder_push \<Rightarrow> ladder_snapshot option \<Rightarrow> int \<Rightarrow> push_cause
    \<Rightarrow> bool \<Rightarrow> int \<Rightarrow> relay_client \<Rightarrow> relay_client" where
  "capabilities_settled env sid push snap derivedAt cause sent now s =
     (if \<not> sent then wire_failed sid s
      else if rl_socket s \<noteq> Some sid \<or> rl_retired s then push_returned s
      else (case stale_reason env push snap now s of
         Some reason \<Rightarrow>
           (let s1 = push_failed Sev_error s
            in or_threw (withdrawFailedPush env sid Snapshot_stale reason derivedAt cause True True now s1) (wire_failed sid s1))
       | None \<Rightarrow>
           (let (handed, s1) = sendOn sid (lp_priceLevels push) now s
            in s1\<lparr>rl_inFlight := Some (Awaiting_levels sid handed)\<rparr>)))"

definition levels_settled :: "nat \<Rightarrow> bool \<Rightarrow> relay_client \<Rightarrow> relay_client" where
  "levels_settled sid sent s =
     (if \<not> sent then wire_failed sid s
      else push_returned (emit_event Ev_push Sev_info (s\<lparr>rl_pushes := rl_pushes s + 1\<rparr>)))"

text \<open>The bounded withdrawal of a failed push is over, in time or not.\<close>

definition failed_push_withdrawn :: "nat \<Rightarrow> bool \<Rightarrow> bool \<Rightarrow> relay_client \<Rightarrow> relay_client" where
  "failed_push_withdrawn sid requeue sent s =
     (let s1 = (if sent then emit_event Ev_push Sev_warn (s\<lparr>rl_pushes := rl_pushes s + 1\<rparr>)
                else closeSocketGeneration sid (emit_event Ev_push_failed Sev_error s))
      in push_returned (if requeue then s1\<lparr>rl_queued := True\<rparr> else s1))"

definition send_settled :: "relay_env \<Rightarrow> bool \<Rightarrow> int \<Rightarrow> relay_client \<Rightarrow> relay_client" where
  "send_settled env ok now s = (case rl_inFlight s of
     Some (Awaiting_capabilities sid push snap derivedAt cause handed) \<Rightarrow>
       capabilities_settled env sid push snap derivedAt cause (handed \<and> ok) now s
   | Some (Awaiting_levels sid handed) \<Rightarrow> levels_settled sid (handed \<and> ok) s
   | _ \<Rightarrow> s)"

section \<open>Withdrawal\<close>

text \<open>What is sent when withdrawing: the levels, then the capabilities, which are built when the levels
  have been sent and are \<open>None\<close> when that throws.\<close>

definition withdrawal_capabilities :: "relay_env \<Rightarrow> json option" where
  "withdrawal_capabilities env = (case buildSolverCapabilitiesFrame [] (ro_maxParallelSwaps (re_ladder env)) of
     Inl _ \<Rightarrow> None
   | Inr capabilities \<Rightarrow> Some capabilities)"

definition recordWithdrawal :: "relay_env \<Rightarrow> int \<Rightarrow> relay_client \<Rightarrow> relay_client" where
  "recordWithdrawal env now s =
     (case buildWithheldLadderPush Withdrawn (ro_maxParallelSwaps (re_ladder env)) None DEFAULT_LADDER_RESOURCE_LIMITS of
        Inl _ \<Rightarrow> s
      | Inr push \<Rightarrow> recordPush push now Cause_withdraw s)"

definition withdrawal_ended :: "relay_env \<Rightarrow> int \<Rightarrow> bool \<Rightarrow> relay_client \<Rightarrow> relay_client" where
  "withdrawal_ended env now sent s =
     (let s1 = s\<lparr>rl_withdrawn := sent, rl_withdrawing := Some Withdrawal_over\<rparr>
      in if sent then emit_event Ev_withdrawn Sev_info (recordWithdrawal env now s1)
         else emit_event Ev_withdraw_failed Sev_warn s1)"

text \<open>\<open>runWithdraw\<close> once no push is waited for.\<close>

definition withdraw_frames_now :: "relay_env \<Rightarrow> int \<Rightarrow> relay_client \<Rightarrow> relay_client" where
  "withdraw_frames_now env now s = (case rl_socket s of
     Some sid \<Rightarrow>
       if isOpen s then
         (case withdrawalPriceLevelsFrame of
            Inl _ \<Rightarrow> withdrawal_ended env now False (emit_event Ev_withdraw_failed Sev_warn s)
          | Inr levels \<Rightarrow>
              (let (n, s1) = start_sender sid levels (withdrawal_capabilities env) now s
               in s1\<lparr>rl_withdrawing := Some (Withdrawal_sending n)\<rparr>))
       else recordWithdrawal env now
              ((emit_event Ev_withdrawn Sev_info s)\<lparr>rl_withdrawn := True, rl_withdrawing := Some Withdrawal_over\<rparr>)
   | None \<Rightarrow> recordWithdrawal env now
              ((emit_event Ev_withdrawn Sev_info s)\<lparr>rl_withdrawn := True, rl_withdrawing := Some Withdrawal_over\<rparr>))"

definition relay_withdraw :: "relay_env \<Rightarrow> int \<Rightarrow> relay_client \<Rightarrow> relay_client" where
  "relay_withdraw env now s =
     (if rl_withdrawing s \<noteq> None then s
      else (let s1 = mark_relay Retired (s\<lparr>rl_retired := True, rl_pushTimer := False, rl_reconnectTimer := False\<rparr>)
            in if rl_inFlight s1 \<noteq> None then s1\<lparr>rl_withdrawing := Some Waiting_for_push\<rparr>
               else withdraw_frames_now env now s1))"

text \<open>The push waited for is over, or its deadline is due.\<close>

definition withdrawal_resumes :: "relay_env \<Rightarrow> bool \<Rightarrow> int \<Rightarrow> relay_client \<Rightarrow> relay_client" where
  "withdrawal_resumes env late now s =
     (if rl_withdrawing s = Some Waiting_for_push \<and> (late \<or> rl_inFlight s = None)
      then withdraw_frames_now env now s else s)"

text \<open>A sender has ended: whoever still waits for it goes on. Its failure is reported either way.\<close>

definition sender_ended :: "relay_env \<Rightarrow> nat \<Rightarrow> bool \<Rightarrow> int \<Rightarrow> relay_client \<Rightarrow> relay_client" where
  "sender_ended env n sent now s0 =
     (let s1 = s0\<lparr>rl_senders := (rl_senders s0)[n := Sender_done]\<rparr>;
          s = (if sent then s1 else emit_event Ev_withdraw_failed Sev_warn s1)
      in case rl_inFlight s of
           Some (Awaiting_withdrawal sid m requeue) \<Rightarrow>
             if m = n then failed_push_withdrawn sid requeue sent s
             else if rl_withdrawing s = Some (Withdrawal_sending n) then withdrawal_ended env now sent s else s
         | _ \<Rightarrow> if rl_withdrawing s = Some (Withdrawal_sending n) then withdrawal_ended env now sent s else s)"

definition sender_socket :: "nat \<Rightarrow> json \<Rightarrow> int \<Rightarrow> nat \<Rightarrow> relay_client \<Rightarrow> relay_client" where
  "sender_socket sid second now n s =
     (let (handed, s1) = sendOn sid second now s
      in s1\<lparr>rl_senders := (rl_senders s1)[n := Sender_second handed]\<rparr>)"

definition sender_settled :: "relay_env \<Rightarrow> nat \<Rightarrow> bool \<Rightarrow> int \<Rightarrow> relay_client \<Rightarrow> relay_client" where
  "sender_settled env n ok now s =
     (if n \<ge> length (rl_senders s) then s
      else (case rl_senders s ! n of
         Sender_first sid second handed \<Rightarrow>
           (case (if handed \<and> ok then second else None) of
              None \<Rightarrow> sender_ended env n False now s
            | Some frame \<Rightarrow> sender_socket sid frame now n s)
       | Sender_second handed \<Rightarrow> sender_ended env n (handed \<and> ok) now s
       | Sender_done \<Rightarrow> s))"

text \<open>The deadline of a bounded withdrawal: the waiter goes on, the sender does too.\<close>

definition sender_late :: "relay_env \<Rightarrow> nat \<Rightarrow> int \<Rightarrow> relay_client \<Rightarrow> relay_client" where
  "sender_late env n now s = (case rl_inFlight s of
     Some (Awaiting_withdrawal sid m requeue) \<Rightarrow>
       if m = n then failed_push_withdrawn sid requeue False s
       else if rl_withdrawing s = Some (Withdrawal_sending n) then withdrawal_ended env now False s else s
   | _ \<Rightarrow> if rl_withdrawing s = Some (Withdrawal_sending n) then withdrawal_ended env now False s else s)"

section \<open>Jobs and terminal messages\<close>

definition JOB_EXECUTION_UNAVAILABLE :: string where
  "JOB_EXECUTION_UNAVAILABLE = ''solver_job_execution_unavailable''"

text \<open>An answer goes out on the socket that delivered the job, or not at all; its send settles later. The
  marks note the client's socket and whether it is open.\<close>

definition answer_job :: "nat \<Rightarrow> nat \<Rightarrow> job_answer \<Rightarrow> relay_event \<Rightarrow> relay_client \<Rightarrow> relay_client" where
  "answer_job k sid answer kind s =
     (if rl_socket s \<noteq> Some sid \<or> \<not> isOpen s then emit_event kind Sev_warn (mark_relay (Job_unanswered k sid (rl_socket s) (isOpen s)) s)
      else mark_relay (Job_answered k sid answer (rl_socket s) (isOpen s)) (s\<lparr>rl_answers := rl_answers s @ [Some kind]\<rparr>))"

definition answer_settled :: "nat \<Rightarrow> bool \<Rightarrow> relay_client \<Rightarrow> relay_client" where
  "answer_settled i ok s =
     (if i \<ge> length (rl_answers s) then s
      else (case rl_answers s ! i of
         None \<Rightarrow> s
       | Some kind \<Rightarrow>
           (let s1 = s\<lparr>rl_answers := (rl_answers s)[i := None]\<rparr> in if ok then s1 else emit_event kind Sev_warn s1)))"

definition sendJobError :: "nat \<Rightarrow> nat \<Rightarrow> string \<Rightarrow> string \<Rightarrow> relay_client \<Rightarrow> relay_client" where
  "sendJobError k sid jobId reason s =
     answer_job k sid (Answer_job_error \<lparr>je_jobId = jobId, je_reason = reason\<rparr>) Ev_message_refused s"

definition refuse_job :: "nat \<Rightarrow> nat \<Rightarrow> string \<Rightarrow> relay_client \<Rightarrow> relay_client" where
  "refuse_job k sid jobId s = sendJobError k sid jobId JOB_EXECUTION_UNAVAILABLE (emit_event Ev_job_refused Sev_error s)"

text \<open>A job arrives: it is refused at once when nothing executes jobs or the handler throws.\<close>

definition job_arrives :: "relay_env \<Rightarrow> nat \<Rightarrow> swap_message \<Rightarrow> bool \<Rightarrow> relay_client \<Rightarrow> relay_client" where
  "job_arrives env sid swap threw s =
     (let k = length (rl_jobs s); pending = (re_executesJobs env \<and> \<not> threw);
          s1 = mark_relay (Job_delivered k sid (sw_jobId swap))
                 (s\<lparr>rl_jobs := rl_jobs s @ [(sid, sw_jobId swap, pending)]\<rparr>)
      in if pending then s1 else refuse_job k sid (sw_jobId swap) s1)"

definition job_terminal :: "json \<Rightarrow> job_answer option" where
  "job_terminal response = (case parseSwapTx response of
     Some tx \<Rightarrow> Some (Answer_swap_tx tx)
   | None \<Rightarrow> map_option Answer_job_error (parseJobError response))"

fun answer_jobId :: "job_answer \<Rightarrow> string" where
  "answer_jobId (Answer_swap_tx tx) = st_jobId tx"
| "answer_jobId (Answer_job_error e) = je_jobId e"

text \<open>The handler's promise has settled, with a value or with a rejection.\<close>

definition job_settled :: "nat \<Rightarrow> json option \<Rightarrow> relay_client \<Rightarrow> relay_client" where
  "job_settled k response s =
     (if k \<ge> length (rl_jobs s) then s
      else (case rl_jobs s ! k of (sid, jobId, pending) \<Rightarrow>
        if \<not> pending then s
        else (let s1 = s\<lparr>rl_jobs := (rl_jobs s)[k := (sid, jobId, False)]\<rparr>
              in case response of
                   None \<Rightarrow> refuse_job k sid jobId s1
                 | Some value \<Rightarrow>
                     (case job_terminal value of
                        None \<Rightarrow> refuse_job k sid jobId s1
                      | Some answer \<Rightarrow>
                          if answer_jobId answer \<noteq> jobId then refuse_job k sid jobId s1
                          else answer_job k sid answer Ev_job_refused s1))))"

fun terminal_jobId :: "terminal_message \<Rightarrow> string" where
  "terminal_jobId (Tx_submitted m) = ts_jobId m"
| "terminal_jobId (Submit_failed m) = sf_jobId m"

definition dispatchTerminal :: "terminal_message \<Rightarrow> relay_client \<Rightarrow> relay_client" where
  "dispatchTerminal m s = mark_relay (Terminal_arrived m) (s\<lparr>rl_terminals := rl_terminals s @ [(m, False)]\<rparr>)"

text \<open>A callback starts once the one before it in its job's chain has settled.\<close>

definition terminal_may_start :: "relay_client \<Rightarrow> nat \<Rightarrow> bool" where
  "terminal_may_start s i \<longleftrightarrow> i < length (rl_terminals s) \<and> \<not> snd (rl_terminals s ! i)
     \<and> list_all (\<lambda>(m, _). terminal_jobId m \<noteq> terminal_jobId (fst (rl_terminals s ! i))) (take i (rl_terminals s))"

definition terminal_starts :: "nat \<Rightarrow> relay_client \<Rightarrow> relay_client" where
  "terminal_starts i s =
     (if terminal_may_start s i
      then (let m = fst (rl_terminals s ! i)
            in mark_relay (Terminal_called m) (s\<lparr>rl_terminals := (rl_terminals s)[i := (m, True)]\<rparr>))
      else s)"

definition terminal_settled :: "nat \<Rightarrow> bool \<Rightarrow> relay_client \<Rightarrow> relay_client" where
  "terminal_settled i ok s =
     (if i < length (rl_terminals s) \<and> snd (rl_terminals s ! i)
      then (let s1 = mark_relay (Terminal_settled (fst (rl_terminals s ! i)))
                  (s\<lparr>rl_terminals := take i (rl_terminals s) @ drop (Suc i) (rl_terminals s)\<rparr>)
            in if ok then s1 else emit_event Ev_message_refused Sev_error s1)
      else s)"

text \<open>A frame as it arrives: not text, or its length and what \<open>JSON.parse\<close> makes of it.\<close>

datatype relay_data = Relay_not_text | Relay_text int "json option"

definition handleMessage :: "relay_env \<Rightarrow> nat \<Rightarrow> relay_data \<Rightarrow> bool \<Rightarrow> relay_client \<Rightarrow> relay_client" where
  "handleMessage env sid data threw s = (case data of
     Relay_not_text \<Rightarrow> emit_event Ev_message_refused Sev_warn s
   | Relay_text len parsed \<Rightarrow>
       if len > re_maxFrameBytes env then emit_event Ev_message_refused Sev_warn s
       else (case parsed of
          None \<Rightarrow> emit_event Ev_message_refused Sev_warn s
        | Some value \<Rightarrow>
            (case parseSwap value of
               Some swap \<Rightarrow> job_arrives env sid swap threw s
             | None \<Rightarrow>
                 (case parseTxSubmitted value of
                    Some m \<Rightarrow> dispatchTerminal (Tx_submitted m) s
                  | None \<Rightarrow>
                      (case parseSubmitFailed value of
                         Some m \<Rightarrow> dispatchTerminal (Submit_failed m) s
                       | None \<Rightarrow> emit_event Ev_message_refused Sev_warn s)))))"

section \<open>Connection, timers and stop\<close>

definition scheduleTick :: "relay_client \<Rightarrow> relay_client" where
  "scheduleTick s = s\<lparr>rl_pushTimer := \<not> rl_retired s\<rparr>"

definition relay_connect :: "bool \<Rightarrow> relay_client \<Rightarrow> relay_client" where
  "relay_connect opens s =
     (if rl_retired s \<or> rl_socket s \<noteq> None then s
      else (let s1 = emit_event Ev_connecting Sev_info s
            in if \<not> opens then scheduleReconnect (emit_event Ev_disconnected Sev_warn s1)
               else s1\<lparr>rl_socket := Some (rl_created s1), rl_connectTimer := Some (rl_created s1),
                        rl_created := Suc (rl_created s1)\<rparr>))"

definition socket_opened :: "relay_env \<Rightarrow> nat \<Rightarrow> int \<Rightarrow> relay_client \<Rightarrow> relay_client" where
  "socket_opened env sid now s =
     (if rl_socket s \<noteq> Some sid then s
      else scheduleTick (requestPush env Cause_connect now (emit_event Ev_connected Sev_info
        (s\<lparr>rl_connectTimer := None, rl_connected := True, rl_connections := rl_connections s + 1\<rparr>))))"

definition socket_message :: "relay_env \<Rightarrow> nat \<Rightarrow> relay_data \<Rightarrow> bool \<Rightarrow> relay_client \<Rightarrow> relay_client" where
  "socket_message env sid data threw s =
     (if rl_socket s \<noteq> Some sid then s else handleMessage env sid data threw s)"

definition socket_errored :: "nat \<Rightarrow> relay_client \<Rightarrow> relay_client" where
  "socket_errored sid s = (if rl_socket s \<noteq> Some sid then s else handleClosed (emit_event Ev_socket_error Sev_warn s))"

definition socket_closed :: "nat \<Rightarrow> relay_client \<Rightarrow> relay_client" where
  "socket_closed sid s = (if rl_socket s \<noteq> Some sid then s else handleClosed s)"

definition connect_due :: "relay_client \<Rightarrow> relay_client" where
  "connect_due s = (case rl_connectTimer s of
     None \<Rightarrow> s
   | Some sid \<Rightarrow>
       (let s1 = s\<lparr>rl_connectTimer := None\<rparr>
        in if rl_socket s1 \<noteq> Some sid then s1
           else handleClosed (mark_relay (Socket_closed sid) (emit_event Ev_connect_timeout Sev_warn s1))))"

definition reconnect_due :: "bool \<Rightarrow> relay_client \<Rightarrow> relay_client" where
  "reconnect_due opens s =
     (if rl_reconnectTimer s then relay_connect opens (s\<lparr>rl_reconnectTimer := False\<rparr>) else s)"

definition tick_due :: "relay_env \<Rightarrow> int \<Rightarrow> relay_client \<Rightarrow> relay_client" where
  "tick_due env now s =
     (if \<not> rl_pushTimer s then s
      else (let s1 = s\<lparr>rl_pushTimer := False\<rparr>
            in if rl_retired s1 \<or> \<not> isOpen s1 then s1 else scheduleTick (requestPush env Cause_tick now s1)))"

definition relay_stop :: "relay_env \<Rightarrow> int \<Rightarrow> relay_client \<Rightarrow> relay_client" where
  "relay_stop env now s =
     (if rl_stopping s \<noteq> None then s
      else (relay_withdraw env now s)\<lparr>rl_stopping := Some Stop_withdrawing\<rparr>)"

definition stop_resumes :: "relay_client \<Rightarrow> relay_client" where
  "stop_resumes s =
     (if rl_stopping s = Some Stop_withdrawing \<and> rl_withdrawing s = Some Withdrawal_over
      then (let s1 = s\<lparr>rl_socket := None, rl_connectTimer := None, rl_pushTimer := False, rl_reconnectTimer := False,
                       rl_stopping := Some Stop_draining\<rparr>
            in case rl_socket s of None \<Rightarrow> s1 | Some sid \<Rightarrow> mark_relay (Socket_closed sid) s1)
      else s)"

definition stop_drained :: "relay_client \<Rightarrow> relay_client" where
  "stop_drained s =
     (if rl_stopping s = Some Stop_draining \<and> rl_terminals s = []
      then emit_event Ev_stopped Sev_info (s\<lparr>rl_connected := False, rl_stopped := True, rl_stopping := Some Stop_over\<rparr>)
      else s)"

section \<open>Runs\<close>

datatype relay_input =
  World_changes ladder_cache "string list result" abort_callback poll_answer
| Ready_changes nat bool
| Socket_opened nat int
| Socket_message nat relay_data bool
| Socket_errored nat
| Socket_closes nat
| Connect_due
| Reconnect_due bool
| Tick_due int
| Push_called int
| Send_settled bool int
| Push_turns int
| Sender_settled nat bool int
| Sender_late nat int
| Withdraw_called int
| Withdrawal_resumes bool int
| Stop_called_relay int
| Stop_resumes
| Stop_drained
| Job_settled nat "json option"
| Answer_settles nat bool
| Terminal_starts nat
| Terminal_settles nat bool

fun relay_step :: "relay_env \<Rightarrow> relay_input \<Rightarrow> relay_client \<Rightarrow> relay_client" where
  "relay_step env (World_changes cache unavailable callback answer) s =
     s\<lparr>rl_cache := cache, rl_unavailable := unavailable, rl_abortCallback := callback, rl_abortNow := answer\<rparr>"
| "relay_step env (Ready_changes sid ready) s = s\<lparr>rl_ready := (rl_ready s)(sid := ready)\<rparr>"
| "relay_step env (Socket_opened sid now) s = socket_opened env sid now s"
| "relay_step env (Socket_message sid data threw) s = socket_message env sid data threw s"
| "relay_step env (Socket_errored sid) s = socket_errored sid s"
| "relay_step env (Socket_closes sid) s = socket_closed sid s"
| "relay_step env Connect_due s = connect_due s"
| "relay_step env (Reconnect_due opens) s = reconnect_due opens s"
| "relay_step env (Tick_due now) s = tick_due env now s"
| "relay_step env (Push_called now) s = requestPush env Cause_manual now s"
| "relay_step env (Send_settled ok now) s = send_settled env ok now s"
| "relay_step env (Push_turns now) s = push_turn env now s"
| "relay_step env (Sender_settled n ok now) s = sender_settled env n ok now s"
| "relay_step env (Sender_late n now) s = sender_late env n now s"
| "relay_step env (Withdraw_called now) s = relay_withdraw env now s"
| "relay_step env (Withdrawal_resumes late now) s = withdrawal_resumes env late now s"
| "relay_step env (Stop_called_relay now) s = relay_stop env now s"
| "relay_step env Stop_resumes s = stop_resumes s"
| "relay_step env Stop_drained s = stop_drained s"
| "relay_step env (Job_settled k response) s = job_settled k response s"
| "relay_step env (Answer_settles i ok) s = answer_settled i ok s"
| "relay_step env (Terminal_starts i) s = terminal_starts i s"
| "relay_step env (Terminal_settles i ok) s = terminal_settled i ok s"

section \<open>Start\<close>

record relay_options =
  rp_ladder :: relay_ladder
  rp_url :: string
  rp_authToken :: string
  rp_pushIntervalMs :: "js_number option"
  rp_reconnectDelayMs :: "js_number option"
  rp_connectTimeoutMs :: "js_number option"
  rp_withdrawTimeoutMs :: "js_number option"
  rp_maxFrameBytes :: "js_number option"
  rp_executesJobs :: bool

definition requirePositiveInteger :: "js_number option \<Rightarrow> int \<Rightarrow> int result" where
  "requirePositiveInteger value fallback = (case value of
     None \<Rightarrow> Inr fallback
   | Some (Integral n) \<Rightarrow>
       if is_safe_integer n \<and> n > 0 then Inr n else Inl (RangeError ''must be a positive safe integer'')
   | Some _ \<Rightarrow> Inl (RangeError ''must be a positive safe integer''))"

definition fresh_client :: "ladder_cache \<Rightarrow> string list result \<Rightarrow> abort_callback \<Rightarrow> poll_answer \<Rightarrow> relay_client" where
  "fresh_client cache unavailable callback answer =
     \<lparr>rl_created = 0, rl_socket = None, rl_ready = (\<lambda>_. False), rl_connectTimer = None, rl_reconnectTimer = False,
      rl_pushTimer = False, rl_retired = False, rl_inFlight = None, rl_queued = False, rl_senders = [],
      rl_withdrawing = None, rl_stopping = None, rl_jobs = [], rl_answers = [], rl_terminals = [],
      rl_lastTruncation = \<lparr>tg_pairCapOffers = 0, tg_wirePointCapOffers = 0\<rparr>,
      rl_lastResource = \<lparr>rs_stopReason = None, rs_withheldPairs = 0, rs_candidatePairsExamined = 0,
        rs_discoveryWork = 0, rs_safeMergeOrderWork = 0\<rparr>,
      rl_lastCurrent = None, rl_lastPush = None, rl_connected = False, rl_connections = 0, rl_pushes = 0,
      rl_coalesced = 0, rl_pushFailures = 0, rl_withdrawn = False, rl_stopped = False, rl_cache = cache,
      rl_unavailable = unavailable, rl_abortCallback = callback, rl_abortNow = answer, rl_trace = []\<rparr>"

definition startRelayClient :: "(combination_state list \<Rightarrow> nat) \<Rightarrow> (js_error \<Rightarrow> string) \<Rightarrow> relay_options \<Rightarrow> bool
    \<Rightarrow> relay_client \<Rightarrow> (relay_env \<times> relay_client) result" where
  "startRelayClient comparisons errorText options opens s =
     bindR (requirePositiveInteger (rp_pushIntervalMs options) 1000) (\<lambda>_.
     bindR (requirePositiveInteger (rp_reconnectDelayMs options) 2000) (\<lambda>_.
     bindR (requirePositiveInteger (rp_connectTimeoutMs options) 10000) (\<lambda>_.
     bindR (requirePositiveInteger (rp_withdrawTimeoutMs options) 2000) (\<lambda>_.
     bindR (requirePositiveInteger (rp_maxFrameBytes options) 1048576) (\<lambda>maxFrameBytes.
       if rp_url options = [] then Inl (RangeError ''relay client url must not be empty'')
       else if rp_authToken options = [] then Inl (RangeError ''relay client authToken must not be empty'')
       else Inr (\<lparr>re_ladder = rp_ladder options, re_maxFrameBytes = maxFrameBytes,
                  re_executesJobs = rp_executesJobs options, re_comparisons = comparisons, re_errorText = errorText\<rparr>,
                 relay_connect opens s))))))"

definition run_relay :: "relay_env \<Rightarrow> relay_input list \<Rightarrow> relay_client \<Rightarrow> relay_client" where
  "run_relay env inputs s = fold (relay_step env) inputs s"

end
