(* ===== verification/Relay_Client_Correct.thy ===== *)
theory Relay_Client_Correct
  imports Relay_Client
begin

text \<open>
  Correctness of the relay client model: what is published is priced for the book as it stands when
  the levels are handed to the socket, nothing is published once the client is retired, every job has
  at most one answer, on the socket that delivered it, and the terminal callbacks of a job run one
  after the other in the order of their frames.
\<close>

section \<open>Equal rows, equal ladders\<close>

lemma lower_hex_digit: "is_hex_digit (lower_char c) \<longleftrightarrow> is_hex_digit c"
  by (auto simp: is_hex_digit_def is_lower_hex_digit_def is_digit_def code_of_lower_char split: if_splits)

lemma lower_hex: "isHex64 (toLowerCase s) \<longleftrightarrow> isHex64 s"
  by (simp add: isHex64_def toLowerCase_def list_all_iff lower_hex_digit)

lemma isHex64_cong: "toLowerCase s = toLowerCase t \<Longrightarrow> isHex64 s \<longleftrightarrow> isHex64 t"
  using lower_hex [of s] lower_hex [of t] by simp

lemma not_singles: "\<not> (length gs = 1 \<and> length ws = 1) \<Longrightarrow> (case (gs, ws) of ([g], [w]) \<Rightarrow> f g w | _ \<Rightarrow> x) = x"
  by (cases gs; cases "tl gs"; cases ws; cases "tl ws") auto

lemma singles: "length gs = 1 \<and> length ws = 1 \<Longrightarrow> (case (gs, ws) of ([g], [w]) \<Rightarrow> f g w | _ \<Rightarrow> x) = f (hd gs) (hd ws)"
  by (cases gs; cases ws) auto

lemma uniq_sort_cong: "set xs = set ys \<Longrightarrow> sort (js_uniq xs) = sort (js_uniq ys)"
  by (metis distinct_js_uniq set_js_uniq sorted_distinct_set_unique sorted_sort distinct_sort set_sort)

lemma list_ex_lower: "list_ex (\<lambda>n. \<not> isHex64 n) xs \<longleftrightarrow> (\<exists>n \<in> set (map toLowerCase xs). \<not> isHex64 n)"
  by (auto simp: list_ex_iff lower_hex)

lemma toCrossable_rows:
  assumes "ladder_row o1 = ladder_row o2" "set u1 = set u2" "do_nowMs opts1 = do_nowMs opts2"
    and "do_expiryMarginSeconds opts1 = do_expiryMarginSeconds opts2"
  shows "toCrossable o1 opts1 u1 = toCrossable o2 opts2 u2"
proof -
  have h: "toLowerCase (so_offerHash o1) = toLowerCase (so_offerHash o2)"
    and g: "map ladder_leg (so_gives o1) = map ladder_leg (so_gives o2)"
    and w: "map ladder_leg (so_wants o1) = map ladder_leg (so_wants o2)"
    and e: "so_expiresAt o1 = so_expiresAt o2"
    and n: "sort (map toLowerCase (so_inputNullifiers o1)) = sort (map toLowerCase (so_inputNullifiers o2))"
    using assms(1) by (simp_all add: ladder_row_def)
  have n: "set (map toLowerCase (so_inputNullifiers o1)) = set (map toLowerCase (so_inputNullifiers o2))"
    using arg_cong [OF n, of set] by simp
  note s = uniq_sort_cong [OF n]
  have x: "list_ex (\<lambda>n. \<not> isHex64 n) (so_inputNullifiers o1) = list_ex (\<lambda>n. \<not> isHex64 n) (so_inputNullifiers o2)"
    unfolding list_ex_lower n ..
  note hh = isHex64_cong [OF h]
  have lg: "length (so_gives o1) = length (so_gives o2)" "length (so_wants o1) = length (so_wants o2)"
    using map_eq_imp_length_eq [OF g] map_eq_imp_length_eq [OF w] by simp_all
  show ?thesis
  proof (cases "length (so_gives o1) = 1 \<and> length (so_wants o1) = 1")
    case False
    then have False2: "\<not> (length (so_gives o2) = 1 \<and> length (so_wants o2) = 1)" using lg by simp
    show ?thesis
      unfolding toCrossable_def not_singles [OF False] not_singles [OF False2] by (simp only: h hh assms(2))
  next
    case True
    with lg have True2: "length (so_gives o2) = 1 \<and> length (so_wants o2) = 1" by simp
    have "ladder_leg (hd (so_gives o1)) = ladder_leg (hd (so_gives o2))" "ladder_leg (hd (so_wants o1)) = ladder_leg (hd (so_wants o2))"
      using g w True True2 by (auto simp: length_Suc_conv)
    then have k: "sl_kind (hd (so_gives o1)) = sl_kind (hd (so_gives o2))"
      "sl_kind (hd (so_wants o1)) = sl_kind (hd (so_wants o2))"
      "toLowerCase (leg_token (hd (so_gives o1))) = toLowerCase (leg_token (hd (so_gives o2)))"
      "toLowerCase (leg_token (hd (so_wants o1))) = toLowerCase (leg_token (hd (so_wants o2)))"
      "leg_amount (hd (so_gives o1)) = leg_amount (hd (so_gives o2))"
      "leg_amount (hd (so_wants o1)) = leg_amount (hd (so_wants o2))"
      by (simp_all add: ladder_leg_def)
    show ?thesis
      unfolding toCrossable_def singles [OF True] singles [OF True2]
      by (simp only: k isHex64_cong [OF k(3)] isHex64_cong [OF k(4)] h hh x s e assms(2-4))
  qed
qed

lemma accepted_set_concat:
  "accepted options offers = concat (map (\<lambda>offer.
     case toCrossable offer options (map toLowerCase (do_unavailableOfferHashes options)) of Inl r \<Rightarrow> [] | Inr c \<Rightarrow> [c]) offers)"
  by (simp add: accepted_def)

lemma mset_concat_rows:
  assumes "\<And>x y. r x = r y \<Longrightarrow> f x = g y" "mset (map r xs) = mset (map r ys)"
  shows "mset (concat (map f xs)) = mset (concat (map g ys))"
proof -
  define F where "F v = f (SOME x. r x = v)" for v
  have ff: "f x = F (r x)" for x
  proof -
    have e: "r (SOME z. r z = r x) = r x" by (rule someI) simp
    show ?thesis unfolding F_def using assms(1) [OF e] assms(1) [of x x] by simp
  qed
  have gg: "g y = F (r y)" for y using assms(1) [of y y] ff by simp
  have "sum_mset (image_mset (\<lambda>v. mset (F v)) (mset (map r xs))) = sum_mset (image_mset (\<lambda>v. mset (F v)) (mset (map r ys)))"
    by (simp only: assms(2))
  then have "mset (concat (map F (map r xs))) = mset (concat (map F (map r ys)))"
    by (simp add: mset_concat comp_def flip: sum_mset_sum_list mset_map)
  moreover have "f = (\<lambda>x. F (r x))" "g = (\<lambda>x. F (r x))" using ff gg by blast+
  ultimately show ?thesis by (simp only: map_map comp_def)
qed

lemma unique_offers_mset: "mset xs = mset ys \<Longrightarrow> unique_offers xs = unique_offers ys"
proof -
  assume m: "mset xs = mset ys"
  have count: "hash_count xs h = hash_count ys h" for h
    unfolding hash_count_def by (metis m mset_filter size_mset)
  have st: "set (unique_offers xs) = set (unique_offers ys)"
    unfolding unique_offers_def using m count by (auto dest: mset_eq_setD)
  have inj: "inj_on cr_offerHash (set (unique_offers ys))"
    using unique_hashes [of ys] by (simp add: distinct_map)
  have so: "sorted (map cr_offerHash (unique_offers cs))" for cs
    unfolding unique_offers_def by (simp add: sorted_filter)
  show ?thesis
  proof (rule map_sorted_distinct_set_unique)
    show "inj_on cr_offerHash (set (unique_offers xs) \<union> set (unique_offers ys))" unfolding st using inj by simp
  qed (rule so unique_hashes st)+
qed

lemma eligible_rows:
  assumes "mset (map ladder_row os1) = mset (map ladder_row os2)"
    and "set (map toLowerCase (do_unavailableOfferHashes opts1)) = set (map toLowerCase (do_unavailableOfferHashes opts2))"
    and "do_nowMs opts1 = do_nowMs opts2" "do_expiryMarginSeconds opts1 = do_expiryMarginSeconds opts2"
  shows "eligible opts1 os1 = eligible opts2 os2"
proof -
  have "mset (accepted opts1 os1) = mset (accepted opts2 os2)"
    unfolding accepted_set_concat
    by (rule mset_concat_rows [OF _ assms(1)]) (subst toCrossable_rows [OF _ assms(2-4)], assumption, rule refl)
  from unique_offers_mset [OF this] show ?thesis by (simp only: eligible_def)
qed

section \<open>A snapshot that still holds\<close>

lemma deadline_kept:
  "(\<forall>v. start = Some v \<longrightarrow> (\<exists>w. fold (earlier_deadline t m) os start = Some w \<and> w \<le> v))
   \<and> (\<forall>x \<in> set os. \<forall>e. so_expiresAt x = Some e \<longrightarrow> e - m > t
        \<longrightarrow> (\<exists>w. fold (earlier_deadline t m) os start = Some w \<and> w \<le> e - m))"
proof (induction os arbitrary: start)
  case (Cons a os)
  let ?s = "earlier_deadline t m a start"
  have 1: "\<exists>w. ?s = Some w \<and> w \<le> v" if "start = Some v" for v
    using that by (auto simp: earlier_deadline_def Let_def split: option.split)
  have 2: "\<exists>w. ?s = Some w \<and> w \<le> e - m" if "so_expiresAt a = Some e" "e - m > t" for e
    using that by (cases start) (auto simp: earlier_deadline_def Let_def)
  show ?case
  proof (intro conjI ballI allI impI)
    fix v assume "start = Some v"
    then obtain w where w: "?s = Some w" "w \<le> v" using 1 by blast
    then show "\<exists>w. fold (earlier_deadline t m) (a # os) start = Some w \<and> w \<le> v"
      using conjunct1 [OF Cons.IH [of ?s], rule_format, OF w(1)] by fastforce
  next
    fix x e assume x: "x \<in> set (a # os)" and e: "so_expiresAt x = Some e" "e - m > t"
    show "\<exists>w. fold (earlier_deadline t m) (a # os) start = Some w \<and> w \<le> e - m"
    proof (cases "x = a")
      case True
      with e obtain w where w: "?s = Some w" "w \<le> e - m" using 2 by blast
      then show ?thesis using conjunct1 [OF Cons.IH [of ?s], rule_format, OF w(1)] by fastforce
    next
      case False
      with x e show ?thesis using conjunct2 [OF Cons.IH [of ?s]] by auto
    qed
  qed
qed simp

text \<open>The offers a ladder was priced from, at the time of the derivation.\<close>

definition options_at :: "relay_env \<Rightarrow> int \<Rightarrow> string list \<Rightarrow> derive_options" where
  "options_at env t unavailable =
     \<lparr>ap_supportedPairs = ap_supportedPairs (re_ladder env), ap_minJobOutput = ap_minJobOutput (re_ladder env),
      do_nowMs = t, do_expiryMarginSeconds = ro_expiryMarginSeconds (re_ladder env),
      do_unavailableOfferHashes = unavailable, do_resourceLimits = ro_resourceLimits (re_ladder env),
      do_shouldAbort = None\<rparr>"

definition offers_of :: "ladder_cache \<Rightarrow> source_offer list" where
  "offers_of cache = map source_offer.truncate (book_all (lc_book cache))"

text \<open>No offer that was in time at \<open>t\<close> has reached its margin at \<open>now\<close>.\<close>

definition in_time :: "relay_env \<Rightarrow> int \<Rightarrow> int \<Rightarrow> source_offer \<Rightarrow> bool" where
  "in_time env t now x = (case so_expiresAt x of
     None \<Rightarrow> True
   | Some e \<Rightarrow> e - ro_expiryMarginSeconds (re_ladder env) * 1000 \<le> t
       \<or> now < e - ro_expiryMarginSeconds (re_ladder env) * 1000)"

lemma row_truncate [simp]: "ladder_row (source_offer.truncate x) = ladder_row (x :: book_offer)"
  by (simp add: ladder_row_def source_offer.defs)

lemma rows_offers: "map ladder_row (offers_of cache) = map ladder_row (book_all (lc_book cache))"
  by (simp add: offers_of_def comp_def)

lemma snapshot_holds:
  assumes c: "captureLadderSourceSnapshot cache0 t (ro_expiryMarginSeconds (re_ladder env)) cap unavailable0 = Inr sn"
    and f: "sourceSnapshotFailure cache sn now (ro_expiryMarginSeconds (re_ladder env)) cap' unavailable = Inr None"
  shows "lc_isCurrent cache"
    and "eligible (options_at env t unavailable0) (offers_of cache0) = eligible (options_at env t unavailable) (offers_of cache)"
    and "list_all (in_time env t now) (offers_of cache)"
proof -
  let ?m = "ro_expiryMarginSeconds (re_ladder env) * 1000"
  show "lc_isCurrent cache" using f by (auto simp: sourceSnapshotFailure_def split: if_splits)
  from f obtain cur where cur: "captureLadderSourceSnapshot cache now (ro_expiryMarginSeconds (re_ladder env)) cap' unavailable = Inr cur"
    and sg: "ls_signature cur = ls_signature sn" and un: "ls_unavailable cur = ls_unavailable sn"
    and vu: "\<not> (case ls_validUntilMs sn of None \<Rightarrow> False | Some v \<Rightarrow> now \<ge> v)"
    by (auto simp: sourceSnapshotFailure_def bindR_eq_Inr split: if_splits)
  have "sort_key fst (map ladder_row (book_all (lc_book cache))) = sort_key fst (map ladder_row (book_all (lc_book cache0)))"
    using c cur sg by (auto simp: captureLadderSourceSnapshot_def Let_def split: if_splits)
  then have rows: "mset (map ladder_row (offers_of cache0)) = mset (map ladder_row (offers_of cache))"
    unfolding rows_offers by (metis mset_sort)
  have "sort (js_uniq (map toLowerCase unavailable)) = sort (js_uniq (map toLowerCase unavailable0))"
    using c cur un by (auto simp: captureLadderSourceSnapshot_def Let_def split: if_splits)
  then have u: "set (map toLowerCase unavailable0) = set (map toLowerCase unavailable)"
    by (metis set_js_uniq set_sort)
  show "eligible (options_at env t unavailable0) (offers_of cache0) = eligible (options_at env t unavailable) (offers_of cache)"
    by (rule eligible_rows [OF rows]) (simp_all only: options_at_def derive_options.simps u)
  have v: "ls_validUntilMs sn = fold (earlier_deadline t ?m) (book_all (lc_book cache0)) None"
    using c by (auto simp: captureLadderSourceSnapshot_def Let_def split: if_splits)
  have kept: "now < e - ?m" if x: "x \<in> set (book_all (lc_book cache0))" "so_expiresAt x = Some e" "e - ?m > t" for x e
  proof -
    obtain w where "ls_validUntilMs sn = Some w" "w \<le> e - ?m"
      using conjunct2 [OF deadline_kept [of None t ?m "book_all (lc_book cache0)"]] x v by auto
    with vu show ?thesis by simp
  qed
  have "in_time env t now x" if "x \<in> set (offers_of cache)" for x
  proof -
    have "ladder_row x \<in> set (map ladder_row (offers_of cache0))"
      using that rows by (metis image_eqI list.set_map mset_eq_setD)
    then obtain y where y: "y \<in> set (book_all (lc_book cache0))" "ladder_row y = ladder_row x"
      unfolding rows_offers by auto
    then have "so_expiresAt y = so_expiresAt x" by (simp add: ladder_row_def)
    then show ?thesis using kept [OF y(1)]
      by (cases "so_expiresAt x") (fastforce simp: in_time_def not_le)+
  qed
  then show "list_all (in_time env t now) (offers_of cache)" by (simp add: list_all_iff)
qed

section \<open>What a derivation may publish\<close>

definition quiet :: "json \<Rightarrow> bool" where
  "quiet frame \<longleftrightarrow> parsePriceLevels frame \<in> {None, Some []}"

lemma capabilities_quiet: "parseSolverCapabilities frame \<noteq> None \<Longrightarrow> quiet frame"
  by (auto simp: quiet_def parsePriceLevels_def parseSolverCapabilities_def frame_of_type_def split: option.splits if_splits)

lemma withheld_quiet:
  "buildWithheldLadderPush reason cap text limits = Inr push \<Longrightarrow> quiet (lp_capabilities push) \<and> quiet (lp_priceLevels push)"
proof -
  assume b: "buildWithheldLadderPush reason cap text limits = Inr push"
  obtain c where c: "buildSolverCapabilitiesFrame [] cap = Inr c" "parseSolverCapabilities c \<noteq> None"
    using buildSolverCapabilitiesFrame_ok [of "[]" cap] by auto
  obtain l where l: "buildPriceLevelsFrame [] = Inr l" "parsePriceLevels l = Some []"
    using buildPriceLevelsFrame_ok [of "[]"] by auto
  from b c l capabilities_quiet [OF c(2)] show ?thesis by (auto simp: buildWithheldLadderPush_def quiet_def)
qed

lemma withdrawal_quiet:
  "withdrawalPriceLevelsFrame = Inr levels \<Longrightarrow> quiet levels"
  "withdrawal_capabilities env = Some capabilities \<Longrightarrow> quiet capabilities"
proof -
  obtain c where c: "buildSolverCapabilitiesFrame [] (ro_maxParallelSwaps (re_ladder env)) = Inr c" "parseSolverCapabilities c \<noteq> None"
    using buildSolverCapabilitiesFrame_ok [of "[]" "ro_maxParallelSwaps (re_ladder env)"] by auto
  obtain l where l: "buildPriceLevelsFrame [] = Inr l" "parsePriceLevels l = Some []"
    using buildPriceLevelsFrame_ok [of "[]"] by auto
  from l show "withdrawalPriceLevelsFrame = Inr levels \<Longrightarrow> quiet levels"
    by (simp add: withdrawalPriceLevelsFrame_def quiet_def)
  from c capabilities_quiet [OF c(2)] show "withdrawal_capabilities env = Some capabilities \<Longrightarrow> quiet capabilities"
    by (simp add: withdrawal_capabilities_def)
qed

text \<open>What a push carries when it can be published at all.\<close>

definition priced :: "relay_env \<Rightarrow> int \<Rightarrow> ladder_cache \<Rightarrow> string list \<Rightarrow> json \<Rightarrow> bool" where
  "priced env t cache unavailable frame \<longleftrightarrow>
     (\<exists>limits levels. resolveLadderResourceLimits (ro_resourceLimits (re_ladder env)) = Inr limits
        \<and> parsePriceLevels frame = Some (map pair_json levels)
        \<and> list_all (optimal_pair (eligible (options_at env t unavailable) (offers_of cache)) (max_makers limits)) levels)"

lemma refused_push:
  assumes "resolveLadderResourceLimits (po_resourceLimits options) = Inl refusal" "lc_isCurrent cache"
    and "deriveLadderPush comparisons cache options = Some (Inr push)"
  shows "dl_levels (lp_derived push) = []"
proof -
  have "do_resourceLimits (push_derive_options cache options) = po_resourceLimits options"
    by (simp add: push_derive_options_def Let_def)
  with assms(1) obtain d where "deriveLadder comparisons [] (push_derive_options cache options) = Some (Inr d)" "dl_levels d = []"
    by (simp add: deriveLadder_def emptyDerived_def)
  with assms show ?thesis by (auto simp: deriveLadderPush_def push_of_def Let_def bindR_eq_Inr)
qed

lemma derive_push_facts:
  assumes "derive_push env t s0 = Inr (push, sn)"
  shows "quiet (lp_capabilities push)"
    and "quiet (lp_priceLevels push) \<or> (lp_withheld push = None \<and> (\<exists>u cap snap.
      captureLadderSourceSnapshot (rl_cache s0) t (ro_expiryMarginSeconds (re_ladder env)) cap u = Inr snap \<and> sn = Some snap
      \<and> priced env t (rl_cache s0) u (lp_priceLevels push)))"
proof -
  obtain u where u: "rl_unavailable s0 = Inr u" using assms by (cases "rl_unavailable s0") (simp_all add: derive_push_def)
  obtain z where z: "source_snapshot env s0 u t = Inr z"
    using assms u by (cases "source_snapshot env s0 u t") (simp_all add: derive_push_def)
  obtain w where w: "deriveLadderPush (re_comparisons env) (rl_cache s0) (ladder_options env s0 u t) = Some (Inr w)"
    using deriveLadderPush_spec [of "re_comparisons env" "rl_cache s0" "ladder_options env s0 u t"] by blast
  from assms u z w have "w = push" "z = sn" by (simp_all add: derive_push_def)
  with z w have sn: "source_snapshot env s0 u t = Inr sn"
    and d: "deriveLadderPush (re_comparisons env) (rl_cache s0) (ladder_options env s0 u t) = Some (Inr push)" by simp_all
  let ?o = "ladder_options env s0 u t"
  from deriveLadderPush_spec [of "re_comparisons env" "rl_cache s0" ?o] d
  have ok: "push_ok ?o push" and cur: "lc_isCurrent (rl_cache s0) \<or> dl_levels (lp_derived push) = []" by auto
  show "quiet (lp_capabilities push)"
    by (rule capabilities_quiet) (use ok in \<open>auto simp: push_ok_def split: option.splits\<close>)
  have lv: "parsePriceLevels (lp_priceLevels push) = Some (map pair_json (dl_levels (lp_derived push)))"
    using ok by (simp add: push_ok_def)
  show "quiet (lp_priceLevels push) \<or> (lp_withheld push = None \<and> (\<exists>u cap snap.
      captureLadderSourceSnapshot (rl_cache s0) t (ro_expiryMarginSeconds (re_ladder env)) cap u = Inr snap \<and> sn = Some snap
      \<and> priced env t (rl_cache s0) u (lp_priceLevels push)))"
  proof (cases "dl_levels (lp_derived push) = []")
    case True
    with lv show ?thesis by (simp add: quiet_def)
  next
    case False
    have nw: "lp_withheld push = None" using ok False by (auto simp: push_ok_def split: option.splits)
    have cur: "lc_isCurrent (rl_cache s0)" using cur False by simp
    have ro: "po_resourceLimits ?o = ro_resourceLimits (re_ladder env)" by (simp add: ladder_options_def Let_def)
    show ?thesis
    proof (cases "resolveLadderResourceLimits (ro_resourceLimits (re_ladder env))")
      case (Inl refusal)
      with d cur ro False show ?thesis
        using refused_push [of ?o refusal "rl_cache s0" "re_comparisons env" push] by simp
    next
      case (Inr limits)
      have sz: "\<not> book_size (lc_book (rl_cache s0)) > rl_maxSourceOffers limits"
      proof
        assume "book_size (lc_book (rl_cache s0)) > rl_maxSourceOffers limits"
        with d cur ro Inr have "dl_levels (lp_derived push) = []"
          by (auto simp: deriveLadderPush_def with_stop_def buildWithheldLadderPush_def nothingDerived_def bindR_eq_Inr)
        with False show False by simp
      qed
      let ?do = "push_derive_options (rl_cache s0) ?o"
      obtain der where der: "deriveLadder (re_comparisons env) (offers_of (rl_cache s0)) ?do = Some (Inr der)"
        and po: "push_of ?o der = Inr push"
        using d cur ro Inr sz by (auto simp: deriveLadderPush_def offers_of_def bindR_eq_Inr split: option.splits)
      have pd: "lp_derived push = der" using po by (auto simp: push_of_def Let_def bindR_eq_Inr)
      have "do_resourceLimits ?do = ro_resourceLimits (re_ladder env)" by (simp add: push_derive_options_def ro Let_def)
      with deriveLadder_spec [of "re_comparisons env" "offers_of (rl_cache s0)" ?do] der Inr
      have oo: "outcome_ok (eligible ?do (offers_of (rl_cache s0))) limits der" by auto
      have el: "eligible ?do (offers_of (rl_cache s0)) = eligible (options_at env t u) (offers_of (rl_cache s0))"
        by (rule eligible_rows [OF refl])
           (simp_all add: options_at_def push_derive_options_def ladder_options_def forwardAdmissionPolicy_def Let_def)
      have pr: "priced env t (rl_cache s0) u (lp_priceLevels push)"
        unfolding priced_def using Inr lv oo unfolding el pd outcome_ok_def by blast
      obtain snap where "captureLadderSourceSnapshot (rl_cache s0) t (ro_expiryMarginSeconds (re_ladder env))
          (rl_maxSourceOffers limits) u = Inr snap" "sn = Some snap"
        using sn cur Inr sz by (auto simp: source_snapshot_def bindR_eq_Inr)
      with nw pr show ?thesis by blast
    qed
  qed
qed

section \<open>The invariant of the push loop\<close>

fun quiet_mark :: "relay_mark \<Rightarrow> bool" where
  "quiet_mark (Ladder_frame sid frame cache unavailable now) = quiet frame"
| "quiet_mark _ = True"

text \<open>A frame of levels is empty, or it prices the book the cache holds when the frame is handed over:
  the cache is current, every pair is optimal for the offers eligible then, and no offer that was in
  time at the derivation has reached its margin since.\<close>

fun fresh_frame :: "relay_env \<Rightarrow> relay_mark \<Rightarrow> bool" where
  "fresh_frame env (Ladder_frame sid frame cache unavailable now) =
     (quiet frame \<or> lc_isCurrent cache
        \<and> (\<exists>t. priced env t cache unavailable frame \<and> list_all (in_time env t now) (offers_of cache)))"
| "fresh_frame env _ = True"

fun sender_ok :: "sender \<Rightarrow> bool" where
  "sender_ok (Sender_first sid frame handed) = (case frame of None \<Rightarrow> True | Some f \<Rightarrow> quiet f)"
| "sender_ok _ = True"

fun wait_ok :: "relay_env \<Rightarrow> push_wait option \<Rightarrow> bool" where
  "wait_ok env (Some (Awaiting_capabilities sid push sn t cause handed)) = (\<exists>s0. derive_push env t s0 = Inr (push, sn))"
| "wait_ok env _ = True"

definition since_retired :: "relay_mark list \<Rightarrow> relay_mark list" where
  "since_retired tr = dropWhile (\<lambda>m. m \<noteq> Retired) tr"

definition relay_inv :: "relay_env \<Rightarrow> relay_client \<Rightarrow> bool" where
  "relay_inv env s \<longleftrightarrow> list_all (fresh_frame env) (rl_trace s) \<and> (rl_retired s \<longleftrightarrow> Retired \<in> set (rl_trace s))
     \<and> list_all quiet_mark (since_retired (rl_trace s)) \<and> wait_ok env (rl_inFlight s) \<and> list_all sender_ok (rl_senders s)"

lemma since_retired_append:
  "Retired \<in> set tr \<Longrightarrow> since_retired (tr @ [m]) = since_retired tr @ [m]"
  "Retired \<notin> set tr \<Longrightarrow> m \<noteq> Retired \<Longrightarrow> since_retired (tr @ [m]) = []"
  "Retired \<notin> set tr \<Longrightarrow> since_retired (tr @ [Retired]) = [Retired]"
  by (auto simp: since_retired_def dropWhile_append dropWhile_eq_Nil_conv)

named_theorems relay_keeps

lemma inv_mark:
  assumes "relay_inv env s" "fresh_frame env m" "m \<noteq> Retired" "rl_retired s \<Longrightarrow> quiet_mark m"
  shows "relay_inv env (mark_relay m s)"
  using assms by (cases "rl_retired s") (auto simp: relay_inv_def mark_relay_def since_retired_append)

lemma inv_plain [relay_keeps]:
  "relay_inv env s \<Longrightarrow> relay_inv env (mark_relay (Emitted ev sv) s)"
  "relay_inv env s \<Longrightarrow> relay_inv env (mark_relay (Push_recorded p pc) s)"
  "relay_inv env s \<Longrightarrow> relay_inv env (mark_relay (Socket_closed n) s)"
  "relay_inv env s \<Longrightarrow> relay_inv env (mark_relay (Job_delivered k n j) s)"
  "relay_inv env s \<Longrightarrow> relay_inv env (mark_relay (Job_answered k n ja a b) s)"
  "relay_inv env s \<Longrightarrow> relay_inv env (mark_relay (Job_unanswered k n a b) s)"
  "relay_inv env s \<Longrightarrow> relay_inv env (mark_relay (Terminal_arrived m) s)"
  "relay_inv env s \<Longrightarrow> relay_inv env (mark_relay (Terminal_called m) s)"
  "relay_inv env s \<Longrightarrow> relay_inv env (mark_relay (Terminal_settled m) s)"
  by (rule inv_mark; simp)+

lemma inv_fields [simp]:
  "relay_inv env (s\<lparr>rl_created := a1\<rparr>) = relay_inv env s"
  "relay_inv env (s\<lparr>rl_socket := a2\<rparr>) = relay_inv env s"
  "relay_inv env (s\<lparr>rl_ready := a3\<rparr>) = relay_inv env s"
  "relay_inv env (s\<lparr>rl_connectTimer := a4\<rparr>) = relay_inv env s"
  "relay_inv env (s\<lparr>rl_reconnectTimer := a5\<rparr>) = relay_inv env s"
  "relay_inv env (s\<lparr>rl_pushTimer := a6\<rparr>) = relay_inv env s"
  "relay_inv env (s\<lparr>rl_queued := a7\<rparr>) = relay_inv env s"
  "relay_inv env (s\<lparr>rl_withdrawing := a8\<rparr>) = relay_inv env s"
  "relay_inv env (s\<lparr>rl_stopping := a9\<rparr>) = relay_inv env s"
  "relay_inv env (s\<lparr>rl_jobs := b1\<rparr>) = relay_inv env s"
  "relay_inv env (s\<lparr>rl_answers := c9\<rparr>) = relay_inv env s"
  "relay_inv env (s\<lparr>rl_terminals := b2\<rparr>) = relay_inv env s"
  "relay_inv env (s\<lparr>rl_lastTruncation := b3\<rparr>) = relay_inv env s"
  "relay_inv env (s\<lparr>rl_lastResource := b4\<rparr>) = relay_inv env s"
  "relay_inv env (s\<lparr>rl_lastCurrent := b5\<rparr>) = relay_inv env s"
  "relay_inv env (s\<lparr>rl_lastPush := b6\<rparr>) = relay_inv env s"
  "relay_inv env (s\<lparr>rl_connected := b7\<rparr>) = relay_inv env s"
  "relay_inv env (s\<lparr>rl_connections := b8\<rparr>) = relay_inv env s"
  "relay_inv env (s\<lparr>rl_pushes := b9\<rparr>) = relay_inv env s"
  "relay_inv env (s\<lparr>rl_coalesced := c1\<rparr>) = relay_inv env s"
  "relay_inv env (s\<lparr>rl_pushFailures := c2\<rparr>) = relay_inv env s"
  "relay_inv env (s\<lparr>rl_withdrawn := c3\<rparr>) = relay_inv env s"
  "relay_inv env (s\<lparr>rl_stopped := c4\<rparr>) = relay_inv env s"
  "relay_inv env (s\<lparr>rl_cache := c5\<rparr>) = relay_inv env s"
  "relay_inv env (s\<lparr>rl_unavailable := c6\<rparr>) = relay_inv env s"
  "relay_inv env (s\<lparr>rl_abortCallback := c7\<rparr>) = relay_inv env s"
  "relay_inv env (s\<lparr>rl_abortNow := c8\<rparr>) = relay_inv env s"
  by (simp_all add: relay_inv_def)

lemma inv_wait [relay_keeps]:
  "relay_inv env s \<Longrightarrow> wait_ok env w \<Longrightarrow> relay_inv env (s\<lparr>rl_inFlight := w\<rparr>)"
  by (simp add: relay_inv_def)

lemma inv_senders [relay_keeps]:
  "relay_inv env s \<Longrightarrow> list_all sender_ok ss \<Longrightarrow> relay_inv env (s\<lparr>rl_senders := ss\<rparr>)"
  by (simp add: relay_inv_def)

lemma inv_senders_ok [simp]: "relay_inv env s \<Longrightarrow> list_all sender_ok (rl_senders s)"
  by (simp add: relay_inv_def)

lemma inv_retired: "relay_inv env s \<Longrightarrow> relay_inv env (mark_relay Retired (s\<lparr>rl_retired := True\<rparr>))"
  by (cases "Retired \<in> set (rl_trace s)") (auto simp: relay_inv_def mark_relay_def since_retired_append)

lemma list_all_update: "list_all P xs \<Longrightarrow> P x \<Longrightarrow> list_all P (xs[n := x])"
  by (auto simp: list_all_iff dest!: subsetD [OF set_update_subset_insert])

lemma inv_emit [relay_keeps]: "relay_inv env s \<Longrightarrow> relay_inv env (emit_event k v s)"
  by (simp add: emit_event_def relay_keeps)

lemma inv_recordPush [relay_keeps]: "relay_inv env s \<Longrightarrow> relay_inv env (recordPush push t cause s)"
  by (simp add: recordPush_def relay_keeps)

lemma inv_handleClosed [relay_keeps]: "relay_inv env s \<Longrightarrow> relay_inv env (handleClosed s)"
  by (auto simp: handleClosed_def scheduleReconnect_def Let_def intro!: relay_keeps split: option.split)

lemma inv_scheduleReconnect [relay_keeps]: "relay_inv env s \<Longrightarrow> relay_inv env (scheduleReconnect s)"
  by (simp add: scheduleReconnect_def)

lemma inv_closeSocket [relay_keeps]: "relay_inv env s \<Longrightarrow> relay_inv env (closeSocketGeneration sid s)"
  by (auto simp: closeSocketGeneration_def intro!: relay_keeps)

lemma inv_sendOn: "relay_inv env s \<Longrightarrow> quiet frame \<Longrightarrow> relay_inv env (snd (sendOn sid frame now s))"
  by (auto simp: sendOn_def intro!: inv_mark)

lemma inv_start_sender: "relay_inv env s \<Longrightarrow> quiet first \<Longrightarrow> (\<And>f. second = Some f \<Longrightarrow> quiet f) \<Longrightarrow> relay_inv env (snd (start_sender sid first second now s))"
  using inv_sendOn [of env s first sid now]
  by (cases second) (auto simp: start_sender_def Let_def split: prod.split intro!: relay_keeps)

lemma inv_push_failed [relay_keeps]: "relay_inv env s \<Longrightarrow> relay_inv env (push_failed v s)"
  by (simp add: push_failed_def relay_keeps)

lemma inv_push_returned [relay_keeps]: "relay_inv env s \<Longrightarrow> relay_inv env (push_returned s)"
  by (auto simp: push_returned_def intro!: relay_keeps)

lemma inv_push_over [relay_keeps]: "relay_inv env s \<Longrightarrow> relay_inv env (push_over s)"
  by (auto simp: push_over_def intro!: relay_keeps)

lemma inv_withdrawFailed:
  assumes s: "relay_inv env s" and s': "relay_inv env s'"
  shows "relay_inv env (or_threw (withdrawFailedPush env sid w reason t cause levelsFirst requeue now s) s')"
proof (cases "rl_socket s \<noteq> Some sid \<or> rl_retired s")
  case True
  with s show ?thesis by (simp add: withdrawFailedPush_def or_threw_def relay_keeps)
next
  case guard: False
  show ?thesis
  proof (cases "buildWithheldLadderPush w (ro_maxParallelSwaps (re_ladder env)) (Some reason) DEFAULT_LADDER_RESOURCE_LIMITS")
    case (Inl e)
    with guard s' show ?thesis by (simp add: withdrawFailedPush_def or_threw_def)
  next
    case (Inr p)
    note q = withheld_quiet [OF this]
    let ?s = "recordPush p t cause s"
    have r: "relay_inv env ?s" using s by (rule inv_recordPush)
    have i: "relay_inv env (snd (start_sender sid (lp_priceLevels p) (Some (lp_capabilities p)) now ?s))"
      "relay_inv env (snd (start_sender sid (lp_capabilities p) (Some (lp_priceLevels p)) now ?s))"
      using q by (auto intro!: inv_start_sender r)
    show ?thesis
      using guard Inr i by (cases levelsFirst)
        (auto simp: withdrawFailedPush_def or_threw_def Let_def case_prod_beta intro!: inv_wait)
  qed
qed

lemma inv_reports [relay_keeps]:
  "relay_inv env s \<Longrightarrow> relay_inv env (reportCurrentness push s)"
  "relay_inv env s \<Longrightarrow> relay_inv env (reportTruncation ex s)"
  "relay_inv env s \<Longrightarrow> relay_inv env (reportResourceLimits push s)"
  by (simp_all add: reportResourceLimits_def reportTruncation_def reportCurrentness_def Let_def inv_emit)

lemma inv_report_push [relay_keeps]: "relay_inv env s \<Longrightarrow> relay_inv env (report_push push t cause s)"
  by (simp add: report_push_def relay_keeps)

lemma inv_loop_threw [relay_keeps]: "relay_inv env s \<Longrightarrow> relay_inv env (loop_threw s)"
  by (simp add: loop_threw_def relay_keeps)

lemma inv_wire_failed [relay_keeps]: "relay_inv env s \<Longrightarrow> relay_inv env (wire_failed sid s)"
  by (simp add: wire_failed_def relay_keeps)

lemma inv_runPush [relay_keeps]:
  assumes s: "relay_inv env s"
  shows "relay_inv env (runPush env cause now s)"
proof (cases "rl_socket s")
  case None
  with s show ?thesis by (simp add: runPush_def relay_keeps)
next
  case (Some sid)
  show ?thesis
  proof (cases "rl_retired s \<or> \<not> isOpen s")
    case True
    with Some s show ?thesis by (simp add: runPush_def relay_keeps)
  next
    case live: False
    have f: "relay_inv env (push_failed v s)" for v using s by (rule inv_push_failed)
    show ?thesis
    proof (cases "derive_push env now s")
      case (Inl e)
      with Some live show ?thesis
        by (simp add: runPush_def Let_def inv_withdrawFailed [OF f inv_loop_threw [OF f]])
    next
      case (Inr r)
      obtain push sn where r: "r = (push, sn)" by fastforce
      show ?thesis
      proof (cases "stale_reason env push sn now s")
        case (Some reason)
        with \<open>rl_socket s = Some sid\<close> Inr r live show ?thesis
          by (simp add: runPush_def Let_def inv_withdrawFailed [OF f inv_loop_threw [OF f]])
      next
        case None
        have d: "derive_push env now s = Inr (push, sn)" using Inr r by simp
        have q: "quiet (lp_capabilities push)" by (rule derive_push_facts(1) [OF d])
        have "relay_inv env (snd (sendOn sid (lp_capabilities push) now (report_push push now cause s)))"
          by (rule inv_sendOn [OF inv_report_push [OF s] q])
        then have "relay_inv env ((snd (sendOn sid (lp_capabilities push) now (report_push push now cause s)))
            \<lparr>rl_inFlight := Some (Awaiting_capabilities sid push sn now cause h)\<rparr>)" for h
          by (rule inv_wait) (use d in auto)
        with Some Inr r live None show ?thesis by (simp add: runPush_def case_prod_beta)
      qed
    qed
  qed
qed

lemma inv_requestPush [relay_keeps]: "relay_inv env s \<Longrightarrow> relay_inv env (requestPush env cause now s)"
  by (simp add: requestPush_def relay_keeps)

lemma inv_push_turn [relay_keeps]: "relay_inv env s \<Longrightarrow> relay_inv env (push_turn env now s)"
  by (simp add: push_turn_def relay_keeps)

text \<open>The one place where a ladder goes out.\<close>

lemma published_fresh:
  assumes d: "derive_push env t s0 = Inr (push, sn)" and n: "stale_reason env push sn now s = None"
  shows "fresh_frame env (Ladder_frame sid (lp_priceLevels push) (rl_cache s) (unavailable_now s) now)"
proof (cases "quiet (lp_priceLevels push)")
  case False
  with derive_push_facts(2) [OF d] obtain u cap snap where w: "lp_withheld push = None" "sn = Some snap"
    and c: "captureLadderSourceSnapshot (rl_cache s0) t (ro_expiryMarginSeconds (re_ladder env)) cap u = Inr snap"
    and p: "priced env t (rl_cache s0) u (lp_priceLevels push)" by blast
  from n w obtain v where v: "rl_unavailable s = Inr v"
    and f: "sourceSnapshotFailure (rl_cache s) snap now (ro_expiryMarginSeconds (re_ladder env))
      (rl_maxSourceOffers (dl_limits (lp_derived push))) v = Inr None"
    by (auto simp: stale_reason_def split: if_splits sum.splits) (cases "rl_unavailable s"; auto)
  note h = snapshot_holds [OF c f]
  have "priced env t (rl_cache s) v (lp_priceLevels push)" using p unfolding priced_def h(2) .
  with h(1,3) v show ?thesis by (auto simp: unavailable_now_def)
qed simp

lemma inv_capabilities:
  assumes s: "relay_inv env s" and d: "derive_push env t s0 = Inr (push, sn)"
  shows "relay_inv env (capabilities_settled env sid push sn t cause sent now s)"
proof -
  have f: "relay_inv env (push_failed v s)" for v using s by (rule inv_push_failed)
  have "relay_inv env (snd (sendOn sid (lp_priceLevels push) now s))"
    if "\<not> rl_retired s" "stale_reason env push sn now s = None"
    using s published_fresh [OF d that(2)] that(1) by (auto simp: sendOn_def intro!: inv_mark)
  then show ?thesis
    using s inv_withdrawFailed [OF f inv_wire_failed [OF f]]
    by (auto simp: capabilities_settled_def Let_def case_prod_beta intro!: relay_keeps split: option.split)
qed

lemma inv_send_settled [relay_keeps]: "relay_inv env s \<Longrightarrow> relay_inv env (send_settled env ok now s)"
proof -
  assume s: "relay_inv env s"
  then have w: "wait_ok env (rl_inFlight s)" by (simp add: relay_inv_def)
  show ?thesis
  proof (cases "rl_inFlight s")
    case (Some x)
    show ?thesis
    proof (cases x)
      case (Awaiting_capabilities sid push sn t cause handed)
      with w Some obtain s0 where "derive_push env t s0 = Inr (push, sn)" by auto
      with s Some Awaiting_capabilities show ?thesis by (simp add: send_settled_def inv_capabilities)
    qed (use s Some in \<open>simp_all add: send_settled_def levels_settled_def relay_keeps\<close>)
  qed (use s in \<open>simp add: send_settled_def\<close>)
qed

lemma inv_failed_push_withdrawn [relay_keeps]:
  "relay_inv env s \<Longrightarrow> relay_inv env (failed_push_withdrawn sid requeue sent s)"
  by (auto simp: failed_push_withdrawn_def Let_def intro!: relay_keeps)

lemma inv_recordWithdrawal [relay_keeps]: "relay_inv env s \<Longrightarrow> relay_inv env (recordWithdrawal env' now s)"
  by (auto simp: recordWithdrawal_def intro!: relay_keeps split: sum.split)

lemma inv_withdrawal_ended [relay_keeps]: "relay_inv env s \<Longrightarrow> relay_inv env (withdrawal_ended env' now sent s)"
  by (simp add: withdrawal_ended_def Let_def relay_keeps)

lemma inv_withdraw_frames [relay_keeps]: "relay_inv env s \<Longrightarrow> relay_inv env (withdraw_frames_now env now s)"
  by (auto simp: withdraw_frames_now_def case_prod_beta dest: withdrawal_quiet
      intro!: relay_keeps inv_start_sender split: option.split sum.split)

lemma inv_withdraw [relay_keeps]:
  assumes "relay_inv env s"
  shows "relay_inv env (relay_withdraw env now s)"
proof -
  have "mark_relay Retired (s\<lparr>rl_retired := True, rl_pushTimer := False, rl_reconnectTimer := False\<rparr>)
      = (mark_relay Retired (s\<lparr>rl_retired := True\<rparr>))\<lparr>rl_pushTimer := False, rl_reconnectTimer := False\<rparr>"
    by (simp add: mark_relay_def)
  then have "relay_inv env (mark_relay Retired (s\<lparr>rl_retired := True, rl_pushTimer := False, rl_reconnectTimer := False\<rparr>))"
    using inv_retired [OF assms] by simp
  with assms show ?thesis by (simp add: relay_withdraw_def Let_def relay_keeps)
qed

lemma inv_withdrawal_resumes [relay_keeps]: "relay_inv env s \<Longrightarrow> relay_inv env (withdrawal_resumes env late now s)"
  by (simp add: withdrawal_resumes_def relay_keeps)

lemma inv_sender_ended [relay_keeps]:
  assumes "relay_inv env s"
  shows "relay_inv env (sender_ended env n sent now s)"
proof -
  have "relay_inv env (s\<lparr>rl_senders := (rl_senders s)[n := Sender_done]\<rparr>)"
    using assms by (intro inv_senders list_all_update) simp_all
  then show ?thesis
    unfolding sender_ended_def Let_def by (auto intro!: relay_keeps split: option.split push_wait.split)
qed

lemma inv_sender_settled [relay_keeps]:
  assumes s: "relay_inv env s"
  shows "relay_inv env (sender_settled env n ok now s)"
proof (cases "n < length (rl_senders s)")
  case True
  show ?thesis
  proof (cases "rl_senders s ! n")
    case (Sender_first sid second handed)
    have q: "sender_ok (rl_senders s ! n)" using True inv_senders_ok [OF s] by (simp add: list_all_length)
    have "relay_inv env (sender_socket sid frame now n s)" if "second = Some frame" for frame
    proof -
      have "relay_inv env (snd (sendOn sid frame now s))" using s q that Sender_first by (intro inv_sendOn) simp_all
      then show ?thesis by (auto simp: sender_socket_def case_prod_beta intro!: inv_senders list_all_update)
    qed
    with True s Sender_first show ?thesis by (auto simp: sender_settled_def intro!: relay_keeps split: option.split)
  qed (use True s in \<open>simp_all add: sender_settled_def relay_keeps\<close>)
qed (use s in \<open>simp add: sender_settled_def\<close>)

lemma inv_sender_late [relay_keeps]: "relay_inv env s \<Longrightarrow> relay_inv env (sender_late env n now s)"
  unfolding sender_late_def by (auto intro!: relay_keeps split: option.split push_wait.split)

lemma inv_answer_job [relay_keeps]: "relay_inv env s \<Longrightarrow> relay_inv env (answer_job k sid a kind s)"
  by (simp add: answer_job_def relay_keeps)

lemma inv_answer_settled [relay_keeps]: "relay_inv env s \<Longrightarrow> relay_inv env (answer_settled i ok s)"
  by (auto simp: answer_settled_def Let_def intro!: relay_keeps split: option.split)

lemma inv_refuse_job [relay_keeps]: "relay_inv env s \<Longrightarrow> relay_inv env (refuse_job k sid j s)"
  by (simp add: refuse_job_def sendJobError_def relay_keeps)

lemma inv_job_arrives [relay_keeps]: "relay_inv env s \<Longrightarrow> relay_inv env (job_arrives env' sid swap threw s)"
  by (simp add: job_arrives_def Let_def relay_keeps)

lemma inv_job_settled [relay_keeps]: "relay_inv env s \<Longrightarrow> relay_inv env (job_settled k response s)"
  by (auto simp: job_settled_def Let_def case_prod_beta intro!: relay_keeps split: option.split)

lemma inv_dispatch [relay_keeps]: "relay_inv env s \<Longrightarrow> relay_inv env (dispatchTerminal m s)"
  by (simp add: dispatchTerminal_def relay_keeps)

lemma inv_terminal_starts [relay_keeps]: "relay_inv env s \<Longrightarrow> relay_inv env (terminal_starts i s)"
  by (simp add: terminal_starts_def Let_def relay_keeps)

lemma inv_terminal_settled [relay_keeps]: "relay_inv env s \<Longrightarrow> relay_inv env (terminal_settled i ok s)"
  by (simp add: terminal_settled_def Let_def relay_keeps)

lemma inv_handleMessage [relay_keeps]: "relay_inv env s \<Longrightarrow> relay_inv env (handleMessage env' sid data threw s)"
  by (auto simp: handleMessage_def intro!: relay_keeps split: relay_data.split option.split)

lemma inv_scheduleTick [relay_keeps]: "relay_inv env s \<Longrightarrow> relay_inv env (scheduleTick s)"
  by (simp add: scheduleTick_def)

lemma inv_connect [relay_keeps]: "relay_inv env s \<Longrightarrow> relay_inv env (relay_connect opens s)"
  by (simp add: relay_connect_def Let_def relay_keeps)

lemma inv_socket [relay_keeps]:
  "relay_inv env s \<Longrightarrow> relay_inv env (socket_opened env sid now s)"
  "relay_inv env s \<Longrightarrow> relay_inv env (socket_message env' sid data threw s)"
  "relay_inv env s \<Longrightarrow> relay_inv env (socket_errored sid s)"
  "relay_inv env s \<Longrightarrow> relay_inv env (socket_closed sid s)"
  by (simp_all add: socket_opened_def socket_message_def socket_errored_def socket_closed_def relay_keeps)

lemma inv_timers [relay_keeps]:
  "relay_inv env s \<Longrightarrow> relay_inv env (connect_due s)"
  "relay_inv env s \<Longrightarrow> relay_inv env (reconnect_due opens s)"
  "relay_inv env s \<Longrightarrow> relay_inv env (tick_due env now s)"
  by (auto simp: connect_due_def reconnect_due_def tick_due_def Let_def intro!: relay_keeps split: option.split)

lemma inv_stop [relay_keeps]:
  "relay_inv env s \<Longrightarrow> relay_inv env (relay_stop env now s)"
  "relay_inv env s \<Longrightarrow> relay_inv env (stop_resumes s)"
  "relay_inv env s \<Longrightarrow> relay_inv env (stop_drained s)"
  by (auto simp: relay_stop_def stop_resumes_def stop_drained_def Let_def intro!: relay_keeps split: option.split)

lemma inv_relay_step: "relay_inv env s \<Longrightarrow> relay_inv env (relay_step env i s)"
  by (cases i) (simp_all add: relay_keeps)

lemma inv_run_relay: "relay_inv env s \<Longrightarrow> relay_inv env (run_relay env inputs s)"
  unfolding run_relay_def by (induction inputs arbitrary: s) (simp_all add: inv_relay_step)

lemma inv_started: "relay_inv env (relay_connect opens (fresh_client cache unavailable callback answer))"
  by (rule inv_connect) (simp add: relay_inv_def fresh_client_def since_retired_def)

section \<open>Jobs and terminal messages\<close>

text \<open>What the jobs and the terminal callbacks are: the steps of the push loop leave it alone.\<close>

fun handover_mark :: "relay_mark \<Rightarrow> bool" where
  "handover_mark (Job_delivered k sid j) = True"
| "handover_mark (Job_answered k sid a socket ready) = True"
| "handover_mark (Job_unanswered k sid socket ready) = True"
| "handover_mark (Terminal_arrived m) = True"
| "handover_mark (Terminal_called m) = True"
| "handover_mark (Terminal_settled m) = True"
| "handover_mark _ = False"

type_synonym handover_view = "(nat \<times> string \<times> bool) list \<times> (terminal_message \<times> bool) list \<times> relay_mark list"

definition relay_view :: "relay_client \<Rightarrow> handover_view" where
  "relay_view s = (rl_jobs s, rl_terminals s, filter handover_mark (rl_trace s))"

lemma view_fields [simp]:
  "relay_view (s\<lparr>rl_created := x0\<rparr>) = relay_view s"
  "relay_view (s\<lparr>rl_socket := x1\<rparr>) = relay_view s"
  "relay_view (s\<lparr>rl_ready := x2\<rparr>) = relay_view s"
  "relay_view (s\<lparr>rl_connectTimer := x3\<rparr>) = relay_view s"
  "relay_view (s\<lparr>rl_reconnectTimer := x4\<rparr>) = relay_view s"
  "relay_view (s\<lparr>rl_pushTimer := x5\<rparr>) = relay_view s"
  "relay_view (s\<lparr>rl_retired := x6\<rparr>) = relay_view s"
  "relay_view (s\<lparr>rl_inFlight := x7\<rparr>) = relay_view s"
  "relay_view (s\<lparr>rl_queued := x8\<rparr>) = relay_view s"
  "relay_view (s\<lparr>rl_senders := x9\<rparr>) = relay_view s"
  "relay_view (s\<lparr>rl_answers := x27\<rparr>) = relay_view s"
  "relay_view (s\<lparr>rl_withdrawing := x10\<rparr>) = relay_view s"
  "relay_view (s\<lparr>rl_stopping := x11\<rparr>) = relay_view s"
  "relay_view (s\<lparr>rl_lastTruncation := x12\<rparr>) = relay_view s"
  "relay_view (s\<lparr>rl_lastResource := x13\<rparr>) = relay_view s"
  "relay_view (s\<lparr>rl_lastCurrent := x14\<rparr>) = relay_view s"
  "relay_view (s\<lparr>rl_lastPush := x15\<rparr>) = relay_view s"
  "relay_view (s\<lparr>rl_connected := x16\<rparr>) = relay_view s"
  "relay_view (s\<lparr>rl_connections := x17\<rparr>) = relay_view s"
  "relay_view (s\<lparr>rl_pushes := x18\<rparr>) = relay_view s"
  "relay_view (s\<lparr>rl_coalesced := x19\<rparr>) = relay_view s"
  "relay_view (s\<lparr>rl_pushFailures := x20\<rparr>) = relay_view s"
  "relay_view (s\<lparr>rl_withdrawn := x21\<rparr>) = relay_view s"
  "relay_view (s\<lparr>rl_stopped := x22\<rparr>) = relay_view s"
  "relay_view (s\<lparr>rl_cache := x23\<rparr>) = relay_view s"
  "relay_view (s\<lparr>rl_unavailable := x24\<rparr>) = relay_view s"
  "relay_view (s\<lparr>rl_abortCallback := x25\<rparr>) = relay_view s"
  "relay_view (s\<lparr>rl_abortNow := x26\<rparr>) = relay_view s"
  by (simp_all add: relay_view_def)

lemma view_mark [simp]: "\<not> handover_mark m \<Longrightarrow> relay_view (mark_relay m s) = relay_view s"
  by (simp add: relay_view_def mark_relay_def)

lemma view_plain [simp]:
  "relay_view (emit_event k v s) = relay_view s"
  "relay_view (recordPush push t cause s) = relay_view s"
  "relay_view (scheduleReconnect s) = relay_view s"
  "relay_view (handleClosed s) = relay_view s"
  "relay_view (closeSocketGeneration sid s) = relay_view s"
  "relay_view (snd (sendOn sid frame now s)) = relay_view s"
  "relay_view (push_failed v s) = relay_view s"
  "relay_view (push_returned s) = relay_view s"
  "relay_view (push_over s) = relay_view s"
  by (simp_all add: emit_event_def recordPush_def scheduleReconnect_def handleClosed_def closeSocketGeneration_def sendOn_def
      push_failed_def push_returned_def push_over_def Let_def split: option.split)

lemma view_sender [simp]: "relay_view (snd (start_sender sid first second now s)) = relay_view s"
  by (simp add: start_sender_def Let_def case_prod_beta)

lemma view_more [simp]:
  "relay_view (loop_threw s) = relay_view s"
  "relay_view (wire_failed sid s) = relay_view s"
  "relay_view (reportCurrentness push s) = relay_view s"
  "relay_view (reportTruncation ex s) = relay_view s"
  "relay_view (reportResourceLimits push s) = relay_view s"
  by (simp_all add: loop_threw_def wire_failed_def reportCurrentness_def reportTruncation_def reportResourceLimits_def Let_def)

lemma view_withdrawFailed:
  assumes "relay_view s' = relay_view s"
  shows "relay_view (or_threw (withdrawFailedPush env sid w reason t cause levelsFirst requeue now s) s') = relay_view s"
  using assms by (simp add: withdrawFailedPush_def or_threw_def Let_def case_prod_beta split: sum.split)

lemma view_report [simp]: "relay_view (report_push push t cause s) = relay_view s"
  by (simp add: report_push_def)

lemma view_runPush [simp]: "relay_view (runPush env cause now s) = relay_view s"
  by (simp add: runPush_def Let_def case_prod_beta view_withdrawFailed split: option.split sum.split)

lemma view_push [simp]:
  "relay_view (requestPush env cause now s) = relay_view s"
  "relay_view (push_turn env now s) = relay_view s"
  by (simp_all add: requestPush_def push_turn_def)

lemma view_settled [simp]:
  "relay_view (capabilities_settled env sid push sn t cause sent now s) = relay_view s"
  "relay_view (levels_settled sid sent s) = relay_view s"
  "relay_view (failed_push_withdrawn sid requeue sent s) = relay_view s"
  by (simp_all add: capabilities_settled_def levels_settled_def failed_push_withdrawn_def Let_def case_prod_beta
      view_withdrawFailed split: option.split)

lemma view_send_settled [simp]: "relay_view (send_settled env ok now s) = relay_view s"
  by (simp add: send_settled_def split: option.split push_wait.split)

lemma view_withdrawal [simp]:
  "relay_view (recordWithdrawal env now s) = relay_view s"
  "relay_view (withdrawal_ended env now sent s) = relay_view s"
  by (simp_all add: recordWithdrawal_def withdrawal_ended_def Let_def split: sum.split)

lemma view_withdraw_frames [simp]: "relay_view (withdraw_frames_now env now s) = relay_view s"
  by (simp add: withdraw_frames_now_def case_prod_beta split: option.split sum.split)

lemma view_withdraw [simp]:
  "relay_view (relay_withdraw env now s) = relay_view s"
  "relay_view (withdrawal_resumes env late now s) = relay_view s"
  by (simp_all add: relay_withdraw_def withdrawal_resumes_def Let_def)

lemma view_senders [simp]:
  "relay_view (sender_ended env n sent now s) = relay_view s"
  "relay_view (sender_socket sid second now n s) = relay_view s"
  "relay_view (sender_late env n now s) = relay_view s"
  unfolding sender_ended_def sender_socket_def sender_late_def Let_def case_prod_beta
  by (simp_all split: option.split push_wait.split)

lemma view_sender_settled [simp]: "relay_view (sender_settled env n ok now s) = relay_view s"
  by (simp add: sender_settled_def split: sender.split option.split)

lemma view_answer_settled [simp]: "relay_view (answer_settled i ok s) = relay_view s"
  by (simp add: answer_settled_def Let_def split: option.split)

lemma view_connection [simp]:
  "relay_view (scheduleTick s) = relay_view s"
  "relay_view (relay_connect opens s) = relay_view s"
  "relay_view (socket_errored sid s) = relay_view s"
  "relay_view (socket_closed sid s) = relay_view s"
  "relay_view (connect_due s) = relay_view s"
  by (simp_all add: scheduleTick_def relay_connect_def socket_errored_def socket_closed_def connect_due_def Let_def
      split: option.split)

lemma view_timers [simp]:
  "relay_view (socket_opened env sid now s) = relay_view s"
  "relay_view (reconnect_due opens s) = relay_view s"
  "relay_view (tick_due env now s) = relay_view s"
  "relay_view (relay_stop env now s) = relay_view s"
  "relay_view (stop_resumes s) = relay_view s"
  "relay_view (stop_drained s) = relay_view s"
  by (simp_all add: socket_opened_def reconnect_due_def tick_due_def relay_stop_def stop_resumes_def stop_drained_def Let_def
      split: option.split)

text \<open>The marks that close a job, and whether one closes it as it should.\<close>

fun closed_job :: "relay_mark \<Rightarrow> nat option" where
  "closed_job (Job_answered k sid a socket ready) = Some k"
| "closed_job (Job_unanswered k sid socket ready) = Some k"
| "closed_job _ = None"

fun closes :: "nat \<Rightarrow> string \<Rightarrow> relay_mark \<Rightarrow> bool" where
  "closes sid jobId (Job_answered k sid' a socket ready) \<longleftrightarrow> sid' = sid \<and> answer_jobId a = jobId \<and> socket = Some sid \<and> ready"
| "closes sid jobId (Job_unanswered k sid' socket ready) \<longleftrightarrow> sid' = sid \<and> (socket \<noteq> Some sid \<or> \<not> ready)"
| "closes sid jobId _ \<longleftrightarrow> False"

definition closings :: "nat \<Rightarrow> relay_mark list \<Rightarrow> relay_mark list" where
  "closings k tr = filter (\<lambda>m. closed_job m = Some k) tr"

fun delivery :: "relay_mark \<Rightarrow> (nat \<times> nat \<times> string) option" where
  "delivery (Job_delivered k sid jobId) = Some (k, sid, jobId)"
| "delivery _ = None"

definition deliveries :: "relay_mark list \<Rightarrow> (nat \<times> nat \<times> string) list" where
  "deliveries tr = List.map_filter delivery tr"

text \<open>A job whose handler is still running is not closed; any other is closed exactly once: by one
  answer for it, handed to the socket that delivered it while that was the client's open socket, or by
  none, when it was no longer.\<close>

definition job_served :: "nat \<times> string \<times> bool \<Rightarrow> relay_mark list \<Rightarrow> bool" where
  "job_served job marks = (case job of (sid, jobId, pending) \<Rightarrow>
     if pending then marks = [] else length marks = 1 \<and> closes sid jobId (hd marks))"

definition jobs_inv :: "(nat \<times> string \<times> bool) list \<Rightarrow> relay_mark list \<Rightarrow> bool" where
  "jobs_inv jobs tr \<longleftrightarrow> deliveries tr = map (\<lambda>k. (k, fst (jobs ! k), fst (snd (jobs ! k)))) [0..<length jobs]
     \<and> (\<forall>k < length jobs. job_served (jobs ! k) (closings k tr)) \<and> (\<forall>k \<ge> length jobs. closings k tr = [])"

fun arrived_message :: "relay_mark \<Rightarrow> terminal_message option" where
  "arrived_message (Terminal_arrived m) = Some m" | "arrived_message _ = None"

fun called_message :: "relay_mark \<Rightarrow> terminal_message option" where
  "called_message (Terminal_called m) = Some m" | "called_message _ = None"

fun settled_message :: "relay_mark \<Rightarrow> terminal_message option" where
  "settled_message (Terminal_settled m) = Some m" | "settled_message _ = None"

definition of_job :: "string \<Rightarrow> (relay_mark \<Rightarrow> terminal_message option) \<Rightarrow> relay_mark list \<Rightarrow> terminal_message list" where
  "of_job j f tr = filter (\<lambda>m. terminal_jobId m = j) (List.map_filter f tr)"

abbreviation chain :: "string \<Rightarrow> (terminal_message \<times> bool) list \<Rightarrow> (terminal_message \<times> bool) list" where
  "chain j ts \<equiv> filter (\<lambda>t. terminal_jobId (fst t) = j) ts"

definition terms_inv :: "(terminal_message \<times> bool) list \<Rightarrow> relay_mark list \<Rightarrow> bool" where
  "terms_inv ts tr \<longleftrightarrow> (\<forall>j. of_job j arrived_message tr = of_job j settled_message tr @ map fst (chain j ts)
     \<and> of_job j called_message tr = of_job j settled_message tr @ map fst (filter snd (chain j ts))
     \<and> list_all (\<lambda>t. \<not> snd t) (tl (chain j ts)))"

fun view_inv :: "handover_view \<Rightarrow> bool" where
  "view_inv (jobs, ts, tr) \<longleftrightarrow> jobs_inv jobs tr \<and> terms_inv ts tr"

lemma closings_snoc [simp]: "closings k (tr @ [m]) = closings k tr @ (if closed_job m = Some k then [m] else [])"
  by (simp add: closings_def)

lemma map_filter_app: "List.map_filter f (xs @ ys) = List.map_filter f xs @ List.map_filter f ys"
  by (simp add: List.map_filter_def)

lemma map_filter_snoc: "List.map_filter f (xs @ [x]) = List.map_filter f xs @ (case f x of None \<Rightarrow> [] | Some y \<Rightarrow> [y])"
  by (simp add: List.map_filter_def split: option.split)

lemma deliveries_snoc [simp]: "deliveries (tr @ [m]) = deliveries tr @ (case delivery m of None \<Rightarrow> [] | Some d \<Rightarrow> [d])"
  by (simp add: deliveries_def map_filter_snoc)

lemma of_job_snoc [simp]:
  "of_job j f (tr @ [m]) = of_job j f tr @ (case f m of None \<Rightarrow> [] | Some x \<Rightarrow> if terminal_jobId x = j then [x] else [])"
  by (simp add: of_job_def map_filter_snoc split: option.split)

lemma terms_other: "terms_inv ts tr \<Longrightarrow> arrived_message m = None \<Longrightarrow> called_message m = None \<Longrightarrow> settled_message m = None
    \<Longrightarrow> terms_inv ts (tr @ [m])"
  by (simp add: terms_inv_def)

lemma jobs_other: "jobs_inv jobs tr \<Longrightarrow> delivery m = None \<Longrightarrow> closed_job m = None \<Longrightarrow> jobs_inv jobs (tr @ [m])"
  by (simp add: jobs_inv_def)

lemma closed_not_message: "closed_job m = Some k \<Longrightarrow>
    delivery m = None \<and> arrived_message m = None \<and> called_message m = None \<and> settled_message m = None"
  by (cases m) auto

lemma jobs_delivered:
  assumes "jobs_inv jobs tr"
  shows "jobs_inv (jobs @ [(sid, j, True)]) (tr @ [Job_delivered (length jobs) sid j])"
  using assms by (auto simp: jobs_inv_def nth_append job_served_def less_Suc_eq)

lemma jobs_closed:
  assumes "jobs_inv jobs tr" "k < length jobs" "jobs ! k = (sid, j, True)" "closed_job m = Some k" "closes sid j m"
  shows "jobs_inv (jobs[k := (sid, j, False)]) (tr @ [m])"
proof -
  have "closings k tr = []" using assms(1-3) by (auto simp: jobs_inv_def job_served_def)
  moreover have "map (\<lambda>i. (i, fst (jobs[k := (sid, j, False)] ! i), fst (snd (jobs[k := (sid, j, False)] ! i)))) [0..<length jobs]
      = map (\<lambda>i. (i, fst (jobs ! i), fst (snd (jobs ! i)))) [0..<length jobs]"
  proof (rule map_cong [OF refl])
    fix x assume "x \<in> set [0..<length jobs]"
    with assms(2,3) show "(x, fst (jobs[k := (sid, j, False)] ! x), fst (snd (jobs[k := (sid, j, False)] ! x)))
        = (x, fst (jobs ! x), fst (snd (jobs ! x)))" by (cases "x = k") simp_all
  qed
  ultimately show ?thesis
    using assms closed_not_message [OF assms(4)] by (auto simp: jobs_inv_def job_served_def nth_list_update)
qed

lemma answer_job_view:
  "\<exists>m. relay_view (answer_job k sid a kind s) = (rl_jobs s, rl_terminals s, filter handover_mark (rl_trace s) @ [m])
     \<and> closed_job m = Some k \<and> closes sid (answer_jobId a) m"
proof (cases "rl_socket s \<noteq> Some sid \<or> \<not> isOpen s")
  case True
  then show ?thesis
    by (intro exI [of _ "Job_unanswered k sid (rl_socket s) (isOpen s)"])
       (auto simp: answer_job_def relay_view_def mark_relay_def emit_event_def)
next
  case False
  then show ?thesis
    by (intro exI [of _ "Job_answered k sid a (rl_socket s) (isOpen s)"]) (auto simp: answer_job_def relay_view_def mark_relay_def)
qed

lemma refuse_job_view:
  "\<exists>m. relay_view (refuse_job k sid jobId s) = (rl_jobs s, rl_terminals s, filter handover_mark (rl_trace s) @ [m])
     \<and> closed_job m = Some k \<and> closes sid jobId m"
  using answer_job_view [of k sid "Answer_job_error \<lparr>je_jobId = jobId, je_reason = JOB_EXECUTION_UNAVAILABLE\<rparr>"
      Ev_message_refused "emit_event Ev_job_refused Sev_error s"]
  by (auto simp: refuse_job_def sendJobError_def emit_event_def mark_relay_def)

lemma job_arrives_inv:
  assumes "view_inv (relay_view s)"
  shows "view_inv (relay_view (job_arrives env sid swap threw s))"
proof -
  let ?k = "length (rl_jobs s)" and ?j = "sw_jobId swap" and ?tr = "filter handover_mark (rl_trace s)"
  let ?p = "re_executesJobs env \<and> \<not> threw"
  let ?s = "mark_relay (Job_delivered ?k sid ?j) (s\<lparr>rl_jobs := rl_jobs s @ [(sid, ?j, ?p)]\<rparr>)"
  have d: "jobs_inv (rl_jobs s @ [(sid, ?j, True)]) (?tr @ [Job_delivered ?k sid ?j])"
    using assms by (simp add: relay_view_def jobs_delivered)
  have t: "terms_inv (rl_terminals s) (?tr @ [Job_delivered ?k sid ?j])"
    using assms by (simp add: relay_view_def terms_other)
  show ?thesis
  proof (cases ?p)
    case True
    with d t show ?thesis by (simp add: job_arrives_def Let_def relay_view_def mark_relay_def)
  next
    case False
    obtain m where m: "relay_view (refuse_job ?k sid ?j ?s) = (rl_jobs ?s, rl_terminals ?s, filter handover_mark (rl_trace ?s) @ [m])"
      "closed_job m = Some ?k" "closes sid ?j m" using refuse_job_view by blast
    have "jobs_inv ((rl_jobs s @ [(sid, ?j, True)])[?k := (sid, ?j, False)]) (?tr @ [Job_delivered ?k sid ?j] @ [m])"
      using jobs_closed [OF d _ _ m(2,3)] by simp
    moreover have "terms_inv (rl_terminals s) (?tr @ [Job_delivered ?k sid ?j] @ [m])"
      using terms_other [OF t] closed_not_message [OF m(2)] by simp
    ultimately show ?thesis using False m(1)
      by (auto simp: job_arrives_def Let_def mark_relay_def)
  qed
qed

lemma job_settled_inv:
  assumes "view_inv (relay_view s)"
  shows "view_inv (relay_view (job_settled k response s))"
proof (cases "k < length (rl_jobs s) \<and> snd (snd (rl_jobs s ! k))")
  case True
  then obtain sid j where j: "rl_jobs s ! k = (sid, j, True)" by (metis prod.collapse)
  let ?s = "s\<lparr>rl_jobs := (rl_jobs s)[k := (sid, j, False)]\<rparr>" and ?tr = "filter handover_mark (rl_trace s)"
  have "\<exists>m. relay_view (job_settled k response s) = (rl_jobs ?s, rl_terminals ?s, filter handover_mark (rl_trace ?s) @ [m])
      \<and> closed_job m = Some k \<and> closes sid j m"
    using True j refuse_job_view [of k sid j ?s] answer_job_view [of k sid _ Ev_job_refused ?s]
    by (fastforce simp: job_settled_def Let_def split: option.split)
  then obtain m where m: "relay_view (job_settled k response s) = ((rl_jobs s)[k := (sid, j, False)], rl_terminals s, ?tr @ [m])"
    "closed_job m = Some k" "closes sid j m" by auto
  have "jobs_inv (rl_jobs s) ?tr" "terms_inv (rl_terminals s) ?tr" using assms by (simp_all add: relay_view_def)
  with m(2,3) j True closed_not_message [OF m(2)] show ?thesis
    unfolding m(1) by (simp add: jobs_closed terms_other)
next
  case False
  with assms show ?thesis by (auto simp: job_settled_def case_prod_beta)
qed

lemma dispatch_inv: "view_inv (relay_view s) \<Longrightarrow> view_inv (relay_view (dispatchTerminal m s))"
proof -
  assume v: "view_inv (relay_view s)"
  have tl: "list_all (\<lambda>t. \<not> snd t) (tl (xs @ [(m, False)]))" if "list_all (\<lambda>t. \<not> snd t) (tl xs)" for xs :: "(terminal_message \<times> bool) list"
    using that by (cases xs) auto
  have "terms_inv (rl_terminals s @ [(m, False)]) (filter handover_mark (rl_trace s) @ [Terminal_arrived m])"
    using v tl by (simp add: relay_view_def terms_inv_def)
  with v show ?thesis by (simp add: dispatchTerminal_def relay_view_def mark_relay_def jobs_other)
qed

lemma no_earlier: "list_all (\<lambda>(m, _). terminal_jobId m \<noteq> j) ts \<Longrightarrow> chain j ts = []"
  by (auto simp: list_all_iff filter_empty_conv)

lemma starts_inv: "view_inv (relay_view s) \<Longrightarrow> view_inv (relay_view (terminal_starts i s))"
proof (cases "terminal_may_start s i")
  case True
  assume v: "view_inv (relay_view s)"
  let ?ts = "rl_terminals s" and ?tr = "filter handover_mark (rl_trace s)"
  obtain m where m: "?ts ! i = (m, False)" using True by (metis terminal_may_start_def prod.collapse)
  have i: "i < length ?ts" using True by (simp add: terminal_may_start_def)
  define pre post where "pre = take i ?ts" and "post = drop (Suc i) ?ts"
  have ts: "?ts = pre @ (m, False) # post" using id_take_nth_drop [OF i] m by (simp add: pre_def post_def)
  have up: "?ts[i := (m, True)] = pre @ (m, True) # post"
    using upd_conv_take_nth_drop [OF i] by (simp add: pre_def post_def)
  have e: "chain (terminal_jobId m) pre = []"
    using True m by (intro no_earlier) (simp add: terminal_may_start_def pre_def)
  have t: "terms_inv (pre @ (m, False) # post) ?tr" using v ts by (simp add: relay_view_def)
  have "terms_inv (pre @ (m, True) # post) (?tr @ [Terminal_called m])"
    unfolding terms_inv_def
  proof
    fix j
    note tj = t [unfolded terms_inv_def, rule_format, of j]
    show "of_job j arrived_message (?tr @ [Terminal_called m])
          = of_job j settled_message (?tr @ [Terminal_called m]) @ map fst (chain j (pre @ (m, True) # post))
        \<and> of_job j called_message (?tr @ [Terminal_called m])
          = of_job j settled_message (?tr @ [Terminal_called m]) @ map fst (filter snd (chain j (pre @ (m, True) # post)))
        \<and> list_all (\<lambda>t. \<not> snd t) (tl (chain j (pre @ (m, True) # post)))"
    proof (cases "terminal_jobId m = j")
      case True
      with e tj have np: "list_all (\<lambda>t. \<not> snd t) (chain j post)" by simp
      then have "filter snd (chain j post) = []" by (simp only: list_all_iff filter_empty_conv)
      with True e tj np show ?thesis by (simp del: filter_filter)
    next
      case False
      with tj show ?thesis by simp
    qed
  qed
  with v True m show ?thesis
    by (simp add: terminal_starts_def Let_def relay_view_def mark_relay_def jobs_other up)
next
  case False
  assume "view_inv (relay_view s)"
  with False show ?thesis by (simp add: terminal_starts_def)
qed

lemma settles_inv: "view_inv (relay_view s) \<Longrightarrow> view_inv (relay_view (terminal_settled i ok s))"
proof (cases "i < length (rl_terminals s) \<and> snd (rl_terminals s ! i)")
  case True
  assume v: "view_inv (relay_view s)"
  let ?ts = "rl_terminals s" and ?tr = "filter handover_mark (rl_trace s)"
  obtain m where m: "?ts ! i = (m, True)" using True by (metis prod.collapse)
  define pre post where "pre = take i ?ts" and "post = drop (Suc i) ?ts"
  have ts: "?ts = pre @ (m, True) # post" using id_take_nth_drop [of i ?ts] True m by (simp add: pre_def post_def)
  have t: "terms_inv (pre @ (m, True) # post) ?tr" using v ts by (simp add: relay_view_def)
  have e: "chain (terminal_jobId m) pre = []"
    using t [unfolded terms_inv_def, rule_format, of "terminal_jobId m"] by (cases "chain (terminal_jobId m) pre") auto
  have "terms_inv (pre @ post) (?tr @ [Terminal_settled m])"
    unfolding terms_inv_def
  proof
    fix j
    note tj = t [unfolded terms_inv_def, rule_format, of j]
    show "of_job j arrived_message (?tr @ [Terminal_settled m])
          = of_job j settled_message (?tr @ [Terminal_settled m]) @ map fst (chain j (pre @ post))
        \<and> of_job j called_message (?tr @ [Terminal_settled m])
          = of_job j settled_message (?tr @ [Terminal_settled m]) @ map fst (filter snd (chain j (pre @ post)))
        \<and> list_all (\<lambda>t. \<not> snd t) (tl (chain j (pre @ post)))"
    proof (cases "terminal_jobId m = j")
      case True
      with e tj have np: "list_all (\<lambda>t. \<not> snd t) (chain j post)" by simp
      then have "list_all (\<lambda>t. \<not> snd t) (tl (chain j post))" by (cases "chain j post") simp_all
      with True e tj show ?thesis by simp
    next
      case False
      with tj show ?thesis by simp
    qed
  qed
  with v True m show ?thesis
    by (simp add: terminal_settled_def Let_def relay_view_def mark_relay_def emit_event_def jobs_other pre_def post_def)
next
  case False
  assume "view_inv (relay_view s)"
  with False show ?thesis by (auto simp: terminal_settled_def)
qed

lemma message_inv: "view_inv (relay_view s) \<Longrightarrow> view_inv (relay_view (handleMessage env sid data threw s))"
  unfolding handleMessage_def
  by (simp add: job_arrives_inv dispatch_inv split: relay_data.split option.split del: view_inv.simps)

lemma view_relay_step: "view_inv (relay_view s) \<Longrightarrow> view_inv (relay_view (relay_step env i s))"
  by (cases i) (simp_all add: socket_message_def message_inv job_settled_inv starts_inv settles_inv del: view_inv.simps)

lemma view_run_relay: "view_inv (relay_view s) \<Longrightarrow> view_inv (relay_view (run_relay env inputs s))"
  unfolding run_relay_def by (induction inputs arbitrary: s) (simp_all add: view_relay_step del: view_inv.simps)

lemma view_started: "view_inv (relay_view (relay_connect opens (fresh_client cache unavailable callback answer)))"
  unfolding view_connection
  by (simp add: relay_view_def fresh_client_def jobs_inv_def terms_inv_def deliveries_def closings_def of_job_def
      List.map_filter_def)

text \<open>The view and the whole trace say the same of jobs and terminal messages.\<close>

lemma closings_view [simp]: "closings k (filter handover_mark tr) = closings k tr"
proof -
  have "handover_mark m" if "closed_job m = Some k" for m using that by (cases m) auto
  then show ?thesis unfolding closings_def filter_filter by (metis (mono_tags, lifting))
qed

lemma map_filter_view:
  assumes "\<And>m. f m \<noteq> None \<Longrightarrow> handover_mark m"
  shows "List.map_filter f (filter handover_mark tr) = List.map_filter f tr"
proof -
  have "filter (\<lambda>m. f m \<noteq> None) (filter handover_mark tr) = filter (\<lambda>m. f m \<noteq> None) tr"
    unfolding filter_filter using assms by (metis (mono_tags, lifting))
  then show ?thesis by (simp only: List.map_filter_def)
qed

lemma deliveries_view [simp]: "deliveries (filter handover_mark tr) = deliveries tr"
proof -
  have "handover_mark m" if "delivery m \<noteq> None" for m using that by (cases m) auto
  then show ?thesis unfolding deliveries_def by (rule map_filter_view)
qed

lemma handover_messages:
  "arrived_message m \<noteq> None \<Longrightarrow> handover_mark m"
  "called_message m \<noteq> None \<Longrightarrow> handover_mark m"
  "settled_message m \<noteq> None \<Longrightarrow> handover_mark m"
  by (cases m; simp)+

lemma of_job_view [simp]:
  "of_job j arrived_message (filter handover_mark tr) = of_job j arrived_message tr"
  "of_job j called_message (filter handover_mark tr) = of_job j called_message tr"
  "of_job j settled_message (filter handover_mark tr) = of_job j settled_message tr"
  unfolding of_job_def
  by (rule arg_cong [OF map_filter_view], erule handover_messages)+

section \<open>A push that nothing disturbs\<close>

fun ladder_frame :: "relay_mark \<Rightarrow> (nat \<times> json) option" where
  "ladder_frame (Ladder_frame sid frame cache unavailable now) = Some (sid, frame)"
| "ladder_frame _ = None"

definition ladder_frames :: "relay_client \<Rightarrow> (nat \<times> json) list" where
  "ladder_frames s = List.map_filter ladder_frame (rl_trace s)"

lemma ladder_frames_plain [simp]:
  "ladder_frames (emit_event k v s) = ladder_frames s"
  "ladder_frames (recordPush push t cause s) = ladder_frames s"
  by (simp_all add: ladder_frames_def emit_event_def recordPush_def mark_relay_def map_filter_app map_filter_simps)

lemma ladder_frames_fields [simp]:
  "ladder_frames (s\<lparr>rl_lastCurrent := a\<rparr>) = ladder_frames s"
  "ladder_frames (s\<lparr>rl_lastTruncation := b\<rparr>) = ladder_frames s"
  "ladder_frames (s\<lparr>rl_lastResource := c\<rparr>) = ladder_frames s"
  by (simp_all add: ladder_frames_def)

lemma emit_fields [simp]:
  "rl_socket (emit_event k v s) = rl_socket s"
  "rl_ready (emit_event k v s) = rl_ready s"
  "rl_retired (emit_event k v s) = rl_retired s"
  "rl_cache (emit_event k v s) = rl_cache s"
  "rl_unavailable (emit_event k v s) = rl_unavailable s"
  "rl_abortNow (emit_event k v s) = rl_abortNow s"
  "rl_pushes (emit_event k v s) = rl_pushes s"
  "rl_queued (emit_event k v s) = rl_queued s"
  by (simp_all add: emit_event_def mark_relay_def)

lemma record_fields [simp]:
  "rl_socket (recordPush push t cause s) = rl_socket s"
  "rl_ready (recordPush push t cause s) = rl_ready s"
  "rl_retired (recordPush push t cause s) = rl_retired s"
  "rl_cache (recordPush push t cause s) = rl_cache s"
  "rl_unavailable (recordPush push t cause s) = rl_unavailable s"
  "rl_abortNow (recordPush push t cause s) = rl_abortNow s"
  "rl_pushes (recordPush push t cause s) = rl_pushes s"
  "rl_queued (recordPush push t cause s) = rl_queued s"
  by (simp_all add: recordPush_def mark_relay_def)

lemma currentness_fields [simp]:
  "rl_socket (reportCurrentness push s) = rl_socket s"
  "rl_ready (reportCurrentness push s) = rl_ready s"
  "rl_retired (reportCurrentness push s) = rl_retired s"
  "rl_cache (reportCurrentness push s) = rl_cache s"
  "rl_unavailable (reportCurrentness push s) = rl_unavailable s"
  "rl_abortNow (reportCurrentness push s) = rl_abortNow s"
  "rl_pushes (reportCurrentness push s) = rl_pushes s"
  "rl_queued (reportCurrentness push s) = rl_queued s"
  "ladder_frames (reportCurrentness push s) = ladder_frames s"
  by (simp_all add: reportCurrentness_def Let_def)

lemma truncation_fields [simp]:
  "rl_socket (reportTruncation ex s) = rl_socket s"
  "rl_ready (reportTruncation ex s) = rl_ready s"
  "rl_retired (reportTruncation ex s) = rl_retired s"
  "rl_cache (reportTruncation ex s) = rl_cache s"
  "rl_unavailable (reportTruncation ex s) = rl_unavailable s"
  "rl_abortNow (reportTruncation ex s) = rl_abortNow s"
  "rl_pushes (reportTruncation ex s) = rl_pushes s"
  "rl_queued (reportTruncation ex s) = rl_queued s"
  "ladder_frames (reportTruncation ex s) = ladder_frames s"
  by (simp_all add: reportTruncation_def Let_def)

lemma limits_fields [simp]:
  "rl_socket (reportResourceLimits push s) = rl_socket s"
  "rl_ready (reportResourceLimits push s) = rl_ready s"
  "rl_retired (reportResourceLimits push s) = rl_retired s"
  "rl_cache (reportResourceLimits push s) = rl_cache s"
  "rl_unavailable (reportResourceLimits push s) = rl_unavailable s"
  "rl_abortNow (reportResourceLimits push s) = rl_abortNow s"
  "rl_pushes (reportResourceLimits push s) = rl_pushes s"
  "rl_queued (reportResourceLimits push s) = rl_queued s"
  "ladder_frames (reportResourceLimits push s) = ladder_frames s"
  by (simp_all add: reportResourceLimits_def Let_def)

lemma report_push_fields [simp]:
  "rl_socket (report_push push t cause s) = rl_socket s"
  "rl_ready (report_push push t cause s) = rl_ready s"
  "rl_retired (report_push push t cause s) = rl_retired s"
  "rl_cache (report_push push t cause s) = rl_cache s"
  "rl_unavailable (report_push push t cause s) = rl_unavailable s"
  "rl_abortNow (report_push push t cause s) = rl_abortNow s"
  "rl_pushes (report_push push t cause s) = rl_pushes s"
  "rl_queued (report_push push t cause s) = rl_queued s"
  "ladder_frames (report_push push t cause s) = ladder_frames s"
  by (simp_all add: report_push_def)

lemma stale_cong:
  "rl_cache s = rl_cache s' \<Longrightarrow> rl_unavailable s = rl_unavailable s' \<Longrightarrow> rl_abortNow s = rl_abortNow s' \<Longrightarrow>
     stale_reason env push sn now s = stale_reason env push sn now s'"
  by (simp only: stale_reason_def)

section \<open>Properties\<close>

text \<open>
  C2: in every interleaving of callbacks, timers, settled sends and changes of the cache, a
  frame of levels handed to a relay socket is empty, or the cache is current at that moment and every
  pair in it quotes the best payout any admissible set of the offers then in the book can make, none
  of which has reached the settlement margin since the ladder was derived.
\<close>

theorem relay_ladders_fresh:
  "list_all (fresh_frame env)
     (rl_trace (run_relay env inputs (relay_connect opens (fresh_client cache unavailable callback answer))))"
  using inv_run_relay [OF inv_started] by (simp add: relay_inv_def)

text \<open>
  C6: once \<open>withdraw\<close> or \<open>stop\<close> has been called no frame with a ladder in it is handed
  to any socket, whatever push was in flight and whatever reconnects, timers and late sends follow.
\<close>

theorem relay_silent_when_retired:
  "list_all quiet_mark (since_retired
     (rl_trace (run_relay env inputs (relay_connect opens (fresh_client cache unavailable callback answer)))))"
  using inv_run_relay [OF inv_started] by (simp add: relay_inv_def)

text \<open>
  C7: every swap job delivered is closed exactly once when its handler has settled, and not
  before: by one answer that names it, handed to the very socket that delivered it while that socket is
  the client's current, open one; or by no answer, and only when that socket is no longer the client's
  current, open one.
\<close>

theorem relay_jobs_served:
  "let s = run_relay env inputs (relay_connect opens (fresh_client cache unavailable callback answer))
   in deliveries (rl_trace s) = map (\<lambda>k. (k, fst (rl_jobs s ! k), fst (snd (rl_jobs s ! k)))) [0..<length (rl_jobs s)]
      \<and> list_all (\<lambda>k. job_served (rl_jobs s ! k) (closings k (rl_trace s))) [0..<length (rl_jobs s)]"
  using view_run_relay [OF view_started, of env inputs opens cache unavailable callback answer]
  unfolding Let_def by (simp add: relay_view_def jobs_inv_def list_all_iff)

lemma chain_order:
  assumes "arrived = settled @ map fst c" "called = settled @ map fst (filter snd c)" "list_all (\<lambda>t. \<not> snd t) (tl c)"
  shows "called = take (length called) arrived \<and> settled = take (length settled) called \<and> length called \<le> Suc (length settled)"
proof (cases c)
  case (Cons x xs)
  with assms(3) have "filter snd xs = []" by (simp add: list_all_iff filter_empty_conv)
  then show ?thesis using assms(1,2) Cons by (cases "snd x") simp_all
qed (use assms in simp)

text \<open>
  C39: the callbacks for the terminal messages of a job run in the order the messages
  arrived, each once, and none starts before the one before it has settled.
\<close>

theorem relay_terminals_in_order:
  "let s = run_relay env inputs (relay_connect opens (fresh_client cache unavailable callback answer));
       arrived = of_job j arrived_message (rl_trace s); called = of_job j called_message (rl_trace s);
       settled = of_job j settled_message (rl_trace s)
   in called = take (length called) arrived \<and> settled = take (length settled) called
      \<and> length called \<le> Suc (length settled)"
proof -
  let ?s = "run_relay env inputs (relay_connect opens (fresh_client cache unavailable callback answer))"
  have t: "terms_inv (rl_terminals ?s) (filter handover_mark (rl_trace ?s))"
    using view_run_relay [OF view_started, of env inputs opens cache unavailable callback answer] by (simp add: relay_view_def)
  let ?c = "chain j (rl_terminals ?s)"
  from t have a: "of_job j arrived_message (rl_trace ?s) = of_job j settled_message (rl_trace ?s) @ map fst ?c"
    and c: "of_job j called_message (rl_trace ?s) = of_job j settled_message (rl_trace ?s) @ map fst (filter snd ?c)"
    and n: "list_all (\<lambda>t. \<not> snd t) (tl ?c)" by (simp_all only: terms_inv_def of_job_view)
  show ?thesis unfolding Let_def by (rule chain_order [OF a c n])
qed

text \<open>
  C40: a push nothing disturbs hands the capabilities and then the levels of the ladder derived
  from the cache to the open socket, and ends counted.
\<close>

theorem relay_push_publishes:
  assumes "rl_socket s = Some sid" "rl_ready s sid" "\<not> rl_retired s" "rl_inFlight s = None" "\<not> rl_queued s"
    and "derive_push env now s = Inr (push, sn)"
    and "stale_reason env push sn now s = None" "stale_reason env push sn later s = None"
  shows "let s' = run_relay env [Push_called now, Send_settled True later, Send_settled True latest, Push_turns latest] s
     in ladder_frames s' = ladder_frames s @ [(sid, lp_capabilities push), (sid, lp_priceLevels push)]
        \<and> rl_pushes s' = rl_pushes s + 1 \<and> rl_inFlight s' = None"
proof -
  let ?r = "report_push push now Cause_manual s"
  let ?f1 = "Ladder_frame sid (lp_capabilities push) (rl_cache s) (unavailable_now ?r) now"
  let ?s1 = "(mark_relay ?f1 ?r)\<lparr>rl_inFlight := Some (Awaiting_capabilities sid push sn now Cause_manual True)\<rparr>"
  have 1: "requestPush env Cause_manual now s = ?s1"
    using assms by (simp add: requestPush_def runPush_def isOpen_def sendOn_def)
  have st: "stale_reason env push sn later ?s1 = None"
    using stale_cong [of ?s1 s env push sn later] assms(8) by (simp add: mark_relay_def)
  let ?f2 = "Ladder_frame sid (lp_priceLevels push) (rl_cache s) (unavailable_now ?s1) later"
  let ?s2 = "(mark_relay ?f2 ?s1)\<lparr>rl_inFlight := Some (Awaiting_levels sid True)\<rparr>"
  have 2: "send_settled env True later ?s1 = ?s2"
    using assms st by (simp add: send_settled_def capabilities_settled_def sendOn_def isOpen_def mark_relay_def)
  let ?s3 = "push_returned (emit_event Ev_push Sev_info (?s2\<lparr>rl_pushes := rl_pushes ?s2 + 1\<rparr>))"
  have 3: "send_settled env True latest ?s2 = ?s3" by (simp add: send_settled_def levels_settled_def)
  have 4: "push_turn env latest ?s3 = push_over ?s3"
    using assms(5) by (simp add: push_turn_def push_returned_def emit_event_def mark_relay_def)
  have "run_relay env [Push_called now, Send_settled True later, Send_settled True latest, Push_turns latest] s = push_over ?s3"
    by (simp only: run_relay_def fold.simps relay_step.simps comp_apply id_apply 1 2 3 4)
  moreover have "ladder_frames (push_over ?s3) = ladder_frames s @ [(sid, lp_capabilities push), (sid, lp_priceLevels push)]"
    using report_push_fields(9) [of push now Cause_manual s, unfolded ladder_frames_def]
    by (simp add: push_over_def push_returned_def emit_event_def mark_relay_def ladder_frames_def map_filter_app map_filter_simps)
  moreover have "rl_pushes (push_over ?s3) = rl_pushes s + 1" "rl_inFlight (push_over ?s3) = None"
    by (simp_all add: push_over_def push_returned_def emit_event_def mark_relay_def)
  ultimately show ?thesis by (simp add: Let_def)
qed

definition sample_ladder :: relay_ladder where
  "sample_ladder = \<lparr>ap_supportedPairs = None, ap_minJobOutput = None, ro_expiryMarginSeconds = 120,
     ro_maxParallelSwaps = None, ro_resourceLimits = None\<rparr>"

definition sample_relay :: relay_env where
  "sample_relay = \<lparr>re_ladder = sample_ladder, re_maxFrameBytes = 1048576, re_executesJobs = True,
     re_comparisons = (\<lambda>_. 0), re_errorText = (\<lambda>_. [])\<rparr>"

definition sample_client :: relay_client where
  "sample_client = (relay_connect True (fresh_client \<lparr>lc_book = empty_book, lc_isCurrent = False, lc_isCurrentAt = (\<lambda>_. False)\<rparr>
     (Inr []) None Continue))\<lparr>rl_ready := (\<lambda>sid. sid = 0)\<rparr>"

theorem relay_push_publishes_witness:
  "rl_pushes (run_relay sample_relay [Push_called 5, Send_settled True 6, Send_settled True 7, Push_turns 7] sample_client) = 1"
proof -
  have f: "rl_socket sample_client = Some 0" "rl_ready sample_client 0" "\<not> rl_retired sample_client"
    "rl_inFlight sample_client = None" "\<not> rl_queued sample_client" "rl_pushes sample_client = 0"
    by (simp_all add: sample_client_def relay_connect_def fresh_client_def emit_event_def mark_relay_def Let_def)
  have d: "case derive_push sample_relay 5 sample_client of Inl e \<Rightarrow> False
      | Inr (push, sn) \<Rightarrow> stale_reason sample_relay push sn 5 sample_client = None
          \<and> stale_reason sample_relay push sn 6 sample_client = None"
    by code_simp
  then obtain push sn where p: "derive_push sample_relay 5 sample_client = Inr (push, sn)"
    and s: "stale_reason sample_relay push sn 5 sample_client = None" "stale_reason sample_relay push sn 6 sample_client = None"
    by (auto split: sum.splits)
  from relay_push_publishes [OF f(1-5) p s, of 7] f(6) show ?thesis by (simp add: Let_def)
qed

end
