(* ===== verification/Exact_Contract.thy ===== *)
theory Exact_Contract
  imports Api_Client
begin

text \<open>
  Model of the exact-files read as the two sides of the wire see it:
  \<^verbatim>\<open>packages/solver-core/validation-contract.ts\<close>, \<^verbatim>\<open>packages/solver-core/exact-files-contract.ts\<close>
  and \<open>readExactOfferFiles\<close> of \<^verbatim>\<open>packages/solver-core/api-client.ts\<close>. A parser that accepts a value
  returns that value. \<open>Date\<close> is a parameter: the time a text denotes, and the text of a time.
\<close>

section \<open>Keys and texts\<close>

definition hasKeysBetween :: "json \<Rightarrow> string list \<Rightarrow> string list \<Rightarrow> bool" where
  "hasKeysBetween value required optional = (case value of
     JObj fs \<Rightarrow> list_all (\<lambda>k. k \<in> set (map fst fs)) required \<and> list_all (\<lambda>k. k \<in> set (required @ optional)) (map fst fs)
   | _ \<Rightarrow> False)"

definition isCanonicalOfferId :: "json \<Rightarrow> bool" where
  "isCanonicalOfferId value = (case value of JStr s \<Rightarrow> isLowerHex64 s | _ \<Rightarrow> False)"

definition decimal_up_to :: "nat \<Rightarrow> nat \<Rightarrow> json \<Rightarrow> bool" where
  "decimal_up_to digits maximum value = (case value of
     JStr s \<Rightarrow> positive_decimal s \<and> length s \<le> digits \<and> nat_of_digits s \<le> maximum
   | _ \<Rightarrow> False)"

definition isCanonicalU64 :: "json \<Rightarrow> bool" where
  "isCanonicalU64 value = decimal_up_to 20 (2 ^ 64 - 1) value"

definition isCanonicalPositiveU256 :: "json \<Rightarrow> bool" where
  "isCanonicalPositiveU256 value = decimal_up_to 78 (2 ^ 256 - 1) value"

record date_functions =
  dt_parse :: date_parser
  dt_iso :: "int \<Rightarrow> string"

definition isCanonicalIso :: "date_functions \<Rightarrow> json \<Rightarrow> bool" where
  "isCanonicalIso dates value = (case value of
     JStr s \<Rightarrow> (case dt_parse dates s of None \<Rightarrow> False | Some t \<Rightarrow> dt_iso dates t = s)
   | _ \<Rightarrow> False)"

definition identifier_start :: "char \<Rightarrow> bool" where
  "identifier_start c \<longleftrightarrow> is_digit c \<or> (97 \<le> code_of c \<and> code_of c \<le> 122)"

definition identifier_char :: "char \<Rightarrow> bool" where
  "identifier_char c \<longleftrightarrow> identifier_start c \<or> c \<in> set ''._-''"

definition isProfileIdentifier :: "json \<Rightarrow> bool" where
  "isProfileIdentifier value = (case value of
     JStr (c # cs) \<Rightarrow> length (c # cs) \<le> 64 \<and> identifier_start c \<and> list_all identifier_char cs
   | _ \<Rightarrow> False)"

section \<open>The validation contract\<close>

definition OFFER_VALIDATION_SCHEMA_VERSION :: int where
  "OFFER_VALIDATION_SCHEMA_VERSION = 1"

definition OFFER_VALIDATION_PROFILE :: string where
  "OFFER_VALIDATION_PROFILE = ''offer-files-solver-v1''"

definition OFFER_VALIDATION_MAX_REASON_CHARS :: nat where
  "OFFER_VALIDATION_MAX_REASON_CHARS = 1024"

datatype validation_code =
  V_VALID | V_UNSUPPORTED_PROFILE | V_HASH_MISMATCH | V_NOT_INDEXED | V_NOT_LIVE | V_EXPIRED | V_UNSUPPORTED_SHAPE
| V_BAD_ENCODING | V_TOO_LARGE | V_BAD_DESERIALIZE | V_WRONG_TX_VARIANT | V_NO_SPENDABLE_INPUT | V_NOT_A_SWAP
| V_UNKNOWN_TOKEN | V_ROOT_UNREADABLE | V_NULLIFIER_SPENT | V_UTXO_NOT_LIVE | V_ROOT_UNKNOWN | V_PROOF_INVALID
| V_SIGNATURE_INVALID

fun code_text :: "validation_code \<Rightarrow> string" where
  "code_text V_VALID = ''VALID''"
| "code_text V_UNSUPPORTED_PROFILE = ''UNSUPPORTED_PROFILE''"
| "code_text V_HASH_MISMATCH = ''HASH_MISMATCH''"
| "code_text V_NOT_INDEXED = ''NOT_INDEXED''"
| "code_text V_NOT_LIVE = ''NOT_LIVE''"
| "code_text V_EXPIRED = ''EXPIRED''"
| "code_text V_UNSUPPORTED_SHAPE = ''UNSUPPORTED_SHAPE''"
| "code_text V_BAD_ENCODING = ''BAD_ENCODING''"
| "code_text V_TOO_LARGE = ''TOO_LARGE''"
| "code_text V_BAD_DESERIALIZE = ''BAD_DESERIALIZE''"
| "code_text V_WRONG_TX_VARIANT = ''WRONG_TX_VARIANT''"
| "code_text V_NO_SPENDABLE_INPUT = ''NO_SPENDABLE_INPUT''"
| "code_text V_NOT_A_SWAP = ''NOT_A_SWAP''"
| "code_text V_UNKNOWN_TOKEN = ''UNKNOWN_TOKEN''"
| "code_text V_ROOT_UNREADABLE = ''ROOT_UNREADABLE''"
| "code_text V_NULLIFIER_SPENT = ''NULLIFIER_SPENT''"
| "code_text V_UTXO_NOT_LIVE = ''UTXO_NOT_LIVE''"
| "code_text V_ROOT_UNKNOWN = ''ROOT_UNKNOWN''"
| "code_text V_PROOF_INVALID = ''PROOF_INVALID''"
| "code_text V_SIGNATURE_INVALID = ''SIGNATURE_INVALID''"

definition validationCodes :: "validation_code list" where
  "validationCodes = [V_VALID, V_UNSUPPORTED_PROFILE, V_HASH_MISMATCH, V_NOT_INDEXED, V_NOT_LIVE, V_EXPIRED,
     V_UNSUPPORTED_SHAPE, V_BAD_ENCODING, V_TOO_LARGE, V_BAD_DESERIALIZE, V_WRONG_TX_VARIANT, V_NO_SPENDABLE_INPUT,
     V_NOT_A_SWAP, V_UNKNOWN_TOKEN, V_ROOT_UNREADABLE, V_NULLIFIER_SPENT, V_UTXO_NOT_LIVE, V_ROOT_UNKNOWN,
     V_PROOF_INVALID, V_SIGNATURE_INVALID]"

datatype validation_status = St_live | St_consumed | St_cancelled | St_expired | St_unknown | St_not_indexed

fun status_text :: "validation_status \<Rightarrow> string" where
  "status_text St_live = ''live''"
| "status_text St_consumed = ''consumed''"
| "status_text St_cancelled = ''cancelled''"
| "status_text St_expired = ''expired''"
| "status_text St_unknown = ''unknown''"
| "status_text St_not_indexed = ''not_indexed''"

definition validationStatuses :: "validation_status list" where
  "validationStatuses = [St_live, St_consumed, St_cancelled, St_expired, St_unknown, St_not_indexed]"

definition parseOfferValidationRequest :: "json \<Rightarrow> json option" where
  "parseOfferValidationRequest value =
     (if \<not> hasKeysBetween value [''schemaVersion'', ''profile'', ''offerId'', ''offer''] [] then None
      else if js_get value ''schemaVersion'' \<noteq> JNum (Integral OFFER_VALIDATION_SCHEMA_VERSION) then None
      else if \<not> isProfileIdentifier (js_get value ''profile'') then None
      else if \<not> isCanonicalOfferId (js_get value ''offerId'') then None
      else (case js_get value ''offer'' of JStr (c # cs) \<Rightarrow> Some value | _ \<Rightarrow> None))"

definition isLeg :: "json \<Rightarrow> bool" where
  "isLeg value \<longleftrightarrow> hasKeysBetween value [''token'', ''amount'', ''kind''] []
     \<and> isCanonicalOfferId (js_get value ''token'') \<and> isCanonicalPositiveU256 (js_get value ''amount'')
     \<and> (js_get value ''kind'' = JStr ''SHIELDED'' \<or> js_get value ''kind'' = JStr ''UNSHIELDED'')"

definition legs_of :: "json \<Rightarrow> string \<Rightarrow> json list" where
  "legs_of value k = (case js_get value k of JArr xs \<Rightarrow> xs | _ \<Rightarrow> [])"

definition isComputed :: "date_functions \<Rightarrow> json \<Rightarrow> bool" where
  "isComputed dates value \<longleftrightarrow> hasKeysBetween value [''gives'', ''wants'', ''inputNullifiers'', ''expiresAt''] []
     \<and> legs_of value ''gives'' \<noteq> [] \<and> list_all isLeg (legs_of value ''gives'')
     \<and> legs_of value ''wants'' \<noteq> [] \<and> list_all isLeg (legs_of value ''wants'')
     \<and> (case js_get value ''inputNullifiers'' of
          JArr ns \<Rightarrow> list_all isCanonicalOfferId ns \<and> distinct ns
        | _ \<Rightarrow> False)
     \<and> isCanonicalIso dates (js_get value ''expiresAt'')"

definition isSupportedOfferValidationSemantics :: "json \<Rightarrow> bool" where
  "isSupportedOfferValidationSemantics value =
     (case (legs_of value ''gives'', legs_of value ''wants'') of
        ([give], [want]) \<Rightarrow>
          js_get give ''kind'' = JStr ''SHIELDED'' \<and> js_get want ''kind'' = JStr ''SHIELDED''
          \<and> js_get give ''token'' \<noteq> js_get want ''token'' \<and> legs_of value ''inputNullifiers'' \<noteq> []
      | _ \<Rightarrow> False)"

definition verdict_required :: "string list" where
  "verdict_required = [''schemaVersion'', ''profile'', ''valid'', ''live'', ''claimedOfferId'', ''computedOfferId'',
     ''stateVersion'', ''validatedAt'', ''status'', ''code'']"

definition reason_ok :: "json \<Rightarrow> bool" where
  "reason_ok value = (case value of
     JUndefined \<Rightarrow> True
   | JStr s \<Rightarrow> length s \<le> OFFER_VALIDATION_MAX_REASON_CHARS
   | _ \<Rightarrow> False)"

text \<open>The fields one by one, then what they must say together.\<close>

definition verdict_fields_ok :: "date_functions \<Rightarrow> json \<Rightarrow> bool" where
  "verdict_fields_ok dates value \<longleftrightarrow>
     hasKeysBetween value verdict_required [''reason'', ''computed'']
     \<and> js_get value ''schemaVersion'' = JNum (Integral OFFER_VALIDATION_SCHEMA_VERSION)
     \<and> isProfileIdentifier (js_get value ''profile'')
     \<and> (case js_get value ''valid'' of JBool b \<Rightarrow> True | _ \<Rightarrow> False)
     \<and> (case js_get value ''live'' of JBool b \<Rightarrow> True | _ \<Rightarrow> False)
     \<and> isCanonicalOfferId (js_get value ''claimedOfferId'')
     \<and> (js_get value ''computedOfferId'' = JNull \<or> isCanonicalOfferId (js_get value ''computedOfferId''))
     \<and> isCanonicalU64 (js_get value ''stateVersion'')
     \<and> isCanonicalIso dates (js_get value ''validatedAt'')
     \<and> js_get value ''status'' \<in> set (map (\<lambda>st. JStr (status_text st)) validationStatuses)
     \<and> js_get value ''code'' \<in> set (map (\<lambda>c. JStr (code_text c)) validationCodes)
     \<and> reason_ok (js_get value ''reason'')
     \<and> (js_get value ''computed'' = JUndefined \<or> isComputed dates (js_get value ''computed''))"

definition has_code :: "json \<Rightarrow> validation_code \<Rightarrow> bool" where
  "has_code value c \<longleftrightarrow> js_get value ''code'' = JStr (code_text c)"

definition has_status :: "json \<Rightarrow> validation_status \<Rightarrow> bool" where
  "has_status value st \<longleftrightarrow> js_get value ''status'' = JStr (status_text st)"

definition verdict_coherent :: "json \<Rightarrow> bool" where
  "verdict_coherent value =
     (let valid = (js_get value ''valid'' = JBool True); live = (js_get value ''live'' = JBool True) in
      (if valid then live \<and> has_status value St_live \<and> has_code value V_VALID
              \<and> js_get value ''computedOfferId'' = js_get value ''claimedOfferId''
              \<and> js_get value ''computed'' \<noteq> JUndefined
              \<and> isSupportedOfferValidationSemantics (js_get value ''computed'')
       else \<not> has_code value V_VALID)
      \<and> \<not> (\<not> has_status value St_live \<and> live)
      \<and> \<not> (has_code value V_NOT_INDEXED \<and> \<not> has_status value St_not_indexed)
      \<and> \<not> (has_code value V_NOT_LIVE
             \<and> (live \<or> \<not> list_ex (has_status value) [St_consumed, St_cancelled, St_expired, St_unknown]))
      \<and> \<not> (has_code value V_EXPIRED \<and> (live \<or> \<not> list_ex (has_status value) [St_live, St_expired]))
      \<and> (js_get value ''profile'' = JStr OFFER_VALIDATION_PROFILE) \<noteq> has_code value V_UNSUPPORTED_PROFILE)"

definition parseOfferValidationVerdict :: "date_functions \<Rightarrow> json \<Rightarrow> json option" where
  "parseOfferValidationVerdict dates value =
     (if verdict_fields_ok dates value \<and> verdict_coherent value then Some value else None)"

section \<open>The exact-files contract\<close>

definition EXACT_FILES_SCHEMA_VERSION :: int where
  "EXACT_FILES_SCHEMA_VERSION = 1"

definition EXACT_FILES_PROFILE :: string where
  "EXACT_FILES_PROFILE = OFFER_VALIDATION_PROFILE"

definition MAX_FILES_PER_READ :: nat where
  "MAX_FILES_PER_READ = 8"

definition MAX_EXACT_FILES_RESPONSE_BYTES :: int where
  "MAX_EXACT_FILES_RESPONSE_BYTES = 16 * 1024 * 1024"

definition parseExactFilesRequest :: "json \<Rightarrow> json option" where
  "parseExactFilesRequest value =
     (if \<not> hasKeysBetween value [''schemaVersion'', ''profile'', ''offerIds''] [] then None
      else if js_get value ''schemaVersion'' \<noteq> JNum (Integral EXACT_FILES_SCHEMA_VERSION) then None
      else if \<not> isProfileIdentifier (js_get value ''profile'') then None
      else (case js_get value ''offerIds'' of
         JArr ids \<Rightarrow>
           if ids = [] \<or> length ids > MAX_FILES_PER_READ \<or> \<not> list_all isCanonicalOfferId ids \<or> \<not> distinct ids
           then None else Some value
       | _ \<Rightarrow> None))"

text \<open>One entry: what it may hold, given the profile of the response and the identities before it.\<close>

definition entry_bytes_ok :: "blob_hasher option \<Rightarrow> json \<Rightarrow> json \<Rightarrow> bool" where
  "entry_bytes_ok hashOffer entry verdict =
     (if js_get verdict ''valid'' = JBool True
      then (case js_get entry ''offer'' of
              JStr (c # cs) \<Rightarrow> (case hashOffer of
                 None \<Rightarrow> True
               | Some hasher \<Rightarrow> (case hasher (c # cs) of
                    None \<Rightarrow> False | Some computed \<Rightarrow> JStr computed = js_get entry ''offerId''))
            | _ \<Rightarrow> False)
      else js_get entry ''offer'' = JUndefined)"

definition exact_entry_ok :: "date_functions \<Rightarrow> blob_hasher option \<Rightarrow> json \<Rightarrow> json list \<Rightarrow> json \<Rightarrow> bool" where
  "exact_entry_ok dates hashOffer profile seen entry \<longleftrightarrow>
     hasKeysBetween entry [''offerId'', ''verdict''] [''offer'']
     \<and> isCanonicalOfferId (js_get entry ''offerId'') \<and> js_get entry ''offerId'' \<notin> set seen
     \<and> (case parseOfferValidationVerdict dates (js_get entry ''verdict'') of
          None \<Rightarrow> False
        | Some verdict \<Rightarrow> js_get verdict ''profile'' = profile
            \<and> js_get verdict ''claimedOfferId'' = js_get entry ''offerId''
            \<and> entry_bytes_ok hashOffer entry verdict)"

fun entries_ok :: "date_functions \<Rightarrow> blob_hasher option \<Rightarrow> json \<Rightarrow> json list \<Rightarrow> json list \<Rightarrow> bool" where
  "entries_ok dates hashOffer profile seen [] = True"
| "entries_ok dates hashOffer profile seen (entry # entries) =
     (exact_entry_ok dates hashOffer profile seen entry
      \<and> entries_ok dates hashOffer profile (seen @ [js_get entry ''offerId'']) entries)"

definition parseExactFilesResponse :: "date_functions \<Rightarrow> blob_hasher option \<Rightarrow> json \<Rightarrow> json option" where
  "parseExactFilesResponse dates hashOffer value =
     (if \<not> hasKeysBetween value [''schemaVersion'', ''profile'', ''files''] [] then None
      else if js_get value ''schemaVersion'' \<noteq> JNum (Integral EXACT_FILES_SCHEMA_VERSION) then None
      else if \<not> isProfileIdentifier (js_get value ''profile'') then None
      else (case js_get value ''files'' of
         JArr files \<Rightarrow>
           if files = [] \<or> length files > MAX_FILES_PER_READ then None
           else if entries_ok dates hashOffer (js_get value ''profile'') [] files then Some value else None
       | _ \<Rightarrow> None))"

definition files_of :: "json \<Rightarrow> json list" where
  "files_of response = (case js_get response ''files'' of JArr files \<Rightarrow> files | _ \<Rightarrow> [])"

definition exactFileEntry :: "json \<Rightarrow> string \<Rightarrow> json option" where
  "exactFileEntry response offerId = find (\<lambda>entry. js_get entry ''offerId'' = JStr offerId) (files_of response)"

section \<open>The client\<close>

definition exact_files_request :: "string list \<Rightarrow> json" where
  "exact_files_request offerIds = JObj [(''schemaVersion'', JNum (Integral EXACT_FILES_SCHEMA_VERSION)),
     (''profile'', JStr EXACT_FILES_PROFILE), (''offerIds'', JArr (map JStr offerIds))]"

definition accept_exact_files :: "date_functions \<Rightarrow> blob_hasher \<Rightarrow> string list \<Rightarrow> json \<Rightarrow> json api_result" where
  "accept_exact_files dates hasher canonical body =
     (case parseExactFilesResponse dates (Some hasher) body of
        None \<Rightarrow> Inl Api_malformed
      | Some parsed \<Rightarrow>
          if js_get parsed ''profile'' \<noteq> JStr EXACT_FILES_PROFILE
             \<or> map (\<lambda>entry. js_get entry ''offerId'') (files_of parsed) \<noteq> map JStr canonical
          then Inl Api_malformed else Inr parsed)"

definition take_exact_files :: "date_functions \<Rightarrow> blob_hasher \<Rightarrow> ('b list \<Rightarrow> json option) \<Rightarrow> string list
    \<Rightarrow> int \<times> string option \<times> 'b body_part list option \<Rightarrow> json api_result" where
  "take_exact_files dates hasher parse canonical response = (case response of (status, contentLength, body) \<Rightarrow>
     if \<not> (200 \<le> status \<and> status \<le> 299) then Inl (Api_http status)
     else bindR (parseBoundedJson parse MAX_EXACT_FILES_RESPONSE_BYTES contentLength body)
            (accept_exact_files dates hasher canonical))"

text \<open>How the request ends is a function of what is sent: a response with its status, the header that
  declares its length and its body as it is read, or a failure before that.\<close>

definition readExactOfferFiles :: "date_functions \<Rightarrow> blob_hasher \<Rightarrow> ('b list \<Rightarrow> json option) \<Rightarrow> int option \<Rightarrow> bool \<Rightarrow> bool
    \<Rightarrow> (json \<Rightarrow> (int \<times> string option \<times> 'b body_part list option) run_outcome) \<Rightarrow> string list \<Rightarrow> json api_result" where
  "readExactOfferFiles dates hasher parse timeoutMs timedOut aborted post offerIds =
     bindR (mapR canonicalOfferHash offerIds) (\<lambda>canonical.
       if parseExactFilesRequest (exact_files_request canonical) = None then Inl Api_malformed
       else withRequestDeadline timeoutMs timedOut aborted
         (case post (exact_files_request canonical) of
            Returned response \<Rightarrow>
              (case take_exact_files dates hasher parse canonical response of
                 Inl failure \<Rightarrow> Threw_api failure | Inr files \<Rightarrow> Returned files)
          | Threw_api failure \<Rightarrow> Threw_api failure
          | Threw_other \<Rightarrow> Threw_other
          | Abort_won \<Rightarrow> Abort_won))"

section \<open>What the client hands on\<close>

text \<open>An entry the client may use: the requested identity, a verdict of this profile claimed for it, and
  bytes exactly when that verdict is valid, which then decode and hash to the identity.\<close>

definition bound_entry :: "blob_hasher \<Rightarrow> string \<Rightarrow> json \<Rightarrow> bool" where
  "bound_entry hasher offerId entry \<longleftrightarrow>
     js_get entry ''offerId'' = JStr offerId
     \<and> js_get (js_get entry ''verdict'') ''claimedOfferId'' = JStr offerId
     \<and> js_get (js_get entry ''verdict'') ''profile'' = JStr EXACT_FILES_PROFILE
     \<and> (case js_get entry ''offer'' of
          JStr blob \<Rightarrow> js_get (js_get entry ''verdict'') ''valid'' = JBool True \<and> hasher blob = Some offerId
        | JUndefined \<Rightarrow> js_get (js_get entry ''verdict'') ''valid'' = JBool False
        | _ \<Rightarrow> False)"

lemma parse_verdict_Some: "parseOfferValidationVerdict dates v = Some w \<longleftrightarrow>
    w = v \<and> verdict_fields_ok dates v \<and> verdict_coherent v"
  by (auto simp: parseOfferValidationVerdict_def)

lemma exact_entry_bound:
  assumes "exact_entry_ok dates (Some hasher) (JStr EXACT_FILES_PROFILE) seen entry" "js_get entry ''offerId'' = JStr offerId"
  shows "bound_entry hasher offerId entry"
proof -
  obtain v where v: "v = js_get entry ''verdict''" "verdict_fields_ok dates v" "js_get v ''profile'' = JStr EXACT_FILES_PROFILE"
    "js_get v ''claimedOfferId'' = JStr offerId" "entry_bytes_ok (Some hasher) entry v"
    using assms by (auto simp: exact_entry_ok_def parse_verdict_Some split: option.splits)
  from v(2) obtain b where b: "js_get v ''valid'' = JBool b"
    by (auto simp: verdict_fields_ok_def split: json.splits)
  have "case js_get entry ''offer'' of
          JStr blob \<Rightarrow> js_get v ''valid'' = JBool True \<and> hasher blob = Some offerId
        | JUndefined \<Rightarrow> js_get v ''valid'' = JBool False
        | _ \<Rightarrow> False"
    using v(5) b assms(2) by (cases b) (auto simp: entry_bytes_ok_def split: json.splits list.splits option.splits)
  with v(2-4) assms(2) show ?thesis unfolding bound_entry_def v(1) [symmetric] by blast
qed

lemma entries_ok_all: "entries_ok dates h profile seen es \<Longrightarrow> e \<in> set es \<Longrightarrow> \<exists>seen'. exact_entry_ok dates h profile seen' e"
  by (induction es arbitrary: seen) auto

lemma map_JStr_inj: "map JStr xs = map JStr ys \<longleftrightarrow> xs = ys"
  by (simp add: inj_map_eq_map inj_def)

lemma mapR_canonical: "mapR canonicalOfferHash ids = Inr canonical \<Longrightarrow> canonical = ids \<and> list_all isLowerHex64 ids"
  by (induction ids arbitrary: canonical) (auto simp: canonicalOfferHash_def bindR_eq_Inr split: if_splits)

lemma accepted_bound:
  assumes "accept_exact_files dates hasher ids body = Inr response"
  shows "list_all2 (bound_entry hasher) ids (files_of response)"
proof -
  from assms have p: "parseExactFilesResponse dates (Some hasher) body = Some response"
    and pr: "js_get response ''profile'' = JStr EXACT_FILES_PROFILE"
    and ids: "map (\<lambda>entry. js_get entry ''offerId'') (files_of response) = map JStr ids"
    by (auto simp: accept_exact_files_def split: option.splits if_splits)
  from p have eo: "entries_ok dates (Some hasher) (js_get response ''profile'') [] (files_of response)"
    by (auto simp: parseExactFilesResponse_def files_of_def split: if_splits json.splits)
  have len: "length (files_of response) = length ids" using arg_cong [OF ids, of length] by simp
  show ?thesis
  proof (rule list_all2_all_nthI)
    fix i assume i: "i < length ids"
    then have m: "files_of response ! i \<in> set (files_of response)" using len by simp
    have "js_get (files_of response ! i) ''offerId'' = JStr (ids ! i)"
      using arg_cong [OF ids, of "\<lambda>xs. xs ! i"] i len by simp
    with entries_ok_all [OF eo m] pr show "bound_entry hasher (ids ! i) (files_of response ! i)"
      using exact_entry_bound by auto
  qed (simp add: len)
qed

text \<open>
  Whatever the server answers, what \<open>readExactOfferFiles\<close> hands on has one entry for
  each requested identity, in the order requested, and bytes exactly where the verdict is valid; and
  those bytes decode and hash to the identity.
\<close>

theorem exact_files_bound:
  "case readExactOfferFiles dates hasher parse timeoutMs timedOut aborted post offerIds of
     Inl failure \<Rightarrow> True
   | Inr response \<Rightarrow> list_all2 (bound_entry hasher) offerIds (files_of response)"
proof (cases "readExactOfferFiles dates hasher parse timeoutMs timedOut aborted post offerIds")
  case (Inr response)
  then obtain canonical body where "mapR canonicalOfferHash offerIds = Inr canonical"
    "accept_exact_files dates hasher canonical body = Inr response"
    by (auto simp: readExactOfferFiles_def withRequestDeadline_def take_exact_files_def bindR_eq_Inr
        split: if_splits prod.splits run_outcome.splits sum.splits)
  with mapR_canonical accepted_bound Inr show ?thesis by fastforce
qed simp

end
