(* ===== verification/Spec2Isabelle.thy ===== *)
theory Spec2Isabelle
  imports Swap_Outcome Journal_Outcome Offer_Index_Outcome Event_Bus Book_Sync_Replay Relay_Client_Correct Exact_Contract
begin

text \<open>
  Verification development of the zswap offer-files kernel.

  \<^bold>\<open>The program.\<close> Makers publish signed offers to exchange tokens as blobs on a data availability chain.
  A \<^emph>\<open>node\<close> (\<^verbatim>\<open>packages/node\<close>, \<^verbatim>\<open>packages/validator\<close>, \<^verbatim>\<open>packages/offer-guard\<close>, \<^verbatim>\<open>packages/database\<close>) reads the
  blobs and the ledger, validates each offer, keeps an index of the live and the archived ones and tells its
  clients of every change over a websocket. A \<^emph>\<open>solver\<close> (\<^verbatim>\<open>packages/solver\<close>, \<^verbatim>\<open>packages/solver-core\<close>) mirrors
  the index in a book, derives from it a ladder of prices for whole offers, publishes the ladder to a relay, and
  answers the swap jobs the relay brings: it reserves the offers and coins of a route, builds its half of the
  transaction under a durable journal, hands it over, and settles or reverts on what the relay and the ledger
  report.

  \<^bold>\<open>How the parts meet.\<close>
  Blob and ledger inputs run the index state machine; its events pass the event gate, which holds them until
  their block is committed, and reach the update stream; the solver's book mirror follows that stream and the
  listing endpoint; the ladder source derives from the book, the clock and the offers in use; the relay client
  pushes what it derives and passes swap jobs to the executor; the executor uses the stock, the journal, the
  same derivation, the exact offer files and the wallet. Each arrow is modelled at both of its ends.

  \<^bold>\<open>Theories and sources.\<close>
  \<^item> \<^theory_text>\<open>Prelude\<close>, \<^theory_text>\<open>Collections\<close>, \<^theory_text>\<open>Bytes\<close>: thrown errors and results, untyped JSON values, ASCII strings with
    the order of the language, decimal and hexadecimal text, insertion-ordered maps, indexes, keyed stores.
    \<^theory_text>\<open>keyed_store\<close> is the interface of a store of identified values; the offer book provides it.
  \<^item> \<^theory_text>\<open>Whole_Offer\<close>, \<^theory_text>\<open>Merge_Order\<close>: \<^verbatim>\<open>solver-core/whole-offer-balance.ts\<close>. Exact accounting of sets of offers, what
    a trade leaves the solver, and the search for a merge order in which every prefix stays representable.
  \<^item> \<^theory_text>\<open>Ladder_Schema\<close>, \<^theory_text>\<open>Relay_Contract\<close>: \<^verbatim>\<open>ladder-schema.ts\<close> and \<^verbatim>\<open>relay-ws-contract.ts\<close>, two implementations of one
    wire contract over untyped JSON. \<^theory_text>\<open>ladder_quoter\<close> is the interface of a quote by interpolation; both provide it.
  \<^item> \<^theory_text>\<open>Ladder_Limits\<close>, \<^theory_text>\<open>Token_Sets\<close>, \<^theory_text>\<open>Ladder_Discovery\<close>, \<^theory_text>\<open>Ladder_Search\<close>, \<^theory_text>\<open>Ladder_Frontier\<close>, \<^theory_text>\<open>Ladder_Derivation\<close>,
    \<^theory_text>\<open>Ladder_Frames\<close>: \<^verbatim>\<open>ladder-derivation.ts\<close> and \<^verbatim>\<open>admission-policy.ts\<close> phase by phase: limits and budgets, the
    union-find, the discovery graph, the depth-first search of a pair, the frontier that is published, the
    derivation, the frames. \<^theory_text>\<open>Ladder_Graph\<close>, \<^theory_text>\<open>Ladder_Search_Correct\<close>, \<^theory_text>\<open>Ladder_Derivation_Correct\<close>,
    \<^theory_text>\<open>Ladder_Optimal\<close>, \<^theory_text>\<open>Ladder_Outcome\<close> prove them: the graph is reachability, the search is exhaustive, a published
    pair quotes the optimum over all admissible sets, the budgets hold.
  \<^item> \<^theory_text>\<open>Offer_Book\<close>, \<^theory_text>\<open>Ladder_Source\<close>, \<^theory_text>\<open>Stock\<close>: \<^verbatim>\<open>solver/src/book.ts\<close>, \<^verbatim>\<open>ladder.ts\<close>, \<^verbatim>\<open>ladder-source.ts\<close>, \<^verbatim>\<open>stock.ts\<close>.
  \<^item> \<^theory_text>\<open>Journal\<close>, \<^theory_text>\<open>Journal_Correct\<close>, \<^theory_text>\<open>Journal_Outcome\<close>: \<^verbatim>\<open>operation-journal.ts\<close>. The rows of its two tables as lists, one
    function per operation, a refused transaction leaving them unchanged; \<^theory_text>\<open>journal_step\<close> and \<^theory_text>\<open>journal_run\<close> are the
    runs of its operations.
  \<^item> \<^theory_text>\<open>Swap_State\<close>, \<^theory_text>\<open>Swap_Route\<close>, \<^theory_text>\<open>Swap_Exact\<close>, \<^theory_text>\<open>Receipt_Contract\<close>, \<^theory_text>\<open>Swap_Build\<close>, \<^theory_text>\<open>Swap_Executor\<close>, \<^theory_text>\<open>Swap_Reconcile\<close>:
    \<^verbatim>\<open>swap-job-executor.ts\<close> with \<^verbatim>\<open>receipt-client.ts\<close> and the merge of \<^verbatim>\<open>batcher.ts\<close>. The executor is one record
    (\<^theory_text>\<open>executor\<close>: the job maps, the stock, the journal, the log of wallet calls) and its handlers are
    programs of a state and exception monad (\<^theory_text>\<open>exec\<close>). \<^theory_text>\<open>Swap_Logic\<close> is a program logic for that monad;
    \<^theory_text>\<open>executor_frame\<close> and \<^theory_text>\<open>executor_invariant\<close> in \<^theory_text>\<open>Swap_Safety\<close> are the interface of an invariant of all
    handlers, discharged for the log of wallet calls, the history of the journal, and a stock that only a release
    changes; \<^theory_text>\<open>Swap_Closing\<close> and \<^theory_text>\<open>Swap_Outcome\<close> show when a
    job's claim leaves the stock and what an answer with a transaction requires.
  \<^item> \<^theory_text>\<open>Update_Stream\<close>: \<^verbatim>\<open>offer-updates-contract.ts\<close>, \<^verbatim>\<open>node/offer-updates-stream.ts\<close> and the stream client of
    \<^verbatim>\<open>api-client.ts\<close>: both ends and an arbitrary network between them.
  \<^item> \<^theory_text>\<open>Api_Client\<close>, \<^theory_text>\<open>Book_Sync\<close>: the request helpers and parsers of \<^verbatim>\<open>api-client.ts\<close>, and \<^verbatim>\<open>book-sync.ts\<close>. A step of
    the mirror runs from an external input, or the answer a task awaits, to the next wait, so that every
    interleaving is a list of inputs. \<^theory_text>\<open>Book_Sync_Correct\<close> proves when the mirror may call itself current;
    \<^theory_text>\<open>Book_Sync_Replay\<close> that its book is what the updates it took up leave.
  \<^item> \<^theory_text>\<open>Exact_Contract\<close>: \<^verbatim>\<open>validation-contract.ts\<close>, \<^verbatim>\<open>exact-files-contract.ts\<close> and the read of exact files in
    \<^verbatim>\<open>api-client.ts\<close>; \<^theory_text>\<open>exact_files_bound\<close> there says what the client hands on.
  \<^item> \<^theory_text>\<open>Relay_Client\<close>, \<^theory_text>\<open>Relay_Client_Correct\<close>: \<^verbatim>\<open>relay-client.ts\<close> in the same style: the push loop, socket generations,
    jobs, terminal callbacks, withdrawal and stop.
  \<^item> \<^theory_text>\<open>Event_Bus\<close>: \<^verbatim>\<open>node/event-bus.ts\<close>, specified by the calls made to it alone.
  \<^item> \<^theory_text>\<open>Offer_Transaction\<close>, \<^theory_text>\<open>Offer_Validation\<close>, \<^theory_text>\<open>Offer_Guard\<close> with \<^theory_text>\<open>Offer_Validation_Correct\<close>: \<^verbatim>\<open>packages/validator\<close> and
    \<^verbatim>\<open>packages/offer-guard/mod.ts\<close>. The third-party ledger is the record \<^theory_text>\<open>ledger\<close> of the functions the code calls.
  \<^item> \<^theory_text>\<open>Index_Db\<close>, \<^theory_text>\<open>Offer_Index\<close> with \<^theory_text>\<open>Offer_Index_Correct\<close>, \<^theory_text>\<open>Offer_Index_Run\<close>, \<^theory_text>\<open>Offer_Index_Outcome\<close>: the tables of
    \<^verbatim>\<open>000-init.sql\<close>, the queries that the state machine runs on them, and \<^verbatim>\<open>node/state-machine.ts\<close> with
    \<^verbatim>\<open>marker-dedup.ts\<close>, \<^verbatim>\<open>offer-liveness.ts\<close> and \<^verbatim>\<open>app-input-savepoint.ts\<close>.
\<close>

text \<open>
  \<^bold>\<open>Conventions.\<close> Numbers and bigints are integers; where the code compares with a maximum of the wire (signed
  128-bit balances, 64-bit heights, safe integers) the comparison is written out. A thrown error is \<open>Inl\<close>. A dictionary
  whose order matters is an association list. Records carry a two-letter prefix per type. What another party
  answers (a clock, a request, the wallet, the ledger library, \<open>Date.parse\<close>, a digest) is an argument or a field of
  the environment record of the definition that uses it, so that every theorem holds for all of its answers; where
  the answer may differ from call to call it is a function of a tick that counts the calls. Observers and
  diagnostics are marks in a trace or left out.

  \<^bold>\<open>What the theorems show.\<close>
  \<^item> Prices: a derivation always returns, each published pair quotes the best payout of any admissible set of
    offers and refuses anything outside its range, within the budgets; the relay accepts what is built (C1, C5,
    C28, C29, C30). Accounting conserves every token, and the merge order is found exactly when there is one
    (C3, C12, C38).
  \<^item> Publication: a ladder handed to a relay socket is optimal for the book at that moment, none follows a
    withdrawal, every job is answered once on its own socket, terminal callbacks keep their order, and an
    undisturbed push does publish (C2, C6, C7, C39, C40).
  \<^item> The mirror: the stream loses nothing between server and client, no update is lost across a snapshot or left
    without its effect, a removed offer stays away, and currentness means what it says (C4, C8, C14, C15, C31,
    C32).
  \<^item> Settlement: routes are backed by stock and value, every wallet call is durably authorized before it is made,
    a transaction is answered only with exact inverse and durable state, and wherever the executor gives a claim
    back every row of the job is terminal (C9, C10, C13, C16, C33, C34).
  \<^item> The journal: its invariant, life cycle, round trip, progress and fee ceiling (C17, C18, C35, C36, C37).
  \<^item> The index: its invariant, what a blob does to it on every path, archiving with cause, consumption, expiry,
    recent roots, fills, validation and the guard, the event gate (C11, C19 to C27).

  \<^bold>\<open>Termination and bounds.\<close> No definition takes fuel. Recursion is structural, or by a measure the code bounds itself:
  pages still allowed in a snapshot walk, masks in the merge-order loop, tokens not yet removed from the graph, rungs
  of a ladder. The two loops of the union-find may run for ever on a cyclic array: there \<open>None\<close> is not returning, and
  they, and the derivation that uses them, are proved to return on every array the code builds. Loops that wait for the outside (reconnection, push, sweep) are steps, one per
  event. A job's build may be cut by its deadline at any awaited wallet call, and its late completion is modelled.

  \<^bold>\<open>Not modelled.\<close> The SQLite encoding of the journal (canonical JSON, schema, migration); the bounded HTTP reads of the
  receipt client; read-only listings, prices, valuation and statistics of the node; the node's side of its exact-file and
  validation endpoints; configuration, process start and shutdown; the status document and its frontend; the price feed; the
  batching service, which is a third-party framework with adapters; the offer poster, scripts, examples,
  documentation pages and tests. They read what is modelled or carry it to and from the outside; the ledger, the
  wallet, the chain engine and the data availability layer are third-party and appear as arguments only.
\<close>

end
